(* ===== verification/Prelude.thy ===== *)
theory Prelude
  imports Main "HOL-Library.Word" "HOL-Library.Monad_Syntax"
begin

text \<open>
  Shared vocabulary of the development: the machine types of the target (an RP2040, so
  \<open>int\<close>, \<open>unsigned\<close>, \<open>size_t\<close> and pointers are 32 bits wide and plain \<open>char\<close> is unsigned),
  reads and writes of C arrays with their bounds made explicit, and the generic facts on lists
  and words that several components use.

  A computation that may run into undefined behaviour (an access outside of an array, an
  unchecked null pointer) has an \<open>option\<close> type: \<^term>\<open>None\<close> is the undefined behaviour.
\<close>

unbundle bit_operations_syntax

section \<open>Machine types\<close>

type_synonym u8 = "8 word"
type_synonym u16 = "16 word"
type_synonym u32 = "32 word"
type_synonym u64 = "64 word"

named_theorems array_simps "reads and writes of C arrays"
named_theorems word_bits "bit-level characterisations"

section \<open>C arrays\<close>

text \<open>An access to element \<open>i\<close> of an array object: undefined outside of the object.\<close>

definition rd :: "'a list \<Rightarrow> nat \<Rightarrow> 'a option" where
  "rd buf i = (if i < length buf then Some (buf ! i) else None)"

definition wr :: "'a list \<Rightarrow> nat \<Rightarrow> 'a \<Rightarrow> 'a list option" where
  "wr buf i x = (if i < length buf then Some (buf[i := x]) else None)"

text \<open>\<open>memcpy(buf + off, src, n)\<close> with \<open>n\<close> the length of \<open>src\<close>; \<open>memset(buf, x, sizeof buf)\<close>.\<close>

definition memcpy :: "'a list \<Rightarrow> nat \<Rightarrow> 'a list \<Rightarrow> 'a list option" where
  "memcpy buf off src =
     (if off + length src \<le> length buf
      then Some (take off buf @ src @ drop (off + length src) buf) else None)"

definition memset :: "'a list \<Rightarrow> 'a \<Rightarrow> 'a list" where
  "memset buf x = replicate (length buf) x"

lemma rd_Some_iff [array_simps]: "rd buf i = Some x \<longleftrightarrow> i < length buf \<and> buf ! i = x"
  by (auto simp: rd_def)

lemma rd_None_iff [array_simps]: "rd buf i = None \<longleftrightarrow> length buf \<le> i"
  by (auto simp: rd_def)

lemma rd_in [simp]: "i < length buf \<Longrightarrow> rd buf i = Some (buf ! i)"
  by (simp add: rd_def)

lemma length_memset [simp]: "length (memset buf x) = length buf"
  by (simp add: memset_def)

lemma memcpy_length: "memcpy buf off src = Some buf' \<Longrightarrow> length buf' = length buf"
  by (auto simp: memcpy_def split: if_splits)

section \<open>Words\<close>

lemma bit_ucast_u8 [word_bits]:
  "bit (ucast (b :: 'a::len word) :: 'b::len word) n \<longleftrightarrow> n < LENGTH('b) \<and> bit b n"
  by (simp add: bit_ucast_iff)

lemma drop_bit_xor_word: "drop_bit n ((a :: 'a::len word) XOR b) = drop_bit n a XOR drop_bit n b"
  by (rule bit_word_eqI) (simp add: bit_drop_bit_eq bit_xor_iff)

lemma push_bit_xor_word: "push_bit n ((a :: 'a::len word) XOR b) = push_bit n a XOR push_bit n b"
  by (rule bit_word_eqI) (auto simp: bit_push_bit_iff bit_xor_iff)

lemma xor_left_cancel_word: "(a :: 'a::len word) XOR b = a XOR c \<longleftrightarrow> b = c"
  by (metis xor.assoc xor_self_eq xor.left_neutral)

lemma xor_right_cancel_word: "(b :: 'a::len word) XOR a = c XOR a \<longleftrightarrow> b = c"
  by (metis xor.assoc xor_self_eq xor.right_neutral)

lemma ucast_eq_iff_up:
  assumes "LENGTH('a::len) \<le> LENGTH('b::len)"
  shows "(ucast (a :: 'a word) :: 'b word) = ucast b \<longleftrightarrow> a = b"
  by (metis assms ucast_up_ucast_id is_up)

lemma unat_ucast_64: "unat (ucast (x :: u32) :: u64) = unat x"
proof -
  have "unat x < 2 ^ 64" using unsigned_less [of x, where ?'a = nat] by simp
  then show ?thesis by (simp add: unsigned_ucast_eq take_bit_nat_eq_self_iff)
qed

text \<open>The measure of a loop that counts a 32-bit number down to one.\<close>

lemma unat_dec2: "(x :: u32) \<noteq> 1 \<Longrightarrow> unat (x - 2) < unat (x - 1)"
  using measure_unat [of "x - 1"] by (simp add: diff_diff_eq)

text \<open>Evaluation of an iterated operation on a literal, innermost application first.\<close>

lemma funpow_numeral_right: "(f ^^ numeral k) x = (f ^^ pred_numeral k) (f x)"
  by (simp add: numeral_eq_Suc funpow_swap1)

lemma funpow_Suc_0_right: "((f :: 'a \<Rightarrow> 'a) ^^ Suc 0) x = f x"
  by simp

lemmas funpow_eval = funpow_numeral_right funpow_Suc_0_right

section \<open>Lists\<close>

lemma foldl_Cons_append: "foldl f s (xs @ y # ys) = foldl f (f (foldl f s xs) y) ys"
  by simp

lemma take_eq_same_prefix: "n \<le> m \<Longrightarrow> take m xs = take m ys \<Longrightarrow> take n xs = take n ys"
  by (metis min.absorb1 take_take)

end
