(* ===== verification/C_Strings.thy ===== *)
theory C_Strings
  imports Prelude
begin

text \<open>
  The part of the C library's string functions that the firmware calls. A C string is a
  \<^typ>\<open>string\<close> without its terminating zero. Conversions to \<open>int\<close> that do not fit saturate, as
  they do in newlib, the C library of the target.

  The lemmas give the round trips between \<open>printf\<close> and \<open>scanf\<close> conversions that the log format of
  the packet parser relies on.
\<close>

section \<open>Decimal numbers\<close>

definition digit_char :: "nat \<Rightarrow> char" where
  "digit_char d = char_of (48 + d)"

definition is_digit :: "char \<Rightarrow> bool" where
  "is_digit c \<longleftrightarrow> 48 \<le> (of_char c :: nat) \<and> (of_char c :: nat) \<le> 57"

definition digit_val :: "char \<Rightarrow> nat" where
  "digit_val c = of_char c - 48"

fun dec_digits :: "nat \<Rightarrow> string" where
  "dec_digits n =
     (if n < 10 then [digit_char n] else dec_digits (n div 10) @ [digit_char (n mod 10)])"

declare dec_digits.simps [simp del]

definition dec_value :: "string \<Rightarrow> nat" where
  "dec_value ds = foldl (\<lambda>v c. 10 * v + digit_val c) 0 ds"

text \<open>The conversions \<open>%d\<close> and \<open>%0wd\<close>.\<close>

definition fmt_d :: "int \<Rightarrow> string" where
  "fmt_d i = (if i < 0 then CHR ''-'' # dec_digits (nat (- i)) else dec_digits (nat i))"

definition fmt_0d :: "nat \<Rightarrow> int \<Rightarrow> string" where
  "fmt_0d w i =
     (let s = dec_digits (nat \<bar>i\<bar>)
      in if i < 0 then CHR ''-'' # replicate (w - 1 - length s) CHR ''0'' @ s
         else replicate (w - length s) CHR ''0'' @ s)"

text \<open>
  \<open>snprintf(buf, n, ...)\<close> for the formatted \<open>text\<close>: the string left in \<open>buf\<close> and the value returned.
\<close>

definition snprintf :: "nat \<Rightarrow> string \<Rightarrow> string \<times> nat" where
  "snprintf n text = (take (n - 1) text, length text)"

section \<open>Searching and comparing\<close>

fun strstr :: "string \<Rightarrow> string \<Rightarrow> string option" where
  "strstr hay needle =
     (if take (length needle) hay = needle then Some hay
      else case hay of [] \<Rightarrow> None | _ # cs \<Rightarrow> strstr cs needle)"

declare strstr.simps [simp del]

definition strncmp_eq :: "string \<Rightarrow> string \<Rightarrow> nat \<Rightarrow> bool" where
  "strncmp_eq a b n \<longleftrightarrow> take n a = take n b"

fun strrchr :: "string \<Rightarrow> char \<Rightarrow> string option" where
  "strrchr [] c = None"
| "strrchr (x # xs) c =
     (case strrchr xs c of Some r \<Rightarrow> Some r | None \<Rightarrow> if x = c then Some (x # xs) else None)"

text \<open>One call of \<open>strtok\<close> with one delimiter: the token and the rest that the next call scans.\<close>

definition strtok :: "char \<Rightarrow> string \<Rightarrow> (string \<times> string) option" where
  "strtok d s =
     (let u = dropWhile (\<lambda>c. c = d) s; t = takeWhile (\<lambda>c. c \<noteq> d) u
      in if t = [] then None else Some (t, drop (Suc (length t)) u))"

section \<open>Scanning\<close>

definition isspace :: "char \<Rightarrow> bool" where
  "isspace c \<longleftrightarrow> (of_char c :: nat) \<in> {9, 10, 11, 12, 13, 32}"

definition saturate_int :: "int \<Rightarrow> int" where
  "saturate_int i = max (- 2147483648) (min 2147483647 i)"

definition scan_int :: "string \<Rightarrow> (int \<times> string) option" where
  "scan_int s =
     (let (neg, r) = (case s of [] \<Rightarrow> (False, [])
                      | c # cs \<Rightarrow> if c = CHR ''-'' then (True, cs)
                                  else if c = CHR ''+'' then (False, cs) else (False, s));
          ds = takeWhile is_digit r; v = int (dec_value ds)
      in if ds = [] then None
         else Some (saturate_int (if neg then - v else v), drop (length ds) r))"

definition atoi :: "string \<Rightarrow> int" where
  "atoi s = (case scan_int (dropWhile isspace s) of None \<Rightarrow> 0 | Some (i, _) \<Rightarrow> i)"

text \<open>
  The directives of the \<open>sscanf\<close> formats in use: \<open>%w[^,]\<close>, an ordinary character, white space,
  \<open>%d\<close> and \<open>%ws\<close>. The result lists the values assigned before the first directive that fails.
\<close>

datatype scan_dir = Not_comma nat | Lit char | White | Dec | Str nat

datatype scan_val = Sval string | Ival int

fun sscanf :: "scan_dir list \<Rightarrow> string \<Rightarrow> scan_val list" where
  "sscanf [] s = []"
| "sscanf (White # ds) s = sscanf ds (dropWhile isspace s)"
| "sscanf (Lit c # ds) s =
     (case s of [] \<Rightarrow> [] | x # xs \<Rightarrow> if x = c then sscanf ds xs else [])"
| "sscanf (Not_comma w # ds) s =
     (let t = takeWhile (\<lambda>c. c \<noteq> CHR '','') (take w s)
      in if t = [] then [] else Sval t # sscanf ds (drop (length t) s))"
| "sscanf (Dec # ds) s =
     (case scan_int (dropWhile isspace s) of
        None \<Rightarrow> [] | Some (i, r) \<Rightarrow> Ival i # sscanf ds r)"
| "sscanf (Str w # ds) s =
     (let u = dropWhile isspace s; t = takeWhile (\<lambda>c. \<not> isspace c) (take w u)
      in if t = [] then [] else Sval t # sscanf ds (drop (length t) u))"

section \<open>Facts on numbers\<close>

lemma of_digit_char [simp]: "d < 10 \<Longrightarrow> of_char (digit_char d) = 48 + d"
  by (simp add: digit_char_def)

lemma is_digit_digit_char [simp]: "d < 10 \<Longrightarrow> is_digit (digit_char d)"
  by (simp add: is_digit_def)

lemma digit_val_digit_char [simp]: "d < 10 \<Longrightarrow> digit_val (digit_char d) = d"
  by (simp add: digit_val_def)

lemma dec_digits_small: "n < 10 \<Longrightarrow> dec_digits n = [digit_char n]"
  by (subst dec_digits.simps) simp

lemma dec_digits_big: "10 \<le> n \<Longrightarrow> dec_digits n = dec_digits (n div 10) @ [digit_char (n mod 10)]"
  by (subst dec_digits.simps) simp

lemma dec_digits_induct [case_names small big]:
  assumes "\<And>n. n < 10 \<Longrightarrow> P n" and "\<And>n. 10 \<le> n \<Longrightarrow> P (n div 10) \<Longrightarrow> P n"
  shows "P (n :: nat)"
  using assms by (induction n rule: dec_digits.induct) (metis not_less)

lemma dec_digits_digits: "list_all is_digit (dec_digits n)"
  by (induction n rule: dec_digits_induct) (simp_all add: dec_digits_small dec_digits_big)

lemma dec_digits_neq_Nil [simp]: "dec_digits n \<noteq> []"
  by (induction n rule: dec_digits_induct) (simp_all add: dec_digits_small dec_digits_big)

lemma dec_value_append1 [simp]: "dec_value (ds @ [c]) = 10 * dec_value ds + digit_val c"
  by (simp add: dec_value_def)

lemma dec_value_dec_digits [simp]: "dec_value (dec_digits n) = n"
proof (induction n rule: dec_digits_induct)
  case (small n)
  then show ?case by (simp add: dec_digits_small dec_value_def)
next
  case (big n)
  then show ?case by (simp add: dec_digits_big)
qed

lemma length_dec_digits: "n < 10 ^ k \<Longrightarrow> 0 < k \<Longrightarrow> length (dec_digits n) \<le> k"
proof (induction n arbitrary: k rule: dec_digits_induct)
  case (small n)
  then show ?case by (simp add: dec_digits_small)
next
  case (big n)
  then obtain j where k: "k = Suc j" by (cases k) auto
  with big.hyps big.prems have "0 < j" by (cases j) auto
  moreover from big.prems k have "n div 10 < 10 ^ j" by (simp add: div_less_iff_less_mult mult.commute)
  ultimately show ?case using big k by (simp add: dec_digits_big)
qed

lemma length_fmt_0d:
  assumes "0 \<le> i" and "i < 10 ^ w" and "0 < w"
  shows "length (fmt_0d w i) = w"
proof -
  have "nat i < 10 ^ w" using assms by (simp add: nat_less_iff)
  then have "length (dec_digits (nat i)) \<le> w" using assms(3) by (rule length_dec_digits)
  with assms(1) show ?thesis by (simp add: fmt_0d_def Let_def)
qed

lemma is_digit_not [simp]:
  "is_digit c \<Longrightarrow> c \<noteq> CHR '',''" "is_digit c \<Longrightarrow> \<not> isspace c"
  "is_digit c \<Longrightarrow> c \<noteq> CHR ''-''" "is_digit c \<Longrightarrow> c \<noteq> CHR ''+''" "is_digit c \<Longrightarrow> c \<noteq> CHR ''.''"
  "is_digit c \<Longrightarrow> c \<noteq> CHR 0x0A"
  by (auto simp: is_digit_def isspace_def)

lemma not_digit_chars [simp]:
  "\<not> is_digit CHR '',''" "\<not> is_digit CHR ''.''" "\<not> is_digit CHR ''/''" "\<not> is_digit CHR '':''"
  "\<not> is_digit CHR '' ''" "\<not> is_digit CHR ''-''" "\<not> is_digit CHR 0x0A" "\<not> is_digit CHR ''S''"
  by (simp_all add: is_digit_def)

lemma dec_digits_set: "c \<in> set (dec_digits n) \<Longrightarrow> is_digit c"
  using dec_digits_digits [of n] by (simp add: list_all_iff)

lemma fmt_0d_digits: "0 \<le> i \<Longrightarrow> c \<in> set (fmt_0d w i) \<Longrightarrow> is_digit c"
  by (auto simp: fmt_0d_def Let_def is_digit_def split: if_splits dest: dec_digits_set)

lemma fmt_d_nonneg: "0 \<le> i \<Longrightarrow> fmt_d i = dec_digits (nat i)"
  by (simp add: fmt_d_def)

text \<open>\<open>%d\<close> reads back what \<open>%d\<close> wrote, when a character that is no digit follows.\<close>

lemma takeWhile_digits:
  "rest = [] \<or> \<not> is_digit (hd rest) \<Longrightarrow> takeWhile is_digit (dec_digits n @ rest) = dec_digits n"
  using dec_digits_digits [of n] by (cases rest) (auto simp: list_all_iff takeWhile_append)

lemma scan_int_dec_digits:
  assumes "rest = [] \<or> \<not> is_digit (hd rest)" and "n < 2147483648"
  shows "scan_int (dec_digits n @ rest) = Some (int n, rest)"
proof -
  obtain c cs where d: "dec_digits n = c # cs" by (cases "dec_digits n") auto
  then have "is_digit c" using dec_digits_set [of c n] by simp
  then have neq: "c \<noteq> CHR ''-''" "c \<noteq> CHR ''+''" by simp_all
  have "(case dec_digits n @ rest of [] \<Rightarrow> (False, [])
      | c # cs \<Rightarrow> if c = CHR ''-'' then (True, cs) else if c = CHR ''+'' then (False, cs)
        else (False, dec_digits n @ rest)) = (False, dec_digits n @ rest)"
    using d neq by simp
  then show ?thesis using assms
    by (simp add: scan_int_def Let_def takeWhile_digits saturate_int_def)
qed

lemma dropWhile_space_digits: "dropWhile isspace (dec_digits n @ rest) = dec_digits n @ rest"
proof -
  obtain c cs where d: "dec_digits n = c # cs" by (cases "dec_digits n") auto
  then have "is_digit c" using dec_digits_set [of c n] by simp
  then show ?thesis using d by simp
qed

lemma sscanf_Dec:
  assumes "rest = [] \<or> \<not> is_digit (hd rest)" and "n < 2147483648"
  shows "sscanf (Dec # ds) (dec_digits n @ rest) = Ival (int n) # sscanf ds rest"
  using scan_int_dec_digits [OF assms] by (simp add: dropWhile_space_digits)

text \<open>\<open>%w[^,]\<close> reads a field back that is short enough and holds no comma.\<close>

lemma sscanf_Not_comma:
  assumes "CHR '','' \<notin> set t" and "t \<noteq> []" and "length t \<le> w"
  shows "sscanf (Not_comma w # ds) (t @ CHR '','' # rest) = Sval t # sscanf ds (CHR '','' # rest)"
proof -
  have "takeWhile (\<lambda>c. c \<noteq> CHR '','') (take w (t @ CHR '','' # rest)) = t"
    using assms by (cases "w - length t") (auto simp: takeWhile_append)
  then show ?thesis using assms(2) by simp
qed

text \<open>Evaluation of the conversions on literals.\<close>

lemma char_of_digits:
  "char_of (48 :: nat) = CHR ''0''" "char_of (49 :: nat) = CHR ''1''" "char_of (50 :: nat) = CHR ''2''"
  "char_of (51 :: nat) = CHR ''3''" "char_of (52 :: nat) = CHR ''4''" "char_of (53 :: nat) = CHR ''5''"
  "char_of (54 :: nat) = CHR ''6''" "char_of (55 :: nat) = CHR ''7''" "char_of (56 :: nat) = CHR ''8''"
  "char_of (57 :: nat) = CHR ''9''"
  by (simp_all add: char_of_def bit_0)

lemmas fmt_eval = char_of_digits fmt_d_def fmt_0d_def dec_digits_small dec_digits_big digit_char_def Let_def

end
