(* ===== verification/Log_Pages.thy ===== *)
theory Log_Pages
  imports C_Strings
begin

text \<open>
  The pages of the dashboard, \<open>webserver.c\<close>: \<open>get_default_data\<close>, \<open>get_alert_data_sd\<close>,
  \<open>get_data_sd\<close>, \<open>access_page\<close> and \<open>get_content_type\<close>. Reading a file from the card is the
  parameter \<open>sd\<close> (\<^term>\<open>None\<close> for the null pointer), and \<open>mem k\<close> says whether the \<open>k\<close>-th allocation
  of a function succeeds. The outer \<open>option\<close> of a result is undefined behaviour, the inner one the
  null pointer.

  The lemmas describe how the log is cut into pages of ten rows, which pages can be asked for, and
  that the rows show what the lines of the log hold.
\<close>

section \<open>Constants\<close>

definition BUF_SIZE :: nat where "BUF_SIZE = 4096"
definition MAX_SETS :: nat where "MAX_SETS = 10"
definition LINES_PER_SET :: nat where "LINES_PER_SET = 10"
definition MAX_HTML_STRING_LENGTH :: nat where "MAX_HTML_STRING_LENGTH = 300"

abbreviation newline :: char where "newline \<equiv> CHR 0x0A"

definition get_default_data :: string where
  "get_default_data = ''<!DOCTYPE html><html><head><title>Default HTML Page </title></head><body><h1>Default HTML Page</h1></body></html>''"

section \<open>The alert page\<close>

lemma strtok_shorter: "strtok d s = Some (t, rest) \<Longrightarrow> length rest < length s"
proof -
  assume *: "strtok d s = Some (t, rest)"
  let ?u = "dropWhile (\<lambda>c. c = d) s"
  from * have t: "t = takeWhile (\<lambda>c. c \<noteq> d) ?u" "t \<noteq> []" "rest = drop (Suc (length t)) ?u"
    by (auto simp: strtok_def Let_def split: if_splits)
  from t(1,2) have "?u \<noteq> []" by (metis takeWhile.simps(1))
  then have "length rest < length ?u" using t(3) by simp
  also have "length ?u \<le> length s" by (rule length_dropWhile_le)
  finally show ?thesis .
qed

definition alert_row :: "nat \<Rightarrow> string \<Rightarrow> string" where
  "alert_row count line =
     ''<tr><td>'' @ fmt_d (int count) @ ''</td><td>'' @ line @ ''</td></tr>''"

function alert_loop :: "nat \<Rightarrow> string \<Rightarrow> string \<Rightarrow> string option" where
  "alert_loop count html rest =
     (case strtok newline rest of
        None \<Rightarrow> Some html
      | Some (line, rest') \<Rightarrow>
          let (text, row_length) = snprintf (BUF_SIZE - length html) (alert_row (count + 1) line)
          in if BUF_SIZE - length html \<le> row_length then None
             else alert_loop (count + 1) (html @ text) rest')"
  by pat_completeness auto
termination
  by (relation "measure (\<lambda>(count, html, rest). length rest)") (auto dest: strtok_shorter)

declare alert_loop.simps [simp del]

definition get_alert_data_sd :: "(string \<Rightarrow> string option) \<Rightarrow> (nat \<Rightarrow> bool) \<Rightarrow> string option" where
  "get_alert_data_sd sd mem =
     (case sd ''alert.txt'' of
        None \<Rightarrow> Some get_default_data
      | Some alert_output \<Rightarrow>
        (case sd ''webpage2.html'' of
           None \<Rightarrow> Some get_default_data
         | Some html_string \<Rightarrow>
             if \<not> mem 0 then None
             else (case alert_loop 0 [] alert_output of
                     None \<Rightarrow> None
                   | Some concatenated_html \<Rightarrow>
                       if \<not> mem 1 then None
                       else Some (html_string @ concatenated_html @
                              ''</tbody></table></div></div></div></body></html>''))))"

section \<open>The log pages\<close>

text \<open>The locals that \<open>sscanf\<close> fills; a conversion that fails leaves the value of the last line.\<close>

record row_locals =
  timestamp :: string
  src_addr :: string
  src_port :: int
  dst_addr :: string
  dst_port :: int
  flag :: string

definition row_format :: "scan_dir list" where
  "row_format = [Not_comma 19, Lit CHR '','', White, Not_comma 19, Lit CHR '','', White, Dec,
     Lit CHR '','', White, Not_comma 19, Lit CHR '','', White, Dec, Lit CHR '','', White, Str 9]"

definition scan_row :: "row_locals \<Rightarrow> string \<Rightarrow> row_locals" where
  "scan_row l line =
     (let vs = sscanf row_format line;
          str = (\<lambda>i old. if i < length vs then (case vs ! i of Sval s \<Rightarrow> s | Ival _ \<Rightarrow> old) else old);
          num = (\<lambda>i old. if i < length vs then (case vs ! i of Ival v \<Rightarrow> v | Sval _ \<Rightarrow> old) else old)
      in \<lparr>timestamp = str 0 (timestamp l), src_addr = str 1 (src_addr l), src_port = num 2 (src_port l),
          dst_addr = str 3 (dst_addr l), dst_port = num 4 (dst_port l), flag = str 5 (flag l)\<rparr>)"

definition log_row :: "nat \<Rightarrow> row_locals \<Rightarrow> string" where
  "log_row count l =
     ''<tr><td>'' @ fmt_d (int count) @ ''</td><td>'' @ timestamp l @ ''</td><td>'' @ src_addr l @
     ''</td><td>'' @ fmt_d (src_port l) @ ''</td><td>'' @ dst_addr l @ ''</td><td>'' @
     fmt_d (dst_port l) @ ''</td><td>'' @ flag l @ ''</td></tr>''"

text \<open>
  The results of \<open>get_data_sd\<close>: undefined behaviour, the null pointer, or the array of page
  strings, of whose \<open>MAX_SETS\<close> elements only those in the list are initialised.
\<close>

datatype sets_result = Undefined | Null | Sets "string list"

text \<open>
  Storing a page: the pointer array itself (allocation 0) was not checked, the page's own
  allocation is. The index stays below \<open>MAX_SETS\<close> in the loop; writing behind it is undefined.
\<close>

definition store_set :: "(nat \<Rightarrow> bool) \<Rightarrow> string list \<Rightarrow> string \<Rightarrow> sets_result" where
  "store_set mem sets html =
     (if \<not> mem 0 \<or> MAX_SETS \<le> length sets then Undefined
      else if \<not> mem (2 + length sets) then Null
      else Sets (sets @ [html]))"

function data_loop ::
  "(nat \<Rightarrow> bool) \<Rightarrow> row_locals \<Rightarrow> nat \<Rightarrow> string \<Rightarrow> string list \<Rightarrow> string \<Rightarrow> sets_result" where
  "data_loop mem l count html sets rest =
     (case strtok newline rest of
        None \<Rightarrow> if count mod LINES_PER_SET \<noteq> 0 then store_set mem sets html else Sets sets
      | Some (line, rest') \<Rightarrow>
          let count = count + 1;
              l = scan_row l line;
              (text, row_length) = snprintf (BUF_SIZE - length html) (log_row count l)
          in if BUF_SIZE - length html \<le> row_length then Null
             else if count mod LINES_PER_SET = 0
             then (case store_set mem sets (html @ text) of
                     Sets sets' \<Rightarrow>
                       if MAX_SETS \<le> length sets' then Sets sets'
                       else data_loop mem l count [] sets' rest'
                   | r \<Rightarrow> r)
             else data_loop mem l count (html @ text) sets rest')"
  by pat_completeness auto
termination
  by (relation "measure (\<lambda>(mem, l, count, html, sets, rest). length rest)") (auto dest: strtok_shorter)

declare data_loop.simps [simp del]

definition get_data_sd :: "(string \<Rightarrow> string option) \<Rightarrow> (nat \<Rightarrow> bool) \<Rightarrow> row_locals \<Rightarrow> sets_result" where
  "get_data_sd sd mem l =
     (case sd ''log_output.txt'' of
        None \<Rightarrow> Null
      | Some log_output \<Rightarrow> if \<not> mem 1 then Null else data_loop mem l 0 [] [] log_output)"

text \<open>
  \<open>access_page\<close>: \<open>max_page\<close> is \<open>sizeof(sets_array) - 1\<close>, the size of a pointer less one. The page
  is looked up without a check, so it is undefined for a page that was not stored.
\<close>

definition max_page :: int where "max_page = 4 - 1"

definition page_buttons :: "int \<Rightarrow> string" where
  "page_buttons current_page =
     ''<div class='d-flex justify-content-center mt-3'><a href='page_'' @ fmt_d (current_page - 1) @
     ''.html' class='btn btn-primary ml-2'>Previous</a><div class='align-self-center'> '' @
     fmt_d current_page @ ''/'' @ fmt_d max_page @ '' </div><a href='page_'' @ fmt_d (current_page + 1) @
     ''.html' class='btn btn-primary ml-2'>Next</a></div>''"

definition access_page ::
  "(string \<Rightarrow> string option) \<Rightarrow> (nat \<Rightarrow> bool) \<Rightarrow> row_locals \<Rightarrow> int \<Rightarrow> string option option" where
  "access_page sd mem l current_page =
     (case sd ''webpage.html'' of
        None \<Rightarrow> Some (Some get_default_data)
      | Some html_string \<Rightarrow>
        (case get_data_sd sd mem l of
           Sets sets_array \<Rightarrow>
             if 1 \<le> current_page \<and> current_page \<le> int (length sets_array)
             then let lines_of_logs = sets_array ! nat (current_page - 1);
                      html_page_btn = fst (snprintf MAX_HTML_STRING_LENGTH (page_buttons current_page))
                  in if mem (2 + MAX_SETS)
                     then Some (Some (html_string @ lines_of_logs @ ''</tbody></table>'' @ html_page_btn @
                            ''</div></div></div></body></html>''))
                     else Some None
             else None
         | Undefined \<Rightarrow> None
         | Null \<Rightarrow> None))"

section \<open>Content types\<close>

definition get_content_type :: "string \<Rightarrow> string" where
  "get_content_type file_path =
     (if file_path = ''/'' then ''text/html''
      else case strrchr file_path CHR ''.'' of
        None \<Rightarrow> ''application/octet-stream''
      | Some ext \<Rightarrow>
          let extension = tl ext
          in if extension = ''html'' then ''text/html''
             else if extension = ''css'' then ''text/css''
             else if extension = ''js'' then ''application/javascript''
             else if extension = ''jpg'' \<or> extension = ''jpeg'' then ''image/jpeg''
             else if extension = ''png'' then ''image/png''
             else if extension = ''gif'' then ''image/gif''
             else if extension = ''pdf'' then ''application/pdf''
             else ''application/octet-stream'')"

section \<open>Lines\<close>

text \<open>A log file: lines that are not empty and hold no line feed, each with one behind it.\<close>

definition log_line :: "string \<Rightarrow> bool" where
  "log_line s \<longleftrightarrow> s \<noteq> [] \<and> newline \<notin> set s"

definition log_file :: "string list \<Rightarrow> string" where
  "log_file ls = concat (map (\<lambda>s. s @ [newline]) ls)"

lemma strtok_line:
  assumes "log_line s"
  shows "strtok newline (s @ newline # rest) = Some (s, rest)"
proof -
  from assms have "dropWhile (\<lambda>c. c = newline) (s @ newline # rest) = s @ newline # rest"
    by (cases s) (auto simp: log_line_def)
  moreover have "takeWhile (\<lambda>c. c \<noteq> newline) (s @ newline # rest) = s"
    using assms by (auto simp: log_line_def takeWhile_append)
  ultimately show ?thesis using assms by (simp add: strtok_def log_line_def)
qed

lemma strtok_log_file:
  "strtok newline (log_file []) = None"
  "log_line s \<Longrightarrow> strtok newline (log_file (s # ls)) = Some (s, log_file ls)"
  using strtok_line [of s "log_file ls"] by (simp_all add: log_file_def strtok_def)

section \<open>Paging\<close>

text \<open>The rows of a log from one line number on, with the locals carried from line to line.\<close>

fun row_list :: "row_locals \<Rightarrow> nat \<Rightarrow> string list \<Rightarrow> string list" where
  "row_list l count [] = []"
| "row_list l count (s # ls) =
     (let l' = scan_row l s in log_row (count + 1) l' # row_list l' (count + 1) ls)"

lemma length_row_list [simp]: "length (row_list l count ls) = length ls"
  by (induction ls arbitrary: l count) (simp_all add: Let_def)

text \<open>Rows cut into pages of ten; at most ten pages are kept.\<close>

function pages :: "string list \<Rightarrow> string list" where
  "pages rows = (if rows = [] then [] else concat (take LINES_PER_SET rows) # pages (drop LINES_PER_SET rows))"
  by pat_completeness auto
termination
  by (relation "measure length") (auto simp: LINES_PER_SET_def)

declare pages.simps [simp del]

text \<open>Every page fits the row buffer.\<close>

definition pages_fit :: "string list \<Rightarrow> bool" where
  "pages_fit rows \<longleftrightarrow> list_all (\<lambda>p. length p < BUF_SIZE) (pages rows)"

lemma pages_Nil [simp]: "pages [] = []"
  by (simp add: pages.simps)

lemma pages_append:
  assumes "length xs = LINES_PER_SET"
  shows "pages (xs @ ys) = concat xs # pages ys"
  using assms by (subst pages.simps) (auto simp: LINES_PER_SET_def)

lemma pages_short: "xs \<noteq> [] \<Longrightarrow> length xs \<le> LINES_PER_SET \<Longrightarrow> pages xs = [concat xs]"
  by (subst pages.simps) simp

lemma length_pages: "length (pages rows) = (length rows + 9) div 10"
proof (induction rows rule: pages.induct)
  case (1 rows)
  show ?case
  proof (cases "rows = []")
    case False
    then have "length (pages rows) = Suc ((length rows - 10 + 9) div 10)"
      using 1 by (subst pages.simps) (simp add: LINES_PER_SET_def)
    moreover have "(n - 10 + 9) div 10 = (n + 9 - 10) div 10" if "0 < n" for n :: nat
      using that by (cases "n < 10") auto
    moreover have "(n + 9) div 10 = Suc ((n + 9 - 10) div 10)" if "0 < n" for n :: nat
      using that by (intro le_div_geq) simp_all
    ultimately show ?thesis using False by (metis length_greater_0_conv)
  qed simp
qed

lemma first_page_fits:
  assumes "pages_fit (xs @ r # ys)" and "length xs < LINES_PER_SET"
  shows "length (concat xs) + length r < BUF_SIZE"
proof -
  let ?rows = "xs @ r # ys"
  obtain zs where zs: "take LINES_PER_SET ?rows = (xs @ [r]) @ zs"
    using assms(2) by (cases "LINES_PER_SET - length xs") auto
  have "length (concat (take LINES_PER_SET ?rows)) < BUF_SIZE"
    using assms(1) pages.simps [of ?rows] by (simp add: pages_fit_def)
  then show ?thesis unfolding zs by simp
qed

lemma pages_fit_drop:
  "length xs = LINES_PER_SET \<Longrightarrow> pages_fit (xs @ ys) \<Longrightarrow> pages_fit ys"
  by (simp add: pages_fit_def pages_append)

lemma store_set_ok: "\<forall>k. mem k \<Longrightarrow> length sets < MAX_SETS \<Longrightarrow> store_set mem sets html = Sets (sets @ [html])"
  by (simp add: store_set_def)

lemma data_loop_pages:
  assumes "list_all log_line ls" and "\<forall>k. mem k"
    and "pages_fit (xs @ row_list l count ls)"
    and "count mod LINES_PER_SET = length xs" and "length sets < MAX_SETS"
  shows "data_loop mem l count (concat xs) sets (log_file ls) =
    Sets (take MAX_SETS (sets @ pages (xs @ row_list l count ls)))"
  using assms
proof (induction ls arbitrary: l count xs sets)
  case Nil
  have le: "length xs \<le> LINES_PER_SET" using Nil.prems(4) mod_less_divisor [of LINES_PER_SET count]
    by (simp add: LINES_PER_SET_def)
  show ?case
  proof (cases "xs = []")
    case True
    then show ?thesis using Nil.prems by (simp add: data_loop.simps strtok_log_file)
  next
    case False
    then have "data_loop mem l count (concat xs) sets (log_file []) = store_set mem sets (concat xs)"
      using Nil.prems(4) by (simp add: data_loop.simps strtok_log_file)
    then show ?thesis using False le Nil.prems(5) store_set_ok [OF Nil.prems(2,5)]
      by (simp add: pages_short)
  qed
next
  case (Cons s ls)
  have lt: "length xs < LINES_PER_SET" using Cons.prems(4) mod_less_divisor [of LINES_PER_SET count]
    by (simp add: LINES_PER_SET_def)
  define l' where "l' = scan_row l s"
  define r where "r = log_row (count + 1) l'"
  define rows where "rows = row_list l' (count + 1) ls"
  have rl: "row_list l count (s # ls) = r # rows" by (simp add: rows_def r_def l'_def Let_def)
  have fit: "length (concat xs) + length r < BUF_SIZE"
    using first_page_fits Cons.prems(3) lt unfolding rl by blast
  then have snp: "snprintf (BUF_SIZE - length (concat xs)) r = (r, length r)"
    by (simp add: snprintf_def)
  have nfit: "\<not> BUF_SIZE - length (concat xs) \<le> length r" using fit by simp
  have tok: "strtok newline (log_file (s # ls)) = Some (s, log_file ls)"
    using Cons.prems(1) by (simp add: strtok_log_file)
  have step: "data_loop mem l count (concat xs) sets (log_file (s # ls)) =
      (if (count + 1) mod LINES_PER_SET = 0
       then (case store_set mem sets (concat xs @ r) of
               Sets sets' \<Rightarrow> if MAX_SETS \<le> length sets' then Sets sets'
                             else data_loop mem l' (count + 1) [] sets' (log_file ls)
             | r \<Rightarrow> r)
       else data_loop mem l' (count + 1) (concat xs @ r) sets (log_file ls))"
    using snp nfit unfolding r_def l'_def
    by (subst data_loop.simps) (simp add: tok Let_def del: One_nat_def Suc_eq_plus1)
  show ?case
  proof (cases "(count + 1) mod LINES_PER_SET = 0")
    case True
    then have full: "length (xs @ [r]) = LINES_PER_SET"
      using Cons.prems(4) lt by (simp add: LINES_PER_SET_def mod_Suc split: if_splits)
    have pg: "pages (xs @ r # rows) = concat (xs @ [r]) # pages rows"
      using pages_append [OF full, of rows] by simp
    have fits: "pages_fit rows" using pages_fit_drop [OF full] Cons.prems(3) unfolding rl by simp
    show ?thesis
    proof (cases "MAX_SETS \<le> Suc (length sets)")
      case True
      then have "MAX_SETS - length sets = 1" using Cons.prems(5) by simp
      then show ?thesis using step True \<open>(count + 1) mod LINES_PER_SET = 0\<close>
          store_set_ok [OF Cons.prems(2,5)]
        unfolding rl pg by (simp del: Suc_eq_plus1)
    next
      case False
      have "data_loop mem l' (count + 1) (concat []) (sets @ [concat (xs @ [r])]) (log_file ls) =
          Sets (take MAX_SETS ((sets @ [concat (xs @ [r])]) @ pages ([] @ row_list l' (count + 1) ls)))"
        using Cons.prems(1,2) fits True False by (intro Cons.IH) (simp_all add: rows_def)
      then show ?thesis using step True False store_set_ok [OF Cons.prems(2,5)]
        unfolding rl pg by (simp add: rows_def del: One_nat_def Suc_eq_plus1)
    qed
  next
    case False
    have "data_loop mem l' (count + 1) (concat (xs @ [r])) sets (log_file ls) =
        Sets (take MAX_SETS (sets @ pages ((xs @ [r]) @ row_list l' (count + 1) ls)))"
    proof (rule Cons.IH)
      show "(count + 1) mod LINES_PER_SET = length (xs @ [r])"
        using False Cons.prems(4) lt by (simp add: LINES_PER_SET_def mod_Suc split: if_splits)
    qed (use Cons.prems rl in \<open>simp_all add: rows_def\<close>)
    then show ?thesis using step False unfolding rl by (simp add: rows_def del: One_nat_def Suc_eq_plus1)
  qed
qed

section \<open>Properties\<close>

text \<open>
  C18. \<open>get_data_sd\<close> cuts the log into pages of ten rows, the last one shorter, and keeps the first
  ten pages: for a log of whole lines, with memory for every allocation and every page within the
  row buffer, the page strings are those of the rows of the log, numbered from one.
\<close>

theorem log_pages:
  assumes "sd ''log_output.txt'' = Some (log_file ls)" and "list_all log_line ls"
    and "\<forall>k. mem k" and "pages_fit (row_list l 0 ls)"
  shows "get_data_sd sd mem l = Sets (take MAX_SETS (pages (row_list l 0 ls))) \<and>
    length (take MAX_SETS (pages (row_list l 0 ls))) = min 10 ((length ls + 9) div 10)"
  using data_loop_pages [of ls mem "[]" l 0 "[]"] assms
  by (simp add: get_data_sd_def length_pages MAX_SETS_def)

text \<open>A log of two lines, for the examples.\<close>

definition demo_log :: "string list" where
  "demo_log = [''24/11/2023 20:07:00,59.11.89.3,2012,192.168.1.19,80,SYN'',
     ''24/11/2023 20:07:01,10.0.0.2,80,10.0.0.1,443,ACK'']"

definition no_row :: row_locals where
  "no_row = \<lparr>timestamp = [], src_addr = [], src_port = 0, dst_addr = [], dst_port = 0, flag = []\<rparr>"

definition demo_sd :: "string \<Rightarrow> string option" where
  "demo_sd f = (if f = ''log_output.txt'' then Some (log_file demo_log)
     else if f = ''webpage.html'' then Some ''<table>'' else None)"

lemma log_line_demo: "list_all log_line demo_log"
  by (simp add: demo_log_def log_line_def)

lemma row_list_demo:
  "row_list no_row 0 demo_log =
     [''<tr><td>1</td><td>24/11/2023 20:07:00</td><td>59.11.89.3</td><td>2012</td><td>192.168.1.19</td><td>80</td><td>SYN</td></tr>'',
      ''<tr><td>2</td><td>24/11/2023 20:07:01</td><td>10.0.0.2</td><td>80</td><td>10.0.0.1</td><td>443</td><td>ACK</td></tr>'']"
  by (simp add: demo_log_def scan_row_def row_format_def log_row_def isspace_def scan_int_def
      is_digit_def dec_value_def digit_val_def saturate_int_def fmt_eval)

lemma pages_fit_demo: "pages_fit (row_list no_row 0 demo_log)"
  by (simp add: row_list_demo pages_fit_def pages_short LINES_PER_SET_def BUF_SIZE_def)

lemma log_pages_witness:
  "\<exists>p. get_data_sd demo_sd (\<lambda>k. True) no_row = Sets [p]"
proof -
  have "demo_sd ''log_output.txt'' = Some (log_file demo_log)" by (simp add: demo_sd_def)
  moreover have "\<forall>k. (\<lambda>k :: nat. True) k" by simp
  ultimately show ?thesis using log_pages [OF _ log_line_demo _ pages_fit_demo]
    by (simp add: row_list_demo pages_short LINES_PER_SET_def MAX_SETS_def)
qed

text \<open>The buttons of a page that exists fit their buffer.\<close>

lemma length_page_buttons:
  assumes "1 \<le> p" and "p \<le> 10"
  shows "length (page_buttons p) < 300"
proof -
  have d: "length (fmt_d i) \<le> 2" if "0 \<le> i" "i < 100" for i
    using that by (simp add: fmt_d_nonneg length_dec_digits nat_less_iff)
  have "length (fmt_d (p - 1)) \<le> 2" "length (fmt_d p) \<le> 2" "length (fmt_d (p + 1)) \<le> 2"
    "length (fmt_d max_page) \<le> 2"
    using assms by (intro d; simp add: max_page_def)+
  then show ?thesis by (simp add: page_buttons_def)
qed

lemma access_page_pages:
  assumes "sd ''log_output.txt'' = Some (log_file ls)" and "sd ''webpage.html'' = Some html"
    and "list_all log_line ls" and "\<forall>k. mem k" and "pages_fit (row_list l 0 ls)"
  shows "access_page sd mem l n =
    (if 1 \<le> n \<and> n \<le> int (min 10 ((length ls + 9) div 10))
     then Some (Some (html @ pages (row_list l 0 ls) ! nat (n - 1) @ ''</tbody></table>'' @
            page_buttons n @ ''</div></div></div></body></html>''))
     else None)"
proof -
  let ?ps = "pages (row_list l 0 ls)"
  have sets: "get_data_sd sd mem l = Sets (take MAX_SETS ?ps)"
    using data_loop_pages [of ls mem "[]" l 0 "[]"] assms by (simp add: get_data_sd_def MAX_SETS_def)
  have len: "int (length (take MAX_SETS ?ps)) = int (min 10 ((length ls + 9) div 10))"
    by (simp add: length_pages MAX_SETS_def)
  have mem: "mem (2 + MAX_SETS)" using assms(4) by blast
  show ?thesis
  proof (cases "1 \<le> n \<and> n \<le> int (min 10 ((length ls + 9) div 10))")
    case True
    then have "n \<le> 10" by linarith
    with True have "snprintf MAX_HTML_STRING_LENGTH (page_buttons n) =
        (page_buttons n, length (page_buttons n))"
      using length_page_buttons [of n] by (simp add: snprintf_def MAX_HTML_STRING_LENGTH_def)
    moreover have "take MAX_SETS ?ps ! nat (n - 1) = ?ps ! nat (n - 1)"
      using True \<open>n \<le> 10\<close> by (intro nth_take) (simp add: MAX_SETS_def)
    ultimately show ?thesis using True mem
      unfolding access_page_def assms(2) sets option.case sets_result.case len Let_def
      by (simp only: if_True fst_conv)
  next
    case False
    then show ?thesis
      unfolding access_page_def assms(2) sets option.case sets_result.case len
      by (simp only: if_False)
  qed
qed

text \<open>
  A page of the dashboard is served exactly when the log has it: for page numbers from one to
  the number of stored pages \<open>access_page\<close> returns the template, the rows of that page and the
  buttons, none of them cut; every other number is an access outside of the array. The ``number of
  pages'' it prints is 3 whatever the log holds.
\<close>

theorem page_served_iff_stored:
  assumes "sd ''log_output.txt'' = Some (log_file ls)" and "sd ''webpage.html'' = Some html"
    and "list_all log_line ls" and "\<forall>k. mem k" and "pages_fit (row_list l 0 ls)"
  shows "access_page sd mem l n =
    (if 1 \<le> n \<and> n \<le> int (min 10 ((length ls + 9) div 10))
     then Some (Some (html @ pages (row_list l 0 ls) ! nat (n - 1) @ ''</tbody></table>'' @
            page_buttons n @ ''</div></div></div></body></html>''))
     else None)"
  by (rule access_page_pages [OF assms])

lemma page_served_iff_stored_witness:
  "access_page demo_sd (\<lambda>k. True) no_row 2 = None \<and> access_page demo_sd (\<lambda>k. True) no_row 1 \<noteq> None"
proof -
  have sd: "demo_sd ''log_output.txt'' = Some (log_file demo_log)" "demo_sd ''webpage.html'' = Some ''<table>''"
    by (simp_all add: demo_sd_def)
  have "length demo_log = 2" by (simp add: demo_log_def)
  moreover have "\<forall>k. (\<lambda>k :: nat. True) k" by simp
  ultimately show ?thesis using page_served_iff_stored [OF sd log_line_demo _ pages_fit_demo]
    by simp
qed

end
