(* ===== verification/Lwip_Pbuf.thy ===== *)
theory Lwip_Pbuf
  imports Prelude
begin

text \<open>
  Packet buffers, \<open>lib/lwip/src/core/pbuf.c\<close>: the accessors that the NTP client, the Ethernet
  driver and the web server use. A packet is a chain of \<open>struct pbuf\<close>, each with a part of the
  payload; here a chain is the list of its links. Offsets and lengths are \<open>u16_t\<close> in the code;
  every subtraction there is guarded, so the model uses naturals.

  The lemmas show that each accessor works on the concatenation of the payloads, whatever way
  the packet is cut into links.
\<close>

record pbuf =
  payload :: "u8 list"
  tot_len :: nat

abbreviation pbuf_len :: "pbuf \<Rightarrow> nat" where
  "pbuf_len p \<equiv> length (payload p)"

text \<open>\<open>pbuf_skip_const\<close>: the rest of the chain from the link that holds the offset, and the offset in it.\<close>

fun pbuf_skip_const :: "pbuf list \<Rightarrow> nat \<Rightarrow> pbuf list \<times> nat" where
  "pbuf_skip_const [] offset_left = ([], offset_left)"
| "pbuf_skip_const (q # qs) offset_left =
     (if pbuf_len q \<le> offset_left then pbuf_skip_const qs (offset_left - pbuf_len q)
      else (q # qs, offset_left))"

text \<open>\<open>pbuf_try_get_at\<close> returns the byte or a negative number.\<close>

definition pbuf_try_get_at :: "pbuf list \<Rightarrow> nat \<Rightarrow> int" where
  "pbuf_try_get_at p offset =
     (case pbuf_skip_const p offset of
        (q # _, q_idx) \<Rightarrow> if q_idx < pbuf_len q then uint (payload q ! q_idx) else -1
      | ([], _) \<Rightarrow> -1)"

definition pbuf_get_at :: "pbuf list \<Rightarrow> nat \<Rightarrow> u8" where
  "pbuf_get_at p offset =
     (let ret = pbuf_try_get_at p offset in if 0 \<le> ret then word_of_int ret else 0)"

text \<open>\<open>pbuf_copy_partial\<close>: the bytes copied to \<open>dataptr\<close>; their number is the value it returns.\<close>

fun pbuf_copy_partial :: "pbuf list \<Rightarrow> nat \<Rightarrow> nat \<Rightarrow> u8 list" where
  "pbuf_copy_partial [] len offset = []"
| "pbuf_copy_partial (p # ps) len offset =
     (if len = 0 then []
      else if offset \<noteq> 0 \<and> pbuf_len p \<le> offset
      then pbuf_copy_partial ps len (offset - pbuf_len p)
      else let buf_copy_len = min (pbuf_len p - offset) len
        in take buf_copy_len (drop offset (payload p)) @
           pbuf_copy_partial ps (len - buf_copy_len) 0)"

text \<open>
  \<open>pbuf_take\<close> fills a chain. Its loop runs until all data is copied; running off the chain is an
  assertion failure, \<^term>\<open>None\<close>. A null chain is \<open>ERR_ARG\<close>, a packet too short \<open>ERR_MEM\<close>.
\<close>

datatype take_err = Take_OK "pbuf list" | Take_ARG | Take_MEM

fun pbuf_take_loop :: "pbuf list \<Rightarrow> u8 list \<Rightarrow> pbuf list option" where
  "pbuf_take_loop ps [] = Some ps"
| "pbuf_take_loop [] (b # bs) = None"
| "pbuf_take_loop (p # ps) (b # bs) =
     (let buf_copy_len = min (length (b # bs)) (pbuf_len p);
          p' = p\<lparr>payload := take buf_copy_len (b # bs) @ drop buf_copy_len (payload p)\<rparr>
      in map_option (Cons p') (pbuf_take_loop ps (drop buf_copy_len (b # bs))))"

definition pbuf_take :: "pbuf list \<Rightarrow> u8 list \<Rightarrow> take_err option" where
  "pbuf_take buf data =
     (case buf of [] \<Rightarrow> Some Take_ARG
      | p # _ \<Rightarrow> if tot_len p < length data then Some Take_MEM
                else map_option Take_OK (pbuf_take_loop buf data))"

section \<open>The packet a chain carries\<close>

definition chain_bytes :: "pbuf list \<Rightarrow> u8 list" where
  "chain_bytes ps = concat (map payload ps)"

text \<open>The invariant of a chain: each link counts the bytes from itself on.\<close>

fun chain_ok :: "pbuf list \<Rightarrow> bool" where
  "chain_ok [] = True"
| "chain_ok (p # ps) = (tot_len p = length (chain_bytes (p # ps)) \<and> chain_ok ps)"

lemma chain_bytes_simps [simp]:
  "chain_bytes [] = []"
  "chain_bytes (p # ps) = payload p @ chain_bytes ps"
  by (simp_all add: chain_bytes_def)

lemma pbuf_skip_const_bytes:
  "pbuf_skip_const ps off = (qs, i) \<Longrightarrow>
     (if off < length (chain_bytes ps)
      then (\<exists>q qs'. qs = q # qs' \<and> i < pbuf_len q \<and> payload q ! i = chain_bytes ps ! off)
      else qs = [])"
  by (induction ps off rule: pbuf_skip_const.induct) (auto simp: nth_append split: if_splits)

lemma pbuf_get_at_bytes:
  "pbuf_get_at ps off = (if off < length (chain_bytes ps) then chain_bytes ps ! off else 0)"
proof (cases "pbuf_skip_const ps off")
  case (Pair qs i)
  from pbuf_skip_const_bytes [OF this] Pair show ?thesis
    by (auto simp: pbuf_get_at_def pbuf_try_get_at_def split: if_splits)
qed

lemma pbuf_copy_partial_bytes: "pbuf_copy_partial ps len off = take len (drop off (chain_bytes ps))"
  by (induction ps len off rule: pbuf_copy_partial.induct) (auto simp: min_def)

lemma pbuf_take_loop_bytes:
  assumes "length bs \<le> length (chain_bytes ps)"
  shows "\<exists>qs. pbuf_take_loop ps bs = Some qs \<and>
    chain_bytes qs = bs @ drop (length bs) (chain_bytes ps) \<and>
    map pbuf_len qs = map pbuf_len ps \<and> map tot_len qs = map tot_len ps"
  using assms
proof (induction ps bs rule: pbuf_take_loop.induct)
  case (3 p ps b bs)
  let ?bs = "b # bs"
  let ?n = "min (length ?bs) (pbuf_len p)"
  have "length (drop ?n ?bs) \<le> length (chain_bytes ps)"
    using "3.prems" by (auto simp: min_def)
  from "3.IH" [OF refl refl this] obtain qs where
    qs: "pbuf_take_loop ps (drop ?n ?bs) = Some qs"
      "chain_bytes qs = drop ?n ?bs @ drop (length ?bs - ?n) (chain_bytes ps)"
      "map pbuf_len qs = map pbuf_len ps" "map tot_len qs = map tot_len ps"
    unfolding length_drop by (elim exE conjE) (rule that)
  have "take ?n ?bs @ drop ?n (payload p) @ chain_bytes qs =
      ?bs @ drop (length ?bs) (payload p @ chain_bytes ps)"
    by (auto simp: qs(2) min_def)
  then show ?case using qs(1,3,4) by (intro exI [of _ "p\<lparr>payload := take ?n ?bs @ drop ?n (payload p)\<rparr> # qs"])
      (simp add: Let_def)
qed auto

lemma length_chain_bytes: "length (chain_bytes ps) = sum_list (map pbuf_len ps)"
  by (induction ps) simp_all

lemma chain_ok_cong:
  assumes "map pbuf_len qs = map pbuf_len ps" and "map tot_len qs = map tot_len ps"
  shows "chain_ok qs = chain_ok ps"
proof -
  from assms have "list_all2 (\<lambda>q p. pbuf_len q = pbuf_len p \<and> tot_len q = tot_len p) qs ps"
    by (auto simp: list_all2_conv_all_nth list_eq_iff_nth_eq)
  then show ?thesis
  proof (induction rule: list_all2_induct)
    case (Cons q qs p ps)
    from Cons.hyps(2) have "map pbuf_len qs = map pbuf_len ps"
      by (simp add: list_all2_conv_all_nth list_eq_iff_nth_eq)
    with Cons.hyps(1) Cons.IH show ?case by (simp add: length_chain_bytes)
  qed simp
qed

lemma pbuf_take_bytes:
  assumes "chain_ok ps" and "length data \<le> length (chain_bytes ps)" and "ps \<noteq> []"
  obtains qs where "pbuf_take ps data = Some (Take_OK qs)" "chain_ok qs"
    "chain_bytes qs = data @ drop (length data) (chain_bytes ps)"
proof -
  from pbuf_take_loop_bytes [OF assms(2)] obtain qs where
    qs: "pbuf_take_loop ps data = Some qs" "chain_bytes qs = data @ drop (length data) (chain_bytes ps)"
      "map pbuf_len qs = map pbuf_len ps" "map tot_len qs = map tot_len ps" by blast
  moreover have "chain_ok qs" using chain_ok_cong [OF qs(3,4)] assms(1) by simp
  moreover have "pbuf_take ps data = Some (Take_OK qs)"
    using assms qs(1) by (cases ps) (auto simp: pbuf_take_def)
  ultimately show ?thesis using that by blast
qed

text \<open>
  C5. The packet-buffer accessors see only the bytes of the packet, never how they are cut into
  links: a read gives that byte or zero behind the end, a copy gives the bytes that are there,
  and \<open>pbuf_take\<close> on a consistent chain that is large enough overwrites the front of the packet
  and keeps the chain consistent.
\<close>

theorem pbuf_chain_refines_bytes:
  assumes "chain_ok ps" and "length data \<le> length (chain_bytes ps)" and "ps \<noteq> []"
  shows "pbuf_get_at ps off = (if off < length (chain_bytes ps) then chain_bytes ps ! off else 0) \<and>
    pbuf_copy_partial ps len off = take len (drop off (chain_bytes ps)) \<and>
    (\<exists>qs. pbuf_take ps data = Some (Take_OK qs) \<and> chain_ok qs \<and>
      chain_bytes qs = data @ drop (length data) (chain_bytes ps))"
  using pbuf_take_bytes [OF assms] by (metis pbuf_get_at_bytes pbuf_copy_partial_bytes)

lemma pbuf_chain_refines_bytes_witness:
  "pbuf_get_at [\<lparr>payload = [1, 2], tot_len = 3\<rparr>, \<lparr>payload = [7], tot_len = 1\<rparr>] 2 = 7"
  using pbuf_chain_refines_bytes
    [of "[\<lparr>payload = [1, 2], tot_len = 3\<rparr>, \<lparr>payload = [7], tot_len = 1\<rparr>]" "[9, 9]" 2 0]
  by simp

end
