(* ===== verification/Clock.thy ===== *)
theory Clock
  imports Lwip_Pbuf
begin

text \<open>
  The clock of the packet parser, from \<open>src/packet_handler.c\<close>: the epoch counter, the C library's
  \<open>gmtime\<close>, modelled by the calendar it documents (UTC, Gregorian; \<open>time_t\<close> has 64 bits on the
  target), and the NTP client \<open>get_epoch\<close> with its receive callback \<open>ntp_recv\<close>.

  The lemmas bound the fields of a broken-down time and describe which datagrams set the clock,
  to what, and which servers are asked before that.
\<close>

section \<open>Time\<close>

record tm =
  tm_sec :: int
  tm_min :: int
  tm_hour :: int
  tm_mday :: int
  tm_mon :: int
  tm_year :: int

definition leap :: "nat \<Rightarrow> bool" where
  "leap y \<longleftrightarrow> y mod 4 = 0 \<and> (y mod 100 \<noteq> 0 \<or> y mod 400 = 0)"

definition year_days :: "nat \<Rightarrow> nat" where
  "year_days y = (if leap y then 366 else 365)"

definition month_days :: "nat \<Rightarrow> nat list" where
  "month_days y = [31, if leap y then 29 else 28, 31, 30, 31, 30, 31, 31, 30, 31, 30, 31]"

text \<open>The year and the day in it; the month (from 0) and the day in it (from 0).\<close>

function split_year :: "nat \<Rightarrow> nat \<Rightarrow> nat \<times> nat" where
  "split_year y d = (if d < year_days y then (y, d) else split_year (Suc y) (d - year_days y))"
  by pat_completeness auto
termination
  by (relation "measure (\<lambda>(y, d). d)") (auto simp: year_days_def split: if_splits)

declare split_year.simps [simp del]

fun split_month :: "nat list \<Rightarrow> nat \<Rightarrow> nat \<times> nat" where
  "split_month [] d = (0, d)"
| "split_month (m # ms) d =
     (if d < m then (0, d) else let (i, r) = split_month ms (d - m) in (Suc i, r))"

definition gmtime :: "u32 \<Rightarrow> tm" where
  "gmtime t =
     (let days = unat t div 86400; secs = unat t mod 86400;
          (y, yd) = split_year 1970 days;
          (mon, d) = split_month (month_days y) yd
      in \<lparr>tm_sec = int (secs mod 60), tm_min = int (secs mod 3600 div 60),
          tm_hour = int (secs div 3600), tm_mday = int (Suc d), tm_mon = int mon,
          tm_year = int y - 1900\<rparr>)"

text \<open>\<open>increment_epoch\<close>, the callback of the one-second timer: the counter wraps around.\<close>

definition increment_epoch :: "u32 \<Rightarrow> u32 \<times> bool" where
  "increment_epoch epoch_time = (epoch_time + 1, True)"

section \<open>The NTP client\<close>

definition NTP_MSG_LEN :: nat where "NTP_MSG_LEN = 48"
definition NTP_PORT :: u16 where "NTP_PORT = 123"
definition NTP_DELTA :: u32 where "NTP_DELTA = 2208988800"
definition NTP_SG_TIME :: u32 where "NTP_SG_TIME = 28800"

record ntp_state =
  ntp_server_address :: "u32 list"
  ntp_get :: bool

text \<open>
  \<open>ntp_recv\<close>: the epoch counter and the client's state after a datagram. The stack calls it with a
  packet, never with a null pointer (\<open>udp_input\<close> hands over what it received), so the empty chain
  stands for nothing that occurs; it is not accepted. The four octets are shifted as \<open>int\<close>s of 32
  bits, which the compiler of the target evaluates as the word below.
\<close>

definition ntp_recv :: "ntp_state \<Rightarrow> u32 \<Rightarrow> pbuf list \<Rightarrow> u32 \<Rightarrow> u16 \<Rightarrow> ntp_state \<times> u32" where
  "ntp_recv state epoch_time p addr port =
     (let mode = pbuf_get_at p 0 AND 7;
          stratum = pbuf_get_at p 1
      in if (addr = ntp_server_address state ! 0 \<or> addr = ntp_server_address state ! 1 \<or>
             addr = ntp_server_address state ! 2 \<or> addr = ntp_server_address state ! 3) \<and>
            port = NTP_PORT \<and> (case p of [] \<Rightarrow> False | q # _ \<Rightarrow> tot_len q = NTP_MSG_LEN) \<and>
            mode = 4 \<and> stratum \<noteq> 0
         then let copied = pbuf_copy_partial p 4 40;
                  seconds_buf = copied @ drop (length copied) [0, 0, 0, 0];
                  seconds_since_1900 =
                    push_bit 24 (ucast (seconds_buf ! 0)) OR push_bit 16 (ucast (seconds_buf ! 1)) OR
                    push_bit 8 (ucast (seconds_buf ! 2)) OR ucast (seconds_buf ! 3);
                  seconds_since_1970 = seconds_since_1900 - NTP_DELTA
              in (state\<lparr>ntp_get := True\<rparr>, seconds_since_1970 + NTP_SG_TIME)
         else (state, epoch_time))"

text \<open>
  The request loop of \<open>get_epoch\<close>. \<open>deliver n\<close> is what the network hands to \<open>ntp_recv\<close> while the
  \<open>n\<close>-th request is being sent and \<open>alloc n\<close> whether the buffer of that request could be
  allocated (the code writes to it without a check). A request is logged with the index of the
  server asked and its payload. The loop ends when the callback has set \<open>ntp_get\<close>;
  \<^term>\<open>None\<close> means it never does, or wrote through a null pointer.
\<close>

type_synonym datagram = "pbuf list \<times> u32 \<times> u16"

fun ntp_deliver :: "datagram list \<Rightarrow> ntp_state \<times> u32 \<Rightarrow> ntp_state \<times> u32" where
  "ntp_deliver [] s = s"
| "ntp_deliver ((p, addr, port) # ds) s = ntp_deliver ds (ntp_recv (fst s) (snd s) p addr port)"

definition ntp_request :: "u8 list" where
  "ntp_request = (replicate NTP_MSG_LEN 0)[0 := 0x1b]"

partial_function (option) get_epoch_loop ::
  "(nat \<Rightarrow> bool) \<Rightarrow> (nat \<Rightarrow> datagram list) \<Rightarrow> nat \<Rightarrow> nat \<Rightarrow> ntp_state \<times> u32 \<Rightarrow>
   (nat \<times> u8 list) list \<Rightarrow> (u32 \<times> (nat \<times> u8 list) list) option" where
  "get_epoch_loop alloc deliver n i s sent =
     (if ntp_get (fst s) then Some (snd s, sent)
      else if \<not> alloc n then None
      else get_epoch_loop alloc deliver (Suc n) (if i + 1 = 4 then 0 else i + 1)
             (ntp_deliver (deliver n) s) (sent @ [(i, ntp_request)]))"

text \<open>Joining the wireless network: \<open>join k\<close> says whether the \<open>k\<close>-th attempt succeeds.\<close>

partial_function (option) wifi_connect_loop :: "(nat \<Rightarrow> bool) \<Rightarrow> nat \<Rightarrow> nat option" where
  "wifi_connect_loop join k = (if join k then Some k else wifi_connect_loop join (Suc k))"

definition ntp_servers :: "u32 list" where
  "ntp_servers = [0xA29FC87B, 0x349472BC, 0xA29FC801, 0xA7AC4615]"

text \<open>
  \<open>get_epoch\<close>: 1 when the radio cannot be initialised; otherwise 0 with the epoch and the requests
  sent. The state is allocated without a check.
\<close>

datatype get_epoch_result = Init_failed | Epoch u32 "(nat \<times> u8 list) list"

record ntp_env =
  arch_init_fails :: bool
  wifi_join :: "nat \<Rightarrow> bool"
  calloc_ok :: bool
  pbuf_alloc_ok :: "nat \<Rightarrow> bool"
  ntp_traffic :: "nat \<Rightarrow> datagram list"

definition get_epoch :: "ntp_env \<Rightarrow> u32 \<Rightarrow> get_epoch_result option" where
  "get_epoch env epoch_time =
     (if arch_init_fails env then Some Init_failed
      else do {
        _ \<leftarrow> wifi_connect_loop (wifi_join env) 0;
        (e, sent) \<leftarrow> (if calloc_ok env
          then get_epoch_loop (pbuf_alloc_ok env) (ntp_traffic env) 0 0
                 (\<lparr>ntp_server_address = ntp_servers, ntp_get = False\<rparr>, epoch_time) []
          else None);
        Some (Epoch e sent)
      })"

section \<open>The calendar\<close>

lemma split_year_bounds:
  "split_year y d = (y', d') \<Longrightarrow> d' < year_days y' \<and> y \<le> y' \<and> 365 * (y' - y) + d' \<le> d"
proof (induction y d rule: split_year.induct)
  case (1 y d)
  show ?case
  proof (cases "d < year_days y")
    case True
    with "1.prems" show ?thesis by (simp add: split_year.simps [of y])
  next
    case False
    with "1.prems" have "split_year (Suc y) (d - year_days y) = (y', d')"
      by (simp add: split_year.simps [of y])
    from "1.IH" [OF False this] False show ?thesis
      by (auto simp: year_days_def split: if_splits)
  qed
qed

lemma split_month_bounds:
  "d < sum_list ms \<Longrightarrow> split_month ms d = (i, r) \<Longrightarrow> i < length ms \<and> r < ms ! i"
proof (induction ms d arbitrary: i r rule: split_month.induct)
  case (2 m ms d)
  show ?case
  proof (cases "d < m")
    case True
    with "2.prems" show ?thesis by simp
  next
    case False
    obtain j q where j: "split_month ms (d - m) = (j, q)" by (cases "split_month ms (d - m)")
    from False "2.prems" have "d - m < sum_list ms" by simp
    from "2.IH" [OF False this j] False j "2.prems" show ?thesis by auto
  qed
qed simp

text \<open>The split loses nothing: the days before the year, before the month and in the month add up.\<close>

lemma split_year_sum:
  "split_year y d = (y', d') \<Longrightarrow> sum_list (map year_days [y..<y']) + d' = d"
proof (induction y d rule: split_year.induct)
  case (1 y d)
  show ?case
  proof (cases "d < year_days y")
    case True
    with "1.prems" show ?thesis by (simp add: split_year.simps [of y])
  next
    case False
    with "1.prems" have rec: "split_year (Suc y) (d - year_days y) = (y', d')"
      by (simp add: split_year.simps [of y])
    then have "Suc y \<le> y'" using split_year_bounds by blast
    then have "[y..<y'] = y # [Suc y..<y']" by (simp add: upt_conv_Cons)
    with "1.IH" [OF False rec] False show ?thesis by simp
  qed
qed

lemma split_month_sum:
  "split_month ms d = (i, r) \<Longrightarrow> sum_list (take i ms) + r = d"
  by (induction ms d arbitrary: i r rule: split_month.induct)
    (auto split: if_splits prod.splits)

lemma sum_list_month_days: "sum_list (month_days y) = year_days y"
  by (simp add: month_days_def year_days_def)

lemma length_month_days [simp]: "length (month_days y) = 12"
  by (simp add: month_days_def)

lemma month_days_le_31: "i < 12 \<Longrightarrow> month_days y ! i \<le> 31"
  by (simp add: month_days_def nth_Cons' split: if_splits)

definition tm_ok :: "tm \<Rightarrow> bool" where
  "tm_ok t \<longleftrightarrow> 0 \<le> tm_sec t \<and> tm_sec t < 60 \<and> 0 \<le> tm_min t \<and> tm_min t < 60 \<and>
     0 \<le> tm_hour t \<and> tm_hour t < 24 \<and> 1 \<le> tm_mday t \<and> tm_mday t \<le> 31 \<and>
     0 \<le> tm_mon t \<and> tm_mon t < 12 \<and> 70 \<le> tm_year t \<and> tm_year t < 8100"

lemma tm_ok_gmtime: "tm_ok (gmtime t)"
proof -
  let ?days = "unat t div 86400" and ?secs = "unat t mod 86400"
  obtain y yd where y: "split_year 1970 ?days = (y, yd)" by (cases "split_year 1970 ?days")
  obtain mon d where m: "split_month (month_days y) yd = (mon, d)"
    by (cases "split_month (month_days y) yd")
  have "unat t < 4294967296" using unsigned_less [of t, where ?'a = nat] by simp
  then have days: "?days < 49711" by simp
  from split_year_bounds [OF y] have yb: "yd < year_days y" "1970 \<le> y" "y - 1970 < 8100 - 70"
    using days by auto
  from split_month_bounds [OF _ m] yb(1) have mb: "mon < 12" "d < month_days y ! mon"
    by (simp_all add: sum_list_month_days)
  then have "d < 31" using month_days_le_31 [of mon y] by simp
  moreover have "?secs mod 3600 div 60 < 60" "?secs div 3600 < 24"
    by (simp_all add: div_less_iff_less_mult)
  moreover have "y < 10000" using yb by linarith
  ultimately show ?thesis using mb(1) yb
    by (simp add: gmtime_def y m tm_ok_def Let_def del: of_nat_div of_nat_mod)
qed

section \<open>What sets the clock\<close>

text \<open>A datagram the client accepts: from one of its servers, port 123, 48 bytes, mode 4 (server)
  and a stratum other than 0.\<close>

definition ntp_valid :: "ntp_state \<Rightarrow> datagram \<Rightarrow> bool" where
  "ntp_valid state = (\<lambda>(p, addr, port).
     addr \<in> set (ntp_server_address state) \<and> port = 123 \<and>
     length (chain_bytes p) = 48 \<and> chain_bytes p ! 0 AND 7 = 4 \<and> chain_bytes p ! 1 \<noteq> 0)"

text \<open>The big-endian seconds at byte 40 of the message.\<close>

definition ntp_seconds :: "pbuf list \<Rightarrow> int" where
  "ntp_seconds p = horner_sum uint 256 (rev (take 4 (drop 40 (chain_bytes p))))"

lemma word_be_bytes:
  fixes a b c d :: u8
  shows "uint (push_bit 24 (ucast a) OR push_bit 16 (ucast b) OR push_bit 8 (ucast c) OR
      (ucast d :: u32)) = uint d + 256 * (uint c + 256 * (uint b + 256 * uint a))"
proof -
  have lt: "uint x < 256" "0 \<le> uint x" for x :: u8
    using uint_lt2p [of x] by simp_all
  have hi: "n < 8" if "bit x n" for x :: u8 and n
    using bit_imp_le_length [OF that] by simp
  have "push_bit 24 (ucast a) OR push_bit 16 (ucast b) OR push_bit 8 (ucast c) OR (ucast d :: u32) =
      word_of_int (uint d + 256 * (uint c + 256 * (uint b + 256 * uint a)))" (is "?w = word_of_int ?i")
  proof -
    have "?w = push_bit 24 (ucast a) + push_bit 16 (ucast b) + push_bit 8 (ucast c) + (ucast d :: u32)"
    proof -
      have 1: "push_bit 24 (ucast a) AND push_bit 16 (ucast b) = (0 :: u32)"
        by (rule bit_word_eqI) (auto simp: bit_and_iff bit_push_bit_iff bit_ucast_iff dest!: hi)
      have 2: "(push_bit 24 (ucast a) OR push_bit 16 (ucast b)) AND push_bit 8 (ucast c) = (0 :: u32)"
        by (rule bit_word_eqI) (auto simp: bit_and_iff bit_or_iff bit_push_bit_iff bit_ucast_iff dest!: hi)
      have 3: "(push_bit 24 (ucast a) OR push_bit 16 (ucast b) OR push_bit 8 (ucast c)) AND
          (ucast d :: u32) = 0"
        by (rule bit_word_eqI) (auto simp: bit_and_iff bit_or_iff bit_push_bit_iff bit_ucast_iff dest!: hi)
      show ?thesis
        using disjunctive_add_eq_or [OF 1] disjunctive_add_eq_or [OF 2] disjunctive_add_eq_or [OF 3]
        by (simp add: or.assoc)
    qed
    then show ?thesis
      by (simp add: push_bit_eq_mult algebra_simps flip: word_of_int_uint)
  qed
  moreover have "0 \<le> ?i" "?i < 2 ^ 32"
    using lt [of a] lt [of b] lt [of c] lt [of d] by simp_all
  ultimately show ?thesis by (simp only: uint_word_of_int) simp
qed

lemma four_elems: "length xs = 4 \<Longrightarrow> xs = [xs ! 0, xs ! 1, xs ! 2, xs ! 3]"
  by (auto simp: list_eq_iff_nth_eq less_Suc_eq numeral_eq_Suc)

lemma set_four:
  "length xs = 4 \<Longrightarrow> x \<in> set xs \<longleftrightarrow> x = xs ! 0 \<or> x = xs ! 1 \<or> x = xs ! 2 \<or> x = xs ! 3"
  by (subst four_elems) auto

lemma ntp_recv_eq:
  assumes "chain_ok p" and "length (ntp_server_address state) = 4"
  shows "ntp_recv state epoch p addr port =
    (if ntp_valid state (p, addr, port)
     then (state\<lparr>ntp_get := True\<rparr>, word_of_int (ntp_seconds p - 2208988800 + 28800))
     else (state, epoch))"
proof -
  have len: "(case p of [] \<Rightarrow> False | q # _ \<Rightarrow> tot_len q = NTP_MSG_LEN) \<longleftrightarrow> length (chain_bytes p) = 48"
    using assms(1) by (cases p) (auto simp: NTP_MSG_LEN_def)
  show ?thesis
  proof (cases "length (chain_bytes p) = 48")
    case False
    with len show ?thesis by (simp add: ntp_recv_def ntp_valid_def)
  next
    case True
    let ?b = "take 4 (drop 40 (chain_bytes p))"
    have b4: "length ?b = 4" using True by simp
    let ?w = "push_bit 24 (ucast (?b ! 0)) OR push_bit 16 (ucast (?b ! 1)) OR
        push_bit 8 (ucast (?b ! 2)) OR (ucast (?b ! 3) :: u32)"
    have "rev ?b = [?b ! 3, ?b ! 2, ?b ! 1, ?b ! 0]"
      by (subst four_elems [OF b4]) simp
    then have "ntp_seconds p = uint ?w"
      unfolding ntp_seconds_def word_be_bytes by simp
    then have w: "?w = word_of_int (ntp_seconds p)" by simp
    have get: "pbuf_get_at p 0 = chain_bytes p ! 0" "pbuf_get_at p 1 = chain_bytes p ! 1"
      using True by (simp_all add: pbuf_get_at_bytes)
    have cond: "((addr = ntp_server_address state ! 0 \<or> addr = ntp_server_address state ! 1 \<or>
          addr = ntp_server_address state ! 2 \<or> addr = ntp_server_address state ! 3) \<and>
        port = NTP_PORT \<and> (case p of [] \<Rightarrow> False | q # _ \<Rightarrow> tot_len q = NTP_MSG_LEN) \<and>
        pbuf_get_at p 0 AND 7 = 4 \<and> pbuf_get_at p 1 \<noteq> 0) \<longleftrightarrow> ntp_valid state (p, addr, port)"
      using True by (simp add: ntp_valid_def len get [simplified] set_four [OF assms(2)] NTP_PORT_def)
    have "pbuf_copy_partial p 4 40 = ?b" by (rule pbuf_copy_partial_bytes)
    then show ?thesis
      by (simp only: ntp_recv_def cond Let_def b4 drop_all list.size append_Nil2 w NTP_DELTA_def
          NTP_SG_TIME_def) simp
  qed
qed

text \<open>A batch of datagrams: the last valid one sets the clock.\<close>

lemma ntp_deliver_addresses:
  "ntp_server_address (fst (ntp_deliver ds s)) = ntp_server_address (fst s)"
  by (induction ds s rule: ntp_deliver.induct) (simp_all add: ntp_recv_def Let_def)

definition clock_value :: "pbuf list \<Rightarrow> u32" where
  "clock_value p = word_of_int (ntp_seconds p - 2208988800 + 28800)"

lemma ntp_valid_cong:
  "ntp_server_address st = ntp_server_address st' \<Longrightarrow> ntp_valid st d = ntp_valid st' d"
  by (simp add: ntp_valid_def)

lemma ntp_deliver_spec:
  assumes "\<forall>(p, addr, port) \<in> set ds. chain_ok p" and "length (ntp_server_address st) = 4"
  shows "ntp_deliver ds (st, e) =
    (case filter (ntp_valid st) ds of
       [] \<Rightarrow> (st, e)
     | d # ds' \<Rightarrow> (st\<lparr>ntp_get := True\<rparr>, clock_value (fst (last (d # ds')))))"
  using assms
proof (induction ds arbitrary: st e)
  case Nil
  then show ?case by simp
next
  case (Cons d ds)
  obtain p addr port where d: "d = (p, addr, port)" by (cases d)
  from Cons.prems d have ok: "chain_ok p" by auto
  note recv = ntp_recv_eq [OF ok Cons.prems(2), of e addr port]
  have same: "ntp_valid (st\<lparr>ntp_get := True\<rparr>) = ntp_valid st"
    by (rule ext) (rule ntp_valid_cong, simp)
  show ?case
  proof (cases "ntp_valid st d")
    case True
    with recv d have "ntp_deliver (d # ds) (st, e) = ntp_deliver ds (st\<lparr>ntp_get := True\<rparr>, clock_value p)"
      by (simp add: clock_value_def)
    also have "\<dots> = (case filter (ntp_valid st) ds of
        [] \<Rightarrow> (st\<lparr>ntp_get := True\<rparr>, clock_value p)
      | d # ds' \<Rightarrow> (st\<lparr>ntp_get := True\<rparr>, clock_value (fst (last (d # ds')))))"
      using Cons.IH [of "st\<lparr>ntp_get := True\<rparr>" "clock_value p"] Cons.prems
      by (simp add: same split: list.splits)
    finally show ?thesis using True d by (auto split: list.splits)
  next
    case False
    with recv d Cons.IH [of st e] Cons.prems show ?thesis by simp
  qed
qed

lemma get_epoch_loop_returns:
  assumes "\<And>k. alloc k" and "\<And>k p addr port. (p, addr, port) \<in> set (deliver k) \<Longrightarrow> chain_ok p"
    and "length (ntp_server_address st) = 4" and "\<not> ntp_get st"
    and "filter (ntp_valid st) (deliver (k + m)) = d # ds"
    and "\<And>j. j < m \<Longrightarrow> filter (ntp_valid st) (deliver (k + j)) = []"
  shows "get_epoch_loop alloc deliver k (k mod 4) (st, e) sent =
    Some (clock_value (fst (last (d # ds))),
      sent @ map (\<lambda>i. (i mod 4, ntp_request)) [k..<Suc (k + m)])"
proof -
  have ok: "\<forall>(p, addr, port) \<in> set (deliver k). chain_ok p" for k
    using assms(2) by blast
  show ?thesis using assms(5,6)
  proof (induction m arbitrary: k sent)
    case 0
    have "ntp_deliver (deliver k) (st, e) =
        (st\<lparr>ntp_get := True\<rparr>, clock_value (fst (last (d # ds))))"
      using ntp_deliver_spec [OF ok assms(3), of k e] "0.prems"(1) by simp
    then show ?case using assms(1,4)
      by (simp add: get_epoch_loop.simps [of _ _ _ _ "(st, e)"] get_epoch_loop.simps [of _ _ "Suc k"])
  next
    case (Suc m)
    have "ntp_deliver (deliver k) (st, e) = (st, e)"
      using ntp_deliver_spec [OF ok assms(3), of k e] Suc.prems(2) [of 0] by simp
    moreover have "(if k mod 4 + 1 = 4 then 0 else k mod 4 + 1) = Suc k mod 4"
      by (simp add: mod_Suc)
    moreover have "get_epoch_loop alloc deliver (Suc k) (Suc k mod 4) (st, e) (sent @ [(k mod 4, ntp_request)]) =
        Some (clock_value (fst (last (d # ds))),
          (sent @ [(k mod 4, ntp_request)]) @ map (\<lambda>i. (i mod 4, ntp_request)) [Suc k..<Suc (Suc k + m)])"
    proof (rule Suc.IH)
      fix j assume "j < m"
      then show "filter (ntp_valid st) (deliver (Suc k + j)) = []" using Suc.prems(2) [of "Suc j"] by simp
    qed (use Suc.prems(1) in simp)
    moreover have "[k..<Suc (k + Suc m)] = k # [Suc k..<Suc (Suc k + m)]"
      by (subst upt_conv_Cons) simp_all
    ultimately show ?case using assms(1,4)
      by (subst get_epoch_loop.simps) (simp del: upt_Suc)
  qed
qed

lemma wifi_connect_returns:
  "join n \<Longrightarrow> k \<le> n \<Longrightarrow> \<exists>m. wifi_connect_loop join k = Some m"
proof (induction "n - k" arbitrary: k)
  case 0
  then show ?case by (simp add: wifi_connect_loop.simps [of join k])
next
  case (Suc d)
  then show ?case by (cases "join k") (simp_all add: wifi_connect_loop.simps [of join k])
qed

text \<open>
  C10. The receive callback sets the clock only for a 48-byte answer of one of the client's own
  servers from port 123 with mode 4 and a non-zero stratum, and then to the seconds of the
  message since 1970, plus eight hours, in 32 bits; any other datagram changes nothing.
\<close>

theorem ntp_recv_sets_clock:
  assumes "chain_ok p" and "length (ntp_server_address state) = 4"
  shows "ntp_recv state epoch p addr port =
    (if ntp_valid state (p, addr, port)
     then (state\<lparr>ntp_get := True\<rparr>, word_of_int (ntp_seconds p - 2208988800 + 28800))
     else (state, epoch))"
  using assms by (rule ntp_recv_eq)

lemma ntp_recv_sets_clock_witness:
  "ntp_recv \<lparr>ntp_server_address = ntp_servers, ntp_get = False\<rparr> 7
     [\<lparr>payload = [4, 1] @ replicate 38 0 @ [0x83, 0xAA, 0x7E, 0x80] @ replicate 4 0, tot_len = 48\<rparr>]
     0x349472BC 123 =
   (\<lparr>ntp_server_address = ntp_servers, ntp_get = True\<rparr>, 28800)"
  by (subst ntp_recv_sets_clock)
    (simp_all add: ntp_servers_def ntp_valid_def ntp_seconds_def)

text \<open>
  C11. \<open>get_epoch\<close> returns once the network can be joined and a valid answer arrives: if the first
  one comes in during the \<open>n\<close>-th request, \<open>n + 1\<close> requests have been sent, to the four servers in
  turn, and the clock is set from the last valid answer of that batch.
\<close>

theorem get_epoch_returns:
  assumes "\<not> arch_init_fails env" and "wifi_join env j" and "calloc_ok env"
    and "\<forall>k. pbuf_alloc_ok env k" and "\<forall>k. \<forall>(p, addr, port) \<in> set (ntp_traffic env k). chain_ok p"
    and "filter (ntp_valid \<lparr>ntp_server_address = ntp_servers, ntp_get = False\<rparr>) (ntp_traffic env n) = d # ds"
    and "\<forall>k < n. filter (ntp_valid \<lparr>ntp_server_address = ntp_servers, ntp_get = False\<rparr>)
      (ntp_traffic env k) = []"
  shows "get_epoch env epoch = Some (Epoch (clock_value (fst (last (d # ds))))
    (map (\<lambda>i. (i mod 4, ntp_request)) [0..<Suc n]))"
proof -
  obtain m where "wifi_connect_loop (wifi_join env) 0 = Some m"
    using wifi_connect_returns [of "wifi_join env" j 0] assms(2) by auto
  moreover have "get_epoch_loop (pbuf_alloc_ok env) (ntp_traffic env) 0 (0 mod 4)
      (\<lparr>ntp_server_address = ntp_servers, ntp_get = False\<rparr>, epoch) [] =
    Some (clock_value (fst (last (d # ds))), [] @ map (\<lambda>i. (i mod 4, ntp_request)) [0..<Suc (0 + n)])"
    using assms(4-7) by (intro get_epoch_loop_returns) (auto simp: ntp_servers_def)
  ultimately show ?thesis using assms(1,3) by (simp add: get_epoch_def del: upt_Suc)
qed

definition demo_answer :: "pbuf list" where
  "demo_answer = [\<lparr>payload = [4, 1] @ replicate 38 0 @ [0x83, 0xAA, 0x7E, 0x81] @ replicate 4 0,
     tot_len = 48\<rparr>]"

lemma get_epoch_returns_witness:
  "get_epoch \<lparr>arch_init_fails = False, wifi_join = (\<lambda>k. k = 2), calloc_ok = True,
       pbuf_alloc_ok = (\<lambda>k. True),
       ntp_traffic = (\<lambda>k. if k = 5 then [(demo_answer, 0x349472BC, 123)] else [])\<rparr> 0 =
   Some (Epoch (clock_value demo_answer) (map (\<lambda>i. (i mod 4, ntp_request)) [0..<6]))"
proof -
  let ?env = "\<lparr>arch_init_fails = False, wifi_join = (\<lambda>k. k = 2), calloc_ok = True,
       pbuf_alloc_ok = (\<lambda>k. True),
       ntp_traffic = (\<lambda>k. if k = 5 then [(demo_answer, 0x349472BC, 123)] else [])\<rparr>"
  have "get_epoch ?env 0 = Some (Epoch (clock_value (fst (last [(demo_answer, 0x349472BC :: u32, 123 :: u16)])))
      (map (\<lambda>i. (i mod 4, ntp_request)) [0..<Suc 5]))"
    by (rule get_epoch_returns [where j = 2])
      (simp_all add: demo_answer_def ntp_valid_def ntp_servers_def)
  then show ?thesis by (simp del: upt_Suc)
qed

end
