(* ===== verification/Packet_Handler.thy ===== *)
theory Packet_Handler
  imports C_Strings Clock
begin

text \<open>
  The packet parser of \<open>src/packet_handler.c\<close>: the recogniser of TCP-over-IPv4 packets,
  \<open>parse_packet\<close>, which turns a frame into one line of the log, and \<open>find_next_packet\<close>. A read
  outside of the packet buffer is \<^term>\<open>None\<close>.

  The lemmas turn the two loops into searches, bound the length of a line and describe what a
  frame too short for the parser does.
\<close>

section \<open>Recognising packets\<close>

definition FIN_FLAG :: int where "FIN_FLAG = 1"
definition SYN_FLAG :: int where "SYN_FLAG = 2"
definition RST_FLAG :: int where "RST_FLAG = 4"
definition PSH_FLAG :: int where "PSH_FLAG = 8"
definition ACK_FLAG :: int where "ACK_FLAG = 16"
definition URG_FLAG :: int where "URG_FLAG = 32"

definition flag_map :: "(int \<times> string) list" where
  "flag_map =
     [(FIN_FLAG, ''FIN''), (SYN_FLAG, ''SYN''), (RST_FLAG, ''RST''), (PSH_FLAG, ''PSH''),
      (ACK_FLAG, ''ACK''), (URG_FLAG, ''URG''),
      (SYN_FLAG OR RST_FLAG, ''SYN_RST''), (SYN_FLAG OR ACK_FLAG, ''SYN_ACK''),
      (RST_FLAG OR ACK_FLAG, ''RST_ACK''), (FIN_FLAG OR ACK_FLAG, ''FIN_ACK''),
      (PSH_FLAG OR ACK_FLAG, ''PSH_ACK''), (PSH_FLAG OR FIN_FLAG OR URG_FLAG, ''FIN_PSH_URG'')]"

text \<open>The operator \<open>&&\<close> on tests that may be undefined: the right one only runs when the left holds.\<close>

definition c_and :: "bool option \<Rightarrow> bool option \<Rightarrow> bool option" where
  "c_and a b = (case a of None \<Rightarrow> None | Some False \<Rightarrow> Some False | Some True \<Rightarrow> b)"

definition rd_is :: "u8 list \<Rightarrow> nat \<Rightarrow> int \<Rightarrow> bool option" where
  "rd_is buffer i v = map_option (\<lambda>x. uint x = v) (rd buffer i)"

definition is_ipv4_tcp :: "u8 list \<Rightarrow> nat \<Rightarrow> bool option" where
  "is_ipv4_tcp buffer position =
     c_and (rd_is buffer position 0x08)
       (c_and (rd_is buffer (position + 1) 0x00) (rd_is buffer (position + 11) 0x06))"

definition check_flag :: "u8 list \<Rightarrow> nat \<Rightarrow> int \<Rightarrow> bool option" where
  "check_flag buffer position flag_to_check =
     c_and (rd_is buffer position 0x08)
       (c_and (rd_is buffer (position + 1) 0x00)
         (c_and (rd_is buffer (position + 11) 0x06) (rd_is buffer (position + 35) flag_to_check)))"

section \<open>Parsing a packet\<close>

definition fmt_ip :: "u8 list \<Rightarrow> string" where
  "fmt_ip ip = fmt_d (uint (ip ! 0)) @ ''.'' @ fmt_d (uint (ip ! 1)) @ ''.'' @
     fmt_d (uint (ip ! 2)) @ ''.'' @ fmt_d (uint (ip ! 3))"

definition fmt_time :: "tm \<Rightarrow> string" where
  "fmt_time utc = fmt_0d 2 (tm_mday utc) @ ''/'' @ fmt_0d 2 (tm_mon utc + 1) @ ''/'' @
     fmt_0d 4 (tm_year utc + 1900) @ '' '' @ fmt_0d 2 (tm_hour utc) @ '':'' @
     fmt_0d 2 (tm_min utc) @ '':'' @ fmt_0d 2 (tm_sec utc)"

definition be_port :: "u8 \<Rightarrow> u8 \<Rightarrow> int" where
  "be_port hi lo = uint (push_bit 8 (ucast hi :: u32) OR ucast lo)"

text \<open>The line for the packet at position \<open>i\<close>, before \<open>snprintf\<close> cuts it to the buffer.\<close>

definition packet_line :: "tm \<Rightarrow> u8 list \<Rightarrow> nat \<Rightarrow> string \<Rightarrow> string" where
  "packet_line utc buffer i name =
     fmt_time utc @ '','' @
     fmt_ip [buffer ! (i + 14), buffer ! (i + 15), buffer ! (i + 16), buffer ! (i + 17)] @ '','' @
     fmt_d (be_port (buffer ! (i + 22)) (buffer ! (i + 23))) @ '','' @
     fmt_ip [buffer ! (i + 18), buffer ! (i + 19), buffer ! (i + 20), buffer ! (i + 21)] @ '','' @
     fmt_d (be_port (buffer ! (i + 24)) (buffer ! (i + 25))) @ '','' @
     name @ [CHR 0x0A]"

text \<open>The inner loop over \<open>flag_map\<close>: the name of the first entry that matches.\<close>

fun match_flags :: "u8 list \<Rightarrow> nat \<Rightarrow> (int \<times> string) list \<Rightarrow> string option option" where
  "match_flags buffer i [] = Some None"
| "match_flags buffer i ((v, name) # fs) =
     (case check_flag buffer i v of
        None \<Rightarrow> None
      | Some True \<Rightarrow> Some (Some name)
      | Some False \<Rightarrow> match_flags buffer i fs)"

text \<open>The outer loop, \<open>for (i = currentPosition; i < bound; ++i)\<close>.\<close>

function parse_loop :: "u8 list \<Rightarrow> nat \<Rightarrow> nat \<Rightarrow> (nat \<times> string) option option" where
  "parse_loop buffer bound i =
     (if i < bound
      then (case match_flags buffer i flag_map of
              None \<Rightarrow> None
            | Some (Some name) \<Rightarrow> Some (Some (i, name))
            | Some None \<Rightarrow> parse_loop buffer bound (Suc i))
      else Some None)"
  by pat_completeness auto
termination
  by (relation "measure (\<lambda>(buffer, bound, i). bound - i)") auto

declare parse_loop.simps [simp del]

text \<open>
  \<open>size - 13\<close> is computed in \<open>size_t\<close>, so it wraps around for a size below 13. The 128 bytes for
  the line come from \<open>malloc\<close>, whose result is used unchecked.
\<close>

definition parse_bound :: "nat \<Rightarrow> nat" where
  "parse_bound sz = unat (of_nat sz - 13 :: u32)"

definition parse_packet :: "bool \<Rightarrow> u32 \<Rightarrow> u8 list \<Rightarrow> nat \<Rightarrow> nat \<Rightarrow> string option option" where
  "parse_packet malloc_ok epoch_time buffer sz currentPosition =
     (case parse_loop buffer (parse_bound sz) currentPosition of
        None \<Rightarrow> None
      | Some None \<Rightarrow> Some None
      | Some (Some (i, name)) \<Rightarrow>
          if malloc_ok
          then Some (Some (fst (snprintf 128 (packet_line (gmtime epoch_time) buffer i name))))
          else None)"

text \<open>\<open>find_next_packet\<close>; \<open>bufferSize - 1\<close> wraps around for an empty buffer.\<close>

function find_loop :: "u8 list \<Rightarrow> nat \<Rightarrow> nat \<Rightarrow> nat option option" where
  "find_loop buffer bound i =
     (if i < bound
      then (case is_ipv4_tcp buffer i of
              None \<Rightarrow> None | Some True \<Rightarrow> Some (Some i) | Some False \<Rightarrow> find_loop buffer bound (Suc i))
      else Some None)"
  by pat_completeness auto
termination
  by (relation "measure (\<lambda>(buffer, bound, i). bound - i)") auto

declare find_loop.simps [simp del]

definition find_next_packet :: "u8 list \<Rightarrow> nat \<Rightarrow> nat \<Rightarrow> nat option" where
  "find_next_packet buffer bufferSize startFrom =
     (case find_loop buffer (unat (of_nat bufferSize - 1 :: u32)) (startFrom + 1) of
        None \<Rightarrow> None | Some None \<Rightarrow> Some bufferSize | Some (Some i) \<Rightarrow> Some i)"

section \<open>The loops in closed form\<close>

text \<open>A TCP packet in an IPv4 frame at a position, with a known combination of flags.\<close>

definition tcp_at :: "u8 list \<Rightarrow> nat \<Rightarrow> bool" where
  "tcp_at buffer i \<longleftrightarrow> buffer ! i = 0x08 \<and> buffer ! (i + 1) = 0x00 \<and> buffer ! (i + 11) = 0x06"

definition tcp_flags_at :: "u8 list \<Rightarrow> nat \<Rightarrow> string option" where
  "tcp_flags_at buffer i =
     (if tcp_at buffer i then map_of flag_map (uint (buffer ! (i + 35))) else None)"

lemma c_and_Some [simp]: "c_and (Some a) (Some b) = Some (a \<and> b)"
  by (cases a) (simp_all add: c_and_def)

lemma c_and_False [simp]: "c_and (Some False) b = Some False"
  by (simp add: c_and_def)

lemma rd_is_in [simp]: "i < length buffer \<Longrightarrow> rd_is buffer i v = Some (uint (buffer ! i) = v)"
  by (simp add: rd_is_def)

lemma uint_eq_numeral_u8 [simp]:
  "uint (x :: u8) = 8 \<longleftrightarrow> x = 8" "uint (x :: u8) = 0 \<longleftrightarrow> x = 0" "uint (x :: u8) = 6 \<longleftrightarrow> x = 6"
  by (auto simp: word_uint_eq_iff)

lemma check_flag_in:
  "i + 35 < length buffer \<Longrightarrow>
     check_flag buffer i v = Some (tcp_at buffer i \<and> uint (buffer ! (i + 35)) = v)"
  by (simp add: check_flag_def tcp_at_def conj_assoc)

lemma is_ipv4_tcp_in: "i + 11 < length buffer \<Longrightarrow> is_ipv4_tcp buffer i = Some (tcp_at buffer i)"
  by (simp add: is_ipv4_tcp_def tcp_at_def)

lemma match_flags_in:
  "i + 35 < length buffer \<Longrightarrow>
     match_flags buffer i fs =
       Some (if tcp_at buffer i then map_of fs (uint (buffer ! (i + 35))) else None)"
  by (induction fs rule: match_flags.induct [of _ buffer i]) (auto simp: check_flag_in)

lemma match_flags_flag_map:
  "i + 35 < length buffer \<Longrightarrow> match_flags buffer i flag_map = Some (tcp_flags_at buffer i)"
  by (simp add: match_flags_in tcp_flags_at_def)

lemma parse_loop_stop: "bound \<le> i \<Longrightarrow> parse_loop buffer bound i = Some None"
  by (simp add: parse_loop.simps)

lemma parse_loop_hit:
  "i < bound \<Longrightarrow> i + 35 < length buffer \<Longrightarrow> tcp_flags_at buffer i = Some name \<Longrightarrow>
     parse_loop buffer bound i = Some (Some (i, name))"
  by (simp add: parse_loop.simps match_flags_flag_map)

lemma parse_loop_miss:
  "i < bound \<Longrightarrow> i + 35 < length buffer \<Longrightarrow> tcp_flags_at buffer i = None \<Longrightarrow>
     parse_loop buffer bound i = parse_loop buffer bound (Suc i)"
  by (subst parse_loop.simps) (simp add: match_flags_flag_map)

text \<open>As long as every position looked at leaves 35 bytes behind it, the loop is a search.\<close>

lemma parse_loop_find:
  assumes "bound + 35 \<le> length buffer"
  shows "parse_loop buffer bound i =
    Some (map_option (\<lambda>k. (k, the (tcp_flags_at buffer k)))
      (find (\<lambda>k. tcp_flags_at buffer k \<noteq> None) [i..<bound]))"
proof (induction "bound - i" arbitrary: i)
  case 0
  then show ?case by (simp add: parse_loop_stop)
next
  case (Suc n)
  then have i: "i < bound" "i + 35 < length buffer" using assms by simp_all
  have upt: "[i..<bound] = i # [Suc i..<bound]" using i(1) by (rule upt_conv_Cons)
  show ?case
  proof (cases "tcp_flags_at buffer i")
    case None
    then have "parse_loop buffer bound i = parse_loop buffer bound (Suc i)"
      using i by (intro parse_loop_miss)
    with Suc.hyps(1) [of "Suc i"] Suc.hyps(2) None show ?thesis by (simp add: upt)
  next
    case (Some name)
    with i show ?thesis by (simp add: upt parse_loop_hit)
  qed
qed

lemma match_flags_None:
  "length buffer \<le> i \<Longrightarrow> fs \<noteq> [] \<Longrightarrow> match_flags buffer i fs = None"
  by (cases fs) (auto simp: check_flag_def rd_is_def rd_None_iff [THEN iffD2] c_and_def)

text \<open>A loop bound behind the end of the buffer: the loop finds a packet or leaves the buffer.\<close>

lemma parse_loop_overrun:
  assumes "length buffer < bound"
  shows "parse_loop buffer bound i = Some None \<longleftrightarrow> bound \<le> i"
proof (induction "bound - i" arbitrary: i)
  case 0
  then show ?case by (simp add: parse_loop_stop)
next
  case (Suc n)
  then have i: "i < bound" by simp
  show ?case
  proof (cases "length buffer \<le> i")
    case True
    then have "match_flags buffer i flag_map = None"
      by (rule match_flags_None) (simp add: flag_map_def)
    with i show ?thesis by (simp add: parse_loop.simps)
  next
    case False
    with Suc assms have "parse_loop buffer bound (Suc i) = Some None \<longleftrightarrow> bound \<le> Suc i" by simp
    with False i assms show ?thesis
      by (auto simp: parse_loop.simps [of _ _ i] split: option.splits)
  qed
qed

lemma parse_bound_eq:
  "sz < 2 ^ 32 \<Longrightarrow> parse_bound sz = (if 13 \<le> sz then sz - 13 else 2 ^ 32 - 13 + sz)"
  by (auto simp: parse_bound_def unat_sub_if' unat_of_nat word_le_nat_alt)

section \<open>The shape of a log line\<close>

lemma uint_u8_less: "uint (b :: u8) < 256"
  using uint_lt2p [of b] by simp

lemma length_fmt_u8: "length (fmt_d (uint (b :: u8))) \<le> 3"
proof -
  have "nat (uint b) < 10 ^ 3" using unsigned_less [of b, where ?'a = nat] by simp
  then show ?thesis by (simp add: fmt_d_nonneg length_dec_digits)
qed

lemma fmt_u8_set: "c \<in> set (fmt_d (uint (b :: u8))) \<Longrightarrow> is_digit c"
  by (simp add: fmt_d_nonneg dec_digits_set)

lemma length_fmt_ip: "length (fmt_ip [a, b, c, d]) \<le> 15"
  using length_fmt_u8 [of a] length_fmt_u8 [of b] length_fmt_u8 [of c] length_fmt_u8 [of d]
  by (simp add: fmt_ip_def)

lemma fmt_ip_set: "x \<in> set (fmt_ip [a, b, c, d]) \<Longrightarrow> is_digit x \<or> x = CHR ''.''"
  by (auto simp: fmt_ip_def dest: fmt_u8_set)

lemma fmt_ip_neq_Nil [simp]: "fmt_ip ip \<noteq> []"
  by (simp add: fmt_ip_def)

lemma be_port_less: "be_port hi lo < 65536" and be_port_nonneg [simp]: "0 \<le> be_port hi lo"
proof -
  have "push_bit 8 (ucast hi :: u32) OR ucast lo = take_bit 16 (push_bit 8 (ucast hi) OR ucast lo)"
    by (rule bit_word_eqI)
      (auto simp: bit_take_bit_iff bit_or_iff bit_push_bit_iff bit_ucast_iff
        dest: bit_imp_le_length)
  then have "be_port hi lo = take_bit 16 (uint (push_bit 8 (ucast hi :: u32) OR ucast lo))"
    by (metis be_port_def unsigned_take_bit_eq)
  then show "be_port hi lo < 65536"
    using take_bit_int_less_exp [of 16 "uint (push_bit 8 (ucast hi :: u32) OR ucast lo)"] by simp
qed (simp add: be_port_def)

lemma length_fmt_port: "length (fmt_d (be_port hi lo)) \<le> 5"
proof -
  have "nat (be_port hi lo) < 10 ^ 5" using be_port_less [of hi lo] by (simp add: nat_less_iff)
  then show ?thesis by (simp add: fmt_d_nonneg length_dec_digits)
qed

lemma length_fmt_time: "tm_ok t \<Longrightarrow> length (fmt_time t) = 19"
  by (simp add: fmt_time_def tm_ok_def length_fmt_0d)

lemma fmt_time_set: "tm_ok t \<Longrightarrow> x \<in> set (fmt_time t) \<Longrightarrow> is_digit x \<or> x \<in> set ''/ :''"
  by (auto simp: fmt_time_def tm_ok_def dest!: fmt_0d_digits [rotated])

lemma fmt_time_neq_Nil [simp]: "fmt_time t \<noteq> []"
  by (simp add: fmt_time_def)

lemma flag_names: "tcp_flags_at buffer i = Some name \<Longrightarrow> name \<in> snd ` set flag_map"
  by (force simp: tcp_flags_at_def dest!: map_of_SomeD split: if_splits)

lemma length_flag_names: "name \<in> snd ` set flag_map \<Longrightarrow> length name \<le> 11"
  by (auto simp: flag_map_def)

lemma length_packet_line:
  assumes "tm_ok utc" and "length name \<le> 11"
  shows "length (packet_line utc buffer i name) \<le> 77"
  using assms(2) length_fmt_time [OF assms(1)]
    length_fmt_ip [of "buffer ! (i + 14)" "buffer ! (i + 15)" "buffer ! (i + 16)" "buffer ! (i + 17)"]
    length_fmt_ip [of "buffer ! (i + 18)" "buffer ! (i + 19)" "buffer ! (i + 20)" "buffer ! (i + 21)"]
    length_fmt_port [of "buffer ! (i + 22)" "buffer ! (i + 23)"]
    length_fmt_port [of "buffer ! (i + 24)" "buffer ! (i + 25)"]
  by (simp add: packet_line_def)

text \<open>The fields of a line, as the packet at a position determines them.\<close>

definition src_ip_at :: "u8 list \<Rightarrow> nat \<Rightarrow> string" where
  "src_ip_at buffer i =
     fmt_ip [buffer ! (i + 14), buffer ! (i + 15), buffer ! (i + 16), buffer ! (i + 17)]"

definition dest_ip_at :: "u8 list \<Rightarrow> nat \<Rightarrow> string" where
  "dest_ip_at buffer i =
     fmt_ip [buffer ! (i + 18), buffer ! (i + 19), buffer ! (i + 20), buffer ! (i + 21)]"

definition src_port_at :: "u8 list \<Rightarrow> nat \<Rightarrow> int" where
  "src_port_at buffer i = be_port (buffer ! (i + 22)) (buffer ! (i + 23))"

definition dest_port_at :: "u8 list \<Rightarrow> nat \<Rightarrow> int" where
  "dest_port_at buffer i = be_port (buffer ! (i + 24)) (buffer ! (i + 25))"

section \<open>Properties\<close>

lemma parse_packet_find:
  assumes "13 \<le> sz" and "sz + 22 \<le> length buffer" and "sz < 2 ^ 32"
  shows "parse_packet True epoch buffer sz pos = Some
    (map_option (\<lambda>i. packet_line (gmtime epoch) buffer i (the (tcp_flags_at buffer i)))
      (find (\<lambda>i. tcp_flags_at buffer i \<noteq> None) [pos..<sz - 13]))"
proof -
  have bound: "parse_bound sz = sz - 13" using assms(1,3) by (simp add: parse_bound_eq)
  have loop: "parse_loop buffer (sz - 13) pos =
      Some (map_option (\<lambda>k. (k, the (tcp_flags_at buffer k)))
        (find (\<lambda>k. tcp_flags_at buffer k \<noteq> None) [pos..<sz - 13]))"
    using assms(1,2) by (intro parse_loop_find) simp
  show ?thesis
  proof (cases "find (\<lambda>k. tcp_flags_at buffer k \<noteq> None) [pos..<sz - 13]")
    case None
    with loop bound show ?thesis by (simp add: parse_packet_def)
  next
    case (Some i)
    then obtain name where name: "tcp_flags_at buffer i = Some name"
      by (auto simp: find_Some_iff)
    then have "length (packet_line (gmtime epoch) buffer i name) \<le> 77"
      by (intro length_packet_line tm_ok_gmtime length_flag_names flag_names)
    with loop bound Some name show ?thesis
      by (simp add: parse_packet_def snprintf_def)
  qed
qed

text \<open>
  C6. \<open>parse_packet\<close> returns the line of the first position that holds a TCP-over-IPv4 packet with
  a known flag combination, and nothing when there is none before the last 13 bytes of the
  frame. It holds for every frame of at least 13 bytes in a buffer that extends at least 22 bytes
  beyond it; the line is never cut by the 128-byte limit of \<open>snprintf\<close>.
\<close>

theorem parse_packet_spec:
  assumes "13 \<le> sz" and "sz + 22 \<le> length buffer" and "sz < 2 ^ 32"
  shows "parse_packet True epoch buffer sz pos = Some
    (map_option (\<lambda>i. packet_line (gmtime epoch) buffer i (the (tcp_flags_at buffer i)))
      (find (\<lambda>i. tcp_flags_at buffer i \<noteq> None) [pos..<sz - 13]))"
  by (rule parse_packet_find [OF assms])

text \<open>A frame with one SYN packet from 10.0.0.1 port 80 to 10.0.0.2 port 443, for the examples.\<close>

definition demo_frame :: "u8 list" where
  "demo_frame = [0x08, 0x00, 0x45, 0, 0, 40, 0, 0, 0, 0, 64, 0x06, 0, 0, 10, 0, 0, 1, 10, 0, 0, 2,
     0, 80, 1, 187, 0, 0, 0, 0, 0, 0, 0, 0, 0x50, 0x02]"

lemma parse_packet_spec_witness:
  "parse_packet True 0 demo_frame 14 0 =
     Some (Some (''01/01/1970 00:00:00,10.0.0.1,80,10.0.0.2,443,SYN'' @ [CHR 0x0A]))"
proof -
  have "parse_packet True 0 demo_frame 14 0 = Some
    (map_option (\<lambda>i. packet_line (gmtime 0) demo_frame i (the (tcp_flags_at demo_frame i)))
      (find (\<lambda>i. tcp_flags_at demo_frame i \<noteq> None) [0..<14 - 13]))"
    by (rule parse_packet_spec) (simp_all add: demo_frame_def)
  also have "tcp_flags_at demo_frame 0 = Some ''SYN''"
    by (simp add: tcp_flags_at_def tcp_at_def demo_frame_def flag_map_def FIN_FLAG_def SYN_FLAG_def)
  then have "find (\<lambda>i. tcp_flags_at demo_frame i \<noteq> None) [0..<14 - 13] = Some 0"
    by simp
  finally show ?thesis
    using \<open>tcp_flags_at demo_frame 0 = Some ''SYN''\<close>
    by (simp add: packet_line_def gmtime_def split_year.simps [of 1970] year_days_def month_days_def
        fmt_time_def fmt_ip_def be_port_def demo_frame_def fmt_eval)
qed

text \<open>
  C7. A frame shorter than 13 bytes is never reported as ``no packet'': the wrapped-around bound
  sends the loop on until it finds a packet behind the frame or reads behind the buffer.
\<close>

theorem short_frame_overrun:
  assumes "sz < 13" and "length buffer < 2 ^ 32 - 13" and "pos \<le> length buffer"
  shows "parse_packet malloc_ok epoch buffer sz pos \<noteq> Some None"
proof -
  have "parse_bound sz = 2 ^ 32 - 13 + sz" using assms(1) by (simp add: parse_bound_eq)
  with assms have "length buffer < parse_bound sz" "\<not> parse_bound sz \<le> pos" by simp_all
  with parse_loop_overrun have "parse_loop buffer (parse_bound sz) pos \<noteq> Some None" by blast
  then show ?thesis by (auto simp: parse_packet_def split: option.splits)
qed

lemma short_frame_overrun_witness: "parse_packet True 0 [0, 0, 0] 3 0 \<noteq> Some None"
  by (rule short_frame_overrun) simp_all

end
