(* ===== verification/Syn_Flood.thy ===== *)
theory Syn_Flood
  imports Packet_Handler
begin

text \<open>
  The SYN-flood counter \<open>detect_syn_flood\<close> of \<open>src/packet_handler.c\<close>. It works on the lines that
  \<open>parse_packet\<close> writes, takes them apart with \<open>sscanf\<close> and is meant to count, within one second,
  the SYN packets to the destination of the first of them.

  The lemmas show that the parser's lines are read back and on which of them the counter passes
  its guard; on each of those the call is undefined, since \<open>sscanf\<close> is given the values of two
  uninitialised integers where it needs addresses.
\<close>

section \<open>Counting SYN packets\<close>

text \<open>
  The static variables of \<open>detect_syn_flood\<close>, and what the two character arrays it compares and
  copies hold on entry; they keep it when \<open>sscanf\<close> does not get as far as to fill them.
\<close>

record syn_state =
  sync_counter :: int
  first_time :: string
  first_dest_ip :: string

record syn_locals =
  current_time :: string
  dest_ip :: string

definition syn_format :: "scan_dir list" where
  "syn_format = [Not_comma 19, Lit CHR '','', Not_comma 15, Lit CHR '','', Dec, Lit CHR '','',
     Not_comma 15, Lit CHR '','', Dec, Lit CHR '','', Str 3]"

text \<open>
  The locals after the call of \<open>sscanf\<close>. The third and the fifth conversion, both \<open>%d\<close>, are handed
  the ports by value: as soon as the third one succeeds, its result is stored through an
  uninitialised integer taken for a pointer, which is undefined (\<^term>\<open>None\<close>).
\<close>

definition syn_scan :: "syn_locals \<Rightarrow> string \<Rightarrow> syn_locals option" where
  "syn_scan l packet =
     (let vs = sscanf syn_format packet;
          str = (\<lambda>i old. if i < length vs then (case vs ! i of Sval s \<Rightarrow> s | Ival _ \<Rightarrow> old) else old)
      in if 2 < length vs then None
         else Some (l\<lparr>current_time := str 0 (current_time l), dest_ip := str 3 (dest_ip l)\<rparr>))"

text \<open>\<open>sync_counter++\<close> overflows, with undefined behaviour, at the largest \<open>int\<close>.\<close>

definition detect_syn_flood :: "syn_locals \<Rightarrow> syn_state \<Rightarrow> string \<Rightarrow> syn_state option" where
  "detect_syn_flood l s packet =
     (if strstr packet ''SYN'' \<noteq> None \<and> strstr packet ''SYN_RST'' = None \<and>
         strstr packet ''SYN_ACK'' = None
      then do {
        l \<leftarrow> syn_scan l packet;
        let s = (if sync_counter s = 0 \<or> first_time s \<noteq> current_time l
                 then s\<lparr>first_time := current_time l, first_dest_ip := dest_ip l, sync_counter := 0\<rparr>
                 else s);
        if first_dest_ip s = dest_ip l
        then if sync_counter s = 2147483647 then None else Some (s\<lparr>sync_counter := sync_counter s + 1\<rparr>)
        else Some s
      }
      else Some s)"

text \<open>The static variables at the start of the program.\<close>

definition syn_init :: syn_state where
  "syn_init = \<lparr>sync_counter = 0, first_time = [], first_dest_ip = []\<rparr>"

lemma sscanf_time_field:
  assumes "tm_ok t"
  shows "sscanf (Not_comma 19 # ds) (fmt_time t @ CHR '','' # rest) =
    Sval (fmt_time t) # sscanf ds (CHR '','' # rest)"
proof (rule sscanf_Not_comma)
  show "CHR '','' \<notin> set (fmt_time t)"
    using fmt_time_set [OF assms, of "CHR '',''"] by auto
qed (simp_all add: length_fmt_time assms)

lemma sscanf_ip_field:
  assumes "15 \<le> w"
  shows "sscanf (Not_comma w # ds) (fmt_ip [a, b, c, d] @ CHR '','' # rest) =
    Sval (fmt_ip [a, b, c, d]) # sscanf ds (CHR '','' # rest)"
proof (rule sscanf_Not_comma)
  show "CHR '','' \<notin> set (fmt_ip [a, b, c, d])"
    using fmt_ip_set [of "CHR '',''"] by auto
  show "length (fmt_ip [a, b, c, d]) \<le> w"
    using length_fmt_ip [of a b c d] assms by linarith
qed simp

lemma sscanf_port_field:
  "sscanf (Dec # ds) (fmt_d (be_port hi lo) @ CHR '','' # rest) =
     Ival (be_port hi lo) # sscanf ds (CHR '','' # rest)"
proof -
  have "nat (be_port hi lo) < 2147483648" using be_port_less [of hi lo] by linarith
  from sscanf_Dec [OF _ this, of "CHR '','' # rest" ds] show ?thesis
    by (simp add: fmt_d_nonneg del: sscanf.simps)
qed

lemma sscanf_flag_field:
  "name \<in> snd ` set flag_map \<Longrightarrow> sscanf [Str 3] (name @ [CHR 0x0A]) = [Sval (take 3 name)]"
  by (auto simp: flag_map_def isspace_def)

lemma sscanf_packet_line:
  assumes "tm_ok utc" and "name \<in> snd ` set flag_map"
  shows "sscanf syn_format (packet_line utc buffer i name) =
    [Sval (fmt_time utc), Sval (src_ip_at buffer i), Ival (src_port_at buffer i),
     Sval (dest_ip_at buffer i), Ival (dest_port_at buffer i), Sval (take 3 name)]"
proof -
  have lit: "sscanf (Lit CHR '','' # ds) (CHR '','' # r) = sscanf ds r" for ds r by simp
  show ?thesis
    unfolding packet_line_def syn_format_def src_ip_at_def dest_ip_at_def src_port_at_def
      dest_port_at_def
    by (simp only: append_Cons append_Nil append.assoc sscanf_time_field [OF assms(1)]
        sscanf_ip_field [OF order.refl] sscanf_port_field sscanf_flag_field [OF assms(2)] lit)
qed

section \<open>SYN lines\<close>

lemma strstr_skip:
  assumes "list_all (\<lambda>x. x \<noteq> c) xs"
  shows "strstr (xs @ ys) (c # cs) = strstr ys (c # cs)"
  using assms by (induction xs) (simp_all add: strstr.simps [of "_ # _"])

lemma packet_line_prefix:
  assumes "tm_ok utc"
  obtains pre where "packet_line utc buffer i name = pre @ name @ [CHR 0x0A]"
    and "list_all (\<lambda>x. x \<noteq> CHR ''S'') pre"
proof -
  define pre where "pre = fmt_time utc @ '','' @ src_ip_at buffer i @ '','' @
    fmt_d (src_port_at buffer i) @ '','' @ dest_ip_at buffer i @ '','' @
    fmt_d (dest_port_at buffer i) @ '',''"
  have "packet_line utc buffer i name = pre @ name @ [CHR 0x0A]"
    by (simp add: pre_def packet_line_def src_ip_at_def dest_ip_at_def src_port_at_def dest_port_at_def)
  moreover have "CHR ''S'' \<notin> set (fmt_time utc)"
    using fmt_time_set [OF assms, of "CHR ''S''"] by auto
  moreover have "CHR ''S'' \<notin> set (src_ip_at buffer i)" "CHR ''S'' \<notin> set (dest_ip_at buffer i)"
    using fmt_ip_set [of "CHR ''S''"] by (auto simp: src_ip_at_def dest_ip_at_def)
  moreover have "CHR ''S'' \<notin> set (fmt_d (src_port_at buffer i))"
    "CHR ''S'' \<notin> set (fmt_d (dest_port_at buffer i))"
    using dec_digits_set [of "CHR ''S''"]
    by (auto simp: src_port_at_def dest_port_at_def fmt_d_nonneg)
  ultimately show ?thesis using that by (auto simp: pre_def list_all_iff)
qed

text \<open>The guard of \<open>detect_syn_flood\<close> on a line of the parser.\<close>

definition syn_guard :: "string \<Rightarrow> bool" where
  "syn_guard packet \<longleftrightarrow> strstr packet ''SYN'' \<noteq> None \<and> strstr packet ''SYN_RST'' = None \<and>
     strstr packet ''SYN_ACK'' = None"

lemma syn_guard_flag:
  "name \<in> snd ` set flag_map \<Longrightarrow> syn_guard (name @ [CHR 0x0A]) \<longleftrightarrow> name = ''SYN''"
  by (auto simp: flag_map_def syn_guard_def strstr.simps)

lemma syn_guard_packet_line:
  assumes "tm_ok utc" and "name \<in> snd ` set flag_map"
  shows "syn_guard (packet_line utc buffer i name) \<longleftrightarrow> name = ''SYN''"
proof -
  obtain pre where "packet_line utc buffer i name = pre @ name @ [CHR 0x0A]"
    and "list_all (\<lambda>x. x \<noteq> CHR ''S'') pre"
    using packet_line_prefix [OF assms(1)] .
  then have "syn_guard (packet_line utc buffer i name) = syn_guard (name @ [CHR 0x0A])"
    by (simp add: syn_guard_def strstr_skip)
  with syn_guard_flag [OF assms(2)] show ?thesis by simp
qed

text \<open>On a SYN line all conversions succeed, and so the first port is stored through the wild pointer.\<close>

lemma detect_syn_flood_line:
  assumes "tm_ok utc" and "name \<in> snd ` set flag_map"
  shows "detect_syn_flood l s (packet_line utc buffer i name) = (if name = ''SYN'' then None else Some s)"
proof (cases "name = ''SYN''")
  case True
  have "syn_scan l (packet_line utc buffer i name) = None"
    by (simp add: syn_scan_def sscanf_packet_line [OF assms] Let_def)
  moreover have "syn_guard (packet_line utc buffer i name)"
    using syn_guard_packet_line [OF assms] True by simp
  ultimately show ?thesis using True by (simp add: detect_syn_flood_def syn_guard_def)
next
  case False
  have "\<not> syn_guard (packet_line utc buffer i name)"
    using syn_guard_packet_line [OF assms] False by simp
  then have guard: "\<not> (strstr (packet_line utc buffer i name) ''SYN'' \<noteq> None \<and>
      strstr (packet_line utc buffer i name) ''SYN_RST'' = None \<and>
      strstr (packet_line utc buffer i name) ''SYN_ACK'' = None)"
    by (simp only: syn_guard_def not_False_eq_True)
  show ?thesis using False by (simp only: detect_syn_flood_def guard if_False)
qed

section \<open>Parser and counter together\<close>

text \<open>
  The flags of the packet that \<open>parse_packet\<close> reports for a frame of \<open>sz\<close> bytes: those of the first
  position that holds a TCP-over-IPv4 packet with a known flag combination.
\<close>

definition reported :: "u8 list \<Rightarrow> nat \<Rightarrow> nat \<Rightarrow> string option" where
  "reported buffer sz pos =
     (case find (\<lambda>i. tcp_flags_at buffer i \<noteq> None) [pos..<sz - 13] of
        None \<Rightarrow> None | Some i \<Rightarrow> tcp_flags_at buffer i)"

lemma parse_then_detect:
  assumes "13 \<le> sz" and "sz + 22 \<le> length buffer" and "sz < 2 ^ 32"
  obtains "parse_packet True epoch buffer sz pos = Some None" and "reported buffer sz pos = None"
  | line where "parse_packet True epoch buffer sz pos = Some (Some line)" and "reported buffer sz pos \<noteq> None"
      and "detect_syn_flood l s line = (if reported buffer sz pos = Some ''SYN'' then None else Some s)"
proof (cases "find (\<lambda>i. tcp_flags_at buffer i \<noteq> None) [pos..<sz - 13]")
  case None
  with parse_packet_find [OF assms, of epoch pos] that(1) show ?thesis by (simp add: reported_def)
next
  case (Some i)
  then obtain name where name: "tcp_flags_at buffer i = Some name" by (auto simp: find_Some_iff)
  have r: "reported buffer sz pos = Some name" by (simp only: reported_def Some option.case name)
  have "parse_packet True epoch buffer sz pos = Some (Some (packet_line (gmtime epoch) buffer i name))"
    using parse_packet_find [OF assms, of epoch pos] Some name by simp
  then show ?thesis
  proof (rule that(2))
    show "detect_syn_flood l s (packet_line (gmtime epoch) buffer i name) =
        (if reported buffer sz pos = Some ''SYN'' then None else Some s)"
      by (simp add: detect_syn_flood_line [OF tm_ok_gmtime flag_names [OF name]] r)
  qed (simp add: r)
qed

section \<open>Properties\<close>

text \<open>
  C8. The line \<open>parse_packet\<close> writes is read back by the \<open>sscanf\<close> of \<open>detect_syn_flood\<close>: all six
  conversions succeed and give the time, the addresses and ports of the packet and the first
  three letters of the flags, and time and addresses fit the arrays they are stored in.
\<close>

theorem packet_line_read_back:
  assumes "name \<in> snd ` set flag_map"
  shows "sscanf syn_format (packet_line (gmtime epoch) buffer i name) =
      [Sval (fmt_time (gmtime epoch)), Sval (src_ip_at buffer i), Ival (src_port_at buffer i),
       Sval (dest_ip_at buffer i), Ival (dest_port_at buffer i), Sval (take 3 name)] \<and>
    length (fmt_time (gmtime epoch)) < 20 \<and> length (src_ip_at buffer i) < 16 \<and>
    length (dest_ip_at buffer i) < 16"
  using sscanf_packet_line [OF tm_ok_gmtime assms, of epoch buffer i]
    length_fmt_time [OF tm_ok_gmtime, of epoch]
    length_fmt_ip [of "buffer ! (i + 14)" "buffer ! (i + 15)" "buffer ! (i + 16)" "buffer ! (i + 17)"]
    length_fmt_ip [of "buffer ! (i + 18)" "buffer ! (i + 19)" "buffer ! (i + 20)" "buffer ! (i + 21)"]
  by (simp add: src_ip_at_def dest_ip_at_def del: sscanf.simps)

lemma packet_line_read_back_witness:
  "sscanf syn_format (packet_line (gmtime 0) demo_frame 0 ''SYN_ACK'') ! 5 = Sval ''SYN''"
proof -
  have "''SYN_ACK'' \<in> snd ` set flag_map" by (simp add: flag_map_def)
  from packet_line_read_back [OF this, of 0 demo_frame 0] show ?thesis
    by (simp del: sscanf.simps)
qed

text \<open>
  C9. What happens to a frame that the driver hands to the parser and then to the counter: a line is
  written exactly when the frame holds a TCP-over-IPv4 packet with a known flag combination; for
  the first one, the counter's call is undefined when its flags are SYN alone (\<open>sscanf\<close> stores the
  port through an uninitialised integer), whatever the counter held and whatever the locals hold,
  and for every other combination, SYN_ACK and SYN_RST included, it returns and counts nothing.
  So the counter never counts a packet of the parser.
\<close>

theorem syn_packet_undefined:
  assumes "13 \<le> sz" and "sz + 22 \<le> length buffer" and "sz < 2 ^ 32"
  shows "\<exists>p. parse_packet True epoch buffer sz pos = Some p \<and>
    (case p of
       None \<Rightarrow> reported buffer sz pos = None
     | Some line \<Rightarrow> reported buffer sz pos \<noteq> None \<and>
         detect_syn_flood l s line = (if reported buffer sz pos = Some ''SYN'' then None else Some s))"
  by (rule parse_then_detect [OF assms, where epoch = epoch and pos = pos and l = l and s = s]) auto

text \<open>The same frame with the flags SYN and ACK: it goes through and leaves the counter alone.\<close>

lemma syn_packet_undefined_witness:
  "(\<exists>line. parse_packet True 0 demo_frame 14 0 = Some (Some line) \<and>
     detect_syn_flood \<lparr>current_time = [], dest_ip = []\<rparr> syn_init line = None) \<and>
   (\<exists>line. parse_packet True 0 (demo_frame[35 := 0x12]) 14 0 = Some (Some line) \<and>
     detect_syn_flood \<lparr>current_time = [], dest_ip = []\<rparr> syn_init line = Some syn_init)"
proof -
  have r: "reported demo_frame 14 0 = Some ''SYN''"
    "reported (demo_frame[35 := 0x12]) 14 0 = Some ''SYN_ACK''"
    by (simp_all add: reported_def tcp_flags_at_def tcp_at_def demo_frame_def flag_map_def
        FIN_FLAG_def SYN_FLAG_def RST_FLAG_def PSH_FLAG_def ACK_FLAG_def URG_FLAG_def)
  have "13 \<le> (14 :: nat)" "(14 :: nat) + 22 \<le> length demo_frame"
    "(14 :: nat) + 22 \<le> length (demo_frame[35 := 0x12])" "(14 :: nat) < 2 ^ 32"
    by (simp_all add: demo_frame_def)
  note frame = this
  note syn_packet_undefined [OF frame(1,2,4), of 0 0 "\<lparr>current_time = [], dest_ip = []\<rparr>" syn_init]
    syn_packet_undefined [OF frame(1,3,4), of 0 0 "\<lparr>current_time = [], dest_ip = []\<rparr>" syn_init]
  then show ?thesis by (auto simp: r split: option.splits)
qed

end
