(* ===== verification/Web_Server.thy ===== *)
theory Web_Server
  imports Log_Pages Syn_Flood
begin

text \<open>
  The HTTP server, \<open>webserver.c\<close>: its state \<open>HTTP_SERVER_T\<close>, the callbacks for accepted
  connections and received data, the response, and the set-up of the server and of the Wi-Fi
  connection. Connections are numbered; the calls into lwIP's TCP are collected in order.

  The lemmas follow a request from the bytes of the packet to the page that is written back, and
  a captured packet from the line of the parser to the row of the page.
\<close>

section \<open>State and calls\<close>

definition ERR_OK :: int where "ERR_OK = 0"
definition ERR_VAL :: int where "ERR_VAL = -6"
definition PORT :: u16 where "PORT = 80"

datatype tcp_call =
    Tcp_bind nat u16
  | Tcp_arg "nat option"
  | Tcp_recv "nat option"
  | Tcp_accept "nat option"
  | Tcp_write "nat option" string
  | Tcp_output "nat option"
  | Free_packet

record http_server =
  server_pcb :: "nat option"
  client_pcb :: "nat option"
  recv_path :: string
  send_data :: string
  tcp_log :: "tcp_call list"

text \<open>
  The surroundings: the card, the allocator, and what uninitialised locals hold. \<open>sd_file\<close> stands for
  a \<open>read_sd_card\<close> that returns; the one of \<open>sd.c\<close> is undefined for a file that can be opened
  (\<open>Sd_Files\<close>), so what follows is what the server does once that call is repaired.
\<close>

record http_env =
  sd_file :: "string \<Rightarrow> string option"
  page_mem :: "nat \<Rightarrow> bool"
  alert_mem :: "nat \<Rightarrow> bool"
  row_junk :: row_locals

section \<open>The response\<close>

text \<open>
  The pointer \<open>response_data\<close> is not initialised: for a path that no branch knows its use is
  undefined, and so is that of a null pointer.
\<close>

definition response_data :: "http_env \<Rightarrow> string \<Rightarrow> string option" where
  "response_data env path =
     (if path = ''/''
      then Option.bind (access_page (sd_file env) (page_mem env) (row_junk env) 1) id
      else if strncmp_eq path ''/page_'' 6 \<and> strstr path ''.html'' \<noteq> None
      then Option.bind (access_page (sd_file env) (page_mem env) (row_junk env) (atoi (drop 6 path))) id
      else if path = ''/alert_page.html'' then get_alert_data_sd (sd_file env) (alert_mem env)
      else None)"

abbreviation crlf :: string where "crlf \<equiv> [CHR 0x0D, CHR 0x0A]"

definition response_text :: "string \<Rightarrow> string \<Rightarrow> string" where
  "response_text content_type body =
     ''HTTP/1.1 200 OK'' @ crlf @ ''Content-Type: '' @ content_type @ crlf @
     ''Content-Length: '' @ fmt_d (int (length body)) @ crlf @ crlf @ body"

definition http_server_send_data ::
  "http_env \<Rightarrow> http_server \<Rightarrow> nat option \<Rightarrow> (int \<times> http_server) option" where
  "http_server_send_data env s tpcb =
     (case response_data env (recv_path s) of
        None \<Rightarrow> None
      | Some body \<Rightarrow>
          let content_type = get_content_type (recv_path s);
              out = fst (snprintf BUF_SIZE (response_text content_type body))
          in Some (ERR_OK, s\<lparr>send_data := out,
               tcp_log := tcp_log s @ [Tcp_write tpcb out, Tcp_output tpcb]\<rparr>))"

section \<open>Requests\<close>

text \<open>
  The request is read as a C string from the payload of the first link on, although nothing
  terminates it: the comparison and the search run on into the memory behind the payload. They
  are undefined when that is left.
\<close>

fun mem_starts :: "string \<Rightarrow> string \<Rightarrow> bool option" where
  "mem_starts data [] = Some True"
| "mem_starts [] (c # cs) = None"
| "mem_starts (x # xs) (c # cs) = (if x = c then mem_starts xs cs else Some False)"

fun mem_strstr :: "string \<Rightarrow> string \<Rightarrow> nat option option" where
  "mem_strstr data needle =
     (case mem_starts data needle of
        None \<Rightarrow> None
      | Some True \<Rightarrow> Some (Some 0)
      | Some False \<Rightarrow>
          (case data of
             [] \<Rightarrow> None
           | x # xs \<Rightarrow> if x = CHR 0x00 then Some None else map_option (map_option Suc) (mem_strstr xs needle)))"

declare mem_strstr.simps [simp del]

definition bytes_string :: "u8 list \<Rightarrow> string" where
  "bytes_string bs = map (\<lambda>b. char_of (unat b)) bs"

text \<open>The outcome of looking at a request: the state with the new path, or \<open>ERR_VAL\<close>.\<close>

definition request_path :: "u8 list \<Rightarrow> pbuf list \<Rightarrow> http_server \<Rightarrow> (http_server option) option" where
  "request_path mem_behind p s =
     (let data = bytes_string (payload (hd p) @ mem_behind); data_len = tot_len (hd p)
      in if 0 < data_len \<and> 3 \<le> data_len
         then (case mem_starts data ''GET'' of
                 None \<Rightarrow> None
               | Some False \<Rightarrow> Some (Some s)
               | Some True \<Rightarrow>
                   let path_start = drop 4 data
                   in (case mem_strstr path_start '' HTTP/1.'' of
                         None \<Rightarrow> None
                       | Some None \<Rightarrow> Some None
                       | Some (Some path_length) \<Rightarrow>
                           if path_length < BUF_SIZE
                           then Some (Some (s\<lparr>recv_path := take path_length path_start\<rparr>)) else None))
         else Some (Some s))"

definition http_server_recv ::
  "http_env \<Rightarrow> u8 list \<Rightarrow> http_server \<Rightarrow> nat option \<Rightarrow> pbuf list option \<Rightarrow> (int \<times> http_server) option" where
  "http_server_recv env mem_behind s tpcb p =
     (case p of
        None \<Rightarrow> Some (ERR_VAL, s)
      | Some p \<Rightarrow>
        (case request_path mem_behind p s of
           None \<Rightarrow> None
         | Some None \<Rightarrow> Some (ERR_VAL, s)
         | Some (Some s) \<Rightarrow>
             let s = s\<lparr>tcp_log := tcp_log s @ [Free_packet]\<rparr>
             in http_server_send_data env s (client_pcb s)))"

section \<open>Connections and set-up\<close>

definition http_server_accept :: "http_server \<Rightarrow> nat option \<Rightarrow> int \<Rightarrow> int \<times> http_server" where
  "http_server_accept s new_pcb err =
     (if err \<noteq> ERR_OK \<or> new_pcb = None then (ERR_VAL, s)
      else (ERR_OK, s\<lparr>client_pcb := new_pcb, tcp_log := tcp_log s @ [Tcp_arg new_pcb, Tcp_recv new_pcb]\<rparr>))"

datatype init_result = Exit nat | Listening http_server

definition http_server_init :: "bool \<Rightarrow> nat \<Rightarrow> int \<Rightarrow> nat option \<Rightarrow> init_result" where
  "http_server_init state_ok pcb bind_err listening =
     (if \<not> state_ok then Exit 1
      else if bind_err \<noteq> 0 then Exit 1
      else Listening \<lparr>server_pcb = listening, client_pcb = None, recv_path = [], send_data = [],
             tcp_log = [Tcp_bind pcb PORT, Tcp_arg listening, Tcp_accept listening]\<rparr>)"

text \<open>\<open>initWifi\<close> ignores the result of \<open>cyw43_arch_init\<close> and joins like \<open>get_epoch\<close> does.\<close>

definition initWifi :: "(nat \<Rightarrow> bool) \<Rightarrow> nat option" where
  "initWifi join = wifi_connect_loop join 0"

text \<open>A run of the server: connections and data in any order, as long as it is defined.\<close>

datatype http_event = Accept "nat option" int | Data "nat option" "pbuf list option" "u8 list"

fun http_step :: "http_env \<Rightarrow> http_event \<Rightarrow> http_server \<Rightarrow> http_server option" where
  "http_step env (Accept c err) s = Some (snd (http_server_accept s c err))"
| "http_step env (Data tpcb p mem_behind) s = map_option snd (http_server_recv env mem_behind s tpcb p)"

fun http_run :: "http_env \<Rightarrow> http_event list \<Rightarrow> http_server \<Rightarrow> http_server option" where
  "http_run env [] s = Some s"
| "http_run env (e # es) s = do { s \<leftarrow> http_step env e s; http_run env es s }"

section \<open>From the parser to the page\<close>

lemma sscanf_White: "xs \<noteq> [] \<Longrightarrow> \<not> isspace (hd xs) \<Longrightarrow> sscanf (White # ds) (xs @ r) = sscanf ds (xs @ r)"
  by (cases xs) simp_all

lemma hd_dec_digits_space: "\<not> isspace (hd (dec_digits n @ r))"
proof -
  have "hd (dec_digits n @ r) \<in> set (dec_digits n)" by (cases "dec_digits n") simp_all
  then have "is_digit (hd (dec_digits n @ r))" by (rule dec_digits_set)
  then show ?thesis by simp
qed

lemma sscanf_White_ip:
  "sscanf (White # ds) (fmt_ip [a, b, c, d] @ r) = sscanf ds (fmt_ip [a, b, c, d] @ r)"
  using hd_dec_digits_space [of "nat (uint a)" "[]"]
  by (intro sscanf_White) (simp_all add: fmt_ip_def fmt_d_nonneg)

lemma sscanf_White_port:
  "sscanf (White # ds) (fmt_d (be_port hi lo) @ r) = sscanf ds (fmt_d (be_port hi lo) @ r)"
  using hd_dec_digits_space [of "nat (be_port hi lo)" "[]"]
  by (intro sscanf_White) (simp_all add: fmt_d_nonneg)

lemma sscanf_page_flag:
  "name \<in> snd ` set flag_map \<Longrightarrow> sscanf [White, Str 9] name = [Sval (take 9 name)]"
  by (auto simp: flag_map_def isspace_def)

lemma butlast_packet_line:
  "butlast (packet_line utc buffer i name) =
     fmt_time utc @ '','' @ src_ip_at buffer i @ '','' @ fmt_d (src_port_at buffer i) @ '','' @
     dest_ip_at buffer i @ '','' @ fmt_d (dest_port_at buffer i) @ '','' @ name"
  unfolding packet_line_def src_ip_at_def dest_ip_at_def src_port_at_def dest_port_at_def
  by (simp add: butlast_append)

lemma sscanf_row_packet_line:
  assumes "tm_ok utc" and "name \<in> snd ` set flag_map"
  shows "sscanf row_format (butlast (packet_line utc buffer i name)) =
    [Sval (fmt_time utc), Sval (src_ip_at buffer i), Ival (src_port_at buffer i),
     Sval (dest_ip_at buffer i), Ival (dest_port_at buffer i), Sval (take 9 name)]"
proof -
  have lit: "sscanf (Lit CHR '','' # ds) (CHR '','' # r) = sscanf ds r" for ds r by simp
  have "15 \<le> (19 :: nat)" by simp
  note ip = sscanf_ip_field [OF this]
  show ?thesis
    unfolding butlast_packet_line row_format_def src_ip_at_def dest_ip_at_def src_port_at_def
      dest_port_at_def
    by (simp only: append_Cons append_Nil append.assoc sscanf_time_field [OF assms(1)]
        ip sscanf_port_field sscanf_White_ip sscanf_White_port sscanf_page_flag [OF assms(2)] lit)
qed

lemma log_line_packet_line:
  assumes "tm_ok utc" and "name \<in> snd ` set flag_map"
  shows "log_line (butlast (packet_line utc buffer i name))"
proof -
  have t: "newline \<notin> set (fmt_time utc)" using fmt_time_set [OF assms(1), of newline] by auto
  have ip: "newline \<notin> set (fmt_ip [a, b, c, d])" for a b c d using fmt_ip_set [of newline] by auto
  have port: "newline \<notin> set (fmt_d (be_port hi lo))" for hi lo
    using dec_digits_set [of newline] by (auto simp: fmt_d_nonneg)
  have n: "newline \<notin> set name" using assms(2) by (auto simp: flag_map_def)
  show ?thesis
    unfolding log_line_def butlast_packet_line src_ip_at_def dest_ip_at_def src_port_at_def dest_port_at_def
    using t ip port n by simp
qed

section \<open>From the request to the page\<close>












section \<open>Properties\<close>

text \<open>
  C20. A packet that the parser logs is a line of the log file, and the dashboard reads the same
  time, addresses and ports back from it as the flood detector does; of the flags it keeps nine
  letters, all of them for every combination but \<open>FIN_PSH_URG\<close>.
\<close>

theorem logged_packet_row:
  assumes "name \<in> snd ` set flag_map"
  shows "packet_line (gmtime epoch) buffer i name = butlast (packet_line (gmtime epoch) buffer i name) @ [newline] \<and>
    log_line (butlast (packet_line (gmtime epoch) buffer i name)) \<and>
    scan_row l (butlast (packet_line (gmtime epoch) buffer i name)) =
      \<lparr>timestamp = fmt_time (gmtime epoch), src_addr = src_ip_at buffer i, src_port = src_port_at buffer i,
       dst_addr = dest_ip_at buffer i, dst_port = dest_port_at buffer i,
       flag = (if name = ''FIN_PSH_URG'' then ''FIN_PSH_U'' else name)\<rparr>"
proof -
  have "take 9 name = (if name = ''FIN_PSH_URG'' then ''FIN_PSH_U'' else name)"
    using assms by (auto simp: flag_map_def)
  then have "scan_row l (butlast (packet_line (gmtime epoch) buffer i name)) =
      \<lparr>timestamp = fmt_time (gmtime epoch), src_addr = src_ip_at buffer i, src_port = src_port_at buffer i,
       dst_addr = dest_ip_at buffer i, dst_port = dest_port_at buffer i,
       flag = (if name = ''FIN_PSH_URG'' then ''FIN_PSH_U'' else name)\<rparr>"
    by (simp add: scan_row_def sscanf_row_packet_line [OF tm_ok_gmtime assms] Let_def)
  moreover have "packet_line (gmtime epoch) buffer i name =
      butlast (packet_line (gmtime epoch) buffer i name) @ [newline]"
    unfolding butlast_packet_line
    by (simp add: packet_line_def src_ip_at_def dest_ip_at_def src_port_at_def dest_port_at_def)
  ultimately show ?thesis using log_line_packet_line [OF tm_ok_gmtime assms] by simp
qed

lemma logged_packet_row_witness:
  "flag (scan_row no_row (butlast (packet_line (gmtime 0) demo_frame 0 ''FIN_PSH_URG''))) = ''FIN_PSH_U''"
proof -
  have "''FIN_PSH_URG'' \<in> snd ` set flag_map" by (simp add: flag_map_def)
  from logged_packet_row [OF this, of 0 demo_frame 0 no_row] show ?thesis by simp
qed


text \<open>A server that has accepted a connection, and a request for the second page of a one-page log.\<close>

definition demo_http :: http_env where
  "demo_http = \<lparr>sd_file = demo_sd, page_mem = (\<lambda>k. True), alert_mem = (\<lambda>k. True), row_junk = no_row\<rparr>"

definition demo_server :: http_server where
  "demo_server = \<lparr>server_pcb = Some 1, client_pcb = Some 2, recv_path = [], send_data = [], tcp_log = []\<rparr>"




text \<open>
  A client's view of a response: the value of a header field is what stands behind its name up to
  the end of the line, the body what stands behind the first empty line.
\<close>

definition header_field :: "string \<Rightarrow> string \<Rightarrow> string option" where
  "header_field name text =
     map_option (\<lambda>t. takeWhile (\<lambda>c. c \<noteq> CHR 0x0D) (drop (length name) t)) (strstr text name)"

definition announced_length :: "string \<Rightarrow> int option" where
  "announced_length text = map_option atoi (header_field ''Content-Length: '' text)"

definition received_body :: "string \<Rightarrow> string option" where
  "received_body text = map_option (drop 4) (strstr text (crlf @ crlf))"

lemma content_type_chars: "list_all (\<lambda>c. c \<noteq> CHR 0x0D \<and> c \<noteq> CHR ''C'') (get_content_type path)"
  "length (get_content_type path) \<le> 24"
  by (simp_all add: get_content_type_def Let_def split: option.split)

lemma dec_digits_no_cr: "list_all (\<lambda>c. c \<noteq> CHR 0x0D) (dec_digits n)"
  unfolding list_all_iff by (auto simp: is_digit_def dest!: dec_digits_set)

lemma strstr_step: "take (length needle) (c # cs) \<noteq> needle \<Longrightarrow> strstr (c # cs) needle = strstr cs needle"
  by (simp add: strstr.simps [of "c # cs"])

lemma strstr_here: "strstr (needle @ rest) needle = Some (needle @ rest)"
  by (simp add: strstr.simps [of "needle @ rest"])

text \<open>The header of a response, and what a client finds in it, whatever stands behind it.\<close>

definition response_header :: "string \<Rightarrow> nat \<Rightarrow> string" where
  "response_header ct n = ''HTTP/1.1 200 OK'' @ crlf @ ''Content-Type: '' @ ct @ crlf @
     ''Content-Length: '' @ dec_digits n @ crlf @ crlf"

lemma header_fields:
  assumes "list_all (\<lambda>c. c \<noteq> CHR 0x0D \<and> c \<noteq> CHR ''C'') ct"
  shows "header_field ''Content-Type: '' (response_header ct n @ rest) = Some ct"
    and "header_field ''Content-Length: '' (response_header ct n @ rest) = Some (dec_digits n)"
    and "received_body (response_header ct n @ rest) = Some rest"
proof -
  have ct: "list_all (\<lambda>c. c \<noteq> CHR 0x0D) ct" "list_all (\<lambda>c. c \<noteq> CHR ''C'') ct"
    using assms by (auto simp: list_all_iff)
  have line: "takeWhile (\<lambda>c. c \<noteq> CHR 0x0D) (v @ CHR 0x0D # r) = v"
    if "list_all (\<lambda>c. c \<noteq> CHR 0x0D) v" for v r
    using that by (induction v) simp_all
  let ?len = "''Content-Length: '' @ dec_digits n @ crlf @ crlf @ rest"
  let ?type = "''Content-Type: '' @ ct @ crlf @ ?len"
  have all: "response_header ct n @ rest = (''HTTP/1.1 200 OK'' @ crlf) @ ?type"
    by (simp add: response_header_def)
  have type: "strstr (response_header ct n @ rest) ''Content-Type: '' = Some ?type"
    unfolding all by (subst strstr_skip) (simp, rule strstr_here)
  then show "header_field ''Content-Type: '' (response_header ct n @ rest) = Some ct"
    by (simp add: header_field_def line [OF ct(1)])
  have "strstr ?type ''Content-Length: '' = strstr ((''ontent-Type: '' @ ct @ crlf) @ ?len) ''Content-Length: ''"
    by (simp add: strstr_step)
  also have "\<dots> = strstr ?len ''Content-Length: ''" by (rule strstr_skip) (simp add: ct(2))
  also have "\<dots> = Some ?len" by (rule strstr_here)
  finally have "strstr (response_header ct n @ rest) ''Content-Length: '' = Some ?len"
    unfolding all by (subst strstr_skip) simp_all
  then show "header_field ''Content-Length: '' (response_header ct n @ rest) = Some (dec_digits n)"
    by (simp add: header_field_def line [OF dec_digits_no_cr])
  let ?nl = "[CHR 0x0D, CHR 0x0A, CHR 0x0D, CHR 0x0A]"
  have skip: "strstr (v @ crlf @ c # r) ?nl = strstr (c # r) ?nl"
    if "list_all (\<lambda>c. c \<noteq> CHR 0x0D) v" and "c \<noteq> CHR 0x0D" for v c r
    using that by (subst strstr_skip) (simp_all add: strstr_step)
  have "strstr (response_header ct n @ rest) ?nl =
      strstr (''HTTP/1.1 200 OK'' @ crlf @ CHR ''C'' # (''ontent-Type: '' @ ct @ crlf @ ?len)) ?nl"
    by (simp add: response_header_def)
  also have "\<dots> = strstr (CHR ''C'' # (''ontent-Type: '' @ ct @ crlf @ ?len)) ?nl" by (rule skip) simp_all
  also have "\<dots> = strstr ((''Content-Type: '' @ ct) @ crlf @
      CHR ''C'' # (''ontent-Length: '' @ dec_digits n @ crlf @ crlf @ rest)) ?nl" by simp
  also have "\<dots> = strstr (CHR ''C'' # (''ontent-Length: '' @ dec_digits n @ crlf @ crlf @ rest)) ?nl"
    by (rule skip) (simp_all add: ct(1))
  also have "\<dots> = strstr ((''Content-Length: '' @ dec_digits n) @ ?nl @ rest) ?nl" by simp
  also have "\<dots> = strstr (?nl @ rest) ?nl"
    using dec_digits_no_cr [of n] by (intro strstr_skip) simp
  also have "\<dots> = Some (?nl @ rest)" by (rule strstr_here)
  finally show "received_body (response_header ct n @ rest) = Some rest"
    by (simp add: received_body_def)
qed

lemma response_text_header: "response_text ct body = response_header ct (length body) @ body"
  by (simp add: response_text_def response_header_def fmt_d_nonneg)

text \<open>
  C22. What a client reads in a written response: the type that belongs to the path, and as the
  announced length that of the whole page, which it compares with the octets behind the empty
  line. They are the page when the response has fewer characters than the buffer of 4096, and
  then the client has all that was announced; a longer response is cut to 4095 characters, and the
  client is left waiting for the rest, which is never sent.
\<close>

theorem response_complete_iff_fits:
  assumes "http_server_send_data env s tpcb = Some (err, s')"
    and "response_data env (recv_path s) = Some body" and "length body < 2147483648"
    and "fits \<longleftrightarrow> length (response_text (get_content_type (recv_path s)) body) < BUF_SIZE"
  shows "tcp_log s' = tcp_log s @ [Tcp_write tpcb (send_data s'), Tcp_output tpcb] \<and>
    header_field ''Content-Type: '' (send_data s') = Some (get_content_type (recv_path s)) \<and>
    announced_length (send_data s') = Some (int (length body)) \<and>
    (\<exists>got. received_body (send_data s') = Some got \<and> (got = body \<longleftrightarrow> fits) \<and>
      (int (length got) = int (length body) \<longleftrightarrow> fits) \<and> (\<not> fits \<longrightarrow> length (send_data s') = 4095))"
proof -
  let ?ct = "get_content_type (recv_path s)" and ?h = "response_header (get_content_type (recv_path s)) (length body)"
  have short: "length ?h < BUF_SIZE"
  proof -
    have "length (dec_digits (length body)) \<le> 10"
      by (rule length_dec_digits) (use assms(3) in simp_all)
    then show ?thesis using content_type_chars(2) [of "recv_path s"]
      by (simp add: response_header_def BUF_SIZE_def)
  qed
  let ?got = "take (BUF_SIZE - 1 - length ?h) body"
  have s': "s' = s\<lparr>send_data := ?h @ ?got, tcp_log := tcp_log s @ [Tcp_write tpcb (?h @ ?got), Tcp_output tpcb]\<rparr>"
    using assms(1,2) short
    by (simp add: http_server_send_data_def Let_def snprintf_def response_text_header)
  note fields = header_fields [OF content_type_chars(1) [of "recv_path s"], of "length body" ?got]
  have "atoi (dec_digits (length body)) = int (length body)"
    using dropWhile_space_digits [of "length body" "[]"] scan_int_dec_digits [of "[]" "length body"] assms(3)
    by (simp add: atoi_def)
  moreover have "fits \<longleftrightarrow> length body \<le> BUF_SIZE - 1 - length ?h"
    using short unfolding assms(4) response_text_header length_append by linarith
  moreover have "length (send_data s') = 4095" if "\<not> length body \<le> BUF_SIZE - 1 - length ?h"
    using that short by (simp add: s' BUF_SIZE_def)
  ultimately show ?thesis using fields by (auto simp: s' announced_length_def take_all_iff)
qed

lemma response_complete_iff_fits_witness:
  "\<exists>s'. http_server_send_data (demo_http\<lparr>sd_file := (\<lambda>f. None)\<rparr>)
      (demo_server\<lparr>recv_path := ''/''\<rparr>) (Some 2) = Some (ERR_OK, s') \<and>
    announced_length (send_data s') = Some (int (length get_default_data)) \<and>
    received_body (send_data s') = Some get_default_data"
proof -
  let ?env = "demo_http\<lparr>sd_file := (\<lambda>f. None)\<rparr>" and ?s = "demo_server\<lparr>recv_path := ''/''\<rparr>"
  have body: "response_data ?env (recv_path ?s) = Some get_default_data"
    by (simp add: response_data_def access_page_def demo_http_def)
  then obtain s' where s': "http_server_send_data ?env ?s (Some 2) = Some (ERR_OK, s')"
    by (simp add: http_server_send_data_def Let_def)
  have d: "length get_default_data < 1000" by (simp add: get_default_data_def)
  then have "length (fmt_d (int (length get_default_data))) \<le> 3"
    by (simp add: fmt_d_nonneg length_dec_digits)
  with d have fits: "length (response_text (get_content_type (recv_path ?s)) get_default_data) < BUF_SIZE"
    by (simp add: response_text_def get_content_type_def BUF_SIZE_def)
  have "length get_default_data < 2147483648" using d by linarith
  from response_complete_iff_fits [OF s' body this refl] fits s' show ?thesis by auto
qed

end
