(* ===== verification/Ff_Bytes.thy ===== *)
theory Ff_Bytes
  imports Prelude
begin

text \<open>
  The lowest layer of the file system library, the first functions of \<open>ff.c\<close>: the result codes of
  \<open>ff.h\<close>, little-endian words in a byte buffer (\<open>ld_word\<close> to \<open>st_qword\<close>) and the library's own
  memory and string functions. A pointer into a buffer is the buffer with a position; an access
  behind its end gives \<^term>\<open>None\<close>.

  The loads and stores of each width satisfy one contract, the locale \<open>le_cell\<close>, from which the
  laws for arrays of such words follow once; the allocation table rests on them.
\<close>

section \<open>Result codes\<close>

datatype fresult =
    FR_OK | FR_DISK_ERR | FR_INT_ERR | FR_NOT_READY | FR_NO_FILE | FR_NO_PATH | FR_INVALID_NAME
  | FR_DENIED | FR_EXIST | FR_INVALID_OBJECT | FR_WRITE_PROTECTED | FR_INVALID_DRIVE
  | FR_NOT_ENABLED | FR_NO_FILESYSTEM | FR_MKFS_ABORTED | FR_TIMEOUT | FR_LOCKED
  | FR_NOT_ENOUGH_CORE | FR_TOO_MANY_OPEN_FILES | FR_INVALID_PARAMETER

text \<open>The codes are numbered in this order.\<close>

fun fresult_code :: "fresult \<Rightarrow> nat" where
  "fresult_code FR_OK = 0" | "fresult_code FR_DISK_ERR = 1" | "fresult_code FR_INT_ERR = 2"
| "fresult_code FR_NOT_READY = 3" | "fresult_code FR_NO_FILE = 4" | "fresult_code FR_NO_PATH = 5"
| "fresult_code FR_INVALID_NAME = 6" | "fresult_code FR_DENIED = 7" | "fresult_code FR_EXIST = 8"
| "fresult_code FR_INVALID_OBJECT = 9" | "fresult_code FR_WRITE_PROTECTED = 10"
| "fresult_code FR_INVALID_DRIVE = 11" | "fresult_code FR_NOT_ENABLED = 12"
| "fresult_code FR_NO_FILESYSTEM = 13" | "fresult_code FR_MKFS_ABORTED = 14"
| "fresult_code FR_TIMEOUT = 15" | "fresult_code FR_LOCKED = 16"
| "fresult_code FR_NOT_ENOUGH_CORE = 17" | "fresult_code FR_TOO_MANY_OPEN_FILES = 18"
| "fresult_code FR_INVALID_PARAMETER = 19"

lemma fresult_code_inj: "fresult_code a = fresult_code b \<longleftrightarrow> a = b"
  by (cases a; cases b) simp_all

instantiation fresult :: linorder
begin

definition less_eq_fresult :: "fresult \<Rightarrow> fresult \<Rightarrow> bool" where
  "less_eq_fresult a b = (fresult_code a \<le> fresult_code b)"

definition less_fresult :: "fresult \<Rightarrow> fresult \<Rightarrow> bool" where
  "less_fresult a b = (fresult_code a < fresult_code b)"

instance
  by standard (auto simp: less_eq_fresult_def less_fresult_def fresult_code_inj)

end

section \<open>Words in a buffer\<close>

definition ld_word :: "u8 list \<Rightarrow> nat \<Rightarrow> u16 option" where
  "ld_word buf p = do {
     b1 \<leftarrow> rd buf (p + 1);
     b0 \<leftarrow> rd buf p;
     Some (push_bit 8 (ucast b1) OR ucast b0) }"

definition ld_dword :: "u8 list \<Rightarrow> nat \<Rightarrow> u32 option" where
  "ld_dword buf p = do {
     b3 \<leftarrow> rd buf (p + 3); let rv = (ucast b3 :: u32);
     b2 \<leftarrow> rd buf (p + 2); let rv = push_bit 8 rv OR ucast b2;
     b1 \<leftarrow> rd buf (p + 1); let rv = push_bit 8 rv OR ucast b1;
     b0 \<leftarrow> rd buf p;
     Some (push_bit 8 rv OR ucast b0) }"

definition ld_qword :: "u8 list \<Rightarrow> nat \<Rightarrow> u64 option" where
  "ld_qword buf p = do {
     b7 \<leftarrow> rd buf (p + 7); let rv = (ucast b7 :: u64);
     b6 \<leftarrow> rd buf (p + 6); let rv = push_bit 8 rv OR ucast b6;
     b5 \<leftarrow> rd buf (p + 5); let rv = push_bit 8 rv OR ucast b5;
     b4 \<leftarrow> rd buf (p + 4); let rv = push_bit 8 rv OR ucast b4;
     b3 \<leftarrow> rd buf (p + 3); let rv = push_bit 8 rv OR ucast b3;
     b2 \<leftarrow> rd buf (p + 2); let rv = push_bit 8 rv OR ucast b2;
     b1 \<leftarrow> rd buf (p + 1); let rv = push_bit 8 rv OR ucast b1;
     b0 \<leftarrow> rd buf p;
     Some (push_bit 8 rv OR ucast b0) }"

definition st_word :: "u8 list \<Rightarrow> nat \<Rightarrow> u16 \<Rightarrow> u8 list option" where
  "st_word buf p val = do {
     buf \<leftarrow> wr buf p (ucast val); let val = drop_bit 8 val;
     wr buf (p + 1) (ucast val) }"

definition st_dword :: "u8 list \<Rightarrow> nat \<Rightarrow> u32 \<Rightarrow> u8 list option" where
  "st_dword buf p val = do {
     buf \<leftarrow> wr buf p (ucast val); let val = drop_bit 8 val;
     buf \<leftarrow> wr buf (p + 1) (ucast val); let val = drop_bit 8 val;
     buf \<leftarrow> wr buf (p + 2) (ucast val); let val = drop_bit 8 val;
     wr buf (p + 3) (ucast val) }"

definition st_qword :: "u8 list \<Rightarrow> nat \<Rightarrow> u64 \<Rightarrow> u8 list option" where
  "st_qword buf p val = do {
     buf \<leftarrow> wr buf p (ucast val); let val = drop_bit 8 val;
     buf \<leftarrow> wr buf (p + 1) (ucast val); let val = drop_bit 8 val;
     buf \<leftarrow> wr buf (p + 2) (ucast val); let val = drop_bit 8 val;
     buf \<leftarrow> wr buf (p + 3) (ucast val); let val = drop_bit 8 val;
     buf \<leftarrow> wr buf (p + 4) (ucast val); let val = drop_bit 8 val;
     buf \<leftarrow> wr buf (p + 5) (ucast val); let val = drop_bit 8 val;
     buf \<leftarrow> wr buf (p + 6) (ucast val); let val = drop_bit 8 val;
     wr buf (p + 7) (ucast val) }"

text \<open>Putting the octets of a word together from the top.\<close>

lemma join_octet:
  fixes v :: "'a::len word"
  assumes "8 \<le> LENGTH('a)" and "k + 8 = m"
  shows "push_bit 8 (drop_bit m v) OR ucast (ucast (drop_bit k v) :: u8) = drop_bit k v"
proof (rule bit_word_eqI)
  fix n assume n: "n < LENGTH('a)"
  show "bit (push_bit 8 (drop_bit m v) OR ucast (ucast (drop_bit k v) :: u8)) n = bit (drop_bit k v) n"
  proof (cases "n < 8")
    case True
    then show ?thesis using n by (simp add: bit_or_iff bit_push_bit_iff bit_ucast_iff bit_drop_bit_eq)
  next
    case False
    then have "m + (n - 8) = k + n" using assms(2) by simp
    then show ?thesis using n False
      by (simp add: bit_or_iff bit_push_bit_iff bit_ucast_iff bit_drop_bit_eq)
  qed
qed

lemma top_octet: "k + 8 = LENGTH('a) \<Longrightarrow> ucast (ucast (drop_bit k v) :: u8) = drop_bit k (v :: 'a::len word)"
  by (rule bit_word_eqI) (auto simp: bit_ucast_iff bit_drop_bit_eq dest: bit_imp_le_length)

text \<open>The contract of a load and a store of \<open>n\<close> octets.\<close>

locale le_cell =
  fixes n :: nat
    and ld :: "u8 list \<Rightarrow> nat \<Rightarrow> 'a option"
    and st :: "u8 list \<Rightarrow> nat \<Rightarrow> 'a \<Rightarrow> u8 list option"
  assumes width: "0 < n"
    and ld_defined: "ld buf p = None \<longleftrightarrow> length buf < p + n"
    and ld_local: "\<lbrakk>length buf' = length buf; \<And>i. p \<le> i \<Longrightarrow> i < p + n \<Longrightarrow> buf' ! i = buf ! i\<rbrakk>
                   \<Longrightarrow> ld buf' p = ld buf p"
    and st_defined: "st buf p v = None \<longleftrightarrow> length buf < p + n"
    and st_length: "st buf p v = Some buf' \<Longrightarrow> length buf' = length buf"
    and st_outside: "\<lbrakk>st buf p v = Some buf'; i < p \<or> p + n \<le> i\<rbrakk> \<Longrightarrow> buf' ! i = buf ! i"
    and ld_st: "st buf p v = Some buf' \<Longrightarrow> ld buf' p = Some v"
begin

lemma ld_st_other: "\<lbrakk>st buf p v = Some buf'; q + n \<le> p \<or> p + n \<le> q\<rbrakk> \<Longrightarrow> ld buf' q = ld buf q"
  by (rule ld_local) (auto dest: st_length intro: st_outside)

lemma cells_disjoint: "i \<noteq> j \<Longrightarrow> i * n + n \<le> j * n \<or> j * n + n \<le> i * n"
proof (cases "i < j")
  case True
  then have "(i + 1) * n \<le> j * n" by (intro mult_le_mono1) simp
  then show ?thesis by (simp add: algebra_simps)
next
  case False
  moreover assume "i \<noteq> j"
  ultimately have "(j + 1) * n \<le> i * n" by (intro mult_le_mono1) simp
  then show ?thesis by (simp add: algebra_simps)
qed

text \<open>An array of words: reading behind a write.\<close>

lemma ld_st_array:
  assumes "st buf (i * n) v = Some buf'"
  shows "ld buf' (j * n) = (if i = j then Some v else ld buf (j * n))"
  using ld_st [OF assms] ld_st_other [OF assms, of "j * n"] cells_disjoint [of i j] by auto

lemma st_total: "p + n \<le> length buf \<Longrightarrow> \<exists>buf'. st buf p v = Some buf'"
  using st_defined [of buf p v] by (cases "st buf p v") auto

lemma ld_total: "p + n \<le> length buf \<Longrightarrow> \<exists>v. ld buf p = Some v"
  using ld_defined [of buf p] by (cases "ld buf p") auto

end

lemma wr_Some_iff [array_simps]: "wr buf i x = Some buf' \<longleftrightarrow> i < length buf \<and> buf' = buf[i := x]"
  by (auto simp: wr_def)

lemma wr_None_iff [array_simps]: "wr buf i x = None \<longleftrightarrow> length buf \<le> i"
  by (auto simp: wr_def)

lemma ld_word_eq:
  "ld_word buf p = (if p + 2 \<le> length buf
     then Some (push_bit 8 ((ucast (buf ! (p + 1)) :: u16)) OR ucast (buf ! p)) else None)"
  by (simp add: ld_word_def rd_def Let_def)

lemma st_word_eq:
  "st_word buf p val = (if p + 2 \<le> length buf
     then Some (buf[p := ucast val, p + 1 := ucast (drop_bit 8 val)]) else None)"
  by (simp add: st_word_def wr_def Let_def)

interpretation word_cell: le_cell 2 ld_word st_word
proof
  show "ld_word buf' p = Some v" if "st_word buf p v = Some buf'" for buf p v buf'
  proof -
    have "push_bit 8 ((ucast (ucast (drop_bit 8 v) :: u8) :: u16)) OR ucast (ucast v :: u8) = v"
      using join_octet [of 0 8 v] by (simp add: top_octet join_octet)
    then show ?thesis
      using that by (auto simp: st_word_eq ld_word_eq split: if_splits)
  qed
qed (auto simp: ld_word_eq st_word_eq split: if_splits)

lemma ld_dword_eq:
  "ld_dword buf p = (if p + 4 \<le> length buf
     then Some (push_bit 8 (push_bit 8 (push_bit 8 ((ucast (buf ! (p + 3)) :: u32)) OR ucast (buf ! (p +
        2))) OR ucast (buf ! (p + 1))) OR ucast (buf ! p)) else None)"
  by (simp add: ld_dword_def rd_def Let_def)

lemma st_dword_eq:
  "st_dword buf p val = (if p + 4 \<le> length buf
     then Some (buf[p := ucast val, p + 1 := ucast (drop_bit 8 val), p + 2 := ucast (drop_bit 16 val), p
        + 3 := ucast (drop_bit 24 val)]) else None)"
  by (simp add: st_dword_def wr_def Let_def)

interpretation dword_cell: le_cell 4 ld_dword st_dword
proof
  show "ld_dword buf' p = Some v" if "st_dword buf p v = Some buf'" for buf p v buf'
  proof -
    have "push_bit 8 (push_bit 8 (push_bit 8 ((ucast (ucast (drop_bit 24 v) :: u8) :: u32)) OR
        ucast (ucast (drop_bit 16 v) :: u8)) OR ucast (ucast (drop_bit 8 v) :: u8)) OR ucast
        (ucast v :: u8) = v"
      using join_octet [of 0 8 v] by (simp add: top_octet join_octet)
    then show ?thesis
      using that by (auto simp: st_dword_eq ld_dword_eq split: if_splits)
  qed
qed (auto simp: ld_dword_eq st_dword_eq split: if_splits)

lemma ld_qword_eq:
  "ld_qword buf p = (if p + 8 \<le> length buf
     then Some (push_bit 8 (push_bit 8 (push_bit 8 (push_bit 8 (push_bit 8 (push_bit 8 (push_bit 8
        ((ucast (buf ! (p + 7)) :: u64)) OR ucast (buf ! (p + 6))) OR ucast (buf ! (p + 5))) OR
        ucast (buf ! (p + 4))) OR ucast (buf ! (p + 3))) OR ucast (buf ! (p + 2))) OR ucast (buf
        ! (p + 1))) OR ucast (buf ! p)) else None)"
  by (simp add: ld_qword_def rd_def Let_def)

lemma st_qword_eq:
  "st_qword buf p val = (if p + 8 \<le> length buf
     then Some (buf[p := ucast val, p + 1 := ucast (drop_bit 8 val), p + 2 := ucast (drop_bit 16 val), p
        + 3 := ucast (drop_bit 24 val), p + 4 := ucast (drop_bit 32 val), p + 5 := ucast
        (drop_bit 40 val), p + 6 := ucast (drop_bit 48 val), p + 7 := ucast (drop_bit 56 val)]) else None)"
  by (simp add: st_qword_def wr_def Let_def)

interpretation qword_cell: le_cell 8 ld_qword st_qword
proof
  show "ld_qword buf' p = Some v" if "st_qword buf p v = Some buf'" for buf p v buf'
  proof -
    have "push_bit 8 (push_bit 8 (push_bit 8 (push_bit 8 (push_bit 8 (push_bit 8 (push_bit 8
        ((ucast (ucast (drop_bit 56 v) :: u8) :: u64)) OR ucast (ucast (drop_bit 48 v) :: u8))
        OR ucast (ucast (drop_bit 40 v) :: u8)) OR ucast (ucast (drop_bit 32 v) :: u8)) OR ucast
        (ucast (drop_bit 24 v) :: u8)) OR ucast (ucast (drop_bit 16 v) :: u8)) OR ucast (ucast
        (drop_bit 8 v) :: u8)) OR ucast (ucast v :: u8) = v"
      using join_octet [of 0 8 v] by (simp add: top_octet join_octet)
    then show ?thesis
      using that by (auto simp: st_qword_eq ld_qword_eq split: if_splits)
  qed
qed (auto simp: ld_qword_eq st_qword_eq split: if_splits)

section \<open>Memory and string functions\<close>

text \<open>
  The counts are 32 bits wide and the loops count down to zero. \<open>mem_cpy\<close> tests for an empty block
  first; \<open>mem_set\<close> and \<open>mem_cmp\<close> do not, and take a count of zero for \<open>2^32\<close>.
\<close>

function mem_cpy_loop :: "u8 list \<Rightarrow> nat \<Rightarrow> u8 list \<Rightarrow> nat \<Rightarrow> u32 \<Rightarrow> u8 list option" where
  "mem_cpy_loop dst d src s cnt = do {
     b \<leftarrow> rd src s;
     dst \<leftarrow> wr dst d b;
     (if cnt - 1 \<noteq> 0 then mem_cpy_loop dst (d + 1) src (s + 1) (cnt - 1) else Some dst) }"
  by pat_completeness auto
termination
  by (relation "measure (\<lambda>(_, _, _, _, cnt). unat (cnt - 1))") (auto simp: unat_dec2)

declare mem_cpy_loop.simps [simp del]

definition mem_cpy :: "u8 list \<Rightarrow> nat \<Rightarrow> u8 list \<Rightarrow> nat \<Rightarrow> u32 \<Rightarrow> u8 list option" where
  "mem_cpy dst d src s cnt = (if cnt \<noteq> 0 then mem_cpy_loop dst d src s cnt else Some dst)"

function mem_set :: "u8 list \<Rightarrow> nat \<Rightarrow> int \<Rightarrow> u32 \<Rightarrow> u8 list option" where
  "mem_set dst d val cnt = do {
     dst \<leftarrow> wr dst d (word_of_int val);
     (if cnt - 1 \<noteq> 0 then mem_set dst (d + 1) val (cnt - 1) else Some dst) }"
  by pat_completeness auto
termination
  by (relation "measure (\<lambda>(_, _, _, cnt). unat (cnt - 1))") (auto simp: unat_dec2)

declare mem_set.simps [simp del]

function mem_cmp :: "u8 list \<Rightarrow> nat \<Rightarrow> u8 list \<Rightarrow> nat \<Rightarrow> u32 \<Rightarrow> int option" where
  "mem_cmp dst d src s cnt = do {
     a \<leftarrow> rd dst d;
     b \<leftarrow> rd src s;
     let r = uint a - uint b;
     (if cnt - 1 \<noteq> 0 \<and> r = 0 then mem_cmp dst (d + 1) src (s + 1) (cnt - 1) else Some r) }"
  by pat_completeness auto
termination
  by (relation "measure (\<lambda>(_, _, _, _, cnt). unat (cnt - 1))") (auto simp: unat_dec2)

declare mem_cmp.simps [simp del]

text \<open>A string is a zero-terminated list of octets, read up to its terminator.\<close>

fun chk_chr :: "u8 list \<Rightarrow> int \<Rightarrow> int option" where
  "chk_chr [] chr = None"
| "chk_chr (c # str) chr = (if c \<noteq> 0 \<and> uint c \<noteq> chr then chk_chr str chr else Some (uint c))"

lemma chk_chr_string:
  "list_all (\<lambda>c. c \<noteq> 0) str \<Longrightarrow> 
   chk_chr (str @ 0 # junk) chr = Some (if chr \<in> uint ` set str then chr else 0)"
  by (induction str) auto

lemma mem_induct [consumes 1, case_names one more]:
  fixes cnt :: u32
  assumes "cnt \<noteq> 0" and one: "\<And>cnt. cnt = 1 \<Longrightarrow> P cnt"
    and more: "\<And>cnt. cnt \<noteq> 0 \<Longrightarrow> cnt \<noteq> 1 \<Longrightarrow> P (cnt - 1) \<Longrightarrow> P cnt"
  shows "P cnt"
  using assms(1)
proof (induction "unat cnt" arbitrary: cnt rule: less_induct)
  case less
  show ?case
  proof (cases "cnt = 1")
    case False
    then have "P (cnt - 1)"
      using less(1) [of "cnt - 1"] measure_unat [of cnt] less(2) by simp
    then show ?thesis by (rule more [OF less(2) False])
  qed (rule one)
qed

lemma unat_minus_1: "(cnt :: u32) \<noteq> 0 \<Longrightarrow> unat (cnt - 1) = unat cnt - 1"
  by (rule unat_minus_one)

lemma unat_Suc_Suc:
  assumes "(cnt :: u32) \<noteq> 0" and "cnt \<noteq> 1"
  obtains k where "unat cnt = Suc (Suc k)"
proof -
  have "unat cnt \<noteq> unat (1 :: u32)" using assms(2) unsigned_word_eqI [of cnt 1] by blast
  moreover have "unat cnt \<noteq> unat (0 :: u32)" using assms(1) unsigned_word_eqI [of cnt 0] by blast
  ultimately have "unat cnt = Suc (Suc (unat cnt - 2))" by simp
  then show thesis by (rule that)
qed

lemma mem_set_spec:
  "cnt \<noteq> 0 \<Longrightarrow> mem_set dst d val cnt =
     (if d + unat cnt \<le> length dst
      then Some (take d dst @ replicate (unat cnt) (word_of_int val) @ drop (d + unat cnt) dst)
      else None)"
proof (induction cnt arbitrary: dst d rule: mem_induct)
  case (one cnt)
  then show ?case
    by (simp add: mem_set.simps [of dst d val 1] wr_def upd_conv_take_nth_drop)
next
  case (more cnt)
  obtain k where k: "unat cnt = Suc (Suc k)" by (rule unat_Suc_Suc [OF more(1,2)])
  have low: "unat (cnt - 1) = Suc k" unfolding unat_minus_1 [OF more(1)] k by simp
  have "cnt - 1 \<noteq> 0" using more(2) by simp
  then have "mem_set dst d val cnt = (if d < length dst
       then mem_set (dst[d := word_of_int val]) (d + 1) val (cnt - 1) else None)"
    by (simp add: mem_set.simps [of dst d val cnt] wr_def)
  then show ?case
    unfolding more(3) low k by (auto simp: upd_conv_take_nth_drop add.commute)
qed

lemma mem_set_zero: "length dst < 2 ^ 32 \<Longrightarrow> mem_set dst 0 val 0 = None"
proof -
  assume "length dst < 2 ^ 32"
  moreover have "unat (0 - 1 :: u32) = 2 ^ 32 - 1"
    by (simp add: unsigned_minus_1_eq_mask mask_eq_exp_minus_1)
  ultimately show ?thesis
    by (simp add: mem_set.simps [of dst 0 val 0] wr_def mem_set_spec)
qed

lemma mem_cpy_loop_spec:
  "cnt \<noteq> 0 \<Longrightarrow> mem_cpy_loop dst d src s cnt =
     (if d + unat cnt \<le> length dst \<and> s + unat cnt \<le> length src
      then Some (take d dst @ take (unat cnt) (drop s src) @ drop (d + unat cnt) dst)
      else None)"
proof (induction cnt arbitrary: dst d s rule: mem_induct)
  case (one cnt)
  then show ?case
    by (simp add: mem_cpy_loop.simps [of dst d src s 1] wr_def rd_def upd_conv_take_nth_drop take_Suc_conv_app_nth hd_drop_conv_nth take_Suc)
next
  case (more cnt)
  obtain k where k: "unat cnt = Suc (Suc k)" by (rule unat_Suc_Suc [OF more(1,2)])
  have low: "unat (cnt - 1) = Suc k" unfolding unat_minus_1 [OF more(1)] k by simp
  have "cnt - 1 \<noteq> 0" using more(2) by simp
  then have "mem_cpy_loop dst d src s cnt = (if s < length src \<and> d < length dst
       then mem_cpy_loop (dst[d := src ! s]) (d + 1) src (s + 1) (cnt - 1) else None)"
    by (simp add: mem_cpy_loop.simps [of dst d src s cnt] wr_def rd_def)
  moreover have "s < length src \<Longrightarrow> take (Suc (Suc k)) (drop s src) = src ! s # take (Suc k) (drop (s + 1) src)"
    by (simp flip: Cons_nth_drop_Suc)
  ultimately show ?case
    unfolding more(3) low k by (auto simp: upd_conv_take_nth_drop add.commute)
qed

lemma mem_cpy_spec:
  "mem_cpy dst d src s cnt =
     (if cnt = 0 then Some dst
      else if d + unat cnt \<le> length dst \<and> s + unat cnt \<le> length src
      then Some (take d dst @ take (unat cnt) (drop s src) @ drop (d + unat cnt) dst)
      else None)"
  by (simp add: mem_cpy_def mem_cpy_loop_spec)

lemma mem_cmp_same:
  "cnt \<noteq> 0 \<Longrightarrow> d + unat cnt \<le> length dst \<Longrightarrow> s + unat cnt \<le> length src \<Longrightarrow>
   \<exists>r. mem_cmp dst d src s cnt = Some r \<and>
     (r = 0 \<longleftrightarrow> take (unat cnt) (drop d dst) = take (unat cnt) (drop s src))"
proof (induction cnt arbitrary: d s rule: mem_induct)
  case (one cnt)
  have "uint (dst ! d) = uint (src ! s) \<longleftrightarrow> dst ! d = src ! s" by (rule word_uint_eq_iff [symmetric])
  then show ?case
    using one by (simp add: mem_cmp.simps [of dst d src s 1] rd_def take_Suc hd_drop_conv_nth)
next
  case (more cnt)
  obtain k where k: "unat cnt = Suc (Suc k)" by (rule unat_Suc_Suc [OF more(1,2)])
  have low: "unat (cnt - 1) = Suc k" unfolding unat_minus_1 [OF more(1)] k by simp
  have same: "uint (dst ! d) = uint (src ! s) \<longleftrightarrow> dst ! d = src ! s"
    by (rule word_uint_eq_iff [symmetric])
  have "cnt - 1 \<noteq> 0" using more(2) by simp
  then have "mem_cmp dst d src s cnt = (if dst ! d = src ! s
       then mem_cmp dst (d + 1) src (s + 1) (cnt - 1) else Some (uint (dst ! d) - uint (src ! s)))"
    using more(4,5) k same by (simp add: mem_cmp.simps [of dst d src s cnt] rd_def)
  moreover have "take (Suc (Suc k)) (drop s src) = src ! s # take (Suc k) (drop (s + 1) src)"
    using more(5) k by (simp flip: Cons_nth_drop_Suc)
  moreover have "take (Suc (Suc k)) (drop d dst) = dst ! d # take (Suc k) (drop (d + 1) dst)"
    using more(4) k by (simp flip: Cons_nth_drop_Suc)
  ultimately show ?case
    using more(3) [of "d + 1" "s + 1"] more(4,5) same unfolding low k by auto
qed

text \<open>A small word is not changed by a mask.\<close>

lemma bit_word_less: "x < 2 ^ n \<Longrightarrow> bit (x :: u32) m \<Longrightarrow> m < n"
proof (rule ccontr)
  assume x: "x < 2 ^ n" and "bit x m" and "\<not> m < n"
  have "m < 32" using \<open>bit x m\<close> bit_imp_le_length by fastforce
  then have "(2 ^ n :: nat) < 2 ^ 32" using \<open>\<not> m < n\<close> by (intro power_strict_increasing) auto
  then have "unat (2 ^ n :: u32) = 2 ^ n"
    using unat_of_nat [where x = "2 ^ n" and 'a = 32] by simp
  then have "unat x < 2 ^ n" using x by (simp add: word_less_nat_alt)
  then have "\<not> bit (unat x) m"
    using \<open>\<not> m < n\<close> by (simp add: bit_iff_odd div_less less_le_trans [OF _ power_increasing])
  then show False using \<open>bit x m\<close> by (simp add: bit_unsigned_iff)
qed

lemma and_mask_small: "x < 2 ^ n \<Longrightarrow> x AND mask n = (x :: u32)"
  
  unfolding take_bit_eq_mask [symmetric]
  by (rule bit_word_eqI) (use bit_word_less [of x n] in \<open>auto simp: bit_take_bit_iff\<close>)

end
