(* ===== verification/Sd_Files.thy ===== *)
theory Sd_Files
  imports C_Strings Ff_Bytes
begin

text \<open>
  The file access of the firmware, \<open>sd.c\<close>: \<open>sd_card_init\<close>, \<open>read_sd_card\<close>, \<open>write_sd_card\<close> and
  \<open>remove_sd_card\<close>, in the two versions the repository has. The file system below is given by its
  calls, \<open>'s ff_api\<close>, over a state \<open>'s\<close>; each function works with one file object.

  \<open>f_read\<close> is called with a null pointer for its count of octets read and stores through it first
  thing, so the lemmas show that \<open>read_sd_card\<close> never returns a string: it is undefined as soon as
  the file is open and the memory there, and otherwise gives null with every file closed again.
\<close>

section \<open>The file system's interface\<close>

definition FA_READ :: u8 where "FA_READ = 0x01"
definition FA_WRITE :: u8 where "FA_WRITE = 0x02"
definition FA_CREATE_ALWAYS :: u8 where "FA_CREATE_ALWAYS = 0x08"

text \<open>
  \<open>ff_read n\<close> gives the bytes it stores into the caller's buffer; see \<open>call_f_read\<close> for the pointer
  to the count of bytes read.
\<close>

record 's ff_api =
  ff_mount :: "string \<Rightarrow> nat \<Rightarrow> 's \<Rightarrow> fresult \<times> 's"
  ff_open :: "string \<Rightarrow> u8 \<Rightarrow> 's \<Rightarrow> fresult \<times> 's"
  ff_size :: "'s \<Rightarrow> nat"
  ff_read :: "nat \<Rightarrow> 's \<Rightarrow> fresult \<times> u8 list \<times> 's"
  ff_printf :: "string \<Rightarrow> 's \<Rightarrow> int \<times> 's"
  ff_close :: "'s \<Rightarrow> fresult \<times> 's"
  ff_unmount :: "string \<Rightarrow> 's \<Rightarrow> 's"

section \<open>Reading a file\<close>

text \<open>
  A call of \<open>f_read\<close>, whose first statement is \<open>*br = 0\<close>: undefined when \<open>br\<close>, which says whether the
  caller passed a pointer for the count, is null.
\<close>

definition call_f_read :: "'s ff_api \<Rightarrow> bool \<Rightarrow> nat \<Rightarrow> 's \<Rightarrow> (fresult \<times> u8 list \<times> 's) option" where
  "call_f_read ff br n s = (if br then Some (ff_read ff n s) else None)"

text \<open>The C string in a buffer: the characters before the first zero.\<close>

definition c_string :: "u8 list \<Rightarrow> string" where
  "c_string bs = map (\<lambda>b. char_of (unat b)) (takeWhile (\<lambda>b. b \<noteq> 0) bs)"

text \<open>
  \<open>garbage\<close> is what the allocated buffer holds; bytes the read does not store stay in the string.
  A read that stores more than was asked for would leave the buffer.
\<close>

definition read_sd_card ::
  "'s ff_api \<Rightarrow> bool \<Rightarrow> u8 list \<Rightarrow> string \<Rightarrow> 's \<Rightarrow> (string option \<times> 's) option" where
  "read_sd_card ff malloc_ok garbage filename s =
     (let (fr, s) = ff_mount ff ''0:'' 1 s
      in if fr \<noteq> FR_OK then Some (None, s)
         else let (fr, s) = ff_open ff filename FA_READ s
         in if fr \<noteq> FR_OK then Some (None, s)
         else let fileSize = ff_size ff s
         in if \<not> malloc_ok then Some (None, snd (ff_close ff s))
         else case call_f_read ff False fileSize s of
           None \<Rightarrow> None
         | Some (fr, bytes, s) \<Rightarrow>
         if fileSize < length bytes then None
         else if fr \<noteq> FR_OK then Some (None, snd (ff_close ff s))
         else let file_content = bytes @ drop (length bytes) (take fileSize garbage);
                  (fr, s) = ff_close ff s
         in if fr \<noteq> FR_OK then Some (None, s)
         else Some (Some (c_string file_content), s))"

text \<open>
  The version in \<open>Working_Partial_Integration\<close> stops in an endless loop when the card cannot be
  mounted, the file cannot be opened or cannot be closed: \<^term>\<open>Hang\<close>.
\<close>

datatype 'a outcome = Hang | Returns 'a

definition read_sd_card_wp ::
  "'s ff_api \<Rightarrow> bool \<Rightarrow> u8 list \<Rightarrow> string \<Rightarrow> 's \<Rightarrow> (string option \<times> 's) outcome option" where
  "read_sd_card_wp ff malloc_ok garbage filename s =
     (let (fr, s) = ff_mount ff ''0:'' 1 s
      in if fr \<noteq> FR_OK then Some Hang
         else let (fr, s) = ff_open ff filename FA_READ s
         in if fr \<noteq> FR_OK then Some Hang
         else let fileSize = ff_size ff s
         in if \<not> malloc_ok then Some (Returns (None, snd (ff_close ff s)))
         else case call_f_read ff False fileSize s of
           None \<Rightarrow> None
         | Some (fr, bytes, s) \<Rightarrow>
         if fileSize < length bytes then None
         else if fr \<noteq> FR_OK then Some (Returns (None, snd (ff_close ff s)))
         else let file_content = bytes @ drop (length bytes) (take fileSize garbage);
                  (fr, s) = ff_close ff s
         in if fr \<noteq> FR_OK then Some Hang
         else Some (Returns (Some (c_string file_content), s)))"

section \<open>Writing and set-up\<close>

definition crlf_line :: "string \<Rightarrow> string" where
  "crlf_line l = l @ [CHR 0x0D, CHR 0x0A]"

definition write_sd_card :: "'s ff_api \<Rightarrow> 's \<Rightarrow> 's outcome" where
  "write_sd_card ff s =
     (let (fr, s) = ff_open ff ''test02.txt'' (FA_WRITE OR FA_CREATE_ALWAYS) s
      in if fr \<noteq> FR_OK then Hang
         else let (ret, s) = ff_printf ff (crlf_line ''This is another test'') s
         in if ret < 0 then Hang
         else let (ret, s) = ff_printf ff (crlf_line ''of writing to an SD card.'') s
         in if ret < 0 then Hang
         else let (fr, s) = ff_close ff s
         in if fr \<noteq> FR_OK then Hang else Returns s)"

definition sd_card_init :: "bool \<Rightarrow> unit outcome" where
  "sd_card_init driver_ok = (if \<not> driver_ok then Hang else Returns ())"

definition remove_sd_card :: "'s ff_api \<Rightarrow> 's \<Rightarrow> 's" where
  "remove_sd_card ff s = ff_unmount ff ''0:'' s"

section \<open>Facts\<close>

text \<open>A count of open files that the calls keep as documented: a close ends an open, whatever it returns.\<close>

definition counts_opens :: "'s ff_api \<Rightarrow> ('s \<Rightarrow> int) \<Rightarrow> bool" where
  "counts_opens ff opened \<longleftrightarrow>
     (\<forall>d n s. opened (snd (ff_mount ff d n s)) = opened s) \<and>
     (\<forall>f m s. opened (snd (ff_open ff f m s)) = opened s + (if fst (ff_open ff f m s) = FR_OK then 1 else 0)) \<and>
     (\<forall>s. opened (snd (ff_close ff s)) = opened s - 1)"

lemma counts_opensD:
  assumes "counts_opens ff opened"
  shows "ff_mount ff d n s = (fr, s') \<Longrightarrow> opened s' = opened s"
    and "ff_open ff f m s = (fr, s') \<Longrightarrow> opened s' = opened s + (if fr = FR_OK then 1 else 0)"
    and "opened (snd (ff_close ff s)) = opened s - 1"
  using assms unfolding counts_opens_def by (metis fst_conv snd_conv)+

text \<open>
  A call of \<open>read_sd_card\<close> that comes back gives null, with as many files open as before: it did not
  get as far as the read, since the mount, the opening or the allocation failed.
\<close>

lemma read_sd_card_null:
  assumes "read_sd_card ff malloc_ok garbage filename s = Some (r, s')"
  shows "r = None" and "fst (ff_mount ff ''0:'' 1 s) \<noteq> FR_OK \<or>
      fst (ff_open ff filename FA_READ (snd (ff_mount ff ''0:'' 1 s))) \<noteq> FR_OK \<or> \<not> malloc_ok"
  using assms by (auto simp: read_sd_card_def call_f_read_def Let_def split: prod.splits if_splits)

lemma read_sd_card_closes:
  assumes "counts_opens ff opened"
    and "read_sd_card ff malloc_ok garbage filename s = Some (r, s')"
  shows "opened s' = opened s"
  using assms(2)
  by (auto simp: read_sd_card_def call_f_read_def Let_def counts_opensD(3) [OF assms(1)]
      dest!: counts_opensD(1,2) [OF assms(1)] split: prod.splits if_splits)

text \<open>A file that can be opened: reading it is undefined in both versions.\<close>

lemma read_sd_card_undefined:
  assumes "ff_mount ff ''0:'' 1 s = (FR_OK, s1)" and "ff_open ff filename FA_READ s1 = (FR_OK, s2)"
  shows "read_sd_card ff True garbage filename s = None"
    and "read_sd_card_wp ff True garbage filename s = None"
  using assms by (simp_all add: read_sd_card_def read_sd_card_wp_def call_f_read_def Let_def)

text \<open>The two versions differ only in the branches of the other one that end in the loop.\<close>

lemma read_sd_card_wp_returns:
  assumes "read_sd_card_wp ff malloc_ok garbage filename s = Some (Returns (r, s'))"
  shows "read_sd_card ff malloc_ok garbage filename s = Some (r, s')"
  using assms by (auto simp: read_sd_card_def read_sd_card_wp_def Let_def split: prod.splits if_splits option.splits)

end
