(* ===== verification/Crc_Register.thy ===== *)
theory Crc_Register
  imports Prelude
begin

text \<open>
  The interface of a cyclic-redundancy register, which three parts of the firmware implement:
  the bitwise CRC-32 of the Ethernet driver and the table-driven CRC7 and CRC16 of the SD
  driver. A register is a state that absorbs one byte at a time. What the error-detection
  lemmas need of it is that absorbing the same byte never merges two different states, and
  that two bytes whose difference the generator does not hide lead to different states.
\<close>

locale crc_register =
  fixes step :: "'s \<Rightarrow> 'b \<Rightarrow> 's"
    and valid :: "'s \<Rightarrow> bool"
    and visible :: "'b \<Rightarrow> 'b \<Rightarrow> bool"
  assumes step_valid: "valid s \<Longrightarrow> valid (step s b)"
    and step_state_inj: "valid s \<Longrightarrow> valid t \<Longrightarrow> step s b = step t b \<Longrightarrow> s = t"
    and step_visible: "valid s \<Longrightarrow> visible b c \<Longrightarrow> step s b \<noteq> step s c"
begin

lemma foldl_valid: "valid s \<Longrightarrow> valid (foldl step s xs)"
  by (induction xs arbitrary: s) (auto intro: step_valid)

lemma foldl_state_inj:
  "valid s \<Longrightarrow> valid t \<Longrightarrow> foldl step s xs = foldl step t xs \<Longrightarrow> s = t"
  by (induction xs arbitrary: s t) (auto intro: step_valid dest: step_state_inj)

text \<open>A change of one byte that the generator does not hide always changes the check value.\<close>

lemma byte_change_detected:
  assumes "valid s" and "visible b c"
  shows "foldl step s (xs @ b # ys) \<noteq> foldl step s (xs @ c # ys)"
proof
  assume eq: "foldl step s (xs @ b # ys) = foldl step s (xs @ c # ys)"
  let ?m = "foldl step s xs"
  have v: "valid ?m" using assms(1) by (rule foldl_valid)
  from eq have "step ?m b = step ?m c"
    using foldl_state_inj [OF step_valid [OF v] step_valid [OF v], of b ys c] by simp
  with step_visible [OF v assms(2)] show False by simp
qed

end

text \<open>
  A register with a window of \<open>w\<close> bytes: two different blocks of that length never lead from one
  state to the same state, so every error burst inside one window is detected.
\<close>

locale crc_window = crc_register +
  fixes w :: nat
  assumes window_inj:
    "valid s \<Longrightarrow> length us = w \<Longrightarrow> length vs = w \<Longrightarrow> foldl step s us = foldl step s vs \<Longrightarrow> us = vs"
begin

lemma burst_detected:
  assumes "valid s" and "length us = w" and "length vs = w" and "us \<noteq> vs"
  shows "foldl step s (xs @ us @ ys) \<noteq> foldl step s (xs @ vs @ ys)"
proof
  assume eq: "foldl step s (xs @ us @ ys) = foldl step s (xs @ vs @ ys)"
  let ?m = "foldl step s xs"
  have v: "valid ?m" using assms(1) by (rule foldl_valid)
  have vu: "valid (foldl step ?m us)" and vv: "valid (foldl step ?m vs)"
    using v by (auto intro: foldl_valid)
  from eq have "foldl step ?m us = foldl step ?m vs"
    using foldl_state_inj [OF vu vv, of ys] by simp
  with window_inj [OF v assms(2,3)] assms(4) show False by simp
qed

text \<open>At most one window value takes a given state to a given check value.\<close>

lemma check_unique:
  assumes "valid s" and "length us = w" and "length vs = w"
    and "foldl step s (xs @ us) = foldl step s (xs @ vs)"
  shows "us = vs"
proof -
  have v: "valid (foldl step s xs)" using assms(1) by (rule foldl_valid)
  show ?thesis using window_inj [OF v assms(2,3)] assms(4) by simp
qed

end

end
