(* ===== verification/Ethernet_Crc.thy ===== *)
theory Ethernet_Crc
  imports Crc_Register
begin

text \<open>
  The frame check sequence of the RMII Ethernet driver, \<open>src/rmii_ethernet.c\<close>:
  \<open>ethernet_frame_crc\<close>, which computes the check value that goes behind a transmitted frame, and
  \<open>ethernet_frame_length\<close>, which finds the length of a received frame by looking for the first
  prefix of the receive buffer that is followed by its own check value.

  The lemmas relate the bit loop to a 32-bit shift register, show that the register is an
  instance of the checking register of \<^theory_text>\<open>Crc_Register\<close> with a window of four bytes, and
  characterise the length search.
\<close>

section \<open>The model\<close>

definition ethernet_polynomial_le :: u32 where
  "ethernet_polynomial_le = 0xedb88320"

text \<open>One round of the inner loop: \<open>current_octet\<close> is promoted before the exclusive or.\<close>

definition crc_bit_step :: "u32 \<Rightarrow> u8 \<Rightarrow> u32" where
  "crc_bit_step crc current_octet =
     (if (crc XOR ucast current_octet) AND 1 \<noteq> 0
      then drop_bit 1 crc XOR ethernet_polynomial_le
      else drop_bit 1 crc)"

text \<open>The inner loop \<open>for (bit = n; --bit >= 0; current_octet >>= 1)\<close>.\<close>

fun crc_bits :: "nat \<Rightarrow> u32 \<Rightarrow> u8 \<Rightarrow> u32" where
  "crc_bits 0 crc current_octet = crc"
| "crc_bits (Suc n) crc current_octet =
     crc_bits n (crc_bit_step crc current_octet) (drop_bit 1 current_octet)"

definition crc_octet :: "u32 \<Rightarrow> u8 \<Rightarrow> u32" where
  "crc_octet crc current_octet = crc_bits 8 crc current_octet"

text \<open>
  \<open>ethernet_frame_crc(data, length)\<close>: the loop \<open>while (--length >= 0)\<close> reads \<open>length\<close> octets from
  \<open>data\<close> on; reading past the object is undefined behaviour.
\<close>

fun frame_crc_loop :: "u8 list \<Rightarrow> nat \<Rightarrow> u32 \<Rightarrow> u32 option" where
  "frame_crc_loop data 0 crc = Some crc"
| "frame_crc_loop [] (Suc len) crc = None"
| "frame_crc_loop (current_octet # data) (Suc len) crc =
     frame_crc_loop data len (crc_octet crc current_octet)"

definition ethernet_frame_crc :: "u8 list \<Rightarrow> nat \<Rightarrow> u32 option" where
  "ethernet_frame_crc data len =
     (case frame_crc_loop data len 0xffffffff of
        None \<Rightarrow> None | Some crc \<Rightarrow> Some (NOT crc))"

text \<open>The bytes of an \<open>unsigned\<close> in the memory of the little-endian target.\<close>

definition uint_bytes :: "u32 \<Rightarrow> u8 list" where
  "uint_bytes x = map (\<lambda>i. ucast (drop_bit (8 * i) x)) [0..<4]"

text \<open>
  \<open>ethernet_frame_length(data, length)\<close>. The list is the memory from \<open>data\<close> to the end of the
  receive buffer. \<open>memcmp\<close> looks at the four bytes behind the octet just consumed: when the
  object ends before them the comparison is undefined behaviour.
\<close>

fun frame_length_loop :: "u8 list \<Rightarrow> nat \<Rightarrow> u32 \<Rightarrow> nat \<Rightarrow> nat option" where
  "frame_length_loop data 0 crc index = Some 0"
| "frame_length_loop [] (Suc len) crc index = None"
| "frame_length_loop (current_octet # data) (Suc len) crc index =
     (let crc' = crc_octet crc current_octet; index' = Suc index; inverted_crc = NOT crc'
      in if length data < 4 then None
         else if take 4 data = uint_bytes inverted_crc then Some index'
         else frame_length_loop data len crc' index')"

definition ethernet_frame_length :: "u8 list \<Rightarrow> nat \<Rightarrow> nat option" where
  "ethernet_frame_length data len = frame_length_loop data len 0xffffffff 0"

section \<open>The shift register behind the bit loop\<close>

text \<open>The register after \<open>n\<close> rounds in which only zero bits come in.\<close>

definition zero_step :: "u32 \<Rightarrow> u32" where
  "zero_step x = drop_bit 1 x XOR (if bit x 0 then ethernet_polynomial_le else 0)"

lemma zero_step_odd: "zero_step x = drop_bit 1 x XOR (if odd x then ethernet_polynomial_le else 0)"
  by (simp add: zero_step_def bit_0)

abbreviation zero_steps :: "nat \<Rightarrow> u32 \<Rightarrow> u32" where
  "zero_steps n \<equiv> zero_step ^^ n"

lemma xor_not_word: "x XOR NOT x = (- 1 :: 'a::len word)"
  by (rule bit_word_eqI) (simp add: bit_xor_iff bit_not_iff)

lemma and_one_neq_0: "(x :: 'a::len word) AND 1 \<noteq> 0 \<longleftrightarrow> odd x"
  by (simp add: and_one_eq odd_iff_mod_2_eq_one)

lemma odd_ucast_u8: "odd (ucast (b :: u8) :: u32) \<longleftrightarrow> odd b"
  by (simp add: bit_ucast_iff flip: bit_0)

lemma odd_xor_word: "odd ((a :: 'a::len word) XOR b) \<longleftrightarrow> odd a \<noteq> odd b"
  by (simp add: bit_xor_iff flip: bit_0)

lemma zero_step_xor: "zero_step (x XOR y) = zero_step x XOR zero_step y"
  by (auto simp: zero_step_odd odd_xor_word drop_bit_xor_word ac_simps xor.assoc)

lemma zero_steps_xor: "zero_steps n (x XOR y) = zero_steps n x XOR zero_steps n y"
  by (induction n) (simp_all add: zero_step_xor)

lemma ucast_drop_bit_u8: "(ucast (drop_bit n (b :: u8)) :: u32) = drop_bit n (ucast b)"
  by (rule bit_word_eqI) (auto simp: bit_ucast_iff bit_drop_bit_eq dest: bit_imp_le_length)

text \<open>The loop of the code is the register with the octet added in at the start.\<close>

lemma crc_bit_step_zero:
  "crc_bit_step s b XOR ucast (drop_bit 1 b) = zero_step (s XOR ucast b)"
proof -
  have "(s XOR ucast b) AND 1 \<noteq> 0 \<longleftrightarrow> odd (s XOR ucast b)"
    by (rule and_one_neq_0)
  then show ?thesis
    unfolding crc_bit_step_def zero_step_odd
    by (auto simp only: if_True if_False drop_bit_xor_word ucast_drop_bit_u8 xor.assoc
        xor.commute xor.left_commute xor.right_neutral xor.left_neutral split: if_splits)
qed

lemma crc_bits_zero_steps:
  "crc_bits n s b XOR ucast (drop_bit n b) = zero_steps n (s XOR ucast b)"
proof (induction n arbitrary: s b)
  case 0
  show ?case by simp
next
  case (Suc n)
  have "crc_bits (Suc n) s b XOR ucast (drop_bit (Suc n) b) =
      zero_steps n (crc_bit_step s b XOR ucast (drop_bit 1 b))"
    using Suc.IH [of "crc_bit_step s b" "drop_bit 1 b"] by simp
  also have "\<dots> = zero_steps (Suc n) (s XOR ucast b)"
    by (simp add: crc_bit_step_zero funpow_Suc_right del: funpow.simps One_nat_def)
  finally show ?case .
qed

lemma crc_octet_eq: "crc_octet s b = zero_steps 8 (s XOR ucast b)"
proof -
  have "drop_bit 8 b = 0" for b :: u8
    by (rule bit_word_eqI) (auto simp: bit_drop_bit_eq dest: bit_imp_le_length)
  then show ?thesis
    using crc_bits_zero_steps [of 8 s b] by (simp add: crc_octet_def)
qed

section \<open>The register is injective, with a window of four octets\<close>

lemma bit_31_zero_step: "bit (zero_step x) 31 \<longleftrightarrow> odd x"
proof -
  have "bit ethernet_polynomial_le 31"
    by (simp add: ethernet_polynomial_le_def bit_numeral_word_iff)
  moreover have "\<not> bit (drop_bit 1 x) 31"
    by (auto simp: bit_drop_bit_eq dest: bit_imp_le_length)
  ultimately show ?thesis by (simp add: zero_step_odd bit_xor_iff)
qed

lemma word_odd_drop_bit_eq:
  assumes "drop_bit 1 (x :: 'a::len word) = drop_bit 1 y" and "odd x = odd y"
  shows "x = y"
proof (rule bit_word_eqI)
  fix n assume "n < LENGTH('a)"
  show "bit x n = bit y n"
  proof (cases n)
    case 0
    then show ?thesis using assms(2) by (simp add: bit_0)
  next
    case (Suc m)
    then show ?thesis using assms(1) by (metis bit_drop_bit_eq comp_apply plus_1_eq_Suc)
  qed
qed

lemma zero_step_inj: "zero_step x = zero_step y \<Longrightarrow> x = y"
proof -
  assume eq: "zero_step x = zero_step y"
  then have odd: "odd x = odd y" by (metis bit_31_zero_step)
  then have "drop_bit 1 x = drop_bit 1 y"
    using eq by (auto simp: zero_step_odd xor_right_cancel_word split: if_splits)
  with odd show "x = y" by (rule word_odd_drop_bit_eq [rotated])
qed

lemma zero_steps_inj: "zero_steps n x = zero_steps n y \<Longrightarrow> x = y"
  by (induction n) (auto dest: zero_step_inj)

lemma zero_step_even: "even x \<Longrightarrow> zero_step x = drop_bit 1 x"
  by (simp add: zero_step_odd)

lemma drop_1_push_Suc:
  fixes x :: u32
  assumes "\<And>i. bit x i \<Longrightarrow> i + Suc n < 32"
  shows "drop_bit 1 (push_bit (Suc n) x) = push_bit n x"
proof (rule bit_word_eqI)
  fix m assume m: "m < LENGTH(32)"
  have "bit (drop_bit 1 (push_bit (Suc n) x)) m \<longleftrightarrow>
      Suc n \<le> 1 + m \<and> 1 + m < 32 \<and> bit x (1 + m - Suc n)"
    by (simp only: bit_drop_bit_eq comp_apply bit_push_bit_iff) simp
  also have "\<dots> \<longleftrightarrow> n \<le> m \<and> bit x (m - n)"
    using assms [of "m - n"] by auto
  also have "\<dots> \<longleftrightarrow> bit (push_bit n x) m"
    using m by (simp add: bit_push_bit_iff)
  finally show "bit (drop_bit 1 (push_bit (Suc n) x)) m = bit (push_bit n x) m" .
qed

lemma zero_steps_push_bit:
  assumes "\<And>i. bit x i \<Longrightarrow> i + n < 32"
  shows "zero_steps n (push_bit n x) = x"
  using assms
proof (induction n)
  case 0
  show ?case by simp
next
  case (Suc n)
  have "even (push_bit (Suc n) x)" by simp
  moreover have "drop_bit 1 (push_bit (Suc n) x) = push_bit n x"
    using Suc.prems by (rule drop_1_push_Suc)
  ultimately have "zero_step (push_bit (Suc n) x) = push_bit n x"
    by (simp only: zero_step_even)
  moreover have "zero_steps n (push_bit n x) = x"
    using Suc.prems by (intro Suc.IH) force
  ultimately show ?case by (simp add: funpow_Suc_right del: funpow.simps push_bit_Suc)
qed

text \<open>The octets of a little-endian word, first octet lowest.\<close>

fun le_word :: "u8 list \<Rightarrow> u32" where
  "le_word [] = 0"
| "le_word (b # bs) = ucast b XOR push_bit 8 (le_word bs)"

lemma bit_le_word: "bit (le_word bs) i \<Longrightarrow> i < 8 * length bs"
proof (induction bs arbitrary: i)
  case Nil
  then show ?case by simp
next
  case (Cons b bs)
  from Cons.prems consider "bit b i" | "8 \<le> i" "bit (le_word bs) (i - 8)"
    by (auto simp: bit_xor_iff bit_ucast_iff bit_push_bit_iff)
  then show ?case
  proof cases
    case 1
    then have "i < 8" using bit_imp_le_length by fastforce
    then show ?thesis by simp
  next
    case 2
    then show ?thesis using Cons.IH [of "i - 8"] by simp
  qed
qed

lemma bit_le_word_outside: "8 * length bs \<le> i \<Longrightarrow> \<not> bit (le_word bs) i"
  using bit_le_word [of bs i] by linarith

lemma le_word_inj:
  assumes "length us = length vs" and "length us \<le> 4" and "le_word us = le_word vs"
  shows "us = vs"
  using assms
proof (induction us vs rule: list_induct2)
  case Nil
  show ?case by simp
next
  case (Cons u us v vs)
  have hi: "\<not> bit u n" if "8 \<le> n" for u :: u8 and n
    using that bit_imp_le_length by fastforce
  have "u = v"
  proof (rule bit_word_eqI)
    fix n assume "n < LENGTH(8)"
    then have "n < 8" by simp
    moreover have "bit (le_word (u # us)) n = bit (le_word (v # vs)) n"
      using Cons.prems by simp
    ultimately show "bit u n = bit v n"
      by (simp add: bit_xor_iff bit_ucast_iff bit_push_bit_iff)
  qed
  moreover have le: "le_word us = le_word vs"
  proof (rule bit_word_eqI)
    fix n assume n: "n < LENGTH(32)"
    show "bit (le_word us) n = bit (le_word vs) n"
    proof (cases "n < 24")
      case True
      moreover have "bit (le_word (u # us)) (n + 8) = bit (le_word (v # vs)) (n + 8)"
        using Cons.prems by simp
      ultimately show ?thesis
        by (simp add: bit_xor_iff bit_ucast_iff bit_push_bit_iff hi)
    next
      case False
      with Cons.hyps Cons.prems have "8 * length us \<le> n" "8 * length vs \<le> n" by simp_all
      then have "\<not> bit (le_word us) n" "\<not> bit (le_word vs) n"
        by (simp_all add: bit_le_word_outside)
      then show ?thesis by simp
    qed
  qed
  moreover from Cons.prems have "length us \<le> 4" by simp
  then have "us = vs" using le by (rule Cons.IH)
  ultimately show ?case by blast
qed

text \<open>Up to four octets enter the register as one little-endian word.\<close>

lemma foldl_crc_octet:
  "length bs \<le> 4 \<Longrightarrow> foldl crc_octet s bs = zero_steps (8 * length bs) (s XOR le_word bs)"
proof (induction bs arbitrary: s)
  case Nil
  show ?case by simp
next
  case (Cons b bs)
  have shift: "zero_steps 8 (push_bit 8 (le_word bs)) = le_word bs"
  proof (rule zero_steps_push_bit)
    fix i assume "bit (le_word bs) i"
    then have "i < 8 * length bs" by (rule bit_le_word)
    with Cons.prems show "i + 8 < 32" by simp
  qed
  have "foldl crc_octet s (b # bs) =
      zero_steps (8 * length bs) (zero_steps 8 (s XOR ucast b) XOR le_word bs)"
    using Cons.IH [of "crc_octet s b"] Cons.prems by (simp add: crc_octet_eq [of s b])
  also have "zero_steps 8 (s XOR ucast b) XOR le_word bs =
      zero_steps 8 ((s XOR ucast b) XOR push_bit 8 (le_word bs))"
    by (simp only: zero_steps_xor shift)
  also have "zero_steps (8 * length bs) \<dots> = zero_steps (8 * length bs + 8) (s XOR le_word (b # bs))"
    by (simp add: funpow_add xor.assoc)
  finally show ?case by (simp add: algebra_simps)
qed

lemma crc_window_inj:
  assumes "length us = 4" and "length vs = 4" and "foldl crc_octet s us = foldl crc_octet s vs"
  shows "us = vs"
proof (rule le_word_inj)
  have "zero_steps 32 (s XOR le_word us) = zero_steps 32 (s XOR le_word vs)"
    using assms by (simp add: foldl_crc_octet)
  then show "le_word us = le_word vs"
    by (auto simp only: xor_left_cancel_word dest: zero_steps_inj)
qed (use assms in simp_all)

interpretation eth_crc: crc_window crc_octet "\<lambda>_. True" "\<lambda>b c. b \<noteq> c" 4
proof unfold_locales
  fix s t b assume "crc_octet s b = crc_octet t b"
  then show "s = t" by (auto simp: crc_octet_eq xor_right_cancel_word dest: zero_steps_inj)
next
  fix s and b c :: u8 assume "b \<noteq> c"
  then show "crc_octet s b \<noteq> crc_octet s c"
    by (auto simp: crc_octet_eq xor_left_cancel_word ucast_eq_iff_up dest!: zero_steps_inj)
qed (auto intro: crc_window_inj)

section \<open>The two functions in closed form\<close>

text \<open>
  The value of \<open>ethernet_frame_crc\<close> where it is defined, and the condition \<open>ethernet_frame_length\<close>
  tests at an index.
\<close>

definition fcs :: "u8 list \<Rightarrow> u32" where
  "fcs data = NOT (foldl crc_octet 0xffffffff data)"

definition fcs_at :: "u8 list \<Rightarrow> nat \<Rightarrow> bool" where
  "fcs_at data n \<longleftrightarrow> n + 4 \<le> length data \<and> take 4 (drop n data) = uint_bytes (fcs (take n data))"

definition no_fcs_upto :: "u8 list \<Rightarrow> nat \<Rightarrow> bool" where
  "no_fcs_upto data n \<longleftrightarrow> (\<forall>m \<in> {0<..n}. \<not> fcs_at data m)"

lemma length_uint_bytes [simp]: "length (uint_bytes x) = 4"
  by (simp add: uint_bytes_def)

lemma uint_bytes_eq:
  "uint_bytes x = [ucast x, ucast (drop_bit 8 x), ucast (drop_bit 16 x), ucast (drop_bit 24 x)]"
  by (simp add: uint_bytes_def upt_rec)

lemma le_word_uint_bytes [simp]: "le_word (uint_bytes x) = x"
proof (rule bit_word_eqI)
  fix n assume n: "n < LENGTH(32)"
  then consider "n < 8" | "8 \<le> n" "n < 16" | "16 \<le> n" "n < 24" | "24 \<le> n" "n < 32" by fastforce
  then show "bit (le_word (uint_bytes x)) n = bit x n"
    by cases (auto simp: uint_bytes_eq bit_xor_iff bit_push_bit_iff bit_ucast_iff bit_drop_bit_eq)
qed

lemma frame_crc_loop_eq:
  "frame_crc_loop data len crc =
     (if len \<le> length data then Some (foldl crc_octet crc (take len data)) else None)"
  by (induction data len crc rule: frame_crc_loop.induct) auto

lemma ethernet_frame_crc_eq:
  "ethernet_frame_crc data len = (if len \<le> length data then Some (fcs (take len data)) else None)"
  by (simp add: ethernet_frame_crc_def frame_crc_loop_eq fcs_def)

text \<open>
  The length search, from the middle of a buffer: \<open>pre\<close> is what it has consumed, and no
  shorter prefix matched.
\<close>

lemma frame_length_loop_None:
  assumes "frame_length_loop data len (foldl crc_octet 0xffffffff pre) (length pre) = None"
  shows "length (pre @ data) < length pre + len + 4"
  using assms
proof (induction len arbitrary: data pre)
  case 0
  then show ?case by simp
next
  case (Suc len)
  show ?case
  proof (cases data)
    case Nil
    then show ?thesis by simp
  next
    case (Cons b bs)
    show ?thesis
    proof (cases "length bs < 4")
      case True
      with Cons show ?thesis by simp
    next
      case False
      with Suc.prems Cons have
        "frame_length_loop bs len (foldl crc_octet 0xffffffff (pre @ [b])) (length (pre @ [b])) = None"
        by (simp add: Let_def split: if_splits)
      from Suc.IH [OF this] Cons show ?thesis by simp
    qed
  qed
qed

lemma frame_length_loop_Some:
  assumes "frame_length_loop data len (foldl crc_octet 0xffffffff pre) (length pre) = Some n"
    and "n \<noteq> 0"
  shows "length pre < n \<and> n \<le> length pre + len \<and> fcs_at (pre @ data) n \<and>
    (\<forall>m. length pre < m \<and> m < n \<longrightarrow> \<not> fcs_at (pre @ data) m)"
  using assms
proof (induction len arbitrary: data pre)
  case 0
  then show ?case by simp
next
  case (Suc len)
  from Suc.prems obtain b bs where data: "data = b # bs" by (cases data) auto
  let ?pre = "pre @ [b]"
  let ?hit = "take 4 bs = uint_bytes (fcs ?pre)"
  have len4: "4 \<le> length bs" using Suc.prems data by (auto simp: Let_def split: if_splits)
  have at: "fcs_at (pre @ data) (length ?pre) \<longleftrightarrow> ?hit"
    using len4 by (simp add: fcs_at_def data)
  show ?case
  proof (cases ?hit)
    case True
    with Suc.prems data len4 have "n = length ?pre" by (simp add: Let_def fcs_def)
    then show ?thesis using at True by auto
  next
    case False
    with Suc.prems data len4 have
      "frame_length_loop bs len (foldl crc_octet 0xffffffff ?pre) (length ?pre) = Some n"
      by (simp add: Let_def fcs_def)
    from Suc.IH [OF this Suc.prems(2)]
    have IH: "length ?pre < n" "n \<le> length ?pre + len" "fcs_at (?pre @ bs) n"
      "\<forall>m. length ?pre < m \<and> m < n \<longrightarrow> \<not> fcs_at (?pre @ bs) m" by auto
    have "\<not> fcs_at (pre @ data) m" if "length pre < m" "m < n" for m
    proof (cases "m = length ?pre")
      case True
      with at False show ?thesis by simp
    next
      case False
      with that IH(4) data show ?thesis by simp
    qed
    with IH data show ?thesis by auto
  qed
qed

lemma frame_length_loop_0:
  assumes "frame_length_loop data len (foldl crc_octet 0xffffffff pre) (length pre) = Some 0"
  shows "(\<forall>m. length pre < m \<and> m \<le> length pre + len \<longrightarrow> \<not> fcs_at (pre @ data) m) \<and>
    (0 < len \<longrightarrow> length pre + len + 4 \<le> length (pre @ data))"
  using assms
proof (induction len arbitrary: data pre)
  case 0
  then show ?case by auto
next
  case (Suc len)
  from Suc.prems obtain b bs where data: "data = b # bs" by (cases data) auto
  let ?pre = "pre @ [b]"
  have len4: "4 \<le> length bs" and miss: "take 4 bs \<noteq> uint_bytes (fcs ?pre)"
    using Suc.prems data by (auto simp: Let_def fcs_def split: if_splits)
  have at: "\<not> fcs_at (pre @ data) (length ?pre)"
    using len4 miss by (simp add: fcs_at_def data)
  have "frame_length_loop bs len (foldl crc_octet 0xffffffff ?pre) (length ?pre) = Some 0"
    using Suc.prems data len4 miss by (simp add: Let_def fcs_def)
  from Suc.IH [OF this]
  have IH: "\<forall>m. length ?pre < m \<and> m \<le> length ?pre + len \<longrightarrow> \<not> fcs_at (?pre @ bs) m"
    "0 < len \<longrightarrow> length ?pre + len + 4 \<le> length (?pre @ bs)" by auto
  have "\<not> fcs_at (pre @ data) m" if "length pre < m" "m \<le> length pre + Suc len" for m
    using that IH(1) at data by (cases "m = length ?pre") auto
  with IH(2) len4 data show ?case by (cases len) auto
qed

lemma frame_length_Some:
  "ethernet_frame_length data len = Some n \<Longrightarrow> n \<noteq> 0 \<Longrightarrow>
     0 < n \<and> n \<le> len \<and> fcs_at data n \<and> (\<forall>m. 0 < m \<and> m < n \<longrightarrow> \<not> fcs_at data m)"
  using frame_length_loop_Some [of data len "[]" n] by (simp add: ethernet_frame_length_def)

lemma frame_length_found:
  assumes "fcs_at data n" and "0 < n" and "n \<le> len"
  obtains m where "ethernet_frame_length data len = Some m" "0 < m" "m \<le> n"
    "fcs_at data m" "\<forall>k. 0 < k \<and> k < m \<longrightarrow> \<not> fcs_at data k"
proof -
  let ?P = "\<lambda>d l p. frame_length_loop d l (foldl crc_octet 0xffffffff p) (length p)"
  have found: "\<exists>m. ?P d l p = Some m \<and> m \<noteq> 0"
    if "fcs_at (p @ d) n" "length p < n" "n \<le> length p + l" for d l p
    using that
  proof (induction l arbitrary: d p)
    case 0
    then show ?case by simp
  next
    case (Suc l)
    from Suc.prems obtain b bs where d: "d = b # bs" by (cases d) (auto simp: fcs_at_def)
    have len4: "4 \<le> length bs" using Suc.prems d by (simp add: fcs_at_def)
    show ?case
    proof (cases "take 4 bs = uint_bytes (fcs (p @ [b]))")
      case True
      with d len4 show ?thesis by (simp add: Let_def fcs_def)
    next
      case False
      then have "\<not> fcs_at (p @ d) (Suc (length p))" by (simp add: fcs_at_def d)
      with Suc.prems have "length (p @ [b]) < n" by (cases "n = Suc (length p)") auto
      with Suc.IH [of "p @ [b]" bs] Suc.prems d False len4 show ?thesis
        by (simp add: Let_def fcs_def)
    qed
  qed
  from found [of "[]" data len] assms obtain m
    where m: "ethernet_frame_length data len = Some m" "m \<noteq> 0"
    by (auto simp: ethernet_frame_length_def)
  have "m \<le> n" using frame_length_Some [OF m] assms(1,2) not_less by blast
  with m frame_length_Some [OF m] that show ?thesis by blast
qed

text \<open>The condition at an index looks at no more than the check value behind it.\<close>

lemma fcs_at_append: "n + 4 \<le> length data \<Longrightarrow> fcs_at (data @ rest) n = fcs_at data n"
  by (simp add: fcs_at_def)

lemma frame_length_of_frame:
  assumes "no_fcs_upto (frame @ uint_bytes (fcs frame)) (length frame - 1)"
    and "frame \<noteq> []" and "length frame \<le> len"
  shows "ethernet_frame_length (frame @ uint_bytes (fcs frame) @ rest) len = Some (length frame)"
proof -
  let ?d = "frame @ uint_bytes (fcs frame)"
  have at: "fcs_at (?d @ rest) m = fcs_at ?d m" if "m \<le> length frame" for m
    using that by (intro fcs_at_append) simp
  have "fcs_at (?d @ rest) (length frame)" by (simp only: at order_refl) (simp add: fcs_at_def)
  then obtain m where m: "ethernet_frame_length (?d @ rest) len = Some m" "0 < m"
      "m \<le> length frame" "fcs_at (?d @ rest) m"
    using assms(2,3) by (rule_tac frame_length_found [of "?d @ rest" "length frame" len]) auto
  moreover have "\<not> m \<le> length frame - 1"
    using assms(1) m at [of m] by (auto simp: no_fcs_upto_def)
  ultimately have "m = length frame" by simp
  with m(1) show ?thesis by simp
qed

text \<open>Evaluation of the check value and of the length search on literal buffers.\<close>

lemma zero_steps_8:
  "zero_steps 8 x = zero_step (zero_step (zero_step (zero_step
     (zero_step (zero_step (zero_step (zero_step x)))))))"
  by (simp add: numeral_eq_Suc)

lemma frame_length_loop_numeral:
  "frame_length_loop (c # data) (numeral k) crc index =
     (let crc' = crc_octet crc c
      in if length data < 4 then None
         else if take 4 data = uint_bytes (NOT crc') then Some (Suc index)
         else frame_length_loop data (pred_numeral k) crc' (Suc index))"
  by (simp add: numeral_eq_Suc Let_def)

lemmas crc_eval = crc_octet_eq zero_steps_8 zero_step_odd ethernet_polynomial_le_def
  uint_bytes_eq frame_length_loop_numeral

lemma no_fcs_upto_by_search: "ethernet_frame_length data len = Some 0 \<Longrightarrow> no_fcs_upto data len"
  using frame_length_loop_0 [of data len "[]"]
  by (auto simp: ethernet_frame_length_def no_fcs_upto_def)

section \<open>Properties\<close>

text \<open>
  C1. The frame check of the driver detects every burst of errors inside four consecutive
  octets: replacing any four octets of a frame by four different ones changes the value of
  \<open>ethernet_frame_crc\<close>, whatever comes before and behind them.
\<close>

theorem frame_crc_detects_bursts:
  assumes "length us = 4" and "length vs = 4" and "us \<noteq> vs"
  shows "ethernet_frame_crc (xs @ us @ ys) (length xs + 4 + length ys) \<noteq>
         ethernet_frame_crc (xs @ vs @ ys) (length xs + 4 + length ys)"
proof -
  have "foldl crc_octet 0xffffffff (xs @ us @ ys) \<noteq> foldl crc_octet 0xffffffff (xs @ vs @ ys)"
    using assms by (intro eth_crc.burst_detected) simp_all
  then show ?thesis using assms by (simp add: ethernet_frame_crc_eq fcs_def)
qed

lemma frame_crc_detects_bursts_witness:
  "ethernet_frame_crc ([1, 2] @ [0, 0, 0, 0] @ [7]) 7 \<noteq>
   ethernet_frame_crc ([1, 2] @ [0, 255, 255, 1] @ [7]) 7"
  using frame_crc_detects_bursts [of "[0, 0, 0, 0]" "[0, 255, 255, 1]" "[1, 2]" "[7]"] by simp

text \<open>
  A frame followed by its own check value drives the register to the fixed residue
  \<open>0xdebb20e3\<close>, whatever the frame holds.
\<close>

lemma zero_steps_32: "zero_steps 32 0xffffffff = 0xdebb20e3"
  by (simp add: zero_step_def ethernet_polynomial_le_def funpow_eval del: funpow.simps(2))

theorem frame_crc_residue:
  "frame_crc_loop (frame @ uint_bytes (fcs frame) @ rest) (length frame + 4) 0xffffffff =
     Some 0xdebb20e3"
proof -
  let ?s = "foldl crc_octet 0xffffffff frame"
  have "foldl crc_octet ?s (uint_bytes (NOT ?s)) = zero_steps 32 (?s XOR NOT ?s)"
    by (simp add: foldl_crc_octet)
  also have "?s XOR NOT ?s = 0xffffffff"
    by (simp add: xor_not_word)
  finally show ?thesis
    by (simp add: frame_crc_loop_eq fcs_def zero_steps_32)
qed

text \<open>
  C3. What \<open>ethernet_frame_length\<close> returns for a buffer, in every case: a positive length is the
  shortest prefix followed by its own check value; \<open>0\<close> means no prefix is; and it is undefined
  exactly when no prefix matches before the comparison leaves the buffer.
\<close>

theorem frame_length_spec:
  "(case ethernet_frame_length data len of
      None \<Rightarrow> length data < len + 4 \<and> no_fcs_upto data len
    | Some 0 \<Rightarrow> (len = 0 \<or> len + 4 \<le> length data) \<and> no_fcs_upto data len
    | Some (Suc k) \<Rightarrow> Suc k \<le> len \<and> fcs_at data (Suc k) \<and> no_fcs_upto data k)"
proof (cases "ethernet_frame_length data len")
  case None
  have "length data < len + 4"
    using frame_length_loop_None [of data len "[]"] None by (simp add: ethernet_frame_length_def)
  moreover have "no_fcs_upto data len"
    using frame_length_found [of data] None unfolding no_fcs_upto_def by force
  ultimately show ?thesis using None by simp
next
  case (Some n)
  show ?thesis
  proof (cases n)
    case 0
    then show ?thesis
      using frame_length_loop_0 [of data len "[]"] Some
      by (auto simp: ethernet_frame_length_def no_fcs_upto_def)
  next
    case (Suc k)
    then show ?thesis
      using frame_length_Some [OF Some] Some by (auto simp: no_fcs_upto_def)
  qed
qed

lemma whole_buffer_search_cases:
  assumes "0 < length rx_frame"
  shows "ethernet_frame_length rx_frame (length rx_frame) \<noteq> Some 0"
    and "ethernet_frame_length rx_frame (length rx_frame) = None \<longleftrightarrow>
      no_fcs_upto rx_frame (length rx_frame)"
proof -
  let ?l = "length rx_frame"
  show "ethernet_frame_length rx_frame ?l \<noteq> Some 0"
    using frame_length_loop_0 [of rx_frame ?l "[]"] assms by (auto simp: ethernet_frame_length_def)
  then show "ethernet_frame_length rx_frame ?l = None \<longleftrightarrow> no_fcs_upto rx_frame ?l"
    using frame_length_found [of rx_frame _ ?l] frame_length_Some [of rx_frame ?l]
    unfolding no_fcs_upto_def
    by (metis greaterThanAtMost_iff option.exhaust option.distinct(1))
qed

text \<open>
  C4. With the length the driver passes, the size of the receive buffer itself, the answer
  ``no frame'' is never given: a buffer without a matching prefix makes the search compare
  bytes behind the end of the buffer, and only such a buffer does.
\<close>

theorem whole_buffer_search:
  assumes "0 < length rx_frame"
  shows "ethernet_frame_length rx_frame (length rx_frame) \<noteq> Some 0 \<and>
    (ethernet_frame_length rx_frame (length rx_frame) = None \<longleftrightarrow>
      no_fcs_upto rx_frame (length rx_frame))"
  using whole_buffer_search_cases [OF assms] by simp

lemma whole_buffer_search_witness: "ethernet_frame_length [0, 0, 0] 3 \<noteq> Some 0"
proof -
  have "0 < length [0 :: u8, 0, 0]" by simp
  from whole_buffer_search [OF this] show ?thesis by (simp add: numeral_3_eq_3)
qed

end
