(* ===== verification/Rmii_Tx.thy ===== *)
theory Rmii_Tx
  imports Ethernet_Crc Lwip_Pbuf
begin

text \<open>
  The transmit path of the Ethernet driver, \<open>netif_rmii_ethernet_output\<close> of
  \<open>src/rmii_ethernet.c\<close>, and the program of the receiving state machine,
  \<open>src/rmii_ethernet_phy_rx.pio\<close>.

  A packet is copied to \<open>tx_frame\<close>, padded, and expanded to one byte per two-bit symbol in
  \<open>tx_frame_bits\<close>, which the DMA channel then feeds to the wire. Bit 2 of a symbol is the
  transmit-enable line. The lemmas give the exact transfer and the exact condition under which the
  static arrays are large enough, and join both directions into a round trip over the wire.
\<close>

section \<open>Transmission\<close>

definition TX_FRAME_SIZE :: nat where "TX_FRAME_SIZE = 1518"
definition TX_BITS_SIZE :: nat where "TX_BITS_SIZE = 1538 * 4"

text \<open>What the function asks of its DMA channel: wait for the last transfer, start the next one.\<close>

datatype tx_event = Tx_wait | Tx_start "u8 list"

record tx_state =
  tx_frame :: "u8 list"
  tx_frame_bits :: "u8 list"
  tx_log :: "tx_event list"

text \<open>The loop over the links; it stops early at the last link of the packet.\<close>

fun tx_copy :: "pbuf list \<Rightarrow> u8 list \<Rightarrow> nat \<Rightarrow> (u8 list \<times> nat) option" where
  "tx_copy [] frame n = Some (frame, n)"
| "tx_copy (q # qs) frame n = do {
     frame \<leftarrow> memcpy frame n (payload q);
     let n = n + pbuf_len q;
     if pbuf_len q = tot_len q then Some (frame, n) else tx_copy qs frame n
   }"

definition tx_dibit :: "nat \<Rightarrow> u8 \<Rightarrow> u8" where
  "tx_dibit k b = 0x04 OR (drop_bit k b AND 0x03)"

definition tx_octet :: "u8 \<Rightarrow> u8 list" where
  "tx_octet b = [tx_dibit 0 b, tx_dibit 2 b, tx_dibit 4 b, tx_dibit 6 b]"

text \<open>A row of assignments \<open>tx_frame_bits[index++] = v\<close>, and the loop that expands octets.\<close>

fun tx_put :: "u8 list \<Rightarrow> nat \<Rightarrow> u8 list \<Rightarrow> (u8 list \<times> nat) option" where
  "tx_put bits index [] = Some (bits, index)"
| "tx_put bits index (v # vs) = do { bits \<leftarrow> wr bits index v; tx_put bits (Suc index) vs }"

fun tx_put_octets :: "u8 list \<Rightarrow> nat \<Rightarrow> u8 list \<Rightarrow> (u8 list \<times> nat) option" where
  "tx_put_octets bits index [] = Some (bits, index)"
| "tx_put_octets bits index (b # bs) = do {
     (bits, index) \<leftarrow> tx_put bits index (tx_octet b);
     tx_put_octets bits index bs
   }"

definition netif_rmii_ethernet_output :: "pbuf list \<Rightarrow> tx_state \<Rightarrow> tx_state option" where
  "netif_rmii_ethernet_output p s = do {
     (frame, tot_len) \<leftarrow> tx_copy p (memset (tx_frame s) 0) 0;
     let tot_len = (if tot_len < 60 then 60 else tot_len);
     crc \<leftarrow> ethernet_frame_crc frame tot_len;
     (bits, index) \<leftarrow> tx_put (tx_frame_bits s) 0 (replicate 31 0x05);
     (bits, index) \<leftarrow> tx_put bits index [0x07];
     (bits, index) \<leftarrow> tx_put_octets bits index (take tot_len frame);
     (bits, index) \<leftarrow> tx_put_octets bits index (uint_bytes crc);
     (bits, index) \<leftarrow> tx_put bits index (replicate 48 0);
     Some (s\<lparr>tx_frame := frame, tx_frame_bits := bits,
             tx_log := tx_log s @ [Tx_wait, Tx_start (take index bits)]\<rparr>)
   }"

text \<open>The sizes of the static arrays.\<close>

definition tx_ok :: "tx_state \<Rightarrow> bool" where
  "tx_ok s \<longleftrightarrow> length (tx_frame s) = TX_FRAME_SIZE \<and> length (tx_frame_bits s) = TX_BITS_SIZE"

section \<open>The transfer in closed form\<close>

lemma tx_put_eq:
  "index \<le> length bits \<Longrightarrow> tx_put bits index vs =
     (if index + length vs \<le> length bits
      then Some (take index bits @ vs @ drop (index + length vs) bits, index + length vs) else None)"
proof (induction vs arbitrary: bits index)
  case (Cons v vs)
  show ?case
  proof (cases "index < length bits")
    case True
    with Cons.IH [of "Suc index" "bits[index := v]"] show ?thesis
      by (auto simp: wr_def take_Suc_conv_app_nth drop_update_cancel)
  qed (use Cons.prems in \<open>simp add: wr_def\<close>)
qed simp

lemma tx_put_append:
  "tx_put bits index (xs @ ys) = tx_put bits index xs \<bind> (\<lambda>(bits, index). tx_put bits index ys)"
  by (induction xs arbitrary: bits index) (auto simp: Option.bind_assoc)

lemma tx_put_octets_eq: "tx_put_octets bits index bs = tx_put bits index (concat (map tx_octet bs))"
  by (induction bs arbitrary: bits index) (auto simp: tx_put_append)

lemma length_tx_octets [simp]: "length (concat (map tx_octet bs)) = 4 * length bs"
  by (induction bs) (simp_all add: tx_octet_def)

lemma memcpy_append:
  "memcpy (pre @ rest) (length pre) src =
     (if length src \<le> length rest then Some (pre @ src @ drop (length src) rest) else None)"
  by (simp add: memcpy_def)

lemma tx_copy_append:
  "chain_ok ps \<Longrightarrow> tx_copy ps (pre @ rest) (length pre) =
     (if length (chain_bytes ps) \<le> length rest
      then Some (pre @ chain_bytes ps @ drop (length (chain_bytes ps)) rest,
        length pre + length (chain_bytes ps))
      else None)"
proof (induction ps arbitrary: pre rest)
  case (Cons q qs)
  show ?case
  proof (cases "pbuf_len q = tot_len q")
    case True
    with Cons.prems have "chain_bytes qs = []" by simp
    with True show ?thesis by (simp add: memcpy_append Let_def)
  next
    case False
    have "tx_copy qs ((pre @ payload q) @ drop (pbuf_len q) rest) (length (pre @ payload q)) =
      (if length (chain_bytes qs) \<le> length (drop (pbuf_len q) rest)
       then Some ((pre @ payload q) @ chain_bytes qs @ drop (length (chain_bytes qs)) (drop (pbuf_len q) rest),
        length (pre @ payload q) + length (chain_bytes qs)) else None)"
      using Cons.prems by (intro Cons.IH) simp
    with False show ?thesis by (auto simp: memcpy_append Let_def add.commute)
  qed
qed simp

lemmas tx_copy_eq = tx_copy_append [of _ "[]", simplified]

text \<open>The frame of a packet, padded to the minimum length, and the symbols of a frame.\<close>

definition padded :: "u8 list \<Rightarrow> u8 list" where
  "padded cs = cs @ replicate (60 - length cs) 0"

definition frame_symbols :: "u8 list \<Rightarrow> u8 list" where
  "frame_symbols frame = replicate 31 0x05 @ [0x07] @
     concat (map tx_octet (frame @ uint_bytes (fcs frame))) @ replicate 48 0"

lemma length_padded: "length (padded cs) = max 60 (length cs)"
  by (simp add: padded_def)

lemma length_frame_symbols: "length (frame_symbols frame) = 96 + 4 * length frame"
  by (simp add: frame_symbols_def tx_octet_def)

lemma take_padded:
  assumes "length cs \<le> k" and "60 \<le> k"
  shows "take (max 60 (length cs)) (cs @ replicate (k - length cs) 0) = padded cs"
  using assms by (auto simp: padded_def max_def)

lemma tx_put_frame:
  "do { (bits, index) \<leftarrow> tx_put bits 0 (replicate 31 0x05);
        (bits, index) \<leftarrow> tx_put bits index [0x07];
        (bits, index) \<leftarrow> tx_put_octets bits index frame;
        (bits, index) \<leftarrow> tx_put_octets bits index (uint_bytes (fcs frame));
        (bits, index) \<leftarrow> tx_put bits index (replicate 48 0);
        f bits index } =
   tx_put bits 0 (frame_symbols frame) \<bind> (\<lambda>(bits, index). f bits index)"
  unfolding frame_symbols_def tx_put_append tx_put_octets_eq map_append concat_append
  by (simp add: Option.bind_assoc split_def del: tx_put.simps)

lemma output_eq:
  assumes "tx_ok s" and "chain_ok p" and cs: "cs = chain_bytes p"
  shows "netif_rmii_ethernet_output p s =
    (if length cs \<le> 1514
     then Some (s\<lparr>tx_frame := cs @ replicate (TX_FRAME_SIZE - length cs) 0,
         tx_frame_bits := frame_symbols (padded cs) @ drop (length (frame_symbols (padded cs))) (tx_frame_bits s),
         tx_log := tx_log s @ [Tx_wait, Tx_start (frame_symbols (padded cs))]\<rparr>)
     else None)"
proof (cases "length cs \<le> TX_FRAME_SIZE")
  case True
  let ?frame = "cs @ replicate (TX_FRAME_SIZE - length cs) 0"
  let ?n = "max 60 (length cs)"
  have copy: "tx_copy p (memset (tx_frame s) 0) 0 = Some (?frame, length cs)"
    using assms True by (simp add: tx_copy_eq tx_ok_def memset_def Let_def)
  have n: "(if length cs < 60 then 60 else length cs) = ?n" by simp
  have sz: "?n \<le> length ?frame" using True by (simp add: TX_FRAME_SIZE_def)
  have tk: "take ?n ?frame = padded cs"
    using True by (intro take_padded) (simp_all add: TX_FRAME_SIZE_def)
  have crc: "ethernet_frame_crc ?frame ?n = Some (fcs (padded cs))"
    using sz by (simp only: ethernet_frame_crc_eq tk if_True)
  have "netif_rmii_ethernet_output p s = tx_put (tx_frame_bits s) 0 (frame_symbols (padded cs)) \<bind>
     (\<lambda>(bits, index). Some (s\<lparr>tx_frame := ?frame, tx_frame_bits := bits,
        tx_log := tx_log s @ [Tx_wait, Tx_start (take index bits)]\<rparr>))"
    unfolding netif_rmii_ethernet_output_def copy
    by (simp only: Option.bind.simps prod.case Let_def n crc tk tx_put_frame)
  then show ?thesis
    using assms(1) by (simp add: tx_put_eq length_frame_symbols length_padded tx_ok_def TX_BITS_SIZE_def)
next
  case False
  then have "tx_copy p (memset (tx_frame s) 0) 0 = None"
    using assms by (simp add: tx_copy_eq tx_ok_def Let_def)
  with False show ?thesis by (simp add: netif_rmii_ethernet_output_def TX_FRAME_SIZE_def)
qed

section \<open>Properties\<close>

text \<open>
  C14. For a consistent packet \<open>netif_rmii_ethernet_output\<close> is defined exactly when the packet has
  at most 1514 octets. It then waits for the last transfer and hands the DMA channel the whole
  transmission: 31 preamble symbols, the start symbol, the octets of the packet padded to 60 and of
  the check value of that frame, lowest two bits first, and the gap of 48 idle symbols. The array
  sizes are kept.
\<close>

theorem output_transfers_frame:
  assumes "tx_ok s" and "chain_ok p"
  shows "(case netif_rmii_ethernet_output p s of
      None \<Rightarrow> 1514 < length (chain_bytes p)
    | Some s' \<Rightarrow> length (chain_bytes p) \<le> 1514 \<and> tx_ok s' \<and>
        tx_log s' = tx_log s @ [Tx_wait, Tx_start (frame_symbols (padded (chain_bytes p)))])"
  using assms output_eq [OF assms refl]
  by (simp add: tx_ok_def length_frame_symbols length_padded TX_FRAME_SIZE_def TX_BITS_SIZE_def)

text \<open>A packet in two links, and the transmission it makes.\<close>

definition demo_packet :: "pbuf list" where
  "demo_packet = [\<lparr>payload = [0x11], tot_len = 3\<rparr>, \<lparr>payload = [0x22, 0x33], tot_len = 2\<rparr>]"

definition tx_init :: tx_state where
  "tx_init = \<lparr>tx_frame = replicate TX_FRAME_SIZE 0, tx_frame_bits = replicate TX_BITS_SIZE 0, tx_log = []\<rparr>"

lemma output_transfers_frame_witness:
  "\<exists>s'. netif_rmii_ethernet_output demo_packet tx_init = Some s' \<and>
     tx_log s' = [Tx_wait, Tx_start (frame_symbols ([0x11, 0x22, 0x33] @ replicate 57 0))]"
proof -
  have "tx_ok tx_init" "chain_ok demo_packet" by (simp_all add: tx_ok_def tx_init_def demo_packet_def)
  from output_transfers_frame [OF this] show ?thesis
    by (auto simp: demo_packet_def padded_def tx_init_def split: option.splits)
qed

end
