(* ===== verification/Mdio.thy ===== *)
theory Mdio
  imports Prelude
begin

text \<open>
  The bit-banged management interface (MDIO) of the Ethernet driver, \<open>src/rmii_ethernet.c\<close>:
  \<open>netif_rmii_ethernet_mdio_clock_out\<close>, \<open>_clock_in\<close>, \<open>_read\<close> and \<open>_write\<close>. The pins are driven
  through the SDK; a run of the code is the list of SDK calls it makes, and what a pin reads is
  a parameter, \<open>phy\<close>, of the calls made so far.

  The lemmas follow the two wires through such a list of calls and show the frames a transceiver
  sees on the rising edges of the clock, and that a read returns the register of a transceiver
  that answers by the rules.
\<close>

section \<open>The model\<close>

datatype sdk_call =
    Gpio_init nat
  | Gpio_set_dir nat bool
  | Gpio_put nat bool
  | Gpio_get nat
  | Sleep_us nat

type_synonym sdk_trace = "sdk_call list"

text \<open>\<open>mp\<close> is \<open>mdio_pin_start\<close>: the data pin, with the clock pin next to it.\<close>

definition mdio_clock_out :: "nat \<Rightarrow> bool \<Rightarrow> sdk_trace \<Rightarrow> sdk_trace" where
  "mdio_clock_out mp b tr =
     tr @ [Gpio_put (mp + 1) False, Sleep_us 1, Gpio_put mp b, Gpio_put (mp + 1) True, Sleep_us 1]"

definition mdio_clock_in :: "(sdk_trace \<Rightarrow> bool) \<Rightarrow> nat \<Rightarrow> sdk_trace \<Rightarrow> bool \<times> sdk_trace" where
  "mdio_clock_in phy mp tr =
     (let tr = tr @ [Gpio_put (mp + 1) False, Sleep_us 1, Gpio_put (mp + 1) True];
          b = phy tr
      in (b, tr @ [Gpio_get mp, Sleep_us 1]))"

text \<open>A loop that clocks out the \<open>n\<close> low bits of a value, highest first: \<open>(x >> (n - 1 - i)) & 1\<close>.\<close>

definition bits_msb :: "nat \<Rightarrow> u32 \<Rightarrow> bool list" where
  "bits_msb n x = map (\<lambda>i. bit x (n - 1 - i)) [0..<n]"

fun clock_out_all :: "nat \<Rightarrow> bool list \<Rightarrow> sdk_trace \<Rightarrow> sdk_trace" where
  "clock_out_all mp [] tr = tr"
| "clock_out_all mp (b # bs) tr = clock_out_all mp bs (mdio_clock_out mp b tr)"

text \<open>The loop \<open>data <<= 1; data |= clock_in()\<close>, \<open>n\<close> times.\<close>

fun clock_in_all :: "(sdk_trace \<Rightarrow> bool) \<Rightarrow> nat \<Rightarrow> nat \<Rightarrow> u16 \<Rightarrow> sdk_trace \<Rightarrow> u16 \<times> sdk_trace" where
  "clock_in_all phy mp 0 data tr = (data, tr)"
| "clock_in_all phy mp (Suc n) data tr =
     (let (b, tr) = mdio_clock_in phy mp tr
      in clock_in_all phy mp n (push_bit 1 data OR (if b then 1 else 0)) tr)"

definition mdio_open :: "nat \<Rightarrow> sdk_trace \<Rightarrow> sdk_trace" where
  "mdio_open mp tr = tr @ [Gpio_init mp, Gpio_init (mp + 1), Gpio_set_dir mp True, Gpio_set_dir (mp + 1) True]"

definition mdio_read ::
  "(sdk_trace \<Rightarrow> bool) \<Rightarrow> nat \<Rightarrow> u32 \<Rightarrow> u32 \<Rightarrow> sdk_trace \<Rightarrow> u16 \<times> sdk_trace" where
  "mdio_read phy mp addr reg tr =
     (let tr = mdio_open mp tr;
          tr = clock_out_all mp (replicate 32 True) tr;
          tr = mdio_clock_out mp True (mdio_clock_out mp False tr);
          tr = mdio_clock_out mp False (mdio_clock_out mp True tr);
          tr = clock_out_all mp (bits_msb 5 addr) tr;
          tr = clock_out_all mp (bits_msb 5 reg) tr;
          tr = tr @ [Gpio_set_dir mp False];
          tr = mdio_clock_out mp False (mdio_clock_out mp False tr)
      in clock_in_all phy mp 16 0 tr)"

definition mdio_write :: "nat \<Rightarrow> u32 \<Rightarrow> u32 \<Rightarrow> u32 \<Rightarrow> sdk_trace \<Rightarrow> sdk_trace" where
  "mdio_write mp addr reg val tr =
     (let tr = mdio_open mp tr;
          tr = clock_out_all mp (replicate 32 True) tr;
          tr = mdio_clock_out mp True (mdio_clock_out mp False tr);
          tr = mdio_clock_out mp True (mdio_clock_out mp False tr);
          tr = clock_out_all mp (bits_msb 5 addr) tr;
          tr = clock_out_all mp (bits_msb 5 reg) tr;
          tr = mdio_clock_out mp False (mdio_clock_out mp True tr);
          tr = clock_out_all mp (bits_msb 16 val) tr
      in tr @ [Gpio_set_dir mp False])"

section \<open>The wires\<close>

text \<open>
  The transceiver's view: it samples the data wire on each rising edge of the clock, and sees
  \<^term>\<open>None\<close> when the host does not drive it.
\<close>

record wires =
  mdc :: bool
  mdio :: bool
  host_drives :: bool
  sampled :: "bool option list"

fun wire_step :: "nat \<Rightarrow> wires \<Rightarrow> sdk_call \<Rightarrow> wires" where
  "wire_step mp w (Gpio_init p) =
     (if p = mp then w\<lparr>mdio := False, host_drives := False\<rparr>
      else if p = mp + 1 then w\<lparr>mdc := False\<rparr> else w)"
| "wire_step mp w (Gpio_set_dir p out) = (if p = mp then w\<lparr>host_drives := out\<rparr> else w)"
| "wire_step mp w (Gpio_put p v) =
     (if p = mp then w\<lparr>mdio := v\<rparr>
      else if p = mp + 1
      then w\<lparr>mdc := v, sampled := sampled w @
              (if v \<and> \<not> mdc w then [if host_drives w then Some (mdio w) else None] else [])\<rparr>
      else w)"
| "wire_step mp w (Gpio_get p) = w"
| "wire_step mp w (Sleep_us n) = w"

definition wires_after :: "nat \<Rightarrow> sdk_trace \<Rightarrow> wires" where
  "wires_after mp tr =
     foldl (wire_step mp) \<lparr>mdc = False, mdio = False, host_drives = False, sampled = []\<rparr> tr"

lemma wires_after_snoc: "wires_after mp (tr @ cs) = foldl (wire_step mp) (wires_after mp tr) cs"
  by (simp add: wires_after_def)

lemma wires_clock_out [simp]:
  "wires_after mp (mdio_clock_out mp b tr) =
     (wires_after mp tr)\<lparr>mdc := True, mdio := b,
       sampled := sampled (wires_after mp tr) @
         [if host_drives (wires_after mp tr) then Some b else None]\<rparr>"
  by (simp add: mdio_clock_out_def wires_after_snoc)

lemma wires_clock_out_all:
  "sampled (wires_after mp (clock_out_all mp bs tr)) =
     sampled (wires_after mp tr) @
       map (\<lambda>b. if host_drives (wires_after mp tr) then Some b else None) bs"
  "host_drives (wires_after mp (clock_out_all mp bs tr)) = host_drives (wires_after mp tr)"
  by (induction bs arbitrary: tr) simp_all

lemma wires_open:
  "sampled (wires_after mp (mdio_open mp tr)) = sampled (wires_after mp tr)"
  "host_drives (wires_after mp (mdio_open mp tr))"
  by (simp_all add: mdio_open_def wires_after_snoc)

lemma wires_set_dir:
  "sampled (wires_after mp (tr @ [Gpio_set_dir mp out])) = sampled (wires_after mp tr)"
  "host_drives (wires_after mp (tr @ [Gpio_set_dir mp out])) = out"
  by (simp_all add: wires_after_snoc)

lemmas wires_simps = wires_clock_out_all wires_open wires_set_dir

definition write_frame :: "u32 \<Rightarrow> u32 \<Rightarrow> u32 \<Rightarrow> bool list" where
  "write_frame addr reg val = replicate 32 True @ [False, True] @ [False, True] @
     bits_msb 5 addr @ bits_msb 5 reg @ [True, False] @ bits_msb 16 val"

lemma sampled_mdio_write:
  "sampled (wires_after mp (mdio_write mp addr reg val tr)) =
     sampled (wires_after mp tr) @ map Some (write_frame addr reg val)"
  by (simp add: mdio_write_def write_frame_def Let_def wires_simps)

text \<open>
  \<open>mdio_write\<close> puts one management write frame on the wires: 32 ones, start 01, opcode 01,
  five bits of transceiver address, five of register, turnaround 10 and sixteen bits of data,
  each driven by the host at the rising edge of the clock; then it releases the wire.
\<close>

theorem mdio_write_frame:
  "sampled (wires_after mp (mdio_write mp addr reg val tr)) =
     sampled (wires_after mp tr) @ map Some (write_frame addr reg val) \<and>
   \<not> host_drives (wires_after mp (mdio_write mp addr reg val tr))"
  by (simp add: sampled_mdio_write) (simp add: mdio_write_def Let_def wires_simps)

section \<open>Reading from a transceiver\<close>

lemma clock_in_wires:
  "\<not> host_drives (wires_after mp tr) \<Longrightarrow> mdio_clock_in phy mp tr = (b, tr') \<Longrightarrow>
     sampled (wires_after mp tr') = sampled (wires_after mp tr) @ [None] \<and>
     \<not> host_drives (wires_after mp tr') \<and>
     b = phy (tr @ [Gpio_put (mp + 1) False, Sleep_us 1, Gpio_put (mp + 1) True])"
  by (auto simp: mdio_clock_in_def Let_def wires_after_snoc)

definition bits_val :: "bool list \<Rightarrow> nat" where
  "bits_val bs = foldl (\<lambda>v b. 2 * v + of_bool b) 0 bs"

text \<open>
  A transceiver that follows the protocol, with register file \<open>regs\<close>. A management frame is 64
  clocks long. The transceiver answers only a read command: 32 ones, start 01, opcode 10, and the
  two addresses, 46 bits that the host drives. After two clocks of turnaround it puts the bits of
  the register addressed on the wire, highest first, one on each rising edge. At any other time,
  and to any other header, it leaves the wire to its pull-up resistor.
\<close>

definition read_command :: "bool list \<Rightarrow> bool" where
  "read_command hdr \<longleftrightarrow>
     length hdr = 46 \<and> take 36 hdr = replicate 32 True @ [False, True] @ [True, False]"

definition whole_frames :: "nat \<Rightarrow> sdk_trace \<Rightarrow> bool" where
  "whole_frames mp tr \<longleftrightarrow> 64 dvd length (sampled (wires_after mp tr))"

definition phy_of :: "nat \<Rightarrow> (nat \<Rightarrow> nat \<Rightarrow> u16) \<Rightarrow> sdk_trace \<Rightarrow> bool" where
  "phy_of mp regs tr =
     (let s = sampled (wires_after mp tr);
          frame = drop (64 * ((length s - 1) div 64)) s;
          hdr = map the (takeWhile (\<lambda>x. x \<noteq> None) frame);
          edges = length frame - length hdr
      in read_command hdr \<and> 2 < edges \<and> edges \<le> 18 \<longrightarrow>
         bit (regs (bits_val (take 5 (drop 36 hdr))) (bits_val (take 5 (drop 41 hdr)))) (18 - edges))"

lemma bits_val_snoc [simp]: "bits_val (bs @ [b]) = 2 * bits_val bs + of_bool b"
  by (simp add: bits_val_def)

lemma bits_msb_Suc: "bits_msb (Suc n) x = bits_msb n (drop_bit 1 x) @ [bit x 0]"
  by (auto simp: bits_msb_def bit_drop_bit_eq Suc_diff_Suc)

lemma bits_val_bits_msb: "bits_val (bits_msb n x) = unat (take_bit n x)"
proof (induction n arbitrary: x)
  case 0
  show ?case by (simp add: bits_val_def bits_msb_def)
next
  case (Suc n)
  have "unat (take_bit (Suc n) x) = take_bit (Suc n) (unat x)"
    by (rule unsigned_take_bit_eq)
  also have "\<dots> = 2 * take_bit n (unat x div 2) + unat x mod 2"
    by (simp add: take_bit_Suc)
  also have "unat x div 2 = unat (drop_bit 1 x)"
    by (simp only: unat_drop_bit_eq) (simp add: drop_bit_Suc)
  also have "unat x mod 2 = of_bool (bit x 0)"
    using bit_unsigned_iff [of x 0, where ?'a = nat]
    by (simp add: bit_0 mod_2_eq_odd possible_bit_def)
  finally have "unat (take_bit (Suc n) x) = 2 * unat (take_bit n (drop_bit 1 x)) + of_bool (bit x 0)"
    by (simp add: unsigned_take_bit_eq)
  then show ?case by (simp add: bits_msb_Suc Suc.IH)
qed

lemma push_next_bit:
  "push_bit 1 (drop_bit (Suc n) (r :: 'a::len word)) OR (if bit r n then 1 else 0) = drop_bit n r"
proof (rule bit_word_eqI)
  fix m assume "m < LENGTH('a)"
  then show "bit (push_bit 1 (drop_bit (Suc n) r) OR (if bit r n then 1 else 0)) m = bit (drop_bit n r) m"
    by (cases m) (simp_all only: bit_or_iff bit_push_bit_iff bit_drop_bit_eq comp_def bit_1_iff
        bit_0_eq bot_apply if_distrib [of bit] if_distribR, auto)
qed

text \<open>The clock-in loop collects the answers of the transceiver, first answer highest.\<close>

lemma phy_of_answer:
  assumes "sampled (wires_after mp tr) = pre @ map Some hdr @ replicate (3 + k) None"
    and "64 dvd length pre" and "read_command hdr" and "k < 16"
  shows "phy_of mp regs tr = bit (regs (bits_val (take 5 (drop 36 hdr))) (bits_val (take 5 (drop 41 hdr)))) (15 - k)"
proof -
  let ?frame = "map Some hdr @ replicate (3 + k) None"
  have hdr: "length hdr = 46" using assms(3) by (simp add: read_command_def)
  from assms(2) obtain j where j: "length pre = 64 * j" by (auto simp: dvd_def)
  have "length (pre @ ?frame) - 1 = 48 + k + 64 * j" using j hdr by simp
  also have "\<dots> div 64 = j" using assms(4) by (subst div_mult_self2) simp_all
  finally have "drop (64 * ((length (pre @ ?frame) - 1) div 64)) (pre @ ?frame) = ?frame"
    by (simp add: j [symmetric])
  moreover have "takeWhile (\<lambda>x. x \<noteq> None) ?frame = map Some hdr"
    by (simp add: takeWhile_append)
  ultimately show ?thesis
    using assms(3,4) hdr unfolding phy_of_def Let_def assms(1)
    by (simp only:) (simp add: comp_def)
qed

lemma clock_in_all_phy:
  assumes "\<not> host_drives (wires_after mp tr)"
    and "sampled (wires_after mp tr) = pre @ map Some hdr @ replicate (2 + k) None"
    and "64 dvd length pre" and "read_command hdr"
    and "n + k = 16"
    and "r = regs (bits_val (take 5 (drop 36 hdr))) (bits_val (take 5 (drop 41 hdr)))"
    and "data = drop_bit n r"
    and "clock_in_all (phy_of mp regs) mp n data tr = (res, tr')"
  shows "res = r \<and> sampled (wires_after mp tr') = pre @ map Some hdr @ replicate 18 None"
  using assms
proof (induction n arbitrary: k data tr)
  case 0
  then have "k = 16" by simp
  with 0 show ?case by (simp add: replicate_add [of 2 16, symmetric] del: replicate.simps)
next
  case (Suc n)
  obtain b tr1 where ci: "mdio_clock_in (phy_of mp regs) mp tr = (b, tr1)"
    by (cases "mdio_clock_in (phy_of mp regs) mp tr")
  let ?tr = "tr @ [Gpio_put (mp + 1) False, Sleep_us 1, Gpio_put (mp + 1) True]"
  from clock_in_wires [OF Suc.prems(1) ci]
  have w: "sampled (wires_after mp tr1) = pre @ map Some hdr @ replicate (2 + Suc k) None"
    "\<not> host_drives (wires_after mp tr1)" and b: "b = phy_of mp regs ?tr"
    using Suc.prems(2) by (simp_all add: replicate_append_same)
  have "sampled (wires_after mp ?tr) = pre @ map Some hdr @ replicate (3 + k) None"
    using Suc.prems(1,2) by (simp add: wires_after_snoc replicate_append_same numeral_3_eq_3)
  from phy_of_answer [OF this Suc.prems(3,4)] Suc.prems(5,6) b
  have "b = bit r (15 - k)" by simp
  moreover have "15 - k = n" using Suc.prems(5) by simp
  ultimately have "push_bit 1 data OR (if b then 1 else 0) = drop_bit n r"
    unfolding Suc.prems(7) by (simp only: push_next_bit)
  moreover have "clock_in_all (phy_of mp regs) mp n (push_bit 1 data OR (if b then 1 else 0)) tr1 = (res, tr')"
    using Suc.prems(8) ci by simp
  ultimately show ?case
    using w Suc.prems(3-6) by (intro Suc.IH [of tr1 "Suc k" "push_bit 1 data OR (if b then 1 else 0)"]) simp_all
qed

lemma mdio_read_result:
  assumes "whole_frames mp tr0"
  shows "fst (mdio_read (phy_of mp regs) mp addr reg tr0) = regs (unat (take_bit 5 addr)) (unat (take_bit 5 reg))"
    and "whole_frames mp (snd (mdio_read (phy_of mp regs) mp addr reg tr0))"
proof -
  let ?hdr = "replicate 32 True @ [False, True] @ [True, False] @ bits_msb 5 addr @ bits_msb 5 reg"
  define pre where "pre = sampled (wires_after mp tr0)"
  define tr where "tr = mdio_clock_out mp False (mdio_clock_out mp False
    (clock_out_all mp (bits_msb 5 reg) (clock_out_all mp (bits_msb 5 addr)
      (mdio_clock_out mp False (mdio_clock_out mp True (mdio_clock_out mp True (mdio_clock_out mp False
        (clock_out_all mp (replicate 32 True) (mdio_open mp tr0)))))))  @ [Gpio_set_dir mp False]))"
  obtain res tr' where ci: "clock_in_all (phy_of mp regs) mp 16 0 tr = (res, tr')"
    by (cases "clock_in_all (phy_of mp regs) mp 16 0 tr")
  have read: "mdio_read (phy_of mp regs) mp addr reg tr0 = (res, tr')"
    using ci by (simp add: mdio_read_def tr_def Let_def)
  have s: "sampled (wires_after mp tr) = pre @ map Some ?hdr @ replicate (2 + 0) None"
    by (simp add: tr_def wires_simps numeral_2_eq_2 pre_def)
  have d: "\<not> host_drives (wires_after mp tr)"
    by (simp add: tr_def wires_simps)
  have len: "length (bits_msb 5 x) = 5" for x by (simp add: bits_msb_def)
  have dvd: "64 dvd length pre" using assms by (simp add: whole_frames_def pre_def)
  have "res = regs (bits_val (take 5 (drop 36 ?hdr))) (bits_val (take 5 (drop 41 ?hdr))) \<and>
      sampled (wires_after mp tr') = pre @ map Some ?hdr @ replicate 18 None"
    by (rule clock_in_all_phy [OF d s dvd _ _ refl _ ci])
      (auto intro!: bit_word_eqI simp: bit_drop_bit_eq len read_command_def dest: bit_imp_le_length)
  then show "fst (mdio_read (phy_of mp regs) mp addr reg tr0) = regs (unat (take_bit 5 addr)) (unat (take_bit 5 reg))"
    and "whole_frames mp (snd (mdio_read (phy_of mp regs) mp addr reg tr0))"
    using dvd by (simp_all add: read len bits_val_bits_msb whole_frames_def)
qed

lemma mdio_write_whole_frames: "whole_frames mp (mdio_write mp addr reg val tr) = whole_frames mp tr"
  by (simp add: mdio_write_def Let_def wires_simps whole_frames_def bits_msb_def)

lemma whole_frames_Nil [simp]: "whole_frames mp []"
  by (simp add: whole_frames_def wires_after_def)

text \<open>The five bits sent of an address below 32 are the address.\<close>

lemma take_bit_5_address: "i < 32 \<Longrightarrow> unat (take_bit 5 (of_nat i :: u32)) = i"
  by (simp only: unsigned_take_bit_eq unat_of_nat) (simp add: take_bit_eq_mod)

text \<open>
  C13. Between whole management frames, \<open>mdio_read\<close> from a transceiver that follows the protocol,
  that is, one that answers to the preamble, start and opcode of a read and to nothing else,
  returns the register it asks for, with both addresses taken modulo 32, and leaves the interface
  between whole frames again.
\<close>

theorem mdio_read_returns_register:
  assumes "whole_frames mp tr"
  shows "fst (mdio_read (phy_of mp regs) mp addr reg tr) =
      regs (unat (take_bit 5 addr)) (unat (take_bit 5 reg)) \<and>
    whole_frames mp (snd (mdio_read (phy_of mp regs) mp addr reg tr))"
  using mdio_read_result [OF assms] by simp

lemma mdio_read_returns_register_witness:
  "fst (mdio_read (phy_of 14 (\<lambda>a r. if a = 1 \<and> r = 2 then 0x7 else 0xffff)) 14 1 2
     (mdio_write 14 1 0 0x1000 [])) = 0x7"
  using mdio_read_returns_register [of 14 "mdio_write 14 1 0 0x1000 []"
      "\<lambda>a r. if a = 1 \<and> r = 2 then 0x7 else 0xffff" 1 2]
  by (simp add: mdio_write_whole_frames take_bit_eq_mod unat_mod)

end
