(* ===== verification/Rmii_Ethernet.thy ===== *)
theory Rmii_Ethernet
  imports Rmii_Tx Mdio Packet_Handler Syn_Flood
begin

text \<open>
  The receive path and the set-up of the Ethernet driver, \<open>src/rmii_ethernet.c\<close>:
  \<open>netif_rmii_ethernet_low_init\<close>, \<open>_init\<close>, \<open>_poll\<close> and the interrupt at the end of a frame, with
  the program of the receiving state machine, \<open>src/rmii_ethernet_phy_rx.pio\<close>.

  Received octets, interrupts and polls happen in any order: they are the steps of a relation on
  the state of the driver. The lemmas give an invariant of the receive buffer, follow the link
  status and the search for the transceiver, and join transmission, wire and reception.
\<close>

section \<open>The receiving state machine\<close>

text \<open>
  Each sample of the three pins is one list element: bits 0 and 1 the data, bit 2 the valid line.
  \<open>wait\<close> stops at the first sample with the given level and consumes it.
\<close>

fun pio_wait :: "bool \<Rightarrow> nat \<Rightarrow> u8 list \<Rightarrow> u8 list" where
  "pio_wait level pin [] = []"
| "pio_wait level pin (x # xs) = (if bit x pin = level then xs else pio_wait level pin xs)"

text \<open>\<open>in pins, 2\<close> with a right shift and an automatic push of eight bits.\<close>

fun pio_shift_in :: "u8 list \<Rightarrow> u8 list" where
  "pio_shift_in (a # b # c # d # xs) =
     ((a AND 3) OR push_bit 2 (b AND 3) OR push_bit 4 (c AND 3) OR push_bit 6 (d AND 3)) # pio_shift_in xs"
| "pio_shift_in xs = []"

definition rmii_ethernet_phy_rx_data :: "u8 list \<Rightarrow> u8 list" where
  "rmii_ethernet_phy_rx_data xs =
     pio_shift_in (pio_wait True 1 (pio_wait True 0 (pio_wait True 2
       (pio_wait False 1 (pio_wait False 0 (pio_wait False 2 xs))))))"

section \<open>The state of the driver\<close>

record eth_config =
  pio_sm_start :: nat
  rx_pin_start :: nat
  tx_pin_start :: nat
  mdio_pin_start :: nat
  mac_addr :: "u8 list option"

definition NETIF_RMII_ETHERNET_DEFAULT_CONFIG :: eth_config where
  "NETIF_RMII_ETHERNET_DEFAULT_CONFIG =
     \<lparr>pio_sm_start = 0, rx_pin_start = 6, tx_pin_start = 10, mdio_pin_start = 14, mac_addr = None\<rparr>"

record dma_config =
  dma_chan :: nat
  read_increment :: bool
  write_increment :: bool
  dreq_sm :: nat
  dreq_is_tx :: bool
  data_size :: nat

text \<open>The calls into the network stack, in order.\<close>

datatype net_call =
    Set_link_up
  | Set_link_down
  | Netif_input "pbuf list option"
  | Pbuf_free "pbuf list option"
  | Check_timeouts

definition RX_FRAME_SIZE :: nat where "RX_FRAME_SIZE = 1518"
definition RX_DMA_COUNT :: nat where "RX_DMA_COUNT = 1500"

record eth_state =
  config :: eth_config
  rx_sm_offset :: nat
  tx_sm_offset :: nat
  rx_dma_config :: dma_config
  tx_dma_config :: dma_config
  hwaddr :: "u8 list"
  hwaddr_len :: nat
  mtu :: nat
  netif_flags :: u8
  netif_name :: string
  pins :: sdk_trace
  phy_address :: nat
  rx_frame :: "u8 list"
  rx_pos :: nat
  rx_busy :: bool
  rx_sm_enabled :: bool
  rx_irq_enabled :: bool
  syn_statics :: syn_state
  net_log :: "net_call list"

text \<open>
  What the driver takes from its surroundings: what the data pin of the management interface
  reads, the memory behind the receive buffer, the clock, the allocator, what uninitialised
  locals hold, lwIP's \<open>pbuf_alloc\<close> and the input function of the stack (whether it answers
  \<open>ERR_OK\<close>), the results of the SDK's resource calls and the board's identifier.
\<close>

record eth_env =
  phy :: "sdk_trace \<Rightarrow> bool"
  behind :: "u8 list"
  epoch_now :: u32
  malloc_ok :: bool
  junk :: syn_locals
  pbuf_alloc :: "nat \<Rightarrow> pbuf list option"
  input_ok :: "pbuf list option \<Rightarrow> bool"
  rx_program_offset :: nat
  tx_program_offset :: nat
  first_dma_chan :: nat
  second_dma_chan :: nat
  board_id :: "u8 list"

section \<open>Set-up\<close>

text \<open>The loop over the 32 addresses; \<open>phy_address\<close> keeps its value when no transceiver answers.\<close>

fun phy_scan :: "(sdk_trace \<Rightarrow> bool) \<Rightarrow> nat \<Rightarrow> nat list \<Rightarrow> nat \<times> sdk_trace \<Rightarrow> nat \<times> sdk_trace" where
  "phy_scan ph mp [] (addr, tr) = (addr, tr)"
| "phy_scan ph mp (i # is) (addr, tr) =
     (let (reg, tr) = mdio_read ph mp (of_nat i) 0 tr
      in if reg \<noteq> 0xffff then (i, tr) else phy_scan ph mp is (addr, tr))"

definition NETIF_FLAGS_INIT :: u8 where
  "NETIF_FLAGS_INIT = 0x02 OR 0x08 OR 0x10 OR 0x20 OR 0x40"

definition init_hwaddr :: "eth_env \<Rightarrow> eth_config \<Rightarrow> u8 list option" where
  "init_hwaddr env cfg =
     (case mac_addr cfg of
        Some mac \<Rightarrow> if 6 \<le> length mac then Some (take 6 mac) else None
      | None \<Rightarrow> if 8 \<le> length (board_id env)
                then Some ([0xb8, 0x27, 0xeb] @ take 3 (drop 5 (board_id env))) else None)"

definition netif_rmii_ethernet_low_init :: "eth_env \<Rightarrow> eth_state \<Rightarrow> eth_state option" where
  "netif_rmii_ethernet_low_init env s = do {
     let cfg = config s;
     addr \<leftarrow> init_hwaddr env cfg;
     let rx_cfg = \<lparr>dma_chan = first_dma_chan env, read_increment = False, write_increment = True,
                   dreq_sm = pio_sm_start cfg, dreq_is_tx = False, data_size = 8\<rparr>;
     let tx_cfg = \<lparr>dma_chan = second_dma_chan env, read_increment = True, write_increment = False,
                   dreq_sm = pio_sm_start cfg + 1, dreq_is_tx = True, data_size = 8\<rparr>;
     let (a, tr) = phy_scan (phy env) (mdio_pin_start cfg) [0..<32] (phy_address s, pins s);
     let tr = mdio_write (mdio_pin_start cfg) (of_nat a) 4 0x61 tr;
     let tr = mdio_write (mdio_pin_start cfg) (of_nat a) 0 0x1000 tr;
     Some (s\<lparr>mtu := 1500, netif_flags := NETIF_FLAGS_INIT, hwaddr := addr, hwaddr_len := 6,
             rx_sm_offset := rx_program_offset env, tx_sm_offset := tx_program_offset env,
             rx_dma_config := rx_cfg, tx_dma_config := tx_cfg,
             phy_address := a, pins := tr\<rparr>)
   }"

text \<open>\<open>netif_add\<close> of lwIP runs the function above as its callback.\<close>

definition netif_rmii_ethernet_init :: "eth_env \<Rightarrow> eth_config option \<Rightarrow> eth_state \<Rightarrow> eth_state option" where
  "netif_rmii_ethernet_init env cfg s = do {
     let s = (case cfg of Some c \<Rightarrow> s\<lparr>config := c\<rparr> | None \<Rightarrow> s);
     s \<leftarrow> netif_rmii_ethernet_low_init env s;
     Some (s\<lparr>netif_name := ''e0''\<rparr>)
   }"

section \<open>Reception\<close>

text \<open>The DMA channel stores an octet of the state machine; it stops after its transfer count.\<close>

definition rx_dma_octet :: "u8 \<Rightarrow> eth_state \<Rightarrow> eth_state option" where
  "rx_dma_octet b s =
     (if rx_busy s
      then do {
        frame \<leftarrow> wr (rx_frame s) (rx_pos s) b;
        Some (s\<lparr>rx_frame := frame, rx_pos := rx_pos s + 1, rx_busy := rx_pos s + 1 < RX_DMA_COUNT\<rparr>)
      }
      else Some s)"

definition netif_rmii_ethernet_rx_dv_falling_callback :: "nat \<Rightarrow> eth_state \<Rightarrow> eth_state" where
  "netif_rmii_ethernet_rx_dv_falling_callback gpio s =
     (if rx_pin_start (config s) + 2 = gpio
      then s\<lparr>rx_sm_enabled := False, rx_busy := False, rx_irq_enabled := False\<rparr> else s)"

definition netif_is_link_up :: "eth_state \<Rightarrow> bool" where
  "netif_is_link_up s \<longleftrightarrow> netif_flags s AND 0x04 \<noteq> 0"

definition poll_link :: "eth_env \<Rightarrow> eth_state \<Rightarrow> eth_state" where
  "poll_link env s =
     (let (reg, tr) = mdio_read (phy env) (mdio_pin_start (config s)) (of_nat (phy_address s)) 1 (pins s);
          link_status = drop_bit 2 (reg AND 0x04);
          s = s\<lparr>pins := tr\<rparr>
      in if (if netif_is_link_up s then 1 else 0) XOR link_status \<noteq> 0
         then (if link_status \<noteq> 0
               then s\<lparr>netif_flags := netif_flags s OR 0x04, net_log := net_log s @ [Set_link_up]\<rparr>
               else s\<lparr>netif_flags := netif_flags s AND NOT 0x04, net_log := net_log s @ [Set_link_down]\<rparr>)
         else s)"

definition poll_parse :: "eth_env \<Rightarrow> nat \<Rightarrow> eth_state \<Rightarrow> eth_state option" where
  "poll_parse env len s = do {
     parsed_packet \<leftarrow> parse_packet (malloc_ok env) (epoch_now env) (rx_frame s @ behind env) len 0;
     (case parsed_packet of
        None \<Rightarrow> Some s
      | Some line \<Rightarrow> do {
          sy \<leftarrow> detect_syn_flood (junk env) (syn_statics s) line;
          Some (s\<lparr>syn_statics := sy\<rparr>)
        })
   }"

text \<open>\<open>pbuf_take\<close> rejects a null pointer and a packet too short; the driver ignores its result.\<close>

definition poll_deliver :: "eth_env \<Rightarrow> nat \<Rightarrow> eth_state \<Rightarrow> eth_state option" where
  "poll_deliver env len s = do {
     p \<leftarrow> (case pbuf_alloc env len of
            None \<Rightarrow> Some None
          | Some p \<Rightarrow> (case pbuf_take p (take len (rx_frame s @ behind env)) of
                         None \<Rightarrow> None
                       | Some (Take_OK q) \<Rightarrow> Some (Some q)
                       | Some Take_ARG \<Rightarrow> Some (Some p)
                       | Some Take_MEM \<Rightarrow> Some (Some p)));
     Some (s\<lparr>net_log := net_log s @ Netif_input p # (if input_ok env p then [] else [Pbuf_free p])\<rparr>)
   }"

definition rx_rearm :: "eth_state \<Rightarrow> eth_state" where
  "rx_rearm s = s\<lparr>rx_frame := memset (rx_frame s) 0, rx_pos := 0, rx_busy := True,
                  rx_sm_enabled := True, rx_irq_enabled := True\<rparr>"

text \<open>The branch of the poll that runs when the DMA channel has stopped.\<close>

definition poll_frame :: "eth_env \<Rightarrow> eth_state \<Rightarrow> eth_state option" where
  "poll_frame env s = do {
     rx_frame_length \<leftarrow> ethernet_frame_length (rx_frame s @ behind env) RX_FRAME_SIZE;
     s \<leftarrow> (if rx_frame_length \<noteq> 0
          then do { s \<leftarrow> poll_parse env rx_frame_length s; poll_deliver env rx_frame_length s }
          else Some s);
     Some (rx_rearm s)
   }"

definition netif_rmii_ethernet_poll :: "eth_env \<Rightarrow> eth_state \<Rightarrow> eth_state option" where
  "netif_rmii_ethernet_poll env s = do {
     let s = poll_link env s;
     s \<leftarrow> (if rx_busy s then Some s else poll_frame env s);
     Some (s\<lparr>net_log := net_log s @ [Check_timeouts]\<rparr>)
   }"

text \<open>\<open>netif_rmii_ethernet_loop\<close> polls forever; \<open>n\<close> rounds of it.\<close>

fun netif_rmii_ethernet_loop :: "(nat \<Rightarrow> eth_env) \<Rightarrow> nat \<Rightarrow> eth_state \<Rightarrow> eth_state option" where
  "netif_rmii_ethernet_loop env 0 s = Some s"
| "netif_rmii_ethernet_loop env (Suc n) s =
     do { s \<leftarrow> netif_rmii_ethernet_loop env n s; netif_rmii_ethernet_poll (env n) s }"

section \<open>Steps\<close>

text \<open>
  Octets, interrupts and polls interleave: the DMA channel and the interrupt run beside the loop,
  but touch the buffer only while the channel is busy, and the loop touches it only when it is not.
\<close>

inductive eth_step :: "eth_state \<Rightarrow> eth_state \<Rightarrow> bool" where
  octet: "rx_sm_enabled s \<Longrightarrow> rx_dma_octet b s = Some s' \<Longrightarrow> eth_step s s'"
| falling: "rx_irq_enabled s \<Longrightarrow> eth_step s (netif_rmii_ethernet_rx_dv_falling_callback gpio s)"
| poll: "netif_rmii_ethernet_poll env s = Some s' \<Longrightarrow> eth_step s s'"

inductive_cases eth_stepE [elim]: "eth_step s s'"

inductive eth_reachable :: "eth_state \<Rightarrow> eth_state \<Rightarrow> bool" where
  start: "eth_reachable s s"
| step: "eth_reachable s s' \<Longrightarrow> eth_step s' s'' \<Longrightarrow> eth_reachable s s''"

section \<open>The receive buffer\<close>

text \<open>
  Everything behind the position of the DMA channel is still zero, and the channel stops before
  the end of the buffer.
\<close>

definition rx_ok :: "eth_state \<Rightarrow> bool" where
  "rx_ok s \<longleftrightarrow> length (rx_frame s) = RX_FRAME_SIZE \<and> rx_pos s \<le> RX_DMA_COUNT \<and>
     (rx_busy s \<longrightarrow> rx_pos s < RX_DMA_COUNT) \<and>
     drop (rx_pos s) (rx_frame s) = replicate (RX_FRAME_SIZE - rx_pos s) 0"

lemma rx_fields_poll_link [simp]:
  "rx_frame (poll_link env s) = rx_frame s" "rx_pos (poll_link env s) = rx_pos s"
  "rx_busy (poll_link env s) = rx_busy s" "syn_statics (poll_link env s) = syn_statics s"
  "config (poll_link env s) = config s"
  by (simp_all add: poll_link_def Let_def split_def)

lemma rx_ok_poll_link [simp]: "rx_ok (poll_link env s) = rx_ok s"
  by (simp add: rx_ok_def)

lemma rx_ok_rearm: "length (rx_frame s) = RX_FRAME_SIZE \<Longrightarrow> rx_ok (rx_rearm s)"
  by (simp add: rx_ok_def rx_rearm_def memset_def RX_DMA_COUNT_def)

lemma rx_frame_poll_parse: "poll_parse env n s = Some s' \<Longrightarrow> rx_frame s' = rx_frame s"
  by (auto simp: poll_parse_def bind_eq_Some_conv split: option.splits)

lemma rx_frame_poll_deliver: "poll_deliver env n s = Some s' \<Longrightarrow> rx_frame s' = rx_frame s"
  by (auto simp: poll_deliver_def bind_eq_Some_conv)

lemma rx_ok_net_log [simp]: "rx_ok (s\<lparr>net_log := l\<rparr>) = rx_ok s"
  by (simp add: rx_ok_def)

lemma poll_frame_rearmed:
  assumes "poll_frame env s = Some s'"
  obtains s1 where "s' = rx_rearm s1" "rx_frame s1 = rx_frame s"
proof -
  from assms obtain n where n: "ethernet_frame_length (rx_frame s @ behind env) RX_FRAME_SIZE = Some n"
    by (auto simp: poll_frame_def bind_eq_Some_conv)
  show ?thesis
  proof (cases "n = 0")
    case True
    with assms n that show ?thesis by (auto simp: poll_frame_def)
  next
    case False
    with assms n obtain s2 s1 where "poll_parse env n s = Some s2" "poll_deliver env n s2 = Some s1"
      "s' = rx_rearm s1"
      by (auto simp: poll_frame_def bind_eq_Some_conv)
    with that show ?thesis by (metis rx_frame_poll_parse rx_frame_poll_deliver)
  qed
qed

lemma rx_ok_poll:
  assumes "netif_rmii_ethernet_poll env s = Some s'" and "rx_ok s"
  shows "rx_ok s'"
proof (cases "rx_busy s")
  case True
  with assms show ?thesis by (auto simp: netif_rmii_ethernet_poll_def Let_def)
next
  case False
  with assms(1) obtain s0 where s0: "poll_frame env (poll_link env s) = Some s0"
    "s' = s0\<lparr>net_log := net_log s0 @ [Check_timeouts]\<rparr>"
    by (auto simp: netif_rmii_ethernet_poll_def Let_def bind_eq_Some_conv)
  from poll_frame_rearmed [OF s0(1)] obtain s1 where "s0 = rx_rearm s1" "rx_frame s1 = rx_frame s"
    by auto
  then show ?thesis using s0(2) assms(2) rx_ok_rearm [of s1] by (simp add: rx_ok_def [of s])
qed

lemma rx_dma_octet_in:
  assumes "rx_ok s"
  shows "\<exists>s'. rx_dma_octet b s = Some s' \<and> rx_ok s'"
proof (cases "rx_busy s")
  case True
  with assms have lt: "rx_pos s < RX_DMA_COUNT" "rx_pos s < length (rx_frame s)"
    by (auto simp: rx_ok_def RX_DMA_COUNT_def RX_FRAME_SIZE_def)
  have "drop (Suc (rx_pos s)) ((rx_frame s)[rx_pos s := b]) = drop 1 (drop (rx_pos s) (rx_frame s))"
    by (simp add: drop_update_cancel)
  also have "\<dots> = replicate (RX_FRAME_SIZE - Suc (rx_pos s)) 0"
    using assms by (simp add: rx_ok_def drop_replicate)
  finally show ?thesis
    using True lt assms by (simp add: rx_dma_octet_def wr_def rx_ok_def)
qed (use assms in \<open>simp add: rx_dma_octet_def\<close>)

lemma rx_ok_falling: "rx_ok s \<Longrightarrow> rx_ok (netif_rmii_ethernet_rx_dv_falling_callback gpio s)"
  by (simp add: rx_ok_def netif_rmii_ethernet_rx_dv_falling_callback_def)

lemma rx_ok_step: "eth_step s s' \<Longrightarrow> rx_ok s \<Longrightarrow> rx_ok s'"
proof (induction rule: eth_step.induct)
  case (octet s b s')
  with rx_dma_octet_in [of s b] show ?case by simp
qed (simp_all add: rx_ok_falling rx_ok_poll)

lemma rx_ok_reachable: "eth_reachable s s' \<Longrightarrow> rx_ok s \<Longrightarrow> rx_ok s'"
  by (induction rule: eth_reachable.induct) (auto intro: rx_ok_step)

text \<open>A row of octets, and what the buffer holds after them.\<close>

fun rx_octets :: "u8 list \<Rightarrow> eth_state \<Rightarrow> eth_state option" where
  "rx_octets [] s = Some s"
| "rx_octets (b # bs) s = do { s \<leftarrow> rx_dma_octet b s; rx_octets bs s }"

lemma rx_octets_idle: "\<not> rx_busy s \<Longrightarrow> rx_octets bs s = Some s"
  by (induction bs) (simp_all add: rx_dma_octet_def)

lemma rx_octets_busy:
  assumes "rx_ok s" and "rx_busy s"
  shows "\<exists>s'. rx_octets bs s = Some s' \<and>
    rx_frame s' = take (rx_pos s) (rx_frame s) @ take (RX_DMA_COUNT - rx_pos s) bs @
      replicate (RX_FRAME_SIZE - min (rx_pos s + length bs) RX_DMA_COUNT) 0 \<and>
    config s' = config s \<and> syn_statics s' = syn_statics s \<and> rx_ok s'"
  using assms
proof (induction bs arbitrary: s)
  case Nil
  then have "rx_frame s = take (rx_pos s) (rx_frame s) @ replicate (RX_FRAME_SIZE - rx_pos s) 0"
    using append_take_drop_id [of "rx_pos s" "rx_frame s"] by (simp add: rx_ok_def)
  then show ?case using Nil by (simp add: rx_ok_def)
next
  case (Cons b bs)
  obtain s1 where s1: "rx_dma_octet b s = Some s1" "rx_ok s1"
    using rx_dma_octet_in [OF Cons.prems(1)] by blast
  have pos: "rx_pos s < RX_DMA_COUNT" and len: "rx_pos s < length (rx_frame s)"
    using Cons.prems by (auto simp: rx_ok_def RX_DMA_COUNT_def RX_FRAME_SIZE_def)
  from s1(1) len Cons.prems(2) have
    f: "rx_frame s1 = (rx_frame s)[rx_pos s := b]" "rx_pos s1 = Suc (rx_pos s)"
      "rx_busy s1 \<longleftrightarrow> Suc (rx_pos s) < RX_DMA_COUNT" "config s1 = config s" "syn_statics s1 = syn_statics s"
    by (auto simp: rx_dma_octet_def wr_def)
  have tk: "take (Suc (rx_pos s)) (rx_frame s1) = take (rx_pos s) (rx_frame s) @ [b]"
    using len by (simp add: f(1) take_Suc_conv_app_nth)
  show ?case
  proof (cases "rx_busy s1")
    case True
    have "RX_DMA_COUNT - rx_pos s = Suc (RX_DMA_COUNT - Suc (rx_pos s))" using pos by simp
    with Cons.IH [OF s1(2) True] s1(1) tk f show ?thesis by auto
  next
    case False
    with pos f(3) have p: "RX_DMA_COUNT = Suc (rx_pos s)" by simp
    have "rx_frame s1 = take (rx_pos s1) (rx_frame s1) @ drop (rx_pos s1) (rx_frame s1)" by simp
    also have "drop (rx_pos s1) (rx_frame s1) = replicate (RX_FRAME_SIZE - RX_DMA_COUNT) 0"
      using s1(2) p f(2) by (simp add: rx_ok_def)
    finally have "rx_frame s1 = take (rx_pos s) (rx_frame s) @ [b] @ replicate (RX_FRAME_SIZE - RX_DMA_COUNT) 0"
      using tk f(2) by simp
    moreover have "take (RX_DMA_COUNT - rx_pos s) (b # bs) = [b]" by (simp add: p Suc_diff_le)
    ultimately show ?thesis using s1 False p f by (simp add: rx_octets_idle)
  qed
qed

lemma rx_octets_rearm:
  assumes "length (rx_frame s) = RX_FRAME_SIZE"
  obtains s' where "rx_octets bs (rx_rearm s) = Some s'"
    "rx_frame s' = take RX_DMA_COUNT bs @ replicate (RX_FRAME_SIZE - min (length bs) RX_DMA_COUNT) 0"
    "config s' = config s" "syn_statics s' = syn_statics s" "rx_ok s'"
proof -
  have "rx_busy (rx_rearm s)" "rx_pos (rx_rearm s) = 0" "config (rx_rearm s) = config s"
    "syn_statics (rx_rearm s) = syn_statics s"
    by (simp_all add: rx_rearm_def)
  with rx_octets_busy [OF rx_ok_rearm [OF assms] this(1), of bs] that show ?thesis by auto
qed

section \<open>Reception over the wire\<close>

lemma bit_dibit:
  "n < 8 \<Longrightarrow> bit (push_bit k (tx_dibit k b AND 3)) n \<longleftrightarrow> k \<le> n \<and> n < k + 2 \<and> bit b n"
proof -
  have three: "(3 :: u8) = mask 2" by (simp add: mask_eq_exp_minus_1)
  have four: "(4 :: u8) = push_bit 2 1" by simp
  show "n < 8 \<Longrightarrow> ?thesis"
    unfolding tx_dibit_def three four
    by (auto simp only: bit_push_bit_iff bit_and_iff bit_or_iff bit_drop_bit_eq bit_mask_iff
        comp_def bit_1_iff) auto
qed

lemma octet_of_dibits:
  "(tx_dibit 0 b AND 3) OR push_bit 2 (tx_dibit 2 b AND 3) OR push_bit 4 (tx_dibit 4 b AND 3) OR
     push_bit 6 (tx_dibit 6 b AND 3) = b"
proof (rule bit_word_eqI)
  fix n assume "n < LENGTH(8)"
  then have n: "n < 8" by simp
  show "bit ((tx_dibit 0 b AND 3) OR push_bit 2 (tx_dibit 2 b AND 3) OR
      push_bit 4 (tx_dibit 4 b AND 3) OR push_bit 6 (tx_dibit 6 b AND 3)) n = bit b n"
    using bit_dibit [OF n, of 0 b] n
    by (simp only: bit_or_iff bit_dibit [OF n] push_bit_0_id id_apply) auto
qed

lemma pio_shift_in_octets: "pio_shift_in (concat (map tx_octet bs) @ xs) = bs @ pio_shift_in xs"
proof (induction bs)
  case (Cons b bs)
  have "pio_shift_in (concat (map tx_octet (b # bs)) @ xs) =
      pio_shift_in (tx_dibit 0 b # tx_dibit 2 b # tx_dibit 4 b # tx_dibit 6 b #
        concat (map tx_octet bs) @ xs)"
    by (simp only: list.map concat.simps tx_octet_def append_Cons append_Nil)
  then show ?case by (simp only: pio_shift_in.simps octet_of_dibits Cons.IH append_Cons)
qed simp

lemma pio_shift_in_zeros:
  "pio_shift_in (replicate (4 * k) 0 @ xs) = replicate k 0 @ pio_shift_in xs"
proof (induction k)
  case (Suc k)
  have "replicate (4 * Suc k) (0 :: u8) = 0 # 0 # 0 # 0 # replicate (4 * k) 0"
    by (simp add: replicate_add numeral_eq_Suc)
  then show ?case by (simp only: append_Cons pio_shift_in.simps Suc.IH) simp
qed simp

text \<open>The preamble synchronises the state machine with the first octet of the frame.\<close>

lemma pio_sync_preamble:
  "rmii_ethernet_phy_rx_data ([0, 0, 0] @ replicate 31 0x05 @ [0x07] @ xs) = pio_shift_in xs"
proof -
  have skip: "pio_wait True 1 (replicate n 0x05 @ [0x07] @ xs) = xs" for n
    by (induction n) simp_all
  have "replicate 31 (0x05 :: u8) = 0x05 # 0x05 # replicate 29 0x05"
    using replicate_Suc [of 30 "0x05 :: u8"] replicate_Suc [of 29 "0x05 :: u8"] by simp
  then show ?thesis using skip [of 29]
    by (simp only: rmii_ethernet_phy_rx_data_def) simp
qed

text \<open>What the state machine hands over of a transmission that is cut off after the check value.\<close>

lemma frame_received:
  assumes "length (take k (frame_symbols frame)) = 32 + 4 * (length frame + 4) + m"
  shows "rmii_ethernet_phy_rx_data ([0, 0, 0] @ take k (frame_symbols frame)) =
    frame @ uint_bytes (fcs frame) @ replicate (m div 4) 0"
proof -
  let ?os = "concat (map tx_octet (frame @ uint_bytes (fcs frame)))"
  let ?pre = "replicate 31 (0x05 :: u8) @ [0x07] @ ?os"
  have sym: "frame_symbols frame = ?pre @ replicate 48 0" by (simp add: frame_symbols_def)
  have len: "length ?pre = 32 + 4 * (length frame + 4)"
    by (simp del: map_append concat_append)
  have "k = length ?pre + m \<or> (length ?pre + m = length (frame_symbols frame) \<and> length ?pre + m \<le> k)"
    using assms unfolding len [symmetric] by (auto simp only: length_take min_def split: if_splits)
  then have "take k (frame_symbols frame) = ?pre @ replicate m 0"
  proof
    assume k: "k = length ?pre + m"
    moreover have "32 + 4 * (length frame + 4) + m \<le> length (frame_symbols frame)"
      unfolding assms [symmetric] by simp
    then have "m \<le> 48" by (simp add: length_frame_symbols)
    moreover have "take (length xs + m) (xs @ ys) = xs @ take m ys" for xs ys :: "u8 list" by simp
    ultimately show ?thesis unfolding sym by (simp only:) (simp add: min_absorb1)
  next
    assume *: "length ?pre + m = length (frame_symbols frame) \<and> length ?pre + m \<le> k"
    then have "m = 48" unfolding sym by (simp del: map_append concat_append)
    moreover have "take k (frame_symbols frame) = frame_symbols frame" using * by simp
    ultimately show ?thesis unfolding sym by simp
  qed
  then have "rmii_ethernet_phy_rx_data ([0, 0, 0] @ take k (frame_symbols frame)) =
      rmii_ethernet_phy_rx_data ([0, 0, 0] @ replicate 31 0x05 @ [0x07] @ (?os @ replicate m 0))"
    by (simp only: append_assoc)
  also have "\<dots> = (frame @ uint_bytes (fcs frame)) @ pio_shift_in (replicate m 0)"
    by (simp only: pio_sync_preamble pio_shift_in_octets)
  also have "pio_shift_in (replicate m 0) = replicate (m div 4) 0"
  proof -
    have "replicate m (0 :: u8) = replicate (4 * (m div 4)) 0 @ replicate (m mod 4) 0"
      by (simp add: replicate_add [symmetric])
    moreover have "m mod 4 \<in> {0, 1, 2, 3}" by auto
    then have "pio_shift_in (replicate (m mod 4) 0) = []"
      by (auto simp: numeral_2_eq_2 numeral_3_eq_3)
    ultimately show ?thesis by (simp add: pio_shift_in_zeros)
  qed
  finally show ?thesis by simp
qed

text \<open>The buffer after such a row of octets.\<close>

lemma buffer_after_frame:
  assumes "length frame + 4 \<le> RX_DMA_COUNT" and "bs = frame @ uint_bytes (fcs frame) @ replicate j 0"
  shows "take RX_DMA_COUNT bs @ replicate (RX_FRAME_SIZE - min (length bs) RX_DMA_COUNT) 0 =
    frame @ uint_bytes (fcs frame) @ replicate (RX_FRAME_SIZE - (length frame + 4)) 0"
proof -
  have "take RX_DMA_COUNT bs = frame @ uint_bytes (fcs frame) @ replicate (min j (RX_DMA_COUNT - (length frame + 4))) 0"
    using assms by (simp add: min.commute)
  moreover have "min j (RX_DMA_COUNT - (length frame + 4)) + (RX_FRAME_SIZE - min (length bs) RX_DMA_COUNT) =
      RX_FRAME_SIZE - (length frame + 4)"
    using assms by (auto simp: RX_FRAME_SIZE_def RX_DMA_COUNT_def min_def)
  ultimately show ?thesis by (simp add: replicate_add [symmetric])
qed

text \<open>A stopped channel with a frame in the buffer: the poll delivers the frame and starts over.\<close>

definition alloc_ok :: "eth_env \<Rightarrow> bool" where
  "alloc_ok env \<longleftrightarrow> malloc_ok env \<and>
     (\<forall>n \<in> {1..RX_FRAME_SIZE}. \<exists>q. pbuf_alloc env n = Some q \<and> chain_ok q \<and> length (chain_bytes q) = n)"

lemma poll_parse_result:
  assumes "13 \<le> n" and "n + 22 \<le> length (rx_frame s @ behind env)" and "n < 2 ^ 32" and "malloc_ok env"
  shows "poll_parse env n s = (if reported (rx_frame s @ behind env) n 0 = Some ''SYN'' then None else Some s)"
  by (rule parse_then_detect [OF assms(1-3), where epoch = "epoch_now env" and pos = 0
        and l = "junk env" and s = "syn_statics s"])
    (simp_all add: poll_parse_def assms(4))

lemma poll_deliver_total:
  assumes "alloc_ok env" and "n \<in> {1..RX_FRAME_SIZE}" and "n \<le> length (rx_frame s @ behind env)"
  obtains s' q where "poll_deliver env n s = Some s'" "rx_frame s' = rx_frame s"
    "net_log s' = net_log s @ Netif_input (Some q) # (if input_ok env (Some q) then [] else [Pbuf_free (Some q)])"
    "chain_ok q" "chain_bytes q = take n (rx_frame s @ behind env)"
proof -
  let ?d = "take n (rx_frame s @ behind env)"
  from assms(1) have "\<forall>n \<in> {1..RX_FRAME_SIZE}. \<exists>q. pbuf_alloc env n = Some q \<and> chain_ok q \<and>
      length (chain_bytes q) = n"
    unfolding alloc_ok_def by (rule conjunct2)
  from bspec [OF this assms(2)] obtain p where
    p: "pbuf_alloc env n = Some p" "chain_ok p" "length (chain_bytes p) = n" by blast
  have len: "length ?d = n" using assms(3) by simp
  have "p \<noteq> []" using p(3) assms(2) by auto
  with pbuf_take_bytes [OF p(2), of ?d] len p(3) obtain q where
    "pbuf_take p ?d = Some (Take_OK q)" "chain_ok q" "chain_bytes q = ?d"
    by (metis append_Nil2 drop_all order_refl)
  with p(1) show ?thesis
    by (intro that [of "s\<lparr>net_log := net_log s @ Netif_input (Some q) #
        (if input_ok env (Some q) then [] else [Pbuf_free (Some q)])\<rparr>" q])
      (simp_all add: poll_deliver_def)
qed

lemma poll_frame_delivers:
  assumes n: "ethernet_frame_length (rx_frame s @ behind env) RX_FRAME_SIZE = Some n"
    and "13 \<le> n" and "n + 22 \<le> length (rx_frame s @ behind env)" and "n \<le> RX_FRAME_SIZE"
    and "reported (rx_frame s @ behind env) n 0 \<noteq> Some ''SYN''" and "alloc_ok env"
  obtains s' q where "poll_frame env s = Some s'" "rx_busy s'"
    "net_log s' = net_log s @ Netif_input (Some q) # (if input_ok env (Some q) then [] else [Pbuf_free (Some q)])"
    "chain_ok q" "chain_bytes q = take n (rx_frame s @ behind env)"
proof -
  have lt: "n < 2 ^ 32" using assms(4) by (simp add: RX_FRAME_SIZE_def)
  have m: "malloc_ok env" using assms(6) by (simp add: alloc_ok_def)
  have in_range: "n \<in> {1..RX_FRAME_SIZE}" "n \<le> length (rx_frame s @ behind env)" using assms(2,3,4) by simp_all
  obtain s2 q where s2: "poll_deliver env n s = Some s2"
    "net_log s2 = net_log s @ Netif_input (Some q) # (if input_ok env (Some q) then [] else [Pbuf_free (Some q)])"
    "chain_ok q" "chain_bytes q = take n (rx_frame s @ behind env)"
    using poll_deliver_total [OF assms(6) in_range] by blast
  have "poll_frame env s = Some (rx_rearm s2)"
    using n s2(1) assms(2,5) by (simp add: poll_frame_def poll_parse_result [OF assms(2,3) lt m])
  with s2 show ?thesis by (intro that [of "rx_rearm s2" q]) (simp_all add: rx_rearm_def)
qed

text \<open>A frame whose first packet is a SYN packet: the poll runs into the undefined call of \<open>sscanf\<close>.\<close>

lemma poll_frame_syn:
  assumes "ethernet_frame_length (rx_frame s @ behind env) RX_FRAME_SIZE = Some n"
    and "13 \<le> n" and "n + 22 \<le> length (rx_frame s @ behind env)" and "n \<le> RX_FRAME_SIZE"
    and "reported (rx_frame s @ behind env) n 0 = Some ''SYN''" and "malloc_ok env"
  shows "poll_frame env s = None"
proof -
  have "n < 2 ^ 32" using assms(4) by (simp add: RX_FRAME_SIZE_def)
  then show ?thesis
    using assms(1,2,5) by (simp add: poll_frame_def poll_parse_result [OF assms(2,3) _ assms(6)])
qed

section \<open>The transceiver\<close>

lemma phy_scan_finds:
  assumes "whole_frames mp tr" and "\<forall>i \<in> set is. i < 32"
  shows "fst (phy_scan (phy_of mp regs) mp is (addr, tr)) =
      (case find (\<lambda>i. regs i 0 \<noteq> 0xffff) is of Some i \<Rightarrow> i | None \<Rightarrow> addr) \<and>
    whole_frames mp (snd (phy_scan (phy_of mp regs) mp is (addr, tr)))"
  using assms
proof (induction "is" arbitrary: tr)
  case (Cons i "is")
  obtain r tr' where rd: "mdio_read (phy_of mp regs) mp (of_nat i) 0 tr = (r, tr')"
    by (cases "mdio_read (phy_of mp regs) mp (of_nat i) 0 tr")
  with mdio_read_result [OF Cons.prems(1), of regs "of_nat i" 0] Cons.prems(2)
  have "r = regs i 0" and "whole_frames mp tr'" by (simp_all add: take_bit_5_address)
  with Cons.IH [of tr'] Cons.prems(2) rd show ?case by simp
qed simp

lemma poll_link_result:
  assumes "phy env = phy_of (mdio_pin_start (config s)) regs"
    and "whole_frames (mdio_pin_start (config s)) (pins s)" and "phy_address s < 32"
  shows "netif_is_link_up (poll_link env s) = bit (regs (phy_address s) 1) 2"
    and "net_log (poll_link env s) = net_log s @
      (if netif_is_link_up s = bit (regs (phy_address s) 1) 2 then []
       else [if bit (regs (phy_address s) 1) 2 then Set_link_up else Set_link_down])"
proof -
  let ?r = "regs (phy_address s) 1" and ?mp = "mdio_pin_start (config s)"
  obtain r tr where rd: "mdio_read (phy env) ?mp (of_nat (phy_address s)) 1 (pins s) = (r, tr)"
    by (cases "mdio_read (phy env) ?mp (of_nat (phy_address s)) 1 (pins s)")
  with mdio_read_result [OF assms(2), of regs "of_nat (phy_address s)" 1] assms(1,3)
  have r: "r = ?r" by (simp add: take_bit_5_address)
  have status: "drop_bit 2 (?r AND 4) = of_bool (bit ?r 2)"
  proof (rule bit_word_eqI)
    have "(4 :: u16) = push_bit 2 1" by simp
    then have four: "bit (4 :: u16) m \<longleftrightarrow> m = 2" for m
      by (simp only: bit_push_bit_iff bit_1_iff) auto
    fix n assume "n < LENGTH(16)"
    show "bit (drop_bit 2 (?r AND 4)) n = bit (of_bool (bit ?r 2) :: u16) n"
      by (cases n) (simp_all only: bit_drop_bit_eq comp_def bit_and_iff four bit_of_bool_iff, auto)
  qed
  have up: "(f OR 4) AND 4 \<noteq> (0 :: u8)" and down: "(f AND NOT 4) AND 4 = (0 :: u8)" for f
  proof -
    have "(f OR 4) AND 4 = (4 :: u8)" by (rule bit_word_eqI) (auto simp: bit_simps)
    then show "(f OR 4) AND 4 \<noteq> (0 :: u8)" by simp
    show "(f AND NOT 4) AND 4 = (0 :: u8)" by (rule bit_word_eqI) (auto simp: bit_simps)
  qed
  have up_iff: "netif_is_link_up (s\<lparr>pins := tr\<rparr>) = netif_is_link_up s"
    by (simp add: netif_is_link_up_def)
  have "poll_link env s = (if netif_is_link_up s = bit ?r 2 then s\<lparr>pins := tr\<rparr>
      else if bit ?r 2
      then s\<lparr>pins := tr, netif_flags := netif_flags s OR 4, net_log := net_log s @ [Set_link_up]\<rparr>
      else s\<lparr>pins := tr, netif_flags := netif_flags s AND NOT 4, net_log := net_log s @ [Set_link_down]\<rparr>)"
    unfolding poll_link_def rd Let_def prod.case r status up_iff
    by (cases "netif_is_link_up s"; cases "bit ?r 2") simp_all
  then show "netif_is_link_up (poll_link env s) = bit ?r 2"
    and "net_log (poll_link env s) = net_log s @ (if netif_is_link_up s = bit ?r 2 then []
       else [if bit ?r 2 then Set_link_up else Set_link_down])"
    using up [of "netif_flags s"] down [of "netif_flags s"] up_iff
    by (auto simp: netif_is_link_up_def)
qed

section \<open>Properties\<close>

text \<open>
  C15. From the driver's transmission to the next poll of a driver that receives it. A packet of at
  most 1496 octets, whatever it is cut into, is sent as its padded frame with a check value; the
  receiver gets it cut off anywhere behind the check value by the falling valid line. With the
  allocations of the poll succeeding and no shorter prefix of the frame followed by its own check
  value, the poll delivers exactly the frame to the network stack and arms the receiver again,
  unless the first TCP packet found in the frame has the flags SYN alone: then the poll is
  undefined, in the \<open>sscanf\<close> of \<open>detect_syn_flood\<close>. The sender takes packets of up to 1514 octets;
  those above 1496 do not fit, with the check value, the 1500 octets of the receiver's transfer,
  and the theorem says nothing about them.
\<close>

theorem wire_round_trip:
  assumes "tx_ok t" and "chain_ok p" and "length (chain_bytes p) \<le> 1496"
    and "frame = padded (chain_bytes p)"
    and "no_fcs_upto (frame @ uint_bytes (fcs frame)) (length frame - 1)"
    and "length (rx_frame s) = RX_FRAME_SIZE" and "alloc_ok env"
    and "48 + 4 * length frame \<le> k"
    and "buffer = frame @ uint_bytes (fcs frame) @
      replicate (RX_FRAME_SIZE - (length frame + 4)) 0 @ behind env"
  shows "\<exists>t' symbols r.
    netif_rmii_ethernet_output p t = Some t' \<and> tx_log t' = tx_log t @ [Tx_wait, Tx_start symbols] \<and>
    rx_octets (rmii_ethernet_phy_rx_data ([0, 0, 0] @ take k symbols)) (rx_rearm s) = Some r \<and>
    (case netif_rmii_ethernet_poll env
        (netif_rmii_ethernet_rx_dv_falling_callback (rx_pin_start (config s) + 2) r) of
       None \<Rightarrow> reported buffer (length frame) 0 = Some ''SYN''
     | Some s' \<Rightarrow> reported buffer (length frame) 0 \<noteq> Some ''SYN'' \<and> rx_busy s' \<and>
         (\<exists>q. Netif_input (Some q) \<in> set (net_log s') \<and> chain_bytes q = frame))"
proof -
  let ?symbols = "frame_symbols frame"
  have len: "length frame \<le> 1496" "60 \<le> length frame" using assms(3,4) by (simp_all add: length_padded)
  obtain t' where out: "netif_rmii_ethernet_output p t = Some t'"
    "tx_log t' = tx_log t @ [Tx_wait, Tx_start ?symbols]"
    using output_eq [OF assms(1,2) refl] assms(3,4) by simp
  obtain m where "length (take k ?symbols) = 32 + 4 * (length frame + 4) + m"
    using assms(8) by (intro that [of "min k (96 + 4 * length frame) - 48 - 4 * length frame"])
      (simp add: length_frame_symbols)
  from frame_received [OF this] have rx: "rmii_ethernet_phy_rx_data ([0, 0, 0] @ take k ?symbols) =
      frame @ uint_bytes (fcs frame) @ replicate (m div 4) 0" .
  have fits: "length frame + 4 \<le> RX_DMA_COUNT" using len by (simp add: RX_DMA_COUNT_def)
  let ?data = "rmii_ethernet_phy_rx_data ([0, 0, 0] @ take k ?symbols)"
  obtain r where r0: "rx_octets ?data (rx_rearm s) = Some r"
    "rx_frame r = take RX_DMA_COUNT ?data @ replicate (RX_FRAME_SIZE - min (length ?data) RX_DMA_COUNT) 0"
    "config r = config s" "syn_statics r = syn_statics s" "rx_ok r"
    by (rule rx_octets_rearm [OF assms(6)])
  note r = r0(1) r0(2) [unfolded buffer_after_frame [OF fits rx]]
  let ?low = "netif_rmii_ethernet_rx_dv_falling_callback (rx_pin_start (config s) + 2) r"
  define c where "c = poll_link env ?low"
  have c: "\<not> rx_busy c" "rx_frame c = rx_frame r"
    using r0(3) by (simp_all add: c_def netif_rmii_ethernet_rx_dv_falling_callback_def)
  have buf: "rx_frame c @ behind env = buffer" by (simp add: c(2) r(2) assms(9))
  have "frame \<noteq> []" "length frame \<le> RX_FRAME_SIZE" using len by (auto simp: RX_FRAME_SIZE_def)
  then have n: "ethernet_frame_length (rx_frame c @ behind env) RX_FRAME_SIZE = Some (length frame)"
    using frame_length_of_frame [OF assms(5)] by (simp add: c(2) r(2))
  have lens: "13 \<le> length frame" "length frame + 22 \<le> length (rx_frame c @ behind env)"
    using len by (simp_all add: c(2) r(2) RX_FRAME_SIZE_def)
  have m: "malloc_ok env" using assms(7) by (simp add: alloc_ok_def)
  have poll: "netif_rmii_ethernet_poll env ?low =
      map_option (\<lambda>s'. s'\<lparr>net_log := net_log s' @ [Check_timeouts]\<rparr>) (poll_frame env c)"
    unfolding netif_rmii_ethernet_poll_def c_def [symmetric] Let_def using c(1)
    by (cases "poll_frame env c") simp_all
  note common = exI [of _ t'] exI [of _ ?symbols] exI [of _ r] conjI [OF out(1)] conjI [OF out(2)] conjI [OF r(1)]
  show ?thesis
  proof (cases "reported buffer (length frame) 0 = Some ''SYN''")
    case True
    with poll_frame_syn [OF n lens \<open>length frame \<le> RX_FRAME_SIZE\<close> _ m] buf
    have "poll_frame env c = None" by simp
    then show ?thesis using True by (intro common) (simp only: poll option.simps)
  next
    case False
    then have "reported (rx_frame c @ behind env) (length frame) 0 \<noteq> Some ''SYN''" by (simp add: buf)
    from poll_frame_delivers [OF n lens \<open>length frame \<le> RX_FRAME_SIZE\<close> this assms(7)]
    obtain s' q where s': "poll_frame env c = Some s'" "rx_busy s'"
      "net_log s' = net_log c @ Netif_input (Some q) # (if input_ok env (Some q) then [] else [Pbuf_free (Some q)])"
      "chain_bytes q = take (length frame) (rx_frame c @ behind env)"
      by blast
    have "chain_bytes q = frame" using s'(4) by (simp add: c(2) r(2))
    with s' False show ?thesis by (intro common) (unfold poll, auto)
  qed
qed

text \<open>A driver at reset, in surroundings where allocation works.\<close>

definition eth_init :: eth_state where
  "eth_init = \<lparr>config = NETIF_RMII_ETHERNET_DEFAULT_CONFIG, rx_sm_offset = 0, tx_sm_offset = 0,
     rx_dma_config = \<lparr>dma_chan = 0, read_increment = True, write_increment = True, dreq_sm = 0,
       dreq_is_tx = False, data_size = 32\<rparr>,
     tx_dma_config = \<lparr>dma_chan = 0, read_increment = True, write_increment = True, dreq_sm = 0,
       dreq_is_tx = False, data_size = 32\<rparr>,
     hwaddr = replicate 6 0, hwaddr_len = 0, mtu = 0, netif_flags = 0, netif_name = [], pins = [],
     phy_address = 0, rx_frame = replicate RX_FRAME_SIZE 0, rx_pos = 0, rx_busy = False,
     rx_sm_enabled = False, rx_irq_enabled = False, syn_statics = syn_init, net_log = []\<rparr>"

definition demo_env :: "(nat \<Rightarrow> nat \<Rightarrow> u16) \<Rightarrow> eth_env" where
  "demo_env regs = \<lparr>phy = phy_of 14 regs, behind = [], epoch_now = 0, malloc_ok = True,
     junk = \<lparr>current_time = [], dest_ip = []\<rparr>,
     pbuf_alloc = (\<lambda>n. Some [\<lparr>payload = replicate n 0, tot_len = n\<rparr>]),
     input_ok = (\<lambda>p. True), rx_program_offset = 0, tx_program_offset = 7, first_dma_chan = 0,
     second_dma_chan = 1, board_id = [0xe6, 0x60, 0x58, 0x38, 0x83, 1, 2, 3]\<rparr>"

lemma alloc_ok_demo_env: "alloc_ok (demo_env regs)"
  by (auto simp: alloc_ok_def demo_env_def)

lemma rx_ok_init: "rx_ok eth_init"
  by (simp add: rx_ok_def eth_init_def)

lemma padded_demo_packet: "padded (chain_bytes demo_packet) = [0x11, 0x22, 0x33,
    0, 0, 0, 0, 0, 0, 0, 0, 0, 0, 0, 0, 0, 0, 0, 0, 0, 0, 0, 0, 0, 0, 0, 0, 0, 0, 0, 0, 0,
    0, 0, 0, 0, 0, 0, 0, 0, 0, 0, 0, 0, 0, 0, 0, 0, 0, 0, 0, 0, 0, 0, 0, 0, 0, 0, 0, 0]"
  by (simp add: padded_def demo_packet_def numeral_eq_Suc)

lemma demo_packet_no_early_fcs:
  "no_fcs_upto (padded (chain_bytes demo_packet) @ uint_bytes (fcs (padded (chain_bytes demo_packet)))) 59"
  by (rule no_fcs_upto_by_search)
    (simp add: padded_demo_packet ethernet_frame_length_def fcs_def crc_eval cong: if_weak_cong)

definition demo_buffer :: "u8 list \<Rightarrow> u8 list" where
  "demo_buffer f = f @ uint_bytes (fcs f) @ replicate (RX_FRAME_SIZE - (length f + 4)) 0 @
     behind (demo_env (\<lambda>_ _. 0))"

lemma demo_not_reported:
  "reported (demo_buffer (padded (chain_bytes demo_packet))) (length (padded (chain_bytes demo_packet))) 0 \<noteq>
    Some ''SYN''"
proof -
  let ?f = "padded (chain_bytes demo_packet)"
  have l: "length ?f = 60" by (simp add: length_padded demo_packet_def)
  have "tcp_flags_at (demo_buffer ?f) i = None" if "i < 47" for i
  proof -
    have "demo_buffer ?f ! i = ?f ! i" using that l by (simp add: demo_buffer_def nth_append)
    moreover have "?f ! i \<noteq> 8" using that
      by (simp add: padded_demo_packet nth_Cons split: nat.splits)
    ultimately show ?thesis by (simp add: tcp_flags_at_def tcp_at_def)
  qed
  then have "find (\<lambda>i. tcp_flags_at (demo_buffer ?f) i \<noteq> None) [0..<60 - 13] = None"
    by (simp add: find_None_iff)
  then show ?thesis unfolding reported_def l by (simp only: option.case) simp
qed

lemma wire_round_trip_witness:
  "\<exists>r s' q. rx_octets (rmii_ethernet_phy_rx_data ([0, 0, 0] @ frame_symbols (padded (chain_bytes demo_packet))))
      (rx_rearm eth_init) = Some r \<and>
    netif_rmii_ethernet_poll (demo_env (\<lambda>_ _. 0)) (netif_rmii_ethernet_rx_dv_falling_callback 8 r) = Some s' \<and>
    Netif_input (Some q) \<in> set (net_log s') \<and> chain_bytes q = padded (chain_bytes demo_packet)"
proof -
  let ?f = "padded (chain_bytes demo_packet)"
  have l: "length ?f = 60" by (simp add: length_padded demo_packet_def)
  have "tx_ok tx_init" "chain_ok demo_packet" "length (chain_bytes demo_packet) \<le> 1496"
    "length (rx_frame eth_init) = RX_FRAME_SIZE" "48 + 4 * length ?f \<le> 1000"
    "no_fcs_upto (?f @ uint_bytes (fcs ?f)) (length ?f - 1)"
    using demo_packet_no_early_fcs l
    by (simp_all add: tx_ok_def tx_init_def demo_packet_def eth_init_def)
  from wire_round_trip [OF this(1-3) refl this(6,4) alloc_ok_demo_env this(5) refl, of "\<lambda>_ _. 0"]
  obtain t' symbols r where *: "netif_rmii_ethernet_output demo_packet tx_init = Some t'"
    "tx_log t' = tx_log tx_init @ [Tx_wait, Tx_start symbols]"
    "rx_octets (rmii_ethernet_phy_rx_data ([0, 0, 0] @ take 1000 symbols)) (rx_rearm eth_init) = Some r"
    "case netif_rmii_ethernet_poll (demo_env (\<lambda>_ _. 0))
        (netif_rmii_ethernet_rx_dv_falling_callback (rx_pin_start (config eth_init) + 2) r) of
       None \<Rightarrow> reported (demo_buffer ?f) (length ?f) 0 = Some ''SYN''
     | Some s' \<Rightarrow> reported (demo_buffer ?f) (length ?f) 0 \<noteq> Some ''SYN'' \<and> rx_busy s' \<and>
         (\<exists>q. Netif_input (Some q) \<in> set (net_log s') \<and> chain_bytes q = ?f)"
    unfolding demo_buffer_def by blast
  from *(4) demo_not_reported obtain s' q where s': "netif_rmii_ethernet_poll (demo_env (\<lambda>_ _. 0))
      (netif_rmii_ethernet_rx_dv_falling_callback (rx_pin_start (config eth_init) + 2) r) = Some s'"
    "Netif_input (Some q) \<in> set (net_log s')" "chain_bytes q = ?f"
    by (auto split: option.splits)
  have "rx_pin_start (config eth_init) + 2 = 8"
    by (simp add: eth_init_def NETIF_RMII_ETHERNET_DEFAULT_CONFIG_def)
  moreover have "symbols = frame_symbols ?f"
    using *(1,2) output_eq [OF \<open>tx_ok tx_init\<close> \<open>chain_ok demo_packet\<close> refl]
      \<open>length (chain_bytes demo_packet) \<le> 1496\<close> by auto
  moreover have "length (frame_symbols ?f) \<le> 1000" by (simp add: length_frame_symbols l)
  ultimately show ?thesis using *(3) s' by (metis take_all)
qed

text \<open>
  C16. However octets, interrupts and polls interleave, the receive buffer keeps its size, the DMA
  channel stays inside it, everything behind its position is still zero, and the next octet can be
  stored.
\<close>

theorem rx_buffer_safe:
  assumes "eth_reachable s s'" and "rx_ok s"
  shows "rx_ok s' \<and> rx_dma_octet b s' \<noteq> None"
  using rx_ok_reachable [OF assms] rx_dma_octet_in [of s' b] by auto

lemma rx_buffer_safe_witness:
  "\<exists>s'. eth_reachable (rx_rearm eth_init) s' \<and> rx_frame s' ! 0 = 0x2a \<and> rx_ok s'"
proof -
  obtain s' where s': "rx_dma_octet 0x2a (rx_rearm eth_init) = Some s'" "rx_frame s' ! 0 = 0x2a"
    by (simp add: rx_dma_octet_def rx_rearm_def eth_init_def wr_def memset_def RX_FRAME_SIZE_def)
  have "rx_sm_enabled (rx_rearm eth_init)" by (simp add: rx_rearm_def)
  then have r: "eth_reachable (rx_rearm eth_init) s'"
    by (rule eth_reachable.step [OF eth_reachable.start eth_step.octet [OF _ s'(1)]])
  moreover have "rx_ok (rx_rearm eth_init)" by (rule rx_ok_rearm) (simp add: eth_init_def)
  ultimately show ?thesis using rx_buffer_safe [OF r] s'(2) by blast
qed

text \<open>
  C17. With a transceiver that follows the protocol, set-up finds the first address that answers
  (its register 0 is not all ones), keeps the old one when none does, and leaves on the wires, as
  the last two frames, the writes of registers 4 and 0 that start negotiation; afterwards every
  poll sets the link flag to bit 2 of register 1 and calls the stack exactly when it changes.
\<close>

theorem init_then_poll_tracks_link:
  assumes "phy env = phy_of (mdio_pin_start (config s)) regs"
    and "whole_frames (mdio_pin_start (config s)) (pins s)" and "phy_address s < 32"
    and "netif_rmii_ethernet_low_init env s = Some s1" and "poll_link env s1 = s2"
  shows "phy_address s1 = (case find (\<lambda>i. regs i 0 \<noteq> 0xffff) [0..<32] of Some i \<Rightarrow> i | None \<Rightarrow> phy_address s) \<and>
    (\<exists>before. sampled (wires_after (mdio_pin_start (config s)) (pins s1)) = before @
       map Some (write_frame (of_nat (phy_address s1)) 4 0x61) @
       map Some (write_frame (of_nat (phy_address s1)) 0 0x1000)) \<and>
    netif_is_link_up s2 = bit (regs (phy_address s1) 1) 2 \<and>
    net_log s2 = net_log s @ (if netif_is_link_up s2 then [Set_link_up] else [])"
proof -
  let ?mp = "mdio_pin_start (config s)"
  obtain a tr where scan: "phy_scan (phy env) ?mp [0..<32] (phy_address s, pins s) = (a, tr)"
    by (cases "phy_scan (phy env) ?mp [0..<32] (phy_address s, pins s)")
  have all: "\<forall>i \<in> set [0..<32]. i < (32 :: nat)" by simp
  from phy_scan_finds [OF assms(2) all, of regs "phy_address s"] scan assms(1) have
    a: "a = (case find (\<lambda>i. regs i 0 \<noteq> 0xffff) [0..<32] of Some i \<Rightarrow> i | None \<Rightarrow> phy_address s)"
    and whole: "whole_frames ?mp tr" by simp_all
  have "a < 32" using assms(3) by (auto simp: a find_Some_iff split: option.splits)
  from assms(4) scan have s1: "config s1 = config s" "phy_address s1 = a"
    "pins s1 = mdio_write ?mp (of_nat a) 0 0x1000 (mdio_write ?mp (of_nat a) 4 0x61 tr)"
    "net_log s1 = net_log s" "netif_flags s1 = NETIF_FLAGS_INIT"
    by (auto simp: netif_rmii_ethernet_low_init_def Let_def bind_eq_Some_conv)
  have down: "\<not> netif_is_link_up s1"
    by (simp add: netif_is_link_up_def s1 NETIF_FLAGS_INIT_def)
  have "phy env = phy_of (mdio_pin_start (config s1)) regs"
    "whole_frames (mdio_pin_start (config s1)) (pins s1)" "phy_address s1 < 32"
    using assms(1) whole \<open>a < 32\<close> by (simp_all add: s1 mdio_write_whole_frames)
  note link = poll_link_result [OF this]
  have "\<exists>before. sampled (wires_after ?mp (pins s1)) = before @
       map Some (write_frame (of_nat a) 4 0x61) @ map Some (write_frame (of_nat a) 0 0x1000)"
    by (simp add: s1 sampled_mdio_write)
  with link down assms(5) show ?thesis by (auto simp: s1 a)
qed

lemma init_then_poll_tracks_link_witness:
  "\<exists>s1. netif_rmii_ethernet_low_init (demo_env (\<lambda>a r. if a = 1 then 0x7 else 0xffff)) eth_init = Some s1 \<and>
     phy_address s1 = 1 \<and>
     netif_is_link_up (poll_link (demo_env (\<lambda>a r. if a = 1 then 0x7 else 0xffff)) s1)"
proof -
  let ?regs = "\<lambda>a r :: nat. if a = (1 :: nat) then 0x7 else (0xffff :: u16)"
  have "\<exists>s1. netif_rmii_ethernet_low_init (demo_env ?regs) eth_init = Some s1"
    by (simp add: netif_rmii_ethernet_low_init_def Let_def init_hwaddr_def demo_env_def eth_init_def
        NETIF_RMII_ETHERNET_DEFAULT_CONFIG_def split_def)
  then obtain s1 where s1: "netif_rmii_ethernet_low_init (demo_env ?regs) eth_init = Some s1" ..
  have "phy (demo_env ?regs) = phy_of (mdio_pin_start (config eth_init)) ?regs"
    "whole_frames (mdio_pin_start (config eth_init)) (pins eth_init)" "phy_address eth_init < 32"
    by (simp_all add: demo_env_def eth_init_def NETIF_RMII_ETHERNET_DEFAULT_CONFIG_def)
  from init_then_poll_tracks_link [OF this s1 refl] s1 show ?thesis
    by (simp add: upt_rec)
qed

end
