(* ===== verification/Main_Program.thy ===== *)
theory Main_Program
  imports Web_Server Sd_Files Rmii_Ethernet
begin

text \<open>
  The two programs of the repository: \<open>main.c\<close> of \<open>Attempted_Final_Integration\<close> and of
  \<open>Working_Partial_Integration/Web_Server\<close>. Each is its list of calls, run one by one; a call that
  never returns makes the run \<^term>\<open>None\<close> or ends it in an endless loop.
\<close>

text \<open>The calls of the two programs; those commented out in the sources are listed as well.\<close>

datatype main_call =
    Stdio_init | Lwip_init | Init_wifi | Sleep_ms nat | Sd_card_init | Http_server_init
  | Clock_configure_gpin nat nat nat | Set_link_callback | Set_status_callback | Set_default | Set_up
  | Netif_rmii_ethernet_init eth_config | Core1_netif_rmii_ethernet_loop | Dhcp_start | Httpd_init

datatype main_end = Idle_loop | Stuck | Exited nat

definition netif_config :: eth_config where
  "netif_config = \<lparr>pio_sm_start = 0, rx_pin_start = 6, tx_pin_start = 10, mdio_pin_start = 14, mac_addr = None\<rparr>"

definition services :: "main_call list" where
  "services = [Stdio_init, Lwip_init, Init_wifi, Sleep_ms 5000, Sd_card_init, Http_server_init, Sleep_ms 5000]"

definition main_attempted :: "main_call list" where
  "main_attempted = services @ [Clock_configure_gpin 20 50000000 50000000, Sleep_ms 100] @ services @
     [Set_link_callback, Set_status_callback, Set_default, Set_up]"

definition main_web_server :: "main_call list" where
  "main_web_server = [Stdio_init, Init_wifi, Sd_card_init, Http_server_init]"

text \<open>What a run depends on: for the \<open>k\<close>-th call, whether it succeeds.\<close>

record main_env =
  wifi_join_at :: "nat \<Rightarrow> nat \<Rightarrow> bool"
  sd_driver_ok_at :: "nat \<Rightarrow> bool"
  http_init_at :: "nat \<Rightarrow> init_result"

fun run_main :: "main_env \<Rightarrow> nat \<Rightarrow> main_call list \<Rightarrow> (main_call list \<times> main_end) option" where
  "run_main env k [] = Some ([], Idle_loop)"
| "run_main env k (c # cs) =
     (case c of
        Init_wifi \<Rightarrow> do {
          _ \<leftarrow> initWifi (wifi_join_at env k);
          map_option (apfst (Cons c)) (run_main env (k + 1) cs)
        }
      | Sd_card_init \<Rightarrow>
          (case sd_card_init (sd_driver_ok_at env k) of
             Hang \<Rightarrow> Some ([c], Stuck)
           | Returns _ \<Rightarrow> map_option (apfst (Cons c)) (run_main env (k + 1) cs))
      | Http_server_init \<Rightarrow>
          (case http_init_at env k of
             Exit e \<Rightarrow> Some ([c], Exited e)
           | Listening _ \<Rightarrow> map_option (apfst (Cons c)) (run_main env (k + 1) cs))
      | _ \<Rightarrow> map_option (apfst (Cons c)) (run_main env (k + 1) cs))"

definition link_message :: "eth_state \<Rightarrow> string" where
  "link_message s = ''netif link status changed '' @ (if netif_is_link_up s then ''up'' else ''down'')"

lemma run_main_prefix:
  "run_main env k cs = Some (done, e) \<Longrightarrow> \<exists>rest. cs = done @ rest \<and> (e = Idle_loop \<longrightarrow> rest = [])"
proof (induction cs arbitrary: k "done" e)
  case (Cons c cs)
  have step: "\<exists>rest. c # cs = done @ rest \<and> (e = Idle_loop \<longrightarrow> rest = [])"
    if "map_option (apfst (Cons c)) (run_main env (k + 1) cs) = Some (done, e)"
    using that Cons.IH by (cases "run_main env (k + 1) cs") auto
  show ?case
    using Cons.prems step
    by (auto split: main_call.splits outcome.splits init_result.splits simp: bind_eq_Some_conv)
qed simp

text \<open>The attempted integration never starts the Ethernet driver, and so never captures a packet.\<close>

lemma main_never_starts_ethernet:
  assumes "run_main env k main_attempted = Some (done, e)"
  shows "Netif_rmii_ethernet_init cfg \<notin> set done \<and> Core1_netif_rmii_ethernet_loop \<notin> set done"
proof -
  obtain rest where r: "main_attempted = done @ rest" using run_main_prefix [OF assms] by blast
  have "Netif_rmii_ethernet_init cfg \<notin> set main_attempted" "Core1_netif_rmii_ethernet_loop \<notin> set main_attempted"
    by (simp_all add: main_attempted_def services_def)
  then show ?thesis unfolding r by simp
qed

end
