(* ===== verification/Sd_Spi.thy ===== *)
theory Sd_Spi
  imports Prelude
begin

text \<open>
  The SPI layer of the SD driver: \<open>sd_driver/spi.c\<close> with its DMA transfers, \<open>sd_driver/sd_spi.c\<close>
  and the tables of \<open>sd_driver/hw_config.c\<close>. The world outside of the processor is a state \<open>'c\<close>
  that the calls of the SDK change (\<open>'c hw\<close>); \<^term>\<open>None\<close> is a failed assertion or a wait without
  end, both of which stop the firmware, or an access outside of a buffer.
\<close>

section \<open>The SDK and the bus\<close>

datatype dma_outcome = In_time | Late | Never

text \<open>Calls of the SDK that set the peripherals up, and the request lines of the DMA.\<close>

datatype sdk_call =
    Spi_init nat nat
  | Spi_set_format nat nat nat nat bool
  | Gpio_function_spi nat
  | Irq_handler nat
  | Dma_irq0_enable nat
  | Irq_enable

datatype dreq = DREQ_FORCE | DREQ_SPI0_TX | DREQ_SPI0_RX | DREQ_SPI1_TX | DREQ_SPI1_RX

record channel_config =
  data_bits :: nat
  dreq_line :: dreq
  read_increment :: bool
  write_increment :: bool

text \<open>
  \<open>xfer\<close> exchanges one octet; \<open>dma_done\<close> says whether the transfer started next completes within
  the second the driver waits, later, or never; \<open>clock_us\<close> is the timer. \<open>pin_dir\<close> makes a pin
  an output (\<^term>\<open>True\<close>) or an input; \<open>claim_dma\<close> is \<open>dma_claim_unused_channel(true)\<close>.
\<close>

record 'c hw =
  xfer :: "u8 \<Rightarrow> 'c \<Rightarrow> u8 \<times> 'c"
  dma_done :: "'c \<Rightarrow> dma_outcome"
  pin_init :: "nat \<Rightarrow> 'c \<Rightarrow> 'c"
  pin_pull_up :: "nat \<Rightarrow> 'c \<Rightarrow> 'c"
  pin_dir :: "nat \<Rightarrow> bool \<Rightarrow> 'c \<Rightarrow> 'c"
  pin_put :: "nat \<Rightarrow> bool \<Rightarrow> 'c \<Rightarrow> 'c"
  pin_get :: "nat \<Rightarrow> 'c \<Rightarrow> bool"
  clock_us :: "'c \<Rightarrow> nat"
  busy_wait_us :: "nat \<Rightarrow> 'c \<Rightarrow> 'c"
  set_baudrate :: "nat \<Rightarrow> nat \<Rightarrow> 'c \<Rightarrow> 'c"
  claim_dma :: "'c \<Rightarrow> nat \<times> 'c"
  default_config :: channel_config
  sdk :: "sdk_call \<Rightarrow> 'c \<Rightarrow> 'c"

definition SPI_FILL_CHAR :: u8 where "SPI_FILL_CHAR = 0xFF"
definition XFER_BLOCK_SIZE :: nat where "XFER_BLOCK_SIZE = 512"

definition LED_PIN :: nat where "LED_PIN = 25"

text \<open>\<open>spi_t\<close>; the instance is its number. The semaphore counts to one.\<close>

record spi_state =
  hw_inst :: nat
  miso_gpio :: nat
  mosi_gpio :: nat
  sck_gpio :: nat
  baud_rate :: nat
  tx_dma :: nat
  rx_dma :: nat
  tx_dma_cfg :: channel_config
  rx_dma_cfg :: channel_config
  initialized :: bool
  sem :: nat

text \<open>\<open>sd_card_t\<close>, with its bus.\<close>

record 'c sd_card =
  pcName :: string
  spi :: spi_state
  ss_gpio :: nat
  card_detect_gpio :: nat
  card_detected_true :: u32
  m_Status :: u32
  sectors :: u64
  card_type :: nat
  bus :: 'c

definition STA_NOINIT :: u32 where "STA_NOINIT = 0x01"
definition STA_NODISK :: u32 where "STA_NODISK = 0x02"

section \<open>\<open>spi.c\<close>\<close>

fun xfer_all :: "'c hw \<Rightarrow> u8 list \<Rightarrow> 'c \<Rightarrow> u8 list \<times> 'c" where
  "xfer_all hw [] c = ([], c)"
| "xfer_all hw (b # bs) c =
     (let (r, c) = xfer hw b c; (rs, c) = xfer_all hw bs c in (r # rs, c))"

text \<open>\<open>spi_irq_handler\<close> releases the semaphore, which holds at most one.\<close>

definition spi_irq_handler :: "spi_state \<Rightarrow> spi_state" where
  "spi_irq_handler s = s\<lparr>sem := 1\<rparr>"

text \<open>
  \<open>spi_transfer\<close>: \<open>tx\<close> is \<^term>\<open>None\<close> for a null pointer, the fill character is sent then; \<open>rx\<close> says
  whether the received data are wanted. The semaphore may still be up from a transfer that
  completed late: then the wait returns at once and the two waits for the channels do the waiting.
\<close>

definition spi_transfer ::
  "'c hw \<Rightarrow> u8 list option \<Rightarrow> bool \<Rightarrow> nat \<Rightarrow> spi_state \<Rightarrow> 'c \<Rightarrow> (bool \<times> u8 list \<times> spi_state \<times> 'c) option" where
  "spi_transfer hw tx rx len s c =
     (if len \<noteq> 512 \<or> (tx = None \<and> \<not> rx) then None
      else if (case tx of Some bs \<Rightarrow> length bs < XFER_BLOCK_SIZE | None \<Rightarrow> False) then None
      else
        let s = s\<lparr>tx_dma_cfg := (tx_dma_cfg s)\<lparr>read_increment := tx \<noteq> None\<rparr>,
                  rx_dma_cfg := (rx_dma_cfg s)\<lparr>write_increment := rx\<rparr>\<rparr>;
            src = (case tx of Some bs \<Rightarrow> take XFER_BLOCK_SIZE bs
                   | None \<Rightarrow> replicate XFER_BLOCK_SIZE SPI_FILL_CHAR);
            (rs, c') = xfer_all hw src c;
            stored = (if rx then rs else [])
        in if 0 < sem s
           then (case dma_done hw c of
                   Never \<Rightarrow> None
                 | _ \<Rightarrow> Some (True, stored, spi_irq_handler (s\<lparr>sem := sem s - 1\<rparr>), c'))
           else (case dma_done hw c of
                   In_time \<Rightarrow> Some (True, stored, (spi_irq_handler s)\<lparr>sem := 0\<rparr>, c')
                 | Late \<Rightarrow> Some (False, stored, spi_irq_handler s, c')
                 | Never \<Rightarrow> Some (False, [], s, c)))"

text \<open>
  \<open>my_spi_init\<close> sets the peripheral up once: the clock at 100 kHz and the format, the pins, two
  channels of octets paced by the peripheral, the interrupt at the end of a reception, the LED.
\<close>

definition LED_INIT :: "'c hw \<Rightarrow> 'c \<Rightarrow> 'c" where
  "LED_INIT hw c = pin_dir hw LED_PIN True (pin_init hw LED_PIN c)"

definition my_spi_init :: "'c hw \<Rightarrow> spi_state \<Rightarrow> 'c \<Rightarrow> bool \<times> spi_state \<times> 'c" where
  "my_spi_init hw s c =
     (if initialized s then (True, s, c)
      else
        let s = s\<lparr>initialized := True, sem := 0\<rparr>;
            c = sdk hw (Spi_init (hw_inst s) (100 * 1000)) c;
            c = sdk hw (Spi_set_format (hw_inst s) 8 0 0 True) c;
            c = sdk hw (Gpio_function_spi (miso_gpio s)) c;
            c = sdk hw (Gpio_function_spi (mosi_gpio s)) c;
            c = sdk hw (Gpio_function_spi (sck_gpio s)) c;
            c = pin_pull_up hw (miso_gpio s) c;
            (tx, c) = claim_dma hw c;
            (rx, c) = claim_dma hw c;
            s = s\<lparr>tx_dma := tx, rx_dma := rx,
                  tx_dma_cfg := (default_config hw)\<lparr>data_bits := 8,
                    dreq_line := if hw_inst s \<noteq> 0 then DREQ_SPI1_TX else DREQ_SPI0_TX,
                    write_increment := False\<rparr>,
                  rx_dma_cfg := (default_config hw)\<lparr>data_bits := 8,
                    dreq_line := if hw_inst s \<noteq> 0 then DREQ_SPI1_RX else DREQ_SPI0_RX,
                    read_increment := False\<rparr>\<rparr>;
            c = sdk hw (Irq_handler (hw_inst s)) c;
            c = sdk hw (Dma_irq0_enable (rx_dma s)) c;
            c = sdk hw Irq_enable c;
            c = LED_INIT hw c
        in (True, s, c))"

section \<open>\<open>sd_spi.c\<close>\<close>

definition sd_spi_go_high_frequency :: "'c hw \<Rightarrow> 'c sd_card \<Rightarrow> 'c sd_card" where
  "sd_spi_go_high_frequency hw s = s\<lparr>bus := set_baudrate hw (hw_inst (spi s)) (baud_rate (spi s)) (bus s)\<rparr>"

definition sd_spi_go_low_frequency :: "'c hw \<Rightarrow> 'c sd_card \<Rightarrow> 'c sd_card" where
  "sd_spi_go_low_frequency hw s = s\<lparr>bus := set_baudrate hw (hw_inst (spi s)) (100 * 1000) (bus s)\<rparr>"

definition sd_spi_write :: "'c hw \<Rightarrow> u8 \<Rightarrow> 'c sd_card \<Rightarrow> u8 \<times> 'c sd_card" where
  "sd_spi_write hw value s = (let (r, c) = xfer hw value (bus s) in (r, s\<lparr>bus := c\<rparr>))"

text \<open>Selecting and deselecting the card, with a fill octet before and after; the LED shows it.\<close>

definition sd_spi_select :: "'c hw \<Rightarrow> 'c sd_card \<Rightarrow> 'c sd_card" where
  "sd_spi_select hw s =
     (let s = snd (sd_spi_write hw SPI_FILL_CHAR s);
          s = s\<lparr>bus := pin_put hw (ss_gpio s) False (bus s)\<rparr>;
          s = snd (sd_spi_write hw SPI_FILL_CHAR s)
      in s\<lparr>bus := pin_put hw LED_PIN True (bus s)\<rparr>)"

definition sd_spi_deselect :: "'c hw \<Rightarrow> 'c sd_card \<Rightarrow> 'c sd_card" where
  "sd_spi_deselect hw s =
     (let s = snd (sd_spi_write hw SPI_FILL_CHAR s);
          s = s\<lparr>bus := pin_put hw (ss_gpio s) True (bus s)\<rparr>;
          s = s\<lparr>bus := pin_put hw LED_PIN False (bus s)\<rparr>
      in snd (sd_spi_write hw SPI_FILL_CHAR s))"

definition sd_spi_acquire :: "'c hw \<Rightarrow> 'c sd_card \<Rightarrow> 'c sd_card" where
  "sd_spi_acquire hw s = sd_spi_select hw s"

definition sd_spi_release :: "'c hw \<Rightarrow> 'c sd_card \<Rightarrow> 'c sd_card" where
  "sd_spi_release hw s = sd_spi_deselect hw s"

definition sd_spi_transfer ::
  "'c hw \<Rightarrow> u8 list option \<Rightarrow> bool \<Rightarrow> nat \<Rightarrow> 'c sd_card \<Rightarrow> (bool \<times> u8 list \<times> 'c sd_card) option" where
  "sd_spi_transfer hw tx rx len s =
     map_option (\<lambda>(ok, rs, sp, c). (ok, rs, s\<lparr>spi := sp, bus := c\<rparr>)) (spi_transfer hw tx rx len (spi s) (bus s))"

section \<open>\<open>hw_config.c\<close>\<close>

definition spis :: spi_state where
  "spis = \<lparr>hw_inst = 1, miso_gpio = 12, mosi_gpio = 11, sck_gpio = 10, baud_rate = 5000 * 1000,
     tx_dma = 0, rx_dma = 0,
     tx_dma_cfg = \<lparr>data_bits = 0, dreq_line = DREQ_FORCE, read_increment = False, write_increment = False\<rparr>,
     rx_dma_cfg = \<lparr>data_bits = 0, dreq_line = DREQ_FORCE, read_increment = False, write_increment = False\<rparr>,
     initialized = False, sem = 0\<rparr>"

definition sd_cards :: "'c \<Rightarrow> 'c sd_card list" where
  "sd_cards c = [\<lparr>pcName = ''0:'', spi = spis, ss_gpio = 15, card_detect_gpio = 22,
     card_detected_true = -1, m_Status = STA_NOINIT, sectors = 0, card_type = 0, bus = c\<rparr>]"

text \<open>A pointer into the table: an element, one behind the end, or null.\<close>

datatype card_ptr = Card nat | Past_end | Null_card

definition sd_get_num :: "'c sd_card list \<Rightarrow> nat" where
  "sd_get_num cards = length cards"

definition sd_get_by_num :: "'c sd_card list \<Rightarrow> nat \<Rightarrow> card_ptr" where
  "sd_get_by_num cards num =
     (if num \<le> sd_get_num cards then (if num < length cards then Card num else Past_end) else Null_card)"

fun sd_get_by_name :: "'c sd_card list \<Rightarrow> string \<Rightarrow> nat \<Rightarrow> card_ptr" where
  "sd_get_by_name [] name i = Null_card"
| "sd_get_by_name (c # cs) name i = (if pcName c = name then Card i else sd_get_by_name cs name (i + 1))"

definition spi_get_num :: nat where
  "spi_get_num = 1"

definition spi_get_by_num :: "'c sd_card list \<Rightarrow> nat \<Rightarrow> card_ptr" where
  "spi_get_by_num cards num =
     (if num \<le> sd_get_num cards then (if num < spi_get_num then Card num else Past_end) else Null_card)"

section \<open>Frame lemmas\<close>

lemma sd_spi_write_fields [simp]:
  "card_type (snd (sd_spi_write hw b s)) = card_type s" "m_Status (snd (sd_spi_write hw b s)) = m_Status s"
  "sectors (snd (sd_spi_write hw b s)) = sectors s" "spi (snd (sd_spi_write hw b s)) = spi s"
  by (simp_all add: sd_spi_write_def split_def Let_def)

lemma length_xfer_all: "length (fst (xfer_all hw bs c)) = length bs"
  by (induction bs arbitrary: c) (simp_all add: split_def Let_def)

lemma xfer_all_append:
  "xfer_all hw (as @ bs) c =
     (let (rs, c) = xfer_all hw as c; (rs', c) = xfer_all hw bs c in (rs @ rs', c))"
  by (induction as arbitrary: c) (simp_all add: split_def Let_def)

text \<open>A transfer that succeeds exchanges the whole block, whatever the semaphore held.\<close>

lemma spi_transfer_ok:
  assumes "spi_transfer hw tx rx len s c = Some (True, rs, s', c')"
  shows "len = 512 \<and> snd (xfer_all hw (case tx of Some bs \<Rightarrow> take 512 bs
      | None \<Rightarrow> replicate 512 SPI_FILL_CHAR) c) = c' \<and>
    rs = (if rx then fst (xfer_all hw (case tx of Some bs \<Rightarrow> take 512 bs
      | None \<Rightarrow> replicate 512 SPI_FILL_CHAR) c) else []) \<and>
    (\<forall>bs. tx = Some bs \<longrightarrow> 512 \<le> length bs) \<and> sem s' \<le> 1"
  using assms
  by (auto simp: spi_transfer_def XFER_BLOCK_SIZE_def Let_def spi_irq_handler_def
      split: if_splits prod.splits dma_outcome.splits option.splits)

end
