(* ===== verification/Sd_Crc.thy ===== *)
theory Sd_Crc
  imports Crc_Register
begin

text \<open>
  The checksums of the SD protocol, \<open>sd_driver/crc.c\<close>: the two tables and the functions \<open>crc7\<close>,
  \<open>crc16\<close> and \<open>update_crc16\<close>. Plain \<open>char\<close> is unsigned on the target.

  The lemmas show that the tables are the byte steps of the polynomial divisions by
  \<open>x^7 + x^3 + 1\<close> and \<open>x^16 + x^12 + x^5 + 1\<close>, and that the functions are checking registers in the
  sense of \<^theory_text>\<open>Crc_Register\<close>.
\<close>

section \<open>The model\<close>

definition m_Crc7Table :: "u8 list" where
  "m_Crc7Table =
    [0x00, 0x09, 0x12, 0x1B, 0x24, 0x2D, 0x36, 0x3F, 0x48, 0x41, 0x5A, 0x53, 0x6C, 0x65, 0x7E, 0x77,
     0x19, 0x10, 0x0B, 0x02, 0x3D, 0x34, 0x2F, 0x26, 0x51, 0x58, 0x43, 0x4A, 0x75, 0x7C, 0x67, 0x6E,
     0x32, 0x3B, 0x20, 0x29, 0x16, 0x1F, 0x04, 0x0D, 0x7A, 0x73, 0x68, 0x61, 0x5E, 0x57, 0x4C, 0x45,
     0x2B, 0x22, 0x39, 0x30, 0x0F, 0x06, 0x1D, 0x14, 0x63, 0x6A, 0x71, 0x78, 0x47, 0x4E, 0x55, 0x5C,
     0x64, 0x6D, 0x76, 0x7F, 0x40, 0x49, 0x52, 0x5B, 0x2C, 0x25, 0x3E, 0x37, 0x08, 0x01, 0x1A, 0x13,
     0x7D, 0x74, 0x6F, 0x66, 0x59, 0x50, 0x4B, 0x42, 0x35, 0x3C, 0x27, 0x2E, 0x11, 0x18, 0x03, 0x0A,
     0x56, 0x5F, 0x44, 0x4D, 0x72, 0x7B, 0x60, 0x69, 0x1E, 0x17, 0x0C, 0x05, 0x3A, 0x33, 0x28, 0x21,
     0x4F, 0x46, 0x5D, 0x54, 0x6B, 0x62, 0x79, 0x70, 0x07, 0x0E, 0x15, 0x1C, 0x23, 0x2A, 0x31, 0x38,
     0x41, 0x48, 0x53, 0x5A, 0x65, 0x6C, 0x77, 0x7E, 0x09, 0x00, 0x1B, 0x12, 0x2D, 0x24, 0x3F, 0x36,
     0x58, 0x51, 0x4A, 0x43, 0x7C, 0x75, 0x6E, 0x67, 0x10, 0x19, 0x02, 0x0B, 0x34, 0x3D, 0x26, 0x2F,
     0x73, 0x7A, 0x61, 0x68, 0x57, 0x5E, 0x45, 0x4C, 0x3B, 0x32, 0x29, 0x20, 0x1F, 0x16, 0x0D, 0x04,
     0x6A, 0x63, 0x78, 0x71, 0x4E, 0x47, 0x5C, 0x55, 0x22, 0x2B, 0x30, 0x39, 0x06, 0x0F, 0x14, 0x1D,
     0x25, 0x2C, 0x37, 0x3E, 0x01, 0x08, 0x13, 0x1A, 0x6D, 0x64, 0x7F, 0x76, 0x49, 0x40, 0x5B, 0x52,
     0x3C, 0x35, 0x2E, 0x27, 0x18, 0x11, 0x0A, 0x03, 0x74, 0x7D, 0x66, 0x6F, 0x50, 0x59, 0x42, 0x4B,
     0x17, 0x1E, 0x05, 0x0C, 0x33, 0x3A, 0x21, 0x28, 0x5F, 0x56, 0x4D, 0x44, 0x7B, 0x72, 0x69, 0x60,
     0x0E, 0x07, 0x1C, 0x15, 0x2A, 0x23, 0x38, 0x31, 0x46, 0x4F, 0x54, 0x5D, 0x62, 0x6B, 0x70, 0x79]"

definition m_Crc16Table :: "u16 list" where
  "m_Crc16Table =
    [0x0000, 0x1021, 0x2042, 0x3063, 0x4084, 0x50A5, 0x60C6, 0x70E7, 0x8108, 0x9129, 0xA14A, 0xB16B,
     0xC18C, 0xD1AD, 0xE1CE, 0xF1EF, 0x1231, 0x0210, 0x3273, 0x2252, 0x52B5, 0x4294, 0x72F7, 0x62D6,
     0x9339, 0x8318, 0xB37B, 0xA35A, 0xD3BD, 0xC39C, 0xF3FF, 0xE3DE, 0x2462, 0x3443, 0x0420, 0x1401,
     0x64E6, 0x74C7, 0x44A4, 0x5485, 0xA56A, 0xB54B, 0x8528, 0x9509, 0xE5EE, 0xF5CF, 0xC5AC, 0xD58D,
     0x3653, 0x2672, 0x1611, 0x0630, 0x76D7, 0x66F6, 0x5695, 0x46B4, 0xB75B, 0xA77A, 0x9719, 0x8738,
     0xF7DF, 0xE7FE, 0xD79D, 0xC7BC, 0x48C4, 0x58E5, 0x6886, 0x78A7, 0x0840, 0x1861, 0x2802, 0x3823,
     0xC9CC, 0xD9ED, 0xE98E, 0xF9AF, 0x8948, 0x9969, 0xA90A, 0xB92B, 0x5AF5, 0x4AD4, 0x7AB7, 0x6A96,
     0x1A71, 0x0A50, 0x3A33, 0x2A12, 0xDBFD, 0xCBDC, 0xFBBF, 0xEB9E, 0x9B79, 0x8B58, 0xBB3B, 0xAB1A,
     0x6CA6, 0x7C87, 0x4CE4, 0x5CC5, 0x2C22, 0x3C03, 0x0C60, 0x1C41, 0xEDAE, 0xFD8F, 0xCDEC, 0xDDCD,
     0xAD2A, 0xBD0B, 0x8D68, 0x9D49, 0x7E97, 0x6EB6, 0x5ED5, 0x4EF4, 0x3E13, 0x2E32, 0x1E51, 0x0E70,
     0xFF9F, 0xEFBE, 0xDFDD, 0xCFFC, 0xBF1B, 0xAF3A, 0x9F59, 0x8F78, 0x9188, 0x81A9, 0xB1CA, 0xA1EB,
     0xD10C, 0xC12D, 0xF14E, 0xE16F, 0x1080, 0x00A1, 0x30C2, 0x20E3, 0x5004, 0x4025, 0x7046, 0x6067,
     0x83B9, 0x9398, 0xA3FB, 0xB3DA, 0xC33D, 0xD31C, 0xE37F, 0xF35E, 0x02B1, 0x1290, 0x22F3, 0x32D2,
     0x4235, 0x5214, 0x6277, 0x7256, 0xB5EA, 0xA5CB, 0x95A8, 0x8589, 0xF56E, 0xE54F, 0xD52C, 0xC50D,
     0x34E2, 0x24C3, 0x14A0, 0x0481, 0x7466, 0x6447, 0x5424, 0x4405, 0xA7DB, 0xB7FA, 0x8799, 0x97B8,
     0xE75F, 0xF77E, 0xC71D, 0xD73C, 0x26D3, 0x36F2, 0x0691, 0x16B0, 0x6657, 0x7676, 0x4615, 0x5634,
     0xD94C, 0xC96D, 0xF90E, 0xE92F, 0x99C8, 0x89E9, 0xB98A, 0xA9AB, 0x5844, 0x4865, 0x7806, 0x6827,
     0x18C0, 0x08E1, 0x3882, 0x28A3, 0xCB7D, 0xDB5C, 0xEB3F, 0xFB1E, 0x8BF9, 0x9BD8, 0xABBB, 0xBB9A,
     0x4A75, 0x5A54, 0x6A37, 0x7A16, 0x0AF1, 0x1AD0, 0x2AB3, 0x3A92, 0xFD2E, 0xED0F, 0xDD6C, 0xCD4D,
     0xBDAA, 0xAD8B, 0x9DE8, 0x8DC9, 0x7C26, 0x6C07, 0x5C64, 0x4C45, 0x3CA2, 0x2C83, 0x1CE0, 0x0CC1,
     0xEF1F, 0xFF3E, 0xCF5D, 0xDF7C, 0xAF9B, 0xBFBA, 0x8FD9, 0x9FF8, 0x6E17, 0x7E36, 0x4E55, 0x5E74,
     0x2E93, 0x3EB2, 0x0ED1, 0x1EF0]"

text \<open>One round of \<open>crc = m_Crc7Table[(crc << 1) ^ data[i]]\<close>; the index is an \<open>int\<close>.\<close>

definition crc7_step :: "u8 \<Rightarrow> u8 \<Rightarrow> u8 option" where
  "crc7_step crc b = rd m_Crc7Table (unat (push_bit 1 (ucast crc :: u32) XOR ucast b))"

fun crc7_loop :: "u8 list \<Rightarrow> nat \<Rightarrow> u8 \<Rightarrow> u8 option" where
  "crc7_loop data 0 crc = Some crc"
| "crc7_loop [] (Suc n) crc = None"
| "crc7_loop (b # data) (Suc n) crc = do { crc \<leftarrow> crc7_step crc b; crc7_loop data n crc }"

definition crc7 :: "u8 list \<Rightarrow> nat \<Rightarrow> u8 option" where
  "crc7 data len = crc7_loop data len 0"

text \<open>\<open>crc = (crc << 8) ^ m_Crc16Table[((crc >> 8) ^ data[i]) & 0x00FF]\<close>.\<close>

definition crc16_step :: "u16 \<Rightarrow> u8 \<Rightarrow> u16" where
  "crc16_step crc b =
     push_bit 8 crc XOR m_Crc16Table ! unat ((drop_bit 8 (ucast crc :: u32) XOR ucast b) AND 0x00FF)"

fun crc16_loop :: "u8 list \<Rightarrow> nat \<Rightarrow> u16 \<Rightarrow> u16 option" where
  "crc16_loop data 0 crc = Some crc"
| "crc16_loop [] (Suc n) crc = None"
| "crc16_loop (b # data) (Suc n) crc = crc16_loop data n (crc16_step crc b)"

definition crc16 :: "u8 list \<Rightarrow> nat \<Rightarrow> u16 option" where
  "crc16 data len = crc16_loop data len 0"

definition update_crc16 :: "u16 \<Rightarrow> u8 list \<Rightarrow> nat \<Rightarrow> u16 option" where
  "update_crc16 pCrc16 data len = crc16_loop data len pCrc16"

section \<open>Tables of linear functions\<close>

text \<open>
  A function that respects exclusive or is given by its values on the powers of two; its table
  grows by a copy of itself for each of them.
\<close>

definition xor_table :: "'a::len word list \<Rightarrow> 'a word list" where
  "xor_table ps = foldl (\<lambda>t p. t @ map (\<lambda>x. x XOR p) t) [0] ps"

lemma xor_table_snoc: "xor_table (ps @ [p]) = xor_table ps @ map (\<lambda>x. x XOR p) (xor_table ps)"
  by (simp add: xor_table_def)

lemma length_xor_table: "length (xor_table ps) = 2 ^ length ps"
  by (induction ps rule: rev_induct) (simp_all add: xor_table_snoc, simp add: xor_table_def)

lemma take_bit_Suc_xor:
  "take_bit (Suc n) (x :: 'a::len word) = take_bit n x XOR (if bit x n then push_bit n 1 else 0)"
  by (rule bit_word_eqI)
    (auto simp: bit_take_bit_iff bit_xor_iff bit_push_bit_iff bit_1_iff less_Suc_eq simp del: push_bit_of_1)

lemma unat_take_bit_Suc:
  assumes "n < LENGTH('a)"
  shows "unat (take_bit (Suc n) (x :: 'a::len word)) =
    unat (take_bit n x) + (if bit x n then 2 ^ n else 0)"
proof -
  have "unat (take_bit (Suc n) x) = take_bit (Suc n) (unat x)" by (rule unsigned_take_bit_eq)
  also have "\<dots> = take_bit n (unat x) + of_bool (bit (unat x) n) * 2 ^ n"
    by (simp add: take_bit_Suc_from_most)
  also have "bit (unat x) n = bit x n"
    using assms by (simp add: bit_unsigned_iff)
  finally show ?thesis by (simp add: unsigned_take_bit_eq)
qed

lemma xor_table_linear:
  fixes f :: "'b::len word \<Rightarrow> 'a::len word"
  assumes lin: "\<And>x y. f (x XOR y) = f x XOR f y" and "n \<le> LENGTH('b)"
  shows "xor_table (map (\<lambda>k. f (push_bit k 1)) [0..<n]) ! unat (take_bit n x) = f (take_bit n x)"
  using assms(2)
proof (induction n)
  case 0
  have "f 0 = 0" using lin [of 0 0] by simp
  then show ?case by (simp add: xor_table_def)
next
  case (Suc n)
  let ?t = "xor_table (map (\<lambda>k. f (push_bit k 1)) [0..<n])"
  have len: "length ?t = 2 ^ n" by (simp add: length_xor_table)
  have n: "n < LENGTH('b)" using Suc.prems by simp
  have lt: "unat (take_bit n x) < 2 ^ n"
    using take_bit_nat_less_exp [of n "unat x"] by (simp only: unsigned_take_bit_eq)
  have IH: "?t ! unat (take_bit n x) = f (take_bit n x)" using Suc by simp
  have snoc: "map (\<lambda>k. f (push_bit k 1)) [0..<Suc n] = map (\<lambda>k. f (push_bit k 1)) [0..<n] @ [f (push_bit n 1)]"
    by simp
  have f0: "f 0 = 0" using lin [of 0 0] by simp
  show ?case
    unfolding snoc xor_table_snoc unat_take_bit_Suc [OF n]
    using lt len IH by (simp add: nth_append take_bit_Suc_xor lin f0 del: push_bit_of_1)
qed

lemma m_Crc7Table_eq: "m_Crc7Table = xor_table [0x09, 0x12, 0x24, 0x48, 0x19, 0x32, 0x64, 0x41]"
  by (simp add: m_Crc7Table_def xor_table_def)

lemma m_Crc16Table_eq: "m_Crc16Table = xor_table [0x1021, 0x2042, 0x4084, 0x8108, 0x1231, 0x2462, 0x48C4, 0x9188]"
  by (simp add: m_Crc16Table_def xor_table_def)

section \<open>Bit-serial division\<close>

text \<open>
  The reference: a shift register that takes the message bit by bit, highest first, and subtracts
  the generator \<open>p\<close> when a one leaves at the top.
\<close>

definition lfsr :: "'a::len word \<Rightarrow> 'a word \<Rightarrow> 'a word" where
  "lfsr p x = push_bit 1 x XOR (if bit x (LENGTH('a) - 1) then p else 0)"

definition serial :: "'a::len word \<Rightarrow> 'a word \<Rightarrow> bool \<Rightarrow> 'a word" where
  "serial p s b = lfsr p (s XOR (if b then push_bit (LENGTH('a) - 1) 1 else 0))"

definition byte_bits :: "u8 \<Rightarrow> bool list" where
  "byte_bits b = map (\<lambda>k. bit b (7 - k)) [0..<8]"

definition message_bits :: "u8 list \<Rightarrow> bool list" where
  "message_bits data = concat (map byte_bits data)"

lemma lfsr_xor: "lfsr p (x XOR y) = lfsr p x XOR lfsr p y"
  by (rule bit_word_eqI) (auto simp: lfsr_def bit_xor_iff bit_push_bit_iff)

lemma lfsr_funpow_xor: "(lfsr p ^^ n) (x XOR y) = (lfsr p ^^ n) x XOR (lfsr p ^^ n) y"
  by (induction n) (simp_all add: lfsr_xor)

lemma lfsr_zero [simp]: "lfsr p 0 = 0"
  by (simp add: lfsr_def)

lemma lfsr_funpow_zero [simp]: "(lfsr p ^^ n) 0 = 0"
  by (induction n) simp_all

lemma lfsr_shift:
  assumes "i + n < LENGTH('a)"
  shows "(lfsr p ^^ n) (push_bit i (1 :: 'a::len word)) = push_bit (i + n) 1"
  using assms
proof (induction n)
  case (Suc n)
  then have "(lfsr p ^^ n) (push_bit i (1 :: 'a word)) = push_bit (i + n) 1" by simp
  moreover have "lfsr p (push_bit (i + n) (1 :: 'a word)) = push_bit (i + Suc n) 1"
    using Suc.prems by (simp add: lfsr_def bit_push_bit_iff bit_1_iff del: push_bit_of_1)
  ultimately show ?case by simp
qed simp

text \<open>The \<open>k\<close> highest bits of an octet, at the top of the register.\<close>

definition top_bits :: "nat \<Rightarrow> u8 \<Rightarrow> 'a::len word" where
  "top_bits k b = push_bit (LENGTH('a) - 8) (ucast (push_bit (8 - k) (drop_bit (8 - k) b)))"

lemma top_bits_Suc:
  assumes "k < 8" and "8 \<le> LENGTH('a)"
  shows "(top_bits (Suc k) b :: 'a::len word) =
    top_bits k b XOR (if bit b (7 - k) then push_bit (LENGTH('a) - 1 - k) 1 else 0)"
proof (rule bit_word_eqI)
  fix n assume n: "n < LENGTH('a)"
  define m where "m = n - (LENGTH('a) - 8)"
  show "bit (top_bits (Suc k) b :: 'a word) n =
      bit (top_bits k b XOR (if bit b (7 - k) then push_bit (LENGTH('a) - 1 - k) 1 else 0) :: 'a word) n"
  proof (cases "LENGTH('a) - 8 \<le> n")
    case True
    then have nm: "n = m + (LENGTH('a) - 8)" "m < 8" using n assms(2) by (auto simp: m_def)
    have top: "n = LENGTH('a) - 1 - k \<longleftrightarrow> m = 7 - k" using nm assms by auto
    have tb: "bit (top_bits j b :: 'a word) n \<longleftrightarrow> 8 - j \<le> m \<and> bit b m" for j
      using nm n unfolding top_bits_def
      by (auto simp: bit_push_bit_iff bit_ucast_iff bit_drop_bit_eq)
    have "8 - Suc k \<le> m \<longleftrightarrow> 8 - k \<le> m \<or> m = 7 - k" "m = 7 - k \<Longrightarrow> \<not> 8 - k \<le> m"
      using assms(1) by auto
    moreover have "bit (push_bit (LENGTH('a) - 1 - k) (1 :: 'a word)) n \<longleftrightarrow> n = LENGTH('a) - 1 - k"
      using n by (auto simp: bit_push_bit_iff bit_1_iff simp del: push_bit_of_1)
    ultimately show ?thesis
      unfolding bit_xor_iff tb if_distrib [of "\<lambda>w. bit w n"] top by (cases "m = 7 - k") auto
  next
    case False
    then show ?thesis using n assms
      by (auto simp: top_bits_def bit_xor_iff bit_push_bit_iff bit_1_iff simp del: push_bit_of_1)
  qed
qed

lemma serial_byte:
  assumes "8 \<le> LENGTH('a)"
  shows "foldl (serial p) s (byte_bits b) = (lfsr p ^^ 8) (s XOR push_bit (LENGTH('a) - 8) (ucast b) :: 'a::len word)"
proof -
  have "foldl (serial p) s (map (\<lambda>k. bit b (7 - k)) [0..<k]) = (lfsr p ^^ k) (s XOR top_bits k b)"
    if "k \<le> 8" for k
    using that
  proof (induction k)
    case 0
    have "drop_bit 8 b = 0" by (rule bit_word_eqI) (auto simp: bit_drop_bit_eq dest: bit_imp_le_length)
    then show ?case by (simp add: top_bits_def)
  next
    case (Suc k)
    let ?c = "if bit b (7 - k) then push_bit (LENGTH('a) - 1 - k) 1 else (0 :: 'a word)"
    have "(lfsr p ^^ k) ?c = (if bit b (7 - k) then push_bit (LENGTH('a) - 1) 1 else 0)"
      using lfsr_shift [of "LENGTH('a) - 1 - k" k p] Suc.prems assms by (auto simp del: push_bit_of_1)
    moreover have "(lfsr p ^^ k) (s XOR top_bits (Suc k) b) =
        (lfsr p ^^ k) (s XOR top_bits k b) XOR (lfsr p ^^ k) ?c"
      using Suc.prems assms
      by (simp only: top_bits_Suc Suc_le_lessD lfsr_funpow_xor xor.assoc)
    ultimately show ?case using Suc by (simp add: serial_def)
  qed
  from this [of 8] show ?thesis by (simp add: byte_bits_def top_bits_def)
qed

lemma foldl_serial_bytes:
  assumes "8 \<le> LENGTH('a)"
  shows "foldl (serial p) s (message_bits data) =
    foldl (\<lambda>s b. (lfsr p ^^ 8) (s XOR push_bit (LENGTH('a) - 8) (ucast b) :: 'a::len word)) s data"
  by (induction data arbitrary: s) (simp_all add: message_bits_def serial_byte [OF assms])

section \<open>The tables\<close>

lemma lfsr_8: "(lfsr p ^^ 8) x = lfsr p (lfsr p (lfsr p (lfsr p (lfsr p (lfsr p (lfsr p (lfsr p x)))))))"
  by (simp add: numeral_eq_Suc)

lemma m_Crc7Table_nth: "m_Crc7Table ! unat x = drop_bit 1 ((lfsr 0x12 ^^ 8) x)"
proof -
  let ?f = "\<lambda>x :: u8. drop_bit 1 ((lfsr 0x12 ^^ 8) x)"
  have "map (\<lambda>k. ?f (push_bit k 1)) [0..<8] = [0x09, 0x12, 0x24, 0x48, 0x19, 0x32, 0x64, 0x41]"
    by (simp add: upt_rec lfsr_8 lfsr_def)
  moreover have "xor_table (map (\<lambda>k. ?f (push_bit k 1)) [0..<8]) ! unat (take_bit 8 x) = ?f (take_bit 8 x)"
    by (rule xor_table_linear) (simp_all add: lfsr_funpow_xor drop_bit_xor_word)
  moreover have "take_bit 8 x = x"
    by (rule bit_word_eqI) (simp add: bit_take_bit_iff)
  ultimately show ?thesis by (simp add: m_Crc7Table_eq)
qed

lemma m_Crc16Table_nth: "m_Crc16Table ! unat (x :: u8) = (lfsr 0x1021 ^^ 8) (push_bit 8 (ucast x))"
proof -
  let ?f = "\<lambda>x :: u8. (lfsr 0x1021 ^^ 8) (push_bit 8 (ucast x) :: u16)"
  have "map (\<lambda>k. ?f (push_bit k 1)) [0..<8] =
      [0x1021, 0x2042, 0x4084, 0x8108, 0x1231, 0x2462, 0x48C4, 0x9188]"
    by (simp add: upt_rec lfsr_8 lfsr_def)
  moreover have "?f (x XOR y) = ?f x XOR ?f y" for x y
  proof -
    have "(ucast (x XOR y) :: u16) = ucast x XOR ucast y"
      by (rule bit_word_eqI) (simp add: bit_ucast_iff bit_xor_iff)
    then show ?thesis by (simp only: push_bit_xor_word lfsr_funpow_xor)
  qed
  then have "xor_table (map (\<lambda>k. ?f (push_bit k 1)) [0..<8]) ! unat (take_bit 8 x) = ?f (take_bit 8 x)"
    by (intro xor_table_linear) simp_all
  moreover have "take_bit 8 x = x"
    by (rule bit_word_eqI) (simp add: bit_take_bit_iff)
  ultimately show ?thesis by (simp add: m_Crc16Table_eq)
qed

section \<open>The registers of the two functions\<close>

definition reg7 :: "u8 \<Rightarrow> u8 \<Rightarrow> u8" where
  "reg7 crc b = drop_bit 1 ((lfsr 0x12 ^^ 8) (push_bit 1 crc XOR b))"

definition reg16 :: "u16 \<Rightarrow> u8 \<Rightarrow> u16" where
  "reg16 crc b = (lfsr 0x1021 ^^ 8) (crc XOR push_bit 8 (ucast b))"

definition valid7 :: "u8 \<Rightarrow> bool" where
  "valid7 crc \<longleftrightarrow> \<not> bit crc 7"

lemma reg7_valid: "valid7 (reg7 crc b)"
  by (auto simp: valid7_def reg7_def bit_drop_bit_eq dest: bit_imp_le_length)

lemma unat_ucast_u8: "unat (ucast (x :: u8) :: u32) = unat x"
  using unsigned_less [of x, where ?'a = nat]
  by (simp add: unsigned_ucast_eq take_bit_nat_eq_self_iff)

lemma length_m_Crc7Table: "length m_Crc7Table = 256"
  by (simp add: m_Crc7Table_eq length_xor_table)

lemma crc7_step_eq:
  assumes "valid7 crc"
  shows "crc7_step crc b = Some (reg7 crc b)"
proof -
  have "push_bit 1 (ucast crc :: u32) XOR ucast b = ucast (push_bit 1 crc XOR b)"
  proof (rule bit_word_eqI)
    fix n assume n: "n < LENGTH(32)"
    have "\<not> bit crc 7" using assms by (simp add: valid7_def)
    then have "bit crc (n - 1) \<Longrightarrow> 1 \<le> n \<Longrightarrow> n < 8"
      using bit_imp_le_length [of crc "n - 1"] by (cases "n = 8") auto
    then show "bit (push_bit 1 (ucast crc :: u32) XOR ucast b) n =
        bit (ucast (push_bit 1 crc XOR b) :: u32) n"
      using n by (simp only: bit_xor_iff bit_push_bit_iff bit_ucast_iff) (auto dest: bit_imp_le_length)
  qed
  then have idx: "unat (push_bit 1 (ucast crc :: u32) XOR ucast b) = unat (push_bit 1 crc XOR b)"
    by (simp only: unat_ucast_u8)
  have "unat (push_bit 1 crc XOR b) < 256"
    using unsigned_less [of "push_bit 1 crc XOR b", where ?'a = nat] by simp
  then show ?thesis
    unfolding crc7_step_def idx by (simp only: rd_in length_m_Crc7Table m_Crc7Table_nth reg7_def)
qed

lemma crc7_loop_eq:
  "valid7 crc \<Longrightarrow> n \<le> length data \<Longrightarrow> crc7_loop data n crc = Some (foldl reg7 crc (take n data))"
  by (induction data n crc rule: crc7_loop.induct) (simp_all add: crc7_step_eq reg7_valid)

lemma lfsr_low:
  assumes "\<And>i. bit x i \<Longrightarrow> i < 8" and "n \<le> 8"
  shows "(lfsr p ^^ n) (x :: u16) = push_bit n x"
  using assms(2)
proof (induction n)
  case (Suc n)
  have "\<not> bit x (15 - n)" using assms(1) [of "15 - n"] Suc.prems by auto
  then have "\<not> bit (push_bit n x) 15" by (simp add: bit_push_bit_iff)
  then have "lfsr p (push_bit n x) = push_bit 1 (push_bit n x)" by (simp only: lfsr_def) simp
  then show ?case using Suc by (simp add: push_bit_push_bit del: push_bit_of_1)
qed simp

lemma crc16_step_eq: "crc16_step crc b = reg16 crc b"
proof -
  let ?hi = "push_bit 8 (drop_bit 8 crc)" and ?lo = "take_bit 8 crc"
  have idx: "unat ((drop_bit 8 (ucast crc :: u32) XOR ucast b) AND 0x00FF) =
      unat (ucast (drop_bit 8 crc) XOR b :: u8)"
  proof -
    have mask: "(0x00FF :: u32) = mask 8" by (simp add: mask_eq_exp_minus_1)
    have "(drop_bit 8 (ucast crc :: u32) XOR ucast b) AND 0x00FF = ucast (ucast (drop_bit 8 crc) XOR b :: u8)"
      unfolding mask
      by (rule bit_word_eqI)
        (auto simp: bit_and_iff bit_xor_iff bit_drop_bit_eq bit_ucast_iff bit_mask_iff dest: bit_imp_le_length)
    then show ?thesis by (simp only: unat_ucast_u8)
  qed
  have split: "crc = ?lo XOR ?hi"
    by (rule bit_word_eqI) (auto simp: bit_xor_iff bit_take_bit_iff bit_push_bit_iff bit_drop_bit_eq)
  have low: "(lfsr 0x1021 ^^ 8) ?lo = push_bit 8 crc"
  proof -
    have "(lfsr 0x1021 ^^ 8) ?lo = push_bit 8 ?lo"
      by (rule lfsr_low) (auto simp: bit_take_bit_iff)
    also have "\<dots> = push_bit 8 crc"
      by (rule bit_word_eqI) (auto simp: bit_take_bit_iff bit_push_bit_iff)
    finally show ?thesis .
  qed
  have hi: "push_bit 8 (ucast (ucast (drop_bit 8 crc) XOR b :: u8)) = ?hi XOR push_bit 8 (ucast b)"
    by (rule bit_word_eqI)
      (auto simp: bit_xor_iff bit_push_bit_iff bit_ucast_iff bit_drop_bit_eq dest: bit_imp_le_length)
  have "reg16 crc b = (lfsr 0x1021 ^^ 8) (?lo XOR (?hi XOR push_bit 8 (ucast b)))"
    unfolding reg16_def by (subst split) (simp only: xor.assoc)
  also have "\<dots> = push_bit 8 crc XOR (lfsr 0x1021 ^^ 8) (push_bit 8 (ucast (ucast (drop_bit 8 crc) XOR b :: u8)))"
    by (simp only: lfsr_funpow_xor low hi)
  finally show ?thesis unfolding crc16_step_def idx m_Crc16Table_nth by simp
qed

lemma crc16_loop_eq:
  "n \<le> length data \<Longrightarrow> crc16_loop data n crc = Some (foldl reg16 crc (take n data))"
  by (induction data n crc rule: crc16_loop.induct) (simp_all add: crc16_step_eq)

text \<open>The seven-bit register in the upper bits of an octet.\<close>

lemma reg7_upper: "push_bit 1 (reg7 crc b) = (lfsr 0x12 ^^ 8) (push_bit 1 crc XOR b)"
proof -
  have even: "\<not> bit ((lfsr 0x12 ^^ 8) (x :: u8)) 0" for x
  proof -
    have "(lfsr 0x12 ^^ 8) x = lfsr 0x12 ((lfsr 0x12 ^^ 7) x)" by (simp add: numeral_eq_Suc)
    then show ?thesis by (simp only: lfsr_def bit_xor_iff bit_push_bit_iff) simp
  qed
  show ?thesis unfolding reg7_def
  proof (rule bit_word_eqI)
    fix n
    show "bit (push_bit 1 (drop_bit 1 ((lfsr 0x12 ^^ 8) (push_bit 1 crc XOR b)))) n =
        bit ((lfsr 0x12 ^^ 8) (push_bit 1 crc XOR b)) n"
      using even by (cases n) (auto simp only: bit_push_bit_iff bit_drop_bit_eq comp_def dest: bit_imp_le_length, auto dest: bit_imp_le_length)
  qed
qed

lemma foldl_reg7_upper:
  "push_bit 1 (foldl reg7 crc data) = foldl (\<lambda>s b. (lfsr 0x12 ^^ 8) (s XOR b)) (push_bit 1 crc) data"
  by (induction data arbitrary: crc) (simp_all only: foldl.simps reg7_upper)

lemma foldl_reg7_valid: "valid7 crc \<Longrightarrow> valid7 (foldl reg7 crc data)"
  by (induction data arbitrary: crc) (simp_all add: reg7_valid)

lemma push_bit_1_inj_valid7: "valid7 s \<Longrightarrow> drop_bit 1 (push_bit 1 s) = s"
proof (rule bit_word_eqI)
  fix n assume "valid7 s" "n < LENGTH(8)"
  then have "bit s n \<Longrightarrow> n \<noteq> 7" "n < 8" by (auto simp: valid7_def)
  then show "bit (drop_bit 1 (push_bit 1 s)) n = bit s n"
    by (cases "n = 7") (simp_all only: bit_push_bit_iff bit_drop_bit_eq comp_def, auto)
qed

lemma crc7_serial:
  "n \<le> length data \<Longrightarrow> crc7 data n = Some (drop_bit 1 (foldl (serial 0x12) 0 (message_bits (take n data))))"
proof -
  assume n: "n \<le> length data"
  have v: "valid7 0" by (simp add: valid7_def)
  have "foldl (serial 0x12) 0 (message_bits (take n data)) = push_bit 1 (foldl reg7 0 (take n data))"
    using foldl_reg7_upper [of 0 "take n data"] by (simp add: foldl_serial_bytes)
  then show ?thesis
    using crc7_loop_eq [OF v n] push_bit_1_inj_valid7 [OF foldl_reg7_valid [OF v]]
    by (simp only: crc7_def)
qed

lemma crc16_serial:
  "n \<le> length data \<Longrightarrow> crc16 data n = Some (foldl (serial 0x1021) 0 (message_bits (take n data)))"
  by (simp add: crc16_def crc16_loop_eq foldl_serial_bytes reg16_def [abs_def])

section \<open>The registers detect errors\<close>

text \<open>The differences the seven-bit register hides: only \<open>0x89\<close>, the generator itself.\<close>

lemma m_Crc7Table_split:
  "m_Crc7Table = 0 # take 136 (tl m_Crc7Table) @ 0 # drop 138 m_Crc7Table"
  "0 \<notin> set (take 136 (tl m_Crc7Table))" "0 \<notin> set (drop 138 m_Crc7Table)"
  by (simp_all add: m_Crc7Table_def)

lemma m_Crc7Table_zero:
  assumes "m_Crc7Table ! i = 0" and "i < 256"
  shows "i = 0 \<or> i = 137"
proof (rule ccontr)
  assume n: "\<not> (i = 0 \<or> i = 137)"
  let ?A = "take 136 (tl m_Crc7Table)" and ?B = "drop 138 m_Crc7Table"
  have len: "length ?A = 136" "length ?B = 118" by (simp_all add: length_m_Crc7Table)
  have split: "m_Crc7Table ! i = (0 # ?A @ 0 # ?B) ! i" using m_Crc7Table_split(1) by simp
  show False
  proof (cases "i < 137")
    case True
    then have "i - 1 < 136" "0 < i" using n by auto
    then have "m_Crc7Table ! i = ?A ! (i - 1)" using len unfolding split by (simp only: nth_append nth_Cons' if_True) simp
    moreover have "?A ! (i - 1) \<in> set ?A" using True n len by (intro nth_mem) simp
    ultimately show False using assms(1) m_Crc7Table_split(2) by simp
  next
    case False
    then have "\<not> i - 1 < 136" "i - 1 - 136 \<noteq> 0" "i - 1 - 136 - 1 = i - 138" "i \<noteq> 0" using n by auto
    then have "m_Crc7Table ! i = ?B ! (i - 138)" using len unfolding split
      by (simp only: nth_append nth_Cons' if_False)
    moreover have "?B ! (i - 138) \<in> set ?B" using False n len assms(2) by (intro nth_mem) simp
    ultimately show False using assms(1) m_Crc7Table_split(3) by simp
  qed
qed

lemma reg7_kernel:
  assumes "drop_bit 1 ((lfsr 0x12 ^^ 8) (z :: u8)) = 0"
  shows "z = 0 \<or> z = 0x89"
proof -
  have "m_Crc7Table ! unat z = 0" using assms by (simp only: m_Crc7Table_nth)
  moreover have "unat z < 256" using unsigned_less [of z, where ?'a = nat] by simp
  ultimately have "unat z = unat (0 :: u8) \<or> unat z = unat (0x89 :: u8)"
    using m_Crc7Table_zero by fastforce
  then show ?thesis by (simp only: word_unat_eq_iff)
qed

lemma reg7_diff: "reg7 s b XOR reg7 t c = drop_bit 1 ((lfsr 0x12 ^^ 8) (push_bit 1 (s XOR t) XOR (b XOR c)))"
  unfolding reg7_def
  by (simp only: drop_bit_xor_word [symmetric] lfsr_funpow_xor [symmetric] push_bit_xor_word)
    (simp only: xor.assoc xor.left_commute xor.commute)

lemma reg7_state_inj:
  assumes "valid7 s" and "valid7 t" and "reg7 s b = reg7 t b"
  shows "s = t"
proof -
  have "drop_bit 1 ((lfsr 0x12 ^^ 8) (push_bit 1 (s XOR t))) = 0"
    using reg7_diff [of s b t b] assms(3) by simp
  then have "push_bit 1 (s XOR t) = 0 \<or> push_bit 1 (s XOR t) = 0x89" by (rule reg7_kernel)
  moreover have "push_bit 1 (s XOR t) \<noteq> 0x89"
  proof
    assume "push_bit 1 (s XOR t) = 0x89"
    moreover have "\<not> bit (push_bit 1 (s XOR t)) 0" by (simp only: bit_push_bit_iff) simp
    moreover have "bit (0x89 :: u8) 0" by simp
    ultimately show False by simp
  qed
  ultimately have "push_bit 1 (s XOR t) = 0" by blast
  moreover have "valid7 (s XOR t)" using assms(1,2) by (simp add: valid7_def bit_xor_iff)
  ultimately have "s XOR t = 0" using push_bit_1_inj_valid7 by fastforce
  then show ?thesis by (metis xor_self_eq xor_left_cancel_word)
qed

interpretation sd_crc7: crc_register reg7 valid7 "\<lambda>b c. b XOR c \<noteq> 0 \<and> b XOR c \<noteq> 0x89"
proof
  fix s b c
  assume "b XOR c \<noteq> 0 \<and> b XOR c \<noteq> (0x89 :: u8)"
  then show "reg7 s b \<noteq> reg7 s c"
    using reg7_kernel [of "b XOR c"] reg7_diff [of s b s c] by auto
qed (auto intro: reg7_valid reg7_state_inj)

lemma lfsr_1021_inj: "lfsr 0x1021 (x :: u16) = lfsr 0x1021 y \<Longrightarrow> x = y"
proof -
  assume eq: "lfsr 0x1021 x = lfsr 0x1021 y"
  have odd: "bit (lfsr 0x1021 z) 0 = bit z 15" for z :: u16
    by (simp only: lfsr_def bit_xor_iff bit_push_bit_iff) simp
  have top: "bit x 15 = bit y 15" using odd [of x] odd [of y] eq by simp
  then have "push_bit 1 x = push_bit 1 y"
    using eq by (simp only: lfsr_def) (simp add: xor_right_cancel_word split: if_splits)
  then have "bit (push_bit 1 x) (Suc n) = bit (push_bit 1 y) (Suc n)" for n by simp
  then have low: "n < 15 \<Longrightarrow> bit x n = bit y n" for n by (simp only: bit_push_bit_iff) auto
  show "x = y"
  proof (rule bit_word_eqI)
    fix n assume "n < LENGTH(16)"
    then have "n = 15 \<or> n < 15" by auto
    then show "bit x n = bit y n" using top low by blast
  qed
qed

lemma lfsr_1021_funpow_inj: "(lfsr 0x1021 ^^ n) (x :: u16) = (lfsr 0x1021 ^^ n) y \<Longrightarrow> x = y"
  by (induction n) (auto dest: lfsr_1021_inj)

lemma ucast_u16_low: "bit (ucast (b :: u8) :: u16) i \<Longrightarrow> i < 8"
  by (auto simp: bit_ucast_iff dest: bit_imp_le_length)

lemma reg16_two: "foldl reg16 s [b, c] = (lfsr 0x1021 ^^ 8) ((lfsr 0x1021 ^^ 8) (s XOR (push_bit 8 (ucast b) XOR ucast c)))"
proof -
  have "(lfsr 0x1021 ^^ 8) (ucast c :: u16) = push_bit 8 (ucast c)"
    by (rule lfsr_low) (auto dest: ucast_u16_low)
  then show ?thesis by (simp only: foldl.simps reg16_def lfsr_funpow_xor xor.assoc)
qed

lemma two_bytes_inj:
  fixes b c b' c' :: u8
  assumes "push_bit 8 (ucast b) XOR ucast c = (push_bit 8 (ucast b') XOR ucast c' :: u16)"
  shows "b = b' \<and> c = c'"
proof -
  have *: "bit (push_bit 8 (ucast b) XOR ucast c :: u16) n = (if n < 8 then bit c n else bit b (n - 8))"
    if "n < 16" for b c :: u8 and n
    using that by (auto simp: bit_xor_iff bit_push_bit_iff bit_ucast_iff dest: bit_imp_le_length)
  have "n < 8 \<Longrightarrow> bit c n = bit c' n" "n < 8 \<Longrightarrow> bit b n = bit b' n" for n
    using *[of n b c] *[of n b' c'] *[of "n + 8" b c] *[of "n + 8" b' c'] assms by auto
  then show ?thesis by (auto intro: bit_word_eqI)
qed

interpretation sd_crc16: crc_window reg16 "\<lambda>s. True" "\<lambda>b c. b \<noteq> c" 2
proof
  fix s t :: u16 and b c :: u8
  show "reg16 s b = reg16 t b \<Longrightarrow> s = t"
    unfolding reg16_def by (drule lfsr_1021_funpow_inj) (simp only: xor_right_cancel_word)
  show "b \<noteq> c \<Longrightarrow> reg16 s b \<noteq> reg16 s c"
  proof
    assume "b \<noteq> c" "reg16 s b = reg16 s c"
    then have "push_bit 8 (ucast b) = (push_bit 8 (ucast c) :: u16)"
      unfolding reg16_def by (metis lfsr_1021_funpow_inj xor_left_cancel_word)
    then show False using two_bytes_inj [of b 0 c 0] \<open>b \<noteq> c\<close> by simp
  qed
next
  fix s :: u16 and us vs :: "u8 list"
  assume "length us = 2" "length vs = 2" and eq: "foldl reg16 s us = foldl reg16 s vs"
  then obtain b c b' c' where uv: "us = [b, c]" "vs = [b', c']"
    by (auto simp: length_Suc_conv numeral_2_eq_2)
  have "s XOR (push_bit 8 (ucast b) XOR ucast c) = s XOR (push_bit 8 (ucast b') XOR ucast c')"
    using eq unfolding uv reg16_two by (blast dest: lfsr_1021_funpow_inj)
  then show "us = vs" unfolding uv using two_bytes_inj [of b c b' c'] by (simp only: xor_left_cancel_word)
qed simp_all

text \<open>A change of one octet of a command, other than by the generator.\<close>

lemma crc7_byte_change:
  assumes "b XOR c \<notin> {0, 0x89}"
  shows "crc7 (xs @ b # ys) (length xs + 1 + length ys) \<noteq> crc7 (xs @ c # ys) (length xs + 1 + length ys)"
proof -
  have v: "valid7 0" by (simp add: valid7_def)
  have "foldl reg7 0 (xs @ b # ys) \<noteq> foldl reg7 0 (xs @ c # ys)"
    using assms v by (intro sd_crc7.byte_change_detected) simp_all
  then show ?thesis using v by (simp add: crc7_def crc7_loop_eq)
qed

text \<open>A change inside two neighbouring octets of a block.\<close>

lemma crc16_burst:
  assumes "length us = 2" and "length vs = 2" and "us \<noteq> vs"
  shows "crc16 (xs @ us @ ys) (length xs + 2 + length ys) \<noteq> crc16 (xs @ vs @ ys) (length xs + 2 + length ys)"
proof -
  have "foldl reg16 0 (xs @ us @ ys) \<noteq> foldl reg16 0 (xs @ vs @ ys)"
    using assms by (intro sd_crc16.burst_detected) simp_all
  then show ?thesis using assms(1,2) by (simp add: crc16_def crc16_loop_eq)
qed

section \<open>Properties\<close>

text \<open>
  C24. The table-driven checksums compute the remainders of the bit-serial division they stand for:
  for every message in bounds, \<open>crc7\<close> that of \<open>x^7 + x^3 + 1\<close> and \<open>crc16\<close> that of
  \<open>x^16 + x^12 + x^5 + 1\<close>.
\<close>

theorem sd_crc_serial:
  assumes "n \<le> length data"
  shows "crc7 data n = Some (drop_bit 1 (foldl (serial 0x12) 0 (message_bits (take n data)))) \<and>
    crc16 data n = Some (foldl (serial 0x1021) 0 (message_bits (take n data)))"
  using crc7_serial [OF assms] crc16_serial [OF assms] by simp

lemma sd_crc_serial_witness:
  "crc7 [0x40, 0, 0, 0, 0] 5 = Some (drop_bit 1 (foldl (serial 0x12) 0 (message_bits [0x40, 0, 0, 0, 0])))"
proof -
  have "5 \<le> length [0x40 :: u8, 0, 0, 0, 0]" by simp
  from sd_crc_serial [OF this] show ?thesis by simp
qed

text \<open>The checksum octet of \<open>CMD0\<close> is the constant the driver uses when checksums are off.\<close>

lemma numeral_5_eq_5: "(5 :: nat) = Suc (Suc (Suc (Suc (Suc 0))))"
  by simp

lemma crc7_cmd0: "crc7 [0x40, 0, 0, 0, 0] 5 = Some 0x4A"
proof -
  have "crc7 [0x40, 0, 0, 0, 0] 5 = crc7_loop [0x40, 0, 0, 0, 0] (Suc (Suc (Suc (Suc (Suc 0))))) 0"
    by (simp only: crc7_def numeral_5_eq_5)
  then show ?thesis by (simp add: crc7_step_def rd_def m_Crc7Table_def)
qed

text \<open>
  A block whose data change inside two neighbouring octets has a different \<open>crc16\<close>, and a command
  in which one octet changes has a different \<open>crc7\<close> unless the change is the generator \<open>0x89\<close>.
\<close>

theorem sd_crc_detects:
  assumes "length us = 2" and "length vs = 2" and "us \<noteq> vs" and "b XOR c \<notin> {0, 0x89}"
  shows "crc16 (xs @ us @ ys) (length xs + 2 + length ys) \<noteq> crc16 (xs @ vs @ ys) (length xs + 2 + length ys) \<and>
    crc7 (xs @ b # ys) (length xs + 1 + length ys) \<noteq> crc7 (xs @ c # ys) (length xs + 1 + length ys)"
  using crc16_burst [OF assms(1-3)] crc7_byte_change [OF assms(4)] by simp

lemma sd_crc_detects_witness:
  "crc16 ([1] @ [2, 3] @ [4]) (length [1 :: u8] + 2 + length [4 :: u8]) \<noteq>
   crc16 ([1] @ [2, 7] @ [4]) (length [1 :: u8] + 2 + length [4 :: u8])"
proof -
  have "(1 :: u8) XOR 2 \<notin> {0, 0x89}" by simp
  from sd_crc_detects [OF _ _ _ this, of "[2, 3]" "[2, 7]" "[1]" "[4]"] show ?thesis by simp
qed

end
