(* ===== verification/Sd_Card.thy ===== *)
theory Sd_Card
  imports Sd_Spi Sd_Crc
begin

text \<open>
  The SD card driver, \<open>sd_driver/sd_card.c\<close>: commands and their responses, initialisation, the
  capacity, and reading and writing of blocks. Every function takes the card structure with the
  state of the bus and returns it changed; \<^term>\<open>None\<close> is a wait that never ends, a failed assertion
  or an access outside of a buffer. Checksums are on: \<open>crc_on\<close> is never changed.
\<close>

section \<open>Constants\<close>

definition SD_BLOCK_DEVICE_ERROR_NONE :: int where "SD_BLOCK_DEVICE_ERROR_NONE = 0"
definition SD_BLOCK_DEVICE_ERROR_WOULD_BLOCK :: int where "SD_BLOCK_DEVICE_ERROR_WOULD_BLOCK = -5001"
definition SD_BLOCK_DEVICE_ERROR_UNSUPPORTED :: int where "SD_BLOCK_DEVICE_ERROR_UNSUPPORTED = -5002"
definition SD_BLOCK_DEVICE_ERROR_PARAMETER :: int where "SD_BLOCK_DEVICE_ERROR_PARAMETER = -5003"
definition SD_BLOCK_DEVICE_ERROR_NO_INIT :: int where "SD_BLOCK_DEVICE_ERROR_NO_INIT = -5004"
definition SD_BLOCK_DEVICE_ERROR_NO_DEVICE :: int where "SD_BLOCK_DEVICE_ERROR_NO_DEVICE = -5005"
definition SD_BLOCK_DEVICE_ERROR_WRITE_PROTECTED :: int where "SD_BLOCK_DEVICE_ERROR_WRITE_PROTECTED = -5006"
definition SD_BLOCK_DEVICE_ERROR_UNUSABLE :: int where "SD_BLOCK_DEVICE_ERROR_UNUSABLE = -5007"
definition SD_BLOCK_DEVICE_ERROR_NO_RESPONSE :: int where "SD_BLOCK_DEVICE_ERROR_NO_RESPONSE = -5008"
definition SD_BLOCK_DEVICE_ERROR_CRC :: int where "SD_BLOCK_DEVICE_ERROR_CRC = -5009"
definition SD_BLOCK_DEVICE_ERROR_ERASE :: int where "SD_BLOCK_DEVICE_ERROR_ERASE = -5010"
definition SD_BLOCK_DEVICE_ERROR_WRITE :: int where "SD_BLOCK_DEVICE_ERROR_WRITE = -5011"

lemmas sd_error_defs = SD_BLOCK_DEVICE_ERROR_NONE_def SD_BLOCK_DEVICE_ERROR_WOULD_BLOCK_def
  SD_BLOCK_DEVICE_ERROR_UNSUPPORTED_def SD_BLOCK_DEVICE_ERROR_PARAMETER_def
  SD_BLOCK_DEVICE_ERROR_NO_INIT_def SD_BLOCK_DEVICE_ERROR_NO_DEVICE_def
  SD_BLOCK_DEVICE_ERROR_WRITE_PROTECTED_def SD_BLOCK_DEVICE_ERROR_UNUSABLE_def
  SD_BLOCK_DEVICE_ERROR_NO_RESPONSE_def SD_BLOCK_DEVICE_ERROR_CRC_def
  SD_BLOCK_DEVICE_ERROR_ERASE_def SD_BLOCK_DEVICE_ERROR_WRITE_def

definition SPI_DATA_RESPONSE_MASK :: u8 where "SPI_DATA_RESPONSE_MASK = 0x1F"
definition SPI_DATA_ACCEPTED :: u8 where "SPI_DATA_ACCEPTED = 0x05"
definition SPI_START_BLOCK :: u8 where "SPI_START_BLOCK = 0xFE"
definition SPI_START_BLK_MUL_WRITE :: u8 where "SPI_START_BLK_MUL_WRITE = 0xFC"
definition SPI_STOP_TRAN :: u8 where "SPI_STOP_TRAN = 0xFD"

definition SDCARD_NONE :: nat where "SDCARD_NONE = 0"
definition SDCARD_V1 :: nat where "SDCARD_V1 = 1"
definition SDCARD_V2 :: nat where "SDCARD_V2 = 2"
definition SDCARD_V2HC :: nat where "SDCARD_V2HC = 3"
definition CARD_UNKNOWN :: nat where "CARD_UNKNOWN = 4"

definition BLOCK_SIZE_HC :: nat where "BLOCK_SIZE_HC = 512"

definition R1_NO_RESPONSE :: u32 where "R1_NO_RESPONSE = 0xFF"
definition R1_RESPONSE_RECV :: u8 where "R1_RESPONSE_RECV = 0x80"
definition R1_IDLE_STATE :: u32 where "R1_IDLE_STATE = push_bit 0 1"
definition R1_ERASE_RESET :: u32 where "R1_ERASE_RESET = push_bit 1 1"
definition R1_ILLEGAL_COMMAND :: u32 where "R1_ILLEGAL_COMMAND = push_bit 2 1"
definition R1_COM_CRC_ERROR :: u32 where "R1_COM_CRC_ERROR = push_bit 3 1"
definition R1_ERASE_SEQUENCE_ERROR :: u32 where "R1_ERASE_SEQUENCE_ERROR = push_bit 4 1"
definition R1_ADDRESS_ERROR :: u32 where "R1_ADDRESS_ERROR = push_bit 5 1"
definition R1_PARAMETER_ERROR :: u32 where "R1_PARAMETER_ERROR = push_bit 6 1"

lemmas r1_defs = R1_NO_RESPONSE_def R1_RESPONSE_RECV_def R1_IDLE_STATE_def R1_ERASE_RESET_def
  R1_ILLEGAL_COMMAND_def R1_COM_CRC_ERROR_def R1_ERASE_SEQUENCE_ERROR_def R1_ADDRESS_ERROR_def
  R1_PARAMETER_ERROR_def

text \<open>The commands the driver sends; application commands have numbers of their own.\<close>

definition CMD0_GO_IDLE_STATE :: nat where "CMD0_GO_IDLE_STATE = 0"
definition CMD8_SEND_IF_COND :: nat where "CMD8_SEND_IF_COND = 8"
definition CMD9_SEND_CSD :: nat where "CMD9_SEND_CSD = 9"
definition CMD12_STOP_TRANSMISSION :: nat where "CMD12_STOP_TRANSMISSION = 12"
definition ACMD13_SD_STATUS :: nat where "ACMD13_SD_STATUS = 13"
definition CMD16_SET_BLOCKLEN :: nat where "CMD16_SET_BLOCKLEN = 16"
definition CMD17_READ_SINGLE_BLOCK :: nat where "CMD17_READ_SINGLE_BLOCK = 17"
definition CMD18_READ_MULTIPLE_BLOCK :: nat where "CMD18_READ_MULTIPLE_BLOCK = 18"
definition ACMD22_SEND_NUM_WR_BLOCKS :: nat where "ACMD22_SEND_NUM_WR_BLOCKS = 22"
definition ACMD23_SET_WR_BLK_ERASE_COUNT :: nat where "ACMD23_SET_WR_BLK_ERASE_COUNT = 23"
definition CMD24_WRITE_BLOCK :: nat where "CMD24_WRITE_BLOCK = 24"
definition CMD25_WRITE_MULTIPLE_BLOCK :: nat where "CMD25_WRITE_MULTIPLE_BLOCK = 25"
definition CMD38_ERASE :: nat where "CMD38_ERASE = 38"
definition ACMD41_SD_SEND_OP_COND :: nat where "ACMD41_SD_SEND_OP_COND = 41"
definition CMD55_APP_CMD :: nat where "CMD55_APP_CMD = 55"
definition CMD58_READ_OCR :: nat where "CMD58_READ_OCR = 58"
definition CMD59_CRC_ON_OFF :: nat where "CMD59_CRC_ON_OFF = 59"

lemmas cmd_defs = CMD0_GO_IDLE_STATE_def CMD8_SEND_IF_COND_def CMD9_SEND_CSD_def
  CMD12_STOP_TRANSMISSION_def ACMD13_SD_STATUS_def CMD16_SET_BLOCKLEN_def CMD17_READ_SINGLE_BLOCK_def
  CMD18_READ_MULTIPLE_BLOCK_def ACMD22_SEND_NUM_WR_BLOCKS_def ACMD23_SET_WR_BLK_ERASE_COUNT_def
  CMD24_WRITE_BLOCK_def CMD25_WRITE_MULTIPLE_BLOCK_def CMD38_ERASE_def ACMD41_SD_SEND_OP_COND_def
  CMD55_APP_CMD_def CMD58_READ_OCR_def CMD59_CRC_ON_OFF_def

definition OCR_HCS_CCS :: u32 where "OCR_HCS_CCS = push_bit 30 1"
definition OCR_3_3V :: u32 where "OCR_3_3V = push_bit 20 1"

definition SD_COMMAND_TIMEOUT :: nat where "SD_COMMAND_TIMEOUT = 5000"

definition crc_on :: bool where "crc_on = True"

text \<open>The names of the commands in the messages of the driver.\<close>

definition cmd2str :: "nat \<Rightarrow> string" where
  "cmd2str cmd =
     (if cmd = 0 then ''CMD0_GO_IDLE_STATE''
      else if cmd = 1 then ''CMD1_SEND_OP_COND''
      else if cmd = 6 then ''CMD6_SWITCH_FUNC''
      else if cmd = 8 then ''CMD8_SEND_IF_COND''
      else if cmd = 9 then ''CMD9_SEND_CSD''
      else if cmd = 10 then ''CMD10_SEND_CID''
      else if cmd = 12 then ''CMD12_STOP_TRANSMISSION''
      else if cmd = 13 then ''CMD13_SEND_STATUS or ACMD6_SET_BUS_WIDTH or ACMD13_SD_STATUS''
      else if cmd = 16 then ''CMD16_SET_BLOCKLEN''
      else if cmd = 17 then ''CMD17_READ_SINGLE_BLOCK''
      else if cmd = 18 then ''CMD18_READ_MULTIPLE_BLOCK''
      else if cmd = 24 then ''CMD24_WRITE_BLOCK''
      else if cmd = 25 then ''CMD25_WRITE_MULTIPLE_BLOCK''
      else if cmd = 27 then ''CMD27_PROGRAM_CSD''
      else if cmd = 32 then ''CMD32_ERASE_WR_BLK_START_ADDR''
      else if cmd = 33 then ''CMD33_ERASE_WR_BLK_END_ADDR''
      else if cmd = 38 then ''CMD38_ERASE''
      else if cmd = 55 then ''CMD55_APP_CMD''
      else if cmd = 56 then ''CMD56_GEN_CMD''
      else if cmd = 58 then ''CMD58_READ_OCR''
      else if cmd = 59 then ''CMD59_CRC_ON_OFF''
      else if cmd = 22 then ''ACMD22_SEND_NUM_WR_BLOCKS''
      else if cmd = 23 then ''ACMD23_SET_WR_BLK_ERASE_COUNT''
      else if cmd = 41 then ''ACMD41_SD_SEND_OP_COND''
      else if cmd = 42 then ''ACMD42_SET_CLR_CARD_DETECT''
      else if cmd = 51 then ''ACMD51_SEND_SCR''
      else ''CMD_NOT_SUPPORTED'')"

section \<open>Commands\<close>

definition SPI_CMD :: "nat \<Rightarrow> u8" where
  "SPI_CMD x = 0x40 OR (of_nat x AND 0x3f)"

text \<open>The six octets of a command.\<close>

definition cmd_packet :: "nat \<Rightarrow> u32 \<Rightarrow> u8 list option" where
  "cmd_packet cmd arg =
     (let p = [SPI_CMD cmd, ucast (drop_bit 24 arg), ucast (drop_bit 16 arg), ucast (drop_bit 8 arg), ucast arg]
      in if crc_on
         then map_option (\<lambda>c. p @ [push_bit 1 c OR 0x01]) (crc7 p 5)
         else Some (p @ [if cmd = CMD0_GO_IDLE_STATE then 0x95
                         else if cmd = CMD8_SEND_IF_COND then 0x87 else 0xFF]))"

fun send_octets :: "'c hw \<Rightarrow> u8 list \<Rightarrow> 'c sd_card \<Rightarrow> 'c sd_card" where
  "send_octets hw [] s = s"
| "send_octets hw (b # bs) s = send_octets hw bs (snd (sd_spi_write hw b s))"

text \<open>The response loop: at most sixteen octets, up to the first with the top bit clear.\<close>

fun response_loop :: "'c hw \<Rightarrow> nat \<Rightarrow> u8 \<Rightarrow> 'c sd_card \<Rightarrow> u8 \<times> 'c sd_card" where
  "response_loop hw 0 response s = (response, s)"
| "response_loop hw (Suc n) response s =
     (let (response, s) = sd_spi_write hw SPI_FILL_CHAR s
      in if response AND R1_RESPONSE_RECV = 0 then (response, s) else response_loop hw n response s)"

definition sd_cmd_spi :: "'c hw \<Rightarrow> nat \<Rightarrow> u32 \<Rightarrow> 'c sd_card \<Rightarrow> (u8 \<times> 'c sd_card) option" where
  "sd_cmd_spi hw cmd arg s = do {
     packet \<leftarrow> cmd_packet cmd arg;
     let s = send_octets hw packet s;
     let s = (if cmd = CMD12_STOP_TRANSMISSION then snd (sd_spi_write hw SPI_FILL_CHAR s) else s);
     Some (response_loop hw 0x10 0 s)
   }"

text \<open>The wait for a card that is busy; the loop ends when the card answers or the time is over.\<close>

partial_function (option) wait_ready_loop :: "'c hw \<Rightarrow> nat \<Rightarrow> 'c sd_card \<Rightarrow> (u8 \<times> 'c sd_card) option" where
  "wait_ready_loop hw timeout_time s =
     (case sd_spi_write hw 0xFF s of
        (resp, s) \<Rightarrow>
          if resp = 0x00 \<and> clock_us hw (bus s) < timeout_time
          then wait_ready_loop hw timeout_time s else Some (resp, s))"

definition sd_wait_ready :: "'c hw \<Rightarrow> nat \<Rightarrow> 'c sd_card \<Rightarrow> (bool \<times> 'c sd_card) option" where
  "sd_wait_ready hw timeout s =
     map_option (\<lambda>(resp, s). (0x00 < resp, s))
       (wait_ready_loop hw (clock_us hw (bus s) + 1000 * timeout) s)"

definition sd_lock :: "'c hw \<Rightarrow> 'c sd_card \<Rightarrow> 'c sd_card" where
  "sd_lock hw s = sd_spi_acquire hw s"

definition sd_unlock :: "'c hw \<Rightarrow> 'c sd_card \<Rightarrow> 'c sd_card" where
  "sd_unlock hw s = sd_spi_release hw s"

text \<open>The retry loop of \<open>sd_cmd\<close>; an application command is announced by \<open>CMD55\<close> each time.\<close>

fun retry_loop ::
  "'c hw \<Rightarrow> nat \<Rightarrow> u32 \<Rightarrow> bool \<Rightarrow> nat \<Rightarrow> u32 \<Rightarrow> 'c sd_card \<Rightarrow> (u32 \<times> 'c sd_card) option" where
  "retry_loop hw cmd arg isAcmd 0 response s = Some (response, s)"
| "retry_loop hw cmd arg isAcmd (Suc n) response s = do {
     s \<leftarrow> (if isAcmd
          then do {
            (_, s) \<leftarrow> sd_cmd_spi hw CMD55_APP_CMD 0 s;
            (_, s) \<leftarrow> sd_wait_ready hw SD_COMMAND_TIMEOUT s;
            Some s
          }
          else Some s);
     (r, s) \<leftarrow> sd_cmd_spi hw cmd arg s;
     let response = ucast r;
     if response = R1_NO_RESPONSE then retry_loop hw cmd arg isAcmd n response s
     else Some (response, s)
   }"

text \<open>The four octets of an R3 or R7 response.\<close>

definition read_u32 :: "'c hw \<Rightarrow> 'c sd_card \<Rightarrow> u32 \<times> 'c sd_card" where
  "read_u32 hw s =
     (let (a, s) = sd_spi_write hw SPI_FILL_CHAR s;
          (b, s) = sd_spi_write hw SPI_FILL_CHAR s;
          (c, s) = sd_spi_write hw SPI_FILL_CHAR s;
          (d, s) = sd_spi_write hw SPI_FILL_CHAR s
      in (push_bit 24 (ucast a) OR push_bit 16 (ucast b) OR push_bit 8 (ucast c) OR ucast d, s))"

text \<open>
  \<open>sd_cmd\<close>: the status, the value it stores through \<open>resp\<close> when that is not null, and the card.
\<close>

definition response_rest :: "'c hw \<Rightarrow> nat \<Rightarrow> u32 \<Rightarrow> 'c sd_card \<Rightarrow> (u32 \<times> 'c sd_card) option" where
  "response_rest hw cmd response s =
     (if cmd = CMD8_SEND_IF_COND then Some (read_u32 hw (s\<lparr>card_type := SDCARD_V2\<rparr>))
      else if cmd = CMD58_READ_OCR then Some (read_u32 hw s)
      else if cmd = CMD12_STOP_TRANSMISSION \<or> cmd = CMD38_ERASE
      then map_option (\<lambda>(_, s). (response, s)) (sd_wait_ready hw SD_COMMAND_TIMEOUT s)
      else if cmd = ACMD13_SD_STATUS
      then (let (r, s) = sd_spi_write hw SPI_FILL_CHAR s in Some (ucast r, s))
      else Some (response, s))"

definition response_status :: "u32 \<Rightarrow> int" where
  "response_status response =
     (if response AND R1_ERASE_RESET \<noteq> 0 \<or> response AND R1_ERASE_SEQUENCE_ERROR \<noteq> 0
      then SD_BLOCK_DEVICE_ERROR_ERASE
      else if response AND R1_ADDRESS_ERROR \<noteq> 0 \<or> response AND R1_PARAMETER_ERROR \<noteq> 0
      then SD_BLOCK_DEVICE_ERROR_PARAMETER
      else SD_BLOCK_DEVICE_ERROR_NONE)"

text \<open>What \<open>sd_cmd\<close> does once the response is there.\<close>

definition process_response :: "'c hw \<Rightarrow> nat \<Rightarrow> u32 \<Rightarrow> 'c sd_card \<Rightarrow> (int \<times> u32 \<times> 'c sd_card) option" where
  "process_response hw cmd response s =
     (if response = R1_NO_RESPONSE then Some (SD_BLOCK_DEVICE_ERROR_NO_DEVICE, response, s)
      else if response AND R1_COM_CRC_ERROR \<noteq> 0 then Some (SD_BLOCK_DEVICE_ERROR_CRC, response, s)
      else if response AND R1_ILLEGAL_COMMAND \<noteq> 0
      then Some (SD_BLOCK_DEVICE_ERROR_UNSUPPORTED, response,
             if cmd = CMD8_SEND_IF_COND then s\<lparr>card_type := CARD_UNKNOWN\<rparr> else s)
      else map_option (\<lambda>(r, s). (response_status response, r, s)) (response_rest hw cmd response s))"

definition sd_cmd ::
  "'c hw \<Rightarrow> nat \<Rightarrow> u32 \<Rightarrow> bool \<Rightarrow> 'c sd_card \<Rightarrow> (int \<times> u32 \<times> 'c sd_card) option" where
  "sd_cmd hw cmd arg isAcmd s = do {
     s \<leftarrow> (if cmd \<noteq> CMD12_STOP_TRANSMISSION
          then map_option snd (sd_wait_ready hw SD_COMMAND_TIMEOUT s) else Some s);
     (response, s) \<leftarrow> retry_loop hw cmd arg isAcmd 3 0 s;
     process_response hw cmd response s
   }"

section \<open>Card detection and initialisation\<close>

definition sd_card_detect :: "'c hw \<Rightarrow> 'c sd_card \<Rightarrow> bool \<times> 'c sd_card" where
  "sd_card_detect hw s =
     (if card_detected_true s \<noteq> 0 \<and> card_detected_true s \<noteq> 1
      then (True, s\<lparr>m_Status := m_Status s AND NOT STA_NODISK\<rparr>)
      else if (if pin_get hw (card_detect_gpio s) (bus s) then 1 else 0) = card_detected_true s
      then (True, s\<lparr>m_Status := m_Status s AND NOT STA_NODISK\<rparr>)
      else (False, s\<lparr>m_Status := m_Status s OR (STA_NODISK OR STA_NOINIT), card_type := SDCARD_NONE\<rparr>))"

text \<open>\<open>CMD0\<close>, up to ten times, until the card is idle.\<close>

fun go_idle_loop :: "'c hw \<Rightarrow> nat \<Rightarrow> u32 \<Rightarrow> 'c sd_card \<Rightarrow> (u32 \<times> 'c sd_card) option" where
  "go_idle_loop hw 0 response s = Some (response, s)"
| "go_idle_loop hw (Suc n) response s = do {
     (_, response, s) \<leftarrow> sd_cmd hw CMD0_GO_IDLE_STATE 0 False s;
     if response = R1_IDLE_STATE then Some (response, s)
     else do {
       let s = sd_unlock hw s;
       let s = s\<lparr>bus := busy_wait_us hw (100 * 1000) (bus s)\<rparr>;
       go_idle_loop hw n response (sd_lock hw s)
     }
   }"

definition sd_go_idle_state :: "'c hw \<Rightarrow> 'c sd_card \<Rightarrow> (u32 \<times> 'c sd_card) option" where
  "sd_go_idle_state hw s = go_idle_loop hw 10 0 s"

definition CMD8_PATTERN :: u32 where "CMD8_PATTERN = 0xAA"

definition sd_cmd8 :: "'c hw \<Rightarrow> 'c sd_card \<Rightarrow> (int \<times> 'c sd_card) option" where
  "sd_cmd8 hw s = do {
     let arg = push_bit 0 CMD8_PATTERN OR push_bit 8 1;
     (status, response, s) \<leftarrow> sd_cmd hw CMD8_SEND_IF_COND arg False s;
     if status = SD_BLOCK_DEVICE_ERROR_NONE \<and> card_type s = SDCARD_V2 \<and> response AND 0xFFF \<noteq> arg
     then Some (SD_BLOCK_DEVICE_ERROR_UNUSABLE, s\<lparr>card_type := CARD_UNKNOWN\<rparr>)
     else Some (status, s)
   }"

text \<open>\<open>ACMD41\<close>, until the card is no longer idle or the time is over.\<close>

partial_function (option) acmd41_loop ::
  "'c hw \<Rightarrow> u32 \<Rightarrow> nat \<Rightarrow> 'c sd_card \<Rightarrow> (int \<times> u32 \<times> 'c sd_card) option" where
  "acmd41_loop hw arg timeout_time s =
     Option.bind (sd_cmd hw ACMD41_SD_SEND_OP_COND arg True s) (\<lambda>(status, response, s).
       if response AND R1_IDLE_STATE \<noteq> 0 \<and> clock_us hw (bus s) < timeout_time
       then acmd41_loop hw arg timeout_time s else Some (status, response, s))"

text \<open>The steps of \<open>sd_initialise_card_nolock\<close> behind the voltage check.\<close>

definition initialise_capacity :: "'c hw \<Rightarrow> 'c sd_card \<Rightarrow> (int \<times> 'c sd_card) option" where
  "initialise_capacity hw s = do {
     let arg = (if card_type s = SDCARD_V2 then OCR_HCS_CCS else 0);
     (status, response, s) \<leftarrow> acmd41_loop hw arg (clock_us hw (bus s) + 1000 * SD_COMMAND_TIMEOUT) s;
     if status \<noteq> SD_BLOCK_DEVICE_ERROR_NONE \<or> response \<noteq> 0
     then Some (status, s\<lparr>card_type := CARD_UNKNOWN\<rparr>)
     else do {
       (status, s) \<leftarrow> (if card_type s = SDCARD_V2
         then do {
           (status, response, s) \<leftarrow> sd_cmd hw CMD58_READ_OCR 0 False s;
           Some (status, if status = SD_BLOCK_DEVICE_ERROR_NONE \<and> response AND OCR_HCS_CCS \<noteq> 0
                         then s\<lparr>card_type := SDCARD_V2HC\<rparr> else s)
         }
         else Some (status, s\<lparr>card_type := SDCARD_V1\<rparr>));
       if \<not> crc_on then map_option (\<lambda>(status, _, s). (status, s)) (sd_cmd hw CMD59_CRC_ON_OFF 0 False s)
       else Some (status, s)
     }
   }"

definition sd_initialise_card_nolock :: "'c hw \<Rightarrow> 'c sd_card \<Rightarrow> (int \<times> 'c sd_card) option" where
  "sd_initialise_card_nolock hw s = do {
     let s = sd_spi_go_low_frequency hw s;
     (idle, s) \<leftarrow> sd_go_idle_state hw s;
     if idle \<noteq> R1_IDLE_STATE then Some (SD_BLOCK_DEVICE_ERROR_NO_DEVICE, s)
     else do {
       (status, s) \<leftarrow> sd_cmd8 hw s;
       if status \<noteq> SD_BLOCK_DEVICE_ERROR_NONE \<and> status \<noteq> SD_BLOCK_DEVICE_ERROR_UNSUPPORTED
       then Some (status, s)
       else do {
         s \<leftarrow> (if crc_on then map_option (\<lambda>(_, _, s). s) (sd_cmd hw CMD59_CRC_ON_OFF 1 False s) else Some s);
         (status, response, s) \<leftarrow> sd_cmd hw CMD58_READ_OCR 0 False s;
         if status \<noteq> SD_BLOCK_DEVICE_ERROR_NONE then Some (status, s)
         else if response AND OCR_3_3V = 0
         then Some (SD_BLOCK_DEVICE_ERROR_UNUSABLE, s\<lparr>card_type := CARD_UNKNOWN\<rparr>)
         else initialise_capacity hw s
       }
     }
   }"

definition sd_initialise_card :: "'c hw \<Rightarrow> 'c sd_card \<Rightarrow> (int \<times> 'c sd_card) option" where
  "sd_initialise_card hw s =
     map_option (\<lambda>(rc, s). (rc, sd_unlock hw s)) (sd_initialise_card_nolock hw (sd_lock hw s))"

section \<open>Data blocks\<close>

partial_function (option) wait_token_loop ::
  "'c hw \<Rightarrow> u8 \<Rightarrow> nat \<Rightarrow> 'c sd_card \<Rightarrow> (bool \<times> 'c sd_card) option" where
  "wait_token_loop hw token timeout_time s =
     (case sd_spi_write hw SPI_FILL_CHAR s of
        (r, s) \<Rightarrow>
          if token = r then Some (True, s)
          else if clock_us hw (bus s) < timeout_time then wait_token_loop hw token timeout_time s
          else Some (False, s))"

definition sd_wait_token :: "'c hw \<Rightarrow> u8 \<Rightarrow> 'c sd_card \<Rightarrow> (bool \<times> 'c sd_card) option" where
  "sd_wait_token hw token s = wait_token_loop hw token (clock_us hw (bus s) + 1000 * SD_COMMAND_TIMEOUT) s"

text \<open>The checksum behind a block, high octet first.\<close>

definition read_crc :: "'c hw \<Rightarrow> 'c sd_card \<Rightarrow> u16 \<times> 'c sd_card" where
  "read_crc hw s =
     (let (a, s) = sd_spi_write hw SPI_FILL_CHAR s; (b, s) = sd_spi_write hw SPI_FILL_CHAR s
      in (push_bit 8 (ucast a) OR ucast b, s))"

definition check_crc :: "'c hw \<Rightarrow> u8 list \<Rightarrow> nat \<Rightarrow> 'c sd_card \<Rightarrow> (int \<times> 'c sd_card) option" where
  "check_crc hw data len s = do {
     let (crc, s) = read_crc hw s;
     crc_result \<leftarrow> crc16 data len;
     Some (if crc_on \<and> crc_result \<noteq> crc then SD_BLOCK_DEVICE_ERROR_CRC else SD_BLOCK_DEVICE_ERROR_NONE, s)
   }"

text \<open>\<open>sd_read_bytes\<close> reads octet by octet, \<open>sd_read_block\<close> by a DMA transfer; both give the data stored.\<close>

fun read_octets :: "'c hw \<Rightarrow> nat \<Rightarrow> 'c sd_card \<Rightarrow> u8 list \<times> 'c sd_card" where
  "read_octets hw 0 s = ([], s)"
| "read_octets hw (Suc n) s =
     (let (b, s) = sd_spi_write hw SPI_FILL_CHAR s; (bs, s) = read_octets hw n s in (b # bs, s))"

definition sd_read_bytes :: "'c hw \<Rightarrow> nat \<Rightarrow> 'c sd_card \<Rightarrow> (int \<times> u8 list \<times> 'c sd_card) option" where
  "sd_read_bytes hw len s = do {
     (found, s) \<leftarrow> sd_wait_token hw SPI_START_BLOCK s;
     if \<not> found then Some (SD_BLOCK_DEVICE_ERROR_NO_RESPONSE, [], s)
     else do {
       let (data, s) = read_octets hw len s;
       (rc, s) \<leftarrow> check_crc hw data len s;
       Some (rc, data, s)
     }
   }"

definition sd_read_block :: "'c hw \<Rightarrow> nat \<Rightarrow> 'c sd_card \<Rightarrow> (int \<times> u8 list \<times> 'c sd_card) option" where
  "sd_read_block hw len s = do {
     (found, s) \<leftarrow> sd_wait_token hw SPI_START_BLOCK s;
     if \<not> found then Some (SD_BLOCK_DEVICE_ERROR_NO_RESPONSE, [], s)
     else do {
       (ok, data, s) \<leftarrow> sd_spi_transfer hw None True len s;
       if \<not> ok then Some (SD_BLOCK_DEVICE_ERROR_NO_RESPONSE, data, s)
       else do {
         (rc, s) \<leftarrow> check_crc hw data len s;
         Some (rc, data, s)
       }
     }
   }"

section \<open>Capacity\<close>

text \<open>\<open>ext_bits\<close>: the bits \<open>msb\<close> to \<open>lsb\<close> of the 16-octet register, octet 15 the lowest.\<close>

fun ext_bits_loop :: "u8 list \<Rightarrow> nat \<Rightarrow> nat \<Rightarrow> nat \<Rightarrow> u32 \<Rightarrow> u32 option" where
  "ext_bits_loop data lsb i 0 bits = Some bits"
| "ext_bits_loop data lsb i (Suc n) bits = do {
     let position = lsb + i;
     d \<leftarrow> (if 15 < position div 8 then None else rd data (15 - position div 8));
     let value = drop_bit (position mod 8) (ucast d :: u32) AND 1;
     ext_bits_loop data lsb (Suc i) n (bits OR push_bit i value)
   }"

definition ext_bits :: "u8 list \<Rightarrow> nat \<Rightarrow> nat \<Rightarrow> u32 option" where
  "ext_bits data msb lsb = ext_bits_loop data lsb 0 (1 + msb - lsb) 0"

definition csd_sectors :: "u8 list \<Rightarrow> u64 option" where
  "csd_sectors csd = do {
     csd_structure \<leftarrow> ext_bits csd 127 126;
     if csd_structure = 0
     then do {
       c_size \<leftarrow> ext_bits csd 73 62;
       c_size_mult \<leftarrow> ext_bits csd 49 47;
       read_bl_len \<leftarrow> ext_bits csd 83 80;
       let block_len = (push_bit (unat read_bl_len) 1 :: u32);
       let mult = (push_bit (unat (c_size_mult + 2)) 1 :: u32);
       let blocknr = (c_size + 1) * mult;
       let capacity = (ucast blocknr * ucast block_len :: u64);
       Some (capacity div 512)
     }
     else if csd_structure = 1
     then do {
       hc_c_size \<leftarrow> ext_bits csd 69 48;
       Some (ucast (push_bit 10 (hc_c_size + 1)))
     }
     else None
   }"

definition sd_sectors_nolock :: "'c hw \<Rightarrow> 'c sd_card \<Rightarrow> (u64 \<times> 'c sd_card) option" where
  "sd_sectors_nolock hw s = do {
     (rc, _, s) \<leftarrow> sd_cmd hw CMD9_SEND_CSD 0 False s;
     if rc \<noteq> 0 then Some (0, s)
     else do {
       (rc, csd, s) \<leftarrow> sd_read_bytes hw 16 s;
       if rc \<noteq> 0 then Some (0, s)
       else do { blocks \<leftarrow> csd_sectors csd; Some (blocks, s) }
     }
   }"

definition sd_sectors :: "'c hw \<Rightarrow> 'c sd_card \<Rightarrow> (u64 \<times> 'c sd_card) option" where
  "sd_sectors hw s =
     map_option (\<lambda>(n, s). (n, sd_unlock hw s)) (sd_sectors_nolock hw (sd_lock hw s))"

text \<open>\<open>sd_init_card\<close> gives the disk status; \<open>driver_initialized\<close> is asserted.\<close>

definition sd_init_card :: "'c hw \<Rightarrow> bool \<Rightarrow> 'c sd_card \<Rightarrow> (u32 \<times> 'c sd_card) option" where
  "sd_init_card hw driver_initialized s =
     (if \<not> driver_initialized then None
      else let s = snd (sd_card_detect hw s)
      in if m_Status s AND STA_NODISK \<noteq> 0 then Some (m_Status s, s)
      else if m_Status s AND STA_NOINIT = 0 then Some (m_Status s, s)
      else do {
        (err, s) \<leftarrow> sd_initialise_card hw (s\<lparr>card_type := SDCARD_NONE\<rparr>);
        if err \<noteq> SD_BLOCK_DEVICE_ERROR_NONE then Some (m_Status s, s)
        else do {
          (n, s) \<leftarrow> sd_sectors hw s;
          let s = s\<lparr>sectors := n\<rparr>;
          if n = 0 then Some (m_Status s, s)
          else do {
            (rc, _, s) \<leftarrow> sd_cmd hw CMD16_SET_BLOCKLEN (of_nat BLOCK_SIZE_HC) False (sd_lock hw s);
            if rc \<noteq> 0 then (let s = sd_unlock hw s in Some (m_Status s, s))
            else do {
              let s = sd_spi_go_high_frequency hw s;
              let s = sd_unlock hw (s\<lparr>m_Status := m_Status s AND NOT STA_NOINIT\<rparr>);
              Some (m_Status s, s)
            }
          }
        }
      })"

end
