(* ===== verification/Sd_Card_Facts.thy ===== *)
theory Sd_Card_Facts
  imports Sd_Card
begin

text \<open>
  What holds of the SD card driver of \<^theory_text>\<open>Sd_Card\<close>: which fields an operation leaves alone, that
  its waits end when the timer runs, the fields of the CSD register and the capacity, what
  initialisation establishes, and the properties of commands and of the start of a card.
\<close>

section \<open>What the operations leave alone\<close>

text \<open>Two cards that differ at most in the state of the bus and of its transfers.\<close>

definition only_bus :: "'c sd_card \<Rightarrow> 'c sd_card \<Rightarrow> bool" where
  "only_bus s s' \<longleftrightarrow> s' = s\<lparr>bus := bus s', spi := spi s'\<rparr>"

lemma only_bus_refl [simp, intro]: "only_bus s s"
  by (simp add: only_bus_def)

lemma only_bus_trans [trans]: "only_bus s t \<Longrightarrow> only_bus t u \<Longrightarrow> only_bus s u"
  unfolding only_bus_def by (cases s; cases t; cases u) simp

lemma only_bus_fields:
  "only_bus s s' \<Longrightarrow> card_type s' = card_type s \<and> m_Status s' = m_Status s \<and> sectors s' = sectors s \<and>
     card_detected_true s' = card_detected_true s"
  unfolding only_bus_def by (cases s; cases s') simp

lemma only_bus_update [simp]: "only_bus s (s\<lparr>bus := c\<rparr>)" "only_bus s (s\<lparr>spi := sp, bus := c\<rparr>)"
  by (simp_all add: only_bus_def)

lemma sd_spi_write_frame [simp]: "only_bus s (snd (sd_spi_write hw b s))"
  by (simp add: sd_spi_write_def split_def Let_def)

lemma sd_spi_write_frame': "sd_spi_write hw b s = (r, s') \<Longrightarrow> only_bus s s'"
  by (metis sd_spi_write_frame snd_conv)

lemma send_octets_frame: "only_bus s (send_octets hw bs s)"
  by (induction bs arbitrary: s) (auto intro: only_bus_trans [OF sd_spi_write_frame])

lemma response_loop_frame: "only_bus s (snd (response_loop hw n r s))"
  by (induction n arbitrary: r s)
    (auto simp: Let_def split: prod.split dest: sd_spi_write_frame' intro: only_bus_trans)

lemma response_loop_frame': "response_loop hw n r s = (r', s') \<Longrightarrow> only_bus s s'"
  by (metis response_loop_frame snd_conv)

lemma sd_cmd_spi_frame: "sd_cmd_spi hw cmd arg s = Some (r, s') \<Longrightarrow> only_bus s s'"
  by (auto simp: sd_cmd_spi_def Let_def bind_eq_Some_conv split: if_splits dest!: response_loop_frame'
      intro: only_bus_trans [OF send_octets_frame]
        only_bus_trans [OF send_octets_frame only_bus_trans [OF sd_spi_write_frame]])

lemma wait_ready_loop_frame:
  assumes "wait_ready_loop hw t s = Some y"
  shows "only_bus s (snd y)"
proof (rule wait_ready_loop.raw_induct [where P = "\<lambda>hw t s y. only_bus s (snd y)", OF _ assms])
  fix f :: "'b hw \<Rightarrow> nat \<Rightarrow> 'b sd_card \<Rightarrow> (u8 \<times> 'b sd_card) option" and hw t s y
  assume IH: "\<And>hw t s y. f hw t s = Some y \<Longrightarrow> only_bus s (snd y)"
    and step: "(case sd_spi_write hw 0xFF s of (resp, s) \<Rightarrow>
      if resp = 0 \<and> clock_us hw (bus s) < t then f hw t s else Some (resp, s)) = Some y"
  obtain r c where w: "sd_spi_write hw 0xFF s = (r, c)" by (rule prod.exhaust)
  have "f hw t c = Some y \<or> y = (r, c)" using step by (simp add: w split: if_splits)
  then have "only_bus c (snd y)" using IH [of hw t c y] by auto
  with sd_spi_write_frame' [OF w] show "only_bus s (snd y)" by (rule only_bus_trans)
qed

lemma sd_wait_ready_frame: "sd_wait_ready hw t s = Some (r, s') \<Longrightarrow> only_bus s s'"
  by (auto simp: sd_wait_ready_def dest: wait_ready_loop_frame)

lemma retry_loop_frame: "retry_loop hw cmd arg isAcmd n r s = Some (r', s') \<Longrightarrow> only_bus s s'"
proof (induction n arbitrary: r s)
  case (Suc n)
  obtain s1 r2 s2 where pre: "(if isAcmd then Option.bind (sd_cmd_spi hw CMD55_APP_CMD 0 s)
      (\<lambda>(_, s). Option.bind (sd_wait_ready hw SD_COMMAND_TIMEOUT s) (\<lambda>(_, s). Some s)) else Some s) = Some s1"
    and cmd: "sd_cmd_spi hw cmd arg s1 = Some (r2, s2)"
    and rest: "retry_loop hw cmd arg isAcmd n (ucast r2) s2 = Some (r', s') \<or> s2 = s'"
    using Suc.prems unfolding retry_loop.simps Let_def bind_eq_Some_conv
    by (elim exE conjE) (auto split: if_splits)
  have "only_bus s s1" using pre
    by (auto simp: bind_eq_Some_conv split: if_splits dest!: sd_cmd_spi_frame sd_wait_ready_frame
        elim: only_bus_trans)
  also have "only_bus s1 s2" using cmd by (rule sd_cmd_spi_frame)
  also have "only_bus s2 s'" using rest Suc.IH by auto
  finally show ?case .
qed simp

lemma read_u32_frame: "read_u32 hw s = (r, s') \<Longrightarrow> only_bus s s'"
  by (auto simp: read_u32_def Let_def split: prod.splits intro: only_bus_trans dest!: sd_spi_write_frame')

lemma response_rest_frame:
  "response_rest hw cmd r s = Some (r', s') \<Longrightarrow>
     only_bus (if cmd = CMD8_SEND_IF_COND then s\<lparr>card_type := SDCARD_V2\<rparr> else s) s'"
  by (auto simp: response_rest_def Let_def split: if_splits prod.splits
      dest: read_u32_frame sd_wait_ready_frame sd_spi_write_frame')

text \<open>A command changes the bus alone; \<open>CMD8\<close> changes the type as well.\<close>

lemma process_response_frame:
  assumes "process_response hw cmd r s = Some (st, r', s')"
  shows "\<exists>t. only_bus (s\<lparr>card_type := t\<rparr>) s' \<and> (cmd \<noteq> CMD8_SEND_IF_COND \<longrightarrow> t = card_type s)"
proof (cases "cmd = CMD8_SEND_IF_COND")
  case True
  have "s = s\<lparr>card_type := card_type s\<rparr>" by simp
  then have "only_bus (s\<lparr>card_type := card_type s\<rparr>) s' \<or> only_bus (s\<lparr>card_type := CARD_UNKNOWN\<rparr>) s' \<or>
      only_bus (s\<lparr>card_type := SDCARD_V2\<rparr>) s'"
    using assms True by (auto simp: process_response_def split: if_splits dest!: response_rest_frame)
  then show ?thesis using True by blast
next
  case False
  have "only_bus s s'"
    using assms False by (auto simp: process_response_def split: if_splits dest!: response_rest_frame)
  then show ?thesis using False by auto
qed

lemma sd_cmd_frame:
  assumes "sd_cmd hw cmd arg isAcmd s = Some (st, r, s')"
  shows "\<exists>t. only_bus (s\<lparr>card_type := t\<rparr>) s' \<and> (cmd \<noteq> CMD8_SEND_IF_COND \<longrightarrow> t = card_type s)"
proof -
  obtain s1 r1 s2 where pre: "(if cmd \<noteq> CMD12_STOP_TRANSMISSION
          then map_option snd (sd_wait_ready hw SD_COMMAND_TIMEOUT s) else Some s) = Some s1"
    and retry: "retry_loop hw cmd arg isAcmd 3 0 s1 = Some (r1, s2)"
    and p: "process_response hw cmd r1 s2 = Some (st, r, s')"
    using assms unfolding sd_cmd_def bind_eq_Some_conv by (elim exE conjE) auto
  have "only_bus s s1" using pre by (auto split: if_splits dest: sd_wait_ready_frame)
  also have "only_bus s1 s2" using retry by (rule retry_loop_frame)
  finally have 12: "only_bus s s2" .
  have "only_bus (s\<lparr>card_type := t\<rparr>) (s2\<lparr>card_type := t\<rparr>)" for t
    using 12 by (cases s; cases s2) (simp add: only_bus_def)
  moreover have "card_type s2 = card_type s" using 12 by (simp add: only_bus_fields)
  ultimately show ?thesis using process_response_frame [OF p] by (auto intro: only_bus_trans)
qed

lemma sd_cmd_only_bus:
  "sd_cmd hw cmd arg isAcmd s = Some (st, r, s') \<Longrightarrow> cmd \<noteq> CMD8_SEND_IF_COND \<Longrightarrow> only_bus s s'"
  by (auto dest!: sd_cmd_frame)

section \<open>The waits end\<close>

text \<open>A bus on which an exchange takes time.\<close>

definition ticks :: "'c hw \<Rightarrow> bool" where
  "ticks hw \<longleftrightarrow> (\<forall>b c. clock_us hw c < clock_us hw (snd (xfer hw b c)))"

definition now :: "'c hw \<Rightarrow> 'c sd_card \<Rightarrow> nat" where
  "now hw s = clock_us hw (bus s)"

lemma now_sd_spi_write: "ticks hw \<Longrightarrow> now hw s < now hw (snd (sd_spi_write hw b s))"
  by (simp add: ticks_def now_def sd_spi_write_def split_def Let_def)

lemma now_sd_spi_write': "ticks hw \<Longrightarrow> sd_spi_write hw b s = (r, s') \<Longrightarrow> now hw s < now hw s'"
  by (metis now_sd_spi_write snd_conv)

lemma now_send_octets: "ticks hw \<Longrightarrow> now hw s + length bs \<le> now hw (send_octets hw bs s)"
proof (induction bs arbitrary: s)
  case (Cons b bs)
  have "now hw s < now hw (snd (sd_spi_write hw b s))" using Cons.prems by (rule now_sd_spi_write)
  also have "\<dots> + length bs \<le> now hw (send_octets hw bs (snd (sd_spi_write hw b s)))"
    using Cons by blast
  finally show ?case by simp
qed simp

lemma now_response_loop: "ticks hw \<Longrightarrow> now hw s \<le> now hw (snd (response_loop hw n r s))"
proof (induction n arbitrary: r s)
  case (Suc n)
  obtain q s' where w: "sd_spi_write hw SPI_FILL_CHAR s = (q, s')" by (rule prod.exhaust)
  have "now hw s < now hw s'" using Suc.prems w by (rule now_sd_spi_write')
  then show ?case using Suc.IH [OF Suc.prems, of s' q] by (simp add: w)
qed simp

lemma cmd_packet_total: "\<exists>p. cmd_packet cmd arg = Some p \<and> length p = 6"
  using crc7_serial [of 5 "[SPI_CMD cmd, ucast (drop_bit 24 arg), ucast (drop_bit 16 arg), ucast (drop_bit 8 arg), ucast arg]"]
  by (auto simp: cmd_packet_def crc_on_def Let_def)

lemma sd_cmd_spi_total:
  assumes "ticks hw"
  shows "\<exists>r s'. sd_cmd_spi hw cmd arg s = Some (r, s') \<and> now hw s < now hw s'"
proof -
  obtain p where p: "cmd_packet cmd arg = Some p" "length p = 6" using cmd_packet_total by blast
  let ?s1 = "send_octets hw p s"
  let ?s2 = "if cmd = CMD12_STOP_TRANSMISSION then snd (sd_spi_write hw SPI_FILL_CHAR ?s1) else ?s1"
  have "now hw s < now hw ?s1" using now_send_octets [OF assms, of s p] p by simp
  also have "\<dots> \<le> now hw ?s2" using now_sd_spi_write [OF assms, of ?s1] by (simp add: less_imp_le)
  also have "\<dots> \<le> now hw (snd (response_loop hw 0x10 0 ?s2))" using assms by (rule now_response_loop)
  finally show ?thesis
    by (cases "response_loop hw 0x10 0 ?s2") (simp add: sd_cmd_spi_def p Let_def)
qed

lemma wait_ready_loop_total:
  assumes "ticks hw"
  shows "\<exists>r s'. wait_ready_loop hw t s = Some (r, s') \<and> now hw s < now hw s'"
proof (induction "t - now hw s" arbitrary: s rule: less_induct)
  case less
  obtain r c where w: "sd_spi_write hw 0xFF s = (r, c)" by (rule prod.exhaust)
  have later: "now hw s < now hw c" using assms w by (rule now_sd_spi_write')
  show ?case
  proof (cases "r = 0 \<and> clock_us hw (bus c) < t")
    case True
    then have "t - now hw c < t - now hw s" using later by (auto simp: now_def intro: diff_less_mono2)
    then obtain r' s' where "wait_ready_loop hw t c = Some (r', s')" "now hw c < now hw s'"
      using less by blast
    then show ?thesis using True later by (subst wait_ready_loop.simps) (auto simp: w)
  next
    case False
    then show ?thesis using later by (subst wait_ready_loop.simps) (auto simp: w)
  qed
qed

lemma sd_wait_ready_total:
  assumes "ticks hw"
  shows "\<exists>r s'. sd_wait_ready hw t s = Some (r, s') \<and> now hw s < now hw s'"
  using wait_ready_loop_total [OF assms, of "clock_us hw (bus s) + 1000 * t" s]
  by (auto simp: sd_wait_ready_def)

lemma retry_loop_total:
  assumes "ticks hw"
  shows "\<exists>r' s'. retry_loop hw cmd arg isAcmd n r s = Some (r', s') \<and> now hw s + min n 1 \<le> now hw s'"
proof (induction n arbitrary: r s)
  case (Suc n)
  obtain r1 s1 where 1: "sd_cmd_spi hw CMD55_APP_CMD 0 s = Some (r1, s1)" "now hw s < now hw s1"
    using sd_cmd_spi_total [OF assms] by blast
  obtain r2 s2 where 2: "sd_wait_ready hw SD_COMMAND_TIMEOUT s1 = Some (r2, s2)" "now hw s1 < now hw s2"
    using sd_wait_ready_total [OF assms] by blast
  let ?s = "if isAcmd then s2 else s"
  obtain r3 s3 where 3: "sd_cmd_spi hw cmd arg ?s = Some (r3, s3)" "now hw ?s < now hw s3"
    using sd_cmd_spi_total [OF assms] by blast
  obtain r4 s4 where 4: "retry_loop hw cmd arg isAcmd n (ucast r3) s3 = Some (r4, s4)" "now hw s3 \<le> now hw s4"
    using Suc.IH by (meson add_leD1)
  have "now hw s < now hw s3" using 1 2 3 by (auto split: if_splits)
  then show ?case using 1(1) 2(1) 3(1) 4 by (cases isAcmd) (auto simp: Let_def)
qed simp

lemma response_rest_total:
  assumes "ticks hw"
  shows "\<exists>r' s'. response_rest hw cmd r s = Some (r', s') \<and> now hw s \<le> now hw s'"
proof -
  have now: "now hw (s\<lparr>card_type := t\<rparr>) = now hw s" for s :: "'a sd_card" and t by (simp add: now_def)
  have u: "now hw s \<le> now hw (snd (read_u32 hw s))" for s
    by (auto simp: read_u32_def Let_def split: prod.splits
        dest!: now_sd_spi_write' [OF assms])
  have w: "now hw s \<le> now hw (snd (sd_spi_write hw SPI_FILL_CHAR s))"
    using now_sd_spi_write [OF assms, of s] by (rule less_imp_le)
  show ?thesis
    using u [of s] u [of "s\<lparr>card_type := SDCARD_V2\<rparr>"] w sd_wait_ready_total [OF assms, of SD_COMMAND_TIMEOUT s]
    by (cases "read_u32 hw s"; cases "read_u32 hw (s\<lparr>card_type := SDCARD_V2\<rparr>)";
        cases "sd_spi_write hw SPI_FILL_CHAR s") (auto simp: response_rest_def now)
qed

lemma process_response_total:
  assumes "ticks hw"
  shows "\<exists>st r' s'. process_response hw cmd r s = Some (st, r', s') \<and> now hw s \<le> now hw s'"
  using response_rest_total [OF assms, of cmd r s] by (auto simp: process_response_def now_def)

lemma sd_cmd_total:
  assumes "ticks hw"
  shows "\<exists>st r s'. sd_cmd hw cmd arg isAcmd s = Some (st, r, s') \<and> now hw s < now hw s'"
proof -
  obtain r1 s1 where 1: "sd_wait_ready hw SD_COMMAND_TIMEOUT s = Some (r1, s1)" "now hw s < now hw s1"
    using sd_wait_ready_total [OF assms] by blast
  let ?s = "if cmd \<noteq> CMD12_STOP_TRANSMISSION then s1 else s"
  obtain r2 s2 where 2: "retry_loop hw cmd arg isAcmd 3 0 ?s = Some (r2, s2)" "now hw ?s + min 3 1 \<le> now hw s2"
    using retry_loop_total [OF assms] by blast
  obtain st r3 s3 where 3: "process_response hw cmd r2 s2 = Some (st, r3, s3)" "now hw s2 \<le> now hw s3"
    using process_response_total [OF assms] by blast
  have "now hw s < now hw s3" using 1(2) 2(2) 3(2) by (simp split: if_splits)
  then show ?thesis using 1(1) 2(1) 3(1) unfolding sd_cmd_def
    by (cases "cmd = CMD12_STOP_TRANSMISSION") (auto simp del: retry_loop.simps)
qed

lemma acmd41_loop_total:
  assumes "ticks hw"
  shows "\<exists>y. acmd41_loop hw arg t s = Some y"
proof (induction "t - now hw s" arbitrary: s rule: less_induct)
  case less
  obtain st r c where w: "sd_cmd hw ACMD41_SD_SEND_OP_COND arg True s = Some (st, r, c)"
    and later: "now hw s < now hw c" using sd_cmd_total [OF assms] by blast
  show ?case
  proof (cases "r AND R1_IDLE_STATE \<noteq> 0 \<and> clock_us hw (bus c) < t")
    case True
    then have "t - now hw c < t - now hw s" using later by (auto simp: now_def intro: diff_less_mono2)
    then obtain y where "acmd41_loop hw arg t c = Some y" using less by blast
    then show ?thesis using True by (intro exI [of _ y], subst acmd41_loop.simps) (simp add: w)
  next
    case False
    then show ?thesis by (subst acmd41_loop.simps) (auto simp: w)
  qed
qed

lemma go_idle_loop_total: "ticks hw \<Longrightarrow> \<exists>y. go_idle_loop hw n r s = Some y"
proof (induction n arbitrary: r s)
  case (Suc n)
  obtain st q c where "sd_cmd hw CMD0_GO_IDLE_STATE 0 False s = Some (st, q, c)"
    using sd_cmd_total [OF Suc.prems] by blast
  then show ?case using Suc by (simp add: Let_def)
qed simp

lemma wait_token_loop_total:
  assumes "ticks hw"
  shows "\<exists>y. wait_token_loop hw tok t s = Some y"
proof (induction "t - now hw s" arbitrary: s rule: less_induct)
  case less
  obtain r c where w: "sd_spi_write hw SPI_FILL_CHAR s = (r, c)" by (rule prod.exhaust)
  have later: "now hw s < now hw c" using assms w by (rule now_sd_spi_write')
  show ?case
  proof (cases "tok \<noteq> r \<and> clock_us hw (bus c) < t")
    case True
    then have "t - now hw c < t - now hw s" using later by (auto simp: now_def intro: diff_less_mono2)
    then obtain y where "wait_token_loop hw tok t c = Some y" using less by blast
    then show ?thesis using True by (subst wait_token_loop.simps) (auto simp: w)
  next
    case False
    then show ?thesis by (subst wait_token_loop.simps) (auto simp: w)
  qed
qed


section \<open>The fields of the CSD register\<close>

text \<open>The register as a number, first octet highest, and a field of it.\<close>

definition csd_register :: "u8 list \<Rightarrow> nat" where
  "csd_register csd = foldl (\<lambda>r b. push_bit 8 r OR unat b) 0 csd"

definition csd_field :: "u8 list \<Rightarrow> nat \<Rightarrow> nat \<Rightarrow> nat" where
  "csd_field csd msb lsb = take_bit (msb + 1 - lsb) (drop_bit lsb (csd_register csd))"

lemma bit_csd_register:
  "p < 8 * length csd \<Longrightarrow> bit (csd_register csd) p = bit (csd ! (length csd - 1 - p div 8)) (p mod 8)"
proof (induction csd arbitrary: p rule: rev_induct)
  case (snoc b csd)
  have reg: "csd_register (csd @ [b]) = push_bit 8 (csd_register csd) OR unat b"
    by (simp add: csd_register_def)
  have u: "bit (unat b) n \<longleftrightarrow> bit b n" for n by (simp add: bit_unsigned_iff)
  show ?case
  proof (cases "p < 8")
    case True
    then show ?thesis by (simp add: reg bit_or_iff bit_push_bit_iff u)
  next
    case False
    then have "bit (csd_register (csd @ [b])) p = bit (csd_register csd) (p - 8)"
      using bit_imp_le_length [of b p] by (auto simp: reg bit_or_iff bit_push_bit_iff u)
    also have "\<dots> = bit (csd ! (length csd - 1 - (p - 8) div 8)) ((p - 8) mod 8)"
      using False snoc.prems by (intro snoc.IH) simp
    finally have low: "bit (csd_register (csd @ [b])) p = bit (csd ! (length csd - 1 - (p - 8) div 8)) ((p - 8) mod 8)" .
    have idx: "p div 8 = Suc ((p - 8) div 8)" "(p - 8) mod 8 = p mod 8"
      using False by (simp_all add: le_div_geq le_mod_geq)
    obtain q where q: "q = (p - 8) div 8" by blast
    have "q < length csd" using False snoc.prems q by auto
    then have "length csd - Suc q < length csd" by arith
    then show ?thesis by (simp add: low idx nth_append flip: q)
  qed
qed (simp add: csd_register_def)

lemma ext_bits_loop_bits:
  assumes "length csd = 16" and "lsb + i + n \<le> 128" and "i + n \<le> 32"
  shows "\<exists>w. ext_bits_loop csd lsb i n b = Some w \<and>
    (\<forall>k. bit w k \<longleftrightarrow> bit b k \<or> i \<le> k \<and> k < i + n \<and> bit (csd_register csd) (lsb + k))"
  using assms(2,3)
proof (induction n arbitrary: i b)
  case (Suc n)
  let ?p = "lsb + i"
  let ?d = "csd ! (15 - ?p div 8)"
  let ?v = "drop_bit (?p mod 8) (ucast ?d :: u32) AND 1"
  let ?b = "b OR push_bit i ?v"
  have pos: "?p < 128" "?p div 8 \<le> 15" using Suc.prems by auto
  have v: "bit ?v k \<longleftrightarrow> k = 0 \<and> bit (csd_register csd) ?p" for k
    using bit_csd_register [of ?p csd] assms(1) pos
    by (cases k) (auto simp: bit_and_iff bit_drop_bit_eq bit_ucast_iff bit_1_iff)
  have b: "bit ?b k \<longleftrightarrow> bit b k \<or> k = i \<and> bit (csd_register csd) (lsb + k)" for k
    using Suc.prems
    by (auto simp only: bit_or_iff bit_push_bit_iff v not_le le_add_diff_inverse) (auto simp: not_le)
  obtain w where w: "ext_bits_loop csd lsb (Suc i) n ?b = Some w"
    "\<forall>k. bit w k \<longleftrightarrow> bit ?b k \<or> Suc i \<le> k \<and> k < Suc i + n \<and> bit (csd_register csd) (lsb + k)"
    using Suc.IH [of "Suc i" ?b] Suc.prems by auto
  have "ext_bits_loop csd lsb i (Suc n) b = Some w"
    using w(1) pos assms(1) by (simp add: Let_def)
  moreover have "bit w k \<longleftrightarrow> bit b k \<or> i \<le> k \<and> k < i + Suc n \<and> bit (csd_register csd) (lsb + k)" for k
    unfolding w(2) [rule_format] b by auto
  ultimately show ?case by blast
qed auto

lemma ext_bits_field:
  assumes "length csd = 16" and "lsb \<le> msb" and "msb < 128" and "msb - lsb < 32"
  shows "\<exists>w. ext_bits csd msb lsb = Some w \<and> unat w = csd_field csd msb lsb"
proof -
  obtain w where w: "ext_bits_loop csd lsb 0 (1 + msb - lsb) 0 = Some w"
    "\<forall>k. bit w k \<longleftrightarrow> k < 1 + msb - lsb \<and> bit (csd_register csd) (lsb + k)"
    using ext_bits_loop_bits [of csd lsb 0 "1 + msb - lsb" 0] assms by fastforce
  have "unat w = csd_field csd msb lsb"
    by (rule bit_eqI) (use w(2) in \<open>auto simp: csd_field_def bit_take_bit_iff bit_drop_bit_eq bit_unsigned_iff\<close>)
  then show ?thesis using w(1) by (auto simp: ext_bits_def)
qed

lemma csd_field_less: "csd_field csd msb lsb < 2 ^ (msb + 1 - lsb)"
  by (simp add: csd_field_def)


text \<open>The capacity in blocks of 512 octets, of either version of the register.\<close>

definition csd_capacity :: "u8 list \<Rightarrow> nat option" where
  "csd_capacity csd =
     (if csd_field csd 127 126 = 0
      then Some ((csd_field csd 73 62 + 1) * 2 ^ (csd_field csd 49 47 + 2) * 2 ^ csd_field csd 83 80 div 512)
      else if csd_field csd 127 126 = 1 then Some ((csd_field csd 69 48 + 1) * 1024)
      else None)"

lemma unat_shift_1: "n < 32 \<Longrightarrow> unat (push_bit n 1 :: u32) = 2 ^ n"
proof -
  assume "n < 32"
  then have "(2 :: nat) ^ n < 2 ^ 32" by (intro power_strict_increasing) auto
  moreover have "push_bit n (1 :: u32) = of_nat (2 ^ n)" by (simp add: push_bit_eq_mult)
  ultimately show ?thesis by (simp only: unat_of_nat) simp
qed

lemma unat_mult_64:
  "unat (x :: u32) * unat (y :: u32) < 2 ^ 64 \<Longrightarrow> unat (ucast x * ucast y :: u64) = unat x * unat y"
  by (simp add: unat_word_ariths unat_ucast_64)

lemma csd_sectors_0:
  assumes len: "length csd = 16" and s: "csd_field csd 127 126 = 0"
  shows "map_option unat (csd_sectors csd) = csd_capacity csd"
proof -
  obtain w where w: "ext_bits csd 127 126 = Some w" "unat w = 0"
    using ext_bits_field [OF len, of 126 127] s by auto
  obtain c where c: "ext_bits csd 73 62 = Some c" "unat c = csd_field csd 73 62"
    using ext_bits_field [OF len, of 62 73] by auto
  obtain m where m: "ext_bits csd 49 47 = Some m" "unat m = csd_field csd 49 47"
    using ext_bits_field [OF len, of 47 49] by auto
  obtain l where l: "ext_bits csd 83 80 = Some l" "unat l = csd_field csd 83 80"
    using ext_bits_field [OF len, of 80 83] by auto
  have bc: "unat c < 4096" and bm: "unat m < 8" and bl: "unat l < 16"
    using csd_field_less [of csd 73 62] csd_field_less [of csd 49 47] csd_field_less [of csd 83 80] c m l
    by simp_all
  have m2: "unat (m + 2) = unat m + 2" using bm by (simp add: unat_word_ariths)
  have mult: "unat (push_bit (unat (m + 2)) 1 :: u32) = 2 ^ (unat m + 2)"
    using bm by (simp only: m2 unat_shift_1)
  have bmult: "(2 :: nat) ^ (unat m + 2) \<le> 2 ^ 9" using bm by (intro power_increasing) auto
  have bl2: "(2 :: nat) ^ unat l \<le> 2 ^ 15" using bl by (intro power_increasing) auto
  have c1: "unat (c + 1) = unat c + 1" using bc by (simp add: unat_word_ariths)
  have prod: "(unat c + 1) * 2 ^ (unat m + 2) \<le> 4096 * 2 ^ 9" using bc bmult by (intro mult_le_mono) auto
  then have blk: "unat ((c + 1) * push_bit (unat (m + 2)) 1) = (unat c + 1) * 2 ^ (unat m + 2)"
    by (simp only: unat_word_ariths(2) c1 mult) simp
  have all: "(unat c + 1) * 2 ^ (unat m + 2) * 2 ^ unat l \<le> 4096 * 2 ^ 9 * 2 ^ 15"
    using prod bl2 by (rule mult_le_mono)
  have len2: "unat (push_bit (unat l) 1 :: u32) = 2 ^ unat l" using bl by (simp only: unat_shift_1)
  have "(unat c + 1) * 2 ^ (unat m + 2) * 2 ^ unat l < 2 ^ 64" using all by (rule le_less_trans) simp
  then have cap: "unat (ucast ((c + 1) * push_bit (unat (m + 2)) 1 :: u32) * ucast (push_bit (unat l) 1 :: u32) :: u64)
      = (unat c + 1) * 2 ^ (unat m + 2) * 2 ^ unat l"
    using unat_mult_64 [of "(c + 1) * push_bit (unat (m + 2)) 1" "push_bit (unat l) 1"] by (simp only: blk len2)
  have "w = 0" using w(2) by (simp add: unat_eq_0)
  then have "csd_sectors csd = Some (ucast ((c + 1) * push_bit (unat (m + 2)) 1 :: u32) * ucast (push_bit (unat l) 1 :: u32) div 512)"
    using w(1) c(1) m(1) l(1) by (simp add: csd_sectors_def Let_def)
  then have "map_option unat (csd_sectors csd) = Some ((unat c + 1) * 2 ^ (unat m + 2) * 2 ^ unat l div 512)"
    by (simp only: option.map unat_div cap) simp
  then show ?thesis by (simp only: csd_capacity_def s c(2) m(2) l(2) simp_thms if_True)
qed

text \<open>The largest field overflows: the shift is of 32 bits.\<close>

lemma csd_sectors_1:
  assumes len: "length csd = 16" and s: "csd_field csd 127 126 = 1"
  shows "map_option unat (csd_sectors csd) = map_option (\<lambda>n. n mod 2 ^ 32) (csd_capacity csd)"
proof -
  obtain w where w: "ext_bits csd 127 126 = Some w" "unat w = 1"
    using ext_bits_field [OF len, of 126 127] s by auto
  obtain c where c: "ext_bits csd 69 48 = Some c" "unat c = csd_field csd 69 48"
    using ext_bits_field [OF len, of 48 69] by auto
  have bc: "unat c < 2 ^ 22" using csd_field_less [of csd 69 48] c by simp
  then have c1: "unat (c + 1) = unat c + 1" by (simp add: unat_word_ariths)
  have "w = 1" using w(2) by (metis unat_1 word_unat_eq_iff)
  then have "csd_sectors csd = Some (ucast (push_bit 10 (c + 1)))"
    using w(1) c(1) by (simp add: csd_sectors_def)
  moreover have "unat (push_bit 10 (c + 1) :: u32) = (unat c + 1) * 1024 mod 2 ^ 32"
    by (simp only: push_bit_eq_mult unat_word_ariths(2) c1) (simp add: mult.commute)
  ultimately show ?thesis using s c(2) by (simp add: csd_capacity_def unat_ucast_64)
qed


lemma csd_field_1: "csd_field csd 127 126 < 4"
  using csd_field_less [of csd 127 126] by simp

lemma csd_sectors_None_iff:
  assumes len: "length csd = 16"
  shows "csd_sectors csd = None \<longleftrightarrow> 1 < csd_field csd 127 126"
proof -
  obtain w where w: "ext_bits csd 127 126 = Some w" "unat w = csd_field csd 127 126"
    using ext_bits_field [OF len, of 126 127] by auto
  consider "csd_field csd 127 126 = 0" | "csd_field csd 127 126 = 1" | "1 < csd_field csd 127 126"
    by linarith
  then show ?thesis
  proof cases
    case 1
    then have "csd_capacity csd \<noteq> None" by (simp add: csd_capacity_def)
    then show ?thesis using csd_sectors_0 [OF len 1] 1 by (cases "csd_sectors csd") auto
  next
    case 2
    then have "csd_capacity csd \<noteq> None" by (simp add: csd_capacity_def)
    then show ?thesis using csd_sectors_1 [OF len 2] 2 by (cases "csd_sectors csd") auto
  next
    case 3
    then have "w \<noteq> 0" "w \<noteq> 1" using w(2) by (metis not_one_less_zero unat_0, metis less_irrefl unat_1)
    then show ?thesis using 3 w(1) by (simp add: csd_sectors_def)
  qed
qed

lemma csd_sectors_bound:
  assumes len: "length csd = 16" and n: "csd_sectors csd = Some n"
  shows "unat n < 2 ^ 32"
proof (cases "csd_field csd 127 126 = 0")
  case True
  have "unat n = (csd_field csd 73 62 + 1) * 2 ^ (csd_field csd 49 47 + 2) * 2 ^ csd_field csd 83 80 div 512"
    using csd_sectors_0 [OF len True] n True by (simp add: csd_capacity_def)
  also have "\<dots> \<le> 4096 * 2 ^ 9 * 2 ^ 15 div 512"
    using csd_field_less [of csd 73 62] csd_field_less [of csd 49 47] csd_field_less [of csd 83 80]
    by (intro div_le_mono mult_le_mono power_increasing) auto
  finally show ?thesis by simp
next
  case False
  then have "csd_field csd 127 126 = 1" using csd_sectors_None_iff [OF len] n by force
  then show ?thesis using csd_sectors_1 [OF len] n by (simp add: csd_capacity_def)
qed

section \<open>Initialisation returns\<close>

lemma sd_cmd8_total: "ticks hw \<Longrightarrow> \<exists>y. sd_cmd8 hw s = Some y"
  using sd_cmd_total [of hw CMD8_SEND_IF_COND "push_bit 0 CMD8_PATTERN OR push_bit 8 1" False s]
  by (auto simp: sd_cmd8_def Let_def)

lemma initialise_capacity_total: "ticks hw \<Longrightarrow> \<exists>y. initialise_capacity hw s = Some y"
proof -
  assume t: "ticks hw"
  let ?arg = "if card_type s = SDCARD_V2 then OCR_HCS_CCS else 0"
  obtain st r c where a: "acmd41_loop hw ?arg (clock_us hw (bus s) + 1000 * SD_COMMAND_TIMEOUT) s = Some (st, r, c)"
    using acmd41_loop_total [OF t] by (metis prod_cases3)
  obtain st' r' c' where b: "sd_cmd hw CMD58_READ_OCR 0 False c = Some (st', r', c')"
    using sd_cmd_total [OF t] by blast
  show ?thesis by (simp add: initialise_capacity_def a b Let_def crc_on_def)
qed

lemma sd_initialise_card_total: "ticks hw \<Longrightarrow> \<exists>rc s'. sd_initialise_card hw s = Some (rc, s')"
proof -
  assume t: "ticks hw"
  let ?s = "sd_spi_go_low_frequency hw (sd_lock hw s)"
  obtain r1 s1 where 1: "sd_go_idle_state hw ?s = Some (r1, s1)"
    using go_idle_loop_total [OF t] unfolding sd_go_idle_state_def by (metis surj_pair)
  obtain st2 s2 where 2: "sd_cmd8 hw s1 = Some (st2, s2)"
    using sd_cmd8_total [OF t] by (metis surj_pair)
  obtain st3 r3 s3 where 3: "sd_cmd hw CMD59_CRC_ON_OFF 1 False s2 = Some (st3, r3, s3)"
    using sd_cmd_total [OF t] by blast
  obtain st4 r4 s4 where 4: "sd_cmd hw CMD58_READ_OCR 0 False s3 = Some (st4, r4, s4)"
    using sd_cmd_total [OF t] by blast
  obtain st5 s5 where 5: "initialise_capacity hw s4 = Some (st5, s5)"
    using initialise_capacity_total [OF t] by (metis surj_pair)
  show ?thesis
    by (simp add: sd_initialise_card_def sd_initialise_card_nolock_def Let_def 1 2 3 4 5 crc_on_def)
qed

lemma read_octets_length: "length (fst (read_octets hw n s)) = n"
  by (induction n arbitrary: s) (simp_all add: Let_def split_def)

lemma crc16_total: "n \<le> length data \<Longrightarrow> \<exists>c. crc16 data n = Some c"
  by (simp add: crc16_serial)

lemma sd_read_bytes_total:
  assumes "ticks hw"
  shows "\<exists>rc data s'. sd_read_bytes hw n s = Some (rc, data, s') \<and> (rc = 0 \<longrightarrow> length data = n)"
proof -
  obtain f s1 where 1: "sd_wait_token hw SPI_START_BLOCK s = Some (f, s1)"
    using wait_token_loop_total [OF assms] unfolding sd_wait_token_def by (metis surj_pair)
  obtain data s2 where 2: "read_octets hw n s1 = (data, s2)" by (rule prod.exhaust)
  then have len: "length data = n" using read_octets_length [of hw n s1] by simp
  then obtain c where "crc16 data n = Some c" using crc16_total [of n data] by auto
  then obtain rc s3 where "check_crc hw data n s2 = Some (rc, s3)"
    by (cases "read_crc hw s2") (simp add: check_crc_def)
  then show ?thesis using len by (auto simp: sd_read_bytes_def 1 2 SD_BLOCK_DEVICE_ERROR_NO_RESPONSE_def)
qed


section \<open>Frames of the operations on blocks\<close>

lemma wait_token_loop_frame:
  assumes "wait_token_loop hw token t s = Some y"
  shows "only_bus s (snd y)"
proof (rule wait_token_loop.raw_induct [where P = "\<lambda>hw token t s y. only_bus s (snd y)", OF _ assms])
  fix f :: "'b hw \<Rightarrow> u8 \<Rightarrow> nat \<Rightarrow> 'b sd_card \<Rightarrow> (bool \<times> 'b sd_card) option" and hw token t s y
  assume IH: "\<And>hw token t s y. f hw token t s = Some y \<Longrightarrow> only_bus s (snd y)"
    and step: "(case sd_spi_write hw SPI_FILL_CHAR s of (r, s) \<Rightarrow>
      if token = r then Some (True, s)
      else if clock_us hw (bus s) < t then f hw token t s else Some (False, s)) = Some y"
  obtain r c where w: "sd_spi_write hw SPI_FILL_CHAR s = (r, c)" by (rule prod.exhaust)
  have "f hw token t c = Some y \<or> snd y = c" using step by (auto simp: w split: if_splits)
  then have "only_bus c (snd y)" using IH [of hw token t c y] by auto
  with sd_spi_write_frame' [OF w] show "only_bus s (snd y)" by (rule only_bus_trans)
qed

lemma sd_wait_token_frame: "sd_wait_token hw token s = Some (f, s') \<Longrightarrow> only_bus s s'"
  by (auto simp: sd_wait_token_def dest: wait_token_loop_frame)

lemma read_octets_frame: "read_octets hw n s = (bs, s') \<Longrightarrow> only_bus s s'"
  by (induction n arbitrary: s bs)
    (auto simp: Let_def split: prod.splits dest!: sd_spi_write_frame' elim: only_bus_trans)

lemma read_crc_frame: "read_crc hw s = (r, s') \<Longrightarrow> only_bus s s'"
  by (auto simp: read_crc_def Let_def split: prod.splits dest!: sd_spi_write_frame' elim: only_bus_trans)

lemma check_crc_frame: "check_crc hw data n s = Some (rc, s') \<Longrightarrow> only_bus s s'"
  by (auto simp: check_crc_def Let_def bind_eq_Some_conv split: prod.splits dest!: read_crc_frame)

lemma sd_spi_transfer_frame: "sd_spi_transfer hw tx rx len s = Some (ok, rs, s') \<Longrightarrow> only_bus s s'"
  by (auto simp: sd_spi_transfer_def)

lemma sd_read_bytes_frame: "sd_read_bytes hw n s = Some (rc, data, s') \<Longrightarrow> only_bus s s'"
  by (auto simp: sd_read_bytes_def Let_def bind_eq_Some_conv split: if_splits prod.splits
      dest!: sd_wait_token_frame read_octets_frame check_crc_frame elim: only_bus_trans)

lemma sd_read_block_frame: "sd_read_block hw n s = Some (rc, data, s') \<Longrightarrow> only_bus s s'"
  by (auto simp: sd_read_block_def Let_def bind_eq_Some_conv split: if_splits prod.splits
      dest!: sd_wait_token_frame sd_spi_transfer_frame check_crc_frame elim: only_bus_trans)

lemma sd_lock_frame [simp]: "only_bus s (sd_lock hw s)" "only_bus s (sd_unlock hw s)"
  by (simp_all add: sd_lock_def sd_unlock_def sd_spi_acquire_def sd_spi_release_def sd_spi_select_def
      sd_spi_deselect_def sd_spi_write_def Let_def split_def only_bus_def)

lemma sd_speed_frame [simp]:
  "only_bus s (sd_spi_go_low_frequency hw s)" "only_bus s (sd_spi_go_high_frequency hw s)"
  by (simp_all add: sd_spi_go_low_frequency_def sd_spi_go_high_frequency_def)

lemma sd_sectors_nolock_frame:
  assumes "sd_sectors_nolock hw s = Some (n, s')"
  shows "only_bus s s' \<and> unat n < 2 ^ 32"
proof -
  obtain rc r s1 where c: "sd_cmd hw CMD9_SEND_CSD 0 False s = Some (rc, r, s1)"
    using assms by (auto simp: sd_sectors_nolock_def bind_eq_Some_conv)
  have 1: "only_bus s s1" using c by (rule sd_cmd_only_bus) (simp add: cmd_defs)
  show ?thesis
  proof (cases "rc = 0")
    case True
    then obtain rc2 csd s2 where r: "sd_read_bytes hw 16 s1 = Some (rc2, csd, s2)"
      using assms c by (auto simp: sd_sectors_nolock_def bind_eq_Some_conv)
    then have 2: "only_bus s s2" using 1 by (blast intro: only_bus_trans sd_read_bytes_frame)
    show ?thesis
    proof (cases "rc2 = 0")
      case ok: True
      then have n: "csd_sectors csd = Some n" "s' = s2"
        using assms c r True by (auto simp: sd_sectors_nolock_def bind_eq_Some_conv)
      have "length csd = 16" using r ok read_octets_length [of hw 16]
        by (auto simp: sd_read_bytes_def SD_BLOCK_DEVICE_ERROR_NO_RESPONSE_def Let_def bind_eq_Some_conv
            split: if_splits prod.splits) (metis fst_conv)
      then show ?thesis using 2 n csd_sectors_bound by blast
    next
      case False
      then show ?thesis using assms c r True 2 by (auto simp: sd_sectors_nolock_def)
    qed
  next
    case False
    then show ?thesis using assms c 1 by (auto simp: sd_sectors_nolock_def)
  qed
qed

lemma sd_sectors_frame:
  assumes "sd_sectors hw s = Some (n, s')"
  shows "only_bus s s' \<and> unat n < 2 ^ 32"
proof -
  obtain s1 where 1: "sd_sectors_nolock hw (sd_lock hw s) = Some (n, s1)" "s' = sd_unlock hw s1"
    using assms by (auto simp: sd_sectors_def)
  then show ?thesis using sd_sectors_nolock_frame [OF 1(1)]
    by (meson only_bus_trans sd_lock_frame)
qed


section \<open>What initialisation establishes\<close>

definition same_status :: "'c sd_card \<Rightarrow> 'c sd_card \<Rightarrow> bool" where
  "same_status s s' \<longleftrightarrow> m_Status s' = m_Status s \<and> sectors s' = sectors s \<and>
     card_detected_true s' = card_detected_true s"

lemma same_status_trans: "same_status s t \<Longrightarrow> same_status t u \<Longrightarrow> same_status s u"
  by (simp add: same_status_def)

lemma only_bus_same_status: "only_bus s s' \<Longrightarrow> same_status s s'"
  by (simp add: same_status_def only_bus_fields)

lemma same_status_refl [simp]: "same_status s s" "same_status s (s\<lparr>card_type := t\<rparr>)"
  by (simp_all add: same_status_def)

lemma sd_cmd_same_status: "sd_cmd hw cmd arg isAcmd s = Some (st, r, s') \<Longrightarrow> same_status s s'"
  using sd_cmd_frame [of hw cmd arg isAcmd s st r s'] only_bus_fields
  by (fastforce simp: same_status_def)

lemma acmd41_loop_frame:
  assumes "acmd41_loop hw arg t s = Some y"
  shows "only_bus s (snd (snd y))"
proof (rule acmd41_loop.raw_induct [where P = "\<lambda>hw arg t s y. only_bus s (snd (snd y))", OF _ assms])
  fix f :: "'b hw \<Rightarrow> u32 \<Rightarrow> nat \<Rightarrow> 'b sd_card \<Rightarrow> (int \<times> u32 \<times> 'b sd_card) option" and hw arg t s y
  assume IH: "\<And>hw arg t s y. f hw arg t s = Some y \<Longrightarrow> only_bus s (snd (snd y))"
    and step: "Option.bind (sd_cmd hw ACMD41_SD_SEND_OP_COND arg True s) (\<lambda>(status, response, s).
       if response AND R1_IDLE_STATE \<noteq> 0 \<and> clock_us hw (bus s) < t
       then f hw arg t s else Some (status, response, s)) = Some y"
  obtain st r c where w: "sd_cmd hw ACMD41_SD_SEND_OP_COND arg True s = Some (st, r, c)"
    using step by (cases "sd_cmd hw ACMD41_SD_SEND_OP_COND arg True s") auto
  have "f hw arg t c = Some y \<or> snd (snd y) = c" using step by (auto simp: w split: if_splits)
  then have "only_bus c (snd (snd y))" using IH [of hw arg t c y] by auto
  moreover have "only_bus s c" using w by (rule sd_cmd_only_bus) (simp add: cmd_defs)
  ultimately show "only_bus s (snd (snd y))" by (blast intro: only_bus_trans)
qed

lemma go_idle_loop_same_status: "go_idle_loop hw n r s = Some (r', s') \<Longrightarrow> same_status s s'"
proof (induction n arbitrary: r s)
  case (Suc n)
  obtain st q c where c: "sd_cmd hw CMD0_GO_IDLE_STATE 0 False s = Some (st, q, c)"
    using Suc.prems by (auto simp: bind_eq_Some_conv)
  let ?s = "sd_lock hw ((sd_unlock hw c)\<lparr>bus := busy_wait_us hw (100 * 1000) (bus (sd_unlock hw c))\<rparr>)"
  have "only_bus c (sd_unlock hw c)" by simp
  also have "only_bus \<dots> ((sd_unlock hw c)\<lparr>bus := busy_wait_us hw (100 * 1000) (bus (sd_unlock hw c))\<rparr>)" by simp
  also have "only_bus \<dots> ?s" by simp
  finally have "same_status c ?s" by (rule only_bus_same_status)
  moreover have "go_idle_loop hw n q ?s = Some (r', s') \<or> s' = c"
    using Suc.prems by (auto simp: c Let_def split: if_splits)
  ultimately have "same_status c s'"
    using Suc.IH [of q ?s] same_status_trans [of c ?s s'] by auto
  then show ?case using sd_cmd_same_status [OF c] by (blast intro: same_status_trans)
qed simp

lemma sd_cmd8_same_status: "sd_cmd8 hw s = Some (st, s') \<Longrightarrow> same_status s s'"
  by (auto simp: sd_cmd8_def Let_def bind_eq_Some_conv split: if_splits
      dest!: sd_cmd_same_status elim: same_status_trans)

definition usable_type :: "nat \<Rightarrow> bool" where
  "usable_type t \<longleftrightarrow> t = SDCARD_V1 \<or> t = SDCARD_V2 \<or> t = SDCARD_V2HC"

lemma initialise_capacity_result:
  assumes "initialise_capacity hw s = Some (rc, s')"
  shows "same_status s s' \<and> (rc = SD_BLOCK_DEVICE_ERROR_NONE \<longrightarrow> usable_type (card_type s') \<or> card_type s' = CARD_UNKNOWN)"
proof -
  let ?arg = "if card_type s = SDCARD_V2 then OCR_HCS_CCS else 0"
  obtain st r c where a: "acmd41_loop hw ?arg (clock_us hw (bus s) + 1000 * SD_COMMAND_TIMEOUT) s = Some (st, r, c)"
    using assms by (auto simp: initialise_capacity_def bind_eq_Some_conv Let_def split: if_splits)
  have sc: "only_bus s c" using acmd41_loop_frame [OF a] by simp
  show ?thesis
  proof (cases "st \<noteq> SD_BLOCK_DEVICE_ERROR_NONE \<or> r \<noteq> 0")
    case True
    then have "s' = c\<lparr>card_type := CARD_UNKNOWN\<rparr>" using assms by (auto simp: initialise_capacity_def a Let_def)
    then show ?thesis using only_bus_same_status [OF sc] by (auto simp: same_status_def)
  next
    case False
    show ?thesis
    proof (cases "card_type c = SDCARD_V2")
      case v2: True
      obtain st2 r2 d where d: "sd_cmd hw CMD58_READ_OCR 0 False c = Some (st2, r2, d)"
        and s': "s' = d \<or> s' = d\<lparr>card_type := SDCARD_V2HC\<rparr>"
        using assms False v2 by (auto simp: initialise_capacity_def a Let_def crc_on_def bind_eq_Some_conv split: if_splits)
      have cd: "only_bus c d" using d by (rule sd_cmd_only_bus) (simp add: cmd_defs)
      then have "usable_type (card_type s')" using s' v2 only_bus_fields [OF cd] by (auto simp: usable_type_def)
      moreover have "same_status s s'"
        using s' only_bus_same_status [OF sc] only_bus_same_status [OF cd] by (auto simp: same_status_def)
      ultimately show ?thesis by blast
    next
      case v1: False
      then have "s' = c\<lparr>card_type := SDCARD_V1\<rparr>" using assms False
        by (auto simp: initialise_capacity_def a Let_def crc_on_def)
      then show ?thesis using only_bus_same_status [OF sc] by (auto simp: same_status_def usable_type_def)
    qed
  qed
qed


lemma sd_initialise_card_nolock_result:
  assumes "sd_initialise_card_nolock hw s = Some (rc, s')"
  shows "same_status s s' \<and> (rc = SD_BLOCK_DEVICE_ERROR_NONE \<longrightarrow> usable_type (card_type s') \<or> card_type s' = CARD_UNKNOWN)"
proof -
  let ?s = "sd_spi_go_low_frequency hw s"
  obtain r1 s1 where 1: "sd_go_idle_state hw ?s = Some (r1, s1)"
    using assms by (auto simp: sd_initialise_card_nolock_def Let_def bind_eq_Some_conv)
  have same1: "same_status s s1"
    using go_idle_loop_same_status [OF 1 [unfolded sd_go_idle_state_def]] only_bus_same_status [of s ?s]
    by (simp add: same_status_def)
  show ?thesis
  proof (cases "r1 = R1_IDLE_STATE")
    case True
    obtain st2 s2 where 2: "sd_cmd8 hw s1 = Some (st2, s2)"
      using assms True by (auto simp: sd_initialise_card_nolock_def Let_def bind_eq_Some_conv 1)
    have same2: "same_status s s2" using same1 sd_cmd8_same_status [OF 2] by (rule same_status_trans)
    show ?thesis
    proof (cases "st2 \<noteq> SD_BLOCK_DEVICE_ERROR_NONE \<and> st2 \<noteq> SD_BLOCK_DEVICE_ERROR_UNSUPPORTED")
      case False
      then obtain st3 r3 s3 st4 r4 s4 where 3: "sd_cmd hw CMD59_CRC_ON_OFF 1 False s2 = Some (st3, r3, s3)"
        and 4: "sd_cmd hw CMD58_READ_OCR 0 False s3 = Some (st4, r4, s4)"
        using assms True
        by (auto simp: sd_initialise_card_nolock_def Let_def bind_eq_Some_conv 1 2 crc_on_def split: if_splits)
      have same4: "same_status s s4"
        using same2 sd_cmd_same_status [OF 3] sd_cmd_same_status [OF 4] by (blast intro: same_status_trans)
      have "(rc, s') = (st4, s4) \<and> st4 \<noteq> SD_BLOCK_DEVICE_ERROR_NONE \<or>
          (rc, s') = (SD_BLOCK_DEVICE_ERROR_UNUSABLE, s4\<lparr>card_type := CARD_UNKNOWN\<rparr>) \<or>
          initialise_capacity hw s4 = Some (rc, s')"
        using assms True False
        by (auto simp: sd_initialise_card_nolock_def Let_def 1 2 3 4 crc_on_def split: if_splits)
      then show ?thesis using same4 initialise_capacity_result [of hw s4 rc s']
        by (auto simp: same_status_def sd_error_defs)
    next
      case c: True
      then show ?thesis using assms True same2
        by (auto simp: sd_initialise_card_nolock_def Let_def 1 2 sd_error_defs)
    qed
  next
    case False
    then show ?thesis using assms same1
      by (auto simp: sd_initialise_card_nolock_def Let_def 1 sd_error_defs)
  qed
qed

lemma sd_initialise_card_result:
  assumes "sd_initialise_card hw s = Some (rc, s')"
  shows "same_status s s' \<and> (rc = SD_BLOCK_DEVICE_ERROR_NONE \<longrightarrow> usable_type (card_type s') \<or> card_type s' = CARD_UNKNOWN)"
proof -
  obtain s1 where 1: "sd_initialise_card_nolock hw (sd_lock hw s) = Some (rc, s1)" "s' = sd_unlock hw s1"
    using assms by (auto simp: sd_initialise_card_def)
  show ?thesis
    using sd_initialise_card_nolock_result [OF 1(1)] only_bus_fields [OF sd_lock_frame(1) [of s hw]]
      only_bus_fields [OF sd_lock_frame(2) [of s1 hw]] by (simp add: same_status_def 1(2))
qed

lemma noinit_iff: "(m :: u32) AND STA_NOINIT = 0 \<longleftrightarrow> \<not> bit m 0"
  by (simp add: STA_NOINIT_def and_one_eq bit_0 mod2_eq_if)

lemma nodisk_keeps_noinit [simp]: "bit ((m :: u32) AND NOT STA_NODISK) 0 = bit m 0"
  by (simp add: bit_and_iff bit_not_iff STA_NODISK_def)

lemma removed_noinit [simp]: "bit ((m :: u32) OR (STA_NODISK OR STA_NOINIT)) 0"
  by (simp add: bit_or_iff STA_NOINIT_def)

text \<open>A card that counts as initialised has a capacity and a type.\<close>

definition card_ok :: "'c sd_card \<Rightarrow> bool" where
  "card_ok s \<longleftrightarrow> unat (sectors s) < 2 ^ 32 \<and>
     (m_Status s AND STA_NOINIT = 0 \<longrightarrow>
        sectors s \<noteq> 0 \<and> (usable_type (card_type s) \<or> card_type s = CARD_UNKNOWN))"

lemma only_bus_card_ok: "only_bus s s' \<Longrightarrow> card_ok s \<Longrightarrow> card_ok s'"
  by (simp add: card_ok_def only_bus_fields)

lemma sd_card_detect_ok: "card_ok s \<Longrightarrow> card_ok (snd (sd_card_detect hw s))"
  unfolding sd_card_detect_def card_ok_def noinit_iff by (simp split: if_splits)

lemma sd_init_card_ok:
  assumes ok: "card_ok s" and init: "sd_init_card hw d s = Some (st, s')"
  shows "card_ok s' \<and> st = m_Status s'"
proof -
  let ?s = "snd (sd_card_detect hw s)"
  have d: "d" using init by (auto simp: sd_init_card_def split: if_splits)
  have ok1: "card_ok ?s" using ok by (rule sd_card_detect_ok)
  show ?thesis
  proof (cases "m_Status ?s AND STA_NODISK \<noteq> 0 \<or> m_Status ?s AND STA_NOINIT = 0")
    case True
    then have "s' = ?s \<and> st = m_Status ?s" using init d by (auto simp: sd_init_card_def Let_def split: if_splits)
    then show ?thesis using ok1 by simp
  next
    case False
    then obtain err s1 where 1: "sd_initialise_card hw (?s\<lparr>card_type := SDCARD_NONE\<rparr>) = Some (err, s1)"
      using init d by (auto simp: sd_init_card_def Let_def bind_eq_Some_conv split: if_splits)
    have same1: "same_status ?s s1"
      using sd_initialise_card_result [OF 1] by (simp add: same_status_def)
    then have noinit: "m_Status s1 AND STA_NOINIT \<noteq> 0" and small: "unat (sectors s1) < 2 ^ 32"
      using False ok1 by (simp_all add: same_status_def card_ok_def)
    show ?thesis
    proof (cases "err = SD_BLOCK_DEVICE_ERROR_NONE")
      case err: True
      obtain n s2 where 2: "sd_sectors hw s1 = Some (n, s2)"
        using init d False err by (auto simp: sd_init_card_def Let_def 1 bind_eq_Some_conv split: if_splits)
      have b2: "only_bus s1 s2" and n: "unat n < 2 ^ 32" using sd_sectors_frame [OF 2] by auto
      let ?s2 = "s2\<lparr>sectors := n\<rparr>"
      have type2: "usable_type (card_type ?s2) \<or> card_type ?s2 = CARD_UNKNOWN"
        using sd_initialise_card_result [OF 1] err only_bus_fields [OF b2] by simp
      have noinit2: "m_Status ?s2 AND STA_NOINIT \<noteq> 0" using noinit only_bus_fields [OF b2] by simp
      show ?thesis
      proof (cases "n = 0")
        case True
        then have "s' = ?s2 \<and> st = m_Status ?s2" using init d False err 2
          by (auto simp: sd_init_card_def Let_def 1 split: if_splits)
        then show ?thesis using noinit2 True by (simp add: card_ok_def)
      next
        case nz: False
        obtain rc r s3 where 3: "sd_cmd hw CMD16_SET_BLOCKLEN (of_nat BLOCK_SIZE_HC) False (sd_lock hw ?s2) = Some (rc, r, s3)"
          using init d False err nz 2 by (auto simp: sd_init_card_def Let_def 1 bind_eq_Some_conv split: if_splits)
        have "only_bus (sd_lock hw ?s2) s3" using 3 by (rule sd_cmd_only_bus) (simp add: cmd_defs)
        then have b3: "only_bus ?s2 s3" by (blast intro: only_bus_trans sd_lock_frame)
        let ?s3 = "sd_spi_go_high_frequency hw s3"
        have "s' = sd_unlock hw s3 \<and> st = m_Status s' \<or>
            s' = sd_unlock hw (?s3\<lparr>m_Status := m_Status ?s3 AND NOT STA_NOINIT\<rparr>) \<and> st = m_Status s'"
          using init d False err nz 2 3 by (auto simp: sd_init_card_def Let_def 1 split: if_splits)
        moreover have "unat (sectors s') < 2 ^ 32 \<and> sectors s' = n \<and> card_type s' = card_type ?s2"
          using calculation only_bus_fields [OF b3] n only_bus_fields [OF sd_lock_frame(2) [of _ hw]]
            only_bus_fields [OF sd_speed_frame(2) [of s3 hw]] by fastforce
        ultimately show ?thesis using nz type2 by (auto simp: card_ok_def)
      qed
    next
      case False': False
      then have "s' = s1 \<and> st = m_Status s1" using init d False
        by (auto simp: sd_init_card_def Let_def 1 split: if_splits)
      then show ?thesis using noinit small by (simp add: card_ok_def)
    qed
  qed
qed

section \<open>A bus that answers from a list\<close>

text \<open>
  The octets the card sends, in their order, and silence behind them: a bus for examples. The
  timer counts the exchanges.
\<close>

definition script_hw :: "(nat \<times> u8 list) hw" where
  "script_hw = \<lparr>
     xfer = (\<lambda>b (t, rs). (case rs of [] \<Rightarrow> (0xFF, (t + 1, [])) | r # rs \<Rightarrow> (r, (t + 1, rs)))),
     dma_done = (\<lambda>_. In_time), pin_init = (\<lambda>_ c. c), pin_pull_up = (\<lambda>_ c. c), pin_dir = (\<lambda>_ _ c. c),
     pin_put = (\<lambda>_ _ c. c), pin_get = (\<lambda>_ _. False), clock_us = fst, busy_wait_us = (\<lambda>_ c. c),
     set_baudrate = (\<lambda>_ _ c. c), claim_dma = (\<lambda>c. (0, c)),
     default_config = \<lparr>data_bits = 32, dreq_line = DREQ_FORCE, read_increment = True, write_increment = False\<rparr>,
     sdk = (\<lambda>_ c. c)\<rparr>"

lemma script_hw_simps [simp]:
  "xfer script_hw b (t, []) = (0xFF, (t + 1, []))" "xfer script_hw b (t, r # rs) = (r, (t + 1, rs))"
  "dma_done script_hw c = In_time" "pin_put script_hw n v c = c" "clock_us script_hw c = fst c"
  "set_baudrate script_hw i n c = c" "busy_wait_us script_hw n c = c" "pin_get script_hw n c = False"
  by (simp_all add: script_hw_def)

lemma ticks_script_hw: "ticks script_hw"
  by (auto simp: ticks_def script_hw_def split: list.split)

section \<open>Properties\<close>

text \<open>What a card takes for a command: start bits, seven-bit checksum and stop bit in place.\<close>

definition command_of :: "u8 list \<Rightarrow> (nat \<times> u32) option" where
  "command_of p =
     (if length p = 6 \<and> p ! 0 AND 0xC0 = 0x40 \<and> bit (p ! 5) 0 \<and> crc7 p 5 = Some (drop_bit 1 (p ! 5))
      then Some (unat (p ! 0 AND 0x3f),
        push_bit 24 (ucast (p ! 1)) OR push_bit 16 (ucast (p ! 2)) OR push_bit 8 (ucast (p ! 3)) OR ucast (p ! 4))
      else None)"

lemma command_arg:
  "push_bit 24 (ucast (ucast (drop_bit 24 arg) :: u8)) OR push_bit 16 (ucast (ucast (drop_bit 16 arg) :: u8)) OR
   push_bit 8 (ucast (ucast (drop_bit 8 arg) :: u8)) OR ucast (ucast arg :: u8) = (arg :: u32)"
proof (rule bit_word_eqI)
  fix n assume "n < LENGTH(32)"
  then consider "n < 8" | "8 \<le> n \<and> n < 16" | "16 \<le> n \<and> n < 24" | "24 \<le> n \<and> n < 32" by force
  then show "bit (push_bit 24 (ucast (ucast (drop_bit 24 arg) :: u8)) OR push_bit 16 (ucast (ucast (drop_bit 16 arg) :: u8)) OR
      push_bit 8 (ucast (ucast (drop_bit 8 arg) :: u8)) OR ucast (ucast arg :: u8) :: u32) n = bit arg n"
    by cases (auto simp: bit_or_iff bit_push_bit_iff bit_ucast_iff bit_drop_bit_eq)
qed

lemma SPI_CMD_fields:
  assumes "cmd < 64"
  shows "SPI_CMD cmd AND 0xC0 = 0x40" and "unat (SPI_CMD cmd AND 0x3f) = cmd"
proof -
  have low: "(of_nat cmd :: u8) AND 0x3f = of_nat cmd"
  proof -
    have "(of_nat cmd :: u8) AND mask 6 = take_bit 6 (of_nat cmd)" by (simp add: take_bit_eq_mask)
    also have "\<dots> = of_nat (take_bit 6 cmd)" by (simp add: take_bit_of_nat)
    also have "take_bit 6 cmd = cmd" using assms by (simp add: take_bit_nat_eq_self_iff)
    finally show ?thesis by (simp add: mask_eq_exp_minus_1)
  qed
  have cmd: "SPI_CMD cmd = 0x40 OR (of_nat cmd AND 0x3f)" by (simp add: SPI_CMD_def)
  have "(0x40 OR (x AND 0x3f)) AND 0xC0 = (0x40 :: u8)" for x :: u8
    by (simp add: bit.conj_disj_distrib2 and.assoc)
  then show "SPI_CMD cmd AND 0xC0 = 0x40" by (simp only: cmd)
  have "(0x40 OR (x AND 0x3f)) AND 0x3f = (x AND 0x3f :: u8)" for x :: u8
    by (simp add: bit.conj_disj_distrib2 and.assoc)
  from this [of "of_nat cmd"] have "SPI_CMD cmd AND 0x3f = of_nat cmd" unfolding cmd low .
  then show "unat (SPI_CMD cmd AND 0x3f) = cmd" using assms by (simp add: unat_of_nat)
qed

lemma crc7_valid:
  assumes "n \<le> length data" and "crc7 data n = Some c"
  shows "valid7 c"
  using assms crc7_loop_eq [of 0 n data] foldl_reg7_valid [of 0 "take n data"]
  by (simp add: crc7_def valid7_def)

lemma crc_octet:
  assumes "valid7 c"
  shows "drop_bit 1 (push_bit 1 c OR 0x01) = c" and "bit (push_bit 1 c OR 0x01) 0"
proof -
  show "drop_bit 1 (push_bit 1 c OR 0x01) = c"
  proof (rule bit_word_eqI)
    fix n assume "n < LENGTH(8)"
    then show "bit (drop_bit 1 (push_bit 1 c OR 0x01)) n = bit c n"
      using assms by (cases "n = 7")
        (simp_all only: bit_drop_bit_eq bit_or_iff bit_push_bit_iff comp_def valid7_def, auto simp: bit_1_iff dest: bit_imp_le_length)
  qed
  show "bit (push_bit 1 c OR 0x01) 0" by (simp only: bit_or_iff) simp
qed

lemma cmd_packet_shape:
  "\<exists>c. cmd_packet cmd arg = Some ([SPI_CMD cmd, ucast (drop_bit 24 arg), ucast (drop_bit 16 arg),
       ucast (drop_bit 8 arg), ucast arg] @ [push_bit 1 c OR 0x01]) \<and>
     crc7 [SPI_CMD cmd, ucast (drop_bit 24 arg), ucast (drop_bit 16 arg), ucast (drop_bit 8 arg), ucast arg] 5 = Some c \<and>
     valid7 c"
proof -
  let ?p = "[SPI_CMD cmd, ucast (drop_bit 24 arg), ucast (drop_bit 16 arg), ucast (drop_bit 8 arg), ucast arg]"
  obtain c where c: "crc7 ?p 5 = Some c" using crc7_serial [of 5 ?p] by auto
  then show ?thesis using crc7_valid [OF _ c] by (auto simp: cmd_packet_def crc_on_def Let_def)
qed

lemma crc7_append: "crc7 (p @ q) (length p) = crc7 p (length p)"
  by (simp add: crc7_serial)


lemma command_of_changed:
  assumes len: "length p = 5" and c: "crc7 p 5 = Some c" "valid7 c" and x: "x \<notin> {0, 0x89}" and i: "i < 5"
  shows "command_of ((p @ [push_bit 1 c OR 0x01])[i := (p @ [push_bit 1 c OR 0x01]) ! i XOR x]) = None"
proof -
  let ?r = "p[i := p ! i XOR x]"
  have r: "(p @ [push_bit 1 c OR 0x01])[i := (p @ [push_bit 1 c OR 0x01]) ! i XOR x] = ?r @ [push_bit 1 c OR 0x01]"
    using i len by (simp only: list_update_append nth_append if_True)
  define xs ys where "xs = take i p" and "ys = drop (Suc i) p"
  have ip: "i < length p" using i len by simp
  have split: "p = xs @ p ! i # ys" "?r = xs @ (p ! i XOR x) # ys"
    unfolding xs_def ys_def using id_take_nth_drop [OF ip] upd_conv_take_nth_drop [OF ip] by blast+
  have five: "length xs + 1 + length ys = 5" using i len by (simp add: xs_def ys_def)
  have "(p ! i) XOR (p ! i XOR x) = x" by (simp flip: xor.assoc)
  then have "crc7 (xs @ p ! i # ys) 5 \<noteq> crc7 (xs @ (p ! i XOR x) # ys) 5"
    using crc7_byte_change [of "p ! i" "p ! i XOR x" xs ys] x unfolding five by simp
  then have "crc7 ?r 5 \<noteq> Some c" using c(1) unfolding split(1) [symmetric] split(2) [symmetric] by simp
  moreover have "crc7 (?r @ [push_bit 1 c OR 0x01]) 5 = crc7 ?r 5"
    using crc7_append [of ?r] len by simp
  moreover have "drop_bit 1 ((?r @ [push_bit 1 c OR 0x01]) ! 5) = c"
    using crc_octet(1) [OF c(2)] len by (simp only: nth_append length_list_update) simp
  ultimately show ?thesis unfolding r by (simp only: command_of_def) simp
qed

text \<open>The generator goes unnoticed, but for the start bits of the first octet.\<close>

lemma crc7_generator_change:
  "crc7 (xs @ b # ys) (length xs + 1 + length ys) = crc7 (xs @ (b XOR 0x89) # ys) (length xs + 1 + length ys)"
proof -
  have v: "valid7 0" by (simp add: valid7_def)
  have "m_Crc7Table ! unat (0x89 :: u8) = 0" by (simp add: m_Crc7Table_def)
  then have "drop_bit 1 ((lfsr 0x12 ^^ 8) (0x89 :: u8)) = 0" by (simp only: m_Crc7Table_nth)
  moreover have "b XOR (b XOR 0x89) = 0x89" by (simp flip: xor.assoc)
  ultimately have "reg7 t b XOR reg7 t (b XOR 0x89) = 0" for t
    unfolding reg7_diff by simp
  then have "reg7 t b = reg7 t (b XOR 0x89)" for t by (metis xor_self_eq xor_left_cancel_word)
  then have "foldl reg7 0 (xs @ b # ys) = foldl reg7 0 (xs @ (b XOR 0x89) # ys)" by simp
  then show ?thesis using v by (simp add: crc7_def crc7_loop_eq)
qed

lemma command_of_None:
  assumes "length q = 6" and "bit (q ! 5) 0" and "crc7 q 5 = Some (drop_bit 1 (q ! 5))"
  shows "command_of q = None \<longleftrightarrow> q ! 0 AND 0xC0 \<noteq> 0x40"
  using assms by (simp add: command_of_def)

lemma command_of_refused:
  assumes "\<not> (bit (q ! 5) 0 \<and> crc7 q 5 = Some (drop_bit 1 (q ! 5)))"
  shows "command_of q = None"
  using assms unfolding command_of_def by (intro if_not_P) blast

lemma command_of_generator:
  assumes len: "length p = 5" and c: "crc7 p 5 = Some c" "valid7 c" and i: "i < 5" and start: "p ! 0 AND 0xC0 = 0x40"
  shows "command_of ((p @ [push_bit 1 c OR 0x01])[i := (p @ [push_bit 1 c OR 0x01]) ! i XOR 0x89]) = None \<longleftrightarrow> i = 0"
proof -
  let ?r = "p[i := p ! i XOR 0x89]"
  have r: "(p @ [push_bit 1 c OR 0x01])[i := (p @ [push_bit 1 c OR 0x01]) ! i XOR 0x89] = ?r @ [push_bit 1 c OR 0x01]"
    using i len by (simp only: list_update_append nth_append if_True)
  have ip: "i < length p" using i len by simp
  have "p = take i p @ p ! i # drop (Suc i) p" "?r = take i p @ (p ! i XOR 0x89) # drop (Suc i) p"
    using id_take_nth_drop [OF ip] upd_conv_take_nth_drop [OF ip] by blast+
  then have "crc7 ?r 5 = Some c"
    using c(1) crc7_generator_change [of "take i p" "p ! i" "drop (Suc i) p"] i len by (simp add: min_def)
  moreover have "crc7 (?r @ [push_bit 1 c OR 0x01]) 5 = crc7 ?r 5" using crc7_append [of ?r] len by simp
  moreover have "drop_bit 1 ((?r @ [push_bit 1 c OR 0x01]) ! 5) = c" "bit ((?r @ [push_bit 1 c OR 0x01]) ! 5) 0"
    using crc_octet [OF c(2)] len by (simp_all only: nth_append length_list_update) simp_all
  moreover have "(?r @ [push_bit 1 c OR 0x01]) ! 0 = (if i = 0 then p ! 0 XOR 0x89 else p ! 0)"
    using len by (cases p) (auto simp: nth_list_update split: nat.split)
  moreover have "(p ! 0 XOR 0x89) AND 0xC0 \<noteq> 0x40"
  proof
    assume "(p ! 0 XOR 0x89) AND 0xC0 = 0x40"
    then have "bit ((p ! 0 XOR 0x89) AND 0xC0) 7 = bit (p ! 0 AND 0xC0) 7" using start by simp
    moreover have "bit (0xC0 :: u8) 7" "bit (0x89 :: u8) 7" by (simp_all add: bit_numeral_rec)
    ultimately show False by (simp add: bit_and_iff bit_xor_iff)
  qed
  moreover have "length (?r @ [push_bit 1 c OR 0x01]) = 6" using len by simp
  ultimately show ?thesis using start unfolding r by (subst command_of_None) (simp_all only: simp_thms split: if_split)
qed

text \<open>A change of the last octet hits the checksum or the stop bit.\<close>

lemma command_of_last:
  assumes len: "length p = 5" and c: "crc7 p 5 = Some c" "valid7 c" and x: "x \<noteq> 0"
  shows "command_of (p @ [(push_bit 1 c OR 0x01) XOR x]) = None"
proof -
  let ?o = "push_bit 1 c OR 0x01"
  have "\<not> (bit (?o XOR x) 0 \<and> drop_bit 1 (?o XOR x) = c)"
  proof
    assume h: "bit (?o XOR x) 0 \<and> drop_bit 1 (?o XOR x) = c"
    have "?o XOR x = ?o XOR 0"
    proof (rule bit_word_eqI)
      fix n assume "n < LENGTH(8)"
      have "bit (drop_bit 1 (?o XOR x)) k = bit (drop_bit 1 ?o) k" for k
        using h crc_octet(1) [OF c(2)] by simp
      then have "bit (?o XOR x) (Suc k) = bit ?o (Suc k)" for k
        by (simp only: bit_drop_bit_eq comp_def plus_1_eq_Suc)
      then show "bit (?o XOR x) n = bit (?o XOR 0) n"
        using h crc_octet(2) [OF c(2)] by (cases n) simp_all
    qed
    then show False using x by (simp only: xor_left_cancel_word)
  qed
  moreover have "(p @ [?o XOR x]) ! 5 = ?o XOR x" using len by (simp only: nth_append) simp
  moreover have "crc7 (p @ [?o XOR x]) 5 = Some c" using crc7_append [of p] len c(1) by simp
  ultimately show ?thesis by (intro command_of_refused) (metis option.inject)
qed

text \<open>
  C26. The packet of a command reaches the card: the six octets are accepted, with the command and
  the argument they were built from. When one octet is changed on the line, the packet is refused,
  with one exception: a change of an octet of the argument by the generator \<open>0x89\<close> of the checksum is
  accepted.
\<close>

theorem cmd_packet_command_of:
  assumes "cmd < 64" and "x \<noteq> 0" and "i < 6"
  shows "\<exists>p. cmd_packet cmd arg = Some p \<and> command_of p = Some (cmd, arg) \<and>
    (command_of (p[i := p ! i XOR x]) = None \<longleftrightarrow> \<not> (x = 0x89 \<and> 1 \<le> i \<and> i \<le> 4))"
proof -
  let ?p = "[SPI_CMD cmd, ucast (drop_bit 24 arg), ucast (drop_bit 16 arg), ucast (drop_bit 8 arg), ucast arg]"
  obtain c where p: "cmd_packet cmd arg = Some (?p @ [push_bit 1 c OR 0x01])" and c: "crc7 ?p 5 = Some c" "valid7 c"
    using cmd_packet_shape by blast
  let ?q = "?p @ [push_bit 1 c OR 0x01]"
  have len: "length ?p = 5" by simp
  have crc: "crc7 (q @ [z]) 5 = crc7 q 5" if "length q = 5" for q z
    using crc7_append [of q "[z]"] that by simp
  have last: "?q ! 5 = push_bit 1 c OR 0x01" by simp
  have head: "?q ! 0 = SPI_CMD cmd" "?q ! 1 = ucast (drop_bit 24 arg)" "?q ! 2 = ucast (drop_bit 16 arg)"
    "?q ! 3 = ucast (drop_bit 8 arg)" "?q ! 4 = ucast arg" by simp_all
  have "crc7 ?q 5 = Some (drop_bit 1 (?q ! 5))"
    unfolding last using crc [of ?p] c crc_octet(1) [OF c(2)] by simp
  moreover have "bit (?q ! 5) 0" unfolding last by (rule crc_octet(2) [OF c(2)])
  moreover have "length ?q = 6" by simp
  ultimately have ok: "command_of ?q = Some (cmd, arg)"
    unfolding command_of_def head SPI_CMD_fields [OF assms(1)] command_arg by (simp only: simp_thms if_True)
  have start: "?p ! 0 AND 0xC0 = 0x40" using SPI_CMD_fields(1) [OF assms(1)] by simp
  consider "i = 5" | "i < 5" "x = 0x89" | "i < 5" "x \<notin> {0, 0x89}" using assms(2,3) by fastforce
  then have "command_of (?q[i := ?q ! i XOR x]) = None \<longleftrightarrow> \<not> (x = 0x89 \<and> 1 \<le> i \<and> i \<le> 4)"
  proof cases
    case 1
    then have "?q[i := ?q ! i XOR x] = ?p @ [(push_bit 1 c OR 0x01) XOR x]" unfolding 1 last by simp
    with command_of_last [OF len c assms(2)] 1 show ?thesis by simp
  next
    case 2
    then show ?thesis using command_of_generator [OF len c 2(1) start] by auto
  next
    case 3
    then have "x \<noteq> 0x89" by simp
    then show ?thesis by (simp only: command_of_changed [OF len c 3(2,1)] simp_thms)
  qed
  then show ?thesis by (intro exI [of _ ?q] conjI p ok)
qed

lemma cmd_packet_command_of_witness:
  "\<exists>p. cmd_packet 17 8 = Some p \<and> command_of p = Some (17, 8) \<and> command_of (p[3 := p ! 3 XOR 1]) = None"
  using cmd_packet_command_of [of 17 1 3 8] by simp

lemma sd_sectors_nolock_None:
  assumes "ticks hw" and "sd_sectors_nolock hw s = None"
  shows "\<exists>s1 csd s2. sd_read_bytes hw 16 s1 = Some (0, csd, s2) \<and> 1 < csd_field csd 127 126"
proof -
  obtain rc r s1 where c: "sd_cmd hw CMD9_SEND_CSD 0 False s = Some (rc, r, s1)"
    using sd_cmd_total [OF assms(1)] by blast
  obtain rc2 csd s2 where d: "sd_read_bytes hw 16 s1 = Some (rc2, csd, s2)" "rc2 = 0 \<longrightarrow> length csd = 16"
    using sd_read_bytes_total [OF assms(1)] by blast
  have "rc2 = 0 \<and> csd_sectors csd = None"
    using assms(2) c d by (auto simp: sd_sectors_nolock_def bind_eq_None_conv split: if_splits)
  then show ?thesis using d csd_sectors_None_iff [of csd] by blast
qed

lemma sd_init_card_total:
  assumes t: "ticks hw" and n: "sd_init_card hw True s = None"
  shows "\<exists>s1 csd s2. sd_read_bytes hw 16 s1 = Some (0, csd, s2) \<and> 1 < csd_field csd 127 126"
proof (rule ccontr)
  assume no: "\<not> ?thesis"
  let ?s = "(snd (sd_card_detect hw s))\<lparr>card_type := SDCARD_NONE\<rparr>"
  obtain err s1 where 1: "sd_initialise_card hw ?s = Some (err, s1)"
    using sd_initialise_card_total [OF t] by blast
  obtain k s2 where 2: "sd_sectors hw s1 = Some (k, s2)"
    using sd_sectors_nolock_None [OF t, of "sd_lock hw s1"] no
    by (cases "sd_sectors_nolock hw (sd_lock hw s1)") (auto simp: sd_sectors_def)
  obtain rc r s3 where 3: "sd_cmd hw CMD16_SET_BLOCKLEN (of_nat BLOCK_SIZE_HC) False (sd_lock hw (s2\<lparr>sectors := k\<rparr>)) = Some (rc, r, s3)"
    using sd_cmd_total [OF t] by blast
  show False using n by (simp add: sd_init_card_def Let_def 1 2 3 split: if_splits)
qed

text \<open>
  C27. The driver does not hang on a card that says nothing or stays busy: on a bus whose timer runs
  every command and the start of a card return; \<open>sd_init_card\<close> stops at its assertion alone, on a
  register of an unknown structure.
\<close>

theorem sd_card_returns:
  assumes "ticks hw"
  shows "(\<exists>st r s'. sd_cmd hw cmd arg isAcmd s = Some (st, r, s')) \<and>
    (\<exists>rc s'. sd_initialise_card hw s = Some (rc, s')) \<and>
    (\<exists>rc data s'. sd_read_bytes hw n s = Some (rc, data, s')) \<and>
    (sd_init_card hw True s = None \<longrightarrow>
       (\<exists>s1 csd s2. sd_read_bytes hw 16 s1 = Some (0, csd, s2) \<and> 1 < csd_field csd 127 126))"
  using sd_cmd_total [OF assms] sd_initialise_card_total [OF assms] sd_read_bytes_total [OF assms]
    sd_init_card_total [OF assms] by meson

lemma sd_card_returns_witness:
  "\<exists>rc s'. sd_initialise_card script_hw (hd (sd_cards (0, []))) = Some (rc, s')"
  using sd_card_returns [OF ticks_script_hw] by blast

text \<open>
  The number of sectors is the capacity in the register of the card, of either version, and is
  taken modulo \<open>2^32\<close>: the largest value the second version can hold counts as no sectors at all.
\<close>

theorem csd_sectors_capacity:
  assumes "length csd = 16"
  shows "map_option unat (csd_sectors csd) = map_option (\<lambda>n. n mod 2 ^ 32) (csd_capacity csd)"
proof -
  consider "csd_field csd 127 126 = 0" | "csd_field csd 127 126 = 1" | "1 < csd_field csd 127 126"
    by linarith
  then show ?thesis
  proof cases
    case 1
    obtain n where n: "csd_sectors csd = Some n"
      using csd_sectors_None_iff [OF assms] 1 by fastforce
    have "csd_capacity csd = Some (unat n)" using csd_sectors_0 [OF assms 1] n by simp
    then show ?thesis using n csd_sectors_bound [OF assms n] by simp
  next
    case 2
    then show ?thesis using csd_sectors_1 [OF assms] by blast
  next
    case 3
    then have "csd_capacity csd = None" by (simp add: csd_capacity_def)
    then show ?thesis using csd_sectors_None_iff [OF assms] 3 by simp
  qed
qed

lemma csd_sectors_capacity_witness:
  "map_option unat (csd_sectors ([0x40, 0, 0, 0, 0, 0, 0, 0x3F, 0xFF, 0xFF, 0, 0, 0, 0, 0, 0])) = Some 0"
proof -
  let ?csd = "[0x40, 0, 0, 0, 0, 0, 0, 0x3F, 0xFF, 0xFF, 0, 0, 0, 0, 0, 0] :: u8 list"
  have "csd_field ?csd 127 126 = 1" "csd_field ?csd 69 48 = 0x3FFFFF"
    by (simp_all add: csd_field_def csd_register_def)
  then have "csd_capacity ?csd = Some (2 ^ 32)" by (simp add: csd_capacity_def)
  then show ?thesis using csd_sectors_capacity [of ?csd] by simp
qed

text \<open>A card that answers every octet with the idle response, on a slow bus.\<close>

definition idle_hw :: "(nat \<times> u8 list) hw" where
  "idle_hw = script_hw\<lparr>xfer := (\<lambda>b (t, rs). (0x01, (t + 1, rs))), clock_us := (\<lambda>c. fst c * 6000000)\<rparr>"

lemma idle_hw_write [simp]: "fst (sd_spi_write idle_hw b s) = 0x01"
  by (simp add: sd_spi_write_def idle_hw_def split_def Let_def)

lemma ticks_idle_hw: "ticks idle_hw"
  by (simp add: ticks_def idle_hw_def split_def)

lemma idle_response: "fst (response_loop idle_hw (Suc n) r s) = 0x01"
  using idle_hw_write [of SPI_FILL_CHAR s]
  by (cases "sd_spi_write idle_hw SPI_FILL_CHAR s") (simp add: R1_RESPONSE_RECV_def)

lemma idle_cmd_spi: "sd_cmd_spi idle_hw cmd arg s = Some (r, s') \<Longrightarrow> r = 0x01"
proof -
  have 16: "(0x10 :: nat) = Suc 15" by simp
  assume "sd_cmd_spi idle_hw cmd arg s = Some (r, s')"
  then show "r = 0x01" unfolding sd_cmd_spi_def 16 using idle_response [of 15 0]
    by (auto simp: bind_eq_Some_conv Let_def simp del: response_loop.simps) (metis fst_conv)+
qed

lemma idle_retry: "retry_loop idle_hw cmd arg a (Suc n) r s = Some (r', s') \<Longrightarrow> r' = 0x01"
  by (auto simp: bind_eq_Some_conv Let_def R1_NO_RESPONSE_def dest!: idle_cmd_spi split: if_splits)

lemma idle_retry_3: "retry_loop idle_hw cmd arg a 3 r s = Some (r', s') \<Longrightarrow> r' = 0x01"
  using idle_retry [of cmd arg a 2 r s r' s'] by (simp only: eval_nat_numeral)

lemma idle_acmd41:
  "\<exists>s'. sd_cmd idle_hw ACMD41_SD_SEND_OP_COND arg True s = Some (SD_BLOCK_DEVICE_ERROR_NONE, R1_IDLE_STATE, s') \<and>
     now idle_hw s + 6000000 \<le> now idle_hw s'"
proof -
  obtain st r s' where c: "sd_cmd idle_hw ACMD41_SD_SEND_OP_COND arg True s = Some (st, r, s')"
    and later: "now idle_hw s < now idle_hw s'" using sd_cmd_total [OF ticks_idle_hw] by blast
  obtain s2 where p: "process_response idle_hw ACMD41_SD_SEND_OP_COND 0x01 s2 = Some (st, r, s')"
    using c by (auto simp: sd_cmd_def bind_eq_Some_conv simp del: retry_loop.simps dest: idle_retry_3 split: if_splits)
  then have "st = SD_BLOCK_DEVICE_ERROR_NONE" "r = R1_IDLE_STATE"
    by (auto simp: process_response_def response_rest_def response_status_def r1_defs cmd_defs)
  moreover have "now idle_hw s + 6000000 \<le> now idle_hw s'"
    using later by (simp add: now_def idle_hw_def)
  ultimately show ?thesis using c by blast
qed

lemma acmd41_loop_last:
  assumes "acmd41_loop hw arg t s = Some y"
  shows "\<exists>s0. sd_cmd hw ACMD41_SD_SEND_OP_COND arg True s0 = Some y"
proof (rule acmd41_loop.raw_induct [where
      P = "\<lambda>hw arg t s y. \<exists>s0. sd_cmd hw ACMD41_SD_SEND_OP_COND arg True s0 = Some y", OF _ assms])
  fix f :: "'b hw \<Rightarrow> u32 \<Rightarrow> nat \<Rightarrow> 'b sd_card \<Rightarrow> (int \<times> u32 \<times> 'b sd_card) option" and hw arg t s y
  assume IH: "\<And>hw arg t s y. f hw arg t s = Some y \<Longrightarrow> \<exists>s0. sd_cmd hw ACMD41_SD_SEND_OP_COND arg True s0 = Some y"
    and step: "Option.bind (sd_cmd hw ACMD41_SD_SEND_OP_COND arg True s) (\<lambda>(status, response, s).
       if response AND R1_IDLE_STATE \<noteq> 0 \<and> clock_us hw (bus s) < t
       then f hw arg t s else Some (status, response, s)) = Some y"
  obtain st r c where w: "sd_cmd hw ACMD41_SD_SEND_OP_COND arg True s = Some (st, r, c)"
    using step by (cases "sd_cmd hw ACMD41_SD_SEND_OP_COND arg True s") auto
  have "f hw arg t c = Some y \<or> y = (st, r, c)" using step by (auto simp: w split: if_splits)
  then show "\<exists>s0. sd_cmd hw ACMD41_SD_SEND_OP_COND arg True s0 = Some y" using IH w by metis
qed

lemma idle_status:
  "sd_cmd hw ACMD41_SD_SEND_OP_COND arg True s = Some (st, R1_IDLE_STATE, s') \<Longrightarrow> st = SD_BLOCK_DEVICE_ERROR_NONE"
  by (auto simp: sd_cmd_def bind_eq_Some_conv process_response_def response_rest_def response_status_def r1_defs cmd_defs
      split: if_splits)

text \<open>
  A card that is still idle when the five seconds are over is not reported: the response is
  no error of the command, so \<open>initialise_capacity\<close> gives the status it has, success, with a card of
  unknown type.
\<close>

theorem acmd41_timeout_is_success:
  assumes "acmd41_loop hw (if card_type s = SDCARD_V2 then OCR_HCS_CCS else 0)
    (clock_us hw (bus s) + 1000 * SD_COMMAND_TIMEOUT) s = Some (st, R1_IDLE_STATE, s1)"
  shows "initialise_capacity hw s = Some (SD_BLOCK_DEVICE_ERROR_NONE, s1\<lparr>card_type := CARD_UNKNOWN\<rparr>)"
proof -
  have "st = SD_BLOCK_DEVICE_ERROR_NONE" using acmd41_loop_last [OF assms] idle_status by blast
  then show ?thesis using assms by (simp add: initialise_capacity_def Let_def R1_IDLE_STATE_def)
qed

lemma acmd41_timeout_is_success_witness:
  "\<exists>s1. initialise_capacity idle_hw (hd (sd_cards (0, []))) =
     Some (SD_BLOCK_DEVICE_ERROR_NONE, s1\<lparr>card_type := CARD_UNKNOWN\<rparr>)"
proof -
  let ?s = "hd (sd_cards (0, [])) :: (nat \<times> u8 list) sd_card"
  obtain s1 where c: "sd_cmd idle_hw ACMD41_SD_SEND_OP_COND 0 True ?s =
      Some (SD_BLOCK_DEVICE_ERROR_NONE, R1_IDLE_STATE, s1)" and later: "now idle_hw ?s + 6000000 \<le> now idle_hw s1"
    using idle_acmd41 by blast
  have "acmd41_loop idle_hw 0 (clock_us idle_hw (bus ?s) + 1000 * SD_COMMAND_TIMEOUT) ?s =
      Some (SD_BLOCK_DEVICE_ERROR_NONE, R1_IDLE_STATE, s1)"
    using later by (subst acmd41_loop.simps) (simp add: c now_def SD_COMMAND_TIMEOUT_def)
  then have "acmd41_loop idle_hw (if card_type ?s = SDCARD_V2 then OCR_HCS_CCS else 0)
      (clock_us idle_hw (bus ?s) + 1000 * SD_COMMAND_TIMEOUT) ?s =
      Some (SD_BLOCK_DEVICE_ERROR_NONE, R1_IDLE_STATE, s1)"
    by (simp add: sd_cards_def SDCARD_V2_def)
  from acmd41_timeout_is_success [OF this] show ?thesis by blast
qed

end
