(* ===== verification/Sd_Blocks.thy ===== *)
theory Sd_Blocks
  imports Sd_Card_Facts
begin

text \<open>
  Reading and writing of blocks and the start of the driver, the second half of
  \<open>sd_driver/sd_card.c\<close>. A buffer of the caller is the list of its octets from the pointer on.
  The block counts are 32-bit words and the sector numbers 64-bit words, as in the code.
\<close>

section \<open>The model\<close>

text \<open>The address of a sector: in octets on a standard capacity card. The command takes 32 bits of it.\<close>

definition block_addr :: "'c sd_card \<Rightarrow> u64 \<Rightarrow> u64" where
  "block_addr s ulSectorNumber =
     (if card_type s = SDCARD_V2HC then ulSectorNumber else ulSectorNumber * of_nat BLOCK_SIZE_HC)"

text \<open>The guards \<open>in_sd_read_blocks\<close> and \<open>in_sd_write_blocks\<close> share; the sum wraps at 64 bits.\<close>

definition bad_request :: "'c sd_card \<Rightarrow> u64 \<Rightarrow> u32 \<Rightarrow> bool" where
  "bad_request s ulSectorNumber blockCnt \<longleftrightarrow>
     sectors s < ulSectorNumber + ucast blockCnt \<or> m_Status s AND (STA_NOINIT OR STA_NODISK) \<noteq> 0"

text \<open>The read status, the data stored in the buffer, and the card.\<close>

fun read_loop :: "'c hw \<Rightarrow> nat \<Rightarrow> 'c sd_card \<Rightarrow> (int \<times> u8 list \<times> 'c sd_card) option" where
  "read_loop hw 0 s = Some (0, [], s)"
| "read_loop hw (Suc n) s = do {
     (rc, data, s) \<leftarrow> sd_read_block hw BLOCK_SIZE_HC s;
     if rc \<noteq> 0 then Some (SD_BLOCK_DEVICE_ERROR_NO_RESPONSE, data, s)
     else do {
       (rc, rest, s) \<leftarrow> read_loop hw n s;
       Some (rc, data @ rest, s)
     }
   }"

definition in_sd_read_blocks ::
  "'c hw \<Rightarrow> u64 \<Rightarrow> u32 \<Rightarrow> 'c sd_card \<Rightarrow> (int \<times> u8 list \<times> 'c sd_card) option" where
  "in_sd_read_blocks hw ulSectorNumber ulSectorCount s =
     (if bad_request s ulSectorNumber ulSectorCount then Some (SD_BLOCK_DEVICE_ERROR_PARAMETER, [], s)
      else do {
        let addr = block_addr s ulSectorNumber;
        (status, _, s) \<leftarrow> sd_cmd hw (if 1 < ulSectorCount then CMD18_READ_MULTIPLE_BLOCK
          else CMD17_READ_SINGLE_BLOCK) (ucast addr) False s;
        if status \<noteq> SD_BLOCK_DEVICE_ERROR_NONE then Some (status, [], s)
        else do {
          (rd_status, data, s) \<leftarrow> read_loop hw (unat ulSectorCount) s;
          (status, s) \<leftarrow> (if 1 < ulSectorCount
            then map_option (\<lambda>(status, _, s). (status, s)) (sd_cmd hw CMD12_STOP_TRANSMISSION 0 False s)
            else Some (status, s));
          Some (if rd_status \<noteq> 0 then rd_status else status, data, s)
        }
      })"

definition sd_read_blocks ::
  "'c hw \<Rightarrow> u64 \<Rightarrow> u32 \<Rightarrow> 'c sd_card \<Rightarrow> (int \<times> u8 list \<times> 'c sd_card) option" where
  "sd_read_blocks hw ulSectorNumber ulSectorCount s =
     map_option (\<lambda>(status, data, s). (status, data, sd_unlock hw s))
       (in_sd_read_blocks hw ulSectorNumber ulSectorCount (sd_lock hw s))"

text \<open>One block out: the token, the data by DMA, the checksum, the response and the wait.\<close>

definition sd_write_block ::
  "'c hw \<Rightarrow> u8 list \<Rightarrow> u8 \<Rightarrow> nat \<Rightarrow> 'c sd_card \<Rightarrow> (u8 \<times> 'c sd_card) option" where
  "sd_write_block hw buffer token len s = do {
     let s = snd (sd_spi_write hw token s);
     (ret, _, s) \<leftarrow> sd_spi_transfer hw (Some buffer) False len s;
     if \<not> ret then None
     else do {
       crc \<leftarrow> (if crc_on then crc16 buffer len else Some (NOT 0));
       let s = snd (sd_spi_write hw (ucast (drop_bit 8 crc)) s);
       let s = snd (sd_spi_write hw (ucast crc) s);
       let (response, s) = sd_spi_write hw SPI_FILL_CHAR s;
       (_, s) \<leftarrow> sd_wait_ready hw SD_COMMAND_TIMEOUT s;
       Some (response AND SPI_DATA_RESPONSE_MASK, s)
     }
   }"

text \<open>The loop over the blocks tests its counter behind the body: a count of zero wraps.\<close>

function write_loop ::
  "'c hw \<Rightarrow> u8 list \<Rightarrow> u32 \<Rightarrow> int \<Rightarrow> 'c sd_card \<Rightarrow> (int \<times> 'c sd_card) option" where
  "write_loop hw buffer blockCnt status s = do {
     (response, s) \<leftarrow> sd_write_block hw buffer SPI_START_BLK_MUL_WRITE BLOCK_SIZE_HC s;
     if response \<noteq> SPI_DATA_ACCEPTED then Some (SD_BLOCK_DEVICE_ERROR_WRITE, s)
     else if blockCnt - 1 = 0 then Some (status, s)
     else write_loop hw (drop BLOCK_SIZE_HC buffer) (blockCnt - 1) status s
   }"
  by pat_completeness auto

termination write_loop
  by (relation "measure (\<lambda>(hw, buffer, blockCnt, status, s). unat (blockCnt - 1))")
    (auto intro!: unat_dec2)

declare write_loop.simps [simp del]

definition in_sd_write_blocks ::
  "'c hw \<Rightarrow> u8 list \<Rightarrow> u64 \<Rightarrow> u32 \<Rightarrow> 'c sd_card \<Rightarrow> (int \<times> 'c sd_card) option" where
  "in_sd_write_blocks hw buffer ulSectorNumber blockCnt s =
     (if bad_request s ulSectorNumber blockCnt then Some (SD_BLOCK_DEVICE_ERROR_PARAMETER, s)
      else do {
        let addr = block_addr s ulSectorNumber;
        if blockCnt = 1
        then do {
          (status, _, s) \<leftarrow> sd_cmd hw CMD24_WRITE_BLOCK (ucast addr) False s;
          if status \<noteq> SD_BLOCK_DEVICE_ERROR_NONE then Some (status, s)
          else do {
            (response, s) \<leftarrow> sd_write_block hw buffer SPI_START_BLOCK BLOCK_SIZE_HC s;
            Some (if response \<noteq> SPI_DATA_ACCEPTED then SD_BLOCK_DEVICE_ERROR_WRITE else status, s)
          }
        }
        else do {
          (_, _, s) \<leftarrow> sd_cmd hw ACMD23_SET_WR_BLK_ERASE_COUNT blockCnt True s;
          (status, _, s) \<leftarrow> sd_cmd hw CMD25_WRITE_MULTIPLE_BLOCK (ucast addr) False s;
          if status \<noteq> SD_BLOCK_DEVICE_ERROR_NONE then Some (status, s)
          else do {
            (status, s) \<leftarrow> write_loop hw buffer blockCnt status s;
            Some (status, snd (sd_spi_write hw SPI_STOP_TRAN s))
          }
        }
      })"

definition sd_write_blocks ::
  "'c hw \<Rightarrow> u8 list \<Rightarrow> u64 \<Rightarrow> u32 \<Rightarrow> 'c sd_card \<Rightarrow> (int \<times> 'c sd_card) option" where
  "sd_write_blocks hw buffer ulSectorNumber blockCnt s =
     map_option (\<lambda>(status, s). (status, sd_unlock hw s))
       (in_sd_write_blocks hw buffer ulSectorNumber blockCnt (sd_lock hw s))"

text \<open>The pins of each card, then the bus: \<open>sd_init_driver\<close>.\<close>

definition init_card_pins :: "'c hw \<Rightarrow> 'c sd_card \<Rightarrow> 'c sd_card" where
  "init_card_pins hw s =
     (let c = pin_init hw (card_detect_gpio s) (bus s);
          c = pin_pull_up hw (card_detect_gpio s) c;
          c = pin_dir hw (card_detect_gpio s) False c;
          c = pin_init hw (ss_gpio s) c;
          c = pin_put hw (ss_gpio s) True c;
          c = pin_dir hw (ss_gpio s) True c;
          c = pin_put hw (ss_gpio s) True c
      in s\<lparr>bus := c\<rparr>)"

definition sd_init_driver :: "'c hw \<Rightarrow> 'c sd_card \<Rightarrow> bool \<times> bool \<times> 'c sd_card" where
  "sd_init_driver hw s =
     (let s = init_card_pins hw s;
          (rc, sp, c) = my_spi_init hw (spi s) (bus s);
          s = s\<lparr>spi := sp, bus := c\<rparr>
      in if rc then (True, True, s) else (False, False, s))"

section \<open>Frames\<close>

lemma read_loop_frame: "read_loop hw n s = Some (rc, data, s') \<Longrightarrow> only_bus s s'"
proof (induction n arbitrary: s data)
  case (Suc n)
  obtain rc1 d s1 where 1: "sd_read_block hw BLOCK_SIZE_HC s = Some (rc1, d, s1)"
    and 2: "s1 = s' \<or> (\<exists>rest. read_loop hw n s1 = Some (rc, rest, s'))"
    using Suc.prems by (auto simp: bind_eq_Some_conv split: if_splits)
  have "only_bus s s1" using 1 by (rule sd_read_block_frame)
  also have "only_bus s1 s'" using 2 Suc.IH by auto
  finally show ?case .
qed simp

lemma sd_read_blocks_frame:
  assumes "sd_read_blocks hw sector count s = Some (rc, data, s')"
  shows "only_bus s s'"
proof -
  obtain s1 where 1: "in_sd_read_blocks hw sector count (sd_lock hw s) = Some (rc, data, s1)"
    and s': "s' = sd_unlock hw s1" using assms by (auto simp: sd_read_blocks_def)
  have "only_bus (sd_lock hw s) s1"
  proof (cases "bad_request (sd_lock hw s) sector count")
    case True
    then show ?thesis using 1 by (simp add: in_sd_read_blocks_def)
  next
    case False
    then obtain cmd st r s2 where 2: "sd_cmd hw cmd (ucast (block_addr (sd_lock hw s) sector)) False (sd_lock hw s) = Some (st, r, s2)"
      and cmd: "cmd \<noteq> CMD8_SEND_IF_COND"
      and rest: "s2 = s1 \<or> (\<exists>rc d s3. read_loop hw (unat count) s2 = Some (rc, d, s3) \<and>
        (s3 = s1 \<or> (\<exists>st r. sd_cmd hw CMD12_STOP_TRANSMISSION 0 False s3 = Some (st, r, s1))))"
      using 1 by (fastforce simp: in_sd_read_blocks_def Let_def bind_eq_Some_conv cmd_defs split: if_splits)
    have "only_bus (sd_lock hw s) s2" using 2 cmd by (rule sd_cmd_only_bus)
    moreover have "only_bus s2 s1"
      using rest by (auto dest!: read_loop_frame sd_cmd_only_bus simp: cmd_defs elim: only_bus_trans)
    ultimately show ?thesis by (rule only_bus_trans)
  qed
  then show ?thesis unfolding s' by (meson only_bus_trans sd_lock_frame)
qed

lemma sd_write_block_frame: "sd_write_block hw buffer token len s = Some (r, s') \<Longrightarrow> only_bus s s'"
proof -
  assume w: "sd_write_block hw buffer token len s = Some (r, s')"
  let ?s1 = "snd (sd_spi_write hw token s)"
  obtain rs s2 crc where 2: "sd_spi_transfer hw (Some buffer) False len ?s1 = Some (True, rs, s2)"
    and crc: "crc16 buffer len = Some crc"
    using w by (auto simp: sd_write_block_def Let_def bind_eq_Some_conv crc_on_def split: if_splits)
  let ?s5 = "snd (sd_spi_write hw SPI_FILL_CHAR (snd (sd_spi_write hw (ucast crc)
    (snd (sd_spi_write hw (ucast (drop_bit 8 crc)) s2)))))"
  obtain q where q: "sd_wait_ready hw SD_COMMAND_TIMEOUT ?s5 = Some (q, s')"
    using w 2 crc by (auto simp: sd_write_block_def Let_def bind_eq_Some_conv crc_on_def split_def)
  have "only_bus s ?s1" by simp
  also have "only_bus ?s1 s2" using 2 by (rule sd_spi_transfer_frame)
  also have "only_bus s2 (snd (sd_spi_write hw (ucast (drop_bit 8 crc)) s2))" by simp
  also have "only_bus \<dots> (snd (sd_spi_write hw (ucast crc) (snd (sd_spi_write hw (ucast (drop_bit 8 crc)) s2))))" by simp
  also have "only_bus \<dots> ?s5" by simp
  also have "only_bus ?s5 s'" using q by (rule sd_wait_ready_frame)
  finally show ?thesis .
qed

lemma write_loop_frame: "write_loop hw buffer n status s = Some (rc, s') \<Longrightarrow> only_bus s s'"
proof (induction hw buffer n status s rule: write_loop.induct)
  case (1 hw buffer blockCnt status s)
  obtain r s1 where w: "sd_write_block hw buffer SPI_START_BLK_MUL_WRITE BLOCK_SIZE_HC s = Some (r, s1)"
    and rest: "s1 = s' \<or> r = SPI_DATA_ACCEPTED \<and> blockCnt - 1 \<noteq> 0 \<and>
      write_loop hw (drop BLOCK_SIZE_HC buffer) (blockCnt - 1) status s1 = Some (rc, s')"
    using 1(2) by (subst (asm) write_loop.simps) (auto simp: bind_eq_Some_conv split: if_splits)
  have "only_bus s s1" using w by (rule sd_write_block_frame)
  also have "only_bus s1 s'" using rest 1(1) [OF w refl] by auto
  finally show ?case .
qed

lemma sd_write_blocks_frame:
  assumes "sd_write_blocks hw buffer sector count s = Some (rc, s')"
  shows "only_bus s s'"
proof -
  let ?s = "sd_lock hw s" and ?a = "ucast (block_addr (sd_lock hw s) sector) :: u32"
  obtain s1 where 1: "in_sd_write_blocks hw buffer sector count ?s = Some (rc, s1)"
    and s': "s' = sd_unlock hw s1" using assms by (auto simp: sd_write_blocks_def)
  have "only_bus ?s s1"
  proof (cases "bad_request ?s sector count \<or> count = 1")
    case True
    then consider "s1 = ?s" | st r where "sd_cmd hw CMD24_WRITE_BLOCK ?a False ?s = Some (st, r, s1)"
      | st r s2 q where "sd_cmd hw CMD24_WRITE_BLOCK ?a False ?s = Some (st, r, s2)"
        "sd_write_block hw buffer SPI_START_BLOCK BLOCK_SIZE_HC s2 = Some (q, s1)"
      using 1 by (fastforce simp: in_sd_write_blocks_def Let_def bind_eq_Some_conv split: if_splits)
    then show ?thesis
      by cases (auto dest!: sd_cmd_only_bus sd_write_block_frame simp: cmd_defs elim: only_bus_trans)
  next
    case False
    then obtain st r s2 st2 r2 s3 where a: "sd_cmd hw ACMD23_SET_WR_BLK_ERASE_COUNT count True ?s = Some (st, r, s2)"
      and b: "sd_cmd hw CMD25_WRITE_MULTIPLE_BLOCK ?a False s2 = Some (st2, r2, s3)"
      and rest: "s3 = s1 \<or> (\<exists>st3 st4 s4. write_loop hw buffer count st3 s3 = Some (st4, s4) \<and>
        s1 = snd (sd_spi_write hw SPI_STOP_TRAN s4))"
      using 1 by (fastforce simp: in_sd_write_blocks_def Let_def bind_eq_Some_conv split: if_splits)
    have "only_bus ?s s2" using a by (rule sd_cmd_only_bus) (simp add: cmd_defs)
    also have "only_bus s2 s3" using b by (rule sd_cmd_only_bus) (simp add: cmd_defs)
    also have "only_bus s3 s1"
      using rest by (auto dest!: write_loop_frame intro: only_bus_trans [OF _ sd_spi_write_frame])
    finally show ?thesis .
  qed
  then show ?thesis unfolding s' by (meson only_bus_trans sd_lock_frame)
qed

end
