(* ===== verification/Sd_Wire.thy ===== *)
theory Sd_Wire
  imports Sd_Blocks
begin

text \<open>
  What reads and writes of blocks put on the wire. A bus that records its octets (\<open>tap\<close>) shows that
  the data of a read came from the card with their checksums, and that a card that takes apart what
  a write sent gets the blocks of the buffer. A scripted card gives an example of each.
\<close>

section \<open>What a command leaves true of the bus\<close>

text \<open>A property of the bus that every exchange keeps is kept by every command.\<close>

definition stable :: "'c hw \<Rightarrow> ('c \<Rightarrow> bool) \<Rightarrow> bool" where
  "stable hw P \<longleftrightarrow> (\<forall>b c. P c \<longrightarrow> P (snd (xfer hw b c)))"

lemma stable_write: "stable hw P \<Longrightarrow> P (bus s) \<Longrightarrow> P (bus (snd (sd_spi_write hw b s)))"
  by (simp add: stable_def sd_spi_write_def split_def Let_def)

lemma stable_write': "stable hw P \<Longrightarrow> P (bus s) \<Longrightarrow> sd_spi_write hw b s = (r, s') \<Longrightarrow> P (bus s')"
  by (metis stable_write snd_conv)

lemma stable_send_octets: "stable hw P \<Longrightarrow> P (bus s) \<Longrightarrow> P (bus (send_octets hw bs s))"
  by (induction bs arbitrary: s) (auto intro: stable_write)

lemma stable_response_loop: "stable hw P \<Longrightarrow> P (bus s) \<Longrightarrow> P (bus (snd (response_loop hw n r s)))"
  by (induction n arbitrary: r s) (auto simp: Let_def split: prod.split dest: stable_write')

lemma stable_response_loop':
  "stable hw P \<Longrightarrow> P (bus s) \<Longrightarrow> response_loop hw n r s = (r', s') \<Longrightarrow> P (bus s')"
  by (metis stable_response_loop snd_conv)

lemma stable_sd_cmd_spi:
  assumes st: "stable hw P" and "P (bus s)" and "sd_cmd_spi hw cmd arg s = Some (r, s')"
  shows "P (bus s')"
proof -
  obtain p where p: "response_loop hw 16 0 (if cmd = CMD12_STOP_TRANSMISSION
      then snd (sd_spi_write hw SPI_FILL_CHAR (send_octets hw p s)) else send_octets hw p s) = (r, s')"
    using assms(3) by (auto simp: sd_cmd_spi_def Let_def bind_eq_Some_conv)
  have "P (bus (send_octets hw p s))" using st assms(2) by (rule stable_send_octets)
  then show ?thesis using p by (intro stable_response_loop' [OF st _ p]) (simp add: stable_write [OF st])
qed

lemma stable_wait_ready_loop:
  fixes P :: "'b \<Rightarrow> bool"
  assumes "stable hw P" and "wait_ready_loop hw t s = Some y" and "P (bus s)"
  shows "P (bus (snd y))"
proof -
  have "stable hw P \<longrightarrow> P (bus s) \<longrightarrow> P (bus (snd y))"
  proof (rule wait_ready_loop.raw_induct
      [where P = "\<lambda>hw t s y. stable hw P \<longrightarrow> P (bus s) \<longrightarrow> P (bus (snd y))", OF _ assms(2)], intro impI)
    fix f :: "'b hw \<Rightarrow> nat \<Rightarrow> 'b sd_card \<Rightarrow> (u8 \<times> 'b sd_card) option" and hw t s y
    assume IH: "\<And>hw t s y. f hw t s = Some y \<Longrightarrow> stable hw P \<longrightarrow> P (bus s) \<longrightarrow> P (bus (snd y))"
      and step: "(case sd_spi_write hw 0xFF s of (resp, s) \<Rightarrow>
        if resp = 0 \<and> clock_us hw (bus s) < t then f hw t s else Some (resp, s)) = Some y"
      and st: "stable hw P" "P (bus s)"
    obtain r c where w: "sd_spi_write hw 0xFF s = (r, c)" by (rule prod.exhaust)
    have "P (bus c)" using st w by (rule stable_write')
    moreover have "f hw t c = Some y \<or> y = (r, c)" using step by (simp add: w split: if_splits)
    ultimately show "P (bus (snd y))" using IH [of hw t c y] st(1) by auto
  qed
  then show ?thesis using assms by blast
qed

lemma stable_sd_wait_ready:
  "stable hw P \<Longrightarrow> P (bus s) \<Longrightarrow> sd_wait_ready hw t s = Some (r, s') \<Longrightarrow> P (bus s')"
  by (auto simp: sd_wait_ready_def dest: stable_wait_ready_loop)

lemma stable_retry_loop:
  assumes st: "stable hw P"
  shows "P (bus s) \<Longrightarrow> retry_loop hw cmd arg isAcmd n r s = Some (r', s') \<Longrightarrow> P (bus s')"
proof (induction n arbitrary: r s)
  case (Suc n)
  obtain s1 r2 s2 where pre: "(if isAcmd then Option.bind (sd_cmd_spi hw CMD55_APP_CMD 0 s)
      (\<lambda>(_, s). Option.bind (sd_wait_ready hw SD_COMMAND_TIMEOUT s) (\<lambda>(_, s). Some s)) else Some s) = Some s1"
    and cmd: "sd_cmd_spi hw cmd arg s1 = Some (r2, s2)"
    and rest: "retry_loop hw cmd arg isAcmd n (ucast r2) s2 = Some (r', s') \<or> s2 = s'"
    using Suc.prems(2) unfolding retry_loop.simps Let_def bind_eq_Some_conv
    by (elim exE conjE) (auto split: if_splits)
  have "P (bus s1)"
  proof (cases isAcmd)
    case True
    then obtain q t u where q: "sd_cmd_spi hw CMD55_APP_CMD 0 s = Some (q, t)"
      and u: "sd_wait_ready hw SD_COMMAND_TIMEOUT t = Some (u, s1)"
      using pre by (auto simp: bind_eq_Some_conv)
    show ?thesis using stable_sd_wait_ready [OF st stable_sd_cmd_spi [OF st Suc.prems(1) q] u] .
  next
    case False
    then show ?thesis using pre Suc.prems(1) by simp
  qed
  then have "P (bus s2)" using cmd by (rule stable_sd_cmd_spi [OF st])
  then show ?case using rest Suc.IH by auto
qed simp

lemma stable_process_response:
  assumes st: "stable hw P" and "P (bus s)" and "process_response hw cmd r s = Some (x, r', s')"
  shows "P (bus s')"
proof -
  have u: "P (bus s2) \<Longrightarrow> read_u32 hw s2 = (v, s3) \<Longrightarrow> P (bus s3)" for s2 v s3
    by (auto simp: read_u32_def Let_def split: prod.splits dest!: stable_write' [OF st, rotated])
  have "response_rest hw cmd r s = Some (v, s3) \<Longrightarrow> P (bus s3)" for v s3
    using assms(2) u [of s v s3] u [of "s\<lparr>card_type := SDCARD_V2\<rparr>" v s3]
    by (auto simp: response_rest_def Let_def split: if_splits prod.splits
        dest: stable_sd_wait_ready [OF st, rotated] stable_write' [OF st, rotated])
  then show ?thesis using assms(2,3) by (auto simp: process_response_def split: if_splits)
qed

lemma stable_sd_cmd:
  assumes st: "stable hw P" and "P (bus s)" and "sd_cmd hw cmd arg isAcmd s = Some (x, r, s')"
  shows "P (bus s')"
proof -
  obtain s1 r1 s2 where pre: "(if cmd \<noteq> CMD12_STOP_TRANSMISSION
          then map_option snd (sd_wait_ready hw SD_COMMAND_TIMEOUT s) else Some s) = Some s1"
    and retry: "retry_loop hw cmd arg isAcmd 3 0 s1 = Some (r1, s2)"
    and p: "process_response hw cmd r1 s2 = Some (x, r, s')"
    using assms(3) unfolding sd_cmd_def bind_eq_Some_conv by (elim exE conjE) auto
  have "P (bus s1)" using pre assms(2) by (auto split: if_splits dest: stable_sd_wait_ready [OF st, rotated])
  then have "P (bus s2)" using retry by (rule stable_retry_loop [OF st])
  then show ?thesis using p by (rule stable_process_response [OF st])
qed

section \<open>A recording bus\<close>

text \<open>The bus with a record of the octets exchanged: sent and received.\<close>

definition tap :: "'c hw \<Rightarrow> ('c \<times> (u8 \<times> u8) list) hw" where
  "tap hw = \<lparr>
     xfer = (\<lambda>b (c, l). let (r, c') = xfer hw b c in (r, (c', l @ [(b, r)]))),
     dma_done = (\<lambda>(c, l). dma_done hw c),
     pin_init = (\<lambda>n (c, l). (pin_init hw n c, l)), pin_pull_up = (\<lambda>n (c, l). (pin_pull_up hw n c, l)),
     pin_dir = (\<lambda>n v (c, l). (pin_dir hw n v c, l)), pin_put = (\<lambda>n v (c, l). (pin_put hw n v c, l)),
     pin_get = (\<lambda>n (c, l). pin_get hw n c), clock_us = (\<lambda>(c, l). clock_us hw c),
     busy_wait_us = (\<lambda>n (c, l). (busy_wait_us hw n c, l)),
     set_baudrate = (\<lambda>i n (c, l). (set_baudrate hw i n c, l)),
     claim_dma = (\<lambda>(c, l). let (n, c') = claim_dma hw c in (n, (c', l))),
     default_config = default_config hw, sdk = (\<lambda>k (c, l). (sdk hw k c, l))\<rparr>"

definition wire :: "('c \<times> (u8 \<times> u8) list) sd_card \<Rightarrow> (u8 \<times> u8) list" where
  "wire s = snd (bus s)"

lemma tap_xfer: "snd (snd (xfer (tap hw) b cl)) = snd cl @ [(b, fst (xfer (tap hw) b cl))]"
  by (simp add: tap_def split_def Let_def)

lemma wire_write: "sd_spi_write (tap hw) b s = (r, s') \<Longrightarrow> wire s' = wire s @ [(b, r)]"
  using tap_xfer [of hw b "bus s"] by (auto simp: sd_spi_write_def wire_def split_def Let_def)

lemma wire_write_snd:
  "wire (snd (sd_spi_write (tap hw) b s)) = wire s @ [(b, fst (sd_spi_write (tap hw) b s))]"
  by (metis prod.collapse wire_write)

lemma wire_unlock:
  "\<exists>l. wire (sd_unlock (tap hw) s) = wire s @ l \<and> (\<forall>x \<in> set l. fst x = 0xFF)"
proof -
  have pin: "wire (t\<lparr>bus := pin_put (tap hw) n v (bus t)\<rparr>) = wire t" for t n v
    by (simp add: wire_def tap_def split_def)
  show ?thesis
    unfolding sd_unlock_def sd_spi_release_def sd_spi_deselect_def Let_def wire_write_snd pin
    by (simp add: SPI_FILL_CHAR_def)
qed

lemma wire_xfer_all:
  "snd (snd (xfer_all (tap hw) bs cl)) = snd cl @ zip bs (fst (xfer_all (tap hw) bs cl))"
  by (induction bs arbitrary: cl) (simp_all add: split_def Let_def tap_xfer)

text \<open>Every command extends the record.\<close>

lemma stable_tap: "stable (tap hw) (\<lambda>cl. \<exists>l. snd cl = x @ l)"
  by (auto simp: stable_def tap_xfer)

lemma wire_sd_cmd:
  assumes "sd_cmd (tap hw) cmd arg isAcmd s = Some (st, r, s')"
  shows "\<exists>l. wire s' = wire s @ l"
  using stable_sd_cmd [OF stable_tap _ assms, of "wire s"] by (auto simp: wire_def)


section \<open>Blocks on the wire\<close>

definition sent :: "('c \<times> (u8 \<times> u8) list) sd_card \<Rightarrow> u8 list" where
  "sent s = map fst (wire s)"

definition received :: "('c \<times> (u8 \<times> u8) list) sd_card \<Rightarrow> u8 list" where
  "received s = map snd (wire s)"

definition crc_of :: "u8 list \<Rightarrow> u16" where
  "crc_of crc = push_bit 8 (ucast (crc ! 0)) OR ucast (crc ! 1)"

text \<open>A stream that carries blocks in their order, each behind a token and before its checksum.\<close>

fun carries :: "u8 list list \<Rightarrow> u8 list \<Rightarrow> bool" where
  "carries [] l = True"
| "carries (b # bs) l =
     (\<exists>pre crc post. l = pre @ [SPI_START_BLOCK] @ b @ crc @ post \<and> length crc = 2 \<and>
        crc16 b 512 = Some (crc_of crc) \<and> carries bs post)"

lemma carries_extend: "carries bs l \<Longrightarrow> carries bs (l @ m)"
proof (induction bs arbitrary: l)
  case (Cons b bs)
  then obtain pre crc post where "l = pre @ [SPI_START_BLOCK] @ b @ crc @ post" "length crc = 2"
    "crc16 b 512 = Some (crc_of crc)" "carries bs post" by auto
  then show ?case using Cons.IH unfolding carries.simps
    by - (rule exI [where x = pre], rule exI [where x = crc], rule exI [where x = "post @ m"], simp)
qed simp

lemma carries_prefix: "carries bs l \<Longrightarrow> carries bs (m @ l)"
proof (cases bs)
  case (Cons b bs')
  assume "carries bs l"
  then obtain pre crc post where "l = pre @ [SPI_START_BLOCK] @ b @ crc @ post" "length crc = 2"
    "crc16 b 512 = Some (crc_of crc)" "carries bs' post" using Cons by auto
  then show ?thesis unfolding Cons carries.simps
    by - (rule exI [where x = "m @ pre"], rule exI [where x = crc], rule exI [where x = post], simp)
qed simp

lemma wire_wait_token_loop:
  fixes hw :: "'b hw"
  assumes "wait_token_loop (tap hw) token t s = Some y"
  shows "\<exists>l. wire (snd y) = wire s @ l \<and> (fst y \<longrightarrow> (\<exists>m x. l = m @ [(x, token)]))"
proof -
  have "h = tap hw \<longrightarrow> (\<exists>l. wire (snd y) = wire s @ l \<and> (fst y \<longrightarrow> (\<exists>m x. l = m @ [(x, token)])))"
    if "wait_token_loop h token t s = Some y" for h
  proof (rule wait_token_loop.raw_induct [where P = "\<lambda>h token t s y. h = tap hw \<longrightarrow>
      (\<exists>l. wire (snd y) = wire s @ l \<and> (fst y \<longrightarrow> (\<exists>m x. l = m @ [(x, token)])))", OF _ that], intro impI)
    fix f :: "('b \<times> (u8 \<times> u8) list) hw \<Rightarrow> u8 \<Rightarrow> nat \<Rightarrow> ('b \<times> (u8 \<times> u8) list) sd_card \<Rightarrow> _" and h token t s y
    assume IH: "\<And>h token t s y. f h token t s = Some y \<Longrightarrow> h = tap hw \<longrightarrow>
        (\<exists>l. wire (snd y) = wire s @ l \<and> (fst y \<longrightarrow> (\<exists>m x. l = m @ [(x, token)])))"
      and step: "(case sd_spi_write h SPI_FILL_CHAR s of (r, s) \<Rightarrow>
        if token = r then Some (True, s)
        else if clock_us h (bus s) < t then f h token t s else Some (False, s)) = Some y"
      and h: "h = tap hw"
    obtain r c where w: "sd_spi_write h SPI_FILL_CHAR s = (r, c)" by (rule prod.exhaust)
    have c: "wire c = wire s @ [(SPI_FILL_CHAR, r)]" using w h by (auto dest: wire_write)
    have "f h token t c = Some y \<or> y = (token = r, c)" using step by (auto simp: w split: if_splits)
    then show "\<exists>l. wire (snd y) = wire s @ l \<and> (fst y \<longrightarrow> (\<exists>m x. l = m @ [(x, token)]))"
    proof
      assume "f h token t c = Some y"
      from IH [OF this] h obtain l where "wire (snd y) = wire c @ l"
        "fst y \<longrightarrow> (\<exists>m x. l = m @ [(x, token)])" by auto
      then show ?thesis using c by (intro exI [of _ "[(SPI_FILL_CHAR, r)] @ l"]) auto
    next
      assume "y = (token = r, c)"
      then show ?thesis using c by auto
    qed
  qed
  then show ?thesis using assms by blast
qed

lemma wire_sd_wait_token:
  "sd_wait_token (tap hw) token s = Some (f, s') \<Longrightarrow>
     \<exists>l. wire s' = wire s @ l \<and> (f \<longrightarrow> (\<exists>m x. l = m @ [(x, token)]))"
  by (auto simp: sd_wait_token_def dest: wire_wait_token_loop)

lemma wire_transfer:
  assumes "sd_spi_transfer (tap hw) tx rx len s = Some (True, rs, s')"
  shows "\<exists>src in'. wire s' = wire s @ zip src in' \<and> length src = 512 \<and> length in' = 512 \<and>
    (case tx of Some bs \<Rightarrow> src = take 512 bs \<and> 512 \<le> length bs | None \<Rightarrow> True) \<and> (rx \<longrightarrow> rs = in')"
proof -
  obtain sp c where t: "spi_transfer (tap hw) tx rx len (spi s) (bus s) = Some (True, rs, sp, c)"
    and s': "s' = s\<lparr>spi := sp, bus := c\<rparr>" using assms by (auto simp: sd_spi_transfer_def)
  let ?src = "case tx of Some bs \<Rightarrow> take 512 bs | None \<Rightarrow> replicate 512 SPI_FILL_CHAR"
  have ok: "snd (xfer_all (tap hw) ?src (bus s)) = c" "rx \<longrightarrow> rs = fst (xfer_all (tap hw) ?src (bus s))"
    "\<forall>bs. tx = Some bs \<longrightarrow> 512 \<le> length bs" using spi_transfer_ok [OF t] by auto
  have len: "length ?src = 512" using ok(3) by (auto split: option.split)
  have "wire s' = wire s @ zip ?src (fst (xfer_all (tap hw) ?src (bus s)))"
    using wire_xfer_all [of hw ?src "bus s"] ok(1) by (simp add: wire_def s')
  then show ?thesis using len ok(2,3)
    by - (rule exI [where x = ?src], rule exI [where x = "fst (xfer_all (tap hw) ?src (bus s))"],
      auto simp: length_xfer_all split: option.split)
qed

lemma wire_check_crc:
  assumes "check_crc (tap hw) data n s = Some (0, s')"
  shows "\<exists>crc. received s' = received s @ crc \<and> length crc = 2 \<and> crc16 data n = Some (crc_of crc)"
proof -
  obtain a s1 where a: "sd_spi_write (tap hw) SPI_FILL_CHAR s = (a, s1)" by (rule prod.exhaust)
  obtain b s2 where b: "sd_spi_write (tap hw) SPI_FILL_CHAR s1 = (b, s2)" by (rule prod.exhaust)
  have r: "read_crc (tap hw) s = (crc_of [a, b], s2)" by (simp add: read_crc_def a b crc_of_def)
  then have "s' = s2" "crc16 data n = Some (crc_of [a, b])"
    using assms by (auto simp: check_crc_def bind_eq_Some_conv crc_on_def sd_error_defs split: if_splits)
  moreover have "received s2 = received s @ [a, b]"
    using wire_write [OF a] wire_write [OF b] by (simp add: received_def)
  ultimately show ?thesis by (intro exI [of _ "[a, b]"]) simp
qed

lemma wire_read_block:
  assumes "sd_read_block (tap hw) 512 s = Some (0, data, s')"
  shows "length data = 512 \<and> (\<exists>l. received s' = received s @ l \<and>
    (\<exists>pre crc. l = pre @ [SPI_START_BLOCK] @ data @ crc \<and> length crc = 2 \<and> crc16 data 512 = Some (crc_of crc)))"
proof -
  obtain s1 s2 where 1: "sd_wait_token (tap hw) SPI_START_BLOCK s = Some (True, s1)"
    and 2: "sd_spi_transfer (tap hw) None True 512 s1 = Some (True, data, s2)"
    and 3: "check_crc (tap hw) data 512 s2 = Some (0, s')"
    using assms by (auto simp: sd_read_block_def bind_eq_Some_conv sd_error_defs split: if_splits)
  obtain m x where m: "wire s1 = wire s @ m @ [(x, SPI_START_BLOCK)]" using wire_sd_wait_token [OF 1] by auto
  obtain src where src: "wire s2 = wire s1 @ zip src data" "length src = 512" "length data = 512"
    using wire_transfer [OF 2] by auto
  obtain crc where crc: "received s' = received s2 @ crc" "length crc = 2" "crc16 data 512 = Some (crc_of crc)"
    using wire_check_crc [OF 3] by blast
  have "received s' = received s @ (map snd m @ [SPI_START_BLOCK] @ data @ crc)"
    using m src crc(1) by (simp add: received_def)
  then show ?thesis using src(3) crc(2,3) by blast
qed

lemma wire_read_loop:
  assumes "read_loop (tap hw) n s = Some (0, data, s')"
  shows "\<exists>blocks l. data = concat blocks \<and> length blocks = n \<and> (\<forall>b \<in> set blocks. length b = 512) \<and>
    received s' = received s @ l \<and> carries blocks l"
  using assms
proof (induction n arbitrary: s data)
  case (Suc n)
  obtain d s1 rest where 1: "sd_read_block (tap hw) 512 s = Some (0, d, s1)"
    and 2: "read_loop (tap hw) n s1 = Some (0, rest, s')" and data: "data = d @ rest"
    using Suc.prems by (auto simp: bind_eq_Some_conv BLOCK_SIZE_HC_def sd_error_defs split: if_splits)
  obtain blocks m where m: "rest = concat blocks" "length blocks = n" "\<forall>b \<in> set blocks. length b = 512"
    "received s' = received s1 @ m" "carries blocks m" using Suc.IH [OF 2] by blast
  obtain pre crc where d: "length d = 512" "received s1 = received s @ pre @ [SPI_START_BLOCK] @ d @ crc"
    "length crc = 2" "crc16 d 512 = Some (crc_of crc)" using wire_read_block [OF 1] by blast
  have "received s' = received s @ (pre @ [SPI_START_BLOCK] @ d @ crc @ m)" using m(4) d(2) by simp
  moreover have "carries (d # blocks) (pre @ [SPI_START_BLOCK] @ d @ crc @ m)" using d m(5) by auto
  ultimately show ?case using data m d(1) by (intro exI [of _ "d # blocks"]) auto
qed auto


text \<open>What a card takes from the stream of a write: blocks behind tokens, up to the stop token.\<close>

function receive :: "u8 \<Rightarrow> u8 list \<Rightarrow> u8 list list option" where
  "receive token [] = Some []"
| "receive token (x # xs) =
     (if x = token
      then if length xs < 514 \<or> crc16 (take 512 xs) 512 \<noteq> Some (crc_of (take 2 (drop 512 xs))) then None
           else map_option (Cons (take 512 xs)) (receive token (drop 514 xs))
      else if x = SPI_STOP_TRAN then Some []
      else if x = SPI_FILL_CHAR then receive token xs
      else None)"
  by pat_completeness auto

termination receive
  by (relation "measure (\<lambda>(token, l). length l)") auto

lemma receive_fill:
  "token \<noteq> 0xFF \<Longrightarrow> (\<forall>x \<in> set fill. x = 0xFF) \<Longrightarrow> receive token (fill @ l) = receive token l"
  by (induction fill) (auto simp: SPI_STOP_TRAN_def SPI_FILL_CHAR_def)

lemma receive_block:
  assumes "length b = 512" and "length crc = 2" and "crc16 b 512 = Some (crc_of crc)"
  shows "receive token (token # b @ crc @ l) = map_option (Cons b) (receive token l)"
proof -
  have "take 512 (b @ crc @ l) = b" "take 2 (drop 512 (b @ crc @ l)) = crc" "drop 514 (b @ crc @ l) = l"
    using assms(1,2) by simp_all
  moreover have "\<not> length (b @ crc @ l) < 514" using assms(1,2) by simp
  ultimately show ?thesis using assms(3) by (simp only: receive.simps) simp
qed

lemma wire_wait_ready_loop:
  fixes hw :: "'b hw"
  assumes "wait_ready_loop (tap hw) t s = Some y"
  shows "\<exists>l. wire (snd y) = wire s @ l \<and> (\<forall>x \<in> set l. fst x = 0xFF)"
proof -
  have "h = tap hw \<longrightarrow> (\<exists>l. wire (snd y) = wire s @ l \<and> (\<forall>x \<in> set l. fst x = 0xFF))"
    if "wait_ready_loop h t s = Some y" for h
  proof (rule wait_ready_loop.raw_induct [where P = "\<lambda>h t s y. h = tap hw \<longrightarrow>
      (\<exists>l. wire (snd y) = wire s @ l \<and> (\<forall>x \<in> set l. fst x = 0xFF))", OF _ that], intro impI)
    fix f :: "('b \<times> (u8 \<times> u8) list) hw \<Rightarrow> nat \<Rightarrow> ('b \<times> (u8 \<times> u8) list) sd_card \<Rightarrow> _" and h t s y
    assume IH: "\<And>h t s y. f h t s = Some y \<Longrightarrow> h = tap hw \<longrightarrow>
        (\<exists>l. wire (snd y) = wire s @ l \<and> (\<forall>x \<in> set l. fst x = 0xFF))"
      and step: "(case sd_spi_write h 0xFF s of (resp, s) \<Rightarrow>
        if resp = 0 \<and> clock_us h (bus s) < t then f h t s else Some (resp, s)) = Some y"
      and h: "h = tap hw"
    obtain r c where w: "sd_spi_write h 0xFF s = (r, c)" by (rule prod.exhaust)
    have c: "wire c = wire s @ [(0xFF, r)]" using w h by (auto dest: wire_write)
    have "f h t c = Some y \<or> y = (r, c)" using step by (simp add: w split: if_splits)
    then show "\<exists>l. wire (snd y) = wire s @ l \<and> (\<forall>x \<in> set l. fst x = 0xFF)"
    proof
      assume "f h t c = Some y"
      from IH [OF this] h obtain l where "wire (snd y) = wire c @ l" "\<forall>x \<in> set l. fst x = 0xFF" by auto
      then show ?thesis using c by (intro exI [of _ "[(0xFF, r)] @ l"]) auto
    next
      assume "y = (r, c)"
      then show ?thesis using c by auto
    qed
  qed
  then show ?thesis using assms by blast
qed

lemma wire_sd_wait_ready:
  "sd_wait_ready (tap hw) t s = Some (r, s') \<Longrightarrow> \<exists>l. wire s' = wire s @ l \<and> (\<forall>x \<in> set l. fst x = 0xFF)"
  by (auto simp: sd_wait_ready_def dest: wire_wait_ready_loop)

lemma crc_of_octets: "crc_of [ucast (drop_bit 8 crc), ucast crc] = crc"
proof (rule bit_word_eqI)
  fix n assume "n < LENGTH(16)"
  then consider "n < 8" | "8 \<le> n \<and> n < 16" by force
  then show "bit (crc_of [ucast (drop_bit 8 crc), ucast crc]) n = bit crc n"
    by cases (auto simp: crc_of_def bit_or_iff bit_push_bit_iff bit_ucast_iff bit_drop_bit_eq)
qed

lemma wire_write_block:
  assumes "sd_write_block (tap hw) buffer token 512 s = Some (r, s')"
  shows "512 \<le> length buffer \<and> (\<exists>crc fill. sent s' = sent s @ [token] @ take 512 buffer @ crc @ fill \<and>
    length crc = 2 \<and> crc16 (take 512 buffer) 512 = Some (crc_of crc) \<and> (\<forall>x \<in> set fill. x = 0xFF))"
proof -
  let ?s1 = "snd (sd_spi_write (tap hw) token s)"
  obtain rs s2 crc where 2: "sd_spi_transfer (tap hw) (Some buffer) False 512 ?s1 = Some (True, rs, s2)"
    and crc: "crc16 buffer 512 = Some crc"
    using assms by (auto simp: sd_write_block_def Let_def bind_eq_Some_conv crc_on_def split: if_splits)
  let ?s3 = "snd (sd_spi_write (tap hw) (ucast (drop_bit 8 crc)) s2)"
  let ?s4 = "snd (sd_spi_write (tap hw) (ucast crc) ?s3)"
  let ?s5 = "snd (sd_spi_write (tap hw) SPI_FILL_CHAR ?s4)"
  obtain q where q: "sd_wait_ready (tap hw) SD_COMMAND_TIMEOUT ?s5 = Some (q, s')"
    using assms 2 crc by (auto simp: sd_write_block_def Let_def bind_eq_Some_conv crc_on_def split_def)
  obtain in' where in': "wire s2 = wire ?s1 @ zip (take 512 buffer) in'" "length in' = 512" "512 \<le> length buffer"
    using wire_transfer [OF 2] by auto
  obtain l where l: "wire s' = wire ?s5 @ l" "\<forall>x \<in> set l. fst x = 0xFF" using wire_sd_wait_ready [OF q] by blast
  have "sent s' = sent s @ [token] @ take 512 buffer @ [ucast (drop_bit 8 crc), ucast crc] @ (0xFF # map fst l)"
    using in' l(1) by (simp add: sent_def wire_write_snd SPI_FILL_CHAR_def)
  moreover have "crc16 (take 512 buffer) 512 = Some crc" using crc in'(3) by (simp add: crc16_serial)
  ultimately show ?thesis using in'(3) l(2)
    by (intro conjI exI [where x = "[ucast (drop_bit 8 crc), ucast crc]"] exI [where x = "0xFF # map fst l"])
      (auto simp: crc_of_octets)
qed

lemma receive_write_block:
  assumes "sd_write_block (tap hw) buffer token 512 s = Some (r, s')" and "token \<noteq> 0xFF"
  shows "512 \<le> length buffer \<and> (\<exists>l. sent s' = sent s @ l \<and>
    (\<forall>m. receive token (l @ m) = map_option (Cons (take 512 buffer)) (receive token m)))"
proof -
  obtain crc fill where w: "512 \<le> length buffer" "sent s' = sent s @ [token] @ take 512 buffer @ crc @ fill"
    "length crc = 2" "crc16 (take 512 buffer) 512 = Some (crc_of crc)" "\<forall>x \<in> set fill. x = 0xFF"
    using wire_write_block [OF assms(1)] by blast
  have "receive token (([token] @ take 512 buffer @ crc @ fill) @ m) =
      map_option (Cons (take 512 buffer)) (receive token m)" for m
    using receive_block [of "take 512 buffer" crc token "fill @ m"] receive_fill [OF assms(2) w(5), of m] w(1,3,4)
    by simp
  then show ?thesis using w(1,2) by blast
qed

lemma map_option_Cons_append: "map_option (Cons b) (map_option ((@) bs) x) = map_option ((@) (b # bs)) x"
  by (cases x) simp_all

lemma wire_write_loop:
  assumes "write_loop (tap hw) buffer blockCnt status s = Some (0, s')"
  shows "\<exists>blocks l. sent s' = sent s @ l \<and> length blocks = Suc (unat (blockCnt - 1)) \<and>
    concat blocks = take (512 * Suc (unat (blockCnt - 1))) buffer \<and> (\<forall>b \<in> set blocks. length b = 512) \<and>
    (\<forall>m. receive SPI_START_BLK_MUL_WRITE (l @ m) = map_option ((@) blocks) (receive SPI_START_BLK_MUL_WRITE m))"
  using assms
proof (induction "unat (blockCnt - 1)" arbitrary: buffer blockCnt s)
  let ?tok = SPI_START_BLK_MUL_WRITE
  have tok: "?tok \<noteq> 0xFF" by (simp add: SPI_START_BLK_MUL_WRITE_def)
  {
    fix buffer and s s1 and blockCnt :: u32 and r
    assume w: "write_loop (tap hw) buffer blockCnt status s = Some (0, s')"
    then obtain r s1 where 1: "sd_write_block (tap hw) buffer ?tok 512 s = Some (r, s1)"
      and rest: "if blockCnt - 1 = 0 then s1 = s'
        else write_loop (tap hw) (drop 512 buffer) (blockCnt - 1) status s1 = Some (0, s')"
      by (subst (asm) write_loop.simps)
        (auto simp: bind_eq_Some_conv BLOCK_SIZE_HC_def sd_error_defs split: if_splits)
    note receive_write_block [OF 1 tok] rest
    then have "512 \<le> length buffer \<and> (\<exists>s1 l. sent s1 = sent s @ l \<and>
        (\<forall>m. receive ?tok (l @ m) = map_option (Cons (take 512 buffer)) (receive ?tok m)) \<and>
        (if blockCnt - 1 = 0 then s1 = s'
         else write_loop (tap hw) (drop 512 buffer) (blockCnt - 1) status s1 = Some (0, s')))"
      by blast
  } note step = this
  {
    case 0
    then have "blockCnt - 1 = 0" by (simp add: unat_eq_0)
    with step [OF 0(2)] obtain l where "512 \<le> length buffer" "sent s' = sent s @ l"
      "\<forall>m. receive ?tok (l @ m) = map_option (Cons (take 512 buffer)) (receive ?tok m)" by auto
    then show ?case using \<open>blockCnt - 1 = 0\<close>
      by (intro exI [where x = "[take 512 buffer]"] exI [where x = l]) (simp add: option.map_comp comp_def)
  next
    case (Suc n)
    then have nz: "blockCnt - 1 \<noteq> 0" by (metis Zero_not_Suc unat_0)
    with step [OF Suc(3)] obtain s1 l where 1: "512 \<le> length buffer" "sent s1 = sent s @ l"
      "\<forall>m. receive ?tok (l @ m) = map_option (Cons (take 512 buffer)) (receive ?tok m)"
      "write_loop (tap hw) (drop 512 buffer) (blockCnt - 1) status s1 = Some (0, s')" by auto
    have n: "n = unat (blockCnt - 1 - 1)" using Suc(2) nz by (metis Suc_inject unat_minus_one Suc_pred' unat_gt_0)
    obtain blocks k where 2: "sent s' = sent s1 @ k" "length blocks = Suc (unat (blockCnt - 1 - 1))"
      "concat blocks = take (512 * Suc (unat (blockCnt - 1 - 1))) (drop 512 buffer)"
      "\<forall>b \<in> set blocks. length b = 512"
      "\<forall>m. receive ?tok (k @ m) = map_option ((@) blocks) (receive ?tok m)"
      using Suc(1) [OF n 1(4)] by blast
    have "concat (take 512 buffer # blocks) = take (512 * Suc (unat (blockCnt - 1))) buffer"
    proof -
      have e: "Suc (unat (blockCnt - 1 - 1)) = unat (blockCnt - 1)" using n Suc(2) by simp
      have "concat (take 512 buffer # blocks) = take (512 + 512 * unat (blockCnt - 1)) buffer"
        by (simp only: concat.simps 2(3) e take_add)
      then show ?thesis by (simp only: mult_Suc_right)
    qed
    moreover have "length (take 512 buffer # blocks) = Suc (unat (blockCnt - 1))" using 2(2) n Suc(2) by simp
    moreover have "receive ?tok ((l @ k) @ m) = map_option ((@) (take 512 buffer # blocks)) (receive ?tok m)" for m
      using 1(3) 2(5) map_option_Cons_append by simp
    ultimately show ?case using 1(1,2) 2(1,4)
      by (intro exI [where x = "take 512 buffer # blocks"] exI [where x = "l @ k"]) auto
  }
qed


section \<open>A card for examples\<close>

text \<open>A high-capacity card of ten sectors behind the recording bus, with what it is going to send.\<close>

definition example_card :: "u8 list \<Rightarrow> ((nat \<times> u8 list) \<times> (u8 \<times> u8) list) sd_card" where
  "example_card rs = (hd (sd_cards ((0, rs), [])))\<lparr>m_Status := 0, sectors := 10, card_type := SDCARD_V2HC\<rparr>"

lemma bus_update_eq [simp]: "s\<lparr>bus := c\<rparr> = s\<lparr>bus := d\<rparr> \<longleftrightarrow> c = d"
  by (auto dest: arg_cong [where f = bus])

lemma script_xfer: "xfer (tap script_hw) b ((t, r # rs), l) = (r, ((t + 1, rs), l @ [(b, r)]))"
  by (simp add: tap_def)

lemma script_write:
  "bus s = ((t, r # rs), l) \<Longrightarrow>
     sd_spi_write (tap script_hw) b s = (r, s\<lparr>bus := ((t + 1, rs), l @ [(b, r)])\<rparr>)"
  by (simp add: sd_spi_write_def script_xfer del: One_nat_def)

lemma script_pin: "pin_put (tap script_hw) n v c = c"
  by (simp add: tap_def split_def)

lemma script_clock: "clock_us (tap script_hw) c = fst (fst c)"
  by (simp add: tap_def split_def)

lemma script_lock:
  assumes "bus s = ((t, r1 # r2 # rs), l)"
  shows "\<exists>l'. sd_lock (tap script_hw) s = s\<lparr>bus := ((t + 2, rs), l')\<rparr>"
  using assms by (simp add: sd_lock_def sd_spi_acquire_def sd_spi_select_def Let_def script_write script_pin)

lemma script_ready:
  assumes "bus s = ((t, 0xFF # rs), l)"
  shows "\<exists>l'. sd_wait_ready (tap script_hw) n s = Some (True, s\<lparr>bus := ((t + 1, rs), l')\<rparr>)"
  using assms by (subst sd_wait_ready_def, subst wait_ready_loop.simps) (simp add: script_write word_gt_0)

lemma script_response:
  assumes "bus s = ((t, 0 # rs), l)"
  shows "\<exists>l'. response_loop (tap script_hw) 16 0 s = (0, s\<lparr>bus := ((t + 1, rs), l')\<rparr>)"
proof -
  have 16: "(16 :: nat) = Suc 15" by simp
  show ?thesis using assms by (simp only: 16 response_loop.simps) (simp add: script_write R1_RESPONSE_RECV_def)
qed

lemma script_cmd_spi:
  assumes "bus s = ((t, [a1, a2, a3, a4, a5, a6] @ 0 # rs), l)" and "cmd \<noteq> CMD12_STOP_TRANSMISSION"
  shows "\<exists>l'. sd_cmd_spi (tap script_hw) cmd arg s = Some (0, s\<lparr>bus := ((t + 7, rs), l')\<rparr>)"
proof -
  obtain p where p: "cmd_packet cmd arg = Some p" "length p = 6" using cmd_packet_total by blast
  then obtain b1 b2 b3 b4 b5 b6 where b: "p = [b1, b2, b3, b4, b5, b6]"
    by (auto simp: length_Suc_conv eval_nat_numeral)
  have "\<exists>l1. send_octets (tap script_hw) p s = s\<lparr>bus := ((t + 6, 0 # rs), l1)\<rparr>"
    using assms(1) by (simp add: b script_write)
  then obtain l1 where 1: "send_octets (tap script_hw) p s = s\<lparr>bus := ((t + 6, 0 # rs), l1)\<rparr>" by blast
  then show ?thesis using script_response [of "s\<lparr>bus := ((t + 6, 0 # rs), l1)\<rparr>" "t + 6" rs l1] p(1) assms(2)
    by (auto simp: sd_cmd_spi_def)
qed

lemma retry_answered:
  assumes "sd_cmd_spi hw cmd arg s = Some (0, s')"
  shows "retry_loop hw cmd arg False 3 r s = Some (0, s')"
proof -
  have 3: "(3 :: nat) = Suc 2" by simp
  show ?thesis using assms by (simp only: 3 retry_loop.simps) (simp add: R1_NO_RESPONSE_def)
qed

lemma script_cmd:
  assumes "bus s = ((t, 0xFF # [a1, a2, a3, a4, a5, a6] @ 0 # rs), l)" and "cmd \<in> {CMD17_READ_SINGLE_BLOCK, CMD24_WRITE_BLOCK}"
  shows "\<exists>l'. sd_cmd (tap script_hw) cmd arg False s = Some (0, 0, s\<lparr>bus := ((t + 8, rs), l')\<rparr>)"
proof -
  have cmd: "cmd \<noteq> CMD12_STOP_TRANSMISSION" "cmd \<noteq> CMD8_SEND_IF_COND" "cmd \<noteq> CMD58_READ_OCR" "cmd \<noteq> CMD38_ERASE"
    "cmd \<noteq> ACMD13_SD_STATUS" using assms(2) by (auto simp: cmd_defs)
  obtain l1 where 1: "sd_wait_ready (tap script_hw) SD_COMMAND_TIMEOUT s =
      Some (True, s\<lparr>bus := ((t + 1, [a1, a2, a3, a4, a5, a6] @ 0 # rs), l1)\<rparr>)" (is "_ = Some (True, ?s1)")
    using script_ready [OF assms(1)] by blast
  obtain l2 where 2: "sd_cmd_spi (tap script_hw) cmd arg ?s1 = Some (0, ?s1\<lparr>bus := ((t + 1 + 7, rs), l2)\<rparr>)"
    using script_cmd_spi [of ?s1 "t + 1" a1 a2 a3 a4 a5 a6 rs l1 cmd arg] cmd by auto
  have "process_response (tap script_hw) cmd 0 s2 = Some (0, 0, s2)" for s2
    using cmd by (simp add: process_response_def response_rest_def response_status_def sd_error_defs R1_NO_RESPONSE_def)
  then show ?thesis using cmd 1 retry_answered [OF 2] by (auto simp: sd_cmd_def add.commute simp del: retry_loop.simps)
qed

lemma script_xfer_all:
  "length rs = length bs \<Longrightarrow>
     \<exists>l'. xfer_all (tap script_hw) bs ((t, rs @ rest), l) = (rs, ((t + length bs, rest), l'))"
proof (induction bs arbitrary: rs t l)
  case (Cons b bs)
  then obtain r rs' where "rs = r # rs'" "length rs' = length bs" by (cases rs) auto
  then show ?case using Cons.IH [of rs' "t + 1" "l @ [(b, r)]"] by (auto simp: script_xfer simp del: One_nat_def)
qed simp

lemma script_transfer:
  assumes "bus s = ((t, rs @ rest), l)" and "length rs = 512" and "sem (spi s) = 0"
    and "case tx of Some bs \<Rightarrow> 512 \<le> length bs | None \<Rightarrow> rx"
  shows "\<exists>l' sp. sd_spi_transfer (tap script_hw) tx rx 512 s =
    Some (True, if rx then rs else [], s\<lparr>spi := sp, bus := ((t + 512, rest), l')\<rparr>)"
proof -
  let ?src = "case tx of Some bs \<Rightarrow> take XFER_BLOCK_SIZE bs | None \<Rightarrow> replicate XFER_BLOCK_SIZE SPI_FILL_CHAR"
  have len: "length ?src = 512" using assms(4) by (auto simp: XFER_BLOCK_SIZE_def split: option.splits)
  obtain l' where x: "xfer_all (tap script_hw) ?src (bus s) = (rs, ((t + 512, rest), l'))"
    using script_xfer_all [of rs ?src t rest l] assms(1,2) len by auto
  have d: "dma_done (tap script_hw) c = In_time" for c by (simp add: tap_def split_def)
  have "tx = None \<Longrightarrow> rx" "\<And>bs. tx = Some bs \<Longrightarrow> \<not> length bs < XFER_BLOCK_SIZE"
    using assms(4) by (auto simp: XFER_BLOCK_SIZE_def)
  then show ?thesis using x assms(3)
    by (auto simp: sd_spi_transfer_def spi_transfer_def Let_def d split: option.splits)
qed

lemma script_token:
  assumes "bus s = ((t, token # rs), l)"
  shows "\<exists>l'. sd_wait_token (tap script_hw) token s = Some (True, s\<lparr>bus := ((t + 1, rs), l')\<rparr>)"
  using assms by (subst sd_wait_token_def, subst wait_token_loop.simps) (simp add: script_write)

lemma reg16_zeros: "foldl reg16 0 (replicate n 0) = 0"
proof -
  have "(lfsr 0x1021 ^^ k) (0 :: u16) = 0" for k by (induction k) (simp_all add: lfsr_def)
  then have "reg16 0 0 = 0" by (simp add: reg16_def)
  then show ?thesis by (induction n) simp_all
qed

lemma crc16_zeros: "crc16 (replicate 512 0) 512 = Some 0"
  by (simp add: crc16_def crc16_loop_eq reg16_zeros)

lemma script_check:
  assumes "bus s = ((t, 0 # 0 # rs), l)"
  shows "\<exists>l'. check_crc (tap script_hw) (replicate 512 0) 512 s = Some (0, s\<lparr>bus := ((t + 2, rs), l')\<rparr>)"
  using assms by (simp add: check_crc_def read_crc_def script_write crc16_zeros sd_error_defs)

lemma example_sem: "sem (spi ((example_card rs)\<lparr>bus := c\<rparr>)) = 0"
  by (simp add: example_card_def sd_cards_def spis_def)

lemma example_read:
  "\<exists>s'. sd_read_blocks (tap script_hw) 0 1
     (example_card (replicate 9 0xFF @ [0, 0xFE] @ replicate 512 0 @ [0, 0, 0xFF, 0xFF])) =
     Some (0, replicate 512 0, s')"
proof -
  let ?tail = "[0, 0, 0xFF, 0xFF] :: u8 list"
  define s0 where "s0 = example_card (replicate 9 0xFF @ [0, 0xFE] @ replicate 512 0 @ ?tail)"
  have nine: "replicate 9 (0xFF :: u8) = 0xFF # 0xFF # 0xFF # [0xFF, 0xFF, 0xFF, 0xFF, 0xFF, 0xFF]"
    by (simp add: eval_nat_numeral)
  have b0: "bus s0 = ((0, 0xFF # 0xFF # 0xFF # [0xFF, 0xFF, 0xFF, 0xFF, 0xFF, 0xFF] @ 0 # 0xFE # replicate 512 0 @ ?tail), [])"
    by (simp only: s0_def example_card_def nine) (simp add: sd_cards_def)
  have sem0: "sem (spi (s0\<lparr>bus := c\<rparr>)) = 0" for c unfolding s0_def by (rule example_sem)
  obtain l1 where 1: "sd_lock (tap script_hw) s0 = s0\<lparr>bus := ((2, 0xFF # [0xFF, 0xFF, 0xFF, 0xFF, 0xFF, 0xFF] @ 0 # 0xFE # replicate 512 0 @ ?tail), l1)\<rparr>"
    (is "_ = ?s1") using script_lock [OF b0] by auto
  obtain l2 where 2: "sd_cmd (tap script_hw) CMD17_READ_SINGLE_BLOCK (ucast (block_addr ?s1 0)) False ?s1 =
      Some (0, 0, s0\<lparr>bus := ((10, 0xFE # replicate 512 0 @ ?tail), l2)\<rparr>)" (is "_ = Some (0, 0, ?s2)")
    using script_cmd [of ?s1 2 "0xFF" "0xFF" "0xFF" "0xFF" "0xFF" "0xFF" "0xFE # replicate 512 0 @ ?tail" l1 CMD17_READ_SINGLE_BLOCK "ucast (block_addr ?s1 0)"]
    by auto
  obtain l3 where 3: "sd_wait_token (tap script_hw) SPI_START_BLOCK ?s2 =
      Some (True, s0\<lparr>bus := ((11, replicate 512 0 @ ?tail), l3)\<rparr>)" (is "_ = Some (True, ?s3)")
    using script_token [of ?s2 10 SPI_START_BLOCK "replicate 512 0 @ ?tail" l2] by (auto simp: SPI_START_BLOCK_def)
  obtain l4 sp where 4: "sd_spi_transfer (tap script_hw) None True 512 ?s3 =
      Some (True, replicate 512 0, s0\<lparr>spi := sp, bus := ((523, ?tail), l4)\<rparr>)" (is "_ = Some (True, _, ?s4)")
    using script_transfer [of ?s3 11 "replicate 512 0" ?tail l3 True None] sem0 by auto
  obtain l5 where 5: "check_crc (tap script_hw) (replicate 512 0) 512 ?s4 = Some (0, s0\<lparr>spi := sp, bus := ((525, [0xFF, 0xFF]), l5)\<rparr>)"
    using script_check [of ?s4 523 "[0xFF, 0xFF]" l4] by auto
  have ok: "\<not> bad_request ?s1 0 1"
    by (simp add: bad_request_def s0_def example_card_def)
  have "read_loop (tap script_hw) (unat (1 :: u32)) ?s2 = Some (0, replicate 512 0, s0\<lparr>spi := sp, bus := ((525, [0xFF, 0xFF]), l5)\<rparr>)"
    by (simp add: sd_read_block_def BLOCK_SIZE_HC_def 3 4 5)
  then have "in_sd_read_blocks (tap script_hw) 0 1 ?s1 = Some (0, replicate 512 0, s0\<lparr>spi := sp, bus := ((525, [0xFF, 0xFF]), l5)\<rparr>)"
    using 2 ok by (simp add: in_sd_read_blocks_def Let_def sd_error_defs del: read_loop.simps)
  then show ?thesis unfolding s0_def [symmetric] by (simp add: sd_read_blocks_def 1)
qed

lemma example_write:
  "\<exists>s'. sd_write_blocks (tap script_hw) (replicate 512 0) 0 1
     (example_card (replicate 9 0xFF @ [0, 0xFF] @ replicate 512 0xFF @ [0xFF, 0xFF, 0xE5, 0xFF, 0xFF, 0xFF])) =
     Some (0, s')"
proof -
  let ?tail = "[0xFF, 0xFF, 0xE5, 0xFF, 0xFF, 0xFF] :: u8 list"
  define s0 where "s0 = example_card (replicate 9 0xFF @ [0, 0xFF] @ replicate 512 0xFF @ ?tail)"
  have nine: "replicate 9 (0xFF :: u8) = 0xFF # 0xFF # 0xFF # [0xFF, 0xFF, 0xFF, 0xFF, 0xFF, 0xFF]"
    by (simp add: eval_nat_numeral)
  have b0: "bus s0 = ((0, 0xFF # 0xFF # 0xFF # [0xFF, 0xFF, 0xFF, 0xFF, 0xFF, 0xFF] @ 0 # 0xFF # replicate 512 0xFF @ ?tail), [])"
    by (simp only: s0_def example_card_def nine) (simp add: sd_cards_def)
  have sem0: "sem (spi (s0\<lparr>bus := c\<rparr>)) = 0" for c unfolding s0_def by (rule example_sem)
  obtain l1 where 1: "sd_lock (tap script_hw) s0 = s0\<lparr>bus := ((2, 0xFF # [0xFF, 0xFF, 0xFF, 0xFF, 0xFF, 0xFF] @ 0 # 0xFF # replicate 512 0xFF @ ?tail), l1)\<rparr>"
    (is "_ = ?s1") using script_lock [OF b0] by auto
  obtain l2 where 2: "sd_cmd (tap script_hw) CMD24_WRITE_BLOCK (ucast (block_addr ?s1 0)) False ?s1 =
      Some (0, 0, s0\<lparr>bus := ((10, 0xFF # replicate 512 0xFF @ ?tail), l2)\<rparr>)" (is "_ = Some (0, 0, ?s2)")
    using script_cmd [of ?s1 2 "0xFF" "0xFF" "0xFF" "0xFF" "0xFF" "0xFF" "0xFF # replicate 512 0xFF @ ?tail" l1 CMD24_WRITE_BLOCK "ucast (block_addr ?s1 0)"]
    by auto
  let ?s3 = "s0\<lparr>bus := ((11, replicate 512 0xFF @ ?tail), l2 @ [(SPI_START_BLOCK, 0xFF)])\<rparr>"
  have 3: "snd (sd_spi_write (tap script_hw) SPI_START_BLOCK ?s2) = ?s3"
    by (simp add: script_write)
  obtain l4 sp where 4: "sd_spi_transfer (tap script_hw) (Some (replicate 512 0)) False 512 ?s3 =
      Some (True, [], s0\<lparr>spi := sp, bus := ((523, ?tail), l4)\<rparr>)" (is "_ = Some (True, _, ?s4)")
    using script_transfer [of ?s3 11 "replicate 512 0xFF" ?tail "l2 @ [(SPI_START_BLOCK, 0xFF)]" False "Some (replicate 512 0)"]
      sem0 by auto
  obtain l5 where 5: "snd (sd_spi_write (tap script_hw) 0 (snd (sd_spi_write (tap script_hw) 0 ?s4))) =
      s0\<lparr>spi := sp, bus := ((525, [0xE5, 0xFF, 0xFF, 0xFF]), l5)\<rparr>" by (simp add: script_write)
  let ?s6 = "s0\<lparr>spi := sp, bus := ((526, [0xFF, 0xFF, 0xFF]), l5 @ [(SPI_FILL_CHAR, 0xE5)])\<rparr>"
  have 6: "sd_spi_write (tap script_hw) SPI_FILL_CHAR (s0\<lparr>spi := sp, bus := ((525, [0xE5, 0xFF, 0xFF, 0xFF]), l5)\<rparr>) = (0xE5, ?s6)"
    by (simp add: script_write)
  obtain l7 where 7: "sd_wait_ready (tap script_hw) SD_COMMAND_TIMEOUT ?s6 = Some (True, s0\<lparr>spi := sp, bus := ((527, [0xFF, 0xFF]), l7)\<rparr>)"
    using script_ready [of ?s6 526 "[0xFF, 0xFF]"] by auto
  have ok: "\<not> bad_request ?s1 0 1"
    by (simp add: bad_request_def s0_def example_card_def)
  have "sd_write_block (tap script_hw) (replicate 512 0) SPI_START_BLOCK BLOCK_SIZE_HC ?s2 =
      Some (SPI_DATA_ACCEPTED, s0\<lparr>spi := sp, bus := ((527, [0xFF, 0xFF]), l7)\<rparr>)"
    unfolding sd_write_block_def BLOCK_SIZE_HC_def Let_def 3 4
    by (simp add: crc_on_def crc16_zeros 5 6 7 SPI_DATA_RESPONSE_MASK_def SPI_DATA_ACCEPTED_def)
  then have "in_sd_write_blocks (tap script_hw) (replicate 512 0) 0 1 ?s1 =
      Some (0, s0\<lparr>spi := sp, bus := ((527, [0xFF, 0xFF]), l7)\<rparr>)"
    using 2 ok by (simp add: in_sd_write_blocks_def Let_def sd_error_defs)
  then show ?thesis unfolding s0_def [symmetric] by (simp add: sd_write_blocks_def 1)
qed

section \<open>Properties\<close>

text \<open>
  C30. What a read that succeeds stores was sent by the card: the data are the blocks the card put on
  the wire in their order, each behind a start token, whole, and with the checksum it has. As many
  blocks are stored as were asked for.
\<close>

theorem sd_read_blocks_from_wire:
  assumes "sd_read_blocks (tap hw) ulSectorNumber ulSectorCount s = Some (0, data, s')"
  shows "\<exists>blocks. data = concat blocks \<and> length blocks = unat ulSectorCount \<and>
    (\<forall>b \<in> set blocks. length b = 512) \<and> carries blocks (received s')"
proof -
  obtain s1 where 1: "in_sd_read_blocks (tap hw) ulSectorNumber ulSectorCount (sd_lock (tap hw) s) = Some (0, data, s1)"
    and s': "s' = sd_unlock (tap hw) s1" using assms by (auto simp: sd_read_blocks_def)
  obtain s2 s3 where 2: "read_loop (tap hw) (unat ulSectorCount) s2 = Some (0, data, s3)"
    and 3: "\<exists>l. wire s1 = wire s3 @ l"
    using 1 by (fastforce simp: in_sd_read_blocks_def Let_def bind_eq_Some_conv sd_error_defs
        split: if_splits dest: wire_sd_cmd)
  obtain blocks l where b: "data = concat blocks" "length blocks = unat ulSectorCount"
    "\<forall>b \<in> set blocks. length b = 512" "received s3 = received s2 @ l" "carries blocks l"
    using wire_read_loop [OF 2] by blast
  obtain k where "received s' = received s2 @ l @ k"
    using 3 wire_unlock [of hw s1] b(4) s' by (auto simp: received_def)
  then have "carries blocks (received s')" using b(5) by (simp add: carries_extend carries_prefix)
  then show ?thesis using b by blast
qed

lemma sd_read_blocks_from_wire_witness:
  "\<exists>s' blocks. sd_read_blocks (tap script_hw) 0 1
     (example_card (replicate 9 0xFF @ [0, 0xFE] @ replicate 512 0 @ [0, 0, 0xFF, 0xFF])) =
     Some (0, replicate 512 0, s') \<and> replicate 512 0 = concat blocks \<and> carries blocks (received s')"
proof -
  obtain s' where r: "sd_read_blocks (tap script_hw) 0 1
     (example_card (replicate 9 0xFF @ [0, 0xFE] @ replicate 512 0 @ [0, 0, 0xFF, 0xFF])) =
     Some (0, replicate 512 0, s')" using example_read by blast
  then show ?thesis using sd_read_blocks_from_wire [OF r] by blast
qed

text \<open>
  C31. A write that succeeds puts the buffer on the wire in a form the card takes back block by
  block: from the first token on, what was sent is read as exactly the blocks of the buffer, with
  checksums that fit. A count of zero is no empty write but one of \<open>2^32\<close> blocks.
\<close>

theorem sd_write_blocks_received:
  assumes "sd_write_blocks (tap hw) buffer ulSectorNumber blockCnt s = Some (0, s')"
  shows "\<exists>pre stream blocks. sent s' = pre @ stream \<and>
    receive (if blockCnt = 1 then SPI_START_BLOCK else SPI_START_BLK_MUL_WRITE) stream = Some blocks \<and>
    length blocks = (if blockCnt = 0 then 2 ^ 32 else unat blockCnt) \<and>
    concat blocks = take (512 * length blocks) buffer \<and> (\<forall>b \<in> set blocks. length b = 512)"
proof -
  let ?tok = "if blockCnt = 1 then SPI_START_BLOCK else SPI_START_BLK_MUL_WRITE"
  have tok: "?tok \<noteq> 0xFF" by (simp add: SPI_START_BLOCK_def SPI_START_BLK_MUL_WRITE_def)
  obtain s1 where 1: "in_sd_write_blocks (tap hw) buffer ulSectorNumber blockCnt (sd_lock (tap hw) s) = Some (0, s1)"
    and s': "s' = sd_unlock (tap hw) s1" using assms by (auto simp: sd_write_blocks_def)
  obtain u where "wire s' = wire s1 @ u" and u: "\<forall>x \<in> set u. fst x = 0xFF"
    using wire_unlock [of hw s1] s' by blast
  then have unlock: "sent s' = sent s1 @ map fst u" by (simp add: sent_def)
  have fill: "receive ?tok (map fst u) = Some []"
    using receive_fill [OF tok, of "map fst u" "[]"] u by simp
  show ?thesis
  proof (cases "blockCnt = 1")
    case True
    then obtain s2 r where 2: "sd_write_block (tap hw) buffer SPI_START_BLOCK 512 s2 = Some (r, s1)"
      using 1 by (auto simp: in_sd_write_blocks_def Let_def bind_eq_Some_conv sd_error_defs BLOCK_SIZE_HC_def
          split: if_splits)
    obtain l where l: "512 \<le> length buffer" "sent s1 = sent s2 @ l"
      "\<forall>m. receive SPI_START_BLOCK (l @ m) = map_option (Cons (take 512 buffer)) (receive SPI_START_BLOCK m)"
      using receive_write_block [OF 2] tok True by auto
    have "receive ?tok (l @ map fst u) = Some [take 512 buffer]" using l(3) fill True by simp
    moreover have "sent s' = sent s2 @ (l @ map fst u)" using unlock l(2) by simp
    ultimately show ?thesis using True l(1)
      by - (rule exI [where x = "sent s2"], rule exI [where x = "l @ map fst u"],
        rule exI [where x = "[take 512 buffer]"], simp)
  next
    case False
    then obtain s2 st s3 where 2: "write_loop (tap hw) buffer blockCnt st s2 = Some (0, s3)"
      and s1: "s1 = snd (sd_spi_write (tap hw) SPI_STOP_TRAN s3)"
      using 1 by (auto simp: in_sd_write_blocks_def Let_def bind_eq_Some_conv sd_error_defs split: if_splits)
    obtain blocks l where l: "sent s3 = sent s2 @ l" "length blocks = Suc (unat (blockCnt - 1))"
      "concat blocks = take (512 * Suc (unat (blockCnt - 1))) buffer" "\<forall>b \<in> set blocks. length b = 512"
      "\<forall>m. receive SPI_START_BLK_MUL_WRITE (l @ m) = map_option ((@) blocks) (receive SPI_START_BLK_MUL_WRITE m)"
      using wire_write_loop [OF 2] by blast
    have n: "Suc (unat (blockCnt - 1)) = (if blockCnt = 0 then 2 ^ 32 else unat blockCnt)"
    proof (cases "blockCnt = 0")
      case True
      then show ?thesis by (simp add: unsigned_minus_1_eq_mask mask_eq_exp_minus_1)
    next
      case False
      then have "0 < unat blockCnt" by (simp add: unat_gt_0)
      then show ?thesis using False by (simp add: unat_minus_one)
    qed
    have "receive SPI_START_BLK_MUL_WRITE (SPI_STOP_TRAN # map fst u) = Some []"
      by (simp add: SPI_STOP_TRAN_def SPI_START_BLK_MUL_WRITE_def)
    then have "receive ?tok (l @ SPI_STOP_TRAN # map fst u) = Some blocks" using l(5) False by simp
    moreover have "sent s' = sent s2 @ (l @ SPI_STOP_TRAN # map fst u)"
      using unlock l(1) by (simp add: s1 sent_def wire_write_snd)
    ultimately show ?thesis using l(2-4) n
      by - (rule exI [where x = "sent s2"], rule exI [where x = "l @ SPI_STOP_TRAN # map fst u"],
        rule exI [where x = blocks], simp)
  qed
qed


lemma sd_write_blocks_received_witness:
  "\<exists>s' pre stream blocks. sd_write_blocks (tap script_hw) (replicate 512 0) 0 1
     (example_card (replicate 9 0xFF @ [0, 0xFF] @ replicate 512 0xFF @ [0xFF, 0xFF, 0xE5, 0xFF, 0xFF, 0xFF])) =
     Some (0, s') \<and> sent s' = pre @ stream \<and> receive SPI_START_BLOCK stream = Some blocks \<and>
     concat blocks = replicate 512 0"
proof -
  obtain s' where r: "sd_write_blocks (tap script_hw) (replicate 512 0) 0 1
     (example_card (replicate 9 0xFF @ [0, 0xFF] @ replicate 512 0xFF @ [0xFF, 0xFF, 0xE5, 0xFF, 0xFF, 0xFF])) =
     Some (0, s')" using example_write by blast
  from sd_write_blocks_received [OF r] obtain pre stream blocks where
    "sent s' = pre @ stream" "receive SPI_START_BLOCK stream = Some blocks" "concat blocks = replicate 512 0"
    by auto
  then show ?thesis using r by blast
qed

end
