(* ===== verification/Disk_Glue.thy ===== *)
theory Disk_Glue
  imports Sd_Wire
begin

text \<open>
  The disk interface of the file system on the SD driver, \<open>src/glue.c\<close>, over the table of cards of
  \<open>hw_config.c\<close>. The table is a list; \<^term>\<open>None\<close> is an access behind the table, a wait that never
  ends or a failed assertion.
\<close>

section \<open>The model\<close>

datatype dresult = RES_OK | RES_ERROR | RES_WRPRT | RES_NOTRDY | RES_PARERR

fun dresult_code :: "dresult \<Rightarrow> nat" where
  "dresult_code RES_OK = 0"
| "dresult_code RES_ERROR = 1"
| "dresult_code RES_WRPRT = 2"
| "dresult_code RES_NOTRDY = 3"
| "dresult_code RES_PARERR = 4"

definition sdrc2dresult :: "int \<Rightarrow> dresult" where
  "sdrc2dresult sd_rc =
     (if sd_rc = SD_BLOCK_DEVICE_ERROR_NONE then RES_OK
      else if sd_rc \<in> {SD_BLOCK_DEVICE_ERROR_UNUSABLE, SD_BLOCK_DEVICE_ERROR_NO_RESPONSE,
        SD_BLOCK_DEVICE_ERROR_NO_INIT, SD_BLOCK_DEVICE_ERROR_NO_DEVICE} then RES_NOTRDY
      else if sd_rc \<in> {SD_BLOCK_DEVICE_ERROR_PARAMETER, SD_BLOCK_DEVICE_ERROR_UNSUPPORTED} then RES_PARERR
      else if sd_rc = SD_BLOCK_DEVICE_ERROR_WRITE_PROTECTED then RES_WRPRT
      else RES_ERROR)"

text \<open>A call on the card a drive number stands for; \<open>bad\<close> is returned for a null pointer.\<close>

definition on_card ::
  "nat \<Rightarrow> 'r \<Rightarrow> ('c sd_card \<Rightarrow> ('r \<times> 'c sd_card) option) \<Rightarrow> 'c sd_card list \<Rightarrow> ('r \<times> 'c sd_card list) option" where
  "on_card pdrv bad f cards =
     (case sd_get_by_num cards pdrv of
        Null_card \<Rightarrow> Some (bad, cards)
      | Past_end \<Rightarrow> None
      | Card i \<Rightarrow> map_option (\<lambda>(r, s). (r, cards[i := s])) (f (cards ! i)))"

text \<open>The disk status is the low octet of what \<open>sd_init_card\<close> returns.\<close>

definition disk_status :: "'c hw \<Rightarrow> bool \<Rightarrow> nat \<Rightarrow> 'c sd_card list \<Rightarrow> (u8 \<times> 'c sd_card list) option" where
  "disk_status hw driver_initialized pdrv =
     on_card pdrv (of_nat (dresult_code RES_PARERR))
       (\<lambda>s. map_option (\<lambda>(st, s). (ucast st, s)) (sd_init_card hw driver_initialized s))"

definition disk_initialize :: "'c hw \<Rightarrow> bool \<Rightarrow> nat \<Rightarrow> 'c sd_card list \<Rightarrow> (u8 \<times> 'c sd_card list) option" where
  "disk_initialize hw driver_initialized pdrv =
     on_card pdrv (of_nat (dresult_code RES_PARERR))
       (\<lambda>s. map_option (\<lambda>(st, s). (ucast st, s)) (sd_init_card hw driver_initialized s))"

text \<open>\<open>disk_read\<close> gives the data it stores in the buffer as well.\<close>

definition disk_read ::
  "'c hw \<Rightarrow> nat \<Rightarrow> u64 \<Rightarrow> u32 \<Rightarrow> 'c sd_card list \<Rightarrow> ((dresult \<times> u8 list) \<times> 'c sd_card list) option" where
  "disk_read hw pdrv sector count =
     on_card pdrv (RES_PARERR, [])
       (\<lambda>s. map_option (\<lambda>(rc, data, s). ((sdrc2dresult rc, data), s)) (sd_read_blocks hw sector count s))"

definition disk_write ::
  "'c hw \<Rightarrow> nat \<Rightarrow> u8 list \<Rightarrow> u64 \<Rightarrow> u32 \<Rightarrow> 'c sd_card list \<Rightarrow> (dresult \<times> 'c sd_card list) option" where
  "disk_write hw pdrv buff sector count =
     on_card pdrv RES_PARERR
       (\<lambda>s. map_option (\<lambda>(rc, s). (sdrc2dresult rc, s)) (sd_write_blocks hw buff sector count s))"

definition CTRL_SYNC :: nat where "CTRL_SYNC = 0"
definition GET_SECTOR_COUNT :: nat where "GET_SECTOR_COUNT = 1"
definition GET_BLOCK_SIZE :: nat where "GET_BLOCK_SIZE = 3"

text \<open>
  \<open>disk_ioctl\<close> with what it stores through \<open>buff\<close>: the sector count, and for the block size nothing:
  the code changes its copy of the pointer instead.
\<close>

definition disk_ioctl ::
  "'c hw \<Rightarrow> nat \<Rightarrow> nat \<Rightarrow> 'c sd_card list \<Rightarrow> ((dresult \<times> u64 option) \<times> 'c sd_card list) option" where
  "disk_ioctl hw pdrv cmd =
     on_card pdrv (RES_PARERR, None)
       (\<lambda>s. if cmd = GET_SECTOR_COUNT
            then map_option (\<lambda>(n, s). ((if n = 0 then RES_ERROR else RES_OK, Some n), s)) (sd_sectors hw s)
            else if cmd = GET_BLOCK_SIZE then Some ((RES_OK, None), s)
            else if cmd = CTRL_SYNC then Some ((RES_OK, None), s)
            else Some ((RES_PARERR, None), s))"

section \<open>The states the disk can be in\<close>

text \<open>
  The firmware's use of the disk: the driver is started, the file system calls the five functions in
  any order with any arguments, and the world outside changes the bus at any time. The state is the
  flag of the driver with the table.
\<close>

inductive disk_step :: "'c hw \<Rightarrow> bool \<times> 'c sd_card list \<Rightarrow> bool \<times> 'c sd_card list \<Rightarrow> bool" for hw where
  Driver: "sd_init_driver hw s = (rc, di, s') \<Longrightarrow> disk_step hw (d, [s]) (d \<or> di, [s'])"
| Status: "disk_status hw d pdrv cs = Some (st, cs') \<Longrightarrow> disk_step hw (d, cs) (d, cs')"
| Initialize: "disk_initialize hw d pdrv cs = Some (st, cs') \<Longrightarrow> disk_step hw (d, cs) (d, cs')"
| Read: "disk_read hw pdrv sector count cs = Some (r, cs') \<Longrightarrow> disk_step hw (d, cs) (d, cs')"
| Write: "disk_write hw pdrv buff sector count cs = Some (res, cs') \<Longrightarrow> disk_step hw (d, cs) (d, cs')"
| Ioctl: "disk_ioctl hw pdrv cmd cs = Some (x, cs') \<Longrightarrow> disk_step hw (d, cs) (d, cs')"
| World: "disk_step hw (d, [s]) (d, [s\<lparr>bus := c\<rparr>])"

definition disk_reachable :: "'c hw \<Rightarrow> bool \<times> 'c sd_card list \<Rightarrow> bool" where
  "disk_reachable hw st \<longleftrightarrow> (\<exists>c. (disk_step hw)\<^sup>*\<^sup>* (False, sd_cards c) st)"

definition disk_ok :: "bool \<times> 'c sd_card list \<Rightarrow> bool" where
  "disk_ok st \<longleftrightarrow> (\<exists>s. snd st = [s] \<and> card_ok s \<and> (m_Status s AND STA_NOINIT = 0 \<longrightarrow> fst st))"

lemma on_card_single:
  assumes "on_card pdrv bad f [s] = Some (r, cs')"
  shows "cs' = [s] \<and> r = bad \<or> (\<exists>s'. f s = Some (r, s') \<and> cs' = [s'] \<and> pdrv = 0)"
  using assms by (auto simp: on_card_def sd_get_by_num_def sd_get_num_def split: if_splits)

lemma disk_ok_call:
  assumes ok: "disk_ok (d, cs)" and call: "on_card pdrv bad f cs = Some (r, cs')"
    and frame: "\<And>s r s'. f s = Some (r, s') \<Longrightarrow> only_bus s s'"
  shows "disk_ok (d, cs')"
proof -
  obtain s where s: "cs = [s]" "card_ok s" "m_Status s AND STA_NOINIT = 0 \<longrightarrow> d"
    using ok by (auto simp: disk_ok_def)
  consider "cs' = [s]" | s' where "only_bus s s'" "cs' = [s']"
    using on_card_single [OF call [unfolded s(1)]] frame by blast
  then show ?thesis
    by cases (use s in \<open>auto simp: disk_ok_def only_bus_fields intro: only_bus_card_ok\<close>)
qed

lemma disk_ok_init:
  assumes ok: "disk_ok (d, cs)"
    and call: "on_card pdrv bad (\<lambda>s. map_option (\<lambda>(st, s). (ucast st, s)) (sd_init_card hw d s)) cs = Some (r, cs')"
  shows "disk_ok (d, cs')"
proof -
  obtain s where s: "cs = [s]" "card_ok s" "m_Status s AND STA_NOINIT = 0 \<longrightarrow> d"
    using ok by (auto simp: disk_ok_def)
  consider "cs' = [s]" | st s' where "sd_init_card hw d s = Some (st, s')" "cs' = [s']"
    using on_card_single [OF call [unfolded s(1)]] by auto
  then show ?thesis
  proof cases
    case 2
    moreover have d using 2(1) by (auto simp: sd_init_card_def split: if_splits)
    ultimately show ?thesis using sd_init_card_ok [OF s(2) 2(1)] by (auto simp: disk_ok_def)
  qed (use ok s in simp)
qed

lemma sd_init_driver_frame: "sd_init_driver hw s = (rc, di, s') \<Longrightarrow> only_bus s s' \<and> di"
  by (auto simp: sd_init_driver_def init_card_pins_def Let_def my_spi_init_def only_bus_def split: prod.splits if_splits)

lemma disk_step_ok: "disk_step hw st st' \<Longrightarrow> disk_ok st \<Longrightarrow> disk_ok st'"
proof (induction rule: disk_step.induct)
  case (Driver s rc di s' d)
  then show ?case using sd_init_driver_frame [OF Driver.hyps]
    by (auto simp: disk_ok_def only_bus_fields intro: only_bus_card_ok)
next
  case (Status d pdrv cs st cs')
  then show ?case unfolding disk_status_def by (blast intro: disk_ok_init)
next
  case (Initialize d pdrv cs st cs')
  then show ?case unfolding disk_initialize_def by (blast intro: disk_ok_init)
next
  case (Read pdrv sector count cs r cs' d)
  show ?case by (rule disk_ok_call [OF Read.prems Read.hyps [unfolded disk_read_def]])
      (auto dest: sd_read_blocks_frame)
next
  case (Write pdrv buff sector count cs res cs' d)
  show ?case by (rule disk_ok_call [OF Write.prems Write.hyps [unfolded disk_write_def]])
      (auto dest: sd_write_blocks_frame)
next
  case (Ioctl pdrv cmd cs x cs' d)
  show ?case by (rule disk_ok_call [OF Ioctl.prems Ioctl.hyps [unfolded disk_ioctl_def]])
      (auto dest!: sd_sectors_frame split: if_splits)
next
  case (World d s c)
  then show ?case by (auto simp: disk_ok_def intro: only_bus_card_ok [OF only_bus_update(1)])
qed

lemma disk_reachable_ok: "disk_reachable hw st \<Longrightarrow> disk_ok st"
proof -
  assume "disk_reachable hw st"
  then obtain c where "(disk_step hw)\<^sup>*\<^sup>* (False, sd_cards c) st" by (auto simp: disk_reachable_def)
  then show ?thesis
  proof (induction rule: rtranclp_induct)
    case base
    show ?case by (simp add: disk_ok_def sd_cards_def card_ok_def STA_NOINIT_def)
  qed (rule disk_step_ok)
qed

section \<open>A card that answers the whole of the initialisation\<close>

text \<open>What the calls of the driver do on the scripted bus: they take the next octets of the script.\<close>

abbreviation script :: "(nat \<times> u8 list) sd_card \<Rightarrow> u8 list" where
  "script s \<equiv> snd (bus s)"

definition skip_octets :: "nat \<Rightarrow> (nat \<times> u8 list) sd_card \<Rightarrow> (nat \<times> u8 list) sd_card" where
  "skip_octets n s = s\<lparr>bus := (fst (bus s) + n, drop n (script s))\<rparr>"

lemma skip_octets_skip [simp]: "skip_octets m (skip_octets n s) = skip_octets (n + m) s"
  by (simp add: skip_octets_def drop_drop add.commute add.left_commute)

lemma skip_octets_0 [simp]: "skip_octets 0 s = s"
  by (cases "bus s") (simp add: skip_octets_def)

lemma skip_octets_fields [simp]:
  "card_type (skip_octets n s) = card_type s" "m_Status (skip_octets n s) = m_Status s"
  "sectors (skip_octets n s) = sectors s" "script (skip_octets n s) = drop n (script s)"
  "card_detected_true (skip_octets n s) = card_detected_true s"
  "(skip_octets n s)\<lparr>card_type := t\<rparr> = skip_octets n (s\<lparr>card_type := t\<rparr>)"
  "(skip_octets n s)\<lparr>sectors := x\<rparr> = skip_octets n (s\<lparr>sectors := x\<rparr>)"
  "(skip_octets n s)\<lparr>m_Status := y\<rparr> = skip_octets n (s\<lparr>m_Status := y\<rparr>)"
  by (simp_all add: skip_octets_def)

lemma plain_write: "script s \<noteq> [] \<Longrightarrow> sd_spi_write script_hw b s = (hd (script s), skip_octets 1 s)"
  by (cases "bus s"; cases "script s") (simp_all add: sd_spi_write_def skip_octets_def drop_Suc)

lemma plain_lock:
  assumes "2 \<le> length (script s)"
  shows "sd_lock script_hw s = skip_octets 2 s" "sd_unlock script_hw s = skip_octets 2 s"
proof -
  have "script s \<noteq> []" "drop 1 (script s) \<noteq> []" using assms by auto
  then show "sd_lock script_hw s = skip_octets 2 s" "sd_unlock script_hw s = skip_octets 2 s"
    by (simp_all add: sd_lock_def sd_spi_acquire_def sd_spi_select_def sd_unlock_def sd_spi_release_def
        sd_spi_deselect_def plain_write Let_def eval_nat_numeral)
qed

lemma plain_ready:
  assumes "script s \<noteq> []" and "hd (script s) \<noteq> 0"
  shows "sd_wait_ready script_hw n s = Some (True, skip_octets 1 s)"
  using assms by (subst sd_wait_ready_def, subst wait_ready_loop.simps) (simp add: plain_write word_gt_0)

lemma plain_send: "length bs \<le> length (script s) \<Longrightarrow> send_octets script_hw bs s = skip_octets (length bs) s"
proof (induction bs arbitrary: s)
  case (Cons b bs)
  then have "script s \<noteq> []" by auto
  with Cons show ?case by (simp add: plain_write)
qed simp

text \<open>A command and the first octet of its response, with the top bit clear.\<close>

lemma plain_cmd_spi:
  assumes "7 \<le> length (script s)" and "script s ! 6 AND 0x80 = 0" and "cmd \<noteq> CMD12_STOP_TRANSMISSION"
  shows "sd_cmd_spi script_hw cmd arg s = Some (script s ! 6, skip_octets 7 s)"
proof -
  obtain p where p: "cmd_packet cmd arg = Some p" "length p = 6" using cmd_packet_total by blast
  have "drop 6 (script s) \<noteq> []" "hd (drop 6 (script s)) = script s ! 6"
    using assms(1) by (simp_all add: hd_drop_conv_nth)
  moreover have 16: "(0x10 :: nat) = Suc 15" by simp
  ultimately show ?thesis using assms p
    by (simp only: sd_cmd_spi_def 16 response_loop.simps)
      (simp add: plain_send plain_write R1_RESPONSE_RECV_def)
qed

lemma plain_answered: "r AND 0x80 = 0 \<Longrightarrow> (ucast (r :: u8) :: u32) \<noteq> R1_NO_RESPONSE"
proof
  assume r: "r AND 0x80 = 0" "(ucast r :: u32) = R1_NO_RESPONSE"
  have "bit (ucast r :: u32) 7" unfolding r(2) R1_NO_RESPONSE_def by (simp add: bit_numeral_rec)
  then have "bit r 7" by (simp add: bit_ucast_iff)
  moreover have "bit (0x80 :: u8) 7" by (simp add: bit_numeral_rec)
  ultimately have "bit (r AND 0x80) 7" by (simp add: bit_and_iff)
  with r(1) show False by simp
qed

lemma plain_cmd:
  assumes "8 \<le> length (script s)" and "hd (script s) \<noteq> 0" and "script s ! 7 AND 0x80 = 0"
    and "cmd \<noteq> CMD12_STOP_TRANSMISSION"
  shows "sd_cmd script_hw cmd arg False s = process_response script_hw cmd (ucast (script s ! 7)) (skip_octets 8 s)"
proof -
  have 3: "(3 :: nat) = Suc 2" by simp
  have "script s \<noteq> []" using assms(1) by auto
  then show ?thesis using assms plain_answered [OF assms(3)]
    by (simp only: sd_cmd_def 3 retry_loop.simps) (simp add: plain_ready plain_cmd_spi)
qed

text \<open>An application command: the announcement, the wait, the command.\<close>

lemma plain_acmd:
  assumes "16 \<le> length (script s)" and "hd (script s) \<noteq> 0" and "script s ! 7 AND 0x80 = 0"
    and "script s ! 8 \<noteq> 0" and "script s ! 15 AND 0x80 = 0" and "cmd \<noteq> CMD12_STOP_TRANSMISSION"
  shows "sd_cmd script_hw cmd arg True s = process_response script_hw cmd (ucast (script s ! 15)) (skip_octets 16 s)"
proof -
  have 3: "(3 :: nat) = Suc 2" by simp
  have "script s \<noteq> []" "drop 8 (script s) \<noteq> []" "hd (drop 8 (script s)) = script s ! 8"
    "CMD55_APP_CMD \<noteq> CMD12_STOP_TRANSMISSION"
    using assms(1) by (auto simp: hd_drop_conv_nth cmd_defs)
  then show ?thesis using assms plain_answered [OF assms(5)]
    by (simp only: sd_cmd_def 3 retry_loop.simps) (simp add: plain_ready plain_cmd_spi)
qed

lemma plain_read_u32:
  assumes "script s = a # b # c # d # rest"
  shows "read_u32 script_hw s =
    (push_bit 24 (ucast a) OR push_bit 16 (ucast b) OR push_bit 8 (ucast c) OR ucast d, skip_octets 4 s)"
  using assms by (simp add: read_u32_def plain_write Let_def eval_nat_numeral)

lemma plain_read_octets:
  "n \<le> length (script s) \<Longrightarrow> read_octets script_hw n s = (take n (script s), skip_octets n s)"
proof (induction n arbitrary: s)
  case (Suc n)
  then have "script s \<noteq> []" by auto
  with Suc show ?case by (cases "script s") (simp_all add: plain_write Let_def)
qed simp


definition r8 :: "u8 \<Rightarrow> u8 list" where "r8 r = replicate 7 0xFF @ [r]"

lemma r8_simps [simp]: "length (r8 r) = 8" "hd (r8 r @ rest) = 0xFF" "(r8 r @ rest) ! 7 = r" "r8 r @ rest \<noteq> []"
  by (simp_all add: r8_def eval_nat_numeral)

lemma plain_cmd_r8:
  assumes "script s = r8 r @ rest" and "r AND 0x80 = 0" and "cmd \<noteq> CMD12_STOP_TRANSMISSION"
  shows "sd_cmd script_hw cmd arg False s = process_response script_hw cmd (ucast r) (skip_octets 8 s)"
  using plain_cmd [of s cmd arg] assms by simp

lemma plain_acmd_r8:
  assumes "script s = r8 r @ r8 r' @ rest" and "r AND 0x80 = 0" and "r' AND 0x80 = 0"
    and "cmd \<noteq> CMD12_STOP_TRANSMISSION"
  shows "sd_cmd script_hw cmd arg True s = process_response script_hw cmd (ucast r') (skip_octets 16 s)"
proof -
  have "script s ! 8 = 0xFF" "script s ! 15 = r'" unfolding assms(1) by (simp_all add: r8_def eval_nat_numeral)
  then show ?thesis using plain_acmd [of s cmd arg] assms by simp
qed

lemma script_at: "script s = xs @ ys \<Longrightarrow> length xs = n \<Longrightarrow> script (skip_octets n s) = ys"
  by simp

text \<open>A card that answers the whole of the initialisation.\<close>

definition hc_init :: "u8 list" where
  "hc_init = [0xFF, 0xFF] @ r8 1 @ r8 1 @ [0, 0, 1, 0xAA] @ r8 1 @ r8 1 @ [0, 0x10, 0, 0] @
     r8 1 @ r8 0 @ r8 0 @ [0xC0, 0x10, 0, 0] @ [0xFF, 0xFF]"

lemma hc_initialise:
  assumes "script s = hc_init @ rest"
  shows "sd_initialise_card script_hw s = Some (0, skip_octets 72 (s\<lparr>card_type := SDCARD_V2HC\<rparr>))"
proof -
  note cmds = cmd_defs
  have one: "(1 :: u8) AND 0x80 = 0" and zero: "(0 :: u8) AND 0x80 = 0" by simp_all
  let ?r7 = "[0xFF, 0xFF] :: u8 list"
  let ?a6 = "[0xC0, 0x10, 0, 0] @ ?r7 @ rest"
  let ?a5 = "r8 1 @ r8 0 @ r8 0 @ ?a6"
  let ?a4 = "r8 1 @ [0, 0x10, 0, 0] @ ?a5"
  let ?a3 = "r8 1 @ ?a4"
  let ?a2 = "r8 1 @ [0, 0, 1, 0xAA] @ ?a3"
  let ?a1 = "r8 1 @ ?a2"
  have s0: "script s = [0xFF, 0xFF] @ ?a1" by (simp add: assms hc_init_def)
  let ?s1 = "skip_octets 2 s"
  have lock: "sd_lock script_hw s = ?s1" by (rule plain_lock) (simp add: s0)
  have s1: "script ?s1 = ?a1" by (simp add: s0)
  let ?s2 = "skip_octets 10 s"
  have s2: "script ?s2 = ?a2" using script_at [OF s1, of 8] by simp
  have c0: "sd_cmd script_hw CMD0_GO_IDLE_STATE 0 False ?s1 = Some (0, 1, ?s2)"
    using plain_cmd_r8 [OF s1 one, of CMD0_GO_IDLE_STATE 0]
    by (simp add: cmds process_response_def response_rest_def response_status_def r1_defs sd_error_defs)
  let ?t = "s\<lparr>card_type := SDCARD_V2\<rparr>"
  let ?s3 = "skip_octets 22 ?t"
  have "script (skip_octets 18 ?t) = [0, 0, 1, 0xAA] @ ?a3" using script_at [OF s2, of 8] by simp
  then have "read_u32 script_hw (skip_octets 18 ?t) = (0x1AA, ?s3)"
    using plain_read_u32 [of "skip_octets 18 ?t" 0 0 1 "0xAA" ?a3] by simp
  then have c8: "sd_cmd8 script_hw ?s2 = Some (0, ?s3)"
    using plain_cmd_r8 [OF s2 one, of CMD8_SEND_IF_COND]
    by (simp add: sd_cmd8_def CMD8_PATTERN_def cmds process_response_def response_rest_def response_status_def r1_defs sd_error_defs)
  have "script (skip_octets 8 (skip_octets 10 ?t)) = [0, 0, 1, 0xAA] @ ?a3"
    by (rule script_at [where xs = "r8 1"]) (simp_all add: s2 [simplified])
  then have s3: "script ?s3 = ?a3" using script_at [of "skip_octets 18 ?t" "[0, 0, 1, 0xAA]" ?a3 4] by simp
  let ?s4 = "skip_octets 30 ?t"
  have c59: "sd_cmd script_hw CMD59_CRC_ON_OFF 1 False ?s3 = Some (0, 1, ?s4)"
    using plain_cmd_r8 [OF s3 one, of CMD59_CRC_ON_OFF 1]
    by (simp add: cmds process_response_def response_rest_def response_status_def r1_defs sd_error_defs)
  have s4: "script ?s4 = ?a4" using script_at [OF s3, of 8] by simp
  let ?s5 = "skip_octets 42 ?t"
  have m: "script (skip_octets 38 ?t) = [0, 0x10, 0, 0] @ ?a5" using script_at [OF s4, of 8] by simp
  then have "read_u32 script_hw (skip_octets 38 ?t) = (0x100000, ?s5)"
    using plain_read_u32 [of "skip_octets 38 ?t" 0 "0x10" 0 0 ?a5] by simp
  then have c58: "sd_cmd script_hw CMD58_READ_OCR 0 False ?s4 = Some (0, 0x100000, ?s5)"
    using plain_cmd_r8 [OF s4 one, of CMD58_READ_OCR 0]
    by (simp add: cmds process_response_def response_rest_def response_status_def r1_defs sd_error_defs)
  have s5: "script ?s5 = ?a5" using script_at [OF m, of 4] by simp
  let ?s6 = "skip_octets 58 ?t"
  have c41: "sd_cmd script_hw ACMD41_SD_SEND_OP_COND arg True ?s5 = Some (0, 0, ?s6)" for arg
    using plain_acmd_r8 [OF s5 one zero, of ACMD41_SD_SEND_OP_COND arg]
    by (simp add: cmds process_response_def response_rest_def response_status_def r1_defs sd_error_defs)
  have s6: "script ?s6 = r8 0 @ ?a6" using script_at [OF script_at [OF s5, of 8], of 8] by simp
  have loop: "acmd41_loop script_hw arg t ?s5 = Some (0, 0, ?s6)" for arg t
    by (subst acmd41_loop.simps) (simp add: c41)
  let ?s7 = "skip_octets 70 ?t"
  have n: "script (skip_octets 66 ?t) = ?a6" using script_at [OF s6, of 8] by simp
  then have "read_u32 script_hw (skip_octets 66 ?t) = (0xC0100000, ?s7)"
    using plain_read_u32 [of "skip_octets 66 ?t" "0xC0" "0x10" 0 0 "?r7 @ rest"] by simp
  then have d58: "sd_cmd script_hw CMD58_READ_OCR 0 False ?s6 = Some (0, 0xC0100000, ?s7)"
    using plain_cmd_r8 [OF s6 zero, of CMD58_READ_OCR 0]
    by (simp add: cmds process_response_def response_rest_def response_status_def r1_defs sd_error_defs)
  let ?u = "s\<lparr>card_type := SDCARD_V2HC\<rparr>"
  have s7: "script (skip_octets 70 ?u) = ?r7 @ rest" using script_at [OF n, of 4] by simp
  have cap: "initialise_capacity script_hw ?s5 = Some (0, skip_octets 70 ?u)"
    by (simp add: initialise_capacity_def loop d58 sd_error_defs OCR_HCS_CCS_def crc_on_def)
  have idle: "sd_go_idle_state script_hw ?s1 = Some (R1_IDLE_STATE, ?s2)"
  proof -
    have 10: "(10 :: nat) = Suc 9" by simp
    show ?thesis unfolding sd_go_idle_state_def 10 go_idle_loop.simps c0 by (simp add: R1_IDLE_STATE_def)
  qed
  have "sd_initialise_card_nolock script_hw ?s1 = Some (0, skip_octets 70 ?u)"
    by (simp add: sd_initialise_card_nolock_def sd_spi_go_low_frequency_def idle c8 c59 c58 cap sd_error_defs
        crc_on_def OCR_3_3V_def)
  moreover have "2 \<le> length (script (skip_octets 70 ?u))" unfolding s7 by simp
  then have "sd_unlock script_hw (skip_octets 70 ?u) = skip_octets 72 ?u"
    using plain_lock(2) [of "skip_octets 70 ?u"] by simp
  ultimately show ?thesis by (simp add: sd_initialise_card_def lock)
qed


text \<open>Its capacity: a register of the second version with a size of zero stands for 1024 sectors.\<close>

definition hc_csd :: "u8 list" where "hc_csd = 0x40 # replicate 15 0"

definition hc_capacity :: "u8 list" where
  "hc_capacity = [0xFF, 0xFF] @ r8 0 @ [SPI_START_BLOCK] @ hc_csd @
     (let crc = the (crc16 hc_csd 16) in [ucast (drop_bit 8 crc), ucast crc]) @ [0xFF, 0xFF]"

lemma csd_sectors_hc: "csd_sectors hc_csd = Some 1024"
proof -
  have z: "rd hc_csd i = Some 0" if "0 < i" "i < 16" for i
    using that by (simp add: rd_def hc_csd_def nth_Cons')
  have "ext_bits_loop hc_csd 48 i n b = Some b" if "48 + i + n \<le> 120" for i n b
    using that
  proof (induction n arbitrary: i b)
    case (Suc n)
    then have "rd hc_csd (15 - (48 + i) div 8) = Some 0" "\<not> 15 < (48 + i) div 8" by (simp_all add: z)
    with Suc show ?case by (simp add: Let_def)
  qed simp
  then have c: "ext_bits hc_csd 69 48 = Some 0" by (simp add: ext_bits_def)
  have "rd hc_csd 0 = Some 0x40" by (simp add: rd_def hc_csd_def)
  moreover have "1 + 127 - 126 = Suc (Suc 0)" by simp
  ultimately have "ext_bits hc_csd 127 126 = Some 1"
    unfolding ext_bits_def by (simp only: ext_bits_loop.simps) simp
  then show ?thesis unfolding csd_sectors_def by (simp only: c bind.bind_lunit one_neq_zero if_False Let_def) simp
qed

lemma hc_sectors:
  assumes "script s = hc_capacity @ rest"
  shows "sd_sectors script_hw s = Some (1024, skip_octets 31 s)"
proof -
  obtain crc where crc: "crc16 hc_csd 16 = Some crc" using crc16_total [of 16 hc_csd] by (auto simp: hc_csd_def)
  let ?hi = "ucast (drop_bit 8 crc) :: u8" and ?lo = "ucast crc :: u8"
  let ?a2 = "hc_csd @ [?hi, ?lo] @ [0xFF, 0xFF] @ rest"
  have s0: "script s = [0xFF, 0xFF] @ r8 0 @ [SPI_START_BLOCK] @ ?a2" by (simp add: assms hc_capacity_def crc)
  have lock: "sd_lock script_hw s = skip_octets 2 s" by (rule plain_lock) (simp add: s0)
  have s1: "script (skip_octets 2 s) = r8 0 @ [SPI_START_BLOCK] @ ?a2" by (rule script_at [OF s0]) simp
  have "(0 :: u8) AND 0x80 = 0" by simp
  from plain_cmd_r8 [OF s1 this, of CMD9_SEND_CSD 0]
  have c9: "sd_cmd script_hw CMD9_SEND_CSD 0 False (skip_octets 2 s) = Some (0, 0, skip_octets 10 s)"
    by (simp add: cmd_defs process_response_def response_rest_def response_status_def r1_defs sd_error_defs)
  have s2: "script (skip_octets 10 s) = [SPI_START_BLOCK] @ ?a2" using script_at [OF s1, of 8] by simp
  then have tok: "sd_wait_token script_hw SPI_START_BLOCK (skip_octets 10 s) = Some (True, skip_octets 11 s)"
    by (subst sd_wait_token_def, subst wait_token_loop.simps) (simp add: plain_write)
  have s3: "script (skip_octets 11 s) = ?a2" using script_at [OF s2, of 1] by simp
  have l: "length hc_csd = 16" by (simp add: hc_csd_def)
  have "16 \<le> length (script (skip_octets 11 s))" unfolding s3 by (simp add: l)
  from plain_read_octets [OF this] have data: "read_octets script_hw 16 (skip_octets 11 s) = (hc_csd, skip_octets 27 s)"
    unfolding s3 by (simp add: l)
  have s4: "script (skip_octets 27 s) = [?hi, ?lo] @ [0xFF, 0xFF] @ rest" using script_at [OF s3, of 16] l by simp
  have s5: "script (skip_octets 28 s) = [?lo] @ [0xFF, 0xFF] @ rest" using script_at [of _ "[?hi]", of "skip_octets 27 s" _ 1] s4 by simp
  have s6: "script (skip_octets 29 s) = [0xFF, 0xFF] @ rest" using script_at [OF s5, of 1] by simp
  have "read_crc script_hw (skip_octets 27 s) = (crc, skip_octets 29 s)"
    using crc_of_octets [of crc] s4 s5 by (simp add: read_crc_def plain_write crc_of_def Let_def)
  then have chk: "check_crc script_hw hc_csd 16 (skip_octets 27 s) = Some (0, skip_octets 29 s)"
    by (simp add: check_crc_def crc sd_error_defs)
  have "2 \<le> length (script (skip_octets 29 s))" unfolding s6 by simp
  then have unlock: "sd_unlock script_hw (skip_octets 29 s) = skip_octets 31 s"
    using plain_lock(2) [of "skip_octets 29 s"] by simp
  show ?thesis
    by (simp add: sd_sectors_def sd_sectors_nolock_def lock c9 sd_read_bytes_def tok data chk csd_sectors_hc unlock)
qed

definition hc_script :: "u8 list" where
  "hc_script = hc_init @ hc_capacity @ [0xFF, 0xFF] @ r8 0 @ [0xFF, 0xFF]"

lemma hc_init_card:
  assumes "script s = hc_script" and "card_detected_true s = -1" and "m_Status s = STA_NOINIT"
  shows "\<exists>s'. sd_init_card script_hw True s = Some (0, s') \<and> m_Status s' = 0"
proof -
  let ?s = "s\<lparr>m_Status := STA_NOINIT, card_type := SDCARD_NONE\<rparr>"
  let ?t = "skip_octets 72 (?s\<lparr>card_type := SDCARD_V2HC\<rparr>)"
  have "script ?s = hc_init @ hc_capacity @ [0xFF, 0xFF] @ r8 0 @ [0xFF, 0xFF]"
    by (simp add: assms(1) hc_script_def)
  note init = hc_initialise [OF this]
  have i: "length hc_init = 72" "length hc_capacity = 31" by (simp_all add: hc_init_def hc_capacity_def hc_csd_def Let_def)
  have t: "script ?t = hc_capacity @ [0xFF, 0xFF] @ r8 0 @ [0xFF, 0xFF]"
    by (simp add: assms(1) hc_script_def i)
  note secs = hc_sectors [OF t]
  let ?u = "skip_octets 31 ?t\<lparr>sectors := 1024\<rparr>"
  have u: "script ?u = [0xFF, 0xFF] @ r8 0 @ [0xFF, 0xFF]" using script_at [OF t i(2)] by simp
  have lock: "sd_lock script_hw ?u = skip_octets 2 ?u" by (rule plain_lock) (simp only: u, simp)
  have v: "script (skip_octets 2 ?u) = r8 0 @ [0xFF, 0xFF]" by (rule script_at [OF u]) simp
  have "(0 :: u8) AND 0x80 = 0" by simp
  from plain_cmd_r8 [OF v this, of CMD16_SET_BLOCKLEN]
  have c: "sd_cmd script_hw CMD16_SET_BLOCKLEN arg False (skip_octets 2 ?u) = Some (0, 0, skip_octets 10 ?u)" for arg
    by (simp add: cmd_defs process_response_def response_rest_def response_status_def r1_defs sd_error_defs)
  have det: "sd_card_detect script_hw s = (True, s\<lparr>m_Status := STA_NOINIT\<rparr>)"
    by (simp add: sd_card_detect_def assms(2,3) STA_NODISK_def STA_NOINIT_def)
  have st: "STA_NOINIT AND STA_NODISK = 0" "(STA_NOINIT AND STA_NOINIT = 0) = False" "STA_NOINIT AND NOT STA_NOINIT = 0"
    by (simp_all add: STA_NODISK_def STA_NOINIT_def)
  have e: "SD_BLOCK_DEVICE_ERROR_NONE = 0" "sd_spi_go_high_frequency script_hw q = q" for q
    by (simp_all add: sd_error_defs sd_spi_go_high_frequency_def)
  have upd: "m_Status (s\<lparr>m_Status := STA_NOINIT\<rparr>) = STA_NOINIT" by simp
  have nz: "(1024 :: u64) = 0 \<longleftrightarrow> False" by simp
  have status: "m_Status (skip_octets 10 ?u) = STA_NOINIT" by simp
  have "sd_init_card script_hw True s = (let s = sd_unlock script_hw ((skip_octets 10 ?u)\<lparr>m_Status := 0\<rparr>) in Some (m_Status s, s))"
    unfolding sd_init_card_def det Let_def snd_conv
    by (simp only: upd st init secs bind.bind_lunit prod.case e lock c status
        nz not_False_eq_True if_True if_False simp_thms)
  moreover have "m_Status (sd_unlock script_hw q) = m_Status q" for q
    by (simp add: only_bus_fields [OF sd_lock_frame(2)])
  ultimately show ?thesis by (simp add: Let_def)
qed

section \<open>Properties\<close>

text \<open>
  C32. In every state the disk can be in, whatever calls were made in whatever order and whatever the
  bus did, the table keeps its one card, with at most \<open>2^32 - 1\<close> sectors; and a card that counts as
  initialised has a driver that was started, a capacity, and one of the types the initialisation
  gives: the first version, the second, high capacity, or, since a card that is still idle when the
  time for \<open>ACMD41\<close> is over is not reported, unknown.
\<close>

theorem disk_invariant:
  assumes "disk_reachable hw (driver_initialized, cards)"
  shows "\<exists>s. cards = [s] \<and> unat (sectors s) < 2 ^ 32 \<and>
    (m_Status s AND STA_NOINIT = 0 \<longrightarrow>
       driver_initialized \<and> sectors s \<noteq> 0 \<and>
       card_type s \<in> {SDCARD_V1, SDCARD_V2, SDCARD_V2HC, CARD_UNKNOWN})"
  using disk_reachable_ok [OF assms] by (auto simp: disk_ok_def card_ok_def usable_type_def)

text \<open>The driver is started and a high capacity card is initialised, command by command.\<close>

lemma disk_invariant_witness:
  "\<exists>s. disk_reachable script_hw (True, [s]) \<and> m_Status s AND STA_NOINIT = 0 \<and> sectors s \<noteq> 0 \<and>
     card_type s \<in> {SDCARD_V1, SDCARD_V2, SDCARD_V2HC, CARD_UNKNOWN}"
proof -
  obtain s0 where s0: "sd_cards (0 :: nat, hc_script) = [s0]" "bus s0 = (0, hc_script)" "card_detected_true s0 = -1"
    "m_Status s0 = STA_NOINIT" by (simp add: sd_cards_def)
  obtain rc di s1 where s1: "sd_init_driver script_hw s0 = (rc, di, s1)" by (rule prod_cases3)
  have f: "di" "script s1 = hc_script" "card_detected_true s1 = -1" "m_Status s1 = STA_NOINIT"
    using s1 s0 by (auto simp: sd_init_driver_def init_card_pins_def my_spi_init_def LED_INIT_def script_hw_def
        Let_def split: if_splits)
  obtain s2 where s2: "sd_init_card script_hw True s1 = Some (0, s2)" "m_Status s2 = 0"
    using hc_init_card [OF f(2-4)] by blast
  have init: "disk_initialize script_hw True 0 [s1] = Some (0, [s2])"
    by (simp add: disk_initialize_def on_card_def sd_get_by_num_def sd_get_num_def s2(1))
  have "disk_step script_hw (False, [s0]) (True, [s1])" using disk_step.Driver [OF s1, of False] f(1) by simp
  moreover have "disk_step script_hw (True, [s1]) (True, [s2])" using init by (rule disk_step.Initialize)
  ultimately have "disk_reachable script_hw (True, [s2])"
    unfolding disk_reachable_def s0(1) [symmetric] by (blast intro: s0(1) rtranclp.intros)
  with disk_invariant [OF this] s2(2) show ?thesis by auto
qed

text \<open>What a request that reaches the card was.\<close>

lemma unat_ucast_narrow: "unat (x :: u64) < 2 ^ 32 \<Longrightarrow> unat (ucast x :: u32) = unat x"
  by (simp add: unsigned_ucast_eq take_bit_nat_eq_self_iff)

lemma read_accepted:
  assumes "sd_read_blocks hw sector count s = Some (SD_BLOCK_DEVICE_ERROR_NONE, data, s')"
  shows "\<not> bad_request (sd_lock hw s) sector count"
  using assms by (auto simp: sd_read_blocks_def in_sd_read_blocks_def sd_error_defs)

lemma sdrc2dresult_OK: "sdrc2dresult rc = RES_OK \<longleftrightarrow> rc = SD_BLOCK_DEVICE_ERROR_NONE"
  by (simp add: sdrc2dresult_def sd_error_defs)

text \<open>
  On a card with the capacity C32 promises, a read that succeeds was of sectors the card has,
  provided the end of the range fits 64 bits, of a card that was initialised and present;
  and the 32-bit argument of the command was the sector number on a high capacity card, or the
  octet number on a card of standard capacity of at most four gigabytes.
\<close>

theorem disk_read_in_range:
  assumes "unat (sectors s) < 2 ^ 32"
    and "disk_read hw pdrv sector count [s] = Some ((RES_OK, data), cards')"
    and "unat sector + unat count < 2 ^ 64"
  shows "pdrv = 0 \<and> m_Status s AND (STA_NOINIT OR STA_NODISK) = 0 \<and> unat sector + unat count \<le> unat (sectors s) \<and>
    (card_type s = SDCARD_V2HC \<longrightarrow> unat (ucast (block_addr s sector) :: u32) = unat sector) \<and>
    (card_type s \<noteq> SDCARD_V2HC \<and> unat (sectors s) \<le> 2 ^ 23 \<and> 0 < count \<longrightarrow>
       unat (ucast (block_addr s sector) :: u32) = 512 * unat sector)"
proof -
  obtain rc s' where r: "sd_read_blocks hw sector count s = Some (rc, data, s')" "sdrc2dresult rc = RES_OK"
    and p: "pdrv = 0"
    using on_card_single [OF assms(2) [unfolded disk_read_def]] by auto
  have "\<not> bad_request s sector count"
    using read_accepted [of hw sector count s data s'] r only_bus_fields [OF sd_lock_frame(1) [of s hw]]
    by (simp add: sdrc2dresult_OK bad_request_def)
  then have le: "sector + ucast count \<le> sectors s" and st: "m_Status s AND (STA_NOINIT OR STA_NODISK) = 0"
    by (simp_all add: bad_request_def not_less)
  have "unat (sector + ucast count) = unat sector + unat count"
    using assms(3) by (simp add: unat_word_ariths unat_ucast_64)
  then have range: "unat sector + unat count \<le> unat (sectors s)" using le by (simp add: word_le_nat_alt)
  have hc: "card_type s = SDCARD_V2HC \<longrightarrow> unat (ucast (block_addr s sector) :: u32) = unat sector"
    using range assms(1) by (auto simp: block_addr_def intro!: unat_ucast_narrow)
  have sc: "unat (ucast (block_addr s sector) :: u32) = 512 * unat sector"
    if "card_type s \<noteq> SDCARD_V2HC" "unat (sectors s) \<le> 2 ^ 23" "0 < count"
  proof -
    have "0 < unat count" using that(3) by (simp add: word_less_nat_alt)
    then have "unat sector < 2 ^ 23" using range that(2) by simp
    then have "unat (sector * 512) = 512 * unat sector" by (simp add: unat_word_ariths)
    then show ?thesis using that(1) \<open>unat sector < 2 ^ 23\<close>
      by (simp add: block_addr_def BLOCK_SIZE_HC_def unat_ucast_narrow)
  qed
  show ?thesis using p st range hc sc by blast
qed


lemma disk_read_in_range_witness:
  "\<exists>s data. m_Status s AND (STA_NOINIT OR STA_NODISK) = 0 \<and> 0 + 1 \<le> unat (sectors s) \<and>
     (\<exists>cards'. disk_read (tap script_hw) 0 0 1 [s] = Some ((RES_OK, data), cards'))"
proof -
  let ?s = "example_card (replicate 9 0xFF @ [0, 0xFE] @ replicate 512 0 @ [0, 0, 0xFF, 0xFF])"
  obtain s' where "sd_read_blocks (tap script_hw) 0 1 ?s = Some (0, replicate 512 0, s')"
    using example_read by blast
  then have r: "disk_read (tap script_hw) 0 0 1 [?s] = Some ((RES_OK, replicate 512 0), [s'])"
    by (simp add: disk_read_def on_card_def sd_get_by_num_def sd_get_num_def sdrc2dresult_def sd_error_defs)
  have "unat (sectors ?s) < 2 ^ 32" by (simp add: example_card_def)
  from disk_read_in_range [OF this r] r show ?thesis by auto
qed

end
