(* ===== verification/Rtc.thy ===== *)
theory Rtc
  imports Prelude "HOL-Library.Signed_Division"
begin

text \<open>
  The clock of the file system, \<open>src/rtc.c\<close>, with the checksum of \<open>include/util.h\<close>: the copy of the
  time that survives a reset, the epoch time, and the time stamp of a directory entry. The real-time
  clock of the processor is a state \<open>'c\<close>; \<open>mktime\<close> of the C library is a parameter.
\<close>

section \<open>The model\<close>

text \<open>\<open>wrap_ix\<close> with the remainder of C; a zero divisor is undefined.\<close>

definition wrap_ix :: "int \<Rightarrow> int \<Rightarrow> int option" where
  "wrap_ix index n = (if n = 0 then None else Some (((index smod n) + n) smod n))"

text \<open>The loop of \<open>calculate_checksum\<close>: it leaves the last word out, and a size below four wraps.\<close>

fun checksum_loop :: "u32 list \<Rightarrow> nat \<Rightarrow> nat \<Rightarrow> u32 \<Rightarrow> u32 option" where
  "checksum_loop p i 0 checksum = Some checksum"
| "checksum_loop p i (Suc n) checksum =
     Option.bind (rd p i) (\<lambda>w. checksum_loop p (i + 1) n (checksum XOR w))"

definition calculate_checksum :: "u32 list \<Rightarrow> u32 \<Rightarrow> u32 option" where
  "calculate_checksum p sz = checksum_loop p 0 (unat (sz div 4 - 1)) 0"

text \<open>\<open>datetime_t\<close>: a 16-bit year and octets.\<close>

record datetime =
  dt_year :: u16
  dt_month :: u8
  dt_day :: u8
  dt_dotw :: u8
  dt_hour :: u8
  dt_min :: u8
  dt_sec :: u8

definition zero_datetime :: datetime where
  "zero_datetime = \<lparr>dt_year = 0, dt_month = 0, dt_day = 0, dt_dotw = 0, dt_hour = 0, dt_min = 0, dt_sec = 0\<rparr>"

record rtc_save =
  signature :: u32
  saved_datetime :: datetime
  saved_checksum :: u32

text \<open>The structure as the words the checksum runs over, in the order of the target's memory.\<close>

definition octets_word :: "u8 \<Rightarrow> u8 \<Rightarrow> u8 \<Rightarrow> u8 \<Rightarrow> u32" where
  "octets_word a b c d = ucast a OR push_bit 8 (ucast b) OR push_bit 16 (ucast c) OR push_bit 24 (ucast d)"

definition rtc_words :: "rtc_save \<Rightarrow> u32 list" where
  "rtc_words r =
     (let t = saved_datetime r
      in [signature r,
          octets_word (ucast (dt_year t)) (ucast (drop_bit 8 (dt_year t))) (dt_month t) (dt_day t),
          octets_word (dt_dotw t) (dt_hour t) (dt_min t) (dt_sec t),
          saved_checksum r])"

definition rtc_signature :: u32 where "rtc_signature = 0xBABEBABE"
definition checksum_offset :: u32 where "checksum_offset = 12"

record tm =
  tm_sec :: int
  tm_min :: int
  tm_hour :: int
  tm_mday :: int
  tm_mon :: int
  tm_year :: int
  tm_isdst :: int

text \<open>
  The calls of the SDK: \<open>rtc_get\<close> is \<open>rtc_get_datetime\<close>, which fails while the clock does not run;
  \<open>rtc_add_timer\<close> starts the callback every second.
\<close>

record 'c rtc_hw =
  rtc_init :: "'c \<Rightarrow> 'c"
  rtc_get :: "'c \<Rightarrow> datetime option"
  rtc_set :: "datetime \<Rightarrow> 'c \<Rightarrow> 'c"
  rtc_running :: "'c \<Rightarrow> bool"
  rtc_add_timer :: "int \<Rightarrow> 'c \<Rightarrow> 'c"
  mktime :: "tm \<Rightarrow> int \<times> nat"

record 'c rtc_state =
  epochtime :: int
  rtc_saved :: rtc_save
  rtc_dev :: 'c

definition timeinfo :: "datetime \<Rightarrow> tm" where
  "timeinfo t = \<lparr>tm_sec = sint (dt_sec t), tm_min = sint (dt_min t), tm_hour = sint (dt_hour t),
     tm_mday = sint (dt_day t), tm_mon = sint (dt_month t) - 1, tm_year = sint (dt_year t) - 1900, tm_isdst = -1\<rparr>"

definition update_epochtime :: "'c rtc_hw \<Rightarrow> 'c rtc_state \<Rightarrow> 'c rtc_state option" where
  "update_epochtime hw s =
     (case rtc_get hw (rtc_dev s) of
        None \<Rightarrow> Some s
      | Some t \<Rightarrow> do {
          let r = (rtc_saved s)\<lparr>saved_datetime := t, signature := rtc_signature\<rparr>;
          c \<leftarrow> calculate_checksum (rtc_words r) checksum_offset;
          let (e, wday) = mktime hw (timeinfo t);
          Some (s\<lparr>rtc_saved := r\<lparr>saved_checksum := c, saved_datetime := t\<lparr>dt_dotw := of_nat wday\<rparr>\<rparr>,
                  epochtime := e\<rparr>)
        })"

text \<open>\<open>time\<close> stores through its pointer what it returns, when that is not null.\<close>

definition rtc_time :: "bool \<Rightarrow> 'c rtc_state \<Rightarrow> int \<times> int option" where
  "rtc_time pxTime s = (epochtime s, if pxTime then Some (epochtime s) else None)"

definition repeating_timer_callback :: "'c rtc_hw \<Rightarrow> 'c rtc_state \<Rightarrow> (bool \<times> 'c rtc_state) option" where
  "repeating_timer_callback hw s = map_option (Pair True) (update_epochtime hw s)"

definition start_timer :: "'c rtc_hw \<Rightarrow> 'c rtc_state \<Rightarrow> 'c rtc_state" where
  "start_timer hw s =
     (if rtc_running hw (rtc_dev s) then s\<lparr>rtc_dev := rtc_add_timer hw (-1000) (rtc_dev s)\<rparr> else s)"

definition time_init :: "'c rtc_hw \<Rightarrow> 'c rtc_state \<Rightarrow> 'c rtc_state option" where
  "time_init hw s = do {
     let s = s\<lparr>rtc_dev := rtc_init hw (rtc_dev s)\<rparr>;
     let t = (case rtc_get hw (rtc_dev s) of Some t \<Rightarrow> t | None \<Rightarrow> zero_datetime);
     s \<leftarrow> (if dt_year t = 0 \<and> dt_year (saved_datetime (rtc_saved s)) \<noteq> 0
          then do {
            xor_checksum \<leftarrow> calculate_checksum (rtc_words (rtc_saved s)) checksum_offset;
            Some (if signature (rtc_saved s) = rtc_signature \<and> saved_checksum (rtc_saved s) = xor_checksum
                  then s\<lparr>rtc_dev := rtc_set hw (saved_datetime (rtc_saved s)) (rtc_dev s)\<rparr> else s)
          }
          else Some s);
     Some (start_timer hw s)
   }"

definition setrtc :: "'c rtc_hw \<Rightarrow> datetime \<Rightarrow> 'c rtc_state \<Rightarrow> 'c rtc_state" where
  "setrtc hw t s = start_timer hw (s\<lparr>rtc_dev := rtc_set hw t (rtc_dev s)\<rparr>)"

text \<open>The time stamp; \<open>t.sec / 2\<close> is the division of C.\<close>

definition fattime :: "datetime \<Rightarrow> u32" where
  "fattime t =
     (let yr = ucast (dt_year t - 1980) :: u8; mo = dt_month t; da = dt_day t; hr = dt_hour t; mi = dt_min t;
          sd = word_of_int (sint (dt_sec t) sdiv 2) :: u8
      in push_bit 25 (ucast (0x7F AND yr)) OR push_bit 21 (ucast (0x0F AND mo)) OR push_bit 16 (ucast (0x1F AND da)) OR
         push_bit 11 (ucast (0x1F AND hr)) OR push_bit 5 (ucast (0x3F AND mi)) OR ucast (0x1F AND sd))"

definition get_fattime :: "'c rtc_hw \<Rightarrow> 'c rtc_state \<Rightarrow> u32" where
  "get_fattime hw s = (case rtc_get hw (rtc_dev s) of None \<Rightarrow> 0 | Some t \<Rightarrow> fattime t)"

section \<open>Facts\<close>

text \<open>The remainder of C is that of mathematics up to one divisor, so the index lands in range.\<close>

lemma smod_nonneg: "0 \<le> k \<Longrightarrow> 0 < n \<Longrightarrow> k smod n = k mod (n :: int)"
  by (cases "k = 0") (simp_all add: smod_int_alt_def)

lemma wrap_ix_mod: "0 < n \<Longrightarrow> wrap_ix index n = Some (index mod n)"
proof -
  assume n: "0 < n"
  have "0 \<le> index smod n + n" using smod_int_range [of n index] n by auto
  then have "((index smod n) + n) smod n = (index smod n + n) mod n" using n by (rule smod_nonneg)
  also have "\<dots> = (index smod n) mod n" by simp
  also have "\<dots> = index mod n"
  proof -
    have "index smod n = index + n * - (index sdiv n)" using smod_mult_sdiv_eq [of index n] by simp
    then show ?thesis by (simp only: mod_mult_self2)
  qed
  finally show ?thesis using n by (simp add: wrap_ix_def)
qed

lemma checksum_rtc: "calculate_checksum (rtc_words r) checksum_offset =
  Some (signature r XOR octets_word (ucast (dt_year (saved_datetime r)))
    (ucast (drop_bit 8 (dt_year (saved_datetime r)))) (dt_month (saved_datetime r)) (dt_day (saved_datetime r)))"
proof -
  have "unat (checksum_offset div 4 - 1) = Suc (Suc 0)" by (simp add: checksum_offset_def)
  then show ?thesis by (simp add: calculate_checksum_def rtc_words_def Let_def)
qed

lemma octets_word_eq_iff: "octets_word a b c d = octets_word a' b' c' d' \<longleftrightarrow> a = a' \<and> b = b' \<and> c = c' \<and> d = d'"
proof
  assume eq: "octets_word a b c d = octets_word a' b' c' d'"
  have bits: "bit (octets_word a b c d) n = (if n < 8 then bit a n else if n < 16 then bit b (n - 8)
      else if n < 24 then bit c (n - 16) else n < 32 \<and> bit d (n - 24))" for a b c d n
    by (auto simp: octets_word_def bit_or_iff bit_push_bit_iff bit_ucast_iff dest: bit_imp_le_length)
  have "bit a n = bit a' n \<and> bit b n = bit b' n \<and> bit c n = bit c' n \<and> bit d n = bit d' n" if "n < 8" for n
    using that bits [of a b c d n] bits [of a' b' c' d' n] bits [of a b c d "n + 8"] bits [of a' b' c' d' "n + 8"]
      bits [of a b c d "n + 16"] bits [of a' b' c' d' "n + 16"] bits [of a b c d "n + 24"] bits [of a' b' c' d' "n + 24"] eq
    by auto
  then show "a = a' \<and> b = b' \<and> c = c' \<and> d = d'" by (auto intro: bit_word_eqI)
qed simp

lemma halves_eq_iff:
  "(ucast (x :: u16) :: u8) = ucast y \<and> (ucast (drop_bit 8 x) :: u8) = ucast (drop_bit 8 y) \<longleftrightarrow> x = y"
proof
  assume eq: "(ucast x :: u8) = ucast y \<and> (ucast (drop_bit 8 x) :: u8) = ucast (drop_bit 8 y)"
  show "x = y"
  proof (rule bit_word_eqI)
    fix n assume "n < LENGTH(16)"
    then consider "n < 8" | "8 \<le> n \<and> n < 16" by force
    then show "bit x n = bit y n"
    proof cases
      case 1
      then have "bit (ucast x :: u8) n = bit (ucast y :: u8) n" using eq by simp
      then show ?thesis using 1 by (simp add: bit_ucast_iff)
    next
      case 2
      then have "bit (ucast (drop_bit 8 x) :: u8) (n - 8) = bit (ucast (drop_bit 8 y) :: u8) (n - 8)" using eq by simp
      then show ?thesis using 2 by (auto simp: bit_ucast_iff bit_drop_bit_eq)
    qed
  qed
qed simp

lemma mask_u8: "(0x7F :: u8) = mask 7" "(0x0F :: u8) = mask 4" "(0x1F :: u8) = mask 5" "(0x3F :: u8) = mask 6"
  by (simp_all add: mask_eq_exp_minus_1)

text \<open>The fields of a time stamp, as they are read from a directory entry.\<close>

definition stamp_fields :: "u32 \<Rightarrow> nat \<times> nat \<times> nat \<times> nat \<times> nat \<times> nat" where
  "stamp_fields f =
     (unat (drop_bit 25 f), unat (take_bit 4 (drop_bit 21 f)), unat (take_bit 5 (drop_bit 16 f)),
      unat (take_bit 5 (drop_bit 11 f)), unat (take_bit 6 (drop_bit 5 f)), unat (take_bit 5 f))"

definition stamp :: "u8 \<Rightarrow> u8 \<Rightarrow> u8 \<Rightarrow> u8 \<Rightarrow> u8 \<Rightarrow> u8 \<Rightarrow> u32" where
  "stamp yr mo da hr mi sd =
     push_bit 25 (ucast (0x7F AND yr)) OR push_bit 21 (ucast (0x0F AND mo)) OR push_bit 16 (ucast (0x1F AND da)) OR
     push_bit 11 (ucast (0x1F AND hr)) OR push_bit 5 (ucast (0x3F AND mi)) OR ucast (0x1F AND sd)"

lemma bit_stamp:
  "bit (stamp yr mo da hr mi sd) n \<longleftrightarrow>
     (if n < 5 then bit sd n else if n < 11 then bit mi (n - 5) else if n < 16 then bit hr (n - 11)
      else if n < 21 then bit da (n - 16) else if n < 25 then bit mo (n - 21) else n < 32 \<and> bit yr (n - 25))"
proof -
  have m: "bit (ucast (mask k AND b :: u8) :: u32) n \<longleftrightarrow> n < k \<and> bit b n" for k n and b :: u8
    by (auto simp: bit_and_iff bit_mask_iff bit_ucast_iff dest: bit_imp_le_length)
  have *: "bit (stamp yr mo da hr mi sd) n \<longleftrightarrow>
      25 \<le> n \<and> n < 32 \<and> n - 25 < 7 \<and> bit yr (n - 25) \<or> 21 \<le> n \<and> n < 32 \<and> n - 21 < 4 \<and> bit mo (n - 21) \<or>
      16 \<le> n \<and> n < 32 \<and> n - 16 < 5 \<and> bit da (n - 16) \<or> 11 \<le> n \<and> n < 32 \<and> n - 11 < 5 \<and> bit hr (n - 11) \<or>
      5 \<le> n \<and> n < 32 \<and> n - 5 < 6 \<and> bit mi (n - 5) \<or> n < 5 \<and> bit sd n"
    unfolding stamp_def mask_u8 by (simp only: bit_or_iff bit_push_bit_iff m) auto
  consider "n < 5" | "5 \<le> n \<and> n < 11" | "11 \<le> n \<and> n < 16" | "16 \<le> n \<and> n < 21" | "21 \<le> n \<and> n < 25" | "25 \<le> n"
    by linarith
  then show ?thesis unfolding * by cases auto
qed

lemma stamp_fields_stamp:
  "stamp_fields (stamp yr mo da hr mi sd) =
     (unat (take_bit 7 yr), unat (take_bit 4 mo), unat (take_bit 5 da), unat (take_bit 5 hr), unat (take_bit 6 mi),
      unat (take_bit 5 sd))"
proof -
  let ?f = "stamp yr mo da hr mi sd"
  have u: "(x :: u32) = ucast (y :: u8) \<Longrightarrow> unat x = unat y" for x y
    using unsigned_less [of y, where ?'a = nat] by (simp add: unsigned_ucast_eq take_bit_nat_eq_self_iff)
  note bits = bit_take_bit_iff bit_drop_bit_eq bit_stamp bit_ucast_iff
  have "drop_bit 25 ?f = ucast (take_bit 7 yr)" by (rule bit_word_eqI) (auto simp: bits dest: bit_imp_le_length)
  moreover have "take_bit 4 (drop_bit 21 ?f) = ucast (take_bit 4 mo)" by (rule bit_word_eqI) (auto simp: bits)
  moreover have "take_bit 5 (drop_bit 16 ?f) = ucast (take_bit 5 da)" by (rule bit_word_eqI) (auto simp: bits)
  moreover have "take_bit 5 (drop_bit 11 ?f) = ucast (take_bit 5 hr)" by (rule bit_word_eqI) (auto simp: bits)
  moreover have "take_bit 6 (drop_bit 5 ?f) = ucast (take_bit 6 mi)" by (rule bit_word_eqI) (auto simp: bits)
  moreover have "take_bit 5 ?f = ucast (take_bit 5 sd)" by (rule bit_word_eqI) (auto simp: bits)
  ultimately show ?thesis unfolding stamp_fields_def by (auto intro: u)
qed

lemma unat_take_bit_u8: "unat (b :: u8) < 2 ^ n \<Longrightarrow> unat (take_bit n b) = unat b"
  by (simp add: unsigned_take_bit_eq take_bit_nat_eq_self_iff)


lemma fattime_stamp:
  "fattime t = stamp (ucast (dt_year t - 1980)) (dt_month t) (dt_day t) (dt_hour t) (dt_min t)
     (word_of_int (sint (dt_sec t) sdiv 2))"
  by (simp add: fattime_def stamp_def Let_def)

lemma sec_half: "unat (s :: u8) < 60 \<Longrightarrow> unat (word_of_int (sint s sdiv 2) :: u8) = unat s div 2"
proof -
  assume s: "unat s < 60"
  have "sint s = signed_take_bit 7 (int (unat s))" by (simp add: sint_uint)
  also have "\<dots> = int (unat s)" using s
  proof -
    have "- 128 \<le> int (unat s)" "int (unat s) < 128" using s by linarith+
    then show ?thesis unfolding signed_take_bit_int_eq_self_iff by auto
  qed
  finally have "sint s = int (unat s)" .
  moreover have "int k sdiv 2 = int (k div 2)" for k
    by (cases "k = 0") (simp_all add: signed_divide_int_def zdiv_int)
  ultimately have "sint s sdiv 2 = int (unat s div 2)" by (simp only:)
  then show ?thesis using s by (simp only: of_int_of_nat_eq unat_of_nat) simp
qed

lemma year_low: "1980 \<le> unat (y :: u16) \<Longrightarrow> unat (take_bit 7 (ucast (y - 1980) :: u8)) = (unat y - 1980) mod 128"
proof -
  assume y: "1980 \<le> unat y"
  have sub: "unat (y - 1980) = unat y - 1980" using y by (simp add: unat_sub word_le_nat_alt)
  have "unat (take_bit 7 (ucast (y - 1980) :: u8)) = take_bit 7 (take_bit 8 (unat (y - 1980)))"
    by (simp add: unsigned_take_bit_eq unsigned_ucast_eq)
  then show ?thesis by (simp add: sub take_bit_eq_mod mod_mod_cancel)
qed

section \<open>Properties\<close>

text \<open>
  The time stamp of a directory entry holds the time of the clock: read field by field it gives
  the years since 1980, which wrap behind 2107, and the other fields, the seconds in steps of two.
\<close>

theorem fattime_fields:
  assumes "1980 \<le> unat (dt_year t)" and "unat (dt_month t) \<le> 12" and "unat (dt_day t) \<le> 31"
    and "unat (dt_hour t) < 24" and "unat (dt_min t) < 60" and "unat (dt_sec t) < 60"
  shows "stamp_fields (fattime t) =
    ((unat (dt_year t) - 1980) mod 128, unat (dt_month t), unat (dt_day t), unat (dt_hour t),
     unat (dt_min t), unat (dt_sec t) div 2)"
  using assms
  by (simp add: fattime_stamp stamp_fields_stamp year_low unat_take_bit_u8 sec_half)

lemma fattime_fields_witness:
  "stamp_fields (fattime \<lparr>dt_year = 2023, dt_month = 11, dt_day = 21, dt_dotw = 2, dt_hour = 17, dt_min = 5, dt_sec = 31\<rparr>) =
     (43, 11, 21, 17, 5, 15)"
  using fattime_fields [of "\<lparr>dt_year = 2023, dt_month = 11, dt_day = 21, dt_dotw = 2, dt_hour = 17, dt_min = 5, dt_sec = 31\<rparr>"]
  by simp

text \<open>
  C35. After a reset the clock is set from the copy of the time that survived it exactly when the
  signature is the one that was saved and so are year, month and day, whatever the signature and
  the time have become: another signature is refused even with a date whose change makes up for it
  in the checksum. The checksum leaves out the last word it should cover, so a copy whose day of
  the week, hours, minutes or seconds changed is restored as well.
\<close>

theorem time_init_restores:
  assumes "rtc_get hw (rtc_dev s) = Some t" and "update_epochtime hw s = Some s1"
    and "rtc_get hw (rtc_init hw c) = None" and "dt_year t' \<noteq> 0"
    and "s2 = s1\<lparr>rtc_saved := (rtc_saved s1)\<lparr>signature := g, saved_datetime := t'\<rparr>, rtc_dev := c\<rparr>"
  shows "time_init hw s2 = Some (start_timer hw (s2\<lparr>rtc_dev :=
      if g = rtc_signature \<and> (dt_year t', dt_month t', dt_day t') = (dt_year t, dt_month t, dt_day t)
      then rtc_set hw t' (rtc_init hw c) else rtc_init hw c\<rparr>))"
proof -
  let ?w = "\<lambda>t. octets_word (ucast (dt_year t)) (ucast (drop_bit 8 (dt_year t))) (dt_month t) (dt_day t)"
  have saved: "saved_checksum (rtc_saved s1) = rtc_signature XOR ?w t"
    using assms(1,2) by (auto simp: update_epochtime_def checksum_rtc Let_def split: prod.splits)
  have eq: "?w t = ?w t' \<longleftrightarrow> (dt_year t', dt_month t', dt_day t') = (dt_year t, dt_month t, dt_day t)"
    using halves_eq_iff [of "dt_year t" "dt_year t'"] by (auto simp: octets_word_eq_iff)
  show ?thesis
  proof (cases "g = rtc_signature")
    case True
    then show ?thesis using assms(3,4)
      by (simp add: assms(5) time_init_def zero_datetime_def Let_def checksum_rtc saved xor_left_cancel_word eq)
  next
    case False
    then show ?thesis using assms(3,4)
      by (simp add: assms(5) time_init_def zero_datetime_def Let_def checksum_rtc)
  qed
qed

definition demo_rtc :: "datetime option rtc_hw" where
  "demo_rtc = \<lparr>rtc_init = (\<lambda>_. None), rtc_get = (\<lambda>c. c), rtc_set = (\<lambda>t _. Some t), rtc_running = (\<lambda>c. c \<noteq> None),
     rtc_add_timer = (\<lambda>_ c. c), mktime = (\<lambda>_. (0, 2))\<rparr>"

definition demo_time :: datetime where
  "demo_time = \<lparr>dt_year = 2023, dt_month = 11, dt_day = 21, dt_dotw = 0, dt_hour = 17, dt_min = 5, dt_sec = 31\<rparr>"

text \<open>
  A copy with another hour is restored; one whose signature and day differ in the same bit, so that
  the checksum comes out right, is not.
\<close>

lemma time_init_restores_witness:
  "\<exists>s1. update_epochtime demo_rtc \<lparr>epochtime = 0, rtc_saved = \<lparr>signature = 0, saved_datetime = zero_datetime, saved_checksum = 0\<rparr>,
      rtc_dev = Some demo_time\<rparr> = Some s1 \<and>
    map_option rtc_dev (time_init demo_rtc (s1\<lparr>rtc_saved := (rtc_saved s1)\<lparr>signature := rtc_signature,
        saved_datetime := demo_time\<lparr>dt_hour := 3\<rparr>\<rparr>, rtc_dev := None\<rparr>)) = Some (Some (demo_time\<lparr>dt_hour := 3\<rparr>)) \<and>
    map_option rtc_dev (time_init demo_rtc (s1\<lparr>rtc_saved := (rtc_saved s1)\<lparr>signature := 0xBBBEBABE,
        saved_datetime := demo_time\<lparr>dt_day := 20\<rparr>\<rparr>, rtc_dev := None\<rparr>)) = Some None"
proof -
  let ?s = "\<lparr>epochtime = 0, rtc_saved = \<lparr>signature = 0, saved_datetime = zero_datetime, saved_checksum = 0\<rparr>,
      rtc_dev = Some demo_time\<rparr>"
  obtain s1 where u: "update_epochtime demo_rtc ?s = Some s1"
    by (simp add: update_epochtime_def checksum_rtc demo_rtc_def)
  have "rtc_get demo_rtc (rtc_dev ?s) = Some demo_time" "rtc_get demo_rtc (rtc_init demo_rtc None) = None"
    "dt_year (demo_time\<lparr>dt_hour := 3\<rparr>) \<noteq> 0" "dt_year (demo_time\<lparr>dt_day := 20\<rparr>) \<noteq> 0"
    by (simp_all add: demo_rtc_def demo_time_def)
  note restores = time_init_restores [OF this(1) u this(2,3), where g = rtc_signature, OF refl]
    time_init_restores [OF this(1) u this(2,4), where g = "0xBBBEBABE", OF refl]
  from restores show ?thesis
    using u by (simp add: start_timer_def demo_rtc_def demo_time_def rtc_signature_def)
qed

end
