(* ===== verification/Ff_Unicode.thy ===== *)
theory Ff_Unicode
  imports Ff_Bytes
begin

text \<open>
  The characters of path names, \<open>tchar2uni\<close> and \<open>put_utf\<close> of \<open>ff.c\<close>, in the configuration of the
  firmware: names are UTF-8 strings, and the library works on UTF-16 units, with a character outside
  of the basic plane as one 32-bit number of its two surrogates.

  The lemmas show that the two directions are inverse to each other, what a decoded character can
  be, and that decoding never leaves the zero-terminated string.
\<close>

section \<open>Decoding and encoding\<close>

definition IsSurrogate :: "u32 \<Rightarrow> bool" where
  "IsSurrogate c = (0xD800 \<le> c \<and> c \<le> 0xDFFF)"

definition decode_error :: u32 where "decode_error = 0xFFFFFFFF"

text \<open>
  The loop over the trailing octets: \<^term>\<open>None\<close> is a read behind the buffer, \<open>Some None\<close> a wrong
  sequence.
\<close>

fun trailing_bytes :: "u32 \<Rightarrow> nat \<Rightarrow> u8 list \<Rightarrow> (u32 \<times> u8 list) option option" where
  "trailing_bytes uc nf [] = None"
| "trailing_bytes uc nf (b # p) =
     (if b AND 0xC0 \<noteq> 0x80 then Some None
      else let uc = push_bit 6 uc OR ucast (b AND 0x3F) in
           if nf - 1 \<noteq> 0 then trailing_bytes uc (nf - 1) p else Some (Some (uc, p)))"

text \<open>The payload of the leading octet and the number of octets that follow.\<close>

definition leading_byte :: "u32 \<Rightarrow> (u32 \<times> nat) option" where
  "leading_byte uc =
     (if uc AND 0xE0 = 0xC0 then Some (uc AND 0x1F, 1)
      else if uc AND 0xF0 = 0xE0 then Some (uc AND 0x0F, 2)
      else if uc AND 0xF8 = 0xF0 then Some (uc AND 0x07, 3)
      else None)"

definition surrogate_pair :: "u32 \<Rightarrow> u32" where
  "surrogate_pair uc = 0xD800DC00 OR (push_bit 6 (uc - 0x10000) AND 0x3FF0000) OR (uc AND 0x3FF)"

text \<open>The result is the character and the place to read next, the same place after an error.\<close>

definition tchar2uni :: "u8 list \<Rightarrow> (u32 \<times> u8 list) option" where
  "tchar2uni str = (case str of [] \<Rightarrow> None | c # p \<Rightarrow>
     let uc = (ucast c :: u32) in
     if uc AND 0x80 \<noteq> 0 then
       (case leading_byte uc of None \<Rightarrow> Some (decode_error, str)
        | Some (uc, nf) \<Rightarrow>
            (case trailing_bytes uc nf p of None \<Rightarrow> None
             | Some None \<Rightarrow> Some (decode_error, str)
             | Some (Some (uc, p)) \<Rightarrow>
                 if uc < 0x80 \<or> IsSurrogate uc \<or> 0x110000 \<le> uc then Some (decode_error, str)
                 else Some (if 0x10000 \<le> uc then surrogate_pair uc else uc, p)))
     else Some (uc, p))"

text \<open>
  \<open>put_utf\<close> gives the number of octets written and the buffer; the caller states the size left as
  \<open>szb\<close>.
\<close>

fun put_bytes :: "u8 list \<Rightarrow> nat \<Rightarrow> u8 list \<Rightarrow> u8 list option" where
  "put_bytes buf i [] = Some buf"
| "put_bytes buf i (b # bs) = do { buf \<leftarrow> wr buf i b; put_bytes buf (i + 1) bs }"

definition utf8_tail :: "u32 \<Rightarrow> nat \<Rightarrow> u8" where
  "utf8_tail chr k = ucast (0x80 OR (drop_bit k chr AND 0x3F))"

definition put_utf :: "u32 \<Rightarrow> u8 list \<Rightarrow> u32 \<Rightarrow> (u8 \<times> u8 list) option" where
  "put_utf chr buf szb =
    (if chr < 0x80 then
       if szb < 1 then Some (0, buf)
       else do { buf \<leftarrow> put_bytes buf 0 [ucast chr]; Some (1, buf) }
     else if chr < 0x800 then
       if szb < 2 then Some (0, buf)
       else do {
         buf \<leftarrow> put_bytes buf 0 [ucast (0xC0 OR (drop_bit 6 chr AND 0x1F)), utf8_tail chr 0];
         Some (2, buf) }
     else if chr < 0x10000 then
       if szb < 3 \<or> IsSurrogate chr then Some (0, buf)
       else do {
         buf \<leftarrow> put_bytes buf 0
           [ucast (0xE0 OR (drop_bit 12 chr AND 0x0F)), utf8_tail chr 6, utf8_tail chr 0];
         Some (3, buf) }
     else if szb < 4 then Some (0, buf)
     else
       let hc = drop_bit 6 ((chr AND 0xFFFF0000) - 0xD8000000);
           chr = (chr AND 0xFFFF) - 0xDC00 in
       if 0x100000 \<le> hc \<or> 0x400 \<le> chr then Some (0, buf)
       else
         let chr = (hc OR chr) + 0x10000 in do {
         buf \<leftarrow> put_bytes buf 0
           [ucast (0xF0 OR (drop_bit 18 chr AND 0x07)), utf8_tail chr 12, utf8_tail chr 6,
            utf8_tail chr 0];
         Some (4, buf) })"

section \<open>The octets of a character\<close>

lemma and_or_distrib: "((a :: 'a::len word) OR b) AND m = (a AND m) OR (b AND m)"
  by (rule bit.conj_disj_distrib2)

lemma octet_part: "(ucast (ucast (x :: u32) :: u8) :: u32) = x AND 0xFF"
proof -
  have "(0xFF :: u32) = mask 8" by (simp add: mask_eq_exp_minus_1)
  show ?thesis
    unfolding \<open>0xFF = mask 8\<close> by (rule bit_word_eqI) (auto simp: bit_ucast_iff bit_and_iff bit_mask_iff)
qed

lemma octet_and: "((ucast (x :: u32) :: u8) AND m = k) = (x AND (0xFF AND ucast m) = ucast k)"
proof -
  have "((ucast x :: u8) AND m = k) = ((ucast ((ucast x :: u8) AND m) :: u32) = ucast k)"
    by (rule ucast_eq_iff_up [symmetric]) simp
  also have "(ucast ((ucast x :: u8) AND m) :: u32) = x AND (0xFF AND ucast m)"
    by (simp add: unsigned_and_eq octet_part and.assoc)
  finally show ?thesis .
qed

lemma tail_marker: "utf8_tail chr k AND 0xC0 = 0x80"
  by (simp add: utf8_tail_def octet_and and_or_distrib and.assoc)

lemma tail_payload: "(ucast (utf8_tail chr k AND 0x3F) :: u32) = drop_bit k chr AND 0x3F"
proof -
  have "(ucast (utf8_tail chr k AND 0x3F) :: u32) = ucast (ucast (0x80 OR drop_bit k chr AND 0x3F) :: u8) AND 0x3F"
    by (simp add: utf8_tail_def unsigned_and_eq)
  also have "\<dots> = drop_bit k chr AND 0x3F"
    by (simp add: octet_part and_or_distrib and.assoc)
  finally show ?thesis .
qed

lemma join_payload:
  fixes x :: u32
  assumes "k + 6 = l" and "m + 6 = m'"
  shows "push_bit 6 (drop_bit l x AND mask m) OR (drop_bit k x AND 0x3F) = drop_bit k x AND mask m'"
proof -
  have six: "(0x3F :: u32) = mask 6" by (simp add: mask_eq_exp_minus_1)
  show ?thesis
  proof (rule bit_word_eqI)
    fix n assume "n < LENGTH(32)"
    then show "bit (push_bit 6 (drop_bit l x AND mask m) OR (drop_bit k x AND 0x3F)) n
               = bit (drop_bit k x AND mask m') n"
      unfolding six using assms
      by (cases "n < 6") (auto simp: bit_or_iff bit_and_iff bit_push_bit_iff bit_drop_bit_eq bit_mask_iff
          algebra_simps)
  qed
qed

lemma trailing_step:
  "trailing_bytes uc nf (utf8_tail chr k # p) =
     (let uc = push_bit 6 uc OR (drop_bit k chr AND 0x3F) in
      if nf - 1 \<noteq> 0 then trailing_bytes uc (nf - 1) p else Some (Some (uc, p)))"
  by (simp add: tail_marker tail_payload)

lemma lead_byte:
  "(ucast (ucast (m OR (x AND k) :: u32) :: u8) :: u32) = (m AND 0xFF) OR (x AND (k AND 0xFF))"
  by (simp add: octet_part and_or_distrib and.assoc)

lemma decode_multi:
  assumes "leading_byte (ucast c) = Some (uc, nf)" and "ucast c AND 0x80 \<noteq> (0 :: u32)"
    and "trailing_bytes uc nf p = Some (Some (u, q))"
    and "0x80 \<le> u" and "\<not> IsSurrogate u" and "u < 0x110000"
  shows "tchar2uni (c # p) = Some (if 0x10000 \<le> u then surrogate_pair u else u, q)"
proof -
  have "\<not> u < 0x80" and "\<not> 0x110000 \<le> u" using assms(4,6) by simp_all
  then show ?thesis using assms(1-3,5) by (simp add: tchar2uni_def)
qed

lemma masks: "(0x1F :: u32) = mask 5" "(0x0F :: u32) = mask 4" "(0x07 :: u32) = mask 3"
  by (simp_all add: mask_eq_exp_minus_1)

lemma decode_2:
  assumes "chr < 0x800" and "0x80 \<le> chr"
  shows "tchar2uni (ucast (0xC0 OR (drop_bit 6 chr AND 0x1F)) # utf8_tail chr 0 # p) = Some (chr, p)"
    (is "tchar2uni (?c # _) = _")
proof -
  have c: "ucast ?c = (0xC0 :: u32) OR (drop_bit 6 chr AND 0x1F)"
    by (simp add: lead_byte)
  have lead: "leading_byte (ucast ?c) = Some (drop_bit 6 chr AND 0x1F, 1)"
    unfolding c by (simp add: leading_byte_def and_or_distrib and.assoc)
  have top: "ucast ?c AND 0x80 \<noteq> (0 :: u32)"
    unfolding c by (simp add: and_or_distrib and.assoc)
  have tail: "trailing_bytes (drop_bit 6 chr AND 0x1F) 1 (utf8_tail chr 0 # p) = Some (Some (chr, p))"
    using join_payload [of 0 6 5 11 chr] and_mask_small [of chr 11] assms(1)
    unfolding masks trailing_step by (simp del: trailing_bytes.simps)
  have "\<not> IsSurrogate chr" and "chr < 0x110000" and "\<not> 0x10000 \<le> chr"
    using assms(1) by (simp_all add: IsSurrogate_def word_less_nat_alt word_le_nat_alt)
  then show ?thesis using decode_multi [OF lead top tail assms(2)] by simp
qed

lemma decode_3:
  assumes "chr < 0x10000" and "0x800 \<le> chr" and "\<not> IsSurrogate chr"
  shows "tchar2uni (ucast (0xE0 OR (drop_bit 12 chr AND 0x0F)) # utf8_tail chr 6 # utf8_tail chr 0 # p)
         = Some (chr, p)"
    (is "tchar2uni (?c # _) = _")
proof -
  have c: "ucast ?c = (0xE0 :: u32) OR (drop_bit 12 chr AND 0x0F)"
    by (simp add: lead_byte)
  have lead: "leading_byte (ucast ?c) = Some (drop_bit 12 chr AND 0x0F, 2)"
    unfolding c by (simp add: leading_byte_def and_or_distrib and.assoc)
  have top: "ucast ?c AND 0x80 \<noteq> (0 :: u32)"
    unfolding c by (simp add: and_or_distrib and.assoc)
  have tail: "trailing_bytes (drop_bit 12 chr AND 0x0F) 2 (utf8_tail chr 6 # utf8_tail chr 0 # p)
              = Some (Some (chr, p))"
    using join_payload [of 6 12 4 10 chr] join_payload [of 0 6 10 16 chr]
      and_mask_small [of chr 16] assms(1)
    unfolding masks trailing_step by (simp del: trailing_bytes.simps add: trailing_step Let_def)
  have "0x80 \<le> chr" and "chr < 0x110000" and "\<not> 0x10000 \<le> chr"
    using assms(1,2) by (simp_all add: word_less_nat_alt word_le_nat_alt)
  then show ?thesis using decode_multi [OF lead top tail _ assms(3)] by simp
qed

lemma decode_4:
  assumes "u < 0x110000" and "0x10000 \<le> u"
  shows "tchar2uni (ucast (0xF0 OR (drop_bit 18 u AND 0x07)) # utf8_tail u 12 # utf8_tail u 6
                    # utf8_tail u 0 # p) = Some (surrogate_pair u, p)"
    (is "tchar2uni (?c # _) = _")
proof -
  have c: "ucast ?c = (0xF0 :: u32) OR (drop_bit 18 u AND 0x07)"
    by (simp add: lead_byte)
  have lead: "leading_byte (ucast ?c) = Some (drop_bit 18 u AND 0x07, 3)"
    unfolding c by (simp add: leading_byte_def and_or_distrib and.assoc)
  have top: "ucast ?c AND 0x80 \<noteq> (0 :: u32)"
    unfolding c by (simp add: and_or_distrib and.assoc)
  have "u < 2 ^ 21" using assms(1) by (simp add: word_less_nat_alt)
  then have tail: "trailing_bytes (drop_bit 18 u AND 0x07) 3
                     (utf8_tail u 12 # utf8_tail u 6 # utf8_tail u 0 # p) = Some (Some (u, p))"
    using join_payload [of 12 18 3 9 u] join_payload [of 6 12 9 15 u] join_payload [of 0 6 15 21 u]
      and_mask_small [of u 21]
    unfolding masks trailing_step
    by (simp del: trailing_bytes.simps push_bit_and push_bit_or add: trailing_step Let_def)
  have "0x80 \<le> u" and "\<not> IsSurrogate u"
    using assms(2) by (simp_all add: IsSurrogate_def word_less_nat_alt word_le_nat_alt)
  then show ?thesis using decode_multi [OF lead top tail _ _ assms(1)] assms(2) by simp
qed

section \<open>Surrogate pairs\<close>

lemma pair_constants:
  "(0xD800DC00 :: u32) = 0xD8000000 OR 0xDC00" "(0xFFFF :: u32) = mask 16" "(0x3FF :: u32) = mask 10"
  by (simp_all add: mask_eq_exp_minus_1)

lemma take_bit_add_word: "take_bit n (take_bit n a + take_bit n b) = take_bit n (a + b :: 'a::len word)"
  by transfer (simp add: take_bit_add)

lemma take_bit_diff_word: "take_bit n (take_bit n a - take_bit n b) = take_bit n (a - b :: 'a::len word)"
  by transfer (simp add: take_bit_diff)

lemma high_half: "take_bit 16 ((x AND 0xFFFF0000) - 0xD8000000 :: u32) = 0"
proof -
  have "take_bit 16 (x AND 0xFFFF0000) = 0"
    by (simp add: take_bit_eq_mask and.assoc flip: pair_constants)
  then show ?thesis
    by (simp flip: take_bit_diff_word [of 16 "x AND 0xFFFF0000" "0xD8000000"])
qed

lemma pair_high:
  assumes "drop_bit 6 H < (0x100000 :: u32)" and "take_bit 16 H = 0"
  shows "H AND 0x3FF0000 = H"
proof -
  have "H < 2 ^ 26"
    using assms(1) by (simp add: word_less_nat_alt drop_bit_eq_div unat_div)
  then have H: "H AND mask 26 = H" by (rule and_mask_small)
  have "H AND mask 26 = (H AND (0x3FF0000 :: u32)) OR (H AND mask 16)"
    unfolding bit.conj_disj_distrib [symmetric] by (simp add: mask_eq_exp_minus_1)
  then show ?thesis using assms(2) H by (simp add: take_bit_eq_mask)
qed

lemma all_ones: "(x :: u32) AND 0xFFFFFFFF = x"
proof -
  have "(0xFFFFFFFF :: u32) = - 1" by simp
  then show ?thesis by (metis and.right_neutral)
qed

lemma surrogates_joined:
  fixes chr :: u32
  defines "H \<equiv> (chr AND 0xFFFF0000) - 0xD8000000" and "c \<equiv> (chr AND 0xFFFF) - 0xDC00"
  assumes "drop_bit 6 H < 0x100000" and "c < 0x400"
  defines "u \<equiv> (drop_bit 6 H OR c) + 0x10000"
  shows "surrogate_pair u = chr" and "0x10000 \<le> u" and "u < 0x110000"
proof -
  have H: "H AND 0x3FF0000 = H" using assms(3) high_half unfolding H_def by (rule pair_high)
  have c: "c AND 0x3FF = c"
    unfolding pair_constants by (rule and_mask_small) (use assms(4) in simp)
  have hi: "push_bit 6 (drop_bit 6 H) AND 0x3FF0000 = H"
  proof -
    have "push_bit 6 (drop_bit 6 H) = H AND NOT (mask 6)"
      by (rule bit_word_eqI) (auto simp: bit_push_bit_iff bit_drop_bit_eq bit_and_iff bit_not_iff bit_mask_iff)
    then have "push_bit 6 (drop_bit 6 H) AND 0x3FF0000 = H AND (NOT (mask 6) AND 0x3FF0000)"
      by (simp add: and.assoc)
    also have "NOT (mask 6) AND (0x3FF0000 :: u32) = 0x3FF0000" by (simp add: mask_eq_exp_minus_1)
    finally show ?thesis using H by simp
  qed
  have lo: "push_bit 6 c AND 0x3FF0000 = 0"
  proof -
    have "push_bit 6 c AND 0x3FF0000 = push_bit 6 (c AND 0x3FF) AND 0x3FF0000" by (simp only: c)
    then show ?thesis by (simp add: push_bit_and and.assoc)
  qed
  have disjoint: "drop_bit 6 H AND c = 0"
  proof -
    have "drop_bit 6 (H AND 0x3FF0000) AND (c AND 0x3FF) = 0"
      by (simp add: drop_bit_and and.assoc and.left_commute)
    then show ?thesis unfolding H c .
  qed
  have low: "u AND 0x3FF = c"
  proof -
    have "drop_bit 6 (H AND 0x3FF0000) AND 0x3FF = 0" by (simp add: drop_bit_and and.assoc)
    then have "(drop_bit 6 H OR c) AND 0x3FF = c" unfolding H and_or_distrib c by simp
    moreover have "take_bit 10 u = take_bit 10 (drop_bit 6 H OR c)"
      unfolding u_def by (simp flip: take_bit_add_word [of 10 "drop_bit 6 H OR c" "0x10000"])
    ultimately show ?thesis unfolding pair_constants(3) by (simp add: take_bit_eq_mask)
  qed
  have "u - 0x10000 = drop_bit 6 H OR c" by (simp add: u_def)
  then have pair: "surrogate_pair u = 0xD800DC00 OR H OR c"
    by (simp add: surrogate_pair_def low push_bit_or and_or_distrib hi lo)
  have "chr = (chr AND 0xFFFF0000) OR (chr AND 0xFFFF)"
    unfolding bit.conj_disj_distrib [symmetric] using all_ones by simp
  also have "chr AND 0xFFFF0000 = H + 0xD8000000" by (simp add: H_def)
  also have "\<dots> = H OR 0xD8000000"
  proof (rule disjunctive_add_eq_or)
    have "(H AND 0x3FF0000) AND 0xD8000000 = 0" by (simp add: and.assoc)
    then show "H AND 0xD8000000 = 0" unfolding H .
  qed
  also have "chr AND 0xFFFF = c + 0xDC00" by (simp add: c_def)
  also have "\<dots> = c OR 0xDC00"
  proof (rule disjunctive_add_eq_or)
    have "(c AND 0x3FF) AND 0xDC00 = 0" by (simp add: and.assoc)
    then show "c AND 0xDC00 = 0" unfolding c .
  qed
  finally show "surrogate_pair u = chr"
    unfolding pair pair_constants(1) by (simp only: or.assoc or.commute or.left_commute)
  have "drop_bit 6 H OR c = drop_bit 6 H + c" by (simp add: disjunctive_add_eq_or disjoint)
  moreover have "unat (drop_bit 6 H + c) = unat (drop_bit 6 H) + unat c"
    using assms(3,4) by (subst unat_add_lem [THEN iffD1]) (simp_all add: word_less_nat_alt)
  moreover have "drop_bit 6 H \<le> 0xFFC00"
  proof -
    have "drop_bit 6 (H AND 0x3FF0000) \<le> 0xFFC00"
      unfolding drop_bit_and by (simp add: word_and_le1)
    then show ?thesis unfolding H .
  qed
  ultimately have "unat u = 0x10000 + unat (drop_bit 6 H) + unat c" and "unat (drop_bit 6 H) \<le> 0xFFC00"
    using assms(4) unfolding u_def by (auto simp: unat_word_ariths word_less_nat_alt word_le_nat_alt)
  then show "0x10000 \<le> u" and "u < 0x110000"
    using assms(4) by (auto simp: word_less_nat_alt word_le_nat_alt)
qed

lemma surrogates_split:
  fixes u :: u32
  assumes "0x10000 \<le> u" and "u < 0x110000"
  defines "chr \<equiv> surrogate_pair u"
  shows "0x10000 \<le> chr" and "drop_bit 6 ((chr AND 0xFFFF0000) - 0xD8000000) < 0x100000"
    and "(chr AND 0xFFFF) - 0xDC00 < 0x400"
proof -
  define X where "X = push_bit 6 (u - 0x10000) AND 0x3FF0000"
  define Y where "Y = u AND 0x3FF"
  have X: "X AND m = push_bit 6 (u - 0x10000) AND (0x3FF0000 AND m)" for m by (simp add: X_def and.assoc)
  have Y: "Y AND m = u AND (0x3FF AND m)" for m by (simp add: Y_def and.assoc)
  have chr: "chr = (0xD800DC00 OR X) OR Y" by (simp add: chr_def surrogate_pair_def X_def Y_def or.assoc)
  have hi: "chr AND 0xFFFF0000 = 0xD8000000 OR X"
    unfolding chr and_or_distrib X Y by (simp add: X_def)
  also have "\<dots> = 0xD8000000 + X"
    by (rule disjunctive_add_eq_or [symmetric]) (simp add: X and.commute [of _ X])
  finally have hi': "chr AND 0xFFFF0000 = 0xD8000000 + X" .
  then have "(chr AND 0xFFFF0000) - 0xD8000000 = X" by simp
  moreover have "X \<le> 0x3FF0000" unfolding X_def by (rule word_and_le1)
  ultimately show "drop_bit 6 ((chr AND 0xFFFF0000) - 0xD8000000) < 0x100000"
    by (simp add: word_less_nat_alt word_le_nat_alt drop_bit_eq_div unat_div)
  have "chr AND 0xFFFF = 0xDC00 OR Y"
    unfolding chr and_or_distrib X Y by (simp add: Y_def)
  also have "\<dots> = 0xDC00 + Y"
    by (rule disjunctive_add_eq_or [symmetric]) (simp add: Y and.commute [of _ Y])
  finally have "(chr AND 0xFFFF) - 0xDC00 = Y" by simp
  moreover have "Y \<le> 0x3FF" unfolding Y_def by (rule word_and_le1)
  ultimately show "(chr AND 0xFFFF) - 0xDC00 < 0x400"
    by (simp add: word_less_nat_alt word_le_nat_alt)
  have "0xD8000000 \<le> chr AND 0xFFFF0000"
    using \<open>X \<le> 0x3FF0000\<close> unfolding hi'
    by (simp add: word_le_nat_alt unat_word_ariths)
  then have "0xD8000000 \<le> chr" by (rule order_trans) (rule word_and_le2)
  then show "0x10000 \<le> chr" by (simp add: word_le_nat_alt)
qed

section \<open>Round trips\<close>

lemma put_bytes_spec:
  "put_bytes buf i bs = (if bs = [] \<or> i + length bs \<le> length buf
     then Some (take i buf @ bs @ drop (i + length bs) buf) else None)" if "i \<le> length buf"
  using that
  by (induction bs arbitrary: buf i) (auto simp: wr_def upd_conv_take_nth_drop add.commute split: bind_splits if_splits)

lemma put_bytes_0:
  "put_bytes buf 0 (b # bs) = (if length (b # bs) \<le> length buf
     then Some ((b # bs) @ drop (length (b # bs)) buf) else None)"
  by (subst put_bytes_spec) simp_all

text \<open>The octets a character is written as, none when it is refused.\<close>

definition utf8_of :: "u32 \<Rightarrow> u8 list" where
  "utf8_of chr =
    (if chr < 0x80 then [ucast chr]
     else if chr < 0x800 then [ucast (0xC0 OR (drop_bit 6 chr AND 0x1F)), utf8_tail chr 0]
     else if chr < 0x10000 then
       if IsSurrogate chr then []
       else [ucast (0xE0 OR (drop_bit 12 chr AND 0x0F)), utf8_tail chr 6, utf8_tail chr 0]
     else
       let hc = drop_bit 6 ((chr AND 0xFFFF0000) - 0xD8000000); lc = (chr AND 0xFFFF) - 0xDC00;
           u = (hc OR lc) + 0x10000 in
       if 0x100000 \<le> hc \<or> 0x400 \<le> lc then []
       else [ucast (0xF0 OR (drop_bit 18 u AND 0x07)), utf8_tail u 12, utf8_tail u 6, utf8_tail u 0])"

lemma put_utf_eq:
  "put_utf chr buf szb =
    (let bs = utf8_of chr in
     if bs = [] \<or> unat szb < length bs then Some (0, buf)
     else if length bs \<le> length buf then Some (of_nat (length bs), bs @ drop (length bs) buf)
     else None)"
  unfolding put_utf_def utf8_of_def Let_def put_bytes_0
  by (auto simp: word_less_nat_alt word_le_nat_alt split: bind_splits)

lemma decode_utf8_of:
  assumes "utf8_of chr \<noteq> []"
  shows "tchar2uni (utf8_of chr @ p) = Some (chr, p)"
proof -
  consider "chr < 0x80" | "0x80 \<le> chr" "chr < 0x800" | "0x800 \<le> chr" "chr < 0x10000" | "0x10000 \<le> chr"
    by (meson not_le)
  then show ?thesis
  proof cases
    case 1
    have "chr < 2 ^ 7" using 1 by simp
    then have chr: "chr AND mask 7 = chr" by (rule and_mask_small)
    have "(chr AND mask 7) AND 0x80 = 0" and "(chr AND mask 7) AND 0xFF = chr AND mask 7"
      by (simp_all add: and.assoc mask_eq_exp_minus_1)
    then have "chr AND 0x80 = 0" and "chr AND 0xFF = chr" unfolding chr by simp_all
    then show ?thesis using 1 by (simp add: utf8_of_def tchar2uni_def octet_part)
  next
    case 2
    have "\<not> chr < 0x80" using 2(1) by (rule leD)
    then show ?thesis using 2 decode_2 by (simp add: utf8_of_def)
  next
    case 3
    then have "\<not> chr < 0x80" and "\<not> chr < 0x800" by (simp_all add: word_less_nat_alt word_le_nat_alt)
    then show ?thesis using 3 decode_3 assms by (auto simp: utf8_of_def not_less split: if_splits)
  next
    case 4
    define hc where "hc = drop_bit 6 ((chr AND 0xFFFF0000) - 0xD8000000)"
    define lc where "lc = (chr AND 0xFFFF) - 0xDC00"
    define u where "u = (hc OR lc) + 0x10000"
    have small: "\<not> chr < 0x80" "\<not> chr < 0x800" "\<not> chr < 0x10000"
      using 4 by (simp_all add: word_less_nat_alt word_le_nat_alt)
    then have ok: "\<not> 0x100000 \<le> hc" "\<not> 0x400 \<le> lc"
      using assms by (auto simp: utf8_of_def Let_def hc_def lc_def split: if_splits)
    then have eq: "utf8_of chr =
        [ucast (0xF0 OR (drop_bit 18 u AND 0x07)), utf8_tail u 12, utf8_tail u 6, utf8_tail u 0]"
      using small by (simp add: utf8_of_def Let_def hc_def lc_def u_def)
    have "surrogate_pair u = chr" and "0x10000 \<le> u" and "u < 0x110000"
      using surrogates_joined [of chr] ok unfolding not_le hc_def lc_def u_def by blast+
    then show ?thesis unfolding eq using decode_4 [of u p] by simp
  qed
qed

lemma length_utf8_of: "length (utf8_of chr) \<le> 4"
  by (simp add: utf8_of_def Let_def)

text \<open>
  Decoding stays inside the zero-terminated string: at every place but the zero itself it returns, and
  the place to read next is still in front of the zero.
\<close>

lemma trailing_bytes_terminated:
  "trailing_bytes uc nf (s @ 0 # junk) = Some None
   \<or> (\<exists>u s'. trailing_bytes uc nf (s @ 0 # junk) = Some (Some (u, s' @ 0 # junk)))"
  by (induction s arbitrary: uc nf) (auto simp: Let_def)

lemma tchar2uni_terminated:
  assumes "s \<noteq> []"
  shows "\<exists>chr s'. tchar2uni (s @ 0 # junk) = Some (chr, s' @ 0 # junk)"
proof -
  obtain c cs where s: "s = c # cs" using assms by (cases s) auto
  show ?thesis
  proof (cases "ucast c AND (0x80 :: u32) = 0 \<or> leading_byte (ucast c) = None")
    case True
    then show ?thesis unfolding s by (auto simp: tchar2uni_def Let_def intro: exI [of _ "c # cs"])
  next
    case False
    then obtain uc nf where "leading_byte (ucast c) = Some (uc, nf)" by auto
    then show ?thesis
      using False trailing_bytes_terminated [of uc nf cs junk] unfolding s
      by (auto simp: tchar2uni_def Let_def intro: exI [of _ "c # cs"])
  qed
qed

text \<open>What a decoded character is: one that can be written.\<close>

lemma decoded_cases:
  assumes "tchar2uni str = Some (chr, p)" and "chr \<noteq> decode_error"
  obtains "chr < 0x80" | "0x80 \<le> chr" and "chr < 0x10000" and "\<not> IsSurrogate chr"
    | u where "0x10000 \<le> u" and "u < 0x110000" and "chr = surrogate_pair u"
proof -
  obtain c cs where str: "str = c # cs" using assms(1) by (cases str) (auto simp: tchar2uni_def)
  show thesis
  proof (cases "ucast c AND (0x80 :: u32) = 0")
    case True
    then have chr: "chr = ucast c" using assms(1) str by (simp add: tchar2uni_def Let_def)
    have "(ucast c :: u32) \<le> 0xFF" 
    proof -
      have "unat (ucast c :: u32) \<le> unat c" by (simp add: unsigned_ucast_eq take_bit_nat_less_eq_self)
      also have "unat c < 256" using unsigned_less [of c, where ?'a = nat] by simp
      finally show ?thesis by (simp add: word_le_nat_alt)
    qed
    then have "\<not> IsSurrogate chr" and "chr < 0x10000"
      unfolding chr by (auto simp: IsSurrogate_def word_le_nat_alt word_less_nat_alt)
    then show thesis using that(1,2) by fastforce
  next
    case False
    then obtain uc nf u q where "leading_byte (ucast c) = Some (uc, nf)"
      and "trailing_bytes uc nf cs = Some (Some (u, q))"
      and u: "\<not> u < 0x80" "\<not> IsSurrogate u" "\<not> 0x110000 \<le> u"
      and chr: "chr = (if 0x10000 \<le> u then surrogate_pair u else u)"
      using assms str by (auto simp: tchar2uni_def Let_def split: option.splits if_splits)
    then show thesis using that(2) [of] that(3) [of u] by (cases "0x10000 \<le> u") (auto simp: not_less not_le)
  qed
qed

lemma utf8_of_decoded:
  assumes "tchar2uni str = Some (chr, p)" and "chr \<noteq> decode_error"
  shows "utf8_of chr \<noteq> []"
  using assms
proof (cases rule: decoded_cases)
  case 3
  then show ?thesis
    using surrogates_split [OF 3(1,2)] by (auto simp: utf8_of_def Let_def not_less not_le)
qed (auto simp: utf8_of_def Let_def)

text \<open>
  C36. The two directions of the name conversion are inverse: what \<open>put_utf\<close> writes, it writes within
  the size it is given, and \<open>tchar2uni\<close> reads the same character back whatever follows; and every
  character \<open>tchar2uni\<close> accepts can be written. The encodings it accepts are more than those written:
  the three octets \<open>E0 82 80\<close> are read as the character \<open>0x80\<close>, which is written in two.
\<close>

theorem utf8_round_trip:
  assumes "put_utf chr buf szb = Some (n, buf')" and "n \<noteq> 0"
    and "tchar2uni str = Some (chr', p')" and "chr' \<noteq> decode_error"
  shows "unat n \<le> unat szb \<and> length buf' = length buf \<and> drop (unat n) buf' = drop (unat n) buf
       \<and> tchar2uni (take (unat n) buf' @ p) = Some (chr, p)
       \<and> (\<exists>m out. put_utf chr' [0, 0, 0, 0] 4 = Some (m, out) \<and> m \<noteq> 0)
       \<and> tchar2uni [0xE0, 0x82, 0x80] = Some (0x80, [])
       \<and> put_utf 0x80 [0, 0, 0, 0] 4 = Some (2, [0xC2, 0x80, 0, 0])"
proof -
  have len: "of_nat (length (utf8_of c)) = (0 :: u8) \<longleftrightarrow> utf8_of c = []"
      "unat (of_nat (length (utf8_of c)) :: u8) = length (utf8_of c)" for c
    using length_utf8_of [of c]
    by (auto simp: unat_of_nat take_bit_nat_eq_self word_of_nat_eq_0_iff dest: dvd_imp_le)
  have buf: "utf8_of chr \<noteq> []" "length (utf8_of chr) \<le> unat szb" "length (utf8_of chr) \<le> length buf"
      "n = of_nat (length (utf8_of chr))" "buf' = utf8_of chr @ drop (length (utf8_of chr)) buf"
    using assms(1,2) by (auto simp: put_utf_eq Let_def split: if_splits)
  moreover have "tchar2uni (utf8_of chr @ p) = Some (chr, p)"
    using decode_utf8_of buf(1) .
  moreover have "\<exists>m out. put_utf chr' [0, 0, 0, 0] 4 = Some (m, out) \<and> m \<noteq> 0"
    using utf8_of_decoded [OF assms(3,4)] length_utf8_of [of chr'] by (simp add: put_utf_eq Let_def len)
  moreover have "tchar2uni [0xE0, 0x82, 0x80] = Some (0x80, [])"
    by (simp add: tchar2uni_def leading_byte_def IsSurrogate_def)
  moreover have "put_utf 0x80 [0, 0, 0, 0] 4 = Some (2, [0xC2, 0x80, 0, 0])"
    by (simp add: put_utf_def utf8_tail_def wr_def)
  ultimately show ?thesis by (simp add: len)
qed

lemma utf8_round_trip_witness:
  "put_utf 0xD83DDE00 [1, 2, 3, 4, 5] 5 = Some (4, [0xF0, 0x9F, 0x98, 0x80, 5])
   \<and> tchar2uni [0xF0, 0x9F, 0x98, 0x80, 0x41] = Some (0xD83DDE00, [0x41])"
proof -
  have put: "put_utf 0xD83DDE00 [1, 2, 3, 4, 5] 5 = Some (4, [0xF0, 0x9F, 0x98, 0x80, 5])"
    by (simp add: put_utf_def utf8_tail_def wr_def Let_def)
  have "tchar2uni [0x41] = Some (0x41, [])" by (simp add: tchar2uni_def)
  then show ?thesis using put utf8_round_trip [OF put, of "[0x41]" "0x41" "[]" "[0x41]"]
    by (simp add: decode_error_def)
qed

end
