(* ===== verification/Ff_Objects.thy ===== *)
theory Ff_Objects
  imports Ff_Bytes
begin

text \<open>
  The structures of the file system library, from \<open>ff.h\<close>: the volume (\<open>FATFS\<close>), the object
  identifier (\<open>FFOBJID\<close>) and the directory object (\<open>DIR\<close>). A pointer to a volume is a number, zero
  for a null pointer; the functions that work on a volume take the volume itself. The pointer of a
  directory object into the window of its volume is an offset; the two working buffers of a volume are
  part of it, as the functions of the interface allocate them for each call.
\<close>

record fatfs =
  fs_type :: u8
  pdrv :: u8
  n_fats :: u8
  wflag :: u8
  fsi_flag :: u8
  fs_id :: u16
  n_rootdir :: u16
  csize :: u16
  lfnbuf :: "u16 list"
  dirbuf :: "u8 list"
  last_clst :: u32
  free_clst :: u32
  cdir :: u32
  cdc_scl :: u32
  cdc_size :: u32
  cdc_ofs :: u32
  n_fatent :: u32
  fsize :: u32
  volbase :: u64
  fatbase :: u64
  dirbase :: u64
  database :: u64
  bitbase :: u64
  winsect :: u64
  win :: "u8 list"

record ffobjid =
  obj_fs :: nat
  obj_id :: u16
  obj_attr :: u8
  stat :: u8
  sclust :: u32
  objsize :: u64
  n_cont :: u32
  n_frag :: u32
  c_scl :: u32
  c_size :: u32
  c_ofs :: u32
  lockid :: u32

record dir_object =
  dp_obj :: ffobjid
  dptr :: u32
  dp_clust :: u32
  dp_sect :: u64
  dp_dir :: nat
  fn :: "u8 list"
  blk_ofs :: u32

text \<open>The kinds of volume and the size of a sector, which is fixed.\<close>

definition FS_FAT12 :: u8 where "FS_FAT12 = 1"
definition FS_FAT16 :: u8 where "FS_FAT16 = 2"
definition FS_FAT32 :: u8 where "FS_FAT32 = 3"
definition FS_EXFAT :: u8 where "FS_EXFAT = 4"
definition SS :: nat where "SS = 512"

lemmas fs_types = FS_FAT12_def FS_FAT16_def FS_FAT32_def FS_EXFAT_def

end
