(* ===== verification/Ff_Lock.thy ===== *)
theory Ff_Lock
  imports Ff_Objects
begin

text \<open>
  The table of open objects, \<open>Files\<close> in \<open>ff.c\<close>, with \<open>chk_lock\<close>, \<open>enq_lock\<close>, \<open>inc_lock\<close>, \<open>dec_lock\<close> and
  \<open>clear_lock\<close>. An object is identified by its volume, its directory and its place there.

  The specification is a map from objects to the way they are shared: closed, open by some readers,
  or open by one writer. The lemmas show that the table refines it.
\<close>

section \<open>The table\<close>

record filesem =
  sem_fs :: nat
  sem_clu :: u32
  sem_ofs :: u32
  ctr :: u16

definition FF_FS_LOCK :: nat where "FF_FS_LOCK = 16"

definition same_object :: "filesem \<Rightarrow> dir_object \<Rightarrow> bool" where
  "same_object e dp = (sem_fs e = obj_fs (dp_obj dp) \<and> sem_clu e = sclust (dp_obj dp) \<and> sem_ofs e = dptr dp)"

text \<open>The loop of \<open>chk_lock\<close>: the place of the object, and whether a blank entry was passed.\<close>

fun chk_scan :: "dir_object \<Rightarrow> filesem list \<Rightarrow> nat \<Rightarrow> bool \<Rightarrow> nat \<times> bool" where
  "chk_scan dp [] i be = (i, be)"
| "chk_scan dp (e # es) i be =
     (if sem_fs e \<noteq> 0 then if same_object e dp then (i, be) else chk_scan dp es (i + 1) be
      else chk_scan dp es (i + 1) True)"

definition chk_lock :: "filesem list \<Rightarrow> dir_object \<Rightarrow> int \<Rightarrow> fresult" where
  "chk_lock Files dp acc = (case chk_scan dp Files 0 False of (i, be) \<Rightarrow>
     if i = FF_FS_LOCK then if \<not> be \<and> acc \<noteq> 2 then FR_TOO_MANY_OPEN_FILES else FR_OK
     else if acc \<noteq> 0 \<or> ctr (Files ! i) = 0x100 then FR_LOCKED else FR_OK)"

text \<open>The first index at which a loop over the table stops.\<close>

definition stop_index :: "(filesem \<Rightarrow> bool) \<Rightarrow> filesem list \<Rightarrow> nat" where
  "stop_index P Files = length (takeWhile (\<lambda>e. \<not> P e) Files)"

definition enq_lock :: "filesem list \<Rightarrow> int" where
  "enq_lock Files = (if stop_index (\<lambda>e. sem_fs e = 0) Files = FF_FS_LOCK then 0 else 1)"

definition inc_lock :: "filesem list \<Rightarrow> dir_object \<Rightarrow> int \<Rightarrow> u32 \<times> filesem list" where
  "inc_lock Files dp acc =
    (let count = (\<lambda>i Files.
           if 1 \<le> acc \<and> ctr (Files ! i) \<noteq> 0 then (0, Files)
           else (of_nat (i + 1),
                 Files[i := (Files ! i)\<lparr>ctr := if acc \<noteq> 0 then 0x100 else ctr (Files ! i) + 1\<rparr>]));
         i = stop_index (\<lambda>e. same_object e dp) Files in
     if i = FF_FS_LOCK then
       let i = stop_index (\<lambda>e. sem_fs e = 0) Files in
       if i = FF_FS_LOCK then (0, Files)
       else count i (Files[i := \<lparr>sem_fs = obj_fs (dp_obj dp), sem_clu = sclust (dp_obj dp),
                                 sem_ofs = dptr dp, ctr = 0\<rparr>])
     else count i Files)"

definition dec_lock :: "u32 \<Rightarrow> filesem list \<Rightarrow> fresult \<times> filesem list" where
  "dec_lock i Files =
    (let i = i - 1 in
     if unat i < FF_FS_LOCK then
       let n = ctr (Files ! unat i);
           n = (if n = 0x100 then 0 else n);
           n = (if 0 < n then n - 1 else n);
           e = (Files ! unat i)\<lparr>ctr := n\<rparr>;
           e = (if n = 0 then e\<lparr>sem_fs := 0\<rparr> else e) in
       (FR_OK, Files[unat i := e])
     else (FR_INT_ERR, Files))"

definition clear_lock :: "nat \<Rightarrow> filesem list \<Rightarrow> filesem list" where
  "clear_lock fs Files = map (\<lambda>e. if sem_fs e = fs then e\<lparr>sem_fs := 0\<rparr> else e) Files"

section \<open>Specification\<close>

type_synonym file_key = "nat \<times> u32 \<times> u32"

datatype share = Closed | Readers nat | Writer

definition entry_key :: "filesem \<Rightarrow> file_key" where
  "entry_key e = (sem_fs e, sem_clu e, sem_ofs e)"

definition dir_key :: "dir_object \<Rightarrow> file_key" where
  "dir_key dp = (obj_fs (dp_obj dp), sclust (dp_obj dp), dptr dp)"

definition entry_share :: "filesem \<Rightarrow> share" where
  "entry_share e = (if ctr e = 0x100 then Writer else Readers (unat (ctr e)))"

definition shares :: "filesem list \<Rightarrow> file_key \<Rightarrow> share" where
  "shares Files k = (case List.find (\<lambda>e. sem_fs e \<noteq> 0 \<and> entry_key e = k) Files of
     None \<Rightarrow> Closed | Some e \<Rightarrow> entry_share e)"

definition may_open :: "(file_key \<Rightarrow> share) \<Rightarrow> file_key \<Rightarrow> int \<Rightarrow> fresult" where
  "may_open A k acc =
    (if A k = Closed then
       if acc \<noteq> 2 \<and> card {k. A k \<noteq> Closed} = FF_FS_LOCK then FR_TOO_MANY_OPEN_FILES else FR_OK
     else if acc \<noteq> 0 \<or> A k = Writer then FR_LOCKED else FR_OK)"

text \<open>The 256th reader turns the count into the mark of a writer.\<close>

definition opened :: "int \<Rightarrow> share \<Rightarrow> share" where
  "opened acc s = (if acc \<noteq> 0 then Writer else case s of
     Closed \<Rightarrow> Readers 1 | Readers n \<Rightarrow> if n = 255 then Writer else Readers (n + 1) | Writer \<Rightarrow> Writer)"

definition closed :: "share \<Rightarrow> share" where
  "closed s = (case s of Readers n \<Rightarrow> if n = 1 then Closed else Readers (n - 1) | _ \<Rightarrow> Closed)"

text \<open>The invariant of the table.\<close>

definition lock_ok :: "filesem list \<Rightarrow> bool" where
  "lock_ok Files \<longleftrightarrow> length Files = FF_FS_LOCK
     \<and> (\<forall>i < FF_FS_LOCK. sem_fs (Files ! i) \<noteq> 0 \<longrightarrow> 1 \<le> unat (ctr (Files ! i)) \<and> unat (ctr (Files ! i)) \<le> 256)
     \<and> (\<forall>i < FF_FS_LOCK. \<forall>j < FF_FS_LOCK. sem_fs (Files ! i) \<noteq> 0 \<longrightarrow> entry_key (Files ! i) = entry_key (Files ! j) \<longrightarrow> i = j)"

lemma entry_share_open [simp]: "entry_share e \<noteq> Closed" "Closed \<noteq> entry_share e"
  by (auto simp: entry_share_def)

lemma lock_okD:
  assumes "lock_ok Files"
  shows "length Files = FF_FS_LOCK"
    and "i < FF_FS_LOCK \<Longrightarrow> sem_fs (Files ! i) \<noteq> 0 \<Longrightarrow>
         1 \<le> unat (ctr (Files ! i)) \<and> unat (ctr (Files ! i)) \<le> 256"
    and "i < FF_FS_LOCK \<Longrightarrow> j < FF_FS_LOCK \<Longrightarrow> sem_fs (Files ! i) \<noteq> 0 \<Longrightarrow>
         entry_key (Files ! i) = entry_key (Files ! j) \<Longrightarrow> i = j"
  using assms by (auto simp: lock_ok_def)

lemma entry_key_fs: "entry_key e = entry_key f \<Longrightarrow> sem_fs e = sem_fs f"
  by (simp add: entry_key_def)

lemma shares_used:
  assumes "lock_ok Files" and "i < FF_FS_LOCK" and "sem_fs (Files ! i) \<noteq> 0"
    and "entry_key (Files ! i) = k"
  shows "shares Files k = entry_share (Files ! i)"
proof -
  have "Files ! i \<in> set Files" using lock_okD(1) [OF assms(1)] assms(2) by simp
  then obtain e where "List.find (\<lambda>e. sem_fs e \<noteq> 0 \<and> entry_key e = k) Files = Some e"
    using assms(3,4)
    by (cases "List.find (\<lambda>e. sem_fs e \<noteq> 0 \<and> entry_key e = k) Files") (auto simp: find_None_iff)
  moreover from this obtain j where "j < FF_FS_LOCK" "Files ! j = e" "entry_key e = k"
    using lock_okD(1) [OF assms(1)] by (auto simp: find_Some_iff)
  ultimately show ?thesis
    using lock_okD(3) [OF assms(1) assms(2), of j] assms(3,4) by (auto simp: shares_def)
qed

lemma shares_unused:
  assumes "length Files = FF_FS_LOCK"
    and "\<And>i. i < FF_FS_LOCK \<Longrightarrow> sem_fs (Files ! i) \<noteq> 0 \<Longrightarrow> entry_key (Files ! i) \<noteq> k"
  shows "shares Files k = Closed"
proof -
  have "List.find (\<lambda>e. sem_fs e \<noteq> 0 \<and> entry_key e = k) Files = None"
    using assms by (auto simp: find_None_iff in_set_conv_nth)
  then show ?thesis by (simp add: shares_def)
qed

lemma shares_update_used:
  assumes ok: "lock_ok Files" and i: "i < FF_FS_LOCK" and e: "sem_fs e \<noteq> 0" "1 \<le> unat (ctr e)" "unat (ctr e) \<le> 256"
    and fresh: "\<And>j. j < FF_FS_LOCK \<Longrightarrow> j \<noteq> i \<Longrightarrow> sem_fs (Files ! j) \<noteq> 0 \<Longrightarrow> entry_key (Files ! j) \<noteq> entry_key e"
    and old: "sem_fs (Files ! i) = 0 \<or> entry_key (Files ! i) = entry_key e"
  shows "lock_ok (Files[i := e])" and "shares (Files[i := e]) = (shares Files)(entry_key e := entry_share e)"
proof -
  show ok': "lock_ok (Files[i := e])"
    unfolding lock_ok_def
  proof (intro conjI allI impI)
    fix j l assume "j < FF_FS_LOCK" "l < FF_FS_LOCK" "sem_fs (Files[i := e] ! j) \<noteq> 0"
      "entry_key (Files[i := e] ! j) = entry_key (Files[i := e] ! l)"
    then show "j = l"
      using lock_okD(1) [OF ok] lock_okD(3) [OF ok, of j l] fresh [of j] fresh [of l] i e(1)
        entry_key_fs [of e "Files ! l"]
      by (cases "j = i"; cases "l = i") auto
  qed (use lock_okD(1,2) [OF ok] i e in \<open>auto simp: nth_list_update\<close>)
  show "shares (Files[i := e]) = (shares Files)(entry_key e := entry_share e)"
  proof
    fix k
    show "shares (Files[i := e]) k = ((shares Files)(entry_key e := entry_share e)) k"
    proof (cases "k = entry_key e")
      case True
      then show ?thesis using shares_used [OF ok' i, of k] lock_okD(1) [OF ok] i e(1) by simp
    next
      case False
      show ?thesis
      proof (cases "\<exists>j < FF_FS_LOCK. sem_fs (Files ! j) \<noteq> 0 \<and> entry_key (Files ! j) = k")
        case True
        then obtain j where j: "j < FF_FS_LOCK" "sem_fs (Files ! j) \<noteq> 0" "entry_key (Files ! j) = k" by blast
        then have "j \<noteq> i" using old \<open>k \<noteq> entry_key e\<close> by auto
        then show ?thesis
          using shares_used [OF ok j] shares_used [OF ok' j(1), of k] j \<open>k \<noteq> entry_key e\<close> by simp
      next
        case False
        have "shares (Files[i := e]) k = Closed"
        proof (intro shares_unused)
          fix j assume "j < FF_FS_LOCK" "sem_fs (Files[i := e] ! j) \<noteq> 0"
          then show "entry_key (Files[i := e] ! j) \<noteq> k"
            using False \<open>k \<noteq> entry_key e\<close> i lock_okD(1) [OF ok] by (cases "j = i") auto
        qed (simp add: lock_okD(1) [OF ok])
        moreover have "shares Files k = Closed"
          using False lock_okD(1) [OF ok] by (intro shares_unused) auto
        ultimately show ?thesis using \<open>k \<noteq> entry_key e\<close> by simp
      qed
    qed
  qed
qed

lemma shares_update_blank:
  assumes ok: "lock_ok Files" and i: "i < FF_FS_LOCK" and used: "sem_fs (Files ! i) \<noteq> 0" and e: "sem_fs e = 0"
  shows "lock_ok (Files[i := e])" and "shares (Files[i := e]) = (shares Files)(entry_key (Files ! i) := Closed)"
proof -
  show ok': "lock_ok (Files[i := e])"
    unfolding lock_ok_def
  proof (intro conjI allI impI)
    fix j l assume "j < FF_FS_LOCK" "l < FF_FS_LOCK" "sem_fs (Files[i := e] ! j) \<noteq> 0"
      "entry_key (Files[i := e] ! j) = entry_key (Files[i := e] ! l)"
    then show "j = l"
      using lock_okD(1) [OF ok] lock_okD(3) [OF ok, of j l] i e entry_key_fs [of "Files ! j" e]
      by (cases "j = i"; cases "l = i") auto
  qed (use lock_okD(1,2) [OF ok] i e in \<open>auto simp: nth_list_update\<close>)
  show "shares (Files[i := e]) = (shares Files)(entry_key (Files ! i) := Closed)"
  proof
    fix k
    show "shares (Files[i := e]) k = ((shares Files)(entry_key (Files ! i) := Closed)) k"
    proof (cases "\<exists>j < FF_FS_LOCK. j \<noteq> i \<and> sem_fs (Files ! j) \<noteq> 0 \<and> entry_key (Files ! j) = k")
      case True
      then obtain j where j: "j < FF_FS_LOCK" "sem_fs (Files ! j) \<noteq> 0" "entry_key (Files ! j) = k" "j \<noteq> i" by blast
      then have "k \<noteq> entry_key (Files ! i)" using lock_okD(3) [OF ok i j(1) used] by auto
      then show ?thesis
        using shares_used [OF ok j(1-3)] shares_used [OF ok' j(1), of k] j by simp
    next
      case False
      then have "shares (Files[i := e]) k = Closed"
      proof (intro shares_unused)
        fix j assume "j < FF_FS_LOCK" "sem_fs (Files[i := e] ! j) \<noteq> 0"
        then show "entry_key (Files[i := e] ! j) \<noteq> k"
          using False e i lock_okD(1) [OF ok] by (cases "j = i") auto
      qed (simp add: lock_okD(1) [OF ok])
      moreover have "shares Files k = Closed" if "k \<noteq> entry_key (Files ! i)"
        using False that lock_okD(1) [OF ok] by (intro shares_unused) auto
      ultimately show ?thesis by simp
    qed
  qed
qed

section \<open>The loops\<close>

lemma stop_index_cases:
  assumes "length Files = FF_FS_LOCK"
  obtains "stop_index P Files = FF_FS_LOCK" and "\<And>j. j < FF_FS_LOCK \<Longrightarrow> \<not> P (Files ! j)"
    | "stop_index P Files < FF_FS_LOCK" and "P (Files ! stop_index P Files)"
      and "\<And>j. j < stop_index P Files \<Longrightarrow> \<not> P (Files ! j)"
proof (cases "\<exists>e \<in> set Files. P e")
  case True
  then have "stop_index P Files < length Files"
    unfolding stop_index_def by (induction Files) auto
  moreover from this have "P (Files ! stop_index P Files)"
    using nth_length_takeWhile [of "\<lambda>e. \<not> P e" Files] by (simp add: stop_index_def)
  moreover have "\<not> P (Files ! j)" if "j < stop_index P Files" for j
    using that takeWhile_nth [of j "\<lambda>e. \<not> P e" Files] nth_mem [of j "takeWhile (\<lambda>e. \<not> P e) Files"]
    by (auto simp: stop_index_def dest: set_takeWhileD)
  ultimately show thesis using that(2) assms by simp
next
  case False
  then have "stop_index P Files = FF_FS_LOCK"
    using assms by (simp add: stop_index_def takeWhile_eq_all_conv [THEN iffD2])
  then show thesis using that(1) False assms by simp
qed

lemma chk_scan_eq:
  "chk_scan dp Files i be =
     (let j = stop_index (\<lambda>e. sem_fs e \<noteq> 0 \<and> same_object e dp) Files in
      (i + j, be \<or> (\<exists>k < j. sem_fs (Files ! k) = 0)))"
proof (induction Files arbitrary: i be)
  case (Cons e es)
  show ?case
    by (auto simp: Cons stop_index_def Let_def less_Suc_eq_0_disj)
qed (simp add: stop_index_def)

lemma same_object_iff: "same_object e dp \<longleftrightarrow> entry_key e = dir_key dp"
  by (auto simp: same_object_def entry_key_def dir_key_def)

lemma open_keys:
  assumes "lock_ok Files"
  shows "{k. shares Files k \<noteq> Closed} = (\<lambda>i. entry_key (Files ! i)) ` {i. i < FF_FS_LOCK \<and> sem_fs (Files ! i) \<noteq> 0}"
proof (intro equalityI subsetI)
  fix k assume "k \<in> {k. shares Files k \<noteq> Closed}"
  then show "k \<in> (\<lambda>i. entry_key (Files ! i)) ` {i. i < FF_FS_LOCK \<and> sem_fs (Files ! i) \<noteq> 0}"
    using shares_unused [OF lock_okD(1) [OF assms], of k] by blast
next
  fix k assume "k \<in> (\<lambda>i. entry_key (Files ! i)) ` {i. i < FF_FS_LOCK \<and> sem_fs (Files ! i) \<noteq> 0}"
  then obtain i where "i < FF_FS_LOCK" "sem_fs (Files ! i) \<noteq> 0" "entry_key (Files ! i) = k" by blast
  then show "k \<in> {k. shares Files k \<noteq> Closed}" using shares_used [OF assms] by simp
qed

lemma table_full:
  assumes "lock_ok Files"
  shows "card {k. shares Files k \<noteq> Closed} = FF_FS_LOCK \<longleftrightarrow> (\<forall>i < FF_FS_LOCK. sem_fs (Files ! i) \<noteq> 0)"
proof -
  let ?used = "{i. i < FF_FS_LOCK \<and> sem_fs (Files ! i) \<noteq> 0}"
  have "inj_on (\<lambda>i. entry_key (Files ! i)) ?used"
    using lock_okD(3) [OF assms] by (auto intro!: inj_onI)
  then have card: "card {k. shares Files k \<noteq> Closed} = card ?used"
    unfolding open_keys [OF assms] by (rule card_image)
  have "card ?used = card {..<FF_FS_LOCK} \<longleftrightarrow> ?used = {..<FF_FS_LOCK}"
    using card_subset_eq [OF finite_lessThan, of ?used FF_FS_LOCK] by fastforce
  also have "\<dots> \<longleftrightarrow> (\<forall>i < FF_FS_LOCK. sem_fs (Files ! i) \<noteq> 0)" by blast
  finally show ?thesis unfolding card by simp
qed

lemma find_object:
  assumes ok: "lock_ok Files" and dp: "obj_fs (dp_obj dp) \<noteq> 0"
    and P: "\<And>e. P e \<longleftrightarrow> entry_key e = dir_key dp"
  obtains (closed) "stop_index P Files = FF_FS_LOCK" and "shares Files (dir_key dp) = Closed"
    | (found) i where "stop_index P Files = i" and "i < FF_FS_LOCK" and "entry_key (Files ! i) = dir_key dp"
      and "sem_fs (Files ! i) \<noteq> 0" and "shares Files (dir_key dp) = entry_share (Files ! i)"
  using lock_okD(1) [OF ok]
proof (cases rule: stop_index_cases [where P = P])
  case 1
  then show thesis using closed shares_unused [OF lock_okD(1) [OF ok]] P by metis
next
  case 2
  then have "entry_key (Files ! stop_index P Files) = dir_key dp" using P by simp
  moreover from this have "sem_fs (Files ! stop_index P Files) \<noteq> 0"
    using dp by (simp add: entry_key_def dir_key_def)
  ultimately show thesis using found 2(1) shares_used [OF ok 2(1)] by blast
qed

lemma used_same_object:
  "obj_fs (dp_obj dp) \<noteq> 0 \<Longrightarrow> (sem_fs e \<noteq> 0 \<and> same_object e dp) = (entry_key e = dir_key dp)"
  by (auto simp: same_object_iff entry_key_def dir_key_def)

lemma chk_lock_spec:
  assumes ok: "lock_ok Files" and dp: "obj_fs (dp_obj dp) \<noteq> 0"
  shows "chk_lock Files dp acc = may_open (shares Files) (dir_key dp) acc"
proof (cases rule: find_object [OF ok dp used_same_object [OF dp], case_names closed found])
  case closed
  then show ?thesis
    using table_full [OF ok] by (auto simp: chk_lock_def chk_scan_eq Let_def may_open_def)
next
  case (found i)
  then show ?thesis
    by (auto simp: chk_lock_def chk_scan_eq Let_def may_open_def entry_share_def)
qed

lemma share_of_count:
  assumes "unat (c :: u16) \<le> 256"
  shows "c = 0x100 \<longleftrightarrow> unat c = 256" and "unat (c + 1) = unat c + 1"
  using assms by (auto simp: unat_word_ariths word_unat_eq_iff)

lemma inc_lock_spec:
  assumes ok: "lock_ok Files" and dp: "obj_fs (dp_obj dp) \<noteq> 0" and acc: "acc \<in> {0, 1}"
    and chk: "chk_lock Files dp acc = FR_OK"
  obtains i e where "inc_lock Files dp acc = (of_nat (i + 1), Files[i := e])" and "i < FF_FS_LOCK"
    and "lock_ok (Files[i := e])" and "entry_key e = dir_key dp" and "sem_fs e \<noteq> 0"
    and "shares (Files[i := e]) = (shares Files)(dir_key dp := opened acc (shares Files (dir_key dp)))"
proof (cases rule: find_object [OF ok dp same_object_iff, case_names closed found])
  case closed
  then have free: "\<not> (\<forall>i < FF_FS_LOCK. sem_fs (Files ! i) \<noteq> 0)"
    using chk acc unfolding chk_lock_spec [OF ok dp] may_open_def table_full [OF ok] by (auto split: if_splits)
  obtain i where i: "stop_index (\<lambda>e. sem_fs e = 0) Files = i" "i < FF_FS_LOCK" "sem_fs (Files ! i) = 0"
  proof (cases rule: stop_index_cases [OF lock_okD(1) [OF ok], of "\<lambda>e. sem_fs e = 0", case_names full blank])
    case full
    then show thesis using free by auto
  next
    case blank
    then show thesis by (intro that [OF refl])
  qed
  define e where "e = \<lparr>sem_fs = obj_fs (dp_obj dp), sem_clu = sclust (dp_obj dp), sem_ofs = dptr dp,
                        ctr = if acc \<noteq> 0 then 0x100 else 1\<rparr>"
  have key: "entry_key e = dir_key dp" by (simp add: e_def entry_key_def dir_key_def)
  have fresh: "sem_fs (Files ! j) \<noteq> 0 \<Longrightarrow> entry_key (Files ! j) \<noteq> entry_key e" if "j < FF_FS_LOCK" for j
    using closed(2) shares_used [OF ok that] key by auto
  have "sem_fs e \<noteq> 0" "1 \<le> unat (ctr e)" "unat (ctr e) \<le> 256" using dp by (simp_all add: e_def)
  note upd = shares_update_used [OF ok i(2) this fresh disjI1 [OF i(3)]]
  have "opened acc Closed = entry_share e" by (simp add: e_def entry_share_def opened_def)
  moreover have "inc_lock Files dp acc = (of_nat (i + 1), Files[i := e])"
    using closed(1) i lock_okD(1) [OF ok] by (simp add: inc_lock_def Let_def e_def)
  ultimately show thesis using that i(2) upd key closed(2) \<open>sem_fs e \<noteq> 0\<close> by simp
next
  case (found i)
  then have "acc = 0" and "ctr (Files ! i) \<noteq> 0x100"
    using chk acc unfolding chk_lock_spec [OF ok dp] may_open_def
    by (auto simp: entry_share_def split: if_splits)
  define e where "e = (Files ! i)\<lparr>ctr := ctr (Files ! i) + 1\<rparr>"
  have n: "1 \<le> unat (ctr (Files ! i))" "unat (ctr (Files ! i)) \<le> 256" 
    using lock_okD(2) [OF ok found(2,4)] by auto
  then have "unat (ctr (Files ! i)) \<noteq> 256"
    using share_of_count(1) [of "ctr (Files ! i)"] \<open>ctr (Files ! i) \<noteq> 0x100\<close> by simp
  then have ctr: "unat (ctr e) = unat (ctr (Files ! i)) + 1" "unat (ctr e) \<le> 256"
    using n share_of_count(2) [of "ctr (Files ! i)"] by (simp_all add: e_def)
  have key: "entry_key e = entry_key (Files ! i)" by (simp add: e_def entry_key_def)
  have fresh: "sem_fs (Files ! j) \<noteq> 0 \<Longrightarrow> entry_key (Files ! j) \<noteq> entry_key e" if "j < FF_FS_LOCK" "j \<noteq> i" for j
    using lock_okD(3) [OF ok that(1) found(2)] key that(2) by auto
  have "sem_fs e \<noteq> 0" "1 \<le> unat (ctr e)" using found(4) ctr by (simp_all add: e_def)
  note upd = shares_update_used [OF ok found(2) this ctr(2) fresh disjI2 [OF key [symmetric]]]
  have "opened acc (shares Files (dir_key dp)) = entry_share e"
    using ctr n share_of_count(1) [of "ctr e"] \<open>ctr (Files ! i) \<noteq> 0x100\<close> \<open>acc = 0\<close>
    by (auto simp: found(5) entry_share_def opened_def)
  moreover have "inc_lock Files dp acc = (of_nat (i + 1), Files[i := e])"
    using found(1,2) \<open>acc = 0\<close> by (simp add: inc_lock_def Let_def e_def)
  ultimately show thesis
    using that found(2,3) upd key \<open>sem_fs e \<noteq> 0\<close> by simp
qed

lemma dec_lock_spec:
  assumes ok: "lock_ok Files" and i: "i < FF_FS_LOCK" and used: "sem_fs (Files ! i) \<noteq> 0"
  obtains Files' where "dec_lock (of_nat (i + 1)) Files = (FR_OK, Files')" and "lock_ok Files'"
    and "shares Files' = (shares Files)(entry_key (Files ! i) := closed (entry_share (Files ! i)))"
proof -
  have n: "1 \<le> unat (ctr (Files ! i))" "unat (ctr (Files ! i)) \<le> 256" 
    using lock_okD(2) [OF ok i used] by auto
  have index: "unat (of_nat (i + 1) - 1 :: u32) = i"
    using i by (simp add: FF_FS_LOCK_def unat_of_nat take_bit_nat_eq_self)
  show thesis
  proof (cases "ctr (Files ! i) = 0x100 \<or> ctr (Files ! i) = 1")
    case True
    define e where "e = (Files ! i)\<lparr>ctr := 0, sem_fs := 0\<rparr>"
    have "dec_lock (of_nat (i + 1)) Files = (FR_OK, Files[i := e])"
      unfolding dec_lock_def Let_def index using True i by (auto simp: e_def)
    moreover have "closed (entry_share (Files ! i)) = Closed"
      using True by (auto simp: closed_def entry_share_def)
    ultimately show thesis
      using that shares_update_blank [OF ok i used, of e] by (simp add: e_def)
  next
    case False
    define e where "e = (Files ! i)\<lparr>ctr := ctr (Files ! i) - 1\<rparr>"
    have "unat (ctr (Files ! i)) \<noteq> 256" "unat (ctr (Files ! i)) \<noteq> 1"
      using False share_of_count(1) [OF n(2)] by (auto simp: word_unat_eq_iff)
    moreover have "ctr (Files ! i) \<noteq> 0" using n(1) by auto
    ultimately have ctr: "unat (ctr e) = unat (ctr (Files ! i)) - 1" "1 \<le> unat (ctr e)" "unat (ctr e) < 256"
      using n by (simp_all add: e_def unat_minus_one)
    then have "ctr e \<noteq> 0" "ctr e \<noteq> 0x100" by auto
    have key: "entry_key e = entry_key (Files ! i)" by (simp add: e_def entry_key_def)
    have fresh: "sem_fs (Files ! j) \<noteq> 0 \<Longrightarrow> entry_key (Files ! j) \<noteq> entry_key e" if "j < FF_FS_LOCK" "j \<noteq> i" for j
      using lock_okD(3) [OF ok that(1) i] key that(2) by auto
    have "dec_lock (of_nat (i + 1)) Files = (FR_OK, Files[i := e])"
      unfolding dec_lock_def Let_def index
      using False i \<open>ctr e \<noteq> 0\<close> \<open>ctr (Files ! i) \<noteq> 0\<close> by (simp add: e_def word_gt_0)
    moreover have "closed (entry_share (Files ! i)) = entry_share e"
      using False ctr n \<open>ctr e \<noteq> 0x100\<close> by (auto simp: closed_def entry_share_def)
    moreover have "sem_fs e \<noteq> 0" "unat (ctr e) \<le> 256" using used ctr by (simp_all add: e_def)
    ultimately show thesis
      using that shares_update_used [OF ok i _ ctr(2) _ fresh disjI2 [OF key [symmetric]]] key by simp
  qed
qed

lemma enq_lock_spec:
  assumes "lock_ok Files"
  shows "enq_lock Files = (if card {k. shares Files k \<noteq> Closed} = FF_FS_LOCK then 0 else 1)"
  unfolding table_full [OF assms] enq_lock_def
  by (rule stop_index_cases [OF lock_okD(1) [OF assms], of "\<lambda>e. sem_fs e = 0"]) auto

lemma clear_lock_spec:
  assumes ok: "lock_ok Files" and "fs \<noteq> 0"
  shows "lock_ok (clear_lock fs Files)"
    and "shares (clear_lock fs Files) = (\<lambda>k. if fst k = fs then Closed else shares Files k)"
proof -
  have len: "length (clear_lock fs Files) = FF_FS_LOCK"
    using lock_okD(1) [OF ok] by (simp add: clear_lock_def)
  have nth: "clear_lock fs Files ! i = (if sem_fs (Files ! i) = fs then (Files ! i)\<lparr>sem_fs := 0\<rparr> else Files ! i)"
    if "i < FF_FS_LOCK" for i
    using that lock_okD(1) [OF ok] by (simp add: clear_lock_def)
  have kept: "sem_fs (clear_lock fs Files ! i) \<noteq> 0 \<longleftrightarrow> sem_fs (Files ! i) \<noteq> 0 \<and> sem_fs (Files ! i) \<noteq> fs"
    if "i < FF_FS_LOCK" for i
    using nth [OF that] assms(2) by auto
  show ok': "lock_ok (clear_lock fs Files)"
    unfolding lock_ok_def
  proof (intro conjI allI impI)
    fix i j assume *: "i < FF_FS_LOCK" "j < FF_FS_LOCK" "sem_fs (clear_lock fs Files ! i) \<noteq> 0"
      "entry_key (clear_lock fs Files ! i) = entry_key (clear_lock fs Files ! j)"
    then show "i = j"
      using lock_okD(3) [OF ok *(1,2)] kept [OF *(1)] nth entry_key_fs [OF *(4)]
      by (auto simp: entry_key_def split: if_splits)
  qed (use len lock_okD(2) [OF ok] nth kept in \<open>auto split: if_splits\<close>)
  show "shares (clear_lock fs Files) = (\<lambda>k. if fst k = fs then Closed else shares Files k)"
  proof
    fix k
    show "shares (clear_lock fs Files) k = (if fst k = fs then Closed else shares Files k)"
    proof (cases "\<exists>i < FF_FS_LOCK. sem_fs (Files ! i) \<noteq> 0 \<and> entry_key (Files ! i) = k \<and> fst k \<noteq> fs")
      case True
      then obtain i where i: "i < FF_FS_LOCK" "sem_fs (Files ! i) \<noteq> 0" "entry_key (Files ! i) = k" "fst k \<noteq> fs"
        by blast
      then have "sem_fs (Files ! i) \<noteq> fs" by (auto simp: entry_key_def)
      then show ?thesis
        using i nth [OF i(1)] shares_used [OF ok i(1-3)] shares_used [OF ok' i(1), of k] by simp
    next
      case False
      have "shares (clear_lock fs Files) k = Closed"
      proof (rule shares_unused [OF len])
        fix i assume i: "i < FF_FS_LOCK" "sem_fs (clear_lock fs Files ! i) \<noteq> 0"
        then show "entry_key (clear_lock fs Files ! i) \<noteq> k"
          using False kept [OF i(1)] nth [OF i(1)] by (auto simp: entry_key_def)
      qed
      moreover have "shares Files k = Closed" if "fst k \<noteq> fs"
        using False that by (intro shares_unused [OF lock_okD(1) [OF ok]]) auto
      ultimately show ?thesis by simp
    qed
  qed
qed

text \<open>
  C37. The table implements the sharing of files: from a well-formed table an object may be opened
  exactly when nobody writes it, and for writing, deleting or renaming when nobody has it open, and
  when the table has room; opening and closing change the share of that object alone, and unmounting
  a volume closes its objects. The count is one short: the 256th reader makes the object look
  written, and the first of them to close it frees it.
\<close>

theorem lock_table_refines_sharing:
  assumes "lock_ok Files" and "obj_fs (dp_obj dp) \<noteq> 0" and "acc \<in> {0, 1}"
    and "chk_lock Files dp acc = FR_OK"
  defines "k \<equiv> dir_key dp"
  shows "(\<forall>a. chk_lock Files dp a = may_open (shares Files) k a)
       \<and> enq_lock Files = (if card {k. shares Files k \<noteq> Closed} = 16 then 0 else 1)
       \<and> (\<exists>i Files' Files''. inc_lock Files dp acc = (i, Files') \<and> 1 \<le> i \<and> i \<le> 16 \<and> lock_ok Files'
             \<and> shares Files' = (shares Files)(k := opened acc (shares Files k))
             \<and> dec_lock i Files' = (FR_OK, Files'') \<and> lock_ok Files''
             \<and> shares Files'' = (shares Files)(k := closed (opened acc (shares Files k))))
       \<and> lock_ok (clear_lock (fst k) Files)
       \<and> shares (clear_lock (fst k) Files) = (\<lambda>l. if fst l = fst k then Closed else shares Files l)
       \<and> opened 0 (Readers 255) = Writer \<and> closed (opened 0 (Readers 255)) = Closed"
proof -
  obtain i e where i: "inc_lock Files dp acc = (of_nat (i + 1), Files[i := e])" "i < FF_FS_LOCK"
    and ok: "lock_ok (Files[i := e])" and e: "entry_key e = k" "sem_fs e \<noteq> 0"
    and inc: "shares (Files[i := e]) = (shares Files)(k := opened acc (shares Files k))"
    using inc_lock_spec [OF assms(1-4)] unfolding k_def by metis
  have nth: "Files[i := e] ! i = e" using i(2) lock_okD(1) [OF assms(1)] by simp
  have "entry_share e = opened acc (shares Files k)"
    using shares_used [OF ok i(2)] nth e inc by simp
  moreover obtain Files'' where "dec_lock (of_nat (i + 1)) (Files[i := e]) = (FR_OK, Files'')" "lock_ok Files''"
    and "shares Files'' = (shares (Files[i := e]))(k := closed (entry_share e))"
    using dec_lock_spec [OF ok i(2)] nth e by metis
  moreover have "1 \<le> (of_nat (i + 1) :: u32)" and "(of_nat (i + 1) :: u32) \<le> 16"
    using i(2) by (simp_all add: FF_FS_LOCK_def word_le_nat_alt unat_of_nat take_bit_nat_eq_self del: of_nat_Suc of_nat_add)
  moreover have "fst k \<noteq> 0" using assms(2) by (simp add: k_def dir_key_def)
  ultimately show ?thesis
    using chk_lock_spec [OF assms(1,2)] enq_lock_spec [OF assms(1)] clear_lock_spec [OF assms(1)] i(1) ok inc
    by (fastforce simp: k_def FF_FS_LOCK_def opened_def closed_def)
qed

definition demo_dir :: dir_object where
  "demo_dir = \<lparr>dp_obj = \<lparr>obj_fs = 7, obj_id = 1, obj_attr = 0, stat = 0, sclust = 2, objsize = 0, n_cont = 0,
     n_frag = 0, c_scl = 0, c_size = 0, c_ofs = 0, lockid = 0\<rparr>,
     dptr = 64, dp_clust = 2, dp_sect = 0, dp_dir = 0, fn = [], blk_ofs = 0\<rparr>"

lemma lock_table_refines_sharing_witness:
  "chk_lock (replicate 16 \<lparr>sem_fs = 0, sem_clu = 0, sem_ofs = 0, ctr = 0\<rparr>) demo_dir 2 = FR_OK"
proof -
  let ?F = "replicate 16 \<lparr>sem_fs = 0, sem_clu = 0, sem_ofs = 0, ctr = 0\<rparr>"
  have ok: "lock_ok ?F" by (simp add: lock_ok_def FF_FS_LOCK_def)
  have fs: "obj_fs (dp_obj demo_dir) \<noteq> 0" by (simp add: demo_dir_def)
  have "chk_lock ?F demo_dir 1 = FR_OK"
    by (simp add: chk_lock_def FF_FS_LOCK_def numeral_eq_Suc)
  from lock_table_refines_sharing [OF ok fs _ this]
  have "chk_lock ?F demo_dir 2 = may_open (shares ?F) (dir_key demo_dir) 2" by simp
  moreover have "shares ?F (dir_key demo_dir) = Closed"
    by (rule shares_unused) (simp_all add: FF_FS_LOCK_def)
  ultimately show ?thesis by (simp add: may_open_def)
qed

end
