(* ===== verification/Ff_Window.thy ===== *)
theory Ff_Window
  imports Ff_Objects Disk_Glue
begin

text \<open>
  The window of a volume: one sector of the disk in memory, \<open>sync_window\<close>, \<open>move_window\<close> and
  \<open>sync_fs\<close> of \<open>ff.c\<close>, and the place of a cluster on the disk. What the library calls below itself is a record:
  the disk, of which the calls of \<open>Disk_Glue\<close> are an instance, the heap and the clock.

  The lemmas show that moving the window does not change what the volume holds: the window stands
  for its sector, the disk for all others.
\<close>

section \<open>The disk below\<close>

record 'd disk_io =
  dread :: "u8 \<Rightarrow> u64 \<Rightarrow> u32 \<Rightarrow> 'd \<Rightarrow> ((dresult \<times> u8 list) \<times> 'd) option"
  dwrite :: "u8 \<Rightarrow> u8 list \<Rightarrow> u64 \<Rightarrow> u32 \<Rightarrow> 'd \<Rightarrow> (dresult \<times> 'd) option"
  dioctl :: "u8 \<Rightarrow> nat \<Rightarrow> 'd \<Rightarrow> ((dresult \<times> u64 option) \<times> 'd) option"
  dstatus :: "u8 \<Rightarrow> 'd \<Rightarrow> (u8 \<times> 'd) option"
  dinit :: "u8 \<Rightarrow> 'd \<Rightarrow> (u8 \<times> 'd) option"
  memalloc :: "u32 \<Rightarrow> 'd \<Rightarrow> bool"
  heapdata :: "'d \<Rightarrow> nat \<Rightarrow> u8"
  fattime :: "'d \<Rightarrow> u32"

text \<open>
  The disk of the firmware, with the flag of its driver; whether the heap gives a block of a size, what
  a fresh block holds and the time are arguments.
\<close>

definition glue_io ::
  "'c hw \<Rightarrow> bool \<Rightarrow> (u32 \<Rightarrow> 'c sd_card list \<Rightarrow> bool) \<Rightarrow> ('c sd_card list \<Rightarrow> nat \<Rightarrow> u8) \<Rightarrow> ('c sd_card list \<Rightarrow> u32)
     \<Rightarrow> 'c sd_card list disk_io" where
  "glue_io hw driver_initialized heap junk time = \<lparr>dread = \<lambda>pdrv. disk_read hw (unat pdrv), dwrite = \<lambda>pdrv. disk_write hw (unat pdrv),
                 dioctl = \<lambda>pdrv. disk_ioctl hw (unat pdrv),
                 dstatus = \<lambda>pdrv. disk_status hw driver_initialized (unat pdrv),
                 dinit = \<lambda>pdrv. disk_initialize hw driver_initialized (unat pdrv),
                 memalloc = heap, heapdata = junk, fattime = time\<rparr>"

section \<open>The window\<close>

definition sync_window :: "'d disk_io \<Rightarrow> fatfs \<Rightarrow> 'd \<Rightarrow> (fresult \<times> fatfs \<times> 'd) option" where
  "sync_window io fs d =
     (if wflag fs \<noteq> 0 then do {
        (r, d) \<leftarrow> dwrite io (pdrv fs) (win fs) (winsect fs) 1 d;
        if r = RES_OK then
          let fs = fs\<lparr>wflag := 0\<rparr> in
          if winsect fs - fatbase fs < ucast (fsize fs) \<and> n_fats fs = 2 then do {
            (r, d) \<leftarrow> dwrite io (pdrv fs) (win fs) (winsect fs + ucast (fsize fs)) 1 d;
            Some (FR_OK, fs, d) }
          else Some (FR_OK, fs, d)
        else Some (FR_DISK_ERR, fs, d) }
      else Some (FR_OK, fs, d))"

definition no_sector :: u64 where "no_sector = 0 - 1"

definition move_window :: "'d disk_io \<Rightarrow> u64 \<Rightarrow> fatfs \<Rightarrow> 'd \<Rightarrow> (fresult \<times> fatfs \<times> 'd) option" where
  "move_window io sect fs d =
     (if sect \<noteq> winsect fs then do {
        (res, fs, d) \<leftarrow> sync_window io fs d;
        if res = FR_OK then do {
          ((r, data), d) \<leftarrow> dread io (pdrv fs) sect 1 d;
          w \<leftarrow> memcpy (win fs) 0 data;
          if r \<noteq> RES_OK then Some (FR_DISK_ERR, fs\<lparr>win := w, winsect := no_sector\<rparr>, d)
          else Some (FR_OK, fs\<lparr>win := w, winsect := sect\<rparr>, d) }
        else Some (res, fs, d) }
      else Some (FR_OK, fs, d))"

definition BS_55AA :: nat where "BS_55AA = 510"
definition FSI_LeadSig :: nat where "FSI_LeadSig = 0"
definition FSI_StrucSig :: nat where "FSI_StrucSig = 484"
definition FSI_Free_Count :: nat where "FSI_Free_Count = 488"
definition FSI_Nxt_Free :: nat where "FSI_Nxt_Free = 492"

definition fsinfo_sector :: "fatfs \<Rightarrow> u8 list option" where
  "fsinfo_sector fs = do {
     w \<leftarrow> mem_set (win fs) 0 0 512;
     w \<leftarrow> st_word w BS_55AA 0xAA55;
     w \<leftarrow> st_dword w FSI_LeadSig 0x41615252;
     w \<leftarrow> st_dword w FSI_StrucSig 0x61417272;
     w \<leftarrow> st_dword w FSI_Free_Count (free_clst fs);
     st_dword w FSI_Nxt_Free (last_clst fs) }"

definition sync_fs :: "'d disk_io \<Rightarrow> fatfs \<Rightarrow> 'd \<Rightarrow> (fresult \<times> fatfs \<times> 'd) option" where
  "sync_fs io fs d = do {
     (res, fs, d) \<leftarrow> sync_window io fs d;
     if res = FR_OK then do {
       (fs, d) \<leftarrow> (if fs_type fs = FS_FAT32 \<and> fsi_flag fs = 1 then do {
           w \<leftarrow> fsinfo_sector fs;
           let fs = fs\<lparr>win := w, winsect := volbase fs + 1\<rparr>;
           (r, d) \<leftarrow> dwrite io (pdrv fs) (win fs) (winsect fs) 1 d;
           Some (fs\<lparr>fsi_flag := 0\<rparr>, d) }
         else Some (fs, d));
       ((r, x), d) \<leftarrow> dioctl io (pdrv fs) CTRL_SYNC d;
       Some (if r \<noteq> RES_OK then FR_DISK_ERR else FR_OK, fs, d) }
     else Some (res, fs, d) }"

text \<open>The first sector of a cluster, zero for none.\<close>

definition clst2sect :: "fatfs \<Rightarrow> u32 \<Rightarrow> u64" where
  "clst2sect fs clst =
     (let clst = clst - 2 in
      if n_fatent fs - 2 \<le> clst then 0 else database fs + ucast (csize fs) * ucast clst)"

section \<open>What a volume holds\<close>

text \<open>
  A disk that keeps its sectors: \<open>cont d s\<close> is what sector \<open>s\<close> holds. A read that fails may store
  anything in the buffer, and a write that fails may leave anything in its own sector.
\<close>

definition reads_kept :: "'d disk_io \<Rightarrow> u8 \<Rightarrow> ('d \<Rightarrow> u64 \<Rightarrow> u8 list) \<Rightarrow> bool" where
  "reads_kept io p cont \<longleftrightarrow> (\<forall>s d r data d'. dread io p s 1 d = Some ((r, data), d') \<longrightarrow>
     cont d' = cont d \<and> length data \<le> 512 \<and> (r = RES_OK \<longrightarrow> data = cont d s))"

definition writes_kept :: "'d disk_io \<Rightarrow> u8 \<Rightarrow> ('d \<Rightarrow> u64 \<Rightarrow> u8 list) \<Rightarrow> bool" where
  "writes_kept io p cont \<longleftrightarrow> (\<forall>w s d r d'. dwrite io p w s 1 d = Some (r, d') \<longrightarrow> length w = 512 \<longrightarrow>
     (r = RES_OK \<longrightarrow> cont d' = (cont d)(s := w)) \<and> (\<forall>t. t \<noteq> s \<longrightarrow> cont d' t = cont d t))"

definition sector_disk :: "'d disk_io \<Rightarrow> u8 \<Rightarrow> ('d \<Rightarrow> u64 \<Rightarrow> u8 list) \<Rightarrow> bool" where
  "sector_disk io p cont \<longleftrightarrow> reads_kept io p cont \<and> writes_kept io p cont \<and> (\<forall>d s. length (cont d s) = 512)"

definition disk_returns :: "'d disk_io \<Rightarrow> u8 \<Rightarrow> bool" where
  "disk_returns io p \<longleftrightarrow> (\<forall>s d. dread io p s 1 d \<noteq> None) \<and> (\<forall>w s d. length w = 512 \<longrightarrow> dwrite io p w s 1 d \<noteq> None)"

lemma sector_disk_read:
  assumes "sector_disk io p cont" and "dread io p s 1 d = Some ((r, data), d')"
  shows "cont d' = cont d \<and> length data \<le> 512 \<and> (r = RES_OK \<longrightarrow> data = cont d s)"
proof -
  have "reads_kept io p cont" using assms(1) by (simp add: sector_disk_def)
  from this [unfolded reads_kept_def, THEN spec, THEN spec, THEN spec, THEN spec, THEN spec, THEN mp, OF assms(2)]
  show ?thesis .
qed

lemma sector_disk_write:
  assumes "sector_disk io p cont" and "dwrite io p w s 1 d = Some (r, d')" and "length w = 512"
  shows "(r = RES_OK \<longrightarrow> cont d' = (cont d)(s := w)) \<and> (\<forall>t. t \<noteq> s \<longrightarrow> cont d' t = cont d t)"
proof -
  have "writes_kept io p cont" using assms(1) by (simp add: sector_disk_def)
  from this [unfolded writes_kept_def, THEN spec, THEN spec, THEN spec, THEN spec, THEN spec, THEN mp, OF assms(2), THEN mp, OF assms(3)]
  show ?thesis .
qed

lemma sector_disk_length: "sector_disk io p cont \<Longrightarrow> length (cont d s) = 512"
  by (simp add: sector_disk_def)

text \<open>The sectors as the volume shows them, with the window in place of its own.\<close>

definition shown :: "('d \<Rightarrow> u64 \<Rightarrow> u8 list) \<Rightarrow> fatfs \<Rightarrow> 'd \<Rightarrow> u64 \<Rightarrow> u8 list" where
  "shown cont fs d s = (if s = winsect fs then win fs else cont d s)"

text \<open>The invariant of the window: a clean one agrees with the disk, and an invalid one is clean.\<close>

definition window_ok :: "('d \<Rightarrow> u64 \<Rightarrow> u8 list) \<Rightarrow> fatfs \<Rightarrow> 'd \<Rightarrow> bool" where
  "window_ok cont fs d \<longleftrightarrow> length (win fs) = 512
     \<and> (winsect fs = no_sector \<longrightarrow> wflag fs = 0)
     \<and> (wflag fs = 0 \<longrightarrow> winsect fs \<noteq> no_sector \<longrightarrow> win fs = cont d (winsect fs))"

text \<open>The second copy of the table is written behind the back of the window.\<close>

definition mirrored :: "fatfs \<Rightarrow> u64 \<Rightarrow> bool" where
  "mirrored fs t \<longleftrightarrow> n_fats fs = 2 \<and> t - ucast (fsize fs) - fatbase fs < ucast (fsize fs)"

definition plain :: "fatfs \<Rightarrow> u64 \<Rightarrow> bool" where
  "plain fs t \<longleftrightarrow> t \<noteq> no_sector \<and> \<not> mirrored fs t"

definition moved :: "fatfs \<Rightarrow> fatfs \<Rightarrow> bool" where
  "moved fs fs' \<longleftrightarrow> fs' = fs\<lparr>wflag := wflag fs', winsect := winsect fs', win := win fs'\<rparr>"

lemma moved_refl [simp]: "moved fs fs" "moved fs (fs\<lparr>wflag := f\<rparr>)" "moved fs (fs\<lparr>win := w, winsect := s\<rparr>)"
    "moved fs (fs\<lparr>win := w, wflag := f\<rparr>)"
  by (simp_all add: moved_def)

lemma moved_fields:
  assumes "moved fs fs'"
  shows "pdrv fs' = pdrv fs" "fatbase fs' = fatbase fs" "fsize fs' = fsize fs" "n_fats fs' = n_fats fs"
    "n_fatent fs' = n_fatent fs" "fs_type fs' = fs_type fs" "free_clst fs' = free_clst fs" "last_clst fs' = last_clst fs"
    "bitbase fs' = bitbase fs" "csize fs' = csize fs" "fsi_flag fs' = fsi_flag fs"
  using assms by (cases fs; cases fs'; simp add: moved_def)+

lemma moved_trans: "moved fs fs' \<Longrightarrow> moved fs' fs'' \<Longrightarrow> moved fs fs''"
  by (cases fs; cases fs'; cases fs''; simp add: moved_def)

lemma plain_moved: "moved fs fs' \<Longrightarrow> plain fs' t = plain fs t"
  by (simp add: plain_def mirrored_def moved_fields)

lemma sync_window_shown:
  assumes disk: "sector_disk io (pdrv fs) cont" and ok: "window_ok cont fs d"
    and sync: "sync_window io fs d = Some (res, fs', d')"
  shows "moved fs fs' \<and> window_ok cont fs' d' \<and> winsect fs' = winsect fs \<and> win fs' = win fs
       \<and> (res = FR_OK \<longrightarrow> wflag fs' = 0) \<and> res \<in> {FR_OK, FR_DISK_ERR}
       \<and> (\<forall>t. plain fs t \<longrightarrow> shown cont fs' d' t = shown cont fs d t)"
proof (cases "wflag fs = 0")
  case True
  then show ?thesis using sync ok by (auto simp: sync_window_def)
next
  case False
  have len: "length (win fs) = 512" and valid: "winsect fs \<noteq> no_sector"
    using ok False by (auto simp: window_ok_def)
  obtain r d1 where w: "dwrite io (pdrv fs) (win fs) (winsect fs) 1 d = Some (r, d1)"
    using sync False by (auto simp: sync_window_def split: bind_splits)
  note kept = sector_disk_write [OF disk w len]
  show ?thesis
  proof (cases "r = RES_OK \<and> winsect fs - fatbase fs < ucast (fsize fs) \<and> n_fats fs = 2")
    case True
    then obtain r2 where w2: "dwrite io (pdrv fs) (win fs) (winsect fs + ucast (fsize fs)) 1 d1 = Some (r2, d')"
      and fs': "fs' = fs\<lparr>wflag := 0\<rparr>" "res = FR_OK"
      using sync False w by (auto simp: sync_window_def Let_def split: bind_splits)
    note kept2 = sector_disk_write [OF disk w2 len]
    have "mirrored fs (winsect fs + ucast (fsize fs))" using True by (simp add: mirrored_def)
    then have "plain fs t \<Longrightarrow> t \<noteq> winsect fs + ucast (fsize fs)" for t by (auto simp: plain_def)
    moreover have "(ucast (fsize fs) :: u64) \<noteq> 0" using True by (auto simp: word_less_nat_alt)
    ultimately show ?thesis
      using True kept kept2 fs' len valid by (auto simp: window_ok_def shown_def)
  next
    case False
    then have "sync_window io fs d = Some (if r = RES_OK then (FR_OK, fs\<lparr>wflag := 0\<rparr>, d1) else (FR_DISK_ERR, fs, d1))"
      using \<open>wflag fs \<noteq> 0\<close> w by (auto simp: sync_window_def Let_def)
    then have "(res, fs', d') = (if r = RES_OK then (FR_OK, fs\<lparr>wflag := 0\<rparr>, d1) else (FR_DISK_ERR, fs, d1))"
      unfolding sync by simp
    then show ?thesis
      using kept len valid \<open>wflag fs \<noteq> 0\<close> by (auto simp: window_ok_def shown_def split: if_split_asm)
  qed
qed

lemma move_window_shown:
  assumes disk: "sector_disk io (pdrv fs) cont" and ok: "window_ok cont fs d" and sect: "plain fs sect"
    and move: "move_window io sect fs d = Some (res, fs', d')"
  shows "moved fs fs'" and "window_ok cont fs' d'" and "res \<in> {FR_OK, FR_DISK_ERR}"
    and "plain fs t \<Longrightarrow> shown cont fs' d' t = shown cont fs d t"
    and "res = FR_OK \<Longrightarrow> winsect fs' = sect \<and> win fs' = shown cont fs d sect"
proof -
  have "moved fs fs' \<and> window_ok cont fs' d' \<and> res \<in> {FR_OK, FR_DISK_ERR}
      \<and> (\<forall>t. plain fs t \<longrightarrow> shown cont fs' d' t = shown cont fs d t)
      \<and> (res = FR_OK \<longrightarrow> winsect fs' = sect \<and> win fs' = shown cont fs d sect)"
  proof (cases "sect = winsect fs")
    case True
    then show ?thesis using move ok by (auto simp: move_window_def shown_def)
  next
    case False
    then obtain r1 fs1 d1 where sync: "sync_window io fs d = Some (r1, fs1, d1)"
      using move by (auto simp: move_window_def split: bind_splits)
    note s = sync_window_shown [OF disk ok sync]
    show ?thesis
    proof (cases "r1 = FR_OK")
      case False
      then show ?thesis using s move sync \<open>sect \<noteq> winsect fs\<close> by (auto simp: move_window_def)
    next
      case True
      then obtain r data d2 w where rd: "dread io (pdrv fs) sect 1 d1 = Some ((r, data), d2)"
        and w: "memcpy (win fs1) 0 data = Some w"
        and res: "d' = d2" "(r = RES_OK \<and> res = FR_OK \<and> fs' = fs1\<lparr>win := w, winsect := sect\<rparr>) \<or>
             (r \<noteq> RES_OK \<and> res = FR_DISK_ERR \<and> fs' = fs1\<lparr>win := w, winsect := no_sector\<rparr>)"
        using move sync \<open>sect \<noteq> winsect fs\<close> s moved_fields(1) [of fs fs1]
        by (auto simp: move_window_def split: bind_splits if_splits)
      note kept = sector_disk_read [OF disk rd]
      have len: "length w = 512" "length (win fs1) = 512"
        using memcpy_length [OF w] s by (auto simp: window_ok_def)
      have clean: "wflag fs1 = 0" using s True by simp
      have full: "data = cont d1 sect \<Longrightarrow> w = cont d1 sect"
        using w len sector_disk_length [OF disk, of d1 sect] by (simp add: memcpy_def split: if_splits)
      have shown1: "shown cont fs1 d1 t = cont d1 t" if "t \<noteq> no_sector" for t
        using s clean that by (auto simp: shown_def window_ok_def)
      have "sect \<noteq> no_sector" using sect by (simp add: plain_def)
      then have fs': "moved fs1 fs' \<and> window_ok cont fs' d' \<and> res \<in> {FR_OK, FR_DISK_ERR}
          \<and> (\<forall>t. t \<noteq> no_sector \<longrightarrow> shown cont fs' d' t = cont d1 t) \<and> (res = FR_OK \<longrightarrow> winsect fs' = sect \<and> win fs' = cont d1 sect)"
        using res kept full len clean by (auto simp: window_ok_def shown_def)
      moreover have "moved fs fs'" using moved_trans s fs' by blast
      ultimately show ?thesis using s shown1 sect by (auto simp: plain_def)
    qed
  qed
  then show "moved fs fs'" and "window_ok cont fs' d'" and "res \<in> {FR_OK, FR_DISK_ERR}"
    and "plain fs t \<Longrightarrow> shown cont fs' d' t = shown cont fs d t"
    and "res = FR_OK \<Longrightarrow> winsect fs' = sect \<and> win fs' = shown cont fs d sect"
    by blast+
qed

lemma move_window_returns:
  assumes ret: "disk_returns io (pdrv fs)" and disk: "sector_disk io (pdrv fs) cont" and ok: "window_ok cont fs d"
  shows "\<exists>res fs' d'. move_window io sect fs d = Some (res, fs', d')"
proof -
  have len: "length (win fs) = 512" using ok by (simp add: window_ok_def)
  have "\<exists>res fs1 d1. sync_window io fs d = Some (res, fs1, d1) \<and> win fs1 = win fs \<and> pdrv fs1 = pdrv fs"
  proof -
    have "\<exists>r d1. dwrite io (pdrv fs) (win fs) s 1 x = Some (r, d1)" for s x
      using ret len unfolding disk_returns_def by (metis not_Some_eq surj_pair)
    then obtain r d1 where w: "dwrite io (pdrv fs) (win fs) (winsect fs) 1 d = Some (r, d1)"
      and "\<exists>r d2. dwrite io (pdrv fs) (win fs) (winsect fs + ucast (fsize fs)) 1 d1 = Some (r, d2)" by blast
    then show ?thesis by (auto simp: sync_window_def Let_def)
  qed
  then obtain res fs1 d1 where s: "sync_window io fs d = Some (res, fs1, d1)" "win fs1 = win fs" "pdrv fs1 = pdrv fs" by blast
  obtain r data d2 where rd: "dread io (pdrv fs) sect 1 d1 = Some ((r, data), d2)"
    using ret unfolding disk_returns_def by (metis not_Some_eq surj_pair)
  then have "length data \<le> 512" using sector_disk_read [OF disk rd] by blast
  then show ?thesis using s rd len by (auto simp: move_window_def memcpy_def)
qed

end
