(* ===== verification/Ff_Fat.thy ===== *)
theory Ff_Fat
  imports Ff_Window
begin

text \<open>
  The allocation table: \<open>get_fat\<close> and \<open>put_fat\<close> for the four kinds of volume, the allocation bitmap
  and the fragments of exFAT, \<open>remove_chain\<close>, \<open>create_chain\<close> and \<open>clmt_clust\<close> of \<open>ff.c\<close>.

  The loops that may run for ever on a damaged volume are partial functions. An object and its
  volume are separate arguments.
\<close>

section \<open>Entries\<close>

text \<open>The sector of the table for an offset in octets, and the offset in it.\<close>

definition fat_sector :: "fatfs \<Rightarrow> u32 \<Rightarrow> u64" where
  "fat_sector fs n = fatbase fs + ucast n"

definition get_fat12 :: "'d disk_io \<Rightarrow> u32 \<Rightarrow> fatfs \<Rightarrow> 'd \<Rightarrow> (u32 \<times> fatfs \<times> 'd) option" where
  "get_fat12 io clst fs d = do {
     let bc = clst + clst div 2;
     (res, fs, d) \<leftarrow> move_window io (fat_sector fs (bc div 512)) fs d;
     if res \<noteq> FR_OK then Some (0xFFFFFFFF, fs, d)
     else do {
       b \<leftarrow> rd (win fs) (unat (bc mod 512));
       let wc = (ucast b :: u32);
       let bc = bc + 1;
       (res, fs, d) \<leftarrow> move_window io (fat_sector fs (bc div 512)) fs d;
       if res \<noteq> FR_OK then Some (0xFFFFFFFF, fs, d)
       else do {
         b \<leftarrow> rd (win fs) (unat (bc mod 512));
         let wc = wc OR push_bit 8 (ucast b);
         Some (if clst AND 1 \<noteq> 0 then drop_bit 4 wc else wc AND 0xFFF, fs, d) } } }"

definition get_fat16 :: "'d disk_io \<Rightarrow> u32 \<Rightarrow> fatfs \<Rightarrow> 'd \<Rightarrow> (u32 \<times> fatfs \<times> 'd) option" where
  "get_fat16 io clst fs d = do {
     (res, fs, d) \<leftarrow> move_window io (fat_sector fs (clst div 256)) fs d;
     if res \<noteq> FR_OK then Some (0xFFFFFFFF, fs, d)
     else do {
       v \<leftarrow> ld_word (win fs) (unat (clst * 2 mod 512));
       Some (ucast v, fs, d) } }"

definition get_fat32 :: "'d disk_io \<Rightarrow> u32 \<Rightarrow> u32 \<Rightarrow> fatfs \<Rightarrow> 'd \<Rightarrow> (u32 \<times> fatfs \<times> 'd) option" where
  "get_fat32 io m clst fs d = do {
     (res, fs, d) \<leftarrow> move_window io (fat_sector fs (clst div 128)) fs d;
     if res \<noteq> FR_OK then Some (0xFFFFFFFF, fs, d)
     else do {
       v \<leftarrow> ld_dword (win fs) (unat (clst * 4 mod 512));
       Some (v AND m, fs, d) } }"

text \<open>
  On exFAT the status of the object says where its chain is: in no table when it is contiguous. A
  cluster size of zero is a division by zero.
\<close>

definition get_exfat :: "'d disk_io \<Rightarrow> ffobjid \<Rightarrow> u32 \<Rightarrow> fatfs \<Rightarrow> 'd \<Rightarrow> (u32 \<times> fatfs \<times> 'd) option" where
  "get_exfat io obj clst fs d =
     (if (objsize obj \<noteq> 0 \<and> sclust obj \<noteq> 0) \<or> stat obj = 0 then
        if csize fs = 0 then None
        else
          let cofs = clst - sclust obj;
              clen = (ucast ((objsize obj - 1) div 512 div ucast (csize fs)) :: u32) in
          if stat obj = 2 \<and> cofs \<le> clen then
            Some (if cofs = clen then 0x7FFFFFFF else clst + 1, fs, d)
          else if stat obj = 3 \<and> cofs < n_cont obj then Some (clst + 1, fs, d)
          else if stat obj \<noteq> 2 then
            if n_frag obj \<noteq> 0 then Some (0x7FFFFFFF, fs, d)
            else get_fat32 io 0x7FFFFFFF clst fs d
          else Some (1, fs, d)
      else Some (1, fs, d))"

definition get_fat :: "'d disk_io \<Rightarrow> ffobjid \<Rightarrow> u32 \<Rightarrow> fatfs \<Rightarrow> 'd \<Rightarrow> (u32 \<times> fatfs \<times> 'd) option" where
  "get_fat io obj clst fs d =
     (if clst < 2 \<or> n_fatent fs \<le> clst then Some (1, fs, d)
      else if fs_type fs = FS_FAT12 then get_fat12 io clst fs d
      else if fs_type fs = FS_FAT16 then get_fat16 io clst fs d
      else if fs_type fs = FS_FAT32 then get_fat32 io 0x0FFFFFFF clst fs d
      else if fs_type fs = FS_EXFAT then get_exfat io obj clst fs d
      else Some (1, fs, d))"

definition put_fat12 :: "'d disk_io \<Rightarrow> u32 \<Rightarrow> u32 \<Rightarrow> fatfs \<Rightarrow> 'd \<Rightarrow> (fresult \<times> fatfs \<times> 'd) option" where
  "put_fat12 io clst val fs d = do {
     let bc = clst + clst div 2;
     (res, fs, d) \<leftarrow> move_window io (fat_sector fs (bc div 512)) fs d;
     if res \<noteq> FR_OK then Some (res, fs, d)
     else do {
       let p = unat (bc mod 512);
       let bc = bc + 1;
       b \<leftarrow> rd (win fs) p;
       w \<leftarrow> wr (win fs) p (if clst AND 1 \<noteq> 0 then (b AND 0x0F) OR push_bit 4 (ucast val) else ucast val);
       let fs = fs\<lparr>win := w, wflag := 1\<rparr>;
       (res, fs, d) \<leftarrow> move_window io (fat_sector fs (bc div 512)) fs d;
       if res \<noteq> FR_OK then Some (res, fs, d)
       else do {
         let p = unat (bc mod 512);
         b \<leftarrow> rd (win fs) p;
         w \<leftarrow> wr (win fs) p (if clst AND 1 \<noteq> 0 then ucast (drop_bit 4 val)
                               else (b AND 0xF0) OR (ucast (drop_bit 8 val) AND 0x0F));
         Some (FR_OK, fs\<lparr>win := w, wflag := 1\<rparr>, d) } } }"

definition put_fat16 :: "'d disk_io \<Rightarrow> u32 \<Rightarrow> u32 \<Rightarrow> fatfs \<Rightarrow> 'd \<Rightarrow> (fresult \<times> fatfs \<times> 'd) option" where
  "put_fat16 io clst val fs d = do {
     (res, fs, d) \<leftarrow> move_window io (fat_sector fs (clst div 256)) fs d;
     if res \<noteq> FR_OK then Some (res, fs, d)
     else do {
       w \<leftarrow> st_word (win fs) (unat (clst * 2 mod 512)) (ucast val);
       Some (FR_OK, fs\<lparr>win := w, wflag := 1\<rparr>, d) } }"

definition put_fat32 :: "'d disk_io \<Rightarrow> u32 \<Rightarrow> u32 \<Rightarrow> fatfs \<Rightarrow> 'd \<Rightarrow> (fresult \<times> fatfs \<times> 'd) option" where
  "put_fat32 io clst val fs d = do {
     (res, fs, d) \<leftarrow> move_window io (fat_sector fs (clst div 128)) fs d;
     if res \<noteq> FR_OK then Some (res, fs, d)
     else do {
       old \<leftarrow> ld_dword (win fs) (unat (clst * 4 mod 512));
       let val = (if fs_type fs \<noteq> FS_EXFAT then (val AND 0x0FFFFFFF) OR (old AND 0xF0000000) else val);
       w \<leftarrow> st_dword (win fs) (unat (clst * 4 mod 512)) val;
       Some (FR_OK, fs\<lparr>win := w, wflag := 1\<rparr>, d) } }"

definition put_fat :: "'d disk_io \<Rightarrow> u32 \<Rightarrow> u32 \<Rightarrow> fatfs \<Rightarrow> 'd \<Rightarrow> (fresult \<times> fatfs \<times> 'd) option" where
  "put_fat io clst val fs d =
     (if 2 \<le> clst \<and> clst < n_fatent fs then
        if fs_type fs = FS_FAT12 then put_fat12 io clst val fs d
        else if fs_type fs = FS_FAT16 then put_fat16 io clst val fs d
        else if fs_type fs = FS_FAT32 \<or> fs_type fs = FS_EXFAT then put_fat32 io clst val fs d
        else Some (FR_INT_ERR, fs, d)
      else Some (FR_INT_ERR, fs, d))"

section \<open>The bitmap of exFAT\<close>

text \<open>
  The scan for free clusters, one bit per step: \<open>i\<close> and \<open>bm\<close> are the octet of the window and the
  mask, \<open>val\<close> the next cluster, \<open>scl\<close> and \<open>ctr\<close> the start and the length of the run. At the end of a
  window, and after the wrap to the first cluster, the window moves.
\<close>

partial_function (option) find_bits ::
  "'d disk_io \<Rightarrow> u32 \<Rightarrow> u32 \<Rightarrow> u32 \<Rightarrow> u32 \<Rightarrow> u32 \<Rightarrow> nat \<Rightarrow> u8 \<Rightarrow> fatfs \<Rightarrow> 'd \<Rightarrow> (u32 \<times> fatfs \<times> 'd) option" where
  "find_bits io clst ncl val scl ctr i bm fs d = do {
     b \<leftarrow> rd (win fs) i;
     let bv = b AND bm;
     let wrap = (n_fatent fs - 2 \<le> val + 1);
     let bm = (if wrap then 0 else push_bit 1 bm);
     let i = (if wrap then 512 else i);
     let val = (if wrap then 0 else val + 1);
     if bv = 0 \<and> ctr + 1 = ncl then Some (scl + 2, fs, d)
     else do {
       let scl = (if bv = 0 then scl else val);
       let ctr = (if bv = 0 then ctr + 1 else 0);
       if val = clst then Some (0, fs, d)
       else if bm \<noteq> 0 then find_bits io clst ncl val scl ctr i bm fs d
       else if i + 1 < 512 then find_bits io clst ncl val scl ctr (i + 1) 1 fs d
       else do {
         (res, fs, d) \<leftarrow> move_window io (bitbase fs + ucast (val div 8 div 512)) fs d;
         if res \<noteq> FR_OK then Some (0xFFFFFFFF, fs, d)
         else find_bits io clst ncl val scl ctr (unat (val div 8 mod 512)) (push_bit (unat (val mod 8)) 1) fs d } } }"

definition find_bitmap :: "'d disk_io \<Rightarrow> u32 \<Rightarrow> u32 \<Rightarrow> fatfs \<Rightarrow> 'd \<Rightarrow> (u32 \<times> fatfs \<times> 'd) option" where
  "find_bitmap io clst ncl fs d = do {
     let clst = clst - 2;
     let clst = (if n_fatent fs - 2 \<le> clst then 0 else clst);
     (res, fs, d) \<leftarrow> move_window io (bitbase fs + ucast (clst div 8 div 512)) fs d;
     if res \<noteq> FR_OK then Some (0xFFFFFFFF, fs, d)
     else find_bits io clst ncl clst clst 0 (unat (clst div 8 mod 512)) (push_bit (unat (clst mod 8)) 1) fs d }"

partial_function (option) flip_bits ::
  "'d disk_io \<Rightarrow> int \<Rightarrow> u64 \<Rightarrow> nat \<Rightarrow> u8 \<Rightarrow> u32 \<Rightarrow> fatfs \<Rightarrow> 'd \<Rightarrow> (fresult \<times> fatfs \<times> 'd) option" where
  "flip_bits io bv sect i bm ncl fs d = do {
     b \<leftarrow> rd (win fs) i;
     if bv = (if b AND bm \<noteq> 0 then 1 else 0) then Some (FR_INT_ERR, fs, d)
     else do {
       w \<leftarrow> wr (win fs) i (b XOR bm);
       let fs = fs\<lparr>win := w, wflag := 1\<rparr>;
       let ncl = ncl - 1;
       if ncl = 0 then Some (FR_OK, fs, d)
       else if push_bit 1 bm \<noteq> 0 then flip_bits io bv sect i (push_bit 1 bm) ncl fs d
       else if i + 1 < 512 then flip_bits io bv sect (i + 1) 1 ncl fs d
       else do {
         (res, fs, d) \<leftarrow> move_window io sect fs d;
         if res \<noteq> FR_OK then Some (FR_DISK_ERR, fs, d)
         else flip_bits io bv (sect + 1) 0 1 ncl fs d } } }"

definition change_bitmap :: "'d disk_io \<Rightarrow> u32 \<Rightarrow> u32 \<Rightarrow> int \<Rightarrow> fatfs \<Rightarrow> 'd \<Rightarrow> (fresult \<times> fatfs \<times> 'd) option" where
  "change_bitmap io clst ncl bv fs d = do {
     let clst = clst - 2;
     let sect = bitbase fs + ucast (clst div 8 div 512);
     (res, fs, d) \<leftarrow> move_window io sect fs d;
     if res \<noteq> FR_OK then Some (FR_DISK_ERR, fs, d)
     else flip_bits io bv (sect + 1) (unat (clst div 8 mod 512)) (push_bit (unat (clst mod 8)) 1) ncl fs d }"

section \<open>The fragments of an exFAT chain\<close>

fun first_frag_loop :: "'d disk_io \<Rightarrow> nat \<Rightarrow> u32 \<Rightarrow> fatfs \<Rightarrow> 'd \<Rightarrow> (fresult \<times> fatfs \<times> 'd) option" where
  "first_frag_loop io 0 cl fs d = Some (FR_OK, fs, d)"
| "first_frag_loop io (Suc n) cl fs d = do {
     (res, fs, d) \<leftarrow> put_fat io cl (cl + 1) fs d;
     if res \<noteq> FR_OK then Some (res, fs, d) else first_frag_loop io n (cl + 1) fs d }"

definition fill_first_frag :: "'d disk_io \<Rightarrow> ffobjid \<Rightarrow> fatfs \<Rightarrow> 'd \<Rightarrow> (fresult \<times> ffobjid \<times> fatfs \<times> 'd) option" where
  "fill_first_frag io obj fs d =
     (if stat obj = 3 then do {
        (res, fs, d) \<leftarrow> first_frag_loop io (unat (n_cont obj)) (sclust obj) fs d;
        if res \<noteq> FR_OK then Some (res, obj, fs, d) else Some (FR_OK, obj\<lparr>stat := 0\<rparr>, fs, d) }
      else Some (FR_OK, obj, fs, d))"

text \<open>The loop over the last fragment, with what is left of it.\<close>

fun last_frag_loop ::
  "'d disk_io \<Rightarrow> u32 \<Rightarrow> u32 \<Rightarrow> nat \<Rightarrow> fatfs \<Rightarrow> 'd \<Rightarrow> (fresult \<times> nat \<times> fatfs \<times> 'd) option" where
  "last_frag_loop io lcl trm 0 fs d = Some (FR_OK, 0, fs, d)"
| "last_frag_loop io lcl trm (Suc n) fs d = do {
     (res, fs, d) \<leftarrow> put_fat io (lcl - of_nat (Suc n) + 1)
                       (if 1 < Suc n then lcl - of_nat (Suc n) + 2 else trm) fs d;
     if res \<noteq> FR_OK then Some (res, Suc n, fs, d) else last_frag_loop io lcl trm n fs d }"

definition fill_last_frag ::
  "'d disk_io \<Rightarrow> ffobjid \<Rightarrow> u32 \<Rightarrow> u32 \<Rightarrow> fatfs \<Rightarrow> 'd \<Rightarrow> (fresult \<times> ffobjid \<times> fatfs \<times> 'd) option" where
  "fill_last_frag io obj lcl trm fs d = do {
     (res, n, fs, d) \<leftarrow> last_frag_loop io lcl trm (unat (n_frag obj)) fs d;
     Some (res, obj\<lparr>n_frag := of_nat n\<rparr>, fs, d) }"

section \<open>Removing a chain\<close>

text \<open>
  The loop that frees the clusters; its result is \<^term>\<open>None\<close> when the chain is at its end and the
  value to return otherwise. A block of neighbouring clusters, from \<open>scl\<close> to \<open>ecl\<close>, is cleared in
  the bitmap at once.
\<close>

definition count_freed :: "fatfs \<Rightarrow> fatfs" where
  "count_freed fs = (if free_clst fs < n_fatent fs - 2
     then fs\<lparr>free_clst := free_clst fs + 1, fsi_flag := fsi_flag fs OR 1\<rparr> else fs)"

partial_function (option) remove_loop ::
  "'d disk_io \<Rightarrow> ffobjid \<Rightarrow> u32 \<Rightarrow> u32 \<Rightarrow> u32 \<Rightarrow> fatfs \<Rightarrow> 'd \<Rightarrow> (fresult option \<times> fatfs \<times> 'd) option" where
  "remove_loop io obj scl ecl clst fs d = do {
     (nxt, fs, d) \<leftarrow> get_fat io obj clst fs d;
     if nxt = 0 then Some (None, fs, d)
     else if nxt = 1 then Some (Some FR_INT_ERR, fs, d)
     else if nxt = 0xFFFFFFFF then Some (Some FR_DISK_ERR, fs, d)
     else do {
       (res, fs, d) \<leftarrow> (if fs_type fs \<noteq> FS_EXFAT then put_fat io clst 0 fs d else Some (FR_OK, fs, d));
       if res \<noteq> FR_OK then Some (Some res, fs, d)
       else do {
         let fs = count_freed fs;
         (res, fs, d) \<leftarrow> (if ecl + 1 \<noteq> nxt \<and> fs_type fs = FS_EXFAT
                          then change_bitmap io scl (ecl - scl + 1) 0 fs d else Some (FR_OK, fs, d));
         if res \<noteq> FR_OK then Some (Some res, fs, d)
         else if nxt < n_fatent fs
         then remove_loop io obj (if ecl + 1 = nxt then scl else nxt) nxt nxt fs d
         else Some (None, fs, d) } } }"

text \<open>The part of the chain that is left, followed to see whether it is contiguous.\<close>

partial_function (option) contiguous_loop ::
  "'d disk_io \<Rightarrow> ffobjid \<Rightarrow> u32 \<Rightarrow> u32 \<Rightarrow> fatfs \<Rightarrow> 'd \<Rightarrow> ((fresult + u32) \<times> fatfs \<times> 'd) option" where
  "contiguous_loop io obj pclst clst fs d =
     (if clst \<noteq> pclst then do {
        (nxt, fs, d) \<leftarrow> get_fat io obj clst fs d;
        if nxt < 2 then Some (Inl FR_INT_ERR, fs, d)
        else if nxt = 0xFFFFFFFF then Some (Inl FR_DISK_ERR, fs, d)
        else if nxt \<noteq> clst + 1 then Some (Inr clst, fs, d)
        else contiguous_loop io obj pclst (clst + 1) fs d }
      else Some (Inr clst, fs, d))"

definition remove_post ::
  "'d disk_io \<Rightarrow> ffobjid \<Rightarrow> u32 \<Rightarrow> fatfs \<Rightarrow> 'd \<Rightarrow> (fresult \<times> ffobjid \<times> fatfs \<times> 'd) option" where
  "remove_post io obj pclst fs d =
     (if fs_type fs = FS_EXFAT then
        if pclst = 0 then Some (FR_OK, obj\<lparr>stat := 0\<rparr>, fs, d)
        else if stat obj = 0 then do {
          (r, fs, d) \<leftarrow> contiguous_loop io obj pclst (sclust obj) fs d;
          (case r of Inl res \<Rightarrow> Some (res, obj, fs, d)
           | Inr clst \<Rightarrow> Some (FR_OK, if clst = pclst then obj\<lparr>stat := 2\<rparr> else obj, fs, d)) }
        else if stat obj = 3 \<and> sclust obj \<le> pclst \<and> pclst \<le> sclust obj + n_cont obj
        then Some (FR_OK, obj\<lparr>stat := 2\<rparr>, fs, d)
        else Some (FR_OK, obj, fs, d)
      else Some (FR_OK, obj, fs, d))"

definition remove_chain ::
  "'d disk_io \<Rightarrow> ffobjid \<Rightarrow> u32 \<Rightarrow> u32 \<Rightarrow> fatfs \<Rightarrow> 'd \<Rightarrow> (fresult \<times> ffobjid \<times> fatfs \<times> 'd) option" where
  "remove_chain io obj clst pclst fs d =
     (if clst < 2 \<or> n_fatent fs \<le> clst then Some (FR_INT_ERR, obj, fs, d)
      else do {
        (res, fs, d) \<leftarrow> (if pclst \<noteq> 0 \<and> (fs_type fs \<noteq> FS_EXFAT \<or> stat obj \<noteq> 2)
                         then put_fat io pclst 0xFFFFFFFF fs d else Some (FR_OK, fs, d));
        if res \<noteq> FR_OK then Some (res, obj, fs, d)
        else do {
          (r, fs, d) \<leftarrow> remove_loop io obj clst clst clst fs d;
          (case r of Some res \<Rightarrow> Some (res, obj, fs, d)
           | None \<Rightarrow> remove_post io obj pclst fs d) } })"

section \<open>Stretching a chain\<close>

text \<open>The search for a free cluster behind \<open>scl\<close>: the cluster, or the value to return.\<close>

partial_function (option) free_loop ::
  "'d disk_io \<Rightarrow> ffobjid \<Rightarrow> u32 \<Rightarrow> u32 \<Rightarrow> fatfs \<Rightarrow> 'd \<Rightarrow> ((u32 + u32) \<times> fatfs \<times> 'd) option" where
  "free_loop io obj scl ncl fs d =
     (let ncl = ncl + 1; wrap = (n_fatent fs \<le> ncl); ncl = (if wrap then 2 else ncl) in
      if wrap \<and> scl < ncl then Some (Inl 0, fs, d)
      else do {
        (cs, fs, d) \<leftarrow> get_fat io obj ncl fs d;
        if cs = 0 then Some (Inr ncl, fs, d)
        else if cs = 1 \<or> cs = 0xFFFFFFFF then Some (Inl cs, fs, d)
        else if ncl = scl then Some (Inl 0, fs, d)
        else free_loop io obj scl ncl fs d })"

definition find_free ::
  "'d disk_io \<Rightarrow> ffobjid \<Rightarrow> u32 \<Rightarrow> u32 \<Rightarrow> fatfs \<Rightarrow> 'd \<Rightarrow> ((u32 + u32) \<times> fatfs \<times> 'd) option" where
  "find_free io obj clst scl fs d =
     (if scl = clst then
        let ncl = (if n_fatent fs \<le> scl + 1 then 2 else scl + 1) in do {
          (cs, fs, d) \<leftarrow> get_fat io obj ncl fs d;
          if cs = 1 \<or> cs = 0xFFFFFFFF then Some (Inl cs, fs, d)
          else if cs \<noteq> 0 then
            let cs = last_clst fs; scl = (if 2 \<le> cs \<and> cs < n_fatent fs then cs else scl) in
            free_loop io obj scl scl fs d
          else Some (Inr ncl, fs, d) }
      else free_loop io obj scl scl fs d)"

text \<open>On exFAT a cluster is taken from the bitmap, and the table is written for fragments only.\<close>

definition take_exfat ::
  "'d disk_io \<Rightarrow> ffobjid \<Rightarrow> u32 \<Rightarrow> u32 \<Rightarrow> fatfs \<Rightarrow> 'd
     \<Rightarrow> ((u32 + fresult \<times> u32) \<times> ffobjid \<times> fatfs \<times> 'd) option" where
  "take_exfat io obj clst scl fs d = do {
     (ncl, fs, d) \<leftarrow> find_bitmap io scl 1 fs d;
     if ncl = 0 \<or> ncl = 0xFFFFFFFF then Some (Inl ncl, obj, fs, d)
     else do {
       (res, fs, d) \<leftarrow> change_bitmap io ncl 1 1 fs d;
       if res = FR_INT_ERR then Some (Inl 1, obj, fs, d)
       else if res = FR_DISK_ERR then Some (Inl 0xFFFFFFFF, obj, fs, d)
       else do {
         let obj = (if clst = 0 then obj\<lparr>stat := 2\<rparr>
                    else if stat obj = 2 \<and> ncl \<noteq> scl + 1
                    then obj\<lparr>n_cont := scl - sclust obj, stat := 3\<rparr> else obj);
         if stat obj \<noteq> 2 then
           if ncl = clst + 1 then
             Some (Inr (res, ncl), obj\<lparr>n_frag := if n_frag obj \<noteq> 0 then n_frag obj + 1 else 2\<rparr>, fs, d)
           else do {
             let obj = (if n_frag obj = 0 then obj\<lparr>n_frag := 1\<rparr> else obj);
             (res, obj, fs, d) \<leftarrow> fill_last_frag io obj clst ncl fs d;
             Some (Inr (res, ncl), if res = FR_OK then obj\<lparr>n_frag := 1\<rparr> else obj, fs, d) }
         else Some (Inr (res, ncl), obj, fs, d) } } }"

definition take_fat ::
  "'d disk_io \<Rightarrow> ffobjid \<Rightarrow> u32 \<Rightarrow> u32 \<Rightarrow> fatfs \<Rightarrow> 'd \<Rightarrow> ((u32 + fresult \<times> u32) \<times> fatfs \<times> 'd) option" where
  "take_fat io obj clst scl fs d = do {
     (r, fs, d) \<leftarrow> find_free io obj clst scl fs d;
     (case r of Inl cs \<Rightarrow> Some (Inl cs, fs, d)
      | Inr ncl \<Rightarrow> do {
          (res, fs, d) \<leftarrow> put_fat io ncl 0xFFFFFFFF fs d;
          if res = FR_OK \<and> clst \<noteq> 0 then do {
            (res, fs, d) \<leftarrow> put_fat io clst ncl fs d;
            Some (Inr (res, ncl), fs, d) }
          else Some (Inr (res, ncl), fs, d) }) }"

definition count_taken :: "u32 \<Rightarrow> fatfs \<Rightarrow> fatfs" where
  "count_taken ncl fs =
     (let fs = fs\<lparr>last_clst := ncl\<rparr>;
          fs = (if free_clst fs \<le> n_fatent fs - 2 then fs\<lparr>free_clst := free_clst fs - 1\<rparr> else fs) in
      fs\<lparr>fsi_flag := fsi_flag fs OR 1\<rparr>)"

definition take_cluster ::
  "'d disk_io \<Rightarrow> ffobjid \<Rightarrow> u32 \<Rightarrow> u32 \<Rightarrow> fatfs \<Rightarrow> 'd \<Rightarrow> (u32 \<times> ffobjid \<times> fatfs \<times> 'd) option" where
  "take_cluster io obj clst scl fs d =
     (if free_clst fs = 0 then Some (0, obj, fs, d)
      else do {
        (r, obj, fs, d) \<leftarrow> (if fs_type fs = FS_EXFAT then take_exfat io obj clst scl fs d
                            else do { (r, fs, d) \<leftarrow> take_fat io obj clst scl fs d; Some (r, obj, fs, d) });
        (case r of Inl ncl \<Rightarrow> Some (ncl, obj, fs, d)
         | Inr (res, ncl) \<Rightarrow>
             if res = FR_OK then Some (ncl, obj, count_taken ncl fs, d)
             else Some (if res = FR_DISK_ERR then 0xFFFFFFFF else 1, obj, fs, d)) })"

definition create_chain ::
  "'d disk_io \<Rightarrow> ffobjid \<Rightarrow> u32 \<Rightarrow> fatfs \<Rightarrow> 'd \<Rightarrow> (u32 \<times> ffobjid \<times> fatfs \<times> 'd) option" where
  "create_chain io obj clst fs d =
     (if clst = 0 then
        let scl = last_clst fs; scl = (if scl = 0 \<or> n_fatent fs \<le> scl then 1 else scl) in
        take_cluster io obj clst scl fs d
      else do {
        (cs, fs, d) \<leftarrow> get_fat io obj clst fs d;
        if cs < 2 then Some (1, obj, fs, d)
        else if cs = 0xFFFFFFFF then Some (cs, obj, fs, d)
        else if cs < n_fatent fs then Some (cs, obj, fs, d)
        else take_cluster io obj clst clst fs d })"

section \<open>The link map of a file\<close>

text \<open>The table holds pairs of a length and a first cluster, ended by a zero; its head is skipped.\<close>

fun clmt_loop :: "u32 \<Rightarrow> u32 list \<Rightarrow> u32 option" where
  "clmt_loop cl [] = None"
| "clmt_loop cl (ncl # tbl) =
     (if ncl = 0 then Some 0
      else case tbl of
        [] \<Rightarrow> None
      | start # tbl \<Rightarrow> if cl < ncl then Some (cl + start) else clmt_loop (cl - ncl) tbl)"

definition clmt_clust :: "u32 list \<Rightarrow> u64 \<Rightarrow> fatfs \<Rightarrow> u32 option" where
  "clmt_clust cltbl ofs fs =
     (if csize fs = 0 then None
      else clmt_loop (ucast (ofs div 512 div ucast (csize fs))) (drop 1 cltbl))"

end
