(* ===== verification/Ff_Fat_Facts.thy ===== *)
theory Ff_Fat_Facts
  imports Ff_Fat
begin

text \<open>
  What the allocation table of a FAT12, FAT16 or FAT32 volume holds, independent of the window and
  of the disk below: \<open>fat_entry\<close>. Reading an entry returns it and changes no entry, writing one
  changes that entry alone, and creating and removing chains are expressed by such changes.
\<close>

section \<open>The table\<close>

text \<open>The bits of an entry.\<close>

definition fat_mask :: "fatfs \<Rightarrow> u32" where
  "fat_mask fs = (if fs_type fs = FS_FAT12 then 0xFFF else if fs_type fs = FS_FAT16 then 0xFFFF else 0x0FFFFFFF)"

text \<open>
  A volume as mounting accepts it: its kind is that for its number of clusters, the table has room for all entries, in the octets the mount code
  computes, and the two copies end below the last sector number.
\<close>

definition table_octets :: "fatfs \<Rightarrow> nat" where
  "table_octets fs = (let n = unat (n_fatent fs) in
     if fs_type fs = FS_FAT12 then n * 3 div 2 + n mod 2
     else if fs_type fs = FS_FAT16 then n * 2 else n * 4)"

definition volume_ok :: "fatfs \<Rightarrow> bool" where
  "volume_ok fs \<longleftrightarrow> fs_type fs \<in> {FS_FAT12, FS_FAT16, FS_FAT32}
     \<and> table_octets fs \<le> 512 * unat (fsize fs)
     \<and> unat (fatbase fs) + 2 * unat (fsize fs) < 2 ^ 64 - 1
     \<and> unat (n_fatent fs) \<le> unat (fat_mask fs) - 8"

definition fat_octet :: "('d \<Rightarrow> u64 \<Rightarrow> u8 list) \<Rightarrow> fatfs \<Rightarrow> 'd \<Rightarrow> u32 \<Rightarrow> u8" where
  "fat_octet cont fs d k = shown cont fs d (fat_sector fs (k div 512)) ! unat (k mod 512)"

definition entry12 :: "u32 \<Rightarrow> u8 \<Rightarrow> u8 \<Rightarrow> u32" where
  "entry12 c b0 b1 = (let wc = ucast b0 OR push_bit 8 (ucast b1) in
     if c AND 1 \<noteq> 0 then drop_bit 4 wc else wc AND 0xFFF)"

definition fat_entry :: "('d \<Rightarrow> u64 \<Rightarrow> u8 list) \<Rightarrow> fatfs \<Rightarrow> 'd \<Rightarrow> u32 \<Rightarrow> u32 option" where
  "fat_entry cont fs d c =
     (if fs_type fs = FS_FAT12 then
        Some (entry12 c (fat_octet cont fs d (c + c div 2)) (fat_octet cont fs d (c + c div 2 + 1)))
      else if fs_type fs = FS_FAT16 then
        map_option ucast (ld_word (shown cont fs d (fat_sector fs (c div 256))) (unat (c * 2 mod 512)))
      else
        map_option (\<lambda>v. v AND 0x0FFFFFFF)
          (ld_dword (shown cont fs d (fat_sector fs (c div 128))) (unat (c * 4 mod 512))))"

definition in_fat :: "fatfs \<Rightarrow> u32 \<Rightarrow> bool" where
  "in_fat fs c \<longleftrightarrow> 2 \<le> c \<and> c < n_fatent fs"

section \<open>Places in the table\<close>

lemma volume_okD:
  assumes "volume_ok fs"
  shows "table_octets fs \<le> 512 * unat (fsize fs)" and "unat (fatbase fs) + 2 * unat (fsize fs) < 2 ^ 64 - 1"
    and "unat (n_fatent fs) \<le> 0x0FFFFFF7" and "fs_type fs \<in> {FS_FAT12, FS_FAT16, FS_FAT32}"
    and "unat (n_fatent fs) \<le> unat (fat_mask fs) - 8"
  using assms by (auto simp: volume_ok_def fat_mask_def fs_types)

lemma unat_fat_sector:
  assumes "volume_ok fs" and "unat n < unat (fsize fs)"
  shows "unat (fat_sector fs n) = unat (fatbase fs) + unat n"
  using volume_okD(2) [OF assms(1)] assms(2)
  by (simp add: fat_sector_def unat_word_ariths unat_ucast_64)

lemma fat_sector_inj: "fat_sector fs m = fat_sector fs n \<longleftrightarrow> m = n"
  by (simp add: fat_sector_def ucast_eq_iff_up)

lemma fat_sector_plain:
  assumes "volume_ok fs" and "unat n < unat (fsize fs)"
  shows "plain fs (fat_sector fs n)"
proof -
  have "unat no_sector = 2 ^ 64 - 1" by (simp add: no_sector_def unsigned_minus_1_eq_mask mask_eq_exp_minus_1)
  then have "fat_sector fs n \<noteq> no_sector"
    using unat_fat_sector [OF assms] volume_okD(2) [OF assms(1)] assms(2) by auto
  moreover have "\<not> mirrored fs (fat_sector fs n)"
  proof -
    have "fat_sector fs n - ucast (fsize fs) - fatbase fs = ucast n - (ucast (fsize fs) :: u64)"
      by (simp add: fat_sector_def)
    moreover have "unat (ucast n - (ucast (fsize fs) :: u64)) = unat n + (2 ^ 64 - unat (fsize fs))"
    proof -
      have "(ucast n :: u64) < ucast (fsize fs)" using assms(2) by (simp add: word_less_nat_alt unat_ucast_64)
      then show ?thesis
        using assms(2) unsigned_less [of "fsize fs", where ?'a = nat] 
        by (simp add: unat_sub_if' unat_ucast_64 word_less_nat_alt)
    qed
    ultimately have "unat (fat_sector fs n - ucast (fsize fs) - fatbase fs) = unat n + (2 ^ 64 - unat (fsize fs))"
      by (simp only:)
    then show ?thesis
      using unsigned_less [of "fsize fs", where ?'a = nat]
      by (auto simp: mirrored_def word_less_nat_alt unat_ucast_64)
  qed
  ultimately show ?thesis by (simp add: plain_def)
qed

text \<open>Where the entries lie.\<close>

lemma octets12:
  assumes "x < n"
  shows "x + x div 2 + 1 < n * 3 div 2 + n mod (2 :: nat)"
proof -
  have "x div 2 \<le> (n - 1) div 2" by (rule div_le_mono) (use assms in simp)
  then have "x + x div 2 + 1 \<le> n + (n - 1) div 2" using assms by linarith
  also have "\<dots> < n * 3 div 2 + n mod 2"
  proof (cases "even n")
    case True
    then obtain m where "n = 2 * m" by (rule evenE)
    then show ?thesis using assms by (cases m) simp_all
  next
    case False
    then obtain m where "n = 2 * m + 1" by (rule oddE)
    then show ?thesis by simp
  qed
  finally show ?thesis .
qed

lemma place12:
  assumes "volume_ok fs" and "fs_type fs = FS_FAT12" and "c < n_fatent fs"
  shows "unat (c + c div 2) = unat c + unat c div 2" and "unat (c + c div 2 + 1) = unat c + unat c div 2 + 1"
    and "unat c + unat c div 2 + 1 < 512 * unat (fsize fs)"
proof -
  have c: "unat c < unat (n_fatent fs)" using assms(3) by (simp add: word_less_nat_alt)
  then show "unat (c + c div 2) = unat c + unat c div 2" and "unat (c + c div 2 + 1) = unat c + unat c div 2 + 1"
    using volume_okD(3) [OF assms(1)] by (simp_all add: unat_word_ariths)
  have "unat c + unat c div 2 + 1 < unat (n_fatent fs) * 3 div 2 + unat (n_fatent fs) mod 2"
    using c by (rule octets12)
  then show "unat c + unat c div 2 + 1 < 512 * unat (fsize fs)"
    using volume_okD(1) [OF assms(1)] assms(2) by (simp add: table_octets_def Let_def)
qed

lemma place16:
  assumes "volume_ok fs" and "fs_type fs = FS_FAT16" and "c < n_fatent fs"
  shows "unat (c div 256) < unat (fsize fs)" and "unat (c * 2 mod 512) = (unat c mod 256) * 2"
proof -
  have c: "unat c < unat (n_fatent fs)" using assms(3) by (simp add: word_less_nat_alt)
  show "unat (c div 256) < unat (fsize fs)"
    using volume_okD(1) [OF assms(1)] assms(2) c by (simp add: table_octets_def Let_def unat_div fs_types)
  show "unat (c * 2 mod 512) = (unat c mod 256) * 2"
    using volume_okD(3) [OF assms(1)] c mult_mod_left [of "unat c" 256 2]
    by (simp add: unat_mod unat_word_ariths)
qed

lemma place32:
  assumes "volume_ok fs" and "fs_type fs = FS_FAT32" and "c < n_fatent fs"
  shows "unat (c div 128) < unat (fsize fs)" and "unat (c * 4 mod 512) = (unat c mod 128) * 4"
proof -
  have c: "unat c < unat (n_fatent fs)" using assms(3) by (simp add: word_less_nat_alt)
  show "unat (c div 128) < unat (fsize fs)"
    using volume_okD(1) [OF assms(1)] assms(2) c by (simp add: table_octets_def Let_def unat_div fs_types)
  show "unat (c * 4 mod 512) = (unat c mod 128) * 4"
    using volume_okD(3) [OF assms(1)] c mult_mod_left [of "unat c" 128 4]
    by (simp add: unat_mod unat_word_ariths)
qed

lemma octet_place:
  fixes k :: u32
  assumes "unat k < 512 * unat (fsize fs)"
  shows "unat (k div 512) < unat (fsize fs)" and "unat (k mod 512) < 512"
  using assms by (auto simp: unat_div unat_mod)

lemma same_cell:
  fixes x c q :: u32
  assumes "x div q = c div q"
  shows "unat c mod unat q = unat x mod unat q \<longleftrightarrow> x = c"
proof
  assume "unat c mod unat q = unat x mod unat q"
  moreover have "unat x div unat q = unat c div unat q" using assms by (metis unat_div)
  ultimately have "unat x = unat c" by (metis div_mult_mod_eq)
  then show "x = c" by (rule unsigned_word_eqI)
qed simp

lemma same_place:
  fixes j k :: u32
  assumes "j div 512 = k div 512" and "unat (j mod 512) = unat (k mod 512)"
  shows "j = k"
proof -
  have "unat (j div 512) = unat (k div 512)" using assms(1) by simp
  then have "unat j div 512 = unat k div 512" "unat j mod 512 = unat k mod 512"
    using assms(2) by (simp_all add: unat_div unat_mod)
  then have "unat j = unat k" by (metis div_mult_mod_eq)
  then show "j = k" by (rule unsigned_word_eqI)
qed

section \<open>Reading and writing an entry\<close>

text \<open>A volume on a disk that keeps its sectors.\<close>

definition mounted :: "'d disk_io \<Rightarrow> ('d \<Rightarrow> u64 \<Rightarrow> u8 list) \<Rightarrow> fatfs \<Rightarrow> 'd \<Rightarrow> bool" where
  "mounted io cont fs d \<longleftrightarrow> sector_disk io (pdrv fs) cont \<and> window_ok cont fs d \<and> volume_ok fs"

lemma volume_ok_moved: "moved fs fs' \<Longrightarrow> volume_ok fs' = volume_ok fs"
  by (simp add: volume_ok_def table_octets_def fat_mask_def moved_fields Let_def)

lemma fat_sector_moved: "moved fs fs' \<Longrightarrow> fat_sector fs' n = fat_sector fs n"
  by (simp add: fat_sector_def moved_fields)

lemma mountedD:
  assumes "mounted io cont fs d"
  shows "sector_disk io (pdrv fs) cont" and "window_ok cont fs d" and "volume_ok fs"
  using assms by (auto simp: mounted_def)

lemma length_shown: "mounted io cont fs d \<Longrightarrow> length (shown cont fs d t) = 512"
  by (auto simp: shown_def mounted_def window_ok_def dest: sector_disk_length)

text \<open>The same sectors behind another window, those of the table among them.\<close>

definition same_table :: "'d disk_io \<Rightarrow> ('d \<Rightarrow> u64 \<Rightarrow> u8 list) \<Rightarrow> fatfs \<Rightarrow> 'd \<Rightarrow> fatfs \<Rightarrow> 'd \<Rightarrow> bool" where
  "same_table io cont fs d fs' d' \<longleftrightarrow> moved fs fs' \<and> mounted io cont fs' d'
     \<and> (\<forall>t. plain fs t \<longrightarrow> shown cont fs' d' t = shown cont fs d t)"

lemma same_table_refl: "mounted io cont fs d \<Longrightarrow> same_table io cont fs d fs d"
  by (simp add: same_table_def)

lemma same_table_trans:
  "same_table io cont fs d fs1 d1 \<Longrightarrow> same_table io cont fs1 d1 fs2 d2 \<Longrightarrow> same_table io cont fs d fs2 d2"
  by (auto simp: same_table_def plain_moved intro: moved_trans)

lemma same_table_sector:
  assumes "same_table io cont fs d fs' d'" and "unat n < unat (fsize fs)"
  shows "shown cont fs' d' (fat_sector fs n) = shown cont fs d (fat_sector fs n)"
proof -
  have "volume_ok fs" using assms(1) volume_ok_moved [of fs fs'] by (simp add: same_table_def mounted_def)
  then show ?thesis using assms fat_sector_plain by (simp add: same_table_def)
qed

lemma move_plain:
  assumes "mounted io cont fs d" and "plain fs t" and "move_window io t fs d = Some (res, fs', d')"
  shows "same_table io cont fs d fs' d'" and "res \<in> {FR_OK, FR_DISK_ERR}"
    and "res = FR_OK \<Longrightarrow> winsect fs' = t \<and> win fs' = shown cont fs d t"
proof -
  note m = mountedD [OF assms(1)]
  note s = move_window_shown [OF m(1,2) assms(2,3)]
  show "same_table io cont fs d fs' d'"
    using s(1,2,4) m(1,3) by (auto simp: same_table_def mounted_def moved_fields volume_ok_moved)
  show "res \<in> {FR_OK, FR_DISK_ERR}" by (rule s(3))
  show "res = FR_OK \<Longrightarrow> winsect fs' = t \<and> win fs' = shown cont fs d t" by (rule s(5))
qed

lemma move_same_table:
  assumes "mounted io cont fs d" and "unat n < unat (fsize fs)"
    and "move_window io (fat_sector fs n) fs d = Some (res, fs', d')"
  shows "same_table io cont fs d fs' d'" and "res \<in> {FR_OK, FR_DISK_ERR}"
    and "res = FR_OK \<Longrightarrow> winsect fs' = fat_sector fs n \<and> win fs' = shown cont fs d (fat_sector fs n)"
proof -
  note s = move_plain [OF assms(1) fat_sector_plain [OF mountedD(3) [OF assms(1)] assms(2)] assms(3)]
  show "same_table io cont fs d fs' d'" and "res \<in> {FR_OK, FR_DISK_ERR}" by (rule s)+
  show "res = FR_OK \<Longrightarrow> winsect fs' = fat_sector fs n \<and> win fs' = shown cont fs d (fat_sector fs n)" by (rule s(3))
qed

lemma same_table_octet:
  assumes "same_table io cont fs d fs' d'" and "unat k < 512 * unat (fsize fs)"
  shows "fat_octet cont fs' d' k = fat_octet cont fs d k"
  using assms octet_place [OF assms(2)] same_table_sector [OF assms(1)]
  by (simp add: fat_octet_def same_table_def fat_sector_moved [of fs fs'])

lemma same_table_entry:
  assumes "same_table io cont fs d fs' d'" and "volume_ok fs" and "c < n_fatent fs"
  shows "fat_entry cont fs' d' c = fat_entry cont fs d c"
proof -
  have m: "moved fs fs'" using assms(1) by (simp add: same_table_def)
  consider "fs_type fs = FS_FAT12" | "fs_type fs = FS_FAT16" | "fs_type fs = FS_FAT32"
    using volume_okD(4) [OF assms(2)] by blast
  then show ?thesis
  proof cases
    case 1
    note p = place12 [OF assms(2) 1 assms(3)]
    then show ?thesis
      using 1 same_table_octet [OF assms(1), of "c + c div 2"] same_table_octet [OF assms(1), of "c + c div 2 + 1"]
      by (simp add: fat_entry_def moved_fields [OF m])
  next
    case 2
    then show ?thesis
      using same_table_sector [OF assms(1) place16(1) [OF assms(2) 2 assms(3)]]
      by (simp add: fat_entry_def moved_fields [OF m] fat_sector_moved [OF m] fs_types)
  next
    case 3
    then show ?thesis
      using same_table_sector [OF assms(1) place32(1) [OF assms(2) 3 assms(3)]]
      by (simp add: fat_entry_def moved_fields [OF m] fat_sector_moved [OF m] fs_types)
  qed
qed

text \<open>One access to an octet of the table.\<close>

lemma move_octet:
  assumes "mounted io cont fs d" and "unat k < 512 * unat (fsize fs)"
    and "move_window io (fat_sector fs (k div 512)) fs d = Some (FR_OK, fs', d')"
  shows "same_table io cont fs d fs' d'" and "winsect fs' = fat_sector fs (k div 512)"
    and "rd (win fs') (unat (k mod 512)) = Some (fat_octet cont fs d k)"
proof -
  note m = move_same_table [OF assms(1) octet_place(1) [OF assms(2)] assms(3)]
  show "same_table io cont fs d fs' d'" and "winsect fs' = fat_sector fs (k div 512)" using m by auto
  show "rd (win fs') (unat (k mod 512)) = Some (fat_octet cont fs d k)"
    using m(3) length_shown [OF assms(1)] octet_place(2) [OF assms(2)] by (simp add: rd_def fat_octet_def)
qed

lemma get_fat12_entry:
  assumes m: "mounted io cont fs d" and t: "fs_type fs = FS_FAT12" and c: "c < n_fatent fs"
    and get: "get_fat12 io c fs d = Some (v, fs', d')"
  shows "same_table io cont fs d fs' d' \<and> (v = 0xFFFFFFFF \<or> fat_entry cont fs d c = Some v)"
proof -
  let ?k = "c + c div 2"
  note p = place12 [OF mountedD(3) [OF m] t c]
  then have k: "unat ?k < 512 * unat (fsize fs)" "unat (?k + 1) < 512 * unat (fsize fs)" by simp_all
  obtain r1 fs1 d1 where m1: "move_window io (fat_sector fs (?k div 512)) fs d = Some (r1, fs1, d1)"
    using get by (auto simp: get_fat12_def Let_def split: bind_splits)
  note s1 = move_same_table [OF m octet_place(1) [OF k(1)] m1]
  show ?thesis
  proof (cases "r1 = FR_OK")
    case False
    then show ?thesis using get m1 s1 by (simp add: get_fat12_def Let_def)
  next
    case True
    note o1 = move_octet [OF m k(1) m1 [unfolded True]]
    have fs1: "moved fs fs1" "mounted io cont fs1 d1" using o1(1) by (simp_all add: same_table_def)
    obtain r2 fs2 d2 where m2: "move_window io (fat_sector fs1 ((?k + 1) div 512)) fs1 d1 = Some (r2, fs2, d2)"
      using get m1 True o1(3) by (auto simp: get_fat12_def Let_def split: bind_splits)
    have k2: "unat (?k + 1) < 512 * unat (fsize fs1)" using k(2) moved_fields(3) [OF fs1(1)] by simp
    note s2 = move_same_table [OF fs1(2) octet_place(1) [OF k2] m2]
    show ?thesis
    proof (cases "r2 = FR_OK")
      case False
      then show ?thesis using get m1 True o1 m2 same_table_trans [OF o1(1) s2(1)]
        by (simp add: get_fat12_def Let_def)
    next
      case r2: True
      note o2 = move_octet [OF fs1(2) k2 m2 [unfolded r2]]
      have "fat_octet cont fs1 d1 (?k + 1) = fat_octet cont fs d (?k + 1)"
        by (rule same_table_octet [OF o1(1) k(2)])
      then show ?thesis
        using get m1 True o1(3) m2 r2 o2 same_table_trans [OF o1(1) o2(1)] t
        by (simp add: get_fat12_def Let_def fat_entry_def entry12_def)
    qed
  qed
qed

lemma get_fat16_entry:
  assumes m: "mounted io cont fs d" and t: "fs_type fs = FS_FAT16" and c: "c < n_fatent fs"
    and get: "get_fat16 io c fs d = Some (v, fs', d')"
  shows "same_table io cont fs d fs' d' \<and> (v = 0xFFFFFFFF \<or> fat_entry cont fs d c = Some v)"
proof -
  note p = place16 [OF mountedD(3) [OF m] t c]
  obtain r1 fs1 d1 where m1: "move_window io (fat_sector fs (c div 256)) fs d = Some (r1, fs1, d1)"
    using get by (auto simp: get_fat16_def split: bind_splits)
  note s1 = move_same_table [OF m p(1) m1]
  show ?thesis
    using get m1 s1 t by (auto simp: get_fat16_def fat_entry_def fs_types split: bind_splits if_splits)
qed

lemma get_fat32_entry:
  assumes m: "mounted io cont fs d" and t: "fs_type fs = FS_FAT32" and c: "c < n_fatent fs"
    and get: "get_fat32 io 0x0FFFFFFF c fs d = Some (v, fs', d')"
  shows "same_table io cont fs d fs' d' \<and> (v = 0xFFFFFFFF \<or> fat_entry cont fs d c = Some v)"
proof -
  note p = place32 [OF mountedD(3) [OF m] t c]
  obtain r1 fs1 d1 where m1: "move_window io (fat_sector fs (c div 128)) fs d = Some (r1, fs1, d1)"
    using get by (auto simp: get_fat32_def split: bind_splits)
  note s1 = move_same_table [OF m p(1) m1]
  show ?thesis
    using get m1 s1 t by (auto simp: get_fat32_def fat_entry_def fs_types split: bind_splits if_splits)
qed

lemma get_fat_entry:
  assumes m: "mounted io cont fs d" and c: "in_fat fs c"
    and get: "get_fat io obj c fs d = Some (v, fs', d')"
  shows "same_table io cont fs d fs' d'" and "v = 0xFFFFFFFF \<or> fat_entry cont fs d c = Some v"
proof -
  have c': "\<not> c < 2" "c < n_fatent fs" "\<not> n_fatent fs \<le> c" using c by (auto simp: in_fat_def)
  have "fs_type fs \<in> {FS_FAT12, FS_FAT16, FS_FAT32}" by (rule volume_okD(4) [OF mountedD(3) [OF m]])
  then have "same_table io cont fs d fs' d' \<and> (v = 0xFFFFFFFF \<or> fat_entry cont fs d c = Some v)"
    using get c' get_fat12_entry [OF m _ c'(2)] get_fat16_entry [OF m _ c'(2)] get_fat32_entry [OF m _ c'(2)]
    by (auto simp: get_fat_def fs_types)
  then show "same_table io cont fs d fs' d'" and "v = 0xFFFFFFFF \<or> fat_entry cont fs d c = Some v" by auto
qed

lemma store_window:
  assumes m: "mounted io cont fs d" and s: "winsect fs = fat_sector fs n" "unat n < unat (fsize fs)"
    and w: "length w = 512"
  defines "fs' \<equiv> fs\<lparr>win := w, wflag := 1\<rparr>"
  shows "moved fs fs'" and "mounted io cont fs' d"
    and "shown cont fs' d (fat_sector fs' k) = (if k = n then w else shown cont fs d (fat_sector fs k))"
proof -
  have "winsect fs \<noteq> no_sector"
    using fat_sector_plain [OF mountedD(3) [OF m] s(2)] s(1) by (simp add: plain_def)
  moreover show mv: "moved fs fs'" by (simp add: fs'_def)
  ultimately show "mounted io cont fs' d"
    using m w volume_ok_moved [OF mv] by (simp add: fs'_def mounted_def window_ok_def)
  with mv show "shown cont fs' d (fat_sector fs' k) = (if k = n then w else shown cont fs d (fat_sector fs k))"
    unfolding fat_sector_moved [OF mv] using s(1) fat_sector_inj [of fs k n] by (simp add: fs'_def shown_def)
qed

text \<open>The effect of a write on the table.\<close>

definition table_update ::
  "'d disk_io \<Rightarrow> ('d \<Rightarrow> u64 \<Rightarrow> u8 list) \<Rightarrow> fatfs \<Rightarrow> 'd \<Rightarrow> u32 \<Rightarrow> u32 \<Rightarrow> fatfs \<Rightarrow> 'd \<Rightarrow> bool" where
  "table_update io cont fs d c val fs' d' \<longleftrightarrow> moved fs fs' \<and> mounted io cont fs' d'
     \<and> (\<forall>x. x < n_fatent fs \<longrightarrow>
          fat_entry cont fs' d' x = (if x = c then Some (val AND fat_mask fs) else fat_entry cont fs d x))"

lemma put_fat16_entry:
  assumes m: "mounted io cont fs d" and t: "fs_type fs = FS_FAT16" and c: "c < n_fatent fs"
    and put: "put_fat16 io c val fs d = Some (FR_OK, fs', d')"
  shows "table_update io cont fs d c val fs' d'"
proof -
  note v = mountedD(3) [OF m]
  note p = place16 [OF v t c]
  obtain r1 fs1 d1 where m1: "move_window io (fat_sector fs (c div 256)) fs d = Some (r1, fs1, d1)"
    using put by (auto simp: put_fat16_def split: bind_splits)
  note s1 = move_same_table [OF m p(1) m1]
  have r1: "r1 = FR_OK" using put m1 by (auto simp: put_fat16_def split: if_splits)
  then obtain w where st: "st_word (win fs1) (unat c mod 256 * 2) (ucast val) = Some w"
    and fs': "fs' = fs1\<lparr>win := w, wflag := 1\<rparr>" "d' = d1"
    using put m1 p(2) by (auto simp: put_fat16_def split: bind_splits)
  have st1: "same_table io cont fs d fs1 d1" and m1: "mounted io cont fs1 d1" and mv: "moved fs fs1"
    and w1: "winsect fs1 = fat_sector fs1 (c div 256)" "win fs1 = shown cont fs d (fat_sector fs (c div 256))"
    using s1 r1 by (auto simp: same_table_def fat_sector_moved)
  have len: "length w = 512"
    using word_cell.st_length [OF st] w1(2) length_shown [OF m] by simp
  have "unat (c div 256) < unat (fsize fs1)" using p(1) moved_fields(3) [OF mv] by simp
  note sw = store_window [OF m1 w1(1) this len]
  have entry: "fat_entry cont fs' d' x = (if x = c then Some (val AND fat_mask fs) else fat_entry cont fs d x)"
    if x: "x < n_fatent fs" for x
  proof (cases "x div 256 = c div 256")
    case True
    have "fat_entry cont fs' d' x = map_option ucast (ld_word w (unat x mod 256 * 2))"
      using sw(3) [of "x div 256"] True place16(2) [OF v t x] t moved_fields(6) [OF moved_trans [OF mv sw(1)]]
      by (simp add: fat_entry_def fs' fs_types)
    also have "\<dots> = (if unat c mod 256 = unat x mod 256 then Some (ucast (ucast val :: u16))
                       else map_option ucast (ld_word (win fs1) (unat x mod 256 * 2)))"
      using word_cell.ld_st_array [OF st, of "unat x mod 256"] by simp
    also have "unat c mod 256 = unat x mod 256 \<longleftrightarrow> x = c" using same_cell [OF True] by simp
    also have "(ucast (ucast val :: u16) :: u32) = val AND fat_mask fs"
    proof -
      have "(0xFFFF :: u32) = mask 16" by (simp add: mask_eq_exp_minus_1)
      then have "fat_mask fs = mask 16" using t by (simp add: fat_mask_def fs_types)
      then show ?thesis
        by (auto intro!: bit_word_eqI simp: bit_ucast_iff bit_and_iff bit_mask_iff)
    qed
    also have "map_option ucast (ld_word (win fs1) (unat x mod 256 * 2)) = fat_entry cont fs d x"
      using True w1(2) place16(2) [OF v t x] t by (simp add: fat_entry_def fs_types)
    finally show ?thesis .
  next
    case False
    then have "fat_entry cont fs' d' x = fat_entry cont fs1 d1 x"
      using sw(3) [of "x div 256"] t moved_fields(6) [OF moved_trans [OF mv sw(1)]] moved_fields(6) [OF mv]
      by (simp add: fat_entry_def fs' fs_types)
    then show ?thesis using False same_table_entry [OF st1 v x] by auto
  qed
  then show ?thesis using sw(1,2) moved_trans [OF mv sw(1)] by (simp add: table_update_def fs')
qed

lemma put_fat32_entry:
  assumes m: "mounted io cont fs d" and t: "fs_type fs = FS_FAT32" and c: "c < n_fatent fs"
    and put: "put_fat32 io c val fs d = Some (FR_OK, fs', d')"
  shows "table_update io cont fs d c val fs' d'"
proof -
  note v = mountedD(3) [OF m]
  note p = place32 [OF v t c]
  obtain r1 fs1 d1 where m1: "move_window io (fat_sector fs (c div 128)) fs d = Some (r1, fs1, d1)"
    using put by (auto simp: put_fat32_def split: bind_splits)
  note s1 = move_same_table [OF m p(1) m1]
  have r1: "r1 = FR_OK" using put m1 by (auto simp: put_fat32_def split: if_splits)
  then have st1: "same_table io cont fs d fs1 d1" and mt1: "mounted io cont fs1 d1" and mv: "moved fs fs1"
    and w1: "winsect fs1 = fat_sector fs1 (c div 128)" "win fs1 = shown cont fs d (fat_sector fs (c div 128))"
    using s1 by (auto simp: same_table_def fat_sector_moved)
  obtain old w where st: "st_dword (win fs1) (unat c mod 128 * 4) ((val AND 0x0FFFFFFF) OR (old AND 0xF0000000)) = Some w"
    and fs': "fs' = fs1\<lparr>win := w, wflag := 1\<rparr>" "d' = d1"
    using put m1 p(2) r1 t moved_fields(6) [OF mv]
    by (auto simp: put_fat32_def fs_types Let_def split: bind_splits)
  have len: "length w = 512"
    using dword_cell.st_length [OF st] w1(2) length_shown [OF m] by simp
  have "unat (c div 128) < unat (fsize fs1)" using p(1) moved_fields(3) [OF mv] by simp
  note sw = store_window [OF mt1 w1(1) this len]
  have entry: "fat_entry cont fs' d' x = (if x = c then Some (val AND fat_mask fs) else fat_entry cont fs d x)"
    if x: "x < n_fatent fs" for x
  proof (cases "x div 128 = c div 128")
    case True
    have "fat_entry cont fs' d' x = map_option (\<lambda>v. v AND 0x0FFFFFFF) (ld_dword w (unat x mod 128 * 4))"
      using sw(3) [of "x div 128"] True place32(2) [OF v t x] t moved_fields(6) [OF moved_trans [OF mv sw(1)]]
      by (simp add: fat_entry_def fs' fs_types)
    also have "\<dots> = (if unat c mod 128 = unat x mod 128
                       then Some (((val AND 0x0FFFFFFF) OR (old AND 0xF0000000)) AND 0x0FFFFFFF)
                       else map_option (\<lambda>v. v AND 0x0FFFFFFF) (ld_dword (win fs1) (unat x mod 128 * 4)))"
      using dword_cell.ld_st_array [OF st, of "unat x mod 128"] by simp
    also have "unat c mod 128 = unat x mod 128 \<longleftrightarrow> x = c" using same_cell [OF True] by simp
    also have "((val AND 0x0FFFFFFF) OR (old AND 0xF0000000)) AND 0x0FFFFFFF = val AND fat_mask fs"
      using t by (simp add: fat_mask_def fs_types bit.conj_disj_distrib2 and.assoc)
    also have "map_option (\<lambda>v. v AND 0x0FFFFFFF) (ld_dword (win fs1) (unat x mod 128 * 4)) = fat_entry cont fs d x"
      using True w1(2) place32(2) [OF v t x] t by (simp add: fat_entry_def fs_types)
    finally show ?thesis .
  next
    case False
    then have "fat_entry cont fs' d' x = fat_entry cont fs1 d1 x"
      using sw(3) [of "x div 128"] t moved_fields(6) [OF moved_trans [OF mv sw(1)]] moved_fields(6) [OF mv]
      by (simp add: fat_entry_def fs' fs_types)
    then show ?thesis using False same_table_entry [OF st1 v x] by auto
  qed
  then show ?thesis using sw(1,2) moved_trans [OF mv sw(1)] by (simp add: table_update_def fs')
qed

text \<open>The nibbles of FAT12.\<close>

lemma masks12: "(0x0F :: u8) = mask 4" "(0xF0 :: u8) = push_bit 4 (mask 4)" "(0xFFF :: u32) = mask 12"
  by (simp_all add: mask_eq_exp_minus_1)

lemmas nibble_bits = bit_or_iff bit_and_iff bit_push_bit_iff bit_drop_bit_eq bit_ucast_iff bit_mask_iff

lemma nibbles:
  fixes b b0 b1 x y :: u8 and val :: u32
  shows "(ucast (ucast val :: u8) OR push_bit 8 (ucast ((b AND 0xF0) OR (ucast (drop_bit 8 val) AND 0x0F)))) AND 0xFFF
           = val AND 0xFFF" (is ?A)
    and "drop_bit 4 (ucast ((b AND 0x0F) OR push_bit 4 (ucast val)) OR push_bit 8 (ucast (ucast (drop_bit 4 val) :: u8)))
           = val AND 0xFFF" (is ?B)
    and "drop_bit 4 (ucast ((b AND 0xF0) OR (x AND 0x0F)) OR push_bit 8 (ucast b1))
           = drop_bit 4 (ucast b OR push_bit 8 (ucast b1) :: u32)" (is ?C)
    and "(ucast b0 OR push_bit 8 (ucast ((b AND 0x0F) OR push_bit 4 y))) AND 0xFFF
           = (ucast b0 OR push_bit 8 (ucast b)) AND (0xFFF :: u32)" (is ?D)
proof -
  show ?A unfolding masks12
  proof (rule bit_word_eqI)
    fix n assume "n < LENGTH(32)"
    consider "n < 8" | "8 \<le> n" "n < 12" | "12 \<le> n" by linarith
    then show "bit ((ucast (ucast val :: u8) OR push_bit 8 (ucast ((b AND push_bit 4 (mask 4)) OR (ucast (drop_bit 8 val) AND mask 4)))) AND mask 12 :: u32) n
        = bit (val AND mask 12) n"
      by cases (auto simp: nibble_bits)
  qed
  show ?B unfolding masks12
  proof (rule bit_word_eqI)
    fix n assume "n < LENGTH(32)"
    consider "n < 4" | "4 \<le> n" "n < 12" | "12 \<le> n" by linarith
    then show "bit (drop_bit 4 (ucast ((b AND mask 4) OR push_bit 4 (ucast val)) OR push_bit 8 (ucast (ucast (drop_bit 4 val) :: u8))) :: u32) n
        = bit (val AND mask 12) n"
      by cases (auto simp: nibble_bits)
  qed
  show ?C unfolding masks12
    by (rule bit_word_eqI) (auto simp: nibble_bits dest: bit_imp_le_length)
  show ?D unfolding masks12 by (rule bit_word_eqI) (auto simp: nibble_bits)
qed

lemma store_octet:
  assumes m: "mounted io cont fs d" and k: "unat k < 512 * unat (fsize fs)"
    and s: "winsect fs = fat_sector fs (k div 512)"
    and w: "wr (win fs) (unat (k mod 512)) b = Some w"
  defines "fs' \<equiv> fs\<lparr>win := w, wflag := 1\<rparr>"
  shows "moved fs fs'" and "mounted io cont fs' d"
    and "fat_octet cont fs' d j = (if j = k then b else fat_octet cont fs d j)"
proof -
  have win: "win fs = shown cont fs d (fat_sector fs (k div 512))" using s by (simp add: shown_def)
  have len: "length (win fs) = 512" unfolding win by (rule length_shown [OF m])
  have w': "w = (win fs)[unat (k mod 512) := b]" using w by (simp add: wr_def split: if_splits)
  have "length w = 512" using len w' by simp
  note sw = store_window [OF m s octet_place(1) [OF k] this]
  show "moved fs fs'" and "mounted io cont fs' d" unfolding fs'_def by (rule sw(1), rule sw(2))
  show "fat_octet cont fs' d j = (if j = k then b else fat_octet cont fs d j)"
  proof (cases "j div 512 = k div 512")
    case True
    then have "fat_octet cont fs' d j = w ! unat (j mod 512)"
      using sw(3) [of "j div 512"] by (simp add: fat_octet_def fs'_def)
    moreover have "unat (j mod 512) = unat (k mod 512) \<longleftrightarrow> j = k" using same_place [OF True] by auto
    ultimately show ?thesis
      using w' win True len octet_place(2) [OF k] by (auto simp: fat_octet_def nth_list_update)
  next
    case False
    then show ?thesis using sw(3) [of "j div 512"] by (auto simp: fat_octet_def fs'_def)
  qed
qed

text \<open>The octets of two entries: entries next to each other may share one.\<close>

lemma places_meet:
  fixes x c :: nat
  assumes "x \<noteq> c"
  shows "x + x div 2 \<noteq> c + c div 2" 
    and "x + x div 2 = c + c div 2 + 1 \<longleftrightarrow> even c \<and> x = c + 1"
    and "x + x div 2 + 1 = c + c div 2 \<longleftrightarrow> odd c \<and> x + 1 = c"
proof -
  obtain a r where x: "x = 2 * a + r" "r < 2" using that [of "x div 2" "x mod 2"] by simp
  obtain b s where c: "c = 2 * b + s" "s < 2" using that [of "c div 2" "c mod 2"] by simp
  have d: "x div 2 = a" "c div 2 = b" using x c by simp_all
  have r: "r = 0 \<or> r = 1" "s = 0 \<or> s = 1" using x(2) c(2) by linarith+
  show "x + x div 2 \<noteq> c + c div 2" 
    and "x + x div 2 = c + c div 2 + 1 \<longleftrightarrow> even c \<and> x = c + 1"
    and "x + x div 2 + 1 = c + c div 2 \<longleftrightarrow> odd c \<and> x + 1 = c"
    using assms r unfolding d by (auto simp: x(1) c(1); presburger)+
qed

lemma odd_word: "(c :: u32) AND 1 \<noteq> 0 \<longleftrightarrow> odd (unat c)"
proof -
  have "c AND 1 = c mod 2" by (simp add: and_one_eq)
  moreover have "unat (c mod 2) = unat c mod 2" by (simp add: unat_mod)
  ultimately show ?thesis by (metis mod2_eq_if unat_0 unsigned_word_eqI zero_neq_one)
qed

lemma put_fat12_entry:
  assumes m: "mounted io cont fs d" and t: "fs_type fs = FS_FAT12" and c: "c < n_fatent fs"
    and put: "put_fat12 io c val fs d = Some (FR_OK, fs', d')"
  shows "table_update io cont fs d c val fs' d'"
proof -
  let ?k = "c + c div 2"
  note v = mountedD(3) [OF m]
  note p = place12 [OF v t c]
  then have k: "unat ?k < 512 * unat (fsize fs)" "unat (?k + 1) < 512 * unat (fsize fs)" by simp_all
  obtain r1 fs1 d1 where m1: "move_window io (fat_sector fs (?k div 512)) fs d = Some (r1, fs1, d1)"
    using put by (auto simp: put_fat12_def Let_def split: bind_splits)
  then have r1: "r1 = FR_OK" using put by (auto simp: put_fat12_def Let_def split: if_splits)
  note o1 = move_octet [OF m k(1) m1 [unfolded r1]]
  have mv1: "moved fs fs1" "mounted io cont fs1 d1" using o1(1) by (simp_all add: same_table_def)
  define b1 where "b1 = (if c AND 1 \<noteq> 0 then (fat_octet cont fs d ?k AND 0x0F) OR push_bit 4 (ucast val) else ucast val)"
  obtain w1 where w1: "wr (win fs1) (unat (?k mod 512)) b1 = Some w1"
    using put m1 r1 o1(3) by (auto simp: put_fat12_def Let_def b1_def split: bind_splits)
  define fs2 where "fs2 = fs1\<lparr>win := w1, wflag := 1\<rparr>"
  have k1: "unat ?k < 512 * unat (fsize fs1)" using k(1) moved_fields(3) [OF mv1(1)] by simp
  have s1: "winsect fs1 = fat_sector fs1 (?k div 512)" using o1(2) fat_sector_moved [OF mv1(1)] by simp
  note st1 = store_octet [OF mv1(2) k1 s1 w1, folded fs2_def]
  obtain r2 fs3 d3 where m2: "move_window io (fat_sector fs2 ((?k + 1) div 512)) fs2 d1 = Some (r2, fs3, d3)"
    using put m1 r1 o1(3) w1 by (auto simp: put_fat12_def Let_def b1_def fs2_def split: bind_splits)
  have r2: "r2 = FR_OK"
    using put m1 r1 o1(3) w1 m2 by (auto simp: put_fat12_def Let_def b1_def fs2_def split: if_splits)
  have k2: "unat (?k + 1) < 512 * unat (fsize fs2)" using k(2) moved_fields(3) [OF moved_trans [OF mv1(1) st1(1)]] by simp
  note o2 = move_octet [OF st1(2) k2 m2 [unfolded r2]]
  have mv3: "moved fs2 fs3" "mounted io cont fs3 d3" using o2(1) by (simp_all add: same_table_def)
  define x2 where "x2 = fat_octet cont fs2 d1 (?k + 1)"
  define b2 where "b2 = (if c AND 1 \<noteq> 0 then ucast (drop_bit 4 val)
                         else (x2 AND 0xF0) OR (ucast (drop_bit 8 val) AND 0x0F))"
  obtain w2 where w2: "wr (win fs3) (unat ((?k + 1) mod 512)) b2 = Some w2"
    and fs': "fs' = fs3\<lparr>win := w2, wflag := 1\<rparr>" "d' = d3"
    using put m1 r1 o1(3) w1 m2 r2 o2(3) [folded x2_def]
    by (auto simp: put_fat12_def Let_def b1_def b2_def fs2_def split: bind_splits)
  have k3: "unat (?k + 1) < 512 * unat (fsize fs3)" using k2 moved_fields(3) [OF mv3(1)] by simp
  have s3: "winsect fs3 = fat_sector fs3 ((?k + 1) div 512)" using o2(2) fat_sector_moved [OF mv3(1)] by simp
  note st2 = store_octet [OF mv3(2) k3 s3 w2, folded fs'(1)]
  have mv: "moved fs fs'" using moved_trans [OF moved_trans [OF mv1(1) st1(1)] moved_trans [OF mv3(1) st2(1)]] .
  have octet2: "fat_octet cont fs2 d1 j = (if j = ?k then b1 else fat_octet cont fs d j)"
    if "unat j < 512 * unat (fsize fs)" for j
    using st1(3) same_table_octet [OF o1(1) that] by simp
  have octet: "fat_octet cont fs' d3 j = (if j = ?k + 1 then b2 else if j = ?k then b1 else fat_octet cont fs d j)"
    if "unat j < 512 * unat (fsize fs)" for j
    using st2(3) same_table_octet [OF o2(1), of j] octet2 [OF that] that moved_fields(3) [OF moved_trans [OF mv1(1) st1(1)]] by simp
  have b2: "b2 = (if c AND 1 \<noteq> 0 then ucast (drop_bit 4 val)
                  else (fat_octet cont fs d (?k + 1) AND 0xF0) OR (ucast (drop_bit 8 val) AND 0x0F))"
    using octet2 [OF k(2)] by (simp add: b2_def x2_def)
  have entry: "fat_entry cont fs' d3 x = (if x = c then Some (val AND fat_mask fs) else fat_entry cont fs d x)"
    if x: "x < n_fatent fs" for x
  proof -
    let ?l = "x + x div 2"
    note px = place12 [OF v t x]
    then have l: "unat ?l < 512 * unat (fsize fs)" "unat (?l + 1) < 512 * unat (fsize fs)" by simp_all
    have eq: "fat_entry cont fs' d3 x = Some (entry12 x (fat_octet cont fs' d3 ?l) (fat_octet cont fs' d3 (?l + 1)))"
      using t by (simp add: fat_entry_def moved_fields [OF mv])
    have eq0: "fat_entry cont fs d x = Some (entry12 x (fat_octet cont fs d ?l) (fat_octet cont fs d (?l + 1)))"
      using t by (simp add: fat_entry_def)
    show ?thesis
    proof (cases "x = c")
      case True
      have "?k \<noteq> ?k + 1" by simp
      then show ?thesis
        using eq octet [OF k(1)] octet [OF k(2)] True t nibbles(1,2)
        by (simp add: entry12_def b1_def b2 fat_mask_def)
    next
      case False
      then have ne: "unat x \<noteq> unat c" using unsigned_word_eqI by blast
      note meet = places_meet [OF ne]
      have e1: "?l \<noteq> ?k" "?l + 1 \<noteq> ?k + 1" using meet(1) px(1) p(1) by auto
      have e2: "?l = ?k + 1 \<longleftrightarrow> even (unat c) \<and> unat x = unat c + 1"
        using meet(2) px(1) p(2) by (metis unsigned_word_eqI)
      have e3: "?l + 1 = ?k \<longleftrightarrow> odd (unat c) \<and> unat x + 1 = unat c"
        using meet(3) px(2) p(1) by (metis unsigned_word_eqI)
      have lo: "fat_octet cont fs' d3 ?l = (if even (unat c) \<and> unat x = unat c + 1 then b2 else fat_octet cont fs d ?l)"
        using octet [OF l(1)] e1(1) e2 by simp
      have hi: "fat_octet cont fs' d3 (?l + 1) = (if odd (unat c) \<and> unat x + 1 = unat c then b1 else fat_octet cont fs d (?l + 1))"
        using octet [OF l(2)] e1(2) e3 by simp
      consider (above) "even (unat c)" "unat x = unat c + 1" | (below) "odd (unat c)" "unat x + 1 = unat c"
        | (apart) "\<not> (even (unat c) \<and> unat x = unat c + 1)" "\<not> (odd (unat c) \<and> unat x + 1 = unat c)" by blast
      then show ?thesis
      proof cases
        case above
        then have "odd (unat x)" and "?l = ?k + 1" using e2 by auto
        then show ?thesis
          using eq eq0 lo hi above False nibbles(3) odd_word [of c] odd_word [of x]
          by (simp add: entry12_def b2)
      next
        case below
        then have "even (unat x)" by (metis even_plus_one_iff)
        moreover have "?l + 1 = ?k" using e3 below by simp
        ultimately show ?thesis
          using eq eq0 lo hi below False nibbles(4) odd_word [of c] odd_word [of x]
          by (simp add: entry12_def b1_def)
      next
        case apart
        then show ?thesis using eq eq0 lo hi False by auto
      qed
    qed
  qed
  then show ?thesis using mv st2(2) by (simp add: table_update_def fs'(2))
qed

lemma put_fat_entry:
  assumes m: "mounted io cont fs d" and c: "in_fat fs c"
    and put: "put_fat io c val fs d = Some (FR_OK, fs', d')"
  shows "table_update io cont fs d c val fs' d'"
proof -
  have c': "2 \<le> c" "c < n_fatent fs" using c by (auto simp: in_fat_def)
  have "fs_type fs \<in> {FS_FAT12, FS_FAT16, FS_FAT32}" by (rule volume_okD(4) [OF mountedD(3) [OF m]])
  then show ?thesis
    using put c' put_fat12_entry [OF m _ c'(2)] put_fat16_entry [OF m _ c'(2)] put_fat32_entry [OF m _ c'(2)]
    by (auto simp: put_fat_def fs_types)
qed

section \<open>Every access returns\<close>

lemma window_rd: "window_ok cont fs d \<Longrightarrow> i < 512 \<Longrightarrow> \<exists>b. rd (win fs) i = Some b"
  by (simp add: window_ok_def rd_def)

lemma window_wr: "window_ok cont fs d \<Longrightarrow> i < 512 \<Longrightarrow> \<exists>w. wr (win fs) i b = Some w"
  by (simp add: window_ok_def wr_def)

lemma move_returns:
  assumes m: "mounted io cont fs d" and r: "disk_returns io (pdrv fs)" and n: "unat n < unat (fsize fs)"
  obtains res fs' d' where "move_window io (fat_sector fs n) fs d = Some (res, fs', d')"
    and "same_table io cont fs d fs' d'" and "res \<in> {FR_OK, FR_DISK_ERR}"
    and "window_ok cont fs' d'" and "res = FR_OK \<longrightarrow> winsect fs' = fat_sector fs n"
proof -
  obtain res fs' d' where mv: "move_window io (fat_sector fs n) fs d = Some (res, fs', d')"
    using move_window_returns [OF r mountedD(1,2) [OF m]] by blast
  note s = move_same_table [OF m n mv]
  have "window_ok cont fs' d'" using s(1) by (simp add: same_table_def mounted_def)
  then show thesis using that mv s by blast
qed

lemma get_fat_returns:
  assumes m: "mounted io cont fs d" and r: "disk_returns io (pdrv fs)" and c: "in_fat fs c"
  obtains v fs' d' where "get_fat io obj c fs d = Some (v, fs', d')" and "same_table io cont fs d fs' d'"
    and "v = 0xFFFFFFFF \<or> fat_entry cont fs d c = Some v"
proof -
  have c': "\<not> c < 2" "c < n_fatent fs" "\<not> n_fatent fs \<le> c" using c by (auto simp: in_fat_def)
  note v = mountedD(3) [OF m]
  have "get_fat io obj c fs d \<noteq> None"
  proof -
    consider (12) "fs_type fs = FS_FAT12" | (16) "fs_type fs = FS_FAT16" | (32) "fs_type fs = FS_FAT32"
      using volume_okD(4) [OF v] by blast
    then show ?thesis
    proof cases
      case 12
      let ?k = "c + c div 2"
      note p = place12 [OF v 12 c'(2)]
      then have k: "unat ?k < 512 * unat (fsize fs)" "unat (?k + 1) < 512 * unat (fsize fs)" by simp_all
      obtain r1 fs1 d1 where m1: "move_window io (fat_sector fs (?k div 512)) fs d = Some (r1, fs1, d1)"
        and s1: "same_table io cont fs d fs1 d1" and w1: "window_ok cont fs1 d1"
        by (rule move_returns [OF m r octet_place(1) [OF k(1)]])
      obtain b1 where b1: "rd (win fs1) (unat (?k mod 512)) = Some b1" using window_rd [OF w1 octet_place(2) [OF k(1)]] by blast
      have mt1: "mounted io cont fs1 d1" "disk_returns io (pdrv fs1)" "unat (?k + 1) < 512 * unat (fsize fs1)"
        using s1 r k(2) by (auto simp: same_table_def moved_fields)
      obtain r2 fs2 d2 where m2: "move_window io (fat_sector fs1 ((?k + 1) div 512)) fs1 d1 = Some (r2, fs2, d2)"
        and w2: "window_ok cont fs2 d2"
        by (rule move_returns [OF mt1(1,2) octet_place(1) [OF mt1(3)]])
      obtain b2 where "rd (win fs2) (unat ((?k + 1) mod 512)) = Some b2" using window_rd [OF w2 octet_place(2) [OF k(2)]] by blast
      then show ?thesis using m1 b1 m2 c' 12 by (simp add: get_fat_def get_fat12_def Let_def)
    next
      case 16
      note p = place16 [OF v 16 c'(2)]
      obtain r1 fs1 d1 where m1: "move_window io (fat_sector fs (c div 256)) fs d = Some (r1, fs1, d1)"
        and w1: "window_ok cont fs1 d1"
        by (rule move_returns [OF m r p(1)])
      have "unat (c * 2 mod 512) + 2 \<le> length (win fs1)"
        using w1 mod_less_divisor [of 256 "unat c"] unfolding p(2) by (simp add: window_ok_def)
      then obtain w where "ld_word (win fs1) (unat (c * 2 mod 512)) = Some w" using word_cell.ld_total by blast
      then show ?thesis using m1 c' 16 by (simp add: get_fat_def get_fat16_def fs_types)
    next
      case 32
      note p = place32 [OF v 32 c'(2)]
      obtain r1 fs1 d1 where m1: "move_window io (fat_sector fs (c div 128)) fs d = Some (r1, fs1, d1)"
        and w1: "window_ok cont fs1 d1"
        by (rule move_returns [OF m r p(1)])
      have "unat (c * 4 mod 512) + 4 \<le> length (win fs1)"
        using w1 mod_less_divisor [of 128 "unat c"] unfolding p(2) by (simp add: window_ok_def)
      then obtain w where "ld_dword (win fs1) (unat (c * 4 mod 512)) = Some w" using dword_cell.ld_total by blast
      then show ?thesis using m1 c' 32 by (simp add: get_fat_def get_fat32_def fs_types)
    qed
  qed
  then obtain x where "get_fat io obj c fs d = Some x" by blast
  moreover obtain v fs' d' where "x = (v, fs', d')" by (cases x)
  ultimately show thesis using that get_fat_entry [OF m c] by blast
qed

lemma put_fat_returns:
  assumes m: "mounted io cont fs d" and r: "disk_returns io (pdrv fs)" and c: "in_fat fs c"
  obtains res fs' d' where "put_fat io c val fs d = Some (res, fs', d')" and "res \<in> {FR_OK, FR_DISK_ERR}"
    and "res = FR_OK \<Longrightarrow> table_update io cont fs d c val fs' d'"
proof -
  have c': "2 \<le> c" "c < n_fatent fs" using c by (auto simp: in_fat_def)
  note v = mountedD(3) [OF m]
  have "\<exists>res fs' d'. put_fat io c val fs d = Some (res, fs', d') \<and> res \<in> {FR_OK, FR_DISK_ERR}"
  proof -
    consider (12) "fs_type fs = FS_FAT12" | (16) "fs_type fs = FS_FAT16" | (32) "fs_type fs = FS_FAT32"
      using volume_okD(4) [OF v] by blast
    then show ?thesis
    proof cases
      case 12
      let ?k = "c + c div 2"
      note p = place12 [OF v 12 c'(2)]
      then have k: "unat ?k < 512 * unat (fsize fs)" "unat (?k + 1) < 512 * unat (fsize fs)" by simp_all
      obtain r1 fs1 d1 where m1: "move_window io (fat_sector fs (?k div 512)) fs d = Some (r1, fs1, d1)"
        and s1: "same_table io cont fs d fs1 d1" and r1: "r1 \<in> {FR_OK, FR_DISK_ERR}" and w1: "window_ok cont fs1 d1"
        and ws: "r1 = FR_OK \<longrightarrow> winsect fs1 = fat_sector fs (?k div 512)"
        by (rule move_returns [OF m r octet_place(1) [OF k(1)]])
      show ?thesis
      proof (cases "r1 = FR_OK")
        case False
        then show ?thesis using m1 r1 12 c' by (simp add: put_fat_def put_fat12_def Let_def)
      next
        case True
        obtain b1 where b1: "rd (win fs1) (unat (?k mod 512)) = Some b1" using window_rd [OF w1 octet_place(2) [OF k(1)]] by blast
        define x1 where "x1 = (if c AND 1 \<noteq> 0 then (b1 AND 0x0F) OR push_bit 4 (ucast val) else ucast val)"
        obtain y1 where y1: "wr (win fs1) (unat (?k mod 512)) x1 = Some y1" using window_wr [OF w1 octet_place(2) [OF k(1)]] by blast
        have mt1: "mounted io cont fs1 d1" "moved fs fs1" using s1 by (auto simp: same_table_def)
        define fs2 where "fs2 = fs1\<lparr>win := y1, wflag := 1\<rparr>"
        have "unat ?k < 512 * unat (fsize fs1)" "winsect fs1 = fat_sector fs1 (?k div 512)"
          using k(1) moved_fields(3) [OF mt1(2)] ws True fat_sector_moved [OF mt1(2)] by auto
        note st = store_octet [OF mt1(1) this y1, folded fs2_def]
        have mt2: "disk_returns io (pdrv fs2)" "unat (?k + 1) < 512 * unat (fsize fs2)"
          using moved_fields(1,3) [OF moved_trans [OF mt1(2) st(1)]] r k(2) by simp_all
        obtain r2 fs3 d3 where m2: "move_window io (fat_sector fs2 ((?k + 1) div 512)) fs2 d1 = Some (r2, fs3, d3)"
          and w3: "window_ok cont fs3 d3" and r2: "r2 \<in> {FR_OK, FR_DISK_ERR}"
          by (rule move_returns [OF st(2) mt2(1) octet_place(1) [OF mt2(2)]])
        obtain b3 where b3: "rd (win fs3) (unat ((?k + 1) mod 512)) = Some b3" using window_rd [OF w3 octet_place(2) [OF k(2)]] by blast
        define x3 where "x3 = (if c AND 1 \<noteq> 0 then ucast (drop_bit 4 val) else (b3 AND 0xF0) OR (ucast (drop_bit 8 val) AND 0x0F))"
        obtain y3 where y3: "wr (win fs3) (unat ((?k + 1) mod 512)) x3 = Some y3" using window_wr [OF w3 octet_place(2) [OF k(2)]] by blast
        have "put_fat io c val fs d = Some (if r2 = FR_OK then (FR_OK, fs3\<lparr>win := y3, wflag := 1\<rparr>, d3) else (r2, fs3, d3))"
          using m1 b1 y1 m2 b3 y3 True c' 12
          by (auto simp: put_fat_def put_fat12_def Let_def x1_def x3_def fs2_def)
        then show ?thesis using r2 by auto
      qed
    next
      case 16
      note p = place16 [OF v 16 c'(2)]
      obtain r1 fs1 d1 where m1: "move_window io (fat_sector fs (c div 256)) fs d = Some (r1, fs1, d1)"
        and w1: "window_ok cont fs1 d1" and r1: "r1 \<in> {FR_OK, FR_DISK_ERR}"
        by (rule move_returns [OF m r p(1)])
      have "unat (c * 2 mod 512) + 2 \<le> length (win fs1)"
        using w1 mod_less_divisor [of 256 "unat c"] unfolding p(2) by (simp add: window_ok_def)
      then obtain w where "st_word (win fs1) (unat (c * 2 mod 512)) (ucast val) = Some w" using word_cell.st_total by blast
      then show ?thesis using m1 r1 c' 16 by (auto simp: put_fat_def put_fat16_def fs_types)
    next
      case 32
      note p = place32 [OF v 32 c'(2)]
      obtain r1 fs1 d1 where m1: "move_window io (fat_sector fs (c div 128)) fs d = Some (r1, fs1, d1)"
        and w1: "window_ok cont fs1 d1" and r1: "r1 \<in> {FR_OK, FR_DISK_ERR}"
        by (rule move_returns [OF m r p(1)])
      have len: "unat (c * 4 mod 512) + 4 \<le> length (win fs1)"
        using w1 mod_less_divisor [of 128 "unat c"] unfolding p(2) by (simp add: window_ok_def)
      then obtain old where old: "ld_dword (win fs1) (unat (c * 4 mod 512)) = Some old" using dword_cell.ld_total by blast
      define x where "x = (if fs_type fs1 \<noteq> FS_EXFAT then (val AND 0x0FFFFFFF) OR (old AND 0xF0000000) else val)"
      obtain w where "st_dword (win fs1) (unat (c * 4 mod 512)) x = Some w" using dword_cell.st_total [OF len] by blast
      then show ?thesis using m1 r1 c' 32 old by (auto simp: put_fat_def put_fat32_def fs_types x_def Let_def)
    qed
  qed
  then show thesis using that put_fat_entry [OF m c] by blast
qed

end
