(* ===== verification/Ff_Chains.thy ===== *)
theory Ff_Chains
  imports Ff_Fat_Facts
begin

text \<open>
  What \<open>create_chain\<close> and \<open>remove_chain\<close> do to the table of a FAT12, FAT16 or FAT32 volume, and that
  their loops come to an end: a chain grows by a cluster that was free, or by none when there is
  none, and a chain that is removed leaves its clusters free. A disk that reports errors is part of
  the statements.
\<close>

section \<open>The volume between the calls\<close>

definition same_fat :: "fatfs \<Rightarrow> fatfs \<Rightarrow> bool" where
  "same_fat fs fs' \<longleftrightarrow> n_fatent fs' = n_fatent fs \<and> fs_type fs' = fs_type fs \<and> pdrv fs' = pdrv fs"

lemma same_fat_refl [simp]: "same_fat fs fs"
  by (simp add: same_fat_def)

lemma same_fat_trans: "same_fat fs fs1 \<Longrightarrow> same_fat fs1 fs2 \<Longrightarrow> same_fat fs fs2"
  by (simp add: same_fat_def)

lemma same_fat_moved: "moved fs fs' \<Longrightarrow> same_fat fs fs'"
  by (simp add: same_fat_def moved_fields)

lemma same_fatD:
  assumes "same_fat fs fs'"
  shows "n_fatent fs' = n_fatent fs" and "fs_type fs' = fs_type fs" and "pdrv fs' = pdrv fs"
    and "in_fat fs' c = in_fat fs c" and "fat_mask fs' = fat_mask fs"
  using assms by (auto simp: same_fat_def in_fat_def fat_mask_def)

text \<open>The counters of the volume are no part of the table.\<close>

definition counters :: "u32 \<Rightarrow> u32 \<Rightarrow> u8 \<Rightarrow> fatfs \<Rightarrow> fatfs" where
  "counters l f i fs = fs\<lparr>last_clst := l, free_clst := f, fsi_flag := i\<rparr>"

lemma counters_table:
  "mounted io cont (counters l f i fs) d = mounted io cont fs d"
  "fat_entry cont (counters l f i fs) d = fat_entry cont fs d"
  "same_fat fs (counters l f i fs)"
proof -
  show "mounted io cont (counters l f i fs) d = mounted io cont fs d"
    by (simp add: counters_def mounted_def window_ok_def volume_ok_def table_octets_def fat_mask_def Let_def)
  show "fat_entry cont (counters l f i fs) d = fat_entry cont fs d"
    by (rule ext) (simp add: counters_def fat_entry_def fat_octet_def shown_def fat_sector_def)
  show "same_fat fs (counters l f i fs)" by (simp add: counters_def same_fat_def)
qed

lemma count_freed_counters:
  "count_freed fs = counters (last_clst fs)
     (if free_clst fs < n_fatent fs - 2 then free_clst fs + 1 else free_clst fs)
     (if free_clst fs < n_fatent fs - 2 then fsi_flag fs OR 1 else fsi_flag fs) fs"
  by (simp add: count_freed_def counters_def)

lemma count_taken_counters:
  "count_taken ncl fs = counters ncl
     (if free_clst fs \<le> n_fatent fs - 2 then free_clst fs - 1 else free_clst fs) (fsi_flag fs OR 1) fs"
  by (simp add: count_taken_def counters_def Let_def)

lemma same_table_fat:
  assumes "same_table io cont fs d fs' d'" and "volume_ok fs"
  shows "same_fat fs fs'" and "mounted io cont fs' d'"
    and "in_fat fs c \<Longrightarrow> fat_entry cont fs' d' c = fat_entry cont fs d c"
  using assms same_table_entry [OF assms] by (auto simp: same_table_def same_fat_moved in_fat_def)

lemma table_updateD:
  assumes "table_update io cont fs d c val fs' d'"
  shows "moved fs fs'" and "same_fat fs fs'" and "mounted io cont fs' d'"
    and "in_fat fs x \<Longrightarrow> fat_entry cont fs' d' x = (if x = c then Some (val AND fat_mask fs) else fat_entry cont fs d x)"
  using assms by (auto simp: table_update_def same_fat_moved in_fat_def)

text \<open>An entry never has bits outside of its mask, and a cluster number fits an entry.\<close>

lemma entry_masked:
  assumes "mounted io cont fs d" and "fat_entry cont fs d c = Some v"
  shows "v AND fat_mask fs = v"
proof -
  have m: "(0xFFF :: u32) = mask 12" "(0xFFFF :: u32) = mask 16" by (simp_all add: mask_eq_exp_minus_1)
  consider (12) "fs_type fs = FS_FAT12" | (16) "fs_type fs = FS_FAT16" | (32) "fs_type fs = FS_FAT32"
    using volume_okD(4) [OF mountedD(3) [OF assms(1)]] by blast
  then show ?thesis
  proof cases
    case 12
    have "entry12 c b0 b1 AND mask 12 = entry12 c b0 b1" for b0 b1
      by (rule bit_word_eqI) (auto simp: entry12_def Let_def m nibble_bits dest: bit_imp_le_length)
    then show ?thesis using assms(2) 12 by (auto simp: fat_entry_def fat_mask_def m(1) fs_types)
  next
    case 16
    have "(ucast (w :: u16) :: u32) AND mask 16 = ucast w" for w
      by (rule bit_word_eqI) (auto simp: nibble_bits dest: bit_imp_le_length)
    then show ?thesis using assms(2) 16 by (auto simp: fat_entry_def fat_mask_def m(2) fs_types)
  next
    case 32
    then show ?thesis using assms(2) by (auto simp: fat_entry_def fat_mask_def fs_types and.assoc)
  qed
qed

lemma cluster_masked:
  assumes "mounted io cont fs d" and "c < n_fatent fs"
  shows "c AND fat_mask fs = c"
proof -
  have v: "volume_ok fs" by (rule mountedD(3) [OF assms(1)])
  have "unat c < unat (fat_mask fs)"
    using volume_okD(5) [OF v] assms(2) by (simp add: word_less_nat_alt)
  then obtain k where k: "fat_mask fs = mask k" and "c < 2 ^ k"
  proof -
    assume less: "unat c < unat (fat_mask fs)"
    consider "fat_mask fs = 0xFFF" | "fat_mask fs = 0xFFFF" | "fat_mask fs = 0x0FFFFFFF"
      using volume_okD(4) [OF v] by (auto simp: fat_mask_def fs_types)
    then show thesis
      using less that [of 12] that [of 16] that [of 28] by cases (simp_all add: mask_eq_exp_minus_1 word_less_nat_alt)
  qed
  then show ?thesis unfolding k by (auto intro: and_mask_small)
qed

section \<open>The search for a free cluster\<close>

definition no_free :: "('d \<Rightarrow> u64 \<Rightarrow> u8 list) \<Rightarrow> fatfs \<Rightarrow> 'd \<Rightarrow> bool" where
  "no_free cont fs d \<longleftrightarrow> (\<forall>x. in_fat fs x \<longrightarrow> fat_entry cont fs d x \<noteq> Some 0)"

text \<open>The clusters a search from \<open>scl\<close> has seen when it stands at \<open>ncl\<close>, before and after the wrap.\<close>

definition seen :: "u32 \<Rightarrow> u32 \<Rightarrow> u32 \<Rightarrow> bool" where
  "seen scl ncl x = (if scl \<le> ncl then scl < x \<and> x \<le> ncl else scl < x \<or> x \<le> ncl)"

definition found_free ::
  "'d disk_io \<Rightarrow> ('d \<Rightarrow> u64 \<Rightarrow> u8 list) \<Rightarrow> fatfs \<Rightarrow> 'd \<Rightarrow> u32 + u32 \<Rightarrow> fatfs \<Rightarrow> 'd \<Rightarrow> bool" where
  "found_free io cont fs d r fs' d' \<longleftrightarrow> same_table io cont fs d fs' d'
     \<and> (case r of Inr c \<Rightarrow> in_fat fs c \<and> fat_entry cont fs d c = Some 0
        | Inl e \<Rightarrow> e = 0xFFFFFFFF \<or> e = 0 \<and> no_free cont fs d
            \<or> e = 1 \<and> (\<exists>x. in_fat fs x \<and> fat_entry cont fs d x = Some 1))"

definition distance :: "nat \<Rightarrow> u32 \<Rightarrow> u32 \<Rightarrow> nat" where
  "distance n scl ncl = (if scl \<le> ncl then n - unat ncl + unat scl else unat scl - unat ncl)"

lemma free_loop_spec:
  assumes "mounted io cont fs d" and "disk_returns io (pdrv fs)"
    and "1 \<le> scl" and "scl < n_fatent fs" and "1 \<le> ncl" and "ncl < n_fatent fs"
    and "\<And>x. in_fat fs x \<Longrightarrow> seen scl ncl x \<Longrightarrow> fat_entry cont fs d x \<noteq> Some 0"
  shows "\<exists>r fs' d'. free_loop io obj scl ncl fs d = Some (r, fs', d') \<and> found_free io cont fs d r fs' d'"
  using assms
proof (induction "distance (unat (n_fatent fs)) scl ncl" arbitrary: ncl fs d rule: less_induct)
  case less
  have unat_1: "unat (ncl + 1) = unat ncl + 1"
    using less.prems(6) unsigned_less [of "n_fatent fs", where ?'a = nat]
    by (simp add: unat_word_ariths word_less_nat_alt)
  define wrap where "wrap \<longleftrightarrow> n_fatent fs \<le> ncl + 1"
  define n where "n = (if wrap then 2 else ncl + 1)"
  have unfold: "free_loop io obj scl ncl fs d =
      (if wrap \<and> scl < n then Some (Inl 0, fs, d)
       else do {
         (cs, fs, d) \<leftarrow> get_fat io obj n fs d;
         if cs = 0 then Some (Inr n, fs, d)
         else if cs = 1 \<or> cs = 0xFFFFFFFF then Some (Inl cs, fs, d)
         else if n = scl then Some (Inl 0, fs, d)
         else free_loop io obj scl n fs d })"
    unfolding n_def wrap_def
    by (cases "n_fatent fs \<le> ncl + 1") (subst free_loop.simps, simp add: Let_def)+
  show ?case
  proof (cases "wrap \<and> scl < n")
    case True
    have "seen scl ncl x" if "in_fat fs x" for x
      using True that less.prems(3,6) unat_1
      by (auto simp: seen_def in_fat_def wrap_def n_def word_less_nat_alt word_le_nat_alt)
    then have "no_free cont fs d" using less.prems(7) by (auto simp: no_free_def)
    then show ?thesis unfolding unfold using True same_table_refl [OF less.prems(1)] by (auto simp: found_free_def)
  next
    case False
    have n_in: "in_fat fs n"
      using False less.prems(4,5) unat_1
      by (auto simp: in_fat_def n_def wrap_def word_less_nat_alt word_le_nat_alt)
    obtain v fs1 d1 where get: "get_fat io obj n fs d = Some (v, fs1, d1)" and st: "same_table io cont fs d fs1 d1"
      and v: "v = 0xFFFFFFFF \<or> fat_entry cont fs d n = Some v"
      by (rule get_fat_returns [OF less.prems(1,2) n_in])
    show ?thesis
    proof (cases "v = 0 \<or> v = 1 \<or> v = 0xFFFFFFFF")
      case True
      then show ?thesis unfolding unfold using False get st v n_in by (auto simp: found_free_def)
    next
      case other: False
      have see: "seen scl n x \<Longrightarrow> in_fat fs x \<Longrightarrow> fat_entry cont fs d x \<noteq> Some 0" for x
      proof -
        assume s: "seen scl n x" and x: "in_fat fs x"
        show ?thesis
        proof (cases "x = n")
          case True
          then show ?thesis using v other by auto
        next
          case False
          have "unat x \<noteq> unat n" using False unsigned_word_eqI by blast
          then have "seen scl ncl x"
            using s x \<open>\<not> (wrap \<and> scl < n)\<close> less.prems(6) unat_1
            by (auto simp: seen_def in_fat_def n_def wrap_def word_less_nat_alt word_le_nat_alt split: if_splits)
          then show ?thesis using less.prems(7) x by blast
        qed
      qed
      note vol = mountedD(3) [OF less.prems(1)]
      note s1 = same_table_fat [OF st vol]
      show ?thesis
      proof (cases "n = scl")
        case True
        have "x = n \<or> seen scl ncl x" if "in_fat fs x" for x
        proof (cases "x = n")
          case False
          then have "unat x \<noteq> unat n" using unsigned_word_eqI by blast
          then show ?thesis
            using that True less.prems(5,6) unat_1
            by (auto simp: seen_def in_fat_def n_def wrap_def word_less_nat_alt word_le_nat_alt split: if_splits)
        qed simp
        moreover have "fat_entry cont fs d n \<noteq> Some 0" using v other by auto
        ultimately have "no_free cont fs d" using less.prems(7) by (auto simp: no_free_def)
        then show ?thesis unfolding unfold using False get other True st by (auto simp: found_free_def)
      next
        case n_scl: False
        have dist: "distance (unat (n_fatent fs1)) scl n < distance (unat (n_fatent fs)) scl ncl"
          using n_scl False less.prems(4,6) unat_1 same_fatD(1) [OF s1(1)] unsigned_word_eqI [of scl n]
          by (auto simp: distance_def n_def wrap_def word_less_nat_alt word_le_nat_alt split: if_splits)
        have n: "1 \<le> n" "n < n_fatent fs1"
          using n_in same_fatD(1) [OF s1(1)] by (auto simp: in_fat_def word_le_nat_alt)
        have "\<exists>r fs' d'. free_loop io obj scl n fs1 d1 = Some (r, fs', d') \<and> found_free io cont fs1 d1 r fs' d'"
          using less.hyps [OF dist s1(2)] less.prems(2,3,4) same_fatD [OF s1(1)] n see s1(3) by simp
        then obtain r fs' d' where fl: "free_loop io obj scl n fs1 d1 = Some (r, fs', d')" "found_free io cont fs1 d1 r fs' d'"
          by blast
        have "found_free io cont fs d r fs' d'"
          using fl(2) same_table_trans [OF st] same_fatD(4) [OF s1(1)] s1(3)
          by (auto simp: found_free_def no_free_def split: sum.splits)
        then show ?thesis unfolding unfold using False get other n_scl fl(1) by auto
      qed
    qed
  qed
qed

lemma find_free_spec:
  assumes m: "mounted io cont fs d" and r: "disk_returns io (pdrv fs)"
    and scl: "1 \<le> scl" "scl < n_fatent fs" and clst: "scl = clst \<Longrightarrow> 2 \<le> clst"
  shows "\<exists>r fs' d'. find_free io obj clst scl fs d = Some (r, fs', d') \<and> found_free io cont fs d r fs' d'"
proof -
  have loop: "\<exists>r fs' d'. free_loop io obj s s fs1 d1 = Some (r, fs', d') \<and> found_free io cont fs d r fs' d'"
    if st: "same_table io cont fs d fs1 d1" and s: "1 \<le> s" "s < n_fatent fs" for s fs1 d1
  proof -
    note s1 = same_table_fat [OF st mountedD(3) [OF m]]
    have "\<not> seen s s x" for x by (auto simp: seen_def)
    then have "\<exists>r fs' d'. free_loop io obj s s fs1 d1 = Some (r, fs', d') \<and> found_free io cont fs1 d1 r fs' d'"
      using free_loop_spec [OF s1(2), of s s obj] r s same_fatD [OF s1(1)] by simp
    moreover have "found_free io cont fs1 d1 r fs' d' \<Longrightarrow> found_free io cont fs d r fs' d'" for r fs' d'
      using same_table_trans [OF st] same_fatD(4) [OF s1(1)] s1(3)
      by (auto simp: found_free_def no_free_def split: sum.splits)
    ultimately show ?thesis by blast
  qed
  show ?thesis
  proof (cases "scl = clst")
    case False
    then show ?thesis using loop [OF same_table_refl [OF m] scl] by (simp add: find_free_def)
  next
    case True
    define n where "n = (if n_fatent fs \<le> scl + 1 then 2 else scl + 1)"
    have "unat (scl + 1) = unat scl + 1"
      using scl(2) unsigned_less [of "n_fatent fs", where ?'a = nat] by (simp add: unat_word_ariths word_less_nat_alt)
    then have n: "in_fat fs n"
      using True clst scl by (auto simp: n_def in_fat_def word_less_nat_alt word_le_nat_alt)
    obtain v fs1 d1 where get: "get_fat io obj n fs d = Some (v, fs1, d1)" and st: "same_table io cont fs d fs1 d1"
      and v: "v = 0xFFFFFFFF \<or> fat_entry cont fs d n = Some v"
      by (rule get_fat_returns [OF m r n])
    have unfold: "find_free io obj clst scl fs d =
       (if v = 1 \<or> v = 0xFFFFFFFF then Some (Inl v, fs1, d1)
        else if v \<noteq> 0 then
          let s = (if 2 \<le> last_clst fs1 \<and> last_clst fs1 < n_fatent fs1 then last_clst fs1 else scl) in
          free_loop io obj s s fs1 d1
        else Some (Inr n, fs1, d1))"
      using get by (cases "n_fatent fs \<le> scl + 1") (simp_all add: find_free_def n_def Let_def flip: True)
    have ne: "n_fatent fs1 = n_fatent fs"
      using same_table_fat(1) [OF st mountedD(3) [OF m]] by (simp add: same_fat_def)
    show ?thesis
    proof (cases "v = 0 \<or> v = 1 \<or> v = 0xFFFFFFFF")
      case True
      then show ?thesis unfolding unfold using st v n by (auto simp: found_free_def)
    next
      case other: False
      define s where "s = (if 2 \<le> last_clst fs1 \<and> last_clst fs1 < n_fatent fs1 then last_clst fs1 else scl)"
      have "1 \<le> s" "s < n_fatent fs" using scl ne by (auto simp: s_def word_le_nat_alt)
      then show ?thesis unfolding unfold using loop [OF st] other by (simp flip: s_def)
    qed
  qed
qed

section \<open>Growing a chain\<close>

definition eoc :: u32 where "eoc = 0xFFFFFFFF"

lemma eoc_masked: "eoc AND fat_mask fs = fat_mask fs"
  by (simp add: eoc_def fat_mask_def)

text \<open>
  What taking a cluster for \<open>clst\<close>, zero for a new chain, does: an error, no free cluster, or a
  cluster that was free and ends the chain now.
\<close>

definition cluster_taken ::
  "'d disk_io \<Rightarrow> ('d \<Rightarrow> u64 \<Rightarrow> u8 list) \<Rightarrow> fatfs \<Rightarrow> 'd \<Rightarrow> u32 \<Rightarrow> u32 \<Rightarrow> fatfs \<Rightarrow> 'd \<Rightarrow> bool" where
  "cluster_taken io cont fs d clst ncl fs' d' \<longleftrightarrow>
     in_fat fs ncl \<and> fat_entry cont fs d ncl = Some 0 \<and> same_fat fs fs' \<and> mounted io cont fs' d'
     \<and> (\<forall>x. in_fat fs x \<longrightarrow> fat_entry cont fs' d' x =
          (if clst \<noteq> 0 \<and> x = clst then Some ncl else if x = ncl then Some (fat_mask fs) else fat_entry cont fs d x))"

lemma take_fat_spec:
  assumes m: "mounted io cont fs d" and r: "disk_returns io (pdrv fs)"
    and scl: "1 \<le> scl" "scl < n_fatent fs" and clst: "scl = clst \<Longrightarrow> 2 \<le> clst"
    and used: "clst \<noteq> 0 \<Longrightarrow> in_fat fs clst \<and> fat_entry cont fs d clst \<noteq> Some 0"
  shows "\<exists>x fs' d'. take_fat io obj clst scl fs d = Some (x, fs', d')
     \<and> (case x of Inl e \<Rightarrow> e = 0xFFFFFFFF \<or> e = 1 \<or> e = 0 \<and> no_free cont fs d \<and> same_table io cont fs d fs' d'
        | Inr (res, ncl) \<Rightarrow> res = FR_DISK_ERR \<or> res = FR_OK \<and> moved fs fs' \<and> cluster_taken io cont fs d clst ncl fs' d')"
proof -
  obtain x fs1 d1 where find: "find_free io obj clst scl fs d = Some (x, fs1, d1)"
    and found: "found_free io cont fs d x fs1 d1"
    using find_free_spec [OF m r scl clst] by blast
  have st: "same_table io cont fs d fs1 d1" using found by (simp add: found_free_def)
  note s1 = same_table_fat [OF st mountedD(3) [OF m]]
  have mv1: "moved fs fs1" using st by (simp add: same_table_def)
  have r1: "disk_returns io (pdrv fs1)" using r same_fatD(3) [OF s1(1)] by simp
  show ?thesis
  proof (cases x)
    case (Inl e)
    then show ?thesis using find found by (auto simp: take_fat_def found_free_def)
  next
    case (Inr ncl)
    have ncl: "in_fat fs ncl" "fat_entry cont fs d ncl = Some 0" using found Inr by (auto simp: found_free_def)
    have "in_fat fs1 ncl" using ncl(1) same_fatD(4) [OF s1(1)] by simp
    then obtain res2 fs2 d2 where p2: "put_fat io ncl 0xFFFFFFFF fs1 d1 = Some (res2, fs2, d2)" "res2 \<in> {FR_OK, FR_DISK_ERR}"
      and t2: "res2 = FR_OK \<Longrightarrow> table_update io cont fs1 d1 ncl 0xFFFFFFFF fs2 d2"
      using put_fat_returns [OF s1(2) r1] by metis
    show ?thesis
    proof (cases "res2 = FR_OK")
      case False
      then show ?thesis using find Inr p2 by (auto simp: take_fat_def)
    next
      case True
      note u2 = table_updateD [OF t2 [OF True]]
      have e2: "fat_entry cont fs2 d2 y = (if y = ncl then Some (fat_mask fs) else fat_entry cont fs d y)" if "in_fat fs y" for y
        using u2(4) [of y] s1(3) [OF that] that same_fatD [OF s1(1)] eoc_masked [of fs] by (simp add: eoc_def)
      have mv2: "moved fs fs2" by (rule moved_trans [OF mv1 u2(1)])
      show ?thesis
      proof (cases "clst = 0")
        case True
        have "cluster_taken io cont fs d clst ncl fs2 d2"
          using ncl e2 u2(3) same_fat_moved [OF mv2] True by (simp add: cluster_taken_def)
        then show ?thesis using find Inr p2 \<open>res2 = FR_OK\<close> True mv2 by (simp add: take_fat_def)
      next
        case False
        note f2 = same_fat_moved [OF mv2]
        have "in_fat fs2 clst" "disk_returns io (pdrv fs2)" using used [OF False] r same_fatD [OF f2] by simp_all
        then obtain res3 fs3 d3 where p3: "put_fat io clst ncl fs2 d2 = Some (res3, fs3, d3)" "res3 \<in> {FR_OK, FR_DISK_ERR}"
          and t3: "res3 = FR_OK \<Longrightarrow> table_update io cont fs2 d2 clst ncl fs3 d3"
          using put_fat_returns [OF u2(3)] by metis
        have taken: "cluster_taken io cont fs d clst ncl fs3 d3" if "res3 = FR_OK"
        proof -
          note u3 = table_updateD [OF t3 [OF that]]
          have "ncl AND fat_mask fs2 = ncl"
            using cluster_masked [OF m, of ncl] ncl(1) same_fatD(5) [OF f2] by (simp add: in_fat_def)
          then show ?thesis
            using ncl e2 u3(3,4) same_fat_trans [OF f2 u3(2)] False same_fatD(4) [OF f2]
            by (simp add: cluster_taken_def)
        qed
        have "moved fs fs3" if "res3 = FR_OK" using moved_trans [OF mv2] table_updateD(1) [OF t3 [OF that]] .
        then show ?thesis using find Inr p2 \<open>res2 = FR_OK\<close> False p3 taken by (auto simp: take_fat_def)
      qed
    qed
  qed
qed

text \<open>What \<open>create_chain\<close> answers.\<close>

definition chain_created ::
  "'d disk_io \<Rightarrow> ('d \<Rightarrow> u64 \<Rightarrow> u8 list) \<Rightarrow> fatfs \<Rightarrow> 'd \<Rightarrow> u32 \<Rightarrow> u32 \<Rightarrow> fatfs \<Rightarrow> 'd \<Rightarrow> bool" where
  "chain_created io cont fs d clst ncl fs' d' \<longleftrightarrow>
     ncl = 0 \<and> same_table io cont fs d fs' d' \<and> (free_clst fs = 0 \<or> no_free cont fs d)
     \<or> clst \<noteq> 0 \<and> in_fat fs ncl \<and> fat_entry cont fs d clst = Some ncl \<and> same_table io cont fs d fs' d'
     \<or> cluster_taken io cont fs d clst ncl fs' d' \<and> last_clst fs' = ncl
       \<and> free_clst fs' = (if free_clst fs \<le> n_fatent fs - 2 then free_clst fs - 1 else free_clst fs)"

lemma take_cluster_spec:
  assumes m: "mounted io cont fs d" and r: "disk_returns io (pdrv fs)"
    and scl: "1 \<le> scl" "scl < n_fatent fs" and clst: "scl = clst \<Longrightarrow> 2 \<le> clst"
    and used: "clst \<noteq> 0 \<Longrightarrow> in_fat fs clst \<and> fat_entry cont fs d clst \<noteq> Some 0"
  shows "\<exists>ncl fs' d'. take_cluster io obj clst scl fs d = Some (ncl, obj, fs', d')
     \<and> (ncl = 0xFFFFFFFF \<or> ncl = 1 \<or> chain_created io cont fs d clst ncl fs' d')"
proof (cases "free_clst fs = 0")
  case True
  then show ?thesis using same_table_refl [OF m] by (simp add: take_cluster_def chain_created_def)
next
  case False
  have t: "fs_type fs \<noteq> FS_EXFAT" using volume_okD(4) [OF mountedD(3) [OF m]] by (auto simp: fs_types)
  obtain x fs1 d1 where tk: "take_fat io obj clst scl fs d = Some (x, fs1, d1)"
    and x: "case x of Inl e \<Rightarrow> e = 0xFFFFFFFF \<or> e = 1 \<or> e = 0 \<and> no_free cont fs d \<and> same_table io cont fs d fs1 d1
        | Inr (res, ncl) \<Rightarrow> res = FR_DISK_ERR \<or> res = FR_OK \<and> moved fs fs1 \<and> cluster_taken io cont fs d clst ncl fs1 d1"
    using take_fat_spec [OF m r scl clst used] by blast
  show ?thesis
  proof (cases x)
    case (Inl e)
    then show ?thesis using False t tk x by (auto simp: take_cluster_def chain_created_def)
  next
    case (Inr y)
    obtain res ncl where y: "y = (res, ncl)" by (cases y)
    show ?thesis
    proof (cases "res = FR_DISK_ERR")
      case True
      then show ?thesis using False t tk Inr y by (simp add: take_cluster_def)
    next
      case ok: False
      then have k: "res = FR_OK" "moved fs fs1" "cluster_taken io cont fs d clst ncl fs1 d1" using x Inr y by simp_all
      have "take_cluster io obj clst scl fs d = Some (ncl, obj, count_taken ncl fs1, d1)"
        using False t tk Inr y k(1) by (simp add: take_cluster_def)
      moreover have "cluster_taken io cont fs d clst ncl (count_taken ncl fs1) d1"
        using k(3) same_fat_trans [OF _ counters_table(3)]
        by (auto simp: cluster_taken_def count_taken_counters counters_table)
      moreover have "last_clst (count_taken ncl fs1) = ncl"
        "free_clst (count_taken ncl fs1) = (if free_clst fs \<le> n_fatent fs - 2 then free_clst fs - 1 else free_clst fs)"
        using moved_fields [OF k(2)] by (simp_all add: count_taken_counters counters_def)
      ultimately show ?thesis by (auto simp: chain_created_def)
    qed
  qed
qed

lemma chain_created_same:
  assumes st: "same_table io cont fs d fs1 d1" and vol: "volume_ok fs" and c: "in_fat fs clst"
    and created: "chain_created io cont fs1 d1 clst ncl fs' d'"
  shows "chain_created io cont fs d clst ncl fs' d'"
proof -
  note s1 = same_table_fat [OF st vol]
  note f1 = same_fatD [OF s1(1)]
  have mv: "moved fs fs1" using st by (simp add: same_table_def)
  have free: "no_free cont fs1 d1 = no_free cont fs d"
    using s1(3) f1(4) by (auto simp: no_free_def)
  have taken: "cluster_taken io cont fs1 d1 clst ncl fs' d' \<Longrightarrow> cluster_taken io cont fs d clst ncl fs' d'"
    unfolding cluster_taken_def f1(4,5) using s1(3) same_fat_trans [OF s1(1)] by auto
  show ?thesis
    using created same_table_trans [OF st] taken
    unfolding chain_created_def free moved_fields [OF mv] f1(4) s1(3) [OF c] by blast
qed

lemma create_chain_spec:
  assumes m: "mounted io cont fs d" and r: "disk_returns io (pdrv fs)" and n: "2 \<le> n_fatent fs"
    and clst: "clst = 0 \<or> in_fat fs clst"
  shows "\<exists>ncl fs' d'. create_chain io obj clst fs d = Some (ncl, obj, fs', d')
     \<and> (ncl = 0xFFFFFFFF \<or> ncl = 1 \<or> chain_created io cont fs d clst ncl fs' d')"
proof (cases "clst = 0")
  case True
  define scl where "scl = (if last_clst fs = 0 \<or> n_fatent fs \<le> last_clst fs then 1 else last_clst fs)"
  have scl: "1 \<le> scl" "scl < n_fatent fs"
    using n by (auto simp: scl_def word_le_nat_alt word_less_nat_alt unat_gt_0 Suc_le_eq)
  have "\<exists>ncl fs' d'. take_cluster io obj 0 scl fs d = Some (ncl, obj, fs', d')
     \<and> (ncl = 0xFFFFFFFF \<or> ncl = 1 \<or> chain_created io cont fs d 0 ncl fs' d')"
    by (rule take_cluster_spec [OF m r scl]) (use scl(1) in auto)
  then show ?thesis using True by (simp add: create_chain_def scl_def Let_def)
next
  case False
  then have c: "in_fat fs clst" using clst by simp
  obtain v fs1 d1 where get: "get_fat io obj clst fs d = Some (v, fs1, d1)" and st: "same_table io cont fs d fs1 d1"
    and v: "v = 0xFFFFFFFF \<or> fat_entry cont fs d clst = Some v"
    by (rule get_fat_returns [OF m r c])
  note s1 = same_table_fat [OF st mountedD(3) [OF m]]
  note f1 = same_fatD [OF s1(1)]
  consider "v < 2" | "v = 0xFFFFFFFF" | "2 \<le> v" "v \<noteq> 0xFFFFFFFF" "v < n_fatent fs" | "2 \<le> v" "v \<noteq> 0xFFFFFFFF" "n_fatent fs \<le> v"
    by fastforce
  then show ?thesis
  proof cases
    case 1
    then show ?thesis using False get by (simp add: create_chain_def)
  next
    case 2
    then show ?thesis using False get by (simp add: create_chain_def)
  next
    case 3
    have "\<not> v < 2" using 3(1) by (rule leD)
    then have "create_chain io obj clst fs d = Some (v, obj, fs1, d1)"
      using 3 False get f1(1) by (simp add: create_chain_def)
    moreover have "chain_created io cont fs d clst v fs1 d1"
      using 3 v st False by (simp add: chain_created_def in_fat_def)
    ultimately show ?thesis by blast
  next
    case 4
    have "\<not> v < 2" and "\<not> v < n_fatent fs" using 4(1,3) by (auto dest: leD)
    then have eq: "create_chain io obj clst fs d = take_cluster io obj clst clst fs1 d1"
      using 4(2) False get f1(1) by (simp add: create_chain_def)
    have "v \<noteq> 0" using 4(1) by auto
    have c1: "1 \<le> clst" "clst < n_fatent fs1" "2 \<le> clst" "in_fat fs1 clst" "fat_entry cont fs1 d1 clst \<noteq> Some 0"
      using c f1 v 4(2) \<open>v \<noteq> 0\<close> s1(3) [OF c] by (auto simp: in_fat_def word_le_nat_alt)
    obtain ncl fs' d' where tk: "take_cluster io obj clst clst fs1 d1 = Some (ncl, obj, fs', d')"
      and t: "ncl = 0xFFFFFFFF \<or> ncl = 1 \<or> chain_created io cont fs1 d1 clst ncl fs' d'"
      using take_cluster_spec [OF s1(2), of clst clst obj] r f1 c1 by auto
    then show ?thesis using eq tk chain_created_same [OF st mountedD(3) [OF m] c] by auto
  qed
qed

section \<open>Removing a chain\<close>

text \<open>The clusters of a chain, from its first to one whose entry is no cluster of the volume.\<close>

fun chain :: "(u32 \<Rightarrow> u32 option) \<Rightarrow> fatfs \<Rightarrow> u32 \<Rightarrow> u32 list \<Rightarrow> bool" where
  "chain T fs c [] \<longleftrightarrow> False"
| "chain T fs c (x # xs) \<longleftrightarrow> x = c \<and> in_fat fs c
     \<and> (case T c of None \<Rightarrow> False
        | Some v \<Rightarrow> 2 \<le> v \<and> v \<noteq> 0xFFFFFFFF \<and> (if n_fatent fs \<le> v then xs = [] else chain T fs v xs))"

lemma chain_Cons:
  "chain T fs c (x # xs) \<longleftrightarrow> x = c \<and> in_fat fs c \<and> (\<exists>v. T c = Some v \<and> 2 \<le> v \<and> v \<noteq> 0xFFFFFFFF
     \<and> (if n_fatent fs \<le> v then xs = [] else chain T fs v xs))"
  by (cases "T c") auto

declare chain.simps(2) [simp del]

lemma chain_unique: "chain T fs c xs \<Longrightarrow> chain T fs c ys \<Longrightarrow> xs = ys"
proof (induction xs arbitrary: c ys)
  case (Cons x xs)
  obtain v where v: "T c = Some v" "if n_fatent fs \<le> v then xs = [] else chain T fs v xs" "x = c"
    using Cons.prems(1) by (auto simp: chain_Cons)
  obtain y zs where ys: "ys = y # zs" using Cons.prems(2) by (cases ys) auto
  then have "y = c" "if n_fatent fs \<le> v then zs = [] else chain T fs v zs"
    using Cons.prems(2) v(1) by (auto simp: chain_Cons)
  then show ?case using v(2,3) Cons.IH [of v zs] ys by (auto split: if_splits)
qed simp

lemma chain_suffix: "chain T fs c (xs @ y # ys) \<Longrightarrow> chain T fs y (y # ys)"
proof (induction xs arbitrary: c)
  case Nil
  then show ?case by (auto simp: chain_Cons)
next
  case (Cons x xs)
  then obtain v where "chain T fs v (xs @ y # ys)" by (auto simp: chain_Cons split: if_splits)
  then show ?case by (rule Cons.IH)
qed

lemma chain_distinct: "chain T fs c xs \<Longrightarrow> distinct xs"
proof (induction xs arbitrary: c)
  case (Cons x xs)
  have "x \<notin> set xs"
  proof
    assume "x \<in> set xs"
    then obtain us vs where xs: "xs = us @ x # vs" by (meson split_list)
    have "chain T fs c ((x # us) @ x # vs)" using Cons.prems by (simp only: xs append_Cons)
    then have "chain T fs x (x # vs)" by (rule chain_suffix)
    moreover have "x = c" using Cons.prems by (simp only: chain_Cons)
    ultimately have "chain T fs c (x # vs)" by (simp only:)
    from chain_unique [OF Cons.prems this] show False using xs by simp
  qed
  moreover have "distinct xs"
    using Cons.IH Cons.prems by (cases "xs = []") (auto simp: chain_Cons split: if_splits)
  ultimately show ?case by simp
qed simp

lemma chain_in_fat: "chain T fs c xs \<Longrightarrow> y \<in> set xs \<Longrightarrow> in_fat fs y"
proof (induction xs arbitrary: c)
  case (Cons x xs)
  then show ?case by (cases "xs = []") (auto simp: chain_Cons split: if_splits)
qed simp

lemma chain_cong:
  "chain T fs c xs \<Longrightarrow> same_fat fs fs' \<Longrightarrow> (\<And>y. y \<in> set xs \<Longrightarrow> T' y = T y) \<Longrightarrow> chain T' fs' c xs"
proof (induction xs arbitrary: c)
  case (Cons x xs)
  obtain v where v: "x = c" "in_fat fs c" "T c = Some v" "2 \<le> v" "v \<noteq> 0xFFFFFFFF"
    "if n_fatent fs \<le> v then xs = [] else chain T fs v xs"
    using Cons.prems(1) by (auto simp: chain_Cons)
  moreover have "T' c = Some v" using Cons.prems(3) [of c] v by simp
  moreover have "chain T' fs' v xs" if "chain T fs v xs"
    using Cons.IH [OF that Cons.prems(2)] Cons.prems(3) by simp
  ultimately show ?case using same_fatD [OF Cons.prems(2)] by (auto simp: chain_Cons split: if_splits)
qed simp

definition freed_count :: "u32 \<Rightarrow> u32 \<Rightarrow> nat \<Rightarrow> u32 \<Rightarrow> bool" where
  "freed_count n old k new \<longleftrightarrow> (unat old + k \<le> unat (n - 2) \<longrightarrow> unat new = unat old + k)"

text \<open>The table after the clusters \<open>xs\<close> are freed.\<close>

definition chain_freed ::
  "'d disk_io \<Rightarrow> ('d \<Rightarrow> u64 \<Rightarrow> u8 list) \<Rightarrow> fatfs \<Rightarrow> 'd \<Rightarrow> u32 list \<Rightarrow> fatfs \<Rightarrow> 'd \<Rightarrow> bool" where
  "chain_freed io cont fs d xs fs' d' \<longleftrightarrow> same_fat fs fs' \<and> mounted io cont fs' d'
     \<and> (\<forall>y. in_fat fs y \<longrightarrow> fat_entry cont fs' d' y = (if y \<in> set xs then Some 0 else fat_entry cont fs d y))
     \<and> freed_count (n_fatent fs) (free_clst fs) (length xs) (free_clst fs')"

lemma count_freed_count:
  assumes "free_clst fs' = free_clst fs" and "n_fatent fs' = n_fatent fs"
    and "freed_count (n_fatent fs) (free_clst (count_freed fs')) k new"
  shows "freed_count (n_fatent fs) (free_clst fs) (Suc k) new"
proof (cases "free_clst fs < n_fatent fs - 2")
  case True
  then have "unat (free_clst fs + 1) = unat (free_clst fs) + 1"
    using unsigned_less [of "n_fatent fs - 2", where ?'a = nat] by (simp add: unat_word_ariths word_less_nat_alt)
  then show ?thesis using assms True by (simp add: freed_count_def count_freed_def)
next
  case False
  then show ?thesis by (simp add: freed_count_def word_less_nat_alt)
qed

lemma remove_loop_spec:
  assumes "mounted io cont fs d" and "disk_returns io (pdrv fs)" and "chain (fat_entry cont fs d) fs clst xs"
  shows "\<exists>r fs' d'. remove_loop io obj scl ecl clst fs d = Some (r, fs', d')
     \<and> (r = Some FR_DISK_ERR \<or> r = None \<and> chain_freed io cont fs d xs fs' d')"
  using assms
proof (induction xs arbitrary: scl ecl clst fs d)
  case (Cons x xs)
  have t: "fs_type fs \<noteq> FS_EXFAT" using volume_okD(4) [OF mountedD(3) [OF Cons.prems(1)]] by (auto simp: fs_types)
  obtain v where x: "x = clst" "in_fat fs clst" and v: "fat_entry cont fs d clst = Some v" "2 \<le> v" "v \<noteq> 0xFFFFFFFF"
    and tail: "if n_fatent fs \<le> v then xs = [] else chain (fat_entry cont fs d) fs v xs"
    using Cons.prems(3) by (auto simp: chain_Cons)
  have v01: "v \<noteq> 0" "v \<noteq> 1" using v(2) by (auto simp: word_le_nat_alt)
  obtain w fs1 d1 where get: "get_fat io obj clst fs d = Some (w, fs1, d1)" and st: "same_table io cont fs d fs1 d1"
    and w: "w = 0xFFFFFFFF \<or> fat_entry cont fs d clst = Some w"
    by (rule get_fat_returns [OF Cons.prems(1,2) x(2)])
  note s1 = same_table_fat [OF st mountedD(3) [OF Cons.prems(1)]]
  note f1 = same_fatD [OF s1(1)]
  show ?case
  proof (cases "w = 0xFFFFFFFF")
    case True
    then show ?thesis using get by (subst remove_loop.simps) simp
  next
    case False
    then have w: "w = v" using w v(1) by simp
    have p1: "disk_returns io (pdrv fs1)" "in_fat fs1 clst" using Cons.prems(2) f1 x(2) by simp_all
    obtain res2 fs2 d2 where put: "put_fat io clst 0 fs1 d1 = Some (res2, fs2, d2)" "res2 \<in> {FR_OK, FR_DISK_ERR}"
      and upd: "res2 = FR_OK \<Longrightarrow> table_update io cont fs1 d1 clst 0 fs2 d2"
      using put_fat_returns [OF s1(2) p1] by metis
    have t1: "fs_type fs1 \<noteq> FS_EXFAT" using t f1(2) by simp
    show ?thesis
    proof (cases "res2 = FR_OK")
      case False
      then show ?thesis using get w v v01 put t1 by (subst remove_loop.simps) auto
    next
      case True
      note u2 = table_updateD [OF upd [OF True]]
      define fs3 where "fs3 = count_freed fs2"
      have c3: "mounted io cont fs3 d2" "fat_entry cont fs3 d2 = fat_entry cont fs2 d2" "same_fat fs fs3"
        using u2(3) same_fat_trans [OF same_fat_trans [OF s1(1) u2(2)] counters_table(3)]
        by (simp_all add: fs3_def count_freed_counters counters_table)
      note f3 = same_fatD [OF c3(3)]
      have e3: "fat_entry cont fs3 d2 y = (if y = clst then Some 0 else fat_entry cont fs d y)" if "in_fat fs y" for y
        using u2(4) [of y] s1(3) [OF that] that f1(4) c3(2) by simp
      have step: "remove_loop io obj scl ecl clst fs d =
          (if v < n_fatent fs then remove_loop io obj (if ecl + 1 = v then scl else v) v v fs3 d2 else Some (None, fs3, d2))"
        using get w v v01 put True t1 f3(1,2) [unfolded fs3_def] same_fatD(2) [OF u2(2)]
        by (subst remove_loop.simps) (simp add: fs3_def t)
      have free: "free_clst fs2 = free_clst fs" "n_fatent fs2 = n_fatent fs"
        using moved_fields(5,7) [OF u2(1)] moved_fields(5,7) [of fs fs1] st by (auto simp: same_table_def)
      show ?thesis
      proof (cases "v < n_fatent fs")
        case False
        then have "xs = []" using tail by (simp add: not_less)
        moreover have "freed_count (n_fatent fs) (free_clst fs) (Suc 0) (free_clst fs3)"
          by (rule count_freed_count [OF free]) (simp add: freed_count_def fs3_def)
        ultimately have "chain_freed io cont fs d (x # xs) fs3 d2" using c3 e3 x by (simp add: chain_freed_def)
        then show ?thesis using step False by simp
      next
        case inside: True
        have "distinct (x # xs)" by (rule chain_distinct [OF Cons.prems(3)])
        then have "clst \<notin> set xs" using x by simp
        have ch: "chain (fat_entry cont fs d) fs v xs" using tail inside by (simp add: not_le [symmetric])
        have "chain (fat_entry cont fs3 d2) fs3 v xs"
          by (rule chain_cong [OF ch c3(3)]) (use e3 chain_in_fat [OF ch] \<open>clst \<notin> set xs\<close> in auto)
        then obtain r fs' d' where rl: "remove_loop io obj (if ecl + 1 = v then scl else v) v v fs3 d2 = Some (r, fs', d')"
          and r: "r = Some FR_DISK_ERR \<or> r = None \<and> chain_freed io cont fs3 d2 xs fs' d'"
          using Cons.IH [OF c3(1), of v "if ecl + 1 = v then scl else v" v] Cons.prems(2) f3(3) by auto
        have "chain_freed io cont fs d (x # xs) fs' d'" if "chain_freed io cont fs3 d2 xs fs' d'"
          using that e3 f3 same_fat_trans [OF c3(3)] x count_freed_count [OF free, of "length xs" "free_clst fs'"]
          by (auto simp: chain_freed_def fs3_def)
        then show ?thesis using step inside rl r by auto
      qed
    qed
  qed
qed simp

lemma remove_chain_spec:
  assumes m: "mounted io cont fs d" and r: "disk_returns io (pdrv fs)"
    and ch: "chain (fat_entry cont fs d) fs clst xs"
    and prev: "pclst \<noteq> 0 \<Longrightarrow> in_fat fs pclst \<and> pclst \<notin> set xs"
  shows "\<exists>res fs' d'. remove_chain io obj clst pclst fs d = Some (res, obj, fs', d')
     \<and> (res = FR_DISK_ERR \<or> res = FR_OK \<and> same_fat fs fs' \<and> mounted io cont fs' d'
         \<and> (\<forall>y. in_fat fs y \<longrightarrow> fat_entry cont fs' d' y =
              (if y \<in> set xs then Some 0 else if y = pclst then Some (fat_mask fs) else fat_entry cont fs d y))
         \<and> freed_count (n_fatent fs) (free_clst fs) (length xs) (free_clst fs'))"
proof -
  have t: "fs_type fs \<noteq> FS_EXFAT" using volume_okD(4) [OF mountedD(3) [OF m]] by (auto simp: fs_types)
  have c: "in_fat fs clst" using ch by (cases xs) (auto simp: chain_Cons)
  have post: "remove_post io obj pclst fs' d' = Some (FR_OK, obj, fs', d')" if "same_fat fs fs'" for fs' d'
    using t same_fatD(2) [OF that] by (simp add: remove_post_def)
  define start where "start = (if pclst \<noteq> 0 then put_fat io pclst 0xFFFFFFFF fs d else Some (FR_OK, fs, d))"
  have unfold: "remove_chain io obj clst pclst fs d = do {
      (res, fs, d) \<leftarrow> start;
      if res \<noteq> FR_OK then Some (res, obj, fs, d)
      else do {
        (r, fs, d) \<leftarrow> remove_loop io obj clst clst clst fs d;
        (case r of Some res \<Rightarrow> Some (res, obj, fs, d) | None \<Rightarrow> remove_post io obj pclst fs d) } }"
    using c t by (auto simp: remove_chain_def start_def in_fat_def not_le not_less)
  obtain res1 fs1 d1 where s: "start = Some (res1, fs1, d1)" "res1 \<in> {FR_OK, FR_DISK_ERR}"
    and ok: "res1 = FR_OK \<Longrightarrow> moved fs fs1 \<and> mounted io cont fs1 d1
        \<and> (\<forall>y. in_fat fs y \<longrightarrow> fat_entry cont fs1 d1 y = (if y = pclst then Some (fat_mask fs) else fat_entry cont fs d y))"
  proof (cases "pclst = 0")
    case True
    then have "start = Some (FR_OK, fs, d)" by (simp add: start_def)
    moreover have "\<not> in_fat fs 0" by (simp add: in_fat_def word_le_nat_alt)
    ultimately show thesis using that m True by auto
  next
    case False
    obtain res1 fs1 d1 where p: "put_fat io pclst 0xFFFFFFFF fs d = Some (res1, fs1, d1)" "res1 \<in> {FR_OK, FR_DISK_ERR}"
      and u: "res1 = FR_OK \<Longrightarrow> table_update io cont fs d pclst 0xFFFFFFFF fs1 d1"
      using put_fat_returns [OF m r] prev [OF False] by metis
    have "start = Some (res1, fs1, d1)" using p(1) False by (simp add: start_def)
    moreover have "res1 = FR_OK \<Longrightarrow> moved fs fs1 \<and> mounted io cont fs1 d1
        \<and> (\<forall>y. in_fat fs y \<longrightarrow> fat_entry cont fs1 d1 y = (if y = pclst then Some (fat_mask fs) else fat_entry cont fs d y))"
      using table_updateD [OF u] eoc_masked [of fs] by (simp add: eoc_def)
    ultimately show thesis using that p(2) by blast
  qed
  show ?thesis
  proof (cases "res1 = FR_OK")
    case False
    then show ?thesis unfolding unfold using s by auto
  next
    case True
    note o = ok [OF True]
    have f1: "same_fat fs fs1" using o same_fat_moved by blast
    have "pclst \<notin> set xs"
      using prev chain_in_fat [OF ch, of pclst] by (cases "pclst = 0") (auto simp: in_fat_def word_le_nat_alt)
    then have ch1: "chain (fat_entry cont fs1 d1) fs1 clst xs"
      using chain_in_fat [OF ch] o by (intro chain_cong [OF ch f1]) auto
    obtain x fs' d' where rl: "remove_loop io obj clst clst clst fs1 d1 = Some (x, fs', d')"
      and x: "x = Some FR_DISK_ERR \<or> x = None \<and> chain_freed io cont fs1 d1 xs fs' d'"
      using remove_loop_spec [OF _ _ ch1] o r same_fatD(3) [OF f1] by metis
    show ?thesis
    proof (cases x)
      case (Some e)
      then show ?thesis unfolding unfold using s True rl x by auto
    next
      case None
      then have fr: "chain_freed io cont fs1 d1 xs fs' d'" using x by simp
      then have f': "same_fat fs fs'" using same_fat_trans [OF f1] by (simp add: chain_freed_def)
      have "remove_chain io obj clst pclst fs d = Some (FR_OK, obj, fs', d')"
        unfolding unfold using s True rl None post [OF f'] by simp
      then show ?thesis
        using fr f' o same_fatD [OF f1] moved_fields(7) [of fs fs1] by (auto simp: chain_freed_def)
    qed
  qed
qed

end
