(* ===== verification/Ff_Volume.thy ===== *)
theory Ff_Volume
  imports Ff_Chains
begin

text \<open>
  The properties of the allocation table of FAT12, FAT16 and FAT32 volumes: reading behind writing,
  growing a chain and removing one, on any disk that keeps its sectors, with an example volume on a
  disk in memory.
\<close>

section \<open>An example volume\<close>

definition ram_sectors :: "(u64 \<Rightarrow> u8 list) \<Rightarrow> u64 \<Rightarrow> u8 list" where
  "ram_sectors d s = take 512 (d s @ replicate 512 0)"

definition ram_io :: "(u64 \<Rightarrow> u8 list) disk_io" where
  "ram_io = \<lparr>dread = \<lambda>p s n d. Some ((RES_OK, ram_sectors d s), d),
             dwrite = \<lambda>p w s n d. Some (RES_OK, d(s := w)),
             dioctl = \<lambda>p c d. Some ((RES_OK, None), d),
             dstatus = \<lambda>p d. Some (0, d), dinit = \<lambda>p d. Some (0, d), memalloc = \<lambda>n d. True, heapdata = \<lambda>d i. 0,
             fattime = \<lambda>d. 0\<rparr>"

lemma ram_disk: "sector_disk ram_io p ram_sectors" "disk_returns ram_io p"
  by (auto simp: sector_disk_def reads_kept_def writes_kept_def disk_returns_def ram_io_def ram_sectors_def)

text \<open>Ten entries of sixteen bits in sector one, with a chain from cluster 2 to cluster 4.\<close>

definition example_fat :: "u8 list" where
  "example_fat = [0xF8, 0xFF, 0xFF, 0xFF, 4, 0, 0, 0, 0xFF, 0xFF] @ replicate 502 0"

definition example_fs :: fatfs where
  "example_fs = \<lparr>fs_type = FS_FAT16, pdrv = 0, n_fats = 2, wflag = 0, fsi_flag = 0, fs_id = 1, n_rootdir = 512,
     csize = 1, lfnbuf = [], dirbuf = [], last_clst = 0, free_clst = 6, cdir = 0, cdc_scl = 0, cdc_size = 0, cdc_ofs = 0, n_fatent = 10,
     fsize = 1, volbase = 0, fatbase = 1, dirbase = 3, database = 35, bitbase = 0, winsect = no_sector,
     win = replicate 512 0\<rparr>"

definition example_disk :: "u64 \<Rightarrow> u8 list" where
  "example_disk = (\<lambda>s. [])(1 := example_fat)"

lemma example_mounted: "mounted ram_io ram_sectors example_fs example_disk"
  by (simp add: mounted_def ram_disk window_ok_def volume_ok_def table_octets_def fat_mask_def example_fs_def
      fs_types Let_def)

lemma example_entry:
  "fat_entry ram_sectors example_fs example_disk 2 = Some 4"
  "fat_entry ram_sectors example_fs example_disk 3 = Some 0"
  "fat_entry ram_sectors example_fs example_disk 4 = Some 0xFFFF"
  by (simp_all add: fat_entry_def shown_def fat_sector_def example_fs_def example_disk_def example_fat_def
      ram_sectors_def no_sector_def fs_types ld_word_def rd_def)

lemma example_in_fat: "in_fat example_fs 2" "in_fat example_fs 3" "in_fat example_fs 4"
  by (simp_all add: in_fat_def example_fs_def)

lemma example_chain: "chain (fat_entry ram_sectors example_fs example_disk) example_fs 2 [2, 4]"
  by (simp add: chain_Cons example_in_fat example_entry) (simp add: example_fs_def)

section \<open>Reading behind writing\<close>

text \<open>
  C38. A write to an entry of the table is seen by every read behind it, and by no other: reading
  the same cluster gives the value written, in the bits the volume has for it, reading another one
  gives what it held before, FAT12 entries that share an octet and the two copies of the table
  included. Both calls return; the only other answers are errors of the disk.
\<close>

theorem fat_read_over_write:
  assumes "mounted io cont fs d" and "disk_returns io (pdrv fs)" and "in_fat fs c" and "in_fat fs x"
  shows "\<exists>res fs' d'. put_fat io c val fs d = Some (res, fs', d')
     \<and> (res = FR_DISK_ERR \<or> res = FR_OK \<and> mounted io cont fs' d'
         \<and> (\<exists>v fs'' d''. get_fat io obj x fs' d' = Some (v, fs'', d'') \<and> mounted io cont fs'' d''
              \<and> (v = 0xFFFFFFFF
                  \<or> (if x = c then v = val AND fat_mask fs else fat_entry cont fs d x = Some v))))"
proof -
  obtain res fs' d' where put: "put_fat io c val fs d = Some (res, fs', d')" "res \<in> {FR_OK, FR_DISK_ERR}"
    and upd: "res = FR_OK \<Longrightarrow> table_update io cont fs d c val fs' d'"
    using put_fat_returns [OF assms(1-3)] by metis
  show ?thesis
  proof (cases "res = FR_OK")
    case True
    note u = table_updateD [OF upd [OF True]]
    have "disk_returns io (pdrv fs')" "in_fat fs' x" using assms(2,4) same_fatD [OF u(2)] by simp_all
    from get_fat_returns [OF u(3) this, of obj] obtain v fs'' d''
      where get: "get_fat io obj x fs' d' = Some (v, fs'', d'')" and st: "same_table io cont fs' d' fs'' d''"
        and v: "v = 0xFFFFFFFF \<or> fat_entry cont fs' d' x = Some v" by metis
    have "mounted io cont fs'' d''" using st by (simp add: same_table_def)
    moreover have "v = 0xFFFFFFFF \<or> (if x = c then v = val AND fat_mask fs else fat_entry cont fs d x = Some v)"
      using v u(4) [OF assms(4)] by (auto split: if_splits)
    ultimately show ?thesis using put(1) True u(3) get by blast
  qed (use put in auto)
qed

text \<open>The disk in memory reports no errors.\<close>

lemma ram_move: "move_window ram_io s fs d = Some (res, fs', d') \<Longrightarrow> res = FR_OK"
  by (auto simp: move_window_def sync_window_def ram_io_def Let_def split: if_splits bind_splits)

lemma example_type: "fs_type example_fs = FS_FAT16"
  by (simp add: example_fs_def)

lemma ram_put16:
  "put_fat ram_io c val fs d = Some (res, fs', d') \<Longrightarrow> in_fat fs c \<Longrightarrow> fs_type fs = FS_FAT16 \<Longrightarrow> res = FR_OK"
  by (auto simp: put_fat_def put_fat16_def in_fat_def fs_types dest!: ram_move split: if_splits bind_splits)

lemma ram_get16:
  assumes "get_fat ram_io obj c fs d = Some (v, fs', d')" and "in_fat fs c" and "fs_type fs = FS_FAT16"
  shows "v \<noteq> 0xFFFFFFFF"
proof -
  have c: "\<not> c < 2" "\<not> n_fatent fs \<le> c" using assms(2) by (auto simp: in_fat_def)
  then obtain w :: u16 where "v = ucast w"
    using assms(1,3)
    by (auto simp: get_fat_def get_fat16_def fs_types dest!: ram_move split: if_splits bind_splits)
  moreover have "unat (ucast w :: u32) < 2 ^ 16"
    using unsigned_less [of w, where ?'a = nat] by (simp add: unsigned_ucast_eq take_bit_nat_eq_self)
  ultimately show ?thesis by auto
qed

lemma fat_read_over_write_witness:
  "\<forall>obj. \<exists>fs' d' fs'' d''. put_fat ram_io 3 7 example_fs example_disk = Some (FR_OK, fs', d')
     \<and> get_fat ram_io obj 2 fs' d' = Some (4, fs'', d'')"
proof
  fix obj
  from fat_read_over_write [OF example_mounted _ example_in_fat(2,1), of 7 obj]
  obtain res fs' d' where put: "put_fat ram_io 3 7 example_fs example_disk = Some (res, fs', d')"
    and res: "res = FR_DISK_ERR \<or> res = FR_OK \<and> mounted ram_io ram_sectors fs' d'
         \<and> (\<exists>v fs'' d''. get_fat ram_io obj 2 fs' d' = Some (v, fs'', d'') \<and> mounted ram_io ram_sectors fs'' d''
              \<and> (v = 0xFFFFFFFF \<or> fat_entry ram_sectors example_fs example_disk 2 = Some v))"
    by (auto simp: ram_disk)
  have ok: "res = FR_OK" by (rule ram_put16 [OF put example_in_fat(2) example_type])
  then have "same_fat example_fs fs'"
    using table_updateD(2) [OF put_fat_entry [OF example_mounted example_in_fat(2)]] put by blast
  then have "in_fat fs' 2" "fs_type fs' = FS_FAT16" using example_in_fat(1) example_type same_fatD by metis+
  then show "\<exists>fs' d' fs'' d''. put_fat ram_io 3 7 example_fs example_disk = Some (FR_OK, fs', d')
     \<and> get_fat ram_io obj 2 fs' d' = Some (4, fs'', d'')"
    using put res ok ram_get16 [of obj 2 fs' d'] example_entry(1) by auto
qed

section \<open>Growing a chain\<close>

lemma chain_last:
  "chain T fs c xs \<Longrightarrow> \<exists>v. T (last xs) = Some v \<and> n_fatent fs \<le> v \<and> v \<noteq> 0xFFFFFFFF"
proof (induction xs arbitrary: c)
  case (Cons x xs)
  then show ?case by (cases "xs = []") (auto simp: chain_Cons split: if_splits)
qed simp

lemma chain_entry: "chain T fs c xs \<Longrightarrow> y \<in> set xs \<Longrightarrow> \<exists>v. T y = Some v \<and> 2 \<le> v"
proof (induction xs arbitrary: c)
  case (Cons x xs)
  then show ?case by (cases "xs = []") (auto simp: chain_Cons split: if_splits)
qed simp

lemma chain_append:
  assumes "chain T fs c xs" and "in_fat fs n" and "n \<notin> set xs"
    and "T' (last xs) = Some n" and "T' n = Some e" and "2 \<le> e" and "e \<noteq> 0xFFFFFFFF" and "n_fatent fs \<le> e"
    and "\<And>y. y \<in> set xs \<Longrightarrow> y \<noteq> last xs \<Longrightarrow> T' y = T y"
  shows "chain T' fs c (xs @ [n])"
  using assms
proof (induction xs arbitrary: c)
  case (Cons x xs)
  have n: "2 \<le> n" "n < n_fatent fs" "n \<noteq> 0xFFFFFFFF" "\<not> n_fatent fs \<le> n"
    using Cons.prems(2) unsigned_less [of "n_fatent fs", where ?'a = nat] by (auto simp: in_fat_def word_le_nat_alt word_less_nat_alt)
  have single: "chain T' fs n [n]" using Cons.prems(2,5-8) by (simp add: chain_Cons)
  show ?case
  proof (cases "xs = []")
    case True
    then show ?thesis using Cons.prems(1,4) n single by (auto simp: chain_Cons)
  next
    case False
    have dist: "distinct (x # xs)" by (rule chain_distinct [OF Cons.prems(1)])
    then have "x \<noteq> last xs" using False by (metis distinct.simps(2) last_in_set)
    then have "T' x = T x" using Cons.prems(9) [of x] False by simp
    moreover obtain v where v: "x = c" "in_fat fs c" "T c = Some v" "2 \<le> v" "v \<noteq> 0xFFFFFFFF"
        "\<not> n_fatent fs \<le> v" "chain T fs v xs"
      using Cons.prems(1) False by (auto simp: chain_Cons split: if_splits)
    moreover have "chain T' fs v (xs @ [n])"
      using Cons.IH [OF v(7) Cons.prems(2)] Cons.prems(3-9) False by simp
    ultimately show ?thesis by (auto simp: chain_Cons)
  qed
qed simp

text \<open>
  C39. \<open>create_chain\<close> makes a chain one cluster longer, or starts one: on every return but a report
  of an error the cluster was free, the chain holds the old clusters with the new one at its end, and
  all other entries, the counters apart, are as they were; the answer zero is given exactly when the
  counter or the whole table has no free cluster, and nothing is changed then. The search ends.
\<close>

theorem chain_grows:
  assumes "mounted io cont fs d" and "disk_returns io (pdrv fs)" and "2 \<le> n_fatent fs"
    and "xs = [] \<or> chain (fat_entry cont fs d) fs c xs"
  defines "clst \<equiv> if xs = [] then 0 else last xs"
  shows "\<exists>ncl fs' d'. create_chain io obj clst fs d = Some (ncl, obj, fs', d')
     \<and> (ncl = 0xFFFFFFFF \<or> ncl = 1
        \<or> ncl = 0 \<and> (free_clst fs = 0 \<or> no_free cont fs d) \<and> same_table io cont fs d fs' d'
        \<or> in_fat fs ncl \<and> fat_entry cont fs d ncl = Some 0 \<and> mounted io cont fs' d'
          \<and> chain (fat_entry cont fs' d') fs' (if xs = [] then ncl else c) (xs @ [ncl])
          \<and> (\<forall>y. in_fat fs y \<longrightarrow> y \<notin> {ncl, clst} \<longrightarrow> fat_entry cont fs' d' y = fat_entry cont fs d y)
          \<and> last_clst fs' = ncl
          \<and> free_clst fs' = (if free_clst fs \<le> n_fatent fs - 2 then free_clst fs - 1 else free_clst fs))"
proof -
  have c: "clst = 0 \<or> in_fat fs clst"
  proof (cases "xs = []")
    case False
    then show ?thesis using assms(4) chain_in_fat last_in_set unfolding clst_def by metis
  qed (simp add: clst_def)
  obtain ncl fs' d' where cr: "create_chain io obj clst fs d = Some (ncl, obj, fs', d')"
    and ncl: "ncl = 0xFFFFFFFF \<or> ncl = 1 \<or> chain_created io cont fs d clst ncl fs' d'"
    using create_chain_spec [OF assms(1-3) c] by blast
  have zero: "\<not> in_fat fs 0" by (simp add: in_fat_def word_le_nat_alt)
  have not_next: "fat_entry cont fs d clst \<noteq> Some y" if "clst \<noteq> 0" "in_fat fs y" for y
  proof -
    have "xs \<noteq> []" "chain (fat_entry cont fs d) fs c xs" using that(1) assms(4) by (auto simp: clst_def)
    then show ?thesis using chain_last that(2) by (fastforce simp: clst_def in_fat_def)
  qed
  have grown: "chain (fat_entry cont fs' d') fs' (if xs = [] then ncl else c) (xs @ [ncl])"
    and others: "\<forall>y. in_fat fs y \<longrightarrow> y \<notin> {ncl, clst} \<longrightarrow> fat_entry cont fs' d' y = fat_entry cont fs d y"
    if taken: "cluster_taken io cont fs d clst ncl fs' d'"
  proof -
    have n: "in_fat fs ncl" "fat_entry cont fs d ncl = Some 0" "same_fat fs fs'"
      and e: "\<And>x. in_fat fs x \<Longrightarrow> fat_entry cont fs' d' x =
          (if clst \<noteq> 0 \<and> x = clst then Some ncl else if x = ncl then Some (fat_mask fs) else fat_entry cont fs d x)"
      using taken by (auto simp: cluster_taken_def)
    show "\<forall>y. in_fat fs y \<longrightarrow> y \<notin> {ncl, clst} \<longrightarrow> fat_entry cont fs' d' y = fat_entry cont fs d y"
      using e by auto
    have mask: "2 \<le> fat_mask fs" "fat_mask fs \<noteq> 0xFFFFFFFF" "n_fatent fs' \<le> fat_mask fs"
      using volume_okD(5) [OF mountedD(3) [OF assms(1)]] same_fatD(1) [OF n(3)]
      by (auto simp: fat_mask_def word_le_nat_alt)
    show "chain (fat_entry cont fs' d') fs' (if xs = [] then ncl else c) (xs @ [ncl])"
    proof (cases "xs = []")
      case True
      then show ?thesis using e [OF n(1)] n mask same_fatD(4) [OF n(3)] by (simp add: chain_Cons clst_def)
    next
      case False
      then have ch: "chain (fat_entry cont fs d) fs c xs" using assms(4) by simp
      have last: "clst = last xs" "in_fat fs clst" "clst \<noteq> 0" using False c zero chain_in_fat [OF ch, of "last xs"] by (auto simp: clst_def)
      have fresh: "ncl \<notin> set xs" using chain_entry [OF ch] n(2) by (fastforce simp: word_le_nat_alt)
      then have "ncl \<noteq> last xs" using False last_in_set [of xs] by auto
      then have "chain (fat_entry cont fs' d') fs c (xs @ [ncl])"
        using e last fresh mask n same_fatD(1) [OF n(3)] chain_in_fat [OF ch]
        by (intro chain_append [OF ch n(1) fresh, where e = "fat_mask fs"]) auto
      then show ?thesis using False chain_cong [OF _ n(3)] by simp
    qed
  qed
  consider "ncl = 0xFFFFFFFF \<or> ncl = 1"
    | "ncl = 0" "same_table io cont fs d fs' d'" "free_clst fs = 0 \<or> no_free cont fs d"
    | "cluster_taken io cont fs d clst ncl fs' d'" "last_clst fs' = ncl"
      "free_clst fs' = (if free_clst fs \<le> n_fatent fs - 2 then free_clst fs - 1 else free_clst fs)"
    using ncl not_next unfolding chain_created_def by blast
  then show ?thesis
  proof cases
    case 3
    then have "in_fat fs ncl" "fat_entry cont fs d ncl = Some 0" "mounted io cont fs' d'"
      by (simp_all add: cluster_taken_def)
    then show ?thesis using cr 3(2,3) grown [OF 3(1)] others [OF 3(1)] by blast
  qed (use cr in blast)+
qed

lemma chain_grows_witness:
  "\<forall>obj. \<exists>ncl fs' d'. create_chain ram_io obj 4 example_fs example_disk = Some (ncl, obj, fs', d')
     \<and> (ncl \<in> {0xFFFFFFFF, 1} \<or> ncl = 0 \<and> no_free ram_sectors example_fs example_disk
        \<or> chain (fat_entry ram_sectors fs' d') fs' 2 [2, 4, ncl] \<and> free_clst fs' = 5)"
proof
  fix obj
  have "2 \<le> n_fatent example_fs" by (simp add: example_fs_def)
  from chain_grows [OF example_mounted ram_disk(2) this, of "[2, 4]" 2 obj] example_chain
  show "\<exists>ncl fs' d'. create_chain ram_io obj 4 example_fs example_disk = Some (ncl, obj, fs', d')
     \<and> (ncl \<in> {0xFFFFFFFF, 1} \<or> ncl = 0 \<and> no_free ram_sectors example_fs example_disk
        \<or> chain (fat_entry ram_sectors fs' d') fs' 2 [2, 4, ncl] \<and> free_clst fs' = 5)"
    by (auto simp: example_fs_def)
qed

section \<open>Removing a chain\<close>

text \<open>
  C40. \<open>remove_chain\<close> ends, and frees a chain: on every return but a report of an error of the disk all
  its clusters are free, the cluster before it, if there is one, ends its own chain, every other entry
  is as it was, and the counter of free clusters, while it is exact, has grown by the length of the
  chain.
\<close>

theorem chain_removed:
  assumes "mounted io cont fs d" and "disk_returns io (pdrv fs)"
    and "chain (fat_entry cont fs d) fs clst xs"
    and "pclst = 0 \<or> in_fat fs pclst \<and> pclst \<notin> set xs"
  shows "\<exists>res fs' d'. remove_chain io obj clst pclst fs d = Some (res, obj, fs', d')
     \<and> (res = FR_DISK_ERR \<or> res = FR_OK \<and> mounted io cont fs' d'
         \<and> (\<forall>y. in_fat fs y \<longrightarrow> fat_entry cont fs' d' y =
              (if y \<in> set xs then Some 0 else if y = pclst then Some (fat_mask fs) else fat_entry cont fs d y))
         \<and> (unat (free_clst fs) + length xs \<le> unat (n_fatent fs - 2)
            \<longrightarrow> unat (free_clst fs') = unat (free_clst fs) + length xs))"
proof -
  have "pclst \<noteq> 0 \<Longrightarrow> in_fat fs pclst \<and> pclst \<notin> set xs" using assms(4) by blast
  from remove_chain_spec [OF assms(1-3) this, of obj] show ?thesis unfolding freed_count_def by blast
qed

lemma chain_removed_witness:
  "\<forall>obj. \<exists>res fs' d'. remove_chain ram_io obj 2 0 example_fs example_disk = Some (res, obj, fs', d')
     \<and> (res = FR_DISK_ERR \<or> fat_entry ram_sectors fs' d' 2 = Some 0 \<and> fat_entry ram_sectors fs' d' 4 = Some 0
        \<and> fat_entry ram_sectors fs' d' 3 = Some 0 \<and> unat (free_clst fs') = 8)"
proof
  fix obj
  have n: "unat (free_clst example_fs) + length [2, 4 :: u32] \<le> unat (n_fatent example_fs - 2)"
    "unat (free_clst example_fs) = 6"
    by (simp_all add: example_fs_def)
  from chain_removed [OF example_mounted ram_disk(2) example_chain, of 0 obj]
  show "\<exists>res fs' d'. remove_chain ram_io obj 2 0 example_fs example_disk = Some (res, obj, fs', d')
     \<and> (res = FR_DISK_ERR \<or> fat_entry ram_sectors fs' d' 2 = Some 0 \<and> fat_entry ram_sectors fs' d' 4 = Some 0
        \<and> fat_entry ram_sectors fs' d' 3 = Some 0 \<and> unat (free_clst fs') = 8)"
    using example_in_fat example_entry n by auto
qed

end
