(* ===== verification/Ff_Case.thy ===== *)
theory Ff_Case
  imports Ff_Bytes
begin

text \<open>
  The character tables of the file system library, \<open>ffunicode.c\<close> in the configuration of the firmware:
  \<open>ff_uni2oem\<close> and \<open>ff_oem2uni\<close> for the code page 437, and the conversion to upper case \<open>ff_wtoupper\<close> with
  its two compressed tables. Short names are stored in the code page, and names are compared in upper
  case.

  The lemmas show that the code page conversions are inverse to each other, and that the upper case
  conversion never leaves its tables and that a converted character is not changed by a second
  conversion. The compressed tables are unpacked to lists of blocks for that.
\<close>

section \<open>The code page\<close>

definition FF_CODE_PAGE :: u16 where "FF_CODE_PAGE = 437"

definition uc437 :: "u16 list" where
  "uc437 =
  [
   0x00C7, 0x00FC, 0x00E9, 0x00E2, 0x00E4, 0x00E0, 0x00E5, 0x00E7, 0x00EA, 0x00EB, 0x00E8, 0x00EF,
   0x00EE, 0x00EC, 0x00C4, 0x00C5, 0x00C9, 0x00E6, 0x00C6, 0x00F4, 0x00F6, 0x00F2, 0x00FB, 0x00F9,
   0x00FF, 0x00D6, 0x00DC, 0x00A2, 0x00A3, 0x00A5, 0x20A7, 0x0192, 0x00E1, 0x00ED, 0x00F3, 0x00FA,
   0x00F1, 0x00D1, 0x00AA, 0x00BA, 0x00BF, 0x2310, 0x00AC, 0x00BD, 0x00BC, 0x00A1, 0x00AB, 0x00BB,
   0x2591, 0x2592, 0x2593, 0x2502, 0x2524, 0x2561, 0x2562, 0x2556, 0x2555, 0x2563, 0x2551, 0x2557,
   0x255D, 0x255C, 0x255B, 0x2510, 0x2514, 0x2534, 0x252C, 0x251C, 0x2500, 0x253C, 0x255E, 0x255F,
   0x255A, 0x2554, 0x2569, 0x2566, 0x2560, 0x2550, 0x256C, 0x2567, 0x2568, 0x2564, 0x2565, 0x2559,
   0x2558, 0x2552, 0x2553, 0x256B, 0x256A, 0x2518, 0x250C, 0x2588, 0x2584, 0x258C, 0x2590, 0x2580,
   0x03B1, 0x00DF, 0x0393, 0x03C0, 0x03A3, 0x03C3, 0x00B5, 0x03C4, 0x03A6, 0x0398, 0x03A9, 0x03B4,
   0x221E, 0x03C6, 0x03B5, 0x2229, 0x2261, 0x00B1, 0x2265, 0x2264, 0x2320, 0x2321, 0x00F7, 0x2248,
   0x00B0, 0x2219, 0x00B7, 0x221A, 0x207F, 0x00B2, 0x25A0, 0x00A0]"

function oem_scan :: "u32 \<Rightarrow> u16 list \<Rightarrow> u16 \<Rightarrow> u16 option" where
  "oem_scan uni p c =
     (if c < 0x80 then do {
        x \<leftarrow> rd p (unat c);
        (if uni \<noteq> ucast x then oem_scan uni p (c + 1) else Some c) }
      else Some c)"
  by pat_completeness auto
termination
  by (relation "measure (\<lambda>(_, _, c). 0x80 - unat c)") (auto simp: word_less_nat_alt unat_word_ariths)

declare oem_scan.simps [simp del]

definition ff_uni2oem :: "u32 \<Rightarrow> u16 \<Rightarrow> u16 option" where
  "ff_uni2oem uni cp =
     (if uni < 0x80 then Some (ucast uni)
      else if uni < 0x10000 \<and> cp = FF_CODE_PAGE then do {
        c \<leftarrow> oem_scan uni uc437 0;
        Some ((c + 0x80) AND 0xFF) }
      else Some 0)"

definition ff_oem2uni :: "u16 \<Rightarrow> u16 \<Rightarrow> u16 option" where
  "ff_oem2uni oem cp =
     (if oem < 0x80 then Some oem
      else if cp = FF_CODE_PAGE \<and> oem < 0x100 then rd uc437 (unat (oem - 0x80))
      else Some 0)"

section \<open>Upper case\<close>

text \<open>The compressed tables: a block starts with its first character, its command and its size.\<close>

definition cvt1 :: "u16 list" where
  "cvt1 =
  [
   0x0061, 0x031A, 0x00E0, 0x0317, 0x00F8, 0x0307, 0x00FF, 0x0001, 0x0178, 0x0100, 0x0130, 0x0132,
   0x0106, 0x0139, 0x0110, 0x014A, 0x012E, 0x0179, 0x0106, 0x0180, 0x004D, 0x0243, 0x0181, 0x0182,
   0x0182, 0x0184, 0x0184, 0x0186, 0x0187, 0x0187, 0x0189, 0x018A, 0x018B, 0x018B, 0x018D, 0x018E,
   0x018F, 0x0190, 0x0191, 0x0191, 0x0193, 0x0194, 0x01F6, 0x0196, 0x0197, 0x0198, 0x0198, 0x023D,
   0x019B, 0x019C, 0x019D, 0x0220, 0x019F, 0x01A0, 0x01A0, 0x01A2, 0x01A2, 0x01A4, 0x01A4, 0x01A6,
   0x01A7, 0x01A7, 0x01A9, 0x01AA, 0x01AB, 0x01AC, 0x01AC, 0x01AE, 0x01AF, 0x01AF, 0x01B1, 0x01B2,
   0x01B3, 0x01B3, 0x01B5, 0x01B5, 0x01B7, 0x01B8, 0x01B8, 0x01BA, 0x01BB, 0x01BC, 0x01BC, 0x01BE,
   0x01F7, 0x01C0, 0x01C1, 0x01C2, 0x01C3, 0x01C4, 0x01C5, 0x01C4, 0x01C7, 0x01C8, 0x01C7, 0x01CA,
   0x01CB, 0x01CA, 0x01CD, 0x0110, 0x01DD, 0x0001, 0x018E, 0x01DE, 0x0112, 0x01F3, 0x0003, 0x01F1,
   0x01F4, 0x01F4, 0x01F8, 0x0128, 0x0222, 0x0112, 0x023A, 0x0009, 0x2C65, 0x023B, 0x023B, 0x023D,
   0x2C66, 0x023F, 0x0240, 0x0241, 0x0241, 0x0246, 0x010A, 0x0253, 0x0040, 0x0181, 0x0186, 0x0255,
   0x0189, 0x018A, 0x0258, 0x018F, 0x025A, 0x0190, 0x025C, 0x025D, 0x025E, 0x025F, 0x0193, 0x0261,
   0x0262, 0x0194, 0x0264, 0x0265, 0x0266, 0x0267, 0x0197, 0x0196, 0x026A, 0x2C62, 0x026C, 0x026D,
   0x026E, 0x019C, 0x0270, 0x0271, 0x019D, 0x0273, 0x0274, 0x019F, 0x0276, 0x0277, 0x0278, 0x0279,
   0x027A, 0x027B, 0x027C, 0x2C64, 0x027E, 0x027F, 0x01A6, 0x0281, 0x0282, 0x01A9, 0x0284, 0x0285,
   0x0286, 0x0287, 0x01AE, 0x0244, 0x01B1, 0x01B2, 0x0245, 0x028D, 0x028E, 0x028F, 0x0290, 0x0291,
   0x01B7, 0x037B, 0x0003, 0x03FD, 0x03FE, 0x03FF, 0x03AC, 0x0004, 0x0386, 0x0388, 0x0389, 0x038A,
   0x03B1, 0x0311, 0x03C2, 0x0002, 0x03A3, 0x03A3, 0x03C4, 0x0308, 0x03CC, 0x0003, 0x038C, 0x038E,
   0x038F, 0x03D8, 0x0118, 0x03F2, 0x000A, 0x03F9, 0x03F3, 0x03F4, 0x03F5, 0x03F6, 0x03F7, 0x03F7,
   0x03F9, 0x03FA, 0x03FA, 0x0430, 0x0320, 0x0450, 0x0710, 0x0460, 0x0122, 0x048A, 0x0136, 0x04C1,
   0x010E, 0x04CF, 0x0001, 0x04C0, 0x04D0, 0x0144, 0x0561, 0x0426, 0x0000]"

definition cvt2 :: "u16 list" where
  "cvt2 =
  [
   0x1D7D, 0x0001, 0x2C63, 0x1E00, 0x0196, 0x1EA0, 0x015A, 0x1F00, 0x0608, 0x1F10, 0x0606, 0x1F20,
   0x0608, 0x1F30, 0x0608, 0x1F40, 0x0606, 0x1F51, 0x0007, 0x1F59, 0x1F52, 0x1F5B, 0x1F54, 0x1F5D,
   0x1F56, 0x1F5F, 0x1F60, 0x0608, 0x1F70, 0x000E, 0x1FBA, 0x1FBB, 0x1FC8, 0x1FC9, 0x1FCA, 0x1FCB,
   0x1FDA, 0x1FDB, 0x1FF8, 0x1FF9, 0x1FEA, 0x1FEB, 0x1FFA, 0x1FFB, 0x1F80, 0x0608, 0x1F90, 0x0608,
   0x1FA0, 0x0608, 0x1FB0, 0x0004, 0x1FB8, 0x1FB9, 0x1FB2, 0x1FBC, 0x1FCC, 0x0001, 0x1FC3, 0x1FD0,
   0x0602, 0x1FE0, 0x0602, 0x1FE5, 0x0001, 0x1FEC, 0x1FF3, 0x0001, 0x1FFC, 0x214E, 0x0001, 0x2132,
   0x2170, 0x0210, 0x2184, 0x0001, 0x2183, 0x24D0, 0x051A, 0x2C30, 0x042F, 0x2C60, 0x0102, 0x2C67,
   0x0106, 0x2C75, 0x0102, 0x2C80, 0x0164, 0x2D00, 0x0826, 0xFF41, 0x031A, 0x0000]"

text \<open>What the command of a block does, with the table behind it as \<open>p\<close>.\<close>

definition upcase_command :: "u16 \<Rightarrow> u16 \<Rightarrow> u16 list \<Rightarrow> u16 \<Rightarrow> u16 option" where
  "upcase_command cmd bc p uc =
     (if cmd = 0 then rd p (unat (uc - bc))
      else if cmd = 1 then Some (uc - ((uc - bc) AND 1))
      else if cmd = 2 then Some (uc - 16)
      else if cmd = 3 then Some (uc - 32)
      else if cmd = 4 then Some (uc - 48)
      else if cmd = 5 then Some (uc - 26)
      else if cmd = 6 then Some (uc + 8)
      else if cmd = 7 then Some (uc - 80)
      else if cmd = 8 then Some (uc - 0x1C60)
      else Some uc)"

function upcase_loop :: "u16 \<Rightarrow> u16 list \<Rightarrow> u16 option" where
  "upcase_loop uc tbl = (case tbl of [] \<Rightarrow> None | bc # p \<Rightarrow>
     if bc = 0 \<or> uc < bc then Some uc
     else (case p of [] \<Rightarrow> None | nc # p \<Rightarrow>
       let cmd = drop_bit 8 nc; nc = nc AND 0xFF in
       if unat uc < unat bc + unat nc then upcase_command cmd bc p uc
       else upcase_loop uc (if cmd = 0 then drop (unat nc) p else p)))"
  by pat_completeness auto
termination
  by (relation "measure (\<lambda>(_, tbl). length tbl)") auto

declare upcase_loop.simps [simp del]

definition ff_wtoupper :: "u32 \<Rightarrow> u32 option" where
  "ff_wtoupper uni =
     (if uni < 0x10000 then do {
        let uc = (ucast uni :: u16);
        uc \<leftarrow> upcase_loop uc (if uc < 0x1000 then cvt1 else cvt2);
        Some (ucast uc) }
      else Some uni)"

section \<open>The code page conversions are inverse\<close>

lemma length_uc437: "length uc437 = 128"
  by (simp add: uc437_def)

lemma distinct_uc437: "distinct uc437"
proof -
  have "distinct (map uint uc437)" by (simp add: uc437_def)
  then show ?thesis by (simp add: distinct_map)
qed

lemma uc437_not_ascii: "list_all (\<lambda>x. 0x80 \<le> x) uc437"
  by (simp add: uc437_def)

lemma oem_scan_step:
  assumes "length p = 128" and "c < 128"
  shows "oem_scan uni p (of_nat c)
       = (if uni \<noteq> ucast (p ! c) then oem_scan uni p (of_nat (Suc c)) else Some (of_nat c))"
proof -
  have "unat (of_nat c :: u16) = c" using assms(2) by (simp add: unat_of_nat take_bit_nat_eq_self)
  moreover have "(of_nat c :: u16) < 0x80" using calculation assms(2) by (simp add: word_less_nat_alt)
  moreover have "(of_nat c :: u16) + 1 = of_nat (Suc c)" by simp
  ultimately show ?thesis using assms by (subst oem_scan.simps) (simp del: of_nat_Suc add: rd_def)
qed

lemma oem_scan_end: "oem_scan uni p 0x80 = Some 0x80"
  by (subst oem_scan.simps) simp

lemma oem_scan_found:
  assumes "length p = 128" and "distinct p" and "i < 128" and "c \<le> i"
  shows "oem_scan (ucast (p ! i)) p (of_nat c) = Some (of_nat i)"
  using assms(4)
proof (induction "i - c" arbitrary: c)
  case 0
  then show ?case using assms(1,3) by (simp add: oem_scan_step)
next
  case (Suc k)
  then have c: "c < i" by simp
  then have "p ! c \<noteq> p ! i" using assms(1-3) by (simp add: nth_eq_iff_index_eq)
  then have "(ucast (p ! i) :: u32) \<noteq> ucast (p ! c)" by (auto simp: ucast_eq_iff_up)
  then show ?case using Suc c assms(1,3) by (simp add: oem_scan_step del: of_nat_Suc)
qed

lemma oem_scan_result:
  assumes "length p = 128" and "c \<le> 128" and "oem_scan uni p (of_nat c) = Some r"
  shows "r = 0x80 \<or> (unat r < 128 \<and> uni = ucast (p ! unat r))"
  using assms(2,3)
proof (induction "128 - c" arbitrary: c)
  case 0
  then show ?case by (simp add: oem_scan_end)
next
  case (Suc k)
  then have c: "c < 128" by simp
  show ?case
  proof (cases "uni = ucast (p ! c)")
    case True
    then have "r = of_nat c" using oem_scan_step [OF assms(1) c, of uni] Suc(4) by simp
    moreover have "unat (of_nat c :: u16) = c" using c by (simp add: unat_of_nat take_bit_nat_eq_self)
    ultimately show ?thesis using True c by simp
  next
    case False
    then have "oem_scan uni p (of_nat (Suc c)) = Some r"
      using oem_scan_step [OF assms(1) c, of uni] Suc(4) by simp
    then show ?thesis using Suc(1) [of "Suc c"] Suc(2) c by simp
  qed
qed

lemma oem_octet: "i < 128 \<Longrightarrow> (of_nat i + 0x80 :: u16) AND 0xFF = of_nat i + 0x80"
proof -
  assume i: "i < 128"
  have "(0xFF :: u16) = mask 8" by (simp add: mask_eq_exp_minus_1)
  moreover have "unat (of_nat i + 0x80 :: u16) < 2 ^ 8" 
    using i by (simp add: unat_word_ariths unat_of_nat)
  then have "take_bit 8 (of_nat i + 0x80 :: u16) = of_nat i + 0x80"
    by (simp add: word_unat_eq_iff unsigned_take_bit_eq take_bit_nat_eq_self)
  ultimately show ?thesis by (simp add: take_bit_eq_mask)
qed

lemma code_page_round_trip:
  assumes "oem < 0x100" and "ff_uni2oem uni FF_CODE_PAGE = Some c" and "c \<noteq> 0"
  shows "(\<exists>u. ff_oem2uni oem FF_CODE_PAGE = Some u \<and> ff_uni2oem (ucast u) FF_CODE_PAGE = Some oem)
       \<and> uni < 0x10000 \<and> ff_oem2uni c FF_CODE_PAGE = Some (ucast uni)"
proof -
  note len = length_uc437
  have "\<exists>u. ff_oem2uni oem FF_CODE_PAGE = Some u \<and> ff_uni2oem (ucast u) FF_CODE_PAGE = Some oem"
  proof (cases "oem < 0x80")
    case True
    then have "(ucast oem :: u32) < 0x80" by (simp add: word_less_nat_alt unsigned_ucast_eq take_bit_nat_eq_self)
    then show ?thesis using True by (simp add: ff_oem2uni_def ff_uni2oem_def ucast_up_ucast_id is_up)
  next
    case False
    define i where "i = unat (oem - 0x80)"
    have i: "i < 128" "oem = of_nat i + 0x80"
      using False assms(1) by (simp_all add: i_def word_less_nat_alt unat_sub_if')
    have "0x80 \<le> uc437 ! i" using uc437_not_ascii i(1) len by (simp add: list_all_length)
    then have u: "\<not> (ucast (uc437 ! i) :: u32) < 0x80" "(ucast (uc437 ! i) :: u32) < 0x10000"
      using unsigned_less [of "uc437 ! i", where ?'a = nat] 
      by (auto simp: word_less_nat_alt word_le_nat_alt unsigned_ucast_eq take_bit_nat_eq_self)
    have "ff_oem2uni oem FF_CODE_PAGE = Some (uc437 ! i)"
      using False assms(1) i(1) len by (simp add: ff_oem2uni_def i_def rd_def)
    moreover have "ff_uni2oem (ucast (uc437 ! i)) FF_CODE_PAGE = Some oem"
      using u oem_scan_found [OF len distinct_uc437 i(1), of 0] oem_octet [OF i(1)] i(2)
      by (simp add: ff_uni2oem_def)
    ultimately show ?thesis by blast
  qed
  moreover have "uni < 0x10000 \<and> ff_oem2uni c FF_CODE_PAGE = Some (ucast uni)"
  proof (cases "uni < 0x80")
    case True
    then have "c = ucast uni" using assms(2) by (simp add: ff_uni2oem_def)
    moreover have "(ucast uni :: u16) < 0x80"
      using True by (simp add: word_less_nat_alt unsigned_ucast_eq le_less_trans [OF take_bit_nat_less_eq_self])
    ultimately have "c = ucast uni" "(ucast uni :: u16) < 0x80" by simp_all
    then show ?thesis using True by (auto simp: ff_oem2uni_def word_less_nat_alt)
  next
    case False
    then obtain r where r: "oem_scan uni uc437 (of_nat 0) = Some r" "c = (r + 0x80) AND 0xFF" and uni: "uni < 0x10000"
      using assms(2,3) by (auto simp: ff_uni2oem_def split: if_splits bind_splits)
    have "r \<noteq> 0x80" using r(2) assms(3) by auto
    then have r': "unat r < 128" "uni = ucast (uc437 ! unat r)" using oem_scan_result [OF len _ r(1)] by auto
    have c: "c = r + 0x80" using oem_octet [OF r'(1)] r(2) by simp
    have "\<not> c < 0x80" "c < 0x100" "c - 0x80 = r"
      using r'(1) unfolding c by (auto simp: word_less_nat_alt unat_word_ariths)
    then show ?thesis using uni r' len by (simp add: ff_oem2uni_def rd_def ucast_up_ucast_id is_up)
  qed
  ultimately show ?thesis by blast
qed

section \<open>The blocks of the upper case tables\<close>

text \<open>A block: its first character, its size, its command and the table of command zero.\<close>

type_synonym block = "nat \<times> nat \<times> nat \<times> nat list"

fun up_char :: "block \<Rightarrow> nat \<Rightarrow> nat" where
  "up_char (b, n, c, d) u =
     (if c = 0 then d ! (u - b) else if c = 1 then u - (u - b) mod 2 else if c = 2 then u - 16
      else if c = 3 then u - 32 else if c = 4 then u - 48 else if c = 5 then u - 26
      else if c = 6 then u + 8 else if c = 7 then u - 80 else if c = 8 then u - 0x1C60 else u)"

fun up :: "block list \<Rightarrow> nat \<Rightarrow> nat" where
  "up [] u = u"
| "up ((b, n, c, d) # bs) u =
     (if u < b then u else if u < b + n then up_char (b, n, c, d) u else up bs u)"

text \<open>A table is the coding of a list of blocks, behind which it ends with zero.\<close>

fun coded :: "block list \<Rightarrow> u16 list \<Rightarrow> bool" where
  "coded [] tbl = (tbl = [0])"
| "coded ((b, n, c, d) # bs) tbl = (case tbl of bc # nc # p \<Rightarrow>
     bc \<noteq> 0 \<and> unat bc = b \<and> unat (nc AND 0xFF) = n \<and> unat (drop_bit 8 nc) = c
     \<and> (if c = 0 then n \<le> length p \<and> map unat (take n p) = d \<and> coded bs (drop n p)
        else d = [] \<and> coded bs p) | _ \<Rightarrow> False)"

fun block_range :: "block \<Rightarrow> bool" where
  "block_range (b, n, c, d) = (b + n + 8 \<le> 65536 \<and> list_all (\<lambda>x. x < 65536) d \<and> (c = 0 \<longrightarrow> length d = n) \<and>
     (if c = 2 then 16 else if c = 3 then 32 else if c = 4 then 48 else if c = 5 then 26
      else if c = 7 then 80 else if c = 8 then 0x1C60 else 0) \<le> b)"

lemma upcase_command_char:
  assumes "b \<le> unat uc" and "unat uc < b + n" and "unat bc = b" and "unat cmd = c"
    and "block_range (b, n, c, d)" and "c = 0 \<Longrightarrow> n \<le> length p \<and> map unat (take n p) = d"
  shows "upcase_command cmd bc p uc = Some (of_nat (up_char (b, n, c, d) (unat uc)))"
proof -
  have le: "bc \<le> uc" using assms(1,3) by (simp add: word_le_nat_alt)
  have sub: "unat (uc - bc) = unat uc - b" using le assms(3) by (simp add: unat_sub)
  have cmd: "cmd = w \<longleftrightarrow> c = unat w" for w using assms(4) by (simp add: word_unat_eq_iff)
  consider "c = 0" | "c = 1" | "c > 1" by linarith
  then show ?thesis
  proof cases
    case 1
    then have "unat uc - b < length p" and "d ! (unat uc - b) = unat (p ! (unat uc - b))"
      using assms(1,2,6) by auto
    then show ?thesis using 1 sub by (simp add: upcase_command_def cmd rd_def)
  next
    case 2
    have "unat ((uc - bc) AND 1) = (unat uc - b) mod 2"
      using sub by (simp add: and_one_eq unat_mod)
    then have "(uc - bc) AND 1 = of_nat ((unat uc - b) mod 2)"
      by (simp add: word_unat_eq_iff unat_of_nat take_bit_nat_eq_self less_trans [OF mod_less_divisor])
    then show ?thesis using 2 by (simp add: upcase_command_def cmd of_nat_diff mod_less_eq_dividend le_diff_conv)
  next
    case 3
    then show ?thesis using assms(1,5) by (auto simp: upcase_command_def cmd of_nat_diff)
  qed
qed

lemma up_char_range:
  assumes "block_range (b, n, c, d)" and "b \<le> u" and "u < b + n"
  shows "up_char (b, n, c, d) u < 65536"
proof (cases "c = 0")
  case True
  then have "u - b < length d" using assms by auto
  then have "d ! (u - b) < 65536" using assms(1) by (simp add: list_all_length)
  then show ?thesis using True by simp
next
  case False
  then show ?thesis using assms by (auto simp: less_imp_diff_less)
qed

lemma up_range:
  assumes "list_all block_range bs" and "u < 65536"
  shows "up bs u < 65536"
  using assms
proof (induction bs)
  case (Cons blk bs)
  then show ?case by (cases blk) (auto intro: up_char_range simp del: up_char.simps)
qed simp

lemma upcase_loop_blocks:
  assumes "coded bs tbl" and "list_all block_range bs"
  shows "upcase_loop uc tbl = Some (of_nat (up bs (unat uc)))"
  using assms
proof (induction bs arbitrary: tbl)
  case Nil
  then show ?case by (subst upcase_loop.simps) simp
next
  case (Cons blk bs)
  obtain b n c d where blk: "blk = (b, n, c, d)" by (cases blk)
  obtain bc nc p where tbl: "tbl = bc # nc # p" using Cons(2) blk by (auto split: list.splits)
  show ?case
    using Cons upcase_command_char [of b uc n bc "drop_bit 8 nc" c d p]
    unfolding blk tbl by (subst upcase_loop.simps) (auto simp: Let_def word_less_nat_alt not_less unat_eq_zero)
qed

text \<open>The two tables unpacked.\<close>

definition blocks1 :: "block list" where
  "blocks1 =
  [
   (0x61, 26, 3, []), (0xE0, 23, 3, []), (0xF8, 7, 3, []), (0xFF, 1, 0, [0x178]), (0x100, 48, 1,
   []), (0x132, 6, 1, []), (0x139, 16, 1, []), (0x14A, 46, 1, []), (0x179, 6, 1, []), (0x180, 77,
   0, [0x243, 0x181, 0x182, 0x182, 0x184, 0x184, 0x186, 0x187, 0x187, 0x189, 0x18A, 0x18B, 0x18B,
   0x18D, 0x18E, 0x18F, 0x190, 0x191, 0x191, 0x193, 0x194, 0x1F6, 0x196, 0x197, 0x198, 0x198,
   0x23D, 0x19B, 0x19C, 0x19D, 0x220, 0x19F, 0x1A0, 0x1A0, 0x1A2, 0x1A2, 0x1A4, 0x1A4, 0x1A6,
   0x1A7, 0x1A7, 0x1A9, 0x1AA, 0x1AB, 0x1AC, 0x1AC, 0x1AE, 0x1AF, 0x1AF, 0x1B1, 0x1B2, 0x1B3,
   0x1B3, 0x1B5, 0x1B5, 0x1B7, 0x1B8, 0x1B8, 0x1BA, 0x1BB, 0x1BC, 0x1BC, 0x1BE, 0x1F7, 0x1C0,
   0x1C1, 0x1C2, 0x1C3, 0x1C4, 0x1C5, 0x1C4, 0x1C7, 0x1C8, 0x1C7, 0x1CA, 0x1CB, 0x1CA]), (0x1CD,
   16, 1, []), (0x1DD, 1, 0, [0x18E]), (0x1DE, 18, 1, []), (0x1F3, 3, 0, [0x1F1, 0x1F4, 0x1F4]),
   (0x1F8, 40, 1, []), (0x222, 18, 1, []), (0x23A, 9, 0, [0x2C65, 0x23B, 0x23B, 0x23D, 0x2C66,
   0x23F, 0x240, 0x241, 0x241]), (0x246, 10, 1, []), (0x253, 64, 0, [0x181, 0x186, 0x255, 0x189,
   0x18A, 0x258, 0x18F, 0x25A, 0x190, 0x25C, 0x25D, 0x25E, 0x25F, 0x193, 0x261, 0x262, 0x194,
   0x264, 0x265, 0x266, 0x267, 0x197, 0x196, 0x26A, 0x2C62, 0x26C, 0x26D, 0x26E, 0x19C, 0x270,
   0x271, 0x19D, 0x273, 0x274, 0x19F, 0x276, 0x277, 0x278, 0x279, 0x27A, 0x27B, 0x27C, 0x2C64,
   0x27E, 0x27F, 0x1A6, 0x281, 0x282, 0x1A9, 0x284, 0x285, 0x286, 0x287, 0x1AE, 0x244, 0x1B1,
   0x1B2, 0x245, 0x28D, 0x28E, 0x28F, 0x290, 0x291, 0x1B7]), (0x37B, 3, 0, [0x3FD, 0x3FE,
   0x3FF]), (0x3AC, 4, 0, [0x386, 0x388, 0x389, 0x38A]), (0x3B1, 17, 3, []), (0x3C2, 2, 0,
   [0x3A3, 0x3A3]), (0x3C4, 8, 3, []), (0x3CC, 3, 0, [0x38C, 0x38E, 0x38F]), (0x3D8, 24, 1, []),
   (0x3F2, 10, 0, [0x3F9, 0x3F3, 0x3F4, 0x3F5, 0x3F6, 0x3F7, 0x3F7, 0x3F9, 0x3FA, 0x3FA]),
   (0x430, 32, 3, []), (0x450, 16, 7, []), (0x460, 34, 1, []), (0x48A, 54, 1, []), (0x4C1, 14, 1,
   []), (0x4CF, 1, 0, [0x4C0]), (0x4D0, 68, 1, []), (0x561, 38, 4, [])]"

definition blocks2 :: "block list" where
  "blocks2 =
  [
   (0x1D7D, 1, 0, [0x2C63]), (0x1E00, 150, 1, []), (0x1EA0, 90, 1, []), (0x1F00, 8, 6, []),
   (0x1F10, 6, 6, []), (0x1F20, 8, 6, []), (0x1F30, 8, 6, []), (0x1F40, 6, 6, []), (0x1F51, 7, 0,
   [0x1F59, 0x1F52, 0x1F5B, 0x1F54, 0x1F5D, 0x1F56, 0x1F5F]), (0x1F60, 8, 6, []), (0x1F70, 14, 0,
   [0x1FBA, 0x1FBB, 0x1FC8, 0x1FC9, 0x1FCA, 0x1FCB, 0x1FDA, 0x1FDB, 0x1FF8, 0x1FF9, 0x1FEA,
   0x1FEB, 0x1FFA, 0x1FFB]), (0x1F80, 8, 6, []), (0x1F90, 8, 6, []), (0x1FA0, 8, 6, []), (0x1FB0,
   4, 0, [0x1FB8, 0x1FB9, 0x1FB2, 0x1FBC]), (0x1FCC, 1, 0, [0x1FC3]), (0x1FD0, 2, 6, []),
   (0x1FE0, 2, 6, []), (0x1FE5, 1, 0, [0x1FEC]), (0x1FF3, 1, 0, [0x1FFC]), (0x214E, 1, 0,
   [0x2132]), (0x2170, 16, 2, []), (0x2184, 1, 0, [0x2183]), (0x24D0, 26, 5, []), (0x2C30, 47, 4,
   []), (0x2C60, 2, 1, []), (0x2C67, 6, 1, []), (0x2C75, 2, 1, []), (0x2C80, 100, 1, []),
   (0x2D00, 38, 8, []), (0xFF41, 26, 3, [])]"

lemma coded_blocks1: "coded blocks1 cvt1"
  by (simp add: blocks1_def cvt1_def)

lemma coded_blocks2: "coded blocks2 cvt2"
  by (simp add: blocks2_def cvt2_def)

lemma blocks_range: "list_all block_range blocks1" "list_all block_range blocks2"
  by (simp_all add: blocks1_def blocks2_def)

definition upper :: "nat \<Rightarrow> nat" where
  "upper u = (if u < 0x1000 then up blocks1 u else up blocks2 u)"

lemma upper_range: "u < 65536 \<Longrightarrow> upper u < 65536"
  by (simp add: upper_def up_range blocks_range)

lemma ff_wtoupper_upper:
  assumes "uni < 0x10000"
  shows "ff_wtoupper uni = Some (of_nat (upper (unat uni)))"
proof -
  have u: "unat (ucast uni :: u16) = unat uni"
    using assms by (simp add: word_less_nat_alt unsigned_ucast_eq take_bit_nat_eq_self)
  have "(ucast (of_nat v :: u16) :: u32) = of_nat v" if "v < 65536" for v
    using that by (simp add: word_unat_eq_iff unsigned_ucast_eq unat_of_nat take_bit_nat_eq_self)
  moreover have "upper (unat uni) < 65536" using assms by (simp add: upper_range word_less_nat_alt)
  ultimately show ?thesis
    using assms upcase_loop_blocks [OF coded_blocks1 blocks_range(1)] upcase_loop_blocks [OF coded_blocks2 blocks_range(2)]
    by (simp add: ff_wtoupper_def upper_def u word_less_nat_alt split: if_splits)
qed

section \<open>A converted character stays\<close>

text \<open>Blocks in order do not overlap, so a block decides for all its characters.\<close>

fun in_order :: "block list \<Rightarrow> bool" where
  "in_order ((b, n, c, d) # (b', n', c', d') # bs) = (b + n \<le> b' \<and> in_order ((b', n', c', d') # bs))"
| "in_order _ = True"

lemma in_order_Cons: "in_order (blk # bs) \<Longrightarrow> in_order bs"
  by (cases blk; cases bs) auto

lemma in_order_later:
  "in_order ((b, n, c, d) # bs) \<Longrightarrow> (b', n', c', d') \<in> set bs \<Longrightarrow> b + n \<le> b'"
proof (induction bs arbitrary: b n c d)
  case (Cons blk bs)
  obtain b1 n1 c1 d1 where "blk = (b1, n1, c1, d1)" by (cases blk)
  then show ?case using Cons(2,3) Cons(1) [of b1 n1 c1 d1] by auto
qed simp

lemma up_in_block:
  assumes "in_order bs" and "(b, n, c, d) \<in> set bs" and "b \<le> u" and "u < b + n"
  shows "up bs u = up_char (b, n, c, d) u"
  using assms
proof (induction bs)
  case (Cons blk bs)
  obtain b1 n1 c1 d1 where blk: "blk = (b1, n1, c1, d1)" by (cases blk)
  then show ?case
    using Cons in_order_Cons [of blk bs] in_order_later [of b1 n1 c1 d1 bs b n c d]
    by (auto simp del: up_char.simps)
qed simp

lemma up_outside: "list_all (\<lambda>(b, n, c, d). u < b \<or> b + n \<le> u) bs \<Longrightarrow> up bs u = u"
proof (induction bs)
  case (Cons blk bs)
  then show ?case by (cases blk) auto
qed simp

lemma up_cases:
  obtains "up bs u = u" | b n c d where "(b, n, c, d) \<in> set bs" and "b \<le> u" and "u < b + n"
proof (cases "list_all (\<lambda>(b, n, c, d). u < b \<or> b + n \<le> u) bs")
  case True
  then show thesis by (intro that(1) up_outside)
next
  case False
  then obtain blk where blk: "blk \<in> set bs" "\<not> (case blk of (b, n, c, d) \<Rightarrow> u < b \<or> b + n \<le> u)"
    unfolding list_all_iff by blast
  obtain b n c d where "blk = (b, n, c, d)" by (cases blk)
  then show thesis using that(2) [of b n c d] blk by simp
qed

text \<open>Where the characters of a block go: to characters outside of all blocks, or to checked ones.\<close>

definition no_block :: "nat \<Rightarrow> nat \<Rightarrow> bool" where
  "no_block lo hi = list_all (\<lambda>(b, n, c, d). hi \<le> b \<or> b + n \<le> lo) (blocks1 @ blocks2)"

fun block_stays :: "block \<Rightarrow> bool" where
  "block_stays (b, n, c, d) =
     (if c = 0 then length d = n \<and> list_all (\<lambda>x. upper x = x) d
      else if c = 1 then True
      else c \<le> 8 \<and> up_char (b, n, c, d) (b + n) = up_char (b, n, c, d) b + n
        \<and> no_block (up_char (b, n, c, d) b) (up_char (b, n, c, d) b + n))"

lemma blocks_in_order: "in_order blocks1" "in_order blocks2"
  by (simp_all add: blocks1_def blocks2_def)

lemma blocks_low: "list_all (\<lambda>(b, n, c, d). b + n \<le> 0x1000) blocks1"
    "list_all (\<lambda>(b, n, c, d). 0x1000 \<le> b) blocks2"
  by (simp_all add: blocks1_def blocks2_def)

text \<open>The two lookups as chains of comparisons, for evaluation.\<close>

lemmas up_blocks1 = fun_cong [OF arg_cong [OF blocks1_def, of up], simplified up.simps up_char.simps]
lemmas up_blocks2 = fun_cong [OF arg_cong [OF blocks2_def, of up], simplified up.simps up_char.simps]
lemmas no_block_eval = no_block_def [unfolded blocks1_def blocks2_def, simplified]

lemma blocks_stay: "list_all block_stays blocks1" "list_all block_stays blocks2"
  unfolding blocks1_def blocks2_def by (simp_all add: upper_def up_blocks1 up_blocks2 no_block_eval)

lemma upper_blocks:
  obtains "upper u = u"
    | b n c d where "(b, n, c, d) \<in> set blocks1" and "b \<le> u" and "u < b + n" and "u < 0x1000"
        and "upper u = up_char (b, n, c, d) u"
    | b n c d where "(b, n, c, d) \<in> set blocks2" and "b \<le> u" and "u < b + n" and "0x1000 \<le> u"
        and "upper u = up_char (b, n, c, d) u"
proof (cases "u < 0x1000")
  case True
  then have up: "upper u = up blocks1 u" by (simp add: upper_def)
  show thesis
  proof (rule up_cases [of blocks1 u])
    assume "up blocks1 u = u"
    then show thesis using that(1) up by simp
  next
    fix b n c d assume 2: "(b, n, c, d) \<in> set blocks1" "b \<le> u" "u < b + n"
    then show thesis using that(2) [of b n c d] up up_in_block [OF blocks_in_order(1) 2] True by simp
  qed
next
  case False
  then have up: "upper u = up blocks2 u" by (simp add: upper_def)
  show thesis
  proof (rule up_cases [of blocks2 u])
    assume "up blocks2 u = u"
    then show thesis using that(1) up by simp
  next
    fix b n c d assume 2: "(b, n, c, d) \<in> set blocks2" "b \<le> u" "u < b + n"
    then show thesis using that(3) [of b n c d] up up_in_block [OF blocks_in_order(2) 2] False by simp
  qed
qed

lemma upper_outside:
  assumes "no_block s t" and "s \<le> v" and "v < t"
  shows "upper v = v"
proof -
  have "list_all (\<lambda>(b, n, c, d). v < b \<or> b + n \<le> v) (blocks1 @ blocks2)"
    using assms(1) unfolding no_block_def
    by (rule list.pred_mono_strong) (use assms(2,3) in \<open>auto split: prod.splits\<close>)
  then have "up blocks1 v = v" and "up blocks2 v = v" by (simp_all add: up_outside)
  then show ?thesis by (simp add: upper_def)
qed

lemma shift_in_block:
  assumes "1 < c" and "c \<le> 8" and "up_char (b, n, c, d) (b + n) = up_char (b, n, c, d) b + n"
    and "b \<le> u" and "u < b + n" and "block_range (b, n, c, d)"
  shows "up_char (b, n, c, d) b \<le> up_char (b, n, c, d) u
       \<and> up_char (b, n, c, d) u < up_char (b, n, c, d) b + n"
  using assms by auto

lemma pair_in_block: "(b :: nat) \<le> u \<Longrightarrow> b \<le> u - (u - b) mod 2 \<and> u - (u - b) mod 2 \<le> u
    \<and> (u - (u - b) mod 2 - b) mod 2 = 0"
  by (auto simp: mod2_eq_if) (presburger+)?

lemma block_image_stays:
  assumes "in_order bs" and "(b, n, c, d) \<in> set bs" and "b \<le> u" and "u < b + n"
    and "block_stays (b, n, c, d)" and "block_range (b, n, c, d)"
    and table: "\<And>v. b \<le> v \<Longrightarrow> v < b + n \<Longrightarrow> upper v = up bs v"
  shows "upper (up_char (b, n, c, d) u) = up_char (b, n, c, d) u"
proof -
  consider "c = 0" | "c = 1" | "1 < c" by linarith
  then show ?thesis
  proof cases
    case 1
    then show ?thesis using assms(3-5) by (auto simp: list_all_length)
  next
    case 2
    define v where "v = u - (u - b) mod 2"
    have v: "b \<le> v" "v < b + n" "(v - b) mod 2 = 0"
      using pair_in_block [OF assms(3)] assms(4) by (auto simp: v_def)
    have "upper v = up_char (b, n, c, d) v"
      using table [OF v(1,2)] up_in_block [OF assms(1,2) v(1,2)] by simp
    then show ?thesis using 2 v(3) by (simp add: v_def)
  next
    case 3
    then have s: "c \<le> 8" "up_char (b, n, c, d) (b + n) = up_char (b, n, c, d) b + n"
        "no_block (up_char (b, n, c, d) b) (up_char (b, n, c, d) b + n)"
      using assms(5) unfolding block_stays.simps by (simp_all del: up_char.simps)
    show ?thesis
      using upper_outside [OF s(3)] shift_in_block [OF 3 s(1,2) assms(3,4,6)] by blast
  qed
qed

lemma upper_stays: "upper (upper u) = upper u"
proof (cases u rule: upper_blocks)
  case 1
  then show ?thesis by simp
next
  case (2 b n c d)
  have "b + n \<le> 0x1000" using blocks_low(1) 2(1) by (auto simp: list_all_iff)
  then show ?thesis
    using block_image_stays [OF blocks_in_order(1) 2(1-3)] 2(1,5) blocks_stay(1) blocks_range(1)
    by (auto simp: list_all_iff upper_def simp del: block_stays.simps block_range.simps up_char.simps)
next
  case (3 b n c d)
  have "0x1000 \<le> b" using blocks_low(2) 3(1) by (auto simp: list_all_iff)
  then show ?thesis
    using block_image_stays [OF blocks_in_order(2) 3(1-3)] 3(1,5) blocks_stay(2) blocks_range(2)
    by (auto simp: list_all_iff upper_def simp del: block_stays.simps block_range.simps up_char.simps)
qed

text \<open>The terminator of a name is the only character that is converted to zero.\<close>

fun block_positive :: "block \<Rightarrow> bool" where
  "block_positive (b, n, c, d) = (0 < b \<and> (if c = 0 then length d = n \<and> list_all (\<lambda>x. 0 < x) d
     else c \<le> 8 \<and> 0 < up_char (b, n, c, d) b))"

lemma blocks_positive: "list_all block_positive blocks1" "list_all block_positive blocks2"
  unfolding blocks1_def blocks2_def by simp_all

lemma up_char_positive:
  assumes "block_positive (b, n, c, d)" and "b \<le> u" and "u < b + n"
  shows "0 < up_char (b, n, c, d) u"
proof -
  consider "c = 0" | "c = 1" | "1 < c" by linarith
  then show ?thesis
  proof cases
    case 1
    then show ?thesis using assms by (auto simp: list_all_length)
  next
    case 2
    then show ?thesis using assms pair_in_block [of b u] by simp
  next
    case 3
    then show ?thesis using assms by (auto split: if_splits)
  qed
qed

lemma upper_zero: "upper u = 0 \<longleftrightarrow> u = 0"
proof (cases u rule: upper_blocks)
  case (2 b n c d)
  have "block_positive (b, n, c, d)" using blocks_positive(1) 2(1) unfolding list_all_iff by (rule bspec)
  then show ?thesis using up_char_positive [OF _ 2(2,3)] 2(2,5) by (metis block_positive.simps not_le not_gr_zero)
next
  case (3 b n c d)
  have "block_positive (b, n, c, d)" using blocks_positive(2) 3(1) unfolding list_all_iff by (rule bspec)
  then show ?thesis using up_char_positive [OF _ 3(2,3)] 3(2,5) by (metis block_positive.simps not_le not_gr_zero)
qed simp

text \<open>
  The conversion as a total function, and its laws: it returns for every character, a converted
  character stays, zero stays alone, and a character of the basic plane stays in it.
\<close>

definition up_of :: "u32 \<Rightarrow> u32" where
  "up_of c = (if c < 0x10000 then of_nat (upper (unat c)) else c)"

lemma ff_wtoupper_up_of: "ff_wtoupper c = Some (up_of c)"
proof (cases "c < 0x10000")
  case False
  then show ?thesis by (simp add: ff_wtoupper_def up_of_def)
qed (simp add: ff_wtoupper_upper up_of_def)

lemma unat_up_of: "c < 0x10000 \<Longrightarrow> unat (up_of c) = upper (unat c)"
  using upper_range [of "unat c"] by (simp add: up_of_def word_less_nat_alt unat_of_nat take_bit_nat_eq_self)

lemma up_of_less: "up_of c < 0x10000 \<longleftrightarrow> c < 0x10000"
proof (cases "c < 0x10000")
  case True
  then show ?thesis using unat_up_of [OF True] upper_range [of "unat c"] by (simp add: word_less_nat_alt)
qed (simp add: up_of_def)

lemma up_of_idem: "up_of (up_of c) = up_of c"
proof (cases "c < 0x10000")
  case True
  then have "up_of c < 0x10000" by (simp add: up_of_less)
  then have "unat (up_of (up_of c)) = unat (up_of c)" by (simp add: unat_up_of True upper_stays)
  then show ?thesis by (simp add: word_unat_eq_iff)
qed (simp add: up_of_def)

lemma up_of_zero: "up_of c = 0 \<longleftrightarrow> c = 0"
proof (cases "c < 0x10000")
  case True
  then show ?thesis using unat_up_of [OF True] upper_zero [of "unat c"] by (simp add: unat_eq_zero [symmetric])
qed (auto simp: up_of_def)

lemma up_of_ascii: "c < 0x80 \<Longrightarrow> up_of c = (if 0x61 \<le> c \<and> c \<le> 0x7A then c - 32 else c)"
proof -
  assume c: "c < 0x80"
  then have "upper (unat c) = (if 97 \<le> unat c \<and> unat c \<le> 122 then unat c - 32 else unat c)"
    by (auto simp: word_less_nat_alt upper_def up_blocks1)
  then show ?thesis using c
    by (auto simp: up_of_def word_less_nat_alt word_le_nat_alt of_nat_diff)
qed

end
