(* ===== verification/Ff_Lfn.thy ===== *)
theory Ff_Lfn
  imports Ff_Case
begin

text \<open>
  Names in directory entries, from \<open>ff.c\<close>: the entries of long file names of FAT volumes (\<open>cmp_lfn\<close>,
  \<open>pick_lfn\<close>, \<open>put_lfn\<close>), the numbered short name (\<open>gen_numname\<close>) and the checksums that tie the
  entries of an object together (\<open>sum_sfn\<close>, \<open>xdir_sum\<close>, \<open>xname_sum\<close>). A directory entry is the octets
  of a buffer from a position on, a name a zero-terminated list of 16-bit characters in the working
  buffer of 256.

  The lemmas show what an entry written for a part of a name holds, that reading the entries of a name
  gives the name, and that comparing them with another name is comparing the two in upper case.
\<close>

section \<open>Fields of directory entries\<close>

definition FF_MAX_LFN :: nat where "FF_MAX_LFN = 255"
definition SZDIRE :: nat where "SZDIRE = 32"
definition LDIR_Ord :: nat where "LDIR_Ord = 0"
definition LDIR_Attr :: nat where "LDIR_Attr = 11"
definition LDIR_Type :: nat where "LDIR_Type = 12"
definition LDIR_Chksum :: nat where "LDIR_Chksum = 13"
definition LDIR_FstClusLO :: nat where "LDIR_FstClusLO = 26"
definition LLEF :: u8 where "LLEF = 0x40"
definition AM_LFN :: u8 where "AM_LFN = 0x0F"
definition LfnOfs :: "nat list" where "LfnOfs = [1, 3, 5, 7, 9, 14, 16, 18, 20, 22, 24, 28, 30]"
definition XDIR_NumSec :: nat where "XDIR_NumSec = 1"
definition XDIR_SetSum :: nat where "XDIR_SetSum = 2"

lemmas lfn_fields = LDIR_Ord_def LDIR_Attr_def LDIR_Type_def LDIR_Chksum_def LDIR_FstClusLO_def
  LLEF_def AM_LFN_def

section \<open>Long names\<close>

text \<open>
  Comparing and picking: the inner \<^term>\<open>None\<close> is the early return with zero.
\<close>

fun cmp_lfn_loop :: "u16 list \<Rightarrow> u8 list \<Rightarrow> nat \<Rightarrow> nat list \<Rightarrow> u32 \<Rightarrow> u16 \<Rightarrow> (u32 \<times> u16) option option" where
  "cmp_lfn_loop lfnbuf dir p [] i wc = Some (Some (i, wc))"
| "cmp_lfn_loop lfnbuf dir p (ofs # rest) i wc = do {
     uc \<leftarrow> ld_word dir (p + ofs);
     (if wc \<noteq> 0 then
        if FF_MAX_LFN + 1 \<le> unat i then Some None
        else do {
          a \<leftarrow> ff_wtoupper (ucast uc);
          l \<leftarrow> rd lfnbuf (unat i);
          b \<leftarrow> ff_wtoupper (ucast l);
          (if a \<noteq> b then Some None else cmp_lfn_loop lfnbuf dir p rest (i + 1) uc) }
      else if uc \<noteq> 0xFFFF then Some None else cmp_lfn_loop lfnbuf dir p rest i wc) }"

definition cmp_lfn :: "u16 list \<Rightarrow> u8 list \<Rightarrow> nat \<Rightarrow> bool option" where
  "cmp_lfn lfnbuf dir p = do {
     z \<leftarrow> ld_word dir (p + LDIR_FstClusLO);
     if z \<noteq> 0 then Some False else do {
       ord \<leftarrow> rd dir (p + LDIR_Ord);
       r \<leftarrow> cmp_lfn_loop lfnbuf dir p LfnOfs ((ucast (ord AND 0x3F) - 1) * 13) 1;
       (case r of None \<Rightarrow> Some False
        | Some (i, wc) \<Rightarrow>
            if ord AND LLEF \<noteq> 0 \<and> wc \<noteq> 0 then do { l \<leftarrow> rd lfnbuf (unat i); Some (l = 0) }
            else Some True) } }"

fun pick_lfn_loop ::
  "u8 list \<Rightarrow> nat \<Rightarrow> nat list \<Rightarrow> u16 list \<Rightarrow> u32 \<Rightarrow> u16 \<Rightarrow> (u16 list \<times> (u32 \<times> u16) option) option" where
  "pick_lfn_loop dir p [] lfnbuf i wc = Some (lfnbuf, Some (i, wc))"
| "pick_lfn_loop dir p (ofs # rest) lfnbuf i wc = do {
     uc \<leftarrow> ld_word dir (p + ofs);
     (if wc \<noteq> 0 then
        if FF_MAX_LFN + 1 \<le> unat i then Some (lfnbuf, None)
        else do {
          lfnbuf \<leftarrow> wr lfnbuf (unat i) uc;
          pick_lfn_loop dir p rest lfnbuf (i + 1) uc }
      else if uc \<noteq> 0xFFFF then Some (lfnbuf, None) else pick_lfn_loop dir p rest lfnbuf i wc) }"

definition pick_lfn :: "u16 list \<Rightarrow> u8 list \<Rightarrow> nat \<Rightarrow> (bool \<times> u16 list) option" where
  "pick_lfn lfnbuf dir p = do {
     z \<leftarrow> ld_word dir (p + LDIR_FstClusLO);
     if z \<noteq> 0 then Some (False, lfnbuf) else do {
       ord \<leftarrow> rd dir (p + LDIR_Ord);
       (lfnbuf, r) \<leftarrow> pick_lfn_loop dir p LfnOfs lfnbuf ((ucast (ord AND NOT LLEF) - 1) * 13) 1;
       (case r of None \<Rightarrow> Some (False, lfnbuf)
        | Some (i, wc) \<Rightarrow>
            if ord AND LLEF \<noteq> 0 \<and> wc \<noteq> 0 then
              if FF_MAX_LFN + 1 \<le> unat i then Some (False, lfnbuf)
              else do { lfnbuf \<leftarrow> wr lfnbuf (unat i) 0; Some (True, lfnbuf) }
            else Some (True, lfnbuf)) } }"

fun put_lfn_loop ::
  "u16 list \<Rightarrow> nat \<Rightarrow> nat list \<Rightarrow> u8 list \<Rightarrow> u32 \<Rightarrow> u16 \<Rightarrow> (u8 list \<times> u32 \<times> u16) option" where
  "put_lfn_loop lfn p [] dir i wc = Some (dir, i, wc)"
| "put_lfn_loop lfn p (ofs # rest) dir i wc = do {
     (i, wc) \<leftarrow> (if wc \<noteq> 0xFFFF then do { w \<leftarrow> rd lfn (unat i); Some (i + 1, w) } else Some (i, wc));
     dir \<leftarrow> st_word dir (p + ofs) wc;
     put_lfn_loop lfn p rest dir i (if wc = 0 then 0xFFFF else wc) }"

definition put_lfn :: "u16 list \<Rightarrow> u8 list \<Rightarrow> nat \<Rightarrow> u8 \<Rightarrow> u8 \<Rightarrow> u8 list option" where
  "put_lfn lfn dir p ord chk = do {
     dir \<leftarrow> wr dir (p + LDIR_Chksum) chk;
     dir \<leftarrow> wr dir (p + LDIR_Attr) AM_LFN;
     dir \<leftarrow> wr dir (p + LDIR_Type) 0;
     dir \<leftarrow> st_word dir (p + LDIR_FstClusLO) 0;
     (dir, i, wc) \<leftarrow> put_lfn_loop lfn p LfnOfs dir ((ucast ord - 1) * 13) 0;
     last \<leftarrow> (if wc = 0xFFFF then Some True else do { l \<leftarrow> rd lfn (unat i); Some (l = 0) });
     wr dir (p + LDIR_Ord) (if last then ord OR LLEF else ord) }"

section \<open>The numbered short name\<close>

text \<open>The code page has no double octets.\<close>

definition dbc_1st :: "u8 \<Rightarrow> bool" where "dbc_1st c = False"
definition dbc_2nd :: "u8 \<Rightarrow> bool" where "dbc_2nd c = False"

definition hash_bit :: "u32 \<Rightarrow> bool \<Rightarrow> u32" where
  "hash_bit sreg b =
     (let sreg = push_bit 1 sreg + of_bool b in
      if sreg AND 0x10000 \<noteq> 0 then sreg XOR 0x11021 else sreg)"

definition hash_char :: "u32 \<Rightarrow> u16 \<Rightarrow> u32" where
  "hash_char sreg wc = foldl (\<lambda>s i. hash_bit s (bit wc i)) sreg [0..<16]"

fun hash_name :: "u32 \<Rightarrow> u16 list \<Rightarrow> u32 option" where
  "hash_name sreg [] = None"
| "hash_name sreg (wc # lfn) = (if wc \<noteq> 0 then hash_name (hash_char sreg wc) lfn else Some sreg)"

definition hex_octet :: "u32 \<Rightarrow> u8" where
  "hex_octet seq = (let c = ucast (seq mod 16) + 0x30 :: u8 in if 0x39 < c then c + 7 else c)"

text \<open>The digits go to \<open>ns[7]\<close> and down; the write in front of the array is undefined.\<close>

function hex_loop :: "u8 list \<Rightarrow> nat \<Rightarrow> u32 \<Rightarrow> (u8 list \<times> nat) option" where
  "hex_loop ns i seq = do {
     ns \<leftarrow> wr ns i (hex_octet seq);
     if i = 0 then None
     else if seq div 16 \<noteq> 0 then hex_loop ns (i - 1) (seq div 16) else Some (ns, i - 1) }"
  by pat_completeness auto
termination
  by (relation "measure (\<lambda>(_, i, _). i)") auto

declare hex_loop.simps [simp del]

function body_end :: "u8 list \<Rightarrow> nat \<Rightarrow> nat \<Rightarrow> nat option" where
  "body_end dst i j =
     (if j < i then do {
        c \<leftarrow> rd dst j;
        if c = 0x20 then Some j
        else if dbc_1st c then if j = i - 1 then Some j else body_end dst i (j + 2)
        else body_end dst i (j + 1) }
      else Some j)"
  by pat_completeness auto
termination
  by (relation "measure (\<lambda>(_, i, j). i - j)") auto

declare body_end.simps [simp del]

function put_number :: "u8 list \<Rightarrow> u8 list \<Rightarrow> nat \<Rightarrow> nat \<Rightarrow> u8 list option" where
  "put_number ns dst i j = do {
     c \<leftarrow> (if i < 8 then rd ns i else Some 0x20);
     dst \<leftarrow> wr dst j c;
     if j + 1 < 8 then put_number ns dst (if i < 8 then i + 1 else i) (j + 1) else Some dst }"
  by pat_completeness auto
termination
  by (relation "measure (\<lambda>(_, _, _, j). 8 - j)") auto

declare put_number.simps [simp del]

definition gen_numname :: "u8 list \<Rightarrow> u8 list \<Rightarrow> u16 list \<Rightarrow> u32 \<Rightarrow> u8 list option" where
  "gen_numname dst src lfn seq = do {
     dst \<leftarrow> mem_cpy dst 0 src 0 11;
     seq \<leftarrow> (if 5 < seq then hash_name seq lfn else Some seq);
     (ns, i) \<leftarrow> hex_loop (replicate 8 0) 7 seq;
     ns \<leftarrow> wr ns i 0x7E;
     j \<leftarrow> body_end dst i 0;
     put_number ns dst i j }"

section \<open>Checksums\<close>

definition sum_sfn_step :: "u8 \<Rightarrow> u8 \<Rightarrow> u8" where
  "sum_sfn_step chk b = drop_bit 1 chk + push_bit 7 chk + b"

fun sum_sfn_loop :: "u8 list \<Rightarrow> nat \<Rightarrow> nat \<Rightarrow> u8 \<Rightarrow> u8 option" where
  "sum_sfn_loop dir p 0 chk = Some chk"
| "sum_sfn_loop dir p (Suc n) chk = do { b \<leftarrow> rd dir p; sum_sfn_loop dir (p + 1) n (sum_sfn_step chk b) }"

definition sum_sfn :: "u8 list \<Rightarrow> nat \<Rightarrow> u8 option" where
  "sum_sfn dir p = sum_sfn_loop dir p 11 0"

definition rot_sum :: "u16 \<Rightarrow> u16 \<Rightarrow> u16" where
  "rot_sum chk x = (if chk AND 1 \<noteq> 0 then 0x8000 else 0) + drop_bit 1 chk + x"

text \<open>The index passes over the two octets of the sum itself.\<close>

function xdir_sum_loop :: "u8 list \<Rightarrow> nat \<Rightarrow> nat \<Rightarrow> u16 \<Rightarrow> u16 option" where
  "xdir_sum_loop dir szblk i chk =
     (if i < szblk then
        if i = XDIR_SetSum then xdir_sum_loop dir szblk (i + 2) chk
        else do { b \<leftarrow> rd dir i; xdir_sum_loop dir szblk (i + 1) (rot_sum chk (ucast b)) }
      else Some chk)"
  by pat_completeness auto
termination
  by (relation "measure (\<lambda>(_, szblk, i, _). szblk - i)") auto

declare xdir_sum_loop.simps [simp del]

definition xdir_sum :: "u8 list \<Rightarrow> u16 option" where
  "xdir_sum dir = do { n \<leftarrow> rd dir XDIR_NumSec; xdir_sum_loop dir ((unat n + 1) * SZDIRE) 0 0 }"

fun xname_sum_loop :: "u16 list \<Rightarrow> u16 \<Rightarrow> u16 option" where
  "xname_sum_loop [] chk = None"
| "xname_sum_loop (chr # name) chk =
     (if chr \<noteq> 0 then do {
        c \<leftarrow> ff_wtoupper (ucast chr);
        let chr = (ucast c :: u16);
        let chk = rot_sum chk (chr AND 0xFF);
        xname_sum_loop name (rot_sum chk (drop_bit 8 chr)) }
      else Some chk)"

definition xname_sum :: "u16 list \<Rightarrow> u16 option" where
  "xname_sum name = xname_sum_loop name 0"

definition xsum32 :: "u8 \<Rightarrow> u32 \<Rightarrow> u32" where
  "xsum32 dat chk = (if chk AND 1 \<noteq> 0 then 0x80000000 else 0) + drop_bit 1 chk + ucast dat"

section \<open>What an entry of a long name holds\<close>

text \<open>The characters of a name as its entries store them: the name, a zero, and fillers.\<close>

definition stored_char :: "u16 list \<Rightarrow> nat \<Rightarrow> u16" where
  "stored_char nm k = (if k < length nm then nm ! k else if k = length nm then 0 else 0xFFFF)"

text \<open>A name that can be stored, and a buffer that holds it.\<close>

definition name_ok :: "u16 list \<Rightarrow> bool" where
  "name_ok nm \<longleftrightarrow> 0 \<notin> set nm \<and> 0xFFFF \<notin> set nm \<and> length nm \<le> FF_MAX_LFN"

definition holds_name :: "u16 list \<Rightarrow> u16 list \<Rightarrow> bool" where
  "holds_name lfn nm \<longleftrightarrow> length lfn = FF_MAX_LFN + 1 \<and> 0 \<notin> set nm \<and> (\<exists>junk. lfn = nm @ 0 # junk)"

lemma holds_nameD:
  assumes "holds_name lfn nm"
  shows "length nm \<le> 255" and "length lfn = 256" and "k < length nm \<Longrightarrow> lfn ! k = nm ! k"
    and "lfn ! length nm = 0" and "k \<le> length nm \<Longrightarrow> lfn ! k = 0 \<longleftrightarrow> k = length nm"
proof -
  obtain junk where lfn: "lfn = nm @ 0 # junk" and "length lfn = 256" and nz: "0 \<notin> set nm"
    using assms by (auto simp: holds_name_def FF_MAX_LFN_def)
  then show "length nm \<le> 255" and "length lfn = 256" by simp_all
  show "k < length nm \<Longrightarrow> lfn ! k = nm ! k" for k using lfn by (simp add: nth_append)
  show z: "lfn ! length nm = 0" using lfn by simp
  show "lfn ! k = 0 \<longleftrightarrow> k = length nm" if "k \<le> length nm"
  proof (cases "k = length nm")
    case False
    then have "k < length nm" using that by simp
    then have "lfn ! k \<in> set nm" using lfn by (simp add: nth_append)
    then show ?thesis using False nz by auto
  qed (simp add: z)
qed

definition lfn_entry :: "u16 list \<Rightarrow> nat \<Rightarrow> u8 \<Rightarrow> u8 list \<Rightarrow> nat \<Rightarrow> bool" where
  "lfn_entry nm n chk dir p \<longleftrightarrow> p + SZDIRE \<le> length dir
     \<and> dir ! (p + LDIR_Ord) = (if length nm \<le> 13 * n then of_nat n OR LLEF else of_nat n)
     \<and> dir ! (p + LDIR_Attr) = AM_LFN \<and> dir ! (p + LDIR_Type) = 0 \<and> dir ! (p + LDIR_Chksum) = chk
     \<and> ld_word dir (p + LDIR_FstClusLO) = Some 0
     \<and> (\<forall>j < 13. ld_word dir (p + LfnOfs ! j) = Some (stored_char nm (13 * (n - 1) + j)))"

text \<open>A part of an entry that a store of characters at the offsets leaves alone.\<close>

definition off_cells :: "nat list \<Rightarrow> nat \<Rightarrow> nat \<Rightarrow> bool" where
  "off_cells ofs p q \<longleftrightarrow> (\<forall>x \<in> set ofs. q < p + x \<or> p + x + 2 \<le> q)"

lemma put_lfn_loop_spec:
  assumes lfn: "holds_name lfn nm" "0xFFFF \<notin> set nm"
    and "sorted_wrt (\<lambda>a b. a + 2 \<le> b) ofs" and "\<forall>x \<in> set ofs. p + x + 2 \<le> length dir"
    and "k \<le> length nm \<Longrightarrow> unat i = k \<and> wc \<noteq> 0xFFFF" and "length nm < k \<Longrightarrow> wc = 0xFFFF"
  shows "\<exists>dir' i' wc'. put_lfn_loop lfn p ofs dir i wc = Some (dir', i', wc')
     \<and> length dir' = length dir
     \<and> (\<forall>j < length ofs. ld_word dir' (p + ofs ! j) = Some (stored_char nm (k + j)))
     \<and> (\<forall>q. off_cells ofs p q \<longrightarrow> dir' ! q = dir ! q)
     \<and> (k + length ofs \<le> length nm \<longrightarrow> unat i' = k + length ofs \<and> wc' \<noteq> 0xFFFF)
     \<and> (length nm < k + length ofs \<longrightarrow> wc' = 0xFFFF)"
  using assms(3-)
proof (induction ofs arbitrary: dir i wc k)
  case Nil
  then show ?case by simp
next
  case (Cons x ofs)
  define w where "w = stored_char nm k"
  define i1 where "i1 = (if wc \<noteq> 0xFFFF then i + 1 else i)"
  have fetch: "(if wc \<noteq> 0xFFFF then do { w \<leftarrow> rd lfn (unat i); Some (i + 1, w) } else Some (i, wc)) = Some (i1, w)"
  proof (cases "k \<le> length nm")
    case True
    then have "unat i = k" "wc \<noteq> 0xFFFF" using Cons(4) by auto
    moreover have "lfn ! k = w"
      using True holds_nameD(3,4) [OF lfn(1)] by (auto simp: w_def stored_char_def le_less)
    ultimately show ?thesis using True holds_nameD(1,2) [OF lfn(1)] by (simp add: rd_def i1_def)
  next
    case False
    then have "wc = 0xFFFF" using Cons(5) by simp
    then show ?thesis using False by (simp add: w_def i1_def stored_char_def)
  qed
  obtain dir1 where dir1: "st_word dir (p + x) w = Some dir1"
    using word_cell.st_total [of "p + x" dir w] Cons(3) by auto
  have len1: "length dir1 = length dir" by (rule word_cell.st_length [OF dir1])
  define wc1 where "wc1 = (if w = 0 then 0xFFFF else w)"
  have low: "k + 1 \<le> length nm \<Longrightarrow> unat i1 = k + 1 \<and> wc1 \<noteq> 0xFFFF"
  proof -
    assume k: "k + 1 \<le> length nm"
    then have "unat i = k" "wc \<noteq> 0xFFFF" using Cons(4) by auto
    moreover have "unat (i + 1) = k + 1"
      using \<open>unat i = k\<close> k holds_nameD(1) [OF lfn(1)] by (simp add: unat_word_ariths)
    moreover have "nm ! k \<in> set nm" using k by simp
    then have "nm ! k \<noteq> 0" "nm ! k \<noteq> 0xFFFF" using lfn by (auto simp: holds_name_def)
    ultimately show ?thesis using k by (auto simp: i1_def wc1_def w_def stored_char_def)
  qed
  have high: "length nm < k + 1 \<Longrightarrow> wc1 = 0xFFFF"
    by (auto simp: wc1_def w_def stored_char_def)
  obtain dir' i' wc' where rest: "put_lfn_loop lfn p ofs dir1 i1 wc1 = Some (dir', i', wc')"
    and r: "length dir' = length dir1"
      "\<forall>j < length ofs. ld_word dir' (p + ofs ! j) = Some (stored_char nm (k + 1 + j))"
      "\<forall>q. off_cells ofs p q \<longrightarrow> dir' ! q = dir1 ! q"
      "k + 1 + length ofs \<le> length nm \<longrightarrow> unat i' = k + 1 + length ofs \<and> wc' \<noteq> 0xFFFF"
      "length nm < k + 1 + length ofs \<longrightarrow> wc' = 0xFFFF"
    using Cons(1) [of dir1 "k + 1" i1 wc1, OF _ _ low high] Cons(2,3) len1 by auto
  have "put_lfn_loop lfn p (x # ofs) dir i wc = Some (dir', i', wc')"
    unfolding put_lfn_loop.simps fetch using dir1 rest by (simp add: wc1_def)
  moreover have "ld_word dir' (p + x) = Some w"
  proof -
    have "ld_word dir' (p + x) = ld_word dir1 (p + x)"
    proof (rule word_cell.ld_local)
      fix q assume "p + x \<le> q" and "q < p + x + 2"
      moreover have "x + 2 \<le> y" if "y \<in> set ofs" for y using Cons(2) that by simp
      ultimately have "off_cells ofs p q" by (fastforce simp: off_cells_def)
      then show "dir' ! q = dir1 ! q" using r(3) by simp
    qed (rule r(1))
    then show ?thesis using word_cell.ld_st [OF dir1] by simp
  qed
  then have "\<forall>j < length (x # ofs). ld_word dir' (p + (x # ofs) ! j) = Some (stored_char nm (k + j))"
    using r(2) by (auto simp: less_Suc_eq_0_disj w_def)
  moreover have "\<forall>q. off_cells (x # ofs) p q \<longrightarrow> dir' ! q = dir ! q"
    using r(3) word_cell.st_outside [OF dir1] by (auto simp: off_cells_def)
  ultimately show ?case using r len1 by auto
qed

lemma LfnOfs_cells: "length LfnOfs = 13" "sorted_wrt (\<lambda>a b. a + 2 \<le> b) LfnOfs" "\<forall>x \<in> set LfnOfs. x + 2 \<le> 32"
  by (simp_all add: LfnOfs_def)

lemma off_LfnOfs: "q < p \<or> q = p \<or> (11 \<le> q - p \<and> q - p < 14) \<or> (26 \<le> q - p \<and> q - p < 28) \<or> p + 32 \<le> q
    \<Longrightarrow> off_cells LfnOfs p q"
  by (auto simp: off_cells_def LfnOfs_def)

text \<open>The place in the name of the part with number \<open>n\<close>.\<close>

lemma name_place:
  assumes "1 \<le> n" and "n \<le> 63"
  shows "unat ((ucast (of_nat n :: u8) - 1) * 13 :: u32) = 13 * (n - 1)"
proof -
  have "(ucast (of_nat n :: u8) :: u32) = of_nat n"
    using assms by (simp add: word_unat_eq_iff unsigned_ucast_eq unat_of_nat take_bit_nat_eq_self)
  then have "(ucast (of_nat n :: u8) - 1) * 13 = (of_nat (13 * (n - 1)) :: u32)"
    using assms(1) by (simp add: of_nat_diff)
  moreover have "13 * (n - 1) < 2 ^ 32" using assms(2) by simp
  ultimately show ?thesis by (simp only: unat_of_nat) simp
qed

lemma put_lfn_entry:
  assumes lfn: "holds_name lfn nm" "0xFFFF \<notin> set nm"
    and n: "1 \<le> n" "13 * (n - 1) < length nm" and room: "p + SZDIRE \<le> length dir"
  obtains dir' where "put_lfn lfn dir p (of_nat n) chk = Some dir'" and "length dir' = length dir"
    and "lfn_entry nm n chk dir' p" and "\<And>q. q < p \<or> p + SZDIRE \<le> q \<Longrightarrow> dir' ! q = dir ! q"
proof -
  define k where "k = 13 * (n - 1)"
  define dir1 where "dir1 = dir[p + 13 := chk, p + 11 := AM_LFN, p + 12 := 0]"
  have room: "p + 32 \<le> length dir" using room by (simp add: SZDIRE_def)
  then obtain dir2 where dir2: "st_word dir1 (p + 26) 0 = Some dir2"
    using word_cell.st_total [of "p + 26" dir1 0] by (auto simp: dir1_def)
  have len2: "length dir2 = length dir" using word_cell.st_length [OF dir2] by (simp add: dir1_def)
  have nm: "length nm \<le> 255" using lfn(1) by (rule holds_nameD)
  then have small: "n \<le> 20" using n by simp
  define i :: u32 where "i = (ucast (of_nat n :: u8) - 1) * 13"
  have i: "unat i = k" unfolding i_def k_def using name_place small n(1) by simp
  obtain dir3 i' wc' where loop: "put_lfn_loop lfn p LfnOfs dir2 i 0 = Some (dir3, i', wc')"
    and len3: "length dir3 = length dir2"
    and chars: "\<forall>j < 13. ld_word dir3 (p + LfnOfs ! j) = Some (stored_char nm (k + j))"
    and off: "\<forall>q. off_cells LfnOfs p q \<longrightarrow> dir3 ! q = dir2 ! q"
    and fin: "k + 13 \<le> length nm \<longrightarrow> unat i' = k + 13 \<and> wc' \<noteq> 0xFFFF" "length nm < k + 13 \<longrightarrow> wc' = 0xFFFF"
    using put_lfn_loop_spec [OF lfn LfnOfs_cells(2), of p dir2 k i 0] LfnOfs_cells i n(2) room len2
    by (fastforce simp: k_def)
  define last where "last = (length nm \<le> 13 * n)"
  define ord where "ord = (if last then of_nat n OR LLEF else of_nat n)"
  have kn: "k + 13 = 13 * n" using n(1) by (simp add: k_def algebra_simps)
  have "(if wc' = 0xFFFF then Some True else do { l \<leftarrow> rd lfn (unat i'); Some (l = 0) }) = Some last"
  proof (cases "k + 13 \<le> length nm")
    case True
    then show ?thesis
      using fin(1) holds_nameD(1,2,5) [OF lfn(1)] kn by (auto simp: last_def rd_def)
  next
    case False
    then show ?thesis using fin(2) kn by (simp add: last_def)
  qed
  then have put: "put_lfn lfn dir p (of_nat n) chk = Some (dir3[p := ord])"
    using room dir2 loop len2 len3
    by (simp add: put_lfn_def lfn_fields wr_def dir1_def i_def ord_def)
  have keep: "dir3 ! q = dir1 ! q" if "off_cells LfnOfs p q" "q \<noteq> p + 26" "q \<noteq> p + 27" for q
  proof -
    have "q < p + 26 \<or> p + 26 + 2 \<le> q" using that(2,3) by linarith
    then show ?thesis using off that(1) word_cell.st_outside [OF dir2, of q] by simp
  qed
  have "lfn_entry nm n chk (dir3[p := ord]) p"
  proof -
    have "dir3 ! (p + 11) = AM_LFN" "dir3 ! (p + 12) = 0" "dir3 ! (p + 13) = chk"
      using keep [OF off_LfnOfs] room by (simp_all add: dir1_def)
    moreover have "ld_word (dir3[p := ord]) (p + o') = ld_word dir3 (p + o')" if "1 \<le> o'" for o'
      using that by (simp add: ld_word_eq)
    moreover have "ld_word dir3 (p + 26) = ld_word dir2 (p + 26)"
      by (rule word_cell.ld_local) (use len3 off off_LfnOfs in \<open>auto simp: le_diff_conv less_diff_conv2\<close>)
    moreover have "1 \<le> LfnOfs ! j" if "j < 13" for j
      using that nth_mem [of j LfnOfs] LfnOfs_cells(1) by (auto simp: LfnOfs_def)
    ultimately show ?thesis
      using room len2 len3 chars word_cell.ld_st [OF dir2]
      by (simp add: lfn_entry_def lfn_fields(1-5) SZDIRE_def ord_def last_def k_def)
  qed
  moreover have "dir3[p := ord] ! q = dir ! q" if "q < p \<or> p + SZDIRE \<le> q" for q
    using that keep [OF off_LfnOfs, of q] by (auto simp: SZDIRE_def dir1_def)
  ultimately show thesis using that put len2 len3 by simp
qed

section \<open>Reading and comparing entries\<close>

lemma order_octet:
  assumes "n \<le> 63"
  defines "a \<equiv> of_nat n :: u8"
  shows "a AND 0x3F = a" and "(a OR LLEF) AND 0x3F = a" and "a AND NOT LLEF = a"
    and "(a OR LLEF) AND NOT LLEF = a" and "a AND LLEF = 0" and "(a OR LLEF) AND LLEF \<noteq> 0"
proof -
  have m: "(0x3F :: u8) = mask 6" by (simp add: mask_eq_exp_minus_1)
  have "unat a < 2 ^ 6" using assms(1) by (simp add: a_def unat_of_nat take_bit_nat_eq_self)
  then have "take_bit 6 a = a"
    by (simp add: word_unat_eq_iff unsigned_take_bit_eq take_bit_nat_eq_self)
  then show a: "a AND 0x3F = a" unfolding m by (simp add: take_bit_eq_mask)
  have z: "(a AND 0x3F) AND 0x40 = 0" by (simp add: and.assoc)
  then show z': "a AND LLEF = 0" unfolding a by (simp add: LLEF_def)
  show "(a OR LLEF) AND 0x3F = a" by (simp add: bit.conj_disj_distrib2 a LLEF_def)
  have "(a AND 0x3F) AND NOT 0x40 = a AND 0x3F" by (simp add: and.assoc)
  then show n: "a AND NOT LLEF = a" unfolding a by (simp add: LLEF_def)
  show "(a OR LLEF) AND NOT LLEF = a" by (simp add: bit.conj_disj_distrib2 n)
  show "(a OR LLEF) AND LLEF \<noteq> 0" by (simp add: bit.conj_disj_distrib2 z') (simp add: LLEF_def)
qed

definition same_char :: "u16 \<Rightarrow> u16 \<Rightarrow> bool" where
  "same_char c d \<longleftrightarrow> up_of (ucast c) = up_of (ucast d)"

lemma ucast_zero16: "(ucast (c :: u16) :: u32) = 0 \<longleftrightarrow> c = 0"
  using ucast_eq_iff_up [of c 0, where ?'b = 32] by simp

lemma same_char_zero: "same_char c 0 \<longleftrightarrow> c = 0" "same_char 0 c \<longleftrightarrow> c = 0"
  using up_of_zero [of "ucast c"] up_of_zero [of 0] by (auto simp: same_char_def ucast_zero16)

lemma unat_next: "unat (i :: u32) = x \<Longrightarrow> x \<le> 255 \<Longrightarrow> unat (i + 1) = x + 1"
  by (simp add: unat_word_ariths)

lemma cmp_lfn_loop_spec:
  assumes nm: "0 \<notin> set nm" "length nm \<le> 255" and lfn: "length lfn = 256"
    and "\<forall>j < length ofs. ld_word dir (p + ofs ! j) = Some (stored_char nm (x + j))"
    and "x \<le> length nm \<Longrightarrow> unat i = x \<and> wc \<noteq> 0" and "length nm < x \<Longrightarrow> wc = 0"
  defines "agree \<equiv> \<lambda>ofs x. \<forall>j < length ofs. x + j \<le> length nm \<longrightarrow> same_char (stored_char nm (x + j)) (lfn ! (x + j))"
  shows "\<exists>r. cmp_lfn_loop lfn dir p ofs i wc = Some r \<and> (r = None \<longleftrightarrow> \<not> agree ofs x)
     \<and> (\<forall>i' wc'. r = Some (i', wc') \<longrightarrow> (if x + length ofs \<le> length nm
          then unat i' = x + length ofs \<and> wc' \<noteq> 0 else wc' = 0))"
  using assms(4-6)
proof (induction ofs arbitrary: i wc x)
  case Nil
  then show ?case by (auto simp: agree_def)
next
  case (Cons o1 ofs)
  have ld: "ld_word dir (p + o1) = Some (stored_char nm x)" using Cons(2) by fastforce
  have rest: "\<forall>j < length ofs. ld_word dir (p + ofs ! j) = Some (stored_char nm (x + 1 + j))"
    using Cons(2) by fastforce
  have agree: "agree (o1 # ofs) x \<longleftrightarrow> (x \<le> length nm \<longrightarrow> same_char (stored_char nm x) (lfn ! x)) \<and> agree ofs (x + 1)"
    by (auto simp: agree_def less_Suc_eq_0_disj)
  show ?case
  proof (cases "x \<le> length nm")
    case True
    then have i: "unat i = x" "wc \<noteq> 0" "\<not> FF_MAX_LFN + 1 \<le> unat i" "rd lfn (unat i) = Some (lfn ! x)"
      using Cons(3) nm(2) lfn by (auto simp: FF_MAX_LFN_def rd_def)
    have "x + 1 \<le> length nm \<Longrightarrow> unat (i + 1) = x + 1 \<and> stored_char nm x \<noteq> 0"
      using unat_next [OF i(1)] nm(2) nm(1) [unfolded in_set_conv_nth] by (auto simp: stored_char_def)
    moreover have "length nm < x + 1 \<Longrightarrow> stored_char nm x = 0" using True by (simp add: stored_char_def)
    ultimately obtain r where r: "cmp_lfn_loop lfn dir p ofs (i + 1) (stored_char nm x) = Some r"
        "r = None \<longleftrightarrow> \<not> agree ofs (x + 1)"
        "\<forall>i' wc'. r = Some (i', wc') \<longrightarrow> (if x + 1 + length ofs \<le> length nm
          then unat i' = x + 1 + length ofs \<and> wc' \<noteq> 0 else wc' = 0)"
      using Cons(1) [OF rest] by blast
    then show ?thesis
      using ld i True agree by (auto simp: ff_wtoupper_up_of same_char_def)
  next
    case False
    then have "wc = 0" "stored_char nm x = 0xFFFF" using Cons(4) by (simp_all add: stored_char_def)
    moreover obtain r where "cmp_lfn_loop lfn dir p ofs i wc = Some r"
        "r = None \<longleftrightarrow> \<not> agree ofs (x + 1)"
        "\<forall>i' wc'. r = Some (i', wc') \<longrightarrow> (if x + 1 + length ofs \<le> length nm
          then unat i' = x + 1 + length ofs \<and> wc' \<noteq> 0 else wc' = 0)"
      using Cons(1) [OF rest, of i wc] False calculation(1) by auto
    ultimately show ?thesis using ld False agree by auto
  qed
qed

text \<open>The part of the name an entry is compared with, its end included in the last one.\<close>

definition part_agrees :: "u16 list \<Rightarrow> u16 list \<Rightarrow> nat \<Rightarrow> bool" where
  "part_agrees nm lfn n \<longleftrightarrow> (\<forall>x \<le> length nm. 13 * (n - 1) \<le> x \<and> x < 13 * n \<or> length nm = 13 * n \<and> x = 13 * n
     \<longrightarrow> same_char (stored_char nm x) (lfn ! x))"

lemma cmp_lfn_entry:
  assumes nm: "0 \<notin> set nm" "length nm \<le> 255" and lfn: "length lfn = 256"
    and entry: "lfn_entry nm n chk dir p" and n: "1 \<le> n" "13 * (n - 1) < length nm"
  shows "cmp_lfn lfn dir p = Some (part_agrees nm lfn n)"
proof -
  define k where "k = 13 * (n - 1)"
  have small: "n \<le> 63" using n(2) nm(2) by simp
  have kn: "k + 13 = 13 * n" using n(1) by (simp add: k_def algebra_simps)
  have len: "p + 32 \<le> length dir" and ord: "dir ! p = (if length nm \<le> 13 * n then of_nat n OR LLEF else of_nat n)"
    and lo: "ld_word dir (p + 26) = Some 0"
    and chars: "\<forall>j < length LfnOfs. ld_word dir (p + LfnOfs ! j) = Some (stored_char nm (k + j))"
    using entry by (auto simp: lfn_entry_def SZDIRE_def lfn_fields(1-5) LfnOfs_cells(1) k_def)
  have i: "unat ((ucast (dir ! p AND 0x3F) - 1) * 13 :: u32) = k"
    unfolding k_def using ord order_octet(1,2) [OF small] name_place [OF n(1) small] by simp
  have last: "dir ! p AND LLEF \<noteq> 0 \<longleftrightarrow> length nm \<le> k + 13"
    using ord order_octet(5,6) [OF small] kn by simp
  obtain r where loop: "cmp_lfn_loop lfn dir p LfnOfs ((ucast (dir ! p AND 0x3F) - 1) * 13) 1 = Some r"
    and none: "r = None \<longleftrightarrow> \<not> (\<forall>j < 13. k + j \<le> length nm \<longrightarrow> same_char (stored_char nm (k + j)) (lfn ! (k + j)))"
    and some: "\<forall>i' wc'. r = Some (i', wc') \<longrightarrow> (if k + 13 \<le> length nm then unat i' = k + 13 \<and> wc' \<noteq> 0 else wc' = 0)"
    using cmp_lfn_loop_spec [OF nm lfn chars, of "(ucast (dir ! p AND 0x3F) - 1) * 13" 1] i n(2)
    by (auto simp: k_def LfnOfs_cells(1))
  have inside: "(\<forall>j < 13. k + j \<le> length nm \<longrightarrow> same_char (stored_char nm (k + j)) (lfn ! (k + j)))
      \<longleftrightarrow> (\<forall>x \<le> length nm. k \<le> x \<and> x < k + 13 \<longrightarrow> same_char (stored_char nm x) (lfn ! x))" (is "?A = ?B")
  proof
    assume A: ?A
    show ?B
    proof (intro allI impI)
      fix x assume "x \<le> length nm" "k \<le> x \<and> x < k + 13"
      moreover from this obtain j where "x = k + j" by (auto simp: le_iff_add)
      ultimately show "same_char (stored_char nm x) (lfn ! x)" using A by simp
    qed
  qed auto
  have unfold: "cmp_lfn lfn dir p = (case r of None \<Rightarrow> Some False | Some (i, wc) \<Rightarrow>
        if dir ! p AND LLEF \<noteq> 0 \<and> wc \<noteq> 0 then do { l \<leftarrow> rd lfn (unat i); Some (l = 0) } else Some True)"
    using len lo loop by (simp add: cmp_lfn_def lfn_fields(1-5) rd_def)
  have agrees: "part_agrees nm lfn n \<longleftrightarrow> (\<forall>x \<le> length nm. k \<le> x \<and> x < k + 13 \<or> length nm = k + 13 \<and> x = k + 13
     \<longrightarrow> same_char (stored_char nm x) (lfn ! x))"
    unfolding part_agrees_def k_def [symmetric] kn [symmetric] ..
  show ?thesis
  proof (cases r)
    case None
    then have "\<not> part_agrees nm lfn n" using none unfolding inside agrees by blast
    then show ?thesis using unfold None by simp
  next
    case (Some iw)
    obtain i' wc' where iw: "iw = (i', wc')" by (cases iw)
    have B: ?B using none Some unfolding inside by simp
    show ?thesis
    proof (cases "length nm = k + 13")
      case True
      then have "unat i' = k + 13" "wc' \<noteq> 0" "dir ! p AND LLEF \<noteq> 0" using some Some iw last by auto
      then have "cmp_lfn lfn dir p = Some (lfn ! (k + 13) = 0)"
        using unfold Some iw lfn True nm(2) by (simp add: rd_def)
      moreover have "stored_char nm (k + 13) = 0" using True by (simp add: stored_char_def)
      ultimately show ?thesis
        using B True unfolding agrees by (auto simp: same_char_zero)
    next
      case False
      then have "wc' = 0 \<or> dir ! p AND LLEF = 0" using some Some iw last by (auto split: if_splits)
      then have "cmp_lfn lfn dir p = Some True" using unfold Some iw by auto
      moreover have "part_agrees nm lfn n"
        using B False unfolding agrees by auto
      ultimately show ?thesis by simp
    qed
  qed
qed

lemma pick_lfn_loop_spec:
  assumes nm: "0 \<notin> set nm" "length nm \<le> 255" and lfn: "length lfn = 256"
    and "\<forall>j < length ofs. ld_word dir (p + ofs ! j) = Some (stored_char nm (x + j))"
    and "x \<le> length nm \<Longrightarrow> unat i = x \<and> wc \<noteq> 0" and "length nm < x \<Longrightarrow> wc = 0"
  shows "\<exists>lfn' i' wc'. pick_lfn_loop dir p ofs lfn i wc = Some (lfn', Some (i', wc'))
     \<and> length lfn' = 256
     \<and> (\<forall>y < 256. lfn' ! y = (if x \<le> y \<and> y < x + length ofs \<and> y \<le> length nm then stored_char nm y else lfn ! y))
     \<and> (if x + length ofs \<le> length nm then unat i' = x + length ofs \<and> wc' \<noteq> 0 else wc' = 0)"
  using assms(3-6)
proof (induction ofs arbitrary: i wc x lfn)
  case Nil
  then show ?case by auto
next
  case (Cons o1 ofs)
  have ld: "ld_word dir (p + o1) = Some (stored_char nm x)" using Cons(3) by fastforce
  have rest: "\<forall>j < length ofs. ld_word dir (p + ofs ! j) = Some (stored_char nm (x + 1 + j))"
    using Cons(3) by fastforce
  show ?case
  proof (cases "x \<le> length nm")
    case True
    then have i: "unat i = x" "wc \<noteq> 0" "\<not> FF_MAX_LFN + 1 \<le> unat i"
      using Cons(4) nm(2) by (auto simp: FF_MAX_LFN_def)
    have "x + 1 \<le> length nm \<Longrightarrow> unat (i + 1) = x + 1 \<and> stored_char nm x \<noteq> 0"
      using unat_next [OF i(1)] nm(2) nm(1) [unfolded in_set_conv_nth] by (auto simp: stored_char_def)
    moreover have "length nm < x + 1 \<Longrightarrow> stored_char nm x = 0" using True by (simp add: stored_char_def)
    moreover have "length (lfn[x := stored_char nm x]) = 256" using Cons(2) by simp
    ultimately obtain lfn' i' wc' where
        r: "pick_lfn_loop dir p ofs (lfn[x := stored_char nm x]) (i + 1) (stored_char nm x) = Some (lfn', Some (i', wc'))"
        "length lfn' = 256"
        "\<forall>y < 256. lfn' ! y = (if x + 1 \<le> y \<and> y < x + 1 + length ofs \<and> y \<le> length nm
           then stored_char nm y else lfn[x := stored_char nm x] ! y)"
        "if x + 1 + length ofs \<le> length nm then unat i' = x + 1 + length ofs \<and> wc' \<noteq> 0 else wc' = 0"
      using Cons(1) [OF _ rest] by blast
    have "pick_lfn_loop dir p (o1 # ofs) lfn i wc = Some (lfn', Some (i', wc'))"
      using ld i True r(1) Cons(2) nm(2) by (simp add: wr_def)
    moreover have "\<forall>y < 256. lfn' ! y = (if x \<le> y \<and> y < x + length (o1 # ofs) \<and> y \<le> length nm
           then stored_char nm y else lfn ! y)"
      using r(3) True Cons(2) by (auto simp: nth_list_update le_less Suc_le_eq)
    ultimately show ?thesis using r(2,4) by simp
  next
    case False
    then have wc: "wc = 0" "stored_char nm x = 0xFFFF" using Cons(5) by (simp_all add: stored_char_def)
    obtain lfn' i' wc' where "pick_lfn_loop dir p ofs lfn i wc = Some (lfn', Some (i', wc'))"
        "length lfn' = 256"
        "\<forall>y < 256. lfn' ! y = (if x + 1 \<le> y \<and> y < x + 1 + length ofs \<and> y \<le> length nm
           then stored_char nm y else lfn ! y)"
        "if x + 1 + length ofs \<le> length nm then unat i' = x + 1 + length ofs \<and> wc' \<noteq> 0 else wc' = 0"
      using Cons(1) [OF Cons(2) rest, of i wc] False wc(1) by auto
    then show ?thesis using ld wc False by auto
  qed
qed

text \<open>What the working buffer holds behind the reading of part \<open>n\<close>.\<close>

definition part_read :: "u16 list \<Rightarrow> nat \<Rightarrow> u16 list \<Rightarrow> u16 list \<Rightarrow> bool" where
  "part_read nm n lfn lfn' \<longleftrightarrow> length lfn' = 256 \<and> (\<forall>y < 256. lfn' ! y =
     (if y \<le> length nm \<and> (13 * (n - 1) \<le> y \<and> y < 13 * n \<or> length nm = 13 * n \<and> y = 13 * n)
      then stored_char nm y else lfn ! y))"

lemma pick_lfn_entry:
  assumes nm: "0 \<notin> set nm" "length nm \<le> 255" and lfn: "length lfn = 256"
    and entry: "lfn_entry nm n chk dir p" and n: "1 \<le> n" "13 * (n - 1) < length nm"
  shows "\<exists>lfn'. pick_lfn lfn dir p = Some (True, lfn') \<and> part_read nm n lfn lfn'"
proof -
  define k where "k = 13 * (n - 1)"
  have small: "n \<le> 63" using n(2) nm(2) by simp
  have kn: "k + 13 = 13 * n" using n(1) by (simp add: k_def algebra_simps)
  have len: "p + 32 \<le> length dir" and ord: "dir ! p = (if length nm \<le> 13 * n then of_nat n OR LLEF else of_nat n)"
    and lo: "ld_word dir (p + 26) = Some 0"
    and chars: "\<forall>j < length LfnOfs. ld_word dir (p + LfnOfs ! j) = Some (stored_char nm (k + j))"
    using entry by (auto simp: lfn_entry_def SZDIRE_def lfn_fields(1-5) LfnOfs_cells(1) k_def)
  have i: "unat ((ucast (dir ! p AND NOT LLEF) - 1) * 13 :: u32) = k"
    unfolding k_def using ord order_octet(3,4) [OF small] name_place [OF n(1) small] by simp
  have last: "dir ! p AND LLEF \<noteq> 0 \<longleftrightarrow> length nm \<le> k + 13"
    using ord order_octet(5,6) [OF small] kn by simp
  obtain lfn' i' wc' where
    loop: "pick_lfn_loop dir p LfnOfs lfn ((ucast (dir ! p AND NOT LLEF) - 1) * 13) 1 = Some (lfn', Some (i', wc'))"
    and len': "length lfn' = 256"
    and read: "\<forall>y < 256. lfn' ! y = (if k \<le> y \<and> y < k + 13 \<and> y \<le> length nm then stored_char nm y else lfn ! y)"
    and fin: "if k + 13 \<le> length nm then unat i' = k + 13 \<and> wc' \<noteq> 0 else wc' = 0"
    using pick_lfn_loop_spec [OF nm lfn chars, of "(ucast (dir ! p AND NOT LLEF) - 1) * 13" 1] i n(2)
    by (auto simp: k_def LfnOfs_cells(1))
  have unfold: "pick_lfn lfn dir p = (if dir ! p AND LLEF \<noteq> 0 \<and> wc' \<noteq> 0 then
              if FF_MAX_LFN + 1 \<le> unat i' then Some (False, lfn')
              else do { lfnbuf \<leftarrow> wr lfn' (unat i') 0; Some (True, lfnbuf) }
            else Some (True, lfn'))"
    using len lo loop by (simp add: pick_lfn_def lfn_fields(1-5) rd_def)
  show ?thesis
  proof (cases "length nm = k + 13")
    case True
    then have "pick_lfn lfn dir p = Some (True, lfn'[k + 13 := 0])"
      using unfold fin last len' nm(2) by (simp add: wr_def FF_MAX_LFN_def)
    moreover have "part_read nm n lfn (lfn'[k + 13 := 0])"
      unfolding part_read_def k_def [symmetric] kn [symmetric] using read len' True
      by (auto simp: nth_list_update stored_char_def)
    ultimately show ?thesis by blast
  next
    case False
    then have "pick_lfn lfn dir p = Some (True, lfn')" using unfold fin last by (auto split: if_splits)
    moreover have "part_read nm n lfn lfn'"
      unfolding part_read_def k_def [symmetric] kn [symmetric] using read len' False by auto
    ultimately show ?thesis by blast
  qed
qed

section \<open>Whole names\<close>

text \<open>
  The entries of a name in the order of the directory, the last part first, and their reading and
  comparison one after the other, as the directory functions do it.
\<close>

fun store_parts :: "u16 list \<Rightarrow> u8 \<Rightarrow> nat \<Rightarrow> u8 list list option" where
  "store_parts lfn chk 0 = Some []"
| "store_parts lfn chk (Suc n) = do {
     e \<leftarrow> put_lfn lfn (replicate 32 0) 0 (of_nat (Suc n)) chk;
     es \<leftarrow> store_parts lfn chk n;
     Some (e # es) }"

fun read_parts :: "u16 list \<Rightarrow> u8 list list \<Rightarrow> u16 list option" where
  "read_parts buf [] = Some buf"
| "read_parts buf (e # es) = do { (ok, buf) \<leftarrow> pick_lfn buf e 0; if ok then read_parts buf es else None }"

fun match_parts :: "u16 list \<Rightarrow> u8 list list \<Rightarrow> bool option" where
  "match_parts lfn [] = Some True"
| "match_parts lfn (e # es) = do { ok \<leftarrow> cmp_lfn lfn e 0; if ok then match_parts lfn es else Some False }"

fun parts_stored :: "u16 list \<Rightarrow> u8 \<Rightarrow> nat \<Rightarrow> u8 list list \<Rightarrow> bool" where
  "parts_stored nm chk n [] = (n = 0)"
| "parts_stored nm chk n (e # es) = (0 < n \<and> lfn_entry nm n chk e 0 \<and> parts_stored nm chk (n - 1) es)"

lemma store_parts_stored:
  assumes "holds_name lfn nm" and "0xFFFF \<notin> set nm" and "13 * (n - 1) < length nm"
  shows "\<exists>es. store_parts lfn chk n = Some es \<and> parts_stored nm chk n es"
  using assms(3)
proof (induction n)
  case (Suc n)
  obtain e where e: "put_lfn lfn (replicate 32 0) 0 (of_nat (Suc n)) chk = Some e" "lfn_entry nm (Suc n) chk e 0"
    by (rule put_lfn_entry [OF assms(1,2), of "Suc n" 0 "replicate 32 0" chk]) (use Suc(2) in \<open>auto simp: SZDIRE_def\<close>)
  moreover have "13 * (n - 1) < length nm" using Suc(2) by simp
  from Suc(1) [OF this] obtain es where "store_parts lfn chk n = Some es" "parts_stored nm chk n es" by blast
  ultimately show ?case by simp
qed simp

lemma read_parts_stored:
  assumes nm: "0 \<notin> set nm" "length nm \<le> 255"
    and "13 * (n - 1) < length nm" and "parts_stored nm chk n es" and "length buf = 256"
  shows "\<exists>buf'. read_parts buf es = Some buf' \<and> length buf' = 256 \<and> (\<forall>y < 256. buf' ! y =
     (if y \<le> length nm \<and> (y < 13 * n \<or> length nm = 13 * n \<and> y = 13 * n) then stored_char nm y else buf ! y))"
  using assms(3-5)
proof (induction es arbitrary: n buf)
  case Nil
  then show ?case by simp
next
  case (Cons e es)
  then have n: "1 \<le> n" and e: "lfn_entry nm n chk e 0" and es: "parts_stored nm chk (n - 1) es" by auto
  obtain buf1 where b1: "pick_lfn buf e 0 = Some (True, buf1)" "part_read nm n buf buf1"
    using pick_lfn_entry [OF nm Cons(4) e n Cons(2)] by blast
  then have len: "length buf1 = 256" by (simp add: part_read_def)
  have lower: "13 * (n - 1 - 1) < length nm" using Cons(2) by simp
  obtain buf' where r: "read_parts buf1 es = Some buf'" "length buf' = 256"
      "\<forall>y < 256. buf' ! y = (if y \<le> length nm \<and> (y < 13 * (n - 1) \<or> length nm = 13 * (n - 1) \<and> y = 13 * (n - 1))
         then stored_char nm y else buf1 ! y)"
    using Cons(1) [OF lower es len] by blast
  obtain m where m: "n = Suc m" using n by (cases n) auto
  have "buf' ! y = (if y \<le> length nm \<and> (y < 13 * n \<or> length nm = 13 * n \<and> y = 13 * n)
      then stored_char nm y else buf ! y)" if "y < 256" for y
    using that r(3) b1(2) Cons(2) unfolding part_read_def m by auto
  then show ?case using b1(1) r(1,2) by simp
qed

lemma match_parts_stored:
  assumes nm: "0 \<notin> set nm" "length nm \<le> 255" and lfn: "length lfn = 256"
    and "13 * (n - 1) < length nm" and "parts_stored nm chk n es"
  shows "match_parts lfn es = Some (\<forall>i. 1 \<le> i \<and> i \<le> n \<longrightarrow> part_agrees nm lfn i)"
  using assms(4,5)
proof (induction es arbitrary: n)
  case (Cons e es)
  then have n: "1 \<le> n" and e: "lfn_entry nm n chk e 0" and es: "parts_stored nm chk (n - 1) es" by auto
  have lower: "13 * (n - 1 - 1) < length nm" using Cons(2) by simp
  obtain m where m: "n = Suc m" using n by (cases n) auto
  show ?case
    using Cons(1) [OF lower es] cmp_lfn_entry [OF nm lfn e n Cons(2)] unfolding m by (auto simp: le_Suc_eq)
qed auto

definition same_name :: "u16 list \<Rightarrow> u16 list \<Rightarrow> bool" where
  "same_name nm nm' \<longleftrightarrow> list_all2 same_char nm nm'"

lemma all_parts_agree:
  assumes "0 \<notin> set nm" and lfn: "holds_name lfn nm'" and n: "13 * (n - 1) < length nm" "length nm \<le> 13 * n"
  shows "(\<forall>i. 1 \<le> i \<and> i \<le> n \<longrightarrow> part_agrees nm lfn i) \<longleftrightarrow> same_name nm nm'" (is "?A \<longleftrightarrow> _")
proof -
  have "?A \<longleftrightarrow> (\<forall>x \<le> length nm. same_char (stored_char nm x) (lfn ! x))"
  proof
    assume A: ?A
    show "\<forall>x \<le> length nm. same_char (stored_char nm x) (lfn ! x)"
    proof (intro allI impI)
      fix x assume x: "x \<le> length nm"
      show "same_char (stored_char nm x) (lfn ! x)"
      proof (cases "x = 13 * n")
        case True
        then have "1 \<le> n" "length nm = 13 * n" using x n by auto
        then show ?thesis using A True unfolding part_agrees_def by fastforce
      next
        case False
        define i where "i = Suc (x div 13)"
        have "13 * (x div 13) \<le> x" "x < 13 * Suc (x div 13)" by simp_all
        moreover have "i \<le> n" using x n(2) False by (auto simp: i_def Suc_le_eq div_less_iff_less_mult mult.commute)
        ultimately show ?thesis using A [rule_format, of i] x unfolding part_agrees_def by (simp add: i_def)
      qed
    qed
  qed (simp add: part_agrees_def)
  also have "\<dots> \<longleftrightarrow> list_all2 same_char nm nm'"
  proof
    assume all: "\<forall>x \<le> length nm. same_char (stored_char nm x) (lfn ! x)"
    have "lfn ! length nm = 0" using all by (auto simp: stored_char_def same_char_zero dest: spec [of _ "length nm"])
    moreover have "lfn ! x \<noteq> 0" if "x < length nm" for x
    proof -
      have "same_char (nm ! x) (lfn ! x)" using all that by (auto simp: stored_char_def dest: spec [of _ x])
      moreover have "nm ! x \<noteq> 0" using assms(1) that by (auto simp: in_set_conv_nth)
      ultimately show ?thesis by (auto simp: same_char_zero)
    qed
    ultimately have len: "length nm' = length nm"
      using holds_nameD(4) [OF lfn] holds_nameD(5) [OF lfn, of "length nm"]
      by (metis linorder_neqE_nat less_imp_le)
    have "same_char (nm ! x) (nm' ! x)" if "x < length nm" for x
      using all [rule_format, of x] holds_nameD(3) [OF lfn, of x] that len by (simp add: stored_char_def)
    then show "list_all2 same_char nm nm'" using len by (simp add: list_all2_conv_all_nth)
  next
    assume same: "list_all2 same_char nm nm'"
    then have len: "length nm = length nm'" by (rule list_all2_lengthD)
    show "\<forall>x \<le> length nm. same_char (stored_char nm x) (lfn ! x)"
    proof (intro allI impI)
      fix x assume "x \<le> length nm"
      then show "same_char (stored_char nm x) (lfn ! x)"
        using list_all2_nthD [OF same] holds_nameD(3,4) [OF lfn] len
        by (cases "x = length nm") (auto simp: stored_char_def same_char_zero)
    qed
  qed
  finally show ?thesis by (simp add: same_name_def)
qed

lemma same_name_map: "same_name nm nm' \<longleftrightarrow> map (\<lambda>c. up_of (ucast c)) nm = map (\<lambda>c. up_of (ucast c)) nm'"
proof -
  have "list_all2 same_char nm nm' \<longleftrightarrow>
      list_all2 (=) (map (\<lambda>c. up_of (ucast c)) nm) (map (\<lambda>c. up_of (ucast c)) nm')"
    unfolding list_all2_map1 list_all2_map2 same_char_def ..
  then show ?thesis by (simp add: same_name_def list.rel_eq)
qed

lemma part_count:
  assumes "0 < length nm" and "n = (length nm + 12) div 13"
  shows "13 * (n - 1) < length nm" and "length nm \<le> 13 * n" and "1 \<le> n"
proof -
  have "13 * n \<le> length nm + 12" "length nm + 12 < 13 * n + 13"
    using assms(2) div_mult_mod_eq [of "length nm + 12" 13] mod_less_divisor [of 13 "length nm + 12"]
    by linarith+
  then show "length nm \<le> 13 * n" and "13 * (n - 1) < length nm" and "1 \<le> n" using assms(1) by linarith+
qed

text \<open>
  C29. The entries \<open>put_lfn\<close> writes for a name are read by \<open>pick_lfn\<close> as that name, and \<open>cmp_lfn\<close> accepts
  them all for exactly the names that are the same in upper case.
\<close>

theorem lfn_round_trip:
  assumes "holds_name lfn nm" and "nm \<noteq> []" and "0xFFFF \<notin> set nm" and "holds_name lfn2 nm2"
    and "length buf = 256"
  shows "\<exists>es. store_parts lfn chk ((length nm + 12) div 13) = Some es
     \<and> (\<exists>buf'. read_parts buf es = Some buf' \<and> holds_name buf' nm)
     \<and> match_parts lfn2 es = Some (map (\<lambda>c. up_of (ucast c)) nm = map (\<lambda>c. up_of (ucast c)) nm2)"
proof -
  define n where "n = (length nm + 12) div 13"
  have nm: "0 \<notin> set nm" "length nm \<le> 255" using assms(1) holds_nameD(1) by (auto simp: holds_name_def)
  have n: "13 * (n - 1) < length nm" "length nm \<le> 13 * n" "1 \<le> n"
    using part_count [of nm n] assms(2) by (auto simp: n_def)
  obtain es where es: "store_parts lfn chk n = Some es" "parts_stored nm chk n es"
    using store_parts_stored [OF assms(1,3) n(1)] by blast
  obtain buf' where buf': "read_parts buf es = Some buf'" "length buf' = 256"
    and chars: "\<forall>y < 256. buf' ! y = (if y \<le> length nm \<and> (y < 13 * n \<or> length nm = 13 * n \<and> y = 13 * n)
        then stored_char nm y else buf ! y)"
    using read_parts_stored [OF nm n(1) es(2) assms(5)] by blast
  have read: "buf' ! y = stored_char nm y" if "y \<le> length nm" for y
    using chars [rule_format, of y] that n(2) nm(2) by auto
  have "buf' = nm @ 0 # drop (Suc (length nm)) buf'"
  proof (rule nth_equalityI)
    show "length buf' = length (nm @ 0 # drop (Suc (length nm)) buf')" using buf'(2) nm(2) by simp
    fix y assume "y < length buf'"
    then show "buf' ! y = (nm @ 0 # drop (Suc (length nm)) buf') ! y"
      using read [of y] buf'(2) by (cases "y \<le> length nm") (auto simp: stored_char_def nth_append nth_Cons')
  qed
  then have "holds_name buf' nm" using nm buf'(2) unfolding holds_name_def FF_MAX_LFN_def by auto
  moreover have "match_parts lfn2 es = Some (same_name nm nm2)"
    using match_parts_stored [OF nm _ n(1) es(2), of lfn2] holds_nameD(2) [OF assms(4)]
      all_parts_agree [OF nm(1) assms(4) n(1,2)] by simp
  ultimately show ?thesis using es(1) buf'(1) unfolding n_def same_name_map by blast
qed

lemma lfn_round_trip_witness:
  defines "small \<equiv> [0x6C, 0x6F, 0x67] :: u16 list" and "capitals \<equiv> [0x4C, 0x4F, 0x47] :: u16 list"
  shows "\<exists>es. store_parts (small @ replicate 253 0) 0x55 1 = Some es
     \<and> match_parts (capitals @ replicate 253 0) es = Some True"
proof -
  have z: "replicate 253 0 = 0 # replicate 252 (0 :: u16)" by (simp add: numeral_eq_Suc)
  have h: "holds_name (nm @ replicate 253 0) nm" if "length nm = 3" "0 \<notin> set nm" for nm :: "u16 list"
    using that unfolding holds_name_def FF_MAX_LFN_def by (auto simp: z)
  then have "holds_name (small @ replicate 253 0) small" "holds_name (capitals @ replicate 253 0) capitals"
    by (auto intro!: h simp: small_def capitals_def simp del: append_Cons append_Nil)
  from lfn_round_trip [OF this(1) _ _ this(2), where buf = "replicate 256 0" and chk = "0x55"]
  show ?thesis by (simp add: small_def capitals_def up_of_ascii) blast
qed

text \<open>
  The character \<open>0xFFFF\<close> is a filler of the entries, but nothing keeps it out of a name: two names that
  differ behind it have the same entries.
\<close>

lemma put_lfn_filler_in_name:
  "put_lfn [0xFFFF, 0x41, 0] (replicate 32 0) 0 1 chk = put_lfn [0xFFFF, 0x42, 0] (replicate 32 0) 0 1 chk
   \<and> put_lfn [0xFFFF, 0x41, 0] (replicate 32 0) 0 1 chk \<noteq> None"
  by (simp add: put_lfn_def lfn_fields LfnOfs_def wr_def rd_def st_word_eq)

section \<open>The checksums\<close>

lemma sum_sfn_loop_eq:
  "sum_sfn_loop dir p n chk = (if p + n \<le> length dir \<or> n = 0
     then Some (foldl sum_sfn_step chk (take n (drop p dir))) else None)"
proof (induction n arbitrary: p chk)
  case (Suc n)
  then show ?case by (auto simp: rd_def simp flip: Cons_nth_drop_Suc)
qed simp

lemma sum_sfn_eq:
  "p + 11 \<le> length dir \<Longrightarrow> sum_sfn dir p = Some (foldl sum_sfn_step 0 (take 11 (drop p dir)))"
  by (simp add: sum_sfn_def sum_sfn_loop_eq)

text \<open>A rotation and an addition lose nothing, so one changed octet of a short name changes its sum.\<close>

lemma rotate_octet_inj:
  assumes "drop_bit 1 x + push_bit 7 x = drop_bit 1 y + push_bit 7 (y :: u8)"
  shows "x = y"
proof -
  have disj: "drop_bit 1 z + push_bit 7 z = drop_bit 1 z OR push_bit 7 z" for z :: u8
    by (rule disjunctive_add_eq_or, rule bit_word_eqI)
      (auto simp: bit_and_iff bit_drop_bit_eq bit_push_bit_iff dest: bit_imp_le_length)
  have eq: "bit (drop_bit 1 x OR push_bit 7 x) n = bit (drop_bit 1 y OR push_bit 7 y) n" for n
    using assms unfolding disj by simp
  show ?thesis
  proof (rule bit_word_eqI)
    fix n assume n: "n < LENGTH(8)"
    have "bit z n = bit (drop_bit 1 z OR push_bit 7 z) (if n = 0 then 7 else n - 1)" for z :: u8
      using n by (auto simp: bit_or_iff bit_drop_bit_eq bit_push_bit_iff dest: bit_imp_le_length)
    then show "bit x n = bit y n" using eq by simp
  qed
qed

lemma sum_sfn_step_inj:
  "sum_sfn_step s a = sum_sfn_step s b \<longleftrightarrow> a = b" "sum_sfn_step s a = sum_sfn_step t a \<longleftrightarrow> s = t"
  by (auto simp: sum_sfn_step_def simp del: One_nat_def dest: rotate_octet_inj)

lemma foldl_sum_sfn_inj: "foldl sum_sfn_step s xs = foldl sum_sfn_step t xs \<longleftrightarrow> s = t"
  by (induction xs arbitrary: s t) (simp_all add: sum_sfn_step_inj)

lemma sum_sfn_one_octet:
  assumes "p + 11 \<le> length dir" and "p \<le> q" and "q < p + 11" and "x \<noteq> dir ! q"
  shows "sum_sfn (dir[q := x]) p \<noteq> sum_sfn dir p"
proof -
  define i where "i = q - p"
  define xs where "xs = take 11 (drop p dir)"
  have i: "i < length xs" "xs ! i = dir ! q" using assms by (auto simp: i_def xs_def)
  have "take 11 (drop p (dir[q := x])) = xs[i := x]"
    using assms(2) by (simp add: xs_def i_def drop_update_swap take_update_swap)
  moreover have "foldl sum_sfn_step 0 (xs[i := x]) \<noteq> foldl sum_sfn_step 0 xs"
  proof -
    have "xs = take i xs @ xs ! i # drop (Suc i) xs" using i(1) by (rule id_take_nth_drop)
    moreover have "xs[i := x] = take i xs @ x # drop (Suc i) xs" using i(1) by (rule upd_conv_take_nth_drop)
    ultimately show ?thesis using assms(4) i(2)
      by (metis foldl_Cons_append foldl_sum_sfn_inj sum_sfn_step_inj(1))
  qed
  ultimately show ?thesis using assms(1) by (simp add: sum_sfn_eq xs_def)
qed

text \<open>The sum of an entry block does not depend on the field that holds it, so storing it there keeps it.\<close>

lemma xdir_sum_loop_cong:
  assumes "length dir' = length dir" and "\<And>q. i \<le> q \<Longrightarrow> q \<noteq> 2 \<Longrightarrow> q \<noteq> 3 \<Longrightarrow> dir' ! q = dir ! q" and "i \<noteq> 3"
  shows "xdir_sum_loop dir' szblk i chk = xdir_sum_loop dir szblk i chk"
  using assms
proof (induction dir szblk i chk arbitrary: dir' rule: xdir_sum_loop.induct)
  case (1 dir szblk i chk)
  note step = xdir_sum_loop.simps [of dir' szblk i chk] xdir_sum_loop.simps [of dir szblk i chk]
  consider "szblk \<le> i" | "i < szblk" "i = 2" | "i < szblk" "i \<noteq> 2" by linarith
  then show ?case
  proof cases
    case 1
    then show ?thesis unfolding step by simp
  next
    case 2
    then have "xdir_sum_loop dir' szblk (i + 2) chk = xdir_sum_loop dir szblk (i + 2) chk"
      using 1(1) [of dir'] 1(3,4) by (simp add: XDIR_SetSum_def)
    then show ?thesis unfolding step using 2 by (simp add: XDIR_SetSum_def)
  next
    case 3
    have rd: "rd dir' i = rd dir i" using 1(3-5) 3(2) by (simp add: rd_def)
    show ?thesis
    proof (cases "rd dir i")
      case None
      then show ?thesis unfolding step rd using 3 by (simp add: XDIR_SetSum_def)
    next
      case (Some b)
      have "xdir_sum_loop dir' szblk (i + 1) (rot_sum chk (ucast b)) = xdir_sum_loop dir szblk (i + 1) (rot_sum chk (ucast b))"
        by (rule 1(2)) (use 3 1(3,4) Some in \<open>auto simp: XDIR_SetSum_def\<close>)
      then show ?thesis unfolding step rd using 3 Some by (simp add: XDIR_SetSum_def)
    qed
  qed
qed

lemma xdir_sum_stored:
  assumes "xdir_sum dir = Some s" and "st_word dir XDIR_SetSum s = Some dir'"
  shows "xdir_sum dir' = Some s \<and> ld_word dir' XDIR_SetSum = Some s"
proof -
  have len: "length dir' = length dir" by (rule word_cell.st_length [OF assms(2)])
  have same: "dir' ! q = dir ! q" if "q \<noteq> 2" "q \<noteq> 3" for q
  proof -
    have "q < 2 \<or> 4 \<le> q" using that by linarith
    then show ?thesis using word_cell.st_outside [OF assms(2), of q] by (auto simp: XDIR_SetSum_def)
  qed
  have "rd dir' XDIR_NumSec = rd dir XDIR_NumSec" using same len by (simp add: rd_def XDIR_NumSec_def)
  then have "xdir_sum dir' = xdir_sum dir"
    unfolding xdir_sum_def using xdir_sum_loop_cong [OF len, of 0] same by simp
  then show ?thesis using assms word_cell.ld_st [OF assms(2)] by simp
qed

text \<open>The hash of a name on exFAT volumes is the same for names that are the same in upper case.\<close>

lemma xname_sum_loop_returns: "0 \<notin> set nm \<Longrightarrow> xname_sum_loop (nm @ 0 # junk) s \<noteq> None"
  by (induction nm arbitrary: s) (auto simp: ff_wtoupper_up_of Let_def)

lemma xname_sum_loop_same:
  assumes "list_all2 same_char nm nm'" and "0 \<notin> set nm" and "0 \<notin> set nm'"
  shows "xname_sum_loop (nm @ 0 # junk) s = xname_sum_loop (nm' @ 0 # junk') s"
  using assms
  by (induction arbitrary: s rule: list_all2_induct) (simp_all add: ff_wtoupper_up_of same_char_def Let_def)

lemma xname_sum_same_name:
  assumes "holds_name lfn nm" and "holds_name lfn' nm'" and "same_name nm nm'"
  shows "xname_sum lfn = xname_sum lfn' \<and> xname_sum lfn \<noteq> None"
proof -
  obtain junk junk' where "lfn = nm @ 0 # junk" "lfn' = nm' @ 0 # junk'" "0 \<notin> set nm" "0 \<notin> set nm'"
    using assms(1,2) by (auto simp: holds_name_def)
  then show ?thesis
    using assms(3) xname_sum_loop_same [of nm nm' junk 0 junk'] xname_sum_loop_returns [of nm junk 0]
    by (simp add: same_name_def xname_sum_def)
qed

section \<open>Numbered names\<close>

lemma hash_bit_range: "sreg < 0x10000 \<Longrightarrow> hash_bit sreg b < 0x10000"
proof -
  assume s: "sreg < 0x10000"
  define r where "r = push_bit 1 sreg + of_bool b"
  have "unat sreg < 2 ^ 16" using s by (simp add: word_less_nat_alt)
  then have r: "unat r < 2 ^ 17"
    by (simp add: r_def push_bit_eq_mult unat_word_ariths)
  have bits: "\<not> bit r n" if "17 \<le> n" for n
    using bit_word_less [of r 17 n] r that by (auto simp: word_less_nat_alt)
  have hash: "hash_bit sreg b = (if bit r 16 then r XOR 0x11021 else r)"
  proof -
    have "r AND 0x10000 \<noteq> 0 \<longleftrightarrow> bit r 16" using and_exp_eq_0_iff_not_bit [of r 16] by simp
    then show ?thesis unfolding hash_bit_def r_def [symmetric] Let_def by simp
  qed
  have high: "\<not> bit (hash_bit sreg b) n" if "16 \<le> n" for n
  proof (cases "n = 16")
    case True
    then show ?thesis using hash by (auto simp: bit_xor_iff)
  next
    case False
    then have "17 \<le> n" using that by simp
    moreover have "\<not> bit (0x11021 :: u32) n" using bit_word_less [of "0x11021 :: u32" 17 n] \<open>17 \<le> n\<close>
      by (auto simp: word_less_nat_alt)
    ultimately show ?thesis using bits hash by (auto simp: bit_xor_iff)
  qed
  have "take_bit 16 (hash_bit sreg b) = hash_bit sreg b"
  proof (rule bit_word_eqI)
    fix n show "bit (take_bit 16 (hash_bit sreg b)) n = bit (hash_bit sreg b) n"
      using high [of n] by (cases "16 \<le> n") (auto simp: bit_take_bit_iff)
  qed
  then have "unat (hash_bit sreg b) = take_bit 16 (unat (hash_bit sreg b))"
    by (metis unsigned_take_bit_eq)
  then show ?thesis using take_bit_nat_less_exp [of 16 "unat (hash_bit sreg b)"]
    by (simp add: word_less_nat_alt)
qed

lemma hash_name_range:
  assumes "hash_name s lfn = Some h" and "s < 0x10000"
  shows "h < 0x10000"
proof -
  have char: "hash_char s w < 0x10000" if "s < 0x10000" for s w
  proof -
    have "foldl (\<lambda>s i. hash_bit s (bit w i)) s xs < 0x10000" for xs
      using that by (induction xs arbitrary: s) (simp_all add: hash_bit_range)
    then show ?thesis by (simp add: hash_char_def)
  qed
  show ?thesis using assms by (induction lfn arbitrary: s) (auto simp: char split: if_splits)
qed

lemma hash_name_total: "0 \<in> set lfn \<Longrightarrow> hash_name s lfn \<noteq> None"
  by (induction lfn arbitrary: s) auto

lemma hex_loop_spec:
  assumes "unat seq < 16 ^ k" and "0 < k" and "k \<le> i" and "i < length ns"
  shows "\<exists>ns' i'. hex_loop ns i seq = Some (ns', i') \<and> length ns' = length ns \<and> i' < i"
  using assms
proof (induction k arbitrary: i seq ns)
  case (Suc k)
  define q where "q = seq div 16"
  have q: "unat q = unat seq div 16" by (simp add: q_def unat_div)
  have step: "hex_loop ns i seq = (if q \<noteq> 0 then hex_loop (ns[i := hex_octet seq]) (i - 1) q
      else Some (ns[i := hex_octet seq], i - 1))"
    using Suc(4,5) by (subst hex_loop.simps) (simp add: wr_def q_def)
  show ?case
  proof (cases "q = 0")
    case True
    then show ?thesis using step Suc(4) by simp
  next
    case False
    then have "0 < unat q" by (simp add: unat_gt_0)
    then have "unat seq \<ge> 16" unfolding q by (simp add: div_greater_zero_iff)
    then have "0 < k" using Suc(2) by (cases k) auto
    moreover have "unat q < 16 ^ k" unfolding q using Suc(2) by (simp add: less_mult_imp_div_less mult.commute)
    moreover have "k \<le> i - 1" "i - 1 < length (ns[i := hex_octet seq])" using Suc(4,5) by simp_all
    ultimately obtain ns' i' where "hex_loop (ns[i := hex_octet seq]) (i - 1) q = Some (ns', i')"
        "length ns' = length (ns[i := hex_octet seq])" "i' < i - 1"
      using Suc(1) [of q "i - 1" "ns[i := hex_octet seq]"] by auto
    then show ?thesis using step False by auto
  qed
qed simp

lemma body_end_spec: "i \<le> length dst \<Longrightarrow> j \<le> i \<Longrightarrow> \<exists>j'. body_end dst i j = Some j' \<and> j' \<le> i"
proof (induction dst i j rule: body_end.induct)
  case (1 dst i j)
  show ?case
  proof (cases "j < i")
    case True
    then have "body_end dst i j = (if dst ! j = 0x20 then Some j else body_end dst i (j + 1))"
      using 1(3) by (subst body_end.simps) (simp add: rd_def dbc_1st_def)
    then show ?thesis using 1 True by (auto simp: rd_def dbc_1st_def)
  qed (use 1 in \<open>subst body_end.simps; simp\<close>)
qed

lemma put_number_spec:
  assumes "length ns = 8" and "j < 8" and "8 \<le> length dst"
  shows "\<exists>dst'. put_number ns dst i j = Some dst' \<and> length dst' = length dst \<and> (\<forall>q. 8 \<le> q \<longrightarrow> dst' ! q = dst ! q)
     \<and> (\<forall>q < j. dst' ! q = dst ! q)"
  using assms
proof (induction "8 - j" arbitrary: i j dst)
  case (Suc k)
  define c where "c = (if i < 8 then ns ! i else 0x20)"
  have step: "put_number ns dst i j = (if j + 1 < 8
      then put_number ns (dst[j := c]) (if i < 8 then i + 1 else i) (j + 1) else Some (dst[j := c]))"
    using Suc(3-5) by (subst put_number.simps) (simp add: wr_def rd_def c_def)
  show ?case
  proof (cases "j + 1 < 8")
    case True
    moreover have "k = 8 - (j + 1)" using Suc(2) by simp
    ultimately obtain dst' where "put_number ns (dst[j := c]) (if i < 8 then i + 1 else i) (j + 1) = Some dst'"
        "length dst' = length dst" "\<forall>q. 8 \<le> q \<longrightarrow> dst' ! q = dst[j := c] ! q" "\<forall>q < j + 1. dst' ! q = dst[j := c] ! q"
      using Suc(1) [of "j + 1" "dst[j := c]" "if i < 8 then i + 1 else i"] Suc(3,5) by auto
    then show ?thesis using step True Suc(4) by auto
  next
    case False
    then show ?thesis using step Suc(4) by auto
  qed
qed simp

text \<open>A numbered name is always made, and keeps the extension of the name.\<close>

lemma gen_numname_spec:
  assumes "11 \<le> length dst" and "11 \<le> length src" and "0 \<in> set lfn" and "seq < 0x10000"
  shows "\<exists>r. gen_numname dst src lfn seq = Some r \<and> length r = length dst
     \<and> (\<forall>q. 8 \<le> q \<and> q < 11 \<longrightarrow> r ! q = src ! q) \<and> (\<forall>q. 11 \<le> q \<longrightarrow> r ! q = dst ! q)"
proof -
  define dst1 where "dst1 = take 11 src @ drop 11 dst"
  have cpy: "mem_cpy dst 0 src 0 11 = Some dst1"
    using assms(1,2) by (simp add: mem_cpy_spec dst1_def)
  have len1: "length dst1 = length dst" using assms(1,2) by (simp add: dst1_def)
  obtain s where s: "(if 5 < seq then hash_name seq lfn else Some seq) = Some s" "s < 0x10000"
    using hash_name_total [OF assms(3), of seq] hash_name_range [of seq lfn] assms(4) by (cases "5 < seq") auto
  have "unat s < 16 ^ 4" using s(2) by (simp add: word_less_nat_alt)
  then obtain ns i where h: "hex_loop (replicate 8 0) 7 s = Some (ns, i)" "length ns = 8" "i < 7"
    using hex_loop_spec [of s 4 7 "replicate 8 0"] by auto
  have ns: "length (ns[i := 0x7E]) = 8" using h(2) by simp
  obtain j where j: "body_end dst1 i 0 = Some j" "j \<le> i"
    using body_end_spec [of i dst1 0] h(3) len1 assms(1) by auto
  obtain r where r: "put_number (ns[i := 0x7E]) dst1 i j = Some r" "length r = length dst1"
      "\<forall>q. 8 \<le> q \<longrightarrow> r ! q = dst1 ! q"
    using put_number_spec [OF ns, of j dst1 i] j(2) h(3) len1 assms(1) by auto
  have "gen_numname dst src lfn seq = Some r"
    using cpy s(1) h j(1) r(1) by (simp add: gen_numname_def wr_def)
  moreover have "dst1 ! q = (if q < 11 then src ! q else dst ! q)" for q
    using assms(1,2) by (simp add: dst1_def nth_append min_def)
  ultimately show ?thesis using r(2,3) len1 by simp
qed

end
