(* ===== verification/Ff_Mount.thy ===== *)
theory Ff_Mount
  imports Ff_Lock Ff_Fat_Facts Ff_Lfn
begin

text \<open>
  Finding and mounting a volume, from \<open>ff.c\<close>: the drive number of a path, the kind of a boot sector,
  partition tables (MBR and GPT), the parameters of FAT and exFAT volumes, \<open>mount_volume\<close> and
  \<open>f_mount\<close>. The static variables of the library are a record, in which a pointer to a filesystem
  object is a number with the object behind it; zero is the null pointer.

  The lemmas show that a FAT volume that was mounted is one the lemmas on the allocation table are
  about: its table has room for every cluster, and the window shows a sector of the disk.
\<close>

section \<open>Static state and drive numbers\<close>

definition FF_VOLUMES :: nat where "FF_VOLUMES = 1"

record ff_static =
  FatFs :: "nat list"
  objects :: "nat \<Rightarrow> fatfs"
  Fsid :: u16
  CurrVol :: u8
  Files :: "filesem list"

text \<open>The place of the first colon or control character of a path.\<close>

fun colon_scan :: "u8 list \<Rightarrow> nat option" where
  "colon_scan [] = None"
| "colon_scan (tc # p) = (if 0x20 \<le> tc \<and> tc \<noteq> 0x3A then map_option Suc (colon_scan p) else Some 0)"

text \<open>The drive number, \<open>- 1\<close> for none, and the path behind it; a null path is \<^term>\<open>None\<close>.\<close>

definition get_ldnumber :: "u8 \<Rightarrow> u8 list option \<Rightarrow> (int \<times> u8 list option) option" where
  "get_ldnumber vol path = (case path of None \<Rightarrow> Some (- 1, None) | Some tp \<Rightarrow> do {
     k \<leftarrow> colon_scan tp;
     tc \<leftarrow> rd tp k;
     (if tc = 0x3A then do {
        c \<leftarrow> rd tp 0;
        let i = (if 0x30 \<le> c \<and> c \<le> 0x39 \<and> k = 1 then uint c - 0x30 else int FF_VOLUMES);
        Some (if i < int FF_VOLUMES then (i, Some (drop (k + 1) tp)) else (- 1, path)) }
      else Some (uint vol, path)) })"

section \<open>Boot sectors\<close>

definition BS_JmpBoot :: nat where "BS_JmpBoot = 0"
definition BPB_BytsPerSec :: nat where "BPB_BytsPerSec = 11"
definition BPB_SecPerClus :: nat where "BPB_SecPerClus = 13"
definition BPB_RsvdSecCnt :: nat where "BPB_RsvdSecCnt = 14"
definition BPB_NumFATs :: nat where "BPB_NumFATs = 16"
definition BPB_RootEntCnt :: nat where "BPB_RootEntCnt = 17"
definition BPB_TotSec16 :: nat where "BPB_TotSec16 = 19"
definition BPB_FATSz16 :: nat where "BPB_FATSz16 = 22"
definition BPB_TotSec32 :: nat where "BPB_TotSec32 = 32"
definition BPB_FATSz32 :: nat where "BPB_FATSz32 = 36"
definition BPB_FSVer32 :: nat where "BPB_FSVer32 = 42"
definition BPB_RootClus32 :: nat where "BPB_RootClus32 = 44"
definition BPB_FSInfo32 :: nat where "BPB_FSInfo32 = 48"
definition BS_FilSysType32 :: nat where "BS_FilSysType32 = 82"
definition BPB_ZeroedEx :: nat where "BPB_ZeroedEx = 11"
definition BPB_TotSecEx :: nat where "BPB_TotSecEx = 72"
definition BPB_FatOfsEx :: nat where "BPB_FatOfsEx = 80"
definition BPB_FatSzEx :: nat where "BPB_FatSzEx = 84"
definition BPB_DataOfsEx :: nat where "BPB_DataOfsEx = 88"
definition BPB_NumClusEx :: nat where "BPB_NumClusEx = 92"
definition BPB_RootClusEx :: nat where "BPB_RootClusEx = 96"
definition BPB_FSVerEx :: nat where "BPB_FSVerEx = 104"
definition BPB_BytsPerSecEx :: nat where "BPB_BytsPerSecEx = 108"
definition BPB_SecPerClusEx :: nat where "BPB_SecPerClusEx = 109"
definition BPB_NumFATsEx :: nat where "BPB_NumFATsEx = 110"
definition MBR_Table :: nat where "MBR_Table = 446"
definition SZ_PTE :: nat where "SZ_PTE = 16"
definition PTE_System :: nat where "PTE_System = 4"
definition PTE_StLba :: nat where "PTE_StLba = 8"
definition GPTH_Bcc :: nat where "GPTH_Bcc = 16"
definition GPTH_PtOfs :: nat where "GPTH_PtOfs = 72"
definition GPTH_PtNum :: nat where "GPTH_PtNum = 80"
definition GPTH_PteSize :: nat where "GPTH_PteSize = 84"
definition SZ_GPTE :: u32 where "SZ_GPTE = 128"
definition GPTE_PtGuid :: nat where "GPTE_PtGuid = 0"
definition GPTE_FstLba :: nat where "GPTE_FstLba = 32"
definition MAX_FAT12 :: u32 where "MAX_FAT12 = 0xFF5"
definition MAX_FAT16 :: u32 where "MAX_FAT16 = 0xFFF5"
definition MAX_FAT32 :: u32 where "MAX_FAT32 = 0x0FFFFFF5"
definition MAX_EXFAT :: u32 where "MAX_EXFAT = 0x7FFFFFFD"
definition ET_BITMAP :: u8 where "ET_BITMAP = 0x81"

lemmas bpb_fields = BS_JmpBoot_def BPB_BytsPerSec_def BPB_SecPerClus_def BPB_RsvdSecCnt_def BPB_NumFATs_def
  BPB_RootEntCnt_def BPB_TotSec16_def BPB_FATSz16_def BPB_TotSec32_def BPB_FATSz32_def BPB_FSVer32_def
  BPB_RootClus32_def BPB_FSInfo32_def BS_FilSysType32_def

text \<open>Texts in a sector: \<open>EXFAT\<close> with its jump code, \<open>FAT32\<close>, the head of a GPT, the type of a basic partition.\<close>

definition exfat_text :: "u8 list" where
  "exfat_text = [0xEB, 0x76, 0x90, 0x45, 0x58, 0x46, 0x41, 0x54, 0x20, 0x20, 0x20]"

definition fat32_text :: "u8 list" where
  "fat32_text = [0x46, 0x41, 0x54, 0x33, 0x32, 0x20, 0x20, 0x20]"

definition gpt_text :: "u8 list" where
  "gpt_text = [0x45, 0x46, 0x49, 0x20, 0x50, 0x41, 0x52, 0x54, 0, 0, 1, 0, 0x5C, 0, 0, 0]"

definition GUID_MS_Basic :: "u8 list" where
  "GUID_MS_Basic = [0xA2, 0xA0, 0xD0, 0xEB, 0xE5, 0xB9, 0x33, 0x44, 0x87, 0xC0, 0x68, 0xB6, 0xB7, 0x26, 0x99, 0xC7]"

definition has_text :: "u8 list \<Rightarrow> nat \<Rightarrow> u8 list \<Rightarrow> bool option" where
  "has_text w p text = map_option (\<lambda>r. r = 0) (mem_cmp w p text 0 (of_nat (length text)))"

text \<open>A volume of the early systems has neither signature nor name.\<close>

definition early_fat :: "u8 list \<Rightarrow> bool option" where
  "early_fat w = do {
     ss \<leftarrow> ld_word w BPB_BytsPerSec;
     (if ss AND (ss - 1) = 0 \<and> 512 \<le> ss \<and> ss \<le> 512 then do {
        b \<leftarrow> rd w BPB_SecPerClus;
        n \<leftarrow> rd w BPB_NumFATs;
        ents \<leftarrow> ld_word w BPB_RootEntCnt;
        sz \<leftarrow> ld_word w BPB_FATSz16;
        Some (b \<noteq> 0 \<and> b AND (b - 1) = 0 \<and> (n = 1 \<or> n = 2) \<and> ents \<noteq> 0 \<and> sz \<noteq> 0) }
      else Some False) }"

definition boot_kind :: "u8 list \<Rightarrow> nat option" where
  "boot_kind w = do {
     sign \<leftarrow> ld_word w BS_55AA;
     exfat \<leftarrow> (if sign = 0xAA55 then has_text w BS_JmpBoot exfat_text else Some False);
     if exfat then Some 1 else do {
       b \<leftarrow> rd w BS_JmpBoot;
       fat \<leftarrow> (if b = 0xEB \<or> b = 0xE9 \<or> b = 0xE8 then do {
                 fat32 \<leftarrow> (if sign = 0xAA55 then has_text w BS_FilSysType32 fat32_text else Some False);
                 if fat32 then Some True else early_fat w }
               else Some False);
       Some (if fat then 0 else if sign = 0xAA55 then 2 else 3) } }"

text \<open>The result is 0 for a FAT volume, 1 for exFAT, 2 and 3 for other sectors, 4 for a disk error.\<close>

definition check_fs :: "'d disk_io \<Rightarrow> u64 \<Rightarrow> fatfs \<Rightarrow> 'd \<Rightarrow> (nat \<times> fatfs \<times> 'd) option" where
  "check_fs io sect fs d = do {
     (res, fs, d) \<leftarrow> move_window io sect (fs\<lparr>wflag := 0, winsect := no_sector\<rparr>) d;
     if res \<noteq> FR_OK then Some (4, fs, d)
     else do { kind \<leftarrow> boot_kind (win fs); Some (kind, fs, d) } }"

section \<open>Partition tables\<close>

definition crc32_bit :: "u32 \<Rightarrow> bool \<Rightarrow> u32" where
  "crc32_bit crc b =
     (let crc = crc XOR (if b then 1 else 0) in
      if crc AND 1 \<noteq> 0 then drop_bit 1 crc XOR 0xEDB88320 else drop_bit 1 crc)"

definition crc32 :: "u32 \<Rightarrow> u8 \<Rightarrow> u32" where
  "crc32 crc d = foldl (\<lambda>crc i. crc32_bit crc (bit d i)) crc [0..<8]"

fun header_bcc :: "u8 list \<Rightarrow> nat \<Rightarrow> nat \<Rightarrow> u32 \<Rightarrow> u32 option" where
  "header_bcc gpth i 0 bcc = Some bcc"
| "header_bcc gpth i (Suc n) bcc = do {
     b \<leftarrow> (if GPTH_Bcc \<le> i \<and> i < GPTH_Bcc + 4 then Some 0 else rd gpth i);
     header_bcc gpth (i + 1) n (crc32 bcc b) }"

definition test_gpt_header :: "u8 list \<Rightarrow> bool option" where
  "test_gpt_header gpth = do {
     sign \<leftarrow> has_text gpth 0 gpt_text;
     if \<not> sign then Some False else do {
       bcc \<leftarrow> header_bcc gpth 0 92 0xFFFFFFFF;
       stored \<leftarrow> ld_dword gpth GPTH_Bcc;
       size \<leftarrow> ld_dword gpth GPTH_PteSize;
       num \<leftarrow> ld_dword gpth GPTH_PtNum;
       Some (NOT bcc = stored \<and> size = SZ_GPTE \<and> num \<le> 128) } }"

text \<open>The entries of a GPT from number \<open>i\<close> on, \<open>n\<close> of them, with \<open>v_ent\<close> basic partitions seen.\<close>

fun find_gpt ::
  "'d disk_io \<Rightarrow> u32 \<Rightarrow> u64 \<Rightarrow> nat \<Rightarrow> u32 \<Rightarrow> u32 \<Rightarrow> fatfs \<Rightarrow> 'd \<Rightarrow> (nat \<times> fatfs \<times> 'd) option" where
  "find_gpt io part pt_lba 0 i v_ent fs d = Some (3, fs, d)"
| "find_gpt io part pt_lba (Suc n) i v_ent fs d = do {
     (res, fs, d) \<leftarrow> move_window io (pt_lba + ucast (i * SZ_GPTE div 512)) fs d;
     if res \<noteq> FR_OK then Some (4, fs, d)
     else do {
       let ofs = unat (i * SZ_GPTE mod 512);
       basic \<leftarrow> has_text (win fs) (ofs + GPTE_PtGuid) GUID_MS_Basic;
       if basic then do {
         lba \<leftarrow> ld_qword (win fs) (ofs + GPTE_FstLba);
         (fmt, fs, d) \<leftarrow> check_fs io lba fs d;
         if (part = 0 \<and> fmt \<le> 1) \<or> (part \<noteq> 0 \<and> v_ent + 1 = part) then Some (fmt, fs, d)
         else find_gpt io part pt_lba n (i + 1) (v_ent + 1) fs d }
       else find_gpt io part pt_lba n (i + 1) v_ent fs d } }"

definition gpt_volume :: "'d disk_io \<Rightarrow> u32 \<Rightarrow> fatfs \<Rightarrow> 'd \<Rightarrow> (nat \<times> fatfs \<times> 'd) option" where
  "gpt_volume io part fs d = do {
     (res, fs, d) \<leftarrow> move_window io 1 fs d;
     if res \<noteq> FR_OK then Some (4, fs, d)
     else do {
       ok \<leftarrow> test_gpt_header (win fs);
       if \<not> ok then Some (3, fs, d)
       else do {
         n_ent \<leftarrow> ld_dword (win fs) GPTH_PtNum;
         pt_lba \<leftarrow> ld_qword (win fs) GPTH_PtOfs;
         find_gpt io part pt_lba (unat n_ent) 0 0 fs d } } }"

function find_mbr ::
  "'d disk_io \<Rightarrow> u32 \<Rightarrow> u32 list \<Rightarrow> nat \<Rightarrow> fatfs \<Rightarrow> 'd \<Rightarrow> (nat \<times> fatfs \<times> 'd) option" where
  "find_mbr io part mbr_pt i fs d = do {
     lba \<leftarrow> rd mbr_pt i;
     (fmt, fs, d) \<leftarrow> (if lba \<noteq> 0 then check_fs io (ucast lba) fs d else Some (3, fs, d));
     if part = 0 \<and> 2 \<le> fmt \<and> i + 1 < 4 then find_mbr io part mbr_pt (i + 1) fs d
     else Some (fmt, fs, d) }"
  by pat_completeness auto
termination
  by (relation "measure (\<lambda>(_, _, _, i, _). 4 - i)") auto

declare find_mbr.simps [simp del]

definition mbr_entry :: "u8 list \<Rightarrow> nat \<Rightarrow> u32 option" where
  "mbr_entry w i = ld_dword w (MBR_Table + i * SZ_PTE + PTE_StLba)"

definition find_volume :: "'d disk_io \<Rightarrow> u32 \<Rightarrow> fatfs \<Rightarrow> 'd \<Rightarrow> (nat \<times> fatfs \<times> 'd) option" where
  "find_volume io part fs d = do {
     (fmt, fs, d) \<leftarrow> check_fs io 0 fs d;
     if fmt \<noteq> 2 \<and> (3 \<le> fmt \<or> part = 0) then Some (fmt, fs, d)
     else do {
       sys \<leftarrow> rd (win fs) (MBR_Table + PTE_System);
       if sys = 0xEE then gpt_volume io part fs d
       else do {
         m0 \<leftarrow> mbr_entry (win fs) 0;
         m1 \<leftarrow> mbr_entry (win fs) 1;
         m2 \<leftarrow> mbr_entry (win fs) 2;
         m3 \<leftarrow> mbr_entry (win fs) 3;
         find_mbr io part [m0, m1, m2, m3] (if part \<noteq> 0 then unat (part - 1) else 0) fs d } } }"

section \<open>The parameters of a volume\<close>

text \<open>\<open>1 << n\<close> of an \<open>int\<close>, undefined from the sign bit on.\<close>

definition shift_one :: "u8 \<Rightarrow> int option" where
  "shift_one n = (if unat n < 31 then Some (2 ^ unat n) else None)"

fun all_zero :: "u8 list \<Rightarrow> nat \<Rightarrow> nat \<Rightarrow> bool option" where
  "all_zero w i 0 = Some True"
| "all_zero w i (Suc n) = do { b \<leftarrow> rd w i; if b = 0 then all_zero w (i + 1) n else Some False }"

text \<open>The bitmap entry in the first cluster of the root directory, with its place in the window.\<close>

partial_function (option) find_bitmap_entry ::
  "'d disk_io \<Rightarrow> nat \<Rightarrow> u32 \<Rightarrow> fatfs \<Rightarrow> 'd \<Rightarrow> ((fresult + nat) \<times> fatfs \<times> 'd) option" where
  "find_bitmap_entry io i so fs d =
     (if i = 0 \<and> ucast (csize fs) \<le> so then Some (Inl FR_NO_FILESYSTEM, fs, d)
      else do {
        (res, fs, d) \<leftarrow> (if i = 0 then move_window io (clst2sect fs (ucast (dirbase fs)) + ucast so) fs d
                         else Some (FR_OK, fs, d));
        if res \<noteq> FR_OK then Some (Inl FR_DISK_ERR, fs, d)
        else do {
          b \<leftarrow> rd (win fs) i;
          if b = ET_BITMAP then Some (Inr i, fs, d)
          else find_bitmap_entry io ((i + SZDIRE) mod 512) (if i = 0 then so + 1 else so) fs d } })"

partial_function (option) bitmap_contiguous ::
  "'d disk_io \<Rightarrow> u32 \<Rightarrow> fatfs \<Rightarrow> 'd \<Rightarrow> (fresult \<times> fatfs \<times> 'd) option" where
  "bitmap_contiguous io bcl fs d = do {
     (res, fs, d) \<leftarrow> move_window io (fatbase fs + ucast (bcl div 128)) fs d;
     if res \<noteq> FR_OK then Some (FR_DISK_ERR, fs, d)
     else do {
       cv \<leftarrow> ld_dword (win fs) (unat (bcl mod 128 * 4));
       if cv = 0xFFFFFFFF then Some (FR_OK, fs, d)
       else if cv \<noteq> bcl + 1 then Some (FR_NO_FILESYSTEM, fs, d)
       else bitmap_contiguous io (bcl + 1) fs d } }"

text \<open>The sizes of an exFAT volume, as far as they were read when the volume is refused.\<close>

definition exfat_layout :: "u64 \<Rightarrow> fatfs \<Rightarrow> (bool \<times> fatfs) option" where
  "exfat_layout bsect fs = (let w = win fs in do {
     filler \<leftarrow> all_zero w BPB_ZeroedEx 53;
     ver \<leftarrow> ld_word w BPB_FSVerEx;
     if \<not> filler \<or> ver \<noteq> 0x100 then Some (False, fs) else do {
     b \<leftarrow> rd w BPB_BytsPerSecEx;
     ss \<leftarrow> shift_one b;
     if ss \<noteq> 512 then Some (False, fs) else do {
     tot \<leftarrow> ld_qword w BPB_TotSecEx;
     let maxlba = tot + bsect;
     fatsz \<leftarrow> ld_dword w BPB_FatSzEx;
     nf \<leftarrow> rd w BPB_NumFATsEx;
     let fs = fs\<lparr>fsize := fatsz, n_fats := nf\<rparr>;
     if nf \<noteq> 1 then Some (False, fs) else do {
     spc \<leftarrow> rd w BPB_SecPerClusEx;
     cs \<leftarrow> shift_one spc;
     let fs = fs\<lparr>csize := word_of_int cs\<rparr>;
     if csize fs = 0 then Some (False, fs) else do {
     nclst \<leftarrow> ld_dword w BPB_NumClusEx;
     if MAX_EXFAT < nclst then Some (False, fs) else do {
     dofs \<leftarrow> ld_dword w BPB_DataOfsEx;
     fofs \<leftarrow> ld_dword w BPB_FatOfsEx;
     let fs = fs\<lparr>n_fatent := nclst + 2, volbase := bsect, database := bsect + ucast dofs, fatbase := bsect + ucast fofs\<rparr>;
     if maxlba < database fs + ucast (nclst * ucast (csize fs)) then Some (False, fs) else do {
     root \<leftarrow> ld_dword w BPB_RootClusEx;
     Some (True, fs\<lparr>dirbase := ucast root\<rparr>) }}}}}}})"

definition mount_exfat :: "'d disk_io \<Rightarrow> u64 \<Rightarrow> fatfs \<Rightarrow> 'd \<Rightarrow> (fresult \<times> fatfs \<times> 'd) option" where
  "mount_exfat io bsect fs d = do {
     (ok, fs) \<leftarrow> exfat_layout bsect fs;
     if \<not> ok then Some (FR_NO_FILESYSTEM, fs, d) else do {
       (r, fs, d) \<leftarrow> find_bitmap_entry io 0 0 fs d;
       (case r of Inl res \<Rightarrow> Some (res, fs, d) | Inr i \<Rightarrow> do {
          bcl \<leftarrow> ld_dword (win fs) (i + 20);
          if bcl < 2 \<or> n_fatent fs \<le> bcl then Some (FR_NO_FILESYSTEM, fs, d)
          else do {
            let fs = fs\<lparr>bitbase := database fs + ucast ((ucast (csize fs) :: u32) * (bcl - 2))\<rparr>;
            (res, fs, d) \<leftarrow> bitmap_contiguous io bcl fs d;
            if res \<noteq> FR_OK then Some (res, fs, d)
            else Some (FR_OK, fs\<lparr>last_clst := 0xFFFFFFFF, free_clst := 0xFFFFFFFF\<rparr>, d) } }) } }"

text \<open>The kind of a FAT volume by its number of clusters, zero for too many.\<close>

definition fat_kind :: "u32 \<Rightarrow> u8" where
  "fat_kind nclst = (if nclst \<le> MAX_FAT12 then FS_FAT12 else if nclst \<le> MAX_FAT16 then FS_FAT16
     else if nclst \<le> MAX_FAT32 then FS_FAT32 else 0)"

text \<open>The octets the table needs.\<close>

definition fat_octets :: "u8 \<Rightarrow> u32 \<Rightarrow> u32" where
  "fat_octets fmt n = (if fmt = FS_FAT32 then n * 4
     else if fmt = FS_FAT16 then n * 2 else n * 3 div 2 + (n AND 1))"

text \<open>The sectors of a copy of the table and those of the volume, each in one of two fields.\<close>

definition table_sectors :: "u8 list \<Rightarrow> u32 option" where
  "table_sectors w = do {
     sz16 \<leftarrow> ld_word w BPB_FATSz16;
     if sz16 = 0 then ld_dword w BPB_FATSz32 else Some (ucast sz16) }"

definition total_sectors :: "u8 list \<Rightarrow> u32 option" where
  "total_sectors w = do {
     tot16 \<leftarrow> ld_word w BPB_TotSec16;
     if tot16 = 0 then ld_dword w BPB_TotSec32 else Some (ucast tot16) }"

text \<open>The sizes of a FAT volume, as far as they were read when the volume is refused: the tables, the clusters and the root.\<close>

definition fat_shape :: "fatfs \<Rightarrow> (bool \<times> fatfs) option" where
  "fat_shape fs = (let w = win fs in do {
     ss \<leftarrow> ld_word w BPB_BytsPerSec;
     if ss \<noteq> 512 then Some (False, fs) else do {
     fasize \<leftarrow> table_sectors w;
     nf \<leftarrow> rd w BPB_NumFATs;
     let fs = fs\<lparr>fsize := fasize, n_fats := nf\<rparr>;
     if nf \<noteq> 1 \<and> nf \<noteq> 2 then Some (False, fs) else do {
     spc \<leftarrow> rd w BPB_SecPerClus;
     let fs = fs\<lparr>csize := ucast spc\<rparr>;
     if csize fs = 0 \<or> csize fs AND (csize fs - 1) \<noteq> 0 then Some (False, fs) else do {
     nroot \<leftarrow> ld_word w BPB_RootEntCnt;
     Some (nroot mod 16 = 0, fs\<lparr>n_rootdir := nroot\<rparr>) }}}})"

text \<open>The number of clusters and with it the kind, which is zero for a volume that is refused.\<close>

definition fat_count :: "u64 \<Rightarrow> fatfs \<Rightarrow> (u8 \<times> fatfs) option" where
  "fat_count bsect fs = (let w = win fs in do {
     tsect \<leftarrow> total_sectors w;
     nrsv \<leftarrow> ld_word w BPB_RsvdSecCnt;
     let sysect = ucast nrsv + fsize fs * ucast (n_fats fs) + ucast (n_rootdir fs div 16);
     if nrsv = 0 \<or> tsect < sysect then Some (0, fs) else
     let nclst = (tsect - sysect) div ucast (csize fs); fmt = fat_kind nclst in
     if nclst = 0 \<or> fmt = 0 then Some (0, fs)
     else Some (fmt, fs\<lparr>n_fatent := nclst + 2, volbase := bsect, fatbase := bsect + ucast nrsv, database := bsect + ucast sysect\<rparr>) })"

text \<open>The place of the root directory, and whether the table has room for all entries.\<close>

definition fat_root :: "u8 \<Rightarrow> fatfs \<Rightarrow> (bool \<times> fatfs) option" where
  "fat_root fmt fs = (let w = win fs in do {
     ver \<leftarrow> (if fmt = FS_FAT32 then ld_word w BPB_FSVer32 else Some 0);
     if fmt = FS_FAT32 \<and> (ver \<noteq> 0 \<or> n_rootdir fs \<noteq> 0) \<or> fmt \<noteq> FS_FAT32 \<and> n_rootdir fs = 0 then Some (False, fs) else do {
     root \<leftarrow> (if fmt = FS_FAT32 then map_option ucast (ld_dword w BPB_RootClus32)
              else Some (fatbase fs + ucast (fsize fs * ucast (n_fats fs))));
     Some (\<not> fsize fs < (fat_octets fmt (n_fatent fs) + 511) div 512, fs\<lparr>dirbase := root\<rparr>) }})"

definition fat_layout :: "u64 \<Rightarrow> fatfs \<Rightarrow> (u8 \<times> fatfs) option" where
  "fat_layout bsect fs = do {
     (ok, fs) \<leftarrow> fat_shape fs;
     if \<not> ok then Some (0, fs) else do {
       (fmt, fs) \<leftarrow> fat_count bsect fs;
       if fmt = 0 then Some (0, fs) else do {
         (ok, fs) \<leftarrow> fat_root fmt fs;
         Some (if ok then fmt else 0, fs) } } }"

text \<open>The counters of the FSInfo sector, when there is a valid one.\<close>

definition read_fsinfo :: "'d disk_io \<Rightarrow> u64 \<Rightarrow> u8 \<Rightarrow> fatfs \<Rightarrow> 'd \<Rightarrow> (fatfs \<times> 'd) option" where
  "read_fsinfo io bsect fmt fs d = do {
     let fs = fs\<lparr>last_clst := 0xFFFFFFFF, free_clst := 0xFFFFFFFF, fsi_flag := 0x80\<rparr>;
     info \<leftarrow> (if fmt = FS_FAT32 then ld_word (win fs) BPB_FSInfo32 else Some 0);
     if fmt = FS_FAT32 \<and> info = 1 then do {
       (res, fs, d) \<leftarrow> move_window io (bsect + 1) fs d;
       if res = FR_OK then do {
         let fs = fs\<lparr>fsi_flag := 0\<rparr>;
         sign \<leftarrow> ld_word (win fs) BS_55AA;
         lead \<leftarrow> ld_dword (win fs) FSI_LeadSig;
         struc \<leftarrow> ld_dword (win fs) FSI_StrucSig;
         if sign = 0xAA55 \<and> lead = 0x41615252 \<and> struc = 0x61417272 then do {
           free \<leftarrow> ld_dword (win fs) FSI_Free_Count;
           nxt \<leftarrow> ld_dword (win fs) FSI_Nxt_Free;
           Some (fs\<lparr>free_clst := free, last_clst := nxt\<rparr>, d) }
         else Some (fs, d) }
       else Some (fs, d) }
     else Some (fs, d) }"

definition mount_fat :: "'d disk_io \<Rightarrow> u64 \<Rightarrow> fatfs \<Rightarrow> 'd \<Rightarrow> (fresult \<times> u8 \<times> fatfs \<times> 'd) option" where
  "mount_fat io bsect fs d = do {
     (fmt, fs) \<leftarrow> fat_layout bsect fs;
     if fmt = 0 then Some (FR_NO_FILESYSTEM, 0, fs, d)
     else do {
       (fs, d) \<leftarrow> read_fsinfo io bsect fmt fs d;
       Some (FR_OK, fmt, fs, d) } }"

definition STA_PROTECT :: u32 where "STA_PROTECT = 4"

text \<open>Mounting the volume of drive \<open>vol\<close>, from the initialisation of the drive on.\<close>

definition mount_drive ::
  "'d disk_io \<Rightarrow> nat \<Rightarrow> u8 \<Rightarrow> fatfs \<Rightarrow> 'd \<Rightarrow> (fresult \<times> fatfs \<times> 'd) option" where
  "mount_drive io vol mode fs d = do {
     let fs = fs\<lparr>fs_type := 0, pdrv := of_nat vol\<rparr>;
     (st, d) \<leftarrow> dinit io (pdrv fs) d;
     if (ucast st :: u32) AND STA_NOINIT \<noteq> 0 then Some (FR_NOT_READY, fs, d)
     else if mode \<noteq> 0 \<and> (ucast st :: u32) AND STA_PROTECT \<noteq> 0 then Some (FR_WRITE_PROTECTED, fs, d)
     else do {
       (fmt, fs, d) \<leftarrow> find_volume io 0 fs d;
       if fmt = 4 then Some (FR_DISK_ERR, fs, d)
       else if 2 \<le> fmt then Some (FR_NO_FILESYSTEM, fs, d)
       else do {
         let bsect = winsect fs;
         (res, kind, fs, d) \<leftarrow> (if fmt = 1 then do {
             (res, fs, d) \<leftarrow> mount_exfat io bsect fs d; Some (res, FS_EXFAT, fs, d) }
           else mount_fat io bsect fs d);
         Some (res, if res = FR_OK then fs\<lparr>fs_type := kind\<rparr> else fs, d) } } }"

definition FA_READ :: u8 where "FA_READ = 1"

text \<open>The object of a drive is mounted anew: a fresh mount number, the root as current directory, no open files.\<close>

definition mount_new ::
  "'d disk_io \<Rightarrow> nat \<Rightarrow> u8 \<Rightarrow> u8 list option \<Rightarrow> nat \<Rightarrow> ff_static \<Rightarrow> 'd
     \<Rightarrow> (fresult \<times> u8 list option \<times> nat \<times> ff_static \<times> 'd) option" where
  "mount_new io vol mode path fsp st d = do {
     (res, fs, d) \<leftarrow> mount_drive io vol mode (objects st fsp) d;
     if res \<noteq> FR_OK then Some (res, path, fsp, st\<lparr>objects := (objects st)(fsp := fs)\<rparr>, d)
     else
       let id = Fsid st + 1; fs = fs\<lparr>fs_id := id, cdir := 0\<rparr> in
       Some (FR_OK, path, fsp, st\<lparr>objects := (objects st)(fsp := fs), Fsid := id, Files := clear_lock fsp (Files st)\<rparr>, d) }"

text \<open>
  \<open>mount_volume\<close> gives the path behind the drive number and the filesystem object as well, zero when
  there is none.
\<close>

definition mount_volume ::
  "'d disk_io \<Rightarrow> u8 list option \<Rightarrow> u8 \<Rightarrow> ff_static \<Rightarrow> 'd
     \<Rightarrow> (fresult \<times> u8 list option \<times> nat \<times> ff_static \<times> 'd) option" where
  "mount_volume io path mode st d = do {
     (vol, path) \<leftarrow> get_ldnumber (CurrVol st) path;
     if vol < 0 then Some (FR_INVALID_DRIVE, path, 0, st, d)
     else do {
       fsp \<leftarrow> rd (FatFs st) (nat vol);
       if fsp = 0 then Some (FR_NOT_ENABLED, path, 0, st, d)
       else do {
         let fs = objects st fsp;
         let mode = mode AND NOT FA_READ;
         (known, d) \<leftarrow> (if fs_type fs \<noteq> 0 then do { (s, d) \<leftarrow> dstatus io (pdrv fs) d; Some (Some s, d) }
                       else Some (None, d));
         (case known of
            Some s \<Rightarrow> if (ucast s :: u32) AND STA_NOINIT = 0 then
                         Some (if mode \<noteq> 0 \<and> (ucast s :: u32) AND STA_PROTECT \<noteq> 0 then FR_WRITE_PROTECTED else FR_OK, path, fsp, st, d)
                       else mount_new io (nat vol) mode path fsp st d
          | None \<Rightarrow> mount_new io (nat vol) mode path fsp st d) } } }"

definition f_mount ::
  "'d disk_io \<Rightarrow> nat \<Rightarrow> u8 list option \<Rightarrow> u8 \<Rightarrow> ff_static \<Rightarrow> 'd \<Rightarrow> (fresult \<times> ff_static \<times> 'd) option" where
  "f_mount io fsp path opt st d = do {
     (vol, rp) \<leftarrow> get_ldnumber (CurrVol st) path;
     if vol < 0 then Some (FR_INVALID_DRIVE, st, d)
     else do {
       cfs \<leftarrow> rd (FatFs st) (nat vol);
       let st = (if cfs \<noteq> 0 then st\<lparr>Files := clear_lock cfs (Files st),
                  objects := (objects st)(cfs := (objects st cfs)\<lparr>fs_type := 0\<rparr>)\<rparr> else st);
       let st = (if fsp \<noteq> 0 then st\<lparr>objects := (objects st)(fsp := (objects st fsp)\<lparr>fs_type := 0\<rparr>)\<rparr> else st);
       let st = st\<lparr>FatFs := (FatFs st)[nat vol := fsp]\<rparr>;
       if opt = 0 then Some (FR_OK, st, d)
       else do {
         (res, p, rfs, st, d) \<leftarrow> mount_volume io path 0 st d;
         Some (res, st, d) } } }"

section \<open>Valid objects\<close>

text \<open>The owner of an object that is still valid, zero otherwise; a null pointer is \<^term>\<open>None\<close>.\<close>

definition validate ::
  "'d disk_io \<Rightarrow> ffobjid option \<Rightarrow> ff_static \<Rightarrow> 'd \<Rightarrow> (fresult \<times> nat \<times> 'd) option" where
  "validate io obj st d = (case obj of None \<Rightarrow> Some (FR_INVALID_OBJECT, 0, d) | Some obj \<Rightarrow>
     let fs = objects st (obj_fs obj) in
     if obj_fs obj \<noteq> 0 \<and> fs_type fs \<noteq> 0 \<and> obj_id obj = fs_id fs then do {
       (s, d) \<leftarrow> dstatus io (pdrv fs) d;
       Some (if (ucast s :: u32) AND STA_NOINIT = 0 then (FR_OK, obj_fs obj, d) else (FR_INVALID_OBJECT, 0, d)) }
     else Some (FR_INVALID_OBJECT, 0, d))"

end
