(* ===== verification/Ff_Mount_Facts.thy ===== *)
theory Ff_Mount_Facts
  imports Ff_Mount Ff_Volume
begin

text \<open>
  What mounting gives: the boot sector it settles on is one of the disk, and a FAT volume it accepts is
  one the lemmas on the allocation table are about.
\<close>

section \<open>Looking at sectors\<close>

text \<open>While a volume is looked for nothing is written: the window moves over the sectors of the disk.\<close>

definition looked ::
  "('d \<Rightarrow> u64 \<Rightarrow> u8 list) \<Rightarrow> fatfs \<Rightarrow> 'd \<Rightarrow> fatfs \<Rightarrow> 'd \<Rightarrow> bool" where
  "looked cont fs d fs' d' \<longleftrightarrow> moved fs fs' \<and> wflag fs' = 0 \<and> window_ok cont fs' d' \<and> cont d' = cont d"

lemma looked_trans: "looked cont fs d fs1 d1 \<Longrightarrow> looked cont fs1 d1 fs2 d2 \<Longrightarrow> looked cont fs d fs2 d2"
  by (auto simp: looked_def intro: moved_trans)

lemma looked_pdrv: "looked cont fs d fs' d' \<Longrightarrow> pdrv fs' = pdrv fs"
  by (simp add: looked_def moved_fields)

lemma looked_win: "looked cont fs d fs' d' \<Longrightarrow> length (win fs') = 512"
  by (simp add: looked_def window_ok_def)

lemma look_window:
  assumes disk: "sector_disk io (pdrv fs) cont" and clean: "wflag fs = 0" "window_ok cont fs d"
    and move: "move_window io sect fs d = Some (res, fs', d')"
  shows "looked cont fs d fs' d'" and "res = FR_OK \<Longrightarrow> winsect fs' = sect"
proof -
  have "looked cont fs d fs' d' \<and> (res = FR_OK \<longrightarrow> winsect fs' = sect)"
  proof (cases "sect = winsect fs")
    case True
    then show ?thesis using clean move by (auto simp: move_window_def looked_def)
  next
    case False
    have "sync_window io fs d = Some (FR_OK, fs, d)" using clean by (simp add: sync_window_def)
    then obtain r data d1 w where rd: "dread io (pdrv fs) sect 1 d = Some ((r, data), d1)"
      and w: "memcpy (win fs) 0 data = Some w"
      and res: "d' = d1" "fs' = fs\<lparr>win := w, winsect := if r = RES_OK then sect else no_sector\<rparr>"
        "r = RES_OK \<longleftrightarrow> res = FR_OK"
      using move False by (auto simp: move_window_def split: bind_splits if_splits)
    note kept = sector_disk_read [OF disk rd]
    have len: "length w = 512" using memcpy_length [OF w] clean by (simp add: window_ok_def)
    have "r = RES_OK \<Longrightarrow> w = cont d sect"
      using w kept sector_disk_length [OF disk, of d sect] clean
      by (auto simp: memcpy_def window_ok_def split: if_splits)
    then show ?thesis using res kept len clean by (auto simp: looked_def window_ok_def)
  qed
  then show "looked cont fs d fs' d'" and "res = FR_OK \<Longrightarrow> winsect fs' = sect" by auto
qed

lemma look_sector:
  assumes "sector_disk io (pdrv fs) cont" and "looked cont fs0 d0 fs d" and "winsect fs \<noteq> no_sector"
  shows "win fs = cont d (winsect fs)"
  using assms by (simp add: looked_def window_ok_def)

lemma check_fs_looked:
  assumes disk: "sector_disk io (pdrv fs) cont" and len: "length (win fs) = 512"
    and check: "check_fs io sect fs d = Some (kind, fs', d')"
  shows "looked cont fs d fs' d'" and "kind \<noteq> 4 \<Longrightarrow> boot_kind (win fs') = Some kind"
proof -
  let ?f = "fs\<lparr>wflag := 0, winsect := no_sector\<rparr>"
  have clean: "wflag ?f = 0" "window_ok cont ?f d" "sector_disk io (pdrv ?f) cont" using disk len by (simp_all add: window_ok_def)
  have f: "looked cont fs d ?f d" using clean by (simp add: looked_def moved_def)
  obtain r where move: "move_window io sect ?f d = Some (r, fs', d')"
    and k: "kind = 4 \<or> boot_kind (win fs') = Some kind"
    using check by (auto simp: check_fs_def split: bind_splits if_splits)
  show "looked cont fs d fs' d'" by (rule looked_trans [OF f look_window(1) [OF clean(3,1,2) move]])
  show "kind \<noteq> 4 \<Longrightarrow> boot_kind (win fs') = Some kind" using k by simp
qed

text \<open>
  The number that marks an invalid window is a sector a partition table can name: the window is then
  taken for the boot sector as it is, and the disk is not read.
\<close>

lemma check_fs_no_sector:
  "check_fs io no_sector fs d
     = map_option (\<lambda>k. (k, fs\<lparr>wflag := 0, winsect := no_sector\<rparr>, d)) (boot_kind (win fs))"
  by (auto simp: check_fs_def move_window_def map_option_case split: option.split)

lemma boot_kind_less: "boot_kind w = Some k \<Longrightarrow> k < 4"
  by (auto simp: boot_kind_def split: bind_splits if_splits)

lemma find_gpt_looked:
  assumes "sector_disk io (pdrv fs) cont" and "wflag fs = 0" and "window_ok cont fs d"
    and "find_gpt io part lba n i v fs d = Some (kind, fs', d')"
  shows "looked cont fs d fs' d' \<and> (kind < 2 \<longrightarrow> boot_kind (win fs') = Some kind)"
  using assms
proof (induction n arbitrary: i v fs d)
  case 0
  then show ?case by (simp add: looked_def)
next
  case (Suc n)
  obtain r fs1 d1 where move: "move_window io (lba + ucast (i * SZ_GPTE div 512)) fs d = Some (r, fs1, d1)"
    using Suc.prems(4) by (auto split: bind_splits)
  note l1 = look_window(1) [OF Suc.prems(1-3) move]
  have disk1: "sector_disk io (pdrv fs1) cont" using Suc.prems(1) looked_pdrv [OF l1] by simp
  have again: ?case if "find_gpt io part lba n i' v' fs2 d2 = Some (kind, fs', d')" "looked cont fs d fs2 d2" for i' v' fs2 d2
    using Suc.IH [OF _ _ _ that(1)] that(2) Suc.prems(1) looked_pdrv [OF that(2)] looked_trans [OF that(2)]
    by (auto simp: looked_def)
  show ?case
  proof (cases "r = FR_OK")
    case False
    then show ?thesis using Suc.prems(4) move l1 by simp
  next
    case True
    define ofs where "ofs = unat (i * SZ_GPTE mod 512)"
    obtain basic where b: "has_text (win fs1) (ofs + GPTE_PtGuid) GUID_MS_Basic = Some basic"
      using Suc.prems(4) move True unfolding ofs_def by (auto simp: Let_def split: bind_splits)
    show ?thesis
    proof (cases basic)
      case False
      then have "find_gpt io part lba n (i + 1) v fs1 d1 = Some (kind, fs', d')"
        using Suc.prems(4) move True b unfolding ofs_def by (simp add: Let_def)
      then show ?thesis using again l1 by blast
    next
      case basic: True
      obtain s fmt fs2 d2 where c: "check_fs io s fs1 d1 = Some (fmt, fs2, d2)"
        and rest: "(if (part = 0 \<and> fmt \<le> 1) \<or> (part \<noteq> 0 \<and> v + 1 = part) then Some (fmt, fs2, d2)
              else find_gpt io part lba n (i + 1) (v + 1) fs2 d2) = Some (kind, fs', d')"
        using Suc.prems(4) move True b basic unfolding ofs_def by (auto simp: Let_def split: bind_splits)
      note l2 = check_fs_looked [OF disk1 looked_win [OF l1] c]
      show ?thesis
      proof (cases "(part = 0 \<and> fmt \<le> 1) \<or> (part \<noteq> 0 \<and> v + 1 = part)")
        case True
        then show ?thesis using rest l2 looked_trans [OF l1 l2(1)] by auto
      next
        case False
        then show ?thesis using rest again [OF _ looked_trans [OF l1 l2(1)]] by auto
      qed
    qed
  qed
qed

lemma find_mbr_looked:
  assumes "sector_disk io (pdrv fs) cont" and "wflag fs = 0" and "window_ok cont fs d"
    and "find_mbr io part pt i fs d = Some (kind, fs', d')"
  shows "looked cont fs d fs' d' \<and> (kind < 2 \<longrightarrow> boot_kind (win fs') = Some kind)"
  using assms
proof (induction io part pt i fs d rule: find_mbr.induct)
  case (1 io part pt i fs d)
  have len: "length (win fs) = 512" using "1.prems"(3) by (simp add: window_ok_def)
  obtain lba fmt fs1 d1 where rd: "rd pt i = Some lba"
    and c: "(if lba \<noteq> 0 then check_fs io (ucast lba) fs d else Some (3, fs, d)) = Some (fmt, fs1, d1)"
    and rest: "(if part = 0 \<and> 2 \<le> fmt \<and> i + 1 < 4 then find_mbr io part pt (i + 1) fs1 d1 else Some (fmt, fs1, d1)) = Some (kind, fs', d')"
    using "1.prems"(4) find_mbr.simps [of io part pt i fs d] by (auto split: bind_splits)
  have l: "looked cont fs d fs1 d1 \<and> (fmt < 2 \<longrightarrow> boot_kind (win fs1) = Some fmt)"
  proof (cases "lba = 0")
    case True
    then show ?thesis using c "1.prems"(2,3) by (auto simp: looked_def)
  next
    case False
    then show ?thesis using check_fs_looked [OF "1.prems"(1) len] c by auto
  qed
  have pre: "sector_disk io (pdrv fs1) cont" using "1.prems"(1) looked_pdrv l by metis
  show ?case
  proof (cases "part = 0 \<and> 2 \<le> fmt \<and> i + 1 < 4")
    case True
    have "looked cont fs1 d1 fs' d' \<and> (kind < 2 \<longrightarrow> boot_kind (win fs') = Some kind)"
      using True rest l pre by (intro "1.IH" [OF rd c refl refl True]) (auto simp: looked_def)
    then show ?thesis using l looked_trans [of cont fs d fs1 d1 fs' d'] by auto
  qed (use rest l in auto)
qed

lemma find_volume_looked:
  assumes disk: "sector_disk io (pdrv fs) cont" and len: "length (win fs) = 512"
    and find: "find_volume io part fs d = Some (kind, fs', d')"
  shows "looked cont fs d fs' d'" and "kind < 2 \<Longrightarrow> boot_kind (win fs') = Some kind"
proof -
  obtain fmt fs1 d1 where c: "check_fs io 0 fs d = Some (fmt, fs1, d1)"
    using find by (auto simp: find_volume_def split: bind_splits)
  note l1 = check_fs_looked [OF disk len c]
  have pre: "sector_disk io (pdrv fs1) cont" "wflag fs1 = 0" "window_ok cont fs1 d1"
    using disk l1(1) looked_pdrv [OF l1(1)] by (auto simp: looked_def)
  have *: "looked cont fs d fs' d' \<and> (kind < 2 \<longrightarrow> boot_kind (win fs') = Some kind)"
  proof (cases "fmt \<noteq> 2 \<and> (3 \<le> fmt \<or> part = 0)")
    case True
    then show ?thesis using find c l1 by (auto simp: find_volume_def)
  next
    case False
    obtain sys where sys: "rd (win fs1) (MBR_Table + PTE_System) = Some sys"
      using find c False by (auto simp: find_volume_def split: bind_splits)
    show ?thesis
    proof (cases "sys = 0xEE")
      case True
      then have g: "gpt_volume io part fs1 d1 = Some (kind, fs', d')"
        using find c False sys by (auto simp: find_volume_def)
      then obtain r fs2 d2 where m: "move_window io 1 fs1 d1 = Some (r, fs2, d2)"
        by (auto simp: gpt_volume_def split: bind_splits)
      note l2 = look_window(1) [OF pre m]
      have l12: "looked cont fs d fs2 d2" by (rule looked_trans [OF l1(1) l2])
      have pre2: "sector_disk io (pdrv fs2) cont" "wflag fs2 = 0" "window_ok cont fs2 d2"
        using disk l12 looked_pdrv [OF l12] by (auto simp: looked_def)
      consider "2 \<le> kind" "fs' = fs2" "d' = d2"
        | lba n where "find_gpt io part lba n 0 0 fs2 d2 = Some (kind, fs', d')"
        using g m by (auto simp: gpt_volume_def split: bind_splits if_splits)
      then show ?thesis
      proof cases
        case 2
        from find_gpt_looked [OF pre2 this] show ?thesis using looked_trans [OF l12] by blast
      qed (use l12 in auto)
    next
      case False
      then obtain pt i where "find_mbr io part pt i fs1 d1 = Some (kind, fs', d')"
        using find c sys \<open>\<not> (fmt \<noteq> 2 \<and> (3 \<le> fmt \<or> part = 0))\<close>
        unfolding find_volume_def by (auto split: bind_splits if_splits)
      from find_mbr_looked [OF pre this] show ?thesis using looked_trans [OF l1(1)] by blast
    qed
  qed
  then show "looked cont fs d fs' d'" and "kind < 2 \<Longrightarrow> boot_kind (win fs') = Some kind" by auto
qed

section \<open>The parameters of a FAT volume\<close>

lemma read_fsinfo_looked:
  assumes disk: "sector_disk io (pdrv fs) cont" and clean: "wflag fs = 0" "window_ok cont fs d"
    and info: "read_fsinfo io bsect fmt fs d = Some (fs', d')"
  shows "\<exists>fs1 free nxt flag. looked cont fs d fs1 d'
     \<and> fs' = fs1\<lparr>last_clst := nxt, free_clst := free, fsi_flag := flag\<rparr>"
proof -
  let ?f = "fs\<lparr>last_clst := 0xFFFFFFFF, free_clst := 0xFFFFFFFF, fsi_flag := 0x80\<rparr>"
  have same: "fs' = fs\<lparr>last_clst := nxt, free_clst := free, fsi_flag := flag\<rparr> \<Longrightarrow> d' = d \<Longrightarrow> ?thesis" for nxt free flag
    using clean by (intro exI [of _ fs]) (auto simp: looked_def)
  obtain v where v: "(if fmt = FS_FAT32 then ld_word (win ?f) BPB_FSInfo32 else Some 0) = Some v"
    using info by (auto simp: read_fsinfo_def Let_def split: bind_splits)
  show ?thesis
  proof (cases "fmt = FS_FAT32 \<and> v = 1")
    case False
    then show ?thesis using info v by (intro same) (auto simp: read_fsinfo_def Let_def split: if_splits)
  next
    case True
    then obtain r fs1 d1 where m: "move_window io (bsect + 1) ?f d = Some (r, fs1, d1)"
      using info v by (auto simp: read_fsinfo_def Let_def split: bind_splits if_splits)
    have f: "sector_disk io (pdrv ?f) cont" "wflag ?f = 0" "window_ok cont ?f d"
      using disk clean by (simp_all add: window_ok_def)
    note l = look_window(1) [OF f m]
    define fs0 where "fs0 = fs\<lparr>wflag := wflag fs1, winsect := winsect fs1, win := win fs1\<rparr>"
    have fs1: "fs1 = fs0\<lparr>last_clst := 0xFFFFFFFF, free_clst := 0xFFFFFFFF, fsi_flag := 0x80\<rparr>"
      using l unfolding looked_def moved_def fs0_def by (cases fs; cases fs1) simp
    have l0: "looked cont fs d fs0 d1"
      using l unfolding looked_def moved_def fs0_def window_ok_def by simp
    have "\<exists>free nxt flag. fs' = fs1\<lparr>last_clst := nxt, free_clst := free, fsi_flag := flag\<rparr> \<and> d' = d1"
    proof (cases "r = FR_OK")
      case False
      have "fs1 = fs1\<lparr>last_clst := last_clst fs1, free_clst := free_clst fs1, fsi_flag := fsi_flag fs1\<rparr>" by simp
      moreover have "fs' = fs1 \<and> d' = d1"
        using info True v m False by (auto simp: read_fsinfo_def Let_def)
      ultimately show ?thesis by metis
    next
      case ok: True
      have "(fs' = fs1\<lparr>fsi_flag := 0\<rparr> \<or> (\<exists>free nxt. fs' = fs1\<lparr>fsi_flag := 0, free_clst := free, last_clst := nxt\<rparr>)) \<and> d' = d1"
        using info True v m ok by (auto simp: read_fsinfo_def Let_def split: bind_splits if_splits)
      moreover have "fs1\<lparr>fsi_flag := 0\<rparr> = fs1\<lparr>last_clst := last_clst fs1, free_clst := free_clst fs1, fsi_flag := 0\<rparr>" by simp
      moreover have "fs1\<lparr>fsi_flag := 0, free_clst := free, last_clst := nxt\<rparr> = fs1\<lparr>last_clst := nxt, free_clst := free, fsi_flag := 0\<rparr>" for free nxt by simp
      ultimately show ?thesis by metis
    qed
    then show ?thesis using l0 fs1 by (intro exI [of _ fs0]) auto
  qed
qed

text \<open>The sizes of a volume as the boot sector has them.\<close>

definition fat_sizes :: "u8 list \<Rightarrow> u64 \<Rightarrow> u8 \<Rightarrow> fatfs \<Rightarrow> bool" where
  "fat_sizes w bsect fmt fs \<longleftrightarrow>
     (\<exists>nrsv tsect sysect nclst fasize.
        ld_word w BPB_BytsPerSec = Some 512
      \<and> table_sectors w = Some (fsize fs) \<and> rd w BPB_NumFATs = Some (n_fats fs) \<and> n_fats fs \<in> {1, 2}
      \<and> (\<exists>b. rd w BPB_SecPerClus = Some b \<and> csize fs = ucast b)
      \<and> csize fs \<noteq> 0 \<and> csize fs AND (csize fs - 1) = 0
      \<and> ld_word w BPB_RootEntCnt = Some (n_rootdir fs) \<and> n_rootdir fs mod 16 = 0
      \<and> total_sectors w = Some tsect \<and> ld_word w BPB_RsvdSecCnt = Some nrsv \<and> nrsv \<noteq> 0
      \<and> fasize = fsize fs * ucast (n_fats fs) \<and> sysect = ucast nrsv + fasize + ucast (n_rootdir fs div 16) \<and> sysect \<le> tsect
      \<and> nclst = (tsect - sysect) div ucast (csize fs) \<and> nclst \<noteq> 0
      \<and> fmt = fat_kind nclst \<and> fmt \<noteq> 0 \<and> n_fatent fs = nclst + 2
      \<and> volbase fs = bsect \<and> fatbase fs = bsect + ucast nrsv \<and> database fs = bsect + ucast sysect
      \<and> (if fmt = FS_FAT32 then n_rootdir fs = 0 \<and> map_option ucast (ld_dword w BPB_RootClus32) = Some (dirbase fs)
         else n_rootdir fs \<noteq> 0 \<and> dirbase fs = fatbase fs + ucast fasize)
      \<and> (fat_octets fmt (n_fatent fs) + 511) div 512 \<le> fsize fs)"

lemma fat_shape_sizes:
  assumes "fat_shape fs = Some (True, fs')"
  shows "\<exists>fasize nf spc nroot. fs' = fs\<lparr>fsize := fasize, n_fats := nf, csize := ucast spc, n_rootdir := nroot\<rparr>
     \<and> ld_word (win fs) BPB_BytsPerSec = Some 512 \<and> table_sectors (win fs) = Some fasize
     \<and> rd (win fs) BPB_NumFATs = Some nf \<and> (nf = 1 \<or> nf = 2) \<and> rd (win fs) BPB_SecPerClus = Some spc
     \<and> (ucast spc :: u16) \<noteq> 0 \<and> ucast spc AND ((ucast spc :: u16) - 1) = 0
     \<and> ld_word (win fs) BPB_RootEntCnt = Some nroot \<and> nroot mod 16 = 0"
  using assms unfolding fat_shape_def by (auto simp: Let_def split: bind_splits if_splits)

lemma fat_count_sizes:
  assumes "fat_count bsect fs = Some (fmt, fs')" and "fmt \<noteq> 0"
  shows "\<exists>tsect nrsv sysect nclst. total_sectors (win fs) = Some tsect \<and> ld_word (win fs) BPB_RsvdSecCnt = Some nrsv
     \<and> sysect = ucast nrsv + fsize fs * ucast (n_fats fs) + ucast (n_rootdir fs div 16) \<and> nrsv \<noteq> 0 \<and> sysect \<le> tsect
     \<and> nclst = (tsect - sysect) div ucast (csize fs) \<and> nclst \<noteq> 0 \<and> fmt = fat_kind nclst
     \<and> fs' = fs\<lparr>n_fatent := nclst + 2, volbase := bsect, fatbase := bsect + ucast nrsv, database := bsect + ucast sysect\<rparr>"
  using assms unfolding fat_count_def by (auto simp: Let_def split: bind_splits if_splits)

lemma fat_root_sizes:
  assumes "fat_root fmt fs = Some (True, fs')"
  shows "\<exists>root. fs' = fs\<lparr>dirbase := root\<rparr> \<and> (fat_octets fmt (n_fatent fs) + 511) div 512 \<le> fsize fs
     \<and> (if fmt = FS_FAT32 then n_rootdir fs = 0 \<and> map_option ucast (ld_dword (win fs) BPB_RootClus32) = Some root
        else n_rootdir fs \<noteq> 0 \<and> root = fatbase fs + ucast (fsize fs * ucast (n_fats fs)))"
  using assms unfolding fat_root_def by (auto simp: Let_def split: bind_splits if_splits)

lemma fat_layout_sizes:
  assumes "fat_layout bsect fs = Some (fmt, fs')" and "fmt \<noteq> 0"
  shows "fat_sizes (win fs) bsect fmt fs'" and "wflag fs' = wflag fs" and "winsect fs' = winsect fs"
    and "win fs' = win fs" and "pdrv fs' = pdrv fs"
proof -
  obtain fs1 fs2 where l: "fat_shape fs = Some (True, fs1)" "fat_count bsect fs1 = Some (fmt, fs2)" "fat_root fmt fs2 = Some (True, fs')"
    using assms unfolding fat_layout_def by (auto split: bind_splits if_splits)
  obtain fasize nf spc nroot where fs1: "fs1 = fs\<lparr>fsize := fasize, n_fats := nf, csize := ucast spc, n_rootdir := nroot\<rparr>"
    and r1: "ld_word (win fs) BPB_BytsPerSec = Some 512" "table_sectors (win fs) = Some fasize"
      "rd (win fs) BPB_NumFATs = Some nf" "nf = 1 \<or> nf = 2" "rd (win fs) BPB_SecPerClus = Some spc"
      "(ucast spc :: u16) \<noteq> 0" "ucast spc AND ((ucast spc :: u16) - 1) = 0"
      "ld_word (win fs) BPB_RootEntCnt = Some nroot" "nroot mod 16 = 0"
    using fat_shape_sizes [OF l(1)] by (elim exE conjE) (rule that)
  obtain tsect nrsv sysect nclst where r2: "total_sectors (win fs) = Some tsect" "ld_word (win fs) BPB_RsvdSecCnt = Some nrsv"
      "sysect = ucast nrsv + fasize * ucast nf + ucast (nroot div 16)" "nrsv \<noteq> 0" "sysect \<le> tsect"
      "nclst = (tsect - sysect) div ucast (ucast spc :: u16)" "nclst \<noteq> 0" "fmt = fat_kind nclst"
    and fs2: "fs2 = fs1\<lparr>n_fatent := nclst + 2, volbase := bsect, fatbase := bsect + ucast nrsv, database := bsect + ucast sysect\<rparr>"
    using fat_count_sizes [OF l(2) assms(2)] unfolding fs1 by auto
  obtain root where fs': "fs' = fs2\<lparr>dirbase := root\<rparr>" and r3: "(fat_octets fmt (n_fatent fs2) + 511) div 512 \<le> fsize fs2"
      "if fmt = FS_FAT32 then n_rootdir fs2 = 0 \<and> map_option ucast (ld_dword (win fs2) BPB_RootClus32) = Some root
        else n_rootdir fs2 \<noteq> 0 \<and> root = fatbase fs2 + ucast (fsize fs2 * ucast (n_fats fs2))"
    using fat_root_sizes [OF l(3)] by auto
  have f: "fsize fs' = fasize" "n_fats fs' = nf" "csize fs' = ucast spc" "n_rootdir fs' = nroot" "n_fatent fs' = nclst + 2"
    "volbase fs' = bsect" "fatbase fs' = bsect + ucast nrsv" "database fs' = bsect + ucast sysect" "dirbase fs' = root"
    by (simp_all add: fs' fs2 fs1)
  have nf: "nf \<in> {1, 2}" using r1(4) by blast
  have r3': "(fat_octets fmt (nclst + 2) + 511) div 512 \<le> fasize"
      "if fmt = FS_FAT32 then nroot = 0 \<and> map_option ucast (ld_dword (win fs) BPB_RootClus32) = Some root
        else nroot \<noteq> 0 \<and> root = (bsect + ucast nrsv) + ucast (fasize * ucast nf)"
    using r3 by (simp_all add: fs2 fs1 split: if_split_asm)
  have spc: "\<exists>b. rd (win fs) BPB_SecPerClus = Some b \<and> (ucast spc :: u16) = ucast b" using r1(5) by blast
  show "fat_sizes (win fs) bsect fmt fs'"
    unfolding fat_sizes_def f using r1 r2 r3' assms(2) nf spc
    by (intro exI [of _ nrsv] exI [of _ tsect] exI [of _ sysect] exI [of _ nclst] exI [of _ "fasize * ucast nf"] conjI)
      (assumption | rule refl)+
  show "wflag fs' = wflag fs" "winsect fs' = winsect fs" "win fs' = win fs" "pdrv fs' = pdrv fs" by (simp_all add: fs' fs2 fs1)
qed

lemma fat_kind_bound:
  assumes "fat_kind n \<noteq> 0"
  shows "fat_kind n \<in> {FS_FAT12, FS_FAT16, FS_FAT32}"
    and "unat n \<le> (if fat_kind n = FS_FAT12 then 0xFF5 else if fat_kind n = FS_FAT16 then 0xFFF5 else 0xFFFFFF5)"
  using assms
  by (auto simp: fat_kind_def fs_types MAX_FAT12_def MAX_FAT16_def MAX_FAT32_def word_le_nat_alt split: if_splits)

lemma enough_octets:
  assumes "fat_kind n \<noteq> 0" and "(fat_octets (fat_kind n) (n + 2) + 511) div 512 \<le> sz"
  shows "unat (n + 2) = unat n + 2"
    and "(if fat_kind n = FS_FAT12 then unat (n + 2) * 3 div 2 + unat (n + 2) mod 2
      else if fat_kind n = FS_FAT16 then unat (n + 2) * 2 else unat (n + 2) * 4) \<le> 512 * unat sz"
proof -
  note k = fat_kind_bound [OF assms(1)]
  have small: "unat n \<le> 0xFFFFFF5" using k(2) by (auto split: if_splits)
  show n2: "unat (n + 2) = unat n + 2" using small by (simp add: unat_word_ariths)
  have odd: "unat ((n + 2) AND 1) = unat (n + 2) mod 2"
    by (simp add: and_one_eq unat_mod)
  have o: "unat (fat_octets (fat_kind n) (n + 2)) = (if fat_kind n = FS_FAT12 then unat (n + 2) * 3 div 2 + unat (n + 2) mod 2
      else if fat_kind n = FS_FAT16 then unat (n + 2) * 2 else unat (n + 2) * 4)"
    using k small n2 unfolding fat_octets_def
    by (auto simp: fs_types unat_word_ariths odd unat_div simp del: and_one_eq)
  have "unat ((fat_octets (fat_kind n) (n + 2) + 511) div 512) \<le> unat sz" using assms(2) by (simp add: word_le_nat_alt)
  moreover have "unat (fat_octets (fat_kind n) (n + 2)) < 2 ^ 32 - 511" unfolding o using small n2 by auto
  ultimately have "(unat (fat_octets (fat_kind n) (n + 2)) + 511) div 512 \<le> unat sz"
    by (simp add: unat_div unat_word_ariths)
  then show "(if fat_kind n = FS_FAT12 then unat (n + 2) * 3 div 2 + unat (n + 2) mod 2
      else if fat_kind n = FS_FAT16 then unat (n + 2) * 2 else unat (n + 2) * 4) \<le> 512 * unat sz"
    unfolding o [symmetric] by arith
qed

lemma fat_sizes_volume_ok:
  assumes "fat_sizes w bsect fmt fs" and "fs_type fs = fmt" and "unat bsect < 2 ^ 63"
  shows "volume_ok fs" and "2 \<le> n_fatent fs"
proof -
  obtain nclst nrsv where n: "fmt = fat_kind nclst" "fmt \<noteq> 0" "n_fatent fs = nclst + 2"
    and room: "(fat_octets fmt (n_fatent fs) + 511) div 512 \<le> fsize fs"
    and base: "fatbase fs = bsect + ucast (nrsv :: u16)"
    using assms(1) unfolding fat_sizes_def by blast
  have k: "fat_kind nclst \<noteq> 0" "(fat_octets (fat_kind nclst) (nclst + 2) + 511) div 512 \<le> fsize fs"
    using n room by simp_all
  note e = enough_octets [OF k] and b = fat_kind_bound [OF k(1)]
  have "unat (ucast nrsv :: u64) < 2 ^ 16"
    using unsigned_less [of nrsv, where ?'a = nat] by (simp add: unsigned_ucast_eq take_bit_nat_eq_self)
  moreover have "unat (fsize fs) < 2 ^ 32" using unsigned_less [of "fsize fs", where ?'a = nat] by simp
  ultimately have "unat (fatbase fs) + 2 * unat (fsize fs) < 2 ^ 64 - 1"
    using assms(3) base by (simp add: unat_word_ariths)
  moreover have "unat (n_fatent fs) \<le> unat (fat_mask fs) - 8"
    using b(2) e(1) n assms(2) by (auto simp: fat_mask_def split: if_splits)
  moreover have "table_octets fs \<le> 512 * unat (fsize fs)"
    using e(2) n assms(2) by (simp only: table_octets_def Let_def)
  ultimately show "volume_ok fs"
    using b(1) n assms(2) by (simp add: volume_ok_def)
  show "2 \<le> n_fatent fs" using e(1) n(3) by (simp add: word_le_nat_alt)
qed

section \<open>A mounted volume\<close>

text \<open>The sizes depend on the parameters of the volume only.\<close>

definition same_sizes :: "fatfs \<Rightarrow> fatfs \<Rightarrow> bool" where
  "same_sizes fs fs' \<longleftrightarrow> fsize fs' = fsize fs \<and> n_fats fs' = n_fats fs \<and> csize fs' = csize fs \<and> n_rootdir fs' = n_rootdir fs
     \<and> n_fatent fs' = n_fatent fs \<and> volbase fs' = volbase fs \<and> fatbase fs' = fatbase fs \<and> database fs' = database fs
     \<and> dirbase fs' = dirbase fs"

lemma same_sizes_fat: "same_sizes fs fs' \<Longrightarrow> fat_sizes w b k fs \<Longrightarrow> fat_sizes w b k fs'"
  unfolding fat_sizes_def same_sizes_def by (elim conjE) (simp only:)

lemma moved_sizes: "moved fs fs' \<Longrightarrow> same_sizes fs fs'"
  by (cases fs; cases fs'; simp add: moved_def same_sizes_def)

lemma mount_fat_volume:
  assumes disk: "sector_disk io (pdrv fs) cont" and clean: "wflag fs = 0" "window_ok cont fs d"
    and m: "mount_fat io bsect fs d = Some (FR_OK, kind, fs', d')"
  shows "fat_sizes (win fs) bsect kind fs' \<and> window_ok cont fs' d' \<and> pdrv fs' = pdrv fs \<and> cont d' = cont d"
proof -
  obtain fs1 where l: "fat_layout bsect fs = Some (kind, fs1)" "kind \<noteq> 0"
    and info: "read_fsinfo io bsect kind fs1 d = Some (fs', d')"
    using m by (auto simp: mount_fat_def split: bind_splits if_splits)
  note s = fat_layout_sizes [OF l]
  have pre: "sector_disk io (pdrv fs1) cont" "wflag fs1 = 0" "window_ok cont fs1 d"
    using disk clean s by (auto simp: window_ok_def)
  obtain fs2 free nxt flag where l2: "looked cont fs1 d fs2 d'"
    and fs': "fs' = fs2\<lparr>last_clst := nxt, free_clst := free, fsi_flag := flag\<rparr>"
    using read_fsinfo_looked [OF pre info] by blast
  have "same_sizes fs2 fs'" by (simp add: fs' same_sizes_def)
  moreover have "same_sizes fs1 fs2" using l2 by (simp add: looked_def moved_sizes)
  ultimately have "fat_sizes (win fs) bsect kind fs'" using s(1) same_sizes_fat by blast
  then show ?thesis using l2 looked_pdrv [OF l2] s(5) by (simp add: fs' looked_def window_ok_def)
qed

lemma mount_drive_volume:
  assumes disk: "sector_disk io (of_nat vol) cont" and len: "length (win fs) = 512"
    and m: "mount_drive io vol mode fs d = Some (FR_OK, fs', d')" and fat: "fs_type fs' \<noteq> FS_EXFAT"
    and low: "unat (volbase fs') < 2 ^ 63"
  shows "mounted io cont fs' d' \<and> 2 \<le> n_fatent fs' \<and> boot_kind (cont d' (volbase fs')) = Some 0
     \<and> fat_sizes (cont d' (volbase fs')) (volbase fs') (fs_type fs') fs'"
proof -
  let ?f = "fs\<lparr>fs_type := 0, pdrv := of_nat vol\<rparr>"
  obtain st d1 where i: "dinit io (of_nat vol) d = Some (st, d1)"
    using m by (auto simp: mount_drive_def Let_def split: bind_splits)
  obtain fmt fs2 d2 where f: "find_volume io 0 ?f d1 = Some (fmt, fs2, d2)" "fmt < 2"
    and rest: "do { (res, kind, fs, d) \<leftarrow> (if fmt = 1 then do {
             (res, fs, d) \<leftarrow> mount_exfat io (winsect fs2) fs2 d2; Some (res, FS_EXFAT, fs, d) }
           else mount_fat io (winsect fs2) fs2 d2);
         Some (res, if res = FR_OK then fs\<lparr>fs_type := kind\<rparr> else fs, d) } = Some (FR_OK, fs', d')"
    using m i by (auto simp: mount_drive_def Let_def split: bind_splits if_splits)
  have pre: "sector_disk io (pdrv ?f) cont" "length (win ?f) = 512" using disk len by simp_all
  note l = find_volume_looked [OF pre f(1)]
  have fmt: "fmt = 0"
  proof (rule ccontr)
    assume "fmt \<noteq> 0"
    then have "fmt = 1" using f(2) by simp
    then have "fs_type fs' = FS_EXFAT" using rest by (auto split: bind_splits)
    then show False using fat by simp
  qed
  then obtain kind fs3 where mf: "mount_fat io (winsect fs2) fs2 d2 = Some (FR_OK, kind, fs3, d')"
    and fs': "fs' = fs3\<lparr>fs_type := kind\<rparr>"
    using rest by (auto split: bind_splits)
  have pre2: "sector_disk io (pdrv fs2) cont" "wflag fs2 = 0" "window_ok cont fs2 d2"
    using pre(1) l(1) looked_pdrv [OF l(1)] by (auto simp: looked_def)
  note v = mount_fat_volume [OF pre2 mf]
  have sizes: "fat_sizes (win fs2) (winsect fs2) kind fs'"
    by (rule same_sizes_fat [of fs3]) (use v in \<open>simp_all add: fs' same_sizes_def\<close>)
  then have vol: "volbase fs' = winsect fs2" unfolding fat_sizes_def by blast
  then have "winsect fs2 \<noteq> no_sector" using low by (auto simp: no_sector_def unsigned_minus_1_eq_mask mask_eq_exp_minus_1)
  then have w: "win fs2 = cont d' (volbase fs')" using look_sector [OF pre2(1) l(1)] vol v by simp
  have type: "fs_type fs' = kind" by (simp add: fs')
  have "volume_ok fs'" "2 \<le> n_fatent fs'"
    using fat_sizes_volume_ok [OF sizes type] low vol by simp_all
  moreover have "window_ok cont fs' d'" "sector_disk io (pdrv fs') cont" using v pre2(1) by (simp_all add: fs' window_ok_def)
  moreover have "boot_kind (win fs2) = Some 0" using l(2) fmt f(2) by simp
  ultimately show ?thesis using sizes vol w type by (simp add: mounted_def)
qed

text \<open>
  A cluster of a volume, when the sizes add up in the 32 bits they are computed in: its sectors lie
  behind the table and the root directory and in front of the end of the volume.
\<close>

definition sizes_add_up :: "fatfs \<Rightarrow> bool" where
  "sizes_add_up fs \<longleftrightarrow> unat (fsize fs) * unat (n_fats fs) + 2 ^ 17 < 2 ^ 32"

lemma cluster_in_volume:
  assumes sizes: "fat_sizes w bsect fmt fs" and low: "unat bsect < 2 ^ 63" and sum: "sizes_add_up fs" and c: "in_fat fs c"
  shows "\<exists>tsect. total_sectors w = Some tsect
     \<and> unat (fatbase fs) + unat (fsize fs) * unat (n_fats fs) + unat (n_rootdir fs div 16) \<le> unat (clst2sect fs c)
     \<and> unat (clst2sect fs c) + unat (csize fs) \<le> unat bsect + unat tsect"
proof -
  obtain nrsv tsect sysect nclst where t: "total_sectors w = Some tsect"
    and sys: "sysect = ucast (nrsv :: u16) + fsize fs * ucast (n_fats fs) + ucast (n_rootdir fs div 16)" "sysect \<le> tsect"
    and n: "nclst = (tsect - sysect) div ucast (csize fs)" "n_fatent fs = nclst + 2" "csize fs \<noteq> 0"
      "fat_kind nclst \<noteq> 0"
    and base: "fatbase fs = bsect + ucast nrsv" "database fs = bsect + ucast sysect"
    using sizes unfolding fat_sizes_def by blast
  have small: "unat nclst \<le> 0xFFFFFF5" using fat_kind_bound(2) [OF n(4)] by (auto split: if_splits)
  have n2: "unat (n_fatent fs) = unat nclst + 2" unfolding n(2) using small by (simp add: unat_word_ariths)
  have r: "unat (ucast nrsv :: u32) = unat nrsv" "unat (ucast nrsv :: u64) = unat nrsv" "unat nrsv < 2 ^ 16"
      "unat (ucast (n_rootdir fs div 16) :: u32) = unat (n_rootdir fs div 16)" "unat (n_rootdir fs div 16) < 2 ^ 16"
      "unat (ucast (n_fats fs) :: u32) = unat (n_fats fs)" "unat (ucast (csize fs) :: u32) = unat (csize fs)" "unat (csize fs) < 2 ^ 16"
      "unat (ucast (csize fs) :: u64) = unat (csize fs)"
    using unsigned_less [of nrsv, where ?'a = nat] unsigned_less [of "n_rootdir fs div 16", where ?'a = nat]
      unsigned_less [of "n_fats fs", where ?'a = nat] unsigned_less [of "csize fs", where ?'a = nat]
    by (simp_all add: unsigned_ucast_eq take_bit_nat_eq_self)
  have prod: "unat (fsize fs * ucast (n_fats fs)) = unat (fsize fs) * unat (n_fats fs)"
    using sum r(6) by (simp add: sizes_add_up_def unat_word_ariths)
  have s: "unat sysect = unat nrsv + unat (fsize fs) * unat (n_fats fs) + unat (n_rootdir fs div 16)"
    unfolding sys(1) using sum r prod by (simp add: sizes_add_up_def unat_word_ariths)
  have k: "unat nclst = (unat tsect - unat sysect) div unat (csize fs)"
    unfolding n(1) using sys(2) r(7) by (simp add: unat_div unat_sub)
  have c2: "unat (c - 2) = unat c - 2" "2 \<le> unat c" "unat c < unat nclst + 2"
    using c n2 by (simp_all add: in_fat_def unat_sub word_le_nat_alt word_less_nat_alt)
  have "\<not> n_fatent fs - 2 \<le> c - 2"
    using c2 n2 by (simp add: word_le_nat_alt unat_sub n(2))
  then have cs: "clst2sect fs c = database fs + ucast (csize fs) * ucast (c - 2)"
    by (simp add: clst2sect_def Let_def)
  have mult: "unat (csize fs) * unat (c - 2) + unat (csize fs) \<le> unat tsect - unat sysect"
  proof -
    have "unat (csize fs) * unat (c - 2) + unat (csize fs) = unat (csize fs) * (unat (c - 2) + 1)" by simp
    also have "\<dots> \<le> unat (csize fs) * unat nclst" using c2 by (intro mult_le_mono2) simp
    also have "\<dots> \<le> unat tsect - unat sysect" unfolding k by simp
    finally show ?thesis .
  qed
  have lim: "unat tsect < 2 ^ 32" "unat sysect < 2 ^ 32" "unat sysect \<le> unat tsect"
    using sys(2) unsigned_less [of tsect, where ?'a = nat] unsigned_less [of sysect, where ?'a = nat] by (simp_all add: word_le_nat_alt)
  have cw: "unat (ucast (c - 2) :: u64) = unat (c - 2)" "unat (ucast sysect :: u64) = unat sysect"
    using unsigned_less [of "c - 2", where ?'a = nat] lim by (simp_all add: unsigned_ucast_eq take_bit_nat_eq_self)
  have p64: "unat (ucast (csize fs) * ucast (c - 2) :: u64) = unat (csize fs) * unat (c - 2)"
    using mult lim r(9) cw by (simp add: unat_word_ariths)
  have "unat (clst2sect fs c) = unat bsect + unat sysect + unat (csize fs) * unat (c - 2)"
  proof -
    have "unat (database fs) = unat bsect + unat sysect"
      unfolding base(2) using cw low lim by (simp add: unat_word_ariths)
    then show ?thesis unfolding cs using p64 mult low lim
      by (simp add: unat_word_ariths(1) [of "database fs"])
  qed
  moreover have "unat (fatbase fs) = unat bsect + unat nrsv"
    unfolding base(1) using r low by (simp add: unat_word_ariths)
  ultimately show ?thesis using t s mult lim by (intro exI [of _ tsect]) simp
qed

text \<open>A boot sector of a small volume: 64 sectors, with two tables of one sector each.\<close>

definition example_boot :: "u8 list" where
  "example_boot = [0xEB, 0x3C, 0x90, 0, 0, 0, 0, 0, 0, 0, 0, 0, 2, 1, 1, 0, 2, 16, 0, 64, 0, 0xF8, 1, 0] @ replicate 488 0"

definition boot_disk :: "u64 \<Rightarrow> u8 list" where
  "boot_disk = (\<lambda>s. [])(0 := example_boot)"

lemma boot_octet: "rd example_boot k = (if k < 24 then Some ([0xEB, 0x3C, 0x90, 0, 0, 0, 0, 0, 0, 0, 0, 0, 2, 1, 1, 0, 2, 16, 0, 64, 0, 0xF8, 1, 0] ! k)
    else if k < 512 then Some 0 else None)"
  unfolding rd_def example_boot_def nth_append by simp

lemma boot_window: "move_window ram_io 0 (example_fs\<lparr>fs_type := 0, pdrv := 0, wflag := 0, winsect := no_sector\<rparr>) boot_disk
    = Some (FR_OK, example_fs\<lparr>fs_type := 0, pdrv := 0, wflag := 0, winsect := 0, win := example_boot\<rparr>, boot_disk)"
  by (simp add: move_window_def sync_window_def ram_io_def ram_sectors_def boot_disk_def example_boot_def no_sector_def
      example_fs_def memcpy_def)

lemma boot_kind_example: "boot_kind example_boot = Some 0"
  by (simp add: boot_kind_def early_fat_def ld_word_def boot_octet bpb_fields BS_55AA_def)

lemma example_mount:
  "\<exists>fs'. mount_drive ram_io 0 0 example_fs boot_disk = Some (FR_OK, fs', boot_disk) \<and> fs_type fs' = FS_FAT12
     \<and> volbase fs' = 0 \<and> fsize fs' = 1 \<and> n_fats fs' = 2 \<and> n_fatent fs' = 62"
proof -
  have f: "find_volume ram_io 0 (example_fs\<lparr>fs_type := 0, pdrv := 0\<rparr>) boot_disk
      = Some (0, example_fs\<lparr>fs_type := 0, pdrv := 0, wflag := 0, winsect := 0, win := example_boot\<rparr>, boot_disk)"
    by (simp add: find_volume_def check_fs_def boot_window boot_kind_example)
  let ?f = "example_fs\<lparr>fs_type := 0, pdrv := 0, wflag := 0, winsect := 0, win := example_boot\<rparr>"
  have "fat_shape ?f = Some (True, ?f\<lparr>fsize := 1, n_fats := 2, csize := 1, n_rootdir := 16\<rparr>)"
    by (simp add: fat_shape_def table_sectors_def ld_word_def boot_octet bpb_fields)
  moreover have "fat_count 0 (?f\<lparr>fsize := 1, n_fats := 2, csize := 1, n_rootdir := 16\<rparr>)
      = Some (FS_FAT12, ?f\<lparr>fsize := 1, n_fats := 2, csize := 1, n_rootdir := 16, n_fatent := 62, volbase := 0, fatbase := 1, database := 4\<rparr>)"
    by (simp add: fat_count_def total_sectors_def ld_word_def boot_octet bpb_fields Let_def fat_kind_def MAX_FAT12_def fs_types)
  moreover have "fat_root FS_FAT12 (?f\<lparr>fsize := 1, n_fats := 2, csize := 1, n_rootdir := 16, n_fatent := 62, volbase := 0, fatbase := 1, database := 4\<rparr>)
      = Some (True, ?f\<lparr>fsize := 1, n_fats := 2, csize := 1, n_rootdir := 16, n_fatent := 62, volbase := 0, fatbase := 1, database := 4, dirbase := 3\<rparr>)"
    by (simp add: fat_root_def fs_types fat_octets_def)
  ultimately have "fat_layout 0 ?f = Some (FS_FAT12, ?f\<lparr>fsize := 1, n_fats := 2, csize := 1, n_rootdir := 16, n_fatent := 62, volbase := 0, fatbase := 1, database := 4, dirbase := 3\<rparr>)"
    by (simp add: fat_layout_def fs_types)
  then have "mount_fat ram_io 0 ?f boot_disk = Some (FR_OK, FS_FAT12, ?f\<lparr>fsize := 1, n_fats := 2, csize := 1, n_rootdir := 16, n_fatent := 62, volbase := 0, fatbase := 1, database := 4, dirbase := 3, last_clst := 0xFFFFFFFF, free_clst := 0xFFFFFFFF, fsi_flag := 0x80\<rparr>, boot_disk)"
    by (simp add: mount_fat_def read_fsinfo_def fs_types)
  then show ?thesis using f by (simp add: mount_drive_def ram_io_def STA_NOINIT_def)
qed

text \<open>
  The product of the size of a table and the number of tables wraps: a boot sector that announces two
  tables of \<open>2 ^ 31\<close> sectors is accepted, and the first cluster is the first sector of the table.
\<close>

definition wrapped_boot :: "u8 list" where
  "wrapped_boot = [0xEB, 0x58, 0x90, 0, 0, 0, 0, 0, 0, 0, 0, 0, 2, 1, 32, 0, 2, 0, 0, 0, 0, 0xF8, 0, 0,
     0, 0, 0, 0, 0, 0, 0, 0, 0, 0, 2, 0, 0, 0, 0, 0x80] @ replicate 472 0"

lemma wrapped_octet: "rd wrapped_boot k = (if k < 40 then Some ([0xEB, 0x58, 0x90, 0, 0, 0, 0, 0, 0, 0, 0, 0, 2, 1, 32, 0, 2, 0, 0, 0, 0, 0xF8, 0, 0,
     0, 0, 0, 0, 0, 0, 0, 0, 0, 0, 2, 0, 0, 0, 0, 0x80] ! k)
    else if k < 512 then Some 0 else None)"
  unfolding rd_def wrapped_boot_def nth_append by simp

lemma wrapped_sizes_accepted:
  "\<exists>fs'. fat_layout 0 (example_fs\<lparr>win := wrapped_boot\<rparr>) = Some (FS_FAT32, fs') \<and> clst2sect fs' 2 = fatbase fs'"
proof -
  let ?f = "example_fs\<lparr>win := wrapped_boot\<rparr>"
  let ?f1 = "?f\<lparr>fsize := 0x80000000, n_fats := 2, csize := 1, n_rootdir := 0\<rparr>"
  let ?f2 = "?f1\<lparr>n_fatent := 0x1FFE2, volbase := 0, fatbase := 32, database := 32\<rparr>"
  have "fat_shape ?f = Some (True, ?f1)"
    by (simp add: fat_shape_def table_sectors_def ld_word_def ld_dword_def wrapped_octet bpb_fields)
  moreover have "fat_count 0 ?f1 = Some (FS_FAT32, ?f2)"
    by (simp add: fat_count_def total_sectors_def ld_word_def ld_dword_def wrapped_octet bpb_fields Let_def fat_kind_def
        MAX_FAT12_def MAX_FAT16_def MAX_FAT32_def fs_types)
  moreover have "fat_root FS_FAT32 ?f2 = Some (True, ?f2\<lparr>dirbase := 0\<rparr>)"
    by (simp add: fat_root_def fs_types fat_octets_def ld_word_def ld_dword_def wrapped_octet bpb_fields)
  ultimately show ?thesis by (simp add: fat_layout_def fs_types clst2sect_def)
qed

section \<open>The property\<close>

text \<open>
  C2. A volume that \<open>mount_volume\<close> accepts as FAT12, FAT16 or FAT32, on a disk that keeps its sectors
  and in the lower half of the sector numbers, is a sound one: the window shows a sector of the
  disk, the table has room for every cluster, the kind is that for the number of clusters, and the
  two copies of the table have sector numbers. Provided the size of the tables does not wrap in the
  32 bits it is computed in (\<open>sizes_add_up\<close>), every cluster lies behind the tables and the root
  directory and in front of the end of the volume as its boot sector has it; without that proviso
  it need not (\<open>wrapped_sizes_accepted\<close>).
\<close>

theorem mounted_volume_sound:
  assumes "sector_disk io (of_nat vol) cont" and "length (win fs) = 512"
    and "mount_drive io vol mode fs d = Some (FR_OK, fs', d')" and "fs_type fs' \<noteq> FS_EXFAT"
    and "unat (volbase fs') < 2 ^ 63"
  shows "mounted io cont fs' d' \<and> 2 \<le> n_fatent fs' \<and> boot_kind (cont d' (volbase fs')) = Some 0
     \<and> (sizes_add_up fs' \<longrightarrow> (\<forall>c. in_fat fs' c \<longrightarrow> (\<exists>tsect. total_sectors (cont d' (volbase fs')) = Some tsect
          \<and> unat (fatbase fs') + unat (fsize fs') * unat (n_fats fs') + unat (n_rootdir fs' div 16) \<le> unat (clst2sect fs' c)
          \<and> unat (clst2sect fs' c) + unat (csize fs') \<le> unat (volbase fs') + unat tsect)))"
  using mount_drive_volume [OF assms] cluster_in_volume assms(5) by blast

lemma mounted_volume_sound_witness:
  "\<exists>fs'. mount_drive ram_io 0 0 example_fs boot_disk = Some (FR_OK, fs', boot_disk) \<and> mounted ram_io ram_sectors fs' boot_disk
     \<and> in_fat fs' 61 \<and> unat (clst2sect fs' 61) + unat (csize fs') \<le> 64"
proof -
  obtain fs' where m: "mount_drive ram_io 0 0 example_fs boot_disk = Some (FR_OK, fs', boot_disk)"
    and f: "fs_type fs' = FS_FAT12" "volbase fs' = 0" "fsize fs' = 1" "n_fats fs' = 2" "n_fatent fs' = 62"
    using example_mount by blast
  have pre: "length (win example_fs) = 512" "fs_type fs' \<noteq> FS_EXFAT" "unat (volbase fs') < 2 ^ 63"
    "sizes_add_up fs'" "in_fat fs' 61"
    using f by (simp_all add: example_fs_def fs_types sizes_add_up_def in_fat_def)
  have "total_sectors (ram_sectors boot_disk 0) = Some 64"
    by (simp add: ram_sectors_def boot_disk_def total_sectors_def bpb_fields ld_word_def rd_def example_boot_def nth_append)
  then show ?thesis
    using mounted_volume_sound [OF ram_disk(1) pre(1) m pre(2,3)] pre(4,5) m f(2) by fastforce
qed

end
