(* ===== verification/Ff_Dir.thy ===== *)
theory Ff_Dir
  imports Ff_Fat Ff_Lfn
begin

text \<open>
  The directory tables, from \<open>ff.c\<close>: clearing a cluster, going to an entry and to the next one,
  reserving a block of entries, and the entry blocks of exFAT. An entry is an offset in the window of
  the volume. What a function changes is passed through it: the directory object, the volume and the
  disk.
\<close>

section \<open>Constants\<close>

definition MAX_DIR :: u32 where "MAX_DIR = 0x200000"
definition MAX_DIR_EX :: u32 where "MAX_DIR_EX = 0x10000000"
definition AM_DIR :: u8 where "AM_DIR = 0x10"
definition AM_VOL :: u8 where "AM_VOL = 0x08"
definition AM_ARC :: u8 where "AM_ARC = 0x20"
definition AM_MASK :: u8 where "AM_MASK = 0x3F"
definition NSFLAG :: nat where "NSFLAG = 11"
definition NS_LOSS :: u8 where "NS_LOSS = 0x01"
definition NS_LFN :: u8 where "NS_LFN = 0x02"
definition NS_LAST :: u8 where "NS_LAST = 0x04"
definition NS_BODY :: u8 where "NS_BODY = 0x08"
definition NS_EXT :: u8 where "NS_EXT = 0x10"
definition NS_DOT :: u8 where "NS_DOT = 0x20"
definition NS_NOLFN :: u8 where "NS_NOLFN = 0x40"
definition NS_NONAME :: u8 where "NS_NONAME = 0x80"
definition ET_FILEDIR :: u8 where "ET_FILEDIR = 0x85"
definition ET_STREAM :: u8 where "ET_STREAM = 0xC0"
definition ET_FILENAME :: u8 where "ET_FILENAME = 0xC1"
definition DIR_Name :: nat where "DIR_Name = 0"
definition DIR_Attr :: nat where "DIR_Attr = 11"
definition DIR_NTres :: nat where "DIR_NTres = 12"
definition DIR_FstClusHI :: nat where "DIR_FstClusHI = 20"
definition DIR_ModTime :: nat where "DIR_ModTime = 22"
definition DIR_FstClusLO :: nat where "DIR_FstClusLO = 26"
definition DIR_FileSize :: nat where "DIR_FileSize = 28"
definition XDIR_Type :: nat where "XDIR_Type = 0"
definition XDIR_Attr :: nat where "XDIR_Attr = 4"
definition XDIR_ModTime :: nat where "XDIR_ModTime = 12"
definition XDIR_GenFlags :: nat where "XDIR_GenFlags = 33"
definition XDIR_NumName :: nat where "XDIR_NumName = 35"
definition XDIR_NameHash :: nat where "XDIR_NameHash = 36"
definition XDIR_ValidFileSize :: nat where "XDIR_ValidFileSize = 40"
definition XDIR_FstClus :: nat where "XDIR_FstClus = 52"
definition XDIR_FileSize :: nat where "XDIR_FileSize = 56"
definition DDEM :: u8 where "DDEM = 0xE5"
definition RDDEM :: u8 where "RDDEM = 0x05"
definition MAX_MALLOC :: u32 where "MAX_MALLOC = 0x8000"

definition MAXDIRB :: "u32 \<Rightarrow> u32" where "MAXDIRB nc = (nc + 44) div 15 * 32"

text \<open>The marker of an entry without a long name.\<close>

definition no_block_ofs :: u32 where "no_block_ofs = 0xFFFFFFFF"

section \<open>Clearing a cluster\<close>

text \<open>The size of the buffer: halved until the heap has a block of it, down to one sector.\<close>

function buffer_size :: "'d disk_io \<Rightarrow> 'd \<Rightarrow> u32 \<Rightarrow> u32" where
  "buffer_size io d szb = (if 512 < szb \<and> \<not> memalloc io szb d then buffer_size io d (szb div 2) else szb)"
  by pat_completeness auto
termination
  by (relation "measure (\<lambda>(_, _, szb). unat szb)") (auto simp: word_less_nat_alt unat_div)

declare buffer_size.simps [simp del]

text \<open>The number of sectors that were cleared when the loop ends.\<close>

partial_function (option) clear_loop ::
  "'d disk_io \<Rightarrow> u8 \<Rightarrow> u8 list \<Rightarrow> u32 \<Rightarrow> u64 \<Rightarrow> u32 \<Rightarrow> u32 \<Rightarrow> 'd \<Rightarrow> (u32 \<times> 'd) option" where
  "clear_loop io p ibuf szb sect cs n d =
     (if n < cs then do {
        (r, d) \<leftarrow> dwrite io p ibuf (sect + ucast n) szb d;
        if r = RES_OK then clear_loop io p ibuf szb sect cs (n + szb) d else Some (n, d) }
      else Some (n, d))"

definition dir_clear :: "'d disk_io \<Rightarrow> u32 \<Rightarrow> fatfs \<Rightarrow> 'd \<Rightarrow> (fresult \<times> fatfs \<times> 'd) option" where
  "dir_clear io clst fs d = do {
     (res, fs, d) \<leftarrow> sync_window io fs d;
     if res \<noteq> FR_OK then Some (FR_DISK_ERR, fs, d) else do {
     let sect = clst2sect fs clst;
     w \<leftarrow> mem_set (win fs) 0 0 512;
     let fs = fs\<lparr>winsect := sect, win := w\<rparr>;
     let bytes = ucast (csize fs) * 512;
     let szb = buffer_size io d (if MAX_MALLOC \<le> bytes then MAX_MALLOC else bytes);
     (n, d) \<leftarrow> (if 512 < szb
        then clear_loop io (pdrv fs) (replicate (unat szb) 0) (szb div 512) sect (ucast (csize fs)) 0 d
        else clear_loop io (pdrv fs) (win fs) 1 sect (ucast (csize fs)) 0 d);
     Some (if n = ucast (csize fs) then FR_OK else FR_DISK_ERR, fs, d) } }"

section \<open>Entries of a table\<close>

definition max_dir :: "fatfs \<Rightarrow> u32" where
  "max_dir fs = (if fs_type fs = FS_EXFAT then MAX_DIR_EX else MAX_DIR)"

text \<open>Following the chain of a table to the cluster of an offset.\<close>

partial_function (option) sdi_loop ::
  "'d disk_io \<Rightarrow> ffobjid \<Rightarrow> u32 \<Rightarrow> u32 \<Rightarrow> u32 \<Rightarrow> fatfs \<Rightarrow> 'd \<Rightarrow> (fresult \<times> u32 \<times> u32 \<times> fatfs \<times> 'd) option" where
  "sdi_loop io obj csz clst ofs fs d =
     (if csz \<le> ofs then do {
        (clst, fs, d) \<leftarrow> get_fat io obj clst fs d;
        if clst = 0xFFFFFFFF then Some (FR_DISK_ERR, clst, ofs, fs, d)
        else if clst < 2 \<or> n_fatent fs \<le> clst then Some (FR_INT_ERR, clst, ofs, fs, d)
        else sdi_loop io obj csz clst (ofs - csz) fs d }
      else Some (FR_OK, clst, ofs, fs, d))"

text \<open>The end of \<open>dir_sdi\<close>: the sector and the place in the window.\<close>

definition sdi_finish :: "u64 \<Rightarrow> u32 \<Rightarrow> u32 \<Rightarrow> dir_object \<Rightarrow> fresult \<times> dir_object" where
  "sdi_finish sect clst ofs dp =
     (let dp = dp\<lparr>dp_sect := sect, dp_clust := clst\<rparr> in
      if sect = 0 then (FR_INT_ERR, dp)
      else (FR_OK, dp\<lparr>dp_sect := sect + ucast (ofs div 512), dp_dir := unat (ofs mod 512)\<rparr>))"

definition dir_sdi ::
  "'d disk_io \<Rightarrow> u32 \<Rightarrow> dir_object \<Rightarrow> fatfs \<Rightarrow> 'd \<Rightarrow> (fresult \<times> dir_object \<times> fatfs \<times> 'd) option" where
  "dir_sdi io ofs dp fs d =
     (if max_dir fs \<le> ofs \<or> ofs mod 32 \<noteq> 0 then Some (FR_INT_ERR, dp, fs, d)
      else
        let dp = dp\<lparr>dptr := ofs\<rparr>;
            root = sclust (dp_obj dp) = 0 \<and> FS_FAT32 \<le> fs_type fs;
            clst = (if root then ucast (dirbase fs) else sclust (dp_obj dp));
            dp = (if root then dp\<lparr>dp_obj := (dp_obj dp)\<lparr>stat := 0\<rparr>\<rparr> else dp) in
        if clst = 0 then
          if ucast (n_rootdir fs) \<le> ofs div 32 then Some (FR_INT_ERR, dp, fs, d)
          else (case sdi_finish (dirbase fs) clst ofs dp of (res, dp) \<Rightarrow> Some (res, dp, fs, d))
        else do {
          (res, clst, ofs, fs, d) \<leftarrow> sdi_loop io (dp_obj dp) (ucast (csize fs) * 512) clst ofs fs d;
          if res \<noteq> FR_OK then Some (res, dp, fs, d)
          else (case sdi_finish (clst2sect fs clst) clst ofs dp of (res, dp) \<Rightarrow> Some (res, dp, fs, d)) })"

text \<open>The cluster behind the current one, which is taken for the table when it may be stretched.\<close>

definition next_cluster ::
  "'d disk_io \<Rightarrow> bool \<Rightarrow> dir_object \<Rightarrow> fatfs \<Rightarrow> 'd \<Rightarrow> (fresult \<times> dir_object \<times> fatfs \<times> 'd) option" where
  "next_cluster io stretch dp fs d = do {
     (clst, fs, d) \<leftarrow> get_fat io (dp_obj dp) (dp_clust dp) fs d;
     if clst \<le> 1 then Some (FR_INT_ERR, dp, fs, d)
     else if clst = 0xFFFFFFFF then Some (FR_DISK_ERR, dp, fs, d)
     else if clst < n_fatent fs then Some (FR_OK, dp\<lparr>dp_clust := clst, dp_sect := clst2sect fs clst\<rparr>, fs, d)
     else if \<not> stretch then Some (FR_NO_FILE, dp\<lparr>dp_sect := 0\<rparr>, fs, d)
     else do {
       (clst, obj, fs, d) \<leftarrow> create_chain io (dp_obj dp) (dp_clust dp) fs d;
       let dp = dp\<lparr>dp_obj := obj\<rparr>;
       if clst = 0 then Some (FR_DENIED, dp, fs, d)
       else if clst = 1 then Some (FR_INT_ERR, dp, fs, d)
       else if clst = 0xFFFFFFFF then Some (FR_DISK_ERR, dp, fs, d)
       else do {
         (res, fs, d) \<leftarrow> dir_clear io clst fs d;
         if res \<noteq> FR_OK then Some (FR_DISK_ERR, dp, fs, d)
         else Some (FR_OK, dp\<lparr>dp_obj := obj\<lparr>stat := stat obj OR 4\<rparr>, dp_clust := clst, dp_sect := clst2sect fs clst\<rparr>, fs, d) } } }"

definition dir_next ::
  "'d disk_io \<Rightarrow> bool \<Rightarrow> dir_object \<Rightarrow> fatfs \<Rightarrow> 'd \<Rightarrow> (fresult \<times> dir_object \<times> fatfs \<times> 'd) option" where
  "dir_next io stretch dp fs d =
     (let ofs = dptr dp + 32; dp = (if max_dir fs \<le> ofs then dp\<lparr>dp_sect := 0\<rparr> else dp) in
      if dp_sect dp = 0 then Some (FR_NO_FILE, dp, fs, d)
      else do {
        (res, dp, fs, d) \<leftarrow>
          (if ofs mod 512 = 0 then
             let dp = dp\<lparr>dp_sect := dp_sect dp + 1\<rparr> in
             if dp_clust dp = 0 then
               Some (if ucast (n_rootdir fs) \<le> ofs div 32 then (FR_NO_FILE, dp\<lparr>dp_sect := 0\<rparr>, fs, d) else (FR_OK, dp, fs, d))
             else if ofs div 512 AND (ucast (csize fs) - 1) = 0 then next_cluster io stretch dp fs d
             else Some (FR_OK, dp, fs, d)
           else Some (FR_OK, dp, fs, d));
        Some (res, if res = FR_OK then dp\<lparr>dptr := ofs, dp_dir := unat (ofs mod 512)\<rparr> else dp, fs, d) })"

text \<open>An octet of the current entry.\<close>

definition entry_octet :: "dir_object \<Rightarrow> fatfs \<Rightarrow> nat \<Rightarrow> u8 option" where
  "entry_octet dp fs k = rd (win fs) (dp_dir dp + k)"

definition entry_free :: "dir_object \<Rightarrow> fatfs \<Rightarrow> bool option" where
  "entry_free dp fs = (if fs_type fs = FS_EXFAT
     then map_option (\<lambda>b. b AND 0x80 = 0) (entry_octet dp fs XDIR_Type)
     else map_option (\<lambda>b. b = DDEM \<or> b = 0) (entry_octet dp fs DIR_Name))"

partial_function (option) alloc_loop ::
  "'d disk_io \<Rightarrow> u32 \<Rightarrow> u32 \<Rightarrow> dir_object \<Rightarrow> fatfs \<Rightarrow> 'd \<Rightarrow> (fresult \<times> dir_object \<times> fatfs \<times> 'd) option" where
  "alloc_loop io n_ent n dp fs d = do {
     (res, fs, d) \<leftarrow> move_window io (dp_sect dp) fs d;
     if res \<noteq> FR_OK then Some (res, dp, fs, d) else do {
     free \<leftarrow> entry_free dp fs;
     let n = (if free then n + 1 else 0);
     if free \<and> n = n_ent then Some (FR_OK, dp, fs, d) else do {
     (res, dp, fs, d) \<leftarrow> dir_next io True dp fs d;
     if res \<noteq> FR_OK then Some (res, dp, fs, d) else alloc_loop io n_ent n dp fs d } } }"

definition dir_alloc ::
  "'d disk_io \<Rightarrow> u32 \<Rightarrow> dir_object \<Rightarrow> fatfs \<Rightarrow> 'd \<Rightarrow> (fresult \<times> dir_object \<times> fatfs \<times> 'd) option" where
  "dir_alloc io n_ent dp fs d = do {
     (res, dp, fs, d) \<leftarrow> dir_sdi io 0 dp fs d;
     (res, dp, fs, d) \<leftarrow> (if res = FR_OK then alloc_loop io n_ent 0 dp fs d else Some (res, dp, fs, d));
     Some (if res = FR_NO_FILE then FR_DENIED else res, dp, fs, d) }"

section \<open>The start cluster of an entry\<close>

definition ld_clust :: "fatfs \<Rightarrow> nat \<Rightarrow> u32 option" where
  "ld_clust fs dir = do {
     lo \<leftarrow> ld_word (win fs) (dir + DIR_FstClusLO);
     (if fs_type fs = FS_FAT32 then do {
        hi \<leftarrow> ld_word (win fs) (dir + DIR_FstClusHI);
        Some (ucast lo OR push_bit 16 (ucast hi)) }
      else Some (ucast lo)) }"

definition st_clust :: "nat \<Rightarrow> u32 \<Rightarrow> fatfs \<Rightarrow> fatfs option" where
  "st_clust dir cl fs = do {
     w \<leftarrow> st_word (win fs) (dir + DIR_FstClusLO) (ucast cl);
     w \<leftarrow> (if fs_type fs = FS_FAT32 then st_word w (dir + DIR_FstClusHI) (ucast (drop_bit 16 cl)) else Some w);
     Some (fs\<lparr>win := w\<rparr>) }"

section \<open>Entry blocks of exFAT\<close>

text \<open>The next entry of a block, of a given type, in the window.\<close>

definition next_in_block ::
  "'d disk_io \<Rightarrow> u8 \<Rightarrow> dir_object \<Rightarrow> fatfs \<Rightarrow> 'd \<Rightarrow> (fresult \<times> dir_object \<times> fatfs \<times> 'd) option" where
  "next_in_block io et dp fs d = do {
     (res, dp, fs, d) \<leftarrow> dir_next io False dp fs d;
     if res \<noteq> FR_OK then Some (if res = FR_NO_FILE then FR_INT_ERR else res, dp, fs, d) else do {
     (res, fs, d) \<leftarrow> move_window io (dp_sect dp) fs d;
     if res \<noteq> FR_OK then Some (res, dp, fs, d) else do {
     b \<leftarrow> entry_octet dp fs XDIR_Type;
     Some (if b \<noteq> et then FR_INT_ERR else FR_OK, dp, fs, d) } } }"

text \<open>Copying the current entry to the buffer.\<close>

definition take_entry :: "nat \<Rightarrow> dir_object \<Rightarrow> fatfs \<Rightarrow> fatfs option" where
  "take_entry i dp fs = map_option (\<lambda>b. fs\<lparr>dirbuf := b\<rparr>) (mem_cpy (dirbuf fs) i (win fs) (dp_dir dp) 32)"

partial_function (option) name_entries ::
  "'d disk_io \<Rightarrow> u32 \<Rightarrow> u32 \<Rightarrow> dir_object \<Rightarrow> fatfs \<Rightarrow> 'd \<Rightarrow> (fresult \<times> u32 \<times> dir_object \<times> fatfs \<times> 'd) option" where
  "name_entries io sz_ent i dp fs d = do {
     (res, dp, fs, d) \<leftarrow> next_in_block io ET_FILENAME dp fs d;
     if res \<noteq> FR_OK then Some (res, i, dp, fs, d) else do {
     fs \<leftarrow> (if i < MAXDIRB 255 then take_entry (unat i) dp fs else Some fs);
     if i + 32 < sz_ent then name_entries io sz_ent (i + 32) dp fs d else Some (FR_OK, i + 32, dp, fs, d) } }"

definition block_sum_ok :: "fatfs \<Rightarrow> bool option" where
  "block_sum_ok fs = do {
     s \<leftarrow> xdir_sum (dirbuf fs);
     stored \<leftarrow> ld_word (dirbuf fs) XDIR_SetSum;
     Some (s = stored) }"

definition load_xdir ::
  "'d disk_io \<Rightarrow> dir_object \<Rightarrow> fatfs \<Rightarrow> 'd \<Rightarrow> (fresult \<times> dir_object \<times> fatfs \<times> 'd) option" where
  "load_xdir io dp fs d = do {
     (res, fs, d) \<leftarrow> move_window io (dp_sect dp) fs d;
     if res \<noteq> FR_OK then Some (res, dp, fs, d) else do {
     b \<leftarrow> entry_octet dp fs XDIR_Type;
     if b \<noteq> ET_FILEDIR then Some (FR_INT_ERR, dp, fs, d) else do {
     fs \<leftarrow> take_entry 0 dp fs;
     ns \<leftarrow> rd (dirbuf fs) XDIR_NumSec;
     let sz_ent = (ucast ns + 1) * 32;
     if sz_ent < 3 * 32 \<or> 19 * 32 < sz_ent then Some (FR_INT_ERR, dp, fs, d) else do {
     (res, dp, fs, d) \<leftarrow> next_in_block io ET_STREAM dp fs d;
     if res \<noteq> FR_OK then Some (res, dp, fs, d) else do {
     fs \<leftarrow> take_entry 32 dp fs;
     nn \<leftarrow> rd (dirbuf fs) XDIR_NumName;
     if sz_ent < MAXDIRB (ucast nn) then Some (FR_INT_ERR, dp, fs, d) else do {
     (res, i, dp, fs, d) \<leftarrow> name_entries io sz_ent 64 dp fs d;
     if res \<noteq> FR_OK then Some (res, dp, fs, d) else do {
     ok \<leftarrow> (if i \<le> MAXDIRB 255 then block_sum_ok fs else Some True);
     Some (if ok then FR_OK else FR_INT_ERR, dp, fs, d) } } } } } } }"

definition init_alloc_info :: "fatfs \<Rightarrow> ffobjid \<Rightarrow> ffobjid option" where
  "init_alloc_info fs obj = do {
     cl \<leftarrow> ld_dword (dirbuf fs) XDIR_FstClus;
     sz \<leftarrow> ld_qword (dirbuf fs) XDIR_FileSize;
     flags \<leftarrow> rd (dirbuf fs) XDIR_GenFlags;
     Some (obj\<lparr>sclust := cl, objsize := sz, stat := flags AND 2, n_frag := 0\<rparr>) }"

text \<open>The directory object is a local variable of the caller, not initialised: what it holds is an argument.\<close>

definition load_obj_xdir ::
  "'d disk_io \<Rightarrow> ffobjid \<Rightarrow> dir_object \<Rightarrow> fatfs \<Rightarrow> 'd \<Rightarrow> (fresult \<times> dir_object \<times> fatfs \<times> 'd) option" where
  "load_obj_xdir io obj dp fs d = do {
     let dp = dp\<lparr>dp_obj := (dp_obj dp)\<lparr>obj_fs := obj_fs obj, sclust := c_scl obj, stat := ucast (c_size obj),
                  objsize := ucast (c_size obj AND 0xFFFFFF00), n_frag := 0\<rparr>, blk_ofs := c_ofs obj\<rparr>;
     (res, dp, fs, d) \<leftarrow> dir_sdi io (blk_ofs dp) dp fs d;
     if res = FR_OK then load_xdir io dp fs d else Some (res, dp, fs, d) }"

text \<open>Storing the block, from its octet \<open>i\<close> on, with \<open>nent\<close> entries left.\<close>

partial_function (option) store_entries ::
  "'d disk_io \<Rightarrow> nat \<Rightarrow> u32 \<Rightarrow> dir_object \<Rightarrow> fatfs \<Rightarrow> 'd \<Rightarrow> (fresult \<times> dir_object \<times> fatfs \<times> 'd) option" where
  "store_entries io i nent dp fs d = do {
     (res, fs, d) \<leftarrow> move_window io (dp_sect dp) fs d;
     if res \<noteq> FR_OK then Some (res, dp, fs, d) else do {
     w \<leftarrow> mem_cpy (win fs) (dp_dir dp) (dirbuf fs) i 32;
     let fs = fs\<lparr>win := w, wflag := 1\<rparr>;
     if nent - 1 = 0 then Some (FR_OK, dp, fs, d) else do {
     (res, dp, fs, d) \<leftarrow> dir_next io False dp fs d;
     if res = FR_OK then store_entries io (i + 32) (nent - 1) dp fs d else Some (res, dp, fs, d) } } }"

definition store_xdir ::
  "'d disk_io \<Rightarrow> dir_object \<Rightarrow> fatfs \<Rightarrow> 'd \<Rightarrow> (fresult \<times> dir_object \<times> fatfs \<times> 'd) option" where
  "store_xdir io dp fs d = do {
     s \<leftarrow> xdir_sum (dirbuf fs);
     b \<leftarrow> st_word (dirbuf fs) XDIR_SetSum s;
     let fs = fs\<lparr>dirbuf := b\<rparr>;
     ns \<leftarrow> rd (dirbuf fs) XDIR_NumSec;
     (res, dp, fs, d) \<leftarrow> dir_sdi io (blk_ofs dp) dp fs d;
     (res, dp, fs, d) \<leftarrow> (if res = FR_OK then store_entries io 0 (ucast ns + 1) dp fs d else Some (res, dp, fs, d));
     Some (if res = FR_OK \<or> res = FR_DISK_ERR then res else FR_INT_ERR, dp, fs, d) }"

text \<open>The characters of one entry, up to its end, padded with zeros.\<close>

fun fill_name_field ::
  "u16 list \<Rightarrow> nat \<Rightarrow> nat \<Rightarrow> u8 \<Rightarrow> u16 \<Rightarrow> u8 list \<Rightarrow> (nat \<times> u8 \<times> u16 \<times> u8 list) option" where
  "fill_name_field lfn 0 i nlen wc dirb = Some (i, nlen, wc, dirb)"
| "fill_name_field lfn (Suc k) i nlen wc dirb = do {
     (wc, nlen) \<leftarrow> (if wc \<noteq> 0 then do { c \<leftarrow> rd lfn (unat nlen); Some (c, if c \<noteq> 0 then nlen + 1 else nlen) }
                  else Some (wc, nlen));
     dirb \<leftarrow> st_word dirb i wc;
     fill_name_field lfn k (i + 2) nlen wc dirb }"

partial_function (option) fill_names ::
  "u16 list \<Rightarrow> nat \<Rightarrow> u8 \<Rightarrow> u8 \<Rightarrow> u16 \<Rightarrow> u8 list \<Rightarrow> (u8 \<times> u8 \<times> u8 list) option" where
  "fill_names lfn i nlen nc1 wc dirb = do {
     dirb \<leftarrow> wr dirb i ET_FILENAME;
     dirb \<leftarrow> wr dirb (i + 1) 0;
     (i, nlen, wc, dirb) \<leftarrow> fill_name_field lfn 15 (i + 2) nlen wc dirb;
     let nc1 = nc1 + 1;
     c \<leftarrow> rd lfn (unat nlen);
     if c \<noteq> 0 then fill_names lfn i nlen nc1 wc dirb else Some (nlen, nc1, dirb) }"

definition create_xdir :: "u8 list \<Rightarrow> u16 list \<Rightarrow> u8 list option" where
  "create_xdir dirb lfn = do {
     dirb \<leftarrow> mem_set dirb 0 0 64;
     dirb \<leftarrow> wr dirb XDIR_Type ET_FILEDIR;
     dirb \<leftarrow> wr dirb (32 + XDIR_Type) ET_STREAM;
     (nlen, nc1, dirb) \<leftarrow> fill_names lfn 64 0 0 1 dirb;
     dirb \<leftarrow> wr dirb XDIR_NumName nlen;
     dirb \<leftarrow> wr dirb XDIR_NumSec (1 + nc1);
     h \<leftarrow> xname_sum lfn;
     st_word dirb XDIR_NameHash h }"

end
