(* ===== verification/Ff_Entries.thy ===== *)
theory Ff_Entries
  imports Ff_Dir
begin

text \<open>
  The operations on the objects of a directory, from \<open>ff.c\<close>: reading the next one, finding one by
  its name, registering a new one and removing one. A long name is held by the entries in front of the
  short one, in reverse order, each with its number and the checksum of the short name.
\<close>

section \<open>Reading the next object\<close>

text \<open>
  The state of a long name while the entries go by: the number of the part that is due, and the
  checksum the parts carry.
\<close>

definition set_attr :: "u8 \<Rightarrow> dir_object \<Rightarrow> dir_object" where
  "set_attr a dp = dp\<lparr>dp_obj := (dp_obj dp)\<lparr>obj_attr := a\<rparr>\<rparr>"

text \<open>An entry that starts a long name sets the number and the checksum.\<close>

definition lfn_start ::
  "u8 \<Rightarrow> u8 \<Rightarrow> u8 \<Rightarrow> dir_object \<Rightarrow> fatfs \<Rightarrow> (u8 \<times> u8 \<times> u8 \<times> dir_object) option" where
  "lfn_start b ord sm dp fs =
     (if b AND LLEF \<noteq> 0 then do {
        s \<leftarrow> entry_octet dp fs LDIR_Chksum;
        let b = b AND NOT LLEF;
        Some (b, b, s, dp\<lparr>blk_ofs := dptr dp\<rparr>) }
      else Some (b, ord, sm, dp))"

text \<open>The part is taken when its number and checksum are those that are due.\<close>

definition lfn_due :: "u8 \<Rightarrow> u8 \<Rightarrow> u8 \<Rightarrow> dir_object \<Rightarrow> fatfs \<Rightarrow> bool option" where
  "lfn_due b ord sm dp fs =
     (if b = ord then map_option (\<lambda>s. sm = s) (entry_octet dp fs LDIR_Chksum) else Some False)"

definition sfn_matches_sum :: "u8 \<Rightarrow> u8 \<Rightarrow> dir_object \<Rightarrow> fatfs \<Rightarrow> bool option" where
  "sfn_matches_sum ord sm dp fs =
     (if ord = 0 then map_option (\<lambda>s. sm = s) (sum_sfn (win fs) (dp_dir dp)) else Some False)"

text \<open>One entry of a FAT directory; the first component of the result says that an object is found.\<close>

definition read_entry ::
  "bool \<Rightarrow> u8 \<Rightarrow> u8 \<Rightarrow> u8 \<Rightarrow> dir_object \<Rightarrow> fatfs \<Rightarrow> (bool \<times> u8 \<times> u8 \<times> dir_object \<times> fatfs) option" where
  "read_entry vol b ord sm dp fs = do {
     a \<leftarrow> entry_octet dp fs DIR_Attr;
     let attr = a AND AM_MASK;
     let dp = set_attr attr dp;
     if b = DDEM \<or> b = 0x2E \<or> (attr AND NOT AM_ARC = AM_VOL) \<noteq> vol then Some (False, 0xFF, sm, dp, fs)
     else if attr = AM_LFN then do {
       (b, ord, sm, dp) \<leftarrow> lfn_start b ord sm dp fs;
       due \<leftarrow> lfn_due b ord sm dp fs;
       (ok, lfn) \<leftarrow> (if due then pick_lfn (lfnbuf fs) (win fs) (dp_dir dp) else Some (False, lfnbuf fs));
       Some (False, if ok then ord - 1 else 0xFF, sm, dp, fs\<lparr>lfnbuf := lfn\<rparr>) }
     else do {
       long \<leftarrow> sfn_matches_sum ord sm dp fs;
       Some (True, ord, sm, if long then dp else dp\<lparr>blk_ofs := no_block_ofs\<rparr>, fs) } }"

partial_function (option) read_items ::
  "'d disk_io \<Rightarrow> bool \<Rightarrow> u8 \<Rightarrow> u8 \<Rightarrow> fresult \<Rightarrow> dir_object \<Rightarrow> fatfs \<Rightarrow> 'd \<Rightarrow> (fresult \<times> dir_object \<times> fatfs \<times> 'd) option" where
  "read_items io vol ord sm res dp fs d =
     (if dp_sect dp = 0 then Some (res, dp, fs, d) else do {
     (res, fs, d) \<leftarrow> move_window io (dp_sect dp) fs d;
     if res \<noteq> FR_OK then Some (res, dp, fs, d) else do {
     b \<leftarrow> entry_octet dp fs DIR_Name;
     if b = 0 then Some (FR_NO_FILE, dp, fs, d)
     else if fs_type fs = FS_EXFAT \<and> b = ET_FILEDIR then do {
       (res, dp, fs, d) \<leftarrow> load_xdir io (dp\<lparr>blk_ofs := dptr dp\<rparr>) fs d;
       if res = FR_OK then do { a \<leftarrow> rd (dirbuf fs) XDIR_Attr; Some (FR_OK, set_attr (a AND AM_MASK) dp, fs, d) }
       else Some (res, dp, fs, d) }
     else do {
       (found, ord, sm, dp, fs) \<leftarrow> (if fs_type fs = FS_EXFAT then Some (False, ord, sm, dp, fs) else read_entry vol b ord sm dp fs);
       if found then Some (FR_OK, dp, fs, d) else do {
       (res, dp, fs, d) \<leftarrow> dir_next io False dp fs d;
       if res \<noteq> FR_OK then Some (res, dp, fs, d) else read_items io vol ord sm res dp fs d } } } })"

definition dir_read ::
  "'d disk_io \<Rightarrow> bool \<Rightarrow> dir_object \<Rightarrow> fatfs \<Rightarrow> 'd \<Rightarrow> (fresult \<times> dir_object \<times> fatfs \<times> 'd) option" where
  "dir_read io vol dp fs d = do {
     (res, dp, fs, d) \<leftarrow> read_items io vol 0xFF 0xFF FR_NO_FILE dp fs d;
     Some (res, if res \<noteq> FR_OK then dp\<lparr>dp_sect := 0\<rparr> else dp, fs, d) }"

section \<open>Finding an object by its name\<close>

text \<open>Comparing the name of a block with the one in the buffer, \<open>nc\<close> characters from \<open>di\<close> on.\<close>

fun same_block_name :: "u8 list \<Rightarrow> u16 list \<Rightarrow> nat \<Rightarrow> nat \<Rightarrow> nat \<Rightarrow> bool option" where
  "same_block_name dirb lfn 0 di ni = map_option (\<lambda>c. c = 0) (rd lfn ni)"
| "same_block_name dirb lfn (Suc nc) di ni = do {
     let di = (if di mod 32 = 0 then di + 2 else di);
     a \<leftarrow> ld_word dirb di;
     a \<leftarrow> ff_wtoupper (ucast a);
     b \<leftarrow> rd lfn ni;
     b \<leftarrow> ff_wtoupper (ucast b);
     if a \<noteq> b then Some False else same_block_name dirb lfn nc (di + 2) (ni + 1) }"

partial_function (option) find_block ::
  "'d disk_io \<Rightarrow> u16 \<Rightarrow> dir_object \<Rightarrow> fatfs \<Rightarrow> 'd \<Rightarrow> (fresult \<times> dir_object \<times> fatfs \<times> 'd) option" where
  "find_block io hash dp fs d = do {
     (res, dp, fs, d) \<leftarrow> dir_read io False dp fs d;
     if res \<noteq> FR_OK then Some (res, dp, fs, d) else do {
     h \<leftarrow> ld_word (dirbuf fs) XDIR_NameHash;
     same \<leftarrow> (if h \<noteq> hash then Some False else do {
        nc \<leftarrow> rd (dirbuf fs) XDIR_NumName;
        same_block_name (dirbuf fs) (lfnbuf fs) (unat nc) 64 0 });
     if same then Some (FR_OK, dp, fs, d) else find_block io hash dp fs d } }"

text \<open>One entry of a FAT directory, compared with the name in the buffer and the short name.\<close>

definition find_entry ::
  "u8 \<Rightarrow> u8 \<Rightarrow> u8 \<Rightarrow> dir_object \<Rightarrow> fatfs \<Rightarrow> (bool \<times> u8 \<times> u8 \<times> dir_object) option" where
  "find_entry c ord sm dp fs = do {
     a \<leftarrow> entry_octet dp fs DIR_Attr;
     let a = a AND AM_MASK;
     let dp = set_attr a dp;
     flags \<leftarrow> rd (fn dp) NSFLAG;
     if c = DDEM \<or> (a AND AM_VOL \<noteq> 0 \<and> a \<noteq> AM_LFN) then Some (False, 0xFF, sm, dp\<lparr>blk_ofs := no_block_ofs\<rparr>)
     else if a = AM_LFN then
       if flags AND NS_NOLFN \<noteq> 0 then Some (False, ord, sm, dp)
       else do {
         (c, ord, sm, dp) \<leftarrow> lfn_start c ord sm dp fs;
         due \<leftarrow> lfn_due c ord sm dp fs;
         ok \<leftarrow> (if due then cmp_lfn (lfnbuf fs) (win fs) (dp_dir dp) else Some False);
         Some (False, if ok then ord - 1 else 0xFF, sm, dp) }
     else do {
       long \<leftarrow> sfn_matches_sum ord sm dp fs;
       short \<leftarrow> (if \<not> long \<and> flags AND NS_LOSS = 0 then map_option (\<lambda>r. r = 0) (mem_cmp (win fs) (dp_dir dp) (fn dp) 0 11)
                else Some False);
       if long \<or> short then Some (True, ord, sm, dp)
       else Some (False, 0xFF, sm, dp\<lparr>blk_ofs := no_block_ofs\<rparr>) } }"

partial_function (option) find_items ::
  "'d disk_io \<Rightarrow> u8 \<Rightarrow> u8 \<Rightarrow> dir_object \<Rightarrow> fatfs \<Rightarrow> 'd \<Rightarrow> (fresult \<times> dir_object \<times> fatfs \<times> 'd) option" where
  "find_items io ord sm dp fs d = do {
     (res, fs, d) \<leftarrow> move_window io (dp_sect dp) fs d;
     if res \<noteq> FR_OK then Some (res, dp, fs, d) else do {
     c \<leftarrow> entry_octet dp fs DIR_Name;
     if c = 0 then Some (FR_NO_FILE, dp, fs, d) else do {
     (found, ord, sm, dp) \<leftarrow> find_entry c ord sm dp fs;
     if found then Some (FR_OK, dp, fs, d) else do {
     (res, dp, fs, d) \<leftarrow> dir_next io False dp fs d;
     if res = FR_OK then find_items io ord sm dp fs d else Some (res, dp, fs, d) } } } }"

definition dir_find ::
  "'d disk_io \<Rightarrow> dir_object \<Rightarrow> fatfs \<Rightarrow> 'd \<Rightarrow> (fresult \<times> dir_object \<times> fatfs \<times> 'd) option" where
  "dir_find io dp fs d = do {
     (res, dp, fs, d) \<leftarrow> dir_sdi io 0 dp fs d;
     if res \<noteq> FR_OK then Some (res, dp, fs, d)
     else if fs_type fs = FS_EXFAT then do {
       hash \<leftarrow> xname_sum (lfnbuf fs);
       find_block io hash dp fs d }
     else find_items io 0xFF 0xFF (dp\<lparr>blk_ofs := no_block_ofs\<rparr>) fs d }"

section \<open>Registering an object\<close>

fun lfn_length :: "u16 list \<Rightarrow> u32 option" where
  "lfn_length [] = None"
| "lfn_length (c # s) = (if c \<noteq> 0 then map_option (\<lambda>n. n + 1) (lfn_length s) else Some 0)"

text \<open>A directory that was stretched is filled in on the table, and its own block updated.\<close>

definition stretched_dir ::
  "'d disk_io \<Rightarrow> dir_object \<Rightarrow> dir_object \<Rightarrow> fatfs \<Rightarrow> 'd \<Rightarrow> (fresult \<times> dir_object \<times> fatfs \<times> 'd) option" where
  "stretched_dir io dj dp fs d = do {
     (res, obj, fs, d) \<leftarrow> fill_first_frag io ((dp_obj dp)\<lparr>stat := stat (dp_obj dp) AND NOT 4\<rparr>) fs d;
     let dp = dp\<lparr>dp_obj := obj\<rparr>;
     if res \<noteq> FR_OK then Some (res, dp, fs, d) else do {
     (res, obj, fs, d) \<leftarrow> fill_last_frag io (dp_obj dp) (dp_clust dp) 0xFFFFFFFF fs d;
     let dp = dp\<lparr>dp_obj := obj\<rparr>;
     if res \<noteq> FR_OK \<or> sclust obj = 0 then Some (res, dp, fs, d) else do {
     (res, dj, fs, d) \<leftarrow> load_obj_xdir io obj dj fs d;
     if res \<noteq> FR_OK then Some (res, dp, fs, d) else do {
     let obj = obj\<lparr>objsize := objsize obj + ucast (ucast (csize fs) * 512 :: u32)\<rparr>;
     let dp = dp\<lparr>dp_obj := obj\<rparr>;
     b \<leftarrow> st_qword (dirbuf fs) XDIR_FileSize (objsize obj);
     b \<leftarrow> st_qword b XDIR_ValidFileSize (objsize obj);
     b \<leftarrow> wr b XDIR_GenFlags (stat obj OR 1);
     (res, dj, fs, d) \<leftarrow> store_xdir io dj (fs\<lparr>dirbuf := b\<rparr>) d;
     Some (res, dp, fs, d) } } } }"

definition register_block ::
  "'d disk_io \<Rightarrow> dir_object \<Rightarrow> u32 \<Rightarrow> dir_object \<Rightarrow> fatfs \<Rightarrow> 'd \<Rightarrow> (fresult \<times> dir_object \<times> fatfs \<times> 'd) option" where
  "register_block io dj len dp fs d = do {
     let n_ent = (len + 14) div 15 + 2;
     (res, dp, fs, d) \<leftarrow> dir_alloc io n_ent dp fs d;
     if res \<noteq> FR_OK then Some (res, dp, fs, d) else do {
     let dp = dp\<lparr>blk_ofs := dptr dp - 32 * (n_ent - 1)\<rparr>;
     (res, dp, fs, d) \<leftarrow> (if stat (dp_obj dp) AND 4 \<noteq> 0 then stretched_dir io dj dp fs d else Some (FR_OK, dp, fs, d));
     if res \<noteq> FR_OK then Some (res, dp, fs, d) else do {
     b \<leftarrow> create_xdir (dirbuf fs) (lfnbuf fs);
     Some (FR_OK, dp, fs\<lparr>dirbuf := b\<rparr>, d) } } }"

text \<open>Trying numbered names from \<open>n\<close> on; no result when all numbers are taken.\<close>

function number_names ::
  "'d disk_io \<Rightarrow> u8 list \<Rightarrow> nat \<Rightarrow> dir_object \<Rightarrow> fatfs \<Rightarrow> 'd \<Rightarrow> (fresult option \<times> dir_object \<times> fatfs \<times> 'd) option" where
  "number_names io sn n dp fs d =
     (if n < 100 then do {
        name \<leftarrow> gen_numname (fn dp) sn (lfnbuf fs) (of_nat n);
        (res, dp, fs, d) \<leftarrow> dir_find io (dp\<lparr>fn := name\<rparr>) fs d;
        if res \<noteq> FR_OK then Some (Some res, dp, fs, d) else number_names io sn (n + 1) dp fs d }
      else Some (None, dp, fs, d))"
  by pat_completeness auto
termination
  by (relation "measure (\<lambda>(_, _, n, _). 100 - n)") auto

declare number_names.simps [simp del]

definition unique_sfn ::
  "'d disk_io \<Rightarrow> u8 list \<Rightarrow> dir_object \<Rightarrow> fatfs \<Rightarrow> 'd \<Rightarrow> (fresult \<times> dir_object \<times> fatfs \<times> 'd) option" where
  "unique_sfn io sn dp fs d = do {
     flags \<leftarrow> rd sn NSFLAG;
     if flags AND NS_LOSS = 0 then Some (FR_OK, dp, fs, d) else do {
     name \<leftarrow> wr (fn dp) NSFLAG NS_NOLFN;
     (res, dp, fs, d) \<leftarrow> number_names io sn 1 (dp\<lparr>fn := name\<rparr>) fs d;
     (case res of
        None \<Rightarrow> Some (FR_DENIED, dp, fs, d)
      | Some res \<Rightarrow> if res \<noteq> FR_NO_FILE then Some (res, dp, fs, d) else do {
          name \<leftarrow> wr (fn dp) NSFLAG flags;
          Some (FR_OK, dp\<lparr>fn := name\<rparr>, fs, d) }) } }"

text \<open>The parts of the long name, the last one first.\<close>

partial_function (option) put_parts ::
  "'d disk_io \<Rightarrow> u8 \<Rightarrow> u32 \<Rightarrow> dir_object \<Rightarrow> fatfs \<Rightarrow> 'd \<Rightarrow> (fresult \<times> dir_object \<times> fatfs \<times> 'd) option" where
  "put_parts io sm n_ent dp fs d = do {
     (res, fs, d) \<leftarrow> move_window io (dp_sect dp) fs d;
     if res \<noteq> FR_OK then Some (res, dp, fs, d) else do {
     w \<leftarrow> put_lfn (lfnbuf fs) (win fs) (dp_dir dp) (ucast n_ent) sm;
     (res, dp, fs, d) \<leftarrow> dir_next io False dp (fs\<lparr>win := w, wflag := 1\<rparr>) d;
     if res = FR_OK \<and> n_ent - 1 \<noteq> 0 then put_parts io sm (n_ent - 1) dp fs d else Some (res, dp, fs, d) } }"

definition put_sfn :: "dir_object \<Rightarrow> fatfs \<Rightarrow> fatfs option" where
  "put_sfn dp fs = do {
     w \<leftarrow> mem_set (win fs) (dp_dir dp) 0 32;
     w \<leftarrow> mem_cpy w (dp_dir dp + DIR_Name) (fn dp) 0 11;
     flags \<leftarrow> rd (fn dp) NSFLAG;
     w \<leftarrow> wr w (dp_dir dp + DIR_NTres) (flags AND (NS_BODY OR NS_EXT));
     Some (fs\<lparr>win := w, wflag := 1\<rparr>) }"

definition register_entry ::
  "'d disk_io \<Rightarrow> u32 \<Rightarrow> dir_object \<Rightarrow> fatfs \<Rightarrow> 'd \<Rightarrow> (fresult \<times> dir_object \<times> fatfs \<times> 'd) option" where
  "register_entry io len dp fs d = do {
     sn \<leftarrow> mem_cpy (replicate 12 0) 0 (fn dp) 0 12;
     (res, dp, fs, d) \<leftarrow> unique_sfn io sn dp fs d;
     if res \<noteq> FR_OK then Some (res, dp, fs, d) else do {
     flags \<leftarrow> rd sn NSFLAG;
     let n_ent = (if flags AND NS_LFN \<noteq> 0 then (len + 12) div 13 + 1 else 1);
     (res, dp, fs, d) \<leftarrow> dir_alloc io n_ent dp fs d;
     (res, dp, fs, d) \<leftarrow> (if res = FR_OK \<and> n_ent - 1 \<noteq> 0 then do {
        (res, dp, fs, d) \<leftarrow> dir_sdi io (dptr dp - (n_ent - 1) * 32) dp fs d;
        if res = FR_OK then do { sm \<leftarrow> sum_sfn (fn dp) 0; put_parts io sm (n_ent - 1) dp fs d }
        else Some (res, dp, fs, d) }
      else Some (res, dp, fs, d));
     if res \<noteq> FR_OK then Some (res, dp, fs, d) else do {
     (res, fs, d) \<leftarrow> move_window io (dp_sect dp) fs d;
     if res \<noteq> FR_OK then Some (res, dp, fs, d) else do {
     fs \<leftarrow> put_sfn dp fs;
     Some (FR_OK, dp, fs, d) } } } }"

definition dir_register ::
  "'d disk_io \<Rightarrow> dir_object \<Rightarrow> dir_object \<Rightarrow> fatfs \<Rightarrow> 'd \<Rightarrow> (fresult \<times> dir_object \<times> fatfs \<times> 'd) option" where
  "dir_register io dj dp fs d = do {
     flags \<leftarrow> rd (fn dp) NSFLAG;
     if flags AND (NS_DOT OR NS_NONAME) \<noteq> 0 then Some (FR_INVALID_NAME, dp, fs, d) else do {
     len \<leftarrow> lfn_length (lfnbuf fs);
     if fs_type fs = FS_EXFAT then register_block io dj len dp fs d
     else register_entry io len dp fs d } }"

section \<open>Removing an object\<close>

partial_function (option) remove_entries ::
  "'d disk_io \<Rightarrow> u32 \<Rightarrow> dir_object \<Rightarrow> fatfs \<Rightarrow> 'd \<Rightarrow> (fresult \<times> dir_object \<times> fatfs \<times> 'd) option" where
  "remove_entries io lst dp fs d = do {
     (res, fs, d) \<leftarrow> move_window io (dp_sect dp) fs d;
     if res \<noteq> FR_OK then Some (res, dp, fs, d) else do {
     b \<leftarrow> entry_octet dp fs 0;
     w \<leftarrow> wr (win fs) (dp_dir dp) (if fs_type fs = FS_EXFAT then b AND 0x7F else DDEM);
     let fs = fs\<lparr>win := w, wflag := 1\<rparr>;
     if lst \<le> dptr dp then Some (FR_OK, dp, fs, d) else do {
     (res, dp, fs, d) \<leftarrow> dir_next io False dp fs d;
     if res = FR_OK then remove_entries io lst dp fs d else Some (res, dp, fs, d) } } }"

definition dir_remove ::
  "'d disk_io \<Rightarrow> dir_object \<Rightarrow> fatfs \<Rightarrow> 'd \<Rightarrow> (fresult \<times> dir_object \<times> fatfs \<times> 'd) option" where
  "dir_remove io dp fs d = do {
     let lst = dptr dp;
     (res, dp, fs, d) \<leftarrow> (if blk_ofs dp = no_block_ofs then Some (FR_OK, dp, fs, d) else dir_sdi io (blk_ofs dp) dp fs d);
     if res \<noteq> FR_OK then Some (res, dp, fs, d) else do {
     (res, dp, fs, d) \<leftarrow> remove_entries io lst dp fs d;
     Some (if res = FR_NO_FILE then FR_INT_ERR else res, dp, fs, d) } }"

end
