(* ===== verification/Ff_Path.thy ===== *)
theory Ff_Path
  imports Ff_Entries Ff_Unicode
begin

text \<open>
  Paths and names, from \<open>ff.c\<close>: the segments of a path in the form of a directory, following a path,
  the information on an object, and the matching of names with patterns. A path is a
  zero-terminated list of octets in UTF-8, and its rest stands for a pointer into it.
\<close>

section \<open>Characters of a path\<close>

text \<open>Upper case of the upper half of the code page.\<close>

definition ExCvt :: "u8 list" where
  "ExCvt =
    [0x80, 0x9A, 0x45, 0x41, 0x8E, 0x41, 0x8F, 0x80, 0x45, 0x45, 0x45, 0x49, 0x49, 0x49, 0x8E, 0x8F,
     0x90, 0x92, 0x92, 0x4F, 0x99, 0x4F, 0x55, 0x55, 0x59, 0x99, 0x9A, 0x9B, 0x9C, 0x9D, 0x9E, 0x9F,
     0x41, 0x49, 0x4F, 0x55, 0xA5, 0xA5, 0xA6, 0xA7, 0xA8, 0xA9, 0xAA, 0xAB, 0xAC, 0xAD, 0xAE, 0xAF,
     0xB0, 0xB1, 0xB2, 0xB3, 0xB4, 0xB5, 0xB6, 0xB7, 0xB8, 0xB9, 0xBA, 0xBB, 0xBC, 0xBD, 0xBE, 0xBF,
     0xC0, 0xC1, 0xC2, 0xC3, 0xC4, 0xC5, 0xC6, 0xC7, 0xC8, 0xC9, 0xCA, 0xCB, 0xCC, 0xCD, 0xCE, 0xCF,
     0xD0, 0xD1, 0xD2, 0xD3, 0xD4, 0xD5, 0xD6, 0xD7, 0xD8, 0xD9, 0xDA, 0xDB, 0xDC, 0xDD, 0xDE, 0xDF,
     0xE0, 0xE1, 0xE2, 0xE3, 0xE4, 0xE5, 0xE6, 0xE7, 0xE8, 0xE9, 0xEA, 0xEB, 0xEC, 0xED, 0xEE, 0xEF,
     0xF0, 0xF1, 0xF2, 0xF3, 0xF4, 0xF5, 0xF6, 0xF7, 0xF8, 0xF9, 0xFA, 0xFB, 0xFC, 0xFD, 0xFE, 0xFF]"

definition is_separator :: "u8 \<Rightarrow> bool" where "is_separator c = (c = 0x2F \<or> c = 0x5C)"
definition IsUpper :: "u16 \<Rightarrow> bool" where "IsUpper c = (0x41 \<le> c \<and> c \<le> 0x5A)"
definition IsLower :: "u16 \<Rightarrow> bool" where "IsLower c = (0x61 \<le> c \<and> c \<le> 0x7A)"

text \<open>What a long name may not hold, and what a short name may not hold as well.\<close>

definition lfn_illegal :: "u8 list" where "lfn_illegal = [0x22, 0x2A, 0x3A, 0x3C, 0x3E, 0x3F, 0x7C, 0x7F, 0]"
definition sfn_illegal :: "u8 list" where "sfn_illegal = [0x2B, 0x2C, 0x3B, 0x3D, 0x5B, 0x5D, 0]"

fun skip_separators :: "u8 list \<Rightarrow> u8 list option" where
  "skip_separators [] = None"
| "skip_separators (c # p) = (if is_separator c then skip_separators p else Some (c # p))"

section \<open>A segment of a path\<close>

text \<open>The characters of a segment in the buffer for long names; no result for a name that is refused.\<close>

partial_function (option) name_chars ::
  "u8 list \<Rightarrow> u16 list \<Rightarrow> nat \<Rightarrow> ((u16 \<times> u8 list \<times> nat) option \<times> u16 list) option" where
  "name_chars p lfn di = do {
     (uc, p) \<leftarrow> tchar2uni p;
     if uc = decode_error then Some (None, lfn) else do {
     (lfn, di) \<leftarrow> (if 0x10000 \<le> uc then do { l \<leftarrow> wr lfn di (ucast (drop_bit 16 uc)); Some (l, di + 1) } else Some (lfn, di));
     let wc = (ucast uc :: u16);
     if wc < 0x20 \<or> wc = 0x2F \<or> wc = 0x5C then Some (Some (wc, p, di), lfn) else do {
     bad \<leftarrow> (if wc < 0x80 then chk_chr lfn_illegal (uint wc) else Some 0);
     if bad \<noteq> 0 \<or> FF_MAX_LFN \<le> di then Some (None, lfn) else do {
     lfn \<leftarrow> wr lfn di wc;
     name_chars p lfn (di + 1) } } } }"

text \<open>The length without the spaces and dots at the end, and the place behind the last dot.\<close>

fun snip_end :: "u16 list \<Rightarrow> nat \<Rightarrow> nat option" where
  "snip_end lfn 0 = Some 0"
| "snip_end lfn (Suc k) = do { wc \<leftarrow> rd lfn k; if wc \<noteq> 0x20 \<and> wc \<noteq> 0x2E then Some (Suc k) else snip_end lfn k }"

fun last_dot :: "u16 list \<Rightarrow> nat \<Rightarrow> nat option" where
  "last_dot lfn 0 = Some 0"
| "last_dot lfn (Suc k) = do { wc \<leftarrow> rd lfn k; if wc \<noteq> 0x2E then last_dot lfn k else Some (Suc k) }"

fun leading_spaces :: "u16 list \<Rightarrow> nat option" where
  "leading_spaces [] = None"
| "leading_spaces (c # s) = (if c = 0x20 then map_option Suc (leading_spaces s) else Some 0)"

text \<open>The character of the code page for one of a long name, in upper case beyond ASCII.\<close>

definition sfn_char :: "u16 \<Rightarrow> u16 option" where
  "sfn_char wc = do {
     wc \<leftarrow> ff_uni2oem (ucast wc) FF_CODE_PAGE;
     if wc AND 0x80 \<noteq> 0 then map_option ucast (rd ExCvt (unat (wc AND 0x7F))) else Some wc }"

text \<open>
  The short name from the characters of the long one: the next character is \<open>si\<close>, the extension starts
  at \<open>di\<close>, the field being filled ends at \<open>ni\<close> and has the place \<open>i\<close>; \<open>b\<close> notes the capitals and \<open>cf\<close> is
  the status of the name.
\<close>

partial_function (option) sfn_chars ::
  "u16 list \<Rightarrow> nat \<Rightarrow> nat \<Rightarrow> nat \<Rightarrow> nat \<Rightarrow> u8 \<Rightarrow> u8 \<Rightarrow> u8 list \<Rightarrow> (nat \<times> u8 \<times> u8 \<times> u8 list) option" where
  "sfn_chars lfn si di i ni b cf sfn = do {
     wc \<leftarrow> rd lfn si;
     let si = si + 1;
     let loss = cf OR (NS_LOSS OR NS_LFN);
     if wc = 0 then Some (ni, b, cf, sfn)
     else if wc = 0x20 \<or> (wc = 0x2E \<and> si \<noteq> di) then sfn_chars lfn si di i ni b loss sfn
     else if ni \<le> i \<or> si = di then
       if ni = 11 then Some (ni, b, loss, sfn)
       else let cf = (if si \<noteq> di then loss else cf) in
         if di < si then Some (ni, b, cf, sfn) else sfn_chars lfn di di 8 11 (push_bit 2 b) cf sfn
     else do {
       (wc, cf) \<leftarrow> (if 0x80 \<le> wc then map_option (\<lambda>c. (c, cf OR NS_LFN)) (sfn_char wc) else Some (wc, cf));
       if 0x100 \<le> wc then
         if ni - 1 \<le> i then sfn_chars lfn si di ni ni b (cf OR (NS_LOSS OR NS_LFN)) sfn
         else do {
           sfn \<leftarrow> wr sfn i (ucast (drop_bit 8 wc));
           sfn \<leftarrow> wr sfn (i + 1) (ucast wc);
           sfn_chars lfn si di (i + 2) ni b cf sfn }
       else do {
         bad \<leftarrow> (if wc = 0 then Some 1 else chk_chr sfn_illegal (uint wc));
         let (wc, b, cf) = (if bad \<noteq> 0 then (0x5F, b, cf OR (NS_LOSS OR NS_LFN))
            else if IsLower wc then (wc - 0x20, b OR 1, cf)
            else (wc, if IsUpper wc then b OR 2 else b, cf));
         sfn \<leftarrow> wr sfn i (ucast wc);
         sfn_chars lfn si di (i + 1) ni b cf sfn } } }"

text \<open>The short name and its status from the long name of \<open>di\<close> characters.\<close>

definition short_name :: "u16 list \<Rightarrow> nat \<Rightarrow> u8 \<Rightarrow> u8 list \<Rightarrow> u8 list option" where
  "short_name lfn di cf sfn = do {
     si \<leftarrow> leading_spaces lfn;
     c \<leftarrow> rd lfn si;
     let cf = (if 0 < si \<or> c = 0x2E then cf OR (NS_LOSS OR NS_LFN) else cf);
     di \<leftarrow> last_dot lfn di;
     sfn \<leftarrow> mem_set sfn 0 0x20 11;
     (ni, b, cf, sfn) \<leftarrow> sfn_chars lfn si di 0 8 0 cf sfn;
     c \<leftarrow> rd sfn 0;
     sfn \<leftarrow> (if c = DDEM then wr sfn 0 RDDEM else Some sfn);
     let b = (if ni = 8 then push_bit 2 b else b);
     let cf = (if b AND 0x0C = 0x0C \<or> b AND 0x03 = 0x03 then cf OR NS_LFN else cf);
     let cf = (if cf AND NS_LFN = 0 then
                 cf OR (if b AND 0x01 \<noteq> 0 then NS_EXT else 0) OR (if b AND 0x04 \<noteq> 0 then NS_BODY else 0) else cf);
     wr sfn NSFLAG cf }"

definition is_dot_name :: "u16 list \<Rightarrow> nat \<Rightarrow> bool option" where
  "is_dot_name lfn di = (if di = 1 then map_option (\<lambda>c. c = 0x2E) (rd lfn 0)
     else if di = 2 then do {
       c \<leftarrow> rd lfn 1;
       if c = 0x2E then map_option (\<lambda>c. c = 0x2E) (rd lfn 0) else Some False }
     else Some False)"

text \<open>The name of a dot entry: its dots, padded with spaces.\<close>

definition dot_name :: "nat \<Rightarrow> u8 \<Rightarrow> u8 list \<Rightarrow> u8 list option" where
  "dot_name di cf sfn = do {
     sfn \<leftarrow> mem_set sfn 0 0x20 11;
     sfn \<leftarrow> mem_set sfn 0 0x2E (of_nat di);
     wr sfn NSFLAG (cf OR NS_DOT) }"

definition create_name ::
  "u8 list \<Rightarrow> dir_object \<Rightarrow> fatfs \<Rightarrow> (fresult \<times> u8 list \<times> dir_object \<times> fatfs) option" where
  "create_name path dp fs = do {
     (r, lfn) \<leftarrow> name_chars path (lfnbuf fs) 0;
     (case r of None \<Rightarrow> Some (FR_INVALID_NAME, path, dp, fs\<lparr>lfnbuf := lfn\<rparr>)
      | Some (wc, p, di) \<Rightarrow> do {
          let cf = (if wc < 0x20 then NS_LAST else 0);
          p \<leftarrow> (if wc < 0x20 then Some p else skip_separators p);
          dot \<leftarrow> is_dot_name lfn di;
          if dot then do {
            lfn \<leftarrow> wr lfn di 0;
            sfn \<leftarrow> dot_name di cf (fn dp);
            Some (FR_OK, p, dp\<lparr>fn := sfn\<rparr>, fs\<lparr>lfnbuf := lfn\<rparr>) }
          else do {
            di \<leftarrow> snip_end lfn di;
            lfn \<leftarrow> wr lfn di 0;
            let fs = fs\<lparr>lfnbuf := lfn\<rparr>;
            if di = 0 then Some (FR_INVALID_NAME, p, dp, fs)
            else do {
              sfn \<leftarrow> short_name lfn di cf (fn dp);
              Some (FR_OK, p, dp\<lparr>fn := sfn\<rparr>, fs) } } }) }"

section \<open>Following a path\<close>

text \<open>Entering the directory that was found.\<close>

definition enter_dir :: "dir_object \<Rightarrow> fatfs \<Rightarrow> dir_object option" where
  "enter_dir dp fs =
     (if fs_type fs = FS_EXFAT then
        let obj = dp_obj dp in
        map_option (\<lambda>o'. dp\<lparr>dp_obj := o'\<rparr>)
          (init_alloc_info fs (obj\<lparr>c_scl := sclust obj, c_size := (ucast (objsize obj) AND 0xFFFFFF00) OR ucast (stat obj),
             c_ofs := blk_ofs dp\<rparr>))
      else map_option (\<lambda>c. dp\<lparr>dp_obj := (dp_obj dp)\<lparr>sclust := c\<rparr>\<rparr>) (ld_clust fs (unat (dptr dp mod 512))))"

partial_function (option) follow_loop ::
  "'d disk_io \<Rightarrow> u8 list \<Rightarrow> dir_object \<Rightarrow> fatfs \<Rightarrow> 'd \<Rightarrow> (fresult \<times> dir_object \<times> fatfs \<times> 'd) option" where
  "follow_loop io path dp fs d = do {
     (res, path, dp, fs) \<leftarrow> create_name path dp fs;
     if res \<noteq> FR_OK then Some (res, dp, fs, d) else do {
     (res, dp, fs, d) \<leftarrow> dir_find io dp fs d;
     ns \<leftarrow> rd (fn dp) NSFLAG;
     if res = FR_NO_FILE \<and> ns AND NS_DOT \<noteq> 0 then
       if ns AND NS_LAST = 0 then follow_loop io path dp fs d
       else map_option (\<lambda>f. (FR_OK, dp\<lparr>fn := f\<rparr>, fs, d)) (wr (fn dp) NSFLAG NS_NONAME)
     else if res = FR_NO_FILE \<and> ns AND NS_LAST = 0 then Some (FR_NO_PATH, dp, fs, d)
     else if res \<noteq> FR_OK \<or> ns AND NS_LAST \<noteq> 0 then Some (res, dp, fs, d)
     else if obj_attr (dp_obj dp) AND AM_DIR = 0 then Some (FR_NO_PATH, dp, fs, d)
     else do {
       dp \<leftarrow> enter_dir dp fs;
       follow_loop io path dp fs d } } }"

definition follow_path ::
  "'d disk_io \<Rightarrow> dir_object \<Rightarrow> u8 list \<Rightarrow> dir_object \<Rightarrow> fatfs \<Rightarrow> 'd \<Rightarrow> (fresult \<times> dir_object \<times> fatfs \<times> 'd) option" where
  "follow_path io dj path dp fs d = do {
     c \<leftarrow> rd path 0;
     path \<leftarrow> skip_separators path;
     let dp = dp\<lparr>dp_obj := (dp_obj dp)\<lparr>sclust := if is_separator c then 0 else cdir fs, n_frag := 0\<rparr>\<rparr>;
     (res, dp, fs, d) \<leftarrow> (if fs_type fs = FS_EXFAT \<and> sclust (dp_obj dp) \<noteq> 0 then do {
        let dp = dp\<lparr>dp_obj := (dp_obj dp)\<lparr>c_scl := cdc_scl fs, c_size := cdc_size fs, c_ofs := cdc_ofs fs\<rparr>\<rparr>;
        (res, dj, fs, d) \<leftarrow> load_obj_xdir io (dp_obj dp) dj fs d;
        if res \<noteq> FR_OK then Some (res, dp, fs, d) else do {
        sz \<leftarrow> ld_dword (dirbuf fs) XDIR_FileSize;
        flags \<leftarrow> rd (dirbuf fs) XDIR_GenFlags;
        Some (FR_OK, dp\<lparr>dp_obj := (dp_obj dp)\<lparr>objsize := ucast sz, stat := flags AND 2\<rparr>\<rparr>, fs, d) } }
      else Some (FR_OK, dp, fs, d));
     if res \<noteq> FR_OK then Some (res, dp, fs, d) else do {
     c \<leftarrow> rd path 0;
     if c < 0x20 then do {
       f \<leftarrow> wr (fn dp) NSFLAG NS_NONAME;
       dir_sdi io 0 (dp\<lparr>fn := f\<rparr>) fs d }
     else follow_loop io path dp fs d } }"


section \<open>The information on an object\<close>

definition FF_LFN_BUF :: u32 where "FF_LFN_BUF = 255"
definition FF_SFN_BUF :: u32 where "FF_SFN_BUF = 12"

record filinfo =
  fi_size :: u64
  fi_date :: u16
  fi_time :: u16
  fi_attrib :: u8
  fi_altname :: "u8 list"
  fi_fname :: "u8 list"

text \<open>Storing a character at a place of a buffer with room for \<open>lim\<close> octets; the number of octets is zero when it does not fit.\<close>

definition put_char :: "u32 \<Rightarrow> u32 \<Rightarrow> nat \<Rightarrow> u8 list \<Rightarrow> (nat \<times> u8 list) option" where
  "put_char lim chr di name = do {
     (n, rest) \<leftarrow> put_utf chr (drop di name) (lim - of_nat di);
     Some (unat n, take di name @ rest) }"

text \<open>A name in UTF-16 as one in UTF-8; \<open>hs\<close> is a high surrogate that waits for the low one.\<close>

fun lfn_to_utf :: "u16 list \<Rightarrow> u16 \<Rightarrow> nat \<Rightarrow> u8 list \<Rightarrow> (u16 \<times> nat \<times> u8 list) option" where
  "lfn_to_utf [] hs di name = None"
| "lfn_to_utf (wc # s) hs di name =
     (if wc = 0 then Some (hs, di, name)
      else if hs = 0 \<and> IsSurrogate (ucast wc) then lfn_to_utf s wc di name
      else do {
        (n, name) \<leftarrow> put_char FF_LFN_BUF (push_bit 16 (ucast hs) OR ucast wc) di name;
        if n = 0 then Some (hs, 0, name) else lfn_to_utf s 0 (di + n) name })"

fun block_to_utf :: "u8 list \<Rightarrow> nat \<Rightarrow> nat \<Rightarrow> u16 \<Rightarrow> nat \<Rightarrow> u8 list \<Rightarrow> (u16 \<times> nat \<times> u8 list) option" where
  "block_to_utf dirb 0 si hs di name = Some (hs, di, name)"
| "block_to_utf dirb (Suc nc) si hs di name =
     (if unat (MAXDIRB 255) \<le> si then Some (hs, 0, name)
      else let si = (if si mod 32 = 0 then si + 2 else si) in do {
        wc \<leftarrow> ld_word dirb si;
        if hs = 0 \<and> IsSurrogate (ucast wc) then block_to_utf dirb nc (si + 2) wc di name
        else do {
          (n, name) \<leftarrow> put_char FF_LFN_BUF (push_bit 16 (ucast hs) OR ucast wc) di name;
          if n = 0 then Some (hs, 0, name) else block_to_utf dirb nc (si + 2) 0 (di + n) name } })"

definition get_xfileinfo :: "u8 list \<Rightarrow> filinfo \<Rightarrow> filinfo option" where
  "get_xfileinfo dirb fno = do {
     nn \<leftarrow> rd dirb XDIR_NumName;
     (hs, di, name) \<leftarrow> block_to_utf dirb (unat nn) 64 0 0 (fi_fname fno);
     let di = (if hs \<noteq> 0 then 0 else di);
     (name, di) \<leftarrow> (if di = 0 then map_option (\<lambda>w. (w, 1)) (wr name 0 0x3F) else Some (name, di));
     name \<leftarrow> wr name di 0;
     alt \<leftarrow> wr (fi_altname fno) 0 0;
     a \<leftarrow> rd dirb XDIR_Attr;
     sz \<leftarrow> (if a AND AM_DIR \<noteq> 0 then Some 0 else ld_qword dirb XDIR_FileSize);
     tm \<leftarrow> ld_word dirb (XDIR_ModTime + 0);
     dt \<leftarrow> ld_word dirb (XDIR_ModTime + 2);
     Some (fno\<lparr>fi_fname := name, fi_altname := alt, fi_attrib := a, fi_size := sz, fi_time := tm, fi_date := dt\<rparr>) }"

text \<open>The short name of an entry, from its octet \<open>si\<close> on.\<close>

partial_function (option) sfn_to_utf :: "u8 list \<Rightarrow> nat \<Rightarrow> nat \<Rightarrow> nat \<Rightarrow> u8 list \<Rightarrow> (nat \<times> u8 list) option" where
  "sfn_to_utf w dir si di alt =
     (if 11 \<le> si then Some (di, alt) else do {
        c \<leftarrow> rd w (dir + si);
        let si = si + 1;
        if c = 0x20 then sfn_to_utf w dir si di alt else do {
        let wc = (ucast (if c = RDDEM then DDEM else c) :: u16);
        (alt, di) \<leftarrow> (if si = 9 \<and> di < unat FF_SFN_BUF then map_option (\<lambda>a. (a, di + 1)) (wr alt di 0x2E) else Some (alt, di));
        (wc, si) \<leftarrow> (if dbc_1st (ucast wc) \<and> si \<noteq> 8 \<and> si \<noteq> 11 then do {
            c2 \<leftarrow> rd w (dir + si);
            Some (if dbc_2nd c2 then (push_bit 8 wc OR ucast c2, si + 1) else (wc, si)) }
          else Some (wc, si));
        wc \<leftarrow> ff_oem2uni wc FF_CODE_PAGE;
        if wc = 0 then Some (0, alt) else do {
        (n, alt) \<leftarrow> put_char FF_SFN_BUF (ucast wc) di alt;
        if n = 0 then Some (0, alt) else sfn_to_utf w dir si (di + n) alt } } })"

text \<open>The short name in the case its flags give it, as the name of an object without a long one.\<close>

fun copy_altname :: "u8 list \<Rightarrow> u8 \<Rightarrow> u8 \<Rightarrow> nat \<Rightarrow> u8 list \<Rightarrow> (nat \<times> u8 list) option" where
  "copy_altname [] nt lcf di name = None"
| "copy_altname (c # alt) nt lcf di name =
     (if c = 0 then Some (di, name)
      else
        let wc = (ucast c :: u16); lcf = (if wc = 0x2E then NS_EXT else lcf);
            wc = (if IsUpper wc \<and> nt AND lcf \<noteq> 0 then wc + 0x20 else wc) in do {
        name \<leftarrow> wr name di (ucast wc);
        copy_altname alt nt lcf (di + 1) name })"

definition get_fileinfo :: "dir_object \<Rightarrow> fatfs \<Rightarrow> filinfo \<Rightarrow> filinfo option" where
  "get_fileinfo dp fs fno = do {
     name \<leftarrow> wr (fi_fname fno) 0 0;
     if dp_sect dp = 0 then Some (fno\<lparr>fi_fname := name\<rparr>)
     else if fs_type fs = FS_EXFAT then get_xfileinfo (dirbuf fs) (fno\<lparr>fi_fname := name\<rparr>)
     else do {
       name \<leftarrow> (if blk_ofs dp \<noteq> no_block_ofs then do {
           (hs, di, name) \<leftarrow> lfn_to_utf (lfnbuf fs) 0 0 name;
           wr name (if hs \<noteq> 0 then 0 else di) 0 }
         else Some name);
       (di, alt) \<leftarrow> sfn_to_utf (win fs) (dp_dir dp) 0 0 (fi_altname fno);
       alt \<leftarrow> wr alt di 0;
       c \<leftarrow> rd name 0;
       (name, alt) \<leftarrow> (if c = 0 then do {
           nt \<leftarrow> entry_octet dp fs DIR_NTres;
           (di, name) \<leftarrow> (if di = 0 then map_option (\<lambda>w. (1, w)) (wr name 0 0x3F) else copy_altname alt nt NS_BODY 0 name);
           name \<leftarrow> wr name di 0;
           alt \<leftarrow> (if nt = 0 then wr alt 0 0 else Some alt);
           Some (name, alt) }
         else Some (name, alt));
       a \<leftarrow> entry_octet dp fs DIR_Attr;
       sz \<leftarrow> ld_dword (win fs) (dp_dir dp + DIR_FileSize);
       tm \<leftarrow> ld_word (win fs) (dp_dir dp + DIR_ModTime);
       dt \<leftarrow> ld_word (win fs) (dp_dir dp + DIR_ModTime + 2);
       Some (fno\<lparr>fi_fname := name, fi_altname := alt, fi_attrib := a, fi_size := ucast sz, fi_time := tm, fi_date := dt\<rparr>) } }"

section \<open>Matching names with patterns\<close>

definition FIND_RECURS :: nat where "FIND_RECURS = 4"

text \<open>A character in upper case, zero at the end and for an octet that is no character.\<close>

definition get_achar :: "u8 list \<Rightarrow> (u32 \<times> u8 list) option" where
  "get_achar p = do {
     (chr, p) \<leftarrow> tchar2uni p;
     chr \<leftarrow> ff_wtoupper (if chr = decode_error then 0 else chr);
     Some (chr, p) }"

definition is_wild :: "u8 \<Rightarrow> bool" where "is_wild c = (c = 0x3F \<or> c = 0x2A)"

text \<open>Skipping characters of the name; no result when it has less.\<close>

fun pre_skip :: "u8 list \<Rightarrow> nat \<Rightarrow> u8 list option option" where
  "pre_skip nam 0 = Some (Some nam)"
| "pre_skip nam (Suc n) = do { (c, nam) \<leftarrow> get_achar nam; if c = 0 then Some None else pre_skip nam n }"

text \<open>A wildcard term: the number of question marks, with \<open>0x100\<close> for an asterisk, and the rest of the pattern.\<close>

fun wild_term :: "u8 list \<Rightarrow> u32 \<Rightarrow> (u32 \<times> u8 list) option" where
  "wild_term [] sk = None"
| "wild_term (c # p) sk =
     (if c = 0x3F then wild_term p (sk + 1) else if c = 0x2A then wild_term p (sk OR 0x100) else Some (sk, c # p))"

text \<open>
  One comparison of the pattern with the name: it ends with the result of the function or with the
  character of the name it stopped at. The recursive call is an argument, absent when no further wildcard
  term is allowed.
\<close>

partial_function (option) match_branch ::
  "(u8 list \<Rightarrow> u8 list \<Rightarrow> u32 \<Rightarrow> bool option) option \<Rightarrow> u8 list \<Rightarrow> u8 list \<Rightarrow> (bool + u32) option" where
  "match_branch rec pptr nptr = do {
     c \<leftarrow> rd pptr 0;
     if is_wild c then
       (case rec of None \<Rightarrow> Some (Inl False)
        | Some pm \<Rightarrow> do {
            (sk, pptr) \<leftarrow> wild_term pptr 0;
            ok \<leftarrow> pm pptr nptr sk;
            if ok then Some (Inl True) else map_option (\<lambda>c. Inr (ucast c)) (rd nptr 0) })
     else do {
       (pchr, pptr) \<leftarrow> get_achar pptr;
       (nchr, nptr) \<leftarrow> get_achar nptr;
       if pchr \<noteq> nchr then Some (Inr nchr)
       else if pchr = 0 then Some (Inl True)
       else match_branch rec pptr nptr } }"

partial_function (option) match_search ::
  "(u8 list \<Rightarrow> u8 list \<Rightarrow> u32 \<Rightarrow> bool option) option \<Rightarrow> bool \<Rightarrow> u8 list \<Rightarrow> u8 list \<Rightarrow> bool option" where
  "match_search rec anywhere pat nam = do {
     r \<leftarrow> match_branch rec pat nam;
     (case r of Inl b \<Rightarrow> Some b
      | Inr nchr \<Rightarrow> do {
          (c, nam) \<leftarrow> get_achar nam;
          if anywhere \<and> nchr \<noteq> 0 then match_search rec anywhere pat nam else Some False }) }"

definition match_term ::
  "(u8 list \<Rightarrow> u8 list \<Rightarrow> u32 \<Rightarrow> bool option) option \<Rightarrow> u8 list \<Rightarrow> u8 list \<Rightarrow> u32 \<Rightarrow> bool option" where
  "match_term rec pat nam skip = do {
     r \<leftarrow> pre_skip nam (unat (skip AND 0xFF));
     (case r of None \<Rightarrow> Some False
      | Some nam \<Rightarrow> do {
          let skip = skip AND NOT 0xFF;
          c \<leftarrow> rd pat 0;
          if c = 0 \<and> skip \<noteq> 0 then Some True else match_search rec (skip \<noteq> 0) pat nam }) }"

primrec pattern_match :: "nat \<Rightarrow> u8 list \<Rightarrow> u8 list \<Rightarrow> u32 \<Rightarrow> bool option" where
  "pattern_match 0 = match_term None"
| "pattern_match (Suc recur) = match_term (Some (pattern_match recur))"

end
