(* ===== verification/Ff_Pattern.thy ===== *)
theory Ff_Pattern
  imports Ff_Path
begin

text \<open>
  The matching of names with patterns: what it means for a pattern of characters and wildcards to
  match a name, and that \<open>pattern_match\<close> decides it.
\<close>

section \<open>What a pattern means\<close>

datatype glob = One | Many | Lit u32

fun glob_match :: "glob list \<Rightarrow> u32 list \<Rightarrow> bool" where
  "glob_match [] cs = (cs = [])"
| "glob_match (One # ps) cs = (cs \<noteq> [] \<and> glob_match ps (tl cs))"
| "glob_match (Many # ps) cs = list_ex (\<lambda>k. glob_match ps (drop k cs)) [0..<Suc (length cs)]"
| "glob_match (Lit c # ps) cs = (cs \<noteq> [] \<and> hd cs = c \<and> glob_match ps (tl cs))"

lemma glob_Many: "glob_match (Many # ps) cs \<longleftrightarrow> (\<exists>k \<le> length cs. glob_match ps (drop k cs))"
  by (auto simp: list_ex_iff less_Suc_eq_le simp del: upt_Suc)

declare glob_match.simps(3) [simp del]

definition wild :: "glob \<Rightarrow> bool" where "wild p = (p = One \<or> p = Many)"

lemma wild_simps [simp]: "wild One" "wild Many" "\<not> wild (Lit c)"
  by (simp_all add: wild_def)

text \<open>The number of wildcard terms, and the characters in front of the first.\<close>

fun terms_from :: "bool \<Rightarrow> glob list \<Rightarrow> nat" where
  "terms_from inside [] = 0"
| "terms_from inside (p # ps) =
     (if wild p then (if inside then 0 else 1) + terms_from True ps else terms_from False ps)"

definition terms :: "glob list \<Rightarrow> nat" where "terms ps = terms_from False ps"

definition lits :: "glob list \<Rightarrow> nat" where "lits ps = length (takeWhile (\<lambda>p. \<not> wild p) ps)"

lemma lits_simps [simp]: "lits [] = 0" "lits (Lit c # ps) = Suc (lits ps)" "wild p \<Longrightarrow> lits (p # ps) = 0"
  by (simp_all add: lits_def)

lemma lits_match: "glob_match ps cs \<Longrightarrow> lits ps \<le> length cs"
proof (induction ps arbitrary: cs)
  case (Cons p ps)
  then show ?case by (cases p; cases cs) auto
qed simp

lemma glob_ones: "glob_match (replicate n One @ ps) cs \<longleftrightarrow> n \<le> length cs \<and> glob_match ps (drop n cs)"
  by (induction n arbitrary: cs) (auto simp: drop_Suc Suc_le_eq tl_drop length_greater_0_conv [symmetric] simp del: length_greater_0_conv)

text \<open>A run of wildcards is as many single ones, with one for any number when it has some.\<close>

definition term_of :: "nat \<Rightarrow> bool \<Rightarrow> glob list" where
  "term_of n many = replicate n One @ (if many then [Many] else [])"

lemma drop_ranges:
  fixes l :: nat
  assumes "n \<le> l"
  shows "(\<exists>k \<le> l - n. P (k + n)) \<longleftrightarrow> (\<exists>k. n \<le> k \<and> k \<le> l \<and> P k)" (is "?a \<longleftrightarrow> ?b")
proof
  assume ?a
  then obtain k where "k \<le> l - n" "P (k + n)" by blast
  then show ?b using assms by (intro exI [of _ "k + n"]) simp
next
  assume ?b
  then obtain k where k: "n \<le> k" "k \<le> l" "P k" by blast
  then show ?a by (intro exI [of _ "k - n"]) simp
qed

lemma glob_term:
  "glob_match (term_of n many @ ps) cs \<longleftrightarrow>
     (if many then \<exists>k. n \<le> k \<and> k \<le> length cs \<and> glob_match ps (drop k cs) else n \<le> length cs \<and> glob_match ps (drop n cs))"
proof (cases many)
  case True
  have "glob_match (term_of n many @ ps) cs \<longleftrightarrow> n \<le> length cs \<and> (\<exists>k \<le> length cs - n. glob_match ps (drop (k + n) cs))"
    using True by (simp add: term_of_def glob_ones glob_Many)
  then show ?thesis using True drop_ranges [of n "length cs" "\<lambda>k. glob_match ps (drop k cs)"] by auto
qed (simp add: term_of_def glob_ones)

lemma term_One: "glob_match (term_of n many @ One # ps) cs = glob_match (term_of (Suc n) many @ ps) cs"
proof (cases many)
  case True
  have "(\<exists>k. n \<le> k \<and> k \<le> length cs \<and> drop k cs \<noteq> [] \<and> glob_match ps (tl (drop k cs)))
      \<longleftrightarrow> (\<exists>k. Suc n \<le> k \<and> k \<le> length cs \<and> glob_match ps (drop k cs))" (is "?a \<longleftrightarrow> ?b")
  proof
    assume ?a
    then obtain k where "n \<le> k" "k < length cs" "glob_match ps (drop (Suc k) cs)" by (auto simp: drop_Suc tl_drop)
    then show ?b by (intro exI [of _ "Suc k"]) simp
  next
    assume ?b
    then obtain k where k: "Suc n \<le> k" "k \<le> length cs" "glob_match ps (drop k cs)" by blast
    then obtain j where "k = Suc j" by (cases k) auto
    then show ?a using k by (intro exI [of _ j]) (auto simp: drop_Suc tl_drop)
  qed
  then show ?thesis using True by (simp add: glob_term)
next
  case False
  then show ?thesis by (auto simp: glob_term drop_Suc tl_drop)
qed

lemma term_Many: "glob_match (term_of n many @ Many # ps) cs = glob_match (term_of n True @ ps) cs"
proof (cases many)
  case True
  have "(\<exists>k. n \<le> k \<and> k \<le> length cs \<and> (\<exists>j \<le> length cs - k. glob_match ps (drop (j + k) cs)))
      \<longleftrightarrow> (\<exists>k. n \<le> k \<and> k \<le> length cs \<and> glob_match ps (drop k cs))" (is "?a \<longleftrightarrow> ?b")
  proof
    assume ?a
    then obtain k j where "n \<le> k" "k \<le> length cs" "j \<le> length cs - k" "glob_match ps (drop (j + k) cs)" by blast
    then show ?b by (intro exI [of _ "j + k"]) simp
  next
    assume ?b
    then obtain k where k: "n \<le> k" "k \<le> length cs" "glob_match ps (drop k cs)" by blast
    show ?a by (rule exI [of _ k]) (use k in \<open>auto intro: exI [of _ 0]\<close>)
  qed
  then show ?thesis using True by (simp add: glob_term glob_Many)
next
  case False
  then show ?thesis by (simp add: term_of_def)
qed

section \<open>Strings\<close>

text \<open>A string that is a list of characters in UTF-8, in upper case, and one that is a pattern.\<close>

inductive spells :: "u8 list \<Rightarrow> u32 list \<Rightarrow> bool" where
  at_end: "spells (0 # r) []"
| char: "tchar2uni (b # s) = Some (u, r) \<Longrightarrow> b \<noteq> 0 \<Longrightarrow> u \<noteq> decode_error \<Longrightarrow> u \<noteq> 0 \<Longrightarrow> spells r cs
     \<Longrightarrow> spells (b # s) (up_of u # cs)"

inductive denotes :: "u8 list \<Rightarrow> glob list \<Rightarrow> bool" where
  at_end: "denotes (0 # r) []"
| one: "denotes r ps \<Longrightarrow> denotes (0x3F # r) (One # ps)"
| many: "denotes r ps \<Longrightarrow> denotes (0x2A # r) (Many # ps)"
| char: "tchar2uni (b # s) = Some (u, r) \<Longrightarrow> b \<noteq> 0 \<Longrightarrow> \<not> is_wild b \<Longrightarrow> u \<noteq> decode_error \<Longrightarrow> u \<noteq> 0 \<Longrightarrow> denotes r ps
     \<Longrightarrow> denotes (b # s) (Lit (up_of u) # ps)"

inductive_cases spells_endE: "spells s []"
inductive_cases spells_charE: "spells s (c # cs)"
inductive_cases denotes_endE: "denotes p []"
inductive_cases denotes_wildE: "denotes p (One # ps)" "denotes p (Many # ps)"
inductive_cases denotes_charE: "denotes p (Lit c # ps)"

lemma tchar2uni_zero: "tchar2uni (0 # r) = Some (0, r)"
  by (simp add: tchar2uni_def)

lemma get_achar_end: "get_achar (0 # r) = Some (0, r)"
  by (simp add: get_achar_def tchar2uni_zero ff_wtoupper_up_of up_of_zero decode_error_def)

lemma get_achar_char:
  "tchar2uni s = Some (u, r) \<Longrightarrow> u \<noteq> decode_error \<Longrightarrow> get_achar s = Some (up_of u, r)"
  by (simp add: get_achar_def ff_wtoupper_up_of)

lemma get_achar_spells:
  assumes "spells nam cs"
  shows "\<exists>r b. get_achar nam = Some (if cs = [] then 0 else hd cs, r) \<and> (cs \<noteq> [] \<longrightarrow> hd cs \<noteq> 0 \<and> spells r (tl cs))
     \<and> rd nam 0 = Some b \<and> (b = 0 \<longleftrightarrow> cs = [])"
  using assms
proof cases
  case (at_end r)
  then show ?thesis by (simp add: get_achar_end rd_def)
next
  case (char b s u r cs')
  then show ?thesis using get_achar_char [OF char(3,5)] up_of_zero [of u] by (simp add: rd_def)
qed

definition next_char :: "glob list \<Rightarrow> u32" where
  "next_char ps = (case ps of Lit c # _ \<Rightarrow> c | _ \<Rightarrow> 0)"

lemma get_achar_denotes:
  assumes "denotes pat ps" and "ps = [] \<or> \<not> wild (hd ps)"
  shows "\<exists>r b. get_achar pat = Some (next_char ps, r)
     \<and> (ps \<noteq> [] \<longrightarrow> hd ps = Lit (next_char ps) \<and> next_char ps \<noteq> 0 \<and> denotes r (tl ps)) \<and> rd pat 0 = Some b \<and> \<not> is_wild b"
  using assms
proof cases
  case (at_end r)
  then show ?thesis by (simp add: get_achar_end rd_def is_wild_def next_char_def)
next
  case (char b s u r ps')
  then show ?thesis using get_achar_char [OF char(3,6)] up_of_zero [of u] by (simp add: rd_def next_char_def)
qed (use assms(2) in auto)

lemma wild_head: "denotes pat ps \<Longrightarrow> \<exists>b. rd pat 0 = Some b \<and> (is_wild b \<longleftrightarrow> ps \<noteq> [] \<and> wild (hd ps)) \<and> (b = 0 \<longleftrightarrow> ps = [])"
  by (cases rule: denotes.cases) (auto simp: rd_def is_wild_def)

text \<open>A wildcard term is read to the next character or the end.\<close>

definition term_word :: "nat \<Rightarrow> bool \<Rightarrow> u32" where "term_word n many = of_nat (n + (if many then 256 else 0))"

lemma unat_term_word: "n < 256 \<Longrightarrow> unat (term_word n many) = n + (if many then 256 else 0)"
  unfolding term_word_def unat_of_nat by (simp add: take_bit_nat_eq_self)

lemma small_word: "n < 256 \<Longrightarrow> (of_nat n :: u32) < 2 ^ 8"
  by (simp add: word_less_nat_alt unat_of_nat take_bit_nat_eq_self)

lemma bit_256: "bit (0x100 :: u32) i \<longleftrightarrow> i = 8"
  using bit_exp_iff [where ?'a = u32, of 8 i] by auto

lemma term_word_or: "n < 256 \<Longrightarrow> (of_nat n :: u32) OR 0x100 = of_nat n + 0x100"
proof -
  assume n: "n < 256"
  have "(of_nat n :: u32) AND 0x100 = 0"
  proof (rule bit_word_eqI)
    fix k
    show "bit ((of_nat n :: u32) AND 0x100) k = bit (0 :: u32) k"
      using bit_word_less [OF small_word [OF n]] bit_256 [of k] by (auto simp only: bit_and_iff bit_0_eq)
  qed
  then show ?thesis by (simp only: disjunctive_add_eq_or)
qed

lemma term_word_steps:
  "n + 1 < 256 \<Longrightarrow> term_word n many + 1 = term_word (n + 1) many"
  "n < 256 \<Longrightarrow> term_word n many OR 0x100 = term_word n True"
proof -
  show "n + 1 < 256 \<Longrightarrow> term_word n many + 1 = term_word (n + 1) many" by (simp add: term_word_def)
  assume n: "n < 256"
  have t: "term_word n False = of_nat n" "term_word n True = of_nat n + 0x100" by (simp_all add: term_word_def)
  show "term_word n many OR 0x100 = term_word n True"
    by (cases many) (simp_all add: t term_word_or [OF n, symmetric] or.assoc)
qed

lemma term_word_read:
  assumes "n < 256"
  shows "unat (term_word n many AND 0xFF) = n" and "(term_word n many AND NOT 0xFF \<noteq> 0) = many"
proof -
  have m: "(0xFF :: u32) = mask 8" by (simp add: mask_eq_exp_minus_1)
  note u = unat_term_word [OF assms, of many]
  show 1: "unat (term_word n many AND 0xFF) = n"
    unfolding m take_bit_eq_mask [symmetric] using assms u by (simp add: unsigned_take_bit_eq take_bit_eq_mod unat_mod)
  show "(term_word n many AND NOT 0xFF \<noteq> 0) = many"
  proof (cases many)
    case True
    have "term_word n many = of_nat n OR 0x100" using True assms by (simp add: term_word_def term_word_or)
    then have "bit (term_word n many AND NOT 0xFF) 8" unfolding m by (simp add: bit_and_iff bit_or_iff bit_not_iff bit_mask_iff bit_256)
    then show ?thesis using True by auto
  next
    case False
    have "term_word n many AND NOT 0xFF = 0" unfolding m
      by (rule bit_word_eqI) (use bit_word_less [OF small_word [OF assms]] False in \<open>auto simp: term_word_def bit_and_iff bit_not_iff bit_mask_iff\<close>)
    then show ?thesis using False by simp
  qed
qed

text \<open>The rest of a pattern behind a wildcard term.\<close>

lemma wild_term_run:
  assumes "denotes pat ps" and "n + length ps < 256"
  shows "\<exists>m mb pat' ps'. wild_term pat (term_word n many) = Some (term_word m mb, pat') \<and> denotes pat' ps' \<and> (ps' = [] \<or> \<not> wild (hd ps'))
     \<and> m + length ps' < 256 \<and> terms_from True ps = terms ps' \<and> (\<forall>cs. glob_match (term_of n many @ ps) cs = glob_match (term_of m mb @ ps') cs)"
  using assms
proof (induction arbitrary: n many rule: denotes.induct)
  case (at_end r)
  then show ?case by (intro exI [of _ n] exI [of _ many] exI [of _ "0 # r"] exI [of _ "[]"]) (simp add: denotes.at_end terms_def)
next
  case (one r ps)
  have n: "Suc n + length ps < 256" using one.prems by simp
  show ?case using one.IH [OF n, of many] n by (simp add: term_word_steps term_One)
next
  case (many r ps)
  have n: "n + length ps < 256" using many.prems by simp
  show ?case using many.IH [OF n, of True] n by (simp add: term_word_steps term_Many)
next
  case (char b s u r ps)
  then show ?case
    by (intro exI [of _ n] exI [of _ many] exI [of _ "b # s"] exI [of _ "Lit (up_of u) # ps"])
      (auto simp: is_wild_def terms_def intro: denotes.char)
qed

section \<open>The search\<close>

text \<open>What the recursive call decides, and what a comparison ends with.\<close>

definition decides :: "nat \<Rightarrow> (u8 list \<Rightarrow> u8 list \<Rightarrow> u32 \<Rightarrow> bool option) \<Rightarrow> bool" where
  "decides recur pm \<longleftrightarrow> (\<forall>pat ps nam cs n many. denotes pat ps \<longrightarrow> spells nam cs \<longrightarrow> terms ps \<le> recur \<longrightarrow> n + length ps < 256
     \<longrightarrow> (ps = [] \<or> \<not> wild (hd ps)) \<or> n = 0 \<and> \<not> many
     \<longrightarrow> pm pat nam (term_word n many) = Some (glob_match (term_of n many @ ps) cs))"

lemma decidesD:
  "decides recur pm \<Longrightarrow> denotes pat ps \<Longrightarrow> spells nam cs \<Longrightarrow> terms ps \<le> recur \<Longrightarrow> n + length ps < 256
     \<Longrightarrow> ps = [] \<or> \<not> wild (hd ps) \<Longrightarrow> pm pat nam (term_word n many) = Some (glob_match (term_of n many @ ps) cs)"
  unfolding decides_def by blast

definition branch_result :: "glob list \<Rightarrow> u32 list \<Rightarrow> bool + u32 \<Rightarrow> bool" where
  "branch_result ps cs r \<longleftrightarrow> (if glob_match ps cs then r = Inl True
     else \<exists>c. r = Inr c \<and> (c = 0 \<longrightarrow> length cs \<le> lits ps) \<and> (c \<noteq> 0 \<longrightarrow> cs \<noteq> []))"

lemma branch_wild:
  assumes pat: "denotes pat (p # ps)" "wild p" and nam: "spells nam cs" and t: "terms (p # ps) \<le> recur"
    and len: "length (p # ps) < 256" and rec: "case rec of None \<Rightarrow> recur = 0 | Some pm \<Rightarrow> 0 < recur \<and> decides (recur - 1) pm"
  shows "\<exists>r. match_branch rec pat nam = Some r \<and> branch_result (p # ps) cs r"
proof -
  obtain pm where pm: "rec = Some pm" "decides (recur - 1) pm"
    using t pat(2) rec by (cases rec) (auto simp: terms_def)
  obtain b where b: "rd pat 0 = Some b" "is_wild b" using wild_head [OF pat(1)] pat(2) by auto
  have "0 + length (p # ps) < 256" using len by simp
  from wild_term_run [OF pat(1) this, of False] obtain m mb pat' ps'
    where w: "wild_term pat (term_word 0 False) = Some (term_word m mb, pat')" "denotes pat' ps'" "ps' = [] \<or> \<not> wild (hd ps')"
      "m + length ps' < 256" "terms_from True (p # ps) = terms ps'"
      and eq: "\<And>cs. glob_match (term_of 0 False @ p # ps) cs = glob_match (term_of m mb @ ps') cs" by blast
  have "terms ps' \<le> recur - 1" using t w(5) pat(2) by (simp add: terms_def)
  then have call: "pm pat' nam (term_word m mb) = Some (glob_match (p # ps) cs)"
    using decidesD [OF pm(2) w(2) nam _ w(4,3), of mb] eq [of cs] by (simp add: term_of_def)
  have zero: "term_word 0 False = 0" by (simp add: term_word_def)
  obtain c where c: "rd nam 0 = Some c" "c = 0 \<longleftrightarrow> cs = []" using get_achar_spells [OF nam] by blast
  have "unat (ucast c :: u32) = unat c"
    using unsigned_less [of c, where ?'a = nat] by (simp add: unsigned_ucast_eq take_bit_nat_eq_self)
  then have "(ucast c :: u32) = 0 \<longleftrightarrow> c = 0" by (simp add: unat_eq_zero [symmetric])
  then show ?thesis
    using b w(1) call c pm(1) by (subst match_branch.simps) (auto simp: zero branch_result_def)
qed

lemma branch_spec:
  assumes "denotes pat ps" and "spells nam cs" and "terms ps \<le> recur" and "length ps < 256"
    and "case rec of None \<Rightarrow> recur = 0 | Some pm \<Rightarrow> 0 < recur \<and> decides (recur - 1) pm"
  shows "\<exists>r. match_branch rec pat nam = Some r \<and> branch_result ps cs r"
  using assms
proof (induction ps arbitrary: pat nam cs rule: list.induct)
  case Nil
  obtain r b where p: "get_achar pat = Some (0, r)" "rd pat 0 = Some b" "\<not> is_wild b"
    using get_achar_denotes [OF Nil(1)] by (auto simp: next_char_def)
  obtain r' where n: "get_achar nam = Some (if cs = [] then 0 else hd cs, r')" "cs \<noteq> [] \<longrightarrow> hd cs \<noteq> 0"
    using get_achar_spells [OF Nil(2)] by blast
  show ?case using p n by (subst match_branch.simps) (auto simp: branch_result_def)
next
  case (Cons q ps)
  show ?case
  proof (cases "wild q")
    case True
    then show ?thesis using branch_wild Cons.prems by blast
  next
    case False
    obtain r b where p: "get_achar pat = Some (next_char (q # ps), r)" "q = Lit (next_char (q # ps))" "next_char (q # ps) \<noteq> 0"
      "denotes r ps" "rd pat 0 = Some b" "\<not> is_wild b"
      using get_achar_denotes [OF Cons.prems(1)] False by auto
    define c where "c = next_char (q # ps)"
    have q: "q = Lit c" "get_achar pat = Some (c, r)" "c \<noteq> 0" using p by (simp_all add: c_def)
    obtain r' where n: "get_achar nam = Some (if cs = [] then 0 else hd cs, r')" "cs \<noteq> [] \<longrightarrow> hd cs \<noteq> 0 \<and> spells r' (tl cs)"
      using get_achar_spells [OF Cons.prems(2)] by blast
    show ?thesis
    proof (cases "cs \<noteq> [] \<and> hd cs = c")
      case False
      then show ?thesis using p(5,6) q n by (subst match_branch.simps) (auto simp: branch_result_def)
    next
      case True
      have "terms ps \<le> recur" "length ps < 256" using Cons.prems(3,4) q(1) by (simp_all add: terms_def)
      then obtain x where x: "match_branch rec r r' = Some x" "branch_result ps (tl cs) x"
        using Cons.IH [OF p(4) _ _ _ Cons.prems(5)] n(2) True by blast
      have "match_branch rec pat nam = Some x"
        using p(5,6) q n True x(1) by (subst match_branch.simps) auto
      moreover have "branch_result (q # ps) cs x"
        using x(2) True q(1) by (cases cs) (auto simp: branch_result_def split: if_splits)
      ultimately show ?thesis by blast
    qed
  qed
qed

lemma search_spec:
  assumes "denotes pat ps" and "spells nam cs" and "terms ps \<le> recur" and "length ps < 256"
    and "case rec of None \<Rightarrow> recur = 0 | Some pm \<Rightarrow> 0 < recur \<and> decides (recur - 1) pm"
  shows "match_search rec anywhere pat nam = Some (if anywhere then \<exists>k \<le> length cs. glob_match ps (drop k cs) else glob_match ps cs)"
  using assms(2)
proof (induction cs arbitrary: nam rule: list.induct)
  case Nil
  obtain r where r: "match_branch rec pat nam = Some r" "branch_result ps [] r" using branch_spec [OF assms(1) Nil assms(3-5)] by blast
  obtain r' where n: "get_achar nam = Some (0, r')" using get_achar_spells [OF Nil] by auto
  show ?case using r n by (subst match_search.simps) (auto simp: branch_result_def split: if_splits)
next
  case (Cons c cs)
  obtain r where r: "match_branch rec pat nam = Some r" "branch_result ps (c # cs) r"
    using branch_spec [OF assms(1) Cons.prems assms(3-5)] by blast
  obtain r' where n: "get_achar nam = Some (c, r')" "spells r' cs" using get_achar_spells [OF Cons.prems] by auto
  have ex: "(\<exists>k \<le> length (c # cs). glob_match ps (drop k (c # cs))) \<longleftrightarrow> glob_match ps (c # cs) \<or> (\<exists>k \<le> length cs. glob_match ps (drop k cs))"
    by (metis (no_types, lifting) Suc_le_mono drop0 drop_Suc_Cons le0 length_Cons not0_implies_Suc)
  show ?case
  proof (cases "glob_match ps (c # cs)")
    case True
    then show ?thesis using r ex by (subst match_search.simps) (auto simp: branch_result_def)
  next
    case False
    then obtain x where x: "r = Inr x" "x = 0 \<longrightarrow> length (c # cs) \<le> lits ps" using r(2) by (auto simp: branch_result_def)
    have none: "\<not> glob_match ps (drop k cs)" if "x = 0" for k
      using lits_match [of ps "drop k cs"] x(2) that by auto
    show ?thesis
      using r(1) x(1) n False ex none Cons.IH [OF n(2)] by (subst match_search.simps) auto
  qed
qed

lemma pre_skip_spells:
  "spells nam cs \<Longrightarrow> \<exists>r. pre_skip nam k = Some (if k \<le> length cs then Some r else None) \<and> (k \<le> length cs \<longrightarrow> spells r (drop k cs))"
proof (induction k arbitrary: nam cs)
  case (Suc k)
  obtain r where r: "get_achar nam = Some (if cs = [] then 0 else hd cs, r)" "cs \<noteq> [] \<longrightarrow> hd cs \<noteq> 0 \<and> spells r (tl cs)"
    using get_achar_spells [OF Suc.prems] by blast
  show ?case
  proof (cases cs)
    case Nil
    then show ?thesis using r by simp
  next
    case (Cons c cs')
    then show ?thesis using r Suc.IH [of r cs'] by auto
  qed
qed auto

lemma match_term_decides:
  assumes "case rec of None \<Rightarrow> recur = 0 | Some pm \<Rightarrow> 0 < recur \<and> decides (recur - 1) pm"
  shows "decides recur (match_term rec)"
  unfolding decides_def
proof (intro allI impI)
  fix pat ps nam cs n many
  assume a: "denotes pat ps" "spells nam cs" "terms ps \<le> recur" "n + length ps < 256"
    and "(ps = [] \<or> \<not> wild (hd ps)) \<or> n = 0 \<and> \<not> many"
  have n: "n < 256" "length ps < 256" using a(4) by simp_all
  obtain r where r: "pre_skip nam n = Some (if n \<le> length cs then Some r else None)" "n \<le> length cs \<Longrightarrow> spells r (drop n cs)"
    using pre_skip_spells [OF a(2)] by blast
  obtain b where b: "rd pat 0 = Some b" "b = 0 \<longleftrightarrow> ps = []" using wild_head [OF a(1)] by blast
  show "match_term rec pat nam (term_word n many) = Some (glob_match (term_of n many @ ps) cs)"
  proof (cases "n \<le> length cs")
    case False
    then show ?thesis unfolding match_term_def term_word_read [OF n(1)] Let_def using r(1) by (auto simp: glob_term)
  next
    case True
    have s: "match_search rec many pat r = Some (if many then \<exists>k \<le> length (drop n cs). glob_match ps (drop k (drop n cs)) else glob_match ps (drop n cs))"
      by (rule search_spec [OF a(1) r(2) [OF True] a(3) n(2) assms])
    have e: "glob_match (term_of n many @ ps) cs = (if many then \<exists>k \<le> length (drop n cs). glob_match ps (drop k (drop n cs)) else glob_match ps (drop n cs))"
      using True drop_ranges [OF True, of "\<lambda>k. glob_match ps (drop k cs)"] by (auto simp: glob_term)
    have all: "glob_match (term_of n True @ []) cs" unfolding glob_term using True by auto
    show ?thesis
      unfolding match_term_def term_word_read [OF n(1)] Let_def using r(1) True b s e all by auto
  qed
qed

lemma pattern_match_decides: "decides recur (pattern_match recur)"
proof (induction recur)
  case 0
  then show ?case using match_term_decides [of 0 None] by simp
next
  case (Suc recur)
  then show ?case using match_term_decides [of "Suc recur" "Some (pattern_match recur)"] by simp
qed

text \<open>
  C33. The matching of names decides what a pattern means: for a name and a pattern in UTF-8, with at
  most four wildcard terms and fewer than 256 elements, \<open>pattern_match\<close> returns, reads both strings within their bounds,
  and its result is whether the pattern matches the name, where a question mark stands for one
  character, an asterisk for any number of them, and every other character for itself in either
  case.
\<close>

theorem pattern_match_meaning:
  assumes "denotes pat ps" and "spells nam cs" and "terms ps \<le> FIND_RECURS" and "length ps < 256"
  shows "pattern_match FIND_RECURS pat nam 0 = Some (glob_match ps cs)"
proof -
  have "pattern_match FIND_RECURS pat nam (term_word 0 False) = Some (glob_match (term_of 0 False @ ps) cs)"
    using pattern_match_decides [of FIND_RECURS] assms unfolding decides_def by simp
  then show ?thesis by (simp add: term_word_def term_of_def)
qed

text \<open>The pattern \<open>*.l?g\<close> matches the name \<open>a.LOG\<close>, and not \<open>a.LG\<close>.\<close>

lemma spells_ascii:
  "b \<noteq> 0 \<Longrightarrow> b < 0x80 \<Longrightarrow> spells r cs \<Longrightarrow> spells (b # r) (up_of (ucast b) # cs)"
  "b \<noteq> 0 \<Longrightarrow> b < 0x80 \<Longrightarrow> \<not> is_wild b \<Longrightarrow> denotes r ps \<Longrightarrow> denotes (b # r) (Lit (up_of (ucast b)) # ps)"
proof -
  assume b: "b \<noteq> 0" "b < 0x80"
  have u: "unat (ucast b :: u32) = unat b"
    using unsigned_less [of b, where ?'a = nat] by (simp add: unsigned_ucast_eq take_bit_nat_eq_self)
  have small: "(ucast b :: u32) < 2 ^ 7" using b(2) u by (simp add: word_less_nat_alt)
  have "(ucast b :: u32) AND 0x80 = 0"
  proof (rule bit_word_eqI)
    fix k
    have "bit (0x80 :: u32) k \<Longrightarrow> k = 7" using bit_exp_iff [where ?'a = u32, of 7 k] by auto
    then show "bit ((ucast b :: u32) AND 0x80) k = bit (0 :: u32) k"
      using bit_word_less [OF small] by (auto simp only: bit_and_iff bit_0_eq)
  qed
  then have t: "tchar2uni (b # r) = Some (ucast b, r)" for r by (simp add: tchar2uni_def)
  have v: "(ucast b :: u32) \<noteq> decode_error" "(ucast b :: u32) \<noteq> 0"
    using b u by (auto simp: decode_error_def word_less_nat_alt word_unat_eq_iff)
  show "spells r cs \<Longrightarrow> spells (b # r) (up_of (ucast b) # cs)" using spells.char [OF t b(1) v] .
  show "\<not> is_wild b \<Longrightarrow> denotes r ps \<Longrightarrow> denotes (b # r) (Lit (up_of (ucast b)) # ps)"
    using denotes.char [OF t b(1) _ v] .
qed

lemma pattern_match_meaning_witness:
  "pattern_match FIND_RECURS [0x2A, 0x2E, 0x6C, 0x3F, 0x67, 0] [0x61, 0x2E, 0x4C, 0x4F, 0x47, 0] 0 = Some True
   \<and> pattern_match FIND_RECURS [0x2A, 0x2E, 0x6C, 0x3F, 0x67, 0] [0x61, 0x2E, 0x4C, 0x47, 0] 0 = Some False"
proof -
  have "denotes [0x2A, 0x2E, 0x6C, 0x3F, 0x67, 0]
      [Many, Lit (up_of (ucast (0x2E :: u8))), Lit (up_of (ucast (0x6C :: u8))), One, Lit (up_of (ucast (0x67 :: u8)))]"
    by (intro denotes.one denotes.many denotes.at_end spells_ascii(2)) (simp_all add: is_wild_def)
  then have pat: "denotes [0x2A, 0x2E, 0x6C, 0x3F, 0x67, 0] [Many, Lit 0x2E, Lit 0x4C, One, Lit 0x47]"
    by (simp add: up_of_ascii)
  have "spells [0x61, 0x2E, 0x4C, 0x4F, 0x47, 0] (map (\<lambda>b :: u8. up_of (ucast b)) [0x61, 0x2E, 0x4C, 0x4F, 0x47])"
    "spells [0x61, 0x2E, 0x4C, 0x47, 0] (map (\<lambda>b :: u8. up_of (ucast b)) [0x61, 0x2E, 0x4C, 0x47])"
    unfolding list.map by (intro spells.at_end spells_ascii(1); simp)+
  then have nam: "spells [0x61, 0x2E, 0x4C, 0x4F, 0x47, 0] [0x41, 0x2E, 0x4C, 0x4F, 0x47]"
    "spells [0x61, 0x2E, 0x4C, 0x47, 0] [0x41, 0x2E, 0x4C, 0x47]"
    by (simp_all add: up_of_ascii)
  have bounds: "terms [Many, Lit 0x2E, Lit 0x4C, One, Lit 0x47] \<le> FIND_RECURS" "length [Many, Lit 0x2E, Lit 0x4C, One, Lit 0x47] < 256"
    by (simp_all add: terms_def FIND_RECURS_def)
  have "glob_match [Many, Lit 0x2E, Lit 0x4C, One, Lit 0x47] [0x41, 0x2E, 0x4C, 0x4F, 0x47]"
    "\<not> glob_match [Many, Lit 0x2E, Lit 0x4C, One, Lit 0x47] [0x41, 0x2E, 0x4C, 0x47]"
    by (simp_all add: glob_match.simps(3) upt_rec)
  then show ?thesis
    using pattern_match_meaning [OF pat nam(1) bounds] pattern_match_meaning [OF pat nam(2) bounds] by simp
qed

text \<open>
  The question marks of a term are counted in the same word as the flag of an asterisk: 256 of them are
  one asterisk, and match every name.
\<close>

lemma wild_term_marks: "wild_term (replicate n 0x3F @ 0 # r) sk = Some (sk + of_nat n, 0 # r)"
proof (induction n arbitrary: sk)
  case 0
  have "(0 :: u8) \<noteq> 0x3F" "(0 :: u8) \<noteq> 0x2A" by simp_all
  then show ?case by (simp del: word_eq_numeral_iff_iszero)
qed (simp add: algebra_simps)

lemma marks_are_asterisk: "wild_term (replicate 256 0x3F @ 0 # r) 0 = wild_term (0x2A # 0 # r) 0"
  unfolding wild_term_marks by simp

end
