(* ===== verification/Ff_Walk.thy ===== *)
theory Ff_Walk
  imports Ff_Path Ff_Volume
begin

text \<open>
  Walking over the entries of a directory of a FAT volume. A directory is a table of entries: the
  sectors of the root directory, or the clusters of a chain. The lemmas show that \<open>dir_sdi\<close> and
  \<open>dir_next\<close> go over it in order, and that a directory is a list of entries of 32 octets.
\<close>

section \<open>A directory as a table\<close>

datatype table = Root | Clusters "u32 list"

definition dir_size :: "fatfs \<Rightarrow> table \<Rightarrow> nat" where
  "dir_size fs T = (case T of Root \<Rightarrow> unat (n_rootdir fs) | Clusters xs \<Rightarrow> 16 * unat (csize fs) * length xs)"

text \<open>The sector and the cluster of entry \<open>k\<close>.\<close>

definition entry_sector :: "fatfs \<Rightarrow> table \<Rightarrow> nat \<Rightarrow> u64" where
  "entry_sector fs T k = (case T of Root \<Rightarrow> dirbase fs + of_nat (k div 16)
     | Clusters xs \<Rightarrow> clst2sect fs (xs ! (k div 16 div unat (csize fs))) + of_nat (k div 16 mod unat (csize fs)))"

definition entry_cluster :: "fatfs \<Rightarrow> table \<Rightarrow> nat \<Rightarrow> u32" where
  "entry_cluster fs T k = (case T of Root \<Rightarrow> 0 | Clusters xs \<Rightarrow> xs ! (k div 16 div unat (csize fs)))"

definition start_cluster :: "fatfs \<Rightarrow> u32 \<Rightarrow> u32" where
  "start_cluster fs c = (if c = 0 \<and> FS_FAT32 \<le> fs_type fs then ucast (dirbase fs) else c)"

text \<open>The table of the directory that starts at cluster \<open>c\<close>: it is not too large, and its sectors are ones the disk keeps.\<close>

definition dir_table :: "('d \<Rightarrow> u64 \<Rightarrow> u8 list) \<Rightarrow> fatfs \<Rightarrow> 'd \<Rightarrow> u32 \<Rightarrow> table \<Rightarrow> bool" where
  "dir_table cont fs d c T \<longleftrightarrow>
     (case T of Root \<Rightarrow> start_cluster fs c = 0 \<and> unat (n_rootdir fs) mod 16 = 0
      | Clusters xs \<Rightarrow> start_cluster fs c \<noteq> 0 \<and> chain (fat_entry cont fs d) fs (start_cluster fs c) xs)
     \<and> (\<exists>j < 16. csize fs = 2 ^ j) \<and> 0 < dir_size fs T \<and> dir_size fs T \<le> 65536
     \<and> (\<forall>k < dir_size fs T. plain fs (entry_sector fs T k) \<and> entry_sector fs T k \<noteq> 0)"

definition at_entry :: "fatfs \<Rightarrow> table \<Rightarrow> nat \<Rightarrow> dir_object \<Rightarrow> bool" where
  "at_entry fs T k dp \<longleftrightarrow> dptr dp = of_nat (32 * k) \<and> dp_sect dp = entry_sector fs T k \<and> dp_dir dp = 32 * (k mod 16)
     \<and> dp_clust dp = entry_cluster fs T k"

text \<open>The octets of entry \<open>k\<close>.\<close>

definition dir_entry :: "('d \<Rightarrow> u64 \<Rightarrow> u8 list) \<Rightarrow> fatfs \<Rightarrow> 'd \<Rightarrow> table \<Rightarrow> nat \<Rightarrow> u8 list" where
  "dir_entry cont fs d T k = take 32 (drop (32 * (k mod 16)) (shown cont fs d (entry_sector fs T k)))"

definition dir_entries :: "('d \<Rightarrow> u64 \<Rightarrow> u8 list) \<Rightarrow> fatfs \<Rightarrow> 'd \<Rightarrow> table \<Rightarrow> u8 list list" where
  "dir_entries cont fs d T = map (dir_entry cont fs d T) [0..<dir_size fs T]"

lemma moved_more:
  assumes "moved fs fs'"
  shows "n_rootdir fs' = n_rootdir fs" "dirbase fs' = dirbase fs" "database fs' = database fs"
    "lfnbuf fs' = lfnbuf fs" "dirbuf fs' = dirbuf fs" "cdir fs' = cdir fs"
  using assms by (cases fs; cases fs'; simp add: moved_def)+

lemma clst2sect_moved: "moved fs fs' \<Longrightarrow> clst2sect fs' c = clst2sect fs c"
  by (simp add: clst2sect_def moved_fields moved_more Let_def)

lemma moved_table:
  assumes "moved fs fs'"
  shows "dir_size fs' T = dir_size fs T" "entry_sector fs' T k = entry_sector fs T k" "entry_cluster fs' T k = entry_cluster fs T k"
    "start_cluster fs' c = start_cluster fs c" "at_entry fs' T k dp = at_entry fs T k dp" "max_dir fs' = max_dir fs"
  using moved_fields [OF assms] moved_more [OF assms] clst2sect_moved [OF assms]
  by (cases T; simp add: dir_size_def entry_sector_def entry_cluster_def start_cluster_def at_entry_def max_dir_def)+

lemma same_table_moved: "same_table io cont fs d fs' d' \<Longrightarrow> moved fs fs'"
  by (simp add: same_table_def)

lemma same_table_mounted: "same_table io cont fs d fs' d' \<Longrightarrow> mounted io cont fs' d'"
  by (simp add: same_table_def)

lemma same_table_volume_ok: "same_table io cont fs d fs' d' \<Longrightarrow> volume_ok fs"
  using volume_ok_moved [of fs fs'] by (simp add: same_table_def mounted_def)

lemma same_table_dir:
  assumes "same_table io cont fs d fs' d'" and "dir_table cont fs d c T"
  shows "dir_table cont fs' d' c T" and "dir_entries cont fs' d' T = dir_entries cont fs d T"
proof -
  note m = same_table_moved [OF assms(1)]
  have chain: "chain (fat_entry cont fs' d') fs' (start_cluster fs c) xs" if "chain (fat_entry cont fs d) fs (start_cluster fs c) xs" for xs
    using chain_cong [OF that same_fat_moved [OF m]] same_table_fat(3) [OF assms(1) same_table_volume_ok [OF assms(1)]] chain_in_fat [OF that]
    by blast
  show "dir_table cont fs' d' c T"
    using assms(2) chain moved_table [OF m] plain_moved [OF m] moved_fields(10) [OF m] moved_more(1) [OF m]
    by (auto simp: dir_table_def split: table.splits)
  have "shown cont fs' d' (entry_sector fs T k) = shown cont fs d (entry_sector fs T k)" if "k < dir_size fs T" for k
    using assms that by (simp add: same_table_def dir_table_def)
  then show "dir_entries cont fs' d' T = dir_entries cont fs d T"
    by (simp add: dir_entries_def dir_entry_def moved_table [OF m])
qed

lemma chain_nth:
  assumes "chain T fs c xs" and "i < length xs"
  shows "in_fat fs (xs ! i) \<and> (\<exists>v. T (xs ! i) = Some v \<and> 2 \<le> v \<and> v \<noteq> 0xFFFFFFFF
     \<and> (if Suc i < length xs then v = xs ! Suc i \<and> \<not> n_fatent fs \<le> v else n_fatent fs \<le> v))"
  using assms
proof (induction xs arbitrary: c i rule: list.induct)
  case (Cons x xs)
  obtain v where v: "x = c" "in_fat fs c" "T c = Some v" "2 \<le> v" "v \<noteq> 0xFFFFFFFF"
    "if n_fatent fs \<le> v then xs = [] else chain T fs v xs" using Cons.prems(1) by (auto simp: chain_Cons)
  show ?case
  proof (cases i)
    case 0
    have "xs \<noteq> [] \<Longrightarrow> v = xs ! 0" using v(6) by (cases xs) (auto simp: chain_Cons split: if_splits)
    then show ?thesis using v 0 by (cases "n_fatent fs \<le> v"; cases xs) simp_all
  next
    case (Suc j)
    then have "chain T fs v xs" "j < length xs" using v(6) Cons.prems(2) by (auto split: if_splits)
    then show ?thesis using Cons.IH [of v j] Suc by (cases "Suc j < length xs") auto
  qed
qed simp

section \<open>Going to the next entry\<close>

lemma unat_csize: "csize fs = 2 ^ j \<Longrightarrow> j < 16 \<Longrightarrow> unat (csize fs) = 2 ^ j"
proof -
  assume c: "csize fs = 2 ^ j" and "j < 16"
  then have lt: "(2 :: nat) ^ j < 2 ^ 16" by (intro power_strict_increasing) simp_all
  have "unat (of_nat m :: u16) = m" if "m < 2 ^ 16" for m
    using that by (simp add: unat_of_nat take_bit_nat_eq_self)
  from this [OF lt] have "unat (of_nat (2 ^ j) :: u16) = 2 ^ j" .
  moreover have "csize fs = of_nat (2 ^ j)" using c by simp
  ultimately show ?thesis by (simp only:)
qed

lemma cluster_part:
  assumes "csize fs = 2 ^ j" and "j < 16" and "n < 2 ^ 32"
  shows "(of_nat n :: u32) AND (ucast (csize fs) - 1) = of_nat (n mod unat (csize fs))"
proof -
  have "(ucast (csize fs) :: u32) - 1 = mask j"
  proof -
    have "(ucast (csize fs) :: u32) = 2 ^ j"
    proof -
      have "(ucast (csize fs) :: u32) = of_nat (unat (csize fs))" by (simp add: of_nat_unat)
      then show ?thesis unfolding unat_csize [OF assms(1,2)] by simp
    qed
    then show ?thesis by (simp add: mask_eq_exp_minus_1)
  qed
  then have "(of_nat n :: u32) AND (ucast (csize fs) - 1) = take_bit j (of_nat n)" by (simp add: take_bit_eq_mask)
  also have "\<dots> = of_nat (take_bit j n)" by (rule take_bit_of_nat)
  also have "\<dots> = of_nat (n mod 2 ^ j)" by (simp only: take_bit_eq_mod)
  finally show ?thesis using unat_csize [OF assms(1,2)] by simp
qed


lemma word_small: "n < 2 ^ 32 \<Longrightarrow> unat (of_nat n :: u32) = n"
  by (simp add: unat_of_nat take_bit_nat_eq_self)

lemma word_zero: "n < 2 ^ 32 \<Longrightarrow> (of_nat n :: u32) = 0 \<longleftrightarrow> n = 0"
  unfolding unat_eq_zero [symmetric] by (simp only: word_small)

lemma word_nat_div: "n < 2 ^ 32 \<Longrightarrow> m < 2 ^ 32 \<Longrightarrow> (of_nat n :: u32) div of_nat m = of_nat (n div m)"
  using word_small [of "n div m"] le_less_trans [OF div_le_dividend [of n m], of "2 ^ 32"]
  by (simp add: word_unat_eq_iff unat_div word_small)

lemma word_nat_mod: "n < 2 ^ 32 \<Longrightarrow> m < 2 ^ 32 \<Longrightarrow> (of_nat n :: u32) mod of_nat m = of_nat (n mod m)"
  using word_small [of "n mod m"] le_less_trans [OF mod_less_eq_dividend [of n m], of "2 ^ 32"]
  by (simp add: word_unat_eq_iff unat_mod word_small)

text \<open>Numbers of entries and the offsets they stand for.\<close>

lemma offset_div:
  assumes "k \<le> 65536"
  shows "of_nat (32 * k) div (32 :: u32) = of_nat k" "of_nat (32 * k) div (512 :: u32) = of_nat (k div 16)"
    "unat (of_nat (32 * k) mod (512 :: u32)) = 32 * (k mod 16)" "of_nat (32 * k) mod (32 :: u32) = 0"
    "unat (of_nat (32 * k) :: u32) = 32 * k"
proof -
  have n: "32 * k < 2 ^ 32" using assms by simp
  show "unat (of_nat (32 * k) :: u32) = 32 * k" using n by (rule word_small)
  show "of_nat (32 * k) div (32 :: u32) = of_nat k" using word_nat_div [OF n, of 32] by simp
  have "32 * k div 512 = k div 16" by simp
  then show "of_nat (32 * k) div (512 :: u32) = of_nat (k div 16)" using word_nat_div [OF n, of 512] by simp
  have "32 * k mod 512 = 32 * (k mod 16)" using mod_mult_mult1 [of 32 k 16] by simp
  then show "unat (of_nat (32 * k) mod (512 :: u32)) = 32 * (k mod 16)"
    using word_nat_mod [OF n, of 512] word_small [of "32 * (k mod 16)"] by simp
  show "of_nat (32 * k) mod (32 :: u32) = 0" using word_nat_mod [OF n, of 32] by simp
qed

lemma dir_tableD:
  assumes "dir_table cont fs d c T"
  shows "dir_size fs T \<le> 65536" "0 < dir_size fs T" "dir_size fs T mod 16 = 0"
    and "k < dir_size fs T \<Longrightarrow> plain fs (entry_sector fs T k) \<and> entry_sector fs T k \<noteq> 0"
    and "T = Root \<Longrightarrow> start_cluster fs c = 0"
    and "T = Clusters xs \<Longrightarrow> start_cluster fs c \<noteq> 0 \<and> chain (fat_entry cont fs d) fs (start_cluster fs c) xs"
    and "0 < unat (csize fs)" and "n < 2 ^ 32 \<Longrightarrow> (of_nat n :: u32) AND (ucast (csize fs) - 1) = of_nat (n mod unat (csize fs))"
proof -
  obtain j where j: "j < 16" "csize fs = 2 ^ j" using assms by (auto simp: dir_table_def)
  show "0 < unat (csize fs)" using unat_csize [OF j(2,1)] by simp
  show "n < 2 ^ 32 \<Longrightarrow> (of_nat n :: u32) AND (ucast (csize fs) - 1) = of_nat (n mod unat (csize fs))"
    by (rule cluster_part [OF j(2,1)])
  show "dir_size fs T mod 16 = 0" using assms by (cases T) (auto simp: dir_table_def dir_size_def)
qed (use assms in \<open>auto simp: dir_table_def\<close>)

lemma next_within:
  assumes "m \<noteq> 0" and "(k + 1) mod m \<noteq> 0"
  shows "(k + 1) div m = k div m \<and> (k + 1) mod m = k mod m + (1 :: nat)"
  using assms by (simp add: div_Suc mod_Suc split: if_splits)

lemma next_at_start:
  assumes "m \<noteq> 0" and "(k + 1) mod m = 0"
  shows "(k + 1) div m = k div m + (1 :: nat)"
  using assms by (simp add: div_Suc mod_Suc split: if_splits)

text \<open>The rest of the object is not changed by a step.\<close>

definition same_object_name :: "dir_object \<Rightarrow> dir_object \<Rightarrow> bool" where
  "same_object_name dp dp' \<longleftrightarrow> dp_obj dp' = dp_obj dp \<and> fn dp' = fn dp \<and> blk_ofs dp' = blk_ofs dp"

lemma dir_next_walk:
  assumes m: "mounted io cont fs d" and r: "disk_returns io (pdrv fs)" and T: "dir_table cont fs d c T"
    and k: "k < dir_size fs T" and at: "at_entry fs T k dp"
  shows "\<exists>res dp' fs' d'. dir_next io False dp fs d = Some (res, dp', fs', d') \<and> same_table io cont fs d fs' d'
     \<and> same_object_name dp dp'
     \<and> (res = FR_DISK_ERR \<or> (if k + 1 < dir_size fs T then res = FR_OK \<and> at_entry fs T (k + 1) dp'
          else res = FR_NO_FILE \<and> dp_sect dp' = 0))"
proof -
  note t = dir_tableD [OF T]
  have refl: "same_table io cont fs d fs d" using m by (rule same_table_refl)
  have max: "max_dir fs = 0x200000"
    using volume_okD(4) [OF mountedD(3) [OF m]] by (auto simp: max_dir_def MAX_DIR_def fs_types)
  have le: "k + 1 \<le> 65536" using k t(1) by simp
  note o1 = offset_div [OF le]
  have ofs: "dptr dp + 32 = of_nat (32 * (k + 1))" using at by (simp add: at_entry_def)
  have sect: "dp_sect dp = entry_sector fs T k" "entry_sector fs T k \<noteq> 0" using at t(4) [OF k] by (auto simp: at_entry_def)
  show ?thesis
  proof (cases "k + 1 = 65536")
    case True
    then have "max_dir fs \<le> dptr dp + 32" unfolding ofs max by (simp add: word_le_nat_alt)
    then have "dir_next io False dp fs d = Some (FR_NO_FILE, dp\<lparr>dp_sect := 0\<rparr>, fs, d)" by (simp add: dir_next_def)
    moreover have "\<not> k + 1 < dir_size fs T" using True t(1) by simp
    ultimately show ?thesis using refl by (auto simp: same_object_name_def)
  next
    case False
    then have small: "\<not> max_dir fs \<le> dptr dp + 32" unfolding ofs max word_le_nat_alt o1(5) using le by simp
    have sector: "(dptr dp + 32) mod 512 = 0 \<longleftrightarrow> (k + 1) mod 16 = 0"
      unfolding ofs unat_eq_zero [symmetric] o1(3) by simp
    have step: "dir_next io False dp fs d = do {
        (res, dp, fs, d) \<leftarrow>
          (if (k + 1) mod 16 = 0 then
             let dp = dp\<lparr>dp_sect := dp_sect dp + 1\<rparr> in
             if dp_clust dp = 0 then
               Some (if dir_size fs Root \<le> k + 1 then (FR_NO_FILE, dp\<lparr>dp_sect := 0\<rparr>, fs, d) else (FR_OK, dp, fs, d))
             else if (k + 1) div 16 mod unat (csize fs) = 0 then next_cluster io False dp fs d
             else Some (FR_OK, dp, fs, d)
           else Some (FR_OK, dp, fs, d));
        Some (res, if res = FR_OK then dp\<lparr>dptr := of_nat (32 * (k + 1)), dp_dir := 32 * ((k + 1) mod 16)\<rparr> else dp, fs, d) }"
    proof -
      have "(of_nat ((k + 1) div 16) :: u32) AND (ucast (csize fs) - 1) = of_nat ((k + 1) div 16 mod unat (csize fs))"
        using le by (intro t(8)) simp
      moreover have "(of_nat ((k + 1) div 16 mod unat (csize fs)) :: u32) = 0 \<longleftrightarrow> (k + 1) div 16 mod unat (csize fs) = 0"
      proof -
        have "(k + 1) div 16 mod unat (csize fs) \<le> (k + 1) div 16" by (rule mod_less_eq_dividend)
        also have "\<dots> < 2 ^ 32" using le by simp
        finally show ?thesis by (rule word_zero)
      qed
      ultimately have part: "((of_nat ((k + 1) div 16) :: u32) AND (ucast (csize fs) - 1) = 0) = ((k + 1) div 16 mod unat (csize fs) = 0)"
        by (simp only:)
      have root: "(ucast (n_rootdir fs) \<le> (of_nat (k + 1) :: u32)) = (dir_size fs Root \<le> k + 1)"
        using word_small [of "k + 1"] le unsigned_less [of "n_rootdir fs", where ?'a = nat]
        by (simp add: word_le_nat_alt dir_size_def unsigned_ucast_eq take_bit_nat_eq_self)
      have f: "(max_dir fs \<le> of_nat (32 * (k + 1))) = False" "(dp_sect dp = 0) = False" using small sect by (simp_all only: ofs)
      show ?thesis
        unfolding dir_next_def Let_def by (simp only: ofs f if_False sector [unfolded ofs] o1(1-3) part root)
    qed
    have entry: ?thesis
      if s: "dir_next io False dp fs d = Some (FR_OK, dp'\<lparr>dptr := of_nat (32 * (k + 1)), dp_dir := 32 * ((k + 1) mod 16)\<rparr>, fs', d')"
        and "same_table io cont fs d fs' d'" and "same_object_name dp dp'" and "k + 1 < dir_size fs T"
        and "dp_sect dp' = entry_sector fs T (k + 1)" "dp_clust dp' = entry_cluster fs T (k + 1)" for dp' fs' d'
      using that by (auto simp: same_object_name_def at_entry_def)
    have over: ?thesis
      if s: "dir_next io False dp fs d = Some (FR_NO_FILE, dp', fs', d')"
        and "same_table io cont fs d fs' d'" and "same_object_name dp dp'" and "\<not> k + 1 < dir_size fs T" "dp_sect dp' = 0" for dp' fs' d'
      using that by auto
    show ?thesis
    proof (cases "(k + 1) mod 16 = 0")
      case False
      then have same: "(k + 1) div 16 = k div 16" using next_within [of 16 k] by simp
      have "k + 1 \<noteq> dir_size fs T" using False t(3) by auto
      then show ?thesis
        using False at same k
        by (intro entry [of dp fs d]) (auto simp: step refl same_object_name_def at_entry_def entry_sector_def entry_cluster_def split: table.splits)
    next
      case new: True
      then have next_sector: "(k + 1) div 16 = k div 16 + 1" by (rule next_at_start [rotated]) simp
      show ?thesis
      proof (cases T)
        case Root
        then have clust: "dp_clust dp = 0" using at by (simp add: at_entry_def entry_cluster_def)
        show ?thesis
        proof (cases "k + 1 < dir_size fs T")
          case True
          have "\<not> dir_size fs table.Root \<le> k + 1" using True Root by simp
          then show ?thesis
            using new clust at True
            by (intro entry [of "dp\<lparr>dp_sect := dp_sect dp + 1\<rparr>" fs d])
              (auto simp: step refl same_object_name_def at_entry_def entry_sector_def entry_cluster_def Root next_sector [simplified])
        next
          case False
          then have "dir_size fs table.Root \<le> k + 1" using Root by simp
          then show ?thesis using new clust False
            by (intro over [of "dp\<lparr>dp_sect := 0\<rparr>" fs d]) (simp_all add: step refl same_object_name_def)
        qed
      next
        case (Clusters xs)
        define cs where "cs = unat (csize fs)"
        define i where "i = k div 16 div cs"
        have cs: "cs \<noteq> 0" using t(7) by (simp add: cs_def)
        have size: "dir_size fs T = 16 * (cs * length xs)" by (simp add: Clusters dir_size_def cs_def)
        have chain: "chain (fat_entry cont fs d) fs (start_cluster fs c) xs" using t(6) [OF Clusters] by simp
        have i: "i < length xs" using k size cs by (simp add: i_def less_mult_imp_div_less mult.commute)
        obtain v where in_fat: "in_fat fs (xs ! i)" and v: "fat_entry cont fs d (xs ! i) = Some v" "2 \<le> v" "v \<noteq> 0xFFFFFFFF"
          "if Suc i < length xs then v = xs ! Suc i \<and> \<not> n_fatent fs \<le> v else n_fatent fs \<le> v"
          using chain_nth [OF chain i] by blast
        have clust: "dp_clust dp = xs ! i" using at by (simp add: at_entry_def entry_cluster_def Clusters i_def cs_def)
        have nz: "xs ! i \<noteq> 0" using in_fat by (auto simp: in_fat_def word_le_nat_alt)
        show ?thesis
        proof (cases "(k + 1) div 16 mod cs = 0")
          case False
          have n: "(k div 16 + 1) div cs = k div 16 div cs" "(k div 16 + 1) mod cs = k div 16 mod cs + 1"
            using next_within [OF cs, of "k div 16"] False next_sector by auto
          have "k + 1 \<noteq> dir_size fs T" using False size by auto
          then have lt: "k + 1 < dir_size fs T" using k by simp
          show ?thesis
            using new clust nz at lt False n unfolding cs_def
            by (intro entry [of "dp\<lparr>dp_sect := dp_sect dp + 1\<rparr>" fs d])
              (auto simp: step refl same_object_name_def at_entry_def entry_sector_def entry_cluster_def Clusters next_sector [simplified] algebra_simps)
        next
          case cluster: True
          have n: "(k + 1) div 16 div cs = Suc i" using next_at_start [OF cs, of "k div 16"] cluster next_sector by (simp add: i_def)
          have last: "k + 1 < dir_size fs T \<longleftrightarrow> Suc i < length xs"
          proof -
            have "k + 1 = 16 * (cs * Suc i)"
              using new cluster n by (metis add.right_neutral div_mult_mod_eq mult.commute)
            then show ?thesis unfolding size using cs by (simp only: mult_less_cancel1) simp
          qed
          obtain v' fs1 d1 where g: "get_fat io (dp_obj dp) (xs ! i) fs d = Some (v', fs1, d1)"
            and st: "same_table io cont fs d fs1 d1" and v': "v' = 0xFFFFFFFF \<or> fat_entry cont fs d (xs ! i) = Some v'"
            by (rule get_fat_returns [OF m r in_fat])
          note mv = same_table_moved [OF st]
          let ?dp = "dp\<lparr>dp_sect := dp_sect dp + 1\<rparr>"
          have nxt: "dir_next io False dp fs d = do {
             (res, dp, fs, d) \<leftarrow> next_cluster io False ?dp fs d;
             Some (res, if res = FR_OK then dp\<lparr>dptr := of_nat (32 * (k + 1)), dp_dir := 32 * ((k + 1) mod 16)\<rparr> else dp, fs, d) }"
            using step new clust nz cluster by (simp add: cs_def)
          show ?thesis
          proof (cases "v' = 0xFFFFFFFF")
            case True
            then have "next_cluster io False ?dp fs d = Some (FR_DISK_ERR, ?dp, fs1, d1)"
              using g clust by (simp add: next_cluster_def word_le_nat_alt)
            then show ?thesis using nxt st by (auto simp: same_object_name_def)
          next
            case False
            then have v': "v' = v" using v' v(1) by simp
            have two: "\<not> v \<le> 1" using v(2) by (auto simp: word_le_nat_alt)
            show ?thesis
            proof (cases "Suc i < length xs")
              case True
              then have "v < n_fatent fs1" "v = xs ! Suc i" using v(4) moved_fields(5) [OF mv] by auto
              then have "next_cluster io False ?dp fs d = Some (FR_OK, ?dp\<lparr>dp_clust := v, dp_sect := clst2sect fs1 v\<rparr>, fs1, d1)"
                using g clust v' two v(3) by (simp add: next_cluster_def)
              then show ?thesis
                using nxt st True last \<open>v = xs ! Suc i\<close> cluster n clst2sect_moved [OF mv]
                by (intro entry [of "?dp\<lparr>dp_clust := v, dp_sect := clst2sect fs1 v\<rparr>" fs1 d1])
                  (auto simp: same_object_name_def entry_sector_def entry_cluster_def Clusters cs_def)
            next
              case False
              then have "\<not> v < n_fatent fs1" using v(4) moved_fields(5) [OF mv] by auto
              then have "next_cluster io False ?dp fs d = Some (FR_NO_FILE, ?dp\<lparr>dp_sect := 0\<rparr>, fs1, d1)"
                using g clust v' two v(3) by (simp add: next_cluster_def)
              then show ?thesis using nxt st False last by (intro over [of "?dp\<lparr>dp_sect := 0\<rparr>" fs1 d1]) (simp_all add: same_object_name_def)
            qed
          qed
        qed
      qed
    qed
  qed
qed

section \<open>Going to an entry\<close>

text \<open>The loop of \<open>dir_sdi\<close> at cluster \<open>i\<close> of the chain, with \<open>R\<close> octets left to go.\<close>

lemma sdi_loop_walk:
  assumes m: "mounted io cont fs d" and r: "disk_returns io (pdrv fs)"
    and chain: "chain (fat_entry cont fs d) fs c xs" and i: "i + R div csz < length xs"
    and R: "R < 2 ^ 32" and csz: "0 < csz" "csz < 2 ^ 32"
  shows "\<exists>res clst ofs fs' d'. sdi_loop io obj (of_nat csz) (xs ! i) (of_nat R) fs d = Some (res, clst, ofs, fs', d')
     \<and> same_table io cont fs d fs' d'
     \<and> (res = FR_DISK_ERR \<or> res = FR_OK \<and> clst = xs ! (i + R div csz) \<and> ofs = of_nat (R mod csz))"
  using assms
proof (induction "R div csz" arbitrary: i R fs d)
  case 0
  then have "R < csz" by (simp add: div_eq_0_iff)
  then have "\<not> (of_nat csz :: u32) \<le> of_nat R" using word_small [of csz] word_small [of R] 0 by (simp add: word_le_nat_alt)
  then show ?case
    using 0 \<open>R < csz\<close> same_table_refl by (subst sdi_loop.simps) (auto simp: div_eq_0_iff)
next
  case (Suc q)
  note prems = Suc.prems
  have ge: "csz \<le> R" using Suc(2) div_less [of R csz] by (metis Suc_neq_Zero linorder_not_le)
  then have w: "(of_nat csz :: u32) \<le> of_nat R" using word_small [of csz] word_small [of R] prems by (simp add: word_le_nat_alt)
  have q: "q = (R - csz) div csz" "R div csz = Suc q" "(R - csz) mod csz = R mod csz"
    using Suc(2) le_div_geq [OF prems(6) ge] le_mod_geq [OF ge] by simp_all
  have i: "i < length xs" "Suc i < length xs" "Suc i + (R - csz) div csz < length xs" using prems(4) q by auto
  obtain v where fat: "in_fat fs (xs ! i)" "fat_entry cont fs d (xs ! i) = Some v" "2 \<le> v" "v \<noteq> 0xFFFFFFFF"
    "v = xs ! Suc i" "\<not> n_fatent fs \<le> v"
    using chain_nth [OF prems(3) i(1)] i(2) by auto
  obtain v' fs1 d1 where g: "get_fat io obj (xs ! i) fs d = Some (v', fs1, d1)"
    and st: "same_table io cont fs d fs1 d1" and v': "v' = 0xFFFFFFFF \<or> fat_entry cont fs d (xs ! i) = Some v'"
    by (rule get_fat_returns [OF prems(1,2) fat(1)])
  note mv = same_table_moved [OF st]
  show ?case
  proof (cases "v' = 0xFFFFFFFF")
    case True
    then show ?thesis using g w st by (subst sdi_loop.simps) auto
  next
    case False
    then have v: "v' = xs ! Suc i" using v' fat(2,5) by simp
    have "\<not> (v' < 2 \<or> n_fatent fs1 \<le> v')" using fat v moved_fields(5) [OF mv] by simp
    then have step: "sdi_loop io obj (of_nat csz) (xs ! i) (of_nat R) fs d
        = sdi_loop io obj (of_nat csz) (xs ! Suc i) (of_nat (R - csz)) fs1 d1"
      using g w False v ge by (subst sdi_loop.simps) (simp add: of_nat_diff)
    have chain1: "chain (fat_entry cont fs1 d1) fs1 c xs"
      using chain_cong [OF prems(3) same_fat_moved [OF mv]] same_table_fat(3) [OF st same_table_volume_ok [OF st]] chain_in_fat [OF prems(3)]
      by blast
    have r1: "disk_returns io (pdrv fs1)" using prems(2) moved_fields(1) [OF mv] by simp
    have "R - csz < 2 ^ 32" using prems(5) by simp
    from Suc.hyps(1) [OF q(1) same_table_mounted [OF st] r1 chain1 i(3) this prems(6,7)]
    obtain res clst ofs fs' d' where l: "sdi_loop io obj (of_nat csz) (xs ! Suc i) (of_nat (R - csz)) fs1 d1 = Some (res, clst, ofs, fs', d')"
      and st': "same_table io cont fs1 d1 fs' d'"
      and res: "res = FR_DISK_ERR \<or> res = FR_OK \<and> clst = xs ! (Suc i + (R - csz) div csz) \<and> ofs = of_nat ((R - csz) mod csz)"
      by blast
    have idx: "Suc i + (R - csz) div csz = i + R div csz" using q by simp
    show ?thesis using step l same_table_trans [OF st st'] res [unfolded idx q(3)] by auto
  qed
qed

lemma dir_sdi_walk:
  assumes m: "mounted io cont fs d" and r: "disk_returns io (pdrv fs)" and T: "dir_table cont fs d (sclust (dp_obj dp)) T"
    and k: "k < dir_size fs T"
  shows "\<exists>res dp' fs' d'. dir_sdi io (of_nat (32 * k)) dp fs d = Some (res, dp', fs', d') \<and> same_table io cont fs d fs' d'
     \<and> fn dp' = fn dp \<and> blk_ofs dp' = blk_ofs dp \<and> sclust (dp_obj dp') = sclust (dp_obj dp)
     \<and> (res = FR_DISK_ERR \<or> res = FR_OK \<and> at_entry fs T k dp')"
proof -
  note t = dir_tableD [OF T]
  have refl: "same_table io cont fs d fs d" using m by (rule same_table_refl)
  have max: "max_dir fs = 0x200000"
    using volume_okD(4) [OF mountedD(3) [OF m]] by (auto simp: max_dir_def MAX_DIR_def fs_types)
  have le: "k < 65536" "k \<le> 65536" using k t(1) by simp_all
  note o1 = offset_div [OF le(2)]
  have small: "(max_dir fs \<le> of_nat (32 * k)) = False" unfolding max word_le_nat_alt o1(5) using le by simp
  define root where "root \<longleftrightarrow> sclust (dp_obj dp) = 0 \<and> FS_FAT32 \<le> fs_type fs"
  define dp1 where "dp1 = (let dp = dp\<lparr>dptr := of_nat (32 * k)\<rparr> in if root then dp\<lparr>dp_obj := (dp_obj dp)\<lparr>stat := 0\<rparr>\<rparr> else dp)"
  have dp1: "fn dp1 = fn dp" "blk_ofs dp1 = blk_ofs dp" "sclust (dp_obj dp1) = sclust (dp_obj dp)" "dptr dp1 = of_nat (32 * k)"
    by (simp_all add: dp1_def Let_def)
  define clst where "clst = start_cluster fs (sclust (dp_obj dp))"
  have clst: "(if root then ucast (dirbase fs) else sclust (dp_obj dp)) = clst" by (auto simp: clst_def root_def start_cluster_def)
  have unfold: "dir_sdi io (of_nat (32 * k)) dp fs d =
      (if clst = 0 then
          if ucast (n_rootdir fs) \<le> (of_nat k :: u32) then Some (FR_INT_ERR, dp1, fs, d)
          else (case sdi_finish (dirbase fs) clst (of_nat (32 * k)) dp1 of (res, dp) \<Rightarrow> Some (res, dp, fs, d))
        else do {
          (res, clst, ofs, fs, d) \<leftarrow> sdi_loop io (dp_obj dp1) (ucast (csize fs) * 512) clst (of_nat (32 * k)) fs d;
          if res \<noteq> FR_OK then Some (res, dp1, fs, d)
          else (case sdi_finish (clst2sect fs clst) clst ofs dp1 of (res, dp) \<Rightarrow> Some (res, dp, fs, d)) })"
  proof (cases root)
    case True
    then have "clst = ucast (dirbase fs)" using clst by simp
    then show ?thesis using True unfolding dir_sdi_def small o1(1,4) dp1_def Let_def root_def by simp
  next
    case False
    then have "clst = sclust (dp_obj dp)" using clst by simp
    then show ?thesis using False unfolding dir_sdi_def small o1(1,4) dp1_def Let_def root_def by simp
  qed
  show ?thesis
  proof (cases T)
    case Root
    have c: "clst = 0" using t(5) Root by (simp add: clst_def)
    have n: "\<not> ucast (n_rootdir fs) \<le> (of_nat k :: u32)"
      using k word_small [of k] le unsigned_less [of "n_rootdir fs", where ?'a = nat]
      by (simp add: Root word_le_nat_alt dir_size_def unsigned_ucast_eq take_bit_nat_eq_self)
    have nz: "dirbase fs \<noteq> 0" using t(4) [of 0] t(2) Root by (simp add: entry_sector_def)
    have "(ucast (of_nat (k div 16) :: u32) :: u64) = of_nat (k div 16)"
      using le word_small [of "k div 16"] by (simp add: word_unat_eq_iff unsigned_ucast_eq unat_of_nat take_bit_nat_eq_self)
    then have "sdi_finish (dirbase fs) clst (of_nat (32 * k)) dp1
        = (FR_OK, dp1\<lparr>dp_sect := entry_sector fs T k, dp_clust := 0, dp_dir := 32 * (k mod 16)\<rparr>)"
      unfolding sdi_finish_def Let_def o1(2,3) using c nz by (simp add: Root entry_sector_def)
    then show ?thesis unfolding unfold using c n dp1 refl by (simp add: at_entry_def Root entry_cluster_def)
  next
    case (Clusters xs)
    define cs where "cs = unat (csize fs)"
    have cs: "0 < cs" "cs < 65536" using t(7) unsigned_less [of "csize fs", where ?'a = nat] by (simp_all add: cs_def)
    have c: "clst \<noteq> 0" and chain: "chain (fat_entry cont fs d) fs clst xs" using t(6) [OF Clusters] by (simp_all add: clst_def)
    have size: "dir_size fs T = 16 * (cs * length xs)" by (simp add: Clusters dir_size_def cs_def)
    have csz: "(ucast (csize fs) * 512 :: u32) = of_nat (512 * cs)" by (simp add: cs_def of_nat_unat)
    have q: "32 * k div (512 * cs) = k div 16 div cs" "32 * k mod (512 * cs) = 32 * (k mod (16 * cs))"
    proof -
      have "32 * k div (512 * cs) = (32 * k) div (32 * (16 * cs))" by simp
      also have "\<dots> = k div (16 * cs)" by (rule div_mult_mult1) simp
      finally show "32 * k div (512 * cs) = k div 16 div cs" by (simp add: div_mult2_eq)
      show "32 * k mod (512 * cs) = 32 * (k mod (16 * cs))" using mod_mult_mult1 [of 32 k "16 * cs"] by simp
    qed
    have i: "k div 16 div cs < length xs" using k size cs by (simp add: less_mult_imp_div_less mult.commute)
    have first: "xs ! 0 = clst" using chain i by (cases xs) (auto simp: chain_Cons)
    have "0 + 32 * k div (512 * cs) < length xs" "32 * k < 2 ^ 32" "0 < 512 * cs" "512 * cs < 2 ^ 32"
      unfolding q using i le cs by simp_all
    from sdi_loop_walk [OF m r chain this, of "dp_obj dp1"]
    obtain res cl ofs fs1 d1 where l: "sdi_loop io (dp_obj dp1) (of_nat (512 * cs)) clst (of_nat (32 * k)) fs d = Some (res, cl, ofs, fs1, d1)"
      and st: "same_table io cont fs d fs1 d1"
      and res: "res = FR_DISK_ERR \<or> res = FR_OK \<and> cl = xs ! (k div 16 div cs) \<and> ofs = of_nat (32 * (k mod (16 * cs)))"
      unfolding q first by auto
    show ?thesis
    proof (cases "res = FR_OK")
      case False
      then show ?thesis unfolding unfold csz using l c st res dp1 by auto
    next
      case True
      then have cl: "cl = xs ! (k div 16 div cs)" "ofs = of_nat (32 * (k mod (16 * cs)))" using res by auto
      have le': "k mod (16 * cs) \<le> 65536" by (rule le_trans [OF mod_less_eq_dividend le(2)])
      note o2 = offset_div [OF this]
      have parts: "k mod (16 * cs) div 16 = k div 16 mod cs" "k mod (16 * cs) mod 16 = k mod 16"
        using mod_mult2_eq [of k 16 cs] by simp_all
      have u: "(ucast (of_nat (k div 16 mod cs) :: u32) :: u64) = of_nat (k div 16 mod cs)"
      proof -
        have "k div 16 mod cs < 65536" using le' parts(1) by simp
        then show ?thesis using word_small [of "k div 16 mod cs"]
          by (simp add: word_unat_eq_iff unsigned_ucast_eq unat_of_nat take_bit_nat_eq_self)
      qed
      have sect: "clst2sect fs1 cl \<noteq> 0"
      proof -
        have "16 * cs * (k div 16 div cs) < dir_size fs T" unfolding size using i cs by simp
        from t(4) [OF this] have "entry_sector fs T (16 * cs * (k div 16 div cs)) \<noteq> 0" ..
        then show ?thesis using cs by (simp add: entry_sector_def Clusters cs_def [symmetric] cl clst2sect_moved [OF same_table_moved [OF st]])
      qed
      have "sdi_finish (clst2sect fs1 cl) cl ofs dp1
          = (FR_OK, dp1\<lparr>dp_sect := entry_sector fs T k, dp_clust := cl, dp_dir := 32 * (k mod 16)\<rparr>)"
        unfolding sdi_finish_def Let_def cl(2) o2(2,3) parts u
        using sect by (simp add: Clusters entry_sector_def cs_def [symmetric] cl clst2sect_moved [OF same_table_moved [OF st]])
      then show ?thesis unfolding unfold csz using l True c st dp1
        by (simp add: at_entry_def Clusters entry_cluster_def cl cs_def)
    qed
  qed
qed

end
