(* ===== verification/Ff_Lookup.thy ===== *)
theory Ff_Lookup
  imports Ff_Walk
begin

text \<open>
  Finding a name in a directory of a FAT volume. A directory is a list of entries, and finding a name
  is a search of that list by a small automaton that follows the parts of long names; \<open>dir_find\<close>
  implements it, on whatever sectors the list lies. A name that was stored is found, whatever its case.
\<close>

section \<open>An entry by itself\<close>

definition entry_of :: "u8 list \<Rightarrow> nat \<Rightarrow> u8 list" where "entry_of w p = take 32 (drop p w)"

lemma entry_length: "p + 32 \<le> length w \<Longrightarrow> length (entry_of w p) = 32"
  by (simp add: entry_of_def)

lemma entry_rd: "p + 32 \<le> length w \<Longrightarrow> q < 32 \<Longrightarrow> rd w (p + q) = rd (entry_of w p) q"
  by (simp add: rd_def entry_of_def)

lemma entry_nth: "p + 32 \<le> length w \<Longrightarrow> q < 32 \<Longrightarrow> w ! (p + q) = entry_of w p ! q"
  by (simp add: entry_of_def)

lemma entry_ld: "p + 32 \<le> length w \<Longrightarrow> q + 2 \<le> 32 \<Longrightarrow> ld_word w (p + q) = ld_word (entry_of w p) q"
  by (simp add: ld_word_eq entry_of_def add.assoc)

lemma entry_cmp_loop:
  "p + 32 \<le> length w \<Longrightarrow> \<forall>x \<in> set ofs. x + 2 \<le> 32 \<Longrightarrow>
   cmp_lfn_loop lfn w p ofs i wc = cmp_lfn_loop lfn (entry_of w p) 0 ofs i wc"
  by (induction ofs arbitrary: i wc) (simp_all add: entry_ld cong: if_cong)

lemma entry_cmp: "p + 32 \<le> length w \<Longrightarrow> cmp_lfn lfn w p = cmp_lfn lfn (entry_of w p) 0"
  by (simp add: cmp_lfn_def lfn_fields(1,5) entry_cmp_loop [OF _ LfnOfs_cells(3)] entry_ld entry_rd [of p w 0, simplified] cong: if_cong)

lemma entry_sum: "p + 32 \<le> length w \<Longrightarrow> sum_sfn w p = sum_sfn (entry_of w p) 0"
  by (simp add: sum_sfn_eq entry_of_def)

text \<open>Comparing a part of a name reads within the buffer.\<close>

lemma cmp_loop_total:
  assumes "length lfn = 256" and "\<forall>x \<in> set ofs. x + 2 \<le> length e"
  shows "\<exists>r. cmp_lfn_loop lfn e 0 ofs i wc = Some r
     \<and> (\<forall>i' wc'. r = Some (i', wc') \<longrightarrow> wc' \<noteq> 0 \<longrightarrow> wc \<noteq> 0 \<and> unat i' = unat i + length ofs \<and> (ofs \<noteq> [] \<longrightarrow> unat i + length ofs \<le> 256))"
  using assms(2)
proof (induction ofs arbitrary: i wc)
  case (Cons q ofs)
  obtain uc where uc: "ld_word e q = Some uc" using Cons.prems by (auto simp: ld_word_eq)
  show ?case
  proof (cases "wc \<noteq> 0 \<and> unat i < 256")
    case True
    then have "unat (i + 1) = unat i + 1" by (simp add: unat_word_ariths)
    then show ?thesis
      using Cons.IH [of "i + 1" uc] Cons.prems True assms(1) uc
      by (auto simp: ff_wtoupper_up_of rd_def FF_MAX_LFN_def)
  next
    case False
    then show ?thesis using Cons.IH [of i wc] Cons.prems uc by (auto simp: FF_MAX_LFN_def)
  qed
qed simp

lemma cmp_lfn_total:
  assumes "length lfn = 256" and "length e = 32"
  shows "\<exists>b. cmp_lfn lfn e 0 = Some b"
proof -
  define i where "i = (ucast (e ! 0 AND 0x3F) - 1) * (13 :: u32)"
  have cells: "LfnOfs \<noteq> []" "\<forall>x \<in> set LfnOfs. x + 2 \<le> length e" using LfnOfs_cells assms by auto
  obtain r where r: "cmp_lfn_loop lfn e 0 LfnOfs i 1 = Some r"
    and i': "\<And>i' wc'. r = Some (i', wc') \<Longrightarrow> wc' \<noteq> 0 \<Longrightarrow> unat i' = unat i + 13 \<and> unat i + 13 \<le> 256"
    using cmp_loop_total [of lfn LfnOfs e i 1] assms LfnOfs_cells cells by fastforce
  have step: "unat i + 13 \<le> 256 \<Longrightarrow> unat i + 13 < 256"
  proof -
    assume lt: "unat i + 13 \<le> 256"
    define a where "a = unat (ucast (e ! 0 AND 0x3F) :: u32)"
    have "(e ! 0 AND 0x3F) = take_bit 6 (e ! 0)" by (simp add: take_bit_eq_mask mask_eq_exp_minus_1)
    then have "unat (e ! 0 AND 0x3F) < 2 ^ 6" by (simp only: unsigned_take_bit_eq take_bit_nat_less_exp)
    then have a: "a < 64" by (simp add: a_def unsigned_ucast_eq take_bit_nat_eq_self)
    have i: "i = (of_nat a - 1) * 13" by (simp add: i_def a_def)
    show ?thesis
    proof (cases a)
      case 0
      then show ?thesis using lt by (simp add: i)
    next
      case (Suc b)
      then have "unat i = 13 * b" using a by (simp add: i unat_word_ariths unat_of_nat take_bit_nat_eq_self)
      then show ?thesis using lt by presburger
    qed
  qed
  have ld: "\<exists>z. ld_word e 26 = Some z" "rd e 0 = Some (e ! 0)" using assms(2) by (simp_all add: ld_word_eq rd_def)
  then show ?thesis
    using r i' step assms(1) unfolding i_def
    by (auto simp: cmp_lfn_def lfn_fields(1,5) rd_def split: option.splits if_splits)
qed

section \<open>The search\<close>

text \<open>
  The state of the search: the part of a long name that is due, its checksum, and the offset the name
  starts at. An object is found with its number, that offset and its attributes.
\<close>

type_synonym search = "u8 \<times> u8 \<times> u32"

definition attr_of :: "u8 list \<Rightarrow> u8" where "attr_of e = e ! 11 AND 0x3F"

definition long_start :: "nat \<Rightarrow> u8 list \<Rightarrow> search \<Rightarrow> search" where
  "long_start k e s = (case s of (ord, sm, blk) \<Rightarrow>
     if e ! 0 AND 0x40 \<noteq> 0 then (e ! 0 AND NOT 0x40, e ! 13, of_nat (32 * k)) else (ord, sm, blk))"

definition long_step :: "u16 list \<Rightarrow> nat \<Rightarrow> u8 list \<Rightarrow> search \<Rightarrow> search" where
  "long_step lfn k e s = (case long_start k e s of (ord, sm, blk) \<Rightarrow>
     (if (if e ! 0 AND 0x40 \<noteq> 0 then e ! 0 AND NOT 0x40 else e ! 0) = ord \<and> sm = e ! 13 \<and> cmp_lfn lfn e 0 = Some True
      then ord - 1 else 0xFF, sm, blk))"

definition short_match :: "u8 list \<Rightarrow> u8 list \<Rightarrow> search \<Rightarrow> bool" where
  "short_match sfn e s = (case s of (ord, sm, blk) \<Rightarrow>
     ord = 0 \<and> sum_sfn e 0 = Some sm \<or> sfn ! 11 AND NS_LOSS = 0 \<and> take 11 e = take 11 sfn)"

fun search_dir :: "u16 list \<Rightarrow> u8 list \<Rightarrow> nat \<Rightarrow> search \<Rightarrow> u8 list list \<Rightarrow> (nat \<times> u32 \<times> u8) option" where
  "search_dir lfn sfn k s [] = None"
| "search_dir lfn sfn k s (e # es) =
     (if e ! 0 = 0 then None
      else if e ! 0 = DDEM \<or> attr_of e AND AM_VOL \<noteq> 0 \<and> attr_of e \<noteq> AM_LFN then
        search_dir lfn sfn (Suc k) (0xFF, fst (snd s), no_block_ofs) es
      else if attr_of e = AM_LFN then
        search_dir lfn sfn (Suc k) (if sfn ! 11 AND NS_NOLFN \<noteq> 0 then s else long_step lfn k e s) es
      else if short_match sfn e s then Some (k, snd (snd s), attr_of e)
      else search_dir lfn sfn (Suc k) (0xFF, fst (snd s), no_block_ofs) es)"

text \<open>\<open>find_entry\<close> is a step of the search.\<close>

lemma find_entry_step:
  assumes w: "length (win fs) = 512" "dp_dir dp + 32 \<le> 512" and lfn: "length (lfnbuf fs) = 256" and name: "length (fn dp) = 12"
    and k: "dptr dp = of_nat (32 * k)" and e: "e = entry_of (win fs) (dp_dir dp)"
  shows "find_entry (e ! 0) ord sm dp fs = Some (
      if e ! 0 = DDEM \<or> attr_of e AND AM_VOL \<noteq> 0 \<and> attr_of e \<noteq> AM_LFN then
        (False, 0xFF, sm, (set_attr (attr_of e) dp)\<lparr>blk_ofs := no_block_ofs\<rparr>)
      else if attr_of e = AM_LFN then
        (case (if fn dp ! 11 AND NS_NOLFN \<noteq> 0 then (ord, sm, blk_ofs dp) else long_step (lfnbuf fs) k e (ord, sm, blk_ofs dp)) of
           (ord, sm, blk) \<Rightarrow> (False, ord, sm, (set_attr (attr_of e) dp)\<lparr>blk_ofs := blk\<rparr>))
      else if short_match (fn dp) e (ord, sm, blk_ofs dp) then (True, ord, sm, set_attr (attr_of e) dp)
      else (False, 0xFF, sm, (set_attr (attr_of e) dp)\<lparr>blk_ofs := no_block_ofs\<rparr>))"
proof -
  have p: "dp_dir dp + 32 \<le> length (win fs)" using w by simp
  have len: "length e = 32" unfolding e by (rule entry_length [OF p])
  have oct: "entry_octet (set_attr a dp) fs q = Some (e ! q)" "entry_octet dp fs q = Some (e ! q)"
    "entry_octet (set_attr a dp\<lparr>blk_ofs := b\<rparr>) fs q = Some (e ! q)" if "q < 32" for q a b
    using entry_rd [OF p that] len that by (simp_all add: entry_octet_def set_attr_def rd_def e)
  have same: "set_attr a dp\<lparr>blk_ofs := blk_ofs dp\<rparr> = set_attr a dp" for a by (simp add: set_attr_def)
  obtain b where b: "cmp_lfn (lfnbuf fs) e 0 = Some b" using cmp_lfn_total [OF lfn len] by blast
  have cmp: "cmp_lfn (lfnbuf fs) (win fs) (dp_dir dp) = Some b" using b entry_cmp [OF p] by (simp add: e)
  obtain sum where sum: "sum_sfn e 0 = Some sum" using len by (simp add: sum_sfn_eq)
  have sum': "sum_sfn (win fs) (dp_dir dp) = Some sum" using sum entry_sum [OF p] by (simp add: e)
  have flags: "rd (fn (set_attr a dp)) NSFLAG = Some (fn dp ! 11)" "rd (fn dp) NSFLAG = Some (fn dp ! 11)" for a using name by (simp_all add: rd_def NSFLAG_def set_attr_def)
  obtain r where r: "mem_cmp (win fs) (dp_dir dp) (fn dp) 0 11 = Some r" "r = 0 \<longleftrightarrow> take 11 e = take 11 (fn dp)"
    using mem_cmp_same [of 11 "dp_dir dp" "win fs" 0 "fn dp"] p name by (auto simp: e entry_of_def min_def)
  have f: "dp_dir (set_attr a dp) = dp_dir dp" "fn (set_attr a dp) = fn dp" "dptr (set_attr a dp) = dptr dp"
    "blk_ofs (set_attr a dp) = blk_ofs dp" for a by (simp_all add: set_attr_def)
  consider (skip) "e ! 0 = DDEM \<or> attr_of e AND AM_VOL \<noteq> 0 \<and> attr_of e \<noteq> AM_LFN"
    | (long) "\<not> (e ! 0 = DDEM \<or> attr_of e AND AM_VOL \<noteq> 0 \<and> attr_of e \<noteq> AM_LFN)" "attr_of e = AM_LFN"
    | (short) "\<not> (e ! 0 = DDEM \<or> attr_of e AND AM_VOL \<noteq> 0 \<and> attr_of e \<noteq> AM_LFN)" "attr_of e \<noteq> AM_LFN" by blast
  then show ?thesis
  proof cases
    case skip
    then show ?thesis unfolding find_entry_def oct(2) [OF , of 11] by (simp add: oct DIR_Attr_def flags attr_of_def AM_MASK_def)
  next
    case long
    have g: "blk_ofs (set_attr a dp\<lparr>blk_ofs := x\<rparr>) = x" "dp_dir (set_attr a dp\<lparr>blk_ofs := x\<rparr>) = dp_dir dp" for a x
      by (simp_all add: set_attr_def)
    have start: "lfn_start (e ! 0) ord sm (set_attr a dp) fs =
      (if e ! 0 AND 0x40 \<noteq> 0 then Some (e ! 0 AND NOT 0x40, e ! 0 AND NOT 0x40, e ! 13, set_attr a dp\<lparr>blk_ofs := of_nat (32 * k)\<rparr>)
       else Some (e ! 0, ord, sm, set_attr a dp))" for a
      unfolding lfn_start_def lfn_fields LLEF_def by (simp only: oct f k) (simp add: Let_def)
    show ?thesis
    proof (cases "fn dp ! 11 AND NS_NOLFN \<noteq> 0")
      case True
      then show ?thesis using long unfolding find_entry_def
        by (simp add: oct DIR_Attr_def flags attr_of_def [symmetric] AM_MASK_def same Let_def cong: if_cong)
    next
      case nolfn: False
      show ?thesis
      proof (cases "e ! 0 AND 0x40 \<noteq> 0")
        case True
        show ?thesis using long nolfn unfolding find_entry_def long_step_def long_start_def
          by (simp add: oct DIR_Attr_def flags attr_of_def [symmetric] AM_MASK_def start True lfn_due_def lfn_fields b cmp f g same Let_def del: of_nat_mult cong: if_cong)
      next
        case False
        show ?thesis using long nolfn unfolding find_entry_def long_step_def long_start_def
          by (simp add: oct DIR_Attr_def flags attr_of_def [symmetric] AM_MASK_def start False lfn_due_def lfn_fields b cmp f g same Let_def cong: if_cong)
      qed
    qed
  next
    case short
    then show ?thesis
      unfolding find_entry_def
      by (cases "ord = 0 \<and> sm = sum"; cases "r = 0")
        (auto simp: oct DIR_Attr_def flags attr_of_def [symmetric] AM_MASK_def Let_def sfn_matches_sum_def short_match_def sum sum' f r cong: if_cong)
  qed
qed

lemma long_step_pair: "\<exists>ord sm blk. long_step lfn k e s = (ord, sm, blk)"
  by (cases "long_step lfn k e s") auto

text \<open>The loop is the search.\<close>

lemma find_items_walk:
  assumes "mounted io cont fs d" and "disk_returns io (pdrv fs)" and "dir_table cont fs d c T"
    and "k < dir_size fs T" and "at_entry fs T k dp" and "length (lfnbuf fs) = 256" and "length (fn dp) = 12"
  shows "\<exists>res dp' fs' d'. find_items io ord sm dp fs d = Some (res, dp', fs', d') \<and> same_table io cont fs d fs' d'
     \<and> (res = FR_DISK_ERR \<or>
        (case search_dir (lfnbuf fs) (fn dp) k (ord, sm, blk_ofs dp) (drop k (dir_entries cont fs d T)) of
           None \<Rightarrow> res = FR_NO_FILE
         | Some (j, blk, a) \<Rightarrow> res = FR_OK \<and> at_entry fs T j dp' \<and> blk_ofs dp' = blk \<and> obj_attr (dp_obj dp') = a))"
  using assms
proof (induction "dir_size fs T - k" arbitrary: k ord sm dp fs d rule: less_induct)
  case less
  note m = less.prems(1) and r = less.prems(2) and T = less.prems(3) and k = less.prems(4) and at = less.prems(5)
    and lfn = less.prems(6) and name = less.prems(7)
  have s: "dp_sect dp = entry_sector fs T k" "plain fs (entry_sector fs T k)" "dptr dp = of_nat (32 * k)" "dp_dir dp = 32 * (k mod 16)"
    using at T k by (auto simp: at_entry_def dir_table_def)
  obtain res fs1 d1 where mv: "move_window io (dp_sect dp) fs d = Some (res, fs1, d1)"
    using move_window_returns [OF r mountedD(1,2) [OF m]] by (metis prod_cases3 not_Some_eq)
  note mp = move_plain [OF m _ mv, unfolded s(1), OF s(2)]
  have mf: "moved fs fs1" using mp(1) by (rule same_table_moved)
  have keep: "lfnbuf fs1 = lfnbuf fs" "pdrv fs1 = pdrv fs" "dir_size fs1 T = dir_size fs T"
    using moved_more [OF mf] moved_fields [OF mf] moved_table [OF mf] by simp_all
  define es where "es = dir_entries cont fs d T"
  show ?case
  proof (cases "res = FR_OK")
    case False
    then show ?thesis using mp(1,2) mv by (subst find_items.simps) auto
  next
    case True
    define e where "e = dir_entry cont fs d T k"
    have w: "win fs1 = shown cont fs d (entry_sector fs T k)" using mp(3) True by simp
    have len: "length (win fs1) = 512" unfolding w by (rule length_shown [OF m])
    have room: "dp_dir dp + 32 \<le> 512" unfolding s(4) by simp
    have e': "e = entry_of (win fs1) (dp_dir dp)" by (simp add: e_def dir_entry_def entry_of_def w s(4))
    have e0: "entry_octet dp fs1 DIR_Name = Some (e ! 0)"
      using room len entry_nth [of "dp_dir dp" "win fs1" 0] by (simp add: entry_octet_def DIR_Name_def rd_def e')
    have drop: "drop k es = e # drop (Suc k) es" "length es = dir_size fs T"
      using k Cons_nth_drop_Suc [of k es] by (simp_all add: es_def dir_entries_def e_def)
    note step = find_entry_step [of fs1 dp, OF len room _ name s(3) e', of ord sm, unfolded keep(1), OF lfn]
    have T1: "dir_table cont fs1 d1 c T" "dir_entries cont fs1 d1 T = es"
      using same_table_dir [OF mp(1) T] by (simp_all add: es_def)
    have next_step: ?thesis
      if f: "find_entry (e ! 0) ord sm dp fs1 = Some (False, ord2, sm2, dp2)" and zero: "e ! 0 \<noteq> 0"
        and same: "dptr dp2 = dptr dp" "dp_sect dp2 = dp_sect dp" "dp_dir dp2 = dp_dir dp" "dp_clust dp2 = dp_clust dp" "fn dp2 = fn dp"
        and search: "search_dir (lfnbuf fs) (fn dp) k (ord, sm, blk_ofs dp) (drop k es) =
          search_dir (lfnbuf fs) (fn dp) (Suc k) (ord2, sm2, blk_ofs dp2) (drop (Suc k) es)" for ord2 sm2 dp2
    proof -
      have at2: "at_entry fs1 T k dp2" using at same moved_table [OF mf] by (simp add: at_entry_def)
      obtain res3 dp3 fs3 d3 where n: "dir_next io False dp2 fs1 d1 = Some (res3, dp3, fs3, d3)"
          "same_table io cont fs1 d1 fs3 d3" "same_object_name dp2 dp3"
        and res3: "res3 = FR_DISK_ERR \<or> (if k + 1 < dir_size fs1 T then res3 = FR_OK \<and> at_entry fs1 T (k + 1) dp3
            else res3 = FR_NO_FILE \<and> dp_sect dp3 = 0)"
        using dir_next_walk [OF same_table_mounted [OF mp(1)] _ T1(1) _ at2] r k keep by auto
      have tr: "same_table io cont fs d fs3 d3" using mp(1) n(2) by (rule same_table_trans)
      have unfold: "find_items io ord sm dp fs d = (if res3 = FR_OK then find_items io ord2 sm2 dp3 fs3 d3 else Some (res3, dp3, fs3, d3))"
        using mv True e0 zero f n(1) by (subst find_items.simps) auto
      consider "res3 = FR_DISK_ERR" | "res3 = FR_OK" "k + 1 < dir_size fs T" "at_entry fs1 T (k + 1) dp3"
        | "res3 = FR_NO_FILE" "\<not> k + 1 < dir_size fs T" using res3 keep by (auto split: if_splits)
      then show ?thesis
      proof cases
        case 1
        then show ?thesis using unfold tr by auto
      next
        case 2
        note mf3 = same_table_moved [OF tr]
        have T3: "dir_table cont fs3 d3 c T" "dir_entries cont fs3 d3 T = es"
          using same_table_dir [OF tr T] by (simp_all add: es_def)
        have at3: "at_entry fs3 T (Suc k) dp3" using 2(3) moved_table [OF same_table_moved [OF n(2)]] by simp
        have more: "lfnbuf fs3 = lfnbuf fs" "pdrv fs3 = pdrv fs" "dir_size fs3 T = dir_size fs T" "fn dp3 = fn dp" "blk_ofs dp3 = blk_ofs dp2"
          using moved_more [OF mf3] moved_fields [OF mf3] moved_table [OF mf3] n(3) same by (auto simp: same_object_name_def)
        have lt: "dir_size fs3 T - Suc k < dir_size fs T - k" using more(3) k by simp
        obtain res4 dp4 fs4 d4 where ih: "find_items io ord2 sm2 dp3 fs3 d3 = Some (res4, dp4, fs4, d4)" "same_table io cont fs3 d3 fs4 d4"
          "res4 = FR_DISK_ERR \<or> (case search_dir (lfnbuf fs) (fn dp) (Suc k) (ord2, sm2, blk_ofs dp2) (drop (Suc k) es) of
             None \<Rightarrow> res4 = FR_NO_FILE
           | Some (j, blk, a) \<Rightarrow> res4 = FR_OK \<and> at_entry fs3 T j dp4 \<and> blk_ofs dp4 = blk \<and> obj_attr (dp_obj dp4) = a)"
          using less.hyps [OF lt same_table_mounted [OF tr] _ T3(1) _ at3, of ord2 sm2] T3(2) more r lfn name 2(2) by auto
        then show ?thesis
          using unfold 2 same_table_trans [OF tr ih(2)] search moved_table [OF mf3] unfolding es_def [symmetric]
          by (auto split: option.splits)
      next
        case 3
        then have "drop (Suc k) es = []" using drop(2) by simp
        then show ?thesis using unfold 3 tr search unfolding es_def [symmetric] by auto
      qed
    qed
    show ?thesis
    proof (cases "e ! 0 = 0")
      case True
      then have "find_items io ord sm dp fs d = Some (FR_NO_FILE, dp, fs1, d1)"
        using mv \<open>res = FR_OK\<close> e0 by (subst find_items.simps) auto
      then show ?thesis using mp(1) True drop(1) unfolding es_def [symmetric] by auto
    next
      case zero: False
      have sf: "dptr (set_attr a dp) = dptr dp" "dp_sect (set_attr a dp) = dp_sect dp" "dp_dir (set_attr a dp) = dp_dir dp"
        "dp_clust (set_attr a dp) = dp_clust dp" "fn (set_attr a dp) = fn dp" "blk_ofs (set_attr a dp) = blk_ofs dp"
        "obj_attr (dp_obj (set_attr a dp)) = a" for a by (simp_all add: set_attr_def)
      let ?skip = "e ! 0 = DDEM \<or> attr_of e AND AM_VOL \<noteq> 0 \<and> attr_of e \<noteq> AM_LFN"
      consider (skip) "?skip" | (long) "\<not> ?skip" "attr_of e = AM_LFN"
        | (found) "\<not> ?skip" "attr_of e \<noteq> AM_LFN" "short_match (fn dp) e (ord, sm, blk_ofs dp)"
        | (other) "\<not> ?skip" "attr_of e \<noteq> AM_LFN" "\<not> short_match (fn dp) e (ord, sm, blk_ofs dp)" by blast
      then show ?thesis
      proof cases
        case skip
        show ?thesis
          by (rule next_step [OF step [unfolded if_P [OF skip]] zero]) (use skip zero in \<open>simp_all add: sf drop(1)\<close>)
      next
        case long
        obtain ord2 sm2 blk2 where s2: "(if fn dp ! 11 AND NS_NOLFN \<noteq> 0 then (ord, sm, blk_ofs dp)
            else long_step (lfnbuf fs) k e (ord, sm, blk_ofs dp)) = (ord2, sm2, blk2)" by (rule prod_cases3)
        have f: "find_entry (e ! 0) ord sm dp fs1 = Some (False, ord2, sm2, (set_attr (attr_of e) dp)\<lparr>blk_ofs := blk2\<rparr>)"
          unfolding step if_not_P [OF long(1)] if_P [OF long(2)] s2 by simp
        have "search_dir (lfnbuf fs) (fn dp) k (ord, sm, blk_ofs dp) (drop k es) =
            search_dir (lfnbuf fs) (fn dp) (Suc k) (ord2, sm2, blk2) (drop (Suc k) es)"
          unfolding drop(1) search_dir.simps if_not_P [OF zero] if_not_P [OF long(1)] if_P [OF long(2)] s2 ..
        then show ?thesis by (intro next_step [OF f zero]) (simp_all add: sf)
      next
        case found
        then have "find_items io ord sm dp fs d = Some (FR_OK, set_attr (attr_of e) dp, fs1, d1)"
          using mv \<open>res = FR_OK\<close> e0 zero step by (subst find_items.simps) auto
        moreover have "at_entry fs T k (set_attr (attr_of e) dp)" using at by (simp add: at_entry_def sf)
        ultimately show ?thesis using mp(1) found zero drop(1) sf unfolding es_def [symmetric] by auto
      next
        case other
        show ?thesis
          by (rule next_step [OF step [unfolded if_not_P [OF other(1)] if_not_P [OF other(2)] if_not_P [OF other(3)]] zero])
            (use other zero in \<open>simp_all add: sf drop(1)\<close>)
      qed
    qed
  qed
qed

text \<open>
  C19. \<open>dir_find\<close> on a directory of a FAT volume always returns, and on every return but a report of an
  error of the disk it gives the result of the search of the list of entries of the directory: the
  object is where the search says, with the offset of its name and its attributes, or there is none.
\<close>

theorem dir_find_refines:
  assumes "mounted io cont fs d" and "disk_returns io (pdrv fs)" and "dir_table cont fs d (sclust (dp_obj dp)) T"
    and "length (lfnbuf fs) = 256" and "length (fn dp) = 12"
  shows "\<exists>res dp' fs' d'. dir_find io dp fs d = Some (res, dp', fs', d') \<and> mounted io cont fs' d'
     \<and> (res = FR_DISK_ERR \<or>
        (case search_dir (lfnbuf fs) (fn dp) 0 (0xFF, 0xFF, no_block_ofs) (dir_entries cont fs d T) of
           None \<Rightarrow> res = FR_NO_FILE
         | Some (k, blk, a) \<Rightarrow> res = FR_OK \<and> at_entry fs T k dp' \<and> blk_ofs dp' = blk \<and> obj_attr (dp_obj dp') = a))"
proof -
  have "0 < dir_size fs T" using assms(3) by (simp add: dir_table_def)
  from dir_sdi_walk [OF assms(1-3) this] obtain res dp1 fs1 d1 where
    s: "dir_sdi io 0 dp fs d = Some (res, dp1, fs1, d1)" "same_table io cont fs d fs1 d1" "fn dp1 = fn dp"
    "res = FR_DISK_ERR \<or> res = FR_OK \<and> at_entry fs T 0 dp1" by auto
  note mf = same_table_moved [OF s(2)]
  have fat: "fs_type fs1 \<noteq> FS_EXFAT"
    using volume_okD(4) [OF mountedD(3) [OF assms(1)]] moved_fields [OF mf] by (auto simp: fs_types)
  show ?thesis
  proof (cases "res = FR_OK")
    case False
    then show ?thesis using s same_table_mounted [OF s(2)] by (auto simp: dir_find_def)
  next
    case True
    let ?dp = "dp1\<lparr>blk_ofs := no_block_ofs\<rparr>"
    have at: "at_entry fs1 T 0 ?dp" using s(4) True moved_table [OF mf] by (simp add: at_entry_def)
    obtain res2 dp2 fs2 d2 where "find_items io 0xFF 0xFF ?dp fs1 d1 = Some (res2, dp2, fs2, d2)" "same_table io cont fs1 d1 fs2 d2"
      "res2 = FR_DISK_ERR \<or> (case search_dir (lfnbuf fs) (fn dp) 0 (0xFF, 0xFF, no_block_ofs) (dir_entries cont fs d T) of
         None \<Rightarrow> res2 = FR_NO_FILE
       | Some (j, blk, a) \<Rightarrow> res2 = FR_OK \<and> at_entry fs T j dp2 \<and> blk_ofs dp2 = blk \<and> obj_attr (dp_obj dp2) = a)"
      using find_items_walk [OF same_table_mounted [OF s(2)] _ same_table_dir(1) [OF s(2) assms(3)] _ at, where ord = "0xFF" and sm = "0xFF"]
        assms \<open>0 < dir_size fs T\<close> s(3) moved_table [OF mf] moved_fields [OF mf] moved_more [OF mf] same_table_dir(2) [OF s(2) assms(3)]
      by (auto split: option.splits prod.splits)
    moreover from this(2) have "mounted io cont fs2 d2" by (rule same_table_mounted)
    ultimately show ?thesis using s(1) True fat by (auto simp: dir_find_def)
  qed
qed

section \<open>A stored name is found\<close>

lemma search_dir_append:
  "search_dir lfn sfn k s pre = None \<Longrightarrow> \<forall>e \<in> set pre. e ! 0 \<noteq> 0 \<Longrightarrow>
   \<exists>s'. \<forall>es. search_dir lfn sfn k s (pre @ es) = search_dir lfn sfn (k + length pre) s' es"
proof (induction pre arbitrary: k s)
  case (Cons e pre)
  have "\<exists>s1. \<forall>es. search_dir lfn sfn k s (e # es) = search_dir lfn sfn (Suc k) s1 es"
    using Cons.prems
    by (intro exI [of _ "if e ! 0 = DDEM \<or> attr_of e AND AM_VOL \<noteq> 0 \<and> attr_of e \<noteq> AM_LFN \<or> attr_of e \<noteq> AM_LFN
        then (0xFF, fst (snd s), no_block_ofs) else if sfn ! 11 AND NS_NOLFN \<noteq> 0 then s else long_step lfn k e s"])
      (auto split: if_splits)
  then obtain s1 where s1: "\<forall>es. search_dir lfn sfn k s (e # es) = search_dir lfn sfn (Suc k) s1 es" by blast
  then obtain s' where "\<forall>es. search_dir lfn sfn (Suc k) s1 (pre @ es) = search_dir lfn sfn (Suc k + length pre) s' es"
    using Cons.IH [of "Suc k" s1] Cons.prems by force
  then show ?case using s1 by (intro exI [of _ s']) simp
qed auto

lemma part_number:
  assumes "1 \<le> n" and "n \<le> 20"
  shows "(of_nat n :: u8) \<noteq> 0" "(of_nat n OR LLEF :: u8) \<noteq> 0" "(of_nat n :: u8) \<noteq> DDEM" "(of_nat n OR LLEF :: u8) \<noteq> DDEM"
    "(of_nat n :: u8) - 1 = of_nat (n - 1)"
proof -
  have u: "unat (of_nat n :: u8) = n" using assms by (simp add: unat_of_nat take_bit_nat_eq_self)
  note o = order_octet [of n]
  show "(of_nat n :: u8) \<noteq> 0" using u assms(1) by auto
  show "(of_nat n OR LLEF :: u8) \<noteq> 0"
  proof
    assume "(of_nat n OR LLEF :: u8) = 0"
    then show False using o(6) assms by simp
  qed
  have "unat DDEM = 229" by (simp add: DDEM_def)
  then show "(of_nat n :: u8) \<noteq> DDEM" using u assms by auto
  show "(of_nat n OR LLEF :: u8) \<noteq> DDEM"
  proof
    assume "of_nat n OR LLEF = DDEM"
    then have "of_nat n = DDEM AND NOT LLEF" using o(4) assms by simp
    then have "unat (of_nat n :: u8) = 165" by (simp add: DDEM_def LLEF_def)
    then show False using u assms by simp
  qed
  show "(of_nat n :: u8) - 1 = of_nat (n - 1)" using assms(1) by simp
qed

text \<open>A part of the name that is due makes the next one due.\<close>

lemma long_step_part:
  assumes nm: "0 \<notin> set nm" "length nm \<le> 255" and lfn: "holds_name lfn nm'" "same_name nm nm'"
    and n: "1 \<le> n" "13 * (n - 1) < length nm" "n \<le> N" "13 * (N - 1) < length nm" "length nm \<le> 13 * N"
    and e: "lfn_entry nm n chk e 0" and s: "n = N \<and> blk = of_nat (32 * k) \<or> n \<noteq> N \<and> s = (of_nat n, chk, blk)"
  shows "search_dir lfn sfn k s (e # es) = search_dir lfn sfn (Suc k)
      (if sfn ! 11 AND NS_NOLFN \<noteq> 0 then s else (of_nat (n - 1), chk, blk)) es"
proof -
  have n20: "n \<le> 20" using n nm(2) by simp
  have ord: "e ! 0 = (if length nm \<le> 13 * n then of_nat n OR LLEF else of_nat n)" and attr: "attr_of e = AM_LFN" and sm: "e ! 13 = chk"
    using e by (simp_all add: lfn_entry_def lfn_fields attr_of_def AM_LFN_def)
  have last: "length nm \<le> 13 * n \<longleftrightarrow> n = N" using n by (cases n; cases N) auto
  have "part_agrees nm lfn n" using all_parts_agree [OF nm(1) lfn(1) n(4,5)] lfn(2) n by blast
  then have cmp: "cmp_lfn lfn e 0 = Some True"
    using cmp_lfn_entry [OF nm holds_nameD(2) [OF lfn(1)] e n(1,2)] by simp
  note o = order_octet [of n] part_number [OF n(1) n20]
  have live: "e ! 0 \<noteq> 0" "e ! 0 \<noteq> DDEM" using ord o(7-10) by simp_all
  have "long_step lfn k e s = (of_nat (n - 1), chk, blk)"
  proof (cases "n = N")
    case True
    then have "e ! 0 = of_nat n OR LLEF" using ord last by simp
    then show ?thesis using o n20 s True sm cmp by (cases s) (simp add: long_step_def long_start_def LLEF_def)
  next
    case False
    then have "e ! 0 = of_nat n" "s = (of_nat n, chk, blk)" using ord last s by simp_all
    then show ?thesis using o n20 sm cmp by (simp add: long_step_def long_start_def LLEF_def)
  qed
  then show ?thesis using live attr by simp
qed

lemma search_parts:
  assumes nm: "0 \<notin> set nm" "length nm \<le> 255" and lfn: "holds_name lfn nm'" "same_name nm nm'"
    and N: "13 * (N - 1) < length nm" "length nm \<le> 13 * N" and long: "sfn ! 11 AND NS_NOLFN = 0"
    and "n \<le> N" and "parts_stored nm chk n es" and "n = N \<and> 0 < n \<and> blk = of_nat (32 * k) \<or> n \<noteq> N \<and> s = (of_nat n, chk, blk)"
  shows "search_dir lfn sfn k s (es @ rest) = search_dir lfn sfn (k + n) (0, chk, blk) rest"
  using assms(8-)
proof (induction n arbitrary: k s es)
  case 0
  then show ?case by (cases es) auto
next
  case (Suc n)
  obtain e es' where es: "es = e # es'" "lfn_entry nm (Suc n) chk e 0" "parts_stored nm chk n es'"
    using Suc.prems(2) by (cases es) auto
  have lower: "13 * (Suc n - 1) < length nm" using Suc.prems(1) N by simp
  have "search_dir lfn sfn k s (es @ rest) = search_dir lfn sfn (Suc k) (of_nat n, chk, blk) (es' @ rest)"
    using long_step_part [OF nm lfn _ lower Suc.prems(1) N es(2), of blk k s sfn "es' @ rest"] Suc.prems(3) long
    by (simp add: es(1))
  also have "\<dots> = search_dir lfn sfn (Suc k + n) (0, chk, blk) rest"
    using Suc.prems(1) es(3) by (intro Suc.IH) auto
  finally show ?case by simp
qed

text \<open>
  C34. A name that was stored is found, in whatever case it is asked for: when a directory holds the
  entries \<open>put_lfn\<close> writes for a name in front of an entry with their checksum, and no object in front
  of them answers to the name, \<open>dir_find\<close> stops at that entry and knows where the name starts.
\<close>

theorem dir_find_stored_name:
  assumes "mounted io cont fs d" and "disk_returns io (pdrv fs)" and "dir_table cont fs d (sclust (dp_obj dp)) T"
    and "holds_name (lfnbuf fs) nm'" and "length (fn dp) = 12" and "fn dp ! 11 AND NS_NOLFN = 0"
    and "holds_name lfn nm" and "nm \<noteq> []" and "0xFFFF \<notin> set nm"
    and "map (\<lambda>c. up_of (ucast c)) nm = map (\<lambda>c. up_of (ucast c)) nm'"
    and "store_parts lfn chk ((length nm + 12) div 13) = Some es"
    and "dir_entries cont fs d T = pre @ es @ e # post"
    and "\<forall>x \<in> set pre. x ! 0 \<noteq> 0" and "search_dir (lfnbuf fs) (fn dp) 0 (0xFF, 0xFF, no_block_ofs) pre = None"
    and "e ! 0 \<noteq> 0" and "e ! 0 \<noteq> DDEM" and "attr_of e AND AM_VOL = 0" and "sum_sfn e 0 = Some chk"
  shows "\<exists>res dp' fs' d'. dir_find io dp fs d = Some (res, dp', fs', d') \<and> (res = FR_DISK_ERR \<or> res = FR_OK
     \<and> at_entry fs T (length pre + length es) dp' \<and> blk_ofs dp' = of_nat (32 * length pre) \<and> obj_attr (dp_obj dp') = attr_of e)"
proof -
  define n where "n = (length nm + 12) div 13"
  have nm: "0 \<notin> set nm" "length nm \<le> 255" using assms(7) holds_nameD(1) by (auto simp: holds_name_def)
  have n: "13 * (n - 1) < length nm" "length nm \<le> 13 * n" "1 \<le> n"
    using part_count [of nm n] assms(8) by (auto simp: n_def)
  have parts: "parts_stored nm chk n es"
    using store_parts_stored [OF assms(7,9) n(1), of chk] assms(11) by (auto simp: n_def)
  have count: "parts_stored nm chk m xs \<Longrightarrow> length xs = m" for m xs by (induction xs arbitrary: m) auto
  have not_long: "attr_of e \<noteq> AM_LFN"
  proof
    assume "attr_of e = AM_LFN"
    then have "AM_LFN AND AM_VOL = 0" using assms(17) by simp
    then show False by (simp add: AM_LFN_def AM_VOL_def)
  qed
  obtain s' where pre: "search_dir (lfnbuf fs) (fn dp) 0 (0xFF, 0xFF, no_block_ofs) (pre @ es @ e # post)
      = search_dir (lfnbuf fs) (fn dp) (0 + length pre) s' (es @ e # post)"
    using search_dir_append [OF assms(14,13)] by blast
  have "same_name nm nm'" using assms(10) by (simp add: same_name_map)
  from search_parts [OF nm assms(4) this n(1,2) assms(6) order.refl parts, of "of_nat (32 * length pre)" "length pre" s' "e # post"] n(3)
  have "search_dir (lfnbuf fs) (fn dp) (length pre) s' (es @ e # post)
      = search_dir (lfnbuf fs) (fn dp) (length pre + n) (0, chk, of_nat (32 * length pre)) (e # post)" by simp
  also have "\<dots> = Some (length pre + n, of_nat (32 * length pre), attr_of e)"
    using assms(15-18) not_long by (simp add: short_match_def)
  finally have found: "search_dir (lfnbuf fs) (fn dp) 0 (0xFF, 0xFF, no_block_ofs) (dir_entries cont fs d T) =
      Some (length pre + length es, of_nat (32 * length pre), attr_of e)"
    using pre count [OF parts] unfolding assms(12) by simp
  from dir_find_refines [OF assms(1-3) holds_nameD(2) [OF assms(4)] assms(5)] show ?thesis unfolding found by auto
qed

section \<open>An example directory\<close>

text \<open>The root directory of the example volume: a deleted entry, the long name of a file, and its short one.\<close>

definition gone :: "u8 list" where "gone = DDEM # replicate 31 0"

definition log_short :: "u8 list" where
  "log_short = [0x4C, 0x4F, 0x47, 0x7E, 0x31, 0x20, 0x20, 0x20, 0x20, 0x20, 0x20, 0x20] @ replicate 20 0"

definition log_part :: "u8 list" where
  "log_part = [0x41, 0x6C, 0, 0x6F, 0, 0x67, 0, 0, 0, 0xFF, 0xFF, 0x0F, 0, 0x01, 0xFF, 0xFF, 0xFF, 0xFF, 0xFF, 0xFF, 0xFF, 0xFF,
     0xFF, 0xFF, 0xFF, 0xFF, 0, 0, 0xFF, 0xFF, 0xFF, 0xFF]"

definition root_disk :: "u64 \<Rightarrow> u8 list" where
  "root_disk = example_disk(3 := gone @ log_part @ log_short @ replicate 416 0)"

definition root_fs :: "u16 list \<Rightarrow> fatfs" where
  "root_fs nm = example_fs\<lparr>lfnbuf := nm @ replicate (256 - length nm) 0\<rparr>"

definition root_dir :: dir_object where
  "root_dir = \<lparr>dp_obj = \<lparr>obj_fs = 0, obj_id = 1, obj_attr = 0, stat = 0, sclust = 0, objsize = 0, n_cont = 0, n_frag = 0,
       c_scl = 0, c_size = 0, c_ofs = 0, lockid = 0\<rparr>,
     dptr = 0, dp_clust = 0, dp_sect = 0, dp_dir = 0, fn = [0x4C, 0x4F, 0x47, 0x20, 0x20, 0x20, 0x20, 0x20, 0x20, 0x20, 0x20, 2], blk_ofs = 0\<rparr>"

lemma root_fields: "fs_type (root_fs nm) = FS_FAT16" "n_rootdir (root_fs nm) = 512" "dirbase (root_fs nm) = 3" "csize (root_fs nm) = 1"
    "winsect (root_fs nm) = no_sector" "n_fats (root_fs nm) = 2" "fsize (root_fs nm) = 1" "fatbase (root_fs nm) = 1"
    "lfnbuf (root_fs nm) = nm @ replicate (256 - length nm) 0"
  by (simp_all add: root_fs_def example_fs_def)

lemma root_mounted: "mounted ram_io ram_sectors (root_fs nm) root_disk"
  by (simp add: mounted_def ram_disk window_ok_def volume_ok_def table_octets_def fat_mask_def example_fs_def root_fs_def
      fs_types Let_def)

lemma root_size: "dir_size (root_fs nm) Root = 512" by (simp add: dir_size_def root_fields)

lemma root_table: "dir_table ram_sectors (root_fs nm) root_disk (sclust (dp_obj root_dir)) Root"
proof -
  have "plain (root_fs nm) (entry_sector (root_fs nm) Root k) \<and> entry_sector (root_fs nm) Root k \<noteq> 0" if "k < 512" for k
  proof -
    have "k div 16 < 32" using that by (simp add: div_less_iff_less_mult)
    then have u: "unat (3 + of_nat (k div 16) :: u64) = 3 + k div 16" by (simp add: unat_word_ariths unat_of_nat take_bit_nat_eq_self)
    have s: "entry_sector (root_fs nm) Root k = 3 + of_nat (k div 16)" by (simp add: entry_sector_def root_fields)
    have "(3 + of_nat (k div 16) - 1 - 1 :: u64) = of_nat (1 + k div 16)" by simp
    moreover have "unat (of_nat (1 + k div 16) :: u64) = 1 + k div 16" using \<open>k div 16 < 32\<close> by (simp add: unat_of_nat take_bit_nat_eq_self del: of_nat_add of_nat_Suc)
    ultimately have "\<not> mirrored (root_fs nm) (3 + of_nat (k div 16))"
      unfolding mirrored_def root_fields word_less_nat_alt by simp
    moreover have "3 + of_nat (k div 16) \<noteq> no_sector"
    proof
      assume "(3 + of_nat (k div 16) :: u64) = no_sector"
      then have "unat (3 + of_nat (k div 16) :: u64) = unat no_sector" by simp
      moreover have "unat no_sector = 2 ^ 64 - 1" by (simp add: no_sector_def unsigned_minus_1_eq_mask mask_eq_exp_minus_1)
      ultimately show False using u \<open>k div 16 < 32\<close> by simp
    qed
    moreover have "(3 + of_nat (k div 16) :: u64) \<noteq> 0"
    proof
      assume "(3 + of_nat (k div 16) :: u64) = 0"
      then have "unat (3 + of_nat (k div 16) :: u64) = 0" by simp
      then show False using u by simp
    qed
    ultimately show ?thesis by (simp add: s plain_def)
  qed
  then show ?thesis
    by (auto simp: dir_table_def root_size start_cluster_def root_dir_def root_fields fs_types intro!: exI [of _ 0])
qed

lemma root_entries:
  "\<exists>post. dir_entries ram_sectors (root_fs nm) root_disk Root = [gone] @ [log_part] @ log_short # post"
proof -
  let ?es = "dir_entries ram_sectors (root_fs nm) root_disk Root"
  have len: "length ?es = 512" by (simp add: dir_entries_def root_size)
  have s: "shown ram_sectors (root_fs nm) root_disk 3 = gone @ log_part @ log_short @ replicate 416 0"
    by (simp add: shown_def root_fields no_sector_def ram_sectors_def root_disk_def gone_def log_part_def log_short_def)
  have "?es ! 0 = gone" "?es ! 1 = log_part" "?es ! 2 = log_short"
    by (simp_all add: dir_entries_def root_size dir_entry_def entry_sector_def root_fields s)
      (simp_all add: gone_def log_part_def log_short_def)
  moreover have "?es = ?es ! 0 # ?es ! 1 # ?es ! 2 # drop 3 ?es"
    using len Cons_nth_drop_Suc [of 0 ?es] Cons_nth_drop_Suc [of 1 ?es] Cons_nth_drop_Suc [of 2 ?es]
    by (simp add: numeral_eq_Suc)
  ultimately have "?es = [gone] @ [log_part] @ log_short # drop 3 ?es" by simp
  then show ?thesis by blast
qed

lemma log_stored: "store_parts ([0x6C, 0x6F, 0x67] @ replicate 253 0) 0x01 1 = Some [log_part]"
proof -
  have z: "replicate 253 0 = 0 # replicate 252 (0 :: u16)" by (simp add: numeral_eq_Suc)
  have r: "replicate 32 (0 :: u8) = [0, 0, 0, 0, 0, 0, 0, 0, 0, 0, 0, 0, 0, 0, 0, 0, 0, 0, 0, 0, 0, 0, 0, 0, 0, 0, 0, 0, 0, 0, 0, 0]" by (simp add: numeral_eq_Suc)
  show ?thesis
    unfolding z log_part_def by (simp add: r put_lfn_def lfn_fields LfnOfs_def wr_def rd_def st_word_eq LLEF_def AM_LFN_def)
qed

lemma log_sum: "sum_sfn log_short 0 = Some 0x01"
  by (simp add: sum_sfn_eq log_short_def sum_sfn_step_def)


lemma dir_find_refines_witness:
  defines "dp \<equiv> root_dir\<lparr>fn := [0x4C, 0x4F, 0x47, 0x7E, 0x31, 0x20, 0x20, 0x20, 0x20, 0x20, 0x20, NS_NOLFN]\<rparr>"
  shows "\<exists>res dp' fs' d'. dir_find ram_io dp (root_fs []) root_disk = Some (res, dp', fs', d')
     \<and> (res = FR_DISK_ERR \<or> res = FR_OK \<and> at_entry (root_fs []) Root 2 dp' \<and> blk_ofs dp' = no_block_ofs)"
proof -
  obtain post where es: "dir_entries ram_sectors (root_fs []) root_disk Root = [gone] @ [log_part] @ log_short # post"
    using root_entries by blast
  have a: "gone ! 0 = DDEM" "log_part ! 0 = 0x41" "log_short ! 0 = 0x4C" "attr_of log_part = AM_LFN" "attr_of log_short = 0x20"
    "take 11 log_short = take 11 (fn dp)" "fn dp ! 11 = NS_NOLFN"
    by (simp_all add: gone_def log_part_def log_short_def attr_of_def AM_LFN_def dp_def)
  have found: "search_dir (lfnbuf (root_fs [])) (fn dp) 0 (0xFF, 0xFF, no_block_ofs)
      (dir_entries ram_sectors (root_fs []) root_disk Root) = Some (2, no_block_ofs, 0x20)"
    by (simp add: es a short_match_def DDEM_def AM_LFN_def AM_VOL_def NS_NOLFN_def NS_LOSS_def)
  have "dir_table ram_sectors (root_fs []) root_disk (sclust (dp_obj dp)) Root" using root_table by (simp add: dp_def)
  from dir_find_refines [OF root_mounted ram_disk(2) this] show ?thesis unfolding found by (auto simp: root_fields dp_def)
qed

lemma dir_find_stored_name_witness:
  "\<exists>res dp' fs' d'. dir_find ram_io root_dir (root_fs [0x4C, 0x4F, 0x67]) root_disk = Some (res, dp', fs', d')
     \<and> (res = FR_DISK_ERR \<or> res = FR_OK \<and> at_entry (root_fs [0x4C, 0x4F, 0x67]) Root 2 dp' \<and> blk_ofs dp' = 32 \<and> obj_attr (dp_obj dp') = 0x20)"
proof -
  obtain post where es: "dir_entries ram_sectors (root_fs [0x4C, 0x4F, 0x67]) root_disk Root = [gone] @ [log_part] @ log_short # post"
    using root_entries by blast
  have z: "replicate 253 0 = 0 # replicate 252 (0 :: u16)" by (simp add: numeral_eq_Suc)
  have h: "holds_name (nm @ replicate 253 0) nm" if "length nm = 3" "0 \<notin> set nm" for nm :: "u16 list"
    using that unfolding holds_name_def FF_MAX_LFN_def by (auto simp: z)
  have asked: "holds_name (lfnbuf (root_fs [0x4C, 0x4F, 0x67])) [0x4C, 0x4F, 0x67]"
    using h [of "[0x4C, 0x4F, 0x67]"] by (simp add: root_fields)
  have kept: "holds_name ([0x6C, 0x6F, 0x67] @ replicate 253 0) [0x6C, 0x6F, 0x67]" by (rule h) simp_all
  have flags: "length (fn root_dir) = 12" "fn root_dir ! 11 AND NS_NOLFN = 0" by (simp_all add: root_dir_def NS_NOLFN_def)
  have name: "[0x6C, 0x6F, 0x67 :: u16] \<noteq> []" "0xFFFF \<notin> set [0x6C, 0x6F, 0x67 :: u16]"
    "map (\<lambda>c. up_of (ucast c)) [0x6C, 0x6F, 0x67 :: u16] = map (\<lambda>c. up_of (ucast c)) [0x4C, 0x4F, 0x67 :: u16]"
    by (simp_all add: up_of_ascii)
  have front: "\<forall>x \<in> set [gone]. x ! 0 \<noteq> 0"
    "search_dir (lfnbuf (root_fs [0x4C, 0x4F, 0x67])) (fn root_dir) 0 (0xFF, 0xFF, no_block_ofs) [gone] = None"
    by (simp_all add: gone_def DDEM_def)
  have e: "log_short ! 0 \<noteq> 0" "log_short ! 0 \<noteq> DDEM" "attr_of log_short AND AM_VOL = 0" "attr_of log_short = 0x20"
    by (simp_all add: log_short_def DDEM_def AM_VOL_def attr_of_def)
  have parts: "store_parts ([0x6C, 0x6F, 0x67] @ replicate 253 0) 0x01 ((length [0x6C, 0x6F, 0x67 :: u16] + 12) div 13) = Some [log_part]"
    using log_stored by simp
  from dir_find_stored_name [OF root_mounted ram_disk(2) root_table asked flags kept name parts es front e(1-3) log_sum]
  show ?thesis by (simp add: e(4) numeral_2_eq_2)
qed

end
