(* ===== verification/Ff_File.thy ===== *)
theory Ff_File
  imports Ff_Mount Ff_Path
begin

text \<open>
  Files, from \<open>ff.c\<close>: \<open>f_open\<close>, \<open>f_read\<close>, \<open>f_write\<close>, \<open>f_sync\<close>, \<open>f_close\<close>, \<open>f_lseek\<close> and \<open>f_truncate\<close>. A
  file object has a buffer of one sector of its own; a read or a write of whole sectors goes past it,
  between the disk and the buffer of the caller.

  The local \<open>DIR\<close> of a function is an argument: what it holds at first is what the stack holds.
  \<^const>\<open>None\<close> is undefined behaviour or a loop that does not end, as everywhere.
\<close>

section \<open>File objects\<close>

text \<open>The link map is a pointer to a table of the caller, null unless the caller sets it. The error is the code of an \<^typ>\<open>fresult\<close>.\<close>

record fil =
  fp_obj :: ffobjid
  fp_flag :: u8
  fp_err :: fresult
  fptr :: u64
  fp_clust :: u32
  fp_sect :: u64
  dir_sect :: u64
  dir_ptr :: nat
  cltbl :: "u32 list option"
  fp_buf :: "u8 list"

definition FA_WRITE :: u8 where "FA_WRITE = 0x02"
definition FA_CREATE_NEW :: u8 where "FA_CREATE_NEW = 0x04"
definition FA_CREATE_ALWAYS :: u8 where "FA_CREATE_ALWAYS = 0x08"
definition FA_OPEN_ALWAYS :: u8 where "FA_OPEN_ALWAYS = 0x10"
definition FA_OPEN_APPEND :: u8 where "FA_OPEN_APPEND = 0x30"
definition FA_SEEKEND :: u8 where "FA_SEEKEND = 0x20"
definition FA_MODIFIED :: u8 where "FA_MODIFIED = 0x40"
definition FA_DIRTY :: u8 where "FA_DIRTY = 0x80"
definition AM_RDO :: u8 where "AM_RDO = 0x01"
definition DIR_CrtTime :: nat where "DIR_CrtTime = 14"
definition DIR_LstAccDate :: nat where "DIR_LstAccDate = 18"
definition XDIR_CrtTime :: nat where "XDIR_CrtTime = 8"
definition XDIR_AccTime :: nat where "XDIR_AccTime = 16"
definition XDIR_ModTime10 :: nat where "XDIR_ModTime10 = 21"

text \<open>The working buffers for names lie on the heap for the time of a call; a fresh block holds anything.\<close>

definition init_nambuf :: "'d disk_io \<Rightarrow> fatfs \<Rightarrow> 'd \<Rightarrow> fatfs option" where
  "init_nambuf io fs d =
     (if memalloc io (256 * 2 + MAXDIRB 255) d then
        Some (fs\<lparr>lfnbuf := map (\<lambda>i. ucast (heapdata io d (2 * i)) OR push_bit 8 (ucast (heapdata io d (2 * i + 1)))) [0..<256],
                 dirbuf := map (\<lambda>i. heapdata io d (512 + i)) [0..<unat (MAXDIRB 255)]\<rparr>)
      else None)"

definition free_nambuf :: "fatfs \<Rightarrow> fatfs" where "free_nambuf fs = fs\<lparr>lfnbuf := [], dirbuf := []\<rparr>"

definition set_fs :: "nat \<Rightarrow> fatfs \<Rightarrow> ff_static \<Rightarrow> ff_static" where
  "set_fs fsp fs st = st\<lparr>objects := (objects st)(fsp := fs)\<rparr>"

definition set_owner :: "nat \<Rightarrow> fil \<Rightarrow> fil" where
  "set_owner fsp fp = fp\<lparr>fp_obj := (fp_obj fp)\<lparr>obj_fs := fsp\<rparr>\<rparr>"

definition abort :: "fresult \<Rightarrow> fil \<Rightarrow> fil" where "abort res fp = fp\<lparr>fp_err := res\<rparr>"

text \<open>The buffer of the file is written back when it is dirty.\<close>

definition flush_buf :: "'d disk_io \<Rightarrow> fil \<Rightarrow> fatfs \<Rightarrow> 'd \<Rightarrow> (fresult \<times> fil \<times> 'd) option" where
  "flush_buf io fp fs d =
     (if fp_flag fp AND FA_DIRTY \<noteq> 0 then do {
        (r, d) \<leftarrow> dwrite io (pdrv fs) (fp_buf fp) (fp_sect fp) 1 d;
        if r \<noteq> RES_OK then Some (FR_DISK_ERR, fp, d)
        else Some (FR_OK, fp\<lparr>fp_flag := fp_flag fp AND NOT FA_DIRTY\<rparr>, d) }
      else Some (FR_OK, fp, d))"

definition load_buf :: "'d disk_io \<Rightarrow> u64 \<Rightarrow> fil \<Rightarrow> fatfs \<Rightarrow> 'd \<Rightarrow> (fresult \<times> fil \<times> 'd) option" where
  "load_buf io sect fp fs d = do {
     ((r, data), d) \<leftarrow> dread io (pdrv fs) sect 1 d;
     b \<leftarrow> memcpy (fp_buf fp) 0 data;
     Some (if r \<noteq> RES_OK then FR_DISK_ERR else FR_OK, fp\<lparr>fp_buf := b\<rparr>, d) }"

section \<open>Reading\<close>

definition read_cluster :: "'d disk_io \<Rightarrow> fil \<Rightarrow> fatfs \<Rightarrow> 'd \<Rightarrow> (u32 \<times> fatfs \<times> 'd) option" where
  "read_cluster io fp fs d =
     (if fptr fp = 0 then Some (sclust (fp_obj fp), fs, d)
      else case cltbl fp of
        Some tbl \<Rightarrow> map_option (\<lambda>c. (c, fs, d)) (clmt_clust tbl (fptr fp) fs)
      | None \<Rightarrow> get_fat io (fp_obj fp) (fp_clust fp) fs d)"

text \<open>The sector of the file pointer, at a sector boundary; the cluster is followed at a cluster boundary.\<close>

definition read_sector :: "'d disk_io \<Rightarrow> u32 \<Rightarrow> fil \<Rightarrow> fatfs \<Rightarrow> 'd \<Rightarrow> (fresult \<times> u64 \<times> fil \<times> fatfs \<times> 'd) option" where
  "read_sector io csect fp fs d = do {
     (res, fp, fs, d) \<leftarrow> (if csect = 0 then do {
        (clst, fs, d) \<leftarrow> read_cluster io fp fs d;
        if clst < 2 then Some (FR_INT_ERR, fp, fs, d)
        else if clst = 0xFFFFFFFF then Some (FR_DISK_ERR, fp, fs, d)
        else Some (FR_OK, fp\<lparr>fp_clust := clst\<rparr>, fs, d) }
      else Some (FR_OK, fp, fs, d));
     if res \<noteq> FR_OK then Some (res, 0, fp, fs, d) else do {
     let sect = clst2sect fs (fp_clust fp);
     if sect = 0 then Some (FR_INT_ERR, 0, fp, fs, d) else Some (FR_OK, sect + ucast csect, fp, fs, d) } }"

text \<open>Whole sectors are read into the buffer of the caller; one of them may be in the buffer of the file.\<close>

definition read_direct ::
  "'d disk_io \<Rightarrow> u32 \<Rightarrow> u64 \<Rightarrow> u8 list \<Rightarrow> nat \<Rightarrow> fil \<Rightarrow> fatfs \<Rightarrow> 'd \<Rightarrow> (fresult \<times> u8 list \<times> 'd) option" where
  "read_direct io cc sect buff p fp fs d = do {
     ((r, data), d) \<leftarrow> dread io (pdrv fs) sect cc d;
     buff \<leftarrow> memcpy buff p data;
     if r \<noteq> RES_OK then Some (FR_DISK_ERR, buff, d)
     else if fp_flag fp AND FA_DIRTY \<noteq> 0 \<and> fp_sect fp - sect < ucast cc then do {
       buff \<leftarrow> mem_cpy buff (p + unat ((fp_sect fp - sect) * 512)) (fp_buf fp) 0 512;
       Some (FR_OK, buff, d) }
     else Some (FR_OK, buff, d) }"

definition read_cached :: "'d disk_io \<Rightarrow> u64 \<Rightarrow> fil \<Rightarrow> fatfs \<Rightarrow> 'd \<Rightarrow> (fresult \<times> fil \<times> 'd) option" where
  "read_cached io sect fp fs d =
     (if fp_sect fp \<noteq> sect then do {
        (res, fp, d) \<leftarrow> flush_buf io fp fs d;
        if res \<noteq> FR_OK then Some (res, fp, d) else do {
        (res, fp, d) \<leftarrow> load_buf io sect fp fs d;
        if res \<noteq> FR_OK then Some (res, fp, d) else Some (FR_OK, fp\<lparr>fp_sect := sect\<rparr>, d) } }
      else Some (FR_OK, fp, d))"

definition clip_sectors :: "u32 \<Rightarrow> u32 \<Rightarrow> fatfs \<Rightarrow> u32" where
  "clip_sectors csect cc fs = (if ucast (csize fs) < csect + cc then ucast (csize fs) - csect else cc)"

text \<open>What is left in the sector of the buffer, clipped by the number of octets that are asked for.\<close>

definition rest_in_sector :: "fil \<Rightarrow> u32 \<Rightarrow> u32" where
  "rest_in_sector fp n = (let k = 512 - ucast (fptr fp) mod 512 in if n < k then n else k)"

text \<open>
  One pass of the loop: the result, the number of octets that were read, and the state behind it. The
  buffer of the caller is filled from \<open>br\<close> on.
\<close>

definition read_step ::
  "'d disk_io \<Rightarrow> u32 \<Rightarrow> u8 list \<Rightarrow> u32 \<Rightarrow> fil \<Rightarrow> fatfs \<Rightarrow> 'd \<Rightarrow> (fresult \<times> u32 \<times> u8 list \<times> fil \<times> fatfs \<times> 'd) option" where
  "read_step io btr buff br fp fs d = do {
     (res, whole, buff, fp, fs, d) \<leftarrow> (if fptr fp mod 512 = 0 then do {
        let csect = (ucast (fptr fp div 512 AND (ucast (csize fs) - 1)) :: u32);
        (res, sect, fp, fs, d) \<leftarrow> read_sector io csect fp fs d;
        if res \<noteq> FR_OK then Some (res, None, buff, fp, fs, d)
        else if btr div 512 > 0 then do {
          let cc = clip_sectors csect (btr div 512) fs;
          (res, buff, d) \<leftarrow> read_direct io cc sect buff (unat br) fp fs d;
          Some (res, Some (512 * cc), buff, fp, fs, d) }
        else do {
          (res, fp, d) \<leftarrow> read_cached io sect fp fs d;
          Some (res, None, buff, fp, fs, d) } }
      else Some (FR_OK, None, buff, fp, fs, d));
     if res \<noteq> FR_OK then Some (res, 0, buff, abort res fp, fs, d)
     else case whole of
       Some n \<Rightarrow> Some (FR_OK, n, buff, fp, fs, d)
     | None \<Rightarrow> do {
         let n = rest_in_sector fp btr;
         buff \<leftarrow> mem_cpy buff (unat br) (fp_buf fp) (unat (fptr fp mod 512)) n;
         Some (FR_OK, n, buff, fp, fs, d) } }"

partial_function (option) read_loop ::
  "'d disk_io \<Rightarrow> u32 \<Rightarrow> u8 list \<Rightarrow> u32 \<Rightarrow> fil \<Rightarrow> fatfs \<Rightarrow> 'd \<Rightarrow> (fresult \<times> u32 \<times> u8 list \<times> fil \<times> fatfs \<times> 'd) option" where
  "read_loop io btr buff br fp fs d =
     (if btr = 0 then Some (FR_OK, br, buff, fp, fs, d) else do {
     (res, n, buff, fp, fs, d) \<leftarrow> read_step io btr buff br fp fs d;
     if res \<noteq> FR_OK then Some (res, br, buff, fp, fs, d)
     else read_loop io (btr - n) buff (br + n) (fp\<lparr>fptr := fptr fp + ucast n\<rparr>) fs d })"

text \<open>\<open>f_read\<close> gives its result, the number of octets read and the buffer of the caller.\<close>

definition f_read ::
  "'d disk_io \<Rightarrow> u8 list \<Rightarrow> u32 \<Rightarrow> fil \<Rightarrow> ff_static \<Rightarrow> 'd \<Rightarrow> (fresult \<times> u32 \<times> u8 list \<times> fil \<times> ff_static \<times> 'd) option" where
  "f_read io buff btr fp st d = do {
     (res, fsp, d) \<leftarrow> validate io (Some (fp_obj fp)) st d;
     if res \<noteq> FR_OK then Some (res, 0, buff, fp, st, d)
     else if fp_err fp \<noteq> FR_OK then Some (fp_err fp, 0, buff, fp, st, d)
     else if fp_flag fp AND FA_READ = 0 then Some (FR_DENIED, 0, buff, fp, st, d)
     else do {
       let remain = objsize (fp_obj fp) - fptr fp;
       let btr = (if remain < ucast btr then ucast remain else btr);
       (res, br, buff, fp, fs, d) \<leftarrow> read_loop io btr buff 0 fp (objects st fsp) d;
       Some (res, br, buff, fp, set_fs fsp fs st, d) } }"

section \<open>Writing\<close>

definition write_cluster :: "'d disk_io \<Rightarrow> fil \<Rightarrow> fatfs \<Rightarrow> 'd \<Rightarrow> (u32 \<times> fil \<times> fatfs \<times> 'd) option" where
  "write_cluster io fp fs d =
     (let stretch = (\<lambda>c. do { (clst, obj, fs, d) \<leftarrow> create_chain io (fp_obj fp) c fs d; Some (clst, fp\<lparr>fp_obj := obj\<rparr>, fs, d) }) in
      if fptr fp = 0 then
        if sclust (fp_obj fp) = 0 then stretch 0 else Some (sclust (fp_obj fp), fp, fs, d)
      else case cltbl fp of
        Some tbl \<Rightarrow> map_option (\<lambda>c. (c, fp, fs, d)) (clmt_clust tbl (fptr fp) fs)
      | None \<Rightarrow> stretch (fp_clust fp))"

text \<open>The cluster of the file pointer; the first component says that there is none, because the disk is full.\<close>

definition enter_cluster :: "'d disk_io \<Rightarrow> fil \<Rightarrow> fatfs \<Rightarrow> 'd \<Rightarrow> (bool \<times> fresult \<times> fil \<times> fatfs \<times> 'd) option" where
  "enter_cluster io fp fs d = do {
     (clst, fp, fs, d) \<leftarrow> write_cluster io fp fs d;
     if clst = 0 then Some (True, FR_OK, fp, fs, d)
     else if clst = 1 then Some (False, FR_INT_ERR, fp, fs, d)
     else if clst = 0xFFFFFFFF then Some (False, FR_DISK_ERR, fp, fs, d)
     else
       let fp = fp\<lparr>fp_clust := clst\<rparr> in
       Some (False, FR_OK, if sclust (fp_obj fp) = 0 then fp\<lparr>fp_obj := (fp_obj fp)\<lparr>sclust := clst\<rparr>\<rparr> else fp, fs, d) }"

definition write_sector :: "'d disk_io \<Rightarrow> u32 \<Rightarrow> fil \<Rightarrow> fatfs \<Rightarrow> 'd \<Rightarrow> (bool \<times> fresult \<times> u64 \<times> fil \<times> fatfs \<times> 'd) option" where
  "write_sector io csect fp fs d = do {
     (full, res, fp, fs, d) \<leftarrow> (if csect = 0 then enter_cluster io fp fs d else Some (False, FR_OK, fp, fs, d));
     if full \<or> res \<noteq> FR_OK then Some (full, res, 0, fp, fs, d) else do {
     (res, fp, d) \<leftarrow> flush_buf io fp fs d;
     if res \<noteq> FR_OK then Some (False, res, 0, fp, fs, d) else do {
     let sect = clst2sect fs (fp_clust fp);
     if sect = 0 then Some (False, FR_INT_ERR, 0, fp, fs, d) else Some (False, FR_OK, sect + ucast csect, fp, fs, d) } } }"

text \<open>Whole sectors are written from the buffer of the caller, and copied to the buffer of the file when it holds one of them.\<close>

definition write_direct ::
  "'d disk_io \<Rightarrow> u32 \<Rightarrow> u64 \<Rightarrow> u8 list \<Rightarrow> nat \<Rightarrow> fil \<Rightarrow> fatfs \<Rightarrow> 'd \<Rightarrow> (fresult \<times> fil \<times> 'd) option" where
  "write_direct io cc sect buff p fp fs d = do {
     (r, d) \<leftarrow> dwrite io (pdrv fs) (drop p buff) sect cc d;
     if r \<noteq> RES_OK then Some (FR_DISK_ERR, fp, d)
     else if fp_sect fp - sect < ucast cc then do {
       b \<leftarrow> mem_cpy (fp_buf fp) 0 buff (p + unat ((fp_sect fp - sect) * 512)) 512;
       Some (FR_OK, fp\<lparr>fp_buf := b, fp_flag := fp_flag fp AND NOT FA_DIRTY\<rparr>, d) }
     else Some (FR_OK, fp, d) }"

definition write_cached :: "'d disk_io \<Rightarrow> u64 \<Rightarrow> fil \<Rightarrow> fatfs \<Rightarrow> 'd \<Rightarrow> (fresult \<times> fil \<times> 'd) option" where
  "write_cached io sect fp fs d = do {
     (res, fp, d) \<leftarrow> (if fp_sect fp \<noteq> sect \<and> fptr fp < objsize (fp_obj fp) then load_buf io sect fp fs d else Some (FR_OK, fp, d));
     if res \<noteq> FR_OK then Some (res, fp, d) else Some (FR_OK, fp\<lparr>fp_sect := sect\<rparr>, d) }"

definition write_step ::
  "'d disk_io \<Rightarrow> u32 \<Rightarrow> u8 list \<Rightarrow> u32 \<Rightarrow> fil \<Rightarrow> fatfs \<Rightarrow> 'd \<Rightarrow> (bool \<times> fresult \<times> u32 \<times> fil \<times> fatfs \<times> 'd) option" where
  "write_step io btw buff bw fp fs d = do {
     (full, res, whole, fp, fs, d) \<leftarrow> (if fptr fp mod 512 = 0 then do {
        let csect = ((ucast (fptr fp div 512) :: u32) AND (ucast (csize fs) - 1));
        (full, res, sect, fp, fs, d) \<leftarrow> write_sector io csect fp fs d;
        if full \<or> res \<noteq> FR_OK then Some (full, res, None, fp, fs, d)
        else if btw div 512 > 0 then do {
          let cc = clip_sectors csect (btw div 512) fs;
          (res, fp, d) \<leftarrow> write_direct io cc sect buff (unat bw) fp fs d;
          Some (False, res, Some (512 * cc), fp, fs, d) }
        else do {
          (res, fp, d) \<leftarrow> write_cached io sect fp fs d;
          Some (False, res, None, fp, fs, d) } }
      else Some (False, FR_OK, None, fp, fs, d));
     if full then Some (True, FR_OK, 0, fp, fs, d)
     else if res \<noteq> FR_OK then Some (False, res, 0, abort res fp, fs, d)
     else case whole of
       Some n \<Rightarrow> Some (False, FR_OK, n, fp, fs, d)
     | None \<Rightarrow> do {
         let n = rest_in_sector fp btw;
         b \<leftarrow> mem_cpy (fp_buf fp) (unat (fptr fp mod 512)) buff (unat bw) n;
         Some (False, FR_OK, n, fp\<lparr>fp_buf := b, fp_flag := fp_flag fp OR FA_DIRTY\<rparr>, fs, d) } }"

definition advance :: "u32 \<Rightarrow> fil \<Rightarrow> fil" where
  "advance n fp =
     (let fp = fp\<lparr>fptr := fptr fp + ucast n\<rparr> in
      fp\<lparr>fp_obj := (fp_obj fp)\<lparr>objsize := if objsize (fp_obj fp) < fptr fp then fptr fp else objsize (fp_obj fp)\<rparr>\<rparr>)"

partial_function (option) write_loop ::
  "'d disk_io \<Rightarrow> u32 \<Rightarrow> u8 list \<Rightarrow> u32 \<Rightarrow> fil \<Rightarrow> fatfs \<Rightarrow> 'd \<Rightarrow> (fresult \<times> u32 \<times> fil \<times> fatfs \<times> 'd) option" where
  "write_loop io btw buff bw fp fs d =
     (if btw = 0 then Some (FR_OK, bw, fp, fs, d) else do {
     (full, res, n, fp, fs, d) \<leftarrow> write_step io btw buff bw fp fs d;
     if full \<or> res \<noteq> FR_OK then Some (res, bw, fp, fs, d)
     else write_loop io (btw - n) buff (bw + n) (advance n fp) fs d })"

definition f_write ::
  "'d disk_io \<Rightarrow> u8 list \<Rightarrow> u32 \<Rightarrow> fil \<Rightarrow> ff_static \<Rightarrow> 'd \<Rightarrow> (fresult \<times> u32 \<times> fil \<times> ff_static \<times> 'd) option" where
  "f_write io buff btw fp st d = do {
     (res, fsp, d) \<leftarrow> validate io (Some (fp_obj fp)) st d;
     if res \<noteq> FR_OK then Some (res, 0, fp, st, d)
     else if fp_err fp \<noteq> FR_OK then Some (fp_err fp, 0, fp, st, d)
     else if fp_flag fp AND FA_WRITE = 0 then Some (FR_DENIED, 0, fp, st, d)
     else do {
       let fs = objects st fsp;
       let btw = (if fs_type fs \<noteq> FS_EXFAT \<and> (ucast (fptr fp + ucast btw) :: u32) < ucast (fptr fp)
                  then 0xFFFFFFFF - ucast (fptr fp) else btw);
       (res, bw, fp, fs, d) \<leftarrow> write_loop io btw buff 0 fp fs d;
       Some (res, bw, if res = FR_OK then fp\<lparr>fp_flag := fp_flag fp OR FA_MODIFIED\<rparr> else fp, set_fs fsp fs st, d) } }"

end
