(* ===== verification/Ff_Open.thy ===== *)
theory Ff_Open
  imports Ff_File
begin

text \<open>
  Opening, syncing, closing, seeking and truncating files, from \<open>ff.c\<close>. The parts of \<open>f_open\<close> are
  definitions of their own: the check of the object that was found, the new or emptied entry, the lock,
  the file object and the seek to the end.
\<close>

section \<open>Opening\<close>

definition put_win :: "(u8 list \<Rightarrow> u8 list option) \<Rightarrow> fatfs \<Rightarrow> fatfs option" where
  "put_win f fs = map_option (\<lambda>w. fs\<lparr>win := w\<rparr>) (f (win fs))"

text \<open>An entry of a FAT directory in the state of a new file; the chain it had is removed.\<close>

definition clear_entry :: "'d disk_io \<Rightarrow> dir_object \<Rightarrow> fatfs \<Rightarrow> 'd \<Rightarrow> (fresult \<times> dir_object \<times> fatfs \<times> 'd) option" where
  "clear_entry io dj fs d = do {
     let tm = fattime io d;
     let p = dp_dir dj;
     fs \<leftarrow> put_win (\<lambda>w. st_dword w (p + DIR_CrtTime) tm) fs;
     fs \<leftarrow> put_win (\<lambda>w. st_dword w (p + DIR_ModTime) tm) fs;
     cl \<leftarrow> ld_clust fs p;
     fs \<leftarrow> put_win (\<lambda>w. wr w (p + DIR_Attr) AM_ARC) fs;
     fs \<leftarrow> st_clust p 0 fs;
     fs \<leftarrow> put_win (\<lambda>w. st_dword w (p + DIR_FileSize) 0) fs;
     let fs = fs\<lparr>wflag := 1\<rparr>;
     if cl = 0 then Some (FR_OK, dj, fs, d) else do {
     let sc = winsect fs;
     (res, obj, fs, d) \<leftarrow> remove_chain io (dp_obj dj) cl 0 fs d;
     let dj = dj\<lparr>dp_obj := obj\<rparr>;
     if res \<noteq> FR_OK then Some (res, dj, fs, d) else do {
     (res, fs, d) \<leftarrow> move_window io sc fs d;
     Some (res, dj, fs\<lparr>last_clst := cl - 1\<rparr>, d) } } }"

text \<open>The same for an entry block of exFAT.\<close>

definition clear_block ::
  "'d disk_io \<Rightarrow> dir_object \<Rightarrow> fil \<Rightarrow> fatfs \<Rightarrow> 'd \<Rightarrow> (fresult \<times> dir_object \<times> fil \<times> fatfs \<times> 'd) option" where
  "clear_block io dj fp fs d = do {
     obj \<leftarrow> init_alloc_info fs ((fp_obj fp)\<lparr>obj_fs := obj_fs (dp_obj dj)\<rparr>);
     b \<leftarrow> mem_set (dirbuf fs) 2 0 30;
     b \<leftarrow> mem_set b 38 0 26;
     b \<leftarrow> wr b XDIR_Attr AM_ARC;
     b \<leftarrow> st_dword b XDIR_CrtTime (fattime io d);
     b \<leftarrow> wr b XDIR_GenFlags 1;
     (res, dj, fs, d) \<leftarrow> store_xdir io dj (fs\<lparr>dirbuf := b\<rparr>) d;
     if res = FR_OK \<and> sclust obj \<noteq> 0 then do {
       (res, obj, fs, d) \<leftarrow> remove_chain io obj (sclust obj) 0 fs d;
       Some (res, dj, fp\<lparr>fp_obj := obj\<rparr>, fs\<lparr>last_clst := sclust obj - 1\<rparr>, d) }
     else Some (res, dj, fp\<lparr>fp_obj := obj\<rparr>, fs, d) }"

text \<open>A mode that creates: the result, and the mode with the mark that the file is a new one.\<close>

definition create_entry ::
  "'d disk_io \<Rightarrow> dir_object \<Rightarrow> filesem list \<Rightarrow> u8 \<Rightarrow> fresult \<Rightarrow> dir_object \<Rightarrow> fatfs \<Rightarrow> 'd
     \<Rightarrow> (fresult \<times> u8 \<times> dir_object \<times> fatfs \<times> 'd) option" where
  "create_entry io stk files mode res dj fs d =
     (if res \<noteq> FR_OK then do {
        (res, dj, fs, d) \<leftarrow> (if res = FR_NO_FILE then
            if enq_lock files \<noteq> 0 then dir_register io stk dj fs d else Some (FR_TOO_MANY_OPEN_FILES, dj, fs, d)
          else Some (res, dj, fs, d));
        Some (res, mode OR FA_CREATE_ALWAYS, dj, fs, d) }
      else if obj_attr (dp_obj dj) AND (AM_RDO OR AM_DIR) \<noteq> 0 then Some (FR_DENIED, mode, dj, fs, d)
      else Some (if mode AND FA_CREATE_NEW \<noteq> 0 then FR_EXIST else FR_OK, mode, dj, fs, d))"

definition open_entry ::
  "'d disk_io \<Rightarrow> dir_object \<Rightarrow> filesem list \<Rightarrow> u8 \<Rightarrow> fresult \<Rightarrow> dir_object \<Rightarrow> fil \<Rightarrow> fatfs \<Rightarrow> 'd
     \<Rightarrow> (fresult \<times> u8 \<times> dir_object \<times> fil \<times> fatfs \<times> 'd) option" where
  "open_entry io stk files mode res dj fp fs d =
     (if mode AND (FA_CREATE_ALWAYS OR FA_OPEN_ALWAYS OR FA_CREATE_NEW) \<noteq> 0 then do {
        (res, mode, dj, fs, d) \<leftarrow> create_entry io stk files mode res dj fs d;
        if res = FR_OK \<and> mode AND FA_CREATE_ALWAYS \<noteq> 0 then
          if fs_type fs = FS_EXFAT then do {
            (res, dj, fp, fs, d) \<leftarrow> clear_block io dj fp fs d;
            Some (res, mode, dj, fp, fs, d) }
          else do {
            (res, dj, fs, d) \<leftarrow> clear_entry io dj fs d;
            Some (res, mode, dj, fp, fs, d) }
        else Some (res, mode, dj, fp, fs, d) }
      else if res = FR_OK \<and> obj_attr (dp_obj dj) AND AM_DIR \<noteq> 0 then Some (FR_NO_FILE, mode, dj, fp, fs, d)
      else if res = FR_OK \<and> mode AND FA_WRITE \<noteq> 0 \<and> obj_attr (dp_obj dj) AND AM_RDO \<noteq> 0 then Some (FR_DENIED, mode, dj, fp, fs, d)
      else Some (res, mode, dj, fp, fs, d))"

definition lock_mode :: "u8 \<Rightarrow> int" where "lock_mode mode = (if mode AND NOT FA_READ \<noteq> 0 then 1 else 0)"

text \<open>The file object of an open file, before a seek to the end.\<close>

definition start_file :: "u8 \<Rightarrow> dir_object \<Rightarrow> fil \<Rightarrow> fatfs \<Rightarrow> fil option" where
  "start_file mode dj fp fs = do {
     obj \<leftarrow> (if fs_type fs = FS_EXFAT then
         init_alloc_info fs ((fp_obj fp)\<lparr>c_scl := sclust (dp_obj dj),
           c_size := (ucast (objsize (dp_obj dj)) AND 0xFFFFFF00) OR ucast (stat (dp_obj dj)), c_ofs := blk_ofs dj\<rparr>)
       else do {
         cl \<leftarrow> ld_clust fs (dp_dir dj);
         sz \<leftarrow> ld_dword (win fs) (dp_dir dj + DIR_FileSize);
         Some ((fp_obj fp)\<lparr>sclust := cl, objsize := ucast sz\<rparr>) });
     b \<leftarrow> mem_set (fp_buf fp) 0 0 512;
     Some (fp\<lparr>fp_obj := obj\<lparr>obj_fs := obj_fs (dp_obj dj), obj_id := fs_id fs\<rparr>, cltbl := None, fp_flag := mode,
              fp_err := FR_OK, fp_sect := 0, fptr := 0, fp_buf := b\<rparr>) }"

partial_function (option) end_loop ::
  "'d disk_io \<Rightarrow> ffobjid \<Rightarrow> u64 \<Rightarrow> u64 \<Rightarrow> u32 \<Rightarrow> fatfs \<Rightarrow> 'd \<Rightarrow> (fresult \<times> u64 \<times> u32 \<times> fatfs \<times> 'd) option" where
  "end_loop io obj bcs ofs clst fs d =
     (if bcs < ofs then do {
        (clst, fs, d) \<leftarrow> get_fat io obj clst fs d;
        if clst = 0xFFFFFFFF then Some (FR_DISK_ERR, ofs - bcs, clst, fs, d)
        else if clst \<le> 1 then Some (FR_INT_ERR, ofs - bcs, clst, fs, d)
        else end_loop io obj bcs (ofs - bcs) clst fs d }
      else Some (FR_OK, ofs, clst, fs, d))"

definition seek_end :: "'d disk_io \<Rightarrow> fil \<Rightarrow> fatfs \<Rightarrow> 'd \<Rightarrow> (fresult \<times> fil \<times> fatfs \<times> 'd) option" where
  "seek_end io fp fs d = do {
     let fp = fp\<lparr>fptr := objsize (fp_obj fp)\<rparr>;
     (res, ofs, clst, fs, d) \<leftarrow>
       end_loop io (fp_obj fp) (ucast (ucast (csize fs) * 512 :: u32)) (objsize (fp_obj fp)) (sclust (fp_obj fp)) fs d;
     let fp = fp\<lparr>fp_clust := clst\<rparr>;
     if res = FR_OK \<and> ofs mod 512 \<noteq> 0 then
       let sc = clst2sect fs clst in
       if sc = 0 then Some (FR_INT_ERR, fp, fs, d)
       else do {
         let sect = sc + ucast (ucast (ofs div 512) :: u32);
         (res, fp, d) \<leftarrow> load_buf io sect (fp\<lparr>fp_sect := sect\<rparr>) fs d;
         Some (res, fp, fs, d) }
     else Some (res, fp, fs, d) }"

text \<open>What follows when the name buffers are there, up to their release.\<close>

definition open_path ::
  "'d disk_io \<Rightarrow> dir_object \<Rightarrow> nat \<Rightarrow> u8 list \<Rightarrow> u8 \<Rightarrow> filesem list \<Rightarrow> fil \<Rightarrow> fatfs \<Rightarrow> 'd
     \<Rightarrow> (fresult \<times> fil \<times> filesem list \<times> fatfs \<times> 'd) option" where
  "open_path io stk fsp path mode files fp fs d = do {
     (res, dj, fs, d) \<leftarrow> follow_path io stk path (stk\<lparr>dp_obj := (dp_obj stk)\<lparr>obj_fs := fsp\<rparr>\<rparr>) fs d;
     res \<leftarrow> (if res = FR_OK then do {
        ns \<leftarrow> rd (fn dj) NSFLAG;
        Some (if ns AND NS_NONAME \<noteq> 0 then FR_INVALID_NAME else chk_lock files dj (lock_mode mode)) }
      else Some res);
     (res, mode, dj, fp, fs, d) \<leftarrow> open_entry io stk files mode res dj fp fs d;
     if res \<noteq> FR_OK then Some (res, fp, files, fs, d) else do {
     let mode = (if mode AND FA_CREATE_ALWAYS \<noteq> 0 then mode OR FA_MODIFIED else mode);
     let fp = fp\<lparr>dir_sect := winsect fs, dir_ptr := dp_dir dj\<rparr>;
     let (lock, files) = inc_lock files dj (lock_mode mode);
     let fp = fp\<lparr>fp_obj := (fp_obj fp)\<lparr>lockid := lock\<rparr>\<rparr>;
     if lock = 0 then Some (FR_INT_ERR, fp, files, fs, d) else do {
     fp \<leftarrow> start_file mode dj fp fs;
     (res, fp, fs, d) \<leftarrow> (if mode AND FA_SEEKEND \<noteq> 0 \<and> 0 < objsize (fp_obj fp) then seek_end io fp fs d else Some (FR_OK, fp, fs, d));
     Some (res, fp, files, fs, d) } } }"

definition f_open ::
  "'d disk_io \<Rightarrow> dir_object \<Rightarrow> fil option \<Rightarrow> u8 list option \<Rightarrow> u8 \<Rightarrow> ff_static \<Rightarrow> 'd
     \<Rightarrow> (fresult \<times> fil option \<times> ff_static \<times> 'd) option" where
  "f_open io stk fp path mode st d = (case fp of None \<Rightarrow> Some (FR_INVALID_OBJECT, None, st, d) | Some fp \<Rightarrow> do {
     let mode = mode AND (FA_READ OR FA_WRITE OR FA_CREATE_ALWAYS OR FA_CREATE_NEW OR FA_OPEN_ALWAYS OR FA_OPEN_APPEND);
     (res, path, fsp, st, d) \<leftarrow> mount_volume io path mode st d;
     if res \<noteq> FR_OK then Some (res, Some (set_owner 0 fp), st, d)
     else case init_nambuf io (objects st fsp) d of
       None \<Rightarrow> Some (FR_NOT_ENOUGH_CORE, Some fp, st, d)
     | Some fs \<Rightarrow> do {
         path \<leftarrow> path;
         (res, fp, files, fs, d) \<leftarrow> open_path io stk fsp path mode (Files st) fp fs d;
         Some (res, Some (if res \<noteq> FR_OK then set_owner 0 fp else fp), (set_fs fsp (free_nambuf fs) st)\<lparr>Files := files\<rparr>, d) } })"

section \<open>Syncing and closing\<close>

text \<open>The entry of the file in a FAT directory.\<close>

definition sync_entry :: "'d disk_io \<Rightarrow> u32 \<Rightarrow> fil \<Rightarrow> fatfs \<Rightarrow> 'd \<Rightarrow> (fresult \<times> fil \<times> fatfs \<times> 'd) option" where
  "sync_entry io tm fp fs d = do {
     (res, fs, d) \<leftarrow> move_window io (dir_sect fp) fs d;
     if res \<noteq> FR_OK then Some (res, fp, fs, d) else do {
     let p = dir_ptr fp;
     a \<leftarrow> rd (win fs) (p + DIR_Attr);
     fs \<leftarrow> put_win (\<lambda>w. wr w (p + DIR_Attr) (a OR AM_ARC)) fs;
     fs \<leftarrow> st_clust p (sclust (fp_obj fp)) fs;
     fs \<leftarrow> put_win (\<lambda>w. st_dword w (p + DIR_FileSize) (ucast (objsize (fp_obj fp)))) fs;
     fs \<leftarrow> put_win (\<lambda>w. st_dword w (p + DIR_ModTime) tm) fs;
     fs \<leftarrow> put_win (\<lambda>w. st_word w (p + DIR_LstAccDate) 0) fs;
     (res, fs, d) \<leftarrow> sync_fs io (fs\<lparr>wflag := 1\<rparr>) d;
     Some (res, fp\<lparr>fp_flag := fp_flag fp AND NOT FA_MODIFIED\<rparr>, fs, d) } }"

definition update_block :: "u32 \<Rightarrow> ffobjid \<Rightarrow> u8 list \<Rightarrow> u8 list option" where
  "update_block tm obj b = do {
     a \<leftarrow> rd b XDIR_Attr;
     b \<leftarrow> wr b XDIR_Attr (a OR AM_ARC);
     b \<leftarrow> wr b XDIR_GenFlags (stat obj OR 1);
     b \<leftarrow> st_dword b XDIR_FstClus (sclust obj);
     b \<leftarrow> st_qword b XDIR_FileSize (objsize obj);
     b \<leftarrow> st_qword b XDIR_ValidFileSize (objsize obj);
     b \<leftarrow> st_dword b XDIR_ModTime tm;
     b \<leftarrow> wr b XDIR_ModTime10 0;
     st_dword b XDIR_AccTime 0 }"

definition sync_block :: "'d disk_io \<Rightarrow> dir_object \<Rightarrow> u32 \<Rightarrow> fil \<Rightarrow> fatfs \<Rightarrow> 'd \<Rightarrow> (fresult \<times> fil \<times> fatfs \<times> 'd) option" where
  "sync_block io stk tm fp fs d = do {
     (res, obj, fs, d) \<leftarrow> fill_first_frag io (fp_obj fp) fs d;
     (res, obj, fs, d) \<leftarrow> (if res = FR_OK then fill_last_frag io obj (fp_clust fp) 0xFFFFFFFF fs d else Some (res, obj, fs, d));
     let fp = fp\<lparr>fp_obj := obj\<rparr>;
     if res \<noteq> FR_OK then Some (res, fp, fs, d)
     else case init_nambuf io fs d of None \<Rightarrow> Some (FR_NOT_ENOUGH_CORE, fp, fs, d) | Some fs \<Rightarrow> do {
       (res, dj, fs, d) \<leftarrow> load_obj_xdir io obj stk fs d;
       if res \<noteq> FR_OK then Some (res, fp, free_nambuf fs, d) else do {
       b \<leftarrow> update_block tm obj (dirbuf fs);
       (res, dj, fs, d) \<leftarrow> store_xdir io dj (fs\<lparr>dirbuf := b\<rparr>) d;
       if res \<noteq> FR_OK then Some (res, fp, free_nambuf fs, d) else do {
       (res, fs, d) \<leftarrow> sync_fs io fs d;
       Some (res, fp\<lparr>fp_flag := fp_flag fp AND NOT FA_MODIFIED\<rparr>, free_nambuf fs, d) } } } }"

definition f_sync :: "'d disk_io \<Rightarrow> dir_object \<Rightarrow> fil \<Rightarrow> ff_static \<Rightarrow> 'd \<Rightarrow> (fresult \<times> fil \<times> ff_static \<times> 'd) option" where
  "f_sync io stk fp st d = do {
     (res, fsp, d) \<leftarrow> validate io (Some (fp_obj fp)) st d;
     if res \<noteq> FR_OK \<or> fp_flag fp AND FA_MODIFIED = 0 then Some (res, fp, st, d)
     else do {
       let fs = objects st fsp;
       (res, fp, d) \<leftarrow> flush_buf io fp fs d;
       if res \<noteq> FR_OK then Some (res, fp, st, d) else do {
       let tm = fattime io d;
       (res, fp, fs, d) \<leftarrow> (if fs_type fs = FS_EXFAT then sync_block io stk tm fp fs d else sync_entry io tm fp fs d);
       Some (res, fp, set_fs fsp fs st, d) } } }"

definition f_close :: "'d disk_io \<Rightarrow> dir_object \<Rightarrow> fil \<Rightarrow> ff_static \<Rightarrow> 'd \<Rightarrow> (fresult \<times> fil \<times> ff_static \<times> 'd) option" where
  "f_close io stk fp st d = do {
     (res, fp, st, d) \<leftarrow> f_sync io stk fp st d;
     if res \<noteq> FR_OK then Some (res, fp, st, d) else do {
     (res, fsp, d) \<leftarrow> validate io (Some (fp_obj fp)) st d;
     if res \<noteq> FR_OK then Some (res, fp, st, d)
     else
       let (res, files) = dec_lock (lockid (fp_obj fp)) (Files st) in
       Some (res, if res = FR_OK then set_owner 0 fp else fp, st\<lparr>Files := files\<rparr>, d) } }"

section \<open>Seeking\<close>

definition CREATE_LINKMAP :: u64 where "CREATE_LINKMAP = 0 - 1"

text \<open>One fragment of a chain: its length and the cluster behind it, or an error.\<close>

partial_function (option) link_fragment ::
  "'d disk_io \<Rightarrow> ffobjid \<Rightarrow> u32 \<Rightarrow> u32 \<Rightarrow> fatfs \<Rightarrow> 'd \<Rightarrow> ((fresult + u32 \<times> u32) \<times> fatfs \<times> 'd) option" where
  "link_fragment io obj ncl pcl fs d = do {
     (cl, fs, d) \<leftarrow> get_fat io obj pcl fs d;
     if cl \<le> 1 then Some (Inl FR_INT_ERR, fs, d)
     else if cl = 0xFFFFFFFF then Some (Inl FR_DISK_ERR, fs, d)
     else if cl = pcl + 1 then link_fragment io obj (ncl + 1) cl fs d
     else Some (Inr (ncl + 1, cl), fs, d) }"

text \<open>The table is filled from \<open>k\<close> on while there is room; \<open>ulen\<close> counts what it takes.\<close>

partial_function (option) link_map ::
  "'d disk_io \<Rightarrow> ffobjid \<Rightarrow> u32 \<Rightarrow> u32 \<Rightarrow> nat \<Rightarrow> u32 list \<Rightarrow> u32 \<Rightarrow> fatfs \<Rightarrow> 'd
     \<Rightarrow> (fresult \<times> u32 \<times> nat \<times> u32 list \<times> fatfs \<times> 'd) option" where
  "link_map io obj tlen ulen k tbl cl fs d = do {
     let ulen = ulen + 2;
     (r, fs, d) \<leftarrow> link_fragment io obj 0 cl fs d;
     (case r of Inl e \<Rightarrow> Some (e, ulen, k, tbl, fs, d)
      | Inr (ncl, nxt) \<Rightarrow> do {
          (k, tbl) \<leftarrow> (if ulen \<le> tlen then do {
             tbl \<leftarrow> wr tbl k ncl;
             tbl \<leftarrow> wr tbl (k + 1) cl;
             Some (k + 2, tbl) }
           else Some (k, tbl));
          if nxt < n_fatent fs then link_map io obj tlen ulen k tbl nxt fs d
          else Some (FR_OK, ulen, k, tbl, fs, d) }) }"

definition create_linkmap ::
  "'d disk_io \<Rightarrow> u32 list \<Rightarrow> fil \<Rightarrow> fatfs \<Rightarrow> 'd \<Rightarrow> (fresult \<times> fil \<times> fatfs \<times> 'd) option" where
  "create_linkmap io tbl fp fs d = do {
     tlen \<leftarrow> rd tbl 0;
     (res, ulen, k, tbl, fs, d) \<leftarrow> (if sclust (fp_obj fp) = 0 then Some (FR_OK, 2, 1, tbl, fs, d)
                    else link_map io (fp_obj fp) tlen 2 1 tbl (sclust (fp_obj fp)) fs d);
     if res \<noteq> FR_OK then Some (res, abort res (fp\<lparr>cltbl := Some tbl\<rparr>), fs, d) else do {
     tbl \<leftarrow> wr tbl 0 ulen;
     tbl \<leftarrow> (if ulen \<le> tlen then wr tbl k 0 else Some tbl);
     Some (if ulen \<le> tlen then FR_OK else FR_NOT_ENOUGH_CORE, fp\<lparr>cltbl := Some tbl\<rparr>, fs, d) } }"

text \<open>The sector of the file pointer is loaded when the pointer lies inside it.\<close>

definition refill :: "'d disk_io \<Rightarrow> u64 \<Rightarrow> fil \<Rightarrow> fatfs \<Rightarrow> 'd \<Rightarrow> (fresult \<times> fil \<times> fatfs \<times> 'd) option" where
  "refill io nsect fp fs d =
     (if fptr fp mod 512 \<noteq> 0 then do {
        (res, fp, d) \<leftarrow> read_cached io nsect fp fs d;
        Some (res, if res = FR_OK then fp else abort res fp, fs, d) }
      else Some (FR_OK, fp, fs, d))"

definition fast_seek ::
  "'d disk_io \<Rightarrow> u32 list \<Rightarrow> u64 \<Rightarrow> fil \<Rightarrow> fatfs \<Rightarrow> 'd \<Rightarrow> (fresult \<times> fil \<times> fatfs \<times> 'd) option" where
  "fast_seek io tbl ofs fp fs d =
     (let ofs = (if objsize (fp_obj fp) < ofs then objsize (fp_obj fp) else ofs); fp = fp\<lparr>fptr := ofs\<rparr> in
      if ofs = 0 then Some (FR_OK, fp, fs, d) else do {
      clst \<leftarrow> clmt_clust tbl (ofs - 1) fs;
      let fp = fp\<lparr>fp_clust := clst\<rparr>;
      let dsc = clst2sect fs clst;
      if dsc = 0 then Some (FR_INT_ERR, abort FR_INT_ERR fp, fs, d)
      else refill io (dsc + ucast ((ucast ((ofs - 1) div 512) :: u32) AND (ucast (csize fs) - 1))) fp fs d })"

text \<open>Following the chain, and stretching it in write mode; a full disk ends it where it is.\<close>

definition seek_cluster :: "'d disk_io \<Rightarrow> u32 \<Rightarrow> fil \<Rightarrow> fatfs \<Rightarrow> 'd \<Rightarrow> (u32 \<times> fil \<times> fatfs \<times> 'd) option" where
  "seek_cluster io clst fp fs d =
     (if fp_flag fp AND FA_WRITE \<noteq> 0 then do {
        let fp = (if objsize (fp_obj fp) < fptr fp
                  then fp\<lparr>fp_obj := (fp_obj fp)\<lparr>objsize := fptr fp\<rparr>, fp_flag := fp_flag fp OR FA_MODIFIED\<rparr> else fp);
        (c, obj, fs, d) \<leftarrow> create_chain io (fp_obj fp) clst fs d;
        Some (c, fp\<lparr>fp_obj := obj\<rparr>, fs, d) }
      else do {
        (c, fs, d) \<leftarrow> get_fat io (fp_obj fp) clst fs d;
        Some (c, fp, fs, d) })"

partial_function (option) seek_loop ::
  "'d disk_io \<Rightarrow> u64 \<Rightarrow> u64 \<Rightarrow> u32 \<Rightarrow> fil \<Rightarrow> fatfs \<Rightarrow> 'd \<Rightarrow> (fresult \<times> u64 \<times> u32 \<times> fil \<times> fatfs \<times> 'd) option" where
  "seek_loop io bcs ofs clst fp fs d =
     (if bcs < ofs then do {
        let ofs = ofs - bcs;
        (clst, fp, fs, d) \<leftarrow> seek_cluster io clst (fp\<lparr>fptr := fptr fp + bcs\<rparr>) fs d;
        if clst = 0 \<and> fp_flag fp AND FA_WRITE \<noteq> 0 then Some (FR_OK, 0, clst, fp, fs, d)
        else if clst = 0xFFFFFFFF then Some (FR_DISK_ERR, ofs, clst, abort FR_DISK_ERR fp, fs, d)
        else if clst \<le> 1 \<or> n_fatent fs \<le> clst then Some (FR_INT_ERR, ofs, clst, abort FR_INT_ERR fp, fs, d)
        else seek_loop io bcs ofs clst (fp\<lparr>fp_clust := clst\<rparr>) fs d }
      else Some (FR_OK, ofs, clst, fp, fs, d))"

text \<open>Where following starts: the cluster of the old pointer when the new one is behind it, the first one otherwise.\<close>

definition seek_start ::
  "'d disk_io \<Rightarrow> u32 \<Rightarrow> u64 \<Rightarrow> u64 \<Rightarrow> fil \<Rightarrow> fatfs \<Rightarrow> 'd \<Rightarrow> (fresult \<times> u64 \<times> u32 \<times> fil \<times> fatfs \<times> 'd) option" where
  "seek_start io bcs ofs ifptr fp fs d =
     (if 0 < ifptr \<and> (ifptr - 1) div ucast bcs \<le> (ofs - 1) div ucast bcs then
        let fp = fp\<lparr>fptr := (ifptr - 1) AND NOT (ucast (bcs - 1))\<rparr> in
        Some (FR_OK, ofs - fptr fp, fp_clust fp, fp, fs, d)
      else if sclust (fp_obj fp) = 0 then do {
        (clst, obj, fs, d) \<leftarrow> create_chain io (fp_obj fp) 0 fs d;
        let fp = fp\<lparr>fp_obj := obj\<rparr>;
        if clst = 1 then Some (FR_INT_ERR, ofs, clst, abort FR_INT_ERR fp, fs, d)
        else if clst = 0xFFFFFFFF then Some (FR_DISK_ERR, ofs, clst, abort FR_DISK_ERR fp, fs, d)
        else Some (FR_OK, ofs, clst, fp\<lparr>fp_obj := obj\<lparr>sclust := clst\<rparr>, fp_clust := clst\<rparr>, fs, d) }
      else Some (FR_OK, ofs, sclust (fp_obj fp), fp\<lparr>fp_clust := sclust (fp_obj fp)\<rparr>, fs, d))"

text \<open>The pointer is moved; the third component is the sector it lies in, zero at a sector boundary.\<close>

definition move_pointer ::
  "'d disk_io \<Rightarrow> u64 \<Rightarrow> fil \<Rightarrow> fatfs \<Rightarrow> 'd \<Rightarrow> (fresult \<times> u64 \<times> fil \<times> fatfs \<times> 'd) option" where
  "move_pointer io ofs fp fs d =
     (let ifptr = fptr fp; fp = fp\<lparr>fptr := 0\<rparr>; bcs = ucast (csize fs) * 512 :: u32 in
      if ofs = 0 then Some (FR_OK, 0, fp, fs, d)
      else if bcs = 0 then None else do {
      (res, ofs, clst, fp, fs, d) \<leftarrow> seek_start io bcs ofs ifptr fp fs d;
      if res \<noteq> FR_OK \<or> clst = 0 then Some (res, 0, fp, fs, d) else do {
      (res, ofs, clst, fp, fs, d) \<leftarrow> seek_loop io (ucast bcs) ofs clst fp fs d;
      if res \<noteq> FR_OK then Some (res, 0, fp, fs, d) else do {
      let fp = fp\<lparr>fptr := fptr fp + ofs\<rparr>;
      if ofs mod 512 = 0 then Some (FR_OK, 0, fp, fs, d) else do {
      let nsect = clst2sect fs clst;
      if nsect = 0 then Some (FR_INT_ERR, 0, abort FR_INT_ERR fp, fs, d)
      else Some (FR_OK, nsect + ucast (ucast (ofs div 512) :: u32), fp, fs, d) } } } })"

definition normal_seek :: "'d disk_io \<Rightarrow> u64 \<Rightarrow> fil \<Rightarrow> fatfs \<Rightarrow> 'd \<Rightarrow> (fresult \<times> fil \<times> fatfs \<times> 'd) option" where
  "normal_seek io ofs fp fs d = do {
     let ofs = (if fs_type fs \<noteq> FS_EXFAT \<and> 0x100000000 \<le> ofs then 0xFFFFFFFF else ofs);
     let ofs = (if objsize (fp_obj fp) < ofs \<and> fp_flag fp AND FA_WRITE = 0 then objsize (fp_obj fp) else ofs);
     (res, nsect, fp, fs, d) \<leftarrow> move_pointer io ofs fp fs d;
     if res \<noteq> FR_OK then Some (res, fp, fs, d) else do {
     let fp = (if objsize (fp_obj fp) < fptr fp
               then fp\<lparr>fp_obj := (fp_obj fp)\<lparr>objsize := fptr fp\<rparr>, fp_flag := fp_flag fp OR FA_MODIFIED\<rparr> else fp);
     refill io nsect fp fs d } }"

definition f_lseek :: "'d disk_io \<Rightarrow> u64 \<Rightarrow> fil \<Rightarrow> ff_static \<Rightarrow> 'd \<Rightarrow> (fresult \<times> fil \<times> ff_static \<times> 'd) option" where
  "f_lseek io ofs fp st d = do {
     (res, fsp, d) \<leftarrow> validate io (Some (fp_obj fp)) st d;
     let res = (if res = FR_OK then fp_err fp else res);
     if res \<noteq> FR_OK then Some (res, fp, st, d) else do {
     let fs = objects st fsp;
     (res, fp, fs, d) \<leftarrow> (if fs_type fs = FS_EXFAT then do {
        (res, obj, fs, d) \<leftarrow> fill_last_frag io (fp_obj fp) (fp_clust fp) 0xFFFFFFFF fs d;
        Some (res, fp\<lparr>fp_obj := obj\<rparr>, fs, d) }
      else Some (FR_OK, fp, fs, d));
     if res \<noteq> FR_OK then Some (res, fp, set_fs fsp fs st, d) else do {
     (res, fp, fs, d) \<leftarrow> (case cltbl fp of
        Some tbl \<Rightarrow> if ofs = CREATE_LINKMAP then create_linkmap io tbl fp fs d else fast_seek io tbl ofs fp fs d
      | None \<Rightarrow> normal_seek io ofs fp fs d);
     Some (res, fp, set_fs fsp fs st, d) } } }"

section \<open>Truncating\<close>

definition cut_chain :: "'d disk_io \<Rightarrow> fil \<Rightarrow> fatfs \<Rightarrow> 'd \<Rightarrow> (fresult \<times> fil \<times> fatfs \<times> 'd) option" where
  "cut_chain io fp fs d =
     (if fptr fp = 0 then do {
        (res, obj, fs, d) \<leftarrow> remove_chain io (fp_obj fp) (sclust (fp_obj fp)) 0 fs d;
        Some (res, fp\<lparr>fp_obj := obj\<lparr>sclust := 0\<rparr>\<rparr>, fs, d) }
      else do {
        (ncl, fs, d) \<leftarrow> get_fat io (fp_obj fp) (fp_clust fp) fs d;
        if ncl = 0xFFFFFFFF then Some (FR_DISK_ERR, fp, fs, d)
        else if ncl = 1 then Some (FR_INT_ERR, fp, fs, d)
        else if ncl < n_fatent fs then do {
          (res, obj, fs, d) \<leftarrow> remove_chain io (fp_obj fp) ncl (fp_clust fp) fs d;
          Some (res, fp\<lparr>fp_obj := obj\<rparr>, fs, d) }
        else Some (FR_OK, fp, fs, d) })"

definition f_truncate :: "'d disk_io \<Rightarrow> fil \<Rightarrow> ff_static \<Rightarrow> 'd \<Rightarrow> (fresult \<times> fil \<times> ff_static \<times> 'd) option" where
  "f_truncate io fp st d = do {
     (res, fsp, d) \<leftarrow> validate io (Some (fp_obj fp)) st d;
     if res \<noteq> FR_OK then Some (res, fp, st, d)
     else if fp_err fp \<noteq> FR_OK then Some (fp_err fp, fp, st, d)
     else if fp_flag fp AND FA_WRITE = 0 then Some (FR_DENIED, fp, st, d)
     else if objsize (fp_obj fp) \<le> fptr fp then Some (FR_OK, fp, st, d)
     else do {
       (res, fp, fs, d) \<leftarrow> cut_chain io fp (objects st fsp) d;
       let fp = fp\<lparr>fp_obj := (fp_obj fp)\<lparr>objsize := fptr fp\<rparr>, fp_flag := fp_flag fp OR FA_MODIFIED\<rparr>;
       (res, fp, d) \<leftarrow> (if res = FR_OK then flush_buf io fp fs d else Some (res, fp, d));
       Some (res, if res = FR_OK then fp else abort res fp, set_fs fsp fs st, d) } }"

end
