(* ===== verification/Ff_Api.thy ===== *)
theory Ff_Api
  imports Ff_Open
begin

text \<open>
  The functions on directories and volumes, from \<open>ff.c\<close>: the current directory, \<open>f_opendir\<close>, \<open>f_readdir\<close>
  and the searches over it, \<open>f_stat\<close>, \<open>f_getfree\<close>, \<open>f_unlink\<close>, \<open>f_mkdir\<close> and \<open>f_rename\<close>. What a local
  structure holds at first is an argument, \<open>stk\<close> or \<open>fno\<close>.
\<close>

section \<open>The frame of a function with a path\<close>

text \<open>
  The volume of the path is mounted and the name buffers are there while the body runs; the body gets
  the object of the volume, the table of open files and the path behind the drive number. The value is
  \<open>a\<close> when the volume is not mounted, \<open>b\<close> when there is no memory, and that of the body otherwise.
\<close>

definition with_path ::
  "'d disk_io \<Rightarrow> u8 list option \<Rightarrow> u8 \<Rightarrow> 'a \<Rightarrow> (nat \<Rightarrow> 'a) \<Rightarrow> (nat \<Rightarrow> filesem list \<Rightarrow> u8 list \<Rightarrow> fatfs \<Rightarrow> 'd \<Rightarrow> (fresult \<times> 'a \<times> fatfs \<times> 'd) option)
     \<Rightarrow> ff_static \<Rightarrow> 'd \<Rightarrow> (fresult \<times> 'a \<times> ff_static \<times> 'd) option" where
  "with_path io path mode a b body st d = do {
     (res, path, fsp, st, d) \<leftarrow> mount_volume io path mode st d;
     if res \<noteq> FR_OK then Some (res, a, st, d)
     else case init_nambuf io (objects st fsp) d of
       None \<Rightarrow> Some (FR_NOT_ENOUGH_CORE, b fsp, st, d)
     | Some fs \<Rightarrow> do {
         path \<leftarrow> path;
         (res, x, fs, d) \<leftarrow> body fsp (Files st) path fs d;
         Some (res, x, set_fs fsp (free_nambuf fs) st, d) } }"

definition owned :: "nat \<Rightarrow> dir_object \<Rightarrow> dir_object" where
  "owned fsp dp = dp\<lparr>dp_obj := (dp_obj dp)\<lparr>obj_fs := fsp\<rparr>\<rparr>"

section \<open>The current directory\<close>

definition f_chdrive :: "u8 list option \<Rightarrow> ff_static \<Rightarrow> (fresult \<times> ff_static) option" where
  "f_chdrive path st = do {
     (vol, path) \<leftarrow> get_ldnumber (CurrVol st) path;
     Some (if vol < 0 then (FR_INVALID_DRIVE, st) else (FR_OK, st\<lparr>CurrVol := word_of_int vol\<rparr>)) }"

definition dir_stamp :: "dir_object \<Rightarrow> u32" where
  "dir_stamp dp = (ucast (objsize (dp_obj dp)) AND 0xFFFFFF00) OR ucast (stat (dp_obj dp))"

definition change_dir :: "dir_object \<Rightarrow> fatfs \<Rightarrow> (fresult \<times> fatfs) option" where
  "change_dir dj fs = do {
     ns \<leftarrow> rd (fn dj) NSFLAG;
     if ns AND NS_NONAME \<noteq> 0 then
       let obj = dp_obj dj; fs = fs\<lparr>cdir := sclust obj\<rparr> in
       Some (FR_OK, if fs_type fs = FS_EXFAT then fs\<lparr>cdc_scl := c_scl obj, cdc_size := c_size obj, cdc_ofs := c_ofs obj\<rparr> else fs)
     else if obj_attr (dp_obj dj) AND AM_DIR = 0 then Some (FR_NO_PATH, fs)
     else if fs_type fs = FS_EXFAT then do {
       cl \<leftarrow> ld_dword (dirbuf fs) XDIR_FstClus;
       Some (FR_OK, fs\<lparr>cdir := cl, cdc_scl := sclust (dp_obj dj), cdc_size := dir_stamp dj, cdc_ofs := blk_ofs dj\<rparr>) }
     else do {
       cl \<leftarrow> ld_clust fs (dp_dir dj);
       Some (FR_OK, fs\<lparr>cdir := cl\<rparr>) } }"

definition no_path :: "fresult \<Rightarrow> fresult" where "no_path res = (if res = FR_NO_FILE then FR_NO_PATH else res)"

definition f_chdir :: "'d disk_io \<Rightarrow> dir_object \<Rightarrow> u8 list option \<Rightarrow> ff_static \<Rightarrow> 'd \<Rightarrow> (fresult \<times> ff_static \<times> 'd) option" where
  "f_chdir io stk path st d = map_option (\<lambda>(res, _, st, d). (res, st, d))
     (with_path io path 0 () (\<lambda>_. ()) (\<lambda>fsp files path fs d. do {
        (res, dj, fs, d) \<leftarrow> follow_path io stk path (owned fsp stk) fs d;
        (res, fs) \<leftarrow> (if res = FR_OK then change_dir dj fs else Some (res, fs));
        Some (no_path res, (), fs, d) }) st d)"

text \<open>The entry of the parent that leads to the child directory at cluster \<open>ccl\<close>.\<close>

partial_function (option) child_loop ::
  "'d disk_io \<Rightarrow> u32 \<Rightarrow> dir_object \<Rightarrow> fatfs \<Rightarrow> 'd \<Rightarrow> (fresult \<times> dir_object \<times> fatfs \<times> 'd) option" where
  "child_loop io ccl dj fs d = do {
     (res, dj, fs, d) \<leftarrow> dir_read io False dj fs d;
     if res \<noteq> FR_OK then Some (res, dj, fs, d) else do {
     cl \<leftarrow> ld_clust fs (dp_dir dj);
     if ccl = cl then Some (FR_OK, dj, fs, d) else do {
     (res, dj, fs, d) \<leftarrow> dir_next io False dj fs d;
     if res = FR_OK then child_loop io ccl dj fs d else Some (res, dj, fs, d) } } }"

definition parent_entry ::
  "'d disk_io \<Rightarrow> dir_object \<Rightarrow> fatfs \<Rightarrow> 'd \<Rightarrow> (fresult \<times> dir_object \<times> fatfs \<times> 'd) option" where
  "parent_entry io dj fs d = do {
     let ccl = sclust (dp_obj dj);
     (res, dj, fs, d) \<leftarrow> dir_sdi io 32 dj fs d;
     if res \<noteq> FR_OK then Some (res, dj, fs, d) else do {
     (res, fs, d) \<leftarrow> move_window io (dp_sect dj) fs d;
     if res \<noteq> FR_OK then Some (res, dj, fs, d) else do {
     cl \<leftarrow> ld_clust fs (dp_dir dj);
     (res, dj, fs, d) \<leftarrow> dir_sdi io 0 (dj\<lparr>dp_obj := (dp_obj dj)\<lparr>sclust := cl\<rparr>\<rparr>) fs d;
     if res \<noteq> FR_OK then Some (res, dj, fs, d) else do {
     (res, dj, fs, d) \<leftarrow> child_loop io ccl dj fs d;
     Some (if res = FR_NO_FILE then FR_INT_ERR else res, dj, fs, d) } } } }"

fun name_length :: "u8 list \<Rightarrow> u32 option" where
  "name_length [] = None"
| "name_length (c # s) = (if c = 0 then Some 0 else map_option (\<lambda>n. n + 1) (name_length s))"

text \<open>The name is stacked in front of what the buffer holds from \<open>i\<close> on.\<close>

fun stack_name :: "u8 list \<Rightarrow> nat \<Rightarrow> u32 \<Rightarrow> u8 list \<Rightarrow> (u32 \<times> u8 list) option" where
  "stack_name name 0 i buff = map_option (\<lambda>b. (i - 1, b)) (wr buff (unat (i - 1)) 0x2F)"
| "stack_name name (Suc n) i buff = do {
     c \<leftarrow> rd name n;
     buff \<leftarrow> wr buff (unat (i - 1)) c;
     stack_name name n (i - 1) buff }"

partial_function (option) getcwd_loop ::
  "'d disk_io \<Rightarrow> filinfo \<Rightarrow> dir_object \<Rightarrow> u32 \<Rightarrow> u8 list \<Rightarrow> fatfs \<Rightarrow> 'd \<Rightarrow> (fresult \<times> u32 \<times> u8 list \<times> fatfs \<times> 'd) option" where
  "getcwd_loop io fno dj i buff fs d =
     (if sclust (dp_obj dj) = 0 then Some (FR_OK, i, buff, fs, d) else do {
     (res, dj, fs, d) \<leftarrow> parent_entry io dj fs d;
     if res \<noteq> FR_OK then Some (res, i, buff, fs, d) else do {
     fno \<leftarrow> get_fileinfo dj fs fno;
     n \<leftarrow> name_length (fi_fname fno);
     if i < n + 1 then Some (FR_NOT_ENOUGH_CORE, i, buff, fs, d) else do {
     (i, buff) \<leftarrow> stack_name (fi_fname fno) (unat n) i buff;
     getcwd_loop io fno dj i buff fs d } } })"

partial_function (option) copy_front :: "u32 \<Rightarrow> nat \<Rightarrow> u32 \<Rightarrow> u8 list \<Rightarrow> (nat \<times> u8 list) option" where
  "copy_front len tp i buff = do {
     c \<leftarrow> rd buff (unat i);
     buff \<leftarrow> wr buff tp c;
     if i + 1 < len then copy_front len (tp + 1) (i + 1) buff else Some (tp + 1, buff) }"

definition cwd_path ::
  "'d disk_io \<Rightarrow> dir_object \<Rightarrow> filinfo \<Rightarrow> u32 \<Rightarrow> nat \<Rightarrow> u8 list \<Rightarrow> fatfs \<Rightarrow> 'd \<Rightarrow> (fresult \<times> (nat \<times> u8 list) \<times> fatfs \<times> 'd) option" where
  "cwd_path io stk fno len fsp buff fs d = do {
     (res, i, buff, fs, d) \<leftarrow> (if fs_type fs \<noteq> FS_EXFAT then
         let dj = owned fsp stk in getcwd_loop io fno (dj\<lparr>dp_obj := (dp_obj dj)\<lparr>sclust := cdir fs\<rparr>\<rparr>) len buff fs d
       else Some (FR_OK, len, buff, fs, d));
     if res \<noteq> FR_OK then Some (res, (0, buff), fs, d) else do {
     (i, buff) \<leftarrow> (if i = len then map_option (\<lambda>b. (i - 1, b)) (wr buff (unat (i - 1)) 0x2F) else Some (i, buff));
     (tp, buff) \<leftarrow> copy_front len 0 i buff;
     Some (FR_OK, (tp, buff), fs, d) } }"

text \<open>The path is built at the end of the buffer and moved to its front, with a zero behind it.\<close>

definition f_getcwd ::
  "'d disk_io \<Rightarrow> dir_object \<Rightarrow> filinfo \<Rightarrow> u8 list \<Rightarrow> u32 \<Rightarrow> ff_static \<Rightarrow> 'd \<Rightarrow> (fresult \<times> u8 list \<times> ff_static \<times> 'd) option" where
  "f_getcwd io stk fno buff len st d = do {
     buff \<leftarrow> wr buff 0 0;
     (res, (tp, out), st, d) \<leftarrow> with_path io (Some buff) 0 (0, buff) (\<lambda>_. (0, buff))
       (\<lambda>fsp files path fs d. cwd_path io stk fno len fsp path fs d) st d;
     out \<leftarrow> wr out tp 0;
     Some (res, out, st, d) }"

section \<open>Reading directories\<close>

definition open_dir ::
  "'d disk_io \<Rightarrow> dir_object \<Rightarrow> u8 list \<Rightarrow> filesem list \<Rightarrow> dir_object \<Rightarrow> fatfs \<Rightarrow> 'd
     \<Rightarrow> (fresult \<times> (dir_object \<times> filesem list) \<times> fatfs \<times> 'd) option" where
  "open_dir io stk path files dp fs d = do {
     (res, dp, fs, d) \<leftarrow> follow_path io stk path dp fs d;
     if res \<noteq> FR_OK then Some (res, (dp, files), fs, d) else do {
     ns \<leftarrow> rd (fn dp) NSFLAG;
     (res, dp) \<leftarrow> (if ns AND NS_NONAME \<noteq> 0 then Some (FR_OK, dp)
       else if obj_attr (dp_obj dp) AND AM_DIR = 0 then Some (FR_NO_PATH, dp)
       else if fs_type fs = FS_EXFAT then do {
         obj \<leftarrow> init_alloc_info fs ((dp_obj dp)\<lparr>c_scl := sclust (dp_obj dp), c_size := dir_stamp dp, c_ofs := blk_ofs dp\<rparr>);
         Some (FR_OK, dp\<lparr>dp_obj := obj\<rparr>) }
       else do {
         cl \<leftarrow> ld_clust fs (dp_dir dp);
         Some (FR_OK, dp\<lparr>dp_obj := (dp_obj dp)\<lparr>sclust := cl\<rparr>\<rparr>) });
     if res \<noteq> FR_OK then Some (res, (dp, files), fs, d) else do {
     (res, dp, fs, d) \<leftarrow> dir_sdi io 0 (dp\<lparr>dp_obj := (dp_obj dp)\<lparr>obj_id := fs_id fs\<rparr>\<rparr>) fs d;
     if res \<noteq> FR_OK then Some (res, (dp, files), fs, d)
     else if sclust (dp_obj dp) = 0 then Some (FR_OK, (dp\<lparr>dp_obj := (dp_obj dp)\<lparr>lockid := 0\<rparr>\<rparr>, files), fs, d)
     else
       let (lock, files) = inc_lock files dp 0; dp = dp\<lparr>dp_obj := (dp_obj dp)\<lparr>lockid := lock\<rparr>\<rparr> in
       Some (if lock = 0 then FR_TOO_MANY_OPEN_FILES else FR_OK, (dp, files), fs, d) } } }"

definition f_opendir ::
  "'d disk_io \<Rightarrow> dir_object \<Rightarrow> dir_object option \<Rightarrow> u8 list option \<Rightarrow> ff_static \<Rightarrow> 'd
     \<Rightarrow> (fresult \<times> dir_object option \<times> ff_static \<times> 'd) option" where
  "f_opendir io stk dp path st d = (case dp of None \<Rightarrow> Some (FR_INVALID_OBJECT, None, st, d) | Some dp \<Rightarrow> do {
     (res, r, st, d) \<leftarrow> with_path io path 0 (Inl (owned 0 dp)) (\<lambda>fsp. Inl (owned fsp dp)) (\<lambda>fsp files path fs d. do {
        (res, (dp, files), fs, d) \<leftarrow> open_dir io stk path files (owned fsp dp) fs d;
        Some (no_path res, Inr (if res = FR_OK then dp else owned 0 dp, files), fs, d) }) st d;
     (case r of Inl dp \<Rightarrow> Some (res, Some dp, st, d) | Inr (dp, files) \<Rightarrow> Some (res, Some dp, st\<lparr>Files := files\<rparr>, d)) })"

definition f_closedir ::
  "'d disk_io \<Rightarrow> dir_object \<Rightarrow> ff_static \<Rightarrow> 'd \<Rightarrow> (fresult \<times> dir_object \<times> ff_static \<times> 'd) option" where
  "f_closedir io dp st d = do {
     (res, fsp, d) \<leftarrow> validate io (Some (dp_obj dp)) st d;
     if res \<noteq> FR_OK then Some (res, dp, st, d)
     else
       let (res, files) = (if lockid (dp_obj dp) \<noteq> 0 then dec_lock (lockid (dp_obj dp)) (Files st) else (FR_OK, Files st)) in
       Some (res, if res = FR_OK then owned 0 dp else dp, st\<lparr>Files := files\<rparr>, d) }"

text \<open>The next item, with its information; at the end of the directory the name is empty.\<close>

definition next_item ::
  "'d disk_io \<Rightarrow> dir_object \<Rightarrow> filinfo \<Rightarrow> fatfs \<Rightarrow> 'd \<Rightarrow> (fresult \<times> dir_object \<times> filinfo \<times> fatfs \<times> 'd) option" where
  "next_item io dp fno fs d = do {
     (res, dp, fs, d) \<leftarrow> dir_read io False dp fs d;
     if res \<noteq> FR_OK \<and> res \<noteq> FR_NO_FILE then Some (res, dp, fno, fs, d) else do {
     fno \<leftarrow> get_fileinfo dp fs fno;
     (res, dp, fs, d) \<leftarrow> dir_next io False dp fs d;
     Some (if res = FR_NO_FILE then FR_OK else res, dp, fno, fs, d) } }"

definition f_readdir ::
  "'d disk_io \<Rightarrow> dir_object \<Rightarrow> filinfo option \<Rightarrow> ff_static \<Rightarrow> 'd \<Rightarrow> (fresult \<times> dir_object \<times> filinfo option \<times> ff_static \<times> 'd) option" where
  "f_readdir io dp fno st d = do {
     (res, fsp, d) \<leftarrow> validate io (Some (dp_obj dp)) st d;
     if res \<noteq> FR_OK then Some (res, dp, fno, st, d)
     else case fno of
       None \<Rightarrow> do {
         (res, dp, fs, d) \<leftarrow> dir_sdi io 0 dp (objects st fsp) d;
         Some (res, dp, None, set_fs fsp fs st, d) }
     | Some fno \<Rightarrow> (case init_nambuf io (objects st fsp) d of
         None \<Rightarrow> Some (FR_NOT_ENOUGH_CORE, dp, Some fno, st, d)
       | Some fs \<Rightarrow> do {
           (res, dp, fno, fs, d) \<leftarrow> next_item io dp fno fs d;
           Some (res, dp, Some fno, set_fs fsp (free_nambuf fs) st, d) }) }"

text \<open>The searches: the pattern belongs to the directory object.\<close>

partial_function (option) f_findnext ::
  "'d disk_io \<Rightarrow> u8 list \<Rightarrow> dir_object \<Rightarrow> filinfo option \<Rightarrow> ff_static \<Rightarrow> 'd
     \<Rightarrow> (fresult \<times> dir_object \<times> filinfo option \<times> ff_static \<times> 'd) option" where
  "f_findnext io pat dp fno st d = do {
     (res, dp, fno, st, d) \<leftarrow> f_readdir io dp fno st d;
     if res \<noteq> FR_OK then Some (res, dp, fno, st, d)
     else case fno of None \<Rightarrow> Some (res, dp, None, st, d) | Some f \<Rightarrow> do {
       c \<leftarrow> rd (fi_fname f) 0;
       ok \<leftarrow> (if c = 0 then Some True else pattern_match FIND_RECURS pat (fi_fname f) 0);
       if ok then Some (res, dp, fno, st, d) else f_findnext io pat dp fno st d } }"

definition f_findfirst ::
  "'d disk_io \<Rightarrow> dir_object \<Rightarrow> dir_object \<Rightarrow> filinfo option \<Rightarrow> u8 list option \<Rightarrow> u8 list \<Rightarrow> ff_static \<Rightarrow> 'd
     \<Rightarrow> (fresult \<times> dir_object \<times> filinfo option \<times> ff_static \<times> 'd) option" where
  "f_findfirst io stk dp fno path pat st d = do {
     (res, dp, st, d) \<leftarrow> f_opendir io stk (Some dp) path st d;
     dp \<leftarrow> dp;
     if res = FR_OK then f_findnext io pat dp fno st d else Some (res, dp, fno, st, d) }"

definition f_stat ::
  "'d disk_io \<Rightarrow> dir_object \<Rightarrow> u8 list option \<Rightarrow> filinfo option \<Rightarrow> ff_static \<Rightarrow> 'd
     \<Rightarrow> (fresult \<times> filinfo option \<times> ff_static \<times> 'd) option" where
  "f_stat io stk path fno st d = with_path io path 0 fno (\<lambda>_. fno) (\<lambda>fsp files path fs d. do {
     (res, dj, fs, d) \<leftarrow> follow_path io stk path (owned fsp stk) fs d;
     if res \<noteq> FR_OK then Some (res, fno, fs, d) else do {
     ns \<leftarrow> rd (fn dj) NSFLAG;
     if ns AND NS_NONAME \<noteq> 0 then Some (FR_INVALID_NAME, fno, fs, d)
     else case fno of None \<Rightarrow> Some (FR_OK, None, fs, d) | Some f \<Rightarrow> do {
       f \<leftarrow> get_fileinfo dj fs f;
       Some (FR_OK, Some f, fs, d) } } }) st d"

section \<open>Free clusters\<close>

partial_function (option) free12_loop ::
  "'d disk_io \<Rightarrow> ffobjid \<Rightarrow> u32 \<Rightarrow> u32 \<Rightarrow> fatfs \<Rightarrow> 'd \<Rightarrow> (fresult \<times> u32 \<times> fatfs \<times> 'd) option" where
  "free12_loop io obj clst nfree fs d = do {
     (st, fs, d) \<leftarrow> get_fat io obj clst fs d;
     if st = 0xFFFFFFFF then Some (FR_DISK_ERR, nfree, fs, d)
     else if st = 1 then Some (FR_INT_ERR, nfree, fs, d)
     else
       let nfree = (if st = 0 then nfree + 1 else nfree) in
       if clst + 1 < n_fatent fs then free12_loop io obj (clst + 1) nfree fs d else Some (FR_OK, nfree, fs, d) }"

text \<open>The zero bits of an octet of the bitmap, as far as there are clusters.\<close>

fun free_bits :: "nat \<Rightarrow> u8 \<Rightarrow> u32 \<Rightarrow> u32 \<Rightarrow> u32 \<times> u32" where
  "free_bits 0 bm clst nfree = (clst, nfree)"
| "free_bits (Suc b) bm clst nfree =
     (if clst = 0 then (clst, nfree) else free_bits b (drop_bit 1 bm) (clst - 1) (if bm AND 1 = 0 then nfree + 1 else nfree))"

partial_function (option) bitmap_free ::
  "'d disk_io \<Rightarrow> u32 \<Rightarrow> u64 \<Rightarrow> nat \<Rightarrow> u32 \<Rightarrow> fatfs \<Rightarrow> 'd \<Rightarrow> (fresult \<times> u32 \<times> fatfs \<times> 'd) option" where
  "bitmap_free io clst sect i nfree fs d = do {
     (res, fs, d) \<leftarrow> (if i = 0 then move_window io sect fs d else Some (FR_OK, fs, d));
     if res \<noteq> FR_OK then Some (res, nfree, fs, d) else do {
     bm \<leftarrow> rd (win fs) i;
     let (clst, nfree) = free_bits 8 bm clst nfree;
     if clst = 0 then Some (FR_OK, nfree, fs, d)
     else bitmap_free io clst (if i = 0 then sect + 1 else sect) ((i + 1) mod 512) nfree fs d } }"

partial_function (option) table_free ::
  "'d disk_io \<Rightarrow> u32 \<Rightarrow> u64 \<Rightarrow> nat \<Rightarrow> u32 \<Rightarrow> fatfs \<Rightarrow> 'd \<Rightarrow> (fresult \<times> u32 \<times> fatfs \<times> 'd) option" where
  "table_free io clst sect i nfree fs d = do {
     (res, fs, d) \<leftarrow> (if i = 0 then move_window io sect fs d else Some (FR_OK, fs, d));
     if res \<noteq> FR_OK then Some (res, nfree, fs, d) else do {
     (free, n) \<leftarrow> (if fs_type fs = FS_FAT16 then map_option (\<lambda>w. (w = 0, 2)) (ld_word (win fs) i)
                   else map_option (\<lambda>w. (w AND 0x0FFFFFFF = 0, 4)) (ld_dword (win fs) i));
     let nfree = (if free then nfree + 1 else nfree);
     if clst - 1 = 0 then Some (FR_OK, nfree, fs, d)
     else table_free io (clst - 1) (if i = 0 then sect + 1 else sect) ((i + n) mod 512) nfree fs d } }"

definition count_free :: "'d disk_io \<Rightarrow> ffobjid \<Rightarrow> fatfs \<Rightarrow> 'd \<Rightarrow> (fresult \<times> u32 \<times> fatfs \<times> 'd) option" where
  "count_free io obj fs d =
     (if free_clst fs \<le> n_fatent fs - 2 then Some (FR_OK, free_clst fs, fs, d)
      else do {
        (res, nfree, fs, d) \<leftarrow>
          (if fs_type fs = FS_FAT12 then free12_loop io obj 2 0 fs d
           else if fs_type fs = FS_EXFAT then bitmap_free io (n_fatent fs - 2) (bitbase fs) 0 0 fs d
           else table_free io (n_fatent fs) (fatbase fs) 0 0 fs d);
        Some (res, nfree, fs\<lparr>free_clst := nfree, fsi_flag := fsi_flag fs OR 1\<rparr>, d) })"

text \<open>The number of free clusters and the filesystem object, \<^term>\<open>None\<close> when they are not set.\<close>

definition f_getfree ::
  "'d disk_io \<Rightarrow> dir_object \<Rightarrow> u8 list option \<Rightarrow> ff_static \<Rightarrow> 'd \<Rightarrow> (fresult \<times> (u32 \<times> nat) option \<times> ff_static \<times> 'd) option" where
  "f_getfree io stk path st d = do {
     (res, path, fsp, st, d) \<leftarrow> mount_volume io path 0 st d;
     if res \<noteq> FR_OK then Some (res, None, st, d) else do {
     (res, nfree, fs, d) \<leftarrow> count_free io ((dp_obj stk)\<lparr>obj_fs := fsp\<rparr>) (objects st fsp) d;
     Some (res, Some (nfree, fsp), set_fs fsp fs st, d) } }"

section \<open>Removing\<close>

text \<open>Whether a directory may be removed: it is not the current one, and it is empty.\<close>

definition empty_dir ::
  "'d disk_io \<Rightarrow> dir_object \<Rightarrow> nat \<Rightarrow> ffobjid \<Rightarrow> u32 \<Rightarrow> fatfs \<Rightarrow> 'd \<Rightarrow> (fresult \<times> fatfs \<times> 'd) option" where
  "empty_dir io stk fsp obj dclst fs d =
     (if dclst = cdir fs then Some (FR_DENIED, fs, d)
      else do {
        let o' = (dp_obj stk)\<lparr>obj_fs := fsp, sclust := dclst\<rparr>;
        let o' = (if fs_type fs = FS_EXFAT then o'\<lparr>objsize := objsize obj, stat := stat obj\<rparr> else o');
        (res, sdj, fs, d) \<leftarrow> dir_sdi io 0 (stk\<lparr>dp_obj := o'\<rparr>) fs d;
        if res \<noteq> FR_OK then Some (res, fs, d) else do {
        (res, sdj, fs, d) \<leftarrow> dir_read io False sdj fs d;
        Some (if res = FR_OK then FR_DENIED else if res = FR_NO_FILE then FR_OK else res, fs, d) } })"

definition may_unlink :: "filesem list \<Rightarrow> fresult \<Rightarrow> dir_object \<Rightarrow> fresult option" where
  "may_unlink files res dj = (if res \<noteq> FR_OK then Some res else do {
     ns \<leftarrow> rd (fn dj) NSFLAG;
     if ns AND NS_DOT \<noteq> 0 then Some FR_INVALID_NAME
     else if chk_lock files dj 2 \<noteq> FR_OK then Some (chk_lock files dj 2)
     else Some (if ns AND NS_NONAME \<noteq> 0 then FR_INVALID_NAME
                else if obj_attr (dp_obj dj) AND AM_RDO \<noteq> 0 then FR_DENIED else FR_OK) })"

definition remove_object ::
  "'d disk_io \<Rightarrow> dir_object \<Rightarrow> nat \<Rightarrow> dir_object \<Rightarrow> fatfs \<Rightarrow> 'd \<Rightarrow> (fresult \<times> fatfs \<times> 'd) option" where
  "remove_object io stk fsp dj fs d = do {
     (obj, dclst) \<leftarrow> (let obj = (dp_obj stk)\<lparr>obj_fs := fsp\<rparr> in
        if fs_type fs = FS_EXFAT then map_option (\<lambda>obj. (obj, sclust obj)) (init_alloc_info fs obj)
        else map_option (\<lambda>cl. (obj, cl)) (ld_clust fs (dp_dir dj)));
     (res, fs, d) \<leftarrow> (if obj_attr (dp_obj dj) AND AM_DIR \<noteq> 0 then empty_dir io stk fsp obj dclst fs d else Some (FR_OK, fs, d));
     if res \<noteq> FR_OK then Some (res, fs, d) else do {
     (res, dj, fs, d) \<leftarrow> dir_remove io dj fs d;
     (res, fs, d) \<leftarrow> (if res = FR_OK \<and> dclst \<noteq> 0 then do {
        (res, obj, fs, d) \<leftarrow> remove_chain io obj dclst 0 fs d;
        Some (res, fs, d) }
      else Some (res, fs, d));
     if res \<noteq> FR_OK then Some (res, fs, d) else sync_fs io fs d } }"

definition f_unlink :: "'d disk_io \<Rightarrow> dir_object \<Rightarrow> u8 list option \<Rightarrow> ff_static \<Rightarrow> 'd \<Rightarrow> (fresult \<times> ff_static \<times> 'd) option" where
  "f_unlink io stk path st d = map_option (\<lambda>(res, _, st, d). (res, st, d))
     (with_path io path FA_WRITE () (\<lambda>_. ()) (\<lambda>fsp files path fs d. do {
        (res, dj, fs, d) \<leftarrow> follow_path io stk path (owned fsp stk) fs d;
        res \<leftarrow> may_unlink files res dj;
        (res, fs, d) \<leftarrow> (if res = FR_OK then remove_object io stk fsp dj fs d else Some (res, fs, d));
        Some (res, (), fs, d) }) st d)"

section \<open>Making a directory\<close>

text \<open>The two entries at the start of a directory of a FAT volume, in the window.\<close>

definition dot_entries :: "u32 \<Rightarrow> u32 \<Rightarrow> u32 \<Rightarrow> fatfs \<Rightarrow> fatfs option" where
  "dot_entries tm dcl pcl fs = do {
     fs \<leftarrow> put_win (\<lambda>w. mem_set w DIR_Name 0x20 11) fs;
     fs \<leftarrow> put_win (\<lambda>w. wr w DIR_Name 0x2E) fs;
     fs \<leftarrow> put_win (\<lambda>w. wr w DIR_Attr AM_DIR) fs;
     fs \<leftarrow> put_win (\<lambda>w. st_dword w DIR_ModTime tm) fs;
     fs \<leftarrow> st_clust 0 dcl fs;
     fs \<leftarrow> put_win (\<lambda>w. mem_cpy w 32 w 0 32) fs;
     fs \<leftarrow> put_win (\<lambda>w. wr w 33 0x2E) fs;
     fs \<leftarrow> st_clust 32 pcl fs;
     Some (fs\<lparr>wflag := 1\<rparr>) }"

definition dir_block :: "u32 \<Rightarrow> u32 \<Rightarrow> fatfs \<Rightarrow> u8 list option" where
  "dir_block tm dcl fs = do {
     b \<leftarrow> st_dword (dirbuf fs) XDIR_ModTime tm;
     b \<leftarrow> st_dword b XDIR_FstClus dcl;
     b \<leftarrow> st_dword b XDIR_FileSize (ucast (csize fs) * 512);
     b \<leftarrow> st_dword b XDIR_ValidFileSize (ucast (csize fs) * 512);
     b \<leftarrow> wr b XDIR_GenFlags 3;
     wr b XDIR_Attr AM_DIR }"

definition fill_entry ::
  "'d disk_io \<Rightarrow> u32 \<Rightarrow> u32 \<Rightarrow> dir_object \<Rightarrow> fatfs \<Rightarrow> 'd \<Rightarrow> (fresult \<times> fatfs \<times> 'd) option" where
  "fill_entry io tm dcl dj fs d = do {
     (res, fs, d) \<leftarrow> (if fs_type fs = FS_EXFAT then do {
        b \<leftarrow> dir_block tm dcl fs;
        (res, dj, fs, d) \<leftarrow> store_xdir io dj (fs\<lparr>dirbuf := b\<rparr>) d;
        Some (res, fs, d) }
      else do {
        let p = dp_dir dj;
        fs \<leftarrow> put_win (\<lambda>w. st_dword w (p + DIR_ModTime) tm) fs;
        fs \<leftarrow> st_clust p dcl fs;
        fs \<leftarrow> put_win (\<lambda>w. wr w (p + DIR_Attr) AM_DIR) fs;
        Some (FR_OK, fs\<lparr>wflag := 1\<rparr>, d) });
     if res \<noteq> FR_OK then Some (res, fs, d) else sync_fs io fs d }"

definition chain_result :: "u32 \<Rightarrow> fresult" where
  "chain_result dcl = (if dcl = 0 then FR_DENIED else if dcl = 1 then FR_INT_ERR else if dcl = 0xFFFFFFFF then FR_DISK_ERR else FR_OK)"

definition make_dir ::
  "'d disk_io \<Rightarrow> dir_object \<Rightarrow> nat \<Rightarrow> dir_object \<Rightarrow> fatfs \<Rightarrow> 'd \<Rightarrow> (fresult \<times> fatfs \<times> 'd) option" where
  "make_dir io stk fsp dj fs d = do {
     (dcl, sobj, fs, d) \<leftarrow> create_chain io ((dp_obj stk)\<lparr>obj_fs := fsp\<rparr>) 0 fs d;
     let res = chain_result dcl;
     let tm = fattime io d;
     (res, dj, fs, d) \<leftarrow> (if res \<noteq> FR_OK then Some (res, dj, fs, d) else do {
        (res, fs, d) \<leftarrow> dir_clear io dcl fs d;
        if res \<noteq> FR_OK then Some (res, dj, fs, d) else do {
        fs \<leftarrow> (if fs_type fs \<noteq> FS_EXFAT then dot_entries tm dcl (sclust (dp_obj dj)) fs else Some fs);
        dir_register io stk dj fs d } });
     if res = FR_OK then fill_entry io tm dcl dj fs d
     else do {
       (r, sobj, fs, d) \<leftarrow> remove_chain io sobj dcl 0 fs d;
       Some (res, fs, d) } }"

definition f_mkdir :: "'d disk_io \<Rightarrow> dir_object \<Rightarrow> u8 list option \<Rightarrow> ff_static \<Rightarrow> 'd \<Rightarrow> (fresult \<times> ff_static \<times> 'd) option" where
  "f_mkdir io stk path st d = map_option (\<lambda>(res, _, st, d). (res, st, d))
     (with_path io path FA_WRITE () (\<lambda>_. ()) (\<lambda>fsp files path fs d. do {
        (res, dj, fs, d) \<leftarrow> follow_path io stk path (owned fsp stk) fs d;
        if res = FR_OK then Some (FR_EXIST, (), fs, d)
        else if res \<noteq> FR_NO_FILE then Some (res, (), fs, d) else do {
        ns \<leftarrow> rd (fn dj) NSFLAG;
        if ns AND NS_DOT \<noteq> 0 then Some (FR_INVALID_NAME, (), fs, d) else do {
        (res, fs, d) \<leftarrow> make_dir io stk fsp dj fs d;
        Some (res, (), fs, d) } } }) st d)"

section \<open>Renaming\<close>

text \<open>The new name is free: there is no such object, or it is the object itself.\<close>

definition name_free :: "fresult \<Rightarrow> dir_object \<Rightarrow> dir_object \<Rightarrow> fresult" where
  "name_free res djn djo =
     (if res = FR_OK then if sclust (dp_obj djn) = sclust (dp_obj djo) \<and> dptr djn = dptr djo then FR_NO_FILE else FR_EXIST else res)"

definition with_archive :: "u8 \<Rightarrow> u8" where "with_archive a = (if a AND AM_DIR = 0 then a OR AM_ARC else a)"

definition rename_block :: "u8 list \<Rightarrow> u8 list \<Rightarrow> u8 list option" where
  "rename_block buf b = do {
     nf \<leftarrow> rd b XDIR_NumSec;
     nn \<leftarrow> rd b XDIR_NumName;
     nh \<leftarrow> ld_word b XDIR_NameHash;
     b \<leftarrow> mem_cpy b 0 buf 0 64;
     b \<leftarrow> wr b XDIR_NumSec nf;
     b \<leftarrow> wr b XDIR_NumName nn;
     b \<leftarrow> st_word b XDIR_NameHash nh;
     a \<leftarrow> rd b XDIR_Attr;
     wr b XDIR_Attr (with_archive a) }"

text \<open>The entry of a directory that moves to another one names its new parent.\<close>

definition move_parent ::
  "'d disk_io \<Rightarrow> dir_object \<Rightarrow> fatfs \<Rightarrow> 'd \<Rightarrow> (fresult \<times> fatfs \<times> 'd) option" where
  "move_parent io djn fs d = do {
     cl \<leftarrow> ld_clust fs (dp_dir djn);
     let sect = clst2sect fs cl;
     if sect = 0 then Some (FR_INT_ERR, fs, d) else do {
     (res, fs, d) \<leftarrow> move_window io sect fs d;
     if res \<noteq> FR_OK then Some (res, fs, d) else do {
     c \<leftarrow> rd (win fs) 33;
     if c = 0x2E then do { fs \<leftarrow> st_clust 32 (sclust (dp_obj djn)) fs; Some (FR_OK, fs\<lparr>wflag := 1\<rparr>, d) }
     else Some (FR_OK, fs, d) } } }"

definition rename_entry ::
  "'d disk_io \<Rightarrow> u8 list \<Rightarrow> dir_object \<Rightarrow> dir_object \<Rightarrow> fatfs \<Rightarrow> 'd \<Rightarrow> (fresult \<times> fatfs \<times> 'd) option" where
  "rename_entry io buf djo djn fs d = do {
     let p = dp_dir djn;
     fs \<leftarrow> put_win (\<lambda>w. mem_cpy w (p + 13) buf 13 19) fs;
     a \<leftarrow> rd buf DIR_Attr;
     fs \<leftarrow> put_win (\<lambda>w. wr w (p + DIR_Attr) (with_archive a)) fs;
     let fs = fs\<lparr>wflag := 1\<rparr>;
     if a AND AM_DIR \<noteq> 0 \<and> sclust (dp_obj djo) \<noteq> sclust (dp_obj djn) then move_parent io djn fs d
     else Some (FR_OK, fs, d) }"

definition rename_object ::
  "'d disk_io \<Rightarrow> dir_object \<Rightarrow> u8 list \<Rightarrow> dir_object \<Rightarrow> fatfs \<Rightarrow> 'd \<Rightarrow> (fresult \<times> fatfs \<times> 'd) option" where
  "rename_object io stk path djo fs d = do {
     buf \<leftarrow> (if fs_type fs = FS_EXFAT then mem_cpy (replicate 64 0) 0 (dirbuf fs) 0 64
             else mem_cpy (replicate 64 0) 0 (win fs) (dp_dir djo) 32);
     (res, djn, fs, d) \<leftarrow> follow_path io stk path djo fs d;
     let res = name_free res djn djo;
     if res \<noteq> FR_NO_FILE then Some (res, fs, d) else do {
     (res, djn, fs, d) \<leftarrow> dir_register io stk djn fs d;
     if res \<noteq> FR_OK then Some (res, fs, d)
     else if fs_type fs = FS_EXFAT then do {
       b \<leftarrow> rename_block buf (dirbuf fs);
       (res, djn, fs, d) \<leftarrow> store_xdir io djn (fs\<lparr>dirbuf := b\<rparr>) d;
       Some (res, fs, d) }
     else rename_entry io buf djo djn fs d } }"

definition f_rename ::
  "'d disk_io \<Rightarrow> dir_object \<Rightarrow> u8 list option \<Rightarrow> u8 list option \<Rightarrow> ff_static \<Rightarrow> 'd \<Rightarrow> (fresult \<times> ff_static \<times> 'd) option" where
  "f_rename io stk path_old path_new st d = do {
     (vol, path_new) \<leftarrow> get_ldnumber (CurrVol st) path_new;
     map_option (\<lambda>(res, _, st, d). (res, st, d))
     (with_path io path_old FA_WRITE () (\<lambda>_. ()) (\<lambda>fsp files path fs d. do {
        (res, djo, fs, d) \<leftarrow> follow_path io stk path (owned fsp stk) fs d;
        res \<leftarrow> (if res \<noteq> FR_OK then Some res else do {
           ns \<leftarrow> rd (fn djo) NSFLAG;
           Some (if ns AND (NS_DOT OR NS_NONAME) \<noteq> 0 then FR_INVALID_NAME else chk_lock files djo 2) });
        if res \<noteq> FR_OK then Some (res, (), fs, d) else do {
        path_new \<leftarrow> path_new;
        (res, fs, d) \<leftarrow> rename_object io stk path_new djo fs d;
        if res \<noteq> FR_OK then Some (res, (), fs, d) else do {
        (res, djo, fs, d) \<leftarrow> dir_remove io djo fs d;
        if res \<noteq> FR_OK then Some (res, (), fs, d) else do {
        (res, fs, d) \<leftarrow> sync_fs io fs d;
        Some (res, (), fs, d) } } } }) st d) }"

end
