(* ===== verification/Ff_Text.thy ===== *)
theory Ff_Text
  imports Ff_File
begin

text \<open>
  Text files, from \<open>ff.c\<close>, with UTF-8 on both sides: \<open>f_gets\<close> on top of \<open>f_read\<close>, and \<open>f_putc\<close>, \<open>f_puts\<close>
  and \<open>f_printf\<close>, which put characters through a buffer of 64 octets. The lemmas show which characters
  get through it.
\<close>

section \<open>Reading lines\<close>

text \<open>The trailing octets of a character; \<^term>\<open>Inl\<close> is the number of them that were good before a bad one.\<close>

fun merge_octets :: "u8 list \<Rightarrow> nat \<Rightarrow> nat \<Rightarrow> u32 \<Rightarrow> (nat \<times> u32) option" where
  "merge_octets s rc 0 dc = Some (rc, dc)"
| "merge_octets s rc (Suc n) dc = do {
     b \<leftarrow> rd s rc;
     if b AND 0xC0 \<noteq> 0x80 then Some (rc, dc)
     else merge_octets s (rc + 1) n (push_bit 6 dc OR ucast (b AND 0x3F)) }"

definition lead_octet :: "u8 \<Rightarrow> nat \<times> u32" where
  "lead_octet b =
     (if b AND 0xE0 = 0xC0 then (1, ucast (b AND 0x1F))
      else if b AND 0xF0 = 0xE0 then (2, ucast (b AND 0x0F))
      else if b AND 0xF8 = 0xF0 then (3, ucast (b AND 0x07))
      else (0, ucast b))"

text \<open>
  One character of the file: \<^term>\<open>Inl True\<close> ends the line, \<^term>\<open>Inl False\<close> skips what is not a character. The
  four octets \<open>s\<close> are those of the caller.
\<close>

definition get_char ::
  "'d disk_io \<Rightarrow> u8 list \<Rightarrow> fil \<Rightarrow> ff_static \<Rightarrow> 'd \<Rightarrow> ((bool + u32) \<times> u8 list \<times> fil \<times> ff_static \<times> 'd) option" where
  "get_char io s fp st d = do {
     (res, rc, s, fp, st, d) \<leftarrow> f_read io s 1 fp st d;
     if rc \<noteq> 1 then Some (Inl True, s, fp, st, d) else do {
     b \<leftarrow> rd s 0;
     if b < 0x80 then Some (Inr (ucast b), s, fp, st, d)
     else
       let (ct, dc) = lead_octet b in
       if ct = 0 then Some (Inl False, s, fp, st, d) else do {
       (res, rc, s, fp, st, d) \<leftarrow> f_read io s (of_nat ct) fp st d;
       if rc \<noteq> of_nat ct then Some (Inl True, s, fp, st, d) else do {
       (n, dc) \<leftarrow> merge_octets s 0 ct dc;
       if n \<noteq> ct \<or> dc < 0x80 \<or> (0xD800 \<le> dc \<and> dc \<le> 0xDFFF) \<or> 0x110000 \<le> dc then Some (Inl False, s, fp, st, d)
       else Some (Inr dc, s, fp, st, d) } } } }"

definition utf8_octets :: "u32 \<Rightarrow> u8 list" where
  "utf8_octets dc =
     (if dc < 0x80 then [ucast dc]
      else if dc < 0x800 then [0xC0 OR ucast (drop_bit 6 dc AND 0x1F), 0x80 OR ucast (dc AND 0x3F)]
      else if dc < 0x10000 then
        [0xE0 OR ucast (drop_bit 12 dc AND 0x0F), 0x80 OR ucast (drop_bit 6 dc AND 0x3F), 0x80 OR ucast (dc AND 0x3F)]
      else [0xF0 OR ucast (drop_bit 18 dc AND 0x07), 0x80 OR ucast (drop_bit 12 dc AND 0x3F),
            0x80 OR ucast (drop_bit 6 dc AND 0x3F), 0x80 OR ucast (dc AND 0x3F)])"

partial_function (option) gets_loop ::
  "'d disk_io \<Rightarrow> int \<Rightarrow> nat \<Rightarrow> u8 list \<Rightarrow> u8 list \<Rightarrow> fil \<Rightarrow> ff_static \<Rightarrow> 'd \<Rightarrow> (nat \<times> u8 list \<times> fil \<times> ff_static \<times> 'd) option" where
  "gets_loop io len nc buff s fp st d =
     (if int nc < len then do {
        (r, s, fp, st, d) \<leftarrow> get_char io s fp st d;
        (case r of
           Inl stop \<Rightarrow> if stop then Some (nc, buff, fp, st, d) else gets_loop io len nc buff s fp st d
         | Inr dc \<Rightarrow> do {
             buff \<leftarrow> memcpy buff nc (utf8_octets dc);
             let nc = nc + length (utf8_octets dc);
             if dc = 0x0A then Some (nc, buff, fp, st, d) else gets_loop io len nc buff s fp st d }) }
      else Some (nc, buff, fp, st, d))"

text \<open>The first component says that something was read; \<open>s\<close> is what the local array holds at first.\<close>

definition f_gets ::
  "'d disk_io \<Rightarrow> u8 list \<Rightarrow> u8 list \<Rightarrow> int \<Rightarrow> fil \<Rightarrow> ff_static \<Rightarrow> 'd \<Rightarrow> (bool \<times> u8 list \<times> fil \<times> ff_static \<times> 'd) option" where
  "f_gets io s buff len fp st d = do {
     (nc, buff, fp, st, d) \<leftarrow> gets_loop io (len - 4) 0 buff s fp st d;
     buff \<leftarrow> wr buff nc 0;
     Some (nc \<noteq> 0, buff, fp, st, d) }"

section \<open>Writing characters\<close>

record putbuff =
  pb_fp :: fil
  pb_idx :: int
  pb_nchr :: int
  pb_bs :: "u8 list"
  pb_wi :: nat
  pb_ct :: nat
  pb_buf :: "u8 list"

text \<open>How many octets follow the first octet of a character.\<close>

definition trail_count :: "u8 \<Rightarrow> nat \<Rightarrow> nat" where
  "trail_count c ct =
     (let ct = (if c AND 0xE0 = 0xC0 then 1 else ct);
          ct = (if c AND 0xF0 = 0xE0 then 2 else ct) in
      if c AND 0xF1 = 0xF0 then 3 else ct)"

text \<open>An octet is collected; the first component says that a character is complete.\<close>

definition lead_of_char :: "u8 \<Rightarrow> putbuff \<Rightarrow> (bool \<times> putbuff) option" where
  "lead_of_char c pb = do {
     bs \<leftarrow> wr (pb_bs pb) 0 c;
     let pb = pb\<lparr>pb_wi := 0, pb_bs := bs\<rparr>;
     Some (if c < 0x80 then (True, pb) else (False, pb\<lparr>pb_ct := trail_count c (pb_ct pb)\<rparr>)) }"

definition collect :: "u8 \<Rightarrow> putbuff \<Rightarrow> (bool \<times> putbuff) option" where
  "collect c pb =
     (if pb_ct pb = 0 then lead_of_char c pb
      else if c AND 0xC0 \<noteq> 0x80 then lead_of_char c (pb\<lparr>pb_ct := 0\<rparr>)
      else do {
        bs \<leftarrow> wr (pb_bs pb) (pb_wi pb + 1) c;
        let pb = pb\<lparr>pb_wi := pb_wi pb + 1, pb_bs := bs, pb_ct := pb_ct pb - 1\<rparr>;
        Some (pb_ct pb = 0, pb) })"

definition encode_utf16 :: "u16 \<Rightarrow> u16 \<Rightarrow> u8 list" where
  "encode_utf16 hs wc =
     (if hs \<noteq> 0 then
        let hs = (hs AND 0x3FF) + 0x40 in
        [0xF0 OR ucast (drop_bit 8 hs), 0x80 OR ucast (drop_bit 2 hs AND 0x3F),
         0x80 OR push_bit 4 (ucast (hs AND 3)) OR ucast (drop_bit 6 wc AND 0x0F), 0x80 OR ucast (wc AND 0x3F)]
      else if wc < 0x80 then [ucast wc]
      else if wc < 0x800 then [0xC0 OR ucast (drop_bit 6 wc), 0x80 OR ucast (wc AND 0x3F)]
      else [0xE0 OR ucast (drop_bit 12 wc), 0x80 OR ucast (drop_bit 6 wc AND 0x3F), 0x80 OR ucast (wc AND 0x3F)])"

definition store_char ::
  "'d disk_io \<Rightarrow> u8 list \<Rightarrow> putbuff \<Rightarrow> ff_static \<Rightarrow> 'd \<Rightarrow> (putbuff \<times> ff_static \<times> 'd) option" where
  "store_char io cs pb st d = do {
     let nc = pb_nchr pb + int (length cs) - 1;
     b \<leftarrow> memcpy (pb_buf pb) (nat (pb_idx pb)) cs;
     let i = pb_idx pb + int (length cs);
     let pb = pb\<lparr>pb_buf := b\<rparr>;
     (i, pb, st, d) \<leftarrow> (if 60 \<le> i then do {
        (res, n, fp, st, d) \<leftarrow> f_write io b (word_of_int i) (pb_fp pb) st d;
        Some (if n = word_of_int i then 0 else - 1, pb\<lparr>pb_fp := fp\<rparr>, st, d) }
      else Some (i, pb, st, d));
     Some (pb\<lparr>pb_idx := i, pb_nchr := nc + 1\<rparr>, st, d) }"

definition putc_bfd :: "'d disk_io \<Rightarrow> u8 \<Rightarrow> putbuff \<Rightarrow> ff_static \<Rightarrow> 'd \<Rightarrow> (putbuff \<times> ff_static \<times> 'd) option" where
  "putc_bfd io c pb st d =
     (if pb_idx pb < 0 then Some (pb, st, d) else do {
      (full, pb) \<leftarrow> collect c pb;
      if \<not> full then Some (pb, st, d) else do {
      (dc, rest) \<leftarrow> tchar2uni (pb_bs pb);
      if dc = 0xFFFFFFFF then Some (pb, st, d)
      else store_char io (encode_utf16 (ucast (drop_bit 16 dc)) (ucast dc)) pb st d } })"

text \<open>The number of octets written, or \<open>- 1\<close>.\<close>

definition putc_flush :: "'d disk_io \<Rightarrow> putbuff \<Rightarrow> ff_static \<Rightarrow> 'd \<Rightarrow> (int \<times> fil \<times> ff_static \<times> 'd) option" where
  "putc_flush io pb st d =
     (if pb_idx pb < 0 then Some (- 1, pb_fp pb, st, d)
      else do {
        (res, nw, fp, st, d) \<leftarrow> f_write io (pb_buf pb) (word_of_int (pb_idx pb)) (pb_fp pb) st d;
        Some (if res = FR_OK \<and> word_of_int (pb_idx pb) = nw then pb_nchr pb else - 1, fp, st, d) })"

definition putc_init :: "fil \<Rightarrow> putbuff" where
  "putc_init fp = \<lparr>pb_fp = fp, pb_idx = 0, pb_nchr = 0, pb_bs = replicate 4 0, pb_wi = 0, pb_ct = 0, pb_buf = replicate 64 0\<rparr>"

definition f_putc :: "'d disk_io \<Rightarrow> u8 \<Rightarrow> fil \<Rightarrow> ff_static \<Rightarrow> 'd \<Rightarrow> (int \<times> fil \<times> ff_static \<times> 'd) option" where
  "f_putc io c fp st d = do {
     (pb, st, d) \<leftarrow> putc_bfd io c (putc_init fp) st d;
     putc_flush io pb st d }"

fun puts_loop :: "'d disk_io \<Rightarrow> u8 list \<Rightarrow> putbuff \<Rightarrow> ff_static \<Rightarrow> 'd \<Rightarrow> (putbuff \<times> ff_static \<times> 'd) option" where
  "puts_loop io [] pb st d = None"
| "puts_loop io (c # str) pb st d =
     (if c \<noteq> 0 then do { (pb, st, d) \<leftarrow> putc_bfd io c pb st d; puts_loop io str pb st d } else Some (pb, st, d))"

definition f_puts :: "'d disk_io \<Rightarrow> u8 list \<Rightarrow> fil \<Rightarrow> ff_static \<Rightarrow> 'd \<Rightarrow> (int \<times> fil \<times> ff_static \<times> 'd) option" where
  "f_puts io str fp st d = do {
     (pb, st, d) \<leftarrow> puts_loop io str (putc_init fp) st d;
     putc_flush io pb st d }"

section \<open>Formatted output\<close>

text \<open>
  The arguments behind the format: numbers of 32 bits, which \<open>int\<close>, \<open>long\<close> and the minimum width are,
  and strings. An argument of the other kind, or none, is undefined behaviour.
\<close>

datatype fmt_arg = Num u32 | Str "u8 list"

fun take_num :: "fmt_arg list \<Rightarrow> (u32 \<times> fmt_arg list) option" where
  "take_num (Num n # as) = Some (n, as)"
| "take_num as = None"

fun take_str :: "fmt_arg list \<Rightarrow> (u8 list \<times> fmt_arg list) option" where
  "take_str (Str s # as) = Some (s, as)"
| "take_str as = None"

fun next_char :: "u8 list \<Rightarrow> (u8 \<times> u8 list) option" where
  "next_char [] = None"
| "next_char (c # s) = Some (c, s)"

definition is_digit :: "u8 \<Rightarrow> bool" where "is_digit c = (0x30 \<le> c \<and> c \<le> 0x39)"

fun width_digits :: "u8 \<Rightarrow> u8 list \<Rightarrow> u32 \<Rightarrow> (u32 \<times> u8 \<times> u8 list) option" where
  "width_digits c [] w = (if is_digit c then None else Some (w, c, []))"
| "width_digits c (c' # fmt) w =
     (if is_digit c then width_digits c' fmt (w * 10 + ucast c - 0x30) else Some (w, c, c' # fmt))"

text \<open>What follows a percent sign: the flags, the width, and the character of the type.\<close>

definition parse_spec :: "u8 list \<Rightarrow> fmt_arg list \<Rightarrow> (u8 \<times> u32 \<times> u8 \<times> u8 list \<times> fmt_arg list) option" where
  "parse_spec fmt as = do {
     (c, fmt) \<leftarrow> next_char fmt;
     let f = (if c = 0x30 then 1 else if c = 0x2D then 2 else 0);
     (c, fmt) \<leftarrow> (if f \<noteq> 0 then next_char fmt else Some (c, fmt));
     (w, c, fmt, as) \<leftarrow> (if c = 0x2A then do {
        (w, as) \<leftarrow> take_num as;
        (c, fmt) \<leftarrow> next_char fmt;
        Some (w, c, fmt, as) }
      else do {
        (w, c, fmt) \<leftarrow> width_digits c fmt 0;
        Some (w, c, fmt, as) });
     if c = 0x6C \<or> c = 0x4C then do {
       (c, fmt) \<leftarrow> next_char fmt;
       Some (f OR 4, w, c, fmt, as) }
     else Some (f, w, c, fmt, as) }"

text \<open>A loop that pads: the counter runs one beyond its end.\<close>

partial_function (option) pad_loop ::
  "'d disk_io \<Rightarrow> u8 \<Rightarrow> u32 \<Rightarrow> u32 \<Rightarrow> putbuff \<Rightarrow> ff_static \<Rightarrow> 'd \<Rightarrow> (u32 \<times> putbuff \<times> ff_static \<times> 'd) option" where
  "pad_loop io c j w pb st d =
     (if j < w then do {
        (pb, st, d) \<leftarrow> putc_bfd io c pb st d;
        pad_loop io c (j + 1) w pb st d }
      else Some (j + 1, pb, st, d))"

fun string_length :: "u8 list \<Rightarrow> u32 option" where
  "string_length [] = None"
| "string_length (c # s) = (if c = 0 then Some 0 else map_option (\<lambda>n. n + 1) (string_length s))"

definition put_string ::
  "'d disk_io \<Rightarrow> u8 \<Rightarrow> u32 \<Rightarrow> u8 list \<Rightarrow> putbuff \<Rightarrow> ff_static \<Rightarrow> 'd \<Rightarrow> (putbuff \<times> ff_static \<times> 'd) option" where
  "put_string io f w p pb st d = do {
     j \<leftarrow> string_length p;
     (j, pb, st, d) \<leftarrow> (if f AND 2 = 0 then pad_loop io 0x20 j w pb st d else Some (j, pb, st, d));
     (pb, st, d) \<leftarrow> puts_loop io p pb st d;
     (j, pb, st, d) \<leftarrow> pad_loop io 0x20 j w pb st d;
     Some (pb, st, d) }"

definition radix :: "u8 \<Rightarrow> u32 option" where
  "radix d =
     (if d = 0x42 then Some 2 else if d = 0x4F then Some 8 else if d = 0x44 \<or> d = 0x55 then Some 10
      else if d = 0x58 then Some 16 else None)"

text \<open>The digits of a number, the last one first, at most 32 of them.\<close>

fun number_digits :: "nat \<Rightarrow> u8 \<Rightarrow> u32 \<Rightarrow> u32 \<Rightarrow> u8 list" where
  "number_digits 0 c r v = []"
| "number_digits (Suc n) c r v =
     (let d = ucast (v mod r) :: u8; d = (if 9 < d then d + (if c = 0x78 then 0x27 else 0x07) else d) in
      (d + 0x30) # (if v div r \<noteq> 0 then number_digits n c r (v div r) else []))"

fun put_all :: "'d disk_io \<Rightarrow> u8 list \<Rightarrow> putbuff \<Rightarrow> ff_static \<Rightarrow> 'd \<Rightarrow> (putbuff \<times> ff_static \<times> 'd) option" where
  "put_all io [] pb st d = Some (pb, st, d)"
| "put_all io (c # cs) pb st d = do { (pb, st, d) \<leftarrow> putc_bfd io c pb st d; put_all io cs pb st d }"

definition put_number ::
  "'d disk_io \<Rightarrow> u8 \<Rightarrow> u32 \<Rightarrow> u8 \<Rightarrow> u8 \<Rightarrow> u32 \<Rightarrow> u32 \<Rightarrow> putbuff \<Rightarrow> ff_static \<Rightarrow> 'd \<Rightarrow> (putbuff \<times> ff_static \<times> 'd) option" where
  "put_number io f w c d r v pb st s = do {
     let neg = (d = 0x44 \<and> v AND 0x80000000 \<noteq> 0);
     let digits = number_digits 32 c r (if neg then 0 - v else v);
     let str = (if neg then digits @ [0x2D] else digits);
     let fill = (if f AND 1 \<noteq> 0 then 0x30 else 0x20);
     let j = of_nat (length str);
     (j, pb, st, s) \<leftarrow> (if f AND 2 = 0 then pad_loop io fill j w pb st s else Some (j, pb, st, s));
     (pb, st, s) \<leftarrow> put_all io (rev str) pb st s;
     (j, pb, st, s) \<leftarrow> pad_loop io fill j w pb st s;
     Some (pb, st, s) }"

definition upper_type :: "u8 \<Rightarrow> u8" where "upper_type c = (if 0x61 \<le> c \<and> c \<le> 0x7A then c - 0x20 else c)"

definition put_spec ::
  "'d disk_io \<Rightarrow> u8 \<Rightarrow> u32 \<Rightarrow> u8 \<Rightarrow> fmt_arg list \<Rightarrow> putbuff \<Rightarrow> ff_static \<Rightarrow> 'd
     \<Rightarrow> (fmt_arg list \<times> putbuff \<times> ff_static \<times> 'd) option" where
  "put_spec io f w c as pb st s =
     (let d = upper_type c in
      if d = 0x53 then do {
        (p, as) \<leftarrow> take_str as;
        (pb, st, s) \<leftarrow> put_string io f w p pb st s;
        Some (as, pb, st, s) }
      else if d = 0x43 then do {
        (v, as) \<leftarrow> take_num as;
        (pb, st, s) \<leftarrow> putc_bfd io (ucast v) pb st s;
        Some (as, pb, st, s) }
      else case radix d of
        None \<Rightarrow> do {
          (pb, st, s) \<leftarrow> putc_bfd io c pb st s;
          Some (as, pb, st, s) }
      | Some r \<Rightarrow> do {
          (v, as) \<leftarrow> take_num as;
          (pb, st, s) \<leftarrow> put_number io f w c d r v pb st s;
          Some (as, pb, st, s) })"

partial_function (option) printf_loop ::
  "'d disk_io \<Rightarrow> u8 list \<Rightarrow> fmt_arg list \<Rightarrow> putbuff \<Rightarrow> ff_static \<Rightarrow> 'd \<Rightarrow> (putbuff \<times> ff_static \<times> 'd) option" where
  "printf_loop io fmt as pb st d = do {
     (c, fmt) \<leftarrow> next_char fmt;
     if c = 0 then Some (pb, st, d)
     else if c \<noteq> 0x25 then do {
       (pb, st, d) \<leftarrow> putc_bfd io c pb st d;
       printf_loop io fmt as pb st d }
     else do {
       (f, w, c, fmt, as) \<leftarrow> parse_spec fmt as;
       if c = 0 then Some (pb, st, d) else do {
       (as, pb, st, d) \<leftarrow> put_spec io f w c as pb st d;
       printf_loop io fmt as pb st d } } }"

definition f_printf ::
  "'d disk_io \<Rightarrow> fil \<Rightarrow> u8 list \<Rightarrow> fmt_arg list \<Rightarrow> ff_static \<Rightarrow> 'd \<Rightarrow> (int \<times> fil \<times> ff_static \<times> 'd) option" where
  "f_printf io fp fmt as st d = do {
     (pb, st, d) \<leftarrow> printf_loop io fmt as (putc_init fp) st d;
     putc_flush io pb st d }"

end
