(* ===== verification/Ff_Read.thy ===== *)
theory Ff_Read
  imports Ff_File Ff_Lookup
begin

text \<open>
  What \<open>f_read\<close> does on a FAT volume. A file is the list of the octets of its sectors, with the
  buffer of the file object in place of its own; the lemmas show that a pass of the loop reads the
  next octets of that list, whether it goes through the buffer or past it.
\<close>

section \<open>The window beside a file\<close>

lemma move_window_where:
  "move_window io s fs d = Some (res, fs', d') \<Longrightarrow> winsect fs' = winsect fs \<or> winsect fs' = s \<or> winsect fs' = no_sector"
  by (auto simp: move_window_def sync_window_def Let_def split: bind_splits if_splits)

lemma move_window_moved: "move_window io s fs d = Some (res, fs', d') \<Longrightarrow> moved fs fs'"
  by (auto simp: move_window_def sync_window_def Let_def moved_def split: bind_splits if_splits)

definition table_sector :: "fatfs \<Rightarrow> u64 \<Rightarrow> bool" where
  "table_sector fs s \<longleftrightarrow> s = no_sector \<or> fat_sector fs 0 \<le> s \<and> unat s < unat (fatbase fs) + unat (fsize fs)"

text \<open>After a look into the table the window is where it was or at a sector of the table.\<close>

lemma fat_sector_table: "volume_ok fs \<Longrightarrow> unat n < unat (fsize fs) \<Longrightarrow> table_sector fs (fat_sector fs n)"
  by (auto simp: table_sector_def word_le_nat_alt unat_fat_sector)

lemma table_sector_moved: "moved fs fs' \<Longrightarrow> table_sector fs' s = table_sector fs s"
  by (simp add: table_sector_def moved_fields fat_sector_moved)

lemma get_fat12_where:
  assumes v: "volume_ok fs" and t: "fs_type fs = FS_FAT12" and c: "c < n_fatent fs"
    and get: "get_fat12 io c fs d = Some (v, fs', d')"
  shows "winsect fs' = winsect fs \<or> table_sector fs (winsect fs')"
proof -
  let ?k = "c + c div 2"
  note p = place12 [OF v t c]
  then have k: "unat ?k < 512 * unat (fsize fs)" "unat (?k + 1) < 512 * unat (fsize fs)" by simp_all
  note k = octet_place(1) [OF k(1)] octet_place(1) [OF k(2)]
  obtain r1 fs1 d1 where m1: "move_window io (fat_sector fs (?k div 512)) fs d = Some (r1, fs1, d1)"
    using get by (auto simp: get_fat12_def Let_def split: bind_splits)
  note tab = fat_sector_table [OF v k(1)] fat_sector_table [OF v k(2)]
  have none: "table_sector fs no_sector" by (simp add: table_sector_def)
  have w1: "winsect fs1 = winsect fs \<or> table_sector fs (winsect fs1)" using move_window_where [OF m1] tab none by auto
  have same: "fat_sector fs1 n = fat_sector fs n" for n by (rule fat_sector_moved [OF move_window_moved [OF m1]])
  show ?thesis
    using get m1 w1 tab none
    by (auto simp: get_fat12_def Let_def same split: bind_splits if_splits dest!: move_window_where)
qed

lemma get_fat_where:
  assumes m: "mounted io cont fs d" and c: "in_fat fs c" and get: "get_fat io obj c fs d = Some (v, fs', d')"
  shows "winsect fs' = winsect fs \<or> table_sector fs (winsect fs')"
proof -
  note ok = mountedD(3) [OF m]
  have c': "\<not> c < 2" "c < n_fatent fs" "\<not> n_fatent fs \<le> c" using c by (auto simp: in_fat_def)
  have none: "table_sector fs no_sector" by (simp add: table_sector_def)
  consider (12) "fs_type fs = FS_FAT12" | (16) "fs_type fs = FS_FAT16" | (32) "fs_type fs = FS_FAT32"
    using volume_okD(4) [OF ok] by blast
  then show ?thesis
  proof cases
    case 12
    have "get_fat12 io c fs d = Some (v, fs', d')" using get c' 12 by (simp add: get_fat_def)
    then show ?thesis by (rule get_fat12_where [OF ok 12 c'(2)])
  next
    case 16
    show ?thesis
      using get c' 16 fat_sector_table [OF ok place16(1) [OF ok 16 c'(2)]] none
      by (auto simp: get_fat_def get_fat16_def fs_types split: bind_splits if_splits dest!: move_window_where)
  next
    case 32
    show ?thesis
      using get c' 32 fat_sector_table [OF ok place32(1) [OF ok 32 c'(2)]] none
      by (auto simp: get_fat_def get_fat32_def fs_types split: bind_splits if_splits dest!: move_window_where)
  qed
qed

section \<open>A file as a list of octets\<close>

text \<open>
  Sector \<open>k\<close> of the file whose clusters are \<open>xs\<close>, and the octets of the file: the buffer of the
  object holds those of its sector until it is written back.
\<close>

definition file_sector :: "fatfs \<Rightarrow> u32 list \<Rightarrow> nat \<Rightarrow> u64" where
  "file_sector fs xs k = clst2sect fs (xs ! (k div unat (csize fs))) + of_nat (k mod unat (csize fs))"

definition file_sectors :: "fatfs \<Rightarrow> u32 list \<Rightarrow> nat" where
  "file_sectors fs xs = unat (csize fs) * length xs"

definition sector_data :: "('d \<Rightarrow> u64 \<Rightarrow> u8 list) \<Rightarrow> 'd \<Rightarrow> fil \<Rightarrow> u64 \<Rightarrow> u8 list" where
  "sector_data cont d fp s = (if fp_flag fp AND FA_DIRTY \<noteq> 0 \<and> s = fp_sect fp then fp_buf fp else cont d s)"

definition file_data :: "('d \<Rightarrow> u64 \<Rightarrow> u8 list) \<Rightarrow> fatfs \<Rightarrow> 'd \<Rightarrow> fil \<Rightarrow> u32 list \<Rightarrow> u8 list" where
  "file_data cont fs d fp xs = concat (map (\<lambda>k. sector_data cont d fp (file_sector fs xs k)) [0..<file_sectors fs xs])"

text \<open>
  The place of a file on its volume: its clusters are a chain, and its sectors are distinct ones that
  the window is not at, behind the table.
\<close>

definition file_place :: "('d \<Rightarrow> u64 \<Rightarrow> u8 list) \<Rightarrow> fatfs \<Rightarrow> 'd \<Rightarrow> u32 \<Rightarrow> u32 list \<Rightarrow> bool" where
  "file_place cont fs d c xs \<longleftrightarrow> (\<exists>j < 16. csize fs = 2 ^ j) \<and> file_sectors fs xs < 2 ^ 32
     \<and> (xs \<noteq> [] \<longrightarrow> chain (fat_entry cont fs d) fs c xs)
     \<and> inj_on (file_sector fs xs) {..<file_sectors fs xs}
     \<and> (\<forall>k < file_sectors fs xs. plain fs (file_sector fs xs k) \<and> file_sector fs xs k \<noteq> 0
          \<and> file_sector fs xs k \<noteq> winsect fs \<and> \<not> table_sector fs (file_sector fs xs k))"

text \<open>The buffer of the object: a clean one agrees with the disk, a dirty one is one of the sectors of the file.\<close>

definition buffer_ok :: "('d \<Rightarrow> u64 \<Rightarrow> u8 list) \<Rightarrow> fatfs \<Rightarrow> 'd \<Rightarrow> fil \<Rightarrow> u32 list \<Rightarrow> bool" where
  "buffer_ok cont fs d fp xs \<longleftrightarrow> length (fp_buf fp) = 512
     \<and> (if fp_flag fp AND FA_DIRTY \<noteq> 0 then fp_sect fp \<in> file_sector fs xs ` {..<file_sectors fs xs}
        else fp_sect fp \<in> file_sector fs xs ` {..<file_sectors fs xs} \<longrightarrow> fp_buf fp = cont d (fp_sect fp))"

text \<open>The file pointer, with the cluster behind it and, inside of a sector, that sector in the buffer.\<close>

definition pointer_ok :: "fatfs \<Rightarrow> fil \<Rightarrow> u32 list \<Rightarrow> bool" where
  "pointer_ok fs fp xs \<longleftrightarrow> unat (fptr fp) \<le> 512 * file_sectors fs xs
     \<and> (fptr fp \<noteq> 0 \<longrightarrow> fp_clust fp = xs ! ((unat (fptr fp) - 1) div (512 * unat (csize fs))))
     \<and> (unat (fptr fp) mod 512 \<noteq> 0 \<longrightarrow> fp_sect fp = file_sector fs xs (unat (fptr fp) div 512))"

definition file_ok :: "'d disk_io \<Rightarrow> ('d \<Rightarrow> u64 \<Rightarrow> u8 list) \<Rightarrow> fatfs \<Rightarrow> 'd \<Rightarrow> fil \<Rightarrow> u32 list \<Rightarrow> bool" where
  "file_ok io cont fs d fp xs \<longleftrightarrow> mounted io cont fs d \<and> cltbl fp = None
     \<and> file_place cont fs d (sclust (fp_obj fp)) xs \<and> buffer_ok cont fs d fp xs
     \<and> unat (objsize (fp_obj fp)) \<le> 512 * file_sectors fs xs"

text \<open>What every step of reading keeps: the file and its octets.\<close>

definition same_file ::
  "'d disk_io \<Rightarrow> ('d \<Rightarrow> u64 \<Rightarrow> u8 list) \<Rightarrow> u32 list \<Rightarrow> fil \<Rightarrow> fatfs \<Rightarrow> 'd \<Rightarrow> fil \<Rightarrow> fatfs \<Rightarrow> 'd \<Rightarrow> bool" where
  "same_file io cont xs fp fs d fp' fs' d' \<longleftrightarrow> moved fs fs' \<and> file_ok io cont fs' d' fp' xs
     \<and> file_data cont fs' d' fp' xs = file_data cont fs d fp xs
     \<and> fp_obj fp' = fp_obj fp \<and> fptr fp' = fptr fp \<and> fp_err fp' = fp_err fp"

text \<open>Calls for several sectors, and the status of the disk.\<close>

definition reads_many :: "'d disk_io \<Rightarrow> u8 \<Rightarrow> ('d \<Rightarrow> u64 \<Rightarrow> u8 list) \<Rightarrow> bool" where
  "reads_many io p cont \<longleftrightarrow> (\<forall>s n d. \<exists>r data d'. dread io p s n d = Some ((r, data), d')
     \<and> cont d' = cont d \<and> length data \<le> 512 * unat n
     \<and> (r = RES_OK \<longrightarrow> data = concat (map (\<lambda>i. cont d (s + of_nat i)) [0..<unat n])))"

definition status_kept :: "'d disk_io \<Rightarrow> u8 \<Rightarrow> ('d \<Rightarrow> u64 \<Rightarrow> u8 list) \<Rightarrow> bool" where
  "status_kept io p cont \<longleftrightarrow> (\<forall>d. \<exists>s d'. dstatus io p d = Some (s, d') \<and> cont d' = cont d)"

section \<open>The invariant under the steps\<close>

lemma length_concat_sectors:
  "(\<And>k. k \<in> set ks \<Longrightarrow> length (f k) = 512) \<Longrightarrow> length (concat (map f ks)) = 512 * length ks"
  by (induction ks) auto

lemma take_drop_sectors:
  assumes "\<And>k. k < n \<Longrightarrow> length (f k) = 512" and "k < n" and "m < 512" and "m + l \<le> 512"
  shows "take l (drop (512 * k + m) (concat (map f [0..<n]))) = take l (drop m (f k))"
proof -
  have s: "[0..<n] = [0..<k] @ k # [Suc k..<n]"
    using assms(2) upt_add_eq_append [of 0 k "n - k"] upt_conv_Cons [of k n] by simp
  have l: "length (concat (map f [0..<k])) = 512 * k"
    using length_concat_sectors [of "[0..<k]" f] assms(1,2) by simp
  show ?thesis unfolding s using l assms by simp
qed

lemma take_drop_range:
  assumes "\<And>k. k < n \<Longrightarrow> length (f k) = 512" and "k + l \<le> n"
  shows "take (512 * l) (drop (512 * k) (concat (map f [0..<n]))) = concat (map (\<lambda>i. f (k + i)) [0..<l])"
proof -
  have s: "[0..<n] = [0..<k] @ map (\<lambda>i. k + i) [0..<l] @ [k + l..<n]"
    using assms(2) upt_add_eq_append [of 0 k "n - k"] upt_add_eq_append [of k "k + l" "n - k - l"] map_add_upt [of k l]
    by (simp add: add.commute)
  have "length (concat (map f [0..<k])) = 512 * k" using length_concat_sectors [of "[0..<k]" f] assms by simp
  moreover have "length (concat (map (\<lambda>i. f (k + i)) [0..<l])) = 512 * l"
    using length_concat_sectors [of "[0..<l]" "\<lambda>i. f (k + i)"] assms by simp
  ultimately show ?thesis unfolding s by (simp add: comp_def)
qed


lemma file_sector_moved:
  assumes "moved fs fs'"
  shows "file_sector fs' xs k = file_sector fs xs k" "file_sectors fs' xs = file_sectors fs xs"
  by (simp_all add: file_sector_def file_sectors_def clst2sect_moved [OF assms] moved_fields [OF assms])

lemma fat_entry_cong:
  assumes m: "moved fs fs'" and v: "volume_ok fs" and c: "c < n_fatent fs"
    and eq: "\<And>n. unat n < unat (fsize fs) \<Longrightarrow> shown cont fs' d' (fat_sector fs n) = shown cont fs d (fat_sector fs n)"
  shows "fat_entry cont fs' d' c = fat_entry cont fs d c"
proof -
  have octet: "fat_octet cont fs' d' k = fat_octet cont fs d k" if "unat k < 512 * unat (fsize fs)" for k
    using eq [OF octet_place(1) [OF that]] by (simp add: fat_octet_def fat_sector_moved [OF m])
  consider "fs_type fs = FS_FAT12" | "fs_type fs = FS_FAT16" | "fs_type fs = FS_FAT32"
    using volume_okD(4) [OF v] by blast
  then show ?thesis
  proof cases
    case 1
    note p = place12 [OF v 1 c]
    then show ?thesis using 1 octet [of "c + c div 2"] octet [of "c + c div 2 + 1"] by (simp add: fat_entry_def moved_fields [OF m])
  next
    case 2
    then show ?thesis using eq [OF place16(1) [OF v 2 c]] by (simp add: fat_entry_def moved_fields [OF m] fat_sector_moved [OF m] fs_types)
  next
    case 3
    then show ?thesis using eq [OF place32(1) [OF v 3 c]] by (simp add: fat_entry_def moved_fields [OF m] fat_sector_moved [OF m] fs_types)
  qed
qed

lemma file_placeD:
  assumes "file_place cont fs d c xs"
  shows "xs \<noteq> [] \<Longrightarrow> chain (fat_entry cont fs d) fs c xs" "file_sectors fs xs < 2 ^ 32" "\<exists>j < 16. csize fs = 2 ^ j"
    "inj_on (file_sector fs xs) {..<file_sectors fs xs}"
    and "k < file_sectors fs xs \<Longrightarrow> plain fs (file_sector fs xs k) \<and> file_sector fs xs k \<noteq> 0
      \<and> file_sector fs xs k \<noteq> winsect fs \<and> \<not> table_sector fs (file_sector fs xs k)"
  using assms by (auto simp: file_place_def)

text \<open>The place stays what it is when the table keeps its entries and the window keeps off the file.\<close>

lemma file_place_kept:
  assumes p: "file_place cont fs d c xs" and m: "moved fs fs'" and v: "volume_ok fs"
    and eq: "\<And>n. unat n < unat (fsize fs) \<Longrightarrow> shown cont fs' d' (fat_sector fs n) = shown cont fs d (fat_sector fs n)"
    and w: "winsect fs' = winsect fs \<or> table_sector fs (winsect fs')"
  shows "file_place cont fs' d' c xs"
proof -
  have "chain (fat_entry cont fs' d') fs' c xs" if "chain (fat_entry cont fs d) fs c xs"
  proof (rule chain_cong [OF that same_fat_moved [OF m]])
    fix y assume "y \<in> set xs"
    then have "y < n_fatent fs" using chain_in_fat [OF that] by (simp add: in_fat_def)
    then show "fat_entry cont fs' d' y = fat_entry cont fs d y" by (rule fat_entry_cong [OF m v _ eq])
  qed
  then show ?thesis
    using p w unfolding file_place_def file_sector_moved [OF m] plain_moved [OF m] table_sector_moved [OF m] moved_fields(10) [OF m] by metis
qed

text \<open>A look into the table.\<close>

lemma table_look_keeps:
  assumes ok: "file_ok io cont fs d fp xs" and s: "same_table io cont fs d fs' d'"
    and w: "winsect fs' = winsect fs \<or> table_sector fs (winsect fs')"
  shows "same_file io cont xs fp fs d fp fs' d'"
proof -
  note m = same_table_moved [OF s]
  have v: "volume_ok fs" using ok by (simp add: file_ok_def mounted_def)
  have p: "file_place cont fs d (sclust (fp_obj fp)) xs" using ok by (simp add: file_ok_def)
  have p': "file_place cont fs' d' (sclust (fp_obj fp)) xs"
    by (rule file_place_kept [OF p m v same_table_sector [OF s] w])
  have cont: "cont d' (file_sector fs xs k) = cont d (file_sector fs xs k)" if "k < file_sectors fs xs" for k
  proof -
    have "shown cont fs' d' (file_sector fs xs k) = shown cont fs d (file_sector fs xs k)"
      using s file_placeD(5) [OF p that] by (simp add: same_table_def)
    then show ?thesis
      using file_placeD(5) [OF p that] file_placeD(5) [OF p', of k] that by (simp add: shown_def file_sector_moved [OF m])
  qed
  then have "buffer_ok cont fs' d' fp xs" using ok by (auto simp: file_ok_def buffer_ok_def file_sector_moved [OF m])
  moreover have "file_data cont fs' d' fp xs = file_data cont fs d fp xs"
    unfolding file_data_def file_sector_moved [OF m]
    by (intro arg_cong [where f = concat] map_cong refl) (simp add: sector_data_def cont)
  ultimately show ?thesis
    using ok m p' same_table_mounted [OF s] by (simp add: same_file_def file_ok_def file_sector_moved [OF m])
qed

text \<open>Writing the buffer back.\<close>

lemma write_own_sectors:
  assumes ok: "file_ok io cont fs d fp xs"
    and c: "\<And>t. t \<notin> file_sector fs xs ` {..<file_sectors fs xs} \<Longrightarrow> cont d' t = cont d t"
  shows "mounted io cont fs d'" and "file_place cont fs d' (sclust (fp_obj fp)) xs"
proof -
  have p: "file_place cont fs d (sclust (fp_obj fp)) xs" and m: "mounted io cont fs d" using ok by (simp_all add: file_ok_def)
  have w: "cont d' (winsect fs) = cont d (winsect fs)" by (rule c) (use file_placeD(5) [OF p] in force)
  then show "mounted io cont fs d'" using m by (simp add: mounted_def window_ok_def)
  have "shown cont fs d' (fat_sector fs n) = shown cont fs d (fat_sector fs n)" if "unat n < unat (fsize fs)" for n
  proof -
    have "cont d' (fat_sector fs n) = cont d (fat_sector fs n)"
      by (rule c) (use file_placeD(5) [OF p] fat_sector_table [OF mountedD(3) [OF m] that] in force)
    then show ?thesis by (simp add: shown_def)
  qed
  then show "file_place cont fs d' (sclust (fp_obj fp)) xs"
    by (rule file_place_kept [OF p moved_refl(1) mountedD(3) [OF m]]) simp_all
qed

lemma flush_keeps:
  assumes ok: "file_ok io cont fs d fp xs" and r: "disk_returns io (pdrv fs)"
  shows "\<exists>res fp' d'. flush_buf io fp fs d = Some (res, fp', d') \<and> (res = FR_DISK_ERR \<or>
     res = FR_OK \<and> same_file io cont xs fp fs d fp' fs d' \<and> fp_flag fp' AND FA_DIRTY = 0
       \<and> fp_clust fp' = fp_clust fp \<and> fp_sect fp' = fp_sect fp \<and> fp_buf fp' = fp_buf fp)"
proof (cases "fp_flag fp AND FA_DIRTY = 0")
  case True
  then show ?thesis using ok by (simp add: flush_buf_def same_file_def)
next
  case dirty: False
  have b: "buffer_ok cont fs d fp xs" and m: "mounted io cont fs d" using ok by (simp_all add: file_ok_def)
  obtain k where k: "k < file_sectors fs xs" "fp_sect fp = file_sector fs xs k" and l: "length (fp_buf fp) = 512"
    using b dirty by (auto simp: buffer_ok_def)
  obtain r d' where w: "dwrite io (pdrv fs) (fp_buf fp) (fp_sect fp) 1 d = Some (r, d')"
    using r l unfolding disk_returns_def by (metis not_Some_eq surj_pair)
  show ?thesis
  proof (cases "r = RES_OK")
    case False
    then show ?thesis using dirty w by (simp add: flush_buf_def)
  next
    case True
    let ?fp = "fp\<lparr>fp_flag := fp_flag fp AND NOT FA_DIRTY\<rparr>"
    have c: "cont d' = (cont d)(file_sector fs xs k := fp_buf fp)"
      using sector_disk_write [OF mountedD(1) [OF m] w l] True k by simp
    have "cont d' t = cont d t" if "t \<notin> file_sector fs xs ` {..<file_sectors fs xs}" for t using that k(1) by (auto simp: c)
    note own = write_own_sectors [OF ok this]
    have clean: "fp_flag fp AND NOT FA_DIRTY AND FA_DIRTY = 0" by (simp add: and.assoc)
    have "sector_data cont d' ?fp s = sector_data cont d fp s" for s
      using dirty k c by (simp add: sector_data_def clean)
    then have "file_data cont fs d' ?fp xs = file_data cont fs d fp xs" by (simp add: file_data_def)
    moreover have "buffer_ok cont fs d' ?fp xs" using l k c by (simp add: buffer_ok_def clean)
    ultimately have "same_file io cont xs fp fs d ?fp fs d'" using own ok by (simp add: same_file_def file_ok_def)
    then show ?thesis using dirty w True clean by (simp add: flush_buf_def and.assoc)
  qed
qed

lemma file_ok_cont:
  assumes "file_ok io cont fs d fp xs" and "cont d' = cont d"
  shows "file_ok io cont fs d' fp xs" and "file_data cont fs d' fp xs = file_data cont fs d fp xs"
proof -
  have "fat_entry cont fs d' = fat_entry cont fs d" by (intro ext) (simp add: fat_entry_def fat_octet_def shown_def assms(2))
  then show "file_ok io cont fs d' fp xs" using assms
    by (simp add: file_ok_def mounted_def window_ok_def file_place_def buffer_ok_def)
  show "file_data cont fs d' fp xs = file_data cont fs d fp xs"
    by (simp add: file_data_def sector_data_def assms(2) cong: map_cong if_cong)
qed

lemma load_exact:
  assumes ok: "file_ok io cont fs d fp xs" and r: "disk_returns io (pdrv fs)"
  shows "\<exists>res w d'. load_buf io s fp fs d = Some (res, fp\<lparr>fp_buf := w\<rparr>, d') \<and> cont d' = cont d \<and> length w = 512
     \<and> (res = FR_DISK_ERR \<or> res = FR_OK \<and> w = cont d s)"
proof -
  have b: "buffer_ok cont fs d fp xs" and m: "mounted io cont fs d" using ok by (simp_all add: file_ok_def)
  obtain r data d' where rd: "dread io (pdrv fs) s 1 d = Some ((r, data), d')"
    using r unfolding disk_returns_def by (metis not_Some_eq surj_pair)
  note law = sector_disk_read [OF mountedD(1) [OF m] rd]
  have l: "length (fp_buf fp) = 512" using b by (simp add: buffer_ok_def)
  then obtain w where w: "memcpy (fp_buf fp) 0 data = Some w" using law by (auto simp: memcpy_def)
  moreover have "length w = 512" using memcpy_length [OF w] l by simp
  moreover have "r = RES_OK \<Longrightarrow> w = cont d s"
    using w l law sector_disk_length [OF mountedD(1) [OF m], of d s] by (simp add: memcpy_def split: if_splits)
  ultimately show ?thesis using rd law by (auto simp: load_buf_def)
qed

lemma load_keeps:
  assumes ok: "file_ok io cont fs d fp xs" and r: "disk_returns io (pdrv fs)" and k: "k < file_sectors fs xs"
    and clean: "fp_flag fp AND FA_DIRTY = 0"
  shows "\<exists>res fp' d'. load_buf io (file_sector fs xs k) fp fs d = Some (res, fp', d') \<and> (res = FR_DISK_ERR \<or>
     res = FR_OK \<and> (let fp' = fp'\<lparr>fp_sect := file_sector fs xs k\<rparr> in same_file io cont xs fp fs d fp' fs d'
       \<and> fp_clust fp' = fp_clust fp \<and> fp_flag fp' = fp_flag fp))"
proof -
  obtain res w d' where l: "load_buf io (file_sector fs xs k) fp fs d = Some (res, fp\<lparr>fp_buf := w\<rparr>, d')" "cont d' = cont d" "length w = 512"
    "res = FR_DISK_ERR \<or> res = FR_OK \<and> w = cont d (file_sector fs xs k)"
    using load_exact [OF ok r, of "file_sector fs xs k"] by blast
  have "same_file io cont xs fp fs d (fp\<lparr>fp_buf := w, fp_sect := file_sector fs xs k\<rparr>) fs d'" if "res = FR_OK"
    using file_ok_cont(1) [OF ok l(2)] l clean that
    by (auto simp: same_file_def file_ok_def buffer_ok_def file_data_def sector_data_def cong: map_cong)
  then show ?thesis using l by auto
qed

lemma same_file_trans:
  "same_file io cont xs fp fs d fp1 fs1 d1 \<Longrightarrow> same_file io cont xs fp1 fs1 d1 fp2 fs2 d2 \<Longrightarrow> same_file io cont xs fp fs d fp2 fs2 d2"
  by (auto simp: same_file_def intro: moved_trans)

lemma same_file_refl: "file_ok io cont fs d fp xs \<Longrightarrow> same_file io cont xs fp fs d fp fs d"
  by (simp add: same_file_def)


section \<open>The steps of reading\<close>

lemma pointer_div:
  assumes "P = 512 * K" and "0 < K" and "K mod c = 0" and "0 < (c :: nat)"
  shows "(P - 1) div (512 * c) = K div c - 1" and "0 < K div c"
proof -
  obtain i where i: "K = c * i" using assms(3) by auto
  then have "0 < i" using assms(2) by simp
  then obtain m where m: "i = Suc m" by (cases i) auto
  have e: "P - 1 = (512 * c - 1) + m * (512 * c)" using assms i m by (simp add: algebra_simps)
  have "(P - 1) div (512 * c) = m" unfolding e using assms(4) by (subst div_mult_self1) simp_all
  then show "(P - 1) div (512 * c) = K div c - 1" and "0 < K div c" using i m assms(4) by simp_all
qed

text \<open>The cluster of the pointer at the start of a cluster: the first one, or the one the table names.\<close>

lemma file_chain:
  assumes ok: "file_ok io cont fs d fp xs" and K: "K < file_sectors fs xs"
  shows "0 < unat (csize fs)" and "K div unat (csize fs) < length xs" and "chain (fat_entry cont fs d) fs (sclust (fp_obj fp)) xs"
    and "sclust (fp_obj fp) = xs ! 0" and "in_fat fs (sclust (fp_obj fp))"
proof -
  have p: "file_place cont fs d (sclust (fp_obj fp)) xs" using ok by (simp add: file_ok_def)
  show cs: "0 < unat (csize fs)" using K by (cases "unat (csize fs)") (auto simp: file_sectors_def)
  show idx: "K div unat (csize fs) < length xs" using K cs by (simp add: file_sectors_def less_mult_imp_div_less mult.commute)
  then show chain: "chain (fat_entry cont fs d) fs (sclust (fp_obj fp)) xs" using file_placeD(1) [OF p] by (cases xs) auto
  then show s: "sclust (fp_obj fp) = xs ! 0" using idx by (cases xs) (auto simp: chain_Cons)
  have "in_fat fs (xs ! 0)" using chain_nth [OF chain, of 0] idx by linarith
  then show "in_fat fs (sclust (fp_obj fp))" using s by simp
qed

lemma next_of_file:
  assumes ok: "file_ok io cont fs d fp xs" and r: "disk_returns io (pdrv fs)" and ptr: "pointer_ok fs fp xs"
    and P: "unat (fptr fp) = 512 * K" and K: "K < file_sectors fs xs" and start: "K mod unat (csize fs) = 0" and nz: "K \<noteq> 0"
  shows "\<exists>v fs' d'. get_fat io (fp_obj fp) (fp_clust fp) fs d = Some (v, fs', d') \<and> same_file io cont xs fp fs d fp fs' d'
     \<and> fp_clust fp \<noteq> 0 \<and> (v = 0xFFFFFFFF \<or> v = xs ! (K div unat (csize fs)) \<and> 2 \<le> v \<and> v < n_fatent fs)"
proof -
  have m: "mounted io cont fs d" using ok by (simp add: file_ok_def)
  note fc = file_chain [OF ok K]
  have nz': "fptr fp \<noteq> 0" using P nz by auto
  define i where "i = K div unat (csize fs) - 1"
  note pd = pointer_div [OF P _ start fc(1)]
  have i: "K div unat (csize fs) = Suc i" "(unat (fptr fp) - 1) div (512 * unat (csize fs)) = i"
    using pd nz by (simp_all add: i_def)
  then have clust: "fp_clust fp = xs ! i" using ptr nz' by (simp add: pointer_ok_def)
  have "i < length xs" using fc(2) i by simp
  note c = chain_nth [OF fc(3) this]
  obtain v fs' d' where g: "get_fat io (fp_obj fp) (xs ! i) fs d = Some (v, fs', d')" "same_table io cont fs d fs' d'"
    "v = 0xFFFFFFFF \<or> fat_entry cont fs d (xs ! i) = Some v"
    using get_fat_returns [OF m r] c by metis
  have "same_file io cont xs fp fs d fp fs' d'"
    by (rule table_look_keeps [OF ok g(2)]) (use get_fat_where [OF m _ g(1)] c in simp)
  moreover have "v = 0xFFFFFFFF \<or> v = xs ! (K div unat (csize fs)) \<and> 2 \<le> v \<and> v < n_fatent fs"
    using g(3) c fc(2) i by auto
  moreover have "xs ! i \<noteq> 0" using c by (auto simp: in_fat_def)
  ultimately show ?thesis using g(1) clust by simp
qed

lemma inside_cluster:
  assumes ptr: "pointer_ok fs fp xs" and P: "unat (fptr fp) = 512 * K" and K: "K mod unat (csize fs) \<noteq> 0"
  shows "fp_clust fp = xs ! (K div unat (csize fs))"
proof -
  have "K \<noteq> 0" using K by (intro notI) simp
  then have "fptr fp \<noteq> 0" using P by auto
  then have "fp_clust fp = xs ! ((512 * K - 1) div (512 * unat (csize fs)))" using ptr P by (simp add: pointer_ok_def)
  moreover have "(512 * K - 1) div 512 = K - 1" using \<open>K \<noteq> 0\<close> by (cases K) simp_all
  then have "(512 * K - 1) div (512 * unat (csize fs)) = (K - 1) div unat (csize fs)" by (simp add: div_mult2_eq)
  moreover have "(K - 1) div unat (csize fs) = K div unat (csize fs)" using K \<open>K \<noteq> 0\<close> by (cases K) (simp_all add: div_Suc)
  ultimately show ?thesis by simp
qed

lemma read_cluster_chain:
  assumes ok: "file_ok io cont fs d fp xs" and r: "disk_returns io (pdrv fs)" and ptr: "pointer_ok fs fp xs"
    and P: "unat (fptr fp) = 512 * K" and K: "K < file_sectors fs xs" and start: "K mod unat (csize fs) = 0"
  shows "\<exists>c fs' d'. read_cluster io fp fs d = Some (c, fs', d') \<and> same_file io cont xs fp fs d fp fs' d'
     \<and> (c = 0xFFFFFFFF \<or> c = xs ! (K div unat (csize fs)) \<and> 2 \<le> c)"
proof (cases "K = 0")
  case True
  then have "fptr fp = 0" using P by (simp add: unat_eq_zero)
  then show ?thesis using True file_chain(4,5) [OF ok K] same_file_refl [OF ok] by (simp add: read_cluster_def in_fat_def)
next
  case False
  then have "fptr fp \<noteq> 0" using P by auto
  moreover have "cltbl fp = None" using ok by (simp add: file_ok_def)
  ultimately show ?thesis using next_of_file [OF ok r ptr P K start False] by (auto simp: read_cluster_def)
qed

lemma same_file_clust:
  "same_file io cont xs fp fs d fp' fs' d' \<Longrightarrow> same_file io cont xs fp fs d (fp'\<lparr>fp_clust := c\<rparr>) fs' d'"
  by (auto simp: same_file_def file_ok_def buffer_ok_def file_data_def sector_data_def cong: map_cong if_cong)

lemma sector_in_cluster:
  assumes "K < file_sectors fs xs"
  shows "clst2sect fs (xs ! (K div unat (csize fs))) + of_nat (K mod unat (csize fs)) = file_sector fs xs K"
    and "clst2sect fs (xs ! (K div unat (csize fs))) = file_sector fs xs (K - K mod unat (csize fs))"
    and "K - K mod unat (csize fs) < file_sectors fs xs"
proof -
  have "K - K mod unat (csize fs) = unat (csize fs) * (K div unat (csize fs))" by (simp add: minus_mod_eq_mult_div)
  moreover have "0 < unat (csize fs)" using assms by (cases "unat (csize fs)") (auto simp: file_sectors_def)
  ultimately show "clst2sect fs (xs ! (K div unat (csize fs))) = file_sector fs xs (K - K mod unat (csize fs))"
    by (simp add: file_sector_def)
qed (use assms in \<open>simp_all add: file_sector_def\<close>)

lemma sector_number:
  assumes "N < 2 ^ 32" and "K < N" and "n = (of_nat (K mod c) :: u32)"
  shows "n = 0 \<longleftrightarrow> K mod c = 0" and "(ucast n :: u64) = of_nat (K mod c)"
proof -
  have "K mod c \<le> K" by (rule mod_less_eq_dividend)
  also have "K < 2 ^ 32" using assms(1,2) by simp
  finally have "K mod c < 2 ^ 32" .
  then show "n = 0 \<longleftrightarrow> K mod c = 0" and "(ucast n :: u64) = of_nat (K mod c)"
    unfolding assms(3) by (simp_all add: word_zero unsigned_of_nat take_bit_nat_eq_self)
qed

lemma read_sector_place:
  assumes ok: "file_ok io cont fs d fp xs" and r: "disk_returns io (pdrv fs)" and ptr: "pointer_ok fs fp xs"
    and P: "unat (fptr fp) = 512 * K" and K: "K < file_sectors fs xs" and n: "n = of_nat (K mod unat (csize fs))"
  shows "\<exists>res s fp' fs' d'. read_sector io n fp fs d = Some (res, s, fp', fs', d') \<and> (res = FR_DISK_ERR \<or>
     res = FR_OK \<and> s = file_sector fs xs K \<and> same_file io cont xs fp fs d fp' fs' d'
     \<and> fp_clust fp' = xs ! (K div unat (csize fs)) \<and> fp_sect fp' = fp_sect fp \<and> fp_flag fp' = fp_flag fp)"
proof -
  have p: "file_place cont fs d (sclust (fp_obj fp)) xs" using ok by (simp add: file_ok_def)
  note sn = sector_number [OF file_placeD(2) [OF p] K n]
  note nz = sn(1) and un = sn(2)
  note s = sector_in_cluster [OF K]
  have base: "file_sector fs xs (K - K mod unat (csize fs)) \<noteq> 0" using file_placeD(5) [OF p s(3)] by simp
  show ?thesis
  proof (cases "K mod unat (csize fs) = 0")
    case True
    obtain c fs' d' where c: "read_cluster io fp fs d = Some (c, fs', d')" "same_file io cont xs fp fs d fp fs' d'"
      "c = 0xFFFFFFFF \<or> c = xs ! (K div unat (csize fs)) \<and> 2 \<le> c"
      using read_cluster_chain [OF ok r ptr P K True] by blast
    have "moved fs fs'" using c(2) by (simp add: same_file_def)
    then have e: "clst2sect fs' x = clst2sect fs x" for x by (rule clst2sect_moved)
    show ?thesis
    proof (cases "c = 0xFFFFFFFF")
      case True
      then show ?thesis using c nz \<open>K mod _ = 0\<close> by (simp add: read_sector_def)
    next
      case False
      then have "\<not> c < 2" "c = xs ! (K div unat (csize fs))" using c(3) by auto
      then show ?thesis
        using c(1) False nz True un base s same_file_clust [OF c(2), of c] by (simp add: read_sector_def e Let_def)
    qed
  next
    case False
    have "fp_clust fp = xs ! (K div unat (csize fs))" by (rule inside_cluster [OF ptr P False])
    then show ?thesis
      using False nz un base s same_file_refl [OF ok] by (simp add: read_sector_def Let_def)
  qed
qed


lemma read_cached_keeps:
  assumes ok: "file_ok io cont fs d fp xs" and r: "disk_returns io (pdrv fs)" and k: "k < file_sectors fs xs"
  shows "\<exists>res fp' d'. read_cached io (file_sector fs xs k) fp fs d = Some (res, fp', d') \<and> (res = FR_DISK_ERR \<or>
     res = FR_OK \<and> same_file io cont xs fp fs d fp' fs d' \<and> fp_clust fp' = fp_clust fp \<and> fp_sect fp' = file_sector fs xs k)"
proof (cases "fp_sect fp = file_sector fs xs k")
  case True
  then show ?thesis using same_file_refl [OF ok] by (simp add: read_cached_def)
next
  case False
  obtain res1 fp1 d1 where f: "flush_buf io fp fs d = Some (res1, fp1, d1)" and f1: "res1 = FR_DISK_ERR \<or>
     res1 = FR_OK \<and> same_file io cont xs fp fs d fp1 fs d1 \<and> fp_flag fp1 AND FA_DIRTY = 0 \<and> fp_clust fp1 = fp_clust fp"
    using flush_keeps [OF ok r] by blast
  show ?thesis
  proof (cases "res1 = FR_OK")
    case err: False
    then show ?thesis using f f1 False by (simp add: read_cached_def)
  next
    case True
    then have ok1: "file_ok io cont fs d1 fp1 xs" and s1: "same_file io cont xs fp fs d fp1 fs d1" using f1 by (auto simp: same_file_def)
    obtain res2 fp2 d2 where l: "load_buf io (file_sector fs xs k) fp1 fs d1 = Some (res2, fp2, d2)"
      and l2: "res2 = FR_DISK_ERR \<or> res2 = FR_OK \<and> same_file io cont xs fp1 fs d1 (fp2\<lparr>fp_sect := file_sector fs xs k\<rparr>) fs d2
         \<and> fp_clust fp2 = fp_clust fp1"
      using load_keeps [OF ok1 r k] f1 True by (auto simp: Let_def)
    then show ?thesis using f f1 True False same_file_trans [OF s1] by (auto simp: read_cached_def)
  qed
qed

lemma concat_put:
  assumes "\<And>i. i < n \<Longrightarrow> length (f i) = 512" and "j < n"
  shows "take (512 * j) (concat (map f [0..<n])) @ b @ drop (512 * j + 512) (concat (map f [0..<n]))
    = concat (map (\<lambda>i. if i = j then b else f i) [0..<n])"
proof -
  have s: "[0..<n] = [0..<j] @ j # [Suc j..<n]"
    using assms(2) upt_add_eq_append [of 0 j "n - j"] upt_conv_Cons [of j n] by simp
  have l: "length (concat (map f [0..<j])) = 512 * j" "length (f j) = 512"
    using length_concat_sectors [of "[0..<j]" f] assms by simp_all
  have "map (\<lambda>i. if i = j then b else f i) [0..<j] = map f [0..<j]"
    "map (\<lambda>i. if i = j then b else f i) [Suc j..<n] = map f [Suc j..<n]" by simp_all
  then show ?thesis unfolding s using l by (simp add: map_append del: map_eq_conv)
qed

lemma file_sector_add:
  assumes "K mod unat (csize fs) + i < unat (csize fs)"
  shows "file_sector fs xs (K + i) = file_sector fs xs K + of_nat i"
proof -
  have "0 < unat (csize fs)" using assms by (cases "unat (csize fs)") auto
  have "K + i = (K mod unat (csize fs) + i) + K div unat (csize fs) * unat (csize fs)" by simp
  then have "(K + i) div unat (csize fs) = K div unat (csize fs)" "(K + i) mod unat (csize fs) = K mod unat (csize fs) + i"
    using assms \<open>0 < unat (csize fs)\<close> by (metis div_mult_self1 div_less add_0_right add.commute less_not_refl2, metis mod_mult_self1 mod_less)
  then show ?thesis by (simp add: file_sector_def)
qed

lemma length_sector_data:
  assumes "file_ok io cont fs d fp xs"
  shows "length (sector_data cont d fp s) = 512"
  using assms sector_disk_length [OF mountedD(1)] by (auto simp: file_ok_def buffer_ok_def sector_data_def)

lemma unat_times_512: "unat (x :: u64) < 2 ^ 32 \<Longrightarrow> unat (x * 512) = 512 * unat x"
  by (simp add: unat_word_ariths)

lemma read_direct_data:
  assumes ok: "file_ok io cont fs d fp xs" and r: "reads_many io (pdrv fs) cont"
    and K: "K + unat cc \<le> file_sectors fs xs" and cc: "K mod unat (csize fs) + unat cc \<le> unat (csize fs)" and l: "p + 512 * unat cc \<le> length buff"
  shows "\<exists>res buff' d'. read_direct io cc (file_sector fs xs K) buff p fp fs d = Some (res, buff', d') \<and> (res = FR_DISK_ERR \<or>
     res = FR_OK \<and> cont d' = cont d
     \<and> buff' = take p buff @ take (512 * unat cc) (drop (512 * K) (file_data cont fs d fp xs)) @ drop (p + 512 * unat cc) buff)"
proof -
  let ?s = "file_sector fs xs K"
  have m: "mounted io cont fs d" and bl: "length (fp_buf fp) = 512" using ok by (simp_all add: file_ok_def buffer_ok_def)
  note len = sector_disk_length [OF mountedD(1) [OF m]]
  obtain r data d' where rd: "dread io (pdrv fs) ?s cc d = Some ((r, data), d')" and c: "cont d' = cont d"
    and dl: "length data \<le> 512 * unat cc" and data: "r = RES_OK \<longrightarrow> data = concat (map (\<lambda>i. cont d (?s + of_nat i)) [0..<unat cc])"
    using r unfolding reads_many_def by blast
  define whole where "whole = concat (map (\<lambda>i. cont d (?s + of_nat i)) [0..<unat cc])"
  define part where "part = take (512 * unat cc) (drop (512 * K) (file_data cont fs d fp xs))"
  have wl: "length whole = 512 * unat cc"
    using length_concat_sectors [of "[0..<unat cc]" "\<lambda>i. cont d (?s + of_nat i)"] len by (simp add: whole_def)
  have part: "part = concat (map (\<lambda>i. sector_data cont d fp (?s + of_nat i)) [0..<unat cc])"
  proof -
    have "part = concat (map (\<lambda>i. sector_data cont d fp (file_sector fs xs (K + i))) [0..<unat cc])"
      unfolding part_def file_data_def by (rule take_drop_range [OF length_sector_data [OF ok] K])
    also have "\<dots> = concat (map (\<lambda>i. sector_data cont d fp (?s + of_nat i)) [0..<unat cc])"
      using cc by (intro arg_cong [where f = concat] map_cong refl) (simp add: file_sector_add)
    finally show ?thesis .
  qed
  obtain b where b: "memcpy buff p data = Some b" using l dl by (auto simp: memcpy_def)
  show ?thesis
  proof (cases "r = RES_OK")
    case False
    then show ?thesis using rd b by (simp add: read_direct_def)
  next
    case True
    then have bw: "b = take p buff @ whole @ drop (p + 512 * unat cc) buff"
      using b data wl by (auto simp: memcpy_def whole_def split: if_splits)
    have below: "unat (fp_sect fp - ?s) = i" if "fp_sect fp = ?s + of_nat i" "i < unat cc" for i
      using that unsigned_less [of cc, where ?'a = nat] by (simp add: unat_of_nat take_bit_nat_eq_self)
    show ?thesis
    proof (cases "fp_flag fp AND FA_DIRTY \<noteq> 0 \<and> fp_sect fp - ?s < ucast cc")
      case False
      have "sector_data cont d fp (?s + of_nat i) = cont d (?s + of_nat i)" if i: "i < unat cc" for i
      proof -
        have "\<not> (fp_flag fp AND FA_DIRTY \<noteq> 0 \<and> ?s + of_nat i = fp_sect fp)"
        proof
          assume a: "fp_flag fp AND FA_DIRTY \<noteq> 0 \<and> ?s + of_nat i = fp_sect fp"
          then have "unat (fp_sect fp - ?s) = i" using below [OF _ i] by (metis (no_types))
          then show False using False a i by (simp add: word_less_nat_alt unat_ucast_64)
        qed
        then show ?thesis by (auto simp: sector_data_def)
      qed
      then have "part = whole" unfolding part whole_def by (intro arg_cong [where f = concat] map_cong refl) simp
      then have "b = take p buff @ part @ drop (p + 512 * unat cc) buff" using bw by simp
      then show ?thesis using rd b True False c unfolding part_def by (auto simp: read_direct_def)
    next
      case inside: True
      define j where "j = unat (fp_sect fp - ?s)"
      have j: "j < unat cc" using inside by (simp add: j_def word_less_nat_alt unat_ucast_64)
      have js: "fp_sect fp = ?s + of_nat j" by (simp add: j_def)
      have off: "unat ((fp_sect fp - ?s) * 512) = 512 * j"
        unfolding j_def by (rule unat_times_512) (use j unsigned_less [of cc, where ?'a = nat] in \<open>simp add: j_def\<close>)
      have "sector_data cont d fp (?s + of_nat i) = (if i = j then fp_buf fp else cont d (?s + of_nat i))" if "i < unat cc" for i
      proof -
        have "?s + of_nat i = fp_sect fp \<longleftrightarrow> i = j"
          using below [OF sym that] below [OF js j] js by metis
        then show ?thesis using inside by (simp add: sector_data_def)
      qed
      then have "part = concat (map (\<lambda>i. if i = j then fp_buf fp else cont d (?s + of_nat i)) [0..<unat cc])"
        unfolding part by (intro arg_cong [where f = concat] map_cong refl) simp
      then have pw: "part = take (512 * j) whole @ fp_buf fp @ drop (512 * j + 512) whole"
        unfolding whole_def using concat_put [of "unat cc" "\<lambda>i. cont d (?s + of_nat i)" j "fp_buf fp"] len j by simp
      have "mem_cpy b (p + 512 * j) (fp_buf fp) 0 512 = Some (take p buff @ part @ drop (p + 512 * unat cc) buff)"
      proof -
        let ?a = "take p buff" and ?z = "drop (p + 512 * unat cc) buff"
        have al: "length ?a = p" and jl: "512 * j + 512 \<le> length whole" using l j wl by simp_all
        have "take (p + 512 * j) b = ?a @ take (512 * j) whole" unfolding bw using al jl by simp
        moreover have "drop (p + 512 * j + 512) b = drop (512 * j + 512) whole @ ?z" unfolding bw using al jl by simp
        moreover have "p + 512 * j + 512 \<le> length b" unfolding bw using al jl by simp
        ultimately show ?thesis unfolding mem_cpy_spec pw using bl by simp
      qed
      then show ?thesis using rd b True inside off c unfolding part_def by (auto simp: read_direct_def)
    qed
  qed
qed


section \<open>Reading\<close>

definition read_inv :: "'d disk_io \<Rightarrow> ('d \<Rightarrow> u64 \<Rightarrow> u8 list) \<Rightarrow> fatfs \<Rightarrow> 'd \<Rightarrow> fil \<Rightarrow> u32 list \<Rightarrow> bool" where
  "read_inv io cont fs d fp xs \<longleftrightarrow> file_ok io cont fs d fp xs \<and> pointer_ok fs fp xs"

lemma unat_div_512: "unat (x div 512 :: u64) = unat x div 512"
  by (simp add: unat_div)

lemma csect_word:
  fixes P :: u64
  assumes "csize fs = 2 ^ j" and "j < 16" and "unat P < 2 ^ 41"
  shows "(ucast (P div 512 AND (ucast (csize fs) - 1)) :: u32) = of_nat (unat P div 512 mod unat (csize fs))"
proof -
  have "(ucast (csize fs) :: u64) = of_nat (unat (csize fs))" by (simp add: of_nat_unat)
  then have "(ucast (csize fs) :: u64) - 1 = mask j" unfolding unat_csize [OF assms(1,2)] by (simp add: mask_eq_exp_minus_1)
  then have "P div 512 AND (ucast (csize fs) - 1) = take_bit j (P div 512)" by (simp add: take_bit_eq_mask)
  then have "unat (P div 512 AND (ucast (csize fs) - 1)) = unat P div 512 mod unat (csize fs)"
    unfolding unat_csize [OF assms(1,2)] unat_div_512 [symmetric] take_bit_eq_mod [symmetric] by (simp only: unsigned_take_bit_eq)
  then have "of_nat (unat (P div 512 AND (ucast (csize fs) - 1))) = (of_nat (unat P div 512 mod unat (csize fs)) :: u32)" by simp
  then show ?thesis by (simp only: of_nat_unat)
qed

lemma csect_word32:
  fixes P :: u64
  assumes "csize fs = 2 ^ j" and "j < 16" and "unat P < 2 ^ 41" and "K = unat P div 512"
  shows "(ucast (P div 512) :: u32) AND (ucast (csize fs) - 1) = of_nat (K mod unat (csize fs))"
proof -
  have "unat P div 512 < 2 ^ 32" using assms(3) by simp
  moreover have "(ucast (P div 512) :: u32) = of_nat (unat (P div 512))" by simp
  ultimately show ?thesis unfolding assms(4) unat_div_512 using cluster_part [OF assms(1,2)] by simp
qed

lemma same_file_advance:
  assumes "same_file io cont xs fp fs d fp' fs' d'"
  shows "file_ok io cont fs' d' (fp'\<lparr>fptr := p\<rparr>) xs" "file_data cont fs' d' (fp'\<lparr>fptr := p\<rparr>) xs = file_data cont fs d fp xs"
  using assms by (auto simp: same_file_def file_ok_def buffer_ok_def file_data_def sector_data_def cong: map_cong if_cong)


lemma unat_rest_in_sector: "unat (rest_in_sector fp n) = min (unat n) (512 - unat (fptr fp) mod 512)"
proof -
  have "unat (ucast (fptr fp) mod 512 :: u32) = unat (fptr fp) mod 512"
    by (simp add: unat_mod unsigned_ucast_eq take_bit_eq_mod mod_mod_cancel)
  moreover from this have "ucast (fptr fp) mod 512 \<le> (512 :: u32)" by (simp add: word_le_nat_alt)
  ultimately have "unat (512 - ucast (fptr fp) mod 512 :: u32) = 512 - unat (fptr fp) mod 512" by (simp add: unat_sub)
  then show ?thesis by (simp add: rest_in_sector_def Let_def word_less_nat_alt min_def)
qed

lemma pointer_bound:
  assumes "file_ok io cont fs d fp xs" and "unat P \<le> 512 * file_sectors fs xs" and "unat P + unat (n :: u32) \<le> 512 * file_sectors fs xs"
  shows "unat (P + ucast n) = unat P + unat n" and "unat (P :: u64) < 2 ^ 41"
proof -
  have s: "file_sectors fs xs < 2 ^ 32" using assms(1) by (simp add: file_ok_def file_place_def)
  then show "unat P < 2 ^ 41" using assms(2) by simp
  show "unat (P + ucast n) = unat P + unat n" using s assms(3) by (simp add: unat_word_ariths unat_ucast_64)
qed

text \<open>The octets of one sector, from its buffer.\<close>

lemma copy_from_buffer:
  assumes ok: "file_ok io cont fs d fp xs" and s: "fp_sect fp = file_sector fs xs (unat (fptr fp) div 512)"
    and K: "unat (fptr fp) div 512 < file_sectors fs xs"
    and n: "n = rest_in_sector fp btr" and l: "unat br + unat btr \<le> length buff"
  shows "mem_cpy buff (unat br) (fp_buf fp) (unat (fptr fp mod 512)) n
     = Some (take (unat br) buff @ take (unat n) (drop (unat (fptr fp)) (file_data cont fs d fp xs)) @ drop (unat br + unat n) buff)"
proof -
  let ?K = "unat (fptr fp) div 512" and ?m = "unat (fptr fp) mod 512"
  have b: "length (fp_buf fp) = 512" "sector_data cont d fp (file_sector fs xs ?K) = fp_buf fp"
    using ok K s by (auto simp: file_ok_def buffer_ok_def sector_data_def)
  have nl: "unat n \<le> unat btr" "?m + unat n \<le> 512" using unat_rest_in_sector [of fp btr] n mod_less_divisor [of 512 "unat (fptr fp)"] by auto
  have "take (unat n) (drop (512 * ?K + ?m) (file_data cont fs d fp xs)) = take (unat n) (drop ?m (fp_buf fp))"
    unfolding file_data_def using take_drop_sectors [OF _ K, of "\<lambda>k. sector_data cont d fp (file_sector fs xs k)" ?m "unat n"]
      length_sector_data [OF ok] nl b by simp
  then have e: "take (unat n) (drop (unat (fptr fp)) (file_data cont fs d fp xs)) = take (unat n) (drop ?m (fp_buf fp))" by simp
  have "unat (fptr fp mod 512) = ?m" by (simp add: unat_mod)
  then show ?thesis unfolding mem_cpy_spec e using nl b l by simp
qed

lemma pointer_after:
  assumes ok: "file_ok io cont fs d fp xs" and K: "unat (fptr fp) div 512 < file_sectors fs xs"
    and c: "fp_clust fp = xs ! (unat (fptr fp) div 512 div unat (csize fs))"
    and P: "unat P = unat (fptr fp) + n" and n: "0 < n"
    and within: "unat (fptr fp) mod 512 + n \<le> 512 \<and> fp_sect fp = file_sector fs xs (unat (fptr fp) div 512)
      \<or> n = 512 * k \<and> unat (fptr fp) mod 512 = 0 \<and> unat (fptr fp) div 512 mod unat (csize fs) + k \<le> unat (csize fs)"
    and le: "unat P \<le> 512 * file_sectors fs xs"
  shows "pointer_ok fs (fp\<lparr>fptr := P\<rparr>) xs"
proof -
  let ?p = "unat (fptr fp)" and ?cs = "unat (csize fs)"
  have split: "?p = 512 * (?p div 512) + ?p mod 512" by simp
  have "(?p + n - 1) div (512 * ?cs) = ?p div 512 div ?cs \<and> ((?p + n) mod 512 \<noteq> 0 \<longrightarrow> fp_sect fp = file_sector fs xs ((?p + n) div 512))"
    using within
  proof
    assume w: "?p mod 512 + n \<le> 512 \<and> fp_sect fp = file_sector fs xs (?p div 512)"
    have "?p + n - 1 = (?p mod 512 + n - 1) + (?p div 512) * 512" using n by simp
    moreover have "(?p mod 512 + n - 1) div 512 = 0" using w n by (intro div_less) linarith
    ultimately have a: "(?p + n - 1) div 512 = ?p div 512" by (simp only: div_mult_self1)
    have b: "(?p + n) div 512 = ?p div 512" if "(?p + n) mod 512 \<noteq> 0"
    proof -
      have e: "?p + n = (?p mod 512 + n) + (?p div 512) * 512" by simp
      have "?p mod 512 + n \<noteq> 512" using that unfolding e mod_mult_self1 by auto
      then have "?p mod 512 + n < 512" using w by simp
      then have "(?p mod 512 + n) div 512 = 0" by (rule div_less)
      moreover have "(?p mod 512 + n + ?p div 512 * 512) div 512 = ?p div 512 + (?p mod 512 + n) div 512" by (rule div_mult_self1) simp
      ultimately show ?thesis by (simp only: e [symmetric] add_0_right)
    qed
    then show ?thesis using a w by (simp add: div_mult2_eq)
  next
    assume w: "n = 512 * k \<and> ?p mod 512 = 0 \<and> ?p div 512 mod ?cs + k \<le> ?cs"
    then have k: "0 < k" "0 < ?cs" using n by auto
    have "?p + n - 1 = 512 * (?p div 512 + k - 1) + 511" using w k split by (cases k) simp_all
    then have "(?p + n - 1) div 512 = ?p div 512 + k - 1" by simp
    moreover have "?p div 512 + k - 1 = (?p div 512 mod ?cs + k - 1) + ?p div 512 div ?cs * ?cs" using k by (cases k) simp_all
    moreover have "(?p div 512 mod ?cs + k - 1) div ?cs = 0" using w k by (intro div_less) linarith
    moreover have "((?p div 512 mod ?cs + k - 1) + ?p div 512 div ?cs * ?cs) div ?cs = ?p div 512 div ?cs + (?p div 512 mod ?cs + k - 1) div ?cs"
      by (rule div_mult_self1) (use k in simp)
    ultimately have "(?p + n - 1) div 512 div ?cs = ?p div 512 div ?cs" by simp
    then show ?thesis using w by (simp add: div_mult2_eq)
  qed
  then show ?thesis using c P n le by (auto simp: pointer_ok_def unat_eq_zero)
qed


text \<open>What a pass has to give: the next octets of the file, and the invariant at the pointer behind them.\<close>

definition step_reads ::
  "'d disk_io \<Rightarrow> ('d \<Rightarrow> u64 \<Rightarrow> u8 list) \<Rightarrow> u32 list \<Rightarrow> u32 \<Rightarrow> u8 list \<Rightarrow> u32 \<Rightarrow> fil \<Rightarrow> fatfs \<Rightarrow> 'd
     \<Rightarrow> u32 \<Rightarrow> u8 list \<Rightarrow> fil \<Rightarrow> fatfs \<Rightarrow> 'd \<Rightarrow> bool" where
  "step_reads io cont xs btr buff br fp fs d n buff' fp' fs' d' \<longleftrightarrow> 0 < n \<and> n \<le> btr
     \<and> buff' = take (unat br) buff @ take (unat n) (drop (unat (fptr fp)) (file_data cont fs d fp xs)) @ drop (unat br + unat n) buff
     \<and> same_file io cont xs fp fs d fp' fs' d' \<and> pointer_ok fs' (fp'\<lparr>fptr := fptr fp + ucast n\<rparr>) xs"

lemma step_from_buffer:
  assumes s: "same_file io cont xs fp fs d fp' fs' d'" and here: "fp_sect fp' = file_sector fs xs (unat (fptr fp) div 512)"
    and K: "unat (fptr fp) div 512 < file_sectors fs xs" and c: "fp_clust fp' = xs ! (unat (fptr fp) div 512 div unat (csize fs))"
    and btr: "0 < btr" and l: "unat br + unat btr \<le> length buff" and le: "unat (fptr fp) + unat btr \<le> 512 * file_sectors fs xs"
  shows "\<exists>buff'. mem_cpy buff (unat br) (fp_buf fp') (unat (fptr fp' mod 512)) (rest_in_sector fp' btr) = Some buff'
     \<and> step_reads io cont xs btr buff br fp fs d (rest_in_sector fp' btr) buff' fp' fs' d'"
proof -
  define n where "n = rest_in_sector fp' btr"
  have m: "moved fs fs'" and ok: "file_ok io cont fs' d' fp' xs" and f: "fptr fp' = fptr fp" "file_data cont fs' d' fp' xs = file_data cont fs d fp xs"
    using s by (simp_all add: same_file_def)
  note mv = file_sector_moved [OF m] moved_fields(10) [OF m]
  have un: "unat n = min (unat btr) (512 - unat (fptr fp) mod 512)" unfolding n_def f(1) [symmetric] by (rule unat_rest_in_sector)
  have "unat (fptr fp) mod 512 < 512" by simp
  then have n: "0 < unat n" "unat n \<le> unat btr" "unat (fptr fp) mod 512 + unat n \<le> 512"
    using un btr by (auto simp: word_less_nat_alt)
  have here': "fp_sect fp' = file_sector fs' xs (unat (fptr fp') div 512)" and K': "unat (fptr fp') div 512 < file_sectors fs' xs"
    using here K f mv by simp_all
  note copy = copy_from_buffer [OF ok here' K' n_def l]
  have "unat (fptr fp') + unat n \<le> 512 * file_sectors fs' xs" using le n mv f by simp
  then have P: "unat (fptr fp + ucast n) = unat (fptr fp') + unat n"
    using pointer_bound(1) [OF ok, of "fptr fp" n] f by simp
  have "pointer_ok fs' (fp'\<lparr>fptr := fptr fp + ucast n\<rparr>) xs"
    using n le here' c f mv P by (intro pointer_after [OF ok K' _ P]) auto
  then show ?thesis using copy s n f unfolding n_def [symmetric] step_reads_def by (auto simp: word_less_nat_alt word_le_nat_alt)
qed

lemma step_direct:
  assumes s: "same_file io cont xs fp fs d fp' fs' d'" and r: "reads_many io (pdrv fs) cont"
    and P: "unat (fptr fp) = 512 * K" and K: "K < file_sectors fs xs" and c: "fp_clust fp' = xs ! (K div unat (csize fs))"
    and cc: "0 < unat cc" "K mod unat (csize fs) + unat cc \<le> unat (csize fs)" "512 * unat cc \<le> unat btr"
    and l: "unat br + unat btr \<le> length buff" and le: "unat (fptr fp) + unat btr \<le> 512 * file_sectors fs xs"
  shows "\<exists>res buff' d1. read_direct io cc (file_sector fs xs K) buff (unat br) fp' fs' d' = Some (res, buff', d1)
     \<and> (res = FR_DISK_ERR \<or> res = FR_OK \<and> step_reads io cont xs btr buff br fp fs d (512 * cc) buff' fp' fs' d1)"
proof -
  have m: "moved fs fs'" and ok: "file_ok io cont fs' d' fp' xs" and f: "fptr fp' = fptr fp" "file_data cont fs' d' fp' xs = file_data cont fs d fp xs"
    using s by (simp_all add: same_file_def)
  note mv = file_sector_moved [OF m] moved_fields(1,10) [OF m]
  have n: "unat (512 * cc) = 512 * unat cc" using cc(3) unsigned_less [of btr, where ?'a = nat] by (simp add: unat_word_ariths)
  have K1: "K + unat cc \<le> file_sectors fs' xs" using P le cc mv by simp
  obtain res buff' d1 where rd: "read_direct io cc (file_sector fs' xs K) buff (unat br) fp' fs' d' = Some (res, buff', d1)"
    and res: "res = FR_DISK_ERR \<or> res = FR_OK \<and> cont d1 = cont d' \<and> buff' = take (unat br) buff
       @ take (512 * unat cc) (drop (512 * K) (file_data cont fs' d' fp' xs)) @ drop (unat br + 512 * unat cc) buff"
    using read_direct_data [OF ok _ K1, of "unat br" buff] r cc l mv by auto
  show ?thesis
  proof (cases "res = FR_OK")
    case False
    then show ?thesis using rd res mv by simp
  next
    case True
    then have cd: "cont d1 = cont d'" using res by simp
    note fc = file_ok_cont [OF ok cd]
    have s1: "same_file io cont xs fp fs d fp' fs' d1" using s fc by (simp add: same_file_def)
    have le': "unat (fptr fp') + unat (512 * cc) \<le> 512 * file_sectors fs' xs" using le cc n mv f by simp
    then have Pn: "unat (fptr fp + ucast (512 * cc)) = unat (fptr fp') + unat (512 * cc)"
      using pointer_bound(1) [OF ok, of "fptr fp" "512 * cc"] f by simp
    have "pointer_ok fs' (fp'\<lparr>fptr := fptr fp + ucast (512 * cc)\<rparr>) xs"
      by (rule pointer_after [OF ok _ _ Pn, of "unat cc"]) (use K P c cc f mv n le' Pn in auto)
    then show ?thesis using rd res True s1 cc n f P mv unfolding step_reads_def by (auto simp: word_less_nat_alt word_le_nat_alt)
  qed
qed


lemma clip_bounds:
  assumes "csize fs = 2 ^ j" and "j < 16" and "cse = of_nat (k mod unat (csize fs))" and "0 < x" and "unat x \<le> 2 ^ 31"
  shows "unat (clip_sectors cse x fs) \<le> unat x" "k mod unat (csize fs) + unat (clip_sectors cse x fs) \<le> unat (csize fs)"
    "0 < unat (clip_sectors cse x fs)"
proof -
  have cs: "0 < unat (csize fs)" "unat (csize fs) < 2 ^ 16"
    unfolding unat_csize [OF assms(1,2)] using assms(2) power_strict_increasing [of j 16 "2 :: nat"] by simp_all
  have k: "k mod unat (csize fs) < unat (csize fs)" using cs by simp
  then have e: "unat cse = k mod unat (csize fs)" unfolding assms(3) using less_trans [OF k cs(2)] by (intro word_small) simp
  have u: "unat (ucast (csize fs) :: u32) = unat (csize fs)" using cs(2) by (simp add: unsigned_ucast_eq take_bit_nat_eq_self)
  have "unat cse + unat x < 2 ^ 32" using e less_trans [OF k cs(2)] assms(5) by simp
  then have add: "unat (cse + x) = unat cse + unat x" by (simp add: unat_word_ariths)
  have sub: "unat (ucast (csize fs) - cse) = unat (csize fs) - unat cse" using e k u by (simp add: unat_sub word_le_nat_alt)
  show "unat (clip_sectors cse x fs) \<le> unat x" "k mod unat (csize fs) + unat (clip_sectors cse x fs) \<le> unat (csize fs)"
    "0 < unat (clip_sectors cse x fs)"
    using e k add sub u assms(4) unfolding clip_sectors_def word_less_nat_alt by auto
qed

lemma clip_moved: "moved fs fs' \<Longrightarrow> clip_sectors c x fs' = clip_sectors c x fs"
  by (simp add: clip_sectors_def moved_fields)

lemma clip_whole:
  assumes "csize fs = 2 ^ j" and "j < 16" and "cse = of_nat (k mod unat (csize fs))" and "btr div 512 > 0"
  shows "0 < unat (clip_sectors cse (btr div 512) fs)" "k mod unat (csize fs) + unat (clip_sectors cse (btr div 512) fs) \<le> unat (csize fs)"
    "512 * unat (clip_sectors cse (btr div 512) fs) \<le> unat btr"
proof -
  have bd: "unat (btr div 512) = unat btr div 512" by (simp add: unat_div)
  then have "unat (btr div 512) \<le> 2 ^ 31" using unsigned_less [of btr, where ?'a = nat] by simp
  then show "0 < unat (clip_sectors cse (btr div 512) fs)" "k mod unat (csize fs) + unat (clip_sectors cse (btr div 512) fs) \<le> unat (csize fs)"
    "512 * unat (clip_sectors cse (btr div 512) fs) \<le> unat btr"
    using clip_bounds [OF assms] bd by auto
qed

lemma inside_sector:
  assumes ptr: "pointer_ok fs fp xs" and m: "unat (fptr fp) mod 512 \<noteq> 0"
  shows "fp_sect fp = file_sector fs xs (unat (fptr fp) div 512)" "fp_clust fp = xs ! (unat (fptr fp) div 512 div unat (csize fs))"
proof -
  show "fp_sect fp = file_sector fs xs (unat (fptr fp) div 512)" using ptr m by (simp add: pointer_ok_def)
  have nz: "fptr fp \<noteq> 0" using m by auto
  have "unat (fptr fp) - 1 = (unat (fptr fp) mod 512 - 1) + (unat (fptr fp) div 512) * 512" using m by simp
  moreover have "(unat (fptr fp) mod 512 - 1) div 512 = 0" by simp
  ultimately have "(unat (fptr fp) - 1) div 512 = unat (fptr fp) div 512" by (simp only: div_mult_self1)
  then show "fp_clust fp = xs ! (unat (fptr fp) div 512 div unat (csize fs))" using ptr nz by (simp add: pointer_ok_def div_mult2_eq)
qed

lemma read_step_reads:
  assumes inv: "read_inv io cont fs d fp xs" and r: "disk_returns io (pdrv fs)" and rm: "reads_many io (pdrv fs) cont"
    and btr: "0 < btr" and l: "unat br + unat btr \<le> length buff" and le: "unat (fptr fp) + unat btr \<le> 512 * file_sectors fs xs"
  shows "\<exists>res n buff' fp' fs' d'. read_step io btr buff br fp fs d = Some (res, n, buff', fp', fs', d')
     \<and> (res = FR_DISK_ERR \<or> res = FR_OK \<and> step_reads io cont xs btr buff br fp fs d n buff' fp' fs' d')"
proof -
  have ok: "file_ok io cont fs d fp xs" and ptr: "pointer_ok fs fp xs" using inv by (simp_all add: read_inv_def)
  have p: "file_place cont fs d (sclust (fp_obj fp)) xs" using ok by (simp add: file_ok_def)
  define K where "K = unat (fptr fp) div 512"
  have b: "0 < unat btr" using btr by (simp add: word_less_nat_alt)
  have K: "K < file_sectors fs xs" using le b unfolding K_def by (simp add: less_mult_imp_div_less mult.commute)
  have P41: "unat (fptr fp) < 2 ^ 41" using pointer_bound(2) [OF ok] ptr le by (auto simp: pointer_ok_def)
  have zero: "fptr fp mod 512 = 0 \<longleftrightarrow> unat (fptr fp) mod 512 = 0" unfolding unat_eq_zero [symmetric] by (simp add: unat_mod)
  show ?thesis
  proof (cases "unat (fptr fp) mod 512 = 0")
    case False
    note at = inside_sector [OF ptr False]
    obtain buff' where "mem_cpy buff (unat br) (fp_buf fp) (unat (fptr fp mod 512)) (rest_in_sector fp btr) = Some buff'"
      "step_reads io cont xs btr buff br fp fs d (rest_in_sector fp btr) buff' fp fs d"
      using step_from_buffer [OF same_file_refl [OF ok] at(1) K [unfolded K_def] at(2) btr l le] by blast
    then show ?thesis using False zero by (simp add: read_step_def Let_def)
  next
    case True
    then have P: "unat (fptr fp) = 512 * K" using mult_div_mod_eq [of 512 "unat (fptr fp)"] by (simp add: K_def)
    obtain j where j: "j < 16" "csize fs = 2 ^ j" using file_placeD(3) [OF p] by blast
    define cse where "cse = (ucast (fptr fp div 512 AND (ucast (csize fs) - 1)) :: u32)"
    have cse: "cse = of_nat (K mod unat (csize fs))"
      using csect_word [OF j(2,1) P41] by (simp add: cse_def K_def)
    obtain res s fp1 fs1 d1 where rs: "read_sector io cse fp fs d = Some (res, s, fp1, fs1, d1)"
      and res: "res = FR_DISK_ERR \<or> res = FR_OK \<and> s = file_sector fs xs K \<and> same_file io cont xs fp fs d fp1 fs1 d1
         \<and> fp_clust fp1 = xs ! (K div unat (csize fs))"
      using read_sector_place [OF ok r ptr P K cse] by blast
    show ?thesis
    proof (cases "res = FR_OK")
      case False
      then show ?thesis using rs res True zero by (simp add: read_step_def Let_def cse_def)
    next
      case fine: True
      then have s: "s = file_sector fs xs K" and sf: "same_file io cont xs fp fs d fp1 fs1 d1" and c: "fp_clust fp1 = xs ! (K div unat (csize fs))"
        using res by auto
      have m: "moved fs fs1" and ok1: "file_ok io cont fs1 d1 fp1 xs" and f1: "fptr fp1 = fptr fp" using sf by (auto simp: same_file_def)
      note mv = file_sector_moved [OF m] moved_fields(1,10) [OF m]
      show ?thesis
      proof (cases "btr div 512 > 0")
        case whole: True
        define cc where "cc = clip_sectors cse (btr div 512) fs1"
        have cc: "0 < unat cc" "K mod unat (csize fs) + unat cc \<le> unat (csize fs)" "512 * unat cc \<le> unat btr"
          using clip_whole [OF j(2,1) cse whole] unfolding cc_def clip_moved [OF m] by simp_all
        obtain res2 buff' d2 where "read_direct io cc (file_sector fs xs K) buff (unat br) fp1 fs1 d1 = Some (res2, buff', d2)"
          "res2 = FR_DISK_ERR \<or> res2 = FR_OK \<and> step_reads io cont xs btr buff br fp fs d (512 * cc) buff' fp1 fs1 d2"
          using step_direct [OF sf rm P K c cc l le] by blast
        then show ?thesis using rs fine True zero s whole by (auto simp: read_step_def Let_def cse_def cc_def)
      next
        case False
        have K1: "K < file_sectors fs1 xs" using K mv by simp
        obtain res2 fp2 d2 where rc: "read_cached io (file_sector fs xs K) fp1 fs1 d1 = Some (res2, fp2, d2)" and res2: "res2 = FR_DISK_ERR \<or>
           res2 = FR_OK \<and> same_file io cont xs fp1 fs1 d1 fp2 fs1 d2 \<and> fp_clust fp2 = fp_clust fp1 \<and> fp_sect fp2 = file_sector fs xs K"
          using read_cached_keeps [OF ok1 _ K1] r mv by auto
        show ?thesis
        proof (cases "res2 = FR_OK")
          case err: False
          then show ?thesis using rs fine True zero s False rc res2 by (simp add: read_step_def Let_def cse_def)
        next
          case fine2: True
          have sf2: "same_file io cont xs fp fs d fp2 fs1 d2" using same_file_trans [OF sf] res2 fine2 by blast
          obtain buff' where "mem_cpy buff (unat br) (fp_buf fp2) (unat (fptr fp2 mod 512)) (rest_in_sector fp2 btr) = Some buff'"
            "step_reads io cont xs btr buff br fp fs d (rest_in_sector fp2 btr) buff' fp2 fs1 d2"
            using step_from_buffer [OF sf2 _ _ _ btr l le] res2 fine2 K c K_def by auto
          then show ?thesis using rs fine True zero s False rc fine2 by (simp add: read_step_def Let_def cse_def)
        qed
      qed
    qed
  qed
qed


lemma take_drop_glue:
  assumes "p + n + m \<le> length buff" and "i + n + m \<le> length xs" and b: "b = take p buff @ take n (drop i xs) @ drop (p + n) buff"
  shows "take (p + n) b @ take m (drop (i + n) xs) @ drop (p + n + m) b = take p buff @ take (n + m) (drop i xs) @ drop (p + n + m) buff"
proof -
  have l: "length (take p buff) = p" "length (take n (drop i xs)) = n" using assms by simp_all
  have "take (p + n) b = take p buff @ take n (drop i xs)" unfolding b using l by simp
  moreover have "drop (p + n + m) b = drop (p + n + m) buff" unfolding b using l by (simp add: add.commute)
  moreover have "take (n + m) (drop i xs) = take n (drop i xs) @ take m (drop (i + n) xs)" by (simp only: take_add drop_drop add.commute [of n i])
  ultimately show ?thesis by simp
qed

lemma length_file_data: "file_ok io cont fs d fp xs \<Longrightarrow> length (file_data cont fs d fp xs) = 512 * file_sectors fs xs"
  unfolding file_data_def by (subst length_concat_sectors) (simp_all add: length_sector_data)

lemma ucast_split:
  fixes n m :: u32
  assumes "n \<le> m"
  shows "ucast n + ucast (m - n) = (ucast m :: u64)"
proof -
  have "unat (m - n) = unat m - unat n" "unat n \<le> unat m" using assms by (simp_all add: unat_sub word_le_nat_alt)
  then have "unat (ucast n + ucast (m - n) :: u64) = unat (ucast m :: u64)"
    using unsigned_less [of m, where ?'a = nat] by (simp add: unat_word_ariths unat_ucast_64)
  then show ?thesis by (rule unsigned_word_eqI)
qed

lemma read_loop_reads:
  assumes "read_inv io cont fs d fp xs" and "disk_returns io (pdrv fs)" and "reads_many io (pdrv fs) cont"
    and "unat br + unat btr \<le> length buff" and "unat br + unat btr < 2 ^ 32" and "unat (fptr fp) + unat btr \<le> 512 * file_sectors fs xs"
  shows "\<exists>res br' buff' fp' fs' d'. read_loop io btr buff br fp fs d = Some (res, br', buff', fp', fs', d')
     \<and> (res = FR_DISK_ERR \<or> res = FR_OK \<and> br' = br + btr
        \<and> buff' = take (unat br) buff @ take (unat btr) (drop (unat (fptr fp)) (file_data cont fs d fp xs)) @ drop (unat br + unat btr) buff
        \<and> moved fs fs' \<and> read_inv io cont fs' d' fp' xs \<and> file_data cont fs' d' fp' xs = file_data cont fs d fp xs
        \<and> fp_obj fp' = fp_obj fp \<and> fp_err fp' = fp_err fp \<and> fptr fp' = fptr fp + ucast btr)"
  using assms
proof (induction "unat btr" arbitrary: btr buff br fp fs d rule: less_induct)
  case less
  have ok: "file_ok io cont fs d fp xs" using less.prems(1) by (simp add: read_inv_def)
  show ?case
  proof (cases "btr = 0")
    case True
    then show ?thesis using less.prems(1) by (simp add: read_loop.simps)
  next
    case False
    then have pos: "0 < btr" by (simp add: word_gt_0)
    obtain res n buff1 fp1 fs1 d1 where st: "read_step io btr buff br fp fs d = Some (res, n, buff1, fp1, fs1, d1)"
      and res: "res = FR_DISK_ERR \<or> res = FR_OK \<and> step_reads io cont xs btr buff br fp fs d n buff1 fp1 fs1 d1"
      using read_step_reads [OF less.prems(1-3) pos less.prems(4,6)] by blast
    show ?thesis
    proof (cases "res = FR_OK")
      case False
      then show ?thesis using st res \<open>btr \<noteq> 0\<close> by (simp add: read_loop.simps)
    next
      case True
      then have n: "0 < n" "n \<le> btr" and same: "same_file io cont xs fp fs d fp1 fs1 d1"
        and buff1: "buff1 = take (unat br) buff @ take (unat n) (drop (unat (fptr fp)) (file_data cont fs d fp xs)) @ drop (unat br + unat n) buff"
        and ptr: "pointer_ok fs1 (fp1\<lparr>fptr := fptr fp + ucast n\<rparr>) xs" using res by (auto simp: step_reads_def)
      let ?fp = "fp1\<lparr>fptr := fptr fp + ucast n\<rparr>"
      have m: "moved fs fs1" and f1: "fp_obj fp1 = fp_obj fp" "fp_err fp1 = fp_err fp" "fptr fp1 = fptr fp" using same by (simp_all add: same_file_def)
      note mv = file_sector_moved [OF m] moved_fields(1) [OF m]
      have un: "unat (btr - n) = unat btr - unat n" "unat n \<le> unat btr" "0 < unat n"
        using n by (simp_all add: unat_sub word_le_nat_alt word_less_nat_alt)
      have ub: "unat (br + n) = unat br + unat n" using less.prems(5) un by (simp add: unat_word_ariths)
      have up: "unat (fptr fp + ucast n) = unat (fptr fp) + unat n"
        using pointer_bound(1) [OF ok, of "fptr fp" n] less.prems(6) un by simp
      have lb: "length buff1 = length buff"
        using buff1 length_file_data [OF ok] less.prems(4,6) un by simp
      have inv: "read_inv io cont fs1 d1 ?fp xs" using same_file_advance(1) [OF same] ptr by (simp add: read_inv_def)
      have lt: "unat (btr - n) < unat btr" using un by simp
      obtain res2 br2 buff2 fp2 fs2 d2 where lp: "read_loop io (btr - n) buff1 (br + n) ?fp fs1 d1 = Some (res2, br2, buff2, fp2, fs2, d2)"
        and res2: "res2 = FR_DISK_ERR \<or> res2 = FR_OK \<and> br2 = br + n + (btr - n)
          \<and> buff2 = take (unat (br + n)) buff1 @ take (unat (btr - n)) (drop (unat (fptr ?fp)) (file_data cont fs1 d1 ?fp xs)) @ drop (unat (br + n) + unat (btr - n)) buff1
          \<and> moved fs1 fs2 \<and> read_inv io cont fs2 d2 fp2 xs \<and> file_data cont fs2 d2 fp2 xs = file_data cont fs1 d1 ?fp xs
          \<and> fp_obj fp2 = fp_obj ?fp \<and> fp_err fp2 = fp_err ?fp \<and> fptr fp2 = fptr ?fp + ucast (btr - n)"
        using less.hyps [OF lt inv, of "br + n" buff1] less.prems(2-6) mv lb ub un up by auto
      have loop: "read_loop io btr buff br fp fs d = Some (res2, br2, buff2, fp2, fs2, d2)"
        using st True \<open>btr \<noteq> 0\<close> lp f1 by (simp add: read_loop.simps [of io btr])
      show ?thesis
      proof (cases "res2 = FR_OK")
        case False
        then show ?thesis using loop res2 by blast
      next
        case fine: True
        have data: "file_data cont fs1 d1 ?fp xs = file_data cont fs d fp xs" by (rule same_file_advance(2) [OF same])
        have "buff2 = take (unat br) buff @ take (unat btr) (drop (unat (fptr fp)) (file_data cont fs d fp xs)) @ drop (unat br + unat btr) buff"
        proof -
          have "unat n + (unat btr - unat n) = unat btr" using un by simp
          then show ?thesis
            using take_drop_glue [of "unat br" "unat n" "unat btr - unat n" buff "unat (fptr fp)" "file_data cont fs d fp xs" buff1]
              res2 fine un ub up data less.prems(4,6) length_file_data [OF ok] buff1
            by simp
        qed
        moreover have "ucast n + ucast (btr - n) = (ucast btr :: u64)" by (rule ucast_split [OF n(2)])
        ultimately show ?thesis
          using loop res2 fine f1 data moved_trans [OF m] by (auto simp: add.assoc)
      qed
    qed
  qed
qed


lemma read_inv_cont:
  "read_inv io cont fs d fp xs \<Longrightarrow> cont d' = cont d \<Longrightarrow> read_inv io cont fs d' fp xs"
  by (auto simp: read_inv_def intro: file_ok_cont(1))

lemma validate_open:
  assumes ok: "file_ok io cont (objects st (obj_fs obj)) d fp xs" and s: "status_kept io (pdrv (objects st (obj_fs obj))) cont"
    and id: "obj_fs obj \<noteq> 0" "obj_id obj = fs_id (objects st (obj_fs obj))"
  shows "\<exists>s d1. validate io (Some obj) st d =
      Some (if (ucast (s :: u8) :: u32) AND STA_NOINIT = 0 then (FR_OK, obj_fs obj, d1) else (FR_INVALID_OBJECT, 0, d1)) \<and> cont d1 = cont d"
proof -
  let ?fs = "objects st (obj_fs obj)"
  have "mounted io cont ?fs d" using ok by (simp add: file_ok_def)
  then have "fs_type ?fs \<in> {FS_FAT12, FS_FAT16, FS_FAT32}" by (rule volume_okD(4) [OF mountedD(3)])
  then have "fs_type ?fs \<noteq> 0" by (auto simp: fs_types)
  moreover obtain s d1 where "dstatus io (pdrv ?fs) d = Some (s, d1)" "cont d1 = cont d" using s unfolding status_kept_def by blast
  ultimately show ?thesis using id by (auto simp: validate_def Let_def)
qed

section \<open>The property\<close>

text \<open>
  C12. \<open>f_read\<close> on an open file of a FAT volume always returns, and but for a report of an error of the
  disk it reads the octets behind the file pointer, as many as are asked for and the file has: they are
  at the start of the buffer of the caller, whose rest is as it was, the count is their number, the
  pointer is behind them, and the file holds what it did. That is so with any part of a sector in the
  buffer of the object, dirty or clean, and however the octets lie over the clusters.
\<close>

theorem f_read_reads_file:
  assumes "read_inv io cont (objects st (obj_fs (fp_obj fp))) d fp xs"
    and "disk_returns io (pdrv (objects st (obj_fs (fp_obj fp))))" and "reads_many io (pdrv (objects st (obj_fs (fp_obj fp)))) cont"
    and "status_kept io (pdrv (objects st (obj_fs (fp_obj fp)))) cont"
    and "obj_fs (fp_obj fp) \<noteq> 0" and "obj_id (fp_obj fp) = fs_id (objects st (obj_fs (fp_obj fp)))"
    and "fp_err fp = FR_OK" and "fp_flag fp AND FA_READ \<noteq> 0" and "fptr fp \<le> objsize (fp_obj fp)" and "unat btr \<le> length buff"
  shows "\<exists>res br buff' fp' st' d'. f_read io buff btr fp st d = Some (res, br, buff', fp', st', d')
     \<and> (res = FR_DISK_ERR \<or> res = FR_INVALID_OBJECT \<or> res = FR_OK
        \<and> unat br = min (unat btr) (unat (objsize (fp_obj fp)) - unat (fptr fp))
        \<and> buff' = take (unat br) (drop (unat (fptr fp)) (file_data cont (objects st (obj_fs (fp_obj fp))) d fp xs)) @ drop (unat br) buff
        \<and> fptr fp' = fptr fp + ucast br \<and> fp_obj fp' = fp_obj fp \<and> read_inv io cont (objects st' (obj_fs (fp_obj fp))) d' fp' xs
        \<and> file_data cont (objects st' (obj_fs (fp_obj fp))) d' fp' xs = file_data cont (objects st (obj_fs (fp_obj fp))) d fp xs)"
proof -
  let ?fs = "objects st (obj_fs (fp_obj fp))"
  define rem where "rem = objsize (fp_obj fp) - fptr fp"
  define n where "n = (if rem < ucast btr then ucast rem else btr)"
  have ok: "file_ok io cont ?fs d fp xs" using assms(1) by (simp add: read_inv_def)
  obtain s d1 where v: "validate io (Some (fp_obj fp)) st d =
      Some (if (ucast (s :: u8) :: u32) AND STA_NOINIT = 0 then (FR_OK, obj_fs (fp_obj fp), d1) else (FR_INVALID_OBJECT, 0, d1))" and c: "cont d1 = cont d"
    using validate_open [OF ok assms(4,5,6)] by blast
  show ?thesis
  proof (cases "(ucast (s :: u8) :: u32) AND STA_NOINIT = 0")
    case False
    then show ?thesis using v by (simp add: f_read_def)
  next
    case True
    have inv: "read_inv io cont ?fs d1 fp xs" and data: "file_data cont ?fs d1 fp xs = file_data cont ?fs d fp xs"
      using read_inv_cont [where cont = cont, OF assms(1) c] file_ok_cont(2) [where cont = cont, OF ok c] by simp_all
    have ur: "unat rem = unat (objsize (fp_obj fp)) - unat (fptr fp)" using assms(9) by (simp add: rem_def unat_sub word_le_nat_alt)
    have un: "unat n = min (unat btr) (unat rem)"
      using unsigned_less [of btr, where ?'a = nat]
      by (auto simp: n_def word_less_nat_alt unat_ucast_64 unsigned_ucast_eq take_bit_nat_eq_self min_def)
    have le: "unat (fptr fp) + unat n \<le> 512 * file_sectors ?fs xs"
    proof -
      have "unat (fptr fp) + unat n \<le> unat (objsize (fp_obj fp))" using un ur assms(9) by (simp add: word_le_nat_alt)
      then show ?thesis using ok by (simp add: file_ok_def)
    qed
    have lb: "unat (0 :: u32) + unat n \<le> length buff" using un assms(10) by simp
    have "unat (0 :: u32) + unat n < 2 ^ 32" using unsigned_less [of n, where ?'a = nat] by simp
    from read_loop_reads [OF inv assms(2,3) lb this le] obtain res br buff' fp' fs' d' where
      lp: "read_loop io n buff 0 fp ?fs d1 = Some (res, br, buff', fp', fs', d')" and
      res: "res = FR_DISK_ERR \<or> res = FR_OK \<and> br = n
        \<and> buff' = take (unat n) (drop (unat (fptr fp)) (file_data cont ?fs d1 fp xs)) @ drop (unat n) buff
        \<and> read_inv io cont fs' d' fp' xs \<and> file_data cont fs' d' fp' xs = file_data cont ?fs d1 fp xs
        \<and> fp_obj fp' = fp_obj fp \<and> fptr fp' = fptr fp + ucast n" by auto
    have "f_read io buff btr fp st d = Some (res, br, buff', fp', set_fs (obj_fs (fp_obj fp)) fs' st, d')"
      using v True assms(7,8) lp by (simp add: f_read_def Let_def n_def [unfolded rem_def, symmetric])
    then show ?thesis using res un ur data by (auto simp: set_fs_def)
  qed
qed

section \<open>An example file\<close>

text \<open>
  A file of 600 octets in the clusters 2 and 4 of the example volume, on a disk that transfers any number of
  sectors. The first of its sectors is in the buffer of the object and not yet written back.
\<close>

definition many_io :: "(u64 \<Rightarrow> u8 list) disk_io" where
  "many_io = ram_io\<lparr>dread := \<lambda>p s n d. Some ((RES_OK, concat (map (\<lambda>i. ram_sectors d (s + of_nat i)) [0..<unat n])), d),
     dwrite := \<lambda>p w s n d. Some (RES_OK, \<lambda>t. if unat (t - s) < unat n then take 512 (drop (512 * unat (t - s)) w) else d t)\<rparr>"

definition pair_disk :: "u64 \<Rightarrow> u8 list" where "pair_disk = example_disk(37 := replicate 512 9)"

definition pair_file :: fil where
  "pair_file = \<lparr>fp_obj = \<lparr>obj_fs = 1, obj_id = 1, obj_attr = 0, stat = 0, sclust = 2, objsize = 600, n_cont = 0, n_frag = 0,
       c_scl = 0, c_size = 0, c_ofs = 0, lockid = 0\<rparr>,
     fp_flag = FA_READ OR FA_WRITE OR FA_DIRTY, fp_err = FR_OK, fptr = 500, fp_clust = 2, fp_sect = 35, dir_sect = 3, dir_ptr = 0, cltbl = None,
     fp_buf = replicate 512 7\<rparr>"

definition pair_static :: ff_static where
  "pair_static = \<lparr>FatFs = [1], objects = \<lambda>i. example_fs, Fsid = 1, CurrVol = 0, Files = []\<rparr>"

lemma many_disk: "sector_disk many_io p ram_sectors" "disk_returns many_io p" "reads_many many_io p ram_sectors" "status_kept many_io p ram_sectors"
proof -
  have "length (concat (map (\<lambda>i. ram_sectors d (s + of_nat i)) [0..<n])) = 512 * n" for d s n
    by (subst length_concat_sectors) (simp_all add: ram_sectors_def)
  then show "reads_many many_io p ram_sectors" by (auto simp: reads_many_def many_io_def)
qed (auto simp: sector_disk_def reads_kept_def writes_kept_def disk_returns_def status_kept_def many_io_def ram_io_def ram_sectors_def
    unat_eq_zero fun_eq_iff)

lemma pair_sectors: "file_sectors example_fs [2, 4] = 2" "file_sector example_fs [2, 4] 0 = 35" "file_sector example_fs [2, 4] (Suc 0) = 37"
  by (simp_all add: file_sectors_def file_sector_def clst2sect_def example_fs_def)

lemma pair_table: "unat n < unat (fsize example_fs) \<Longrightarrow> fat_sector example_fs n = 1"
  by (auto simp: fat_sector_def example_fs_def unat_eq_zero)

lemma pair_chain: "chain (fat_entry ram_sectors example_fs pair_disk) example_fs 2 [2, 4]"
proof (rule chain_cong [OF example_chain])
  fix y assume "y \<in> set [2, 4 :: u32]"
  then have "y < n_fatent example_fs" by (auto simp: example_fs_def)
  then show "fat_entry ram_sectors example_fs pair_disk y = fat_entry ram_sectors example_fs example_disk y"
    using mountedD(3) [OF example_mounted]
    by (intro fat_entry_cong) (auto simp: shown_def pair_disk_def ram_sectors_def pair_table)
qed simp

lemma pair_inv: "read_inv many_io ram_sectors example_fs pair_disk pair_file [2, 4]"
proof -
  have two: "{..<2} = {0, Suc 0}" by auto
  have all2: "(\<forall>k<2. P k) \<longleftrightarrow> P 0 \<and> P (Suc 0)" for P :: "nat \<Rightarrow> bool" by (auto simp: less_Suc_eq numeral_2_eq_2)
  have f: "csize example_fs = 1" "n_fats example_fs = 2" "fsize example_fs = 1" "fatbase example_fs = 1" "winsect example_fs = no_sector"
    by (simp_all add: example_fs_def)
  have s: "unat no_sector = 2 ^ 64 - 1" by (simp add: no_sector_def unsigned_minus_1_eq_mask mask_eq_exp_minus_1)
  have "mounted many_io ram_sectors example_fs pair_disk"
    using mountedD(2,3) [OF example_mounted] many_disk(1) f(5) by (simp add: mounted_def window_ok_def)
  moreover have "file_place ram_sectors example_fs pair_disk 2 [2, 4]"
    unfolding file_place_def pair_sectors all2 two using pair_chain
    by (auto simp: pair_sectors f plain_def mirrored_def table_sector_def no_sector_def word_less_nat_alt intro!: exI [of _ 0])
  ultimately show ?thesis
    by (simp add: read_inv_def file_ok_def buffer_ok_def pointer_ok_def pair_file_def pair_sectors two f FA_READ_def FA_WRITE_def FA_DIRTY_def)
qed

lemma pair_data: "file_data ram_sectors example_fs pair_disk pair_file [2, 4] = replicate 512 7 @ replicate 512 9"
  unfolding file_data_def pair_sectors
  by (simp add: upt_conv_Cons pair_sectors numeral_2_eq_2) (simp add: sector_data_def pair_file_def pair_disk_def ram_sectors_def FA_DIRTY_def FA_READ_def FA_WRITE_def)

lemma f_read_reads_file_witness:
  "\<exists>res br buff' fp' st' d'. f_read many_io (replicate 32 0) 20 pair_file pair_static pair_disk = Some (res, br, buff', fp', st', d')
     \<and> (res = FR_DISK_ERR \<or> res = FR_INVALID_OBJECT \<or> res = FR_OK \<and> unat br = 20
        \<and> buff' = replicate 12 7 @ replicate 8 9 @ replicate 12 0)"
proof -
  have o: "objects pair_static (obj_fs (fp_obj pair_file)) = example_fs" by (simp add: pair_static_def)
  have f: "obj_fs (fp_obj pair_file) \<noteq> 0" "obj_id (fp_obj pair_file) = fs_id example_fs" "fp_err pair_file = FR_OK"
    "fp_flag pair_file AND FA_READ \<noteq> 0" "fptr pair_file \<le> objsize (fp_obj pair_file)" "unat (fptr pair_file) = 500"
    "unat (objsize (fp_obj pair_file)) = 600" "unat (20 :: u32) \<le> length (replicate 32 (0 :: u8))"
    by (simp_all add: pair_file_def example_fs_def FA_READ_def FA_WRITE_def FA_DIRTY_def)
  have "take 20 (drop 500 (replicate 512 7 @ replicate 512 (9 :: u8))) = replicate 12 7 @ replicate 8 9" by simp
  then show ?thesis
    using pair_data f_read_reads_file [of many_io ram_sectors pair_static pair_file pair_disk "[2, 4]" 20 "replicate 32 0", unfolded o,
      OF pair_inv many_disk(2,3,4) f(1-5,8)] f(6,7) by auto
qed

end
