(* ===== verification/Ff_Write.thy ===== *)
theory Ff_Write
  imports Ff_Read
begin

text \<open>
  What \<open>f_write\<close> does within the clusters a file of a FAT volume has: the contents of the file are
  overwritten from the file pointer on, and grow when the octets go beyond its end.
\<close>

section \<open>Overwriting\<close>

definition over :: "nat \<Rightarrow> 'a list \<Rightarrow> 'a list \<Rightarrow> 'a list" where
  "over p new old = take p old @ new @ drop (p + length new) old"

lemma over_Nil: "over p [] xs = xs"
  by (simp add: over_def)

lemma take_over: "p \<le> n \<Longrightarrow> n \<le> length xs \<Longrightarrow> p + length w \<le> length xs \<Longrightarrow> take (max n (p + length w)) (over p w xs) = over p w (take n xs)"
proof (cases "w = []")
  case False
  assume "p \<le> n" and "n \<le> length xs" and "p + length w \<le> length xs"
  moreover have "p + length w \<le> n \<Longrightarrow> \<not> n \<le> p" using False by (cases w) auto
  ultimately show ?thesis by (cases "p + length w \<le> n") (auto simp: over_def max_def min_def drop_take)
qed (simp add: over_Nil max_def)

lemma length_over: "p + length w \<le> length xs \<Longrightarrow> length (over p w xs) = length xs"
  by (simp add: over_def)

lemma over_over: "p \<le> length xs \<Longrightarrow> over (p + length v) w (over p v xs) = over p (v @ w) xs"
  by (simp add: over_def ac_simps)

lemma concat_slices: "512 * n \<le> length w \<Longrightarrow> concat (map (\<lambda>i. take 512 (drop (512 * i) w)) [0..<n]) = take (512 * n) w"
proof (induction n)
  case (Suc n)
  then show ?case by (simp add: take_add [of "512 * n" 512 w, symmetric] add.commute)
qed simp

text \<open>Sectors replaced in a row.\<close>

lemma concat_put_many:
  assumes l: "\<And>k. k < n \<Longrightarrow> length (f k) = 512" and k: "k + c \<le> n" and w: "512 * c \<le> length w"
    and g: "\<And>i. i < n \<Longrightarrow> g i = (if k \<le> i \<and> i < k + c then take 512 (drop (512 * (i - k)) w) else f i)"
  shows "concat (map g [0..<n]) = over (512 * k) (take (512 * c) w) (concat (map f [0..<n]))"
proof -
  have s: "[0..<n] = [0..<k] @ map (\<lambda>i. k + i) [0..<c] @ [k + c..<n]"
    using k upt_add_eq_append [of 0 k "n - k"] upt_add_eq_append [of k "k + c" "n - k - c"] map_add_upt [of k c]
    by (simp add: add.commute)
  have "concat (map g [0..<n]) = concat (map f [0..<k]) @ concat (map (\<lambda>i. take 512 (drop (512 * i) w)) [0..<c]) @ concat (map f [k + c..<n])"
  proof -
    have "map g [0..<k] = map f [0..<k]" "map g (map (\<lambda>i. k + i) [0..<c]) = map (\<lambda>i. take 512 (drop (512 * i) w)) [0..<c]"
      "map g [k + c..<n] = map f [k + c..<n]" using k by (auto simp: g)
    then show ?thesis unfolding s map_append concat_append by (simp only:)
  qed
  moreover have "length (concat (map f [0..<k])) = 512 * k" "length (concat (map f (map (\<lambda>i. k + i) [0..<c]))) = 512 * c"
    using length_concat_sectors [of "[0..<k]" f] length_concat_sectors [of "map (\<lambda>i. k + i) [0..<c]" f] k l by simp_all
  then have "over (512 * k) (take (512 * c) w) (concat (map f [0..<n])) = concat (map f [0..<k]) @ take (512 * c) w @ concat (map f [k + c..<n])"
    unfolding s over_def using w by (simp add: min_def)
  ultimately show ?thesis using concat_slices [OF w] by simp
qed

section \<open>The contents of a file\<close>

definition contents :: "('d \<Rightarrow> u64 \<Rightarrow> u8 list) \<Rightarrow> fatfs \<Rightarrow> 'd \<Rightarrow> fil \<Rightarrow> u32 list \<Rightarrow> u8 list" where
  "contents cont fs d fp xs = take (unat (objsize (fp_obj fp))) (file_data cont fs d fp xs)"

text \<open>A write of several sectors: one that fails may leave anything in them.\<close>

definition writes_many :: "'d disk_io \<Rightarrow> u8 \<Rightarrow> ('d \<Rightarrow> u64 \<Rightarrow> u8 list) \<Rightarrow> bool" where
  "writes_many io p cont \<longleftrightarrow> (\<forall>w s n d. 512 * unat n \<le> length w \<longrightarrow> (\<exists>r d'. dwrite io p w s n d = Some (r, d')
     \<and> (\<forall>t. (\<forall>i < unat n. t \<noteq> s + of_nat i) \<longrightarrow> cont d' t = cont d t)
     \<and> (r = RES_OK \<longrightarrow> (\<forall>i < unat n. cont d' (s + of_nat i) = take 512 (drop (512 * i) w)))))"

lemma file_sector_eq:
  assumes "file_ok io cont fs d fp xs" and "i < file_sectors fs xs" and "k < file_sectors fs xs"
  shows "file_sector fs xs i = file_sector fs xs k \<longleftrightarrow> i = k"
proof -
  have "inj_on (file_sector fs xs) {..<file_sectors fs xs}" using assms(1) by (simp add: file_ok_def file_place_def)
  then show ?thesis using assms(2,3) by (simp add: inj_on_eq_iff)
qed

text \<open>The buffer takes a sector over: what it held has been written back, or it is that sector.\<close>

lemma buffer_put:
  assumes ok: "file_ok io cont fs d fp xs" and K: "K < file_sectors fs xs"
    and dirty: "fp_flag fp AND FA_DIRTY \<noteq> 0 \<Longrightarrow> fp_sect fp = file_sector fs xs K" and b: "length b = 512"
  defines "fp' \<equiv> fp\<lparr>fp_sect := file_sector fs xs K, fp_buf := b, fp_flag := fp_flag fp OR FA_DIRTY\<rparr>"
  shows "file_ok io cont fs d fp' xs" and "file_data cont fs d fp' xs = over (512 * K) b (file_data cont fs d fp xs)"
proof -
  have f: "(fp_flag fp OR FA_DIRTY) AND FA_DIRTY \<noteq> 0" by (simp add: FA_DIRTY_def bit.conj_disj_distrib2)
  then show "file_ok io cont fs d fp' xs" using ok K b by (auto simp: fp'_def file_ok_def buffer_ok_def)
  have "sector_data cont d fp' (file_sector fs xs i) = (if i = K then b else sector_data cont d fp (file_sector fs xs i))"
    if "i < file_sectors fs xs" for i
    using f dirty file_sector_eq [OF ok that K] by (auto simp: fp'_def sector_data_def)
  then show "file_data cont fs d fp' xs = over (512 * K) b (file_data cont fs d fp xs)"
    unfolding file_data_def using K b length_sector_data [OF ok]
      concat_put_many [of "file_sectors fs xs" "\<lambda>k. sector_data cont d fp (file_sector fs xs k)" K 1 b
        "\<lambda>k. sector_data cont d fp' (file_sector fs xs k)"] by auto
qed


section \<open>The steps of writing\<close>

lemma write_cluster_chain:
  assumes ok: "file_ok io cont fs d fp xs" and r: "disk_returns io (pdrv fs)" and ptr: "pointer_ok fs fp xs"
    and P: "unat (fptr fp) = 512 * K" and K: "K < file_sectors fs xs" and start: "K mod unat (csize fs) = 0"
  shows "\<exists>c fs' d'. write_cluster io fp fs d = Some (c, fp, fs', d') \<and> same_file io cont xs fp fs d fp fs' d'
     \<and> (c = 0xFFFFFFFF \<or> c = xs ! (K div unat (csize fs)) \<and> 2 \<le> c)"
proof (cases "K = 0")
  case True
  then have "fptr fp = 0" using P by (simp add: unat_eq_zero)
  moreover have "sclust (fp_obj fp) \<noteq> 0" using file_chain(5) [OF ok K] by (auto simp: in_fat_def)
  ultimately show ?thesis using True file_chain(4,5) [OF ok K] same_file_refl [OF ok] by (simp add: write_cluster_def in_fat_def Let_def)
next
  case False
  then have "fptr fp \<noteq> 0" using P by auto
  moreover have "cltbl fp = None" using ok by (simp add: file_ok_def)
  moreover obtain v fs' d' where g: "get_fat io (fp_obj fp) (fp_clust fp) fs d = Some (v, fs', d')" "same_file io cont xs fp fs d fp fs' d'"
    "fp_clust fp \<noteq> 0" "v = 0xFFFFFFFF \<or> v = xs ! (K div unat (csize fs)) \<and> 2 \<le> v \<and> v < n_fatent fs"
    using next_of_file [OF ok r ptr P K start False] by blast
  moreover have "n_fatent fs' = n_fatent fs" using g(2) by (simp add: same_file_def moved_fields)
  then have "create_chain io (fp_obj fp) (fp_clust fp) fs d = Some (v, fp_obj fp, fs', d')"
    using g by (auto simp: create_chain_def)
  ultimately show ?thesis by (auto simp: write_cluster_def Let_def)
qed

lemma enter_cluster_place:
  assumes ok: "file_ok io cont fs d fp xs" and r: "disk_returns io (pdrv fs)" and ptr: "pointer_ok fs fp xs"
    and P: "unat (fptr fp) = 512 * K" and K: "K < file_sectors fs xs" and start: "K mod unat (csize fs) = 0"
  shows "\<exists>res fp' fs' d'. enter_cluster io fp fs d = Some (False, res, fp', fs', d') \<and> (res = FR_DISK_ERR \<or>
     res = FR_OK \<and> same_file io cont xs fp fs d fp' fs' d' \<and> fp_clust fp' = xs ! (K div unat (csize fs)))"
proof -
  obtain c fs' d' where w: "write_cluster io fp fs d = Some (c, fp, fs', d')" "same_file io cont xs fp fs d fp fs' d'"
    "c = 0xFFFFFFFF \<or> c = xs ! (K div unat (csize fs)) \<and> 2 \<le> c"
    using write_cluster_chain [OF ok r ptr P K start] by blast
  show ?thesis
  proof (cases "c = 0xFFFFFFFF")
    case True
    then show ?thesis using w by (simp add: enter_cluster_def)
  next
    case False
    have "sclust (fp_obj fp) \<noteq> 0" using file_chain(5) [OF ok K] by (auto simp: in_fat_def)
    moreover have "c \<noteq> 0" "c \<noteq> 1" using w(3) False by (auto simp: word_le_nat_alt)
    ultimately show ?thesis using w False same_file_clust [OF w(2), of c] by (simp add: enter_cluster_def Let_def)
  qed
qed

lemma write_sector_place:
  assumes ok: "file_ok io cont fs d fp xs" and r: "disk_returns io (pdrv fs)" and ptr: "pointer_ok fs fp xs"
    and P: "unat (fptr fp) = 512 * K" and K: "K < file_sectors fs xs" and n: "n = of_nat (K mod unat (csize fs))"
  shows "\<exists>res s fp' fs' d'. write_sector io n fp fs d = Some (False, res, s, fp', fs', d') \<and> (res = FR_DISK_ERR \<or>
     res = FR_OK \<and> s = file_sector fs xs K \<and> same_file io cont xs fp fs d fp' fs' d'
     \<and> fp_clust fp' = xs ! (K div unat (csize fs)) \<and> fp_flag fp' AND FA_DIRTY = 0)"
proof -
  have p: "file_place cont fs d (sclust (fp_obj fp)) xs" using ok by (simp add: file_ok_def)
  note nz = sector_number [OF file_placeD(2) [OF p] K n]
  obtain res fp1 fs1 d1 where e: "(if n = 0 then enter_cluster io fp fs d else Some (False, FR_OK, fp, fs, d)) = Some (False, res, fp1, fs1, d1)"
    and res: "res = FR_DISK_ERR \<or> res = FR_OK \<and> same_file io cont xs fp fs d fp1 fs1 d1 \<and> fp_clust fp1 = xs ! (K div unat (csize fs))"
    using enter_cluster_place [OF ok r ptr P K] inside_cluster [OF ptr P] same_file_refl [OF ok] nz(1)
    by (cases "n = 0") auto
  show ?thesis
  proof (cases "res = FR_OK")
    case False
    then show ?thesis using e res by (simp add: write_sector_def)
  next
    case True
    then have s1: "same_file io cont xs fp fs d fp1 fs1 d1" "fp_clust fp1 = xs ! (K div unat (csize fs))" using res by auto
    have mv: "moved fs fs1" "file_ok io cont fs1 d1 fp1 xs" using s1 by (simp_all add: same_file_def)
    obtain res2 fp2 d2 where f: "flush_buf io fp1 fs1 d1 = Some (res2, fp2, d2)" and f2: "res2 = FR_DISK_ERR \<or>
     res2 = FR_OK \<and> same_file io cont xs fp1 fs1 d1 fp2 fs1 d2 \<and> fp_flag fp2 AND FA_DIRTY = 0 \<and> fp_clust fp2 = fp_clust fp1"
      using flush_keeps [OF mv(2)] r moved_fields(1) [OF mv(1)] by auto
    show ?thesis
    proof (cases "res2 = FR_OK")
      case False
      then show ?thesis using e True f f2 by (simp add: write_sector_def)
    next
      case fine: True
      note s = sector_in_cluster [OF K]
      have base: "file_sector fs xs (K - K mod unat (csize fs)) \<noteq> 0" using file_placeD(5) [OF p s(3)] by simp
      have "same_file io cont xs fp fs d fp2 fs1 d2" using same_file_trans [OF s1(1)] f2 fine by blast
      then show ?thesis
        using e True f f2 fine s base nz(2) s1(2) by (auto simp: write_sector_def clst2sect_moved [OF mv(1)] Let_def)
    qed
  qed
qed


lemma clean_flag: "(f AND NOT FA_DIRTY) AND FA_DIRTY = 0"
  by (simp add: and.assoc)

lemma dirty_flag: "(f OR FA_DIRTY) AND FA_DIRTY \<noteq> 0"
  by (simp add: FA_DIRTY_def bit.conj_disj_distrib2)

lemma write_direct_data:
  assumes ok: "file_ok io cont fs d fp xs" and w: "writes_many io (pdrv fs) cont" and clean: "fp_flag fp AND FA_DIRTY = 0"
    and K: "K + unat cc \<le> file_sectors fs xs" and cc: "K mod unat (csize fs) + unat cc \<le> unat (csize fs)" and l: "p + 512 * unat cc \<le> length buff"
  shows "\<exists>res fp' d'. write_direct io cc (file_sector fs xs K) buff p fp fs d = Some (res, fp', d') \<and> (res = FR_DISK_ERR \<or>
     res = FR_OK \<and> file_ok io cont fs d' fp' xs \<and> fp_obj fp' = fp_obj fp \<and> fptr fp' = fptr fp \<and> fp_err fp' = fp_err fp \<and> fp_clust fp' = fp_clust fp
     \<and> file_data cont fs d' fp' xs = over (512 * K) (take (512 * unat cc) (drop p buff)) (file_data cont fs d fp xs))"
proof -
  let ?s = "file_sector fs xs K" and ?D = "file_sector fs xs ` {..<file_sectors fs xs}"
  have m: "mounted io cont fs d" and bl: "length (fp_buf fp) = 512" using ok by (simp_all add: file_ok_def buffer_ok_def)
  have "512 * unat cc \<le> length (drop p buff)" using l by simp
  then obtain r d' where wr: "dwrite io (pdrv fs) (drop p buff) ?s cc d = Some (r, d')"
    and other: "\<And>t. (\<forall>i < unat cc. t \<noteq> ?s + of_nat i) \<Longrightarrow> cont d' t = cont d t"
    and own: "r = RES_OK \<Longrightarrow> i < unat cc \<Longrightarrow> cont d' (?s + of_nat i) = take 512 (drop (512 * i) (drop p buff))" for i
    using w unfolding writes_many_def by blast
  have row: "?s + of_nat i = file_sector fs xs (K + i)" if "i < unat cc" for i
    using file_sector_add [of K fs i xs] cc that by simp
  have inD: "?s + of_nat i \<in> ?D" if "i < unat cc" for i using row [OF that] K that by simp
  show ?thesis
  proof (cases "r = RES_OK")
    case False
    then show ?thesis using wr by (simp add: write_direct_def)
  next
    case True
    have "cont d' t = cont d t" if "t \<notin> ?D" for t by (rule other) (use inD that in blast)
    note own_s = write_own_sectors [OF ok this]
    have sect: "cont d' (file_sector fs xs i) = (if K \<le> i \<and> i < K + unat cc then take 512 (drop (512 * (i - K)) (drop p buff))
        else cont d (file_sector fs xs i))" if i: "i < file_sectors fs xs" for i
    proof (cases "K \<le> i \<and> i < K + unat cc")
      case True
      then have lt: "i - K < unat cc" and e: "K + (i - K) = i" by auto
      show ?thesis using own [OF \<open>r = RES_OK\<close> lt] row [OF lt] True unfolding e by simp
    next
      case False
      have "file_sector fs xs i \<noteq> ?s + of_nat j" if "j < unat cc" for j
        using row [OF that] file_sector_eq [OF ok i, of "K + j"] K that False by auto
      then show ?thesis using False other by auto
    qed
    have data: "file_data cont fs d' fp' xs = over (512 * K) (take (512 * unat cc) (drop p buff)) (file_data cont fs d fp xs)"
      if c': "fp_flag fp' AND FA_DIRTY = 0" for fp'
      unfolding file_data_def
      by (rule concat_put_many) (use K l length_sector_data [OF ok] clean c' sect in \<open>auto simp: sector_data_def\<close>)
    have goal: ?thesis if c': "fp_flag fp' AND FA_DIRTY = 0" "length (fp_buf fp') = 512"
      and f: "fp_obj fp' = fp_obj fp" "fptr fp' = fptr fp" "fp_err fp' = fp_err fp" "fp_clust fp' = fp_clust fp" "cltbl fp' = cltbl fp"
      and b: "fp_sect fp' \<in> ?D \<longrightarrow> fp_buf fp' = cont d' (fp_sect fp')"
      and wd: "write_direct io cc ?s buff p fp fs d = Some (FR_OK, fp', d')" for fp'
    proof -
      have "file_ok io cont fs d' fp' xs" using own_s c' f b ok by (simp add: file_ok_def buffer_ok_def)
      then show ?thesis using wd f data [OF c'(1)] by simp
    qed
    show ?thesis
    proof (cases "fp_sect fp - ?s < ucast cc")
      case False
      have "fp_sect fp \<noteq> ?s + of_nat i" if "i < unat cc" for i
      proof
        assume "fp_sect fp = ?s + of_nat i"
        then have "unat (fp_sect fp - ?s) = i" using that unsigned_less [of cc, where ?'a = nat] by (simp add: unat_of_nat take_bit_nat_eq_self)
        then show False using False that by (simp add: word_less_nat_alt unat_ucast_64)
      qed
      then have "cont d' (fp_sect fp) = cont d (fp_sect fp)" using other by blast
      then show ?thesis using ok clean wr True False by (intro goal [of fp]) (auto simp: file_ok_def buffer_ok_def write_direct_def)
    next
      case inside: True
      define j where "j = unat (fp_sect fp - ?s)"
      have j: "j < unat cc" using inside by (simp add: j_def word_less_nat_alt unat_ucast_64)
      have off: "unat ((fp_sect fp - ?s) * 512) = 512 * j"
        unfolding j_def by (rule unat_times_512) (use j unsigned_less [of cc, where ?'a = nat] in \<open>simp add: j_def\<close>)
      let ?b = "take 512 (drop (p + 512 * j) buff)"
      have "cont d' (?s + of_nat j) = ?b" using own [OF True j] by (simp add: add.commute)
      then have c: "cont d' (fp_sect fp) = ?b" by (simp add: j_def)
      have lb: "length ?b = 512" using l j by simp
      have "mem_cpy (fp_buf fp) 0 buff (p + 512 * j) 512 = Some ?b" unfolding mem_cpy_spec using l j bl by simp
      then have "write_direct io cc ?s buff p fp fs d = Some (FR_OK, fp\<lparr>fp_buf := ?b, fp_flag := fp_flag fp AND NOT FA_DIRTY\<rparr>, d')"
        using wr True inside off by (simp add: write_direct_def)
      then show ?thesis using c lb by (intro goal [of "fp\<lparr>fp_buf := ?b, fp_flag := fp_flag fp AND NOT FA_DIRTY\<rparr>"]) (simp_all add: clean_flag)
    qed
  qed
qed


lemma write_cached_base:
  assumes ok: "file_ok io cont fs d fp xs" and r: "disk_returns io (pdrv fs)" and k: "k < file_sectors fs xs"
    and clean: "fp_flag fp AND FA_DIRTY = 0"
  shows "\<exists>res base d'. write_cached io (file_sector fs xs k) fp fs d = Some (res, fp\<lparr>fp_buf := base, fp_sect := file_sector fs xs k\<rparr>, d')
       \<and> res = FR_OK \<and> cont d' = cont d \<and> length base = 512 \<and> (base = cont d (file_sector fs xs k) \<or> objsize (fp_obj fp) \<le> fptr fp)
     \<or> (\<exists>fp'. write_cached io (file_sector fs xs k) fp fs d = Some (FR_DISK_ERR, fp', d'))"
proof (cases "fp_sect fp \<noteq> file_sector fs xs k \<and> fptr fp < objsize (fp_obj fp)")
  case False
  have "write_cached io (file_sector fs xs k) fp fs d = Some (FR_OK, fp\<lparr>fp_sect := file_sector fs xs k\<rparr>, d)"
    using False by (auto simp: write_cached_def)
  moreover have "fp\<lparr>fp_sect := file_sector fs xs k\<rparr> = fp\<lparr>fp_buf := fp_buf fp, fp_sect := file_sector fs xs k\<rparr>" by simp
  moreover have "length (fp_buf fp) = 512 \<and> (fp_buf fp = cont d (file_sector fs xs k) \<or> objsize (fp_obj fp) \<le> fptr fp)"
    using ok clean k False by (auto simp: file_ok_def buffer_ok_def)
  ultimately show ?thesis by metis
next
  case True
  obtain res w d' where l: "load_buf io (file_sector fs xs k) fp fs d = Some (res, fp\<lparr>fp_buf := w\<rparr>, d')" "cont d' = cont d" "length w = 512"
    "res = FR_DISK_ERR \<or> res = FR_OK \<and> w = cont d (file_sector fs xs k)"
    using load_exact [OF ok r, of "file_sector fs xs k"] by blast
  show ?thesis
  proof (cases "res = FR_OK")
    case False
    then have "write_cached io (file_sector fs xs k) fp fs d = Some (FR_DISK_ERR, fp\<lparr>fp_buf := w\<rparr>, d')"
      using l True by (auto simp: write_cached_def)
    then show ?thesis by blast
  next
    case fine: True
    then have "write_cached io (file_sector fs xs k) fp fs d = Some (FR_OK, fp\<lparr>fp_buf := w, fp_sect := file_sector fs xs k\<rparr>, d')"
      using l True by (simp add: write_cached_def)
    then show ?thesis using l fine by blast
  qed
qed

lemma over_sector:
  assumes "q + 512 \<le> length data" and "m + length w \<le> 512" and "length base = 512" and "n \<le> length data" and "q + m \<le> n"
    and "base = take 512 (drop q data) \<or> m = 0 \<and> n \<le> q"
  shows "take (max n (q + m + length w)) (over q (over m w base) data) = over (q + m) w (take n data)"
  using assms(6)
proof
  assume b: "base = take 512 (drop q data)"
  have "take (q + m) data = take q data @ take m base" unfolding b using assms(2) by (simp add: take_add min_def)
  moreover have "drop (q + m + length w) data = drop (m + length w) base @ drop (q + 512) data"
  proof -
    define x where "x = drop q data"
    have lx: "length (take 512 x) = 512" using assms(1) by (simp add: x_def)
    have "drop (m + length w) x = drop (m + length w) (take 512 x @ drop 512 x)" by simp
    also have "\<dots> = drop (m + length w) (take 512 x) @ drop 512 x" using lx assms(2) unfolding drop_append by simp
    finally have "drop (m + length w) (drop q data) = drop (m + length w) base @ drop 512 (drop q data)" unfolding x_def b .
    then show ?thesis by (simp add: ac_simps)
  qed
  moreover have "length (over m w base) = 512" using assms(2,3) by (simp add: length_over)
  then have "over q (over m w base) data = take q data @ over m w base @ drop (q + 512) data" by (simp add: over_def [of q])
  ultimately have "over q (over m w base) data = over (q + m) w data" by (simp add: over_def [of m] over_def [of "q + m"])
  then show ?thesis using assms by (simp add: take_over)
next
  assume m: "m = 0 \<and> n \<le> q"
  then have "n = q" using assms(5) by simp
  then show ?thesis using m assms(1-3) by (simp add: over_def max_def min_def)
qed

definition step_writes ::
  "'d disk_io \<Rightarrow> ('d \<Rightarrow> u64 \<Rightarrow> u8 list) \<Rightarrow> u32 list \<Rightarrow> u32 \<Rightarrow> u8 list \<Rightarrow> u32 \<Rightarrow> fil \<Rightarrow> fatfs \<Rightarrow> 'd \<Rightarrow> u32 \<Rightarrow> fil \<Rightarrow> fatfs \<Rightarrow> 'd \<Rightarrow> bool" where
  "step_writes io cont xs btw buff bw fp fs d n fp' fs' d' \<longleftrightarrow> 0 < n \<and> n \<le> btw
     \<and> moved fs fs' \<and> file_ok io cont fs' d' fp' xs \<and> pointer_ok fs' (fp'\<lparr>fptr := fptr fp + ucast n\<rparr>) xs
     \<and> fp_obj fp' = fp_obj fp \<and> fptr fp' = fptr fp \<and> fp_err fp' = fp_err fp
     \<and> take (max (unat (objsize (fp_obj fp))) (unat (fptr fp) + unat n)) (file_data cont fs' d' fp' xs)
        = over (unat (fptr fp)) (take (unat n) (drop (unat bw) buff)) (contents cont fs d fp xs)"

lemma sector_of_data:
  assumes "file_ok io cont fs d fp xs" and "K < file_sectors fs xs"
  shows "sector_data cont d fp (file_sector fs xs K) = take 512 (drop (512 * K) (file_data cont fs d fp xs))"
  unfolding file_data_def
  using take_drop_sectors [OF _ assms(2), of "\<lambda>k. sector_data cont d fp (file_sector fs xs k)" 0 512] length_sector_data [OF assms(1)] by simp

lemma put_step:
  assumes s: "same_file io cont xs fp fs d fp1 fs1 d1" and K: "K < file_sectors fs xs" and P: "unat (fptr fp) = 512 * K + m" "m < 512"
    and c: "fp_clust fp1 = xs ! (K div unat (csize fs))"
    and dirty: "fp_flag fp1 AND FA_DIRTY \<noteq> 0 \<Longrightarrow> fp_sect fp1 = file_sector fs xs K"
    and base: "length base = 512" "base = sector_data cont d1 fp1 (file_sector fs xs K) \<or> m = 0 \<and> objsize (fp_obj fp) \<le> fptr fp"
    and btw: "0 < btw" and l: "unat bw + unat btw \<le> length buff" and le: "unat (fptr fp) + unat btw \<le> 512 * file_sectors fs xs"
    and size: "fptr fp \<le> objsize (fp_obj fp)" and n: "n = rest_in_sector fp btw"
  shows "\<exists>b. mem_cpy base (unat (fptr fp mod 512)) buff (unat bw) n = Some b
     \<and> step_writes io cont xs btw buff bw fp fs d n
          (fp1\<lparr>fp_sect := file_sector fs xs K, fp_buf := b, fp_flag := fp_flag fp1 OR FA_DIRTY\<rparr>) fs1 d1"
proof -
  have mv: "moved fs fs1" and ok1: "file_ok io cont fs1 d1 fp1 xs" and f1: "fptr fp1 = fptr fp" "fp_obj fp1 = fp_obj fp" "fp_err fp1 = fp_err fp"
    and data1: "file_data cont fs1 d1 fp1 xs = file_data cont fs d fp xs" using s by (simp_all add: same_file_def)
  note fm = file_sector_moved [OF mv] moved_fields(10) [OF mv]
  have pm: "unat (fptr fp mod 512) = m" "unat (fptr fp) mod 512 = m" "unat (fptr fp) div 512 = K" using P by (simp_all add: unat_mod)
  have un: "unat n = min (unat btw) (512 - m)" unfolding n unat_rest_in_sector pm ..
  then have nb: "0 < unat n" "unat n \<le> unat btw" "m + unat n \<le> 512" using btw P(2) by (auto simp: word_less_nat_alt)
  define w where "w = take (unat n) (drop (unat bw) buff)"
  have lw: "length w = unat n" using l nb by (simp add: w_def)
  define b where "b = over m w base"
  have lb: "length b = 512" using base(1) nb lw by (simp add: b_def over_def)
  have cpy: "mem_cpy base m buff (unat bw) n = Some b"
    unfolding mem_cpy_spec b_def over_def using nb base(1) l lw by (simp add: w_def unat_eq_zero)
  let ?fp = "fp1\<lparr>fp_sect := file_sector fs xs K, fp_buf := b, fp_flag := fp_flag fp1 OR FA_DIRTY\<rparr>"
  note put = buffer_put [OF ok1 K [folded fm(2)] dirty [folded fm(1)] lb, unfolded fm(1)]
  have ok: "file_ok io cont fs1 d1 ?fp xs" using put(1) by simp
  have data: "file_data cont fs1 d1 ?fp xs = over (512 * K) b (file_data cont fs d fp xs)" using put(2) data1 by simp
  have ld: "length (file_data cont fs d fp xs) = 512 * file_sectors fs xs" using length_file_data [OF ok1] data1 fm by simp
  have sz: "unat (objsize (fp_obj fp)) \<le> 512 * file_sectors fs xs" using ok1 f1 fm by (simp add: file_ok_def)
  have "take (max (unat (objsize (fp_obj fp))) (512 * K + m + length w)) (over (512 * K) (over m w base) (file_data cont fs d fp xs))
      = over (512 * K + m) w (take (unat (objsize (fp_obj fp))) (file_data cont fs d fp xs))"
  proof (rule over_sector)
    show "512 * K + 512 \<le> length (file_data cont fs d fp xs)" using K ld by simp
    show "base = take 512 (drop (512 * K) (file_data cont fs d fp xs)) \<or> m = 0 \<and> unat (objsize (fp_obj fp)) \<le> 512 * K"
      using base(2) sector_of_data [OF ok1, of K] K fm data1 P(1) by (auto simp: word_le_nat_alt)
  qed (use nb lw base(1) ld sz size P(1) in \<open>simp_all add: word_le_nat_alt\<close>)
  then have cont: "take (max (unat (objsize (fp_obj fp))) (unat (fptr fp) + unat n)) (file_data cont fs1 d1 ?fp xs)
      = over (unat (fptr fp)) w (contents cont fs d fp xs)"
    unfolding b_def [symmetric] lw by (simp only: data P(1) contents_def)
  have le': "unat (fptr ?fp) + unat n \<le> 512 * file_sectors fs1 xs" using le nb fm f1 by simp
  have pn: "unat (fptr fp + ucast n) = unat (fptr ?fp) + unat n" using pointer_bound(1) [OF ok, of "fptr fp" n] le' f1 by simp
  have "pointer_ok fs1 (?fp\<lparr>fptr := fptr fp + ucast n\<rparr>) xs"
    by (rule pointer_after [OF ok _ _ pn nb(1)]) (use K c nb f1 fm pm le' pn in auto)
  then show ?thesis using cpy ok mv f1 cont nb unfolding pm(1) step_writes_def w_def by (auto simp: word_less_nat_alt word_le_nat_alt)
qed


lemma step_write_direct:
  assumes s: "same_file io cont xs fp fs d fp1 fs1 d1" and w: "writes_many io (pdrv fs) cont" and clean: "fp_flag fp1 AND FA_DIRTY = 0"
    and P: "unat (fptr fp) = 512 * K" and K: "K < file_sectors fs xs" and c: "fp_clust fp1 = xs ! (K div unat (csize fs))"
    and cc: "0 < unat cc" "K mod unat (csize fs) + unat cc \<le> unat (csize fs)" "512 * unat cc \<le> unat btw"
    and l: "unat bw + unat btw \<le> length buff" and le: "unat (fptr fp) + unat btw \<le> 512 * file_sectors fs xs"
    and size: "fptr fp \<le> objsize (fp_obj fp)"
  shows "\<exists>res fp' d'. write_direct io cc (file_sector fs xs K) buff (unat bw) fp1 fs1 d1 = Some (res, fp', d')
     \<and> (res = FR_DISK_ERR \<or> res = FR_OK \<and> step_writes io cont xs btw buff bw fp fs d (512 * cc) fp' fs1 d')"
proof -
  have mv: "moved fs fs1" and ok1: "file_ok io cont fs1 d1 fp1 xs" and f1: "fptr fp1 = fptr fp" "fp_obj fp1 = fp_obj fp" "fp_err fp1 = fp_err fp"
    and data1: "file_data cont fs1 d1 fp1 xs = file_data cont fs d fp xs" using s by (simp_all add: same_file_def)
  note fm = file_sector_moved [OF mv] moved_fields(1,10) [OF mv]
  have n: "unat (512 * cc) = 512 * unat cc" using cc(3) unsigned_less [of btw, where ?'a = nat] by (simp add: unat_word_ariths)
  have K1: "K + unat cc \<le> file_sectors fs1 xs" using P le cc fm by simp
  have w1: "writes_many io (pdrv fs1) cont" and cc1: "K mod unat (csize fs1) + unat cc \<le> unat (csize fs1)"
    and lb: "unat bw + 512 * unat cc \<le> length buff" using w cc l fm by simp_all
  obtain res fp' d' where wr: "write_direct io cc (file_sector fs xs K) buff (unat bw) fp1 fs1 d1 = Some (res, fp', d')" and res: "res = FR_DISK_ERR \<or>
     res = FR_OK \<and> file_ok io cont fs1 d' fp' xs \<and> fp_obj fp' = fp_obj fp1 \<and> fptr fp' = fptr fp1 \<and> fp_err fp' = fp_err fp1 \<and> fp_clust fp' = fp_clust fp1
     \<and> file_data cont fs1 d' fp' xs = over (512 * K) (take (512 * unat cc) (drop (unat bw) buff)) (file_data cont fs d fp xs)"
    using write_direct_data [OF ok1 w1 clean K1 cc1 lb] fm(1) data1 by auto
  show ?thesis
  proof (cases "res = FR_OK")
    case False
    then show ?thesis using wr res by simp
  next
    case True
    then have ok: "file_ok io cont fs1 d' fp' xs" and f: "fp_obj fp' = fp_obj fp" "fptr fp' = fptr fp" "fp_err fp' = fp_err fp" "fp_clust fp' = fp_clust fp1"
      and data: "file_data cont fs1 d' fp' xs = over (512 * K) (take (512 * unat cc) (drop (unat bw) buff)) (file_data cont fs d fp xs)"
      using res f1 by auto
    have ld: "length (file_data cont fs d fp xs) = 512 * file_sectors fs xs" using length_file_data [OF ok1] data1 fm by simp
    have sz: "unat (objsize (fp_obj fp)) \<le> 512 * file_sectors fs xs" using ok1 f1 fm by (simp add: file_ok_def)
    have lw: "length (take (512 * unat cc) (drop (unat bw) buff)) = 512 * unat cc" using lb by simp
    have "take (max (unat (objsize (fp_obj fp))) (512 * K + 512 * unat cc)) (file_data cont fs1 d' fp' xs)
      = over (512 * K) (take (512 * unat cc) (drop (unat bw) buff)) (contents cont fs d fp xs)"
      unfolding data contents_def
      using take_over [of "512 * K" "unat (objsize (fp_obj fp))" "file_data cont fs d fp xs" "take (512 * unat cc) (drop (unat bw) buff)"]
        ld sz lw K1 fm P size by (simp add: word_le_nat_alt)
    moreover have le': "unat (fptr fp') + unat (512 * cc) \<le> 512 * file_sectors fs1 xs" using le cc n fm f by simp
    then have pn: "unat (fptr fp + ucast (512 * cc)) = unat (fptr fp') + unat (512 * cc)"
      using pointer_bound(1) [OF ok, of "fptr fp" "512 * cc"] f by simp
    have "pointer_ok fs1 (fp'\<lparr>fptr := fptr fp + ucast (512 * cc)\<rparr>) xs"
      by (rule pointer_after [OF ok _ _ pn, of "unat cc"]) (use K P c cc f fm n le' pn in auto)
    ultimately show ?thesis using wr True ok mv f cc n P unfolding step_writes_def by (auto simp: word_less_nat_alt word_le_nat_alt)
  qed
qed

lemma write_step_writes:
  assumes inv: "read_inv io cont fs d fp xs" and r: "disk_returns io (pdrv fs)" and wm: "writes_many io (pdrv fs) cont"
    and btw: "0 < btw" and l: "unat bw + unat btw \<le> length buff" and le: "unat (fptr fp) + unat btw \<le> 512 * file_sectors fs xs"
    and size: "fptr fp \<le> objsize (fp_obj fp)"
  shows "\<exists>res n fp' fs' d'. write_step io btw buff bw fp fs d = Some (False, res, n, fp', fs', d')
     \<and> (res = FR_DISK_ERR \<or> res = FR_OK \<and> step_writes io cont xs btw buff bw fp fs d n fp' fs' d')"
proof -
  have ok: "file_ok io cont fs d fp xs" and ptr: "pointer_ok fs fp xs" using inv by (simp_all add: read_inv_def)
  have p: "file_place cont fs d (sclust (fp_obj fp)) xs" using ok by (simp add: file_ok_def)
  define K where "K = unat (fptr fp) div 512"
  have b: "0 < unat btw" using btw by (simp add: word_less_nat_alt)
  have K: "K < file_sectors fs xs" using le b unfolding K_def by (simp add: less_mult_imp_div_less mult.commute)
  have P41: "unat (fptr fp) < 2 ^ 41" using pointer_bound(2) [OF ok] ptr le by (auto simp: pointer_ok_def)
  have zero: "fptr fp mod 512 = 0 \<longleftrightarrow> unat (fptr fp) mod 512 = 0" unfolding unat_eq_zero [symmetric] by (simp add: unat_mod)
  show ?thesis
  proof (cases "unat (fptr fp) mod 512 = 0")
    case False
    have P: "unat (fptr fp) = 512 * K + unat (fptr fp) mod 512" by (simp add: K_def)
    note at = inside_sector [OF ptr False]
    have base: "length (fp_buf fp) = 512" "fp_buf fp = sector_data cont d fp (file_sector fs xs K)"
      using ok K at(1) by (auto simp: file_ok_def buffer_ok_def sector_data_def K_def)
    obtain b where "mem_cpy (fp_buf fp) (unat (fptr fp mod 512)) buff (unat bw) (rest_in_sector fp btw) = Some b"
      "step_writes io cont xs btw buff bw fp fs d (rest_in_sector fp btw)
         (fp\<lparr>fp_sect := file_sector fs xs K, fp_buf := b, fp_flag := fp_flag fp OR FA_DIRTY\<rparr>) fs d"
      using put_step [OF same_file_refl [OF ok] K P _ at(2) [folded K_def] _ base(1) disjI1 [OF base(2)] btw l le size refl] at(1) by (auto simp: K_def)
    moreover have "fp\<lparr>fp_sect := file_sector fs xs K, fp_buf := b, fp_flag := fp_flag fp OR FA_DIRTY\<rparr> = fp\<lparr>fp_buf := b, fp_flag := fp_flag fp OR FA_DIRTY\<rparr>" for b
      using at(1) by (cases fp) (simp add: K_def)
    ultimately show ?thesis using False zero by (simp add: write_step_def Let_def)
  next
    case True
    then have P: "unat (fptr fp) = 512 * K" using mult_div_mod_eq [of 512 "unat (fptr fp)"] by (simp add: K_def)
    obtain j where j: "j < 16" "csize fs = 2 ^ j" using file_placeD(3) [OF p] by blast
    define cse where "cse = ((ucast (fptr fp div 512) :: u32) AND (ucast (csize fs) - 1))"
    have cse: "cse = of_nat (K mod unat (csize fs))" unfolding cse_def by (rule csect_word32 [OF j(2,1) P41 K_def])
    obtain res s fp1 fs1 d1 where ws: "write_sector io cse fp fs d = Some (False, res, s, fp1, fs1, d1)"
      and res: "res = FR_DISK_ERR \<or> res = FR_OK \<and> s = file_sector fs xs K \<and> same_file io cont xs fp fs d fp1 fs1 d1
         \<and> fp_clust fp1 = xs ! (K div unat (csize fs)) \<and> fp_flag fp1 AND FA_DIRTY = 0"
      using write_sector_place [OF ok r ptr P K cse] by blast
    show ?thesis
    proof (cases "res = FR_OK")
      case False
      then show ?thesis using ws res True zero by (simp add: write_step_def Let_def cse_def)
    next
      case fine: True
      then have s: "s = file_sector fs xs K" and sf: "same_file io cont xs fp fs d fp1 fs1 d1" and c: "fp_clust fp1 = xs ! (K div unat (csize fs))"
        and clean: "fp_flag fp1 AND FA_DIRTY = 0" using res by auto
      have m: "moved fs fs1" and ok1: "file_ok io cont fs1 d1 fp1 xs" and f1: "fptr fp1 = fptr fp" "fp_obj fp1 = fp_obj fp" using sf by (auto simp: same_file_def)
      note mv = file_sector_moved [OF m] moved_fields(1,10) [OF m]
      show ?thesis
      proof (cases "btw div 512 > 0")
        case whole: True
        define cc where "cc = clip_sectors cse (btw div 512) fs1"
        have cc: "0 < unat cc" "K mod unat (csize fs) + unat cc \<le> unat (csize fs)" "512 * unat cc \<le> unat btw"
          using clip_whole [OF j(2,1) cse whole] unfolding cc_def clip_moved [OF m] by simp_all
        obtain res2 fp2 d2 where "write_direct io cc (file_sector fs xs K) buff (unat bw) fp1 fs1 d1 = Some (res2, fp2, d2)"
          "res2 = FR_DISK_ERR \<or> res2 = FR_OK \<and> step_writes io cont xs btw buff bw fp fs d (512 * cc) fp2 fs1 d2"
          using step_write_direct [OF sf wm clean P K c cc l le size] by blast
        then show ?thesis using ws fine True zero s whole by (auto simp: write_step_def Let_def cse_def cc_def)
      next
        case False
        have K1: "K < file_sectors fs1 xs" and r1: "disk_returns io (pdrv fs1)" using K mv r by simp_all
        consider base d2 where "write_cached io (file_sector fs xs K) fp1 fs1 d1 = Some (FR_OK, fp1\<lparr>fp_buf := base, fp_sect := file_sector fs xs K\<rparr>, d2)"
            "cont d2 = cont d1" "length base = 512" "base = cont d1 (file_sector fs xs K) \<or> objsize (fp_obj fp) \<le> fptr fp"
          | fp2 d2 where "write_cached io (file_sector fs xs K) fp1 fs1 d1 = Some (FR_DISK_ERR, fp2, d2)"
          using write_cached_base [OF ok1 r1 K1 clean] mv(1) f1 by metis
        then show ?thesis
        proof cases
          case 1
          note fc = file_ok_cont [OF ok1 1(2)]
          have sf2: "same_file io cont xs fp fs d fp1 fs1 d2" using sf fc by (simp add: same_file_def)
          have base: "base = sector_data cont d2 fp1 (file_sector fs xs K) \<or> 0 = 0 \<and> objsize (fp_obj fp) \<le> fptr fp"
            using 1 clean by (auto simp: sector_data_def)
          have P0: "unat (fptr fp) = 512 * K + 0" using P by simp
          let ?fp = "fp1\<lparr>fp_buf := base, fp_sect := file_sector fs xs K\<rparr>"
          have n: "rest_in_sector ?fp btw = rest_in_sector fp btw" by (simp add: rest_in_sector_def f1)
          obtain b where "mem_cpy base (unat (fptr fp mod 512)) buff (unat bw) (rest_in_sector fp btw) = Some b"
            "step_writes io cont xs btw buff bw fp fs d (rest_in_sector fp btw)
               (fp1\<lparr>fp_sect := file_sector fs xs K, fp_buf := b, fp_flag := fp_flag fp1 OR FA_DIRTY\<rparr>) fs1 d2"
            using put_step [OF sf2 K P0 _ c _ 1(3) base btw l le size refl] clean by auto
          then show ?thesis using ws fine True zero s False 1(1) n f1 by (simp add: write_step_def Let_def cse_def)
        next
          case 2
          then show ?thesis using ws fine True zero s False by (simp add: write_step_def Let_def cse_def)
        qed
      qed
    qed
  qed
qed


section \<open>Writing\<close>

lemma unat_advance:
  assumes "unat (fptr fp + ucast n) = unat (fptr fp) + unat n"
  shows "unat (objsize (fp_obj (advance n fp))) = max (unat (objsize (fp_obj fp))) (unat (fptr fp) + unat n)"
  using assms by (simp add: advance_def Let_def word_less_nat_alt max_def)

lemma step_writes_inv:
  assumes s: "step_writes io cont xs btw buff bw fp fs d n fp1 fs1 d1" and ok: "file_ok io cont fs d fp xs"
    and le: "unat (fptr fp) + unat btw \<le> 512 * file_sectors fs xs"
  shows "read_inv io cont fs1 d1 (advance n fp1) xs" "unat (fptr fp + ucast n) = unat (fptr fp) + unat n"
    "contents cont fs1 d1 (advance n fp1) xs = over (unat (fptr fp)) (take (unat n) (drop (unat bw) buff)) (contents cont fs d fp xs)"
    "fptr (advance n fp1) = fptr fp + ucast n" "fptr (advance n fp1) \<le> objsize (fp_obj (advance n fp1))"
proof -
  have mv: "moved fs fs1" and ok1: "file_ok io cont fs1 d1 fp1 xs" and ptr: "pointer_ok fs1 (fp1\<lparr>fptr := fptr fp + ucast n\<rparr>) xs"
    and f: "fp_obj fp1 = fp_obj fp" "fptr fp1 = fptr fp" and n: "n \<le> btw"
    and data: "take (max (unat (objsize (fp_obj fp))) (unat (fptr fp) + unat n)) (file_data cont fs1 d1 fp1 xs)
        = over (unat (fptr fp)) (take (unat n) (drop (unat bw) buff)) (contents cont fs d fp xs)"
    using s by (simp_all add: step_writes_def)
  note fm = file_sector_moved [OF mv]
  have nl: "unat n \<le> unat btw" using n by (simp add: word_le_nat_alt)
  show pn: "unat (fptr fp + ucast n) = unat (fptr fp) + unat n"
    using pointer_bound(1) [OF ok, of "fptr fp" n] le nl by simp
  then have size: "unat (objsize (fp_obj (advance n fp1))) = max (unat (objsize (fp_obj fp))) (unat (fptr fp) + unat n)"
    using unat_advance [of fp1 n] f by simp
  show fp: "fptr (advance n fp1) = fptr fp + ucast n" using f by (simp add: advance_def Let_def)
  show "fptr (advance n fp1) \<le> objsize (fp_obj (advance n fp1))" by (auto simp: advance_def Let_def not_less)
  have same: "file_data cont fs1 d1 (advance n fp1) xs = file_data cont fs1 d1 fp1 xs"
    by (simp add: file_data_def sector_data_def advance_def Let_def cong: map_cong if_cong)
  show "contents cont fs1 d1 (advance n fp1) xs = over (unat (fptr fp)) (take (unat n) (drop (unat bw) buff)) (contents cont fs d fp xs)"
    unfolding contents_def [of cont fs1] size same by (rule data)
  have "unat (objsize (fp_obj (advance n fp1))) \<le> 512 * file_sectors fs1 xs"
    unfolding size using ok1 f le nl fm by (simp add: file_ok_def)
  moreover have "cltbl (advance n fp1) = cltbl fp1" "sclust (fp_obj (advance n fp1)) = sclust (fp_obj fp1)" "fp_flag (advance n fp1) = fp_flag fp1"
    "fp_buf (advance n fp1) = fp_buf fp1" "fp_sect (advance n fp1) = fp_sect fp1" "fp_clust (advance n fp1) = fp_clust fp1"
    by (simp_all add: advance_def Let_def)
  ultimately show "read_inv io cont fs1 d1 (advance n fp1) xs"
    using ok1 ptr fp by (simp add: read_inv_def file_ok_def buffer_ok_def pointer_ok_def)
qed

lemma length_contents: "file_ok io cont fs d fp xs \<Longrightarrow> length (contents cont fs d fp xs) = unat (objsize (fp_obj fp))"
  using length_file_data [of io cont fs d fp xs] by (simp add: contents_def file_ok_def)

lemma write_loop_writes:
  assumes "read_inv io cont fs d fp xs" and "disk_returns io (pdrv fs)" and "writes_many io (pdrv fs) cont"
    and "unat bw + unat btw \<le> length buff" and "unat bw + unat btw < 2 ^ 32" and "unat (fptr fp) + unat btw \<le> 512 * file_sectors fs xs"
    and "fptr fp \<le> objsize (fp_obj fp)"
  shows "\<exists>res bw' fp' fs' d'. write_loop io btw buff bw fp fs d = Some (res, bw', fp', fs', d')
     \<and> (res = FR_DISK_ERR \<or> res = FR_OK \<and> bw' = bw + btw \<and> read_inv io cont fs' d' fp' xs
        \<and> contents cont fs' d' fp' xs = over (unat (fptr fp)) (take (unat btw) (drop (unat bw) buff)) (contents cont fs d fp xs)
        \<and> fptr fp' = fptr fp + ucast btw)"
  using assms
proof (induction "unat btw" arbitrary: btw bw fp fs d rule: less_induct)
  case less
  have ok: "file_ok io cont fs d fp xs" using less.prems(1) by (simp add: read_inv_def)
  show ?case
  proof (cases "btw = 0")
    case True
    then show ?thesis using less.prems(1) by (simp add: write_loop.simps over_Nil)
  next
    case False
    then have pos: "0 < btw" by (simp add: word_gt_0)
    obtain res n fp1 fs1 d1 where st: "write_step io btw buff bw fp fs d = Some (False, res, n, fp1, fs1, d1)"
      and res: "res = FR_DISK_ERR \<or> res = FR_OK \<and> step_writes io cont xs btw buff bw fp fs d n fp1 fs1 d1"
      using write_step_writes [OF less.prems(1-3) pos less.prems(4,6,7)] by blast
    show ?thesis
    proof (cases "res = FR_OK")
      case False
      then show ?thesis using st res \<open>btw \<noteq> 0\<close> by (simp add: write_loop.simps)
    next
      case True
      then have sw: "step_writes io cont xs btw buff bw fp fs d n fp1 fs1 d1" using res by auto
      note si = step_writes_inv [OF sw ok less.prems(6)]
      have n: "0 < n" "n \<le> btw" and m: "moved fs fs1" using sw by (simp_all add: step_writes_def)
      note mv = file_sector_moved [OF m] moved_fields(1) [OF m]
      have un: "unat (btw - n) = unat btw - unat n" "unat n \<le> unat btw" "0 < unat n"
        using n by (simp_all add: unat_sub word_le_nat_alt word_less_nat_alt)
      have ub: "unat (bw + n) = unat bw + unat n" using less.prems(5) un by (simp add: unat_word_ariths)
      have lt: "unat (btw - n) < unat btw" using un by simp
      obtain res2 bw2 fp2 fs2 d2 where lp: "write_loop io (btw - n) buff (bw + n) (advance n fp1) fs1 d1 = Some (res2, bw2, fp2, fs2, d2)"
        and res2: "res2 = FR_DISK_ERR \<or> res2 = FR_OK \<and> bw2 = bw + n + (btw - n) \<and> read_inv io cont fs2 d2 fp2 xs
          \<and> contents cont fs2 d2 fp2 xs = over (unat (fptr fp + ucast n)) (take (unat (btw - n)) (drop (unat (bw + n)) buff)) (contents cont fs1 d1 (advance n fp1) xs)
          \<and> fptr fp2 = fptr fp + ucast n + ucast (btw - n)"
        using less.hyps [OF lt si(1), of "bw + n"] less.prems(2-6) mv ub un si(2,4,5) by auto
      have loop: "write_loop io btw buff bw fp fs d = Some (res2, bw2, fp2, fs2, d2)"
        using st True \<open>btw \<noteq> 0\<close> lp by (simp add: write_loop.simps [of io btw])
      show ?thesis
      proof (cases "res2 = FR_OK")
        case False
        then show ?thesis using loop res2 by blast
      next
        case fine: True
        let ?v = "take (unat n) (drop (unat bw) buff)" and ?w = "take (unat btw - unat n) (drop (unat bw + unat n) buff)"
        have lv: "length ?v = unat n" using less.prems(4) un by simp
        have vw: "?v @ ?w = take (unat btw) (drop (unat bw) buff)"
        proof -
          have "take (unat n + (unat btw - unat n)) (drop (unat bw) buff) = ?v @ ?w" by (simp only: take_add drop_drop add.commute [of "unat n" "unat bw"])
          then show ?thesis using un by simp
        qed
        have "unat (fptr fp) \<le> length (contents cont fs d fp xs)" using length_contents [OF ok] less.prems(7) by (simp add: word_le_nat_alt)
        from over_over [OF this, of ?v ?w]
        have "contents cont fs2 d2 fp2 xs = over (unat (fptr fp)) (take (unat btw) (drop (unat bw) buff)) (contents cont fs d fp xs)"
          using res2 fine si(2,3) un ub lv vw by simp
        moreover have "ucast n + ucast (btw - n) = (ucast btw :: u64)" by (rule ucast_split [OF n(2)])
        ultimately show ?thesis using loop res2 fine by (auto simp: add.assoc)
      qed
    qed
  qed
qed

section \<open>The property\<close>

text \<open>
  C28. \<open>f_write\<close> on an open file of a FAT volume, within the clusters the file has, always returns, and
  but for a report of an error of the disk it writes all octets: the contents of the file, those of its
  buffer included, are what they were with the new octets in the place of the old ones from the file
  pointer on, and longer where the new ones go beyond the end. The pointer is behind them, and the file
  is one to read from and to write to again.
\<close>

theorem f_write_writes_file:
  assumes "read_inv io cont (objects st (obj_fs (fp_obj fp))) d fp xs"
    and "disk_returns io (pdrv (objects st (obj_fs (fp_obj fp))))" and "writes_many io (pdrv (objects st (obj_fs (fp_obj fp)))) cont"
    and "status_kept io (pdrv (objects st (obj_fs (fp_obj fp)))) cont"
    and "obj_fs (fp_obj fp) \<noteq> 0" and "obj_id (fp_obj fp) = fs_id (objects st (obj_fs (fp_obj fp)))"
    and "fp_err fp = FR_OK" and "fp_flag fp AND FA_WRITE \<noteq> 0" and "fptr fp \<le> objsize (fp_obj fp)" and "unat btw \<le> length buff"
    and "unat (fptr fp) + unat btw \<le> 512 * file_sectors (objects st (obj_fs (fp_obj fp))) xs" and "unat (fptr fp) + unat btw < 2 ^ 32"
  shows "\<exists>res bw fp' st' d'. f_write io buff btw fp st d = Some (res, bw, fp', st', d')
     \<and> (res = FR_DISK_ERR \<or> res = FR_INVALID_OBJECT \<or> res = FR_OK \<and> bw = btw \<and> fptr fp' = fptr fp + ucast btw
        \<and> read_inv io cont (objects st' (obj_fs (fp_obj fp))) d' fp' xs
        \<and> contents cont (objects st' (obj_fs (fp_obj fp))) d' fp' xs
          = over (unat (fptr fp)) (take (unat btw) buff) (contents cont (objects st (obj_fs (fp_obj fp))) d fp xs))"
proof -
  let ?fs = "objects st (obj_fs (fp_obj fp))"
  have ok: "file_ok io cont ?fs d fp xs" using assms(1) by (simp add: read_inv_def)
  obtain s d1 where v: "validate io (Some (fp_obj fp)) st d =
      Some (if (ucast (s :: u8) :: u32) AND STA_NOINIT = 0 then (FR_OK, obj_fs (fp_obj fp), d1) else (FR_INVALID_OBJECT, 0, d1))" and c: "cont d1 = cont d"
    using validate_open [OF ok assms(4,5,6)] by blast
  show ?thesis
  proof (cases "(ucast (s :: u8) :: u32) AND STA_NOINIT = 0")
    case False
    then show ?thesis using v by (simp add: f_write_def)
  next
    case True
    have inv: "read_inv io cont ?fs d1 fp xs" and same: "contents cont ?fs d1 fp xs = contents cont ?fs d fp xs"
      using read_inv_cont [where cont = cont, OF assms(1) c] file_ok_cont(2) [where cont = cont, OF ok c] by (simp_all add: contents_def)
    have wrap: "\<not> (ucast (fptr fp + ucast btw) :: u32) < ucast (fptr fp)"
    proof -
      have "unat (ucast (fptr fp) :: u32) = unat (fptr fp)" using assms(12) by (simp add: unsigned_ucast_eq take_bit_nat_eq_self)
      moreover have "unat (ucast (fptr fp + ucast btw) :: u32) = unat (fptr fp) + unat btw"
        using assms(12) by (simp add: unsigned_ucast_eq take_bit_nat_eq_self unat_word_ariths unat_ucast_64)
      ultimately show ?thesis by (simp add: word_less_nat_alt)
    qed
    have lb: "unat (0 :: u32) + unat btw \<le> length buff" "unat (0 :: u32) + unat btw < 2 ^ 32" using assms(10,12) by simp_all
    obtain res bw fp' fs' d' where lp: "write_loop io btw buff 0 fp ?fs d1 = Some (res, bw, fp', fs', d')"
      and res: "res = FR_DISK_ERR \<or> res = FR_OK \<and> bw = btw \<and> read_inv io cont fs' d' fp' xs
        \<and> contents cont fs' d' fp' xs = over (unat (fptr fp)) (take (unat btw) buff) (contents cont ?fs d fp xs) \<and> fptr fp' = fptr fp + ucast btw"
      using write_loop_writes [OF inv assms(2,3) lb assms(11,9)] same by auto
    have fw: "f_write io buff btw fp st d = Some (res, bw, if res = FR_OK then fp'\<lparr>fp_flag := fp_flag fp' OR FA_MODIFIED\<rparr> else fp', set_fs (obj_fs (fp_obj fp)) fs' st, d')"
      using v True assms(7,8) lp wrap by (simp add: f_write_def Let_def)
    have flag: "(f OR FA_MODIFIED) AND FA_DIRTY = f AND FA_DIRTY" for f
      by (simp add: FA_MODIFIED_def FA_DIRTY_def bit.conj_disj_distrib2)
    have "read_inv io cont fs' d' (fp'\<lparr>fp_flag := fp_flag fp' OR FA_MODIFIED\<rparr>) xs = read_inv io cont fs' d' fp' xs"
      "contents cont fs' d' (fp'\<lparr>fp_flag := fp_flag fp' OR FA_MODIFIED\<rparr>) xs = contents cont fs' d' fp' xs"
      by (simp_all add: read_inv_def file_ok_def buffer_ok_def pointer_ok_def contents_def file_data_def sector_data_def flag cong: map_cong if_cong)
    then show ?thesis using fw res by (auto simp: set_fs_def)
  qed
qed


lemma many_writes: "writes_many many_io p ram_sectors"
proof -
  have "ram_sectors (\<lambda>t. if unat (t - s) < unat n then take 512 (drop (512 * unat (t - s)) w) else d t) (s + of_nat i) = take 512 (drop (512 * i) w)"
    if "512 * unat n \<le> length w" "i < unat n" for w :: "u8 list" and s d and n :: u32 and i
  proof -
    have "unat (of_nat i :: u64) = i" using that(2) unsigned_less [of n, where ?'a = nat] by (simp add: unat_of_nat take_bit_nat_eq_self)
    moreover have "length (take 512 (drop (512 * i) w)) = 512" using that by simp
    ultimately show ?thesis using that(2) by (simp add: ram_sectors_def)
  qed
  moreover have "ram_sectors (\<lambda>t. if unat (t - s) < unat n then f t else d t) t = ram_sectors d t"
    if "\<forall>i < unat n. t \<noteq> s + of_nat i" for s t d f and n :: u32
  proof -
    have "\<not> unat (t - s) < unat n" using that [rule_format, of "unat (t - s)"] by auto
    then show ?thesis by (simp add: ram_sectors_def)
  qed
  ultimately show ?thesis by (simp add: writes_many_def many_io_def)
qed

lemma f_write_writes_file_witness:
  "\<exists>res bw fp' st' d'. f_write many_io (replicate 20 1) 20 pair_file pair_static pair_disk = Some (res, bw, fp', st', d')
     \<and> (res = FR_DISK_ERR \<or> res = FR_INVALID_OBJECT \<or> res = FR_OK \<and> bw = 20
        \<and> contents ram_sectors (objects st' 1) d' fp' [2, 4] = replicate 500 7 @ replicate 20 1 @ replicate 80 9)"
proof -
  have o: "objects pair_static (obj_fs (fp_obj pair_file)) = example_fs" by (simp add: pair_static_def)
  have f: "obj_fs (fp_obj pair_file) \<noteq> 0" "obj_id (fp_obj pair_file) = fs_id example_fs" "fp_err pair_file = FR_OK"
    "fp_flag pair_file AND FA_WRITE \<noteq> 0" "fptr pair_file \<le> objsize (fp_obj pair_file)" "unat (20 :: u32) \<le> length (replicate 20 (1 :: u8))"
    "unat (fptr pair_file) + unat (20 :: u32) \<le> 512 * file_sectors example_fs [2, 4]" "unat (fptr pair_file) + unat (20 :: u32) < 2 ^ 32"
    "unat (fptr pair_file) = 500" "unat (objsize (fp_obj pair_file)) = 600" "obj_fs (fp_obj pair_file) = 1"
    unfolding pair_sectors by (simp_all add: pair_file_def example_fs_def FA_READ_def FA_WRITE_def FA_DIRTY_def)
  have "over 500 (replicate 20 1) (take 600 (replicate 512 7 @ replicate 512 (9 :: u8))) = replicate 500 7 @ replicate 20 1 @ replicate 80 9"
    by (simp add: over_def)
  then show ?thesis
    using f_write_writes_file [of many_io ram_sectors pair_static pair_file pair_disk "[2, 4]" 20 "replicate 20 1", unfolded o,
      OF pair_inv many_disk(2) many_writes many_disk(4) f(1-8)] f(9-11) pair_data by (auto simp: contents_def)
qed

end
