(* ===== verification/Ff_Mkfs.thy ===== *)
theory Ff_Mkfs
  imports Ff_Mount Ff_Lfn
begin

text \<open>
  Making a volume, from \<open>ff.c\<close>: \<open>make_rand\<close>, \<open>create_partition\<close> and \<open>f_mkfs\<close>. The working buffer is a list
  of octets; the number of its sectors is an argument of its own. The configuration has sectors of 512
  octets, one partition for each drive, no TRIM command and sectors numbered in 64 bits.

  The loops that write a row of sectors count down what is left, and end when the buffer has room for
  at least one sector; they are partial functions, as is the compression of the upper case table.
\<close>

section \<open>Constants\<close>

definition N_SEC_TRACK :: u32 where "N_SEC_TRACK = 63"
definition GPT_ALIGN :: u32 where "GPT_ALIGN = 0x100000"
definition GPT_ITEMS :: u32 where "GPT_ITEMS = 128"
definition FF_MIN_GPT :: u64 where "FF_MIN_GPT = 0x10000000"
definition FM_FAT :: u8 where "FM_FAT = 0x01"
definition FM_FAT32 :: u8 where "FM_FAT32 = 0x02"
definition FM_EXFAT :: u8 where "FM_EXFAT = 0x04"
definition FM_ANY :: u8 where "FM_ANY = 0x07"
definition FM_SFD :: u8 where "FM_SFD = 0x08"
definition BPB_Media :: nat where "BPB_Media = 21"
definition BPB_SecPerTrk :: nat where "BPB_SecPerTrk = 24"
definition BPB_NumHeads :: nat where "BPB_NumHeads = 26"
definition BPB_HiddSec :: nat where "BPB_HiddSec = 28"
definition BS_DrvNum :: nat where "BS_DrvNum = 36"
definition BS_BootSig :: nat where "BS_BootSig = 38"
definition BS_VolID :: nat where "BS_VolID = 39"
definition BS_VolLab :: nat where "BS_VolLab = 43"
definition BPB_BkBootSec32 :: nat where "BPB_BkBootSec32 = 50"
definition BS_DrvNum32 :: nat where "BS_DrvNum32 = 64"
definition BS_BootSig32 :: nat where "BS_BootSig32 = 66"
definition BS_VolID32 :: nat where "BS_VolID32 = 67"
definition BS_VolLab32 :: nat where "BS_VolLab32 = 71"
definition BPB_VolOfsEx :: nat where "BPB_VolOfsEx = 64"
definition BPB_VolIDEx :: nat where "BPB_VolIDEx = 100"
definition BPB_VolFlagEx :: nat where "BPB_VolFlagEx = 106"
definition BPB_DrvNumEx :: nat where "BPB_DrvNumEx = 111"
definition BPB_PercInUseEx :: nat where "BPB_PercInUseEx = 112"
definition BS_BootCodeEx :: nat where "BS_BootCodeEx = 120"
definition PTE_StHead :: nat where "PTE_StHead = 1"
definition PTE_StSec :: nat where "PTE_StSec = 2"
definition PTE_StCyl :: nat where "PTE_StCyl = 3"
definition PTE_EdHead :: nat where "PTE_EdHead = 5"
definition PTE_EdSec :: nat where "PTE_EdSec = 6"
definition PTE_EdCyl :: nat where "PTE_EdCyl = 7"
definition PTE_SizLba :: nat where "PTE_SizLba = 12"
definition GPTH_CurLba :: nat where "GPTH_CurLba = 24"
definition GPTH_BakLba :: nat where "GPTH_BakLba = 32"
definition GPTH_FstLba :: nat where "GPTH_FstLba = 40"
definition GPTH_LstLba :: nat where "GPTH_LstLba = 48"
definition GPTH_DskGuid :: nat where "GPTH_DskGuid = 56"
definition GPTH_PtBcc :: nat where "GPTH_PtBcc = 88"
definition GPTE_UpGuid :: nat where "GPTE_UpGuid = 16"
definition GPTE_LstLba :: nat where "GPTE_LstLba = 40"
definition ET_VLABEL :: u8 where "ET_VLABEL = 0x83"
definition ET_UPCASE :: u8 where "ET_UPCASE = 0x82"

text \<open>The options of a format, and those used when none are given.\<close>

record mkfs_parm =
  mk_fmt :: u8
  mk_n_fat :: u8
  mk_align :: u32
  mk_n_root :: u32
  mk_au_size :: u32

definition defopt :: mkfs_parm where
  "defopt = \<lparr>mk_fmt = FM_ANY, mk_n_fat = 0, mk_align = 0, mk_n_root = 0, mk_au_size = 0\<rparr>"

section \<open>Partitions\<close>

text \<open>Eight steps of a shift register for each octet of the pseudo random numbers; a count of zero is one of \<open>2^32\<close>.\<close>

definition rand_bit :: "u32 \<Rightarrow> u32" where
  "rand_bit seed = (if seed AND 1 \<noteq> 0 then drop_bit 1 seed XOR 0xA3000000 else drop_bit 1 seed)"

fun rand_octets :: "u32 \<Rightarrow> u8 list \<Rightarrow> nat \<Rightarrow> nat \<Rightarrow> (u32 \<times> u8 list) option" where
  "rand_octets seed buf p 0 = Some (seed, buf)"
| "rand_octets seed buf p (Suc n) = do {
     let seed = (rand_bit ^^ 8) seed;
     buf \<leftarrow> wr buf p (ucast seed);
     rand_octets seed buf (p + 1) n }"

definition make_rand :: "u32 \<Rightarrow> u8 list \<Rightarrow> nat \<Rightarrow> u32 \<Rightarrow> (u32 \<times> u8 list) option" where
  "make_rand seed buf p n = rand_octets (if seed = 0 then 1 else seed) buf p (if n = 0 then 2 ^ 32 else unat n)"

definition crc_octets :: "u8 list \<Rightarrow> nat \<Rightarrow> u32 \<Rightarrow> u32 option" where
  "crc_octets buf n bcc = (if n \<le> length buf then Some (foldl crc32 bcc (take n buf)) else None)"

definition align_lba :: "u64 \<Rightarrow> u64" where
  "align_lba s = (let align = ucast (GPT_ALIGN div 512) in (s + align - 1) AND (0 - align))"

text \<open>The place of the next partition of the list of sizes, while the last size was not zero.\<close>

definition gpt_place :: "u64 list \<Rightarrow> u64 \<Rightarrow> u64 \<Rightarrow> nat \<Rightarrow> u64 \<Rightarrow> u64 \<Rightarrow> (nat \<times> u64 \<times> u64) option" where
  "gpt_place plst s_bpt sz_pool si s n =
     (if n \<noteq> 0 then do {
        let s = align_lba s;
        n \<leftarrow> rd plst si;
        let n = (if n \<le> 100 then align_lba (sz_pool * n div 100) else n);
        Some (si + 1, s, if s_bpt < s + n then (if s < s_bpt then s_bpt - s else 0) else n) }
      else Some (si, s, n))"

definition gpt_entry :: "u8 list \<Rightarrow> nat \<Rightarrow> u64 \<Rightarrow> u64 \<Rightarrow> u32 \<Rightarrow> (u8 list \<times> u32 \<times> u64) option" where
  "gpt_entry buf ofs s n rnd =
     (if n \<noteq> 0 then do {
        buf \<leftarrow> mem_cpy buf (ofs + GPTE_PtGuid) GUID_MS_Basic 0 16;
        (rnd, buf) \<leftarrow> make_rand rnd buf (ofs + GPTE_UpGuid) 16;
        buf \<leftarrow> st_qword buf (ofs + GPTE_FstLba) s;
        buf \<leftarrow> st_qword buf (ofs + GPTE_LstLba) (s + n - 1);
        Some (buf, rnd, s + n) }
      else Some (buf, rnd, s))"

text \<open>Writing from the working buffer: whether it went well.\<close>

definition wsect :: "'d disk_io \<Rightarrow> u8 \<Rightarrow> u8 list \<Rightarrow> u64 \<Rightarrow> u32 \<Rightarrow> 'd \<Rightarrow> (bool \<times> 'd) option" where
  "wsect io drv buf sect n d = do { (r, d) \<leftarrow> dwrite io drv buf sect n d; Some (r = RES_OK, d) }"

definition gpt_flush :: "'d disk_io \<Rightarrow> u8 \<Rightarrow> u64 \<Rightarrow> u32 \<Rightarrow> u8 list \<Rightarrow> u32 \<Rightarrow> 'd \<Rightarrow> (bool \<times> u32 \<times> 'd) option" where
  "gpt_flush io drv s_bpt pi_no buf bcc d =
     (if (pi_no + 1) * SZ_GPTE mod 512 = 0 then do {
        bcc \<leftarrow> crc_octets buf 512 bcc;
        (ok, d) \<leftarrow> wsect io drv buf (ucast (2 + pi_no * SZ_GPTE div 512)) 1 d;
        if \<not> ok then Some (False, bcc, d) else do {
        (ok, d) \<leftarrow> wsect io drv buf (s_bpt + ucast (pi_no * SZ_GPTE div 512)) 1 d;
        Some (ok, bcc, d) } }
      else Some (True, bcc, d))"

fun gpt_table ::
  "'d disk_io \<Rightarrow> u8 \<Rightarrow> u64 list \<Rightarrow> u64 \<Rightarrow> u64 \<Rightarrow> u32 list \<Rightarrow> nat \<Rightarrow> u64 \<Rightarrow> u64 \<Rightarrow> u32 \<Rightarrow> u32 \<Rightarrow> u8 list \<Rightarrow> 'd
     \<Rightarrow> (bool \<times> u32 \<times> u32 \<times> u8 list \<times> 'd) option" where
  "gpt_table io drv plst s_bpt sz_pool [] si s n bcc rnd buf d = Some (True, bcc, rnd, buf, d)"
| "gpt_table io drv plst s_bpt sz_pool (pi_no # pis) si s n bcc rnd buf d = do {
     buf \<leftarrow> (if pi_no * SZ_GPTE mod 512 = 0 then mem_set buf 0 0 512 else Some buf);
     (si, s, n) \<leftarrow> gpt_place plst s_bpt sz_pool si s n;
     (buf, rnd, s) \<leftarrow> gpt_entry buf (unat (pi_no * SZ_GPTE mod 512)) s n rnd;
     (ok, bcc, d) \<leftarrow> gpt_flush io drv s_bpt pi_no buf bcc d;
     if \<not> ok then Some (False, bcc, rnd, buf, d)
     else gpt_table io drv plst s_bpt sz_pool pis si s n bcc rnd buf d }"

definition gpt_header :: "u64 \<Rightarrow> u64 \<Rightarrow> u32 \<Rightarrow> u32 \<Rightarrow> u32 \<Rightarrow> u8 list \<Rightarrow> u8 list option" where
  "gpt_header sz_drv s_bpt sz_pt bcc rnd buf = do {
     buf \<leftarrow> mem_set buf 0 0 512;
     buf \<leftarrow> mem_cpy buf 0 gpt_text 0 16;
     buf \<leftarrow> st_dword buf GPTH_PtBcc (NOT bcc);
     buf \<leftarrow> st_qword buf GPTH_CurLba 1;
     buf \<leftarrow> st_qword buf GPTH_BakLba (sz_drv - 1);
     buf \<leftarrow> st_qword buf GPTH_FstLba (ucast (2 + sz_pt));
     buf \<leftarrow> st_qword buf GPTH_LstLba (s_bpt - 1);
     buf \<leftarrow> st_dword buf GPTH_PteSize SZ_GPTE;
     buf \<leftarrow> st_dword buf GPTH_PtNum GPT_ITEMS;
     buf \<leftarrow> st_dword buf GPTH_PtOfs 2;
     (rnd, buf) \<leftarrow> make_rand rnd buf GPTH_DskGuid 16;
     bcc \<leftarrow> crc_octets buf 92 0xFFFFFFFF;
     st_dword buf GPTH_Bcc (NOT bcc) }"

definition gpt_backup_header :: "u64 \<Rightarrow> u64 \<Rightarrow> u8 list \<Rightarrow> u8 list option" where
  "gpt_backup_header sz_drv s_bpt buf = do {
     buf \<leftarrow> st_qword buf GPTH_CurLba (sz_drv - 1);
     buf \<leftarrow> st_qword buf GPTH_BakLba 1;
     buf \<leftarrow> st_qword buf GPTH_PtOfs s_bpt;
     buf \<leftarrow> st_dword buf GPTH_Bcc 0;
     bcc \<leftarrow> crc_octets buf 92 0xFFFFFFFF;
     st_dword buf GPTH_Bcc (NOT bcc) }"

definition gpt_mbr :: "u8 list" where
  "gpt_mbr = [0x00, 0x00, 0x02, 0x00, 0xEE, 0xFE, 0xFF, 0x00, 0x01, 0x00, 0x00, 0x00, 0xFF, 0xFF, 0xFF, 0xFF]"

definition create_gpt :: "'d disk_io \<Rightarrow> u8 \<Rightarrow> u64 list \<Rightarrow> u64 \<Rightarrow> u8 list \<Rightarrow> 'd \<Rightarrow> (fresult \<times> u8 list \<times> 'd) option" where
  "create_gpt io drv plst sz_drv buf d = do {
     let sz_pt = GPT_ITEMS * SZ_GPTE div 512;
     let s_bpt = sz_drv - ucast sz_pt - 1;
     let s = (ucast (2 + sz_pt) :: u64);
     (ok, bcc, rnd, buf, d) \<leftarrow> gpt_table io drv plst s_bpt (s_bpt - s) (map of_nat [0..<unat GPT_ITEMS]) 0 s 1 0xFFFFFFFF (fattime io d) buf d;
     if \<not> ok then Some (FR_DISK_ERR, buf, d) else do {
     buf \<leftarrow> gpt_header sz_drv s_bpt sz_pt bcc rnd buf;
     (ok, d) \<leftarrow> wsect io drv buf 1 1 d;
     if \<not> ok then Some (FR_DISK_ERR, buf, d) else do {
     buf \<leftarrow> gpt_backup_header sz_drv s_bpt buf;
     (ok, d) \<leftarrow> wsect io drv buf (sz_drv - 1) 1 d;
     if \<not> ok then Some (FR_DISK_ERR, buf, d) else do {
     buf \<leftarrow> mem_set buf 0 0 512;
     buf \<leftarrow> mem_cpy buf MBR_Table gpt_mbr 0 16;
     buf \<leftarrow> st_word buf BS_55AA 0xAA55;
     (ok, d) \<leftarrow> wsect io drv buf 0 1 d;
     Some (if ok then FR_OK else FR_DISK_ERR, buf, d) } } } }"

text \<open>The number of heads: the values the loop goes through are eight and its doubles, as long as they fit an octet.\<close>

fun mbr_heads :: "u32 \<Rightarrow> u8 list \<Rightarrow> u8" where
  "mbr_heads sz [] = 255"
| "mbr_heads sz (n_hd # ns) = (if 1024 < sz div ucast n_hd div N_SEC_TRACK then mbr_heads sz ns else n_hd)"

definition st_chs :: "u8 list \<Rightarrow> nat \<Rightarrow> nat \<Rightarrow> nat \<Rightarrow> u8 \<Rightarrow> u32 \<Rightarrow> u8 list option" where
  "st_chs buf head sec cyl n_hd lba = do {
     let cy = lba div N_SEC_TRACK div ucast n_hd;
     let hd = (ucast (lba div N_SEC_TRACK mod ucast n_hd) :: u8);
     let sc = (ucast (lba mod N_SEC_TRACK + 1) :: u8);
     buf \<leftarrow> wr buf head hd;
     buf \<leftarrow> wr buf sec (ucast ((drop_bit 2 cy AND 0xC0) OR ucast sc));
     wr buf cyl (ucast cy) }"

definition mbr_size :: "u32 \<Rightarrow> u32 \<Rightarrow> u32 \<Rightarrow> u32" where
  "mbr_size sz_drv32 s n =
     (let n = (if n \<le> 100 then if n = 100 then sz_drv32 else sz_drv32 div 100 * n else n) in
      if sz_drv32 < s + n \<or> s + n < s then sz_drv32 - s else n)"

fun mbr_entries :: "u64 list \<Rightarrow> u8 \<Rightarrow> u32 \<Rightarrow> u8 \<Rightarrow> nat list \<Rightarrow> u32 \<Rightarrow> nat \<Rightarrow> u8 list \<Rightarrow> u8 list option" where
  "mbr_entries plst sys sz_drv32 n_hd [] s pte buf = Some buf"
| "mbr_entries plst sys sz_drv32 n_hd (i # is) s pte buf =
     (if s \<noteq> 0 \<and> s < sz_drv32 then do {
        size \<leftarrow> rd plst i;
        let n = mbr_size sz_drv32 s (ucast size);
        if n = 0 then Some buf else do {
        buf \<leftarrow> st_dword buf (pte + PTE_StLba) s;
        buf \<leftarrow> st_dword buf (pte + PTE_SizLba) n;
        buf \<leftarrow> wr buf (pte + PTE_System) sys;
        buf \<leftarrow> st_chs buf (pte + PTE_StHead) (pte + PTE_StSec) (pte + PTE_StCyl) n_hd s;
        buf \<leftarrow> st_chs buf (pte + PTE_EdHead) (pte + PTE_EdSec) (pte + PTE_EdCyl) n_hd (s + n - 1);
        mbr_entries plst sys sz_drv32 n_hd is (s + n) (pte + SZ_PTE) buf } }
      else Some buf)"

definition create_mbr :: "'d disk_io \<Rightarrow> u8 \<Rightarrow> u64 list \<Rightarrow> u8 \<Rightarrow> u64 \<Rightarrow> u8 list \<Rightarrow> 'd \<Rightarrow> (fresult \<times> u8 list \<times> 'd) option" where
  "create_mbr io drv plst sys sz_drv buf d = do {
     let sz_drv32 = (ucast sz_drv :: u32);
     let n_hd = mbr_heads sz_drv32 [8, 16, 32, 64, 128];
     buf \<leftarrow> mem_set buf 0 0 512;
     buf \<leftarrow> mbr_entries plst sys sz_drv32 n_hd [0..<4] N_SEC_TRACK MBR_Table buf;
     buf \<leftarrow> st_word buf BS_55AA 0xAA55;
     (ok, d) \<leftarrow> wsect io drv buf 0 1 d;
     Some (if ok then FR_OK else FR_DISK_ERR, buf, d) }"

text \<open>What the drive answers through the pointer is left as it was when it stores nothing.\<close>

definition sector_count :: "'d disk_io \<Rightarrow> u8 \<Rightarrow> u64 \<Rightarrow> 'd \<Rightarrow> (bool \<times> u64 \<times> 'd) option" where
  "sector_count io drv sz d = do {
     ((r, x), d) \<leftarrow> dioctl io drv GET_SECTOR_COUNT d;
     Some (r = RES_OK, case x of None \<Rightarrow> sz | Some n \<Rightarrow> n, d) }"

definition create_partition ::
  "'d disk_io \<Rightarrow> u8 \<Rightarrow> u64 list \<Rightarrow> u8 \<Rightarrow> u64 \<Rightarrow> u8 list \<Rightarrow> 'd \<Rightarrow> (fresult \<times> u8 list \<times> 'd) option" where
  "create_partition io drv plst sys junk buf d = do {
     (ok, sz_drv, d) \<leftarrow> sector_count io drv junk d;
     if \<not> ok then Some (FR_DISK_ERR, buf, d)
     else if FF_MIN_GPT \<le> sz_drv then create_gpt io drv plst sz_drv buf d
     else create_mbr io drv plst sys sz_drv buf d }"


section \<open>Rows of sectors\<close>

partial_function (option) fill_sectors ::
  "'d disk_io \<Rightarrow> u8 \<Rightarrow> u32 \<Rightarrow> bool \<Rightarrow> u8 list \<Rightarrow> u64 \<Rightarrow> u32 \<Rightarrow> 'd \<Rightarrow> (bool \<times> u8 list \<times> u64 \<times> 'd) option" where
  "fill_sectors io drv sz_buf clear buf sect nsect d = do {
     let n = (if sz_buf < nsect then sz_buf else nsect);
     (ok, d) \<leftarrow> wsect io drv buf sect n d;
     if \<not> ok then Some (False, buf, sect, d) else do {
     buf \<leftarrow> (if clear then mem_set buf 0 0 512 else Some buf);
     if nsect - n \<noteq> 0 then fill_sectors io drv sz_buf clear buf (sect + ucast n) (nsect - n) d
     else Some (True, buf, sect + ucast n, d) } }"

text \<open>The logarithm of a power of two, as the code counts it.\<close>

function log2_shifts :: "u32 \<Rightarrow> u8" where
  "log2_shifts i = (if drop_bit 1 i \<noteq> 0 then log2_shifts (drop_bit 1 i) + 1 else 0)"
  by pat_completeness auto
termination
proof (relation "measure unat")
  fix i :: u32 assume "drop_bit 1 i \<noteq> 0"
  then have "unat (drop_bit 1 i) \<noteq> 0" by (simp add: unat_eq_zero)
  then show "(drop_bit 1 i, i) \<in> measure unat" by (simp add: unsigned_drop_bit_eq drop_bit_Suc unat_div)
qed simp

declare log2_shifts.simps [simp del]

section \<open>The place of a volume\<close>

definition mkfs_place :: "'d disk_io \<Rightarrow> u8 \<Rightarrow> u8 \<Rightarrow> 'd \<Rightarrow> (fresult \<times> u8 \<times> u64 \<times> u64 \<times> 'd) option" where
  "mkfs_place io drv fsopt d = do {
     (ok, sz_vol, d) \<leftarrow> sector_count io drv 0 d;
     if \<not> ok then Some (FR_DISK_ERR, fsopt, 0, sz_vol, d) else do {
     let (fsopt, b_vol, sz_vol) =
       (if fsopt AND FM_SFD = 0 then
          if FF_MIN_GPT \<le> sz_vol then
            let b_vol = ucast (GPT_ALIGN div 512) in
            (fsopt OR 0x80, b_vol, sz_vol - (b_vol + ucast (GPT_ITEMS * SZ_GPTE div 512) + 1))
          else if ucast N_SEC_TRACK < sz_vol then (fsopt, ucast N_SEC_TRACK, sz_vol - ucast N_SEC_TRACK)
          else (fsopt, 0, sz_vol)
        else (fsopt, 0, sz_vol));
     Some (if sz_vol < 128 then FR_MKFS_ABORTED else FR_OK, fsopt, b_vol, sz_vol, d) } }"

definition mkfs_type :: "u8 \<Rightarrow> u64 \<Rightarrow> u32 \<Rightarrow> fresult + u8 \<times> u32" where
  "mkfs_type fsopt sz_vol sz_au =
     (if fsopt AND FM_EXFAT \<noteq> 0 \<and> (fsopt AND FM_ANY = FM_EXFAT \<or> 0x4000000 \<le> sz_vol \<or> 128 < sz_au) then Inr (FS_EXFAT, sz_au)
      else if 0x100000000 \<le> sz_vol then Inl FR_MKFS_ABORTED
      else
        let sz_au = (if 128 < sz_au then 128 else sz_au) in
        if fsopt AND FM_FAT32 \<noteq> 0 \<and> fsopt AND FM_FAT = 0 then Inr (FS_FAT32, sz_au)
        else if fsopt AND FM_FAT = 0 then Inl FR_INVALID_PARAMETER
        else Inr (FS_FAT16, sz_au))"

section \<open>FAT volumes\<close>

text \<open>The numbers of a volume in the making: its kind, the sizes in sectors and the base of the table.\<close>

record mkfs_geo =
  ge_fsty :: u8
  ge_pau :: u32
  ge_n_clst :: u32
  ge_sz_fat :: u32
  ge_sz_rsv :: u32
  ge_sz_dir :: u32
  ge_b_fat :: u64

fun auto_au :: "u32 list \<Rightarrow> u32 \<Rightarrow> u32 \<Rightarrow> u32" where
  "auto_au [] n pau = pau"
| "auto_au (c # cs) n pau = (if c \<le> n then auto_au cs n (push_bit 1 pau) else pau)"

definition cst :: "u32 list" where "cst = [1, 4, 16, 64, 256, 512]"
definition cst32 :: "u32 list" where "cst32 = [1, 2, 4, 8, 16, 32]"

definition fat_guess :: "u8 \<Rightarrow> u32 \<Rightarrow> u32 \<Rightarrow> u32 \<Rightarrow> u64 \<Rightarrow> mkfs_geo" where
  "fat_guess fsty sz_au sz_vol n_root b_vol =
     (if fsty = FS_FAT32 then
        let pau = (if sz_au = 0 then auto_au cst32 (sz_vol div 0x20000) 1 else sz_au);
            n_clst = sz_vol div pau in
        \<lparr>ge_fsty = fsty, ge_pau = pau, ge_n_clst = n_clst, ge_sz_fat = (n_clst * 4 + 8 + 512 - 1) div 512, ge_sz_rsv = 32, ge_sz_dir = 0,
           ge_b_fat = b_vol + 32\<rparr>
      else
        let pau = (if sz_au = 0 then auto_au cst (sz_vol div 0x1000) 1 else sz_au);
            n_clst = sz_vol div pau;
            fsty = (if MAX_FAT12 < n_clst then fsty else FS_FAT12);
            n = (if MAX_FAT12 < n_clst then n_clst * 2 + 4 else (n_clst * 3 + 1) div 2 + 3) in
        \<lparr>ge_fsty = fsty, ge_pau = pau, ge_n_clst = n_clst, ge_sz_fat = (n + 512 - 1) div 512, ge_sz_rsv = 1,
           ge_sz_dir = n_root * of_nat SZDIRE div 512, ge_b_fat = b_vol + 1\<rparr>)"

definition fat_data_base :: "u32 \<Rightarrow> mkfs_geo \<Rightarrow> u64" where
  "fat_data_base n_fat g = ge_b_fat g + ucast (ge_sz_fat g * n_fat) + ucast (ge_sz_dir g)"

text \<open>The data area is moved to the next block of the medium: a FAT32 table is moved, another one made larger. The mask is one of 32 bits.\<close>

definition fat_align :: "u32 \<Rightarrow> u32 \<Rightarrow> mkfs_geo \<Rightarrow> mkfs_geo" where
  "fat_align sz_blk n_fat g =
     (let b_data = fat_data_base n_fat g;
          n = (ucast (((b_data + ucast sz_blk - 1) AND ucast (NOT (sz_blk - 1))) - b_data) :: u32) in
      if ge_fsty g = FS_FAT32 then g\<lparr>ge_sz_rsv := ge_sz_rsv g + n, ge_b_fat := ge_b_fat g + ucast n\<rparr>
      else
        let (n, g) = (if n mod n_fat \<noteq> 0 then (n - 1, g\<lparr>ge_sz_rsv := ge_sz_rsv g + 1, ge_b_fat := ge_b_fat g + 1\<rparr>) else (n, g)) in
        g\<lparr>ge_sz_fat := ge_sz_fat g + n div n_fat\<rparr>)"

text \<open>One pass: an error, the kind and the cluster size to try again with, or the numbers.\<close>

definition fat_try :: "u8 \<Rightarrow> u64 \<Rightarrow> u64 \<Rightarrow> u32 \<Rightarrow> u32 \<Rightarrow> u32 \<Rightarrow> u8 \<Rightarrow> u32 \<Rightarrow> fresult + u8 \<times> u32 + mkfs_geo" where
  "fat_try fsopt b_vol sz_vol sz_blk n_fat n_root fsty sz_au =
     (let g = fat_guess fsty sz_au (ucast sz_vol) n_root b_vol; pau = ge_pau g in
      if fsty = FS_FAT32 \<and> (ge_n_clst g \<le> MAX_FAT16 \<or> MAX_FAT32 < ge_n_clst g) then Inl FR_MKFS_ABORTED
      else
        let b_data = fat_data_base n_fat g; g = fat_align sz_blk n_fat g in
        if sz_vol < b_data + ucast (pau * 16) - b_vol then Inl FR_MKFS_ABORTED
        else
          let n_clst = (ucast sz_vol - ge_sz_rsv g - ge_sz_fat g * n_fat - ge_sz_dir g) div pau; g = g\<lparr>ge_n_clst := n_clst\<rparr> in
          if ge_fsty g = FS_FAT32 \<and> n_clst \<le> MAX_FAT16 then
            if sz_au = 0 \<and> pau div 2 \<noteq> 0 then Inr (Inl (FS_FAT32, pau div 2)) else Inl FR_MKFS_ABORTED
          else if ge_fsty g = FS_FAT16 \<and> MAX_FAT16 < n_clst then
            if sz_au = 0 \<and> pau * 2 \<le> 64 then Inr (Inl (FS_FAT16, pau * 2))
            else if fsopt AND FM_FAT32 \<noteq> 0 then Inr (Inl (FS_FAT32, sz_au))
            else if sz_au = 0 \<and> pau * 2 \<le> 128 then Inr (Inl (FS_FAT16, pau * 2))
            else Inl FR_MKFS_ABORTED
          else if ge_fsty g = FS_FAT16 \<and> n_clst \<le> MAX_FAT12 then
            if sz_au = 0 \<and> pau * 2 \<le> 128 then Inr (Inl (FS_FAT16, pau * 2)) else Inl FR_MKFS_ABORTED
          else if ge_fsty g = FS_FAT12 \<and> MAX_FAT12 < n_clst then Inl FR_MKFS_ABORTED
          else Inr (Inr g))"

text \<open>How many more passes there can be: the kind only goes from FAT16 to FAT32, the size only from none to one.\<close>

definition tries_left :: "u8 \<Rightarrow> u32 \<Rightarrow> nat" where
  "tries_left fsty sz_au = (if fsty = FS_FAT32 then 0 else 2) + (if sz_au = 0 then 1 else 0)"

lemma auto_au_cases: "auto_au cst n 1 \<in> {1, 2, 4, 8, 16, 32, 64}" "auto_au cst32 n 1 \<in> {1, 2, 4, 8, 16, 32, 64}"
  by (simp_all add: cst_def cst32_def)

lemma fat_try_progress:
  assumes "fat_try fsopt b_vol sz_vol sz_blk n_fat n_root fsty sz_au = Inr (Inl (fsty', sz_au'))"
  shows "tries_left fsty' sz_au' < tries_left fsty sz_au"
proof -
  have pau: "ge_pau (fat_guess fsty 0 v n_root b_vol) * 2 \<noteq> 0" for v
    using auto_au_cases(1) [of "v div 0x1000"] auto_au_cases(2) [of "v div 0x20000"] by (auto simp: fat_guess_def Let_def)
  have kind: "ge_fsty (fat_align sz_blk n_fat (fat_guess fsty sz_au v n_root b_vol)) \<in> {fsty, FS_FAT12}" for v
    by (auto simp: fat_align_def fat_guess_def Let_def split: prod.splits if_splits)
  show ?thesis
    using assms pau kind [of "ucast sz_vol"]
    by (auto simp: fat_try_def Let_def tries_left_def fs_types split: if_splits)
qed

function fat_config :: "u8 \<Rightarrow> u64 \<Rightarrow> u64 \<Rightarrow> u32 \<Rightarrow> u32 \<Rightarrow> u32 \<Rightarrow> u8 \<Rightarrow> u32 \<Rightarrow> fresult + mkfs_geo" where
  "fat_config fsopt b_vol sz_vol sz_blk n_fat n_root fsty sz_au =
     (case fat_try fsopt b_vol sz_vol sz_blk n_fat n_root fsty sz_au of
        Inl e \<Rightarrow> Inl e
      | Inr (Inl (fsty, sz_au)) \<Rightarrow> fat_config fsopt b_vol sz_vol sz_blk n_fat n_root fsty sz_au
      | Inr (Inr g) \<Rightarrow> Inr g)"
  by pat_completeness auto
termination
  by (relation "measure (\<lambda>(_, _, _, _, _, _, fsty, sz_au). tries_left fsty sz_au)") (auto dest: fat_try_progress)

declare fat_config.simps [simp del]


definition fat_boot_text :: "u8 list" where
  "fat_boot_text = [0xEB, 0xFE, 0x90, 0x4D, 0x53, 0x44, 0x4F, 0x53, 0x35, 0x2E, 0x30]"

definition no_name_fat32 :: "u8 list" where
  "no_name_fat32 = [0x4E, 0x4F, 0x20, 0x4E, 0x41, 0x4D, 0x45, 0x20, 0x20, 0x20, 0x20, 0x46, 0x41, 0x54, 0x33, 0x32, 0x20, 0x20, 0x20]"

definition no_name_fat :: "u8 list" where
  "no_name_fat = [0x4E, 0x4F, 0x20, 0x4E, 0x41, 0x4D, 0x45, 0x20, 0x20, 0x20, 0x20, 0x46, 0x41, 0x54, 0x20, 0x20, 0x20, 0x20, 0x20]"

text \<open>The boot sector: the fields of all kinds, then those of the kind.\<close>

definition vbr_common :: "mkfs_geo \<Rightarrow> u32 \<Rightarrow> u32 \<Rightarrow> u64 \<Rightarrow> u64 \<Rightarrow> u8 list \<Rightarrow> u8 list option" where
  "vbr_common g n_fat n_root b_vol sz_vol buf = do {
     buf \<leftarrow> mem_set buf 0 0 512;
     buf \<leftarrow> mem_cpy buf BS_JmpBoot fat_boot_text 0 11;
     buf \<leftarrow> st_word buf BPB_BytsPerSec 512;
     buf \<leftarrow> wr buf BPB_SecPerClus (ucast (ge_pau g));
     buf \<leftarrow> st_word buf BPB_RsvdSecCnt (ucast (ge_sz_rsv g));
     buf \<leftarrow> wr buf BPB_NumFATs (ucast n_fat);
     buf \<leftarrow> st_word buf BPB_RootEntCnt (if ge_fsty g = FS_FAT32 then 0 else ucast n_root);
     buf \<leftarrow> (if sz_vol < 0x10000 then st_word buf BPB_TotSec16 (ucast sz_vol) else st_dword buf BPB_TotSec32 (ucast sz_vol));
     buf \<leftarrow> wr buf BPB_Media 0xF8;
     buf \<leftarrow> st_word buf BPB_SecPerTrk 63;
     buf \<leftarrow> st_word buf BPB_NumHeads 255;
     st_dword buf BPB_HiddSec (ucast b_vol) }"

definition vbr_kind :: "mkfs_geo \<Rightarrow> u32 \<Rightarrow> u8 list \<Rightarrow> u8 list option" where
  "vbr_kind g time buf =
     (if ge_fsty g = FS_FAT32 then do {
        buf \<leftarrow> st_dword buf BS_VolID32 time;
        buf \<leftarrow> st_dword buf BPB_FATSz32 (ge_sz_fat g);
        buf \<leftarrow> st_dword buf BPB_RootClus32 2;
        buf \<leftarrow> st_word buf BPB_FSInfo32 1;
        buf \<leftarrow> st_word buf BPB_BkBootSec32 6;
        buf \<leftarrow> wr buf BS_DrvNum32 0x80;
        buf \<leftarrow> wr buf BS_BootSig32 0x29;
        mem_cpy buf BS_VolLab32 no_name_fat32 0 19 }
      else do {
        buf \<leftarrow> st_dword buf BS_VolID time;
        buf \<leftarrow> st_word buf BPB_FATSz16 (ucast (ge_sz_fat g));
        buf \<leftarrow> wr buf BS_DrvNum 0x80;
        buf \<leftarrow> wr buf BS_BootSig 0x29;
        mem_cpy buf BS_VolLab no_name_fat 0 19 })"

definition fat_vbr :: "mkfs_geo \<Rightarrow> u32 \<Rightarrow> u32 \<Rightarrow> u64 \<Rightarrow> u64 \<Rightarrow> u32 \<Rightarrow> u8 list \<Rightarrow> u8 list option" where
  "fat_vbr g n_fat n_root b_vol sz_vol time buf = do {
     buf \<leftarrow> vbr_common g n_fat n_root b_vol sz_vol buf;
     buf \<leftarrow> vbr_kind g time buf;
     st_word buf BS_55AA 0xAA55 }"

text \<open>The copy of the boot sector and the two sectors of information; whether they are written is not looked at.\<close>

definition put_fsinfo :: "'d disk_io \<Rightarrow> u8 \<Rightarrow> mkfs_geo \<Rightarrow> u64 \<Rightarrow> u8 list \<Rightarrow> 'd \<Rightarrow> (u8 list \<times> 'd) option" where
  "put_fsinfo io drv g b_vol buf d =
     (if ge_fsty g = FS_FAT32 then do {
        (_, d) \<leftarrow> wsect io drv buf (b_vol + 6) 1 d;
        buf \<leftarrow> mem_set buf 0 0 512;
        buf \<leftarrow> st_dword buf FSI_LeadSig 0x41615252;
        buf \<leftarrow> st_dword buf FSI_StrucSig 0x61417272;
        buf \<leftarrow> st_dword buf FSI_Free_Count (ge_n_clst g - 1);
        buf \<leftarrow> st_dword buf FSI_Nxt_Free 2;
        buf \<leftarrow> st_word buf BS_55AA 0xAA55;
        (_, d) \<leftarrow> wsect io drv buf (b_vol + 7) 1 d;
        (_, d) \<leftarrow> wsect io drv buf (b_vol + 1) 1 d;
        Some (buf, d) }
      else Some (buf, d))"

definition fat_head :: "u8 \<Rightarrow> u8 list \<Rightarrow> u8 list option" where
  "fat_head fsty buf =
     (if fsty = FS_FAT32 then do {
        buf \<leftarrow> st_dword buf 0 0xFFFFFFF8;
        buf \<leftarrow> st_dword buf 4 0xFFFFFFFF;
        st_dword buf 8 0x0FFFFFFF }
      else st_dword buf 0 (if fsty = FS_FAT12 then 0xFFFFF8 else 0xFFFFFFF8))"

fun fat_copies :: "'d disk_io \<Rightarrow> u8 \<Rightarrow> u32 \<Rightarrow> mkfs_geo \<Rightarrow> nat \<Rightarrow> u8 list \<Rightarrow> u64 \<Rightarrow> 'd \<Rightarrow> (bool \<times> u8 list \<times> u64 \<times> 'd) option" where
  "fat_copies io drv sz_buf g 0 buf sect d = Some (True, buf, sect, d)"
| "fat_copies io drv sz_buf g (Suc n) buf sect d = do {
     buf \<leftarrow> fat_head (ge_fsty g) buf;
     (ok, buf, sect, d) \<leftarrow> fill_sectors io drv sz_buf True buf sect (ge_sz_fat g) d;
     if \<not> ok then Some (False, buf, sect, d) else fat_copies io drv sz_buf g n buf sect d }"

definition create_fat ::
  "'d disk_io \<Rightarrow> u8 \<Rightarrow> u32 \<Rightarrow> mkfs_geo \<Rightarrow> u32 \<Rightarrow> u32 \<Rightarrow> u64 \<Rightarrow> u64 \<Rightarrow> u8 list \<Rightarrow> 'd \<Rightarrow> (fresult \<times> u8 list \<times> 'd) option" where
  "create_fat io drv sz_buf g n_fat n_root b_vol sz_vol buf d = do {
     buf \<leftarrow> fat_vbr g n_fat n_root b_vol sz_vol (fattime io d) buf;
     (ok, d) \<leftarrow> wsect io drv buf b_vol 1 d;
     if \<not> ok then Some (FR_DISK_ERR, buf, d) else do {
     (buf, d) \<leftarrow> put_fsinfo io drv g b_vol buf d;
     buf \<leftarrow> mem_set buf 0 0 (sz_buf * 512);
     (ok, buf, sect, d) \<leftarrow> fat_copies io drv sz_buf g (unat n_fat) buf (ge_b_fat g) d;
     if \<not> ok then Some (FR_DISK_ERR, buf, d) else do {
     (ok, buf, sect, d) \<leftarrow> fill_sectors io drv sz_buf False buf sect (if ge_fsty g = FS_FAT32 then ge_pau g else ge_sz_dir g) d;
     Some (if ok then FR_OK else FR_DISK_ERR, buf, d) } } }"

section \<open>exFAT volumes\<close>

record exfat_geo =
  ex_sz_au :: u32
  ex_b_fat :: u64
  ex_sz_fat :: u32
  ex_b_data :: u64
  ex_n_clst :: u32

definition exfat_config :: "u64 \<Rightarrow> u64 \<Rightarrow> u32 \<Rightarrow> u32 \<Rightarrow> exfat_geo option" where
  "exfat_config b_vol sz_vol sz_blk sz_au =
     (if sz_vol < 0x1000 then None
      else
        let sz_au = (if sz_au = 0 then if 0x4000000 \<le> sz_vol then 256 else if 0x80000 \<le> sz_vol then 64 else 8 else sz_au);
            b_fat = b_vol + 32;
            sz_fat = (ucast ((sz_vol div ucast sz_au + 2) * 4 + 512 - 1) :: u32) div 512;
            b_data = (b_fat + ucast sz_fat + ucast sz_blk - 1) AND NOT (ucast sz_blk - 1) in
        if sz_vol div 2 \<le> b_data - b_vol then None
        else
          let n_clst = (ucast (sz_vol - (b_data - b_vol)) :: u32) div sz_au in
          if n_clst < 16 \<or> MAX_EXFAT < n_clst then None
          else Some \<lparr>ex_sz_au = sz_au, ex_b_fat = b_fat, ex_sz_fat = sz_fat, ex_b_data = b_data, ex_n_clst = n_clst\<rparr>)"

text \<open>How long a run of characters without a capital is, and the next word of the compressed table.\<close>

partial_function (option) case_run :: "u16 \<Rightarrow> u32 \<Rightarrow> u32 option" where
  "case_run si j =
     (let c = si + ucast j in
      if c \<noteq> 0 then do {
        u \<leftarrow> ff_wtoupper (ucast c);
        if u = ucast c then case_run si (j + 1) else Some j }
      else Some j)"

definition case_word :: "nat \<Rightarrow> u16 \<Rightarrow> u32 \<Rightarrow> (u16 \<times> nat \<times> u16 \<times> u32) option" where
  "case_word st si j =
     (let short = (\<lambda>j. Some (si, if j - 1 = 0 then 0 else 1, si + 1, j - 1)) in
      if st = 0 then do {
        u \<leftarrow> ff_wtoupper (ucast si);
        let ch = (ucast u :: u16);
        if ch \<noteq> si then Some (ch, 0, si + 1, j)
        else do {
          j \<leftarrow> case_run si 1;
          if 128 \<le> j then Some (0xFFFF, 2, si, j) else short j } }
      else if st = 1 then short j
      else Some (ucast j, 0, si + ucast j, j))"

partial_function (option) case_table ::
  "'d disk_io \<Rightarrow> u8 \<Rightarrow> u32 \<Rightarrow> nat \<Rightarrow> u16 \<Rightarrow> u32 \<Rightarrow> u32 \<Rightarrow> u32 \<Rightarrow> u32 \<Rightarrow> u8 list \<Rightarrow> u64 \<Rightarrow> 'd
     \<Rightarrow> (bool \<times> u32 \<times> u32 \<times> u8 list \<times> 'd) option" where
  "case_table io drv sz_buf st si i j chk szb buf sect d = do {
     (ch, st, si, j) \<leftarrow> case_word st si j;
     buf \<leftarrow> wr buf (unat i) (ucast ch);
     buf \<leftarrow> wr buf (unat (i + 1)) (ucast (drop_bit 8 ch));
     let chk = xsum32 (ucast (drop_bit 8 ch)) (xsum32 (ucast ch) chk);
     let i = i + 2; let szb = szb + 2;
     (ok, i, sect, d) \<leftarrow> (if si = 0 \<or> i = sz_buf * 512 then do {
          let n = (i + 512 - 1) div 512;
          (ok, d) \<leftarrow> wsect io drv buf sect n d;
          Some (ok, 0, sect + ucast n, d) }
        else Some (True, i, sect, d));
     if \<not> ok then Some (False, chk, szb, buf, d)
     else if si \<noteq> 0 then case_table io drv sz_buf st si i j chk szb buf sect d
     else Some (True, chk, szb, buf, d) }"

text \<open>Bits of clusters in use.\<close>

fun mark_bits :: "u32 \<Rightarrow> u32 \<Rightarrow> nat \<Rightarrow> u8 list \<Rightarrow> (u8 list \<times> nat) option" where
  "mark_bits limit i 0 buf = Some (buf, 0)"
| "mark_bits limit i (Suc nbit) buf =
     (if i div 8 < limit then do {
        b \<leftarrow> rd buf (unat (i div 8));
        buf \<leftarrow> wr buf (unat (i div 8)) (b OR push_bit (unat (i mod 8)) 1);
        mark_bits limit (i + 1) nbit buf }
      else Some (buf, Suc nbit))"

partial_function (option) put_bitmap ::
  "'d disk_io \<Rightarrow> u8 \<Rightarrow> u32 \<Rightarrow> nat \<Rightarrow> u8 list \<Rightarrow> u64 \<Rightarrow> u32 \<Rightarrow> 'd \<Rightarrow> (bool \<times> u8 list \<times> 'd) option" where
  "put_bitmap io drv sz_buf nbit buf sect nsect d = do {
     buf \<leftarrow> mem_set buf 0 0 (sz_buf * 512);
     (buf, nbit) \<leftarrow> mark_bits (sz_buf * 512) 0 nbit buf;
     let n = (if sz_buf < nsect then sz_buf else nsect);
     (ok, d) \<leftarrow> wsect io drv buf sect n d;
     if \<not> ok then Some (False, buf, d)
     else if nsect - n \<noteq> 0 then put_bitmap io drv sz_buf nbit buf (sect + ucast n) (nsect - n) d
     else Some (True, buf, d) }"

text \<open>The chains of the bitmap, of the case table and of the root directory, one behind another.\<close>

fun chain_entries :: "u32 \<Rightarrow> u32 \<Rightarrow> u32 \<Rightarrow> nat \<Rightarrow> u8 list \<Rightarrow> (u32 \<times> u32 \<times> nat \<times> u8 list) option" where
  "chain_entries limit i clu 0 buf = Some (i, clu, 0, buf)"
| "chain_entries limit i clu (Suc nbit) buf =
     (if i < limit then do {
        buf \<leftarrow> st_dword buf (unat i) (if 0 < nbit then clu + 1 else 0xFFFFFFFF);
        chain_entries limit (i + 4) (clu + 1) nbit buf }
      else Some (i, clu, Suc nbit, buf))"

partial_function (option) chain_rows ::
  "u32 \<Rightarrow> u32 list \<Rightarrow> u32 \<Rightarrow> u32 \<Rightarrow> nat \<Rightarrow> u8 list \<Rightarrow> (u32 list \<times> u32 \<times> nat \<times> u8 list) option" where
  "chain_rows limit clen i clu nbit buf = do {
     (i, clu, nbit, buf) \<leftarrow> chain_entries limit i clu nbit buf;
     let (clen, nbit) = (if nbit = 0 then (case clen of [] \<Rightarrow> ([], 0) | c # cs \<Rightarrow> (cs, unat c)) else (clen, nbit));
     if nbit \<noteq> 0 \<and> i < limit then chain_rows limit clen i clu nbit buf
     else Some (clen, clu, nbit, buf) }"

partial_function (option) put_chains ::
  "'d disk_io \<Rightarrow> u8 \<Rightarrow> u32 \<Rightarrow> u32 list \<Rightarrow> u32 \<Rightarrow> nat \<Rightarrow> u8 list \<Rightarrow> u64 \<Rightarrow> u32 \<Rightarrow> 'd \<Rightarrow> (bool \<times> u8 list \<times> 'd) option" where
  "put_chains io drv sz_buf clen clu nbit buf sect nsect d = do {
     buf \<leftarrow> mem_set buf 0 0 (sz_buf * 512);
     (i, clu, buf) \<leftarrow> (if clu = 0 then do {
          buf \<leftarrow> st_dword buf 0 0xFFFFFFF8;
          buf \<leftarrow> st_dword buf 4 0xFFFFFFFF;
          Some (8, 2, buf) }
        else Some (0, clu, buf));
     (clen, clu, nbit, buf) \<leftarrow> chain_rows (sz_buf * 512) clen i clu nbit buf;
     let n = (if sz_buf < nsect then sz_buf else nsect);
     (ok, d) \<leftarrow> wsect io drv buf sect n d;
     if \<not> ok then Some (False, buf, d)
     else if nsect - n \<noteq> 0 then put_chains io drv sz_buf clen clu nbit buf (sect + ucast n) (nsect - n) d
     else Some (True, buf, d) }"

definition exfat_root :: "u32 \<Rightarrow> u32 \<Rightarrow> u32 \<Rightarrow> u32 \<Rightarrow> u32 \<Rightarrow> u8 list \<Rightarrow> u8 list option" where
  "exfat_root sz_buf clen0 szb_bit chk szb_case buf = do {
     buf \<leftarrow> mem_set buf 0 0 (sz_buf * 512);
     buf \<leftarrow> wr buf 0 ET_VLABEL;
     buf \<leftarrow> wr buf (SZDIRE * 1) ET_BITMAP;
     buf \<leftarrow> st_dword buf (SZDIRE * 1 + 20) 2;
     buf \<leftarrow> st_dword buf (SZDIRE * 1 + 24) szb_bit;
     buf \<leftarrow> wr buf (SZDIRE * 2) ET_UPCASE;
     buf \<leftarrow> st_dword buf (SZDIRE * 2 + 4) chk;
     buf \<leftarrow> st_dword buf (SZDIRE * 2 + 20) (2 + clen0);
     st_dword buf (SZDIRE * 2 + 24) szb_case }"

definition exfat_boot_text :: "u8 list" where
  "exfat_boot_text = [0xEB, 0x76, 0x90, 0x45, 0x58, 0x46, 0x41, 0x54, 0x20, 0x20, 0x20]"

definition exfat_vbr :: "exfat_geo \<Rightarrow> u32 \<Rightarrow> u64 \<Rightarrow> u64 \<Rightarrow> u32 \<Rightarrow> u8 list \<Rightarrow> u8 list option" where
  "exfat_vbr g root b_vol sz_vol time buf = do {
     buf \<leftarrow> mem_set buf 0 0 512;
     buf \<leftarrow> mem_cpy buf BS_JmpBoot exfat_boot_text 0 11;
     buf \<leftarrow> st_qword buf BPB_VolOfsEx b_vol;
     buf \<leftarrow> st_qword buf BPB_TotSecEx sz_vol;
     buf \<leftarrow> st_dword buf BPB_FatOfsEx (ucast (ex_b_fat g - b_vol));
     buf \<leftarrow> st_dword buf BPB_FatSzEx (ex_sz_fat g);
     buf \<leftarrow> st_dword buf BPB_DataOfsEx (ucast (ex_b_data g - b_vol));
     buf \<leftarrow> st_dword buf BPB_NumClusEx (ex_n_clst g);
     buf \<leftarrow> st_dword buf BPB_RootClusEx root;
     buf \<leftarrow> st_dword buf BPB_VolIDEx time;
     buf \<leftarrow> st_word buf BPB_FSVerEx 0x100;
     buf \<leftarrow> wr buf BPB_BytsPerSecEx (log2_shifts 512);
     buf \<leftarrow> wr buf BPB_SecPerClusEx (log2_shifts (ex_sz_au g));
     buf \<leftarrow> wr buf BPB_NumFATsEx 1;
     buf \<leftarrow> wr buf BPB_DrvNumEx 0x80;
     buf \<leftarrow> st_word buf BS_BootCodeEx 0xFEEB;
     st_word buf BS_55AA 0xAA55 }"

definition vbr_sum :: "u8 list \<Rightarrow> u32 option" where
  "vbr_sum buf =
     (if 512 \<le> length buf
      then Some (foldl (\<lambda>chk i. xsum32 (buf ! i) chk) 0 (filter (\<lambda>i. i \<notin> {BPB_VolFlagEx, BPB_VolFlagEx + 1, BPB_PercInUseEx}) [0..<512]))
      else None)"

definition sector_sum :: "u8 list \<Rightarrow> u32 \<Rightarrow> u32 option" where
  "sector_sum buf chk = (if 512 \<le> length buf then Some (foldl (\<lambda>chk b. xsum32 b chk) chk (take 512 buf)) else None)"

fun sum_rows :: "'d disk_io \<Rightarrow> u8 \<Rightarrow> u8 list \<Rightarrow> nat \<Rightarrow> u32 \<Rightarrow> u64 \<Rightarrow> 'd \<Rightarrow> (bool \<times> u32 \<times> u64 \<times> 'd) option" where
  "sum_rows io drv buf 0 chk sect d = Some (True, chk, sect, d)"
| "sum_rows io drv buf (Suc n) chk sect d = do {
     chk \<leftarrow> sector_sum buf chk;
     (ok, d) \<leftarrow> wsect io drv buf sect 1 d;
     if \<not> ok then Some (False, chk, sect, d) else sum_rows io drv buf n chk (sect + 1) d }"

fun fill_dwords :: "nat list \<Rightarrow> u32 \<Rightarrow> u8 list \<Rightarrow> u8 list option" where
  "fill_dwords [] v buf = Some buf"
| "fill_dwords (i # is) v buf = do { buf \<leftarrow> st_dword buf (4 * i) v; fill_dwords is v buf }"

text \<open>One set of the twelve boot sectors: the record itself, eight more of boot code, two reserved ones, the sum.\<close>

definition vbr_set ::
  "'d disk_io \<Rightarrow> u8 \<Rightarrow> exfat_geo \<Rightarrow> u32 \<Rightarrow> u64 \<Rightarrow> u64 \<Rightarrow> u8 list \<Rightarrow> u64 \<Rightarrow> 'd \<Rightarrow> (bool \<times> u8 list \<times> u64 \<times> 'd) option" where
  "vbr_set io drv g root b_vol sz_vol buf sect d = do {
     buf \<leftarrow> exfat_vbr g root b_vol sz_vol (fattime io d) buf;
     chk \<leftarrow> vbr_sum buf;
     (ok, d) \<leftarrow> wsect io drv buf sect 1 d;
     if \<not> ok then Some (False, buf, sect, d) else do {
     buf \<leftarrow> mem_set buf 0 0 512;
     buf \<leftarrow> st_word buf (512 - 2) 0xAA55;
     (ok, chk, sect, d) \<leftarrow> sum_rows io drv buf 8 chk (sect + 1) d;
     if \<not> ok then Some (False, buf, sect, d) else do {
     buf \<leftarrow> mem_set buf 0 0 512;
     (ok, chk, sect, d) \<leftarrow> sum_rows io drv buf 2 chk sect d;
     if \<not> ok then Some (False, buf, sect, d) else do {
     buf \<leftarrow> fill_dwords [0..<128] chk buf;
     (ok, d) \<leftarrow> wsect io drv buf sect 1 d;
     Some (ok, buf, sect + 1, d) } } } }"

definition clusters_of :: "u32 \<Rightarrow> u32 \<Rightarrow> u32" where
  "clusters_of octets sz_au = (octets + sz_au * 512 - 1) div (sz_au * 512)"

definition exfat_areas ::
  "'d disk_io \<Rightarrow> u8 \<Rightarrow> u32 \<Rightarrow> exfat_geo \<Rightarrow> u8 list \<Rightarrow> 'd \<Rightarrow> (bool \<times> u32 \<times> u8 list \<times> 'd) option" where
  "exfat_areas io drv sz_buf g buf d = do {
     let szb_bit = (ex_n_clst g + 7) div 8;
     let clen0 = clusters_of szb_bit (ex_sz_au g);
     (ok, chk, szb_case, buf, d) \<leftarrow> case_table io drv sz_buf 0 0 0 0 0 0 buf (ex_b_data g + ucast (ex_sz_au g * clen0)) d;
     let clen1 = clusters_of szb_case (ex_sz_au g);
     let root = 2 + clen0 + clen1;
     if \<not> ok then Some (False, root, buf, d) else do {
     (ok, buf, d) \<leftarrow> put_bitmap io drv sz_buf (unat (clen0 + clen1 + 1)) buf (ex_b_data g) ((szb_bit + 512 - 1) div 512) d;
     if \<not> ok then Some (False, root, buf, d) else do {
     (ok, buf, d) \<leftarrow> put_chains io drv sz_buf [clen0, clen1, 1] 0 0 buf (ex_b_fat g) (ex_sz_fat g) d;
     if \<not> ok then Some (False, root, buf, d) else do {
     buf \<leftarrow> exfat_root sz_buf clen0 szb_bit chk szb_case buf;
     (ok, buf, sect, d) \<leftarrow> fill_sectors io drv sz_buf True buf (ex_b_data g + ucast (ex_sz_au g * (clen0 + clen1))) (ex_sz_au g) d;
     Some (ok, root, buf, d) } } } }"

definition create_exfat ::
  "'d disk_io \<Rightarrow> u8 \<Rightarrow> u32 \<Rightarrow> u64 \<Rightarrow> u64 \<Rightarrow> u32 \<Rightarrow> u32 \<Rightarrow> u8 list \<Rightarrow> 'd \<Rightarrow> (fresult \<times> u8 list \<times> 'd) option" where
  "create_exfat io drv sz_buf b_vol sz_vol sz_blk sz_au buf d =
     (case exfat_config b_vol sz_vol sz_blk sz_au of
        None \<Rightarrow> Some (FR_MKFS_ABORTED, buf, d)
      | Some g \<Rightarrow> do {
          (ok, root, buf, d) \<leftarrow> exfat_areas io drv sz_buf g buf d;
          if \<not> ok then Some (FR_DISK_ERR, buf, d) else do {
          (ok, buf, sect, d) \<leftarrow> vbr_set io drv g root b_vol sz_vol buf b_vol d;
          if \<not> ok then Some (FR_DISK_ERR, buf, d) else do {
          (ok, buf, sect, d) \<leftarrow> vbr_set io drv g root b_vol sz_vol buf sect d;
          Some (if ok then FR_OK else FR_DISK_ERR, buf, d) } } })"

section \<open>Making a volume\<close>

definition system_id :: "u8 \<Rightarrow> u64 \<Rightarrow> u8" where
  "system_id fsty sz_vol =
     (if fsty = FS_EXFAT then 0x07 else if fsty = FS_FAT32 then 0x0C
      else if 0x10000 \<le> sz_vol then 0x06 else if fsty = FS_FAT16 then 0x04 else 0x01)"

text \<open>The volume at its place: the kind that was made, or an error.\<close>

definition create_volume ::
  "'d disk_io \<Rightarrow> u8 \<Rightarrow> u8 \<Rightarrow> u32 \<Rightarrow> u32 \<Rightarrow> u32 \<Rightarrow> u32 \<Rightarrow> u32 \<Rightarrow> u64 \<Rightarrow> u64 \<Rightarrow> u8 list \<Rightarrow> 'd \<Rightarrow> (fresult \<times> u8 \<times> u8 list \<times> 'd) option" where
  "create_volume io drv fsopt sz_buf sz_blk n_fat n_root sz_au b_vol sz_vol buf d =
     (case mkfs_type fsopt sz_vol sz_au of
        Inl e \<Rightarrow> Some (e, 0, buf, d)
      | Inr (fsty, sz_au) \<Rightarrow>
          if fsty = FS_EXFAT then do {
            (res, buf, d) \<leftarrow> create_exfat io drv sz_buf b_vol sz_vol sz_blk sz_au buf d;
            Some (res, fsty, buf, d) }
          else case fat_config fsopt b_vol sz_vol sz_blk n_fat n_root fsty sz_au of
            Inl e \<Rightarrow> Some (e, fsty, buf, d)
          | Inr g \<Rightarrow> do {
              (res, buf, d) \<leftarrow> create_fat io drv sz_buf g n_fat n_root b_vol sz_vol buf d;
              Some (res, ge_fsty g, buf, d) })"

definition mkfs_body ::
  "'d disk_io \<Rightarrow> u8 \<Rightarrow> mkfs_parm \<Rightarrow> u64 \<Rightarrow> u32 \<Rightarrow> u32 \<Rightarrow> u8 list \<Rightarrow> 'd \<Rightarrow> (fresult \<times> u8 list \<times> 'd) option" where
  "mkfs_body io drv opt junk sz_blk sz_buf buf d = do {
     let n_fat = (if 1 \<le> mk_n_fat opt \<and> mk_n_fat opt \<le> 2 then ucast (mk_n_fat opt) else 1);
     let n_root = (if 1 \<le> mk_n_root opt \<and> mk_n_root opt \<le> 32768 \<and> mk_n_root opt mod (512 div of_nat SZDIRE) = 0 then mk_n_root opt else 512);
     let sz_au = (if mk_au_size opt \<le> 0x1000000 \<and> mk_au_size opt AND (mk_au_size opt - 1) = 0 then mk_au_size opt else 0) div 512;
     (res, fsopt, b_vol, sz_vol, d) \<leftarrow> mkfs_place io drv (mk_fmt opt AND (FM_ANY OR FM_SFD)) d;
     if res \<noteq> FR_OK then Some (res, buf, d) else do {
     (res, fsty, buf, d) \<leftarrow> create_volume io drv fsopt sz_buf sz_blk n_fat n_root sz_au b_vol sz_vol buf d;
     if res \<noteq> FR_OK then Some (res, buf, d) else do {
     (res, buf, d) \<leftarrow> (if fsopt AND FM_SFD = 0 then create_partition io drv [sz_vol, 0] (system_id fsty sz_vol) junk buf d
                      else Some (FR_OK, buf, d));
     if res \<noteq> FR_OK then Some (res, buf, d) else do {
     ((r, x), d) \<leftarrow> dioctl io drv CTRL_SYNC d;
     Some (if r = RES_OK then FR_OK else FR_DISK_ERR, buf, d) } } } }"

definition block_size :: "'d disk_io \<Rightarrow> u8 \<Rightarrow> u32 \<Rightarrow> 'd \<Rightarrow> (u32 \<times> 'd) option" where
  "block_size io drv align d = do {
     (sz_blk, d) \<leftarrow> (if align = 0 then do {
          ((r, x), d) \<leftarrow> dioctl io drv GET_BLOCK_SIZE d;
          Some (if r \<noteq> RES_OK then 1 else case x of None \<Rightarrow> 0 | Some n \<Rightarrow> ucast n, d) }
        else Some (align, d));
     Some (if sz_blk = 0 \<or> 0x8000 < sz_blk \<or> sz_blk AND (sz_blk - 1) \<noteq> 0 then 1 else sz_blk, d) }"

text \<open>
  \<open>f_mkfs\<close>, with the working buffer of the caller or one of the heap. What it leaves in the buffer of the
  caller is of no use to him and left out; \<open>junk\<close> is what the stack holds where the size of the drive goes.
\<close>

definition f_mkfs ::
  "'d disk_io \<Rightarrow> u8 list option \<Rightarrow> mkfs_parm option \<Rightarrow> u8 list option \<Rightarrow> u32 \<Rightarrow> u64 \<Rightarrow> ff_static \<Rightarrow> 'd \<Rightarrow> (fresult \<times> ff_static \<times> 'd) option" where
  "f_mkfs io path opt work len junk st d = do {
     (vol, path) \<leftarrow> get_ldnumber (CurrVol st) path;
     if vol < 0 then Some (FR_INVALID_DRIVE, st, d) else do {
     fsp \<leftarrow> rd (FatFs st) (nat vol);
     let st = (if fsp \<noteq> 0 then st\<lparr>objects := (objects st)(fsp := (objects st fsp)\<lparr>fs_type := 0\<rparr>)\<rparr> else st);
     let drv = (word_of_int vol :: u8);
     let opt = (case opt of None \<Rightarrow> defopt | Some opt \<Rightarrow> opt);
     (ds, d) \<leftarrow> dinit io drv d;
     if (ucast ds :: u32) AND STA_NOINIT \<noteq> 0 then Some (FR_NOT_READY, st, d)
     else if (ucast ds :: u32) AND STA_PROTECT \<noteq> 0 then Some (FR_WRITE_PROTECTED, st, d)
     else do {
     (sz_blk, d) \<leftarrow> block_size io drv (mk_align opt) d;
     let sz_buf = len div 512;
     if sz_buf = 0 then Some (FR_NOT_ENOUGH_CORE, st, d)
     else
       (case (case work of Some b \<Rightarrow> Some b
          | None \<Rightarrow> if memalloc io (sz_buf * 512) d then Some (map (heapdata io d) [0..<unat (sz_buf * 512)]) else None) of
          None \<Rightarrow> Some (FR_NOT_ENOUGH_CORE, st, d)
        | Some buf \<Rightarrow> do {
            (res, buf, d) \<leftarrow> mkfs_body io drv opt junk sz_blk sz_buf buf d;
            Some (res, st, d) }) } } }"

end
