(* ===== verification/Ff_Geometry.thy ===== *)
theory Ff_Geometry
  imports Ff_Mkfs Ff_Mount_Facts
begin

text \<open>
  The numbers \<open>f_mkfs\<close> settles on for a FAT volume: the areas fit the volume, the table has room for every
  cluster, and the number of clusters is one of the kind that was chosen.
\<close>

section \<open>The configuration\<close>

definition units :: "u32 set" where "units = {1, 2, 4, 8, 16, 32, 64, 128}"

text \<open>The parameters as \<open>f_mkfs\<close> passes them on: a volume of at least 128 sectors in 32 bits, in the lower half of the numbers.\<close>

definition fat_request :: "u64 \<Rightarrow> u64 \<Rightarrow> u32 \<Rightarrow> u32 \<Rightarrow> u32 \<Rightarrow> u8 \<Rightarrow> u32 \<Rightarrow> bool" where
  "fat_request b_vol sz_vol sz_blk n_fat n_root fsty sz_au \<longleftrightarrow>
     b_vol < 2 ^ 63 \<and> 128 \<le> sz_vol \<and> sz_vol < 0x100000000 \<and> sz_blk \<noteq> 0 \<and> sz_blk \<le> 0x8000 \<and> n_fat \<in> {1, 2}
     \<and> n_root \<noteq> 0 \<and> n_root \<le> 32768 \<and> n_root mod 16 = 0 \<and> fsty \<in> {FS_FAT16, FS_FAT32} \<and> sz_au \<in> insert 0 units"

lemma auto_au_units: "auto_au cst n 1 \<in> units" "auto_au cst32 n 1 \<in> units"
  using auto_au_cases [of n] by (auto simp: units_def)

lemma fat_guess_pau: "sz_au \<in> insert 0 units \<Longrightarrow> ge_pau (fat_guess fsty sz_au v n_root b_vol) \<in> units"
  using auto_au_units by (auto simp: fat_guess_def Let_def)

lemma fat_guess_auto: "ge_pau (fat_guess fsty 0 v n_root b_vol) \<in> {1, 2, 4, 8, 16, 32, 64}"
  using auto_au_cases by (auto simp: fat_guess_def Let_def)

lemma fat_align_same: "ge_pau (fat_align sz_blk n_fat g) = ge_pau g" "ge_fsty (fat_align sz_blk n_fat g) = ge_fsty g"
  "ge_sz_dir (fat_align sz_blk n_fat g) = ge_sz_dir g"
  by (simp_all add: fat_align_def Let_def)

lemma fat_try_again:
  assumes "fat_try fsopt b_vol sz_vol sz_blk n_fat n_root fsty sz_au = Inr (Inl (fsty', sz_au'))" and "sz_au \<in> insert 0 units"
  shows "fsty' \<in> {FS_FAT16, FS_FAT32}" and "sz_au' \<in> insert 0 units"
proof -
  let ?pau = "ge_pau (fat_guess fsty sz_au (ucast sz_vol) n_root b_vol)"
  have *: "fsty' \<in> {FS_FAT16, FS_FAT32} \<and> (sz_au' = sz_au \<or> sz_au = 0 \<and> (sz_au' = ?pau * 2 \<or> sz_au' = ?pau div 2 \<and> ?pau div 2 \<noteq> 0))"
    using assms(1) by (simp add: fat_try_def Let_def split: if_splits)
  then show "fsty' \<in> {FS_FAT16, FS_FAT32}" ..
  have "p * 2 \<in> units" "p div 2 \<noteq> 0 \<Longrightarrow> p div 2 \<in> units" if "p \<in> {1, 2, 4, 8, 16, 32, 64}" for p :: u32
    using that by (auto simp: units_def)
  then show "sz_au' \<in> insert 0 units"
    using * assms(2) fat_guess_auto [of fsty "ucast sz_vol" n_root b_vol] by blast
qed

lemma fat_config_try:
  assumes "fat_config fsopt b_vol sz_vol sz_blk n_fat n_root fsty sz_au = Inr g"
    and "fsty \<in> {FS_FAT16, FS_FAT32}" and "sz_au \<in> insert 0 units"
  shows "\<exists>fsty sz_au. fat_try fsopt b_vol sz_vol sz_blk n_fat n_root fsty sz_au = Inr (Inr g)
     \<and> fsty \<in> {FS_FAT16, FS_FAT32} \<and> sz_au \<in> insert 0 units"
  using assms
proof (induction fsopt b_vol sz_vol sz_blk n_fat n_root fsty sz_au rule: fat_config.induct)
  case (1 fsopt b_vol sz_vol sz_blk n_fat n_root fsty sz_au)
  consider e where "fat_try fsopt b_vol sz_vol sz_blk n_fat n_root fsty sz_au = Inl e"
    | f a where "fat_try fsopt b_vol sz_vol sz_blk n_fat n_root fsty sz_au = Inr (Inl (f, a))"
    | g' where "fat_try fsopt b_vol sz_vol sz_blk n_fat n_root fsty sz_au = Inr (Inr g')"
    by (metis sumE prod.exhaust)
  then show ?case
  proof cases
    case 1
    then show ?thesis using "1.prems"(1) by (simp add: fat_config.simps [of fsopt])
  next
    case (2 f a)
    then have "fat_config fsopt b_vol sz_vol sz_blk n_fat n_root f a = Inr g"
      using "1.prems"(1) by (simp add: fat_config.simps [of fsopt b_vol sz_vol sz_blk n_fat n_root fsty sz_au])
    then show ?thesis using "1.IH" [OF 2 refl] fat_try_again [OF 2 "1.prems"(3)] 2 by blast
  next
    case (3 g')
    then have "g' = g" using "1.prems"(1) by (simp add: fat_config.simps [of fsopt b_vol sz_vol sz_blk n_fat n_root fsty sz_au])
    then show ?thesis using 3 "1.prems"(2,3) by blast
  qed
qed

lemma low_diff: "(ucast (x - y :: u64) :: u32) = ucast x - ucast y"
  by transfer (auto simp: take_bit_eq_mod mod_mod_cancel intro!: mod_diff_cong)

text \<open>The distance to the next block is less than a block.\<close>

lemma fat_align_bound:
  fixes b :: u64 and m :: u32
  shows "(ucast (((b + ucast m) AND ucast (NOT m)) - b) :: u32) \<le> m"
proof -
  let ?x = "ucast b + m :: u32"
  have "(ucast (x AND ucast y) :: u32) = ucast x AND y" for x :: u64 and y :: u32
    by (rule bit_word_eqI) (auto simp: bit_and_iff bit_ucast_iff)
  moreover have "(ucast (b + ucast m) :: u32) = ?x"
    by (rule unsigned_word_eqI [where ?'a = nat])
      (simp add: unsigned_ucast_eq take_bit_eq_mod unat_word_ariths mod_mod_cancel mod_simps)
  ultimately have low: "(ucast ((b + ucast m) AND ucast (NOT m)) :: u32) = ?x AND NOT m" by simp
  have "(ucast (((b + ucast m) AND ucast (NOT m)) - b) :: u32) = (?x AND NOT m) - ucast b"
    unfolding low low_diff ..
  also have "\<dots> = m - (?x AND m)"
  proof -
    have "?x - (?x AND m) = ?x AND NOT (?x AND m)" by (rule disjunctive_diff_eq_and_not) (simp add: bit_eq_iff bit_simps)
    also have "\<dots> = ?x AND NOT m" by (auto simp: bit_eq_iff bit_simps)
    finally show ?thesis by (simp add: algebra_simps)
  qed
  finally show ?thesis
    by (metis word_and_le1 word_sub_le)
qed

text \<open>The sizes in numbers: a table is large enough for the clusters that are left, and the areas fit the volume.\<close>

lemma sizes32:
  fixes V P n nf :: nat
  assumes "P \<in> {1, 2, 4, 8, 16, 32, 64, 128}" and "n0 = V div P" and "65525 < n0" and "n < 32768" and "nf \<in> {1, 2}"
    and "F = (n0 * 4 + 519) div 512"
  shows "32 + n + F * nf \<le> V" and "(V - (32 + n + F * nf)) div P \<le> n0" and "(((V - (32 + n + F * nf)) div P + 2) * 4 + 511) div 512 \<le> F"
proof -
  have "n0 \<le> V" unfolding assms(2) by simp
  moreover have "512 * F \<le> n0 * 4 + 519" unfolding assms(6) by simp
  ultimately show "32 + n + F * nf \<le> V" using assms(3-5) by auto
  show le: "(V - (32 + n + F * nf)) div P \<le> n0" unfolding assms(2) by (rule div_le_mono) simp
  have "(((V - (32 + n + F * nf)) div P + 2) * 4 + 511) div 512 \<le> (n0 * 4 + 519) div 512"
    by (rule div_le_mono) (use le in simp)
  then show "(((V - (32 + n + F * nf)) div P + 2) * 4 + 511) div 512 \<le> F" using assms(6) by linarith
qed

text \<open>A count that has wrapped is not one of a small volume.\<close>

lemma sizes16:
  fixes V P n nf R D S :: nat
  assumes P: "P \<in> {1, 2, 4, 8, 16, 32, 64, 128}" and n0: "n0 = V div P" and V: "V < 2 ^ 32" and n: "n < 32768" and nf: "nf \<in> {1, 2}"
    and R: "R \<le> 2" and D: "D \<le> 2048"
    and F0: "F0 = ((if 4085 < n0 then (n0 * 2 + 4) mod 2 ^ 32 else (n0 * 3 + 1) div 2 + 3) + 511) mod 2 ^ 32 div 512"
    and S: "S = R + (F0 + n div nf) * nf + D" and q: "q = (if S \<le> V then V - S else 2 ^ 32 + V - S) div P" and small: "q \<le> 65525"
  shows "S \<le> V" and "F0 + n div nf < 65536" and "q \<le> n0" and "4085 < n0 \<Longrightarrow> F0 = (n0 * 2 + 515) div 512"
    and "n0 \<le> 4085 \<Longrightarrow> F0 = ((n0 * 3 + 1) div 2 + 514) div 512"
proof -
  have F0b: "F0 \<le> 2 ^ 23" unfolding F0 by simp
  have Sb: "S \<le> 2 + 2 * (2 ^ 23 + 32768) + 2048" using S R D F0b n nf by auto
  have "x div P \<le> 65525 \<Longrightarrow> x < 65526 * 128" for x
    using P by (auto simp: div_le_mono)
  note b = this [OF small [unfolded q]]
  show le: "S \<le> V"
  proof (rule ccontr)
    assume "\<not> S \<le> V"
    then show False using b Sb by simp
  qed
  have Vb: "V < 2 ^ 25" using b le Sb by simp
  then have n0b: "n0 < 2 ^ 25" unfolding n0 using div_le_dividend [of V P] by linarith
  then have F0': "F0 = ((if 4085 < n0 then n0 * 2 + 4 else (n0 * 3 + 1) div 2 + 3) + 511) div 512"
    unfolding F0 by simp
  then show "4085 < n0 \<Longrightarrow> F0 = (n0 * 2 + 515) div 512" "n0 \<le> 4085 \<Longrightarrow> F0 = ((n0 * 3 + 1) div 2 + 514) div 512"
    by (simp_all add: add.commute)
  show "q \<le> n0" unfolding q n0 by (rule div_le_mono) (use le in simp)
  have F1: "512 * F0 \<le> 2 * n0 + 7000"
  proof (cases "4085 < n0")
    case True
    then have "512 * F0 \<le> n0 * 2 + 515" unfolding F0' using times_div_less_eq_dividend [of 512 "n0 * 2 + 4 + 511"] by simp
    then show ?thesis by simp
  next
    case False
    then have "512 * F0 \<le> (n0 * 3 + 1) div 2 + 514"
      unfolding F0' using times_div_less_eq_dividend [of 512 "(n0 * 3 + 1) div 2 + 3 + 511"] by simp
    then show ?thesis using False by simp
  qed
  have "P * n0 \<le> V" unfolding n0 by (simp add: mult.commute)
  moreover have "V - S < P * 65526" using small le unfolding q using P by auto
  ultimately have "P * n0 < P * 65526 + S" using le by linarith
  moreover have "S \<le> 2050 + 2 * (F0 + 32767)" using S R D n nf by auto
  ultimately have "P * n0 < P * 65526 + 2050 + 2 * (F0 + 32767)" by linarith
  then have "n0 < 140000" using P F1 by auto
  then show "F0 + n div nf < 65536" using F1 n nf by auto
qed

lemma ucast_pred:
  assumes "(m :: u32) \<noteq> 0"
  shows "(ucast (m - 1) :: u64) = ucast m - 1"
proof -
  have "unat m \<noteq> 0" using assms by (simp add: unat_eq_zero)
  then show ?thesis
    using assms unsigned_less [of m, where ?'a = nat]
    by (intro unsigned_word_eqI [where ?'a = nat]) (simp add: unat_ucast_64 unat_minus_1 unat_sub_if')
qed

lemma fat_align_cases:
  assumes "sz_blk \<noteq> 0" and "sz_blk \<le> 0x8000" and "n_fat \<in> {1, 2}"
  shows "\<exists>n e. unat n < 32768 \<and> e \<in> {0, 1} \<and> fat_align sz_blk n_fat g =
    (if ge_fsty g = FS_FAT32 then g\<lparr>ge_sz_rsv := ge_sz_rsv g + n, ge_b_fat := ge_b_fat g + ucast n\<rparr>
     else g\<lparr>ge_sz_rsv := ge_sz_rsv g + e, ge_b_fat := ge_b_fat g + ucast e, ge_sz_fat := ge_sz_fat g + n div n_fat\<rparr>)"
proof -
  define b where "b = fat_data_base n_fat g"
  define n where "n = (ucast (((b + ucast sz_blk - 1) AND ucast (NOT (sz_blk - 1))) - b) :: u32)"
  have "b + ucast sz_blk - 1 = b + ucast (sz_blk - 1)" unfolding ucast_pred [OF assms(1)] by simp
  then have "n \<le> sz_blk - 1" unfolding n_def using fat_align_bound by metis
  moreover have "unat (sz_blk - 1) = unat sz_blk - 1" by (rule unat_minus_1 [OF assms(1)])
  moreover have "unat sz_blk \<noteq> 0" "unat sz_blk \<le> 32768" using assms(1,2) by (simp_all add: unat_eq_zero word_le_nat_alt)
  ultimately have small: "unat n < 32768" by (simp add: word_le_nat_alt)
  have odd: "(n - 1) div n_fat = n div n_fat \<and> n_fat = 2" if "n mod n_fat \<noteq> 0"
  proof -
    have two: "n_fat = 2" using that assms(3) by auto
    have "unat n mod 2 \<noteq> 0" using that unfolding two by (simp add: word_arith_nat_defs(6) unat_mod flip: unat_eq_zero)
    moreover have "n \<noteq> 0" using that by auto
    ultimately have "unat ((n - 1) div 2) = unat (n div 2)" by (simp add: unat_div unat_minus_1) presburger
    then show ?thesis using two unsigned_word_eqI by blast
  qed
  show ?thesis
    using odd small
    by (intro exI [of _ n] exI [of _ "if n mod n_fat \<noteq> 0 then 1 else 0"])
      (auto simp: fat_align_def Let_def simp flip: b_def n_def)
qed

text \<open>The numbers \<open>f_mkfs\<close> settles on: the areas in front of the clusters, and the table that holds them all.\<close>

definition system_sectors :: "u32 \<Rightarrow> mkfs_geo \<Rightarrow> nat" where
  "system_sectors n_fat g = unat (ge_sz_rsv g) + unat (ge_sz_fat g) * unat n_fat + unat (ge_sz_dir g)"

definition fat_plan :: "u64 \<Rightarrow> u64 \<Rightarrow> u32 \<Rightarrow> u32 \<Rightarrow> mkfs_geo \<Rightarrow> bool" where
  "fat_plan b_vol sz_vol n_fat n_root g \<longleftrightarrow>
     ge_fsty g \<in> {FS_FAT12, FS_FAT16, FS_FAT32} \<and> ge_pau g \<in> units
     \<and> 0 < unat (ge_sz_rsv g) \<and> unat (ge_sz_rsv g) < 65536 \<and> (ge_fsty g = FS_FAT32 \<longrightarrow> 32 \<le> unat (ge_sz_rsv g))
     \<and> ge_b_fat g = b_vol + ucast (ge_sz_rsv g)
     \<and> unat (ge_sz_dir g) = (if ge_fsty g = FS_FAT32 then 0 else unat n_root div 16)
     \<and> ge_sz_fat g \<noteq> 0 \<and> (ge_fsty g \<noteq> FS_FAT32 \<longrightarrow> unat (ge_sz_fat g) < 65536)
     \<and> system_sectors n_fat g \<le> unat sz_vol
     \<and> unat (ge_n_clst g) = (unat sz_vol - system_sectors n_fat g) div unat (ge_pau g)
     \<and> fat_kind (ge_n_clst g) = ge_fsty g
     \<and> (fat_octets (ge_fsty g) (ge_n_clst g + 2) + 511) div 512 \<le> ge_sz_fat g"

lemma unat_units: "p \<in> units \<Longrightarrow> unat p \<in> {1, 2, 4, 8, 16, 32, 64, 128}"
  by (auto simp: units_def)

lemma unat_low: "sz_vol < 0x100000000 \<Longrightarrow> unat (ucast (sz_vol :: u64) :: u32) = unat sz_vol"
  by (simp add: word_less_nat_alt unsigned_ucast_eq take_bit_nat_eq_self)

text \<open>The clusters that are left.\<close>

lemma unat_clusters:
  assumes "unat rsv + unat fat * unat n_fat + unat dir < 2 ^ 32"
  shows "unat ((v - rsv - fat * n_fat - dir :: u32) div p)
    = (if unat rsv + unat fat * unat n_fat + unat dir \<le> unat v then unat v - (unat rsv + unat fat * unat n_fat + unat dir)
       else 2 ^ 32 + unat v - (unat rsv + unat fat * unat n_fat + unat dir)) div unat p"
proof -
  have l: "LENGTH(32) = 32" by simp
  define s where "s = rsv + fat * n_fat + dir"
  have s: "unat s = unat rsv + unat fat * unat n_fat + unat dir" 
    unfolding s_def using assms by (simp only: unat_word_ariths l mod_simps mod_less)
  have v: "v - rsv - fat * n_fat - dir = v - s" unfolding s_def by simp
  have "unat (v - s) = (if unat s \<le> unat v then unat v - unat s else 2 ^ 32 + unat v - unat s)"
    by (simp only: unat_sub_if' l add.commute)
  then show ?thesis unfolding v unat_div s by simp
qed

lemma ucast_add_small:
  fixes a b :: u32
  assumes "unat a + unat b < 2 ^ 32"
  shows "(ucast (a + b) :: u64) = ucast a + ucast b"
  using assms by (intro unsigned_word_eqI [where ?'a = nat]) (simp add: unat_ucast_64 unat_word_ariths)

lemma fat_try_32:
  assumes tr: "fat_try fsopt b_vol sz_vol sz_blk n_fat n_root FS_FAT32 sz_au = Inr (Inr g)" and au: "sz_au \<in> insert 0 units"
    and blk: "sz_blk \<noteq> 0" "sz_blk \<le> 0x8000" and nf: "n_fat \<in> {1, 2}" and vol: "sz_vol < 0x100000000"
  shows "fat_plan b_vol sz_vol n_fat n_root g"
proof -
  let ?v = "ucast sz_vol :: u32"
  define p where "p = ge_pau (fat_guess FS_FAT32 sz_au ?v n_root b_vol)"
  define n0 where "n0 = ?v div p"
  define fat where "fat = (n0 * 4 + 8 + 512 - 1) div 512"
  have g0: "fat_guess FS_FAT32 sz_au ?v n_root b_vol = \<lparr>ge_fsty = FS_FAT32, ge_pau = p, ge_n_clst = n0, ge_sz_fat = fat, ge_sz_rsv = 32, ge_sz_dir = 0, ge_b_fat = b_vol + 32\<rparr>"
    unfolding fat_def n0_def p_def by (simp add: fat_guess_def Let_def)
  obtain n where n: "unat n < 32768" and al: "fat_align sz_blk n_fat (fat_guess FS_FAT32 sz_au ?v n_root b_vol)
      = \<lparr>ge_fsty = FS_FAT32, ge_pau = p, ge_n_clst = n0, ge_sz_fat = fat, ge_sz_rsv = 32 + n, ge_sz_dir = 0, ge_b_fat = b_vol + 32 + ucast n\<rparr>"
    using fat_align_cases [OF blk nf, of "fat_guess FS_FAT32 sz_au ?v n_root b_vol"] unfolding g0 by auto
  define nc where "nc = (?v - (32 + n) - fat * n_fat - 0) div p"
  have n0: "MAX_FAT16 < n0" "n0 \<le> MAX_FAT32" and nc: "MAX_FAT16 < nc"
    and g: "g = \<lparr>ge_fsty = FS_FAT32, ge_pau = p, ge_n_clst = nc, ge_sz_fat = fat, ge_sz_rsv = 32 + n, ge_sz_dir = 0, ge_b_fat = b_vol + 32 + ucast n\<rparr>"
    using tr unfolding fat_try_def Let_def g0 al [unfolded g0] nc_def by (auto simp: fs_types split: if_splits)
  have P: "p \<in> units" unfolding p_def by (rule fat_guess_pau [OF au])
  have un0: "unat n0 = unat sz_vol div unat p" unfolding n0_def unat_div unat_low [OF vol] ..
  have b: "65525 < unat n0" "unat n0 \<le> 0xFFFFFF5" using n0 by (simp_all add: MAX_FAT16_def MAX_FAT32_def word_less_nat_alt word_le_nat_alt)
  have ufat: "unat fat = (unat n0 * 4 + 519) div 512" unfolding fat_def unat_div using b by (simp add: unat_word_ariths)
  have un: "unat n_fat \<in> {1, 2}" using nf by auto
  have ur: "unat (32 + n) = 32 + unat n" using n by (simp add: unat_word_ariths)
  note s = sizes32 [OF unat_units [OF P] un0 b(1) n un ufat]
  have lim: "unat (32 + n) + unat fat * unat n_fat + unat (0 :: u32) < 2 ^ 32"
    using s(1) unat_low [OF vol] unsigned_less [of ?v, where ?'a = nat] unfolding ur by simp
  have unc: "unat nc = (unat sz_vol - (32 + unat n + unat fat * unat n_fat)) div unat p"
    using unat_clusters [OF lim, of ?v p] s(1) unfolding nc_def unat_low [OF vol] ur by simp
  have "fat_kind nc = FS_FAT32"
    using nc s(2) b(2) unfolding unc [symmetric]
    by (auto simp: fat_kind_def MAX_FAT12_def MAX_FAT16_def MAX_FAT32_def word_less_nat_alt word_le_nat_alt)
  moreover have "(fat_octets FS_FAT32 (nc + 2) + 511) div 512 \<le> fat"
  proof -
    have "unat (fat_octets FS_FAT32 (nc + 2) + 511) = (unat nc + 2) * 4 + 511"
      using s(2) b(2) unfolding unc [symmetric] by (simp add: fat_octets_def unat_word_ariths)
    then show ?thesis using s(3) unfolding unc [symmetric] by (simp add: word_le_nat_alt unat_div)
  qed
  moreover have "fat \<noteq> 0" using ufat b(1) by (auto simp flip: unat_eq_zero)
  moreover have "(ucast (32 + n) :: u64) = 32 + ucast n" using n by (subst ucast_add_small) simp_all
  ultimately show ?thesis
    using P n s(1) unc ur by (simp add: g fat_plan_def system_sectors_def fs_types)
qed

lemma octets_above: "(x + 2) * 3 div 2 + (x + 2) mod 2 = (x * 3 + 1) div 2 + (3 :: nat)"
proof (cases "even x")
  case True
  then obtain y where "x = 2 * y" by (rule evenE)
  then show ?thesis by simp
next
  case False
  then obtain y where "x = 2 * y + 1" by (rule oddE)
  then show ?thesis by simp
qed

lemma unat_octets12:
  assumes "unat n < 2 ^ 20"
  shows "unat (fat_octets FS_FAT12 n) = unat n * 3 div 2 + unat n mod 2"
proof -
  have "unat (n AND 1) = unat n mod 2" by (simp add: and_one_eq unat_mod)
  then show ?thesis
    using assms by (simp add: fat_octets_def fs_types unat_word_ariths unat_div del: and_one_eq)
qed

lemma fat_try_16:
  assumes tr: "fat_try fsopt b_vol sz_vol sz_blk n_fat n_root FS_FAT16 sz_au = Inr (Inr g)" and au: "sz_au \<in> insert 0 units"
    and blk: "sz_blk \<noteq> 0" "sz_blk \<le> 0x8000" and nf: "n_fat \<in> {1, 2}" and vol: "sz_vol < 0x100000000"
    and root: "n_root \<le> 32768" "n_root mod 16 = 0"
  shows "fat_plan b_vol sz_vol n_fat n_root g"
proof -
  let ?v = "ucast sz_vol :: u32"
  define p where "p = ge_pau (fat_guess FS_FAT16 sz_au ?v n_root b_vol)"
  define n0 where "n0 = ?v div p"
  define ty where "ty = (if MAX_FAT12 < n0 then FS_FAT16 else FS_FAT12)"
  define fat0 where "fat0 = ((if MAX_FAT12 < n0 then n0 * 2 + 4 else (n0 * 3 + 1) div 2 + 3) + 512 - 1) div 512"
  define dir where "dir = n_root * of_nat SZDIRE div 512"
  have g0: "fat_guess FS_FAT16 sz_au ?v n_root b_vol = \<lparr>ge_fsty = ty, ge_pau = p, ge_n_clst = n0, ge_sz_fat = fat0, ge_sz_rsv = 1, ge_sz_dir = dir, ge_b_fat = b_vol + 1\<rparr>"
    unfolding fat0_def ty_def n0_def p_def dir_def by (simp add: fat_guess_def Let_def fs_types)
  have ty: "ty \<noteq> FS_FAT32" by (simp add: ty_def fs_types)
  obtain n e where n: "unat n < 32768" and e: "e \<in> {0, 1 :: u32}" and al: "fat_align sz_blk n_fat (fat_guess FS_FAT16 sz_au ?v n_root b_vol)
      = \<lparr>ge_fsty = ty, ge_pau = p, ge_n_clst = n0, ge_sz_fat = fat0 + n div n_fat, ge_sz_rsv = 1 + e, ge_sz_dir = dir, ge_b_fat = b_vol + 1 + ucast e\<rparr>"
    using fat_align_cases [OF blk nf, of "fat_guess FS_FAT16 sz_au ?v n_root b_vol"] ty unfolding g0 by auto
  define nc where "nc = (?v - (1 + e) - (fat0 + n div n_fat) * n_fat - dir) div p"
  have nc: "if ty = FS_FAT16 then MAX_FAT12 < nc \<and> nc \<le> MAX_FAT16 else nc \<le> MAX_FAT12"
    and g: "g = \<lparr>ge_fsty = ty, ge_pau = p, ge_n_clst = nc, ge_sz_fat = fat0 + n div n_fat, ge_sz_rsv = 1 + e, ge_sz_dir = dir, ge_b_fat = b_vol + 1 + ucast e\<rparr>"
    using tr ty unfolding fat_try_def Let_def g0 al [unfolded g0] nc_def
    by (auto simp: not_le not_less ty_def fs_types split: if_splits)
  have P: "p \<in> units" unfolding p_def by (rule fat_guess_pau [OF au])
  have un0: "unat n0 = unat sz_vol div unat p" unfolding n0_def unat_div unat_low [OF vol] ..
  have V: "unat sz_vol < 2 ^ 32" using vol by (simp add: word_less_nat_alt)
  have un: "unat n_fat \<in> {1, 2}" using nf by auto
  have r: "unat n_root \<le> 32768" using root(1) by (simp add: word_le_nat_alt)
  have "unat n_root mod 16 = 0" using root(2) by (simp add: unat_mod flip: unat_eq_zero)
  then have udir: "unat dir = unat n_root div 16"
    using r by (auto simp: dir_def SZDIRE_def unat_div unat_word_ariths dvd_def mod_eq_0_iff_dvd)
  then have D: "unat dir \<le> 2048" using r by simp
  have ur: "unat (1 + e) = 1 + unat e" "unat e \<le> 1" using e by auto
  have small: "MAX_FAT12 < n0 \<longleftrightarrow> 4085 < unat n0" by (simp add: MAX_FAT12_def word_less_nat_alt)
  have ufat0: "unat fat0 = ((if 4085 < unat n0 then (unat n0 * 2 + 4) mod 2 ^ 32 else (unat n0 * 3 + 1) div 2 + 3) + 511) mod 2 ^ 32 div 512"
    unfolding fat0_def unat_div small by (auto simp: unat_word_ariths unat_div mod_simps)
  define S where "S = 1 + unat e + (unat fat0 + unat n div unat n_fat) * unat n_fat + unat dir"
  have f0: "unat fat0 < 2 ^ 23" unfolding ufat0 by simp
  have nn: "unat n div unat n_fat < 32768" using n le_less_trans [OF div_le_dividend] by blast
  have ufat: "unat (fat0 + n div n_fat) = unat fat0 + unat n div unat n_fat" using f0 nn by (simp add: unat_word_ariths unat_div)
  have lim: "unat (1 + e) + unat (fat0 + n div n_fat) * unat n_fat + unat dir < 2 ^ 32"
    unfolding ufat ur(1) using f0 nn D ur(2) un by auto
  have S: "unat (1 + e) + unat (fat0 + n div n_fat) * unat n_fat + unat dir = S" unfolding S_def ufat ur(1) ..
  have unc: "unat nc = (if S \<le> unat sz_vol then unat sz_vol - S else 2 ^ 32 + unat sz_vol - S) div unat p"
    using unat_clusters [OF lim, of ?v p] unfolding nc_def unat_low [OF vol] S .
  have q: "unat nc \<le> 65525"
    using nc by (auto simp: MAX_FAT12_def MAX_FAT16_def word_le_nat_alt split: if_splits)
  have R: "1 + unat e \<le> 2" using ur(2) by simp
  note s = sizes16 [OF unat_units [OF P] un0 V n un R D ufat0 S_def unc q]
  have unc': "unat nc = (unat sz_vol - S) div unat p" using unc s(1) by simp
  have kind: "fat_kind nc = ty"
    using nc unfolding ty_def by (auto simp: fat_kind_def fs_types split: if_splits)
  have "unat (fat_octets ty (nc + 2) + 511) div 512 \<le> unat fat0"
  proof (cases "4085 < unat n0")
    case True
    then have "unat (fat_octets ty (nc + 2) + 511) = unat nc * 2 + 515"
      using q by (simp add: ty_def small fat_octets_def fs_types unat_word_ariths)
    then show ?thesis unfolding s(4) [OF True] using s(3) by (simp add: div_le_mono)
  next
    case False
    have N: "unat (nc + 2) = unat nc + 2" using q by (simp add: unat_word_ariths)
    have "unat (fat_octets FS_FAT12 (nc + 2)) = unat (nc + 2) * 3 div 2 + unat (nc + 2) mod 2"
      by (rule unat_octets12) (use q N in simp)
    moreover have "\<dots> = (unat nc * 3 + 1) div 2 + 3" unfolding N by (rule octets_above)
    moreover have "ty = FS_FAT12" unfolding ty_def small using False by (rule if_not_P)
    ultimately have "unat (fat_octets ty (nc + 2)) = (unat nc * 3 + 1) div 2 + 3" by simp
    then have "unat (fat_octets ty (nc + 2) + 511) = (unat nc * 3 + 1) div 2 + 514"
      using q by (simp add: unat_word_ariths)
    moreover have "(unat nc * 3 + 1) div 2 \<le> (unat n0 * 3 + 1) div 2" using s(3) by (simp add: div_le_mono)
    ultimately show ?thesis using s(5) False by (simp add: div_le_mono)
  qed
  then have "(fat_octets ty (nc + 2) + 511) div 512 \<le> fat0 + n div n_fat"
    unfolding word_le_nat_alt ufat unat_div by simp
  moreover have "fat0 + n div n_fat \<noteq> 0"
  proof -
    have "0 < unat fat0" using s(4,5) by (cases "4085 < unat n0") auto
    then have "0 < unat (fat0 + n div n_fat)" unfolding ufat by simp
    then show ?thesis by (metis less_irrefl unsigned_0)
  qed
  moreover have "(ucast (1 + e) :: u64) = 1 + ucast e" using e by auto
  ultimately show ?thesis
    using P ty kind s(1,2) unc' ur udir S ufat by (auto simp: g fat_plan_def system_sectors_def ty_def)
qed

lemma fat_config_plan:
  assumes "fat_config fsopt b_vol sz_vol sz_blk n_fat n_root fsty sz_au = Inr g"
    and req: "fat_request b_vol sz_vol sz_blk n_fat n_root fsty sz_au"
  shows "fat_plan b_vol sz_vol n_fat n_root g"
proof -
  have r: "sz_blk \<noteq> 0" "sz_blk \<le> 0x8000" "n_fat \<in> {1, 2}" "sz_vol < 0x100000000" "n_root \<le> 32768" "n_root mod 16 = 0"
    "fsty \<in> {FS_FAT16, FS_FAT32}" "sz_au \<in> insert 0 units"
    using req unfolding fat_request_def by blast+
  obtain ty au where "fat_try fsopt b_vol sz_vol sz_blk n_fat n_root ty au = Inr (Inr g)" "ty \<in> {FS_FAT16, FS_FAT32}" "au \<in> insert 0 units"
    using fat_config_try [OF assms(1) r(7,8)] by blast
  then show ?thesis by (auto intro: fat_try_16 [OF _ _ r(1-6)] fat_try_32 [OF _ _ r(1-4)])
qed

end
