(* ===== verification/Ff_Format.thy ===== *)
theory Ff_Format
  imports Ff_Geometry Ff_Write
begin

text \<open>
  What \<open>f_mkfs\<close> makes, mounting accepts: the boot sector, the tables and the root directory read back.
\<close>

section \<open>The boot sector read back\<close>

lemma join16: "push_bit 8 (ucast (ucast (drop_bit 8 v) :: u8)) OR ucast (ucast v :: u8) = (v :: u16)"
  using join_octet [of 0 8 v] by (simp add: top_octet)

lemma join32:
  "((push_bit 24 (ucast (ucast (drop_bit 24 v) :: u8)) OR push_bit 16 (ucast (ucast (drop_bit 16 v) :: u8)))
     OR push_bit 8 (ucast (ucast (drop_bit 8 v) :: u8))) OR ucast (ucast v :: u8) = (v :: u32)"
proof -
  have "push_bit 8 (push_bit 8 (push_bit 8 (ucast (ucast (drop_bit 24 v) :: u8)) OR ucast (ucast (drop_bit 16 v) :: u8))
     OR ucast (ucast (drop_bit 8 v) :: u8)) OR ucast (ucast v :: u8) = v"
    using join_octet [of 0 8 v] by (simp add: top_octet join_octet)
  then show ?thesis by (simp add: push_bit_or)
qed

lemma nth_mem_cpy:
  assumes "mem_cpy dst p src 0 n = Some b" and "n \<noteq> 0"
  shows "length b = length dst" and "i < length dst \<Longrightarrow> b ! i = (if p \<le> i \<and> i < p + unat n then src ! (i - p) else dst ! i)"
  using assms by (auto simp: mem_cpy_spec nth_append split: if_splits)

lemma mem_cpy_total: "p + unat n \<le> length dst \<Longrightarrow> unat n \<le> length src \<Longrightarrow> \<exists>b. mem_cpy dst p src 0 n = Some b"
  by (simp add: mem_cpy_spec)

lemma clear_sector:
  assumes "512 \<le> length buf"
  shows "mem_set buf 0 0 512 = Some (replicate 512 0 @ drop 512 buf)"
  using assms by (simp add: mem_set_spec)

lemma vbr_head:
  assumes "512 \<le> length buf"
  shows "\<exists>x. mem_cpy (replicate 512 0 @ drop 512 buf) 0 fat_boot_text 0 11 = Some x \<and> length x = length buf
     \<and> (\<forall>i < 512. x ! i = (if i < 11 then fat_boot_text ! i else 0))"
proof -
  have "length fat_boot_text = 11" by (simp add: fat_boot_text_def)
  then obtain x where x: "mem_cpy (replicate 512 0 @ drop 512 buf) 0 fat_boot_text 0 11 = Some x"
    using mem_cpy_total [of 0 11 "replicate 512 0 @ drop 512 buf" fat_boot_text] assms by auto
  show ?thesis using nth_mem_cpy [OF x] x assms by (auto simp: nth_append)
qed

lemma vbr_common_fields:
  assumes "512 \<le> length buf"
  shows "\<exists>x. vbr_common g n_fat n_root b_vol sz_vol buf = Some x \<and> length x = length buf
     \<and> x ! 0 = 0xEB \<and> x ! 1 = 0xFE \<and> ld_word x 11 = Some 512 \<and> x ! 13 = ucast (ge_pau g) \<and> ld_word x 14 = Some (ucast (ge_sz_rsv g))
     \<and> x ! 16 = ucast n_fat \<and> ld_word x 17 = Some (if ge_fsty g = FS_FAT32 then 0 else ucast n_root)
     \<and> ld_word x 19 = Some (if sz_vol < 0x10000 then ucast sz_vol else 0) \<and> ld_word x 22 = Some 0
     \<and> ld_dword x 32 = Some (if sz_vol < 0x10000 then 0 else ucast sz_vol) \<and> (\<forall>i. 36 \<le> i \<and> i < 512 \<longrightarrow> x ! i = 0)"
proof -
  obtain x where x: "mem_cpy (replicate 512 0 @ drop 512 buf) 0 fat_boot_text 0 11 = Some x" "length x = length buf"
    and o: "\<And>i. i < 512 \<Longrightarrow> x ! i = (if i < 11 then fat_boot_text ! i else 0)"
    using vbr_head [OF assms] by auto
  have l: "k \<le> 512 \<Longrightarrow> k \<le> length buf" "k < 512 \<Longrightarrow> k < length buf" for k using assms by simp_all
  show ?thesis
    using x l
    by (simp add: vbr_common_def clear_sector [OF assms] bpb_fields BPB_Media_def BPB_SecPerTrk_def BPB_NumHeads_def BPB_HiddSec_def
       st_word_eq st_dword_eq ld_word_eq ld_dword_eq wr_def o join16 join32 fat_boot_text_def)
qed

text \<open>The fields mounting looks at.\<close>

definition boot_of :: "mkfs_geo \<Rightarrow> u32 \<Rightarrow> u32 \<Rightarrow> u64 \<Rightarrow> u8 list \<Rightarrow> bool" where
  "boot_of g n_fat n_root sz_vol s \<longleftrightarrow> length s = 512 \<and> s ! 0 = 0xEB \<and> s ! 1 = 0xFE
     \<and> ld_word s 11 = Some 512 \<and> s ! 13 = ucast (ge_pau g) \<and> ld_word s 14 = Some (ucast (ge_sz_rsv g)) \<and> s ! 16 = ucast n_fat
     \<and> ld_word s 17 = Some (if ge_fsty g = FS_FAT32 then 0 else ucast n_root)
     \<and> ld_word s 19 = Some (if sz_vol < 0x10000 then ucast sz_vol else 0) \<and> ld_dword s 32 = Some (if sz_vol < 0x10000 then 0 else ucast sz_vol)
     \<and> ld_word s 22 = Some (if ge_fsty g = FS_FAT32 then 0 else ucast (ge_sz_fat g)) \<and> ld_word s 510 = Some 0xAA55
     \<and> (ge_fsty g = FS_FAT32 \<longrightarrow> ld_dword s 36 = Some (ge_sz_fat g) \<and> ld_word s 42 = Some 0 \<and> ld_dword s 44 = Some 2 \<and> ld_word s 48 = Some 1
          \<and> (\<forall>i < 8. s ! (82 + i) = fat32_text ! i))"

lemma text_octets: "(\<forall>i < 8. (s :: u8 list) ! (82 + i) = t ! i) \<longleftrightarrow> (\<forall>i \<in> {0, 1, 2, 3, 4, 5, 6, 7}. s ! (82 + i) = t ! i)"
proof -
  have "{i. i < 8} = {0, 1, 2, 3, 4, 5, 6, 7 :: nat}" by auto
  then show ?thesis by blast
qed

lemma fat_vbr_boot:
  assumes "512 \<le> length buf"
  shows "\<exists>w. fat_vbr g n_fat n_root b_vol sz_vol time buf = Some w \<and> length w = length buf \<and> boot_of g n_fat n_root sz_vol (take 512 w)"
proof -
  have l: "k \<le> 512 \<Longrightarrow> k \<le> length buf" "k < 512 \<Longrightarrow> k < length buf" "buf \<noteq> []" for k using assms by auto
  obtain x where x: "vbr_common g n_fat n_root b_vol sz_vol buf = Some x" "length x = length buf"
    and o: "x ! 0 = 0xEB" "x ! 1 = 0xFE" "ld_word x 11 = Some 512" "x ! 13 = ucast (ge_pau g)" "ld_word x 14 = Some (ucast (ge_sz_rsv g))"
      "x ! 16 = ucast n_fat" "ld_word x 17 = Some (if ge_fsty g = FS_FAT32 then 0 else ucast n_root)"
      "ld_word x 19 = Some (if sz_vol < 0x10000 then ucast sz_vol else 0)" "ld_word x 22 = Some 0"
      "ld_dword x 32 = Some (if sz_vol < 0x10000 then 0 else ucast sz_vol)"
    and z: "\<And>i. 36 \<le> i \<Longrightarrow> i < 512 \<Longrightarrow> x ! i = 0"
    using vbr_common_fields [OF assms] by blast
  note o' = o [unfolded ld_word_eq ld_dword_eq]
  note ops = st_word_eq st_dword_eq ld_word_eq ld_dword_eq wr_def join16 join32 nth_take BS_55AA_def
  show ?thesis
  proof (cases "ge_fsty g = FS_FAT32")
    case True
    define y where "y = x[67 := ucast time, 68 := ucast (drop_bit 8 time), 69 := ucast (drop_bit 16 time), 70 := ucast (drop_bit 24 time),
      36 := ucast (ge_sz_fat g), 37 := ucast (drop_bit 8 (ge_sz_fat g)), 38 := ucast (drop_bit 16 (ge_sz_fat g)), 39 := ucast (drop_bit 24 (ge_sz_fat g)),
      44 := 2, 45 := 0, 46 := 0, 47 := 0, 48 := 1, 49 := 0, 50 := 6, 51 := 0, 64 := 0x80, 66 := 0x29]"
    have ly: "length y = length buf" by (simp add: y_def x(2))
    have "length no_name_fat32 = 19" by (simp add: no_name_fat32_def)
    then obtain v where v: "mem_cpy y 71 no_name_fat32 0 19 = Some v"
      using mem_cpy_total [of 71 19 y no_name_fat32] ly assms by auto
    note nv = nth_mem_cpy [OF v, simplified]
    have k: "vbr_kind g time x = Some v"
      using v True l by (simp add: vbr_kind_def ops x(2) BS_VolID32_def BPB_FATSz32_def BPB_RootClus32_def BPB_FSInfo32_def BPB_BkBootSec32_def
        BS_DrvNum32_def BS_BootSig32_def BS_VolLab32_def y_def)
    show ?thesis
      using True l o' z
      by (simp add: fat_vbr_def x k ops nv ly boot_of_def text_octets no_name_fat32_def fat32_text_def) (simp add: y_def x(2) l join32)
  next
    case False
    define y where "y = x[39 := ucast time, 40 := ucast (drop_bit 8 time), 41 := ucast (drop_bit 16 time), 42 := ucast (drop_bit 24 time),
      22 := ucast (ucast (ge_sz_fat g) :: u16), 23 := ucast (drop_bit 8 (ucast (ge_sz_fat g) :: u16)), 36 := 0x80, 38 := 0x29]"
    have ly: "length y = length buf" by (simp add: y_def x(2))
    have "length no_name_fat = 19" by (simp add: no_name_fat_def)
    then obtain v where v: "mem_cpy y 43 no_name_fat 0 19 = Some v"
      using mem_cpy_total [of 43 19 y no_name_fat] ly assms by auto
    note nv = nth_mem_cpy [OF v, simplified]
    have k: "vbr_kind g time x = Some v"
      using v False l by (simp add: vbr_kind_def ops x(2) BS_VolID_def BPB_FATSz16_def BS_DrvNum_def BS_BootSig_def BS_VolLab_def y_def)
    show ?thesis
      using False l o'
      by (simp add: fat_vbr_def x k ops nv ly boot_of_def) (simp add: y_def x(2) l join16)
  qed
qed

section \<open>Mounting what was made\<close>

lemma fat_requestD:
  assumes "fat_request b_vol sz_vol sz_blk n_fat n_root fsty sz_au"
  shows "128 \<le> unat sz_vol" and "unat sz_vol < 2 ^ 32" and "n_fat \<in> {1, 2}" and "n_root \<noteq> 0" and "unat n_root \<le> 32768" and "n_root mod 16 = 0"
    and "unat b_vol < 2 ^ 63"
  using assms by (auto simp: fat_request_def word_le_nat_alt word_less_nat_alt)

lemma fat_planD:
  assumes "fat_plan b_vol sz_vol n_fat n_root g"
  shows "ge_fsty g \<in> {FS_FAT12, FS_FAT16, FS_FAT32}" and "ge_pau g \<in> units" and "0 < unat (ge_sz_rsv g)" and "unat (ge_sz_rsv g) < 65536"
    and "ge_b_fat g = b_vol + ucast (ge_sz_rsv g)" and "unat (ge_sz_dir g) = (if ge_fsty g = FS_FAT32 then 0 else unat n_root div 16)"
    and "ge_sz_fat g \<noteq> 0" and "ge_fsty g \<noteq> FS_FAT32 \<Longrightarrow> unat (ge_sz_fat g) < 65536" and "system_sectors n_fat g \<le> unat sz_vol"
    and "unat (ge_n_clst g) = (unat sz_vol - system_sectors n_fat g) div unat (ge_pau g)" and "fat_kind (ge_n_clst g) = ge_fsty g"
    and "(fat_octets (ge_fsty g) (ge_n_clst g + 2) + 511) div 512 \<le> ge_sz_fat g" and "ge_fsty g = FS_FAT32 \<Longrightarrow> 32 \<le> unat (ge_sz_rsv g)"
  using assms unfolding fat_plan_def by blast+

lemma ucast_u16: "unat (x :: u32) < 65536 \<Longrightarrow> (ucast (ucast x :: u16) :: u32) = x"
  by (rule unsigned_word_eqI [where ?'a = nat]) (simp add: unsigned_ucast_eq unsigned_take_bit_eq take_bit_nat_eq_self)

lemma boot_ofD:
  assumes "boot_of g n_fat n_root sz_vol s"
  shows "length s = 512" and "s ! 0 = 0xEB" and "s ! 1 = 0xFE" and "ld_word s 11 = Some 512" and "s ! 13 = ucast (ge_pau g)"
    and "ld_word s 14 = Some (ucast (ge_sz_rsv g))" and "s ! 16 = ucast n_fat"
    and "ld_word s 17 = Some (if ge_fsty g = FS_FAT32 then 0 else ucast n_root)"
    and "ld_word s 19 = Some (if sz_vol < 0x10000 then ucast sz_vol else 0)" and "ld_dword s 32 = Some (if sz_vol < 0x10000 then 0 else ucast sz_vol)"
    and "ld_word s 22 = Some (if ge_fsty g = FS_FAT32 then 0 else ucast (ge_sz_fat g))" and "ld_word s 510 = Some 0xAA55"
    and "ge_fsty g = FS_FAT32 \<Longrightarrow> ld_dword s 36 = Some (ge_sz_fat g) \<and> ld_word s 42 = Some 0 \<and> ld_dword s 44 = Some 2 \<and> ld_word s 48 = Some 1
          \<and> (\<forall>i < 8. s ! (82 + i) = fat32_text ! i)"
  using assms unfolding boot_of_def by blast+

lemma total_sectors_of:
  assumes b: "boot_of g n_fat n_root sz_vol s" and v: "128 \<le> unat sz_vol" "unat sz_vol < 2 ^ 32"
  shows "total_sectors s = Some (ucast sz_vol)"
proof (cases "sz_vol < 0x10000")
  case True
  then have u: "unat sz_vol < 65536" by (simp add: word_less_nat_alt)
  then have "unat (ucast sz_vol :: u16) = unat sz_vol" by (simp add: unsigned_ucast_eq take_bit_nat_eq_self)
  then have "(ucast sz_vol :: u16) \<noteq> 0" using v(1) by (metis not_one_le_zero numeral_One numeral_le_iff order.trans semiring_norm(68) unsigned_0)
  moreover have "(ucast (ucast sz_vol :: u16) :: u32) = ucast sz_vol"
    by (rule unsigned_word_eqI [where ?'a = nat]) (use u in \<open>simp add: unsigned_ucast_eq unsigned_take_bit_eq take_bit_nat_eq_self\<close>)
  ultimately show ?thesis using boot_ofD(9) [OF b] True by (simp add: total_sectors_def bpb_fields)
next
  case False
  then show ?thesis using boot_ofD(9,10) [OF b] by (simp add: total_sectors_def bpb_fields)
qed

lemma table_sectors_of:
  assumes b: "boot_of g n_fat n_root sz_vol s" and p: "fat_plan b_vol sz_vol n_fat n_root g"
  shows "table_sectors s = Some (ge_sz_fat g)"
proof (cases "ge_fsty g = FS_FAT32")
  case True
  then show ?thesis using boot_ofD(11,13) [OF b] by (simp add: table_sectors_def bpb_fields)
next
  case False
  note u = ucast_u16 [OF fat_planD(8) [OF p False]]
  then have "(ucast (ge_sz_fat g) :: u16) \<noteq> 0" using fat_planD(7) [OF p] by (metis unsigned_0)
  then show ?thesis using boot_ofD(11) [OF b] False u by (simp add: table_sectors_def bpb_fields)
qed

lemma boot_kind_of:
  assumes b: "boot_of g n_fat n_root sz_vol s" and p: "fat_plan b_vol sz_vol n_fat n_root g"
    and r: "n_fat \<in> {1, 2}" "n_root \<noteq> 0" "unat n_root \<le> 32768"
  shows "boot_kind s = Some 0"
proof -
  note f = boot_ofD [OF b]
  have "rd s 0 = Some 0xEB" "rd s 1 = Some 0xFE" using f(1-3) by (simp_all add: rd_def)
  then have ex: "has_text s BS_JmpBoot exfat_text = Some False"
    by (simp add: has_text_def exfat_text_def mem_cmp.simps [of s 0] mem_cmp.simps [of s "Suc 0"] BS_JmpBoot_def)
  show ?thesis
  proof (cases "ge_fsty g = FS_FAT32")
    case True
    have "has_text s BS_FilSysType32 fat32_text = Some True"
    proof -
      have "take 8 (drop 82 s) = fat32_text"
        by (rule nth_equalityI) (use f(1,13) True in \<open>auto simp: fat32_text_def\<close>)
      then show ?thesis
        using mem_cmp_same [of 8 82 s 0 fat32_text] f(1) by (auto simp: has_text_def bpb_fields fat32_text_def)
    qed
    then show ?thesis using f ex by (simp add: boot_kind_def rd_def BS_JmpBoot_def BS_55AA_def)
  next
    case False
    have "ge_pau g \<in> units" by (rule fat_planD(2) [OF p])
    then have pau: "(ucast (ge_pau g) :: u8) \<noteq> 0" "(ucast (ge_pau g) :: u8) AND (ucast (ge_pau g) - 1) = 0"
      by (auto simp: units_def)
    have nf: "(ucast n_fat :: u8) = 1 \<or> (ucast n_fat :: u8) = 2" using r(1) by auto
    have "(ucast (ucast n_root :: u16) :: u32) \<noteq> 0" "(ucast (ucast (ge_sz_fat g) :: u16) :: u32) \<noteq> 0"
      using r(2,3) fat_planD(7,8) [OF p] False by (simp_all add: ucast_u16)
    then have nz: "(ucast n_root :: u16) \<noteq> 0" "(ucast (ge_sz_fat g) :: u16) \<noteq> 0" by (metis unsigned_0)+
    have "early_fat s = Some True"
      using f False pau nf nz by (simp add: early_fat_def bpb_fields rd_def)
    moreover obtain r where "has_text s BS_FilSysType32 fat32_text = Some r"
      using mem_cmp_same [of 8 82 s 0 fat32_text] f(1) by (auto simp: has_text_def bpb_fields fat32_text_def)
    ultimately show ?thesis using f ex by (simp add: boot_kind_def rd_def BS_JmpBoot_def BS_55AA_def)
  qed
qed

text \<open>The volume as mounting sees it.\<close>

definition made_volume :: "mkfs_geo \<Rightarrow> u32 \<Rightarrow> u32 \<Rightarrow> u64 \<Rightarrow> fatfs \<Rightarrow> fatfs" where
  "made_volume g n_fat n_root b_vol fs =
     fs\<lparr>fsize := ge_sz_fat g, n_fats := ucast n_fat, csize := ucast (ge_pau g),
        n_rootdir := if ge_fsty g = FS_FAT32 then 0 else ucast n_root, n_fatent := ge_n_clst g + 2, volbase := b_vol,
        fatbase := ge_b_fat g, database := b_vol + ucast (ge_sz_rsv g + ge_sz_fat g * n_fat + ge_sz_dir g),
        dirbase := if ge_fsty g = FS_FAT32 then 2 else ge_b_fat g + ucast (ge_sz_fat g * n_fat)\<rparr>"

lemma fat_layout_of:
  assumes b: "boot_of g n_fat n_root sz_vol (win fs)" and p: "fat_plan b_vol sz_vol n_fat n_root g"
    and v: "128 \<le> unat sz_vol" "unat sz_vol < 2 ^ 32" and r: "n_fat \<in> {1, 2}" "n_root \<noteq> 0" "unat n_root \<le> 32768" "n_root mod 16 = 0"
    and some: "ge_n_clst g \<noteq> 0"
  shows "fat_layout b_vol fs = Some (ge_fsty g, made_volume g n_fat n_root b_vol fs)"
proof -
  note f = boot_ofD [OF b] and q = fat_planD [OF p]
  let ?root = "if ge_fsty g = FS_FAT32 then 0 else ucast n_root :: u16"
  define fs1 where "fs1 = fs\<lparr>fsize := ge_sz_fat g, n_fats := ucast n_fat, csize := ucast (ge_pau g), n_rootdir := ?root\<rparr>"
  define sys where "sys = ge_sz_rsv g + ge_sz_fat g * n_fat + ge_sz_dir g"
  have pau: "(ucast (ucast (ge_pau g) :: u8) :: u16) = ucast (ge_pau g)" "(ucast (ucast (ge_pau g) :: u16) :: u32) = ge_pau g"
      "(ucast (ge_pau g) :: u16) \<noteq> 0" "(ucast (ge_pau g) :: u16) AND (ucast (ge_pau g) - 1) = 0"
    using q(2) by (auto simp: units_def)
  have nf: "(ucast n_fat :: u8) = 1 \<or> (ucast n_fat :: u8) = 2" "(ucast (ucast n_fat :: u8) :: u32) = n_fat" using r(1) by auto
  have ur: "unat (ucast n_root :: u16) = unat n_root" using r(3) by (simp add: unsigned_ucast_eq unsigned_take_bit_eq take_bit_nat_eq_self)
  have "unat n_root mod 16 = 0" using r(4) by (simp add: unat_mod flip: unat_eq_zero)
  then have "unat ((ucast n_root :: u16) mod 16) = 0" by (simp add: unat_mod ur)
  then have root: "?root mod 16 = 0" by (simp add: unat_eq_zero)
  have shape: "fat_shape fs = Some (True, fs1)"
    using f(1,4,5,7,8) table_sectors_of [OF b p] pau nf root
    by (simp add: fat_shape_def Let_def bpb_fields rd_def fs1_def)
  have dir: "(ucast (?root div 16) :: u32) = ge_sz_dir g"
  proof (rule unsigned_word_eqI [where ?'a = nat])
    have "unat (ucast y :: u32) = unat y" for y :: u16
      using unsigned_less [of y, where ?'a = nat] by (simp add: unsigned_ucast_eq take_bit_nat_eq_self)
    then show "unat (ucast (?root div 16) :: u32) = unat (ge_sz_dir g)" unfolding q(6) by (auto simp: unat_div ur)
  qed
  have "unat n_fat \<in> {1, 2}" using r(1) by auto
  have lim: "unat (ge_sz_rsv g) + unat (ge_sz_fat g) * unat n_fat + unat (ge_sz_dir g) \<le> unat sz_vol"
    using q(9) by (simp only: system_sectors_def)
  have usys: "unat sys = system_sectors n_fat g"
    unfolding sys_def system_sectors_def using lim v(2) by (simp add: unat_word_ariths)
  have uv: "unat (ucast sz_vol :: u32) = unat sz_vol" using v(2) by (simp add: unsigned_ucast_eq take_bit_nat_eq_self)
  have "(ucast sz_vol - sys) div ge_pau g = ge_n_clst g"
    using q(9,10) by (intro unsigned_word_eqI [where ?'a = nat]) (simp add: unat_div unat_sub_if' usys uv)
  moreover have "\<not> ucast sz_vol < sys" using q(9) by (simp add: word_less_nat_alt usys uv)
  moreover have "(ucast (ge_sz_rsv g) :: u16) \<noteq> 0" using ucast_u16 [OF q(4)] q(3) by (metis less_irrefl unsigned_0)
  moreover have "(ucast (ucast (ge_sz_rsv g) :: u16) :: u64) = ucast (ge_sz_rsv g)"
    using ucast_u16 [OF q(4)] q(4) by (intro unsigned_word_eqI [where ?'a = nat]) (simp add: unsigned_ucast_eq unsigned_take_bit_eq take_bit_nat_eq_self)
  ultimately have count: "fat_count b_vol fs1 = Some (ge_fsty g, fs1\<lparr>n_fatent := ge_n_clst g + 2, volbase := b_vol, fatbase := ge_b_fat g, database := b_vol + ucast sys\<rparr>)"
    using f(6) total_sectors_of [OF b v] q(1,5,11) some pau(2) nf(2) dir ucast_u16 [OF q(4)]
    by (auto simp: fat_count_def fs1_def Let_def bpb_fields sys_def fs_types)
  have "ge_fsty g \<noteq> FS_FAT32 \<Longrightarrow> (ucast n_root :: u16) \<noteq> 0" using ur r(2) by (metis unsigned_0 unsigned_word_eqI)
  moreover have "ge_fsty g \<noteq> 0" using q(1) by (auto simp: fs_types)
  ultimately show ?thesis
    using f(13) q(12) nf(2)
    by (simp add: fat_layout_def shape count) (auto simp: fat_root_def fs1_def made_volume_def bpb_fields sys_def not_less Let_def)
qed

end
