(* ===== verification/Ff_Made.thy ===== *)
theory Ff_Made
  imports Ff_Format
begin

text \<open>
  The disk behind a format: rows of sectors, the tables and the root directory.
\<close>

section \<open>Rows of sectors\<close>

definition blank :: "u8 list" where "blank = replicate 512 0"

lemma length_blank [simp]: "length blank = 512" by (simp add: blank_def)

text \<open>A working buffer of which only the first sector may hold anything.\<close>

definition work_buffer :: "u32 \<Rightarrow> u8 list \<Rightarrow> u8 list \<Rightarrow> bool" where
  "work_buffer sz_buf h buf \<longleftrightarrow> buf = h @ replicate (512 * unat sz_buf - 512) 0 \<and> length h = 512 \<and> sz_buf \<noteq> 0"

lemma unat_pos: "(n :: u32) \<noteq> 0 \<Longrightarrow> 1 \<le> unat n"
  by (metis One_nat_def Suc_leI gr_zeroI unat_eq_zero)

lemma work_buffer_length: "work_buffer sz_buf h buf \<Longrightarrow> length buf = 512 * unat sz_buf \<and> 512 \<le> length buf"
  using unat_pos [of sz_buf] by (auto simp: work_buffer_def)

lemma work_buffer_sector:
  assumes "work_buffer sz_buf h buf" and "i < unat sz_buf"
  shows "take 512 (drop (512 * i) buf) = (if i = 0 then h else blank)"
proof (cases "i = 0")
  case True
  then show ?thesis using assms by (simp add: work_buffer_def)
next
  case False
  then have "drop (512 * i) buf = replicate (512 * unat sz_buf - 512 - (512 * i - 512)) 0"
    using assms by (simp add: work_buffer_def)
  moreover have "512 \<le> 512 * unat sz_buf - 512 - (512 * i - 512)" using assms(2) False by linarith
  ultimately show ?thesis using False by (simp add: blank_def min_def)
qed

lemma work_buffer_clear:
  assumes "work_buffer sz_buf h buf"
  shows "\<exists>b. mem_set buf 0 0 512 = Some b \<and> work_buffer sz_buf blank b"
  using assms work_buffer_length [OF assms] by (auto simp: clear_sector work_buffer_def blank_def)

definition row :: "u64 \<Rightarrow> nat \<Rightarrow> u64 set" where
  "row s n = (\<lambda>i. s + of_nat i) ` {..<n}"

lemma row_add: "row s (m + n) = row s m \<union> row (s + of_nat m) n"
proof -
  have "(\<lambda>i. m + i) ` {..<n} = {m..<m + n}" by (simp add: lessThan_atLeast0 add.commute)
  then have "{..<m + n} = {..<m} \<union> (\<lambda>i. m + i) ` {..<n}" by auto
  then show ?thesis unfolding row_def by (simp add: image_Un image_image add.assoc)
qed

lemma place_eq:
  assumes "i < 2 ^ 64" and "j < 2 ^ 64"
  shows "(s :: u64) + of_nat i = s + of_nat j \<longleftrightarrow> i = j"
proof -
  have "(of_nat i :: u64) = of_nat j \<longleftrightarrow> unat (of_nat i :: u64) = unat (of_nat j :: u64)" by (simp add: word_unat_eq_iff)
  also have "\<dots> \<longleftrightarrow> i = j" using assms by (simp add: unat_of_nat)
  finally show ?thesis by simp
qed

lemma of_nat_unat32: "of_nat (unat (n :: u32)) = (ucast n :: u64)"
  by (simp add: unsigned_of_nat)

text \<open>What a row holds behind filling it, and that nothing else changes.\<close>

definition filled :: "('d \<Rightarrow> u64 \<Rightarrow> u8 list) \<Rightarrow> u8 list \<Rightarrow> u64 \<Rightarrow> nat \<Rightarrow> 'd \<Rightarrow> bool" where
  "filled cont h s n d \<longleftrightarrow> (\<forall>i < n. cont d (s + of_nat i) = (if i = 0 then h else blank))"

definition outside :: "('d \<Rightarrow> u64 \<Rightarrow> u8 list) \<Rightarrow> u64 set \<Rightarrow> 'd \<Rightarrow> 'd \<Rightarrow> bool" where
  "outside cont A d d' \<longleftrightarrow> (\<forall>t. t \<notin> A \<longrightarrow> cont d' t = cont d t)"

lemma outside_trans: "outside cont A d d1 \<Longrightarrow> outside cont B d1 d2 \<Longrightarrow> outside cont (A \<union> B) d d2"
  by (simp add: outside_def)

text \<open>A disk on which no write fails.\<close>

definition writes_succeed :: "'d disk_io \<Rightarrow> u8 \<Rightarrow> bool" where
  "writes_succeed io p \<longleftrightarrow> (\<forall>w s n d r d'. dwrite io p w s n d = Some (r, d') \<longrightarrow> r = RES_OK)"

lemma wsect_spec:
  assumes "writes_many io drv cont" and "512 * unat n \<le> length buf"
  shows "\<exists>ok d'. wsect io drv buf s n d = Some (ok, d') \<and> outside cont (row s (unat n)) d d'
     \<and> (ok \<longrightarrow> (\<forall>i < unat n. cont d' (s + of_nat i) = take 512 (drop (512 * i) buf))) \<and> (writes_succeed io drv \<longrightarrow> ok)"
proof -
  obtain r d' where "dwrite io drv buf s n d = Some (r, d')"
    and "\<forall>t. (\<forall>i < unat n. t \<noteq> s + of_nat i) \<longrightarrow> cont d' t = cont d t"
    and "r = RES_OK \<longrightarrow> (\<forall>i < unat n. cont d' (s + of_nat i) = take 512 (drop (512 * i) buf))"
    using assms unfolding writes_many_def by blast
  moreover from this(1) have "writes_succeed io drv \<Longrightarrow> r = RES_OK" unfolding writes_succeed_def by blast
  ultimately show ?thesis unfolding wsect_def outside_def row_def by (intro exI [of _ "r = RES_OK"] exI [of _ d']) auto
qed

lemma fill_sectors_spec:
  assumes w: "writes_many io drv cont"
  shows "work_buffer sz_buf h buf \<Longrightarrow> clear \<or> h = blank \<Longrightarrow> \<exists>ok buf' s' d'. fill_sectors io drv sz_buf clear buf s n d = Some (ok, buf', s', d')
     \<and> outside cont (row s (unat n)) d d' \<and> (ok \<longrightarrow> s' = s + ucast n \<and> work_buffer sz_buf blank buf' \<and> filled cont h s (unat n) d') \<and> (writes_succeed io drv \<longrightarrow> ok)"
proof (induction "unat n" arbitrary: n h buf s d rule: less_induct)
  case less
  define m where "m = (if sz_buf < n then sz_buf else n)"
  have m: "unat m = min (unat sz_buf) (unat n)" by (auto simp: m_def word_less_nat_alt)
  note len = work_buffer_length [OF less(2)]
  have "512 * unat m \<le> length buf" using len m by simp
  from wsect_spec [OF w this, of s d] obtain ok d1 where wr: "wsect io drv buf s m d = Some (ok, d1)"
    and o1: "outside cont (row s (unat m)) d d1" and g1: "writes_succeed io drv \<Longrightarrow> ok" and c1: "ok \<Longrightarrow> i < unat m \<Longrightarrow> cont d1 (s + of_nat i) = take 512 (drop (512 * i) buf)" for i
    by blast
  have f1: "ok \<Longrightarrow> filled cont h s (unat m) d1"
    using c1 work_buffer_sector [OF less(2)] m by (simp add: filled_def)
  obtain b where b: "(if clear then mem_set buf 0 0 512 else Some buf) = Some b" and wb: "work_buffer sz_buf blank b"
    using work_buffer_clear [OF less(2)] less(2,3) by (cases clear) auto
  have rows: "row s (unat m) \<union> row (s + ucast m) (unat (n - m)) = row s (unat n)"
  proof -
    have "unat (n - m) = unat n - unat m" using m by (simp add: unat_sub_if')
    then have "unat m + unat (n - m) = unat n" using m by simp
    then show ?thesis using row_add [of s "unat m" "unat (n - m)"] by (simp add: of_nat_unat32)
  qed
  show ?case
  proof (cases "ok \<and> n - m \<noteq> 0")
    case False
    then have "n - m = 0 \<or> \<not> ok" by blast
    moreover have "row s (unat m) \<subseteq> row s (unat n)" using rows by blast
    ultimately show ?thesis
      using wr o1 f1 b wb g1 by (subst fill_sectors.simps) (auto simp: outside_def simp flip: m_def)
  next
    case True
    then have "m = sz_buf" by (auto simp: m_def split: if_splits)
    have "n \<noteq> 0" using True by (auto simp: m_def split: if_splits)
    then have pos: "1 \<le> unat m" using m unat_pos [of n] unat_pos [of sz_buf] less(2) by (auto simp: work_buffer_def)
    have nm: "unat (n - m) = unat n - unat m" using m by (simp add: unat_sub_if')
    then have "unat (n - m) < unat n" using pos m by linarith
    have sum: "ucast m + ucast (n - m) = (ucast n :: u64)"
      unfolding of_nat_unat32 [symmetric] nm of_nat_add [symmetric] using m by simp
    from less(1) [OF \<open>unat (n - m) < unat n\<close> wb] obtain ok2 b2 s2 d2 where r: "fill_sectors io drv sz_buf clear b (s + ucast m) (n - m) d1 = Some (ok2, b2, s2, d2)"
      and o2: "outside cont (row (s + ucast m) (unat (n - m))) d1 d2"
      and f2: "ok2 \<Longrightarrow> s2 = s + ucast m + ucast (n - m) \<and> work_buffer sz_buf blank b2 \<and> filled cont blank (s + ucast m) (unat (n - m)) d2"
      and g2: "writes_succeed io drv \<Longrightarrow> ok2"
      by blast
    have "filled cont h s (unat n) d2" if ok2
      unfolding filled_def
    proof (intro allI impI)
      fix i assume i: "i < unat n"
      then have i64: "i < 2 ^ 64" using unsigned_less [of n, where ?'a = nat] by simp
      show "cont d2 (s + of_nat i) = (if i = 0 then h else blank)"
      proof (cases "i < unat m")
        case True
        have "s + of_nat i \<notin> row (s + ucast m) (unat (n - m))"
        proof
          assume "s + of_nat i \<in> row (s + ucast m) (unat (n - m))"
          then obtain j where j: "j < unat (n - m)" "s + of_nat i = s + of_nat (unat m + j)"
            by (auto simp: row_def of_nat_unat32 add.assoc)
          have "unat m + j < 2 ^ 64" using j(1) nm unsigned_less [of n, where ?'a = nat] by simp
          then show False using place_eq [OF i64, of "unat m + j" s] j(2) True by simp
        qed
        then show ?thesis using o2 f1 True \<open>ok \<and> n - m \<noteq> 0\<close> by (simp add: outside_def filled_def)
      next
        case False
        then obtain j where ij: "i = unat m + j" using le_Suc_ex not_less by blast
        then have "j < unat (n - m)" using i nm by simp
        then have "cont d2 (s + ucast m + of_nat j) = blank" using f2 [OF that] by (simp add: filled_def)
        moreover have "s + of_nat i = s + ucast m + of_nat j" unfolding ij by (simp add: of_nat_unat32 add.assoc)
        ultimately have "cont d2 (s + of_nat i) = blank" by (simp only:)
        then show ?thesis using ij pos by simp
      qed
    qed
    then show ?thesis
      using wr True b r outside_trans [OF o1 o2] f2 rows sum g2 by (subst fill_sectors.simps) (auto simp: add.assoc simp flip: m_def)
  qed
qed

lemma row_disjoint:
  assumes "m + n \<le> 2 ^ 64"
  shows "row s m \<inter> row (s + of_nat m) n = {}"
proof -
  have "s + of_nat i \<noteq> s + of_nat (m + j)" if "i < m" "j < n" for i j
    using place_eq [of i "m + j" s] that assms by simp
  then show ?thesis unfolding row_def by (auto simp: add.assoc)
qed

lemma filled_outside:
  "\<lbrakk>filled cont h s n d; outside cont A d d'; row s n \<inter> A = {}\<rbrakk> \<Longrightarrow> filled cont h s n d'"
  unfolding filled_def outside_def row_def by (metis (no_types, lifting) IntI empty_iff image_eqI lessThan_iff)

section \<open>The tables\<close>

definition table_head :: "u8 \<Rightarrow> u8 list" where
  "table_head ty =
     (if ty = FS_FAT32 then blank[0 := 0xF8, 1 := 0xFF, 2 := 0xFF, 3 := 0xFF, 4 := 0xFF, 5 := 0xFF, 6 := 0xFF, 7 := 0xFF, 8 := 0xFF, 9 := 0xFF, 10 := 0xFF, 11 := 0x0F]
      else if ty = FS_FAT12 then blank[0 := 0xF8, 1 := 0xFF, 2 := 0xFF, 3 := 0]
      else blank[0 := 0xF8, 1 := 0xFF, 2 := 0xFF, 3 := 0xFF])"

lemma octet_literals: "(0xFFFFFFF8 :: u8) = 0xF8" "(0xFFFFF8 :: u8) = 0xF8" "(0xFFFFFFFF :: u8) = 0xFF" "(0xFFFFFF :: u8) = 0xFF"
  "(0xFFFF :: u8) = 0xFF" "(0x0FFFFFFF :: u8) = 0xFF" "(0x0FFFFF :: u8) = 0xFF" "(0xFFF :: u8) = 0xFF"
  by (simp_all add: word_uint_eq_iff)

lemma fat_head_work:
  assumes "work_buffer sz_buf blank buf"
  shows "\<exists>b. fat_head ty buf = Some b \<and> work_buffer sz_buf (table_head ty) b"
proof -
  have l: "k \<le> 512 \<Longrightarrow> k \<le> length buf" for k using work_buffer_length [OF assms] by simp
  have "buf = blank @ replicate (512 * unat sz_buf - 512) 0" "sz_buf \<noteq> 0" using assms by (simp_all add: work_buffer_def)
  then show ?thesis using l
    by (simp add: fat_head_def st_dword_eq work_buffer_def table_head_def list_update_append fs_types octet_literals flip: numeral_2_eq_2)
qed

lemma fat_copies_spec:
  assumes w: "writes_many io drv cont"
  shows "work_buffer sz_buf blank buf \<Longrightarrow> k * unat (ge_sz_fat g) \<le> 2 ^ 63 \<Longrightarrow> \<exists>ok buf' s' d'. fat_copies io drv sz_buf g k buf s d = Some (ok, buf', s', d')
     \<and> outside cont (row s (k * unat (ge_sz_fat g))) d d'
     \<and> (ok \<longrightarrow> s' = s + of_nat (k * unat (ge_sz_fat g)) \<and> work_buffer sz_buf blank buf'
           \<and> (\<forall>j < k. filled cont (table_head (ge_fsty g)) (s + of_nat (j * unat (ge_sz_fat g))) (unat (ge_sz_fat g)) d')) \<and> (writes_succeed io drv \<longrightarrow> ok)"
proof (induction k arbitrary: buf s d)
  case 0
  then show ?case by (intro exI [of _ True] exI [of _ buf]) (simp add: outside_def)
next
  case (Suc k)
  let ?F = "unat (ge_sz_fat g)" and ?h = "table_head (ge_fsty g)"
  obtain b where b: "fat_head (ge_fsty g) buf = Some b" and wb: "work_buffer sz_buf ?h b"
    using fat_head_work [OF Suc(2)] by blast
  obtain ok b1 s1 d1 where f: "fill_sectors io drv sz_buf True b s (ge_sz_fat g) d = Some (ok, b1, s1, d1)"
    and o1: "outside cont (row s ?F) d d1"
    and ok: "ok \<Longrightarrow> s1 = s + ucast (ge_sz_fat g) \<and> work_buffer sz_buf blank b1 \<and> filled cont ?h s ?F d1"
    and g1: "writes_succeed io drv \<Longrightarrow> ok"
    using fill_sectors_spec [OF w wb] by blast
  have rows: "row s (Suc k * ?F) = row s ?F \<union> row (s + of_nat ?F) (k * ?F)" using row_add [of s ?F "k * ?F"] by simp
  show ?case
  proof (cases ok)
    case False
    then show ?thesis using b f o1 rows g1 by (auto simp: outside_def)
  next
    case True
    note s1 = conjunct1 [OF ok [OF True]] and w1 = conjunct1 [OF conjunct2 [OF ok [OF True]]] and f1 = conjunct2 [OF conjunct2 [OF ok [OF True]]]
    have "k * ?F \<le> 2 ^ 63" using Suc(3) by simp
    from Suc.IH [OF w1 this, of s1 d1] obtain ok2 b2 s2 d2 where c: "fat_copies io drv sz_buf g k b1 s1 d1 = Some (ok2, b2, s2, d2)"
      and o2: "outside cont (row s1 (k * ?F)) d1 d2"
      and ok2: "ok2 \<Longrightarrow> s2 = s1 + of_nat (k * ?F) \<and> work_buffer sz_buf blank b2 \<and> (\<forall>j < k. filled cont ?h (s1 + of_nat (j * ?F)) ?F d2)"
      and g2: "writes_succeed io drv \<Longrightarrow> ok2"
      by blast
    have s1': "s1 = s + of_nat ?F" unfolding s1 of_nat_unat32 ..
    have "row s ?F \<inter> row s1 (k * ?F) = {}" unfolding s1' by (rule row_disjoint) (use Suc(3) in simp)
    note f2 = filled_outside [OF f1 o2 this]
    have "filled cont ?h (s + of_nat (j * ?F)) ?F d2" if "ok2" "j < Suc k" for j
    proof (cases j)
      case 0
      then show ?thesis using f2 by simp
    next
      case (Suc i)
      then show ?thesis using ok2 [OF that(1)] that(2) by (simp add: s1' add.assoc)
    qed
    then show ?thesis
      using b f c True outside_trans [OF o1 o2] ok2 rows g2 by (simp add: s1' add.assoc)
  qed
qed

section \<open>A volume on the disk\<close>

lemma row_1: "row s 1 = {s}" by (simp add: row_def lessThan_Suc)

lemma put_fsinfo_spec:
  assumes w: "writes_many io drv cont" and l: "512 \<le> length buf"
  shows "\<exists>buf' d'. put_fsinfo io drv g b_vol buf d = Some (buf', d') \<and> length buf' = length buf
     \<and> outside cont {b_vol + 1, b_vol + 6, b_vol + 7} d d'"
proof (cases "ge_fsty g = FS_FAT32")
  case False
  then show ?thesis by (simp add: put_fsinfo_def outside_def)
next
  case True
  have one: "\<exists>ok d'. wsect io drv x s 1 d = Some (ok, d') \<and> outside cont {s} d d'" if "length x = length buf" for x s d
    using wsect_spec [OF w, of 1 x s d] that l by (auto simp: row_1 simp flip: One_nat_def)
  define x where "x = replicate 512 0 @ drop 512 buf"
  have x: "mem_set buf 0 0 512 = Some x" "length x = length buf" using clear_sector [OF l] l by (simp_all add: x_def)
  obtain y where y: "(do { x \<leftarrow> st_dword x FSI_LeadSig 0x41615252; x \<leftarrow> st_dword x FSI_StrucSig 0x61417272;
      x \<leftarrow> st_dword x FSI_Free_Count (ge_n_clst g - 1); x \<leftarrow> st_dword x FSI_Nxt_Free 2; st_word x BS_55AA 0xAA55 }) = Some y" "length y = length buf"
    using l x(2) by (auto simp: st_dword_eq st_word_eq FSI_LeadSig_def FSI_StrucSig_def FSI_Free_Count_def FSI_Nxt_Free_def BS_55AA_def)
  obtain o1 d1 where d1: "wsect io drv buf (b_vol + 6) 1 d = Some (o1, d1)" "outside cont {b_vol + 6} d d1" using one by blast
  obtain o2 d2 where d2: "wsect io drv y (b_vol + 7) 1 d1 = Some (o2, d2)" "outside cont {b_vol + 7} d1 d2" using one y(2) by blast
  obtain o3 d3 where d3: "wsect io drv y (b_vol + 1) 1 d2 = Some (o3, d3)" "outside cont {b_vol + 1} d2 d3" using one y(2) by blast
  have "put_fsinfo io drv g b_vol buf d = Some (y, d3)"
    using y(1) True by (auto simp: put_fsinfo_def d1 d2 d3 x split: bind_splits)
  moreover have "outside cont {b_vol + 1, b_vol + 6, b_vol + 7} d d3"
    using d1(2) d2(2) d3(2) by (simp add: outside_def)
  ultimately show ?thesis using y(2) by blast
qed

lemma clear_all:
  assumes "sz_buf \<noteq> 0" and "unat sz_buf * 512 < 2 ^ 32" and "length buf = unat sz_buf * 512"
  shows "\<exists>b. mem_set buf 0 0 (sz_buf * 512) = Some b \<and> work_buffer sz_buf blank b"
proof -
  have u: "unat (sz_buf * 512) = unat sz_buf * 512" using assms(2) by (simp add: unat_word_ariths)
  then have "sz_buf * 512 \<noteq> 0" using unat_pos [OF assms(1)] by (metis mult_is_0 not_one_le_zero unsigned_0 zero_neq_numeral)
  moreover have "replicate (unat sz_buf * 512) 0 = blank @ replicate (512 * unat sz_buf - 512) 0"
    using unat_pos [OF assms(1)] by (simp add: blank_def mult.commute flip: replicate_add)
  ultimately show ?thesis using assms(1,3) by (simp add: mem_set_spec u work_buffer_def)
qed

definition root_sectors :: "mkfs_geo \<Rightarrow> u32" where
  "root_sectors g = (if ge_fsty g = FS_FAT32 then ge_pau g else ge_sz_dir g)"

text \<open>What the disk holds of a volume that was made: the boot sector, the tables, the root directory.\<close>

definition made :: "('d \<Rightarrow> u64 \<Rightarrow> u8 list) \<Rightarrow> mkfs_geo \<Rightarrow> u32 \<Rightarrow> u32 \<Rightarrow> u64 \<Rightarrow> u64 \<Rightarrow> 'd \<Rightarrow> bool" where
  "made cont g n_fat n_root b_vol sz_vol d \<longleftrightarrow>
     boot_of g n_fat n_root sz_vol (cont d b_vol)
     \<and> (\<forall>j < unat n_fat. filled cont (table_head (ge_fsty g)) (ge_b_fat g + of_nat (j * unat (ge_sz_fat g))) (unat (ge_sz_fat g)) d)
     \<and> filled cont blank (ge_b_fat g + of_nat (unat n_fat * unat (ge_sz_fat g))) (unat (root_sectors g)) d"

lemma create_fat_spec:
  assumes w: "writes_many io drv cont" and p: "fat_plan b_vol sz_vol n_fat n_root g" and v: "unat sz_vol < 2 ^ 32"
    and buf: "sz_buf \<noteq> 0" "unat sz_buf * 512 < 2 ^ 32" "length buf = unat sz_buf * 512"
  shows "\<exists>res buf' d'. create_fat io drv sz_buf g n_fat n_root b_vol sz_vol buf d = Some (res, buf', d') \<and> res \<in> {FR_OK, FR_DISK_ERR}
     \<and> (res = FR_OK \<longrightarrow> made cont g n_fat n_root b_vol sz_vol d') \<and> (writes_succeed io drv \<longrightarrow> res = FR_OK)"
proof -
  note q = fat_planD [OF p]
  let ?F = "unat (ge_sz_fat g)" and ?n = "unat n_fat * unat (ge_sz_fat g)" and ?h = "table_head (ge_fsty g)"
  have l: "512 \<le> length buf" using buf(1,3) unat_pos [OF buf(1)] by simp
  obtain x where x: "fat_vbr g n_fat n_root b_vol sz_vol (fattime io d) buf = Some x" "length x = length buf"
      and bx: "boot_of g n_fat n_root sz_vol (take 512 x)"
    using fat_vbr_boot [OF l] by blast
  obtain o1 d1 where d1: "wsect io drv x b_vol 1 d = Some (o1, d1)" and c1: "o1 \<Longrightarrow> cont d1 b_vol = take 512 x"
      and g1: "writes_succeed io drv \<Longrightarrow> o1"
    using wsect_spec [OF w, of 1 x b_vol d] x(2) l by (auto simp flip: One_nat_def)
  obtain x2 d2 where d2: "put_fsinfo io drv g b_vol x d1 = Some (x2, d2)" "length x2 = length buf"
      and f2: "outside cont {b_vol + 1, b_vol + 6, b_vol + 7} d1 d2"
    using put_fsinfo_spec [OF w, of x g b_vol d1] x(2) l by auto
  obtain x3 where x3: "mem_set x2 0 0 (sz_buf * 512) = Some x3" "work_buffer sz_buf blank x3"
    using clear_all [OF buf(1,2), of x2] d2(2) buf(3) by auto
  have n: "?n \<le> unat sz_vol" "unat (ge_sz_rsv g) + ?n \<le> unat sz_vol"
    using q(9) by (simp_all add: system_sectors_def mult.commute)
  then have "?n \<le> 2 ^ 63" using v by simp
  from fat_copies_spec [OF w x3(2) this, of "ge_b_fat g" d2] obtain o4 x4 s4 d4
    where d4: "fat_copies io drv sz_buf g (unat n_fat) x3 (ge_b_fat g) d2 = Some (o4, x4, s4, d4)"
      and f4: "outside cont (row (ge_b_fat g) ?n) d2 d4"
      and c4: "o4 \<Longrightarrow> s4 = ge_b_fat g + of_nat ?n \<and> work_buffer sz_buf blank x4
        \<and> (\<forall>j < unat n_fat. filled cont ?h (ge_b_fat g + of_nat (j * ?F)) ?F d4)"
      and g4: "writes_succeed io drv \<Longrightarrow> o4"
    by blast
  show ?thesis
  proof (cases "o1 \<and> o4")
    case False
    then show ?thesis using g1 g4 by (auto simp: create_fat_def x d1 d2 x3 d4)
  next
    case True
    then have s4: "s4 = ge_b_fat g + of_nat ?n" and w4: "work_buffer sz_buf blank x4"
      and t4: "\<And>j. j < unat n_fat \<Longrightarrow> filled cont ?h (ge_b_fat g + of_nat (j * ?F)) ?F d4"
      using c4 by blast+
    obtain o5 x5 s5 d5 where d5: "fill_sectors io drv sz_buf False x4 s4 (root_sectors g) d4 = Some (o5, x5, s5, d5)"
      and f5: "outside cont (row s4 (unat (root_sectors g))) d4 d5"
      and c5: "o5 \<Longrightarrow> filled cont blank s4 (unat (root_sectors g)) d5"
      and g5: "writes_succeed io drv \<Longrightarrow> o5"
      using fill_sectors_spec [OF w w4] by blast
    have base: "ge_b_fat g = b_vol + of_nat (unat (ge_sz_rsv g))" using q(5) by (simp add: of_nat_unat32)
    have root: "unat (root_sectors g) < 2 ^ 32" using unsigned_less [of "root_sectors g", where ?'a = nat] by simp
    have boot: "cont d5 b_vol = take 512 x"
    proof -
      let ?R = "unat (ge_sz_rsv g)"
      have "row b_vol ?R \<inter> row (b_vol + of_nat ?R) (?n + unat (root_sectors g)) = {}"
        by (rule row_disjoint) (use n v root in simp)
      moreover have "b_vol \<in> row b_vol ?R" unfolding row_def using q(3) by (intro image_eqI [of _ _ 0]) simp_all
      moreover have "row (b_vol + of_nat ?R) (?n + unat (root_sectors g)) = row (ge_b_fat g) ?n \<union> row s4 (unat (root_sectors g))"
        unfolding row_add s4 base ..
      ultimately have "b_vol \<notin> row (ge_b_fat g) ?n \<union> row s4 (unat (root_sectors g))" by blast
      then show ?thesis using f2 f4 f5 c1 True by (simp add: outside_def)
    qed
    have "filled cont ?h (ge_b_fat g + of_nat (j * ?F)) ?F d5" if j: "j < unat n_fat" for j
    proof (rule filled_outside [OF t4 [OF j] f5])
      have "(j + 1) * ?F \<le> ?n" using j by (intro mult_le_mono1) simp
      then obtain k where k: "?n = j * ?F + (?F + k)" by (metis add.assoc add_mult_distrib le_Suc_ex mult_1)
      have "row (ge_b_fat g) ?n \<inter> row s4 (unat (root_sectors g)) = {}"
        unfolding s4 by (rule row_disjoint) (use n v root in simp)
      then show "row (ge_b_fat g + of_nat (j * ?F)) ?F \<inter> row s4 (unat (root_sectors g)) = {}"
        unfolding k row_add by blast
    qed
    then have "o5 \<Longrightarrow> made cont g n_fat n_root b_vol sz_vol d5"
      using boot bx c5 by (simp add: made_def s4)
    then show ?thesis
      using True d5 g5 by (auto simp: create_fat_def x d1 d2 x3 d4 root_sectors_def)
  qed
qed

section \<open>The empty volume\<close>

lemma blank_nth: "i < 512 \<Longrightarrow> blank ! i = 0"
  by (simp add: blank_def)

lemma head_nth: "\<lbrakk>i < 512; (if ty = FS_FAT32 then 12 else if ty = FS_FAT12 then 3 else 4) \<le> i\<rbrakk> \<Longrightarrow> table_head ty ! i = 0"
  by (auto simp: table_head_def blank_nth nth_list_update split: if_splits)

text \<open>An object of the file system with its window at the boot sector, and the same one mounted.\<close>

definition at_boot :: "('d \<Rightarrow> u64 \<Rightarrow> u8 list) \<Rightarrow> 'd \<Rightarrow> u64 \<Rightarrow> fatfs \<Rightarrow> fatfs" where
  "at_boot cont d b_vol fs = fs\<lparr>win := cont d b_vol, winsect := b_vol, wflag := 0\<rparr>"

lemma length_head: "length (table_head ty) = 512"
  by (simp add: table_head_def)

lemma zero_word: "\<lbrakk>length s = 512; k + 1 < 512; s ! k = 0; s ! (k + 1) = 0\<rbrakk> \<Longrightarrow> ld_word s k = Some 0"
  by (simp add: ld_word_eq)

definition mounted_as :: "mkfs_geo \<Rightarrow> u32 \<Rightarrow> u32 \<Rightarrow> u64 \<Rightarrow> fatfs \<Rightarrow> fatfs" where
  "mounted_as g n_fat n_root b_vol fs = (made_volume g n_fat n_root b_vol fs)\<lparr>fs_type := ge_fsty g\<rparr>"

lemma mounted_as_fields:
  "fs_type (mounted_as g n_fat n_root b_vol fs) = ge_fsty g" "fsize (mounted_as g n_fat n_root b_vol fs) = ge_sz_fat g"
  "fatbase (mounted_as g n_fat n_root b_vol fs) = ge_b_fat g" "n_fatent (mounted_as g n_fat n_root b_vol fs) = ge_n_clst g + 2"
  "shown cont (mounted_as g n_fat n_root b_vol (at_boot cont d b_vol fs)) d t = cont d t"
  by (simp_all add: mounted_as_def made_volume_def shown_def at_boot_def)

lemma mounted_as_ok:
  assumes b: "boot_of g n_fat n_root sz_vol (win fs)" and p: "fat_plan b_vol sz_vol n_fat n_root g"
    and req: "fat_request b_vol sz_vol sz_blk n_fat n_root fsty sz_au" and some: "ge_n_clst g \<noteq> 0"
  shows "volume_ok (mounted_as g n_fat n_root b_vol fs)"
proof -
  note r = fat_requestD [OF req]
  have "ge_fsty g \<noteq> 0" using fat_planD(1) [OF p] by (auto simp: fs_types)
  from fat_layout_sizes(1) [OF fat_layout_of [OF b p r(1-6) some] this]
  have "fat_sizes (win fs) b_vol (ge_fsty g) (made_volume g n_fat n_root b_vol fs)" .
  then have "fat_sizes (win fs) b_vol (ge_fsty g) (mounted_as g n_fat n_root b_vol fs)"
    by (rule same_sizes_fat [rotated]) (simp add: same_sizes_def mounted_as_def)
  then show ?thesis by (rule fat_sizes_volume_ok) (use r(7) in \<open>simp_all add: mounted_as_fields\<close>)
qed

lemma made_table:
  fixes i :: u32
  assumes m: "made cont g n_fat n_root b_vol sz_vol d" and nf: "n_fat \<in> {1, 2}" and i: "unat i < unat (ge_sz_fat g)"
  shows "cont d (ge_b_fat g + ucast i) = (if i = 0 then table_head (ge_fsty g) else blank)"
proof -
  have "0 < unat n_fat" using nf by auto
  then have "filled cont (table_head (ge_fsty g)) (ge_b_fat g) (unat (ge_sz_fat g)) d" using m by (force simp: made_def)
  then have "cont d (ge_b_fat g + of_nat (unat i)) = (if unat i = 0 then table_head (ge_fsty g) else blank)"
    using i unfolding filled_def by blast
  then show ?thesis by (simp only: of_nat_unat32 unat_eq_zero)
qed

lemma made_entries:
  assumes m: "made cont g n_fat n_root b_vol sz_vol d" and nf: "n_fat \<in> {1, 2}" and ok: "volume_ok (mounted_as g n_fat n_root b_vol (at_boot cont d b_vol fs))"
    and c: "in_fat (mounted_as g n_fat n_root b_vol (at_boot cont d b_vol fs)) c"
  shows "fat_entry cont (mounted_as g n_fat n_root b_vol (at_boot cont d b_vol fs)) d c = Some (if ge_fsty g = FS_FAT32 \<and> c = 2 then 0x0FFFFFFF else 0)"
proof -
  let ?fs = "mounted_as g n_fat n_root b_vol (at_boot cont d b_vol fs)"
  note f = mounted_as_fields
  have c2: "2 \<le> unat c" and lt: "c < n_fatent ?fs" using c by (simp_all add: in_fat_def word_le_nat_alt)
  have sect: "cont d (fat_sector ?fs n) = (if n = 0 then table_head (ge_fsty g) else blank)" if "unat n < unat (ge_sz_fat g)" for n
    using made_table [OF m nf that] by (simp add: fat_sector_def f)
  consider "ge_fsty g = FS_FAT12" | "ge_fsty g = FS_FAT16" | "ge_fsty g = FS_FAT32"
    using volume_okD(4) [OF ok] by (auto simp: f)
  then show ?thesis
  proof cases
    case 1
    note p = place12 [OF ok _ lt]
    have o: "fat_octet cont ?fs d k = 0" if "3 \<le> unat k" "unat k < 512 * unat (ge_sz_fat g)" for k
    proof -
      note o = octet_place [of k ?fs, unfolded f, OF that(2)]
      have "unat (k mod 512) = unat k mod 512" "k div 512 = 0 \<longleftrightarrow> unat k div 512 = 0" by (simp_all add: unat_mod unat_div flip: unat_eq_zero)
      then show ?thesis
        using that(1) o by (auto simp: fat_octet_def f sect blank_nth 1 fs_types head_nth)
    qed
    have "2 \<le> unat c + unat c div 2 \<and> 3 \<le> unat c + unat c div 2" using c2 by auto
    then have "fat_octet cont ?fs d (c + c div 2) = 0" "fat_octet cont ?fs d (c + c div 2 + 1) = 0"
      using p 1 by (intro o; simp add: f)+
    then show ?thesis using 1 by (simp add: fat_entry_def f entry12_def fs_types)
  next
    case 2
    note p = place16 [OF ok _ lt, unfolded f, OF 2]
    define s where "s = (if c div 256 = 0 then table_head FS_FAT16 else blank)"
    have z: "s ! k = 0" if "k < 512" "unat c mod 256 * 2 \<le> k" for k
    proof -
      have "c div 256 = 0 \<Longrightarrow> 4 \<le> k" using that(2) c2 by (simp add: unat_div mod_if flip: unat_eq_zero split: if_splits)
      then show ?thesis using that(1) by (auto simp: s_def blank_nth head_nth fs_types)
    qed
    have "ld_word s (unat c mod 256 * 2) = Some 0"
      by (rule zero_word) (auto intro!: z simp: length_head s_def [symmetric], simp add: s_def length_head)
    moreover have "cont d (fat_sector ?fs (c div 256)) = s" using sect [OF p(1)] 2 by (simp add: s_def)
    ultimately show ?thesis using p(2) 2 by (simp add: fat_entry_def f fs_types)
  next
    case 3
    note p = place32 [OF ok _ lt, unfolded f, OF 3]
    define s where "s = (if c div 128 = 0 then table_head FS_FAT32 else blank)"
    have l: "length s = 512" by (simp add: s_def length_head)
    have z: "s ! k = 0" if "k < 512" "unat c mod 128 * 4 \<le> k" "c \<noteq> 2" for k
    proof -
      have "unat (2 :: u32) = 2" by simp
      then have "unat c \<noteq> 2" using that(3) unsigned_word_eqI by metis
      then have "c div 128 = 0 \<Longrightarrow> 12 \<le> k" using that(2) c2 by (simp add: unat_div mod_if flip: unat_eq_zero split: if_splits)
      then show ?thesis using that(1) by (auto simp: s_def blank_nth head_nth fs_types)
    qed
    have "ld_dword s (unat c mod 128 * 4) = Some (if c = 2 then 0x0FFFFFFF else 0)"
    proof (cases "c = 2")
      case True
      then show ?thesis by (simp add: s_def ld_dword_eq table_head_def length_head)
    next
      case False
      have "unat c mod 128 * 4 + 4 \<le> 512" by simp
      with False show ?thesis using l by (simp add: ld_dword_eq z)
    qed
    moreover have "cont d (fat_sector ?fs (c div 128)) = s" using sect [OF p(1)] 3 by (simp add: s_def)
    ultimately show ?thesis using p(2) 3 by (simp add: fat_entry_def f fs_types)
  qed
qed

text \<open>Where the root directory lies: behind the tables, or in the first cluster.\<close>

definition root_place :: "fatfs \<Rightarrow> u64" where
  "root_place fs = (if fs_type fs = FS_FAT32 then clst2sect fs (ucast (dirbase fs)) else dirbase fs)"

lemma made_root:
  assumes p: "fat_plan b_vol sz_vol n_fat n_root g" and v: "unat sz_vol < 2 ^ 32" and some: "ge_n_clst g \<noteq> 0"
  shows "root_place (mounted_as g n_fat n_root b_vol fs) = ge_b_fat g + of_nat (unat n_fat * unat (ge_sz_fat g))"
proof -
  note q = fat_planD [OF p]
  have lim: "unat (ge_sz_rsv g) + unat (ge_sz_fat g) * unat n_fat < 2 ^ 32"
    using q(9) v by (simp add: system_sectors_def)
  then have "unat (ge_sz_fat g) * unat n_fat < 2 ^ LENGTH(32)" by simp
  then have m: "unat (ge_sz_fat g * n_fat) = unat (ge_sz_fat g) * unat n_fat" by (rule iffD1 [OF unat_mult_lem])
  then have t: "ge_b_fat g + of_nat (unat n_fat * unat (ge_sz_fat g)) = ge_b_fat g + ucast (ge_sz_fat g * n_fat)"
    unfolding of_nat_unat32 [symmetric] by (simp only: mult.commute)
  show ?thesis
  proof (cases "ge_fsty g = FS_FAT32")
    case False
    then show ?thesis unfolding t by (simp add: root_place_def mounted_as_def made_volume_def)
  next
    case True
    have "ge_sz_dir g = 0" using q(6) True by (simp add: unat_eq_zero)
    moreover have "(ucast (ge_sz_rsv g + ge_sz_fat g * n_fat) :: u64) = ucast (ge_sz_rsv g) + ucast (ge_sz_fat g * n_fat)"
      by (rule ucast_add_small) (use lim m in simp)
    moreover have "\<not> ge_n_clst g \<le> 0" using some by (simp add: word_le_nat_alt unat_eq_zero)
    ultimately show ?thesis
      unfolding t using True q(5) by (simp add: root_place_def mounted_as_def made_volume_def clst2sect_def add.assoc)
  qed
qed

text \<open>
  C25. What \<open>f_mkfs\<close> makes, mounting accepts. For every request in range, writing a FAT volume ends with
  success or a disk error. After success the boot sector of the volume is taken for one of a FAT volume, and
  mounting reads from it the kind, the sizes and the places the volume was made with, which are those of a
  sound volume. Every cluster of the table is free but that of a FAT32 root directory, and the root
  directory is empty. The one exception is a configuration without any cluster, which \<open>f_mkfs\<close> accepts for
  very small FAT12 volumes when the alignment moves the data area to the end.
\<close>

theorem created_volume_mounts:
  assumes "writes_many io drv cont" and "mkfs_type fsopt sz_vol sz_au = Inr (fsty, au)"
    and "fat_request b_vol sz_vol sz_blk n_fat n_root fsty au"
    and "fat_config fsopt b_vol sz_vol sz_blk n_fat n_root fsty au = Inr g" and "ge_n_clst g \<noteq> 0"
    and "sz_buf \<noteq> 0" and "unat sz_buf * 512 < 2 ^ 32" and "length buf = unat sz_buf * 512"
  shows "\<exists>res buf' d'. create_volume io drv fsopt sz_buf sz_blk n_fat n_root sz_au b_vol sz_vol buf d = Some (res, ge_fsty g, buf', d')
     \<and> (writes_succeed io drv \<longrightarrow> res = FR_OK)
     \<and> (res = FR_DISK_ERR \<or> res = FR_OK \<and> boot_kind (cont d' b_vol) = Some 0
        \<and> (let fs0 = at_boot cont d' b_vol fs; fs' = mounted_as g n_fat n_root b_vol fs0 in
             fat_layout b_vol fs0 = Some (ge_fsty g, made_volume g n_fat n_root b_vol fs0) \<and> volume_ok fs'
             \<and> (\<forall>c. in_fat fs' c \<longrightarrow> fat_entry cont fs' d' c = Some (if ge_fsty g = FS_FAT32 \<and> c = 2 then 0x0FFFFFFF else 0))
             \<and> (\<forall>i < unat (root_sectors g). cont d' (root_place fs' + of_nat i) = blank)))"
proof -
  note r = fat_requestD [OF assms(3)]
  note p = fat_config_plan [OF assms(4,3)]
  obtain res buf' d' where c: "create_fat io drv sz_buf g n_fat n_root b_vol sz_vol buf d = Some (res, buf', d')" "res \<in> {FR_OK, FR_DISK_ERR}"
    and m: "res = FR_OK \<Longrightarrow> made cont g n_fat n_root b_vol sz_vol d'"
    and g: "writes_succeed io drv \<Longrightarrow> res = FR_OK"
    using create_fat_spec [OF assms(1) p r(2) assms(6-8)] by blast
  have "fsty \<noteq> FS_EXFAT" using assms(3) by (auto simp: fat_request_def fs_types FS_EXFAT_def)
  then have v: "create_volume io drv fsopt sz_buf sz_blk n_fat n_root sz_au b_vol sz_vol buf d = Some (res, ge_fsty g, buf', d')"
    using assms(2,4) c(1) by (simp add: create_volume_def)
  show ?thesis
  proof (cases "res = FR_OK")
    case False
    then show ?thesis using v c(2) g by auto
  next
    case True
    let ?fs0 = "at_boot cont d' b_vol fs"
    have b: "boot_of g n_fat n_root sz_vol (win ?fs0)" using m [OF True] by (simp add: made_def at_boot_def)
    note ok = mounted_as_ok [OF b p assms(3,5)]
    have "boot_kind (cont d' b_vol) = Some 0" using boot_kind_of [OF b p r(3-5)] by (simp add: at_boot_def)
    moreover have "\<forall>i < unat (root_sectors g). cont d' (root_place (mounted_as g n_fat n_root b_vol ?fs0) + of_nat i) = blank"
      using m [OF True] unfolding made_root [OF p r(2) assms(5)] by (simp add: made_def filled_def)
    ultimately show ?thesis
      using v True fat_layout_of [OF b p r(1-6) assms(5)] ok made_entries [OF m [OF True] r(3) ok]
      by (intro exI [of _ res] exI [of _ buf'] exI [of _ d']) (simp add: Let_def)
  qed
qed

lemma low_ones: "(ucast (- 1 :: u32) :: u64) = 0xFFFFFFFF"
  by (rule unsigned_word_eqI [where ?'a = nat]) (simp add: unat_ucast_64 unsigned_minus_1_eq_mask mask_eq_exp_minus_1)

lemma ones_256: "(ucast (NOT 255 :: u32) :: u64) = 0xFFFFFF00"
  by (rule unsigned_word_eqI [where ?'a = nat]) (simp add: unat_ucast_64)

lemma small_config: "fat_config FM_FAT 0 256 1 2 512 FS_FAT16 0
    = Inr \<lparr>ge_fsty = FS_FAT12, ge_pau = 1, ge_n_clst = 221, ge_sz_fat = 1, ge_sz_rsv = 1, ge_sz_dir = 32, ge_b_fat = 1\<rparr>"
  by (subst fat_config.simps) (simp add: fat_try_def fat_guess_def fat_data_base_def fat_align_def cst_def fs_types
    MAX_FAT12_def MAX_FAT16_def SZDIRE_def Let_def low_ones)

text \<open>The exception: a volume of 256 sectors with its data area moved to a multiple of 256 has no cluster.\<close>

lemma volume_without_clusters: "fat_config FM_FAT 0 256 256 1 512 FS_FAT16 0
    = Inr \<lparr>ge_fsty = FS_FAT12, ge_pau = 1, ge_n_clst = 0, ge_sz_fat = 223, ge_sz_rsv = 1, ge_sz_dir = 32, ge_b_fat = 1\<rparr>"
  by (subst fat_config.simps) (simp add: fat_try_def fat_guess_def fat_data_base_def fat_align_def cst_def fs_types
    MAX_FAT12_def MAX_FAT16_def SZDIRE_def Let_def ones_256)

lemma created_volume_mounts_witness:
  "\<exists>buf' d'. create_volume many_io 0 FM_FAT 1 1 2 512 0 0 256 (replicate 512 0) (\<lambda>_. blank) = Some (FR_OK, FS_FAT12, buf', d')
     \<and> boot_kind (ram_sectors d' 0) = Some 0"
proof -
  have "writes_succeed many_io 0" by (simp add: writes_succeed_def many_io_def)
  moreover have "mkfs_type FM_FAT 256 0 = Inr (FS_FAT16, 0)" by (simp add: mkfs_type_def FM_FAT_def FM_EXFAT_def FM_FAT32_def)
  moreover have "fat_request 0 256 1 2 512 FS_FAT16 0" by (simp add: fat_request_def)
  ultimately show ?thesis
    using created_volume_mounts [of many_io 0 ram_sectors FM_FAT 256 0 FS_FAT16 0 0 1 2 512 _ 1 "replicate 512 0" "\<lambda>_. blank" example_fs,
      OF many_writes _ _ small_config]
    by simp blast
qed

end
