(* ===== verification/Ff_Stdio.thy ===== *)
theory Ff_Stdio
  imports Ff_Api Ff_Text
begin

unbundle bit_operations_syntax

text \<open>
  The layer with the names of the C library, \<open>src/ff_stdio.c\<close>, and the helpers of \<open>src/f_util.c\<close>. Each function
  calls the file system, maps its result to an error number and returns zero, a count or a pointer; here
  a pointer to a file is the object behind it. The object a function allocates is an argument, \<^term>\<open>None\<close> when
  there is no memory, and so is what its variables hold before they are set. A failed assertion is
  \<^term>\<open>None\<close>.
\<close>

section \<open>Modes and error numbers\<close>

definition posix2mode :: "string \<Rightarrow> u8" where
  "posix2mode m =
     (if m = ''r'' then FA_READ
      else if m = ''r+'' then FA_READ OR FA_WRITE
      else if m = ''w'' then FA_CREATE_ALWAYS OR FA_WRITE
      else if m = ''w+'' then FA_CREATE_ALWAYS OR FA_WRITE OR FA_READ
      else if m = ''a'' then FA_OPEN_APPEND OR FA_WRITE
      else if m = ''a+'' then FA_OPEN_APPEND OR FA_WRITE OR FA_READ
      else if m = ''wx'' then FA_CREATE_NEW OR FA_WRITE
      else if m = ''w+x'' then FA_CREATE_NEW OR FA_WRITE OR FA_READ
      else 0)"

text \<open>The error numbers of the C library, and zero.\<close>

datatype errno = E_OK | EIO | ENOENT | ENAMETOOLONG | EACCES | EEXIST | ENOMEM | ENFILE | ENOSYS

fun fresult2errno :: "fresult \<Rightarrow> errno" where
  "fresult2errno FR_OK = E_OK"
| "fresult2errno FR_DISK_ERR = EIO"
| "fresult2errno FR_INT_ERR = EIO"
| "fresult2errno FR_NOT_READY = EIO"
| "fresult2errno FR_NO_FILE = ENOENT"
| "fresult2errno FR_NO_PATH = ENOENT"
| "fresult2errno FR_INVALID_NAME = ENAMETOOLONG"
| "fresult2errno FR_DENIED = EACCES"
| "fresult2errno FR_EXIST = EEXIST"
| "fresult2errno FR_INVALID_OBJECT = EIO"
| "fresult2errno FR_WRITE_PROTECTED = EACCES"
| "fresult2errno FR_INVALID_DRIVE = ENOENT"
| "fresult2errno FR_NOT_ENABLED = ENOENT"
| "fresult2errno FR_NO_FILESYSTEM = ENOENT"
| "fresult2errno FR_MKFS_ABORTED = EIO"
| "fresult2errno FR_TIMEOUT = EIO"
| "fresult2errno FR_LOCKED = EACCES"
| "fresult2errno FR_NOT_ENOUGH_CORE = ENOMEM"
| "fresult2errno FR_TOO_MANY_OPEN_FILES = ENFILE"
| "fresult2errno FR_INVALID_PARAMETER = ENOSYS"

definition zero_or_minus :: "fresult \<Rightarrow> int" where
  "zero_or_minus fr = (if fr = FR_OK then 0 else -1)"

section \<open>Files\<close>

definition ff_fopen ::
  "'d disk_io \<Rightarrow> dir_object \<Rightarrow> fil option \<Rightarrow> u8 list option \<Rightarrow> string \<Rightarrow> ff_static \<Rightarrow> 'd \<Rightarrow> (fil option \<times> errno \<times> ff_static \<times> 'd) option" where
  "ff_fopen io stk mem path m st d = (case mem of None \<Rightarrow> Some (None, ENOMEM, st, d) | Some fp \<Rightarrow> do {
     (fr, fp, st, d) \<leftarrow> f_open io stk (Some fp) path (posix2mode m) st d;
     Some (if fr \<noteq> FR_OK then None else fp, fresult2errno fr, st, d) })"

definition ff_fclose :: "'d disk_io \<Rightarrow> dir_object \<Rightarrow> fil \<Rightarrow> ff_static \<Rightarrow> 'd \<Rightarrow> (int \<times> errno \<times> ff_static \<times> 'd) option" where
  "ff_fclose io stk fp st d = do {
     (fr, fp, st, d) \<leftarrow> f_close io stk fp st d;
     Some (zero_or_minus fr, fresult2errno fr, st, d) }"

definition ff_stat ::
  "'d disk_io \<Rightarrow> dir_object \<Rightarrow> filinfo \<Rightarrow> u8 list option \<Rightarrow> bool \<Rightarrow> ff_static \<Rightarrow> 'd \<Rightarrow> (int \<times> errno \<times> u32 \<times> ff_static \<times> 'd) option" where
  "ff_stat io stk junk path buf st d = (if \<not> buf then None else do {
     (fr, fno, st, d) \<leftarrow> f_stat io stk path (Some junk) st d;
     fno \<leftarrow> fno;
     Some (zero_or_minus fr, fresult2errno fr, ucast (fi_size fno), st, d) })"

definition ff_fwrite ::
  "'d disk_io \<Rightarrow> u8 list \<Rightarrow> u32 \<Rightarrow> u32 \<Rightarrow> fil \<Rightarrow> ff_static \<Rightarrow> 'd \<Rightarrow> (u32 \<times> errno \<times> fil \<times> ff_static \<times> 'd) option" where
  "ff_fwrite io buf sz items fp st d = do {
     (fr, bw, fp, st, d) \<leftarrow> f_write io buf (sz * items) fp st d;
     if sz = 0 then None else Some (bw div sz, fresult2errno fr, fp, st, d) }"

definition ff_fread ::
  "'d disk_io \<Rightarrow> u8 list \<Rightarrow> u32 \<Rightarrow> u32 \<Rightarrow> fil \<Rightarrow> ff_static \<Rightarrow> 'd \<Rightarrow> (u32 \<times> errno \<times> u8 list \<times> fil \<times> ff_static \<times> 'd) option" where
  "ff_fread io buf sz items fp st d = do {
     (fr, br, buf, fp, st, d) \<leftarrow> f_read io buf (sz * items) fp st d;
     if sz = 0 then None else Some (br div sz, fresult2errno fr, buf, fp, st, d) }"

definition ff_fputc :: "'d disk_io \<Rightarrow> int \<Rightarrow> fil \<Rightarrow> ff_static \<Rightarrow> 'd \<Rightarrow> (int \<times> errno \<times> fil \<times> ff_static \<times> 'd) option" where
  "ff_fputc io c fp st d = do {
     (fr, bw, fp, st, d) \<leftarrow> f_write io [word_of_int c] 1 fp st d;
     Some (if bw = 1 then c else -1, fresult2errno fr, fp, st, d) }"

definition ff_fgetc :: "'d disk_io \<Rightarrow> fil \<Rightarrow> ff_static \<Rightarrow> 'd \<Rightarrow> (int \<times> errno \<times> fil \<times> ff_static \<times> 'd) option" where
  "ff_fgetc io fp st d = do {
     (fr, br, buff, fp, st, d) \<leftarrow> f_read io [0] 1 fp st d;
     b \<leftarrow> rd buff 0;
     Some (if br = 1 then uint b else -1, fresult2errno fr, fp, st, d) }"

definition ff_ftell :: "fil \<Rightarrow> int option" where
  "ff_ftell fp = (if fptr fp < 0x7FFFFFFF then Some (uint (fptr fp)) else None)"

text \<open>A seek by an offset: the place is tested as an \<open>int\<close>, and it is an error of the program when that overflows.\<close>

definition int_sum :: "u64 \<Rightarrow> int \<Rightarrow> int option" where
  "int_sum x ofs = (let v = sint (ucast x :: u32) + ofs in if - (2 ^ 31) \<le> v \<and> v < 2 ^ 31 then Some v else None)"

definition seek_from ::
  "'d disk_io \<Rightarrow> u64 \<Rightarrow> int \<Rightarrow> errno \<Rightarrow> fil \<Rightarrow> ff_static \<Rightarrow> 'd \<Rightarrow> (int \<times> errno \<times> fil \<times> ff_static \<times> 'd) option" where
  "seek_from io x ofs en fp st d = do {
     v \<leftarrow> int_sum x ofs;
     if v < 0 then Some (-1, en, fp, st, d) else do {
     (fr, fp, st, d) \<leftarrow> f_lseek io (x + word_of_int ofs) fp st d;
     Some (zero_or_minus fr, fresult2errno fr, fp, st, d) } }"

definition ff_fseek ::
  "'d disk_io \<Rightarrow> int \<Rightarrow> int \<Rightarrow> errno \<Rightarrow> fil \<Rightarrow> ff_static \<Rightarrow> 'd \<Rightarrow> (int \<times> errno \<times> fil \<times> ff_static \<times> 'd) option" where
  "ff_fseek io ofs whence en fp st d =
     (if whence = 1 then seek_from io (fptr fp) ofs en fp st d
      else if whence = 2 then seek_from io (objsize (fp_obj fp)) ofs en fp st d
      else if whence = 0 then
        if ofs < 0 then Some (-1, en, fp, st, d) else do {
        (fr, fp, st, d) \<leftarrow> f_lseek io (word_of_int ofs) fp st d;
        Some (zero_or_minus fr, fresult2errno fr, fp, st, d) }
      else None)"

definition ff_seteof :: "'d disk_io \<Rightarrow> fil \<Rightarrow> ff_static \<Rightarrow> 'd \<Rightarrow> (int \<times> errno \<times> fil \<times> ff_static \<times> 'd) option" where
  "ff_seteof io fp st d = do {
     (fr, fp, st, d) \<leftarrow> f_truncate io fp st d;
     Some (zero_or_minus fr, fresult2errno fr, fp, st, d) }"

text \<open>The error number is set when nothing was read.\<close>

definition ff_fgets ::
  "'d disk_io \<Rightarrow> u8 list \<Rightarrow> u8 list \<Rightarrow> u32 \<Rightarrow> errno \<Rightarrow> fil \<Rightarrow> ff_static \<Rightarrow> 'd \<Rightarrow> (bool \<times> errno \<times> u8 list \<times> fil \<times> ff_static \<times> 'd) option" where
  "ff_fgets io s buf cnt en fp st d = do {
     (ok, buf, fp, st, d) \<leftarrow> f_gets io s buf (sint cnt) fp st d;
     Some (ok, if ok then en else EIO, buf, fp, st, d) }"

text \<open>A file is made longer octet by octet, or shorter. On an error the object is neither closed nor given back.\<close>

partial_function (option) grow_loop ::
  "'d disk_io \<Rightarrow> u64 \<Rightarrow> errno \<Rightarrow> fil \<Rightarrow> ff_static \<Rightarrow> 'd \<Rightarrow> (bool \<times> errno \<times> fil \<times> ff_static \<times> 'd) option" where
  "grow_loop io sz en fp st d =
     (if fptr fp < sz then do {
        (fr, bw, fp, st, d) \<leftarrow> f_write io [0] 1 fp st d;
        if bw \<noteq> 1 then Some (False, fresult2errno fr, fp, st, d) else grow_loop io sz (fresult2errno fr) fp st d }
      else Some (True, en, fp, st, d))"

definition ff_truncate ::
  "'d disk_io \<Rightarrow> dir_object \<Rightarrow> fil option \<Rightarrow> u8 list option \<Rightarrow> int \<Rightarrow> ff_static \<Rightarrow> 'd \<Rightarrow> (fil option \<times> errno \<times> ff_static \<times> 'd) option" where
  "ff_truncate io stk mem path sz st d = (case mem of None \<Rightarrow> Some (None, ENOMEM, st, d) | Some fp \<Rightarrow> do {
     (fr, fp, st, d) \<leftarrow> f_open io stk (Some fp) path (FA_OPEN_APPEND OR FA_WRITE) st d;
     if fr \<noteq> FR_OK then Some (None, fresult2errno fr, st, d) else do {
     fp \<leftarrow> fp;
     (ok, en, fp, st, d) \<leftarrow> grow_loop io (word_of_int sz) (fresult2errno fr) fp st d;
     if \<not> ok then Some (None, en, st, d) else do {
     (fr, fp, st, d) \<leftarrow> f_lseek io (word_of_int sz) fp st d;
     if fr \<noteq> FR_OK then Some (None, fresult2errno fr, st, d) else do {
     (fr, fp, st, d) \<leftarrow> f_truncate io fp st d;
     Some (if fr = FR_OK then Some fp else None, fresult2errno fr, st, d) } } } })"

section \<open>Directories\<close>

definition ff_chdir :: "'d disk_io \<Rightarrow> dir_object \<Rightarrow> u8 list option \<Rightarrow> ff_static \<Rightarrow> 'd \<Rightarrow> (int \<times> errno \<times> ff_static \<times> 'd) option" where
  "ff_chdir io stk path st d = do {
     (fr, st, d) \<leftarrow> f_chdir io stk path st d;
     Some (zero_or_minus fr, fresult2errno fr, st, d) }"

definition ff_mkdir :: "'d disk_io \<Rightarrow> dir_object \<Rightarrow> u8 list option \<Rightarrow> ff_static \<Rightarrow> 'd \<Rightarrow> (int \<times> errno \<times> ff_static \<times> 'd) option" where
  "ff_mkdir io stk path st d = do {
     (fr, st, d) \<leftarrow> f_mkdir io stk path st d;
     Some (if fr = FR_OK \<or> fr = FR_EXIST then 0 else -1, fresult2errno fr, st, d) }"

definition ff_rmdir :: "'d disk_io \<Rightarrow> dir_object \<Rightarrow> u8 list option \<Rightarrow> ff_static \<Rightarrow> 'd \<Rightarrow> (int \<times> errno \<times> ff_static \<times> 'd) option" where
  "ff_rmdir io stk path st d = do {
     (fr, st, d) \<leftarrow> f_unlink io stk path st d;
     Some (zero_or_minus fr, fresult2errno fr, st, d) }"

definition ff_remove :: "'d disk_io \<Rightarrow> dir_object \<Rightarrow> u8 list option \<Rightarrow> ff_static \<Rightarrow> 'd \<Rightarrow> (int \<times> errno \<times> ff_static \<times> 'd) option" where
  "ff_remove io stk path st d = do {
     (fr, st, d) \<leftarrow> f_unlink io stk path st d;
     Some (zero_or_minus fr, fresult2errno fr, st, d) }"

definition ff_rename ::
  "'d disk_io \<Rightarrow> dir_object \<Rightarrow> u8 list option \<Rightarrow> u8 list option \<Rightarrow> bool \<Rightarrow> ff_static \<Rightarrow> 'd \<Rightarrow> (int \<times> errno \<times> ff_static \<times> 'd) option" where
  "ff_rename io stk old new del st d = do {
     (st, d) \<leftarrow> (if del then map_option (\<lambda>(_, st, d). (st, d)) (f_unlink io stk new st d) else Some (st, d));
     (fr, st, d) \<leftarrow> f_rename io stk old new st d;
     Some (zero_or_minus fr, fresult2errno fr, st, d) }"

text \<open>\<open>strchr\<close> and \<open>strncpy\<close> on a string that ends in the buffer, from a place of it on.\<close>

fun strchr_from :: "u8 list \<Rightarrow> u8 \<Rightarrow> nat \<Rightarrow> nat option option" where
  "strchr_from [] c i = None"
| "strchr_from (b # s) c i = (if b = c then Some (Some i) else if b = 0 then Some None else strchr_from s c (i + 1))"

fun strncpy_at :: "nat \<Rightarrow> u8 list \<Rightarrow> nat \<Rightarrow> u8 list \<Rightarrow> nat \<Rightarrow> bool \<Rightarrow> u8 list option" where
  "strncpy_at 0 dst p src q end = Some dst"
| "strncpy_at (Suc n) dst p src q end = do {
     c \<leftarrow> (if end then Some 0 else rd src q);
     dst \<leftarrow> wr dst p c;
     strncpy_at n dst (p + 1) src (q + 1) (end \<or> c = 0) }"

definition ff_getcwd ::
  "'d disk_io \<Rightarrow> dir_object \<Rightarrow> filinfo \<Rightarrow> u8 list \<Rightarrow> u8 list \<Rightarrow> ff_static \<Rightarrow> 'd \<Rightarrow> (bool \<times> errno \<times> u8 list \<times> ff_static \<times> 'd) option" where
  "ff_getcwd io stk fno buf pcBuffer st d = do {
     let len = length buf;
     (fr, buf, st, d) \<leftarrow> f_getcwd io stk fno buf (of_nat len) st d;
     if fr = FR_OK then do {
       b \<leftarrow> rd buf 0;
       out \<leftarrow> (if b \<noteq> 0x2F then do {
                 p \<leftarrow> strchr_from buf 0x3A 0;
                 strncpy_at len pcBuffer 0 buf (case p of Some p \<Rightarrow> p + 1 | None \<Rightarrow> 0) False }
               else Some pcBuffer);
       Some (True, fresult2errno fr, out, st, d) }
     else Some (False, fresult2errno fr, pcBuffer, st, d) }"

record find_data =
  fd_dir :: dir_object
  fd_info :: filinfo
  fd_size :: u32

definition any_name :: "u8 list" where "any_name = [0x2A, 0]"

definition found_data :: "dir_object \<Rightarrow> filinfo \<Rightarrow> find_data" where
  "found_data dp fno = \<lparr>fd_dir = dp, fd_info = fno, fd_size = ucast (fi_size fno)\<rparr>"

text \<open>Going to a directory: the path to come back to, or an error that is returned at once.\<close>

definition go_there ::
  "'d disk_io \<Rightarrow> dir_object \<Rightarrow> filinfo \<Rightarrow> u8 list \<Rightarrow> ff_static \<Rightarrow> 'd \<Rightarrow> (fresult \<times> u8 list \<times> ff_static \<times> 'd) option" where
  "go_there io stk fno path st d = do {
     (fr, buf1, st, d) \<leftarrow> f_getcwd io stk fno (replicate 250 0) 250 st d;
     if fr \<noteq> FR_OK then Some (fr, buf1, st, d) else do {
     (fr, st, d) \<leftarrow> f_chdir io stk (Some path) st d;
     Some (fr, buf1, st, d) } }"

definition find_here ::
  "'d disk_io \<Rightarrow> dir_object \<Rightarrow> filinfo \<Rightarrow> find_data \<Rightarrow> ff_static \<Rightarrow> 'd \<Rightarrow> (fresult \<times> find_data \<times> ff_static \<times> 'd) option" where
  "find_here io stk fno fd st d = do {
     (fr, buf2, st, d) \<leftarrow> f_getcwd io stk fno (replicate 250 0) 250 st d;
     (fr, dp, info, st, d) \<leftarrow> f_findfirst io stk (fd_dir fd) (Some (fd_info fd)) (Some buf2) any_name st d;
     info \<leftarrow> info;
     Some (fr, found_data dp info, st, d) }"

definition ff_findfirst ::
  "'d disk_io \<Rightarrow> dir_object \<Rightarrow> filinfo \<Rightarrow> u8 list \<Rightarrow> find_data \<Rightarrow> ff_static \<Rightarrow> 'd \<Rightarrow> (int \<times> errno \<times> find_data \<times> ff_static \<times> 'd) option" where
  "ff_findfirst io stk fno path fd st d = do {
     c \<leftarrow> rd path 0;
     (fr, buf1, st, d) \<leftarrow> (if c \<noteq> 0 then go_there io stk fno path st d else Some (FR_OK, replicate 250 0, st, d));
     if fr \<noteq> FR_OK then Some (-1, fresult2errno fr, fd, st, d) else do {
     (fr, fd, st, d) \<leftarrow> find_here io stk fno fd st d;
     if c \<noteq> 0 then do {
       (fr2, st, d) \<leftarrow> f_chdir io stk (Some buf1) st d;
       Some (if fr2 \<noteq> FR_OK then -1 else zero_or_minus fr, fresult2errno fr2, fd, st, d) }
     else Some (zero_or_minus fr, fresult2errno fr, fd, st, d) } }"

definition ff_findnext ::
  "'d disk_io \<Rightarrow> find_data \<Rightarrow> ff_static \<Rightarrow> 'd \<Rightarrow> (int \<times> errno \<times> find_data \<times> ff_static \<times> 'd) option" where
  "ff_findnext io fd st d = do {
     (fr, dp, info, st, d) \<leftarrow> f_findnext io any_name (fd_dir fd) (Some (fd_info fd)) st d;
     info \<leftarrow> info;
     c \<leftarrow> rd (fi_fname info) 0;
     Some (if fr = FR_OK \<and> c \<noteq> 0 then 0 else -1, fresult2errno fr, found_data dp info, st, d) }"

section \<open>Helpers\<close>

fun FRESULT_str :: "fresult \<Rightarrow> string" where
  "FRESULT_str FR_OK = ''Succeeded''"
| "FRESULT_str FR_DISK_ERR = ''A hard error occurred in the low level disk I/O layer''"
| "FRESULT_str FR_INT_ERR = ''Assertion failed''"
| "FRESULT_str FR_NOT_READY = ''The physical drive cannot work''"
| "FRESULT_str FR_NO_FILE = ''Could not find the file''"
| "FRESULT_str FR_NO_PATH = ''Could not find the path''"
| "FRESULT_str FR_INVALID_NAME = ''The path name format is invalid''"
| "FRESULT_str FR_DENIED = ''Access denied due to prohibited access or directory full''"
| "FRESULT_str FR_EXIST = ''Access denied due to prohibited access (exists)''"
| "FRESULT_str FR_INVALID_OBJECT = ''The file/directory object is invalid''"
| "FRESULT_str FR_WRITE_PROTECTED = ''The physical drive is write protected''"
| "FRESULT_str FR_INVALID_DRIVE = ''The logical drive number is invalid''"
| "FRESULT_str FR_NOT_ENABLED = ''The volume has no work area (mount)''"
| "FRESULT_str FR_NO_FILESYSTEM = ''There is no valid FAT volume''"
| "FRESULT_str FR_MKFS_ABORTED = ''The f_mkfs() aborted due to any problem''"
| "FRESULT_str FR_TIMEOUT = ''Could not get a grant to access the volume within defined period''"
| "FRESULT_str FR_LOCKED = ''The operation is rejected according to the file sharing policy''"
| "FRESULT_str FR_NOT_ENOUGH_CORE = ''LFN working buffer could not be allocated''"
| "FRESULT_str FR_TOO_MANY_OPEN_FILES = ''Number of open files > FF_FS_LOCK''"
| "FRESULT_str FR_INVALID_PARAMETER = ''Given parameter is invalid''"

text \<open>
  Deleting a directory with all it holds. The name of an item is put behind the path; when it does not fit,
  the copying stops, and the code goes on with what the buffer holds. The objects of all levels hold
  the same at first.
\<close>

partial_function (option) path_end :: "u8 list \<Rightarrow> u32 \<Rightarrow> u32 option" where
  "path_end path i = do { c \<leftarrow> rd path (unat i); if c \<noteq> 0 then path_end path (i + 1) else Some i }"

partial_function (option) put_name :: "u8 list \<Rightarrow> u32 \<Rightarrow> u32 \<Rightarrow> u32 \<Rightarrow> u8 list \<Rightarrow> u8 list option" where
  "put_name name sz i j path =
     (if sz \<le> i + j then Some path else do {
        c \<leftarrow> rd name (unat j);
        path \<leftarrow> wr path (unat (i + j)) c;
        if c \<noteq> 0 then put_name name sz i (j + 1) path else Some path })"

definition enter_node ::
  "'d disk_io \<Rightarrow> dir_object \<Rightarrow> u8 list \<Rightarrow> ff_static \<Rightarrow> 'd \<Rightarrow> (fresult \<times> dir_object \<times> u32 \<times> u8 list \<times> ff_static \<times> 'd) option" where
  "enter_node io stk path st d = do {
     (fr, dp, st, d) \<leftarrow> f_opendir io stk (Some stk) (Some path) st d;
     dp \<leftarrow> dp;
     if fr \<noteq> FR_OK then Some (fr, dp, 0, path, st, d) else do {
     i \<leftarrow> path_end path 0;
     path \<leftarrow> wr path (unat i) 0x2F;
     Some (FR_OK, dp, i + 1, path, st, d) } }"

definition leave_node ::
  "'d disk_io \<Rightarrow> dir_object \<Rightarrow> fresult \<Rightarrow> dir_object \<Rightarrow> u32 \<Rightarrow> u8 list \<Rightarrow> ff_static \<Rightarrow> 'd \<Rightarrow> (fresult \<times> u8 list \<times> ff_static \<times> 'd) option" where
  "leave_node io stk fr dp i path st d = do {
     path \<leftarrow> wr path (unat (i - 1)) 0;
     (_, dp, st, d) \<leftarrow> f_closedir io dp st d;
     (fr, st, d) \<leftarrow> (if fr = FR_OK then f_unlink io stk (Some path) st d else Some (fr, st, d));
     Some (fr, path, st, d) }"

partial_function (option) delete_items ::
  "'d disk_io \<Rightarrow> dir_object \<Rightarrow> u32 \<Rightarrow> dir_object \<Rightarrow> u32 \<Rightarrow> u8 list \<Rightarrow> filinfo \<Rightarrow> ff_static \<Rightarrow> 'd
     \<Rightarrow> (fresult \<times> u8 list \<times> filinfo \<times> ff_static \<times> 'd) option" where
  "delete_items io stk sz dp i path fno st d = do {
     (fr, dp, info, st, d) \<leftarrow> f_readdir io dp (Some fno) st d;
     fno \<leftarrow> info;
     c \<leftarrow> rd (fi_fname fno) 0;
     if fr \<noteq> FR_OK \<or> c = 0 then do {
       (fr, path, st, d) \<leftarrow> leave_node io stk fr dp i path st d;
       Some (fr, path, fno, st, d) }
     else do {
       path \<leftarrow> put_name (fi_fname fno) sz i 0 path;
       (fr, path, fno, st, d) \<leftarrow> (if fi_attrib fno AND AM_DIR \<noteq> 0 then do {
            (fr, sub, k, path, st, d) \<leftarrow> enter_node io stk path st d;
            if fr \<noteq> FR_OK then Some (fr, path, fno, st, d) else delete_items io stk sz sub k path fno st d }
          else do {
            (fr, st, d) \<leftarrow> f_unlink io stk (Some path) st d;
            Some (fr, path, fno, st, d) });
       if fr \<noteq> FR_OK then do {
         (fr, path, st, d) \<leftarrow> leave_node io stk fr dp i path st d;
         Some (fr, path, fno, st, d) }
       else delete_items io stk sz dp i path fno st d } }"

definition delete_node ::
  "'d disk_io \<Rightarrow> dir_object \<Rightarrow> u8 list \<Rightarrow> u32 \<Rightarrow> filinfo \<Rightarrow> ff_static \<Rightarrow> 'd \<Rightarrow> (fresult \<times> u8 list \<times> filinfo \<times> ff_static \<times> 'd) option" where
  "delete_node io stk path sz fno st d = do {
     (fr, dp, i, path, st, d) \<leftarrow> enter_node io stk path st d;
     if fr \<noteq> FR_OK then Some (fr, path, fno, st, d) else delete_items io stk sz dp i path fno st d }"

end
