(* ===== verification/Ff_Stdio_Facts.thy ===== *)
theory Ff_Stdio_Facts
  imports Ff_Stdio Ff_Lookup
begin

text \<open>
  What the layer with the names of the C library makes of the file system: the current directory it never
  passes on.
\<close>

section \<open>The path of the current directory\<close>

lemma stack_name_slash: "stack_name name n i buff = Some (i', b) \<Longrightarrow> unat i' < length b \<and> b ! unat i' = 0x2F"
  by (induction name n i buff rule: stack_name.induct) (auto simp: wr_Some_iff split: bind_splits)

lemma getcwd_loop_slash:
  assumes "getcwd_loop io fno dj i buff fs d = Some (res, j, b, fs', d')"
  shows "j = i \<and> b = buff \<or> unat j < length b \<and> b ! unat j = 0x2F"
proof -
  have "case y of (res, j, b, fs', d') \<Rightarrow> j = i \<and> b = buff \<or> unat j < length b \<and> b ! unat j = 0x2F"
    if "getcwd_loop io fno dj i buff fs d = Some y" for y
  proof (rule getcwd_loop.raw_induct [where P = "\<lambda>io fno dj i buff fs d y. case y of (res, j, b, fs', d') \<Rightarrow>
      j = i \<and> b = buff \<or> unat j < length b \<and> b ! unat j = 0x2F", OF _ that])
    fix loop io fno dj i buff fs d y
    assume IH: "\<And>io fno dj i buff fs d y. loop io fno dj i buff fs d = Some y \<Longrightarrow>
        case y of (res, j, b, fs', d') \<Rightarrow> j = i \<and> b = buff \<or> unat j < length b \<and> b ! unat j = 0x2F"
      and step: "(if sclust (dp_obj dj) = 0 then Some (FR_OK, i, buff, fs, d) else do {
         (res, dj, fs, d) \<leftarrow> parent_entry io dj fs d;
         if res \<noteq> FR_OK then Some (res, i, buff, fs, d) else do {
         fno \<leftarrow> get_fileinfo dj fs fno;
         n \<leftarrow> name_length (fi_fname fno);
         if i < n + 1 then Some (FR_NOT_ENOUGH_CORE, i, buff, fs, d) else do {
         (i, buff) \<leftarrow> stack_name (fi_fname fno) (unat n) i buff;
         loop io fno dj i buff fs d } } }) = Some y"
    show "case y of (res, j, b, fs', d') \<Rightarrow> j = i \<and> b = buff \<or> unat j < length b \<and> b ! unat j = 0x2F"
      using step by (auto split: bind_splits if_splits dest!: IH dest: stack_name_slash)
  qed
  from this [OF assms] show ?thesis by simp
qed

lemma copy_front_keeps:
  assumes "copy_front len tp i buff = Some (tp', out)"
  shows "tp < tp' \<and> (\<forall>k < tp. out ! k = buff ! k)"
proof -
  have "case y of (tp', out) \<Rightarrow> tp < tp' \<and> (\<forall>k < tp. out ! k = buff ! k)"
    if "copy_front len tp i buff = Some y" for y
  proof (rule copy_front.raw_induct [where P = "\<lambda>len tp i buff y. case y of (tp', out) \<Rightarrow> tp < tp' \<and> (\<forall>k < tp. out ! k = buff ! k)", OF _ that])
    fix loop len tp i buff y
    assume IH: "\<And>len tp i buff y. loop len tp i buff = Some y \<Longrightarrow> case y of (tp', out) \<Rightarrow> tp < tp' \<and> (\<forall>k < tp. out ! k = buff ! k)"
      and step: "(do {
         c \<leftarrow> rd buff (unat i);
         buff \<leftarrow> wr buff tp c;
         if i + 1 < len then loop len (tp + 1) (i + 1) buff else Some (tp + 1, buff) }) = Some y"
    show "case y of (tp', out) \<Rightarrow> tp < tp' \<and> (\<forall>k < tp. out ! k = buff ! k)"
      using step by (auto simp: wr_Some_iff split: bind_splits if_splits dest!: IH)
  qed
  from this [OF assms] show ?thesis by simp
qed

lemma copy_front_first:
  assumes "copy_front len 0 i buff = Some (tp', out)" and "buff ! unat i = c"
  shows "0 < tp'" and "out ! 0 = c"
proof -
  obtain b where b: "rd buff (unat i) = Some c" "wr buff 0 c = Some b" and
    r: "i + 1 < len \<Longrightarrow> copy_front len 1 (i + 1) b = Some (tp', out)" "\<not> i + 1 < len \<Longrightarrow> tp' = 1 \<and> out = b"
    using assms by (subst (asm) copy_front.simps) (auto simp: rd_def split: bind_splits if_splits)
  have "b ! 0 = c" "0 < length b" using b(2) by (auto simp: wr_Some_iff)
  then show "0 < tp'" and "out ! 0 = c"
    using r copy_front_keeps [of len 1 "i + 1" b tp' out] by (cases "i + 1 < len"; auto)+
qed

lemma cwd_path_slash:
  assumes "cwd_path io stk fno len fsp buff fs d = Some (FR_OK, (tp, out), fs', d')"
  shows "0 < tp" and "out ! 0 = 0x2F"
proof -
  obtain res i b fs1 d1 where s: "(if fs_type fs \<noteq> FS_EXFAT then
         let dj = owned fsp stk in getcwd_loop io fno (dj\<lparr>dp_obj := (dp_obj dj)\<lparr>sclust := cdir fs\<rparr>\<rparr>) len buff fs d
       else Some (FR_OK, len, buff, fs, d)) = Some (res, i, b, fs1, d1)"
    using assms unfolding cwd_path_def by (auto split: bind_splits)
  have l: "i = len \<or> b ! unat i = 0x2F"
    using s by (auto simp: Let_def split: if_splits dest: getcwd_loop_slash)
  have r: "(do { (i, buff) \<leftarrow> (if i = len then map_option (\<lambda>b. (i - 1, b)) (wr b (unat (i - 1)) 0x2F) else Some (i, b));
       copy_front len 0 i buff }) = Some (tp, out)"
    using assms unfolding cwd_path_def s by (auto split: bind_splits if_splits)
  from l r obtain j c where "copy_front len 0 j c = Some (tp, out)" "c ! unat j = 0x2F"
    by (auto simp: wr_Some_iff split: bind_splits if_splits)
  then show "0 < tp" and "out ! 0 = 0x2F" by (rule copy_front_first)+
qed

lemma f_getcwd_slash:
  assumes "f_getcwd io stk fno buff len st d = Some (FR_OK, out, st', d')"
  shows "rd out 0 = Some 0x2F"
proof -
  obtain b path fsp st1 d1 fs tp out1 fs2 d2 where "cwd_path io stk fno len fsp path fs d1 = Some (FR_OK, (tp, out1), fs2, d2)"
    and w: "wr out1 tp 0 = Some out"
    using assms unfolding f_getcwd_def with_path_def
    by (auto split: bind_splits if_splits option.splits)
  from cwd_path_slash [OF this(1)] show ?thesis using w by (auto simp: wr_Some_iff rd_def)
qed

text \<open>
  What \<open>ff_getcwd\<close> stores. The path of the current directory is put together in a buffer of the function and
  copied to the buffer of the caller only when it does not begin with a slash. On a configuration with
  one drive it always does: the function returns the pointer it was given, and the buffer behind it is
  the one it was before.
\<close>

theorem getcwd_stores_nothing:
  assumes "ff_getcwd io stk fno buf pcBuffer st d = Some (ok, en, out, st', d')"
  shows "out = pcBuffer \<and> (ok \<longleftrightarrow> en = E_OK)"
proof -
  obtain fr b st1 d1 where g: "f_getcwd io stk fno buf (of_nat (length buf)) st d = Some (fr, b, st1, d1)"
    using assms by (auto simp: ff_getcwd_def Let_def split: bind_splits)
  show ?thesis
  proof (cases "fr = FR_OK")
    case True
    then show ?thesis using assms g f_getcwd_slash [of io stk fno buf "of_nat (length buf)" st d b st1 d1]
      by (auto simp: ff_getcwd_def Let_def)
  next
    case False
    then show ?thesis using assms g by (cases fr) (auto simp: ff_getcwd_def Let_def)
  qed
qed

definition root_static :: ff_static where
  "root_static = \<lparr>FatFs = [1], objects = \<lambda>i. example_fs, Fsid = 1, CurrVol = 0, Files = []\<rparr>"

definition example_info :: filinfo where
  "example_info = \<lparr>fi_size = 0, fi_date = 0, fi_time = 0, fi_attrib = 0, fi_altname = replicate 13 0, fi_fname = replicate 256 0\<rparr>"

lemma root_cwd:
  "\<exists>st' d'. ff_getcwd ram_io root_dir fno [0, 0, 0, 0] [9, 9, 9, 9] root_static example_disk = Some (True, E_OK, [9, 9, 9, 9], st', d')"
  by (simp add: ff_getcwd_def f_getcwd_def with_path_def mount_volume_def get_ldnumber_def root_static_def example_fs_def
    ram_io_def init_nambuf_def wr_def rd_def cwd_path_def getcwd_loop.simps copy_front.simps owned_def root_dir_def fs_types Let_def
    STA_NOINIT_def)

lemma getcwd_stores_nothing_witness:
  "\<exists>out st' d'. ff_getcwd ram_io root_dir example_info [0, 0, 0, 0] [9, 9, 9, 9] root_static example_disk = Some (True, E_OK, out, st', d')
     \<and> out = [9, 9, 9, 9]"
  using root_cwd [of example_info] getcwd_stores_nothing by metis

end
