(* ===== verification/Lwip_Mem.thy ===== *)
theory Lwip_Mem
  imports Prelude
begin

text \<open>
  The heap of the network stack, \<open>lib/lwip/src/core/mem.c\<close> with the options of this program: the
  heap is one array \<open>ram\<close> of \<open>MEM_SIZE_ALIGNED\<close> octets that is cut into blocks, each behind a
  header \<open>struct mem\<close> with the offsets of its neighbours; freeing from another context, overflow
  and sanity checks and statistics are switched off. Offsets are \<open>mem_size_t\<close>, 16 bits wide; they
  are naturals here, with the wrap-around written out where the code relies on it. The store has two
  views, the octets of the areas and what a header at an offset would be; a header that is not in
  the list is whatever the store holds at its place, and a user who writes to an area changes both.

  The size of the heap is a parameter: the two \<open>lwipopts.h\<close> of the program set it to 1600, the
  default, and to 4000.

  A failed \<open>LWIP_ASSERT\<close> is \<^term>\<open>None\<close>, as is a search that does not end.
\<close>

section \<open>State\<close>

record struct_mem =
  mnext :: nat
  mprev :: nat
  mused :: bool

record lwip_ram =
  hdr :: "nat \<Rightarrow> struct_mem"
  lfree :: nat
  area :: "nat \<Rightarrow> u8"

abbreviation SIZEOF_STRUCT_MEM :: nat where "SIZEOF_STRUCT_MEM \<equiv> 8"
abbreviation MIN_SIZE_ALIGNED :: nat where "MIN_SIZE_ALIGNED \<equiv> 12"

definition LWIP_MEM_ALIGN_SIZE :: "nat \<Rightarrow> nat" where
  "LWIP_MEM_ALIGN_SIZE sz = (sz + 3) div 4 * 4"

text \<open>A difference of unsigned numbers, as 16 and as 32 bits.\<close>

definition usub16 :: "nat \<Rightarrow> nat \<Rightarrow> nat" where
  "usub16 a b = nat ((int a - int b) mod 2 ^ 16)"

definition usub32 :: "nat \<Rightarrow> nat \<Rightarrow> nat" where
  "usub32 a b = nat ((int a - int b) mod 2 ^ 32)"

definition set_mnext :: "nat \<Rightarrow> nat \<Rightarrow> lwip_ram \<Rightarrow> lwip_ram" where
  "set_mnext p v s = s\<lparr>hdr := (hdr s)(p := (hdr s p)\<lparr>mnext := v\<rparr>)\<rparr>"

definition set_mprev :: "nat \<Rightarrow> nat \<Rightarrow> lwip_ram \<Rightarrow> lwip_ram" where
  "set_mprev p v s = s\<lparr>hdr := (hdr s)(p := (hdr s p)\<lparr>mprev := v\<rparr>)\<rparr>"

definition set_mused :: "nat \<Rightarrow> bool \<Rightarrow> lwip_ram \<Rightarrow> lwip_ram" where
  "set_mused p v s = s\<lparr>hdr := (hdr s)(p := (hdr s p)\<lparr>mused := v\<rparr>)\<rparr>"

text \<open>The neighbour's link, which every operation guards by the end of the heap.\<close>

definition link_back :: "nat \<Rightarrow> nat \<Rightarrow> nat \<Rightarrow> lwip_ram \<Rightarrow> lwip_ram" where
  "link_back M p v s = (if p \<noteq> M then set_mprev p v s else s)"

text \<open>
  A free block at \<open>ptr2\<close> between the block at \<open>ptr\<close> and the header at \<open>nxt\<close>: the assignments that
  \<open>mem_trim\<close> and \<open>mem_malloc\<close> make when they cut a block.
\<close>

definition insert_free :: "nat \<Rightarrow> nat \<Rightarrow> nat \<Rightarrow> nat \<Rightarrow> lwip_ram \<Rightarrow> lwip_ram" where
  "insert_free M ptr ptr2 nxt s =
     (let s = set_mprev ptr2 ptr (set_mnext ptr2 nxt (set_mused ptr2 False s));
          s = set_mnext ptr ptr2 s
      in link_back M nxt ptr2 s)"

section \<open>Operations\<close>

text \<open>\<open>M\<close> is \<open>MEM_SIZE_ALIGNED\<close>, at the same time the offset of \<open>ram_end\<close>.\<close>

definition mem_init :: "nat \<Rightarrow> lwip_ram \<Rightarrow> lwip_ram" where
  "mem_init M s =
     s\<lparr>hdr := (hdr s)(0 := \<lparr>mnext = M, mprev = 0, mused = False\<rparr>,
                      M := \<lparr>mnext = M, mprev = M, mused = True\<rparr>),
       lfree := 0\<rparr>"

definition plug_forward :: "nat \<Rightarrow> nat \<Rightarrow> lwip_ram \<Rightarrow> lwip_ram" where
  "plug_forward M mem s =
     (let nmem = mnext (hdr s mem)
      in if mem \<noteq> nmem \<and> \<not> mused (hdr s nmem) \<and> nmem \<noteq> M
         then let s = (if lfree s = nmem then s\<lparr>lfree := mem\<rparr> else s);
                  s = set_mnext mem (mnext (hdr s nmem)) s
              in link_back M (mnext (hdr s nmem)) mem s
         else s)"

definition plug_backward :: "nat \<Rightarrow> nat \<Rightarrow> lwip_ram \<Rightarrow> lwip_ram" where
  "plug_backward M mem s =
     (let pmem = mprev (hdr s mem)
      in if pmem \<noteq> mem \<and> \<not> mused (hdr s pmem)
         then let s = (if lfree s = mem then s\<lparr>lfree := pmem\<rparr> else s);
                  s = set_mnext pmem (mnext (hdr s mem)) s
              in link_back M (mnext (hdr s mem)) pmem s
         else s)"

definition plug_holes :: "nat \<Rightarrow> nat \<Rightarrow> lwip_ram \<Rightarrow> lwip_ram option" where
  "plug_holes M mem s =
     (if mem < M \<and> \<not> mused (hdr s mem) \<and> mnext (hdr s mem) \<le> M
      then Some (plug_backward M mem (plug_forward M mem s)) else None)"

definition mem_link_valid :: "nat \<Rightarrow> nat \<Rightarrow> lwip_ram \<Rightarrow> bool" where
  "mem_link_valid M mem s =
     (let nmem = mnext (hdr s mem); pmem = mprev (hdr s mem)
      in \<not> (M < nmem \<or> M < pmem \<or> (pmem \<noteq> mem \<and> mnext (hdr s pmem) \<noteq> mem) \<or>
            (nmem \<noteq> M \<and> mprev (hdr s nmem) \<noteq> mem)))"

text \<open>
  \<open>mem_free\<close>: the pointer is an offset from \<open>ram\<close>, \<^term>\<open>None\<close> for the null pointer; each of the
  illegal calls is an assertion.
\<close>

definition mem_free :: "nat \<Rightarrow> int option \<Rightarrow> lwip_ram \<Rightarrow> lwip_ram option" where
  "mem_free M rmem s =
     (case rmem of None \<Rightarrow> Some s
      | Some r \<Rightarrow>
          if r mod 4 \<noteq> 0 then None
          else if r < int SIZEOF_STRUCT_MEM \<or> int M < r + int MIN_SIZE_ALIGNED then None
          else let mem = nat r - SIZEOF_STRUCT_MEM
            in if \<not> mused (hdr s mem) then None
               else if \<not> mem_link_valid M mem s then None
               else let s = set_mused mem False s
                 in plug_holes M mem (if mem < lfree s then s\<lparr>lfree := mem\<rparr> else s))"

text \<open>\<open>mem_trim\<close> returns the pointer, or null when the size is not one it can trim to.\<close>

definition mem_trim :: "nat \<Rightarrow> int \<Rightarrow> nat \<Rightarrow> lwip_ram \<Rightarrow> (int option \<times> lwip_ram) option" where
  "mem_trim M rmem new_size s =
     (let newsize = LWIP_MEM_ALIGN_SIZE new_size mod 2 ^ 16;
          newsize = (if newsize < MIN_SIZE_ALIGNED then MIN_SIZE_ALIGNED else newsize)
      in if M < newsize \<or> newsize < new_size then Some (None, s)
         else if \<not> (0 \<le> rmem \<and> rmem < int M) then None
         else if rmem < int SIZEOF_STRUCT_MEM then None
         else let ptr = nat rmem - SIZEOF_STRUCT_MEM;
                  nxt = mnext (hdr s ptr);
                  sz = usub16 (usub16 nxt ptr) SIZEOF_STRUCT_MEM
           in if sz < newsize then None
              else if newsize = sz then Some (Some rmem, s)
              else let ptr2 = (ptr + SIZEOF_STRUCT_MEM + newsize) mod 2 ^ 16
                in if \<not> mused (hdr s nxt)
                   then if nxt = M then None
                        else let nxt2 = mnext (hdr s nxt);
                                 s = (if lfree s = nxt then s\<lparr>lfree := ptr2\<rparr> else s)
                          in Some (Some rmem, insert_free M ptr ptr2 nxt2 s)
                   else if newsize + SIZEOF_STRUCT_MEM + MIN_SIZE_ALIGNED \<le> sz
                   then if nxt = M then None
                        else let s = (if ptr2 < lfree s then s\<lparr>lfree := ptr2\<rparr> else s)
                          in Some (Some rmem, insert_free M ptr ptr2 nxt s)
                   else Some (Some rmem, s))"

text \<open>
  \<open>mem_malloc\<close>: the search for the first free block that is large enough, from the lowest free
  one on; and the search for the next lowest free block.
\<close>

partial_function (option) mem_search :: "nat \<Rightarrow> nat \<Rightarrow> nat \<Rightarrow> lwip_ram \<Rightarrow> nat option option" where
  "mem_search M sz ptr s =
     (if ptr < M - sz
      then if \<not> mused (hdr s ptr) \<and> sz \<le> usub32 (mnext (hdr s ptr)) (ptr + SIZEOF_STRUCT_MEM)
           then Some (Some ptr)
           else mem_search M sz (mnext (hdr s ptr)) s
      else Some None)"

partial_function (option) next_free :: "nat \<Rightarrow> nat \<Rightarrow> lwip_ram \<Rightarrow> nat option" where
  "next_free M cur s =
     (if mused (hdr s cur) \<and> cur \<noteq> M then next_free M (mnext (hdr s cur)) s else Some cur)"

definition mem_split :: "nat \<Rightarrow> nat \<Rightarrow> nat \<Rightarrow> lwip_ram \<Rightarrow> lwip_ram option" where
  "mem_split M sz ptr s =
     (let nxt = mnext (hdr s ptr)
      in if sz + SIZEOF_STRUCT_MEM + MIN_SIZE_ALIGNED \<le> usub32 nxt (ptr + SIZEOF_STRUCT_MEM)
         then let ptr2 = (ptr + SIZEOF_STRUCT_MEM + sz) mod 2 ^ 16
           in if ptr2 = M then None
              else Some (set_mused ptr True (insert_free M ptr ptr2 nxt s))
         else Some (set_mused ptr True s))"

definition adjust_lfree :: "nat \<Rightarrow> nat \<Rightarrow> lwip_ram \<Rightarrow> lwip_ram option" where
  "adjust_lfree M mem s =
     (if mem = lfree s then map_option (\<lambda>cur. s\<lparr>lfree := cur\<rparr>) (next_free M (lfree s) s)
      else Some s)"

definition mem_malloc :: "nat \<Rightarrow> nat \<Rightarrow> lwip_ram \<Rightarrow> (nat option \<times> lwip_ram) option" where
  "mem_malloc M size_in s =
     (if size_in = 0 then Some (None, s)
      else let sz = LWIP_MEM_ALIGN_SIZE size_in mod 2 ^ 16;
               sz = (if sz < MIN_SIZE_ALIGNED then MIN_SIZE_ALIGNED else sz)
        in if M < sz \<or> sz < size_in then Some (None, s)
           else do {
             found \<leftarrow> mem_search M sz (lfree s) s;
             case found of None \<Rightarrow> Some (None, s)
             | Some ptr \<Rightarrow> do {
                 s \<leftarrow> mem_split M sz ptr s;
                 s \<leftarrow> adjust_lfree M ptr s;
                 if M < ptr + SIZEOF_STRUCT_MEM + sz \<or> ptr mod 4 \<noteq> 0 then None
                 else Some (Some (ptr + SIZEOF_STRUCT_MEM), s) }
           })"

text \<open>\<open>mem_calloc\<close>: the product is computed in 32 bits; the memory is filled with zeros.\<close>

definition mem_calloc :: "nat \<Rightarrow> nat \<Rightarrow> nat \<Rightarrow> lwip_ram \<Rightarrow> (nat option \<times> lwip_ram) option" where
  "mem_calloc M count sz s =
     (let alloc_size = count * sz mod 2 ^ 32
      in if alloc_size mod 2 ^ 16 \<noteq> alloc_size then Some (None, s)
         else do {
           (p, s) \<leftarrow> mem_malloc M alloc_size s;
           case p of None \<Rightarrow> Some (None, s)
           | Some q \<Rightarrow> Some (p, s\<lparr>area := (\<lambda>a. if q \<le> a \<and> a < q + alloc_size then 0 else area s a)\<rparr>)
         })"

section \<open>The blocks of the heap\<close>

text \<open>A block is its size with the header and whether it is in use; the heap is a row of blocks.\<close>

type_synonym blocks = "(nat \<times> bool) list"

fun laid :: "(nat \<Rightarrow> struct_mem) \<Rightarrow> nat \<Rightarrow> nat \<Rightarrow> blocks \<Rightarrow> nat \<Rightarrow> bool" where
  "laid h pr p [] e \<longleftrightarrow> p = e"
| "laid h pr p ((n, u) # bs) e \<longleftrightarrow>
     SIZEOF_STRUCT_MEM + MIN_SIZE_ALIGNED \<le> n \<and> 4 dvd n \<and>
     h p = \<lparr>mnext = p + n, mprev = pr, mused = u\<rparr> \<and> laid h p (p + n) bs e"

definition extent :: "blocks \<Rightarrow> nat" where
  "extent bs = sum_list (map fst bs)"

fun last_at :: "nat \<Rightarrow> nat \<Rightarrow> blocks \<Rightarrow> nat" where
  "last_at pr p [] = pr"
| "last_at pr p ((n, u) # bs) = last_at p (p + n) bs"

fun first_free :: "nat \<Rightarrow> blocks \<Rightarrow> nat" where
  "first_free p [] = p"
| "first_free p ((n, u) # bs) = (if u then first_free (p + n) bs else p)"

text \<open>No two free blocks are neighbours.\<close>

fun plugged :: "blocks \<Rightarrow> bool" where
  "plugged ((n, u) # (m, v) # bs) \<longleftrightarrow> (u \<or> v) \<and> plugged ((m, v) # bs)"
| "plugged bs \<longleftrightarrow> True"

definition ram_ok :: "nat \<Rightarrow> lwip_ram \<Rightarrow> blocks \<Rightarrow> bool" where
  "ram_ok M s bs \<longleftrightarrow>
     bs \<noteq> [] \<and> laid (hdr s) 0 0 bs M \<and> hdr s M = \<lparr>mnext = M, mprev = M, mused = True\<rparr> \<and>
     plugged bs \<and> lfree s = first_free 0 bs \<and> M \<le> 64000"

lemma extent_simps [simp]:
  "extent [] = 0" "extent ((n, u) # bs) = n + extent bs" "extent (as @ bs) = extent as + extent bs"
  by (simp_all add: extent_def)

lemma laid_end: "laid h pr p bs e \<Longrightarrow> e = p + extent bs"
proof (induction bs arbitrary: pr p)
  case (Cons b bs)
  obtain n u where b: "b = (n, u)" by (cases b)
  from Cons.prems have "laid h p (p + n) bs e" by (simp add: b)
  from Cons.IH [OF this] show ?case by (simp add: b)
qed simp

lemma laid_append:
  "laid h pr p (as @ bs) e \<longleftrightarrow>
     laid h pr p as (p + extent as) \<and> laid h (last_at pr p as) (p + extent as) bs e"
  by (induction as arbitrary: pr p) (auto simp: add.assoc dest: laid_end)

lemma laid_frame:
  "(\<And>q. p \<le> q \<Longrightarrow> q < p + extent bs \<Longrightarrow> h' q = h q) \<Longrightarrow> laid h' pr p bs e = laid h pr p bs e"
proof (induction bs arbitrary: pr p)
  case (Cons b bs)
  obtain n u where b: "b = (n, u)" by (cases b)
  show ?case
  proof (cases "20 \<le> n")
    case True
    then have "h' p = h p" using Cons.prems [of p] b by simp
    moreover have "laid h' p (p + n) bs e = laid h p (p + n) bs e"
      by (rule Cons.IH) (simp add: Cons.prems b)
    ultimately show ?thesis by (simp add: b)
  qed (simp add: b)
qed simp

lemma laid_dvd: "laid h pr p bs e \<Longrightarrow> 4 dvd extent bs"
  by (induction bs arbitrary: pr p) auto

lemma last_at_append [simp]: "last_at pr p (as @ bs) = last_at (last_at pr p as) (p + extent as) bs"
  by (induction as arbitrary: pr p) (auto simp: add.assoc)

text \<open>A header that is outside of a row may change; the link back of the first one changes alone.\<close>

lemma laid_upd_low [simp]: "q < p \<Longrightarrow> laid (h(q := x)) pr p bs e = laid h pr p bs e"
  by (rule laid_frame) auto

lemma laid_upd_high [simp]: "p + extent bs \<le> q \<Longrightarrow> laid (h(q := x)) pr p bs e = laid h pr p bs e"
  by (rule laid_frame) auto

lemma laid_relink:
  "laid h pr p bs e \<Longrightarrow> bs \<noteq> [] \<Longrightarrow> laid (h(p := (h p)\<lparr>mprev := r\<rparr>)) r p bs e"
  by (cases bs) auto

lemma last_at_less: "laid h pr p bs e \<Longrightarrow> bs \<noteq> [] \<Longrightarrow> p \<le> last_at pr p bs \<and> last_at pr p bs < e"
proof (induction bs arbitrary: pr p)
  case (Cons b bs)
  then show ?case by (cases b; cases bs) fastforce+
qed simp

lemma first_free_append:
  "first_free p (as @ bs) = (if \<forall>b\<in>set as. snd b then first_free (p + extent as) bs else first_free p as)"
proof (induction as arbitrary: p)
  case (Cons a as)
  obtain n u where a: "a = (n, u)" by (cases a)
  show ?case by (cases u) (simp_all add: a Cons.IH add.assoc)
qed simp

lemma first_free_less:
  "laid h pr p bs e \<Longrightarrow> \<exists>b\<in>set bs. \<not> snd b \<Longrightarrow> first_free p bs < e"
proof (induction bs arbitrary: pr p)
  case (Cons b bs)
  then show ?case by (cases b) (auto dest: laid_end)
qed simp

lemma first_free_extent: "\<forall>b\<in>set bs. snd b \<Longrightarrow> first_free p bs = p + extent bs"
  by (induction bs arbitrary: p) auto

lemma plugged_append:
  "plugged (as @ bs) \<longleftrightarrow> plugged as \<and> plugged bs \<and>
     (as = [] \<or> bs = [] \<or> snd (last as) \<or> snd (hd bs))"
  by (induction as rule: plugged.induct) (cases bs; auto)+

end
