(* ===== verification/Lwip_Mem_Facts.thy ===== *)
theory Lwip_Mem_Facts
  imports Lwip_Mem
begin

text \<open>
  What the heap of \<open>Lwip_Mem\<close> does to the row of blocks it consists of: allocation takes the first
  free block that is large enough and cuts it to size, release gives a block back and joins it with
  its free neighbours, trimming cuts a block short. Each operation keeps the invariant
  \<^term>\<open>ram_ok\<close>, and an allocation followed by its release gives the row back as it was.
\<close>

section \<open>Joining free neighbours\<close>

fun coalesce :: "blocks \<Rightarrow> blocks" where
  "coalesce ((n, u) # (m, v) # bs) =
     (if u \<or> v then (n, u) # coalesce ((m, v) # bs) else coalesce ((n + m, False) # bs))"
| "coalesce bs = bs"

lemma coalesce_plugged [simp]: "plugged bs \<Longrightarrow> coalesce bs = bs"
  by (induction bs rule: plugged.induct) auto

lemma coalesce_join:
  "coalesce (as @ (n, False) # (k, False) # bs) = coalesce (as @ (n + k, False) # bs)"
proof (induction as rule: coalesce.induct)
  fix b :: "nat \<times> bool"
  show "coalesce ([b] @ (n, False) # (k, False) # bs) = coalesce ([b] @ (n + k, False) # bs)"
    by (cases b) (simp_all add: add.assoc)
qed simp_all

section \<open>The headers of a row\<close>

text \<open>The state of the linked list without the parts of \<^term>\<open>ram_ok\<close> that an operation suspends.\<close>

definition linked :: "nat \<Rightarrow> lwip_ram \<Rightarrow> blocks \<Rightarrow> bool" where
  "linked M s bs \<longleftrightarrow>
     laid (hdr s) 0 0 bs M \<and> hdr s M = \<lparr>mnext = M, mprev = M, mused = True\<rparr>"

lemma ram_ok_linked:
  "ram_ok M s bs \<longleftrightarrow>
     linked M s bs \<and> bs \<noteq> [] \<and> plugged bs \<and> lfree s = first_free 0 bs \<and> M \<le> 64000"
  by (auto simp: ram_ok_def linked_def)

lemma linked_extent: "linked M s bs \<Longrightarrow> M = extent bs"
  by (auto simp: linked_def dest: laid_end)

lemma linked_at:
  assumes "linked M s (xs @ (n, u) # ys)"
  shows "hdr s (extent xs) = \<lparr>mnext = extent xs + n, mprev = last_at 0 0 xs, mused = u\<rparr>"
    "20 \<le> n" "4 dvd n" "extent xs + n + extent ys = M" "4 dvd extent xs"
  using assms by (auto simp: linked_def laid_append dest: laid_end laid_dvd)

lemma linked_right:
  assumes "linked M s (xs @ (n, u) # ys)"
  shows "hdr s (extent xs + n) =
    (case ys of [] \<Rightarrow> \<lparr>mnext = M, mprev = M, mused = True\<rparr>
     | (k, v) # zs \<Rightarrow> \<lparr>mnext = extent xs + n + k, mprev = extent xs, mused = v\<rparr>)"
  using assms by (auto simp: linked_def laid_append split: list.split)

lemma linked_left:
  assumes "linked M s (xs @ (n, u) # ys)"
  shows "xs = [] \<and> last_at 0 0 xs = 0 \<or>
    (\<exists>zs m v. xs = zs @ [(m, v)] \<and> last_at 0 0 xs = extent zs \<and> 20 \<le> m \<and>
      hdr s (extent zs) = \<lparr>mnext = extent xs, mprev = last_at 0 0 zs, mused = v\<rparr>)"
proof (cases xs rule: rev_cases)
  case (snoc zs b)
  obtain m v where b: "b = (m, v)" by (cases b)
  show ?thesis using assms by (auto simp: snoc b linked_def laid_append)
qed simp

text \<open>
  A part of the row is replaced by another row of the same extent: the headers in front of it and
  behind it stay, but the first one behind it is linked back to the new last block.
\<close>

lemma linked_replace:
  assumes "linked M s (xs @ mid @ ys)" and "extent mid' = extent mid" and "mid' \<noteq> []"
    and "laid (hdr s') (last_at 0 0 xs) (extent xs) mid' (extent xs + extent mid')"
    and "\<And>q. q < extent xs \<Longrightarrow> hdr s' q = hdr s q"
    and "\<And>q. extent xs + extent mid < q \<Longrightarrow> hdr s' q = hdr s q"
    and "hdr s' (extent xs + extent mid) = (hdr s (extent xs + extent mid))
      \<lparr>mprev := if ys = [] then M else last_at (last_at 0 0 xs) (extent xs) mid'\<rparr>"
  shows "linked M s' (xs @ mid' @ ys)"
proof -
  let ?q = "extent xs + extent mid"
  have old: "laid (hdr s) 0 0 xs (extent xs)"
    "laid (hdr s) (last_at (last_at 0 0 xs) (extent xs) mid) ?q ys M"
    "hdr s M = \<lparr>mnext = M, mprev = M, mused = True\<rparr>"
    using assms(1) by (auto simp: linked_def laid_append)
  have front: "laid (hdr s') 0 0 xs (extent xs)"
    using old(1) assms(5) by (subst laid_frame) auto
  show ?thesis
  proof (cases ys)
    case Nil
    then have "?q = M" using old(2) by simp
    then show ?thesis using front assms(2,4,7) old(3) by (simp add: Nil linked_def laid_append)
  next
    case (Cons y zs)
    obtain k v where y: "y = (k, v)" by (cases y)
    from old(2) have k: "20 \<le> k" "4 dvd k" "hdr s ?q = \<lparr>mnext = ?q + k,
        mprev = last_at (last_at 0 0 xs) (extent xs) mid, mused = v\<rparr>"
      "laid (hdr s) ?q (?q + k) zs M" by (simp_all add: Cons y)
    from laid_end [OF k(4)] have M: "M = ?q + k + extent zs" .
    have "laid (hdr s') ?q (?q + k) zs M"
      using k(1,4) assms(6) by (subst laid_frame) auto
    moreover have "hdr s' M = hdr s M" using assms(6) [of M] M k(1) by simp
    ultimately show ?thesis
      using front assms(2,4,7) old(3) k by (simp add: Cons y linked_def laid_append)
  qed
qed

lemma hdr_upd [simp]:
  "hdr (set_mnext p v s) = (hdr s)(p := (hdr s p)\<lparr>mnext := v\<rparr>)"
  "hdr (set_mprev p v s) = (hdr s)(p := (hdr s p)\<lparr>mprev := v\<rparr>)"
  "hdr (set_mused p b s) = (hdr s)(p := (hdr s p)\<lparr>mused := b\<rparr>)"
  "hdr (link_back M p v s) = (if p = M then hdr s else (hdr s)(p := (hdr s p)\<lparr>mprev := v\<rparr>))"
  by (simp_all add: set_mnext_def set_mprev_def set_mused_def link_back_def)

lemma lfree_upd [simp]:
  "lfree (set_mnext p v s) = lfree s" "lfree (set_mprev p v s) = lfree s"
  "lfree (set_mused p b s) = lfree s" "lfree (link_back M p v s) = lfree s"
  by (simp_all add: set_mnext_def set_mprev_def set_mused_def link_back_def)

lemma area_upd [simp]:
  "area (set_mnext p v s) = area s" "area (set_mprev p v s) = area s"
  "area (set_mused p b s) = area s" "area (link_back M p v s) = area s"
  by (simp_all add: set_mnext_def set_mprev_def set_mused_def link_back_def)

section \<open>Release\<close>

lemma extent_nonempty: "linked M s (xs @ (n, u) # ys) \<Longrightarrow> extent xs < M"
  using linked_at(2,4) [of M s xs n u ys] by simp

lemma linked_end:
  assumes "linked M s (xs @ mid @ ys)" shows "extent xs + extent mid = M \<longleftrightarrow> ys = []"
  using assms by (cases ys) (auto simp: linked_def laid_append dest: laid_end)

lemma plug_forward_joins:
  assumes "linked M s (xs @ (n, False) # (k, False) # ys)"
  shows "linked M (plug_forward M (extent xs) s) (xs @ (n + k, False) # ys)"
    "lfree s \<noteq> extent xs + n \<Longrightarrow> lfree (plug_forward M (extent xs) s) = lfree s"
    "area (plug_forward M (extent xs) s) = area s"
proof -
  let ?p = "extent xs"
  note p = linked_at [OF assms]
  from assms have "linked M s ((xs @ [(n, False)]) @ (k, False) # ys)" by simp
  note q = linked_at [OF this]
  from q have M: "?p + n \<noteq> M" "?p + n + k + extent ys = M" and k: "20 \<le> k" "4 dvd k"
    and hq: "hdr s (?p + n) = \<lparr>mnext = ?p + n + k, mprev = ?p, mused = False\<rparr>" by simp_all
  let ?s = "if lfree s = ?p + n then s\<lparr>lfree := ?p\<rparr> else s"
  have eq: "plug_forward M ?p s =
      link_back M (?p + n + k) ?p (set_mnext ?p (?p + n + k) ?s)"
    using p hq M(1) by (simp add: plug_forward_def Let_def)
  have hdr: "hdr (plug_forward M ?p s) =
      (let h = (hdr s)(?p := (hdr s ?p)\<lparr>mnext := ?p + n + k\<rparr>)
       in if ?p + n + k = M then h else h(?p + n + k := (h (?p + n + k))\<lparr>mprev := ?p\<rparr>))"
    by (simp add: eq Let_def)
  show "linked M (plug_forward M ?p s) (xs @ (n + k, False) # ys)"
  proof -
    have "linked M (plug_forward M ?p s) (xs @ [(n + k, False)] @ ys)"
    proof (rule linked_replace [where s = s and mid = "[(n, False), (k, False)]"])
      show "linked M s (xs @ [(n, False), (k, False)] @ ys)" using assms by simp
      show "laid (hdr (plug_forward M ?p s)) (last_at 0 0 xs) ?p [(n + k, False)]
          (?p + extent [(n + k, False)])"
        using p k by (simp add: hdr Let_def add.assoc)
      show "hdr (plug_forward M ?p s) (?p + extent [(n, False), (k, False)]) =
          (hdr s (?p + extent [(n, False), (k, False)]))
            \<lparr>mprev := if ys = [] then M else last_at (last_at 0 0 xs) ?p [(n + k, False)]\<rparr>"
        using linked_end [of M s xs "[(n, False), (k, False)]" ys] assms p(2)
        by (auto simp: hdr Let_def add.assoc linked_def)
    qed (use p(2) k in \<open>auto simp: hdr Let_def\<close>)
    then show ?thesis by simp
  qed
  show "lfree s \<noteq> ?p + n \<Longrightarrow> lfree (plug_forward M ?p s) = lfree s"
    and "area (plug_forward M ?p s) = area s" by (simp_all add: eq)
qed

lemma plug_forward_stays:
  assumes "linked M s (xs @ (n, False) # ys)" and "ys = [] \<or> snd (hd ys)"
  shows "plug_forward M (extent xs) s = s"
  using linked_at [OF assms(1)] linked_right [OF assms(1)] assms(2)
  by (auto simp: plug_forward_def Let_def split: list.splits)

lemma plug_backward_joins:
  assumes "linked M s (xs @ (m, False) # (n, False) # ys)"
  defines "p \<equiv> extent xs + m"
  shows "linked M (plug_backward M p s) (xs @ (m + n, False) # ys)"
    "lfree s \<noteq> p \<Longrightarrow> lfree (plug_backward M p s) = lfree s"
    "area (plug_backward M p s) = area s"
proof -
  let ?o = "extent xs"
  note o = linked_at [OF assms(1)]
  from assms(1) have "linked M s ((xs @ [(m, False)]) @ (n, False) # ys)" by simp
  note q = linked_at [OF this]
  from q have M: "p + n + extent ys = M" and n: "20 \<le> n" "4 dvd n"
    and hp: "hdr s p = \<lparr>mnext = p + n, mprev = ?o, mused = False\<rparr>" by (simp_all add: p_def)
  let ?s = "if lfree s = p then s\<lparr>lfree := ?o\<rparr> else s"
  have eq: "plug_backward M p s = link_back M (p + n) ?o (set_mnext ?o (p + n) ?s)"
    using o hp by (simp add: plug_backward_def Let_def p_def)
  have hdr: "hdr (plug_backward M p s) =
      (let h = (hdr s)(?o := (hdr s ?o)\<lparr>mnext := p + n\<rparr>)
       in if p + n = M then h else h(p + n := (h (p + n))\<lparr>mprev := ?o\<rparr>))"
    by (simp add: eq Let_def)
  show "linked M (plug_backward M p s) (xs @ (m + n, False) # ys)"
  proof -
    have "linked M (plug_backward M p s) (xs @ [(m + n, False)] @ ys)"
    proof (rule linked_replace [where s = s and mid = "[(m, False), (n, False)]"])
      show "linked M s (xs @ [(m, False), (n, False)] @ ys)" using assms by simp
      show "laid (hdr (plug_backward M p s)) (last_at 0 0 xs) ?o [(m + n, False)]
          (?o + extent [(m + n, False)])"
        using o n by (simp add: hdr [unfolded p_def] Let_def add.assoc p_def)
      show "hdr (plug_backward M p s) (?o + extent [(m, False), (n, False)]) =
          (hdr s (?o + extent [(m, False), (n, False)]))
            \<lparr>mprev := if ys = [] then M else last_at (last_at 0 0 xs) ?o [(m + n, False)]\<rparr>"
        using linked_end [of M s xs "[(m, False), (n, False)]" ys] assms(1) o(2)
        by (auto simp: hdr [unfolded p_def] Let_def add.assoc linked_def p_def)
    qed (use o(2) n in \<open>auto simp: hdr [unfolded p_def] Let_def p_def\<close>)
    then show ?thesis by simp
  qed
  show "lfree s \<noteq> p \<Longrightarrow> lfree (plug_backward M p s) = lfree s"
    and "area (plug_backward M p s) = area s" by (simp_all add: eq)
qed

lemma plug_backward_stays:
  assumes "linked M s (xs @ (n, False) # ys)" and "xs = [] \<or> snd (last xs)"
  shows "plug_backward M (extent xs) s = s"
  using linked_at [OF assms(1)] linked_left [OF assms(1)] assms(2)
  by (auto simp: plug_backward_def Let_def)

lemma link_valid:
  assumes "linked M s (xs @ (n, u) # ys)"
  shows "mem_link_valid M (extent xs) s"
  using linked_at [OF assms] linked_left [OF assms] linked_right [OF assms]
  by (auto simp: mem_link_valid_def Let_def split: list.splits)

lemma linked_lfree [simp]: "linked M (s\<lparr>lfree := x\<rparr>) bs = linked M s bs"
  by (simp add: linked_def)

lemma linked_mark:
  assumes "linked M s (xs @ (n, u) # ys)"
  shows "linked M (set_mused (extent xs) v s) (xs @ (n, v) # ys)"
proof -
  have "linked M (set_mused (extent xs) v s) (xs @ [(n, v)] @ ys)"
  proof (rule linked_replace [where s = s and mid = "[(n, u)]"])
    show "hdr (set_mused (extent xs) v s) (extent xs + extent [(n, u)]) =
        (hdr s (extent xs + extent [(n, u)]))
          \<lparr>mprev := if ys = [] then M else last_at (last_at 0 0 xs) (extent xs) [(n, v)]\<rparr>"
      using linked_right [OF assms] linked_at(2) [OF assms] by (simp split: list.splits)
  qed (use linked_at [OF assms] assms in simp_all)
  then show ?thesis by simp
qed

lemma first_free_ge: "p \<le> first_free p bs"
proof (induction bs arbitrary: p)
  case (Cons b bs)
  obtain n u where b: "b = (n, u)" by (cases b)
  show ?case using Cons.IH [of "p + n"] by (simp add: b)
qed simp

lemma first_free_le:
  "first_free 0 (xs @ (n, False) # ys) \<le> extent xs"
proof (induction xs rule: rev_induct)
  case (snoc b xs)
  obtain m v where b: "b = (m, v)" by (cases b)
  show ?case using snoc.IH by (auto simp: b first_free_append split: if_splits)
qed simp

lemma forward_ends:
  assumes "linked M s (xs @ (n, False) # ys)" and "plugged ys"
    and "lfree s = first_free 0 (xs @ (n, False) # ys)"
  obtains n' ys' where "linked M (plug_forward M (extent xs) s) (xs @ (n', False) # ys')"
    "lfree (plug_forward M (extent xs) s) = first_free 0 (xs @ (n', False) # ys')"
    "area (plug_forward M (extent xs) s) = area s"
    "plugged ((n', False) # ys')"
    "coalesce (xs @ (n', False) # ys') = coalesce (xs @ (n, False) # ys)"
proof (cases "ys = [] \<or> snd (hd ys)")
  case True
  show ?thesis
  proof (rule that [of n ys])
    show "plugged ((n, False) # ys)" using True assms(2) by (cases ys) auto
  qed (simp_all add: assms plug_forward_stays [OF assms(1) True])
next
  case False
  then obtain k zs where ys: "ys = (k, False) # zs" by (cases ys) auto
  have n: "20 \<le> n" using linked_at(2) [OF assms(1)] .
  have l: "lfree s \<noteq> extent xs + n" using first_free_le [of xs n ys] n assms(3) by simp
  note j = plug_forward_joins [OF assms(1) [unfolded ys]]
  show ?thesis
  proof (rule that [of "n + k" zs])
    show "lfree (plug_forward M (extent xs) s) = first_free 0 (xs @ (n + k, False) # zs)"
      using j(2) [OF l] assms(3) by (simp add: first_free_append)
    show "plugged ((n + k, False) # zs)" using assms(2) by (cases zs) (auto simp: ys)
  qed (simp_all add: j(1,3) ys coalesce_join)
qed

lemma backward_ends:
  assumes "linked M s (xs @ (n, False) # ys)" and "plugged xs" and "plugged ((n, False) # ys)"
    and "lfree s = first_free 0 (xs @ (n, False) # ys)"
  shows "linked M (plug_backward M (extent xs) s) (coalesce (xs @ (n, False) # ys)) \<and>
    lfree (plug_backward M (extent xs) s) = first_free 0 (coalesce (xs @ (n, False) # ys)) \<and>
    area (plug_backward M (extent xs) s) = area s \<and>
    plugged (coalesce (xs @ (n, False) # ys)) \<and> coalesce (xs @ (n, False) # ys) \<noteq> []"
proof (cases "xs = [] \<or> snd (last xs)")
  case True
  then have "plugged (xs @ (n, False) # ys)" using assms(2,3) by (auto simp: plugged_append)
  then show ?thesis by (simp add: assms plug_backward_stays [OF assms(1) True])
next
  case False
  then obtain zs m where xs: "xs = zs @ [(m, False)]"
    by (metis append_butlast_last_id prod.collapse)
  have l: "linked M s (zs @ (m, False) # (n, False) # ys)" using assms(1) by (simp add: xs)
  have m: "20 \<le> m" using linked_at(2) [OF l] .
  have lf: "lfree s \<noteq> extent zs + m"
    using first_free_le [of zs m "(n, False) # ys"] m assms(4) by (simp add: xs)
  note j = plug_backward_joins [OF l]
  have pl: "plugged (zs @ (m + n, False) # ys)"
    using assms(2,3) by (cases ys) (auto simp: xs plugged_append)
  have co: "coalesce (xs @ (n, False) # ys) = zs @ (m + n, False) # ys"
    using coalesce_join [of zs m n ys] pl by (simp add: xs)
  have "lfree (plug_backward M (extent xs) s) = first_free 0 (zs @ (m + n, False) # ys)"
    using j(2) [OF lf] assms(4) by (simp add: xs first_free_append)
  then show ?thesis using j(1,3) pl by (simp add: co) (simp add: xs)
qed

text \<open>A free block in the front part of a row decides where the lowest free block is.\<close>

lemma first_free_front:
  assumes "\<not> (\<forall>b\<in>set xs. snd b)"
  shows "first_free p (xs @ zs) = first_free p xs"
    and "linked M s (xs @ bs) \<Longrightarrow> first_free 0 xs < extent xs"
  using assms first_free_less [of "hdr s" 0 0 xs "extent xs"]
  by (simp_all only: first_free_append if_False linked_def laid_append) auto

lemma mem_free_releases:
  assumes "ram_ok M s (xs @ (n, True) # ys)"
  shows "\<exists>s'. mem_free M (Some (int (extent xs + 8))) s = Some s' \<and>
    ram_ok M s' (coalesce (xs @ (n, False) # ys)) \<and> area s' = area s"
proof -
  let ?p = "extent xs"
  from assms have l: "linked M s (xs @ (n, True) # ys)" and pl: "plugged (xs @ (n, True) # ys)"
    and lf: "lfree s = first_free 0 (xs @ (n, True) # ys)" and M: "M \<le> 64000"
    by (simp_all add: ram_ok_linked)
  note p = linked_at [OF l]
  let ?s1 = "set_mused ?p False s"
  let ?s2 = "if ?p < lfree ?s1 then ?s1\<lparr>lfree := ?p\<rparr> else ?s1"
  have l2: "linked M ?s2 (xs @ (n, False) # ys)" using linked_mark [OF l, of False] by simp
  have lf2: "lfree ?s2 = first_free 0 (xs @ (n, False) # ys)"
  proof (cases "\<forall>b\<in>set xs. snd b")
    case True
    then show ?thesis
      using first_free_ge [of "?p + n" ys] p(2) by (simp add: lf first_free_append)
  next
    case False
    then show ?thesis using first_free_front [OF False] l by (auto simp: lf)
  qed
  from pl have pxs: "plugged xs" and pys: "plugged ys"
    by (auto simp: plugged_append dest: plugged_append [of "[(n, True)]" ys, simplified, THEN iffD1])
  obtain n' ys' where f: "linked M (plug_forward M ?p ?s2) (xs @ (n', False) # ys')"
    "lfree (plug_forward M ?p ?s2) = first_free 0 (xs @ (n', False) # ys')"
    "area (plug_forward M ?p ?s2) = area ?s2" "plugged ((n', False) # ys')"
    "coalesce (xs @ (n', False) # ys') = coalesce (xs @ (n, False) # ys)"
    by (rule forward_ends [OF l2 pys lf2])
  note b = backward_ends [OF f(1) pxs f(4) f(2), unfolded f(5)]
  have plug: "plug_holes M ?p ?s2 = Some (plug_backward M ?p (plug_forward M ?p ?s2))"
    using p by (simp add: plug_holes_def)
  have "mem_free M (Some (int (?p + 8))) s = plug_holes M ?p ?s2"
  proof -
    from p(5) have "int (?p + 8) mod 4 = 0" by (auto elim!: dvdE)
    moreover have "\<not> (int (?p + 8) < 8 \<or> int M < int (?p + 8) + 12)" using p(2,4) by linarith
    moreover have "nat (int (?p + 8)) - 8 = ?p" by simp
    ultimately show ?thesis
      using p(1) link_valid [OF l] by (simp add: mem_free_def Let_def del: of_nat_add)
  qed
  then show ?thesis using plug b f(3) M by (auto simp: ram_ok_linked)
qed

section \<open>Allocation\<close>

text \<open>The first free block with room for \<open>sz\<close> octets, and the row after it has been taken.\<close>

fun first_fit :: "nat \<Rightarrow> nat \<Rightarrow> blocks \<Rightarrow> nat option" where
  "first_fit sz p [] = None"
| "first_fit sz p ((n, u) # bs) =
     (if \<not> u \<and> SIZEOF_STRUCT_MEM + sz \<le> n then Some p else first_fit sz (p + n) bs)"

fun take_fit :: "nat \<Rightarrow> blocks \<Rightarrow> blocks" where
  "take_fit sz [] = []"
| "take_fit sz ((n, u) # bs) =
     (if \<not> u \<and> SIZEOF_STRUCT_MEM + sz \<le> n
      then (if SIZEOF_STRUCT_MEM + sz + 20 \<le> n
            then (SIZEOF_STRUCT_MEM + sz, True) # (n - (SIZEOF_STRUCT_MEM + sz), False) # bs
            else (n, True) # bs)
      else (n, u) # take_fit sz bs)"

lemma first_fit_Some:
  "first_fit sz p bs = Some q \<Longrightarrow>
   \<exists>xs n ys. bs = xs @ (n, False) # ys \<and> q = p + extent xs \<and> SIZEOF_STRUCT_MEM + sz \<le> n \<and>
     take_fit sz bs = xs @ take_fit sz ((n, False) # ys)"
proof (induction bs arbitrary: p)
  case (Cons b bs)
  obtain n u where b: "b = (n, u)" by (cases b)
  show ?case
  proof (cases "\<not> u \<and> SIZEOF_STRUCT_MEM + sz \<le> n")
    case True
    with Cons.prems show ?thesis by (intro exI [of _ "[]"]) (auto simp: b)
  next
    case False
    with Cons.prems have "first_fit sz (p + n) bs = Some q" by (auto simp: b)
    from Cons.IH [OF this] obtain xs m ys where "bs = xs @ (m, False) # ys" "q = p + n + extent xs"
      "SIZEOF_STRUCT_MEM + sz \<le> m" "take_fit sz bs = xs @ take_fit sz ((m, False) # ys)" by blast
    then show ?thesis using False
      by (intro exI [of _ "(n, u) # xs"] exI [of _ m] exI [of _ ys]) (auto simp: b)
  qed
qed simp

lemma first_fit_used: "\<forall>b\<in>set xs. snd b \<Longrightarrow> first_fit sz p (xs @ bs) = first_fit sz (p + extent xs) bs"
  by (induction xs arbitrary: p) (auto simp: add.assoc)

lemma first_free_split:
  obtains xs ys where "bs = xs @ ys" "\<forall>b\<in>set xs. snd b" "first_free p bs = p + extent xs"
    "ys = [] \<or> \<not> snd (hd ys)"
proof (induction bs arbitrary: p thesis)
  case Nil
  show ?case by (rule Nil [of "[]" "[]"]) auto
next
  case (Cons b bs)
  obtain n u where b: "b = (n, u)" by (cases b)
  show ?case
  proof (cases u)
    case True
    obtain xs ys where "bs = xs @ ys" "\<forall>b\<in>set xs. snd b" "first_free (p + n) bs = p + n + extent xs"
      "ys = [] \<or> \<not> snd (hd ys)" by (rule Cons.IH)
    then show ?thesis using True by (intro Cons.prems [of "b # xs" ys]) (auto simp: b)
  next
    case False
    then show ?thesis by (intro Cons.prems [of "[]" "b # bs"]) (auto simp: b)
  qed
qed

lemma usub32_eq: "b \<le> a \<Longrightarrow> a < 2 ^ 32 \<Longrightarrow> usub32 a b = a - b"
proof -
  assume "b \<le> a" "a < 2 ^ 32"
  then have "(int a - int b) mod 2 ^ 32 = int a - int b" by (intro mod_pos_pos_trivial) auto
  with \<open>b \<le> a\<close> show ?thesis by (simp add: usub32_def)
qed

lemma first_fit_bound: "laid h pr p bs M \<Longrightarrow> first_fit sz p bs = Some q \<Longrightarrow> p \<le> q \<and> q + 8 + sz \<le> M"
proof (induction bs arbitrary: pr p)
  case (Cons b bs)
  obtain n u where b: "b = (n, u)" by (cases b)
  from Cons.prems(1) have "laid h p (p + n) bs M" by (simp add: b)
  from Cons.IH [OF this] laid_end [OF this] Cons.prems(2) show ?case
    by (auto simp: b split: if_splits)
qed simp

lemma mem_search_finds:
  "laid (hdr s) pr p bs M \<Longrightarrow> M \<le> 64000 \<Longrightarrow> mem_search M sz p s = Some (first_fit sz p bs)"
proof (induction bs arbitrary: pr p)
  case Nil
  have "\<not> M < M - sz" by simp
  with Nil show ?case by (subst mem_search.simps) simp
next
  case (Cons b bs)
  obtain n u where b: "b = (n, u)" by (cases b)
  from Cons.prems(1) have p: "hdr s p = \<lparr>mnext = p + n, mprev = pr, mused = u\<rparr>" "20 \<le> n"
    and r: "laid (hdr s) p (p + n) bs M" by (simp_all add: b)
  show ?case
  proof (cases "p < M - sz")
    case True
    have "usub32 (p + n) (p + 8) = n - 8"
      using laid_end [OF r] Cons.prems(2) p(2) by (subst usub32_eq) auto
    then have "sz \<le> usub32 (p + n) (p + 8) \<longleftrightarrow> 8 + sz \<le> n" using p(2) by auto
    then show ?thesis
      using True p(1) Cons.IH [OF r Cons.prems(2)] by (subst mem_search.simps) (auto simp: b)
  next
    case False
    then have "first_fit sz p (b # bs) = None"
      using first_fit_bound [OF Cons.prems(1), of sz] by (cases "first_fit sz p (b # bs)") fastforce+
    then show ?thesis using False by (subst mem_search.simps) simp
  qed
qed

lemma next_free_finds:
  "laid (hdr s) pr p bs M \<Longrightarrow> next_free M p s = Some (first_free p bs)"
proof (induction bs arbitrary: pr p)
  case Nil
  then show ?case by (subst next_free.simps) simp
next
  case (Cons b bs)
  obtain n u where b: "b = (n, u)" by (cases b)
  from Cons.prems have r: "laid (hdr s) p (p + n) bs M" and n: "20 \<le> n" by (simp_all add: b)
  have "p \<noteq> M" using laid_end [OF r] n by simp
  then show ?case using Cons.prems Cons.IH [OF r] by (subst next_free.simps) (auto simp: b)
qed

lemma mem_search_row:
  assumes "ram_ok M s bs"
  shows "mem_search M sz (lfree s) s = Some (first_fit sz 0 bs)"
proof -
  obtain xs ys where x: "bs = xs @ ys" "\<forall>b\<in>set xs. snd b" "first_free 0 bs = 0 + extent xs"
    by (rule first_free_split)
  have "laid (hdr s) (last_at 0 0 xs) (extent xs) ys M"
    using assms by (simp add: ram_ok_def x(1) laid_append)
  from mem_search_finds [OF this] assms x(3) show ?thesis
    using first_fit_used [OF x(2), of sz 0 ys] by (simp add: ram_ok_def x(1))
qed

lemma insert_free_links:
  assumes "linked M s (xs @ ((n, u) # mid) @ ys)" and "extent ((n, u) # mid) = a + b"
    and "20 \<le> a" "20 \<le> b" "4 dvd a" "4 dvd b"
  defines "p \<equiv> extent xs"
  shows "linked M (insert_free M p (p + a) (p + a + b) s) (xs @ [(a, u), (b, False)] @ ys)"
    "lfree (insert_free M p (p + a) (p + a + b) s) = lfree s"
    "area (insert_free M p (p + a) (p + a + b) s) = area s"
proof -
  let ?s = "insert_free M p (p + a) (p + a + b) s"
  have hp: "hdr s p = \<lparr>mnext = p + n, mprev = last_at 0 0 xs, mused = u\<rparr>"
    using linked_at [of M s xs n u "mid @ ys"] assms(1) by (simp add: p_def)
  have e: "p + a + b = M \<longleftrightarrow> ys = []" using linked_end [OF assms(1)] assms(2) by (simp add: p_def add.assoc)
  have hdr: "hdr ?s q = (if q = p then (hdr s p)\<lparr>mnext := p + a\<rparr>
      else if q = p + a then \<lparr>mnext = p + a + b, mprev = p, mused = False\<rparr>
      else if q = p + a + b \<and> p + a + b \<noteq> M then (hdr s q)\<lparr>mprev := p + a\<rparr> else hdr s q)" for q
    using assms(3,4) by (auto simp: insert_free_def Let_def)
  show "linked M ?s (xs @ [(a, u), (b, False)] @ ys)"
  proof (rule linked_replace [OF assms(1)])
    show "hdr ?s (extent xs + extent ((n, u) # mid)) = (hdr s (extent xs + extent ((n, u) # mid)))
        \<lparr>mprev := if ys = [] then M
          else last_at (last_at 0 0 xs) (extent xs) [(a, u), (b, False)]\<rparr>"
      unfolding assms(2) using assms(1,3,4) e by (auto simp: hdr [unfolded add.assoc p_def] p_def add.assoc linked_def)
  qed (use assms(2-6) hp in \<open>auto simp: hdr [unfolded add.assoc] p_def [symmetric] add.assoc\<close>)
  show "lfree ?s = lfree s" and "area ?s = area s" by (simp_all add: insert_free_def Let_def)
qed

lemma mem_split_takes:
  assumes "linked M s (xs @ (n, False) # ys)" and "SIZEOF_STRUCT_MEM + sz \<le> n"
    and "12 \<le> sz" "4 dvd sz" "M \<le> 64000"
  shows "\<exists>s'. mem_split M sz (extent xs) s = Some s' \<and>
    linked M s' (xs @ take_fit sz ((n, False) # ys)) \<and> lfree s' = lfree s \<and> area s' = area s"
proof -
  let ?p = "extent xs"
  note p = linked_at [OF assms(1)]
  have us: "usub32 (?p + n) (?p + 8) = n - 8"
    using p(2,4) assms(5) by (subst usub32_eq) auto
  show ?thesis
  proof (cases "8 + sz + 20 \<le> n")
    case True
    let ?a = "8 + sz" and ?b = "n - (8 + sz)"
    have ab: "n = ?a + ?b" using True by simp
    have b4: "4 dvd ?b" using p(3) assms(4) by (intro dvd_diff_nat) (auto intro: dvd_add)
    have a4: "4 dvd ?a" using assms(4) by (intro dvd_add) auto
    have "linked M s (xs @ ((n, False) # []) @ ys)" using assms(1) by simp
    note i = insert_free_links [OF this, of ?a ?b]
    have i': "linked M (insert_free M ?p (?p + ?a) (?p + n) s) (xs @ (?a, False) # (?b, False) # ys)"
      "lfree (insert_free M ?p (?p + ?a) (?p + n) s) = lfree s"
      "area (insert_free M ?p (?p + ?a) (?p + n) s) = area s"
      using i True assms(3) a4 b4 ab by (simp_all add: add.assoc)
    have m: "(?p + 8 + sz) mod 2 ^ 16 = ?p + ?a" using p(4) True assms(5) by simp
    have "?p + ?a \<noteq> M" using p(4) True by linarith
    then have "mem_split M sz ?p s =
        Some (set_mused ?p True (insert_free M ?p (?p + ?a) (?p + n) s))"
      using us p(1) True m by (simp add: mem_split_def Let_def)
    then show ?thesis using linked_mark [OF i'(1), of True] i'(2,3) True by simp
  next
    case False
    then have "\<not> sz + 8 + 12 \<le> n - 8" by linarith
    then have "mem_split M sz ?p s = Some (set_mused ?p True s)"
      using us p(1) by (simp add: mem_split_def Let_def)
    then show ?thesis using linked_mark [OF assms(1), of True] False assms(2) by simp
  qed
qed

lemma plugged_take_fit:
  "plugged (xs @ (n, False) # ys) \<Longrightarrow> SIZEOF_STRUCT_MEM + sz \<le> n \<Longrightarrow>
   plugged (xs @ take_fit sz ((n, False) # ys))"
  by (cases ys) (auto simp: plugged_append)

lemma adjust_lfree_row:
  assumes "linked M s (xs @ zs)" and "zs \<noteq> []" and "lfree s = first_free 0 (xs @ (n, False) # ys)"
    and "20 \<le> n"
  shows "adjust_lfree M (extent xs) s = Some (s\<lparr>lfree := first_free 0 (xs @ zs)\<rparr>)"
proof (cases "\<forall>b\<in>set xs. snd b")
  case True
  have "laid (hdr s) (last_at 0 0 xs) (extent xs) zs M"
    using assms(1) by (simp add: linked_def laid_append)
  from next_free_finds [OF this] show ?thesis
    using True assms(3) by (simp add: adjust_lfree_def first_free_append)
next
  case False
  then show ?thesis
    using first_free_front(1) [OF False] first_free_front(2) [OF False assms(1)] assms(3)
    by (simp add: adjust_lfree_def)
qed

definition block_size :: "nat \<Rightarrow> nat" where
  "block_size size_in = max MIN_SIZE_ALIGNED (LWIP_MEM_ALIGN_SIZE size_in)"

lemma align_size: "4 dvd LWIP_MEM_ALIGN_SIZE n" "n \<le> LWIP_MEM_ALIGN_SIZE n"
  "LWIP_MEM_ALIGN_SIZE n < n + 4"
  by (simp_all add: LWIP_MEM_ALIGN_SIZE_def)

lemma block_size: "4 dvd block_size n" "n \<le> block_size n" "12 \<le> block_size n"
  using align_size [of n] by (auto simp: block_size_def max_def)

text \<open>An allocation takes the first free block that is large enough, or finds none.\<close>

lemma mem_malloc_takes:
  assumes "ram_ok M s bs" and "0 < size_in" "size_in < 2 ^ 16"
  shows "case first_fit (block_size size_in) 0 bs of
      None \<Rightarrow> mem_malloc M size_in s = Some (None, s)
    | Some p \<Rightarrow> \<exists>s'. mem_malloc M size_in s = Some (Some (p + SIZEOF_STRUCT_MEM), s') \<and>
        ram_ok M s' (take_fit (block_size size_in) bs) \<and> area s' = area s"
proof -
  let ?a = "LWIP_MEM_ALIGN_SIZE size_in" and ?sz = "block_size size_in"
  let ?w = "if ?a mod 2 ^ 16 < 12 then 12 else ?a mod 2 ^ 16"
  from assms(1) have l: "linked M s bs" and M: "M \<le> 64000" by (simp_all add: ram_ok_linked)
  show ?thesis
  proof (cases "?a < 2 ^ 16 \<and> ?sz \<le> M")
    case False
    have none: "first_fit ?sz 0 bs = None"
    proof (cases "first_fit ?sz 0 bs")
      case (Some q)
      with l have "?sz \<le> M" using first_fit_bound by (fastforce simp: linked_def)
      with False M block_size_def show ?thesis by auto
    qed
    have "M < ?w \<or> ?w < size_in"
    proof (cases "?a < 2 ^ 16")
      case True
      then show ?thesis using False by (auto simp: block_size_def max_def split: if_splits)
    next
      case False
      then have "?a = 2 ^ 16" using align_size [of size_in] assms(3) by (auto elim!: dvdE)
      then show ?thesis using align_size(3) [of size_in] by simp
    qed
    then show ?thesis using assms(2) by (auto simp: none mem_malloc_def Let_def)
  next
    case True
    then have w: "?w = ?sz" and g: "\<not> (M < ?sz \<or> ?sz < size_in)"
      using block_size(2) [of size_in] by (auto simp: block_size_def max_def)
    have m: "mem_malloc M size_in s = do {
             found \<leftarrow> mem_search M ?sz (lfree s) s;
             case found of None \<Rightarrow> Some (None, s)
             | Some ptr \<Rightarrow> do {
                 s \<leftarrow> mem_split M ?sz ptr s;
                 s \<leftarrow> adjust_lfree M ptr s;
                 if M < ptr + SIZEOF_STRUCT_MEM + ?sz \<or> ptr mod 4 \<noteq> 0 then None
                 else Some (Some (ptr + SIZEOF_STRUCT_MEM), s) }}"
      using assms(2) [THEN gr_implies_not0] g by (simp only: mem_malloc_def Let_def w if_False)
    show ?thesis
    proof (cases "first_fit ?sz 0 bs")
      case None
      then show ?thesis using mem_search_row [OF assms(1)] by (simp add: m)
    next
      case (Some p)
      from first_fit_Some [OF this] obtain xs n ys where
        bs: "bs = xs @ (n, False) # ys" "p = extent xs" "SIZEOF_STRUCT_MEM + ?sz \<le> n"
          "take_fit ?sz bs = xs @ take_fit ?sz ((n, False) # ys)" by auto
      note l' = l [unfolded bs(1)]
      from mem_split_takes [OF l' bs(3) block_size(3,1) M] obtain t where
        t: "mem_split M ?sz p s = Some t" "linked M t (take_fit ?sz bs)" "lfree t = lfree s"
          "area t = area s" by (auto simp: bs(2,4))
      have lf: "lfree t = first_free 0 (xs @ (n, False) # ys)"
        using t(3) assms(1) by (simp add: ram_ok_linked bs(1))
      have ne: "take_fit ?sz ((n, False) # ys) \<noteq> []" by simp
      have ad: "adjust_lfree M p t = Some (t\<lparr>lfree := first_free 0 (take_fit ?sz bs)\<rparr>)"
        using adjust_lfree_row [OF t(2) [unfolded bs(4)] ne lf linked_at(2) [OF l']]
        by (simp add: bs(2,4))
      have "\<not> (M < p + 8 + ?sz \<or> p mod 4 \<noteq> 0)"
        using linked_at(4,5) [OF l'] bs(2,3) by (auto elim!: dvdE)
      moreover have "plugged (take_fit ?sz bs)" "take_fit ?sz bs \<noteq> []"
      proof -
        have "plugged (xs @ (n, False) # ys)" using assms(1) by (simp add: ram_ok_linked bs(1))
        from plugged_take_fit [OF this bs(3)] show "plugged (take_fit ?sz bs)" by (simp add: bs(4))
        show "take_fit ?sz bs \<noteq> []" using ne by (simp add: bs(4))
      qed
      ultimately show ?thesis using mem_search_row [OF assms(1)] Some t ad M
        by (simp add: m ram_ok_linked)
    qed
  qed
qed

section \<open>Trimming\<close>

text \<open>The row from a used block of extent \<open>n\<close> on when the block is cut to \<open>t\<close> octets.\<close>

fun cut_row :: "nat \<Rightarrow> nat \<Rightarrow> blocks \<Rightarrow> blocks" where
  "cut_row t n ((k, False) # ys) =
     (if SIZEOF_STRUCT_MEM + t = n then (n, True) # (k, False) # ys
      else (SIZEOF_STRUCT_MEM + t, True) # (n + k - (SIZEOF_STRUCT_MEM + t), False) # ys)"
| "cut_row t n ys =
     (if SIZEOF_STRUCT_MEM + t + 20 \<le> n
      then (SIZEOF_STRUCT_MEM + t, True) # (n - (SIZEOF_STRUCT_MEM + t), False) # ys
      else (n, True) # ys)"

lemma usub16_eq: "b \<le> a \<Longrightarrow> a < 2 ^ 16 \<Longrightarrow> usub16 a b = a - b"
proof -
  assume "b \<le> a" "a < 2 ^ 16"
  then have "(int a - int b) mod 2 ^ 16 = int a - int b" by (intro mod_pos_pos_trivial) auto
  with \<open>b \<le> a\<close> show ?thesis by (simp add: usub16_def)
qed

lemma mem_trim_start:
  assumes "linked M s (xs @ (n, True) # ys)" and "M \<le> 64000" and "new_size < 2 ^ 16"
    and "SIZEOF_STRUCT_MEM + block_size new_size \<le> n"
  shows "mem_trim M (int (extent xs + 8)) new_size s =
    (let ptr = extent xs; nxt = ptr + n; sz = n - 8; newsize = block_size new_size;
         ptr2 = ptr + 8 + newsize
     in if newsize = sz then Some (Some (int (ptr + 8)), s)
        else if \<not> mused (hdr s nxt)
        then if nxt = M then None
             else let nxt2 = mnext (hdr s nxt);
                      s = (if lfree s = nxt then s\<lparr>lfree := ptr2\<rparr> else s)
               in Some (Some (int (ptr + 8)), insert_free M ptr ptr2 nxt2 s)
        else if newsize + 20 \<le> sz
        then if nxt = M then None
             else let s = (if ptr2 < lfree s then s\<lparr>lfree := ptr2\<rparr> else s)
               in Some (Some (int (ptr + 8)), insert_free M ptr ptr2 nxt s)
        else Some (Some (int (ptr + 8)), s))"
proof -
  let ?a = "LWIP_MEM_ALIGN_SIZE new_size" and ?t = "block_size new_size" and ?p = "extent xs"
  note p = linked_at [OF assms(1)]
  have n: "n \<le> M" using p(4) by simp
  have w: "(if ?a mod 2 ^ 16 < 12 then 12 else ?a mod 2 ^ 16) = ?t"
    using assms(2,4) n by (auto simp: block_size_def max_def split: if_splits)
  have m: "(?p + 8 + ?t) mod 2 ^ 16 = ?p + 8 + ?t" using assms(2,4) p(4) by simp
  have u: "usub16 (usub16 (?p + n) ?p) 8 = n - 8"
    using p(2,4) assms(2) by (simp add: usub16_eq)
  have g: "\<not> (M < ?t \<or> ?t < new_size)" "0 \<le> int (?p + 8) \<and> int (?p + 8) < int M"
    "\<not> int (?p + 8) < int 8" "\<not> n - 8 < ?t" "nat (int (?p + 8)) - 8 = ?p"
    using n assms(4) block_size(2) [of new_size] p(2,4) by auto
  show ?thesis
    unfolding mem_trim_def Let_def w
    using g u m p(1) by (simp add: Let_def add.assoc del: of_nat_add)
qed

lemma first_free_used_first:
  "first_free 0 (xs @ (a, True) # (b, False) # ys) =
     (if \<forall>b\<in>set xs. snd b then extent xs + a else first_free 0 xs)"
  by (simp add: first_free_append)

lemma insert_free_row:
  assumes "linked M s (xs @ ((n, True) # mid) @ ys)" and "extent ((n, True) # mid) = a + b"
    and "20 \<le> a" "20 \<le> b" "4 dvd a" "4 dvd b" "M \<le> 64000"
    and "plugged (xs @ ((n, True) # mid) @ ys)" "ys = [] \<or> snd (hd ys)"
    and "l = (if \<forall>b\<in>set xs. snd b then extent xs + a else first_free 0 xs)"
  shows "ram_ok M (insert_free M (extent xs) (extent xs + a) (extent xs + a + b) (s\<lparr>lfree := l\<rparr>))
      (xs @ (a, True) # (b, False) # ys) \<and>
    area (insert_free M (extent xs) (extent xs + a) (extent xs + a + b) (s\<lparr>lfree := l\<rparr>)) = area s"
proof -
  have "linked M (s\<lparr>lfree := l\<rparr>) (xs @ ((n, True) # mid) @ ys)" using assms(1) by simp
  note i = insert_free_links [OF this assms(2-6)]
  have "plugged (xs @ (a, True) # (b, False) # ys)"
    using assms(8) [unfolded plugged_append] assms(9) by (cases ys) (auto simp: plugged_append)
  then show ?thesis using i assms(7,10) by (simp add: ram_ok_linked first_free_used_first)
qed

text \<open>The block behind the trimmed one is free: it is moved down and grows.\<close>

lemma mem_trim_moves:
  assumes "ram_ok M s (xs @ (n, True) # (k, False) # zs)" and "new_size < 2 ^ 16"
    and "SIZEOF_STRUCT_MEM + block_size new_size < n"
  shows "\<exists>s'. mem_trim M (int (extent xs + 8)) new_size s = Some (Some (int (extent xs + 8)), s') \<and>
    ram_ok M s' (xs @ cut_row (block_size new_size) n ((k, False) # zs)) \<and> area s' = area s"
proof -
  let ?t = "block_size new_size" and ?p = "extent xs"
  let ?b = "n + k - (8 + ?t)"
  from assms(1) have l: "linked M s (xs @ (n, True) # (k, False) # zs)" and M: "M \<le> 64000"
    and pl: "plugged (xs @ (n, True) # (k, False) # zs)"
    and lf: "lfree s = first_free 0 (xs @ (n, True) # (k, False) # zs)"
    by (simp_all add: ram_ok_linked)
  note p = linked_at [OF l]
  note r = linked_right [OF l]
  note t = block_size [of new_size]
  from l have l': "linked M s ((xs @ [(n, True)]) @ (k, False) # zs)" by simp
  note k = linked_at [OF l']
  have a4: "4 dvd 8 + ?t" using t(1) by (intro dvd_add) auto
  have b: "n + k = 8 + ?t + ?b" "20 \<le> ?b" using assms(3) k(2) by auto
  have b4: "4 dvd ?b" by (intro dvd_diff_nat [OF dvd_add [OF p(3) k(3)] a4])
  have nM: "?p + n \<noteq> M" using linked_end [of M s xs "[(n, True)]"] l by simp
  let ?l = "if \<forall>b\<in>set xs. snd b then ?p + (8 + ?t) else first_free 0 xs"
  have lf': "(if lfree s = ?p + n then s\<lparr>lfree := ?p + 8 + ?t\<rparr> else s) = s\<lparr>lfree := ?l\<rparr>"
  proof (cases "\<forall>b\<in>set xs. snd b")
    case False
    with first_free_front [OF False] l lf have "lfree s = first_free 0 xs" "lfree s < ?p" by auto
    then show ?thesis using False by (auto split: if_splits)
  qed (simp add: lf first_free_append)
  have "8 + ?t \<le> n" "?t \<noteq> n - 8" using assms(3) by auto
  then have "mem_trim M (int (?p + 8)) new_size s = Some (Some (int (?p + 8)),
      insert_free M ?p (?p + (8 + ?t)) (?p + (8 + ?t) + ?b) (s\<lparr>lfree := ?l\<rparr>))"
    using mem_trim_start [OF l M assms(2), unfolded Let_def] r nM b(1) lf' by (simp add: add.assoc)
  moreover have "plugged (xs @ ((n, True) # [(k, False)]) @ zs)" "zs = [] \<or> snd (hd zs)"
    using pl by (cases zs; auto simp: plugged_append)+
  ultimately show ?thesis
    using insert_free_row [of M s xs n "[(k, False)]" zs "8 + ?t" ?b ?l] l t(3) b b4 a4 M assms(3)
    by simp
qed

text \<open>The block behind it is in use: what is cut off becomes a block of its own if it is large enough.\<close>

lemma mem_trim_splits:
  assumes "ram_ok M s (xs @ (n, True) # ys)" and "new_size < 2 ^ 16"
    and "SIZEOF_STRUCT_MEM + block_size new_size + 20 \<le> n" and "ys \<noteq> []" "snd (hd ys)"
  shows "\<exists>s'. mem_trim M (int (extent xs + 8)) new_size s = Some (Some (int (extent xs + 8)), s') \<and>
    ram_ok M s' (xs @ cut_row (block_size new_size) n ys) \<and> area s' = area s"
proof -
  let ?t = "block_size new_size" and ?p = "extent xs"
  let ?b = "n - (8 + ?t)"
  from assms(1) have l: "linked M s (xs @ (n, True) # ys)" and M: "M \<le> 64000"
    and pl: "plugged (xs @ (n, True) # ys)" and lf: "lfree s = first_free 0 (xs @ (n, True) # ys)"
    by (simp_all add: ram_ok_linked)
  note p = linked_at [OF l]
  note t = block_size [of new_size]
  have a4: "4 dvd 8 + ?t" using t(1) by (intro dvd_add) auto
  have b: "n = 8 + ?t + ?b" "20 \<le> ?b" using assms(3) by auto
  have b4: "4 dvd ?b" by (rule dvd_diff_nat [OF p(3) a4])
  have nM: "?p + n \<noteq> M" using linked_end [of M s xs "[(n, True)]" ys] l assms(4) by simp
  have us: "mused (hdr s (?p + n))" using linked_right [OF l] assms(4,5) by (auto split: list.splits)
  let ?l = "if \<forall>b\<in>set xs. snd b then ?p + (8 + ?t) else first_free 0 xs"
  have lf': "(if ?p + 8 + ?t < lfree s then s\<lparr>lfree := ?p + 8 + ?t\<rparr> else s) = s\<lparr>lfree := ?l\<rparr>"
  proof (cases "\<forall>b\<in>set xs. snd b")
    case True
    then have "?p + n \<le> lfree s" using first_free_ge [of "?p + n" ys]
      by (simp add: lf first_free_append)
    then show ?thesis using True assms(3) by simp
  next
    case False
    with first_free_front [OF False] l lf have "lfree s = first_free 0 xs" "lfree s < ?p" by auto
    then show ?thesis using False by (auto split: if_splits)
  qed
  have "8 + ?t \<le> n" "?t \<noteq> n - 8" using assms(3) by auto
  then have "mem_trim M (int (?p + 8)) new_size s = Some (Some (int (?p + 8)),
      insert_free M ?p (?p + (8 + ?t)) (?p + (8 + ?t) + ?b) (s\<lparr>lfree := ?l\<rparr>))"
    using mem_trim_start [OF l M assms(2), unfolded Let_def] us nM assms(3) lf'
    by (simp add: add.assoc)
  moreover have "cut_row ?t n ys = (8 + ?t, True) # (?b, False) # ys"
    using assms(3-5) by (cases "(?t, n, ys)" rule: cut_row.cases) auto
  ultimately show ?thesis
    using insert_free_row [of M s xs n "[]" ys "8 + ?t" ?b ?l] l pl t(3) b b4 a4 M assms(5) by simp
qed

text \<open>
  \<open>mem_trim\<close> cuts a block. The exception is the last block of the heap: when enough of it remains
  for a block of its own, the assertion on the pointer to the next block fails.
\<close>

lemma mem_trim_cuts:
  assumes "ram_ok M s (xs @ (n, True) # ys)" and "new_size < 2 ^ 16"
    and "SIZEOF_STRUCT_MEM + block_size new_size \<le> n"
  shows "if ys = [] \<and> SIZEOF_STRUCT_MEM + block_size new_size + 20 \<le> n
    then mem_trim M (int (extent xs + 8)) new_size s = None
    else \<exists>s'. mem_trim M (int (extent xs + 8)) new_size s = Some (Some (int (extent xs + 8)), s') \<and>
      ram_ok M s' (xs @ cut_row (block_size new_size) n ys) \<and> area s' = area s"
proof -
  let ?t = "block_size new_size" and ?p = "extent xs"
  from assms(1) have l: "linked M s (xs @ (n, True) # ys)" and M: "M \<le> 64000"
    by (simp_all add: ram_ok_linked)
  note start = mem_trim_start [OF l M assms(2,3), unfolded Let_def]
  show ?thesis
  proof (cases "8 + ?t = n")
    case True
    moreover have "cut_row ?t n ys = (n, True) # ys"
      using True by (cases "(?t, n, ys)" rule: cut_row.cases) auto
    ultimately show ?thesis using start assms(1) by auto
  next
    case ne: False
    show ?thesis
    proof (cases "ys \<noteq> [] \<and> \<not> snd (hd ys)")
      case True
      then obtain k zs where ys: "ys = (k, False) # zs" by (cases ys) auto
      show ?thesis using mem_trim_moves [OF assms(1) [unfolded ys] assms(2)] assms(3) ne
        by (simp add: ys)
    next
      case False
      have us: "mused (hdr s (?p + n))" using linked_right [OF l] False by (auto split: list.splits)
      have nM: "?p + n = M \<longleftrightarrow> ys = []" using linked_end [of M s xs "[(n, True)]" ys] l by simp
      have "cut_row ?t n ys = (n, True) # ys" if "\<not> 8 + ?t + 20 \<le> n"
        using that False by (cases "(?t, n, ys)" rule: cut_row.cases) auto
      then show ?thesis
        using start us nM ne False assms(1) mem_trim_splits [OF assms(1,2)] by auto
    qed
  qed
qed

end
