(* ===== verification/Lwip_Mem_Runs.thy ===== *)
theory Lwip_Mem_Runs
  imports Lwip_Mem_Facts
begin

text \<open>
  The heap of the network stack under its users: any sequence of allocations, releases and trims in
  which a user gives back only what it holds, and in between writes what it likes into its areas.
  In every state such a run reaches the heap is a row of blocks, the areas handed out are apart, no
  assertion of an allocation or a release fails, and an area that is given back leaves the heap
  with the room it had before.
\<close>

section \<open>The areas handed out\<close>

fun users :: "nat \<Rightarrow> blocks \<Rightarrow> (nat \<times> nat) list" where
  "users p [] = []"
| "users p ((n, u) # bs) =
     (if u then [(p + SIZEOF_STRUCT_MEM, n - SIZEOF_STRUCT_MEM)] else []) @ users (p + n) bs"

definition pointers :: "blocks \<Rightarrow> nat set" where
  "pointers bs = fst ` set (users 0 bs)"

lemma users_append [simp]: "users p (as @ bs) = users p as @ users (p + extent as) bs"
  by (induction as arbitrary: p) (auto simp: add.assoc)

lemma users_coalesce [simp]: "users p (coalesce bs) = users p bs"
proof (induction bs arbitrary: p rule: coalesce.induct)
  case (1 n u m v bs)
  then show ?case by (cases "u \<or> v") (simp_all add: add.assoc)
qed simp_all

text \<open>The areas lie one behind the other with a header between them.\<close>

lemma users_in:
  "laid h pr p bs e \<Longrightarrow> (a, l) \<in> set (users p bs) \<Longrightarrow>
   p + SIZEOF_STRUCT_MEM \<le> a \<and> a + l \<le> e \<and> 12 \<le> l \<and> (4 dvd p \<longrightarrow> 4 dvd a)"
proof (induction bs arbitrary: pr p)
  case (Cons b bs)
  obtain n u where b: "b = (n, u)" by (cases b)
  from Cons.prems(1) have r: "laid h p (p + n) bs e" and n: "20 \<le> n" "4 dvd n" by (simp_all add: b)
  from Cons.prems(2) consider "a = p + 8" "l = n - 8" | "(a, l) \<in> set (users (p + n) bs)"
    by (auto simp: b split: if_splits)
  then show ?case
  proof cases
    case 1
    then show ?thesis using laid_end [OF r] n by auto
  next
    case 2
    from Cons.IH [OF r this] n show ?thesis by (auto intro: dvd_add)
  qed
qed simp

lemma users_apart:
  "laid h pr p bs e \<Longrightarrow>
   sorted_wrt (\<lambda>(a, l) (b, k). a + l + SIZEOF_STRUCT_MEM \<le> b) (users p bs)"
proof (induction bs arbitrary: pr p)
  case (Cons b bs)
  obtain n u where b: "b = (n, u)" by (cases b)
  from Cons.prems have r: "laid h p (p + n) bs e" and n: "20 \<le> n" by (simp_all add: b)
  show ?case using Cons.IH [OF r] users_in [OF r] n by (fastforce simp: b)
qed simp

lemma pointers_block:
  assumes "q \<in> pointers bs"
  obtains xs n ys where "bs = xs @ (n, True) # ys" "q = extent xs + SIZEOF_STRUCT_MEM"
proof -
  have "\<exists>xs n ys. bs = xs @ (n, True) # ys \<and> q = p + extent xs + 8" if "q \<in> fst ` set (users p bs)" for p
    using that
  proof (induction bs arbitrary: p)
    case (Cons b bs)
    obtain n u where b: "b = (n, u)" by (cases b)
    show ?case
    proof (cases "u \<and> q = p + 8")
      case True
      then show ?thesis by (intro exI [of _ "[]"]) (auto simp: b)
    next
      case False
      with Cons.prems have "q \<in> fst ` set (users (p + n) bs)" by (auto simp: b split: if_splits)
      from Cons.IH [OF this] obtain xs m ys where
        "bs = xs @ (m, True) # ys" "q = p + n + extent xs + 8" by blast
      then show ?thesis
        by (intro exI [of _ "(n, u) # xs"] exI [of _ m] exI [of _ ys]) (simp add: b)
    qed
  qed simp
  from this [of 0] assms that show ?thesis by (auto simp: pointers_def)
qed

lemma pointers_release:
  assumes "laid h 0 0 (xs @ (n, True) # ys) M"
  shows "pointers (xs @ (n, False) # ys) = pointers (xs @ (n, True) # ys) - {extent xs + SIZEOF_STRUCT_MEM}"
proof -
  from assms have l: "laid h 0 0 xs (extent xs)" "laid h (extent xs) (extent xs + n) ys M" and n: "20 \<le> n"
    by (simp_all add: laid_append)
  have "a \<noteq> extent xs + 8" if "(a, k) \<in> set (users 0 xs)" for a k
    using users_in [OF l(1) that] by auto
  moreover have "a \<noteq> extent xs + 8" if "(a, k) \<in> set (users (extent xs + n) ys)" for a k
    using users_in [OF l(2) that] n by auto
  ultimately show ?thesis by (force simp: pointers_def)
qed

text \<open>An allocation adds one area; what is taken is a free block, so releasing it restores the row.\<close>

lemma users_take:
  assumes "SIZEOF_STRUCT_MEM + sz \<le> n"
  shows "\<exists>k. sz \<le> k \<and> users p (take_fit sz ((n, False) # ys)) = (p + SIZEOF_STRUCT_MEM, k) # users (p + n) ys"
  using assms by auto

lemma take_fit_row:
  assumes "SIZEOF_STRUCT_MEM + sz \<le> n"
  obtains m zs where "take_fit sz ((n, False) # ys) = (m, True) # zs"
    "\<And>xs. coalesce (xs @ (m, False) # zs) = coalesce (xs @ (n, False) # ys)"
proof (cases "SIZEOF_STRUCT_MEM + sz + 20 \<le> n")
  case True
  then show ?thesis
    by (intro that [of "8 + sz" "(n - (8 + sz), False) # ys"]) (simp_all add: coalesce_join)
next
  case False
  with assms show ?thesis by (intro that [of n ys]) simp_all
qed

section \<open>Runs\<close>

text \<open>
  A state of the heap together with the pointers its users hold. The rule \<open>store\<close> lets a user change
  its area, where a header may have been and where one may come to lie.
\<close>

inductive ram_run :: "nat \<Rightarrow> lwip_ram \<Rightarrow> nat set \<Rightarrow> bool" for M :: nat where
  start: "ram_run M (mem_init M s) {}"
| alloc: "ram_run M s U \<Longrightarrow> size_in < 2 ^ 16 \<Longrightarrow> mem_malloc M size_in s = Some (r, s') \<Longrightarrow>
    ram_run M s' (U \<union> set_option r)"
| zalloc: "ram_run M s U \<Longrightarrow> mem_calloc M count sz s = Some (r, s') \<Longrightarrow> ram_run M s' (U \<union> set_option r)"
| release: "ram_run M s U \<Longrightarrow> q \<in> U \<Longrightarrow> mem_free M (Some (int q)) s = Some s' \<Longrightarrow>
    ram_run M s' (U - {q})"
| trim_ptr: "ram_run M s U \<Longrightarrow> q \<in> U \<Longrightarrow> new_size < 2 ^ 16 \<Longrightarrow>
    mem_trim M (int q) new_size s = Some (r, s') \<Longrightarrow> ram_run M s' U"
| store: "ram_run M s U \<Longrightarrow> q \<in> U \<Longrightarrow>
    (\<And>a. a < q \<or> mnext (hdr s (q - SIZEOF_STRUCT_MEM)) \<le> a \<Longrightarrow> h a = hdr s a) \<Longrightarrow>
    ram_run M (s\<lparr>hdr := h, area := d\<rparr>) U"

lemma mem_init_ok:
  assumes "20 \<le> M" "4 dvd M" "M \<le> 64000"
  shows "ram_ok M (mem_init M s) [(M, False)]"
  using assms by (simp add: ram_ok_def mem_init_def)

lemma mem_trim_only_shrinks:
  assumes "linked M s (xs @ (n, True) # ys)" and "M \<le> 64000" and "new_size < 2 ^ 16"
    and "mem_trim M (int (extent xs + 8)) new_size s = Some (r, s')" and "s' \<noteq> s"
  shows "SIZEOF_STRUCT_MEM + block_size new_size \<le> n"
proof -
  let ?a = "LWIP_MEM_ALIGN_SIZE new_size" and ?t = "block_size new_size" and ?p = "extent xs"
  let ?w = "if ?a mod 2 ^ 16 < 12 then 12 else ?a mod 2 ^ 16"
  note p = linked_at [OF assms(1)]
  have legal: "\<not> (M < ?w \<or> ?w < new_size)"
    using assms(4,5) by (auto simp: mem_trim_def Let_def simp del: of_nat_add split: if_splits)
  have "?a < 2 ^ 16"
  proof (rule ccontr)
    assume "\<not> ?a < 2 ^ 16"
    then have "?a = 2 ^ 16" using align_size [of new_size] assms(3) by (auto elim!: dvdE)
    then show False using legal align_size(3) [of new_size] by simp
  qed
  then have w: "?w = ?t" by (auto simp: block_size_def max_def)
  have u: "usub16 (usub16 (?p + n) ?p) 8 = n - 8"
    using p(2,4) assms(2) by (simp add: usub16_eq)
  have "\<not> n - 8 < ?t"
  proof
    assume "n - 8 < ?t"
    then have "mem_trim M (int (?p + 8)) new_size s = None"
      using legal p u unfolding mem_trim_def Let_def w by (simp del: of_nat_add)
    with assms(4) show False by simp
  qed
  then show ?thesis using p(2) by simp
qed

lemma users_cut: "fst ` set (users p (cut_row t n ys)) = fst ` set (users p ((n, True) # ys))"
  if "SIZEOF_STRUCT_MEM + t \<le> n"
  using that by (cases "(t, n, ys)" rule: cut_row.cases) (auto simp: image_iff add.assoc)

lemma ram_ok_area [simp]: "ram_ok M (s\<lparr>area := d\<rparr>) bs = ram_ok M s bs"
  by (simp add: ram_ok_def)

lemma alloc_row:
  assumes "ram_ok M s bs" and "size_in < 2 ^ 16" and "mem_malloc M size_in s = Some (r, s')"
  shows "\<exists>bs'. ram_ok M s' bs' \<and> pointers bs' = pointers bs \<union> set_option r"
proof (cases "size_in = 0")
  case True
  then show ?thesis using assms by (auto simp: mem_malloc_def)
next
  case False
  then have pos: "0 < size_in" by simp
  note m = mem_malloc_takes [OF assms(1) pos assms(2)]
  show ?thesis
  proof (cases "first_fit (block_size size_in) 0 bs")
    case None
    then show ?thesis using m assms by auto
  next
    case (Some p)
    with m assms(3) have r: "r = Some (p + 8)" "ram_ok M s' (take_fit (block_size size_in) bs)" by auto
    from first_fit_Some [OF Some] obtain xs n ys where bs: "bs = xs @ (n, False) # ys" "p = extent xs"
      "SIZEOF_STRUCT_MEM + block_size size_in \<le> n"
      "take_fit (block_size size_in) bs = xs @ take_fit (block_size size_in) ((n, False) # ys)" by auto
    from users_take [OF bs(3), of "extent xs" ys] obtain k where
      "users (extent xs) (take_fit (block_size size_in) ((n, False) # ys)) =
        (extent xs + 8, k) # users (extent xs + n) ys" by blast
    then have "pointers (take_fit (block_size size_in) bs) = insert (p + 8) (pointers bs)"
      unfolding bs(4) unfolding bs(1,2) by (auto simp: pointers_def simp del: take_fit.simps)
    then show ?thesis using r by auto
  qed
qed

lemma store_row:
  assumes "ram_ok M s bs" and "q \<in> pointers bs"
    and "\<And>a. a < q \<or> mnext (hdr s (q - SIZEOF_STRUCT_MEM)) \<le> a \<Longrightarrow> h a = hdr s a"
  shows "ram_ok M (s\<lparr>hdr := h, area := d\<rparr>) bs"
proof -
  from pointers_block [OF assms(2)] obtain xs n ys where
    bs: "bs = xs @ (n, True) # ys" "q = extent xs + 8" .
  from assms(1) have l: "linked M s (xs @ [(n, True)] @ ys)" by (simp add: ram_ok_linked bs)
  then have p: "hdr s (extent xs) = \<lparr>mnext = extent xs + n, mprev = last_at 0 0 xs, mused = True\<rparr>"
    "20 \<le> n" "4 dvd n" using linked_at [of M s xs n True ys] by auto
  have h: "h a = hdr s a" if "a \<le> extent xs \<or> extent xs + n \<le> a" for a
    using assms(3) [of a] that p(1) by (auto simp: bs(2))
  have "linked M (s\<lparr>hdr := h, area := d\<rparr>) (xs @ [(n, True)] @ ys)"
  proof (rule linked_replace [OF l])
    show "hdr (s\<lparr>hdr := h, area := d\<rparr>) (extent xs + extent [(n, True)]) =
        (hdr s (extent xs + extent [(n, True)]))
          \<lparr>mprev := if ys = [] then M else last_at (last_at 0 0 xs) (extent xs) [(n, True)]\<rparr>"
      using linked_right [of M s xs n True ys] l by (simp add: h split: list.splits)
  qed (use p h in simp_all)
  then show ?thesis using assms(1) by (simp add: ram_ok_linked bs)
qed

lemma trim_row:
  assumes "ram_ok M s bs" and "q \<in> pointers bs" and "new_size < 2 ^ 16"
    and "mem_trim M (int q) new_size s = Some (r, s')"
  shows "\<exists>bs'. ram_ok M s' bs' \<and> pointers bs' = pointers bs"
proof -
  from pointers_block [OF assms(2)] obtain xs n ys where
    bs: "bs = xs @ (n, True) # ys" "q = extent xs + 8" .
  show ?thesis
  proof (cases "s' = s")
    case False
    have "8 + block_size new_size \<le> n"
      using mem_trim_only_shrinks [of M s xs n ys new_size r s'] assms(1,3,4) False
      by (simp add: ram_ok_linked bs)
    from mem_trim_cuts [OF assms(1) [unfolded bs(1)] assms(3) this]
    have "ram_ok M s' (xs @ cut_row (block_size new_size) n ys)"
      using assms(4) by (auto simp: bs(2) split: if_splits)
    moreover have "pointers (xs @ cut_row (block_size new_size) n ys) = pointers bs"
      using users_cut [OF \<open>8 + block_size new_size \<le> n\<close>, of "extent xs" ys]
      by (simp add: pointers_def bs(1) image_Un)
    ultimately show ?thesis by blast
  qed (use assms(1) in blast)
qed

lemma release_row:
  assumes "ram_ok M s bs" and "q \<in> pointers bs"
  shows "\<exists>s' bs'. mem_free M (Some (int q)) s = Some s' \<and> ram_ok M s' bs' \<and>
    pointers bs' = pointers bs - {q}"
proof -
  from pointers_block [OF assms(2)] obtain xs n ys where
    bs: "bs = xs @ (n, True) # ys" "q = extent xs + 8" .
  have "pointers (coalesce (xs @ (n, False) # ys)) = pointers bs - {q}"
  proof -
    have "pointers (coalesce (xs @ (n, False) # ys)) = pointers (xs @ (n, False) # ys)"
      by (simp only: pointers_def users_coalesce)
    moreover have "laid (hdr s) 0 0 (xs @ (n, True) # ys) M" using assms(1) by (simp add: ram_ok_def bs(1))
    ultimately show ?thesis using pointers_release unfolding bs by metis
  qed
  moreover from mem_free_releases [OF assms(1) [unfolded bs(1)]] obtain s' where
    "mem_free M (Some (int (extent xs + 8))) s = Some s'"
    "ram_ok M s' (coalesce (xs @ (n, False) # ys))" by (elim exE conjE)
  ultimately show ?thesis
    by (intro exI [of _ s'] exI [of _ "coalesce (xs @ (n, False) # ys)"]) (simp only: bs(2) simp_thms)
qed

lemma mem_calloc_row:
  assumes "mem_calloc M count sz s = Some (r, s')"
  obtains "r = None" "s' = s"
  | size_in t d where "size_in < 2 ^ 16" "mem_malloc M size_in s = Some (r, t)" "s' = t\<lparr>area := d\<rparr>"
proof -
  obtain n :: nat where n: "n = count * sz mod 2 ^ 32" by simp
  note c = assms [unfolded mem_calloc_def Let_def n [symmetric]]
  show ?thesis
  proof (cases "n mod 2 ^ 16 = n")
    case True
    from True have lt: "n < 2 ^ 16" by (metis mod_less_divisor zero_less_numeral zero_less_power)
    from c True obtain p t where m: "mem_malloc M n s = Some (p, t)"
      and k: "(case p of None \<Rightarrow> Some (None, t)
        | Some q \<Rightarrow> Some (p, t\<lparr>area := (\<lambda>a. if q \<le> a \<and> a < q + n then 0 else area t a)\<rparr>)) = Some (r, s')"
      by (auto split: Option.bind_splits)
    show ?thesis
    proof (cases p)
      case None
      from that(2) [OF lt, of t "area t"] m k show ?thesis by (simp add: None)
    next
      case (Some q)
      from k have "r = p" "s' = t\<lparr>area := (\<lambda>a. if q \<le> a \<and> a < q + n then 0 else area t a)\<rparr>"
        by (simp_all add: Some)
      with that(2) [OF lt, of t] m show ?thesis by simp
    qed
  qed (use c that(1) in auto)
qed

lemma ram_run_row:
  assumes "ram_run M s U" and "20 \<le> M" "4 dvd M" "M \<le> 64000"
  shows "\<exists>bs. ram_ok M s bs \<and> pointers bs = U"
  using assms(1)
proof induction
  case (start s)
  show ?case using mem_init_ok [OF assms(2-4)] by (fastforce simp: pointers_def)
next
  case (alloc s U size_in r s')
  then obtain bs where "ram_ok M s bs" "pointers bs = U" by blast
  with alloc_row [OF this(1) alloc.hyps(2,3)] show ?case by simp
next
  case (zalloc s U count sz r s')
  then obtain bs where bs: "ram_ok M s bs" "pointers bs = U" by blast
  from mem_calloc_row [OF zalloc.hyps(2)] show ?case
  proof cases
    case (2 size_in t d)
    from alloc_row [OF bs(1) 2(1,2)] show ?thesis using 2(3) bs(2) by auto
  qed (use bs in auto)
next
  case (release s U q s')
  then obtain bs where bs: "ram_ok M s bs" "pointers bs = U" by blast
  with release_row [OF bs(1), of q] release.hyps(2,3) show ?case by auto
next
  case (trim_ptr s U q new_size r s')
  then obtain bs where bs: "ram_ok M s bs" "pointers bs = U" by blast
  with trim_row [OF bs(1) _ trim_ptr.hyps(3,4)] trim_ptr.hyps(2) show ?case by simp
next
  case (store s U q h d)
  then obtain bs where "ram_ok M s bs" "pointers bs = U" by blast
  with store_row [OF this(1) _ store.hyps(3), of q d] store.hyps(2) show ?case by blast
qed

lemma malloc_defined:
  assumes "ram_ok M s bs" and "size_in < 2 ^ 16"
  shows "mem_malloc M size_in s \<noteq> None"
proof (cases "size_in = 0")
  case False
  then show ?thesis
    using mem_malloc_takes [OF assms(1) _ assms(2)]
    by (cases "first_fit (block_size size_in) 0 bs") auto
qed (simp add: mem_malloc_def)

section \<open>What the users of the heap may rely on\<close>

text \<open>
  C23. However allocations, releases, trims and writes of the users follow each other, the heap is a
  row of blocks without two free neighbours whose used ones are exactly the areas that are held,
  with the lowest free one remembered; these areas do not touch each other's headers or octets; and
  an allocation of any size and the release of any area that is held end without a failed assertion.
\<close>

theorem ram_run_safe:
  assumes "ram_run M s U" and "20 \<le> M" "4 dvd M" "M \<le> 64000"
  shows "(\<exists>bs. ram_ok M s bs \<and> pointers bs = U \<and>
      sorted_wrt (\<lambda>(a, l) (b, k). a + l + SIZEOF_STRUCT_MEM \<le> b) (users 0 bs)) \<and>
    (\<forall>size_in < 2 ^ 16. mem_malloc M size_in s \<noteq> None) \<and>
    (\<forall>q \<in> U. mem_free M (Some (int q)) s \<noteq> None)"
proof -
  from ram_run_row [OF assms] obtain bs where bs: "ram_ok M s bs" "pointers bs = U" by blast
  then have "sorted_wrt (\<lambda>(a, l) (b, k). a + l + 8 \<le> b) (users 0 bs)"
    using users_apart by (auto simp: ram_ok_def)
  moreover have "mem_free M (Some (int q)) s \<noteq> None" if "q \<in> U" for q
    using release_row [OF bs(1), of q] that bs(2) by auto
  ultimately show ?thesis using bs malloc_defined [OF bs(1)] by blast
qed

text \<open>A heap of the default size, from which an area of 48 octets is taken and given back.\<close>

definition blank_ram :: lwip_ram where
  "blank_ram = \<lparr>hdr = (\<lambda>p. \<lparr>mnext = 0, mprev = 0, mused = False\<rparr>), lfree = 0, area = (\<lambda>a. 0)\<rparr>"

lemma blank_ram_alloc:
  "\<exists>s'. mem_malloc 1600 48 (mem_init 1600 blank_ram) = Some (Some 8, s') \<and> ram_run 1600 s' {8}"
proof -
  have ok: "ram_ok 1600 (mem_init 1600 blank_ram) [(1600, False)]" by (rule mem_init_ok) simp_all
  have b: "block_size 48 = 48" by (simp add: block_size_def LWIP_MEM_ALIGN_SIZE_def)
  have "first_fit (block_size 48) 0 [(1600, False)] = Some 0" by (simp add: b)
  with mem_malloc_takes [OF ok, of 48] obtain s' where
    s': "mem_malloc 1600 48 (mem_init 1600 blank_ram) = Some (Some 8, s')" by auto
  moreover have "ram_run 1600 s' ({} \<union> set_option (Some 8))"
    by (rule ram_run.alloc [OF ram_run.start _ s']) simp
  ultimately show ?thesis by auto
qed

lemma ram_run_safe_witness:
  "\<exists>s'. mem_malloc 1600 48 (mem_init 1600 blank_ram) = Some (Some 8, s') \<and>
     mem_free 1600 (Some 8) s' \<noteq> None \<and> mem_malloc 1600 2000 s' \<noteq> None"
proof -
  obtain s' where s': "mem_malloc 1600 48 (mem_init 1600 blank_ram) = Some (Some 8, s')" "ram_run 1600 s' {8}"
    using blank_ram_alloc by blast
  from ram_run_safe [OF s'(2)] have "\<forall>size_in < 2 ^ 16. mem_malloc 1600 size_in s' \<noteq> None"
    "mem_free 1600 (Some 8) s' \<noteq> None" by simp_all
  then show ?thesis using s'(1) by (intro exI [of _ s']) simp
qed

lemma first_fit_None: "first_fit sz p bs = None \<Longrightarrow> (n, False) \<in> set bs \<Longrightarrow> n < SIZEOF_STRUCT_MEM + sz"
  by (induction bs arbitrary: p) (auto split: if_splits)

text \<open>
  An allocation hands out an aligned area of at least the size asked for that was nobody's, or there
  is no free block with room for it; giving the area back leaves the heap as it was.
\<close>

theorem malloc_then_free:
  assumes "ram_ok M s bs" and "0 < size_in" "size_in < 2 ^ 16"
  shows "mem_malloc M size_in s = Some (None, s) \<and>
      (\<forall>n. (n, False) \<in> set bs \<longrightarrow> n < SIZEOF_STRUCT_MEM + block_size size_in) \<or>
    (\<exists>q k s' bs' s''. mem_malloc M size_in s = Some (Some q, s') \<and> ram_ok M s' bs' \<and>
      size_in \<le> k \<and> 4 dvd q \<and> q \<notin> pointers bs \<and>
      set (users 0 bs') = insert (q, k) (set (users 0 bs)) \<and>
      mem_free M (Some (int q)) s' = Some s'' \<and> ram_ok M s'' bs)"
proof (cases "first_fit (block_size size_in) 0 bs")
  case None
  with mem_malloc_takes [OF assms] first_fit_None [OF None] show ?thesis by auto
next
  case (Some p)
  let ?sz = "block_size size_in"
  from mem_malloc_takes [OF assms] Some obtain s' where
    s': "mem_malloc M size_in s = Some (Some (p + 8), s')" "ram_ok M s' (take_fit ?sz bs)" by auto
  from first_fit_Some [OF Some] obtain xs n ys where bs: "bs = xs @ (n, False) # ys" "p = extent xs"
    "SIZEOF_STRUCT_MEM + ?sz \<le> n" "take_fit ?sz bs = xs @ take_fit ?sz ((n, False) # ys)" by auto
  have l: "linked M s (xs @ (n, False) # ys)" and pl: "plugged (xs @ (n, False) # ys)"
    using assms(1) by (simp_all add: ram_ok_linked bs(1))
  from users_take [OF bs(3), of "extent xs" ys] obtain k where k: "?sz \<le> k"
    "users (extent xs) (take_fit ?sz ((n, False) # ys)) = (p + 8, k) # users (extent xs + n) ys"
    unfolding bs(2) by blast
  from k(2) have us: "set (users 0 (take_fit ?sz bs)) = insert (p + 8, k) (set (users 0 bs))"
    unfolding bs(4) unfolding bs(1) by (auto simp del: take_fit.simps)
  obtain m zs where m: "take_fit ?sz ((n, False) # ys) = (m, True) # zs"
    "\<And>xs. coalesce (xs @ (m, False) # zs) = coalesce (xs @ (n, False) # ys)"
    using take_fit_row [OF bs(3)] by blast
  have "coalesce (xs @ (m, False) # zs) = bs" unfolding m(2) bs(1) by (rule coalesce_plugged [OF pl])
  from mem_free_releases [OF s'(2) [unfolded bs(4) m(1)], unfolded this, folded bs(2)]
  obtain s'' where f: "mem_free M (Some (int (p + 8))) s' = Some s''" "ram_ok M s'' bs"
    by (elim exE conjE) (rule that)
  have al: "4 dvd p + 8" using linked_at(5) [OF l] by (simp add: bs(2))
  have new: "p + 8 \<notin> pointers bs"
  proof -
    from l have f: "laid (hdr s) 0 0 xs p" "laid (hdr s) p (p + n) ys M"
      by (simp_all add: linked_def laid_append bs(2))
    then show ?thesis
      using users_in [OF f(1)] users_in [OF f(2)] linked_at(2) [OF l]
      by (fastforce simp: pointers_def bs(1,2))
  qed
  have "size_in \<le> k" using k(1) block_size(2) [of size_in] by simp
  with s' us f al new show ?thesis
    by (intro disjI2 exI [of _ "p + 8"] exI [of _ k] exI [of _ s'] exI [of _ "take_fit ?sz bs"]
        exI [of _ s'']) (simp only: simp_thms)
qed

text \<open>
  A heap of the default size, one area over all of it: cutting it down to a hundred octets, which the
  interface allows, runs into the assertion on the next block.
\<close>

lemma trim_of_last_block:
  "ram_ok 1600 s [(1600, True)] \<Longrightarrow> mem_trim 1600 8 100 s = None"
  using mem_trim_cuts [of 1600 s "[]" 1600 "[]" 100]
  by (simp add: block_size_def LWIP_MEM_ALIGN_SIZE_def)

end
